(* ===== verification/Prelude.thy ===== *)
theory Prelude
  imports Main "HOL-Library.Char_ord" "HOL-Library.List_Lexorder"
begin

section \<open>Prelude: text, JSON, tables and the contracts the components share\<close>

text \<open>
  What every component of the development uses:
  \<^item> names for the types of the model (user ids, instants, texts);
  \<^item> the operations of Python's \<open>str\<close>, \<open>int\<close> and \<open>json\<close> that the orchestrator calls,
    on texts whose characters are the code points below 256;
  \<^item> relational tables as lists of rows, with the SQL statements of the code as list
    operations (\<open>update_where\<close>, \<open>t_upsert\<close>, \<open>t_delete\<close>, \<open>least_by\<close>);
  \<^item> the contracts shared by several components, as locales: systems with an invariant,
    a read-through cache over a store, and a ledger of work that is retried.
  Instants and durations are integers (microseconds, the resolution of the code's
  \<open>datetime\<close>); \<open>NOW()\<close> and the clocks of the code are arguments of the operations.
\<close>

type_synonym text_t = string
type_synonym user_id = string
type_synonym instant = int

named_theorems step_defs \<open>definitions of the operations of a component\<close>
named_theorems frame \<open>what an operation leaves unchanged\<close>

subsection \<open>Texts\<close>

definition code_point :: "char \<Rightarrow> nat" where
  "code_point c = of_char c"

definition py_space :: "char \<Rightarrow> bool" where
  "py_space c = (let n = code_point c in
     (9 \<le> n \<and> n \<le> 13) \<or> (28 \<le> n \<and> n \<le> 32) \<or> n = 133 \<or> n = 160)"

definition py_lstrip :: "string \<Rightarrow> string" where
  "py_lstrip s = dropWhile py_space s"

definition py_rstrip :: "string \<Rightarrow> string" where
  "py_rstrip s = rev (dropWhile py_space (rev s))"

definition py_strip :: "string \<Rightarrow> string" where
  "py_strip s = py_rstrip (py_lstrip s)"

definition lower_char :: "char \<Rightarrow> char" where
  "lower_char c = (let n = code_point c in
     if (65 \<le> n \<and> n \<le> 90) \<or> (192 \<le> n \<and> n \<le> 222 \<and> n \<noteq> 215) then char_of (n + 32) else c)"

definition py_lower :: "string \<Rightarrow> string" where
  "py_lower s = map lower_char s"

definition is_digit :: "char \<Rightarrow> bool" where
  "is_digit c = (48 \<le> code_point c \<and> code_point c \<le> 57)"

definition is_lower_letter :: "char \<Rightarrow> bool" where
  "is_lower_letter c = (97 \<le> code_point c \<and> code_point c \<le> 122)"

definition starts_with :: "string \<Rightarrow> string \<Rightarrow> bool" where
  "starts_with p s = (take (length p) s = p)"

fun is_infix_of :: "string \<Rightarrow> string \<Rightarrow> bool" where
  "is_infix_of p [] = (p = [])"
| "is_infix_of p (c # cs) = (starts_with p (c # cs) \<or> is_infix_of p cs)"

text \<open>
  \<open>int(raw)\<close> on a text: surrounding white space, a sign, then decimal digits with single
  underscores between them; \<open>None\<close> is the \<open>ValueError\<close>.
\<close>

fun int_digits :: "int \<Rightarrow> bool \<Rightarrow> string \<Rightarrow> int option" where
  "int_digits acc prev [] = (if prev then Some acc else None)"
| "int_digits acc prev (c # cs) =
     (if is_digit c then int_digits (acc * 10 + (int (code_point c) - 48)) True cs
      else if c = CHR ''_'' \<and> prev then int_digits acc False cs
      else None)"

fun signed_digits :: "string \<Rightarrow> int option" where
  "signed_digits [] = None"
| "signed_digits (c # cs) =
     (if c = CHR ''+'' then int_digits 0 False cs
      else if c = CHR ''-'' then map_option uminus (int_digits 0 False cs)
      else int_digits 0 False (c # cs))"

definition py_int :: "string \<Rightarrow> int option" where
  "py_int s = signed_digits (py_strip s)"

fun show_nat :: "nat \<Rightarrow> string" where
  "show_nat n = (if n < 10 then [char_of (48 + n)]
                 else show_nat (n div 10) @ [char_of (48 + n mod 10)])"

declare show_nat.simps [simp del]

definition show_int :: "int \<Rightarrow> string" where
  "show_int i = (if i < 0 then CHR ''-'' # show_nat (nat (- i)) else show_nat (nat i))"

fun join :: "string \<Rightarrow> string list \<Rightarrow> string" where
  "join sep [] = []"
| "join sep [x] = x"
| "join sep (x # y # ys) = x @ sep @ join sep (y # ys)"

text \<open>\<open>s.split(d)\<close> for a separator of one character.\<close>

fun split_on :: "char \<Rightarrow> string \<Rightarrow> string list" where
  "split_on d [] = [[]]"
| "split_on d (c # cs) = (if c = d then [] # split_on d cs
     else case split_on d cs of [] \<Rightarrow> [[c]] | w # ws \<Rightarrow> (c # w) # ws)"

text \<open>\<open>repr(s)\<close>: single quotes unless the text holds one and no double quote.\<close>

definition hex_digit :: "nat \<Rightarrow> char" where
  "hex_digit n = (if n < 10 then char_of (48 + n) else char_of (87 + n))"

definition repr_char :: "char \<Rightarrow> char \<Rightarrow> string" where
  "repr_char q c = (let n = code_point c in
     if c = q \<or> n = 92 then [char_of (92::nat), c]
     else if n = 10 then [char_of (92::nat), CHR ''n'']
     else if n = 13 then [char_of (92::nat), CHR ''r'']
     else if n = 9 then [char_of (92::nat), CHR ''t'']
     else if n < 32 \<or> (127 \<le> n \<and> n \<le> 160) \<or> n = 173
       then [char_of (92::nat), CHR ''x'', hex_digit (n div 16), hex_digit (n mod 16)]
     else [c])"

definition py_repr :: "string \<Rightarrow> string" where
  "py_repr s = (let sq = char_of (39::nat); dq = char_of (34::nat);
                    q = (if sq \<in> set s \<and> dq \<notin> set s then dq else sq)
                in [q] @ concat (map (repr_char q) s) @ [q])"

subsection \<open>JSON values and \<open>json.dumps\<close>\<close>

text \<open>
  The payloads of the code are dictionaries of JSON values, in insertion order.
  \<open>dumps\<close> is \<open>json.dumps\<close> with its default separators and \<open>ensure_ascii\<close>.
\<close>

datatype json = JNull | JBool bool | JInt int | JStr string
  | JList "json list" | JObj "(string \<times> json) list"

type_synonym json_obj = "(string \<times> json) list"

definition escape_char :: "char \<Rightarrow> string" where
  "escape_char c = (let n = code_point c in
     if n = 34 \<or> n = 92 then [char_of (92::nat), c]
     else if n = 10 then [char_of (92::nat), CHR ''n'']
     else if n = 13 then [char_of (92::nat), CHR ''r'']
     else if n = 9 then [char_of (92::nat), CHR ''t'']
     else if n = 8 then [char_of (92::nat), CHR ''b'']
     else if n = 12 then [char_of (92::nat), CHR ''f'']
     else if 32 \<le> n \<and> n \<le> 126 then [c]
     else [char_of (92::nat), CHR ''u'', CHR ''0'', CHR ''0'',
           hex_digit (n div 16), hex_digit (n mod 16)])"

definition quoted :: "string \<Rightarrow> string" where
  "quoted s = [char_of (34::nat)] @ concat (map escape_char s) @ [char_of (34::nat)]"

fun dumps :: "json \<Rightarrow> string" where
  "dumps JNull = ''null''"
| "dumps (JBool b) = (if b then ''true'' else ''false'')"
| "dumps (JInt i) = show_int i"
| "dumps (JStr s) = quoted s"
| "dumps (JList xs) = ''['' @ join '', '' (map dumps xs) @ '']''"
| "dumps (JObj kvs) = ''{'' @ join '', '' (map (\<lambda>(k, v). quoted k @ '': '' @ dumps v) kvs) @ ''}''"

fun json_truthy :: "json \<Rightarrow> bool" where
  "json_truthy JNull = False"
| "json_truthy (JBool b) = b"
| "json_truthy (JInt i) = (i \<noteq> 0)"
| "json_truthy (JStr s) = (s \<noteq> [])"
| "json_truthy (JList xs) = (xs \<noteq> [])"
| "json_truthy (JObj kvs) = (kvs \<noteq> [])"

definition opt_str :: "string option \<Rightarrow> json" where
  "opt_str x = (case x of None \<Rightarrow> JNull | Some s \<Rightarrow> JStr s)"

text \<open>\<open>d[k] = v\<close> on a dictionary kept in insertion order.\<close>

fun dict_set :: "'k \<Rightarrow> 'v \<Rightarrow> ('k \<times> 'v) list \<Rightarrow> ('k \<times> 'v) list" where
  "dict_set k v [] = [(k, v)]"
| "dict_set k v ((k', v') # d) = (if k' = k then (k, v) # d else (k', v') # dict_set k v d)"

lemma map_of_dict_set [simp]: "map_of (dict_set k v d) = (map_of d)(k \<mapsto> v)"
  by (induction k v d rule: dict_set.induct) auto

lemma set_fst_dict_set: "fst ` set (dict_set k v d) = insert k (fst ` set d)"
  by (induction k v d rule: dict_set.induct) auto

lemma distinct_fst_dict_set:
  "distinct (map fst d) \<Longrightarrow> distinct (map fst (dict_set k v d))"
  by (induction k v d rule: dict_set.induct) (auto simp: set_fst_dict_set)

lemma map_of_rev_distinct: "distinct (map fst d) \<Longrightarrow> map_of (rev d) = map_of d"
  by (simp add: map_of_inject_set flip: rev_map)

subsection \<open>First occurrences\<close>

text \<open>
  The loop \<open>for x in xs: if x not in seen: seen.add(x); out.append(x)\<close>, which several
  components use.
\<close>

fun dedup_from :: "'a list \<Rightarrow> 'a list \<Rightarrow> 'a list" where
  "dedup_from out [] = out"
| "dedup_from out (x # xs) = (if x \<in> set out then dedup_from out xs else dedup_from (out @ [x]) xs)"

lemma set_dedup_from [simp]: "set (dedup_from out xs) = set out \<union> set xs"
  by (induction out xs rule: dedup_from.induct) auto

lemma distinct_dedup_from [simp]: "distinct out \<Longrightarrow> distinct (dedup_from out xs)"
  by (induction out xs rule: dedup_from.induct) auto

lemma dedup_from_id: "distinct (out @ xs) \<Longrightarrow> dedup_from out xs = out @ xs"
  by (induction out xs rule: dedup_from.induct) auto

subsection \<open>Tables\<close>

text \<open>
  A table is the list of its rows. \<open>update_where p f\<close> is \<open>UPDATE ... SET f WHERE p\<close>;
  \<open>t_upsert\<close> is \<open>INSERT ... ON CONFLICT (key) DO UPDATE\<close>; \<open>least_by\<close> is
  \<open>ORDER BY key ASC LIMIT 1\<close>.
\<close>

definition update_where :: "('r \<Rightarrow> bool) \<Rightarrow> ('r \<Rightarrow> 'r) \<Rightarrow> 'r list \<Rightarrow> 'r list" where
  "update_where p f rows = map (\<lambda>r. if p r then f r else r) rows"

definition t_find :: "('r \<Rightarrow> 'k) \<Rightarrow> 'k \<Rightarrow> 'r list \<Rightarrow> 'r option" where
  "t_find key k rows = find (\<lambda>r. key r = k) rows"

definition t_upsert :: "('r \<Rightarrow> 'k) \<Rightarrow> ('r \<Rightarrow> 'r) \<Rightarrow> 'r \<Rightarrow> 'r list \<Rightarrow> 'r list" where
  "t_upsert key f new rows =
     (if key new \<in> set (map key rows)
      then update_where (\<lambda>r. key r = key new) f rows
      else rows @ [new])"

definition t_delete :: "('r \<Rightarrow> 'k) \<Rightarrow> 'k \<Rightarrow> 'r list \<Rightarrow> 'r list" where
  "t_delete key k rows = filter (\<lambda>r. key r \<noteq> k) rows"

fun least_by :: "('r \<Rightarrow> int) \<Rightarrow> 'r list \<Rightarrow> 'r option" where
  "least_by key [] = None"
| "least_by key (r # rs) =
     (case least_by key rs of
        None \<Rightarrow> Some r
      | Some m \<Rightarrow> if key r \<le> key m then Some r else Some m)"

lemma length_update_where [simp]: "length (update_where p f rows) = length rows"
  by (simp add: update_where_def)

lemma set_update_where:
  "set (update_where p f rows) = {r \<in> set rows. \<not> p r} \<union> f ` {r \<in> set rows. p r}"
  by (auto simp: update_where_def image_iff)

lemma in_update_whereE:
  assumes "r' \<in> set (update_where p f rows)"
  obtains (kept) "r' \<in> set rows" "\<not> p r'" | (updated) r where "r \<in> set rows" "p r" "r' = f r"
  using assms by (auto simp: set_update_where)

lemma find_append_Some: "find p xs = Some x \<Longrightarrow> find p (xs @ ys) = Some x"
  by (induction xs) (auto split: if_splits)

lemma map_key_update_where:
  "(\<And>r. p r \<Longrightarrow> key (f r) = key r) \<Longrightarrow> map key (update_where p f rows) = map key rows"
  by (induction rows) (auto simp: update_where_def)

lemma update_where_none: "(\<And>r. r \<in> set rows \<Longrightarrow> \<not> p r) \<Longrightarrow> update_where p f rows = rows"
  by (induction rows) (auto simp: update_where_def)

lemma update_where_Cons [simp]:
  "update_where p f (r # rows) = (if p r then f r else r) # update_where p f rows"
  by (simp add: update_where_def)

lemma update_where_Nil [simp]: "update_where p f [] = []"
  by (simp add: update_where_def)

lemma update_where_append [simp]:
  "update_where p f (rows @ rows') = update_where p f rows @ update_where p f rows'"
  by (simp add: update_where_def)

lemma t_find_Some: "t_find key k rows = Some r \<Longrightarrow> r \<in> set rows \<and> key r = k"
  by (auto simp: t_find_def find_Some_iff)

lemma t_find_None: "t_find key k rows = None \<longleftrightarrow> k \<notin> set (map key rows)"
  by (auto simp: t_find_def find_None_iff)

lemma t_find_Cons: "t_find key k (r # rows) = (if key r = k then Some r else t_find key k rows)"
  by (simp add: t_find_def)

lemma t_find_Nil [simp]: "t_find key k [] = None"
  by (simp add: t_find_def)

lemma t_find_append:
  "t_find key k (rows @ rows') = (case t_find key k rows of None \<Rightarrow> t_find key k rows' | Some r \<Rightarrow> Some r)"
  by (induction rows) (auto simp: t_find_Cons)

lemma t_find_update_where:
  assumes "\<And>r. p r \<Longrightarrow> key (f r) = key r"
  shows "t_find key k (update_where p f rows) =
    map_option (\<lambda>r. if p r then f r else r) (t_find key k rows)"
  using assms by (induction rows) (auto simp: t_find_Cons)

lemma t_find_upsert:
  assumes "\<And>r. key (f r) = key r"
  shows "t_find key k (t_upsert key f new rows) =
    (if k = key new
     then Some (case t_find key k rows of None \<Rightarrow> new | Some r \<Rightarrow> f r)
     else t_find key k rows)"
proof (cases "key new \<in> set (map key rows)")
  case True
  then obtain x where x: "t_find key (key new) rows = Some x" "key x = key new"
    using t_find_None [of key "key new" rows] by (cases "t_find key (key new) rows") (auto dest: t_find_Some)
  show ?thesis
  proof (cases "t_find key k rows")
    case None
    with True x assms show ?thesis by (auto simp: t_upsert_def t_find_update_where)
  next
    case (Some r)
    then have "key r = k" by (auto dest: t_find_Some)
    with Some True assms show ?thesis by (auto simp: t_upsert_def t_find_update_where)
  qed
next
  case False
  then have "t_find key (key new) rows = None" by (simp add: t_find_None)
  with False show ?thesis
    by (auto simp: t_upsert_def t_find_append t_find_Cons split: option.splits)
qed

lemma t_find_delete:
  "t_find key k (t_delete key k' rows) = (if k = k' then None else t_find key k rows)"
  by (induction rows) (auto simp: t_delete_def t_find_Cons)

lemma distinct_upsert:
  "(\<And>r. key (f r) = key r) \<Longrightarrow> distinct (map key rows) \<Longrightarrow> distinct (map key (t_upsert key f new rows))"
  by (auto simp: t_upsert_def map_key_update_where)

lemma distinct_t_delete:
  "distinct (map key rows) \<Longrightarrow> distinct (map key (t_delete key k rows))"
  by (induction rows) (auto simp: t_delete_def)

lemma t_find_unique:
  "distinct (map key rows) \<Longrightarrow> r \<in> set rows \<Longrightarrow> t_find key (key r) rows = Some r"
  by (induction rows) (auto simp: t_find_Cons)

lemma find_by_key:
  assumes "distinct (map key rows)"
  shows "find (\<lambda>r. key r = k \<and> p r) rows =
    (case t_find key k rows of None \<Rightarrow> None | Some r \<Rightarrow> if p r then Some r else None)"
  using assms
proof (induction rows)
  case Nil
  then show ?case by simp
next
  case (Cons x rows)
  show ?case
  proof (cases "key x = k")
    case True
    then have "find (\<lambda>r. key r = k \<and> p r) rows = None"
      using Cons.prems by (auto simp: find_None_iff image_iff)
    with True show ?thesis by (simp add: t_find_Cons)
  next
    case False
    with Cons show ?thesis by (simp add: t_find_Cons)
  qed
qed

lemma t_find_update_row:
  assumes "t_find key k rows = Some r" and "p r" and "\<And>x. p x \<Longrightarrow> key x = k" and "\<And>x. key (f x) = key x"
  shows "t_find key k (update_where p f rows) = Some (f r)"
    and "j \<noteq> k \<Longrightarrow> t_find key j (update_where p f rows) = t_find key j rows"
    and "map key (update_where p f rows) = map key rows"
proof -
  have f: "t_find key j (update_where p f rows) = map_option (\<lambda>x. if p x then f x else x) (t_find key j rows)" for j
    using assms(4) by (rule t_find_update_where)
  show "t_find key k (update_where p f rows) = Some (f r)" using f [of k] assms(1,2) by simp
  show "t_find key j (update_where p f rows) = t_find key j rows" if "j \<noteq> k"
    using f [of j] that assms(3) t_find_Some [of key j rows] by (cases "t_find key j rows") auto
  show "map key (update_where p f rows) = map key rows" using assms(4) by (rule map_key_update_where)
qed

lemma least_by_None [simp]: "least_by key rows = None \<longleftrightarrow> rows = []"
  by (cases rows) (auto split: option.splits)

lemma least_by_Some:
  "least_by key rows = Some r \<Longrightarrow> r \<in> set rows \<and> (\<forall>r' \<in> set rows. key r \<le> key r')"
proof (induction rows arbitrary: r)
  case Nil
  then show ?case by simp
next
  case (Cons x rows)
  then show ?case by (fastforce split: option.splits if_splits)
qed

lemma least_by_least: "least_by key rows = Some r \<Longrightarrow> r' \<in> set rows \<Longrightarrow> key r \<le> key r'"
  by (blast dest: least_by_Some)

lemma least_by_in: "least_by key rows = Some r \<Longrightarrow> r \<in> set rows"
  by (blast dest: least_by_Some)

subsection \<open>Contract: a system with an invariant\<close>

text \<open>
  A component whose operations are the steps of a relation. \<open>good\<close> is an invariant of
  every step, hence of every state reached from a good one; \<open>final\<close> marks the objects a
  step never takes out of their final state.
\<close>

locale invariant_system =
  fixes step :: "'s \<Rightarrow> 's \<Rightarrow> bool"
    and good :: "'s \<Rightarrow> bool"
  assumes step_good: "good s \<Longrightarrow> step s t \<Longrightarrow> good t"
begin

lemma reach_good: "step\<^sup>*\<^sup>* s t \<Longrightarrow> good s \<Longrightarrow> good t"
  by (induction rule: rtranclp_induct) (auto intro: step_good)

end

locale final_system = invariant_system step good
  for step :: "'s \<Rightarrow> 's \<Rightarrow> bool" and good :: "'s \<Rightarrow> bool" +
  fixes final :: "'s \<Rightarrow> 'k \<Rightarrow> bool"
  assumes step_final: "good s \<Longrightarrow> step s t \<Longrightarrow> final s k \<Longrightarrow> final t k"
begin

lemma reach_final: "step\<^sup>*\<^sup>* s t \<Longrightarrow> good s \<Longrightarrow> final s k \<Longrightarrow> final t k"
proof (induction rule: rtranclp_induct)
  case base
  then show ?case by simp
next
  case (step t u)
  then show ?case by (meson reach_good step_final)
qed

end

text \<open>A machine driven by events: the same contract over a transition function.\<close>

locale event_machine =
  fixes apply_event :: "'s \<Rightarrow> 'e \<Rightarrow> 's"
    and good :: "'s \<Rightarrow> bool"
  assumes event_good: "good s \<Longrightarrow> good (apply_event s e)"
begin

lemma run_good: "good s \<Longrightarrow> good (foldl apply_event s es)"
  by (induction es arbitrary: s) (auto intro: event_good)

end

text \<open>The same where only some events are admitted.\<close>

locale guarded_machine =
  fixes apply_event :: "'s \<Rightarrow> 'e \<Rightarrow> 's"
    and admitted :: "'e \<Rightarrow> bool"
    and good :: "'s \<Rightarrow> bool"
  assumes admitted_good: "good s \<Longrightarrow> admitted e \<Longrightarrow> good (apply_event s e)"
begin

lemma admitted_run_good: "good s \<Longrightarrow> list_all admitted es \<Longrightarrow> good (foldl apply_event s es)"
  by (induction es arbitrary: s) (auto intro: admitted_good)

end

sublocale event_machine \<subseteq> guarded_machine apply_event "\<lambda>_. True" good
  by unfold_locales (rule event_good)

subsection \<open>Contract: a read-through cache\<close>

definition cache_coherent :: "('k \<Rightarrow> 'v) \<Rightarrow> ('k \<rightharpoonup> 'v) \<Rightarrow> bool" where
  "cache_coherent stored cache \<longleftrightarrow> (\<forall>k v. cache k = Some v \<longrightarrow> v = stored k)"

lemma cache_coherentD: "cache_coherent stored cache \<Longrightarrow> cache k = Some v \<Longrightarrow> v = stored k"
  by (simp add: cache_coherent_def)

locale read_through_cache =
  fixes stored :: "'s \<Rightarrow> 'k \<Rightarrow> 'v"
    and cached :: "'s \<Rightarrow> 'k \<rightharpoonup> 'v"
    and load :: "'k \<Rightarrow> 's \<Rightarrow> 'v \<times> 's"
    and drop_slot :: "'k \<Rightarrow> 's \<Rightarrow> 's"
  assumes load_hit: "cached s k = Some v \<Longrightarrow> load k s = (v, s)"
    and load_miss: "cached s k = None \<Longrightarrow> fst (load k s) = stored s k"
    and load_fills: "cached s k = None \<Longrightarrow> cached (snd (load k s)) = (cached s)(k \<mapsto> stored s k)"
    and load_stored: "stored (snd (load k s)) = stored s"
    and drop_cached: "cached (drop_slot k s) = (cached s)(k := None)"
    and drop_stored: "stored (drop_slot k s) = stored s"
begin

lemma load_value:
  assumes "cache_coherent (stored s) (cached s)"
  shows "fst (load k s) = stored s k"
proof (cases "cached s k")
  case None
  then show ?thesis by (rule load_miss)
next
  case (Some v)
  with assms show ?thesis by (simp add: load_hit cache_coherentD)
qed

lemma load_coherent:
  assumes "cache_coherent (stored s) (cached s)"
  shows "cache_coherent (stored (snd (load k s))) (cached (snd (load k s)))"
proof (cases "cached s k")
  case None
  with assms show ?thesis by (auto simp: load_stored load_fills cache_coherent_def)
next
  case (Some v)
  with assms show ?thesis by (simp add: load_hit)
qed

text \<open>A write of one key followed by dropping its slot keeps the cache coherent.\<close>

lemma write_drop_coherent:
  assumes "cache_coherent (stored s) (cached s)"
    and "cached s' = cached s" and "\<And>k'. k' \<noteq> k \<Longrightarrow> stored s' k' = stored s k'"
  shows "cache_coherent (stored (drop_slot k s')) (cached (drop_slot k s'))"
  using assms by (auto simp: cache_coherent_def drop_stored drop_cached)

end

subsection \<open>Contract: work that is retried\<close>

text \<open>
  A row of a work ledger carries a count of failed attempts. Failing it below the limit puts it
  back in the queue, at the limit it is dead. Alternating claims and failures then kills a
  row after exactly as many rounds as are left.
\<close>

locale retry_ledger =
  fixes attempts :: "'r \<Rightarrow> int"
    and queued :: "'r \<Rightarrow> bool"
    and dead :: "'r \<Rightarrow> bool"
    and claim_row :: "'r \<Rightarrow> 'r"
    and fail_row :: "int \<Rightarrow> 'r \<Rightarrow> 'r"
  assumes claim_attempts: "attempts (claim_row r) = attempts r"
    and fail_attempts: "attempts (fail_row m r) = attempts r + 1"
    and fail_queued: "attempts r + 1 < m \<Longrightarrow> queued (fail_row m r)"
    and fail_dead: "m \<le> attempts r + 1 \<Longrightarrow> dead (fail_row m r)"
begin

lemma attempts_rounds: "attempts (((\<lambda>r. fail_row m (claim_row r)) ^^ n) r) = attempts r + int n"
  by (induction n) (auto simp: claim_attempts fail_attempts)

lemma rounds_queued:
  assumes "attempts r + int (Suc n) < m"
  shows "queued (((\<lambda>r. fail_row m (claim_row r)) ^^ Suc n) r)"
  using assms by (simp add: fail_queued claim_attempts attempts_rounds)

lemma rounds_dead:
  assumes "m \<le> attempts r + int (Suc n)"
  shows "dead (((\<lambda>r. fail_row m (claim_row r)) ^^ Suc n) r)"
  using assms by (simp add: fail_dead claim_attempts attempts_rounds)

end

end
