(* ===== verification/Breaker.thy ===== *)
theory Breaker
  imports Prelude
begin

section \<open>The circuit breaker in front of expensive upstreams\<close>

text \<open>
  Models \<open>orchestrator/services/circuit_breaker.py\<close>: the breaker object with its
  closed / open / half-open states, the registry of breakers shared by call sites, and the
  decorator that puts an LLM provider behind a breaker. The monotonic clock is an argument
  of every operation that reads it; each method runs under the object's lock, so it is one
  atomic transition. What the wrapped call does (\<open>fn\<close>, the provider) is a parameter: its
  outcome. Logging is not modelled.
\<close>

subsection \<open>The breaker object\<close>

datatype circuit = Closed | Open | HalfOpen

record breaker =
  b_name :: string
  max_failures :: int
  cooldown :: int
  circuit_state :: circuit
  consecutive_failures :: int
  opened_at :: "instant option"

datatype breaker_error = MaxFailuresBelowOne | CircuitOpenError string int

definition new_breaker :: "string \<Rightarrow> int \<Rightarrow> int \<Rightarrow> breaker_error + breaker" where
  "new_breaker name maxf cool =
     (if maxf < 1 then Inl MaxFailuresBelowOne
      else Inr \<lparr>b_name = name, max_failures = maxf, cooldown = cool, circuit_state = Closed,
                consecutive_failures = 0, opened_at = None\<rparr>)"

definition maybe_half_open :: "instant \<Rightarrow> breaker \<Rightarrow> breaker" where
  "maybe_half_open now b =
     (case opened_at b of
        Some t \<Rightarrow> if circuit_state b = Open \<and> now - t \<ge> cooldown b
                   then b\<lparr>circuit_state := HalfOpen\<rparr> else b
      | None \<Rightarrow> b)"

definition read_state :: "instant \<Rightarrow> breaker \<Rightarrow> circuit \<times> breaker" where
  "read_state now b = (let b' = maybe_half_open now b in (circuit_state b', b'))"

definition allow :: "instant \<Rightarrow> breaker \<Rightarrow> (breaker_error + unit) \<times> breaker" where
  "allow now b =
     (let b' = maybe_half_open now b in
      if circuit_state b' = Open
      then (Inl (CircuitOpenError (b_name b') (consecutive_failures b')), b')
      else (Inr (), b'))"

definition record_success :: "breaker \<Rightarrow> breaker" where
  "record_success b =
     b\<lparr>consecutive_failures := 0, opened_at := None, circuit_state := Closed\<rparr>"

definition record_failure :: "instant \<Rightarrow> breaker \<Rightarrow> breaker" where
  "record_failure now b =
     (let n = consecutive_failures b + 1; b1 = b\<lparr>consecutive_failures := n\<rparr> in
      if circuit_state b = HalfOpen \<or> n \<ge> max_failures b
      then b1\<lparr>circuit_state := Open, opened_at := Some now\<rparr>
      else b1)"

datatype 'e call_error = Refused breaker_error | Raised 'e

definition breaker_call ::
  "instant \<Rightarrow> instant \<Rightarrow> (unit \<Rightarrow> 'e + 'a) \<Rightarrow> breaker \<Rightarrow> ('e call_error + 'a) \<times> breaker" where
  "breaker_call t_allow t_done fn b =
     (case allow t_allow b of
        (Inl e, b1) \<Rightarrow> (Inl (Refused e), b1)
      | (Inr _, b1) \<Rightarrow>
          (case fn () of
             Inl x \<Rightarrow> (Inl (Raised x), record_failure t_done b1)
           | Inr r \<Rightarrow> (Inr r, record_success b1)))"

lemmas breaker_defs = new_breaker_def maybe_half_open_def read_state_def allow_def
  record_success_def record_failure_def

subsection \<open>Any history of calls\<close>

text \<open>
  The threads that share a breaker produce some sequence of these events, at whatever
  times; in particular a failure may be recorded long after its call was admitted.
\<close>

datatype breaker_event = Admit instant | Succeeded | Failed instant | Observed instant

fun breaker_event_step :: "breaker \<Rightarrow> breaker_event \<Rightarrow> breaker" where
  "breaker_event_step b (Admit t) = snd (allow t b)"
| "breaker_event_step b Succeeded = record_success b"
| "breaker_event_step b (Failed t) = record_failure t b"
| "breaker_event_step b (Observed t) = snd (read_state t b)"

definition breaker_good :: "breaker \<Rightarrow> bool" where
  "breaker_good b \<longleftrightarrow> 1 \<le> max_failures b \<and> 0 \<le> consecutive_failures b \<and>
     (if circuit_state b = Closed
      then opened_at b = None \<and> consecutive_failures b < max_failures b
      else opened_at b \<noteq> None \<and> max_failures b \<le> consecutive_failures b)"

lemma new_breaker_good: "new_breaker name maxf cool = Inr b \<Longrightarrow> breaker_good b"
  by (auto simp: new_breaker_def breaker_good_def split: if_splits)

lemma maybe_half_open_good: "breaker_good b \<Longrightarrow> breaker_good (maybe_half_open t b)"
  by (auto simp: breaker_good_def maybe_half_open_def split: option.splits if_splits)

lemma snd_allow: "snd (allow t b) = maybe_half_open t b"
  by (simp add: allow_def Let_def)

lemma record_failure_good: "breaker_good b \<Longrightarrow> breaker_good (record_failure t b)"
  by (cases "circuit_state b") (auto simp: breaker_good_def record_failure_def Let_def)

lemma record_success_good: "breaker_good b \<Longrightarrow> breaker_good (record_success b)"
  by (auto simp: breaker_good_def record_success_def)

lemma breaker_event_good: "breaker_good b \<Longrightarrow> breaker_good (breaker_event_step b e)"
  by (cases e) (auto simp: snd_allow read_state_def Let_def
      intro: maybe_half_open_good record_failure_good record_success_good)

interpretation br: event_machine breaker_event_step breaker_good
  by unfold_locales (rule breaker_event_good)

fun is_failed :: "breaker_event \<Rightarrow> bool" where
  "is_failed (Failed t) = True"
| "is_failed _ = False"

definition failures_since_success :: "breaker_event list \<Rightarrow> nat" where
  "failures_since_success es =
     length (filter is_failed (takeWhile (\<lambda>e. e \<noteq> Succeeded) (rev es)))"

lemma max_failures_step [simp]: "max_failures (breaker_event_step b e) = max_failures b"
  by (cases e) (auto simp: snd_allow read_state_def maybe_half_open_def record_success_def
      record_failure_def Let_def split: option.splits)

lemma max_failures_run [simp]: "max_failures (foldl breaker_event_step b es) = max_failures b"
  by (induction es arbitrary: b) auto

lemma consecutive_step:
  "consecutive_failures (breaker_event_step b e) =
     (if e = Succeeded then 0
      else consecutive_failures b + (if is_failed e then 1 else 0))"
  by (cases e) (auto simp: snd_allow read_state_def maybe_half_open_def record_success_def
      record_failure_def Let_def split: option.splits)

lemma failures_since_success_snoc:
  "failures_since_success (es @ [e]) =
     (if e = Succeeded then 0
      else failures_since_success es + (if is_failed e then 1 else 0))"
  by (auto simp: failures_since_success_def)

lemma consecutive_run:
  "consecutive_failures b = 0 \<Longrightarrow>
   consecutive_failures (foldl breaker_event_step b es) = int (failures_since_success es)"
proof (induction es rule: rev_induct)
  case Nil
  then show ?case by (simp add: failures_since_success_def)
next
  case (snoc e es)
  then show ?case by (simp add: consecutive_step failures_since_success_snoc)
qed

lemma new_breaker_start:
  "new_breaker name maxf cool = Inr b \<Longrightarrow>
   consecutive_failures b = 0 \<and> max_failures b = maxf \<and> cooldown b = cool \<and> b_name b = name"
  by (auto simp: new_breaker_def split: if_splits)

text \<open>
  C39. Whatever sequence of admissions, successes and failures a breaker sees, its circuit
  is closed exactly while fewer than \<open>max_failures\<close> failures have been recorded since the
  last success: it neither trips early nor stays shut past the ceiling, and a success
  always closes it.
\<close>

theorem breaker_closed_iff_below_ceiling:
  assumes "new_breaker name maxf cool = Inr b"
  shows "circuit_state (foldl breaker_event_step b es) = Closed \<longleftrightarrow>
           int (failures_since_success es) < maxf"
proof -
  let ?b = "foldl breaker_event_step b es"
  have "breaker_good ?b"
    using assms by (intro br.run_good new_breaker_good)
  moreover have "consecutive_failures ?b = int (failures_since_success es)"
    using assms by (intro consecutive_run) (simp add: new_breaker_start)
  moreover have "max_failures ?b = maxf"
    using new_breaker_start [OF assms] by simp
  ultimately show ?thesis
    by (cases "circuit_state ?b") (auto simp: breaker_good_def)
qed

theorem breaker_closed_iff_below_ceiling_witness:
  "circuit_state (foldl breaker_event_step
      \<lparr>b_name = ''llm:a'', max_failures = 2, cooldown = 30, circuit_state = Closed,
       consecutive_failures = 0, opened_at = None\<rparr> [Failed 1, Succeeded, Failed 2]) = Closed"
proof -
  let ?b = "\<lparr>b_name = ''llm:a'', max_failures = 2, cooldown = 30, circuit_state = Closed,
       consecutive_failures = 0, opened_at = None\<rparr>"
  have new: "new_breaker ''llm:a'' 2 30 = Inr ?b"
    by (simp add: new_breaker_def)
  have "int (failures_since_success [Failed 1, Succeeded, Failed 2]) < 2"
    by (simp add: failures_since_success_def)
  then show ?thesis
    using breaker_closed_iff_below_ceiling [OF new, of "[Failed 1, Succeeded, Failed 2]"] by blast
qed

subsection \<open>Failing fast and probing\<close>

lemma allow_open:
  assumes "circuit_state b = Open" and "opened_at b = Some t" and "now - t < cooldown b"
  shows "allow now b = (Inl (CircuitOpenError (b_name b) (consecutive_failures b)), b)"
  using assms by (simp add: allow_def maybe_half_open_def Let_def)

lemma allow_after_cooldown:
  assumes "circuit_state b = Open" and "opened_at b = Some t" and "cooldown b \<le> now - t"
  shows "allow now b = (Inr (), b\<lparr>circuit_state := HalfOpen\<rparr>)"
  using assms by (simp add: allow_def maybe_half_open_def Let_def)

lemma allow_not_open: "circuit_state b \<noteq> Open \<Longrightarrow> allow now b = (Inr (), b)"
  by (auto simp: allow_def maybe_half_open_def Let_def split: option.splits)

text \<open>
  While the circuit is open and its cooldown has not elapsed, a call is refused with
  the circuit-open error without running the wrapped function (the result is the same for
  every function) and without touching the breaker; the first call after the cooldown runs
  it, and its outcome alone decides: success closes the circuit with no failures left,
  failure opens it again at once and restarts the cooldown.
\<close>

theorem breaker_call_open_circuit:
  assumes "circuit_state b = Open" and "opened_at b = Some t"
  shows "breaker_call now fin fn b =
    (if now - t < cooldown b
     then (Inl (Refused (CircuitOpenError (b_name b) (consecutive_failures b))), b)
     else case fn () of
            Inl x \<Rightarrow> (Inl (Raised x), b\<lparr>circuit_state := Open, opened_at := Some fin,
                        consecutive_failures := consecutive_failures b + 1\<rparr>)
          | Inr r \<Rightarrow> (Inr r, b\<lparr>circuit_state := Closed, opened_at := None,
                        consecutive_failures := 0\<rparr>))"
proof (cases "now - t < cooldown b")
  case True
  with assms show ?thesis by (simp add: breaker_call_def allow_open)
next
  case False
  with assms show ?thesis
    by (simp add: breaker_call_def allow_after_cooldown record_failure_def record_success_def
        Let_def split: sum.splits)
qed

theorem breaker_call_open_circuit_witness:
  "breaker_call 20 21 (\<lambda>_. Inr (7::nat) :: string + nat)
     \<lparr>b_name = ''llm:a'', max_failures = 1, cooldown = 30, circuit_state = Open,
      consecutive_failures = 1, opened_at = Some 0\<rparr> =
   (Inl (Refused (CircuitOpenError ''llm:a'' 1)),
     \<lparr>b_name = ''llm:a'', max_failures = 1, cooldown = 30, circuit_state = Open,
      consecutive_failures = 1, opened_at = Some 0\<rparr>)"
  by (subst breaker_call_open_circuit [where t = 0]) simp_all

text \<open>
  The half-open state does not count its probes: once the cooldown has elapsed, every
  caller that arrives before an outcome is recorded is admitted, however many there are
  (the class comment and the comment in \<open>allow\<close> promise a single probe).
\<close>

theorem half_open_admits_every_caller:
  assumes "circuit_state b = Open" and "opened_at b = Some t"
    and "list_all (\<lambda>now. cooldown b \<le> now - t) (now # later)"
  shows "list_all (\<lambda>i. fst (allow i (foldl (\<lambda>b i. snd (allow i b)) b (now # later))) = Inr ())
           (now # later)"
proof -
  have "circuit_state (foldl (\<lambda>b i. snd (allow i b)) c is) = HalfOpen"
    if "circuit_state c = HalfOpen" for c "is"
    using that by (induction "is" arbitrary: c) (auto simp: allow_not_open)
  moreover have "circuit_state (snd (allow now b)) = HalfOpen"
    using assms by (simp add: allow_after_cooldown)
  ultimately have "circuit_state (foldl (\<lambda>b i. snd (allow i b)) b (now # later)) = HalfOpen"
    by simp
  then show ?thesis by (simp add: allow_not_open list_all_iff)
qed

theorem half_open_admits_every_caller_witness:
  "fst (allow 32 (snd (allow 32 (snd (allow 31 (snd (allow 30
     \<lparr>b_name = ''llm:a'', max_failures = 1, cooldown = 30, circuit_state = Open,
      consecutive_failures = 1, opened_at = Some 0\<rparr>))))))) = Inr ()"
  using half_open_admits_every_caller
    [of "\<lparr>b_name = ''llm:a'', max_failures = 1, cooldown = 30, circuit_state = Open,
          consecutive_failures = 1, opened_at = Some 0\<rparr>" 0 30 "[31, 32]"]
  by simp

subsection \<open>The registry of shared breakers\<close>

text \<open>
  \<open>_breakers\<close> is a dictionary in insertion order. Its values are shared objects: whoever
  holds a breaker mutates the registry's own, so an operation on a breaker is an operation
  on the registry entry of its key.
\<close>

type_synonym breaker_registry = "(string \<times> breaker) list"

definition get_breaker ::
  "string \<Rightarrow> int \<Rightarrow> int \<Rightarrow> breaker_registry \<Rightarrow> (breaker_error + breaker) \<times> breaker_registry" where
  "get_breaker name maxf cool reg =
     (case map_of reg name of
        Some b \<Rightarrow> (Inr b, reg)
      | None \<Rightarrow>
          (case new_breaker name maxf cool of
             Inl e \<Rightarrow> (Inl e, reg)
           | Inr b \<Rightarrow> (Inr b, dict_set name b reg)))"

definition reset_all :: "breaker_registry \<Rightarrow> breaker_registry" where
  "reset_all reg = []"

record breaker_view =
  v_operation :: string
  v_state :: circuit
  v_max_failures :: int
  v_cooldown :: int

text \<open>Reading \<open>state\<close> resolves an elapsed cooldown, so a snapshot also updates the breakers.\<close>

definition snapshot :: "instant \<Rightarrow> breaker_registry \<Rightarrow> breaker_view list \<times> breaker_registry" where
  "snapshot now reg =
     (map (\<lambda>(k, b). \<lparr>v_operation = b_name b, v_state = fst (read_state now b),
             v_max_failures = max_failures b, v_cooldown = cooldown b\<rparr>) reg,
      map (\<lambda>(k, b). (k, snd (read_state now b))) reg)"

subsection \<open>Environment knobs\<close>

definition max_consecutive_failures_cloud_llm :: int where
  "max_consecutive_failures_cloud_llm = 3"

definition env_bool :: "string option \<Rightarrow> bool \<Rightarrow> bool" where
  "env_bool raw dflt =
     (case raw of None \<Rightarrow> dflt
      | Some r \<Rightarrow> py_lower (py_strip r) \<in> {''true'', ''1'', ''yes'', ''on''})"

definition llm_circuit_enabled :: "string option \<Rightarrow> bool" where
  "llm_circuit_enabled raw = env_bool raw True"

definition llm_max_failures :: "string option \<Rightarrow> int" where
  "llm_max_failures raw =
     (case raw of None \<Rightarrow> max_consecutive_failures_cloud_llm
      | Some r \<Rightarrow> (case py_int r of None \<Rightarrow> max_consecutive_failures_cloud_llm
                 | Some n \<Rightarrow> max 1 n))"

lemma llm_max_failures_pos: "1 \<le> llm_max_failures raw"
  by (auto simp: llm_max_failures_def max_consecutive_failures_cloud_llm_def split: option.splits)

subsection \<open>The breaking LLM provider\<close>

text \<open>
  \<open>key\<close> is the registry key of the wrapper's breaker. The inner provider is a parameter:
  what its \<open>chat\<close> call does is one of three outcomes, and a stream is the events it
  yields followed by how it ends. The consumer either drains the stream or stops after some
  number of events, which closes the generator at its \<open>yield\<close>.
\<close>

datatype 'r inner_outcome = Replied 'r | BlockedByEgress | Crashed string

datatype 'r provider_error = CircuitRefused breaker_error | EgressBlocked | InnerFailed string

definition provider_chat ::
  "instant \<Rightarrow> instant \<Rightarrow> (unit \<Rightarrow> 'r inner_outcome) \<Rightarrow> breaker \<Rightarrow> ('r provider_error + 'r) \<times> breaker" where
  "provider_chat t_allow t_done inner b =
     (case allow t_allow b of
        (Inl e, b1) \<Rightarrow> (Inl (CircuitRefused e), b1)
      | (Inr _, b1) \<Rightarrow>
          (case inner () of
             BlockedByEgress \<Rightarrow> (Inl EgressBlocked, b1)
           | Crashed m \<Rightarrow> (Inl (InnerFailed m), record_failure t_done b1)
           | Replied r \<Rightarrow> (Inr r, record_success b1)))"

datatype stream_end = Exhausted | EndsBlocked | EndsCrashed string

datatype consumer = Drains | StopsAfter nat

definition provider_chat_stream ::
  "instant \<Rightarrow> instant \<Rightarrow> (unit \<Rightarrow> 'ev list \<times> stream_end) \<Rightarrow> consumer \<Rightarrow> breaker
    \<Rightarrow> ('ev list \<times> 'ev provider_error option) \<times> breaker" where
  "provider_chat_stream t_allow t_done inner cons b =
     (case allow t_allow b of
        (Inl e, b1) \<Rightarrow> (([], Some (CircuitRefused e)), b1)
      | (Inr _, b1) \<Rightarrow>
          (let (evs, fin) = inner () in
           case cons of
             StopsAfter k \<Rightarrow>
               if 0 < k \<and> k \<le> length evs then ((take k evs, None), record_success b1)
               else (case fin of
                       Exhausted \<Rightarrow> ((evs, None), record_success b1)
                     | EndsBlocked \<Rightarrow> ((evs, Some EgressBlocked), b1)
                     | EndsCrashed m \<Rightarrow> ((evs, Some (InnerFailed m)), record_failure t_done b1))
           | Drains \<Rightarrow>
               (case fin of
                  Exhausted \<Rightarrow> ((evs, None), record_success b1)
                | EndsBlocked \<Rightarrow> ((evs, Some EgressBlocked), b1)
                | EndsCrashed m \<Rightarrow> ((evs, Some (InnerFailed m)), record_failure t_done b1))))"

datatype wrapped_provider = PlainProvider | BreakingProvider string

definition wrap_llm_provider ::
  "string option \<Rightarrow> string option \<Rightarrow> int \<Rightarrow> string \<Rightarrow> breaker_registry
    \<Rightarrow> (breaker_error + wrapped_provider) \<times> breaker_registry" where
  "wrap_llm_provider enabled_env failures_env cool cache_key reg =
     (if \<not> llm_circuit_enabled enabled_env then (Inr PlainProvider, reg)
      else let key = ''llm:'' @ cache_key in
        (case get_breaker key (llm_max_failures failures_env) cool reg of
           (Inl e, reg') \<Rightarrow> (Inl e, reg')
         | (Inr _, reg') \<Rightarrow> (Inr (BreakingProvider key), reg')))"

text \<open>A chat call of the wrapper with breaker \<open>key\<close>, on the registry.\<close>

definition registry_chat ::
  "string \<Rightarrow> instant \<Rightarrow> instant \<Rightarrow> (unit \<Rightarrow> 'r inner_outcome) \<Rightarrow> breaker_registry
    \<Rightarrow> ('r provider_error + 'r) option \<times> breaker_registry" where
  "registry_chat key t_allow t_done inner reg =
     (case map_of reg key of
        None \<Rightarrow> (None, reg)
      | Some b \<Rightarrow> (let (r, b') = provider_chat t_allow t_done inner b
                 in (Some r, dict_set key b' reg)))"

lemma get_breaker_frame:
  "k \<noteq> name \<Longrightarrow> map_of (snd (get_breaker name maxf cool reg)) k = map_of reg k"
  by (auto simp: get_breaker_def split: option.splits sum.splits)

lemma get_breaker_shares:
  "map_of reg name = Some b \<Longrightarrow> get_breaker name maxf cool reg = (Inr b, reg)"
  by (simp add: get_breaker_def)

lemma registry_chat_frame: "k \<noteq> key \<Longrightarrow> map_of (snd (registry_chat key t u inner reg)) k = map_of reg k"
  by (auto simp: registry_chat_def split: option.splits prod.splits)

lemma wrap_entry:
  assumes "llm_circuit_enabled en"
  shows "\<exists>b. wrap_llm_provider en fe cool ck reg =
           (Inr (BreakingProvider (''llm:'' @ ck)), snd (wrap_llm_provider en fe cool ck reg)) \<and>
         map_of (snd (wrap_llm_provider en fe cool ck reg)) (''llm:'' @ ck) = Some b \<and>
         (map_of reg (''llm:'' @ ck) = None \<longrightarrow> new_breaker (''llm:'' @ ck) (llm_max_failures fe) cool = Inr b) \<and>
         (map_of reg (''llm:'' @ ck) \<noteq> None \<longrightarrow> map_of reg (''llm:'' @ ck) = Some b)"
  using assms llm_max_failures_pos [of fe]
  by (cases "map_of reg (''llm:'' @ ck)")
     (auto simp: wrap_llm_provider_def get_breaker_def new_breaker_def Let_def)

text \<open>
  Breakers are isolated by cache key: whatever a chat call through one provider does,
  no other key's breaker changes, so one user's failing model never trips another's; and
  wrapping the same key again returns the breaker already there, whatever ceiling and
  cooldown the later call asks for.
\<close>

theorem breakers_isolated_by_cache_key:
  assumes "llm_circuit_enabled en" and "ck \<noteq> ck'"
    and "map_of reg (''llm:'' @ ck) = Some b"
  shows "wrap_llm_provider en fe cool ck reg = (Inr (BreakingProvider (''llm:'' @ ck)), reg) \<and>
         map_of (snd (registry_chat (''llm:'' @ ck') t u inner reg)) (''llm:'' @ ck) = Some b"
proof
  show "wrap_llm_provider en fe cool ck reg = (Inr (BreakingProvider (''llm:'' @ ck)), reg)"
    using assms(1,3) by (simp add: wrap_llm_provider_def get_breaker_shares Let_def)
  show "map_of (snd (registry_chat (''llm:'' @ ck') t u inner reg)) (''llm:'' @ ck) = Some b"
    using assms(2,3) by (simp add: registry_chat_frame)
qed

theorem breakers_isolated_by_cache_key_witness:
  "map_of (snd (registry_chat (''llm:'' @ ''bob'') 5 6 (\<lambda>_. Crashed ''down'' :: nat inner_outcome)
      [(''llm:alice'', \<lparr>b_name = ''llm:alice'', max_failures = 1, cooldown = 30, circuit_state = Closed,
         consecutive_failures = 0, opened_at = None\<rparr>)])) (''llm:'' @ ''alice'') =
   Some \<lparr>b_name = ''llm:alice'', max_failures = 1, cooldown = 30, circuit_state = Closed,
         consecutive_failures = 0, opened_at = None\<rparr>"
  by (rule breakers_isolated_by_cache_key [of None, THEN conjunct2])
     (simp_all add: llm_circuit_enabled_def env_bool_def)

text \<open>
  What a provider call does to its breaker once admitted: an egress block (a refusal
  by the local guard, not by the upstream) is neither a success nor a failure, a crash counts
  one failure, a reply clears the count; and a stream whose consumer stops early counts as
  a success even when the upstream would have failed later.
\<close>

theorem provider_outcomes_on_breaker:
  assumes "circuit_state b \<noteq> Open" and "0 < k" and "k \<le> length (fst (sinner ()))"
  shows "snd (provider_chat t u inner b) =
           (case inner () of BlockedByEgress \<Rightarrow> b | Crashed m \<Rightarrow> record_failure u b
            | Replied r \<Rightarrow> record_success b) \<and>
         provider_chat_stream t u sinner (StopsAfter k) b =
           ((take k (fst (sinner ())), None), record_success b) \<and>
         provider_chat_stream t u sinner Drains b =
           (case snd (sinner ()) of
              Exhausted \<Rightarrow> ((fst (sinner ()), None), record_success b)
            | EndsBlocked \<Rightarrow> ((fst (sinner ()), Some EgressBlocked), b)
            | EndsCrashed m \<Rightarrow> ((fst (sinner ()), Some (InnerFailed m)), record_failure u b))"
  using assms
  by (auto simp: provider_chat_def provider_chat_stream_def allow_not_open Let_def
      split: inner_outcome.splits stream_end.splits prod.splits)

theorem provider_outcomes_on_breaker_witness:
  "provider_chat_stream 5 6 (\<lambda>_. ([1, 2, 3 :: nat], EndsCrashed ''reset'')) (StopsAfter 2)
      \<lparr>b_name = ''llm:a'', max_failures = 3, cooldown = 30, circuit_state = Closed,
       consecutive_failures = 2, opened_at = None\<rparr> =
   (([1, 2], None),
      \<lparr>b_name = ''llm:a'', max_failures = 3, cooldown = 30, circuit_state = Closed,
       consecutive_failures = 0, opened_at = None\<rparr>)"
  by (subst provider_outcomes_on_breaker [THEN conjunct2, THEN conjunct1])
     (simp_all add: record_success_def)

end
