(* ===== verification/PrivacyMode.thy ===== *)
theory PrivacyMode
  imports Prelude
begin

section \<open>Privacy mode: which models a request may use\<close>

text \<open>
  Models \<open>orchestrator/services/privacy_mode.py\<close>, \<open>models/privacy_mode.py\<close>,
  \<open>settings_store.py\<close>, the privacy part of \<open>routes/admin.py\<close>'s settings update, and from
  \<open>config.py\<close> the classification of models, \<open>is_model_enabled\<close> and the provider cache of
  \<open>get_llm_provider\<close>. Credential storage is a parameter (\<open>pe_credential\<close>,
  \<open>pe_api_key\<close>); an adapter is described by what it is built from. Audit rows are the
  records of \<open>record_privacy_block\<close>.
\<close>

subsection \<open>Modes\<close>

datatype privacy_level = LocalOnly | AllowCloud

datatype user_restriction = Inherit | RestrictLocal

text \<open>The stricter mode is the smaller one.\<close>

instantiation privacy_level :: linorder
begin

definition less_eq_privacy_level :: "privacy_level \<Rightarrow> privacy_level \<Rightarrow> bool" where
  "less_eq_privacy_level a b = (a = LocalOnly \<or> b = AllowCloud)"

definition less_privacy_level :: "privacy_level \<Rightarrow> privacy_level \<Rightarrow> bool" where
  "less_privacy_level a b = (a = LocalOnly \<and> b = AllowCloud)"

instance
proof
  fix x y z :: privacy_level
  show "x < y \<longleftrightarrow> x \<le> y \<and> \<not> y \<le> x" "x \<le> x" "x \<le> y \<Longrightarrow> y \<le> z \<Longrightarrow> x \<le> z"
    "x \<le> y \<Longrightarrow> y \<le> x \<Longrightarrow> x = y" "x \<le> y \<or> y \<le> x"
    unfolding less_eq_privacy_level_def less_privacy_level_def by (cases x; cases y; cases z; simp)+
qed

end

definition level_text :: "privacy_level \<Rightarrow> string" where
  "level_text m = (case m of LocalOnly \<Rightarrow> ''local_only'' | AllowCloud \<Rightarrow> ''allow_cloud'')"

definition restriction_text :: "user_restriction \<Rightarrow> string" where
  "restriction_text r = (case r of Inherit \<Rightarrow> ''inherit'' | RestrictLocal \<Rightarrow> ''local_only'')"

definition parse_level :: "string \<Rightarrow> privacy_level option" where
  "parse_level s = (if s = ''local_only'' then Some LocalOnly else if s = ''allow_cloud'' then Some AllowCloud else None)"

definition parse_restriction :: "string \<Rightarrow> user_restriction option" where
  "parse_restriction s = (if s = ''inherit'' then Some Inherit else if s = ''local_only'' then Some RestrictLocal else None)"

record effective_privacy =
  ef_instance :: privacy_level
  ef_locked :: bool
  ef_instance_effective :: privacy_level
  ef_user :: user_restriction
  ef_effective :: privacy_level

subsection \<open>State\<close>

record model_cfg =
  mc_adapter :: string
  mc_model :: string
  mc_base_url :: "string option"
  mc_proxy :: "string option"
  mc_api_key_env :: string
  mc_optional :: bool

record llm_adapter =
  ad_kind :: string
  ad_model :: string
  ad_url :: "string option"
  ad_key :: string

record privacy_audit =
  pa_user :: user_id
  pa_input :: json_obj

record privacy_state =
  ps_settings :: "(string \<times> string) list"
  ps_users :: "(user_id \<times> string) list"
  ps_audit :: "privacy_audit list"
  ps_instances :: "(string \<times> llm_adapter) list"

datatype privacy_error =
    PrivacyModeBlocked string
  | UnknownModel string
  | UserIdNeeded string
  | CredentialError string
  | UnknownAdapter string
  | RestrictionDenied
  | LockRequiresLocalOnly
  | ModeLocked

text \<open>
  What is read from outside: the merged model list (YAML first, then pulled models), whether
  authentication is on, the environment, the credential store, and whether a row can be
  inserted into the audit log.
\<close>

record privacy_env =
  pe_models :: "(string \<times> model_cfg) list"
  pe_auth :: bool
  pe_environ :: "string \<Rightarrow> string option"
  pe_credential :: "user_id \<Rightarrow> string \<Rightarrow> bool"
  pe_api_key :: "user_id option \<Rightarrow> string \<Rightarrow> string + string"
  pe_audit_ok :: bool

definition get_setting :: "string \<Rightarrow> privacy_state \<Rightarrow> string option" where
  "get_setting k st = map_of (ps_settings st) k"

fun put_settings :: "(string \<times> string) list \<Rightarrow> privacy_state \<Rightarrow> privacy_state" where
  "put_settings [] st = st"
| "put_settings ((k, v) # kvs) st = put_settings kvs (st\<lparr>ps_settings := dict_set k v (ps_settings st)\<rparr>)"

definition truthy_setting :: "string option \<Rightarrow> bool" where
  "truthy_setting raw = (case raw of None \<Rightarrow> False | Some s \<Rightarrow>
     py_lower (py_strip s) \<in> {''true'', ''1'', ''yes''})"

definition load_instance_mode :: "privacy_state \<Rightarrow> privacy_level" where
  "load_instance_mode st =
     (case get_setting ''privacy_mode'' st of
        None \<Rightarrow> LocalOnly
      | Some raw \<Rightarrow> if py_strip raw = [] then LocalOnly
          else (case parse_level (py_strip raw) of None \<Rightarrow> LocalOnly | Some m \<Rightarrow> m))"

definition load_instance_locked :: "privacy_state \<Rightarrow> bool" where
  "load_instance_locked st = truthy_setting (get_setting ''privacy_mode_locked'' st)"

definition load_user_restriction :: "user_id \<Rightarrow> privacy_state \<Rightarrow> user_restriction" where
  "load_user_restriction u st =
     (case map_of (ps_users st) u of
        None \<Rightarrow> Inherit
      | Some raw \<Rightarrow>
          (case parse_restriction (if raw = [] then restriction_text Inherit else raw) of
             None \<Rightarrow> Inherit | Some r \<Rightarrow> r))"

definition effective_privacy_mode :: "privacy_env \<Rightarrow> user_id option \<Rightarrow> privacy_state \<Rightarrow> effective_privacy" where
  "effective_privacy_mode env u st =
     (let m = load_instance_mode st; locked = load_instance_locked st;
          ie = (if m = LocalOnly then LocalOnly else AllowCloud);
          (ur, eff) = (case u of
             Some uid \<Rightarrow>
               if pe_auth env
               then (let r = load_user_restriction uid st in (r, if r = RestrictLocal then LocalOnly else ie))
               else (Inherit, ie)
           | None \<Rightarrow> (Inherit, ie))
      in \<lparr>ef_instance = m, ef_locked = locked, ef_instance_effective = ie, ef_user = ur, ef_effective = eff\<rparr>)"

subsection \<open>Models\<close>

definition get_model_config :: "privacy_env \<Rightarrow> string \<Rightarrow> model_cfg option" where
  "get_model_config env name = map_of (pe_models env) name"

definition is_local_model :: "privacy_env \<Rightarrow> string \<Rightarrow> bool" where
  "is_local_model env name =
     (case get_model_config env name of
        None \<Rightarrow> False
      | Some cfg \<Rightarrow> is_infix_of ''ollama'' (py_lower (case mc_base_url cfg of None \<Rightarrow> [] | Some b \<Rightarrow> b)))"

definition is_remote_model :: "privacy_env \<Rightarrow> string \<Rightarrow> bool" where
  "is_remote_model env name = (\<not> is_local_model env name)"

definition blocks_remote_models :: "privacy_env \<Rightarrow> user_id option \<Rightarrow> privacy_state \<Rightarrow> bool" where
  "blocks_remote_models env u st = (ef_effective (effective_privacy_mode env u st) = LocalOnly)"

definition is_model_enabled ::
  "privacy_env \<Rightarrow> string \<Rightarrow> user_id option \<Rightarrow> bool option \<Rightarrow> privacy_state \<Rightarrow> bool" where
  "is_model_enabled env name u hint st =
     (case get_model_config env name of
        None \<Rightarrow> False
      | Some cfg \<Rightarrow>
          if (case hint of
                None \<Rightarrow> blocks_remote_models env u st \<and> is_remote_model env name
              | Some b \<Rightarrow> b \<and> \<not> is_local_model env name) then False
          else if mc_api_key_env cfg = [] then True
          else if mc_optional cfg \<and>
                  \<not> (case get_setting (''optional_'' @ name) st of None \<Rightarrow> False
                     | Some t \<Rightarrow> t \<noteq> [] \<and> py_lower t \<in> {''true'', ''1'', ''yes''}) then False
          else if pe_auth env then
            (case u of None \<Rightarrow> False | Some uid \<Rightarrow> uid \<noteq> [] \<and> pe_credential env uid (mc_api_key_env cfg))
          else
            (let stored = (case get_setting (mc_api_key_env cfg) st of None \<Rightarrow> [] | Some s \<Rightarrow> s);
                 key = (if stored \<noteq> [] then stored
                        else case pe_environ env (mc_api_key_env cfg) of None \<Rightarrow> [] | Some s \<Rightarrow> s)
             in py_strip key \<noteq> []))"

subsection \<open>The gate and the fallback\<close>

text \<open>\<open>write_audit\<close> swallows a failing insert: the block stands, unrecorded.\<close>

definition privacy_block_entry :: "string \<Rightarrow> user_id option \<Rightarrow> effective_privacy \<Rightarrow> privacy_audit" where
  "privacy_block_entry requested u pol =
     \<lparr>pa_user = (case u of None \<Rightarrow> ''default'' | Some x \<Rightarrow> if x = [] then ''default'' else x),
      pa_input = [(''decline_type'', JStr ''external_call_denied''), (''reason'', JStr ''privacy_mode_block''),
        (''requested_model'', JStr requested), (''effective_policy'', JStr (level_text (ef_effective pol))),
        (''instance_mode'', JStr (level_text (ef_instance pol))), (''instance_locked'', JBool (ef_locked pol)),
        (''user_restriction'', JStr (restriction_text (ef_user pol)))]\<rparr>"

definition record_privacy_block :: "privacy_env \<Rightarrow> string \<Rightarrow> user_id option \<Rightarrow> effective_privacy \<Rightarrow> privacy_state \<Rightarrow> privacy_state" where
  "record_privacy_block env requested u pol st =
     (if pe_audit_ok env then st\<lparr>ps_audit := ps_audit st @ [privacy_block_entry requested u pol]\<rparr> else st)"

definition assert_remote_allowed ::
  "privacy_env \<Rightarrow> string \<Rightarrow> user_id option \<Rightarrow> privacy_state \<Rightarrow> (privacy_error + unit) \<times> privacy_state" where
  "assert_remote_allowed env name u st =
     (if \<not> is_remote_model env name then (Inr (), st)
      else
        let pol = effective_privacy_mode env u st in
        if ef_effective pol = AllowCloud then (Inr (), st)
        else (Inl (PrivacyModeBlocked name), record_privacy_block env name u pol st))"

definition resolve_local_fallback_model :: "privacy_env \<Rightarrow> user_id option \<Rightarrow> privacy_state \<Rightarrow> string option" where
  "resolve_local_fallback_model env u st =
     (let blocks = blocks_remote_models env u st;
          ok = (\<lambda>n. is_local_model env n \<and> is_model_enabled env n u (Some blocks) st);
          default_ok = (case get_setting ''default_model'' st of None \<Rightarrow> None
                        | Some d \<Rightarrow> if d \<noteq> [] \<and> ok d then Some d else None)
      in case default_ok of
           Some d \<Rightarrow> Some d
         | None \<Rightarrow>
             (case find ok (map fst (pe_models env)) of
                Some n \<Rightarrow> Some n
              | None \<Rightarrow> if is_local_model env ''llama'' then Some ''llama'' else None))"

definition privacy_fallback_message :: "string \<Rightarrow> string" where
  "privacy_fallback_message model =
     ''Privacy mode is local-only. This reply used your local model ('' @ model @ ''); '' @
     ''complex synthesis may be slower or lower quality.''"

definition build_privacy_metadata :: "string \<Rightarrow> string \<Rightarrow> json_obj" where
  "build_privacy_metadata requested effective =
     [(''fallback_applied'', JBool True), (''requested_model'', JStr requested),
      (''message'', JStr (privacy_fallback_message effective))]"

definition resolve_model_for_request ::
  "privacy_env \<Rightarrow> string \<Rightarrow> user_id option \<Rightarrow> privacy_state
    \<Rightarrow> (privacy_error + string \<times> json_obj option) \<times> privacy_state" where
  "resolve_model_for_request env requested u st =
     (if \<not> is_remote_model env requested then (Inr (requested, None), st)
      else
        let pol = effective_privacy_mode env u st in
        if ef_effective pol = AllowCloud then (Inr (requested, None), st)
        else case resolve_local_fallback_model env u st of
          None \<Rightarrow> (Inl (PrivacyModeBlocked requested), record_privacy_block env requested u pol st)
        | Some f \<Rightarrow> (Inr (f, Some (build_privacy_metadata requested f)), st))"

definition resolve_job_model ::
  "privacy_env \<Rightarrow> string \<Rightarrow> user_id option \<Rightarrow> privacy_state \<Rightarrow> string option \<times> privacy_state" where
  "resolve_job_model env requested u st =
     (case resolve_model_for_request env requested u st of
        (Inr (m, meta), st') \<Rightarrow> (Some m, st') | (Inl e, st') \<Rightarrow> (None, st'))"

text \<open>
  \<open>get_llm_provider\<close>: the gate comes first, then the cache. The egress and circuit-breaker
  wrappers around the adapter do not change what it is built from.
\<close>

definition llm_cache_key :: "privacy_env \<Rightarrow> model_cfg \<Rightarrow> user_id option \<Rightarrow> string \<Rightarrow> string" where
  "llm_cache_key env cfg u name =
     (if mc_api_key_env cfg \<noteq> []
      then ''llm:'' @ (case u of None \<Rightarrow> ''_global'' | Some x \<Rightarrow> if x = [] then ''_global'' else x) @ '':'' @ name
      else ''llm:_local:'' @ name)"

definition get_llm_provider ::
  "privacy_env \<Rightarrow> string \<Rightarrow> user_id option \<Rightarrow> privacy_state \<Rightarrow> (privacy_error + llm_adapter) \<times> privacy_state" where
  "get_llm_provider env name u st =
     (case assert_remote_allowed env name u st of
        (Inl e, st1) \<Rightarrow> (Inl e, st1)
      | (Inr _, st1) \<Rightarrow>
          (case get_model_config env name of
             None \<Rightarrow> (Inl (UnknownModel name), st1)
           | Some cfg \<Rightarrow>
               if mc_api_key_env cfg \<noteq> [] \<and> pe_auth env \<and> (u = None \<or> u = Some []) then (Inl (UserIdNeeded name), st1)
               else
                 let key = llm_cache_key env cfg u name in
                 (case map_of (ps_instances st1) key of
                    Some a \<Rightarrow> (Inr a, st1)
                  | None \<Rightarrow>
                      (case (if mc_api_key_env cfg \<noteq> [] then pe_api_key env u (mc_api_key_env cfg) else Inr []) of
                         Inl m \<Rightarrow> (Inl (CredentialError m), st1)
                       | Inr k \<Rightarrow>
                           let proxy = (case mc_proxy cfg of None \<Rightarrow> None | Some p \<Rightarrow> if p = [] then None else Some p);
                               url = (if mc_adapter cfg = ''anthropic'' then mc_proxy cfg
                                      else case proxy of None \<Rightarrow> mc_base_url cfg | Some p \<Rightarrow> Some p);
                               a = \<lparr>ad_kind = mc_adapter cfg, ad_model = mc_model cfg, ad_url = url, ad_key = k\<rparr>
                           in if mc_adapter cfg \<noteq> ''anthropic'' \<and> mc_adapter cfg \<noteq> ''openai''
                              then (Inl (UnknownAdapter (mc_adapter cfg)), st1)
                              else (Inr a, st1\<lparr>ps_instances := ps_instances st1 @ [(key, a)]\<rparr>)))))"

subsection \<open>Changing the mode\<close>

record instance_privacy =
  ip_mode :: string
  ip_locked :: bool
  ip_effective :: string

record me_privacy =
  mp_instance :: instance_privacy
  mp_restriction :: string
  mp_effective :: string
  mp_can_allow :: bool

definition get_instance_privacy_settings :: "privacy_env \<Rightarrow> privacy_state \<Rightarrow> instance_privacy" where
  "get_instance_privacy_settings env st =
     (let pol = effective_privacy_mode env None st in
      \<lparr>ip_mode = level_text (ef_instance pol), ip_locked = ef_locked pol,
       ip_effective = level_text (ef_instance_effective pol)\<rparr>)"

definition get_me_privacy_mode :: "privacy_env \<Rightarrow> user_id \<Rightarrow> privacy_state \<Rightarrow> me_privacy" where
  "get_me_privacy_mode env u st =
     (let pol = effective_privacy_mode env (Some u) st;
          can = (ef_instance_effective pol = AllowCloud \<and> \<not> ef_locked pol \<and> ef_user pol \<noteq> RestrictLocal)
      in \<lparr>mp_instance = \<lparr>ip_mode = level_text (ef_instance pol), ip_locked = ef_locked pol,
                         ip_effective = level_text (ef_instance_effective pol)\<rparr>,
          mp_restriction = restriction_text (ef_user pol), mp_effective = level_text (ef_effective pol),
          mp_can_allow = can\<rparr>)"

definition patch_me_privacy_mode ::
  "privacy_env \<Rightarrow> user_id \<Rightarrow> user_restriction \<Rightarrow> privacy_state \<Rightarrow> (privacy_error + me_privacy) \<times> privacy_state" where
  "patch_me_privacy_mode env u r st =
     (let pol = effective_privacy_mode env (Some u) st in
      case r of
        Inherit \<Rightarrow>
          if ef_instance_effective pol = LocalOnly \<and> ef_user pol = RestrictLocal then (Inl RestrictionDenied, st)
          else (let st' = st\<lparr>ps_users := filter (\<lambda>e. fst e \<noteq> u) (ps_users st)\<rparr> in (Inr (get_me_privacy_mode env u st'), st'))
      | RestrictLocal \<Rightarrow>
          (let st' = st\<lparr>ps_users := dict_set u (restriction_text RestrictLocal) (ps_users st)\<rparr>
           in (Inr (get_me_privacy_mode env u st'), st')))"

definition validate_instance_privacy_patch ::
  "privacy_level \<Rightarrow> bool \<Rightarrow> privacy_level option \<Rightarrow> bool option \<Rightarrow> privacy_error + unit" where
  "validate_instance_privacy_patch cur_mode cur_locked new_mode new_locked =
     (let mode = (case new_mode of None \<Rightarrow> cur_mode | Some m \<Rightarrow> m);
          locked = (case new_locked of None \<Rightarrow> cur_locked | Some l \<Rightarrow> l)
      in if locked \<and> mode = AllowCloud then Inl LockRequiresLocalOnly
         else if cur_locked \<and> cur_mode = LocalOnly \<and> new_mode = Some AllowCloud \<and> new_locked \<noteq> Some False
         then Inl ModeLocked
         else Inr ())"

text \<open>
  The privacy part of the admin settings update: validate against the current policy, store
  what was given, and drop the provider cache.
\<close>

definition admin_privacy_update ::
  "privacy_env \<Rightarrow> privacy_level option \<Rightarrow> bool option \<Rightarrow> privacy_state \<Rightarrow> (privacy_error + unit) \<times> privacy_state" where
  "admin_privacy_update env new_mode new_locked st =
     (if new_mode = None \<and> new_locked = None then (Inr (), st)
      else
        let cur = effective_privacy_mode env None st in
        case validate_instance_privacy_patch (ef_instance cur) (ef_locked cur) new_mode new_locked of
          Inl e \<Rightarrow> (Inl e, st)
        | Inr _ \<Rightarrow>
            let updates = (case new_mode of None \<Rightarrow> [] | Some m \<Rightarrow> [(''privacy_mode'', level_text m)]) @
                  (case new_locked of None \<Rightarrow> [] | Some l \<Rightarrow> [(''privacy_mode_locked'', if l then ''true'' else ''false'')])
            in (Inr (), (put_settings updates st)\<lparr>ps_instances := []\<rparr>))"

subsection \<open>The policy\<close>

definition user_ceiling :: "privacy_env \<Rightarrow> user_id option \<Rightarrow> privacy_state \<Rightarrow> privacy_level" where
  "user_ceiling env u st = (case u of None \<Rightarrow> AllowCloud
     | Some uid \<Rightarrow> if pe_auth env \<and> map_of (ps_users st) uid = Some ''local_only'' then LocalOnly else AllowCloud)"

lemma restriction_local: "load_user_restriction u st = RestrictLocal \<longleftrightarrow> map_of (ps_users st) u = Some ''local_only''"
  by (auto simp: load_user_restriction_def parse_restriction_def restriction_text_def split: option.splits if_splits)

lemma effective_min:
  "ef_effective (effective_privacy_mode env u st) = min (load_instance_mode st) (user_ceiling env u st)"
  "ef_instance (effective_privacy_mode env u st) = load_instance_mode st"
  "ef_locked (effective_privacy_mode env u st) = load_instance_locked st"
  "ef_instance_effective (effective_privacy_mode env u st) = load_instance_mode st"
  by (cases "load_instance_mode st";
      auto simp: effective_privacy_mode_def user_ceiling_def restriction_local min_def
        less_eq_privacy_level_def Let_def split: option.splits)+

text \<open>
  The policy in force is the stricter of two: the instance's mode and the user's own
  ceiling (which exists only with authentication on). The instance's mode fails closed: it
  allows the cloud exactly when the stored text is \<open>allow_cloud\<close> up to surrounding white
  space, so a missing, empty or unknown setting means local-only.
\<close>

theorem effective_policy_is_the_stricter:
  "ef_effective (effective_privacy_mode env u st) = min (load_instance_mode st) (user_ceiling env u st) \<and>
   (load_instance_mode st = AllowCloud) = (\<exists>raw. get_setting ''privacy_mode'' st = Some raw \<and> py_strip raw = ''allow_cloud'') \<and>
   (blocks_remote_models env u st) = (load_instance_mode st = LocalOnly \<or> user_ceiling env u st = LocalOnly)"
proof -
  have "min a b = LocalOnly \<longleftrightarrow> a = LocalOnly \<or> b = LocalOnly" for a b
    by (cases a; cases b) (simp_all add: min_def less_eq_privacy_level_def)
  moreover have "(load_instance_mode st = AllowCloud) =
      (\<exists>raw. get_setting ''privacy_mode'' st = Some raw \<and> py_strip raw = ''allow_cloud'')"
    by (auto simp: load_instance_mode_def parse_level_def split: option.splits if_splits)
  ultimately show ?thesis by (simp add: effective_min blocks_remote_models_def)
qed

lemma find_pred: "find p xs = Some x \<Longrightarrow> p x"
  by (induction xs) (auto split: if_splits)

lemma fallback_local: "resolve_local_fallback_model env u st = Some f \<Longrightarrow> is_local_model env f"
  by (auto simp: resolve_local_fallback_model_def Let_def dest: find_pred split: option.splits if_splits)

text \<open>
  Under local-only no request is resolved to a remote model: either the requested model
  is local, or a local fallback is answered together with the notice that names both models,
  or, when there is none, the request is blocked and the block is recorded once under the
  user, if the audit log takes the row. With the cloud allowed the requested model is kept.
\<close>

theorem resolved_model_respects_policy:
  "case resolve_model_for_request env m u st of
     (Inr (m', meta), st') \<Rightarrow> st' = st \<and> (blocks_remote_models env u st \<longrightarrow> is_local_model env m') \<and>
        (\<not> blocks_remote_models env u st \<longrightarrow> m' = m) \<and>
        (if is_local_model env m \<or> \<not> blocks_remote_models env u st then m' = m \<and> meta = None
         else meta = Some (build_privacy_metadata m m'))
   | (Inl e, st') \<Rightarrow> e = PrivacyModeBlocked m \<and> blocks_remote_models env u st \<and> \<not> is_local_model env m \<and>
        resolve_local_fallback_model env u st = None \<and>
        ps_audit st' = ps_audit st @ (if pe_audit_ok env then [privacy_block_entry m u (effective_privacy_mode env u st)] else []) \<and>
        ps_settings st' = ps_settings st \<and> ps_instances st' = ps_instances st"
  by (auto simp: resolve_model_for_request_def is_remote_model_def blocks_remote_models_def Let_def fallback_local
      record_privacy_block_def split: option.splits privacy_level.splits)
     (metis privacy_level.exhaust)+

definition sample_models :: "(string \<times> model_cfg) list" where
  "sample_models =
    [(''claude'', \<lparr>mc_adapter = ''anthropic'', mc_model = ''c'', mc_base_url = None, mc_proxy = None, mc_api_key_env = ''K'', mc_optional = False\<rparr>),
     (''llama'', \<lparr>mc_adapter = ''openai'', mc_model = ''l'', mc_base_url = Some ''http://ollama:11434'',
        mc_proxy = Some ''https://gw.example.com'', mc_api_key_env = [], mc_optional = False\<rparr>)]"

definition sample_privacy_env :: privacy_env where
  "sample_privacy_env = \<lparr>pe_models = sample_models, pe_auth = True, pe_environ = (\<lambda>_. None),
     pe_credential = (\<lambda>_ _. True), pe_api_key = (\<lambda>_ _. Inr ''sk''), pe_audit_ok = True\<rparr>"

definition empty_privacy :: privacy_state where
  "empty_privacy = \<lparr>ps_settings = [], ps_users = [], ps_audit = [], ps_instances = []\<rparr>"

lemma empty_blocks: "blocks_remote_models env u empty_privacy"
  using effective_min(1) [of env u empty_privacy]
  by (simp add: blocks_remote_models_def load_instance_mode_def get_setting_def empty_privacy_def min_def less_eq_privacy_level_def)

lemma sample_model_facts:
  "\<not> is_local_model sample_privacy_env ''claude''" "is_local_model sample_privacy_env ''llama''"
  by (code_simp, code_simp)

theorem resolved_model_respects_policy_witness:
  "resolve_model_for_request sample_privacy_env ''claude'' None empty_privacy =
     (Inr (''llama'', Some (build_privacy_metadata ''claude'' ''llama'')), empty_privacy)"
proof -
  have f: "resolve_local_fallback_model sample_privacy_env None empty_privacy = Some ''llama''"
    by code_simp
  have "case resolve_model_for_request sample_privacy_env ''claude'' None empty_privacy of
      (Inr (m', meta), st') \<Rightarrow> st' = empty_privacy \<and> meta = Some (build_privacy_metadata ''claude'' m') | (Inl e, st') \<Rightarrow> False"
    using resolved_model_respects_policy [where env = sample_privacy_env and m = "''claude''" and u = None and st = empty_privacy]
      empty_blocks [of sample_privacy_env None] sample_model_facts f
    by (auto split: prod.splits sum.splits)
  then show ?thesis
    using f sample_model_facts(1) empty_blocks [of sample_privacy_env None]
    by (simp add: resolve_model_for_request_def is_remote_model_def blocks_remote_models_def Let_def)
qed

text \<open>
  C34. The provider gate stands before the provider cache: for a remote model under
  local-only no adapter is built or handed out, not even one cached earlier, and one record of the
  refusal, with the model, the user and the policy, is appended to the audit log - unless its insert fails, which
  is swallowed; the refusal stands all the same. The gate trusts the model's \<open>base_url\<close>, however: a model whose
  \<open>base_url\<close> contains \<open>ollama\<close> counts as local and passes even if its configuration sends the requests
  to a \<open>proxy_url\<close>. This is stated for a model of either adapter that needs no key and is not cached yet:
  the adapter that is handed out sends to the proxy.
\<close>

theorem provider_gate_before_cache:
  assumes "blocks_remote_models env u st"
  shows "(\<not> is_local_model env m \<longrightarrow>
      fst (get_llm_provider env m u st) = Inl (PrivacyModeBlocked m) \<and>
      snd (get_llm_provider env m u st) =
        st\<lparr>ps_audit := ps_audit st @ (if pe_audit_ok env then [privacy_block_entry m u (effective_privacy_mode env u st)] else [])\<rparr>) \<and>
    (\<forall>cfg p. get_model_config env m = Some cfg \<and> is_local_model env m \<and> mc_adapter cfg \<in> {''openai'', ''anthropic''} \<and>
       mc_api_key_env cfg = [] \<and> mc_proxy cfg = Some p \<and> p \<noteq> [] \<and> map_of (ps_instances st) (''llm:_local:'' @ m) = None \<longrightarrow>
       (\<exists>a. fst (get_llm_provider env m u st) = Inr a \<and> ad_url a = Some p))"
  using assms
  by (auto simp: get_llm_provider_def assert_remote_allowed_def is_remote_model_def blocks_remote_models_def
      record_privacy_block_def llm_cache_key_def Let_def)

theorem provider_gate_before_cache_witness:
  "fst (get_llm_provider sample_privacy_env ''claude'' (Some ''ann'') empty_privacy) = Inl (PrivacyModeBlocked ''claude'') \<and>
   map pa_user (ps_audit (snd (get_llm_provider sample_privacy_env ''claude'' (Some ''ann'') empty_privacy))) = [''ann''] \<and>
   (\<exists>a. fst (get_llm_provider sample_privacy_env ''llama'' (Some ''ann'') empty_privacy) = Inr a \<and>
      ad_url a = Some ''https://gw.example.com'')"
  using provider_gate_before_cache [OF empty_blocks, of sample_privacy_env "''claude''" "Some ''ann''"]
    provider_gate_before_cache [OF empty_blocks, of sample_privacy_env "''llama''" "Some ''ann''"] sample_model_facts
  by (simp add: get_model_config_def sample_privacy_env_def sample_models_def empty_privacy_def privacy_block_entry_def)

subsection \<open>Changes of the policy\<close>

lemma map_of_filter_key: "map_of (filter (\<lambda>e. fst e \<noteq> u) xs) k = (if k = u then None else map_of xs k)"
  by (induction xs) auto

text \<open>
  A user's own switch only restricts: whatever a user patches, the policy for every other
  user is unchanged and the user's own never exceeds the instance's; choosing local-only
  always succeeds and takes effect; under a local-only instance an existing restriction
  cannot be lifted.
\<close>

theorem user_patch_only_restricts:
  assumes "pe_auth env"
  shows "(\<forall>v. v \<noteq> u \<longrightarrow> effective_privacy_mode env (Some v) (snd (patch_me_privacy_mode env u r st)) = effective_privacy_mode env (Some v) st) \<and>
    ef_effective (effective_privacy_mode env (Some u) (snd (patch_me_privacy_mode env u r st))) \<le> load_instance_mode st \<and>
    (r = RestrictLocal \<longrightarrow> ef_effective (effective_privacy_mode env (Some u) (snd (patch_me_privacy_mode env u r st))) = LocalOnly) \<and>
    (r = Inherit \<and> load_instance_mode st = LocalOnly \<and> map_of (ps_users st) u = Some ''local_only'' \<longrightarrow>
       patch_me_privacy_mode env u r st = (Inl RestrictionDenied, st))"
proof -
  have inst: "load_instance_mode (snd (patch_me_privacy_mode env u r st)) = load_instance_mode st"
    "load_instance_locked (snd (patch_me_privacy_mode env u r st)) = load_instance_locked st"
    by (cases r; simp add: patch_me_privacy_mode_def load_instance_mode_def load_instance_locked_def get_setting_def Let_def)+
  have other: "load_user_restriction v (snd (patch_me_privacy_mode env u r st)) = load_user_restriction v st" if "v \<noteq> u" for v
    using that by (cases r) (simp_all add: patch_me_privacy_mode_def load_user_restriction_def map_of_filter_key Let_def)
  have "effective_privacy_mode env (Some v) (snd (patch_me_privacy_mode env u r st)) = effective_privacy_mode env (Some v) st" if "v \<noteq> u" for v
    unfolding effective_privacy_mode_def Let_def option.case other [OF that] inst ..
  moreover have "r = RestrictLocal \<Longrightarrow> ef_effective (effective_privacy_mode env (Some u) (snd (patch_me_privacy_mode env u r st))) = LocalOnly"
    using assms
    by (simp add: effective_min(1) user_ceiling_def patch_me_privacy_mode_def restriction_text_def Let_def min_def less_eq_privacy_level_def)
  moreover have "ef_effective (effective_privacy_mode env (Some u) (snd (patch_me_privacy_mode env u r st))) \<le> load_instance_mode st"
    unfolding effective_min(1) inst by (rule min.cobounded1)
  moreover have "ef_user (effective_privacy_mode env (Some u) st) = load_user_restriction u st"
    using assms by (simp add: effective_privacy_mode_def Let_def)
  then have "r = Inherit \<and> load_instance_mode st = LocalOnly \<and> map_of (ps_users st) u = Some ''local_only'' \<longrightarrow>
       patch_me_privacy_mode env u r st = (Inl RestrictionDenied, st)"
    by (simp add: effective_min patch_me_privacy_mode_def restriction_local Let_def)
  ultimately show ?thesis by blast
qed

theorem user_patch_only_restricts_witness:
  "patch_me_privacy_mode sample_privacy_env ''ann'' Inherit (empty_privacy\<lparr>ps_users := [(''ann'', ''local_only'')]\<rparr>) =
     (Inl RestrictionDenied, empty_privacy\<lparr>ps_users := [(''ann'', ''local_only'')]\<rparr>)"
proof -
  have "pe_auth sample_privacy_env" by (simp add: sample_privacy_env_def)
  from user_patch_only_restricts [OF this, THEN conjunct2, THEN conjunct2, THEN conjunct2,
      of Inherit "empty_privacy\<lparr>ps_users := [(''ann'', ''local_only'')]\<rparr>" "''ann''"]
  show ?thesis by (simp add: load_instance_mode_def get_setting_def empty_privacy_def)
qed

definition lock_consistent :: "privacy_state \<Rightarrow> bool" where
  "lock_consistent st \<longleftrightarrow> \<not> (load_instance_locked st \<and> load_instance_mode st = AllowCloud)"

lemma put_settings_lookup:
  "get_setting k (put_settings kvs st) = (case map_of (rev kvs) k of None \<Rightarrow> get_setting k st | Some v \<Rightarrow> Some v)"
proof (induction kvs st rule: put_settings.induct)
  case (1 st)
  then show ?case by simp
next
  case (2 k' v kvs st)
  then show ?case by (cases "map_of (rev kvs) k") (simp_all add: get_setting_def map_add_def)
qed

lemma validate_ok: "validate_instance_privacy_patch cm cl nm nl = Inr () \<Longrightarrow>
    \<not> ((case nl of None \<Rightarrow> cl | Some l \<Rightarrow> l) \<and> (case nm of None \<Rightarrow> cm | Some m \<Rightarrow> m) = AllowCloud)"
  by (auto simp: validate_instance_privacy_patch_def Let_def split: if_splits)

lemma strip_texts: "py_strip ''local_only'' = ''local_only''" "py_strip ''allow_cloud'' = ''allow_cloud''"
  by (code_simp, code_simp)

lemma level_text_parses: "py_strip (level_text m) = level_text m" "parse_level (level_text m) = Some m" "level_text m \<noteq> []"
  by (cases m; simp add: level_text_def parse_level_def strip_texts)+

lemma truthy_texts: "truthy_setting (Some ''true'')" "\<not> truthy_setting (Some ''false'')"
  by (code_simp, code_simp)

lemma admin_update_settings:
  assumes "admin_privacy_update env nm nl st = (Inr (), st')"
  shows "load_instance_mode st' = (case nm of None \<Rightarrow> load_instance_mode st | Some m \<Rightarrow> m)"
    and "load_instance_locked st' = (case nl of None \<Rightarrow> load_instance_locked st | Some l \<Rightarrow> l)"
proof -
  let ?ups = "(case nm of None \<Rightarrow> [] | Some m \<Rightarrow> [(''privacy_mode'', level_text m)]) @
      (case nl of None \<Rightarrow> [] | Some l \<Rightarrow> [(''privacy_mode_locked'', if l then ''true'' else ''false'')])"
  have "st' = (put_settings ?ups st)\<lparr>ps_instances := []\<rparr> \<or> (nm = None \<and> nl = None \<and> st' = st)"
    using assms by (auto simp: admin_privacy_update_def Let_def split: if_splits sum.splits)
  moreover have "get_setting k ((put_settings ?ups st)\<lparr>ps_instances := []\<rparr>) = get_setting k (put_settings ?ups st)" for k
    by (simp add: get_setting_def)
  ultimately have g: "get_setting k st' = (case map_of (rev ?ups) k of None \<Rightarrow> get_setting k st | Some v \<Rightarrow> Some v)" for k
    by (auto simp: put_settings_lookup)
  show "load_instance_mode st' = (case nm of None \<Rightarrow> load_instance_mode st | Some m \<Rightarrow> m)"
    by (cases nm; cases nl) (simp_all add: load_instance_mode_def g level_text_parses)
  show "load_instance_locked st' = (case nl of None \<Rightarrow> load_instance_locked st | Some l \<Rightarrow> l)"
    using truthy_texts by (cases nm; cases nl) (auto simp: load_instance_locked_def g)
qed

lemma admin_update_consistent:
  assumes "lock_consistent st"
  shows "lock_consistent (snd (admin_privacy_update env nm nl st))"
proof (cases "fst (admin_privacy_update env nm nl st)")
  case (Inl e)
  then have "snd (admin_privacy_update env nm nl st) = st"
    by (auto simp: admin_privacy_update_def Let_def split: if_splits sum.splits)
  with assms show ?thesis by simp
next
  case (Inr x)
  then obtain st' where up: "admin_privacy_update env nm nl st = (Inr (), st')" by (metis prod.collapse old.unit.exhaust)
  have "validate_instance_privacy_patch (load_instance_mode st) (load_instance_locked st) nm nl = Inr () \<or> (nm = None \<and> nl = None)"
    using up by (auto simp: admin_privacy_update_def Let_def effective_min split: if_splits sum.splits)
  with validate_ok [of "load_instance_mode st" "load_instance_locked st" nm nl] admin_update_settings [OF up] assms
  show ?thesis by (auto simp: lock_consistent_def up)
qed

interpretation lock: event_machine "\<lambda>st (nm, nl). snd (admin_privacy_update env nm nl st)" lock_consistent for env
  by unfold_locales (auto intro: admin_update_consistent)

text \<open>
  The lock is sound but its own error is dead: from a fresh instance no sequence of admin
  updates leaves the mode locked and the cloud allowed, since every update that would is
  refused with \<open>privacy_lock_requires_local_only\<close>; the second refusal,
  \<open>privacy_mode_locked\<close>, is never given for any input. Lifting the lock and allowing the
  cloud in one update is accepted.
\<close>

theorem lock_keeps_cloud_off:
  assumes "ps_settings st0 = []"
  shows "\<not> (load_instance_locked (foldl (\<lambda>st (nm, nl). snd (admin_privacy_update env nm nl st)) st0 ups) \<and>
       load_instance_mode (foldl (\<lambda>st (nm, nl). snd (admin_privacy_update env nm nl st)) st0 ups) = AllowCloud) \<and>
    validate_instance_privacy_patch cm cl nm nl \<noteq> Inl ModeLocked \<and>
    validate_instance_privacy_patch LocalOnly True (Some AllowCloud) (Some False) = Inr ()"
proof -
  have "lock_consistent st0"
    using assms by (simp add: lock_consistent_def load_instance_locked_def truthy_setting_def get_setting_def)
  from lock.run_good [OF this, of env ups] show ?thesis
    by (auto simp: lock_consistent_def validate_instance_privacy_patch_def Let_def split: option.splits)
qed

theorem lock_keeps_cloud_off_witness:
  "\<not> (load_instance_locked (foldl (\<lambda>st (nm, nl). snd (admin_privacy_update sample_privacy_env nm nl st)) empty_privacy
         [(None, Some True), (Some AllowCloud, None)]) \<and>
      load_instance_mode (foldl (\<lambda>st (nm, nl). snd (admin_privacy_update sample_privacy_env nm nl st)) empty_privacy
         [(None, Some True), (Some AllowCloud, None)]) = AllowCloud)"
  by (rule lock_keeps_cloud_off [THEN conjunct1]) (simp add: empty_privacy_def)

end
