(* ===== verification/ProposalQueue.thy ===== *)
theory ProposalQueue
  imports Prelude
begin

section \<open>The queue of action proposals\<close>

text \<open>
  Models \<open>orchestrator/services/proposal_queue.py\<close> over table \<open>action_proposals\<close>
  (\<open>postgres/migrations/022-action-proposals-claim.sql\<close>): the two claims, completion,
  failure with backoff and the sweep of stale claims. Every SQL statement is one atomic
  operation on the list of rows; \<open>FOR UPDATE SKIP LOCKED\<close> is the argument \<open>locked\<close>, the
  ids other transactions hold at that moment. The statements are the steps of
  \<open>proposal_step\<close>, so that any interleaving of workers is a sequence of steps.
\<close>

subsection \<open>Rows\<close>

datatype proposal_status = Pending | Approved | Claimed | Executing | Done | Rejected | Archived | Dead

record proposal =
  pq_id :: int
  pq_user :: user_id
  pq_action :: string
  pq_payload :: json_obj
  pq_status :: proposal_status
  pq_attempt :: int
  pq_run_after :: instant
  pq_claimed_at :: "instant option"
  pq_claimed_by :: "string option"
  pq_created :: instant
  pq_executed :: "instant option"
  pq_finished :: "instant option"
  pq_error :: "string option"

record claimed_proposal =
  cp_id :: int
  cp_user :: user_id
  cp_action :: string
  cp_payload :: json_obj
  cp_attempt :: int
  cp_created :: instant
  cp_status :: proposal_status

definition stale_executing_error :: string where
  "stale_executing_error = ''stale_executing_claim''"

definition minute :: int where
  "minute = 60 * 1000000"

definition second :: int where
  "second = 1000000"

definition claimed_view :: "proposal \<Rightarrow> claimed_proposal" where
  "claimed_view r = \<lparr>cp_id = pq_id r, cp_user = pq_user r, cp_action = pq_action r,
     cp_payload = pq_payload r, cp_attempt = pq_attempt r, cp_created = pq_created r,
     cp_status = pq_status r\<rparr>"

subsection \<open>Claims\<close>

definition set_executing :: "instant \<Rightarrow> string \<Rightarrow> proposal \<Rightarrow> proposal" where
  "set_executing now w r = r\<lparr>pq_status := Executing, pq_claimed_at := Some now, pq_claimed_by := Some w\<rparr>"

definition eligible :: "int list \<Rightarrow> instant \<Rightarrow> proposal \<Rightarrow> bool" where
  "eligible locked now r = (pq_status r = Approved \<and> pq_claimed_at r = None \<and>
     pq_run_after r \<le> now \<and> pq_id r \<notin> set locked)"

definition claim_next ::
  "int list \<Rightarrow> instant \<Rightarrow> string \<Rightarrow> proposal list \<Rightarrow> claimed_proposal option \<times> proposal list" where
  "claim_next locked now w q =
     (case least_by pq_id (filter (eligible locked now) q) of
        None \<Rightarrow> (None, q)
      | Some r \<Rightarrow> (Some (claimed_view (set_executing now w r)),
                   update_where (\<lambda>x. pq_id x = pq_id r) (set_executing now w) q))"

definition claim_by_id ::
  "instant \<Rightarrow> int \<Rightarrow> user_id \<Rightarrow> string \<Rightarrow> proposal list \<Rightarrow> claimed_proposal option \<times> proposal list" where
  "claim_by_id now i u w q =
     (let hit = (\<lambda>r. pq_id r = i \<and> pq_user r = u \<and> pq_status r = Approved \<and> pq_claimed_at r = None) in
      (map_option (\<lambda>r. claimed_view (set_executing now w r)) (find hit q),
       update_where hit (set_executing now w) q))"

subsection \<open>Completion, failure, sweep\<close>

definition mark_done :: "instant \<Rightarrow> int \<Rightarrow> proposal list \<Rightarrow> proposal list" where
  "mark_done now i q = update_where (\<lambda>r. pq_id r = i \<and> pq_status r = Executing)
     (\<lambda>r. r\<lparr>pq_status := Done, pq_executed := Some now, pq_finished := Some now\<rparr>) q"

definition fail_row :: "instant \<Rightarrow> string \<Rightarrow> int \<Rightarrow> int \<Rightarrow> proposal \<Rightarrow> proposal" where
  "fail_row now err m backoff_minutes r =
     r\<lparr>pq_attempt := pq_attempt r + 1,
       pq_error := Some (take 1000 err),
       pq_status := (if pq_attempt r + 1 < m then Approved else Dead),
       pq_finished := (if pq_attempt r + 1 < m then None else Some now),
       pq_run_after := (if pq_attempt r + 1 < m then now + backoff_minutes * minute else pq_run_after r),
       pq_claimed_by := None, pq_claimed_at := None, pq_executed := None\<rparr>"

definition fail_sql :: "instant \<Rightarrow> string \<Rightarrow> int \<Rightarrow> int \<Rightarrow> int \<Rightarrow> proposal list \<Rightarrow> proposal list" where
  "fail_sql now err m backoff_minutes i q =
     update_where (\<lambda>r. pq_id r = i \<and> pq_status r = Executing) (fail_row now err m backoff_minutes) q"

definition fail_execution :: "instant \<Rightarrow> int \<Rightarrow> string \<Rightarrow> int \<Rightarrow> proposal list \<Rightarrow> proposal list" where
  "fail_execution now i err m q =
     (case find (\<lambda>r. pq_id r = i \<and> pq_status r = Executing) q of
        None \<Rightarrow> q
      | Some r \<Rightarrow>
          let new_attempt = pq_attempt r + 1; backoff = 2 ^ nat new_attempt
          in fail_sql now err m backoff i q)"

definition stuck :: "instant \<Rightarrow> int \<Rightarrow> proposal \<Rightarrow> bool" where
  "stuck now stuck_after r =
     ((pq_status r = Executing \<or> pq_status r = Claimed) \<and>
      (case pq_claimed_at r of None \<Rightarrow> False | Some t \<Rightarrow> t < now - stuck_after * second))"

definition sweep_row :: "instant \<Rightarrow> proposal \<Rightarrow> proposal" where
  "sweep_row now r = r\<lparr>pq_status := Dead, pq_finished := Some now,
     pq_error := Some stale_executing_error, pq_claimed_by := None, pq_claimed_at := None\<rparr>"

definition reset_stuck_claims :: "instant \<Rightarrow> int \<Rightarrow> proposal list \<Rightarrow> nat \<times> proposal list" where
  "reset_stuck_claims now stuck_after q =
     (length (filter (stuck now stuck_after) q),
      update_where (stuck now stuck_after) (sweep_row now) q)"

record proposal_peek =
  pk_id :: int
  pk_status :: proposal_status
  pk_action :: string
  pk_payload :: json_obj
  pk_claimed_at :: "instant option"
  pk_claimed_by :: "string option"
  pk_run_after :: instant

definition select_proposal_for_user :: "int \<Rightarrow> user_id \<Rightarrow> proposal list \<Rightarrow> proposal_peek option" where
  "select_proposal_for_user i u q =
     map_option (\<lambda>r. \<lparr>pk_id = pq_id r, pk_status = pq_status r, pk_action = pq_action r,
         pk_payload = pq_payload r, pk_claimed_at = pq_claimed_at r,
         pk_claimed_by = pq_claimed_by r, pk_run_after = pq_run_after r\<rparr>)
       (find (\<lambda>r. pq_id r = i \<and> pq_user r = u) q)"

lemmas proposal_defs = claim_next_def claim_by_id_def mark_done_def fail_sql_def reset_stuck_claims_def

subsection \<open>Steps of any number of workers\<close>

inductive proposal_step :: "proposal list \<Rightarrow> proposal list \<Rightarrow> bool" where
  StepClaimNext: "proposal_step q (snd (claim_next locked now w q))"
| StepClaimById: "proposal_step q (snd (claim_by_id now i u w q))"
| StepMarkDone: "proposal_step q (mark_done now i q)"
| StepFail: "proposal_step q (fail_sql now err m b i q)"
| StepSweep: "proposal_step q (snd (reset_stuck_claims now s q))"

inductive_cases proposal_stepE: "proposal_step q q'"

text \<open>
  What every step does to one row: nothing, a claim of an approved unclaimed row, or an
  outcome of a row that is being executed (or, for the sweep, stuck in \<open>claimed\<close>).
\<close>

definition row_step :: "proposal \<Rightarrow> proposal \<Rightarrow> bool" where
  "row_step r r' \<longleftrightarrow> r' = r \<or>
     (pq_status r = Approved \<and> pq_claimed_at r = None \<and> (\<exists>now w. r' = set_executing now w r)) \<or>
     (pq_status r = Executing \<and> (\<exists>now. r' = r\<lparr>pq_status := Done, pq_executed := Some now, pq_finished := Some now\<rparr>)) \<or>
     (pq_status r = Executing \<and> (\<exists>now err m b. r' = fail_row now err m b r)) \<or>
     (pq_status r \<in> {Executing, Claimed} \<and> (\<exists>now. r' = sweep_row now r))"

lemma row_stepI:
  "pq_status r = Approved \<Longrightarrow> pq_claimed_at r = None \<Longrightarrow> row_step r (set_executing now w r)"
  "pq_status r = Executing \<Longrightarrow> row_step r (r\<lparr>pq_status := Done, pq_executed := Some now, pq_finished := Some now\<rparr>)"
  "pq_status r = Executing \<Longrightarrow> row_step r (fail_row now err m b r)"
  "pq_status r \<in> {Executing, Claimed} \<Longrightarrow> row_step r (sweep_row now r)"
  by (auto simp: row_step_def)

lemma row_step_id: "row_step r r' \<Longrightarrow> pq_id r' = pq_id r \<and> pq_user r' = pq_user r \<and>
    pq_action r' = pq_action r \<and> pq_payload r' = pq_payload r"
  by (auto simp: row_step_def set_executing_def fail_row_def sweep_row_def)

lemma update_where_rows:
  "\<forall>r \<in> set rows. p r \<longrightarrow> row_step r (f r) \<Longrightarrow> list_all2 row_step rows (update_where p f rows)"
  by (induction rows) (auto simp: row_step_def)

lemma claim_next_rows:
  assumes "distinct (map pq_id q)"
  shows "list_all2 row_step q (snd (claim_next locked now w q))"
proof (cases "least_by pq_id (filter (eligible locked now) q)")
  case None
  then show ?thesis by (simp add: claim_next_def list.rel_refl row_step_def)
next
  case (Some r)
  then have r: "r \<in> set q" "eligible locked now r" using least_by_in by force+
  have "row_step x (set_executing now w x)" if "x \<in> set q" "pq_id x = pq_id r" for x
  proof -
    have "x = r" using assms that r(1) by (simp add: distinct_map inj_on_def)
    with r(2) show ?thesis by (auto simp: row_step_def eligible_def)
  qed
  with Some show ?thesis by (auto simp: claim_next_def intro: update_where_rows)
qed

lemma step_rows:
  assumes "proposal_step q q'" and "distinct (map pq_id q)"
  shows "list_all2 row_step q q'"
  using assms(1)
proof (cases rule: proposal_step.cases)
  case (StepClaimNext locked now w)
  then show ?thesis using claim_next_rows [OF assms(2)] by simp
qed (auto simp: claim_by_id_def mark_done_def fail_sql_def reset_stuck_claims_def Let_def stuck_def
       intro!: update_where_rows row_stepI)

lemma rows_ids: "list_all2 row_step q q' \<Longrightarrow> map pq_id q' = map pq_id q"
  by (induction rule: list_all2_induct) (auto dest: row_step_id)

lemma rows_in: "list_all2 row_step q q' \<Longrightarrow> r \<in> set q \<Longrightarrow> \<exists>r' \<in> set q'. row_step r r'"
  by (induction rule: list_all2_induct) auto

lemma rows_in_back: "list_all2 row_step q q' \<Longrightarrow> r' \<in> set q' \<Longrightarrow> \<exists>r \<in> set q. row_step r r'"
  by (induction rule: list_all2_induct) auto

subsection \<open>Invariant and final states\<close>

definition claim_fields_ok :: "proposal \<Rightarrow> bool" where
  "claim_fields_ok r \<longleftrightarrow>
     (pq_status r = Executing \<longrightarrow> pq_claimed_at r \<noteq> None \<and> pq_claimed_by r \<noteq> None) \<and>
     (pq_status r = Approved \<longrightarrow> pq_claimed_at r = None)"

definition queue_good :: "proposal list \<Rightarrow> bool" where
  "queue_good q \<longleftrightarrow> distinct (map pq_id q) \<and> list_all claim_fields_ok q"

definition settled :: "proposal list \<Rightarrow> proposal \<Rightarrow> bool" where
  "settled q r \<longleftrightarrow> r \<in> set q \<and> pq_status r \<in> {Pending, Done, Rejected, Archived, Dead}"

lemma row_step_claim_fields: "row_step r r' \<Longrightarrow> claim_fields_ok r \<Longrightarrow> claim_fields_ok r'"
  by (auto simp: row_step_def claim_fields_ok_def set_executing_def fail_row_def sweep_row_def
      split: if_splits)

lemma row_step_settled: "row_step r r' \<Longrightarrow> pq_status r \<in> {Pending, Done, Rejected, Archived, Dead} \<Longrightarrow> r' = r"
  by (auto simp: row_step_def)

lemma step_queue_good:
  assumes "queue_good q" and "proposal_step q q'"
  shows "queue_good q'"
proof -
  have rows: "list_all2 row_step q q'"
    using assms by (simp add: step_rows queue_good_def)
  have "claim_fields_ok r'" if "r' \<in> set q'" for r'
    using rows_in_back [OF rows that] assms(1) row_step_claim_fields
    by (auto simp: queue_good_def list_all_iff)
  with rows_ids [OF rows] assms(1) show ?thesis by (simp add: queue_good_def list_all_iff)
qed

lemma step_settled: "queue_good q \<Longrightarrow> proposal_step q q' \<Longrightarrow> settled q r \<Longrightarrow> settled q' r"
  using rows_in [OF step_rows, of q q' r] row_step_settled
  by (fastforce simp: settled_def queue_good_def)

interpretation pq: final_system proposal_step queue_good settled
  by unfold_locales (blast intro: step_queue_good step_settled)+

text \<open>
  Finished is final: whatever any number of workers and sweeps do afterwards, a proposal
  that is done, dead, rejected or archived (or still pending, waiting for a user's approval)
  keeps its whole row. No statement of the queue re-opens it or approves it.
\<close>

theorem settled_proposals_never_change:
  assumes "distinct (map pq_id q)" and "list_all claim_fields_ok q" and "proposal_step\<^sup>*\<^sup>* q q'"
    and "r \<in> set q" and "pq_status r \<in> {Pending, Done, Rejected, Archived, Dead}"
  shows "r \<in> set q' \<and> (\<forall>r' \<in> set q'. pq_id r' = pq_id r \<longrightarrow> r' = r)"
proof -
  have good: "queue_good q" using assms(1,2) by (simp add: queue_good_def)
  have r: "r \<in> set q'"
    using pq.reach_final [OF assms(3) good, of r] assms(4,5) by (simp add: settled_def)
  have "distinct (map pq_id q')"
    using pq.reach_good [OF assms(3) good] by (simp add: queue_good_def)
  with r show ?thesis by (auto simp: distinct_map inj_on_def)
qed

definition sample_proposal :: "int \<Rightarrow> proposal_status \<Rightarrow> proposal" where
  "sample_proposal i s = \<lparr>pq_id = i, pq_user = ''ann'', pq_action = ''tag_mail'', pq_payload = [],
     pq_status = s, pq_attempt = 0, pq_run_after = 0, pq_claimed_at = None, pq_claimed_by = None,
     pq_created = 0, pq_executed = None, pq_finished = None, pq_error = None\<rparr>"

lemma sample_proposal_simps [simp]:
  "pq_id (sample_proposal i s) = i" "pq_status (sample_proposal i s) = s"
  "pq_user (sample_proposal i s) = ''ann''" "pq_attempt (sample_proposal i s) = 0"
  "pq_claimed_at (sample_proposal i s) = None" "pq_run_after (sample_proposal i s) = 0"
  "pq_action (sample_proposal i s) = ''tag_mail''" "pq_payload (sample_proposal i s) = []"
  by (simp_all add: sample_proposal_def)

theorem settled_proposals_never_change_witness:
  "sample_proposal 2 Done \<in> set (mark_done 8 1 (snd (claim_next [] 7 ''w'' [sample_proposal 1 Approved, sample_proposal 2 Done])))"
proof -
  let ?q = "[sample_proposal 1 Approved, sample_proposal 2 Done]"
  have "proposal_step\<^sup>*\<^sup>* ?q (mark_done 8 1 (snd (claim_next [] 7 ''w'' ?q)))"
    by (meson StepClaimNext StepMarkDone r_into_rtranclp rtranclp.rtrancl_into_rtrancl)
  from settled_proposals_never_change [OF _ _ this, of "sample_proposal 2 Done"]
  show ?thesis by (simp add: claim_fields_ok_def)
qed

subsection \<open>Exclusive claims\<close>

lemma set_executing_simps [simp]:
  "pq_id (set_executing now w r) = pq_id r" "pq_status (set_executing now w r) = Executing"
  "pq_user (set_executing now w r) = pq_user r" "pq_attempt (set_executing now w r) = pq_attempt r"
  "pq_claimed_at (set_executing now w r) = Some now" "pq_claimed_by (set_executing now w r) = Some w"
  "pq_action (set_executing now w r) = pq_action r" "pq_payload (set_executing now w r) = pq_payload r"
  by (simp_all add: set_executing_def)

lemma claimed_view_simps [simp]:
  "cp_id (claimed_view r) = pq_id r" "cp_user (claimed_view r) = pq_user r"
  "cp_action (claimed_view r) = pq_action r" "cp_payload (claimed_view r) = pq_payload r"
  "cp_attempt (claimed_view r) = pq_attempt r" "cp_status (claimed_view r) = pq_status r"
  by (simp_all add: claimed_view_def)

lemma executing_not_claimable:
  assumes "\<forall>r \<in> set q. pq_id r = i \<longrightarrow> pq_status r \<noteq> Approved"
  shows "claim_by_id now i u w q = (None, q)"
    and "claim_next locked now w q = (Some c, q') \<Longrightarrow> cp_id c \<noteq> i"
proof -
  show "claim_by_id now i u w q = (None, q)"
    using assms by (auto simp: claim_by_id_def Let_def find_None_iff intro!: update_where_none)
  assume "claim_next locked now w q = (Some c, q')"
  then obtain r where "least_by pq_id (filter (eligible locked now) q) = Some r" "cp_id c = pq_id r"
    by (auto simp: claim_next_def split: option.splits)
  then show "cp_id c \<noteq> i" using assms least_by_in by (fastforce simp: eligible_def)
qed

lemma claim_next_claimed:
  assumes "claim_next locked now w q = (Some c, q')"
  obtains r where "r \<in> set q" "eligible locked now r" "c = claimed_view (set_executing now w r)"
    "q' = update_where (\<lambda>x. pq_id x = pq_id r) (set_executing now w) q"
    "\<forall>r' \<in> set q. eligible locked now r' \<longrightarrow> pq_id r \<le> pq_id r'"
proof -
  obtain r where r: "least_by pq_id (filter (eligible locked now) q) = Some r"
    using assms by (auto simp: claim_next_def split: option.splits)
  show ?thesis
    by (rule that [of r])
       (use r assms least_by_Some [OF r] in \<open>auto simp: claim_next_def\<close>)
qed

text \<open>
  A claim is exclusive: \<open>claim_next\<close> takes the oldest approved, unclaimed, due row no
  other transaction holds; the row it returns is now being executed by this worker, every
  other row is as before, and until its outcome no other claim, by id or next, obtains it.
\<close>

theorem claim_next_is_exclusive:
  assumes "distinct (map pq_id q)" and "claim_next locked now w q = (Some c, q')"
  shows "(\<exists>r \<in> set q. pq_id r = cp_id c \<and> eligible locked now r \<and>
            t_find pq_id (cp_id c) q' = Some (set_executing now w r)) \<and>
         (\<forall>r' \<in> set q. eligible locked now r' \<longrightarrow> cp_id c \<le> pq_id r') \<and>
         (\<forall>i. i \<noteq> cp_id c \<longrightarrow> t_find pq_id i q' = t_find pq_id i q) \<and>
         claim_by_id now2 (cp_id c) u w2 q' = (None, q') \<and>
         (\<forall>c2 q2. claim_next locked2 now2 w2 q' = (Some c2, q2) \<longrightarrow> cp_id c2 \<noteq> cp_id c)"
proof -
  obtain r where r: "r \<in> set q" "eligible locked now r" "c = claimed_view (set_executing now w r)"
    "q' = update_where (\<lambda>x. pq_id x = pq_id r) (set_executing now w) q"
    "\<forall>r' \<in> set q. eligible locked now r' \<longrightarrow> pq_id r \<le> pq_id r'"
    using claim_next_claimed [OF assms(2)] .
  have find: "t_find pq_id i q' = map_option (\<lambda>x. if pq_id x = pq_id r then set_executing now w x else x) (t_find pq_id i q)" for i
    unfolding r(4) by (rule t_find_update_where) simp
  have here: "t_find pq_id (cp_id c) q' = Some (set_executing now w r)"
    using find [of "pq_id r"] t_find_unique [OF assms(1) r(1)] r(3) by simp
  have other: "t_find pq_id i q' = t_find pq_id i q" if "i \<noteq> cp_id c" for i
    using that find [of i] t_find_Some [of pq_id i q] r(3) by (cases "t_find pq_id i q") auto
  have busy: "\<forall>x \<in> set q'. pq_id x = cp_id c \<longrightarrow> pq_status x \<noteq> Approved"
    using r(3,4) by (auto simp: set_update_where)
  show ?thesis
    using r here other executing_not_claimable [OF busy] by auto
qed

theorem claim_next_is_exclusive_witness:
  "claim_by_id 9 1 ''ann'' ''w2'' (snd (claim_next [] 7 ''w'' [sample_proposal 2 Approved, sample_proposal 1 Approved])) =
    (None, snd (claim_next [] 7 ''w'' [sample_proposal 2 Approved, sample_proposal 1 Approved]))"
proof -
  have d: "distinct (map pq_id [sample_proposal 2 Approved, sample_proposal 1 Approved])" by simp
  have "claim_next [] 7 ''w'' [sample_proposal 2 Approved, sample_proposal 1 Approved] =
    (Some (claimed_view (set_executing 7 ''w'' (sample_proposal 1 Approved))),
     [sample_proposal 2 Approved, set_executing 7 ''w'' (sample_proposal 1 Approved)])"
    by (simp add: claim_next_def eligible_def)
  from claim_next_is_exclusive [OF d this, of 9 "''ann''" "''w2''" "[]"] this show ?thesis by simp
qed

subsection \<open>Retries\<close>

lemma fail_row_simps [simp]:
  "pq_id (fail_row now err m b r) = pq_id r" "pq_user (fail_row now err m b r) = pq_user r"
  "pq_attempt (fail_row now err m b r) = pq_attempt r + 1"
  "pq_status (fail_row now err m b r) = (if pq_attempt r + 1 < m then Approved else Dead)"
  "pq_claimed_at (fail_row now err m b r) = None"
  "pq_run_after (fail_row now err m b r) = (if pq_attempt r + 1 < m then now + b * minute else pq_run_after r)"
  by (simp_all add: fail_row_def)

definition retry_row :: "instant \<Rightarrow> string \<Rightarrow> int \<Rightarrow> proposal \<Rightarrow> proposal" where
  "retry_row now err m r = fail_row now err m (2 ^ nat (pq_attempt r + 1)) r"

interpretation retry: retry_ledger pq_attempt "\<lambda>r. pq_status r = Approved \<and> pq_claimed_at r = None"
  "\<lambda>r. pq_status r = Dead" "set_executing now w" "retry_row fnow err" for now w fnow err
  by unfold_locales (simp_all add: retry_row_def)

text \<open>One round of a worker: claim the proposal, fail its execution.\<close>

definition failed_round ::
  "instant \<Rightarrow> instant \<Rightarrow> string \<Rightarrow> string \<Rightarrow> int \<Rightarrow> int \<Rightarrow> user_id \<Rightarrow> proposal list \<Rightarrow> proposal list" where
  "failed_round now fnow w err m i u q = fail_execution fnow i err m (snd (claim_by_id now i u w q))"

lemmas find_as_t_find = find_by_key [where key = pq_id]

lemma fail_execution_find:
  assumes "distinct (map pq_id q)" and "t_find pq_id i q = Some r" and "pq_status r = Executing"
  shows "t_find pq_id i (fail_execution now i err m q) = Some (retry_row now err m r)"
    and "map pq_id (fail_execution now i err m q) = map pq_id q"
    and "j \<noteq> i \<Longrightarrow> t_find pq_id j (fail_execution now i err m q) = t_find pq_id j q"
proof -
  have eq: "fail_execution now i err m q = fail_sql now err m (2 ^ nat (pq_attempt r + 1)) i q"
    using assms by (simp add: fail_execution_def find_as_t_find)
  note u = t_find_update_row [OF assms(2), where p = "\<lambda>x. pq_id x = i \<and> pq_status x = Executing"
      and f = "fail_row now err m (2 ^ nat (pq_attempt r + 1))"]
  show "t_find pq_id i (fail_execution now i err m q) = Some (retry_row now err m r)"
    unfolding eq fail_sql_def retry_row_def using assms(3) t_find_Some [OF assms(2)] by (intro u(1)) auto
  show "map pq_id (fail_execution now i err m q) = map pq_id q"
    unfolding eq fail_sql_def by (rule map_key_update_where) simp
  show "t_find pq_id j (fail_execution now i err m q) = t_find pq_id j q" if "j \<noteq> i"
    unfolding eq fail_sql_def using assms(3) t_find_Some [OF assms(2)] that by (intro u(2)) auto
qed

lemma claim_by_id_find:
  assumes "distinct (map pq_id q)" and "t_find pq_id i q = Some r" and "pq_user r = u"
    and "pq_status r = Approved" and "pq_claimed_at r = None"
  shows "fst (claim_by_id now i u w q) = Some (claimed_view (set_executing now w r))"
    and "t_find pq_id i (snd (claim_by_id now i u w q)) = Some (set_executing now w r)"
    and "map pq_id (snd (claim_by_id now i u w q)) = map pq_id q"
    and "j \<noteq> i \<Longrightarrow> t_find pq_id j (snd (claim_by_id now i u w q)) = t_find pq_id j q"
proof -
  let ?hit = "\<lambda>x. pq_id x = i \<and> pq_user x = u \<and> pq_status x = Approved \<and> pq_claimed_at x = None"
  have s: "snd (claim_by_id now i u w q) = update_where ?hit (set_executing now w) q"
    by (simp add: claim_by_id_def Let_def)
  have f: "t_find pq_id k (snd (claim_by_id now i u w q)) =
      map_option (\<lambda>x. if ?hit x then set_executing now w x else x) (t_find pq_id k q)" for k
    unfolding s by (rule t_find_update_where) simp
  show "fst (claim_by_id now i u w q) = Some (claimed_view (set_executing now w r))"
    using assms find_as_t_find [OF assms(1), of i "\<lambda>x. pq_user x = u \<and> pq_status x = Approved \<and> pq_claimed_at x = None"]
    by (simp add: claim_by_id_def Let_def)
  show "t_find pq_id i (snd (claim_by_id now i u w q)) = Some (set_executing now w r)"
    using f [of i] assms t_find_Some [OF assms(2)] by simp
  show "map pq_id (snd (claim_by_id now i u w q)) = map pq_id q"
    unfolding s by (rule map_key_update_where) simp
  show "t_find pq_id j (snd (claim_by_id now i u w q)) = t_find pq_id j q" if "j \<noteq> i"
    using f [of j] that t_find_Some [of pq_id j q] by (cases "t_find pq_id j q") auto
qed

lemma failed_round_find:
  assumes "distinct (map pq_id q)" and "t_find pq_id i q = Some r" and "pq_user r = u"
    and "pq_status r = Approved" and "pq_claimed_at r = None"
  shows "t_find pq_id i (failed_round now fnow w err m i u q) = Some (retry_row fnow err m (set_executing now w r))"
    and "map pq_id (failed_round now fnow w err m i u q) = map pq_id q"
proof -
  note c = claim_by_id_find [OF assms, where now = now and w = w]
  have d: "distinct (map pq_id (snd (claim_by_id now i u w q)))" using assms(1) c(3) by simp
  show "t_find pq_id i (failed_round now fnow w err m i u q) = Some (retry_row fnow err m (set_executing now w r))"
    unfolding failed_round_def using fail_execution_find(1) [OF d c(2)] by simp
  show "map pq_id (failed_round now fnow w err m i u q) = map pq_id q"
    unfolding failed_round_def using fail_execution_find(2) [OF d c(2)] c(3) by simp
qed

lemma failed_rounds_find:
  assumes "distinct (map pq_id q)" and "t_find pq_id i q = Some r" and "pq_user r = u"
    and "pq_status r = Approved" and "pq_claimed_at r = None" and "pq_attempt r + int n < m + 1"
  shows "t_find pq_id i ((failed_round now fnow w err m i u ^^ n) q) =
      Some (((\<lambda>r. retry_row fnow err m (set_executing now w r)) ^^ n) r) \<and>
    map pq_id ((failed_round now fnow w err m i u ^^ n) q) = map pq_id q \<and>
    pq_user (((\<lambda>r. retry_row fnow err m (set_executing now w r)) ^^ n) r) = u"
  using assms(6)
proof (induction n)
  case 0
  with assms show ?case by simp
next
  case (Suc n)
  let ?r = "((\<lambda>r. retry_row fnow err m (set_executing now w r)) ^^ n) r"
  let ?q = "(failed_round now fnow w err m i u ^^ n) q"
  have IH: "t_find pq_id i ?q = Some ?r" "map pq_id ?q = map pq_id q" "pq_user ?r = u"
    using Suc by auto
  have "pq_status ?r = Approved" "pq_claimed_at ?r = None"
    using assms(4,5) retry.rounds_queued [where r = r and n = "n - 1" and m = m and fnow = fnow and err = err and now = now and w = w] Suc.prems by (cases n; simp)+
  from failed_round_find [OF _ IH(1,3) this] IH assms(1) show ?case
    by (simp add: retry_row_def)
qed

text \<open>
  Retries are bounded: a fresh approved proposal that keeps failing is approved again
  after each of its first \<open>m - 1\<close> failures, due \<open>2 ^ n\<close> minutes after the \<open>n\<close>-th, and is
  dead after exactly \<open>m\<close>.
\<close>

theorem proposal_dies_after_max_attempts:
  assumes "distinct (map pq_id q)" and "t_find pq_id i q = Some r" and "pq_user r = u"
    and "pq_status r = Approved" and "pq_claimed_at r = None" and "pq_attempt r = 0"
    and "0 < n" and "int n \<le> m"
  shows "\<exists>r'. t_find pq_id i ((failed_round now fnow w err m i u ^^ n) q) = Some r' \<and>
    pq_attempt r' = int n \<and>
    (if int n < m
     then pq_status r' = Approved \<and> pq_claimed_at r' = None \<and> pq_run_after r' = fnow + 2 ^ n * minute
     else pq_status r' = Dead)"
proof -
  obtain k where k: "n = Suc k" using assms(7) by (cases n) auto
  let ?r = "((\<lambda>r. retry_row fnow err m (set_executing now w r)) ^^ k) r"
  have a: "pq_attempt ?r = int k" using retry.attempts_rounds [where n = k and r = r and m = m and fnow = fnow and err = err and now = now and w = w] assms(6) by simp
  have "t_find pq_id i ((failed_round now fnow w err m i u ^^ n) q) = Some (retry_row fnow err m (set_executing now w ?r))"
    using failed_rounds_find [OF assms(1-5), where n = n and m = m and now = now and fnow = fnow and w = w and err = err] assms(6,8) k by simp
  with a k assms(8) show ?thesis by (auto simp: retry_row_def nat_add_distrib)
qed

theorem proposal_dies_after_max_attempts_witness:
  "\<exists>r'. t_find pq_id 1 ((failed_round 5 6 ''w'' ''boom'' 3 1 ''ann'' ^^ 3) [sample_proposal 1 Approved]) = Some r' \<and>
     pq_status r' = Dead"
  using proposal_dies_after_max_attempts [of "[sample_proposal 1 Approved]" 1 "sample_proposal 1 Approved" "''ann''" 3 3 5 6 "''w''" "''boom''"]
  by (auto simp: t_find_Cons)

subsection \<open>The sweep\<close>

text \<open>
  The sweep dead-letters exactly the claims older than the limit: those rows become dead
  with the error \<open>stale_executing_claim\<close> and no claim, every other row is kept, the count
  it returns is theirs, and no row is ever made approved by it; a second sweep at the same
  time finds nothing.
\<close>

theorem sweep_dead_letters_stale_claims:
  "fst (reset_stuck_claims now s q) = length (filter (stuck now s) q) \<and>
   snd (reset_stuck_claims now s q) =
     map (\<lambda>r. if (pq_status r = Executing \<or> pq_status r = Claimed) \<and>
                 (\<exists>t. pq_claimed_at r = Some t \<and> t < now - s * 1000000)
              then r\<lparr>pq_status := Dead, pq_finished := Some now, pq_error := Some ''stale_executing_claim'',
                     pq_claimed_by := None, pq_claimed_at := None\<rparr>
              else r) q \<and>
   filter (\<lambda>r. pq_status r = Approved) (snd (reset_stuck_claims now s q)) =
     filter (\<lambda>r. pq_status r = Approved) q \<and>
   fst (reset_stuck_claims now s (snd (reset_stuck_claims now s q))) = 0"
proof -
  have st: "stuck now s r = ((pq_status r = Executing \<or> pq_status r = Claimed) \<and>
      (\<exists>t. pq_claimed_at r = Some t \<and> t < now - s * 1000000))" for r
    by (auto simp: stuck_def second_def split: option.splits)
  have map: "snd (reset_stuck_claims now s q) = map (\<lambda>r. if stuck now s r then sweep_row now r else r) q"
    by (simp add: reset_stuck_claims_def update_where_def)
  have "filter (\<lambda>r. pq_status r = Approved) (snd (reset_stuck_claims now s q)) = filter (\<lambda>r. pq_status r = Approved) q"
    unfolding map by (induction q) (auto simp: st sweep_row_def)
  moreover have "filter (stuck now s) (snd (reset_stuck_claims now s q)) = []"
    unfolding map by (auto simp: filter_empty_conv stuck_def sweep_row_def)
  ultimately show ?thesis
    by (auto simp: map st sweep_row_def stale_executing_error_def)
       (simp_all add: reset_stuck_claims_def st)
qed

end
