(* ===== verification/Permissions.thy ===== *)
theory Permissions
  imports Prelude
begin

section \<open>Ask/Do permissions\<close>

text \<open>
  Models \<open>orchestrator/permissions.py\<close>: the per-user Ask/Do mode and granted scopes of each
  connector (table \<open>connector_permissions\<close>), the cache in front of it, the permission gate
  with its \<open>action_log\<close>, and the routine counters (table \<open>routine_do_tracking\<close>). A
  statement of the store whose failure the code catches has a flag saying whether it
  succeeds; the others succeed. Texts in \<open>ORDER BY\<close> compare by code point.
\<close>

subsection \<open>State\<close>

record perm_row =
  pr_user :: user_id
  pr_connector :: string
  pr_mode :: string
  pr_scopes :: "string list"
  pr_updated :: instant

record routine_row =
  rr_user :: user_id
  rr_connector :: string
  rr_action :: string
  rr_approvals :: int
  rr_edits :: int
  rr_auto_approved :: bool
  rr_granted_at :: "instant option"

record action_log_row =
  al_user :: user_id
  al_connector :: string
  al_action :: string
  al_mode :: string
  al_allowed :: bool
  al_input :: "string option"
  al_result :: "string option"
  al_reverse :: "string option"
  al_created :: instant

text \<open>The payload of the \<open>ROUTINE_ELEVATION_READY\<close> hook.\<close>

record elevation_event =
  ev_connector :: string
  ev_action :: string
  ev_count :: int
  ev_user :: user_id

record perm_state =
  p_rows :: "perm_row list"
  p_cache :: "user_id \<times> string \<rightharpoonup> string \<times> string list"
  p_log :: "action_log_row list"
  p_routines :: "routine_row list"
  p_elevations :: "elevation_event list"

datatype perm_error = UserIdRequired | BadCall | InvalidMode string | InvalidScope string

definition default_mode :: string where
  "default_mode = ''ASK''"

definition valid_modes :: "string list" where
  "valid_modes = [''ASK'', ''DO'']"

definition perm_key :: "perm_row \<Rightarrow> user_id \<times> string" where
  "perm_key r = (pr_user r, pr_connector r)"

definition routine_key :: "routine_row \<Rightarrow> user_id \<times> string \<times> string" where
  "routine_key r = (rr_user r, rr_connector r, rr_action r)"

subsection \<open>Reading through the cache\<close>

definition stored_perm :: "perm_state \<Rightarrow> user_id \<times> string \<Rightarrow> string \<times> string list" where
  "stored_perm st k =
     (case t_find perm_key k (p_rows st) of
        None \<Rightarrow> (default_mode, [])
      | Some r \<Rightarrow> (pr_mode r, pr_scopes r))"

definition load_perm :: "user_id \<Rightarrow> string \<Rightarrow> perm_state \<Rightarrow> (string \<times> string list) \<times> perm_state" where
  "load_perm u c st =
     (case p_cache st (u, c) of
        Some v \<Rightarrow> (v, st)
      | None \<Rightarrow>
          let row = t_find perm_key (u, c) (p_rows st);
              mode = (case row of None \<Rightarrow> default_mode | Some r \<Rightarrow> pr_mode r);
              scopes = (case row of None \<Rightarrow> [] | Some r \<Rightarrow> pr_scopes r)
          in ((mode, scopes), st\<lparr>p_cache := (p_cache st)((u, c) \<mapsto> (mode, scopes))\<rparr>))"

definition get_connector_mode :: "user_id \<Rightarrow> string \<Rightarrow> perm_state \<Rightarrow> (perm_error + string) \<times> perm_state" where
  "get_connector_mode u c st =
     (if u = [] then (Inl UserIdRequired, st)
      else let (v, st') = load_perm u c st in (Inr (fst v), st'))"

definition get_granted_scopes ::
  "user_id \<Rightarrow> string \<Rightarrow> perm_state \<Rightarrow> (perm_error + string list) \<times> perm_state" where
  "get_granted_scopes u c st =
     (if u = [] then (Inl UserIdRequired, st)
      else let (v, st') = load_perm u c st in (Inr (snd v), st'))"

definition invalidate_cache :: "user_id \<Rightarrow> string \<Rightarrow> perm_state \<Rightarrow> perm_state" where
  "invalidate_cache u c st = st\<lparr>p_cache := (p_cache st)((u, c) := None)\<rparr>"

definition clear_cache_for_user :: "user_id \<Rightarrow> perm_state \<Rightarrow> perm_state" where
  "clear_cache_for_user u st =
     st\<lparr>p_cache := (\<lambda>k. if fst k = u then None else p_cache st k)\<rparr>"

subsection \<open>The gate and its log\<close>

definition log_action ::
  "bool \<Rightarrow> instant \<Rightarrow> string \<Rightarrow> string \<Rightarrow> string \<Rightarrow> bool \<Rightarrow> user_id \<Rightarrow> string option \<Rightarrow> string option
    \<Rightarrow> string option \<Rightarrow> perm_state \<Rightarrow> (perm_error + unit) \<times> perm_state" where
  "log_action insert_ok now c a mode allowed u inp res rev_act st =
     (if u = [] then (Inl UserIdRequired, st)
      else (Inr (),
        if insert_ok
        then st\<lparr>p_log := p_log st @
               [\<lparr>al_user = u, al_connector = c, al_action = a, al_mode = mode, al_allowed = allowed,
                 al_input = inp, al_result = res, al_reverse = rev_act, al_created = now\<rparr>]\<rparr>
        else st))"

definition check_permission ::
  "bool \<Rightarrow> instant \<Rightarrow> string \<Rightarrow> string \<Rightarrow> bool \<Rightarrow> user_id \<Rightarrow> perm_state \<Rightarrow> (perm_error + bool) \<times> perm_state" where
  "check_permission insert_ok now c a is_write u st =
     (if u = [] then (Inl UserIdRequired, st)
      else case get_connector_mode u c st of
        (Inl e, st1) \<Rightarrow> (Inl e, st1)
      | (Inr mode, st1) \<Rightarrow>
          let allowed = \<not> (is_write \<and> mode = ''ASK'') in
          (case log_action insert_ok now c a mode allowed u None None None st1 of
             (Inl e, st2) \<Rightarrow> (Inl e, st2)
           | (Inr _, st2) \<Rightarrow> (Inr allowed, st2)))"

subsection \<open>Changing a permission\<close>

definition set_connector_mode ::
  "instant \<Rightarrow> user_id \<Rightarrow> string \<Rightarrow> string \<Rightarrow> perm_state \<Rightarrow> (perm_error + unit) \<times> perm_state" where
  "set_connector_mode now u c mode st =
     (if u = [] then (Inl UserIdRequired, st)
      else if mode \<notin> set valid_modes then (Inl (InvalidMode mode), st)
      else (Inr (), invalidate_cache u c
        (st\<lparr>p_rows := t_upsert perm_key (\<lambda>r. r\<lparr>pr_mode := mode, pr_updated := now\<rparr>)
            \<lparr>pr_user = u, pr_connector = c, pr_mode = mode, pr_scopes = [], pr_updated = now\<rparr>
            (p_rows st)\<rparr>)))"

definition delete_user_permission ::
  "user_id \<Rightarrow> string \<Rightarrow> perm_state \<Rightarrow> (perm_error + unit) \<times> perm_state" where
  "delete_user_permission u c st =
     (if u = [] then (Inl UserIdRequired, st)
      else (Inr (), invalidate_cache u c (st\<lparr>p_rows := t_delete perm_key (u, c) (p_rows st)\<rparr>)))"

text \<open>\<open>re.fullmatch("[a-z0-9_]+:[a-z0-9_]+", s)\<close>.\<close>

definition scope_char :: "char \<Rightarrow> bool" where
  "scope_char ch = (is_lower_letter ch \<or> is_digit ch \<or> ch = CHR ''_'')"

definition valid_scope :: "string \<Rightarrow> bool" where
  "valid_scope s =
     (let area = takeWhile scope_char s; rest = dropWhile scope_char s in
      area \<noteq> [] \<and> (case rest of [] \<Rightarrow> False
                    | ch # verb \<Rightarrow> ch = CHR '':'' \<and> verb \<noteq> [] \<and> list_all scope_char verb))"

fun normalise_loop :: "string list \<Rightarrow> string list \<Rightarrow> perm_error + string list" where
  "normalise_loop out [] = Inr out"
| "normalise_loop out (raw # rest) =
     (let s = py_strip raw in
      if \<not> valid_scope s then Inl (InvalidScope raw)
      else if s \<in> set out then normalise_loop out rest
      else normalise_loop (out @ [s]) rest)"

definition normalise_scopes :: "string list \<Rightarrow> perm_error + string list" where
  "normalise_scopes scopes = normalise_loop [] scopes"

definition grant_scopes ::
  "instant \<Rightarrow> user_id \<Rightarrow> string \<Rightarrow> string list \<Rightarrow> perm_state \<Rightarrow> (perm_error + unit) \<times> perm_state" where
  "grant_scopes now u c scopes st =
     (if u = [] then (Inl UserIdRequired, st)
      else case normalise_scopes scopes of
        Inl e \<Rightarrow> (Inl e, st)
      | Inr clean \<Rightarrow> (Inr (), invalidate_cache u c
          (st\<lparr>p_rows := t_upsert perm_key (\<lambda>r. r\<lparr>pr_scopes := clean, pr_updated := now\<rparr>)
              \<lparr>pr_user = u, pr_connector = c, pr_mode = default_mode, pr_scopes = clean,
               pr_updated = now\<rparr>
              (p_rows st)\<rparr>)))"

subsection \<open>Listing permissions\<close>

definition get_all_permissions :: "perm_state \<Rightarrow> (user_id \<times> string \<times> string \<times> string list) list" where
  "get_all_permissions st =
     map (\<lambda>r. (pr_user r, pr_connector r, pr_mode r, pr_scopes r))
       (sort_key pr_user (sort_key pr_connector (p_rows st)))"

record perm_view =
  pv_connector :: string
  pv_mode :: string
  pv_scopes :: "string list"

definition get_user_permissions :: "user_id \<Rightarrow> perm_state \<Rightarrow> perm_error + perm_view list" where
  "get_user_permissions u st =
     (if u = [] then Inl UserIdRequired
      else Inr (map (\<lambda>r. \<lparr>pv_connector = pr_connector r, pv_mode = pr_mode r, pv_scopes = pr_scopes r\<rparr>)
        (sort_key pr_connector (filter (\<lambda>r. pr_user r = u) (p_rows st)))))"

record effective_perm =
  e_connector :: string
  e_mode :: string
  e_scopes :: "string list"
  e_is_default :: bool
  e_updated_at :: "instant option"

text \<open>
  \<open>explicit\<close> is a dictionary keyed by connector, built in row order. The rows come from
  \<open>get_user_permissions\<close>, whose \<open>SELECT\<close> has no \<open>updated_at\<close> column, so
  \<open>row.get("updated_at")\<close> is \<open>None\<close> for explicit rows too.
\<close>

definition get_user_effective_permissions ::
  "user_id \<Rightarrow> string list \<Rightarrow> perm_state \<Rightarrow> perm_error + effective_perm list" where
  "get_user_effective_permissions u known st =
     (if u = [] then Inl UserIdRequired
      else case get_user_permissions u st of
        Inl e \<Rightarrow> Inl e
      | Inr rows \<Rightarrow>
          let explicit = map_of (rev (map (\<lambda>v. (pv_connector v, v)) rows)) in
          Inr (map (\<lambda>c. case explicit c of
                 Some v \<Rightarrow> \<lparr>e_connector = c, e_mode = pv_mode v, e_scopes = pv_scopes v,
                            e_is_default = False, e_updated_at = None\<rparr>
               | None \<Rightarrow> \<lparr>e_connector = c, e_mode = default_mode, e_scopes = [],
                          e_is_default = True, e_updated_at = None\<rparr>)
             (sort (remdups known))))"

subsection \<open>Routine tracking\<close>

text \<open>
  \<open>routine_check\<close> takes keyword-only parameters. A call is given by its positional
  arguments and its three keywords; Python raises \<open>TypeError\<close> before the body runs when
  there is any positional argument or a keyword is missing (\<open>BadCall\<close>). The body's two
  statements sit in a \<open>try\<close> that swallows every exception.
\<close>

definition routine_check_body ::
  "user_id \<Rightarrow> string \<Rightarrow> string \<Rightarrow> bool \<Rightarrow> bool \<Rightarrow> perm_state \<Rightarrow> perm_state" where
  "routine_check_body u c a insert_ok select_ok st =
     (if \<not> insert_ok then st
      else
        let st1 = st\<lparr>p_routines := t_upsert routine_key (\<lambda>r. r\<lparr>rr_approvals := rr_approvals r + 1\<rparr>)
              \<lparr>rr_user = u, rr_connector = c, rr_action = a, rr_approvals = 1, rr_edits = 0,
               rr_auto_approved = False, rr_granted_at = None\<rparr> (p_routines st)\<rparr>
        in if \<not> select_ok then st1
           else (case t_find routine_key (u, c, a) (p_routines st1) of
               None \<Rightarrow> st1
             | Some r \<Rightarrow>
                 if rr_approvals r \<ge> 15 \<and> rr_edits r = 0
                 then st1\<lparr>p_elevations := p_elevations st1 @
                        [\<lparr>ev_connector = c, ev_action = a, ev_count = rr_approvals r, ev_user = u\<rparr>]\<rparr>
                 else st1))"

definition routine_check ::
  "string list \<Rightarrow> user_id option \<Rightarrow> string option \<Rightarrow> string option \<Rightarrow> bool \<Rightarrow> bool \<Rightarrow> perm_state
    \<Rightarrow> (perm_error + unit) \<times> perm_state" where
  "routine_check positional kw_user kw_connector kw_action insert_ok select_ok st =
     (if positional \<noteq> [] then (Inl BadCall, st)
      else case kw_user of None \<Rightarrow> (Inl BadCall, st)
      | Some u \<Rightarrow> (case kw_connector of None \<Rightarrow> (Inl BadCall, st)
      | Some c \<Rightarrow> (case kw_action of None \<Rightarrow> (Inl BadCall, st)
      | Some a \<Rightarrow>
          if u = [] then (Inl UserIdRequired, st)
          else (Inr (), routine_check_body u c a insert_ok select_ok st))))"

definition elevate_to_routine ::
  "instant \<Rightarrow> user_id \<Rightarrow> string \<Rightarrow> string \<Rightarrow> perm_state \<Rightarrow> (perm_error + unit) \<times> perm_state" where
  "elevate_to_routine now u c a st =
     (if u = [] then (Inl UserIdRequired, st)
      else (Inr (), st\<lparr>p_routines := t_upsert routine_key
              (\<lambda>r. r\<lparr>rr_auto_approved := True, rr_granted_at := Some now\<rparr>)
              \<lparr>rr_user = u, rr_connector = c, rr_action = a, rr_approvals = 0, rr_edits = 0,
               rr_auto_approved = True, rr_granted_at = Some now\<rparr> (p_routines st)\<rparr>))"

subsection \<open>The cache never disagrees with the table\<close>

interpretation pc: read_through_cache stored_perm p_cache
  "\<lambda>k. load_perm (fst k) (snd k)" "\<lambda>k. invalidate_cache (fst k) (snd k)"
  by unfold_locales
    (auto simp: load_perm_def invalidate_cache_def stored_perm_def Let_def fun_eq_iff
      split: option.splits)

definition perm_coherent :: "perm_state \<Rightarrow> bool" where
  "perm_coherent st \<longleftrightarrow> cache_coherent (stored_perm st) (p_cache st)"

lemma load_perm_value: "perm_coherent st \<Longrightarrow> fst (load_perm u c st) = stored_perm st (u, c)"
  using pc.load_value [of st "(u, c)"] by (simp add: perm_coherent_def)

lemma load_perm_coherent: "perm_coherent st \<Longrightarrow> perm_coherent (snd (load_perm u c st))"
  using pc.load_coherent [of st "(u, c)"] by (simp add: perm_coherent_def)

lemma load_perm_frame [frame]:
  "p_rows (snd (load_perm u c st)) = p_rows st"
  "p_log (snd (load_perm u c st)) = p_log st"
  "p_routines (snd (load_perm u c st)) = p_routines st"
  "p_elevations (snd (load_perm u c st)) = p_elevations st"
  by (auto simp: load_perm_def Let_def split: option.splits)

lemma stored_perm_rows: "p_rows st' = p_rows st \<Longrightarrow> stored_perm st' = stored_perm st"
  by (simp add: stored_perm_def fun_eq_iff)

lemma invalidate_frame [frame]:
  "p_rows (invalidate_cache u c st) = p_rows st"
  "p_cache (invalidate_cache u c st) = (p_cache st)((u, c) := None)"
  "p_log (invalidate_cache u c st) = p_log st"
  "p_routines (invalidate_cache u c st) = p_routines st"
  "p_elevations (invalidate_cache u c st) = p_elevations st"
  by (simp_all add: invalidate_cache_def)

lemma write_one_coherent:
  assumes "perm_coherent st" and "p_cache st' = (p_cache st)((u, c) := None)"
    and "\<And>k. k \<noteq> (u, c) \<Longrightarrow> t_find perm_key k (p_rows st') = t_find perm_key k (p_rows st)"
  shows "perm_coherent st'"
proof -
  let ?mid = "st\<lparr>p_rows := p_rows st'\<rparr>"
  have "perm_coherent (invalidate_cache u c ?mid)"
    using pc.write_drop_coherent [of st ?mid "(u, c)"] assms(1,3)
    by (simp add: perm_coherent_def stored_perm_def)
  then show ?thesis
    using assms(2) stored_perm_rows [of "invalidate_cache u c ?mid" st']
    by (simp add: perm_coherent_def frame)
qed

lemma find_set_mode:
  assumes "u \<noteq> []" and "m \<in> set valid_modes"
  shows "t_find perm_key k (p_rows (snd (set_connector_mode now u c m st))) =
    (if k = (u, c)
     then Some (case t_find perm_key k (p_rows st) of
            None \<Rightarrow> \<lparr>pr_user = u, pr_connector = c, pr_mode = m, pr_scopes = [], pr_updated = now\<rparr>
          | Some r \<Rightarrow> r\<lparr>pr_mode := m, pr_updated := now\<rparr>)
     else t_find perm_key k (p_rows st))"
  using assms by (simp add: set_connector_mode_def frame t_find_upsert perm_key_def)

lemma find_grant:
  assumes "u \<noteq> []" and "normalise_scopes scs = Inr clean"
  shows "t_find perm_key k (p_rows (snd (grant_scopes now u c scs st))) =
    (if k = (u, c)
     then Some (case t_find perm_key k (p_rows st) of
            None \<Rightarrow> \<lparr>pr_user = u, pr_connector = c, pr_mode = default_mode, pr_scopes = clean, pr_updated = now\<rparr>
          | Some r \<Rightarrow> r\<lparr>pr_scopes := clean, pr_updated := now\<rparr>)
     else t_find perm_key k (p_rows st))"
  using assms by (simp add: grant_scopes_def frame t_find_upsert perm_key_def)

lemma find_delete:
  "u \<noteq> [] \<Longrightarrow> t_find perm_key k (p_rows (snd (delete_user_permission u c st))) =
    (if k = (u, c) then None else t_find perm_key k (p_rows st))"
  by (simp add: delete_user_permission_def frame t_find_delete)

lemma set_mode_coherent:
  assumes "perm_coherent st"
  shows "perm_coherent (snd (set_connector_mode now u c m st))"
proof (cases "u = [] \<or> m \<notin> set valid_modes")
  case True
  with assms show ?thesis by (auto simp: set_connector_mode_def)
next
  case False
  then show ?thesis
    by (intro write_one_coherent [OF assms, of _ u c])
       (simp_all add: find_set_mode, simp add: set_connector_mode_def frame)
qed

lemma grant_coherent:
  assumes "perm_coherent st"
  shows "perm_coherent (snd (grant_scopes now u c scs st))"
proof (cases "u = []")
  case True
  with assms show ?thesis by (simp add: grant_scopes_def)
next
  case False
  show ?thesis
  proof (cases "normalise_scopes scs")
    case (Inl e)
    with assms show ?thesis by (simp add: grant_scopes_def)
  next
    case (Inr clean)
    with False show ?thesis
      by (intro write_one_coherent [OF assms, of _ u c])
         (simp_all add: find_grant, simp add: grant_scopes_def frame)
  qed
qed

lemma delete_coherent:
  assumes "perm_coherent st"
  shows "perm_coherent (snd (delete_user_permission u c st))"
proof (cases "u = []")
  case True
  with assms show ?thesis by (simp add: delete_user_permission_def)
next
  case False
  then show ?thesis
    by (intro write_one_coherent [OF assms, of _ u c])
       (simp_all add: find_delete, simp add: delete_user_permission_def frame)
qed

lemma invalidate_coherent: "perm_coherent st \<Longrightarrow> perm_coherent (invalidate_cache u c st)"
  by (rule write_one_coherent [of st _ u c]) (simp_all add: frame)

lemma clear_coherent: "perm_coherent st \<Longrightarrow> perm_coherent (clear_cache_for_user u st)"
  by (auto simp: perm_coherent_def cache_coherent_def clear_cache_for_user_def stored_perm_def)

lemma untouched_coherent:
  "perm_coherent st \<Longrightarrow> p_rows st' = p_rows st \<Longrightarrow> p_cache st' = p_cache st \<Longrightarrow> perm_coherent st'"
  using stored_perm_rows [of st' st] by (simp add: perm_coherent_def)

lemma log_action_frame [frame]:
  "p_rows (snd (log_action ok now c a m al u i r v st)) = p_rows st"
  "p_cache (snd (log_action ok now c a m al u i r v st)) = p_cache st"
  "p_routines (snd (log_action ok now c a m al u i r v st)) = p_routines st"
  "p_elevations (snd (log_action ok now c a m al u i r v st)) = p_elevations st"
  by (simp_all add: log_action_def)

lemma get_mode_eq:
  "u \<noteq> [] \<Longrightarrow> get_connector_mode u c st = (Inr (fst (fst (load_perm u c st))), snd (load_perm u c st))"
  by (simp add: get_connector_mode_def split: prod.splits)

lemma get_scopes_eq:
  "u \<noteq> [] \<Longrightarrow> get_granted_scopes u c st = (Inr (snd (fst (load_perm u c st))), snd (load_perm u c st))"
  by (simp add: get_granted_scopes_def split: prod.splits)

lemma check_permission_eq:
  assumes "u \<noteq> []"
  shows "check_permission ok now c a w u st =
    (let mode = fst (fst (load_perm u c st)); allowed = \<not> (w \<and> mode = ''ASK'')
     in (Inr allowed, snd (log_action ok now c a mode allowed u None None None (snd (load_perm u c st)))))"
  using assms by (simp add: check_permission_def get_mode_eq log_action_def Let_def)

lemma check_coherent: "perm_coherent st \<Longrightarrow> perm_coherent (snd (check_permission ok now c a w u st))"
proof (cases "u = []")
  case True
  assume "perm_coherent st"
  with True show ?thesis by (simp add: check_permission_def)
next
  case False
  assume "perm_coherent st"
  then have "perm_coherent (snd (load_perm u c st))" by (rule load_perm_coherent)
  with False show ?thesis
    by (auto simp: check_permission_eq Let_def frame intro: untouched_coherent)
qed

lemma routine_body_frame [frame]:
  "p_rows (routine_check_body u c a i s st) = p_rows st"
  "p_cache (routine_check_body u c a i s st) = p_cache st"
  "p_log (routine_check_body u c a i s st) = p_log st"
  by (simp_all add: routine_check_body_def Let_def split: option.split)

lemma routine_check_frame [frame]:
  "p_rows (snd (routine_check pos ku kc ka i s st)) = p_rows st"
  "p_cache (snd (routine_check pos ku kc ka i s st)) = p_cache st"
  "p_log (snd (routine_check pos ku kc ka i s st)) = p_log st"
  by (simp_all add: routine_check_def frame split: option.split)

lemma elevate_frame [frame]:
  "p_rows (snd (elevate_to_routine now u c a st)) = p_rows st"
  "p_cache (snd (elevate_to_routine now u c a st)) = p_cache st"
  by (simp_all add: elevate_to_routine_def)

datatype perm_op =
    ReadMode user_id string
  | ReadScopes user_id string
  | Check bool instant string string bool user_id
  | SetMode instant user_id string string
  | Grant instant user_id string "string list"
  | DeletePermission user_id string
  | Invalidate user_id string
  | ClearUser user_id
  | RoutineCheck "string list" "user_id option" "string option" "string option" bool bool
  | Elevate instant user_id string string

fun perm_apply :: "perm_state \<Rightarrow> perm_op \<Rightarrow> perm_state" where
  "perm_apply st (ReadMode u c) = snd (get_connector_mode u c st)"
| "perm_apply st (ReadScopes u c) = snd (get_granted_scopes u c st)"
| "perm_apply st (Check ok now c a w u) = snd (check_permission ok now c a w u st)"
| "perm_apply st (SetMode now u c m) = snd (set_connector_mode now u c m st)"
| "perm_apply st (Grant now u c scs) = snd (grant_scopes now u c scs st)"
| "perm_apply st (DeletePermission u c) = snd (delete_user_permission u c st)"
| "perm_apply st (Invalidate u c) = invalidate_cache u c st"
| "perm_apply st (ClearUser u) = clear_cache_for_user u st"
| "perm_apply st (RoutineCheck pos ku kc ka ok1 ok2) = snd (routine_check pos ku kc ka ok1 ok2 st)"
| "perm_apply st (Elevate now u c a) = snd (elevate_to_routine now u c a st)"

lemma read_mode_coherent: "perm_coherent st \<Longrightarrow> perm_coherent (snd (get_connector_mode u c st))"
  by (cases "u = []") (simp_all add: get_mode_eq load_perm_coherent, simp add: get_connector_mode_def)

lemma read_scopes_coherent: "perm_coherent st \<Longrightarrow> perm_coherent (snd (get_granted_scopes u c st))"
  by (cases "u = []") (simp_all add: get_scopes_eq load_perm_coherent, simp add: get_granted_scopes_def)

lemma routine_check_coherent: "perm_coherent st \<Longrightarrow> perm_coherent (snd (routine_check pos ku kc ka i s st))"
  by (rule untouched_coherent) (simp_all add: frame)

lemma elevate_coherent: "perm_coherent st \<Longrightarrow> perm_coherent (snd (elevate_to_routine now u c a st))"
  by (rule untouched_coherent) (simp_all add: frame)

lemma perm_apply_coherent: "perm_coherent st \<Longrightarrow> perm_coherent (perm_apply st opn)"
  by (cases opn)
     (simp_all add: read_mode_coherent read_scopes_coherent check_coherent set_mode_coherent
        grant_coherent delete_coherent invalidate_coherent clear_coherent routine_check_coherent
        elevate_coherent)

interpretation perm: event_machine perm_apply perm_coherent
  by unfold_locales (rule perm_apply_coherent)

text \<open>
  C13. The permission cache is never stale: after any sequence of permission operations that
  starts from an empty cache (reads, checks, mode changes, scope grants, deletions,
  disabling a user, routine bookkeeping), what \<open>get_connector_mode\<close> and
  \<open>get_granted_scopes\<close> answer is what the table holds, so a revocation or a mode change
  takes effect at once.
\<close>

theorem permission_reads_never_stale:
  assumes "p_cache st0 = Map.empty" and "u \<noteq> []" and "st = foldl perm_apply st0 ops"
  shows "fst (get_connector_mode u c st) = Inr (fst (stored_perm st (u, c))) \<and>
         fst (get_granted_scopes u c st) = Inr (snd (stored_perm st (u, c)))"
proof -
  have "perm_coherent st0"
    using assms(1) by (simp add: perm_coherent_def cache_coherent_def)
  then have "perm_coherent st"
    unfolding assms(3) by (rule perm.run_good)
  with assms(2) show ?thesis
    by (simp add: get_mode_eq get_scopes_eq load_perm_value)
qed

theorem permission_reads_never_stale_witness:
  "fst (get_connector_mode ''ann'' ''mail'' (foldl perm_apply
     \<lparr>p_rows = [], p_cache = Map.empty, p_log = [], p_routines = [], p_elevations = []\<rparr>
     [SetMode 1 ''ann'' ''mail'' ''DO'', ReadMode ''ann'' ''mail'', DeletePermission ''ann'' ''mail''])) =
   Inr ''ASK''"
  by (subst permission_reads_never_stale [THEN conjunct1, OF _ _ refl])
     (simp_all add: stored_perm_def find_delete find_set_mode default_mode_def get_connector_mode_def
       frame valid_modes_def perm_key_def split: prod.splits)

subsection \<open>The gate\<close>

text \<open>
  The permission gate: a write through a connector whose stored mode is \<open>ASK\<close> (the
  default when the user has no row) is denied and everything else is allowed; the decision
  reads the table even when the cache is used, and one \<open>action_log\<close> row that names the
  caller, the mode and the decision is appended, or none when its insert fails, with the
  decision unchanged.
\<close>

theorem check_permission_gate:
  assumes "perm_coherent st" and "u \<noteq> []"
  shows "fst (check_permission insert_ok now c a w u st) =
           Inr (\<not> (w \<and> fst (stored_perm st (u, c)) = ''ASK'')) \<and>
         p_log (snd (check_permission insert_ok now c a w u st)) = p_log st @
           (if insert_ok
            then [\<lparr>al_user = u, al_connector = c, al_action = a,
                   al_mode = fst (stored_perm st (u, c)),
                   al_allowed = (\<not> (w \<and> fst (stored_perm st (u, c)) = ''ASK'')),
                   al_input = None, al_result = None, al_reverse = None, al_created = now\<rparr>]
            else []) \<and>
         stored_perm (snd (check_permission insert_ok now c a w u st)) = stored_perm st"
proof -
  let ?r = "load_perm u c st"
  have v: "fst ?r = stored_perm st (u, c)" using assms(1) by (rule load_perm_value)
  have "p_rows (snd (check_permission insert_ok now c a w u st)) = p_rows st"
    using assms(2) by (simp add: check_permission_eq Let_def frame)
  then have "stored_perm (snd (check_permission insert_ok now c a w u st)) = stored_perm st"
    by (rule stored_perm_rows)
  then show ?thesis
    using assms(2) v by (simp add: check_permission_eq Let_def log_action_def frame)
qed

definition sample_perms :: perm_state where
  "sample_perms = \<lparr>p_rows = [\<lparr>pr_user = ''ann'', pr_connector = ''mail'', pr_mode = ''DO'',
      pr_scopes = [''mail:send''], pr_updated = 1\<rparr>],
    p_cache = Map.empty, p_log = [], p_routines = [], p_elevations = []\<rparr>"

lemma sample_perms_coherent: "perm_coherent sample_perms"
  by (simp add: sample_perms_def perm_coherent_def cache_coherent_def)

lemma sample_perms_stored:
  "stored_perm sample_perms (''ann'', ''mail'') = (''DO'', [''mail:send''])"
  "stored_perm sample_perms (''bob'', ''mail'') = (''ASK'', [])"
  by (simp_all add: stored_perm_def sample_perms_def t_find_Cons perm_key_def default_mode_def)

theorem check_permission_gate_witness:
  "fst (check_permission True 9 ''mail'' ''send'' True ''ann'' sample_perms) = Inr True \<and>
   fst (check_permission True 9 ''mail'' ''send'' True ''bob'' sample_perms) = Inr False"
  using check_permission_gate [THEN conjunct1, OF sample_perms_coherent, of "''ann''" True 9 "''mail''" "''send''" True]
    check_permission_gate [THEN conjunct1, OF sample_perms_coherent, of "''bob''" True 9 "''mail''" "''send''" True]
  by (simp add: sample_perms_stored)

subsection \<open>Changes of mode and scopes\<close>

lemma stored_after_set_mode:
  assumes "u \<noteq> []" and "m \<in> set valid_modes"
  shows "stored_perm (snd (set_connector_mode now u c m st)) =
    (stored_perm st)((u, c) := (m, snd (stored_perm st (u, c))))"
  using assms by (auto simp: stored_perm_def find_set_mode fun_eq_iff split: option.splits)

lemma stored_after_grant:
  assumes "u \<noteq> []" and "normalise_scopes scs = Inr clean"
  shows "stored_perm (snd (grant_scopes now u c scs st)) =
    (stored_perm st)((u, c) := (fst (stored_perm st (u, c)), clean))"
  using assms by (auto simp: stored_perm_def find_grant fun_eq_iff default_mode_def split: option.splits)

lemma stored_after_delete:
  assumes "u \<noteq> []"
  shows "stored_perm (snd (delete_user_permission u c st)) = (stored_perm st)((u, c) := (default_mode, []))"
  using assms by (auto simp: stored_perm_def find_delete fun_eq_iff)

text \<open>
  The three writes act on exactly one (user, connector) pair and on exactly one aspect
  of it: setting the mode keeps the granted scopes, granting scopes keeps the mode (and
  never raises it above \<open>ASK\<close> for a new row), deleting returns the pair to \<open>ASK\<close> with no
  scopes; every other user's and connector's permission is untouched.
\<close>

theorem permission_writes_are_independent:
  assumes "u \<noteq> []" and "m = ''ASK'' \<or> m = ''DO''" and "normalise_scopes scs = Inr clean"
  shows "stored_perm (snd (set_connector_mode now u c m st)) =
           (stored_perm st)((u, c) := (m, snd (stored_perm st (u, c)))) \<and>
         stored_perm (snd (grant_scopes now u c scs st)) =
           (stored_perm st)((u, c) := (fst (stored_perm st (u, c)), clean)) \<and>
         stored_perm (snd (delete_user_permission u c st)) =
           (stored_perm st)((u, c) := (''ASK'', []))"
proof -
  have "m \<in> set valid_modes" using assms(2) by (auto simp: valid_modes_def)
  with assms show ?thesis
    by (simp add: stored_after_set_mode stored_after_grant stored_after_delete default_mode_def)
qed

theorem permission_writes_are_independent_witness:
  "stored_perm (snd (grant_scopes 5 ''bob'' ''mail'' ['' mail:read ''] sample_perms)) (''bob'', ''mail'') =
     (''ASK'', [''mail:read'']) \<and>
   stored_perm (snd (grant_scopes 5 ''bob'' ''mail'' ['' mail:read ''] sample_perms)) (''ann'', ''mail'') =
     (''DO'', [''mail:send''])"
proof -
  have "normalise_scopes ['' mail:read ''] = Inr [''mail:read'']" by code_simp
  from permission_writes_are_independent [of "''bob''" "''DO''", OF _ _ this,
      THEN conjunct2, THEN conjunct1, of 5 "''mail''" sample_perms]
  show ?thesis by (simp add: sample_perms_stored)
qed

subsection \<open>Scope normalisation\<close>

lemma normalise_loop_eq:
  "normalise_loop out scs =
    (case find (\<lambda>raw. \<not> valid_scope (py_strip raw)) scs of
       Some raw \<Rightarrow> Inl (InvalidScope raw)
     | None \<Rightarrow> Inr (dedup_from out (map py_strip scs)))"
  by (induction out scs rule: normalise_loop.induct) (auto simp: Let_def split: option.split)

lemma normalise_clean: "normalise_scopes scs = Inr clean \<Longrightarrow> list_all valid_scope clean"
  by (auto simp: normalise_scopes_def normalise_loop_eq list_all_iff find_None_iff split: option.splits)

text \<open>
  Scope normalisation is total and exact: the first scope that is not \<open>area:verb\<close> after
  stripping is reported as the error; otherwise the result holds each stripped scope once,
  in order of first occurrence, and every one of them is well formed.
\<close>

theorem normalise_scopes_spec:
  "normalise_scopes scs =
     (case find (\<lambda>raw. \<not> valid_scope (py_strip raw)) scs of
        Some raw \<Rightarrow> Inl (InvalidScope raw)
      | None \<Rightarrow> Inr (dedup_from [] (map py_strip scs))) \<and>
   (case normalise_scopes scs of
      Inl e \<Rightarrow> \<exists>raw \<in> set scs. e = InvalidScope raw \<and> \<not> valid_scope (py_strip raw)
    | Inr out \<Rightarrow> distinct out \<and> set out = py_strip ` set scs \<and> list_all valid_scope out)"
proof -
  have eq: "normalise_scopes scs =
     (case find (\<lambda>raw. \<not> valid_scope (py_strip raw)) scs of
        Some raw \<Rightarrow> Inl (InvalidScope raw)
      | None \<Rightarrow> Inr (dedup_from [] (map py_strip scs)))"
    by (simp add: normalise_scopes_def normalise_loop_eq)
  show ?thesis
  proof (cases "find (\<lambda>raw. \<not> valid_scope (py_strip raw)) scs")
    case None
    then have "list_all (\<lambda>raw. valid_scope (py_strip raw)) scs"
      by (simp add: find_None_iff list_all_iff)
    with None show ?thesis by (simp add: eq list_all_iff)
  next
    case (Some raw)
    then have "raw \<in> set scs" "\<not> valid_scope (py_strip raw)"
      by (auto simp: find_Some_iff)
    with Some show ?thesis by (auto simp: eq)
  qed
qed

subsection \<open>Effective permissions\<close>

lemma map_of_explicit:
  assumes "distinct (map perm_key rows)"
  shows "map_of (rev (map (\<lambda>v. (pv_connector v, v))
      (map (\<lambda>r. \<lparr>pv_connector = pr_connector r, pv_mode = pr_mode r, pv_scopes = pr_scopes r\<rparr>)
        (sort_key pr_connector (filter (\<lambda>r. pr_user r = u) rows))))) c =
    map_option (\<lambda>r. \<lparr>pv_connector = pr_connector r, pv_mode = pr_mode r, pv_scopes = pr_scopes r\<rparr>)
      (t_find perm_key (u, c) rows)"
proof -
  let ?view = "\<lambda>r. \<lparr>pv_connector = pr_connector r, pv_mode = pr_mode r, pv_scopes = pr_scopes r\<rparr>"
  let ?mine = "sort_key pr_connector (filter (\<lambda>r. pr_user r = u) rows)"
  let ?al = "map (\<lambda>v. (pv_connector v, v)) (map ?view ?mine)"
  have "distinct (map pr_connector (filter (\<lambda>r. pr_user r = u) rows))"
    using assms by (induction rows) (force simp: perm_key_def image_iff)+
  then have dist: "distinct (map fst ?al)"
    by (simp add: o_def distinct_map inj_on_def)
  have "map_of (rev ?al) c = map_of ?al c"
    using dist map_of_rev_distinct [of ?al] by simp
  also have "\<dots> = map_option ?view (t_find perm_key (u, c) rows)"
  proof (cases "t_find perm_key (u, c) rows")
    case None
    then have "c \<notin> fst ` set ?al"
      by (force simp: t_find_None perm_key_def)
    with None show ?thesis by (simp add: map_of_eq_None_iff)
  next
    case (Some r)
    then have r: "r \<in> set rows" "pr_user r = u" "pr_connector r = c"
      using t_find_Some [of perm_key "(u, c)" rows r] by (auto simp: perm_key_def)
    then have "(c, ?view r) \<in> set ?al" by force
    with dist have "map_of ?al c = Some (?view r)" by (rule map_of_is_SomeI)
    with Some show ?thesis by simp
  qed
  finally show ?thesis .
qed

text \<open>
  The effective view lists every known connector exactly once in code-point order, and
  each entry is the permission the gate would use for that user and connector, marked as a
  default exactly when the user has no row. The \<open>updated_at\<close> the docstring promises is
  \<open>None\<close> for every entry, explicit rows included.
\<close>

theorem effective_permissions_spec:
  assumes "u \<noteq> []" and "distinct (map perm_key (p_rows st))"
  shows "get_user_effective_permissions u known st =
    Inr (map (\<lambda>c. \<lparr>e_connector = c, e_mode = fst (stored_perm st (u, c)),
                   e_scopes = snd (stored_perm st (u, c)),
                   e_is_default = (t_find perm_key (u, c) (p_rows st) = None),
                   e_updated_at = None\<rparr>)
          (sorted_list_of_set (set known)))"
  using assms(1)
  by (auto simp: get_user_effective_permissions_def get_user_permissions_def Let_def
      map_of_explicit [OF assms(2)] stored_perm_def sorted_list_of_set_sort_remdups
      simp del: map_map split: option.splits)

theorem effective_permissions_spec_witness:
  "get_user_effective_permissions ''ann'' [''web'', ''mail'', ''web''] sample_perms =
    Inr [\<lparr>e_connector = ''mail'', e_mode = ''DO'', e_scopes = [''mail:send''], e_is_default = False, e_updated_at = None\<rparr>,
         \<lparr>e_connector = ''web'', e_mode = ''ASK'', e_scopes = [], e_is_default = True, e_updated_at = None\<rparr>]"
proof -
  have d: "distinct (map perm_key (p_rows sample_perms))" by (simp add: sample_perms_def)
  have s: "sorted_list_of_set (set [''web'', ''mail'', ''web'']) = [''mail'', ''web'']"
    unfolding sorted_list_of_set_sort_remdups [symmetric] by code_simp
  have "t_find perm_key (''ann'', ''mail'') (p_rows sample_perms) \<noteq> None"
    "t_find perm_key (''ann'', ''web'') (p_rows sample_perms) = None"
    by (simp_all add: sample_perms_def t_find_Cons perm_key_def)
  then show ?thesis
    unfolding effective_permissions_spec [OF _ d, of "''ann''" "[''web'', ''mail'', ''web'']", simplified, unfolded s [simplified]]
    by (simp add: stored_perm_def sample_perms_def t_find_Cons perm_key_def default_mode_def)
qed

subsection \<open>Routine counters\<close>

definition elevation_for :: "user_id \<Rightarrow> string \<Rightarrow> string \<Rightarrow> int \<Rightarrow> elevation_event" where
  "elevation_for u c a n = \<lparr>ev_connector = c, ev_action = a, ev_count = n, ev_user = u\<rparr>"

lemma routine_body_step:
  assumes "rr_opt = t_find routine_key (u, c, a) (p_routines st)"
    and "n = (case rr_opt of None \<Rightarrow> 0 | Some r \<Rightarrow> rr_approvals r)"
    and "case rr_opt of None \<Rightarrow> True | Some r \<Rightarrow> rr_edits r = 0"
  shows "(\<exists>r. t_find routine_key (u, c, a) (p_routines (routine_check_body u c a True True st)) = Some r \<and>
              rr_approvals r = n + 1 \<and> rr_edits r = 0) \<and>
         p_elevations (routine_check_body u c a True True st) =
           p_elevations st @ (if 15 \<le> n + 1 then [elevation_for u c a (n + 1)] else [])"
  using assms
  by (auto simp: routine_check_body_def Let_def t_find_upsert routine_key_def elevation_for_def
      split: option.splits)

text \<open>
  The routine counter counts the approvals of one user, connector and action type, and
  the elevation hook fires on the fifteenth approval and again on every later one (never
  before): after \<open>k\<close> approvals with no edit, the fired events are those with counts
  15 up to \<open>k\<close>.
\<close>

theorem routine_counter_fires_from_fifteen:
  assumes "t_find routine_key (u, c, a) (p_routines st) = None" and "0 < k"
  shows "(\<exists>r. t_find routine_key (u, c, a) (p_routines ((routine_check_body u c a True True ^^ k) st)) = Some r \<and>
              rr_approvals r = int k \<and> rr_edits r = 0) \<and>
         p_elevations ((routine_check_body u c a True True ^^ k) st) =
           p_elevations st @ map (elevation_for u c a) [15..int k]"
  using assms(2)
proof (induction k)
  case 0
  then show ?case by simp
next
  case (Suc k)
  show ?case
  proof (cases "k = 0")
    case True
    with routine_body_step [OF refl refl, of u c a st] assms(1) show ?thesis by simp
  next
    case False
    with Suc.IH obtain r where
      r: "t_find routine_key (u, c, a) (p_routines ((routine_check_body u c a True True ^^ k) st)) = Some r"
        "rr_approvals r = int k" "rr_edits r = 0"
      and ev: "p_elevations ((routine_check_body u c a True True ^^ k) st) =
        p_elevations st @ map (elevation_for u c a) [15..int k]"
      by auto
    have "[15..int k + 1] = [15..int k] @ (if 15 \<le> int k + 1 then [int k + 1] else [])"
      by (simp add: upto_rec2)
    with routine_body_step [OF refl refl, of u c a "(routine_check_body u c a True True ^^ k) st"] r ev
    show ?thesis by (auto simp: add.commute)
  qed
qed

theorem routine_counter_fires_from_fifteen_witness:
  "p_elevations ((routine_check_body ''ann'' ''mail'' ''tag'' True True ^^ 16) sample_perms) =
    [elevation_for ''ann'' ''mail'' ''tag'' 15, elevation_for ''ann'' ''mail'' ''tag'' 16]"
proof -
  have "t_find routine_key (''ann'', ''mail'', ''tag'') (p_routines sample_perms) = None"
    by (simp add: sample_perms_def)
  from routine_counter_fires_from_fifteen [OF this, of 16, THEN conjunct2]
  show ?thesis by (simp add: sample_perms_def upto.simps)
qed

end
