(* ===== verification/Actions.thy ===== *)
theory Actions
  imports Permissions
begin

section \<open>Actions: registry, executor, audit trail and reversal\<close>

text \<open>
  Models \<open>orchestrator/actions/registry.py\<close>, \<open>executor.py\<close>, \<open>reversibility.py\<close>, the
  writing half of \<open>audit.py\<close>, the records of \<open>models/actions.py\<close>, and the risk tiers of
  \<open>services/api_v1_risk.py\<close>. A handler is a parameter: what it returns on an input is one
  of three outcomes, and \<open>runs\<close> records every handler invocation with its input, so that
  "the handler did not run" is a statement about the state. \<open>uuid4\<close> and the clock are
  arguments.
\<close>

subsection \<open>Records\<close>

record action_result =
  ar_success :: bool
  ar_output :: string
  ar_error :: "string option"
  ar_token :: "string option"

datatype handler_out = GivesResult action_result | GivesOther string | RaisesExc string

record action_spec =
  as_name :: string
  as_connector :: string
  as_action_type :: string
  as_is_write :: bool
  as_is_reversible :: bool
  as_handler :: "json \<Rightarrow> handler_out"
  as_definition :: json_obj
  as_reverse_name :: "string option"

record audit_entry =
  en_action :: string
  en_connector :: string
  en_mode :: string
  en_input :: string
  en_result :: string
  en_reverse :: "json_obj option"
  en_executed :: "instant option"
  en_user :: user_id

text \<open>A row of table \<open>audit_log\<close>.\<close>

record audit_row =
  au_id :: int
  au_user :: user_id
  au_action :: string
  au_connector :: string
  au_mode :: string
  au_input :: string
  au_result :: string
  au_token :: "string option"
  au_reverse :: "json_obj option"
  au_executed :: instant
  au_reversed :: "instant option"

record executed_event =
  xe_action :: string
  xe_connector :: string
  xe_success :: bool
  xe_token :: "string option"
  xe_audit_id :: "int option"
  xe_user :: user_id

record registered_event =
  re_action :: string
  re_connector :: string
  re_action_type :: string
  re_is_write :: bool

record act_state =
  registry :: "(string \<times> action_spec) list"
  perms :: perm_state
  audit :: "audit_row list"
  next_audit_id :: int
  executed :: "executed_event list"
  registered :: "registered_event list"
  runs :: "(string \<times> json) list"

subsection \<open>Registry\<close>

definition register_action :: "action_spec \<Rightarrow> act_state \<Rightarrow> act_state" where
  "register_action sp st =
     st\<lparr>registry := dict_set (as_name sp) sp (registry st),
        registered := registered st @
          [\<lparr>re_action = as_name sp, re_connector = as_connector sp,
            re_action_type = as_action_type sp, re_is_write = as_is_write sp\<rparr>]\<rparr>"

definition get_action :: "string \<Rightarrow> act_state \<Rightarrow> action_spec option" where
  "get_action name st = map_of (registry st) name"

record action_meta =
  am_name :: string
  am_connector :: string
  am_action_type :: string
  am_is_write :: bool
  am_is_reversible :: bool
  am_reverse_name :: "string option"
  am_definition :: json_obj

definition list_actions :: "act_state \<Rightarrow> action_meta list" where
  "list_actions st =
     map (\<lambda>(k, s). \<lparr>am_name = as_name s, am_connector = as_connector s,
            am_action_type = as_action_type s, am_is_write = as_is_write s,
            am_is_reversible = as_is_reversible s, am_reverse_name = as_reverse_name s,
            am_definition = as_definition s\<rparr>) (registry st)"

subsection \<open>Audit trail\<close>

definition write_audit ::
  "bool \<Rightarrow> instant \<Rightarrow> audit_entry \<Rightarrow> string option \<Rightarrow> act_state \<Rightarrow> int option \<times> act_state" where
  "write_audit insert_ok now en tok st =
     (if \<not> insert_ok then (None, st)
      else let rid = next_audit_id st in
        (Some rid, st\<lparr>audit := audit st @
           [\<lparr>au_id = rid, au_user = en_user en, au_action = en_action en,
             au_connector = en_connector en, au_mode = en_mode en, au_input = en_input en,
             au_result = en_result en, au_token = tok,
             au_reverse = (case en_reverse en of None \<Rightarrow> None
                           | Some d \<Rightarrow> if d = [] then None else Some d),
             au_executed = (case en_executed en of None \<Rightarrow> now | Some t \<Rightarrow> t),
             au_reversed = None\<rparr>],
           next_audit_id := rid + 1\<rparr>))"

definition mark_reversed :: "bool \<Rightarrow> instant \<Rightarrow> string \<Rightarrow> act_state \<Rightarrow> bool \<times> act_state" where
  "mark_reversed update_ok now tok st =
     (if \<not> update_ok then (False, st)
      else (True, st\<lparr>audit := update_where (\<lambda>r. au_token r = Some tok)
                      (\<lambda>r. r\<lparr>au_reversed := Some now\<rparr>) (audit st)\<rparr>))"

subsection \<open>Executor\<close>

definition hard_limited :: "string list" where
  "hard_limited = [''financial_transaction'', ''mass_communication'', ''permanent_deletion'',
     ''first_contact'', ''code_commit'']"

definition is_hard_limited :: "string \<Rightarrow> bool" where
  "is_hard_limited a = (a \<in> set hard_limited)"

text \<open>
  What the environment decides about one execution: the new uuid, the clock, and whether
  the two log inserts whose failure is swallowed succeed.
\<close>

record exec_env =
  x_uuid :: string
  x_now :: instant
  x_log_ok :: bool
  x_audit_ok :: bool

definition present :: "string option \<Rightarrow> bool" where
  "present x = (case x of None \<Rightarrow> False | Some s \<Rightarrow> s \<noteq> [])"

definition result_text :: "action_result \<Rightarrow> string" where
  "result_text r = (if ar_output r \<noteq> [] then ar_output r
     else case ar_error r of None \<Rightarrow> [] | Some e \<Rightarrow> e)"

definition write_audit_and_fire ::
  "exec_env \<Rightarrow> action_spec \<Rightarrow> json \<Rightarrow> action_result \<Rightarrow> user_id \<Rightarrow> act_state \<Rightarrow> act_state" where
  "write_audit_and_fire env sp inp res u st =
     (let en = \<lparr>en_action = as_name sp, en_connector = as_connector sp,
                en_mode = (if as_is_write sp then ''DO'' else ''ASK''),
                en_input = take 500 (dumps inp),
                en_result = take 500 (result_text res),
                en_reverse = (if as_is_reversible sp \<and> present (ar_token res)
                              then Some [(''action_name'', opt_str (as_reverse_name sp)),
                                         (''reverse_token'', opt_str (ar_token res))]
                              else None),
                en_executed = Some (x_now env), en_user = u\<rparr>;
          (aid, st1) = write_audit (x_audit_ok env) (x_now env) en (ar_token res) st
      in st1\<lparr>executed := executed st1 @
           [\<lparr>xe_action = as_name sp, xe_connector = as_connector sp, xe_success = ar_success res,
             xe_token = ar_token res, xe_audit_id = aid, xe_user = u\<rparr>]\<rparr>)"

definition call_handler :: "action_spec \<Rightarrow> json \<Rightarrow> act_state \<Rightarrow> action_result \<times> act_state" where
  "call_handler sp inp st =
     ((case as_handler sp inp of
         GivesResult r \<Rightarrow> r
       | GivesOther s \<Rightarrow> \<lparr>ar_success = True, ar_output = s, ar_error = None, ar_token = None\<rparr>
       | RaisesExc m \<Rightarrow> \<lparr>ar_success = False, ar_output = [], ar_error = Some m, ar_token = None\<rparr>),
      st\<lparr>runs := runs st @ [(as_name sp, inp)]\<rparr>)"

definition assign_token :: "exec_env \<Rightarrow> action_spec \<Rightarrow> action_result \<Rightarrow> action_result" where
  "assign_token env sp r =
     (if ar_success r \<and> as_is_reversible sp \<and> ar_token r = None
      then r\<lparr>ar_token := Some (x_uuid env)\<rparr> else r)"

text \<open>
  The last step calls \<open>routine_check(spec.connector, spec.action_type, user_id=user_id)\<close>:
  two positional arguments to a function whose parameters are all keyword-only. The
  \<open>TypeError\<close> is caught by the surrounding \<open>except Exception\<close>.
\<close>

definition executor_routine_check :: "action_spec \<Rightarrow> user_id \<Rightarrow> act_state \<Rightarrow> act_state" where
  "executor_routine_check sp u st =
     st\<lparr>perms := snd (routine_check [as_connector sp, as_action_type sp] (Some u) None None
                      True True (perms st))\<rparr>"

definition failed_result :: "string \<Rightarrow> action_result" where
  "failed_result m = \<lparr>ar_success = False, ar_output = [], ar_error = Some m, ar_token = None\<rparr>"

definition execute ::
  "exec_env \<Rightarrow> string \<Rightarrow> json \<Rightarrow> user_id \<Rightarrow> act_state \<Rightarrow> (perm_error + action_result) \<times> act_state" where
  "execute env name inp0 u st =
     (if u = [] then (Inl UserIdRequired, st)
      else
        let inp = (if json_truthy inp0 then inp0 else JObj []) in
        case get_action name st of
          None \<Rightarrow> (Inr (failed_result (''Unknown action: '' @ py_repr name)), st)
        | Some sp \<Rightarrow>
            (case check_permission (x_log_ok env) (x_now env) (as_connector sp) (as_action_type sp)
                    (as_is_write sp) u (perms st) of
               (Inl e, p) \<Rightarrow> (Inl e, st\<lparr>perms := p\<rparr>)
             | (Inr allowed, p) \<Rightarrow>
                 let st1 = st\<lparr>perms := p\<rparr> in
                 if \<not> allowed then
                   let r = failed_result (''Permission denied: '' @ as_connector sp @ ''/'' @
                             as_action_type sp @ '' requires DO mode'')
                   in (Inr r, write_audit_and_fire env sp inp r u st1)
                 else
                   let (r0, st2) = call_handler sp inp st1;
                       r = assign_token env sp r0;
                       st3 = write_audit_and_fire env sp inp r u st2;
                       st4 = (if ar_success r \<and> as_is_write sp \<and> \<not> is_hard_limited (as_action_type sp)
                              then executor_routine_check sp u st3 else st3)
                   in (Inr r, st4)))"

subsection \<open>Reversal\<close>

text \<open>
  \<open>lookup_err\<close> is the text of the exception when the audit lookup fails. The column
  \<open>reverse_action\<close> holds what the executor wrote there: its \<open>action_name\<close> is a text or null.
\<close>

definition find_reversible :: "string \<Rightarrow> user_id \<Rightarrow> act_state \<Rightarrow> audit_row option" where
  "find_reversible tok u st = find (\<lambda>r. au_token r = Some tok \<and> au_user r = u) (audit st)"

definition attempt_reverse ::
  "exec_env \<Rightarrow> string option \<Rightarrow> bool \<Rightarrow> string \<Rightarrow> user_id \<Rightarrow> act_state
    \<Rightarrow> (perm_error + action_result) \<times> act_state" where
  "attempt_reverse env lookup_err mark_ok tok u st =
     (if u = [] then (Inl UserIdRequired, st)
      else case lookup_err of
        Some m \<Rightarrow> (Inr (failed_result (''Audit lookup failed: '' @ m)), st)
      | None \<Rightarrow>
          (case find_reversible tok u st of
             None \<Rightarrow> (Inr (failed_result (''No reversible action found for token: '' @ tok)), st)
           | Some row \<Rightarrow>
               if au_reversed row \<noteq> None
               then (Inr (failed_result (''Action '' @ py_repr (au_action row) @ '' has already been reversed'')), st)
               else case au_reverse row of
                 None \<Rightarrow> (Inr (failed_result (''Action '' @ py_repr (au_action row) @ '' has no reverse action defined'')), st)
               | Some ra \<Rightarrow>
                   let rinp = (case map_of ra ''input'' of None \<Rightarrow> JObj [] | Some j \<Rightarrow> j) in
                   (case map_of ra ''action_name'' of
                      Some (JStr rname) \<Rightarrow>
                        if rname = []
                        then (Inr (failed_result ''Reverse action has no action_name''), st)
                        else
                          (case execute env rname rinp u st of
                             (Inl e, st1) \<Rightarrow> (Inl e, st1)
                           | (Inr r, st1) \<Rightarrow>
                               if ar_success r
                               then (Inr r, snd (mark_reversed mark_ok (x_now env) tok st1))
                               else (Inr r, st1))
                    | _ \<Rightarrow> (Inr (failed_result ''Reverse action has no action_name''), st))))"

subsection \<open>Risk tiers\<close>

datatype risk_tier = LowRisk | MediumRisk | HighRisk | HardLimit

definition tier_map :: "(string \<times> risk_tier) list" where
  "tier_map =
    [(''read'', LowRisk), (''read_file'', LowRisk), (''list'', LowRisk), (''list_files'', LowRisk),
     (''search'', LowRisk), (''lookup'', LowRisk), (''fetch'', LowRisk), (''get'', LowRisk),
     (''write'', MediumRisk), (''write_file'', MediumRisk), (''create'', MediumRisk),
     (''update'', MediumRisk), (''edit'', MediumRisk), (''draft'', MediumRisk),
     (''save'', MediumRisk), (''tag'', MediumRisk),
     (''delete'', HighRisk), (''remove'', HighRisk), (''send'', HighRisk), (''publish'', HighRisk),
     (''post'', HighRisk), (''rename'', HighRisk), (''move'', HighRisk)]"

text \<open>The second component is the set of action types already warned about.\<close>

definition risk_tier_for :: "string \<Rightarrow> string list \<Rightarrow> risk_tier \<times> string list" where
  "risk_tier_for a warned =
     (if is_hard_limited a then (HardLimit, warned)
      else case map_of tier_map a of
        Some t \<Rightarrow> (t, warned)
      | None \<Rightarrow> (MediumRisk, if a \<in> set warned then warned else a # warned))"

definition elevation_eligible :: "string \<Rightarrow> bool" where
  "elevation_eligible a = (\<not> is_hard_limited a)"


subsection \<open>The executor in one equation\<close>

definition handler_input :: "json \<Rightarrow> json" where
  "handler_input inp = (if json_truthy inp then inp else JObj [])"

definition gate_allows :: "action_spec \<Rightarrow> user_id \<Rightarrow> act_state \<Rightarrow> bool" where
  "gate_allows sp u st = (\<not> (as_is_write sp \<and> fst (stored_perm (perms st) (u, as_connector sp)) = ''ASK''))"

definition denial :: "action_spec \<Rightarrow> action_result" where
  "denial sp = failed_result (''Permission denied: '' @ as_connector sp @ ''/'' @ as_action_type sp @ '' requires DO mode'')"

lemma executor_routine_noop [simp]: "executor_routine_check sp u st = st"
  by (simp add: executor_routine_check_def routine_check_def)

lemma write_fire_frame [frame]:
  "runs (write_audit_and_fire env sp inp r u st) = runs st"
  "registry (write_audit_and_fire env sp inp r u st) = registry st"
  "perms (write_audit_and_fire env sp inp r u st) = perms st"
  by (simp_all add: write_audit_and_fire_def write_audit_def Let_def)

lemma check_decision:
  assumes "perm_coherent p" and "u \<noteq> []"
  shows "fst (check_permission ok now c a w u p) = Inr (\<not> (w \<and> fst (stored_perm p (u, c)) = ''ASK''))"
  using assms by (simp add: check_permission_eq Let_def load_perm_value)

lemma check_tables:
  assumes "u \<noteq> []"
  shows "stored_perm (snd (check_permission ok now c a w u p)) = stored_perm p"
    and "p_routines (snd (check_permission ok now c a w u p)) = p_routines p"
    and "p_elevations (snd (check_permission ok now c a w u p)) = p_elevations p"
  using assms by (auto simp: check_permission_eq Let_def frame intro: stored_perm_rows)

lemma execute_no_user: "execute env name inp [] st = (Inl UserIdRequired, st)"
  by (simp add: execute_def)

lemma execute_unknown:
  "u \<noteq> [] \<Longrightarrow> get_action name st = None \<Longrightarrow>
    execute env name inp u st = (Inr (failed_result (''Unknown action: '' @ py_repr name)), st)"
  by (simp add: execute_def)

lemma execute_known:
  assumes "u \<noteq> []" and "get_action name st = Some sp" and "perm_coherent (perms st)"
  shows "execute env name inp u st =
    (let st1 = st\<lparr>perms := snd (check_permission (x_log_ok env) (x_now env) (as_connector sp)
                  (as_action_type sp) (as_is_write sp) u (perms st))\<rparr>
     in if gate_allows sp u st
        then (let (r0, st2) = call_handler sp (handler_input inp) st1; r = assign_token env sp r0
              in (Inr r, write_audit_and_fire env sp (handler_input inp) r u st2))
        else (Inr (denial sp), write_audit_and_fire env sp (handler_input inp) (denial sp) u st1))"
  using assms check_decision [OF assms(3,1), of "x_log_ok env" "x_now env" "as_connector sp" "as_action_type sp" "as_is_write sp"]
  by (auto simp: execute_def handler_input_def gate_allows_def denial_def Let_def
      split: prod.splits sum.splits)

lemma execute_frame [frame]:
  assumes "perm_coherent (perms st)"
  shows "registry (snd (execute env name inp u st)) = registry st"
    and "stored_perm (perms (snd (execute env name inp u st))) = stored_perm (perms st)"
    and "p_routines (perms (snd (execute env name inp u st))) = p_routines (perms st)"
    and "p_elevations (perms (snd (execute env name inp u st))) = p_elevations (perms st)"
    and "perm_coherent (perms (snd (execute env name inp u st)))"
proof -
  let ?goal = "\<lambda>st'. registry st' = registry st \<and> stored_perm (perms st') = stored_perm (perms st) \<and>
    p_routines (perms st') = p_routines (perms st) \<and> p_elevations (perms st') = p_elevations (perms st) \<and>
    perm_coherent (perms st')"
  have "?goal (snd (execute env name inp u st))"
  proof (cases "u = []")
    case True
    with assms show ?thesis by (simp add: execute_no_user)
  next
    case u: False
    show ?thesis
    proof (cases "get_action name st")
      case None
      with u assms show ?thesis by (simp add: execute_unknown)
    next
      case (Some sp)
      show ?thesis
        unfolding execute_known [OF u Some assms]
        by (auto simp: Let_def frame call_handler_def check_tables [OF u] check_coherent [OF assms])
    qed
  qed
  then show "registry (snd (execute env name inp u st)) = registry st"
    "stored_perm (perms (snd (execute env name inp u st))) = stored_perm (perms st)"
    "p_routines (perms (snd (execute env name inp u st))) = p_routines (perms st)"
    "p_elevations (perms (snd (execute env name inp u st))) = p_elevations (perms st)"
    "perm_coherent (perms (snd (execute env name inp u st)))"
    by blast+
qed

text \<open>
  C31. No action runs without permission: a registered action's handler is called exactly
  when it is a read or the stored mode of its connector for this user is not \<open>ASK\<close>, and
  then exactly once, with the caller's input (or an empty object). A denied call returns
  the failure that names connector and action type.
\<close>

theorem handler_runs_iff_allowed:
  assumes "u \<noteq> []" and "get_action name st = Some sp" and "perm_coherent (perms st)"
  shows "runs (snd (execute env name inp u st)) = runs st @
           (if as_is_write sp \<and> fst (stored_perm (perms st) (u, as_connector sp)) = ''ASK'' then []
            else [(as_name sp, if json_truthy inp then inp else JObj [])]) \<and>
         (if as_is_write sp \<and> fst (stored_perm (perms st) (u, as_connector sp)) = ''ASK''
          then fst (execute env name inp u st) = Inr
            \<lparr>ar_success = False, ar_output = [],
             ar_error = Some (''Permission denied: '' @ as_connector sp @ ''/'' @ as_action_type sp @ '' requires DO mode''),
             ar_token = None\<rparr>
          else fst (execute env name inp u st) =
            Inr (assign_token env sp (fst (call_handler sp (if json_truthy inp then inp else JObj []) st))))"
  unfolding execute_known [OF assms]
  by (auto simp: Let_def frame call_handler_def gate_allows_def handler_input_def denial_def failed_result_def)

definition sample_spec :: action_spec where
  "sample_spec = \<lparr>as_name = ''tag_mail'', as_connector = ''mail'', as_action_type = ''tag'',
     as_is_write = True, as_is_reversible = True,
     as_handler = (\<lambda>_. GivesOther ''tagged''), as_definition = [],
     as_reverse_name = Some ''untag_mail''\<rparr>"

definition sample_undo :: action_spec where
  "sample_undo = \<lparr>as_name = ''untag_mail'', as_connector = ''mail'', as_action_type = ''tag'',
     as_is_write = True, as_is_reversible = False,
     as_handler = (\<lambda>_. GivesOther ''untagged''), as_definition = [], as_reverse_name = None\<rparr>"

definition sample_acts :: act_state where
  "sample_acts = register_action sample_undo (register_action sample_spec
     \<lparr>registry = [], perms = sample_perms, audit = [], next_audit_id = 1, executed = [],
      registered = [], runs = []\<rparr>)"

lemma sample_acts_simps:
  "get_action ''tag_mail'' sample_acts = Some sample_spec"
  "get_action ''untag_mail'' sample_acts = Some sample_undo"
  "perms sample_acts = sample_perms" "perm_coherent (perms sample_acts)"
  "audit sample_acts = []" "runs sample_acts = []" "next_audit_id sample_acts = 1"
  "executed sample_acts = []"
  by (simp_all add: sample_acts_def get_action_def register_action_def sample_spec_def
      sample_undo_def sample_perms_coherent)

lemma sample_specs [simp]:
  "as_name sample_spec = ''tag_mail''" "as_connector sample_spec = ''mail''"
  "as_action_type sample_spec = ''tag''" "as_is_write sample_spec" "as_is_reversible sample_spec"
  "as_handler sample_spec inp = GivesOther ''tagged''" "as_reverse_name sample_spec = Some ''untag_mail''"
  "as_name sample_undo = ''untag_mail''" "as_connector sample_undo = ''mail''"
  "as_action_type sample_undo = ''tag''" "as_is_write sample_undo" "\<not> as_is_reversible sample_undo"
  "as_handler sample_undo inp = GivesOther ''untagged''"
  by (simp_all add: sample_spec_def sample_undo_def)

theorem handler_runs_iff_allowed_witness:
  "runs (snd (execute \<lparr>x_uuid = ''t1'', x_now = 9, x_log_ok = True, x_audit_ok = True\<rparr>
     ''tag_mail'' (JInt 0) ''ann'' sample_acts)) = [(''tag_mail'', JObj [])] \<and>
   runs (snd (execute \<lparr>x_uuid = ''t1'', x_now = 9, x_log_ok = True, x_audit_ok = True\<rparr>
     ''tag_mail'' (JInt 0) ''bob'' sample_acts)) = []"
  using handler_runs_iff_allowed [OF _ sample_acts_simps(1,4), of "''ann''", THEN conjunct1]
    handler_runs_iff_allowed [OF _ sample_acts_simps(1,4), of "''bob''", THEN conjunct1]
  by (simp add: sample_acts_simps sample_spec_def sample_perms_stored)

subsection \<open>The audit trail\<close>

text \<open>
  Every attempt on a registered action, denied, failed or successful, fires exactly one
  executed event that carries the caller and the outcome, and appends exactly one audit row
  with a new id, the caller, the outcome's token and summaries of at most 500 characters;
  the event names that row. When the audit insert fails the action's outcome stands, no row
  is written and the event's audit id is \<open>None\<close>.
\<close>

theorem execute_one_audit_one_event:
  assumes "u \<noteq> []" and "get_action name st = Some sp" and "perm_coherent (perms st)"
    and "execute env name inp u st = (r, st')"
  shows "\<exists>res ev. r = Inr res \<and> executed st' = executed st @ [ev] \<and>
           xe_action ev = as_name sp \<and> xe_user ev = u \<and> xe_success ev = ar_success res \<and>
           xe_token ev = ar_token res \<and>
           (if x_audit_ok env
            then \<exists>row. audit st' = audit st @ [row] \<and> xe_audit_id ev = Some (au_id row) \<and>
                   au_id row = next_audit_id st \<and> next_audit_id st' = next_audit_id st + 1 \<and>
                   au_user row = u \<and> au_action row = as_name sp \<and> au_token row = ar_token res \<and>
                   au_reversed row = None \<and> length (au_input row) \<le> 500 \<and> length (au_result row) \<le> 500
            else audit st' = audit st \<and> xe_audit_id ev = None)"
  using assms(4) unfolding execute_known [OF assms(1-3)]
  by (auto simp: Let_def write_audit_and_fire_def write_audit_def call_handler_def split: if_splits)

theorem execute_one_audit_one_event_witness:
  "\<exists>row. audit (snd (execute \<lparr>x_uuid = ''t1'', x_now = 9, x_log_ok = True, x_audit_ok = True\<rparr>
     ''tag_mail'' (JInt 0) ''bob'' sample_acts)) = [row] \<and> au_user row = ''bob'' \<and> au_id row = 1"
  using execute_one_audit_one_event [OF _ sample_acts_simps(1,4), of "''bob''"
      "\<lparr>x_uuid = ''t1'', x_now = 9, x_log_ok = True, x_audit_ok = True\<rparr>" "JInt 0",
      OF _ prod.collapse [symmetric]]
  by (auto simp: sample_acts_simps)

subsection \<open>Undo\<close>

lemma find_append_fresh:
  "(\<And>r. r \<in> set xs \<Longrightarrow> \<not> p r) \<Longrightarrow> p x \<Longrightarrow> find p (xs @ [x]) = Some x"
  by (induction xs) auto

lemma find_Some_pred: "find p xs = Some x \<Longrightarrow> p x"
  by (induction xs) (auto split: if_splits)

lemma find_map_same:
  "(\<And>r. p (f r) = p r) \<Longrightarrow> find p (map f xs) = map_option f (find p xs)"
  by (induction xs) auto

text \<open>What a successful reversible action leaves for the undo.\<close>

lemma execute_leaves_undo:
  assumes "u \<noteq> []" and "get_action name st = Some sp" and "perm_coherent (perms st)"
    and "execute env name inp u st = (Inr res, st')" and "x_audit_ok env"
    and "as_is_reversible sp" and "ar_success res" and "ar_token res = Some tok" and "tok \<noteq> []"
    and "\<And>r. r \<in> set (audit st) \<Longrightarrow> au_token r \<noteq> Some tok"
  shows "\<exists>row. find_reversible tok u st' = Some row \<and> au_reversed row = None \<and>
    au_reverse row = Some [(''action_name'', opt_str (as_reverse_name sp)), (''reverse_token'', JStr tok)]"
proof -
  obtain p g where st': "st' = write_audit_and_fire env sp (handler_input inp) res u (st\<lparr>perms := p, runs := g\<rparr>)"
    using assms(4,7) unfolding execute_known [OF assms(1-3)]
    by (auto simp: Let_def call_handler_def denial_def failed_result_def split: if_splits)
  show ?thesis
    unfolding st' find_reversible_def
    using assms(5-10)
    by (auto simp: write_audit_and_fire_def write_audit_def Let_def present_def opt_str_def find_append_fresh)
qed

text \<open>
  A reversible action that succeeds always has a token (its handler's, or else the fresh
  uuid), and the caller finds by it the audit row with the reverse action; but the undo then
  calls the reverse handler with the empty object: the executor stores the token under
  \<open>reverse_token\<close> while the undo reads \<open>input\<close>, so the reverse handler is never told what
  to reverse.
\<close>

theorem undo_handler_gets_empty_input:
  assumes "u \<noteq> []" and "get_action name st = Some sp" and "perm_coherent (perms st)"
    and "execute env name inp u st = (Inr res, st1)" and "x_audit_ok env"
    and "as_is_reversible sp" and "ar_success res" and "ar_token res \<noteq> Some []" and "x_uuid env \<noteq> []"
    and "list_all (\<lambda>r. au_token r \<noteq> ar_token res) (audit st)"
    and "as_reverse_name sp = Some rn" and "rn \<noteq> []" and "get_action rn st = Some rsp"
    and "gate_allows rsp u st"
  shows "\<exists>tok. ar_token res = Some tok \<and>
    runs (snd (attempt_reverse env2 None mark_ok tok u st1)) = runs st1 @ [(as_name rsp, JObj [])]"
proof -
  have "ar_token res \<noteq> None"
    using assms(4,6,7) unfolding execute_known [OF assms(1-3)]
    by (auto simp: Let_def assign_token_def denial_def failed_result_def split: if_splits prod.splits)
  then obtain tok where tok: "ar_token res = Some tok" "tok \<noteq> []"
    using assms(8) by auto
  have fresh: "\<And>r. r \<in> set (audit st) \<Longrightarrow> au_token r \<noteq> Some tok"
    using assms(10) tok by (auto simp: list_all_iff)
  obtain row where row: "find_reversible tok u st1 = Some row" "au_reversed row = None"
    "au_reverse row = Some [(''action_name'', opt_str (as_reverse_name sp)), (''reverse_token'', JStr tok)]"
    using execute_leaves_undo [OF assms(1-7) tok fresh] by auto
  have st1: "st1 = snd (execute env name inp u st)" using assms(4) by simp
  have "get_action rn st1 = Some rsp" "perm_coherent (perms st1)" "gate_allows rsp u st1"
    unfolding st1 using assms(13,14) by (simp_all add: get_action_def gate_allows_def execute_frame [OF assms(3)])
  then have "runs (snd (execute env2 rn (JObj []) u st1)) = runs st1 @ [(as_name rsp, JObj [])]"
    using assms(1) by (auto simp: execute_known Let_def frame call_handler_def handler_input_def)
  with row tok assms(1,11,12) show ?thesis
    by (auto simp: attempt_reverse_def opt_str_def mark_reversed_def split: prod.splits sum.splits)
qed

theorem undo_handler_gets_empty_input_witness:
  "\<exists>tok. runs (snd (attempt_reverse \<lparr>x_uuid = ''t2'', x_now = 10, x_log_ok = True, x_audit_ok = True\<rparr>
       None True tok ''ann'' (snd (execute \<lparr>x_uuid = ''t1'', x_now = 9, x_log_ok = True, x_audit_ok = True\<rparr>
     ''tag_mail'' (JInt 7) ''ann'' sample_acts)))) = [(''tag_mail'', JInt 7), (''untag_mail'', JObj [])]"
proof -
  let ?env = "\<lparr>x_uuid = ''t1'', x_now = 9, x_log_ok = True, x_audit_ok = True\<rparr>"
  let ?st1 = "snd (execute ?env ''tag_mail'' (JInt 7) ''ann'' sample_acts)"
  have g: "gate_allows sample_spec ''ann'' sample_acts" "gate_allows sample_undo ''ann'' sample_acts"
    by (simp_all add: gate_allows_def sample_specs sample_acts_simps sample_perms_stored)
  have "fst (execute ?env ''tag_mail'' (JInt 7) ''ann'' sample_acts) =
      Inr \<lparr>ar_success = True, ar_output = ''tagged'', ar_error = None, ar_token = Some ''t1''\<rparr>"
    and runs: "runs ?st1 = [(''tag_mail'', JInt 7)]"
    unfolding execute_known [OF _ sample_acts_simps(1,4), of "''ann''", simplified] Let_def
    using g by (simp_all add: call_handler_def assign_token_def handler_input_def frame
        sample_acts_simps sample_specs)
  then have ex: "execute ?env ''tag_mail'' (JInt 7) ''ann'' sample_acts =
      (Inr \<lparr>ar_success = True, ar_output = ''tagged'', ar_error = None, ar_token = Some ''t1''\<rparr>, ?st1)"
    by (metis prod.collapse)
  show ?thesis
    using undo_handler_gets_empty_input [OF _ sample_acts_simps(1,4) ex, of "''untag_mail''" sample_undo] runs g
    by (auto simp: sample_acts_simps sample_specs)
qed

lemma find_reversible_execute:
  assumes "find_reversible tok u st = Some row" and "perm_coherent (perms st)"
  shows "find_reversible tok u (snd (execute env name inp v st)) = Some row"
proof -
  have "\<exists>rows. audit (snd (execute env name inp v st)) = audit st @ rows"
  proof (cases "v = [] \<or> get_action name st = None")
    case True
    then show ?thesis by (cases "v = []") (auto simp: execute_no_user execute_unknown)
  next
    case False
    then obtain sp where sp: "v \<noteq> []" "get_action name st = Some sp" by auto
    show ?thesis
      unfolding execute_known [OF sp assms(2)]
      by (auto simp: Let_def write_audit_and_fire_def write_audit_def call_handler_def)
  qed
  with assms(1) show ?thesis by (auto simp: find_reversible_def find_append_Some)
qed

lemma find_reversible_marked:
  "find_reversible tok u (snd (mark_reversed ok now tok st)) =
    map_option (\<lambda>r. if ok then r\<lparr>au_reversed := Some now\<rparr> else r) (find_reversible tok u st)"
proof (cases ok)
  case True
  let ?p = "\<lambda>r. au_token r = Some tok \<and> au_user r = u"
  let ?f = "\<lambda>r. if au_token r = Some tok then r\<lparr>au_reversed := Some now\<rparr> else r"
  have "find ?p (map ?f (audit st)) = map_option ?f (find ?p (audit st))"
    by (rule find_map_same) auto
  moreover have "map_option ?f (find ?p (audit st)) = map_option (\<lambda>r. r\<lparr>au_reversed := Some now\<rparr>) (find ?p (audit st))"
    by (cases "find ?p (audit st)") (auto dest: find_Some_pred)
  ultimately show ?thesis using True by (simp add: find_reversible_def mark_reversed_def update_where_def)
next
  case False
  then show ?thesis by (simp add: mark_reversed_def find_reversible_def option.map_ident)
qed

lemma failed_not_success [simp]: "\<not> ar_success (failed_result m)"
  by (simp add: failed_result_def)

text \<open>An undo either changes nothing or is one execution whose success is marked.\<close>

lemma attempt_reverse_cases:
  obtains (kept) x where "attempt_reverse env lookup ok tok u st = (x, st)"
      "\<And>r. x = Inr r \<Longrightarrow> \<not> ar_success r"
  | (ran) row name inp where "u \<noteq> []" "find_reversible tok u st = Some row" "au_reversed row = None"
      "attempt_reverse env lookup ok tok u st =
         (case execute env name inp u st of
            (Inl e, st1) \<Rightarrow> (Inl e, st1)
          | (Inr r, st1) \<Rightarrow> if ar_success r then (Inr r, snd (mark_reversed ok (x_now env) tok st1))
                            else (Inr r, st1))"
proof (cases "u = [] \<or> lookup \<noteq> None \<or> find_reversible tok u st = None")
  case True
  then show ?thesis
    by (intro kept [of "fst (attempt_reverse env lookup ok tok u st)"])
       (auto simp: attempt_reverse_def split: if_splits option.splits)
next
  case False
  then obtain row where row: "u \<noteq> []" "lookup = None" "find_reversible tok u st = Some row" by auto
  show ?thesis
  proof (cases "\<exists>ra rname. au_reversed row = None \<and> au_reverse row = Some ra \<and>
      map_of ra ''action_name'' = Some (JStr rname) \<and> rname \<noteq> []")
    case True
    then obtain ra rname where "au_reversed row = None" "au_reverse row = Some ra"
      "map_of ra ''action_name'' = Some (JStr rname)" "rname \<noteq> []" by blast
    with row show ?thesis
      by (intro ran [of row rname "case map_of ra ''input'' of None \<Rightarrow> JObj [] | Some j \<Rightarrow> j"])
         (simp_all add: attempt_reverse_def)
  next
    case False
    with row show ?thesis
      by (intro kept [of "fst (attempt_reverse env lookup ok tok u st)"])
         (auto simp: attempt_reverse_def Let_def split: option.splits json.splits if_splits)
  qed
qed

lemma attempt_reverse_success:
  assumes "attempt_reverse env lookup ok tok u st = (Inr r, st1)" and "ar_success r"
  obtains row st0 name inp where "find_reversible tok u st = Some row" and "u \<noteq> []"
    and "st0 = snd (execute env name inp u st)" and "st1 = snd (mark_reversed ok (x_now env) tok st0)"
proof (cases rule: attempt_reverse_cases [of env lookup ok tok u st])
  case kept
  with assms show ?thesis by auto
next
  case (ran row name inp)
  show ?thesis
  proof (rule that [OF ran(2,1)])
    show "st1 = snd (mark_reversed ok (x_now env) tok (snd (execute env name inp u st)))"
      using assms ran(4) by (auto split: prod.splits sum.splits if_splits)
  qed (rule refl)
qed

text \<open>
  An action is undone at most once: after a successful undo whose mark was stored, every
  later attempt with the same token is refused as already reversed, runs no handler and
  changes nothing. (When storing the mark fails, the failure is ignored and the token stays
  usable.)
\<close>

theorem undo_at_most_once:
  assumes "perm_coherent (perms st)" and "attempt_reverse env None True tok u st = (Inr r, st1)"
    and "ar_success r"
  shows "\<exists>m. attempt_reverse env2 None ok2 tok u st1 =
    (Inr (failed_result (''Action '' @ py_repr m @ '' has already been reversed'')), st1)"
proof -
  obtain row st0 name inp where row: "find_reversible tok u st = Some row" "u \<noteq> []"
    and st0: "st0 = snd (execute env name inp u st)" and st1: "st1 = snd (mark_reversed True (x_now env) tok st0)"
    using attempt_reverse_success [OF assms(2,3)] by blast
  have "find_reversible tok u st1 = Some (row\<lparr>au_reversed := Some (x_now env)\<rparr>)"
    unfolding st1 find_reversible_marked
    using find_reversible_execute [OF row(1) assms(1)] by (simp add: st0)
  with row(2) show ?thesis by (auto simp: attempt_reverse_def)
qed

definition undoable_acts :: act_state where
  "undoable_acts = sample_acts\<lparr>audit :=
     [\<lparr>au_id = 1, au_user = ''ann'', au_action = ''tag_mail'', au_connector = ''mail'', au_mode = ''DO'',
       au_input = [], au_result = [], au_token = Some ''t1'',
       au_reverse = Some [(''action_name'', JStr ''untag_mail''), (''reverse_token'', JStr ''t1'')],
       au_executed = 5, au_reversed = None\<rparr>]\<rparr>"

lemma undoable_acts_simps:
  "get_action ''untag_mail'' undoable_acts = Some sample_undo"
  "perm_coherent (perms undoable_acts)" "gate_allows sample_undo ''ann'' undoable_acts"
  "find_reversible ''t1'' ''ann'' undoable_acts = Some (hd (audit undoable_acts))"
  "au_reversed (hd (audit undoable_acts)) = None"
  "au_reverse (hd (audit undoable_acts)) = Some [(''action_name'', JStr ''untag_mail''), (''reverse_token'', JStr ''t1'')]"
  using sample_acts_simps
  by (simp_all add: undoable_acts_def get_action_def gate_allows_def sample_perms_stored find_reversible_def)

theorem undo_at_most_once_witness:
  "\<exists>m st1. snd (attempt_reverse \<lparr>x_uuid = ''t2'', x_now = 9, x_log_ok = True, x_audit_ok = True\<rparr>
      None True ''t1'' ''ann'' undoable_acts) = st1 \<and>
    attempt_reverse \<lparr>x_uuid = ''t3'', x_now = 10, x_log_ok = True, x_audit_ok = True\<rparr> None True ''t1'' ''ann'' st1 =
     (Inr (failed_result (''Action '' @ py_repr m @ '' has already been reversed'')), st1)"
proof -
  let ?env = "\<lparr>x_uuid = ''t2'', x_now = 9, x_log_ok = True, x_audit_ok = True\<rparr>"
  have "fst (attempt_reverse ?env None True ''t1'' ''ann'' undoable_acts) =
      Inr \<lparr>ar_success = True, ar_output = ''untagged'', ar_error = None, ar_token = None\<rparr>"
    using undoable_acts_simps(3)
    by (simp add: attempt_reverse_def undoable_acts_simps Let_def
        execute_known [OF _ undoable_acts_simps(1,2)] call_handler_def assign_token_def)
  then have "attempt_reverse ?env None True ''t1'' ''ann'' undoable_acts =
      (Inr \<lparr>ar_success = True, ar_output = ''untagged'', ar_error = None, ar_token = None\<rparr>,
       snd (attempt_reverse ?env None True ''t1'' ''ann'' undoable_acts))"
    by (metis prod.collapse)
  from undo_at_most_once [OF undoable_acts_simps(2) this] show ?thesis by auto
qed

subsection \<open>What execution leaves alone\<close>

datatype act_event =
    DoExecute exec_env string json user_id
  | DoReverse exec_env "string option" bool string user_id

fun act_apply :: "act_state \<Rightarrow> act_event \<Rightarrow> act_state" where
  "act_apply st (DoExecute env name inp u) = snd (execute env name inp u st)"
| "act_apply st (DoReverse env lookup ok tok u) = snd (attempt_reverse env lookup ok tok u st)"

definition perms_frozen :: "perm_state \<Rightarrow> act_state \<Rightarrow> bool" where
  "perms_frozen p st \<longleftrightarrow> perm_coherent (perms st) \<and> stored_perm (perms st) = stored_perm p \<and>
     p_routines (perms st) = p_routines p \<and> p_elevations (perms st) = p_elevations p"

lemma execute_frozen: "perms_frozen p st \<Longrightarrow> perms_frozen p (snd (execute env name inp u st))"
  by (simp add: perms_frozen_def execute_frame)

lemma mark_frozen: "perms_frozen p st \<Longrightarrow> perms_frozen p (snd (mark_reversed ok now tok st))"
  by (simp add: perms_frozen_def mark_reversed_def)

lemma reverse_frozen:
  assumes "perms_frozen p st"
  shows "perms_frozen p (snd (attempt_reverse env lookup ok tok u st))"
proof (cases rule: attempt_reverse_cases [of env lookup ok tok u st])
  case kept
  with assms show ?thesis by simp
next
  case (ran row name inp)
  have "perms_frozen p (snd (execute env name inp u st))" using assms by (rule execute_frozen)
  with ran(4) show ?thesis by (auto split: prod.splits sum.splits intro: mark_frozen)
qed

interpretation acts: event_machine act_apply "perms_frozen p" for p
proof
  fix s e assume "perms_frozen p s"
  then show "perms_frozen p (act_apply s e)" by (cases e) (simp_all add: execute_frozen reverse_frozen)
qed

text \<open>
  No sequence of executions and undos changes a permission, a routine counter or fires an
  elevation: in particular the routine counting that a successful write should trigger never
  happens, because \<open>execute\<close> calls the keyword-only \<open>routine_check\<close> positionally and
  swallows the \<open>TypeError\<close>.
\<close>

theorem executions_never_elevate:
  assumes "p_cache (perms st) = Map.empty"
  shows "stored_perm (perms (foldl act_apply st es)) = stored_perm (perms st) \<and>
         p_routines (perms (foldl act_apply st es)) = p_routines (perms st) \<and>
         p_elevations (perms (foldl act_apply st es)) = p_elevations (perms st)"
proof -
  have "perms_frozen (perms st) st"
    using assms by (simp add: perms_frozen_def perm_coherent_def cache_coherent_def)
  from acts.run_good [OF this, of es] show ?thesis by (simp add: perms_frozen_def)
qed

theorem executions_never_elevate_witness:
  "p_routines (perms (foldl act_apply sample_acts (replicate 20
     (DoExecute \<lparr>x_uuid = ''t'', x_now = 9, x_log_ok = True, x_audit_ok = True\<rparr> ''tag_mail'' JNull ''ann'')))) = []"
proof -
  have "p_cache (perms sample_acts) = Map.empty"
    by (simp add: sample_acts_simps sample_perms_def)
  from executions_never_elevate [OF this, THEN conjunct2, THEN conjunct1] show ?thesis
    by (simp add: sample_acts_simps sample_perms_def)
qed

subsection \<open>Risk tiers\<close>

lemma tier_map_not_hard: "map_of tier_map a \<noteq> Some HardLimit"
  by (auto simp: tier_map_def)

text \<open>
  The hard limit is one set for the executor and the API: an action type is of tier
  \<open>hard_limit\<close> exactly when it may not be elevated, whatever was warned about before; an
  unknown type is of medium risk and is remembered, so it is warned about once.
\<close>

theorem hard_limit_tier:
  "((fst (risk_tier_for a warned) = HardLimit) = (\<not> elevation_eligible a)) \<and>
   (a \<notin> set hard_limited \<and> map_of tier_map a = None \<longleftrightarrow>
      a \<in> set (snd (risk_tier_for a [])) \<and> fst (risk_tier_for a warned) = MediumRisk) \<and>
   risk_tier_for a (snd (risk_tier_for a warned)) = (fst (risk_tier_for a warned), snd (risk_tier_for a warned))"
  using tier_map_not_hard [of a]
  by (auto simp: risk_tier_for_def elevation_eligible_def is_hard_limited_def split: option.splits)

end
