(* ===== verification/ProposalExecute.thy ===== *)
theory ProposalExecute
  imports ProposalQueue Actions
begin

section \<open>Claiming and executing a proposal\<close>

text \<open>
  Models \<open>orchestrator/actions/proposal_execute.py\<close>: the pre-flight check, the claim by id,
  the diagnosis of a lost claim, the execution through \<open>actions.executor.execute\<close> and its
  bookkeeping. The environment of one call says which statements fail and with what kind of
  exception, and what other workers do to the queue between the statements (\<open>pe_gap1\<close>
  between the pre-flight select and the claim, \<open>pe_gap2\<close> between a lost claim and the second
  select, \<open>pe_gap3\<close> while the action runs). Structured log lines are not modelled.
\<close>

datatype store_fault = NoFault | OperationalFault | OtherFault string

datatype pe_error =
    ProposalNotFound
  | HardLimitedProposal string
  | AlreadyClaimed int
  | InvalidProposalState proposal_status
  | ServiceUnavailable
  | BookkeepingFailed int
  | InternalError
  | Uncaught string

record pe_state =
  pe_queue :: "proposal list"
  pe_acts :: act_state

record pe_env =
  pe_exec :: exec_env
  pe_ttl :: int
  pe_max :: int
  pe_claim_now :: instant
  pe_finish_now :: instant
  pe_select_fault :: store_fault
  pe_claim_fault :: store_fault
  pe_peek_fault :: store_fault
  pe_perm_fault :: store_fault
  pe_mark_fault :: store_fault
  pe_fail_fault :: store_fault
  pe_gap1 :: "proposal list \<Rightarrow> proposal list"
  pe_gap2 :: "proposal list \<Rightarrow> proposal list"
  pe_gap3 :: "proposal list \<Rightarrow> proposal list"

text \<open>The outermost \<open>except\<close> clauses: an \<open>OperationalError\<close> is a 503, the rest propagates.\<close>

definition fault_error :: "store_fault \<Rightarrow> pe_error" where
  "fault_error f = (case f of OtherFault m \<Rightarrow> Uncaught m | _ \<Rightarrow> ServiceUnavailable)"

definition within_claim_ttl :: "instant \<Rightarrow> instant option \<Rightarrow> int \<Rightarrow> bool" where
  "within_claim_ttl now claimed_at ttl =
     (case claimed_at of None \<Rightarrow> False | Some t \<Rightarrow> now - t < ttl * second)"

definition user_id_required_repr :: string where
  "user_id_required_repr = ''TypeError('' @ [char_of (39::nat)] @
     ''actions.executor.execute: user_id (keyword-only) is required'' @ [char_of (39::nat)] @ '')''"

text \<open>
  \<open>execute\<close> as seen from here: besides its result it can raise, because of the user id or
  because the permission lookup of an uncached connector fails in the store.
\<close>

datatype raised = RaisedOperational | RaisedOther string

definition run_execute ::
  "pe_env \<Rightarrow> string \<Rightarrow> json_obj \<Rightarrow> user_id \<Rightarrow> act_state \<Rightarrow> (raised + action_result) \<times> act_state" where
  "run_execute env name payload u st =
     (let reads = (u \<noteq> [] \<and> (case get_action name st of None \<Rightarrow> False
                  | Some sp \<Rightarrow> p_cache (perms st) (u, as_connector sp) = None))
      in case (if reads then pe_perm_fault env else NoFault) of
           OperationalFault \<Rightarrow> (Inl RaisedOperational, st)
         | OtherFault m \<Rightarrow> (Inl (RaisedOther m), st)
         | NoFault \<Rightarrow>
             (case execute (pe_exec env) name (JObj payload) u st of
                (Inl e, st') \<Rightarrow> (Inl (RaisedOther user_id_required_repr), st')
              | (Inr r, st') \<Rightarrow> (Inr r, st')))"

definition try_fail :: "pe_env \<Rightarrow> int \<Rightarrow> string \<Rightarrow> pe_error + 'a \<Rightarrow> pe_state \<Rightarrow> (pe_error + 'a) \<times> pe_state" where
  "try_fail env i err after st =
     (case pe_fail_fault env of
        NoFault \<Rightarrow> (after, st\<lparr>pe_queue := fail_execution (pe_finish_now env) i err (pe_max env) (pe_queue st)\<rparr>)
      | f \<Rightarrow> (Inl (fault_error f), st))"

definition finish_claim ::
  "pe_env \<Rightarrow> claimed_proposal \<Rightarrow> user_id \<Rightarrow> pe_state \<Rightarrow> (pe_error + action_result) \<times> pe_state" where
  "finish_claim env c u st =
     (let (out, acts') = run_execute env (cp_action c) (cp_payload c) u (pe_acts st);
          st1 = st\<lparr>pe_acts := acts', pe_queue := pe_gap3 env (pe_queue st)\<rparr>
      in case out of
           Inl RaisedOperational \<Rightarrow>
             try_fail env (cp_id c) ''execute_operational_error'' (Inl ServiceUnavailable) st1
         | Inl (RaisedOther m) \<Rightarrow> try_fail env (cp_id c) m (Inl InternalError) st1
         | Inr r \<Rightarrow>
             if ar_success r then
               (if pe_mark_fault env = NoFault
                then (Inr r, st1\<lparr>pe_queue := mark_done (pe_finish_now env) (cp_id c) (pe_queue st1)\<rparr>)
                else (Inl (BookkeepingFailed (cp_id c)), st1))
             else
               try_fail env (cp_id c)
                 (case ar_error r of None \<Rightarrow> ''action_failed'' | Some e \<Rightarrow> if e = [] then ''action_failed'' else e)
                 (Inr r) st1)"

definition hard_limited_action :: "string \<Rightarrow> act_state \<Rightarrow> string option" where
  "hard_limited_action name st =
     (case get_action name st of
        None \<Rightarrow> None
      | Some sp \<Rightarrow> if is_hard_limited (as_action_type sp) then Some (as_name sp) else None)"

definition lost_claim_error :: "pe_env \<Rightarrow> int \<Rightarrow> string \<Rightarrow> proposal_peek option \<Rightarrow> pe_error" where
  "lost_claim_error env i w peek =
     (case peek of
        None \<Rightarrow> ProposalNotFound
      | Some p \<Rightarrow>
          if pk_status p = Approved \<and> pk_claimed_at p \<noteq> None then AlreadyClaimed i
          else if pk_status p = Executing \<and> pk_claimed_by p \<noteq> None \<and> pk_claimed_by p \<noteq> Some w \<and>
                  within_claim_ttl (pe_claim_now env) (pk_claimed_at p) (pe_ttl env)
          then AlreadyClaimed i
          else InvalidProposalState (pk_status p))"

definition claim_and_execute_proposal ::
  "pe_env \<Rightarrow> int \<Rightarrow> string \<Rightarrow> user_id \<Rightarrow> pe_state \<Rightarrow> (pe_error + action_result) \<times> pe_state" where
  "claim_and_execute_proposal env i w u st =
     (if pe_select_fault env \<noteq> NoFault then (Inl (fault_error (pe_select_fault env)), st)
      else case select_proposal_for_user i u (pe_queue st) of
        None \<Rightarrow> (Inl ProposalNotFound, st)
      | Some row0 \<Rightarrow>
          (case (if pk_status row0 = Approved then hard_limited_action (pk_action row0) (pe_acts st) else None) of
             Some n \<Rightarrow> (Inl (HardLimitedProposal n), st)
           | None \<Rightarrow>
               let st1 = st\<lparr>pe_queue := pe_gap1 env (pe_queue st)\<rparr> in
               if pe_claim_fault env \<noteq> NoFault then (Inl (fault_error (pe_claim_fault env)), st1)
               else
                 (case claim_by_id (pe_claim_now env) i u w (pe_queue st1) of
                    (Some c, q) \<Rightarrow> finish_claim env c u (st1\<lparr>pe_queue := q\<rparr>)
                  | (None, q) \<Rightarrow>
                      let st2 = st1\<lparr>pe_queue := pe_gap2 env q\<rparr> in
                      if pe_peek_fault env \<noteq> NoFault then (Inl (fault_error (pe_peek_fault env)), st2)
                      else (Inl (lost_claim_error env i w (select_proposal_for_user i u (pe_queue st2))), st2))))"

subsection \<open>Who runs the action\<close>

lemma try_fail_acts [frame]: "pe_acts (snd (try_fail env i err a st)) = pe_acts st"
  by (simp add: try_fail_def split: store_fault.split)

lemma finish_claim_acts:
  "pe_acts (snd (finish_claim env c u st)) = snd (run_execute env (cp_action c) (cp_payload c) u (pe_acts st))"
  by (auto simp: finish_claim_def Let_def frame split: prod.split sum.split raised.split)

lemma claim_by_id_Some:
  assumes "claim_by_id now i u w q = (Some c, q')"
  shows "\<exists>r \<in> set q. pq_id r = i \<and> pq_user r = u \<and> pq_status r = Approved \<and> pq_claimed_at r = None \<and>
    c = claimed_view (set_executing now w r)"
  using assms by (auto simp: claim_by_id_def Let_def find_Some_iff)

text \<open>
  C14. Only the owner of a fresh claim acts: whatever fails and whatever other workers do in
  between, a call touches the actions (runs a handler, writes an audit row) only if at the
  moment of the claim the proposal was this user's, approved and unclaimed, and then it
  makes exactly one execution, of that proposal's action with that proposal's payload.
\<close>

theorem only_a_claimed_proposal_executes:
  assumes "pe_acts (snd (claim_and_execute_proposal env i w u st)) \<noteq> pe_acts st"
  shows "\<exists>r \<in> set (pe_gap1 env (pe_queue st)). pq_id r = i \<and> pq_user r = u \<and>
     pq_status r = Approved \<and> pq_claimed_at r = None \<and>
     pe_acts (snd (claim_and_execute_proposal env i w u st)) =
       snd (run_execute env (pq_action r) (pq_payload r) u (pe_acts st))"
proof (cases "claim_by_id (pe_claim_now env) i u w (pe_gap1 env (pe_queue st))")
  case (Pair x q)
  show ?thesis
  proof (cases x)
    case None
    with Pair assms show ?thesis
      by (simp add: claim_and_execute_proposal_def Let_def split: if_splits option.splits)
  next
    case (Some c)
    with Pair obtain r where r: "r \<in> set (pe_gap1 env (pe_queue st))" "pq_id r = i" "pq_user r = u"
      "pq_status r = Approved" "pq_claimed_at r = None" "c = claimed_view (set_executing (pe_claim_now env) w r)"
      using claim_by_id_Some [of "pe_claim_now env" i u w] by blast
    have "pe_acts (snd (claim_and_execute_proposal env i w u st)) =
       snd (run_execute env (pq_action r) (pq_payload r) u (pe_acts st))"
      using Pair Some assms r(6)
      by (simp add: claim_and_execute_proposal_def Let_def finish_claim_acts split: if_splits option.splits)
    with r(1-5) show ?thesis by blast
  qed
qed

definition quiet_env :: "instant \<Rightarrow> pe_env" where
  "quiet_env now = \<lparr>pe_exec = \<lparr>x_uuid = ''t1'', x_now = now, x_log_ok = True, x_audit_ok = True\<rparr>,
     pe_ttl = 300, pe_max = 3, pe_claim_now = now, pe_finish_now = now,
     pe_select_fault = NoFault, pe_claim_fault = NoFault, pe_peek_fault = NoFault,
     pe_perm_fault = NoFault, pe_mark_fault = NoFault, pe_fail_fault = NoFault,
     pe_gap1 = (\<lambda>q. q), pe_gap2 = (\<lambda>q. q), pe_gap3 = (\<lambda>q. q)\<rparr>"

lemma quiet_env_simps [simp]:
  "pe_ttl (quiet_env now) = 300" "pe_max (quiet_env now) = 3" "pe_claim_now (quiet_env now) = now"
  "pe_finish_now (quiet_env now) = now" "pe_select_fault (quiet_env now) = NoFault"
  "pe_claim_fault (quiet_env now) = NoFault" "pe_peek_fault (quiet_env now) = NoFault"
  "pe_perm_fault (quiet_env now) = NoFault" "pe_mark_fault (quiet_env now) = NoFault"
  "pe_fail_fault (quiet_env now) = NoFault" "pe_gap1 (quiet_env now) q = q"
  "pe_gap2 (quiet_env now) q = q" "pe_gap3 (quiet_env now) q = q"
  by (simp_all add: quiet_env_def)

definition sample_pe :: pe_state where
  "sample_pe = \<lparr>pe_queue = [sample_proposal 1 Approved], pe_acts = sample_acts\<rparr>"

lemma sample_hard_limit: "hard_limited_action ''tag_mail'' sample_acts = None"
  by (simp add: hard_limited_action_def sample_acts_simps is_hard_limited_def hard_limited_def)

lemma sample_run:
  "run_execute (quiet_env now) ''tag_mail'' [] ''ann'' sample_acts =
    (Inr \<lparr>ar_success = True, ar_output = ''tagged'', ar_error = None, ar_token = Some ''t1''\<rparr>,
     snd (execute (pe_exec (quiet_env now)) ''tag_mail'' (JObj []) ''ann'' sample_acts))"
  using sample_acts_simps(1,4)
  by (simp add: run_execute_def Let_def execute_known gate_allows_def sample_acts_simps sample_perms_stored
      call_handler_def assign_token_def) (simp add: quiet_env_def)

subsection \<open>What a claim leads to\<close>

lemma claim_and_execute_claimed:
  assumes "distinct (map pq_id (pe_queue st))" and "t_find pq_id i (pe_queue st) = Some r"
    and "pq_user r = u" and "pq_status r = Approved" and "pq_claimed_at r = None"
    and "hard_limited_action (pq_action r) (pe_acts st) = None"
    and "pe_select_fault env = NoFault" and "pe_claim_fault env = NoFault" and "pe_gap1 env (pe_queue st) = pe_queue st"
  shows "claim_and_execute_proposal env i w u st =
    finish_claim env (claimed_view (set_executing (pe_claim_now env) w r)) u
      (st\<lparr>pe_queue := snd (claim_by_id (pe_claim_now env) i u w (pe_queue st))\<rparr>)"
proof -
  obtain q where "claim_by_id (pe_claim_now env) i u w (pe_queue st) =
    (Some (claimed_view (set_executing (pe_claim_now env) w r)), q)"
    using claim_by_id_find(1) [OF assms(1-5), of "pe_claim_now env" w] by (metis prod.collapse)
  with assms show ?thesis
    by (simp add: claim_and_execute_proposal_def select_proposal_for_user_def find_as_t_find)
qed

definition failure_text :: "action_result \<Rightarrow> string" where
  "failure_text r = (case ar_error r of None \<Rightarrow> ''action_failed''
     | Some e \<Rightarrow> if e = [] then ''action_failed'' else e)"

lemma mark_done_find:
  assumes "distinct (map pq_id q)" and "t_find pq_id i q = Some r" and "pq_status r = Executing"
  shows "t_find pq_id i (mark_done now i q) = Some (r\<lparr>pq_status := Done, pq_executed := Some now, pq_finished := Some now\<rparr>)"
    and "j \<noteq> i \<Longrightarrow> t_find pq_id j (mark_done now i q) = t_find pq_id j q"
proof -
  have f: "t_find pq_id k (mark_done now i q) = map_option (\<lambda>x. if pq_id x = i \<and> pq_status x = Executing
      then x\<lparr>pq_status := Done, pq_executed := Some now, pq_finished := Some now\<rparr> else x) (t_find pq_id k q)" for k
    unfolding mark_done_def by (rule t_find_update_where) simp
  show "t_find pq_id i (mark_done now i q) = Some (r\<lparr>pq_status := Done, pq_executed := Some now, pq_finished := Some now\<rparr>)"
    using f [of i] assms t_find_Some [OF assms(2)] by simp
  show "t_find pq_id j (mark_done now i q) = t_find pq_id j q" if "j \<noteq> i"
    using f [of j] that t_find_Some [of pq_id j q] by (cases "t_find pq_id j q") auto
qed

text \<open>
  The bookkeeping matches the outcome. When nothing fails in the store and nobody
  interferes, an approved unclaimed proposal of this user is executed and the caller gets
  the action's result; the row is done if the action succeeded, and otherwise goes through
  one failure (attempt plus one, back to approved with backoff, or dead at the limit). No
  other row changes.
\<close>

theorem proposal_outcome_recorded:
  assumes "distinct (map pq_id (pe_queue st))" and "t_find pq_id i (pe_queue st) = Some r"
    and "pq_user r = u" and "pq_status r = Approved" and "pq_claimed_at r = None"
    and "hard_limited_action (pq_action r) (pe_acts st) = None"
    and "run_execute env (pq_action r) (pq_payload r) u (pe_acts st) = (Inr res, acts')"
    and "pe_select_fault env = NoFault" and "pe_claim_fault env = NoFault"
    and "pe_mark_fault env = NoFault" and "pe_fail_fault env = NoFault"
    and "pe_gap1 env (pe_queue st) = pe_queue st" and "\<And>q. pe_gap3 env q = q"
    and "(out, st') = claim_and_execute_proposal env i w u st"
  shows "out = Inr res \<and> pe_acts st' = acts' \<and>
    t_find pq_id i (pe_queue st') =
      Some (if ar_success res
            then (set_executing (pe_claim_now env) w r)\<lparr>pq_status := Done,
                   pq_executed := Some (pe_finish_now env), pq_finished := Some (pe_finish_now env)\<rparr>
            else retry_row (pe_finish_now env) (failure_text res) (pe_max env)
                   (set_executing (pe_claim_now env) w r)) \<and>
    (\<forall>j. j \<noteq> i \<longrightarrow> t_find pq_id j (pe_queue st') = t_find pq_id j (pe_queue st))"
proof -
  let ?q = "snd (claim_by_id (pe_claim_now env) i u w (pe_queue st))"
  note c = claim_by_id_find [OF assms(1-5), where now = "pe_claim_now env" and w = w]
  have d: "distinct (map pq_id ?q)" using assms(1) c(3) by simp
  note m = mark_done_find [OF d c(2), where now = "pe_finish_now env"]
  note f = fail_execution_find [OF d c(2), where now = "pe_finish_now env" and m = "pe_max env"
      and err = "failure_text res"]
  have i: "pq_id r = i" using t_find_Some [OF assms(2)] by simp
  have "(out, st') = finish_claim env (claimed_view (set_executing (pe_claim_now env) w r)) u (st\<lparr>pe_queue := ?q\<rparr>)"
    using claim_and_execute_claimed [OF assms(1-6,8,9,12)] assms(14) by simp
  then have "out = Inr res \<and> st' = st\<lparr>pe_acts := acts', pe_queue :=
      (if ar_success res then mark_done (pe_finish_now env) i ?q
       else fail_execution (pe_finish_now env) i (failure_text res) (pe_max env) ?q)\<rparr>"
    using assms(7,10,11,13) i
    by (simp add: finish_claim_def Let_def try_fail_def failure_text_def split: if_splits)
  then show ?thesis using m f c(4) by simp
qed

theorem proposal_outcome_recorded_witness:
  "\<exists>row. t_find pq_id 1 (pe_queue (snd (claim_and_execute_proposal (quiet_env 7) 1 ''w'' ''ann'' sample_pe))) = Some row \<and>
     pq_status row = Done \<and> pq_finished row = Some 7"
  using proposal_outcome_recorded [of sample_pe 1 "sample_proposal 1 Approved" "''ann''" "quiet_env 7",
      OF _ _ _ _ _ _ _ _ _ _ _ _ _ prod.collapse, of _ _ "''w''"] sample_run [of 7]
  by (simp add: sample_pe_def t_find_Cons sample_hard_limit)

theorem only_a_claimed_proposal_executes_witness:
  "pe_acts (snd (claim_and_execute_proposal (quiet_env 7) 1 ''w'' ''ann'' sample_pe)) =
     snd (run_execute (quiet_env 7) ''tag_mail'' [] ''ann'' sample_acts)"
proof -
  have eq: "claim_and_execute_proposal (quiet_env 7) 1 ''w'' ''ann'' sample_pe =
    finish_claim (quiet_env 7) (claimed_view (set_executing 7 ''w'' (sample_proposal 1 Approved))) ''ann''
      (sample_pe\<lparr>pe_queue := snd (claim_by_id 7 1 ''ann'' ''w'' [sample_proposal 1 Approved])\<rparr>)"
    using claim_and_execute_claimed [of sample_pe 1 "sample_proposal 1 Approved" "''ann''" "quiet_env 7" "''w''"]
    by (simp add: sample_pe_def t_find_Cons sample_hard_limit)
  have "runs (pe_acts (snd (claim_and_execute_proposal (quiet_env 7) 1 ''w'' ''ann'' sample_pe))) \<noteq> runs sample_acts"
    unfolding eq using sample_acts_simps(1,4)
    by (simp add: finish_claim_acts sample_pe_def sample_run execute_known gate_allows_def Let_def frame
        call_handler_def sample_acts_simps sample_perms_stored)
  then have "pe_acts (snd (claim_and_execute_proposal (quiet_env 7) 1 ''w'' ''ann'' sample_pe)) \<noteq> pe_acts sample_pe"
    by (auto simp: sample_pe_def)
  from only_a_claimed_proposal_executes [OF this] show ?thesis by (simp add: sample_pe_def)
qed

subsection \<open>A claim that is lost\<close>

lemma not_approved_no_claim:
  assumes "distinct (map pq_id q)" and "t_find pq_id i q = Some r" and "pq_status r \<noteq> Approved"
  shows "claim_by_id now i u w q = (None, q)"
proof (rule executing_not_claimable(1))
  show "\<forall>x \<in> set q. pq_id x = i \<longrightarrow> pq_status x \<noteq> Approved"
  proof (intro ballI impI)
    fix x assume "x \<in> set q" "pq_id x = i"
    then have "t_find pq_id i q = Some x" using t_find_unique [OF assms(1)] by auto
    with assms(2,3) show "pq_status x \<noteq> Approved" by simp
  qed
qed

lemma not_approved_refused:
  assumes "distinct (map pq_id (pe_queue st))" and "t_find pq_id i (pe_queue st) = Some r"
    and "pq_user r = u" and "pq_status r \<noteq> Approved"
    and "pe_select_fault env = NoFault" and "pe_claim_fault env = NoFault" and "pe_peek_fault env = NoFault"
    and "pe_gap1 env (pe_queue st) = pe_queue st" and "pe_gap2 env (pe_queue st) = pe_queue st"
  shows "claim_and_execute_proposal env i w u st =
    (Inl (lost_claim_error env i w (select_proposal_for_user i u (pe_queue st))), st)"
  using assms not_approved_no_claim [OF assms(1,2,4), of "pe_claim_now env" u w]
  by (simp add: claim_and_execute_proposal_def Let_def select_proposal_for_user_def find_as_t_find)

text \<open>
  A second worker is refused: while one worker executes a proposal, a call by another
  one changes nothing and runs nothing; it is told of the conflict as long as the claim is
  fresh, and of the state \<open>executing\<close> once the claim is older than the limit.
\<close>

theorem second_worker_is_refused:
  assumes "distinct (map pq_id (pe_queue st))" and "t_find pq_id i (pe_queue st) = Some r"
    and "pq_user r = u" and "pq_status r = Executing" and "pq_claimed_by r = Some w1"
    and "pq_claimed_at r = Some t" and "w2 \<noteq> w1"
    and "pe_select_fault env = NoFault" and "pe_claim_fault env = NoFault" and "pe_peek_fault env = NoFault"
    and "pe_gap1 env (pe_queue st) = pe_queue st" and "pe_gap2 env (pe_queue st) = pe_queue st"
  shows "claim_and_execute_proposal env i w2 u st =
    (Inl (if pe_claim_now env - t < pe_ttl env * second then AlreadyClaimed i
          else InvalidProposalState Executing), st)"
proof -
  have "select_proposal_for_user i u (pe_queue st) = Some \<lparr>pk_id = pq_id r, pk_status = pq_status r,
      pk_action = pq_action r, pk_payload = pq_payload r, pk_claimed_at = pq_claimed_at r,
      pk_claimed_by = pq_claimed_by r, pk_run_after = pq_run_after r\<rparr>"
    using assms by (simp add: select_proposal_for_user_def find_as_t_find)
  with not_approved_refused [OF assms(1,2,3) _ assms(8-12), of w2] assms(4-7) show ?thesis
    by (simp add: lost_claim_error_def within_claim_ttl_def)
qed

definition busy_pe :: pe_state where
  "busy_pe = \<lparr>pe_queue = [set_executing 5 ''w1'' (sample_proposal 1 Approved)], pe_acts = sample_acts\<rparr>"

theorem second_worker_is_refused_witness:
  "claim_and_execute_proposal (quiet_env 7) 1 ''w2'' ''ann'' busy_pe = (Inl (AlreadyClaimed 1), busy_pe) \<and>
   claim_and_execute_proposal (quiet_env 300000005) 1 ''w2'' ''ann'' busy_pe =
     (Inl (InvalidProposalState Executing), busy_pe)"
  using second_worker_is_refused [of busy_pe 1 "set_executing 5 ''w1'' (sample_proposal 1 Approved)" "''ann''" "''w1''" 5 "''w2''" "quiet_env 7"]
    second_worker_is_refused [of busy_pe 1 "set_executing 5 ''w1'' (sample_proposal 1 Approved)" "''ann''" "''w1''" 5 "''w2''" "quiet_env 300000005"]
  by (simp add: busy_pe_def t_find_Cons second_def)

subsection \<open>When the completion cannot be recorded\<close>

text \<open>
  A success that could not be recorded is never repeated: when the action succeeds but
  marking it done fails, the caller gets \<open>bookkeeping_failed\<close> and the row stays claimed in
  \<open>executing\<close>; every later call on that state, by any worker, leaves the actions alone, and
  the sweep makes the row dead once the claim is older than its limit.
\<close>

theorem bookkeeping_failure_never_reruns:
  assumes "distinct (map pq_id (pe_queue st))" and "t_find pq_id i (pe_queue st) = Some r"
    and "pq_user r = u" and "pq_status r = Approved" and "pq_claimed_at r = None"
    and "hard_limited_action (pq_action r) (pe_acts st) = None"
    and "run_execute env (pq_action r) (pq_payload r) u (pe_acts st) = (Inr res, acts')" and "ar_success res"
    and "pe_select_fault env = NoFault" and "pe_claim_fault env = NoFault" and "pe_mark_fault env \<noteq> NoFault"
    and "pe_gap1 env (pe_queue st) = pe_queue st" and "\<And>q. pe_gap3 env q = q"
    and "(out, st') = claim_and_execute_proposal env i w u st"
    and "pe_gap1 env2 (pe_queue st') = pe_queue st'"
  shows "out = Inl (BookkeepingFailed i) \<and>
    t_find pq_id i (pe_queue st') = Some (set_executing (pe_claim_now env) w r) \<and>
    pe_acts (snd (claim_and_execute_proposal env2 i w2 u2 st')) = pe_acts st' \<and>
    (pe_claim_now env < now - s * second \<longrightarrow>
       t_find pq_id i (snd (reset_stuck_claims now s (pe_queue st'))) =
         Some (sweep_row now (set_executing (pe_claim_now env) w r)))"
proof -
  let ?q = "snd (claim_by_id (pe_claim_now env) i u w (pe_queue st))"
  let ?r = "set_executing (pe_claim_now env) w r"
  note c = claim_by_id_find [OF assms(1-5), where now = "pe_claim_now env" and w = w]
  have d: "distinct (map pq_id ?q)" using assms(1) c(3) by simp
  have i: "pq_id r = i" using t_find_Some [OF assms(2)] by simp
  have "(out, st') = finish_claim env (claimed_view ?r) u (st\<lparr>pe_queue := ?q\<rparr>)"
    using claim_and_execute_claimed [OF assms(1-6,9,10,12)] assms(14) by simp
  then have st': "out = Inl (BookkeepingFailed i)" "pe_queue st' = ?q"
    using assms(7,8,11,13) i by (simp_all add: finish_claim_def Let_def)
  have "\<not> (\<exists>x \<in> set (pe_gap1 env2 (pe_queue st')). pq_id x = i \<and> pq_status x = Approved)"
    unfolding assms(15) unfolding st'(2) using c(2) t_find_unique [OF d] by auto
  then have "pe_acts (snd (claim_and_execute_proposal env2 i w2 u2 st')) = pe_acts st'"
    using executing_not_claimable(1) [of "pe_gap1 env2 (pe_queue st')" i "pe_claim_now env2" u2 w2]
    by (auto simp: claim_and_execute_proposal_def Let_def split: option.splits)
  moreover have "t_find pq_id i (snd (reset_stuck_claims now s ?q)) = Some (sweep_row now ?r)"
    if "pe_claim_now env < now - s * second"
  proof -
    have "t_find pq_id i (snd (reset_stuck_claims now s ?q)) =
        map_option (\<lambda>x. if stuck now s x then sweep_row now x else x) (t_find pq_id i ?q)"
      unfolding reset_stuck_claims_def snd_conv by (rule t_find_update_where) (simp add: sweep_row_def)
    with c(2) that show ?thesis by (simp add: stuck_def)
  qed
  ultimately show ?thesis using st' c(2) by simp
qed

theorem bookkeeping_failure_never_reruns_witness:
  "fst (claim_and_execute_proposal (quiet_env 7\<lparr>pe_mark_fault := OperationalFault\<rparr>) 1 ''w'' ''ann'' sample_pe) =
     Inl (BookkeepingFailed 1)"
proof -
  let ?env = "quiet_env 7\<lparr>pe_mark_fault := OperationalFault\<rparr>"
  have run: "run_execute ?env ''tag_mail'' [] ''ann'' sample_acts = run_execute (quiet_env 7) ''tag_mail'' [] ''ann'' sample_acts"
    by (simp add: run_execute_def)
  show ?thesis
    using bookkeeping_failure_never_reruns [of sample_pe 1 "sample_proposal 1 Approved" "''ann''" ?env,
        OF _ _ _ _ _ _ _ _ _ _ _ _ _ prod.collapse, where w = "''w''" and ?env2.0 = "quiet_env 8"] sample_run [of 7]
    by (simp add: sample_pe_def t_find_Cons sample_hard_limit run)
qed

subsection \<open>Hard-limited proposals\<close>

text \<open>
  The hard-limit check has a gap. A proposal that is approved when the call selects it
  is refused with \<open>hard_limited_proposal\<close> and nothing runs. But the check looks only at rows
  that are already approved at that select: a hard-limited proposal that is pending then and
  is approved by its user before the claim is claimed and its handler runs.
\<close>

theorem hard_limit_checked_only_when_approved:
  assumes "distinct (map pq_id (pe_queue st))" and "t_find pq_id i (pe_queue st) = Some r" and "pq_user r = u"
    and "get_action (pq_action r) (pe_acts st) = Some sp" and "is_hard_limited (as_action_type sp)"
    and "pe_select_fault env = NoFault" and "pe_claim_fault env = NoFault" and "pe_perm_fault env = NoFault"
    and "pq_claimed_at r = None"
    and "pe_gap1 env (pe_queue st) = update_where (\<lambda>x. pq_id x = i) (\<lambda>x. x\<lparr>pq_status := Approved\<rparr>) (pe_queue st)"
    and "u \<noteq> []" and "perm_coherent (perms (pe_acts st))" and "gate_allows sp u (pe_acts st)"
  shows "if pq_status r = Approved
    then claim_and_execute_proposal env i w u st = (Inl (HardLimitedProposal (as_name sp)), st)
    else runs (pe_acts (snd (claim_and_execute_proposal env i w u st))) =
      runs (pe_acts st) @ [(as_name sp, JObj (pq_payload r))]"
proof (cases "pq_status r = Approved")
  case True
  with assms show ?thesis
    by (simp add: claim_and_execute_proposal_def select_proposal_for_user_def find_as_t_find hard_limited_action_def)
next
  case False
  let ?q = "pe_gap1 env (pe_queue st)"
  let ?r = "r\<lparr>pq_status := Approved\<rparr>"
  have q: "map pq_id ?q = map pq_id (pe_queue st)" "t_find pq_id i ?q = Some ?r"
    unfolding assms(10) using assms(2) t_find_Some [OF assms(2)]
    by (simp_all add: map_key_update_where t_find_update_where)
  have "fst (claim_by_id (pe_claim_now env) i u w ?q) = Some (claimed_view (set_executing (pe_claim_now env) w ?r))"
    by (rule claim_by_id_find(1)) (use q assms(1,3,9) in simp_all)
  then obtain q' where claim: "claim_by_id (pe_claim_now env) i u w ?q =
      (Some (claimed_view (set_executing (pe_claim_now env) w ?r)), q')"
    by (cases "claim_by_id (pe_claim_now env) i u w ?q") simp
  have "runs (snd (run_execute env (pq_action r) (pq_payload r) u (pe_acts st))) =
      runs (pe_acts st) @ [(as_name sp, JObj (pq_payload r))]"
    using assms(8,11,13) unfolding run_execute_def execute_known [OF assms(11,4,12)]
    by (simp add: Let_def frame call_handler_def handler_input_def)
  with False claim assms show ?thesis
    by (simp add: claim_and_execute_proposal_def select_proposal_for_user_def find_as_t_find Let_def
        finish_claim_acts)
qed

definition limited_spec :: action_spec where
  "limited_spec = sample_spec\<lparr>as_action_type := ''code_commit''\<rparr>"

definition limited_pe :: pe_state where
  "limited_pe = \<lparr>pe_queue = [sample_proposal 1 Pending], pe_acts = register_action limited_spec sample_acts\<rparr>"

lemma limited_pe_simps:
  "get_action ''tag_mail'' (pe_acts limited_pe) = Some limited_spec" "runs (pe_acts limited_pe) = []"
  "perm_coherent (perms (pe_acts limited_pe))" "gate_allows limited_spec ''ann'' (pe_acts limited_pe)"
  "is_hard_limited (as_action_type limited_spec)" "as_name limited_spec = ''tag_mail''"
  "pe_queue limited_pe = [sample_proposal 1 Pending]"
  using sample_acts_simps
  by (simp_all add: limited_pe_def limited_spec_def register_action_def get_action_def gate_allows_def
      sample_perms_stored is_hard_limited_def hard_limited_def)

theorem hard_limit_checked_only_when_approved_witness:
  "runs (pe_acts (snd (claim_and_execute_proposal
     (quiet_env 7\<lparr>pe_gap1 := update_where (\<lambda>x. pq_id x = 1) (\<lambda>x. x\<lparr>pq_status := Approved\<rparr>)\<rparr>)
     1 ''w'' ''ann'' limited_pe))) = [(''tag_mail'', JObj [])]"
  using hard_limit_checked_only_when_approved [of limited_pe 1 "sample_proposal 1 Pending" "''ann''" limited_spec
      "quiet_env 7\<lparr>pe_gap1 := update_where (\<lambda>x. pq_id x = 1) (\<lambda>x. x\<lparr>pq_status := Approved\<rparr>)\<rparr>" "''w''"]
  by (simp add: limited_pe_simps t_find_Cons)

end
