(* ===== verification/IngestProgress.thy ===== *)
theory IngestProgress
  imports Prelude
begin

section \<open>Batch jobs: rows and ingest progress\<close>

text \<open>
  Models \<open>orchestrator/services/ingest_progress.py\<close> and the message sanitiser of
  \<open>services/documents.py\<close> over table \<open>user_batch_jobs\<close> (migrations 017 and 035). The state
  is the table, the sequence of its ids, the server-sent events that were queued, and the
  log of handler dispatches that \<open>BatchQueue\<close> writes. Instants are kept as instants in the
  progress responses (\<open>_iso\<close> renders them as text).
\<close>

datatype job_status = JobPending | JobRunning | JobDone | JobDead

record batch_job =
  bj_id :: int
  bj_user :: user_id
  bj_kind :: string
  bj_payload :: json_obj
  bj_status :: job_status
  bj_attempt :: int
  bj_run_after :: instant
  bj_enqueued :: instant
  bj_started :: "instant option"
  bj_finished :: "instant option"
  bj_error :: "string option"
  bj_worker :: "string option"
  bj_stage :: "string option"
  bj_pct :: "int option"
  bj_message :: "string option"

record progress_response =
  rp_job :: int
  rp_file :: "json option"
  rp_batch :: "json option"
  rp_status :: job_status
  rp_stage :: string
  rp_pct :: "int option"
  rp_message :: "string option"
  rp_error :: "string option"
  rp_enqueued :: instant
  rp_started :: "instant option"
  rp_finished :: "instant option"

record batch_state =
  bs_jobs :: "batch_job list"
  bs_next :: int
  bs_events :: "(user_id \<times> progress_response) list"
  bs_runs :: "(string \<times> user_id \<times> json_obj \<times> int) list"

datatype batch_error =
    JobNotFound int
  | UnknownStage string
  | PctOutOfRange int
  | InvalidBatchId
  | InvalidKind string
  | DuplicateKind string
  | UnknownKind string
  | PayloadInvalid string

subsection \<open>Stages\<close>

definition stage_progress_pct :: "(string \<times> int) list" where
  "stage_progress_pct =
    [(''queued'', 0), (''extracting'', 15), (''chunking'', 35), (''embedding'', 60),
     (''graph'', 85), (''projecting'', 50), (''partial'', 100), (''done'', 100), (''failed'', 100)]"

definition ingest_job_kinds :: "string list" where
  "ingest_job_kinds = [''ingest_upload'', ''ingest_watch_file'', ''share_document'', ''unshare_document'']"

definition derive_stage :: "string option \<Rightarrow> job_status \<Rightarrow> string" where
  "derive_stage raw s =
     (case (case raw of None \<Rightarrow> None | Some r \<Rightarrow> if map_of stage_progress_pct r \<noteq> None then Some r else None) of
        Some r \<Rightarrow> r
      | None \<Rightarrow> (case s of JobDead \<Rightarrow> ''failed'' | JobDone \<Rightarrow> ''done'' | _ \<Rightarrow> ''queued''))"

subsection \<open>Error messages\<close>

definition path_prefixes :: "string list" where
  "path_prefixes = [''/home/'', ''/data/'', ''/app/'']"

definition last_segment :: "string \<Rightarrow> string" where
  "last_segment s = rev (takeWhile (\<lambda>c. c \<noteq> CHR ''/'')
     (rev (map (\<lambda>c. if code_point c = 92 then CHR ''/'' else c) s)))"

definition sanitize_error_message :: "string option \<Rightarrow> string option" where
  "sanitize_error_message raw =
     (case raw of None \<Rightarrow> None
      | Some s \<Rightarrow>
          if s = [] then None
          else
            let t0 = take 500 s;
                t = (if list_ex (\<lambda>p. starts_with p t0) path_prefixes then last_segment t0 else t0)
            in if CHR ''/'' \<in> set t \<and> length t > 80 then Some ''Ingest failed'' else Some t)"

text \<open>\<open>x or "Ingest failed"\<close>\<close>

definition or_ingest_failed :: "string option \<Rightarrow> string" where
  "or_ingest_failed m = (case m of None \<Rightarrow> ''Ingest failed'' | Some t \<Rightarrow> if t = [] then ''Ingest failed'' else t)"

subsection \<open>Responses and updates\<close>

definition job_row_to_progress_response :: "batch_job \<Rightarrow> progress_response" where
  "job_row_to_progress_response r =
     (let stage = derive_stage (bj_stage r) (bj_status r) in
      \<lparr>rp_job = bj_id r, rp_file = map_of (bj_payload r) ''file_id'',
       rp_batch = map_of (bj_payload r) ''batch_id'', rp_status = bj_status r, rp_stage = stage,
       rp_pct = (case bj_pct r of None \<Rightarrow> map_of stage_progress_pct stage | Some p \<Rightarrow> Some p),
       rp_message = bj_message r,
       rp_error = (if bj_status r = JobDead
                   then Some (or_ingest_failed (sanitize_error_message (bj_error r))) else None),
       rp_enqueued = bj_enqueued r, rp_started = bj_started r, rp_finished = bj_finished r\<rparr>)"

definition set_progress :: "string \<Rightarrow> int \<Rightarrow> string option \<Rightarrow> batch_job \<Rightarrow> batch_job" where
  "set_progress stage pct msg r = r\<lparr>bj_stage := Some stage, bj_pct := Some pct, bj_message := msg\<rparr>"

definition update_ingest_job_progress ::
  "int \<Rightarrow> user_id \<Rightarrow> string \<Rightarrow> int option \<Rightarrow> string option \<Rightarrow> bool \<Rightarrow> batch_state
    \<Rightarrow> (batch_error + progress_response) \<times> batch_state" where
  "update_ingest_job_progress i u stage pct0 msg emit st =
     (case (case pct0 of Some p \<Rightarrow> Some p | None \<Rightarrow> map_of stage_progress_pct stage) of
        None \<Rightarrow> (Inl (UnknownStage stage), st)
      | Some pct \<Rightarrow>
          let hit = (\<lambda>r. bj_id r = i \<and> bj_user r = u) in
          (case find hit (bs_jobs st) of
             None \<Rightarrow> (Inl (JobNotFound i), st)
           | Some r \<Rightarrow>
               if pct < 0 \<or> pct > 100 then (Inl (PctOutOfRange pct), st)
               else
                 let body = job_row_to_progress_response (set_progress stage pct msg r);
                     st1 = st\<lparr>bs_jobs := update_where hit (set_progress stage pct msg) (bs_jobs st)\<rparr>
                 in (Inr body, if emit then st1\<lparr>bs_events := bs_events st1 @ [(u, body)]\<rparr> else st1)))"

definition get_ingest_job_row :: "int \<Rightarrow> user_id \<Rightarrow> batch_state \<Rightarrow> batch_job option" where
  "get_ingest_job_row i u st =
     find (\<lambda>r. bj_id r = i \<and> bj_user r = u \<and> bj_kind r \<in> set ingest_job_kinds) (bs_jobs st)"

text \<open>\<open>payload->>'key'\<close>\<close>

definition json_text :: "json_obj \<Rightarrow> string \<Rightarrow> string option" where
  "json_text d k = (case map_of d k of None \<Rightarrow> None | Some JNull \<Rightarrow> None
     | Some (JStr s) \<Rightarrow> Some s | Some j \<Rightarrow> Some (dumps j))"

definition batch_id_char :: "char \<Rightarrow> bool" where
  "batch_id_char c = (is_lower_letter c \<or> is_digit c \<or> c = CHR ''_'' \<or> c = CHR ''-'' \<or>
     (65 \<le> code_point c \<and> code_point c \<le> 90))"

definition validate_batch_id :: "string \<Rightarrow> batch_error + string" where
  "validate_batch_id b =
     (let raw = py_strip b in
      if raw = [] \<or> \<not> (length raw \<le> 64 \<and> list_all batch_id_char raw) then Inl InvalidBatchId else Inr raw)"

record batch_summary =
  sm_batch :: string
  sm_completed :: nat
  sm_failed :: nat
  sm_in_progress :: nat

definition get_ingest_batch_summary :: "string \<Rightarrow> user_id \<Rightarrow> batch_state \<Rightarrow> batch_error + batch_summary" where
  "get_ingest_batch_summary b u st =
     (case validate_batch_id b of
        Inl e \<Rightarrow> Inl e
      | Inr bid \<Rightarrow>
          let rows = filter (\<lambda>r. bj_user r = u \<and> (bj_kind r = ''ingest_upload'' \<or> bj_kind r = ''ingest_watch_file'') \<and>
                       json_text (bj_payload r) ''batch_id'' = Some bid) (bs_jobs st)
          in Inr \<lparr>sm_batch = bid,
                  sm_completed = length (filter (\<lambda>r. bj_status r = JobDone) rows),
                  sm_failed = length (filter (\<lambda>r. bj_status r = JobDead) rows),
                  sm_in_progress = length (filter (\<lambda>r. bj_status r = JobPending \<or> bj_status r = JobRunning) rows)\<rparr>)"

subsection \<open>Outcomes\<close>

definition mark_ingest_job_done :: "int \<Rightarrow> user_id \<Rightarrow> batch_state \<Rightarrow> (batch_error + progress_response) \<times> batch_state" where
  "mark_ingest_job_done i u st = update_ingest_job_progress i u ''done'' (Some 100) None True st"

definition mark_ingest_job_failed ::
  "int \<Rightarrow> user_id \<Rightarrow> string \<Rightarrow> batch_state \<Rightarrow> (batch_error + progress_response) \<times> batch_state" where
  "mark_ingest_job_failed i u err st =
     update_ingest_job_progress i u ''failed'' (Some 100)
       (Some (or_ingest_failed (sanitize_error_message (Some err)))) True st"

definition reset_ingest_job_progress_for_retry ::
  "int \<Rightarrow> user_id \<Rightarrow> batch_state \<Rightarrow> (batch_error + progress_response) \<times> batch_state" where
  "reset_ingest_job_progress_for_retry i u st =
     update_ingest_job_progress i u ''queued'' (map_of stage_progress_pct ''queued'') None False st"

definition maybe_handle_ingest_job_failure ::
  "int \<Rightarrow> user_id \<Rightarrow> string \<Rightarrow> int \<Rightarrow> int \<Rightarrow> string \<Rightarrow> batch_state \<Rightarrow> (batch_error + unit) \<times> batch_state" where
  "maybe_handle_ingest_job_failure i u kind new_attempt max_attempts err st =
     (if kind \<notin> set ingest_job_kinds then (Inr (), st)
      else
        (case (if new_attempt < max_attempts then reset_ingest_job_progress_for_retry i u st
               else mark_ingest_job_failed i u err st) of
           (Inl e, st') \<Rightarrow> (Inl e, st')
         | (Inr _, st') \<Rightarrow> (Inr (), st')))"

subsection \<open>What a client sees\<close>

lemma stage_in_map: "map_of stage_progress_pct (derive_stage raw s) \<noteq> None"
  by (auto simp: derive_stage_def stage_progress_pct_def split: option.splits job_status.splits)

text \<open>
  Every job has a displayable progress: whatever is in the row's stage column, the
  reported stage is one of the nine known ones, a percentage is always present, and it is
  the row's own or the one of the stage; an error text is shown exactly for dead jobs and is
  never empty.
\<close>

theorem progress_response_complete:
  "(\<exists>p. map_of stage_progress_pct (rp_stage (job_row_to_progress_response r)) = Some p \<and>
        rp_pct (job_row_to_progress_response r) = Some (case bj_pct r of None \<Rightarrow> p | Some q \<Rightarrow> q)) \<and>
   (rp_error (job_row_to_progress_response r) = None) = (bj_status r \<noteq> JobDead) \<and>
   rp_error (job_row_to_progress_response r) \<noteq> Some []"
  using stage_in_map [of "bj_stage r" "bj_status r"]
  by (auto simp: job_row_to_progress_response_def Let_def or_ingest_failed_def split: option.splits)

lemma last_segment_no_slash: "CHR ''/'' \<notin> set (last_segment s)"
  by (auto simp: last_segment_def dest: set_takeWhileD)

lemma last_segment_length: "length (last_segment s) \<le> length s"
  using length_takeWhile_le [of "\<lambda>c. c \<noteq> CHR ''/''" "rev (map (\<lambda>c. if code_point c = 92 then CHR ''/'' else c) s)"]
  by (simp add: last_segment_def)

lemma prefix_slash: "starts_with p s \<Longrightarrow> p \<in> set path_prefixes \<Longrightarrow> CHR ''/'' \<in> set s"
  by (auto simp: starts_with_def path_prefixes_def dest!: arg_cong [where f = set] set_take_subset [THEN subsetD, rotated])

text \<open>
  What sanitising guarantees: a message that begins with one of the three container
  paths loses every directory, the result never begins with one, is at most 500 characters,
  and has a slash only if it is at most 80 characters long. A short message with a path
  after its first character passes unchanged, which is what every \<open>repr\<close> of an exception
  is.
\<close>

theorem sanitized_message_bounds:
  assumes "sanitize_error_message (Some s) = Some t"
  shows "length t \<le> 500 \<and> (CHR ''/'' \<in> set t \<longrightarrow> length t \<le> 80) \<and>
         \<not> list_ex (\<lambda>p. starts_with p t) path_prefixes \<and>
         (list_ex (\<lambda>p. starts_with p s) path_prefixes \<longrightarrow> CHR ''/'' \<notin> set t) \<and>
         (\<not> list_ex (\<lambda>p. starts_with p s) path_prefixes \<and> length s \<le> 80 \<longrightarrow> t = s)"
proof -
  let ?bad = "\<lambda>x. list_ex (\<lambda>p. starts_with p x) path_prefixes"
  have bad: "?bad (take 500 s) = ?bad s"
    by (simp add: path_prefixes_def starts_with_def)
  have slash: "CHR ''/'' \<in> set x" if "?bad x" for x
    using that prefix_slash by (auto simp: list_ex_iff)
  have ok: "\<not> ?bad ''Ingest failed''"
    by (simp add: path_prefixes_def starts_with_def)
  show ?thesis
  proof (cases "?bad s")
    case True
    then have "t = last_segment (take 500 s)"
      using assms bad last_segment_no_slash [of "take 500 s"]
      by (auto simp: sanitize_error_message_def Let_def split: if_splits)
    with True show ?thesis
      using last_segment_no_slash [of "take 500 s"] last_segment_length [of "take 500 s"] slash [of t] by auto
  next
    case False
    then have "t = (if CHR ''/'' \<in> set (take 500 s) \<and> length (take 500 s) > 80 then ''Ingest failed'' else take 500 s)"
      using assms bad by (auto simp: sanitize_error_message_def Let_def split: if_splits)
    with False bad ok show ?thesis by auto
  qed
qed

theorem sanitized_message_bounds_witness:
  "\<exists>t. sanitize_error_message (Some ''/data/inbox/a.pdf missing'') = Some t \<and> CHR ''/'' \<notin> set t"
proof -
  have "sanitize_error_message (Some ''/data/inbox/a.pdf missing'') = Some ''a.pdf missing''"
    by code_simp
  moreover have "list_ex (\<lambda>p. starts_with p ''/data/inbox/a.pdf missing'') path_prefixes"
    by code_simp
  ultimately show ?thesis using sanitized_message_bounds by blast
qed

text \<open>Every job of a batch is counted exactly once.\<close>

lemma batch_summary_partition:
  assumes "get_ingest_batch_summary b u st = Inr sm"
  shows "sm_completed sm + sm_failed sm + sm_in_progress sm =
    length (filter (\<lambda>r. bj_user r = u \<and> (bj_kind r = ''ingest_upload'' \<or> bj_kind r = ''ingest_watch_file'') \<and>
      json_text (bj_payload r) ''batch_id'' = Some (sm_batch sm)) (bs_jobs st))"
proof -
  have "length (filter (\<lambda>r. bj_status r = JobDone) rows) + length (filter (\<lambda>r. bj_status r = JobDead) rows) +
      length (filter (\<lambda>r. bj_status r = JobPending \<or> bj_status r = JobRunning) rows) = length rows" for rows
    by (induction rows) (auto intro: job_status.exhaust)
  with assms show ?thesis
    by (auto simp: get_ingest_batch_summary_def Let_def simp del: filter_filter split: sum.splits)
qed

end
