(* ===== verification/BatchQueue.thy ===== *)
theory BatchQueue
  imports IngestProgress
begin

section \<open>The batch job queue\<close>

text \<open>
  Models \<open>orchestrator/services/batch_queue.py\<close> and the tick and sweep jobs that
  \<open>orchestrator/main.py\<close> schedules. Every SQL statement is one atomic operation on the rows;
  \<open>locked\<close> are the ids other transactions hold (\<open>SKIP LOCKED\<close>). A handler is a parameter: how
  it validates a payload, and what it does to the state and whether it raises when it runs.
\<close>

subsection \<open>Handlers\<close>

record batch_handler =
  bh_validate :: "json_obj \<Rightarrow> string + json_obj"
  bh_run :: "user_id \<Rightarrow> json_obj \<Rightarrow> int \<Rightarrow> batch_state \<Rightarrow> string option \<times> batch_state"

type_synonym handlers = "(string \<times> batch_handler) list"

text \<open>\<open>^[a-z][a-z0-9_]*$\<close>, full match\<close>

definition valid_kind :: "string \<Rightarrow> bool" where
  "valid_kind k = (case k of [] \<Rightarrow> False
     | c # cs \<Rightarrow> is_lower_letter c \<and> list_all (\<lambda>d. is_lower_letter d \<or> is_digit d \<or> d = CHR ''_'') cs)"

definition register_batch_handler :: "string \<Rightarrow> batch_handler \<Rightarrow> handlers \<Rightarrow> batch_error + handlers" where
  "register_batch_handler k h hs =
     (if \<not> valid_kind k then Inl (InvalidKind k)
      else if k \<in> fst ` set hs then Inl (DuplicateKind k)
      else Inr (dict_set k h hs))"

subsection \<open>Statements\<close>

definition cancel_hit :: "user_id \<Rightarrow> string \<Rightarrow> batch_job \<Rightarrow> bool" where
  "cancel_hit u sid r = (bj_user r = u \<and> bj_kind r = ''session_end'' \<and> bj_status r = JobPending \<and>
     json_text (bj_payload r) ''session_id'' = Some sid)"

definition cancel_pending_session_end_jobs :: "instant \<Rightarrow> user_id \<Rightarrow> string \<Rightarrow> batch_job list \<Rightarrow> nat \<times> batch_job list" where
  "cancel_pending_session_end_jobs now u sid jobs =
     (length (filter (cancel_hit u sid) jobs),
      update_where (cancel_hit u sid)
        (\<lambda>r. r\<lparr>bj_status := JobDead, bj_finished := Some now,
               bj_error := Some (take 1000 ''cancelled: conversation purged''),
               bj_worker := None, bj_started := None\<rparr>) jobs)"

definition enqueue ::
  "handlers \<Rightarrow> instant \<Rightarrow> user_id \<Rightarrow> string \<Rightarrow> json_obj \<Rightarrow> instant option \<Rightarrow> batch_state
    \<Rightarrow> (batch_error + int) \<times> batch_state" where
  "enqueue hs now u kind payload run_after st =
     (case map_of hs kind of
        None \<Rightarrow> (Inl (UnknownKind kind), st)
      | Some h \<Rightarrow>
          (case bh_validate h payload of
             Inl m \<Rightarrow> (Inl (PayloadInvalid m), st)
           | Inr validated \<Rightarrow>
               (Inr (bs_next st),
                st\<lparr>bs_jobs := bs_jobs st @
                     [\<lparr>bj_id = bs_next st, bj_user = u, bj_kind = kind, bj_payload = validated,
                       bj_status = JobPending, bj_attempt = 0,
                       bj_run_after = (case run_after of None \<Rightarrow> now | Some t \<Rightarrow> t),
                       bj_enqueued = now, bj_started = None, bj_finished = None, bj_error = None,
                       bj_worker = None, bj_stage = None, bj_pct = None, bj_message = None\<rparr>],
                   bs_next := bs_next st + 1\<rparr>)))"

definition running_count :: "user_id \<Rightarrow> batch_job list \<Rightarrow> nat" where
  "running_count u jobs = length (filter (\<lambda>r. bj_user r = u \<and> bj_status r = JobRunning) jobs)"

definition claimable :: "int list \<Rightarrow> instant \<Rightarrow> int \<Rightarrow> batch_job list \<Rightarrow> batch_job \<Rightarrow> bool" where
  "claimable locked now cap jobs r =
     (bj_status r = JobPending \<and> bj_run_after r \<le> now \<and>
      int (running_count (bj_user r) jobs) < cap \<and> bj_id r \<notin> set locked)"

definition start_job :: "instant \<Rightarrow> string \<Rightarrow> batch_job \<Rightarrow> batch_job" where
  "start_job now w r = r\<lparr>bj_status := JobRunning, bj_started := Some now, bj_worker := Some w\<rparr>"

record claimed_job =
  cj_id :: int
  cj_user :: user_id
  cj_kind :: string
  cj_payload :: json_obj
  cj_attempt :: int
  cj_enqueued :: instant

definition job_claim_next ::
  "int list \<Rightarrow> instant \<Rightarrow> int \<Rightarrow> string \<Rightarrow> batch_job list \<Rightarrow> claimed_job option \<times> batch_job list" where
  "job_claim_next locked now cap w jobs =
     (case least_by bj_id (filter (claimable locked now cap jobs) jobs) of
        None \<Rightarrow> (None, jobs)
      | Some r \<Rightarrow>
          (Some \<lparr>cj_id = bj_id r, cj_user = bj_user r, cj_kind = bj_kind r, cj_payload = bj_payload r,
                 cj_attempt = bj_attempt r, cj_enqueued = bj_enqueued r\<rparr>,
           update_where (\<lambda>x. bj_id x = bj_id r) (start_job now w) jobs))"

definition complete :: "instant \<Rightarrow> int \<Rightarrow> batch_job list \<Rightarrow> batch_job list" where
  "complete now i jobs =
     update_where (\<lambda>r. bj_id r = i) (\<lambda>r. r\<lparr>bj_status := JobDone, bj_finished := Some now\<rparr>) jobs"

definition job_minute :: int where
  "job_minute = 60 * 1000000"

definition fail_job_row :: "instant \<Rightarrow> string \<Rightarrow> int \<Rightarrow> int \<Rightarrow> batch_job \<Rightarrow> batch_job" where
  "fail_job_row now err m backoff_minutes r =
     r\<lparr>bj_attempt := bj_attempt r + 1, bj_error := Some (take 1000 err),
       bj_status := (if bj_attempt r + 1 < m then JobPending else JobDead),
       bj_finished := (if bj_attempt r + 1 < m then None else Some now),
       bj_run_after := (if bj_attempt r + 1 < m then now + backoff_minutes * job_minute else bj_run_after r),
       bj_worker := None, bj_started := None\<rparr>"

definition fail_job_sql :: "instant \<Rightarrow> string \<Rightarrow> int \<Rightarrow> int \<Rightarrow> int \<Rightarrow> batch_job list \<Rightarrow> batch_job list" where
  "fail_job_sql now err m backoff_minutes i jobs =
     update_where (\<lambda>r. bj_id r = i \<and> bj_status r = JobRunning) (fail_job_row now err m backoff_minutes) jobs"

definition fail_job ::
  "instant \<Rightarrow> int \<Rightarrow> string \<Rightarrow> int \<Rightarrow> batch_state \<Rightarrow> (batch_error + unit) \<times> batch_state" where
  "fail_job now i err m st =
     (case find (\<lambda>r. bj_id r = i \<and> bj_status r = JobRunning) (bs_jobs st) of
        None \<Rightarrow> (Inr (), st)
      | Some r \<Rightarrow>
          let new_attempt = bj_attempt r + 1;
              st1 = st\<lparr>bs_jobs := fail_job_sql now err m (2 ^ nat new_attempt) i (bs_jobs st)\<rparr>
          in maybe_handle_ingest_job_failure i (bj_user r) (bj_kind r) new_attempt m err st1)"

definition stale_job :: "instant \<Rightarrow> int \<Rightarrow> batch_job \<Rightarrow> bool" where
  "stale_job now stuck_after r =
     (bj_status r = JobRunning \<and>
      (case bj_started r of None \<Rightarrow> False | Some t \<Rightarrow> t < now - stuck_after * 1000000))"

definition requeue_stuck :: "instant \<Rightarrow> int \<Rightarrow> int \<Rightarrow> batch_job list \<Rightarrow> batch_job list" where
  "requeue_stuck now stuck_after m jobs =
     update_where (\<lambda>r. stale_job now stuck_after r \<and> bj_attempt r < m)
       (\<lambda>r. r\<lparr>bj_status := JobPending, bj_worker := None, bj_started := None, bj_attempt := bj_attempt r + 1\<rparr>) jobs"

definition kill_stuck :: "instant \<Rightarrow> int \<Rightarrow> int \<Rightarrow> batch_job list \<Rightarrow> batch_job list" where
  "kill_stuck now stuck_after m jobs =
     update_where (\<lambda>r. stale_job now stuck_after r \<and> bj_attempt r \<ge> m)
       (\<lambda>r. r\<lparr>bj_status := JobDead, bj_finished := Some now\<rparr>) jobs"

definition reset_stuck :: "instant \<Rightarrow> instant \<Rightarrow> int \<Rightarrow> int \<Rightarrow> batch_job list \<Rightarrow> nat \<times> batch_job list" where
  "reset_stuck now1 now2 stuck_after m jobs =
     (let n1 = length (filter (\<lambda>r. stale_job now1 stuck_after r \<and> bj_attempt r < m) jobs);
          jobs1 = requeue_stuck now1 stuck_after m jobs;
          n2 = length (filter (\<lambda>r. stale_job now2 stuck_after r \<and> bj_attempt r \<ge> m) jobs1)
      in (n1 + n2, kill_stuck now2 stuck_after m jobs1))"

subsection \<open>One tick\<close>

definition lookup_error_repr :: "int \<Rightarrow> string" where
  "lookup_error_repr i = ''LookupError('' @ [char_of (39::nat)] @ ''ingest job not found: job_id='' @
     show_int i @ [char_of (39::nat)] @ '')''"

definition error_repr :: "batch_error \<Rightarrow> string" where
  "error_repr e = (case e of JobNotFound i \<Rightarrow> lookup_error_repr i | PayloadInvalid m \<Rightarrow> m | _ \<Rightarrow> [])"

record tick_env =
  tk_locked :: "int list"
  tk_cap :: int
  tk_max :: int
  tk_claim_now :: instant
  tk_end_now :: instant

definition finish_ingest :: "claimed_job \<Rightarrow> batch_state \<Rightarrow> string option \<times> batch_state" where
  "finish_ingest c st =
     (if cj_kind c = ''ingest_upload'' \<or> cj_kind c = ''ingest_watch_file''
      then (case mark_ingest_job_done (cj_id c) (cj_user c) st of
              (Inl e, st') \<Rightarrow> (Some (error_repr e), st') | (Inr _, st') \<Rightarrow> (None, st'))
      else (None, st))"

text \<open>The body of the \<open>try\<close>: validate, dispatch, mark ingest jobs done, complete.\<close>

definition dispatch_job ::
  "tick_env \<Rightarrow> batch_handler \<Rightarrow> claimed_job \<Rightarrow> batch_state \<Rightarrow> string option \<times> batch_state" where
  "dispatch_job env h c st =
     (case bh_validate h (cj_payload c) of
        Inl m \<Rightarrow> (Some m, st)
      | Inr model \<Rightarrow>
          let st1 = st\<lparr>bs_runs := bs_runs st @ [(cj_kind c, cj_user c, model, cj_id c)]\<rparr> in
          (case bh_run h (cj_user c) model (cj_id c) st1 of
             (Some m, st2) \<Rightarrow> (Some m, st2)
           | (None, st2) \<Rightarrow>
               (case finish_ingest c st2 of
                  (Some m, st3) \<Rightarrow> (Some m, st3)
                | (None, st3) \<Rightarrow> (None, st3\<lparr>bs_jobs := complete (tk_end_now env) (cj_id c) (bs_jobs st3)\<rparr>))))"

definition run_one_tick ::
  "tick_env \<Rightarrow> handlers \<Rightarrow> string \<Rightarrow> batch_state \<Rightarrow> (batch_error + bool) \<times> batch_state" where
  "run_one_tick env hs w st =
     (case job_claim_next (tk_locked env) (tk_claim_now env) (tk_cap env) w (bs_jobs st) of
        (None, jobs) \<Rightarrow> (Inr False, st\<lparr>bs_jobs := jobs\<rparr>)
      | (Some c, jobs) \<Rightarrow>
          let st1 = st\<lparr>bs_jobs := jobs\<rparr>;
              after = (\<lambda>(r, s). case r of Inl e \<Rightarrow> (Inl e, s) | Inr _ \<Rightarrow> (Inr True, s))
          in case map_of hs (cj_kind c) of
               None \<Rightarrow> after (fail_job (tk_end_now env) (cj_id c)
                          (''no handler registered for kind '' @ py_repr (cj_kind c)) (tk_max env) st1)
             | Some h \<Rightarrow>
                 (case dispatch_job env h c st1 of
                    (None, st2) \<Rightarrow> (Inr True, st2)
                  | (Some m, st2) \<Rightarrow> after (fail_job (tk_end_now env) (cj_id c) m (tk_max env) st2)))"

text \<open>
  \<open>_batch_tick\<close> of \<open>main.py\<close>: at most \<open>BATCH_QUEUE_TICK_DRAIN_LIMIT\<close> jobs, each with its own
  clock readings; an exception ends the drain.
\<close>

fun batch_tick :: "tick_env list \<Rightarrow> handlers \<Rightarrow> string \<Rightarrow> batch_state \<Rightarrow> batch_state" where
  "batch_tick [] hs w st = st"
| "batch_tick (env # envs) hs w st =
     (case run_one_tick env hs w st of
        (Inr True, st') \<Rightarrow> batch_tick envs hs w st'
      | (_, st') \<Rightarrow> st')"

subsection \<open>Any interleaving of statements\<close>

definition new_job :: "int \<Rightarrow> user_id \<Rightarrow> string \<Rightarrow> json_obj \<Rightarrow> instant \<Rightarrow> instant \<Rightarrow> batch_job" where
  "new_job i u kind payload run_after now =
     \<lparr>bj_id = i, bj_user = u, bj_kind = kind, bj_payload = payload, bj_status = JobPending,
      bj_attempt = 0, bj_run_after = run_after, bj_enqueued = now, bj_started = None,
      bj_finished = None, bj_error = None, bj_worker = None, bj_stage = None, bj_pct = None,
      bj_message = None\<rparr>"

inductive job_step :: "int \<Rightarrow> int \<Rightarrow> batch_job list \<Rightarrow> batch_job list \<Rightarrow> bool" for cap m where
  JobClaim: "job_step cap m jobs (snd (job_claim_next locked now cap w jobs))"
| JobComplete: "job_step cap m jobs (complete now i jobs)"
| JobFail: "job_step cap m jobs (fail_job_sql now err m b i jobs)"
| JobRequeue: "job_step cap m jobs (requeue_stuck now s m jobs)"
| JobKill: "job_step cap m jobs (kill_stuck now s m jobs)"
| JobCancel: "job_step cap m jobs (snd (cancel_pending_session_end_jobs now u sid jobs))"
| JobProgress: "job_step cap m jobs (update_where (\<lambda>r. bj_id r = i \<and> bj_user r = u) (set_progress stage pct msg) jobs)"
| JobEnqueue: "i \<notin> bj_id ` set jobs \<Longrightarrow> job_step cap m jobs (jobs @ [new_job i u kind payload ra now])"

definition job_bounded :: "int \<Rightarrow> batch_job \<Rightarrow> bool" where
  "job_bounded m r \<longleftrightarrow> bj_attempt r \<le> m + 1 \<and>
     (bj_status r = JobPending \<or> bj_status r = JobRunning \<longrightarrow> bj_attempt r \<le> m)"

definition jobs_good :: "int \<Rightarrow> int \<Rightarrow> batch_job list \<Rightarrow> bool" where
  "jobs_good cap m jobs \<longleftrightarrow> 0 \<le> m \<and> distinct (map bj_id jobs) \<and>
     (\<forall>u. int (running_count u jobs) \<le> max 0 cap) \<and> list_all (job_bounded m) jobs"

lemmas job_statement_defs = complete_def fail_job_sql_def requeue_stuck_def kill_stuck_def
  cancel_pending_session_end_jobs_def

lemma running_count_update:
  assumes "\<And>r. p r \<Longrightarrow> bj_user (f r) = bj_user r \<and> (bj_status (f r) = JobRunning \<longrightarrow> bj_status r = JobRunning)"
  shows "running_count u (update_where p f jobs) \<le> running_count u jobs"
  using assms by (induction jobs) (auto simp: running_count_def)

lemma start_job_simps [simp]:
  "bj_id (start_job now w r) = bj_id r" "bj_user (start_job now w r) = bj_user r"
  "bj_status (start_job now w r) = JobRunning" "bj_attempt (start_job now w r) = bj_attempt r"
  "bj_kind (start_job now w r) = bj_kind r" "bj_payload (start_job now w r) = bj_payload r"
  by (simp_all add: start_job_def)

lemma running_count_start:
  "distinct (map bj_id jobs) \<Longrightarrow>
    running_count u (update_where (\<lambda>x. bj_id x = bj_id r) (start_job now w) jobs) \<le>
      running_count u jobs + (if \<exists>x \<in> set jobs. bj_id x = bj_id r \<and> bj_user x = u then 1 else 0)"
proof (induction jobs)
  case Nil
  then show ?case by (simp add: running_count_def)
next
  case (Cons x jobs)
  show ?case
  proof (cases "bj_id x = bj_id r")
    case True
    with Cons.prems have "update_where (\<lambda>x. bj_id x = bj_id r) (start_job now w) jobs = jobs"
      by (force intro!: update_where_none)
    with True show ?thesis by (auto simp: running_count_def)
  next
    case False
    with Cons show ?thesis by (auto simp: running_count_def split: if_splits)
  qed
qed

lemma good_running_le:
  assumes "jobs_good cap m jobs" and "running_count u jobs' \<le> running_count u jobs"
  shows "int (running_count u jobs') \<le> max 0 cap"
proof -
  have "int (running_count u jobs) \<le> max 0 cap" using assms(1) by (simp add: jobs_good_def)
  with assms(2) show ?thesis by linarith
qed

lemma update_good:
  assumes "jobs_good cap m jobs"
    and "\<And>r. p r \<Longrightarrow> bj_id (f r) = bj_id r \<and> bj_user (f r) = bj_user r"
    and "\<And>r. p r \<Longrightarrow> bj_status (f r) = JobRunning \<Longrightarrow> bj_status r = JobRunning"
    and "\<And>r. p r \<Longrightarrow> job_bounded m r \<Longrightarrow> job_bounded m (f r)"
  shows "jobs_good cap m (update_where p f jobs)"
proof -
  have "map bj_id (update_where p f jobs) = map bj_id jobs"
    using assms(2) by (simp add: map_key_update_where)
  moreover have "int (running_count u (update_where p f jobs)) \<le> max 0 cap" for u
    by (rule good_running_le [OF assms(1)], rule running_count_update) (use assms(2,3) in blast)
  ultimately show ?thesis
    using assms(1,4) by (auto simp: jobs_good_def list_all_iff set_update_where)
qed

lemma claim_good:
  assumes "jobs_good cap m jobs"
  shows "jobs_good cap m (snd (job_claim_next locked now cap w jobs))"
proof (cases "least_by bj_id (filter (claimable locked now cap jobs) jobs)")
  case None
  with assms show ?thesis by (simp add: job_claim_next_def)
next
  case (Some r)
  let ?jobs' = "update_where (\<lambda>x. bj_id x = bj_id r) (start_job now w) jobs"
  have r: "r \<in> set jobs" "claimable locked now cap jobs r" using least_by_in [OF Some] by auto
  have dist: "distinct (map bj_id jobs)" using assms by (simp add: jobs_good_def)
  have only: "x = r" if "x \<in> set jobs" "bj_id x = bj_id r" for x
    using dist that r(1) by (simp add: distinct_map inj_on_def)
  have "int (running_count u ?jobs') \<le> max 0 cap" for u
  proof (cases "u = bj_user r")
    case True
    with r(2) running_count_start [OF dist, of u r now w] show ?thesis
      by (auto simp: claimable_def split: if_splits)
  next
    case False
    with only have "running_count u ?jobs' \<le> running_count u jobs"
      using running_count_start [OF dist, of u r now w] by (auto split: if_splits)
    with assms show ?thesis by (rule good_running_le)
  qed
  moreover have "map bj_id ?jobs' = map bj_id jobs"
    by (rule map_key_update_where) simp
  moreover have "list_all (job_bounded m) ?jobs'"
  proof -
    have "job_bounded m (start_job now w x)" if "x \<in> set jobs" "bj_id x = bj_id r" for x
      using only [OF that] r assms
      by (simp add: jobs_good_def list_all_iff job_bounded_def claimable_def)
    with assms show ?thesis by (auto simp: jobs_good_def list_all_iff set_update_where)
  qed
  ultimately show ?thesis using assms Some by (simp add: job_claim_next_def jobs_good_def)
qed

lemma job_step_good: "jobs_good cap m jobs \<Longrightarrow> job_step cap m jobs jobs' \<Longrightarrow> jobs_good cap m jobs'"
proof (erule job_step.cases, goal_cases)
  case (1 jobs locked now w)
  then show ?case by (simp add: claim_good)
next
  case (8 i jobs u kind payload ra now)
  then show ?case
    by (auto simp: jobs_good_def new_job_def running_count_def job_bounded_def)
qed (auto simp: job_statement_defs set_progress_def fail_job_row_def cancel_hit_def stale_job_def
      job_bounded_def intro!: update_good split: if_splits)

interpretation jobs: invariant_system "job_step cap m" "jobs_good cap m" for cap m
  by unfold_locales (rule job_step_good)

text \<open>
  C36. Fair concurrency and bounded attempts: from an empty queue, after any interleaving of
  claims, completions, failures, sweeps, cancellations, progress updates and enqueues, no
  user has more running jobs than the per-user limit, and no job that can still run has more
  failed attempts than the maximum.
\<close>

theorem per_user_concurrency_is_capped:
  assumes "(job_step cap m)\<^sup>*\<^sup>* [] jobs" and "0 \<le> cap" and "0 \<le> m"
  shows "int (length (filter (\<lambda>r. bj_user r = u \<and> bj_status r = JobRunning) jobs)) \<le> cap \<and>
    (\<forall>r \<in> set jobs. bj_attempt r \<le> m + 1 \<and>
       (bj_status r = JobPending \<or> bj_status r = JobRunning \<longrightarrow> bj_attempt r \<le> m))"
proof -
  have "jobs_good cap m []" using assms(3) by (simp add: jobs_good_def running_count_def)
  from jobs.reach_good [OF assms(1) this] have "jobs_good cap m jobs" .
  with assms(2) show ?thesis
    by (auto simp: jobs_good_def list_all_iff job_bounded_def running_count_def max_def)
qed

theorem per_user_concurrency_is_capped_witness:
  "length (filter (\<lambda>r. bj_user r = ''ann'' \<and> bj_status r = JobRunning)
     (snd (job_claim_next [] 5 1 ''w'' ([new_job 1 ''ann'' ''k'' [] 0 0])))) \<le> 1"
proof -
  have "(job_step 1 3)\<^sup>*\<^sup>* [] ([] @ [new_job 1 ''ann'' ''k'' [] 0 0])"
    by (rule r_into_rtranclp) (rule JobEnqueue, simp)
  then have "(job_step 1 3)\<^sup>*\<^sup>* [] (snd (job_claim_next [] 5 1 ''w'' ([] @ [new_job 1 ''ann'' ''k'' [] 0 0])))"
    by (rule rtranclp.rtrancl_into_rtrancl) (rule JobClaim)
  from per_user_concurrency_is_capped [OF this, of "''ann''"] show ?thesis by simp
qed

subsection \<open>One tick\<close>

lemma fail_job_row_simps [simp]:
  "bj_id (fail_job_row now err m b r) = bj_id r" "bj_user (fail_job_row now err m b r) = bj_user r"
  "bj_kind (fail_job_row now err m b r) = bj_kind r" "bj_attempt (fail_job_row now err m b r) = bj_attempt r + 1"
  "bj_status (fail_job_row now err m b r) = (if bj_attempt r + 1 < m then JobPending else JobDead)"
  by (simp_all add: fail_job_row_def)

lemma set_progress_simps [simp]:
  "bj_id (set_progress s p msg r) = bj_id r" "bj_user (set_progress s p msg r) = bj_user r"
  "bj_kind (set_progress s p msg r) = bj_kind r" "bj_status (set_progress s p msg r) = bj_status r"
  "bj_attempt (set_progress s p msg r) = bj_attempt r"
  by (simp_all add: set_progress_def)

definition failed_job :: "instant \<Rightarrow> string \<Rightarrow> int \<Rightarrow> batch_job \<Rightarrow> batch_job" where
  "failed_job now err m r = fail_job_row now err m (2 ^ nat (bj_attempt r + 1)) r"

text \<open>What a failure adds to the progress of an ingest or share job.\<close>

definition failure_progress :: "string \<Rightarrow> int \<Rightarrow> batch_job \<Rightarrow> batch_job" where
  "failure_progress err m r =
     (if bj_kind r \<notin> set ingest_job_kinds then r
      else if bj_attempt r < m then set_progress ''queued'' 0 None r
      else set_progress ''failed'' 100 (Some (or_ingest_failed (sanitize_error_message (Some err)))) r)"

definition done_progress :: "batch_job \<Rightarrow> batch_job" where
  "done_progress r = (if bj_kind r = ''ingest_upload'' \<or> bj_kind r = ''ingest_watch_file''
     then set_progress ''done'' 100 None r else r)"

lemma update_progress_find:
  assumes "distinct (map bj_id (bs_jobs st))" and "t_find bj_id i (bs_jobs st) = Some r" and "bj_user r = u"
    and "0 \<le> pct" and "pct \<le> 100"
  shows "\<exists>body st'. update_ingest_job_progress i u stage (Some pct) msg emit st = (Inr body, st') \<and>
    t_find bj_id i (bs_jobs st') = Some (set_progress stage pct msg r) \<and>
    (\<forall>j. j \<noteq> i \<longrightarrow> t_find bj_id j (bs_jobs st') = t_find bj_id j (bs_jobs st)) \<and>
    map bj_id (bs_jobs st') = map bj_id (bs_jobs st) \<and> bs_runs st' = bs_runs st"
proof -
  let ?p = "\<lambda>x. bj_id x = i \<and> bj_user x = u"
  have i: "bj_id r = i" using t_find_Some [OF assms(2)] by simp
  note up = t_find_update_row [OF assms(2), where p = ?p and f = "set_progress stage pct msg"]
  have "find ?p (bs_jobs st) = Some r" using assms by (simp add: find_by_key [where key = bj_id])
  moreover have "t_find bj_id i (update_where ?p (set_progress stage pct msg) (bs_jobs st)) = Some (set_progress stage pct msg r)"
    using assms(3) i by (intro up(1)) auto
  moreover have "t_find bj_id j (update_where ?p (set_progress stage pct msg) (bs_jobs st)) = t_find bj_id j (bs_jobs st)" if "j \<noteq> i" for j
    using assms(3) i that by (intro up(2)) auto
  moreover have "map bj_id (update_where ?p (set_progress stage pct msg) (bs_jobs st)) = map bj_id (bs_jobs st)"
    by (rule map_key_update_where) simp
  ultimately show ?thesis
    using assms(4,5) by (auto simp: update_ingest_job_progress_def Let_def)
qed

lemma fail_job_find:
  assumes "distinct (map bj_id (bs_jobs st))" and "t_find bj_id i (bs_jobs st) = Some r" and "bj_status r = JobRunning"
  shows "\<exists>st'. fail_job now i err m st = (Inr (), st') \<and>
    t_find bj_id i (bs_jobs st') = Some (failure_progress err m (failed_job now err m r)) \<and>
    (\<forall>j. j \<noteq> i \<longrightarrow> t_find bj_id j (bs_jobs st') = t_find bj_id j (bs_jobs st)) \<and>
    map bj_id (bs_jobs st') = map bj_id (bs_jobs st) \<and> bs_runs st' = bs_runs st"
proof -
  let ?jobs1 = "fail_job_sql now err m (2 ^ nat (bj_attempt r + 1)) i (bs_jobs st)"
  let ?st1 = "st\<lparr>bs_jobs := ?jobs1\<rparr>"
  have i: "bj_id r = i" using t_find_Some [OF assms(2)] by simp
  note up = t_find_update_row [OF assms(2), where p = "\<lambda>x. bj_id x = i \<and> bj_status x = JobRunning"
      and f = "fail_job_row now err m (2 ^ nat (bj_attempt r + 1))"]
  have one: "t_find bj_id i ?jobs1 = Some (failed_job now err m r)"
    unfolding fail_job_sql_def failed_job_def using assms(3) i by (intro up(1)) auto
  have others: "t_find bj_id j ?jobs1 = t_find bj_id j (bs_jobs st)" if "j \<noteq> i" for j
    unfolding fail_job_sql_def using assms(3) i that by (intro up(2)) auto
  have ids: "map bj_id ?jobs1 = map bj_id (bs_jobs st)"
    unfolding fail_job_sql_def by (rule map_key_update_where) simp
  have eq: "fail_job now i err m st =
      maybe_handle_ingest_job_failure i (bj_user r) (bj_kind r) (bj_attempt r + 1) m err ?st1"
    using assms by (simp add: fail_job_def Let_def find_by_key [where key = bj_id])
  have u: "bj_user (failed_job now err m r) = bj_user r" "bj_kind (failed_job now err m r) = bj_kind r"
    "bj_attempt (failed_job now err m r) = bj_attempt r + 1"
    by (simp_all add: failed_job_def)
  have up2: "\<exists>body st'. update_ingest_job_progress i (bj_user r) stage (Some pct) msg emit ?st1 = (Inr body, st') \<and>
      t_find bj_id i (bs_jobs st') = Some (set_progress stage pct msg (failed_job now err m r)) \<and>
      (\<forall>j. j \<noteq> i \<longrightarrow> t_find bj_id j (bs_jobs st') = t_find bj_id j (bs_jobs st)) \<and>
      map bj_id (bs_jobs st') = map bj_id (bs_jobs st) \<and> bs_runs st' = bs_runs st"
    if "0 \<le> pct" "pct \<le> 100" for stage pct msg emit
    using update_progress_find [of ?st1 i "failed_job now err m r" "bj_user r" pct stage msg emit]
      assms(1) one others ids u that by simp
  show ?thesis
  proof (cases "bj_kind r \<in> set ingest_job_kinds")
    case False
    with one others ids u show ?thesis
      by (simp add: eq maybe_handle_ingest_job_failure_def failure_progress_def)
  next
    case True
    have "map_of stage_progress_pct ''queued'' = Some 0" by (simp add: stage_progress_pct_def)
    with True up2 [of 0 "''queued''" None False]
      up2 [of 100 "''failed''" "Some (or_ingest_failed (sanitize_error_message (Some err)))" True] u
    show ?thesis
      by (auto simp: eq maybe_handle_ingest_job_failure_def failure_progress_def
          reset_ingest_job_progress_for_retry_def mark_ingest_job_failed_def)
  qed
qed

lemma claim_next_found:
  assumes "distinct (map bj_id jobs)" and "job_claim_next locked now cap w jobs = (Some c, jobs')"
  obtains r where "r \<in> set jobs" and "claimable locked now cap jobs r"
    and "\<forall>r' \<in> set jobs. claimable locked now cap jobs r' \<longrightarrow> bj_id r \<le> bj_id r'"
    and "c = \<lparr>cj_id = bj_id r, cj_user = bj_user r, cj_kind = bj_kind r, cj_payload = bj_payload r,
              cj_attempt = bj_attempt r, cj_enqueued = bj_enqueued r\<rparr>"
    and "t_find bj_id (bj_id r) jobs' = Some (start_job now w r)"
    and "\<forall>j. j \<noteq> bj_id r \<longrightarrow> t_find bj_id j jobs' = t_find bj_id j jobs"
    and "map bj_id jobs' = map bj_id jobs"
proof -
  obtain r where r: "least_by bj_id (filter (claimable locked now cap jobs) jobs) = Some r"
    using assms(2) by (auto simp: job_claim_next_def split: option.splits)
  have in_jobs: "r \<in> set jobs" "claimable locked now cap jobs r" using least_by_in [OF r] by auto
  note up = t_find_update_row [OF t_find_unique [OF assms(1) in_jobs(1)],
      where p = "\<lambda>x. bj_id x = bj_id r" and f = "start_job now w"]
  show ?thesis
  proof (rule that [of r])
    show "\<forall>r' \<in> set jobs. claimable locked now cap jobs r' \<longrightarrow> bj_id r \<le> bj_id r'"
      using least_by_Some [OF r] by auto
  qed (use in_jobs r assms(2) up in \<open>auto simp: job_claim_next_def\<close>)
qed

text \<open>A handler that returns: the row is marked done, with its progress for an ingest.\<close>

lemma dispatch_returns:
  assumes "distinct (map bj_id (bs_jobs st1))" and "t_find bj_id (cj_id c) (bs_jobs st1) = Some s"
    and "bj_user s = cj_user c" and "bj_kind s = cj_kind c"
    and "bh_validate h (cj_payload c) = Inr model"
    and "st1 = st\<lparr>bs_runs := bs_runs st @ [(cj_kind c, cj_user c, model, cj_id c)]\<rparr>"
    and "bh_run h (cj_user c) model (cj_id c) st1 = (None, st1)"
  shows "\<exists>st'. dispatch_job env h c st = (None, st') \<and> bs_runs st' = bs_runs st1 \<and>
    t_find bj_id (cj_id c) (bs_jobs st') =
      Some ((done_progress s)\<lparr>bj_status := JobDone, bj_finished := Some (tk_end_now env)\<rparr>) \<and>
    (\<forall>j. j \<noteq> cj_id c \<longrightarrow> t_find bj_id j (bs_jobs st') = t_find bj_id j (bs_jobs st1))"
proof -
  obtain st2 where st2: "finish_ingest c st1 = (None, st2)"
    "t_find bj_id (cj_id c) (bs_jobs st2) = Some (done_progress s)"
    "\<forall>j. j \<noteq> cj_id c \<longrightarrow> t_find bj_id j (bs_jobs st2) = t_find bj_id j (bs_jobs st1)" "bs_runs st2 = bs_runs st1"
  proof (cases "cj_kind c = ''ingest_upload'' \<or> cj_kind c = ''ingest_watch_file''")
    case True
    then show ?thesis
      using update_progress_find [OF assms(1-3), of 100 "''done''" None True] assms(4) that
      by (auto simp: finish_ingest_def mark_ingest_job_done_def done_progress_def)
  next
    case False
    with assms(2,4) that show ?thesis by (simp add: finish_ingest_def done_progress_def)
  qed
  have id: "bj_id (done_progress s) = cj_id c"
    using t_find_Some [OF assms(2)] by (simp add: done_progress_def)
  have fin: "t_find bj_id (cj_id c) (complete (tk_end_now env) (cj_id c) (bs_jobs st2)) =
      Some ((done_progress s)\<lparr>bj_status := JobDone, bj_finished := Some (tk_end_now env)\<rparr>)"
    "\<forall>j. j \<noteq> cj_id c \<longrightarrow> t_find bj_id j (complete (tk_end_now env) (cj_id c) (bs_jobs st2)) = t_find bj_id j (bs_jobs st2)"
    unfolding complete_def
    using t_find_update_row [OF st2(2), where p = "\<lambda>x. bj_id x = cj_id c"
        and f = "\<lambda>x. x\<lparr>bj_status := JobDone, bj_finished := Some (tk_end_now env)\<rparr>"] id by simp_all
  have "dispatch_job env h c st =
      (None, st2\<lparr>bs_jobs := complete (tk_end_now env) (cj_id c) (bs_jobs st2)\<rparr>)"
    using assms(5-7) st2(1) by (simp add: dispatch_job_def)
  with fin st2(3,4) show ?thesis by simp
qed

text \<open>
  A tick takes the oldest due job whose user is below the limit, dispatches it exactly
  once with its validated payload, and records what happened: a handler that returns makes
  the job done (with finished progress for an ingest), one that raises puts it through one
  failure (retry with backoff or dead, with the progress reset or failed). No other job is
  touched by the queue.
\<close>

theorem tick_dispatches_and_records:
  assumes "distinct (map bj_id (bs_jobs st))"
    and "job_claim_next (tk_locked env) (tk_claim_now env) (tk_cap env) w (bs_jobs st) = (Some c, jobs1)"
    and "map_of hs (cj_kind c) = Some h" and "bh_validate h (cj_payload c) = Inr model"
    and "st1 = st\<lparr>bs_jobs := jobs1, bs_runs := bs_runs st @ [(cj_kind c, cj_user c, model, cj_id c)]\<rparr>"
    and "bh_run h (cj_user c) model (cj_id c) st1 = (out, st1)"
  shows "\<exists>r st'. r \<in> set (bs_jobs st) \<and> bj_id r = cj_id c \<and>
    claimable (tk_locked env) (tk_claim_now env) (tk_cap env) (bs_jobs st) r \<and>
    run_one_tick env hs w st = (Inr True, st') \<and> bs_runs st' = bs_runs st1 \<and>
    t_find bj_id (cj_id c) (bs_jobs st') = Some
      (case out of
         None \<Rightarrow> (done_progress (start_job (tk_claim_now env) w r))
                   \<lparr>bj_status := JobDone, bj_finished := Some (tk_end_now env)\<rparr>
       | Some err \<Rightarrow> failure_progress err (tk_max env)
                   (failed_job (tk_end_now env) err (tk_max env) (start_job (tk_claim_now env) w r))) \<and>
    (\<forall>j. j \<noteq> cj_id c \<longrightarrow> t_find bj_id j (bs_jobs st') = t_find bj_id j (bs_jobs st))"
proof -
  obtain r where r: "r \<in> set (bs_jobs st)" "claimable (tk_locked env) (tk_claim_now env) (tk_cap env) (bs_jobs st) r"
    "\<forall>r' \<in> set (bs_jobs st). claimable (tk_locked env) (tk_claim_now env) (tk_cap env) (bs_jobs st) r' \<longrightarrow> bj_id r \<le> bj_id r'"
    "c = \<lparr>cj_id = bj_id r, cj_user = bj_user r, cj_kind = bj_kind r, cj_payload = bj_payload r,
          cj_attempt = bj_attempt r, cj_enqueued = bj_enqueued r\<rparr>"
    "t_find bj_id (bj_id r) jobs1 = Some (start_job (tk_claim_now env) w r)"
    "\<forall>j. j \<noteq> bj_id r \<longrightarrow> t_find bj_id j jobs1 = t_find bj_id j (bs_jobs st)"
    "map bj_id jobs1 = map bj_id (bs_jobs st)"
    by (rule claim_next_found [OF assms(1,2)])
  let ?s = "start_job (tk_claim_now env) w r"
  have d1: "distinct (map bj_id (bs_jobs st1))" using assms(1,5) r(7) by simp
  have f1: "t_find bj_id (bj_id r) (bs_jobs st1) = Some ?s" using assms(5) r(5) by simp
  show ?thesis
  proof (cases out)
    case (Some err)
    obtain st' where "fail_job (tk_end_now env) (bj_id r) err (tk_max env) st1 = (Inr (), st')"
      "t_find bj_id (bj_id r) (bs_jobs st') = Some (failure_progress err (tk_max env) (failed_job (tk_end_now env) err (tk_max env) ?s))"
      "\<forall>j. j \<noteq> bj_id r \<longrightarrow> t_find bj_id j (bs_jobs st') = t_find bj_id j (bs_jobs st1)" "bs_runs st' = bs_runs st1"
      using fail_job_find [OF d1 f1, of "tk_end_now env" err "tk_max env"] by auto
    with Some assms r show ?thesis
      by (auto simp: run_one_tick_def dispatch_job_def Let_def)
  next
    case None
    have "bj_user ?s = cj_user c" "bj_kind ?s = cj_kind c" "cj_id c = bj_id r" using r(4) by simp_all
    moreover from this have "t_find bj_id (cj_id c) (bs_jobs st1) = Some ?s" using f1 by simp
    ultimately obtain st' where st': "dispatch_job env h c (st\<lparr>bs_jobs := jobs1\<rparr>) = (None, st')"
      "bs_runs st' = bs_runs st1" "t_find bj_id (cj_id c) (bs_jobs st') =
        Some ((done_progress ?s)\<lparr>bj_status := JobDone, bj_finished := Some (tk_end_now env)\<rparr>)"
      "\<forall>j. j \<noteq> cj_id c \<longrightarrow> t_find bj_id j (bs_jobs st') = t_find bj_id j (bs_jobs st1)"
      using dispatch_returns [OF d1 _ _ _ assms(4), where s = ?s and st = "st\<lparr>bs_jobs := jobs1\<rparr>" and env = env] assms(5,6) None by auto
    moreover have "run_one_tick env hs w st = (Inr True, st')"
      using assms(2,3) st'(1) by (simp add: run_one_tick_def)
    ultimately show ?thesis using None r(1,2,4,6) assms(5) by auto
  qed
qed

definition sample_handler :: "string option \<Rightarrow> batch_handler" where
  "sample_handler out = \<lparr>bh_validate = Inr, bh_run = (\<lambda>u p i st. (out, st))\<rparr>"

definition sample_batch :: batch_state where
  "sample_batch = \<lparr>bs_jobs = [new_job 1 ''ann'' ''ingest_upload'' [] 0 0], bs_next = 2, bs_events = [], bs_runs = []\<rparr>"

definition sample_tick :: tick_env where
  "sample_tick = \<lparr>tk_locked = [], tk_cap = 2, tk_max = 3, tk_claim_now = 5, tk_end_now = 6\<rparr>"

lemma new_job_simps [simp]:
  "bj_id (new_job i u k p ra now) = i" "bj_user (new_job i u k p ra now) = u"
  "bj_kind (new_job i u k p ra now) = k" "bj_payload (new_job i u k p ra now) = p"
  "bj_status (new_job i u k p ra now) = JobPending" "bj_attempt (new_job i u k p ra now) = 0"
  "bj_run_after (new_job i u k p ra now) = ra" "bj_enqueued (new_job i u k p ra now) = now"
  by (simp_all add: new_job_def)

lemma sample_claim:
  "job_claim_next [] 5 2 ''w'' (bs_jobs sample_batch) =
    (Some \<lparr>cj_id = 1, cj_user = ''ann'', cj_kind = ''ingest_upload'', cj_payload = [], cj_attempt = 0, cj_enqueued = 0\<rparr>,
     [start_job 5 ''w'' (new_job 1 ''ann'' ''ingest_upload'' [] 0 0)])"
  by (simp add: job_claim_next_def sample_batch_def claimable_def running_count_def)

theorem tick_dispatches_and_records_witness:
  "\<exists>st' r. run_one_tick sample_tick [(''ingest_upload'', sample_handler None)] ''w'' sample_batch = (Inr True, st') \<and>
     t_find bj_id 1 (bs_jobs st') = Some r \<and> bj_status r = JobDone \<and> bj_stage r = Some ''done''"
proof -
  have "distinct (map bj_id (bs_jobs sample_batch))" by (simp add: sample_batch_def)
  from tick_dispatches_and_records [OF this, of sample_tick "''w''", simplified sample_tick_def tick_env.simps, OF sample_claim,
      of "[(''ingest_upload'', sample_handler None)]" "sample_handler None", OF _ _ refl, of "[]" None]
  show ?thesis
    by (auto simp: sample_handler_def sample_tick_def sample_batch_def done_progress_def set_progress_def)
qed

subsection \<open>Retries\<close>

interpretation job_retry: retry_ledger bj_attempt "\<lambda>r. bj_status r = JobPending" "\<lambda>r. bj_status r = JobDead"
  "start_job now w" "failed_job fnow err" for now w fnow err
  by unfold_locales (simp_all add: failed_job_def)

text \<open>
  C0. A job that keeps failing is retried until its \<open>m\<close>-th failure and is dead then: after
  \<open>n\<close> rounds of claim and failure its attempt counter is \<open>n\<close>, it is pending while \<open>n < m\<close>
  and dead at \<open>n = m\<close>.
\<close>

theorem job_dies_after_max_attempts:
  assumes "bj_attempt r = 0" and "0 < n" and "int n \<le> m"
  shows "bj_attempt (((\<lambda>r. failed_job fnow err m (start_job now w r)) ^^ n) r) = int n \<and>
    bj_status (((\<lambda>r. failed_job fnow err m (start_job now w r)) ^^ n) r) = (if int n < m then JobPending else JobDead)"
proof -
  obtain k where k: "n = Suc k" using assms(2) by (cases n) auto
  show ?thesis
    using assms k job_retry.attempts_rounds [where n = n and r = r and m = m and fnow = fnow and err = err and now = now and w = w]
      job_retry.rounds_queued [where n = k and r = r and m = m and fnow = fnow and err = err and now = now and w = w]
      job_retry.rounds_dead [where n = k and r = r and m = m and fnow = fnow and err = err and now = now and w = w]
    by auto
qed

theorem job_dies_after_max_attempts_witness:
  "bj_status (((\<lambda>r. failed_job 9 ''boom'' 3 (start_job 8 ''w'' r)) ^^ 3) (new_job 1 ''ann'' ''k'' [] 0 0)) = JobDead"
  using job_dies_after_max_attempts [of "new_job 1 ''ann'' ''k'' [] 0 0" 3 3 9 "''boom''" 8 "''w''"] by simp

subsection \<open>Sweeps\<close>

lemma sweep_as_map:
  "snd (reset_stuck now now s m jobs) = map (\<lambda>r.
    if stale_job now s r then (if bj_attempt r < m
        then r\<lparr>bj_status := JobPending, bj_worker := None, bj_started := None, bj_attempt := bj_attempt r + 1\<rparr>
        else r\<lparr>bj_status := JobDead, bj_finished := Some now\<rparr>) else r) jobs"
  by (induction jobs) (auto simp: reset_stuck_def Let_def requeue_stuck_def kill_stuck_def stale_job_def)

text \<open>
  The sweep gives every stale running job exactly one new state (pending with one more
  attempt below the maximum, dead at it), touches nothing else, counts them, and leaves no
  stale running job: at start-up, with a limit of zero, no orphan of the previous process
  keeps occupying its user's slots.
\<close>

theorem stuck_jobs_are_released:
  "snd (reset_stuck now now s m jobs) = map (\<lambda>r.
     if bj_status r = JobRunning \<and> (\<exists>t. bj_started r = Some t \<and> t < now - s * 1000000)
     then (if bj_attempt r < m
           then r\<lparr>bj_status := JobPending, bj_worker := None, bj_started := None, bj_attempt := bj_attempt r + 1\<rparr>
           else r\<lparr>bj_status := JobDead, bj_finished := Some now\<rparr>)
     else r) jobs \<and>
   fst (reset_stuck now now s m jobs) = length (filter (stale_job now s) jobs) \<and>
   filter (stale_job now s) (snd (reset_stuck now now s m jobs)) = []"
proof -
  have st: "stale_job now s r = (bj_status r = JobRunning \<and> (\<exists>t. bj_started r = Some t \<and> t < now - s * 1000000))" for r
    by (auto simp: stale_job_def split: option.splits)
  have map: "snd (reset_stuck now now s m jobs) = map (\<lambda>r.
    if stale_job now s r then (if bj_attempt r < m
        then r\<lparr>bj_status := JobPending, bj_worker := None, bj_started := None, bj_attempt := bj_attempt r + 1\<rparr>
        else r\<lparr>bj_status := JobDead, bj_finished := Some now\<rparr>) else r) jobs"
    by (rule sweep_as_map)
  have "fst (reset_stuck now now s m jobs) = length (filter (stale_job now s) jobs)"
    by (induction jobs) (auto simp: reset_stuck_def Let_def requeue_stuck_def stale_job_def)
  moreover have "filter (stale_job now s) (snd (reset_stuck now now s m jobs)) = []"
    unfolding map by (auto simp: filter_empty_conv stale_job_def)
  ultimately show ?thesis by (simp add: map st [symmetric])
qed

subsection \<open>Cancellation\<close>

text \<open>
  Cancelling the session-end jobs of a purged conversation kills exactly this user's
  pending ones for it, so none is left pending; but a job that is running at that moment is
  not touched, and when it then fails below the attempt limit it is pending again, with the
  same payload: the purge can still be followed by a run of the job it cancelled.
\<close>

theorem cancel_misses_running_jobs:
  assumes "distinct (map bj_id jobs)" and "t_find bj_id i jobs = Some r" and "bj_user r = u"
    and "bj_kind r = ''session_end''" and "json_text (bj_payload r) ''session_id'' = Some sid"
    and "bj_status r = JobRunning" and "bj_attempt r + 1 < m"
  shows "(\<forall>r' \<in> set (snd (cancel_pending_session_end_jobs now u sid jobs)). \<not> cancel_hit u sid r') \<and>
    (\<exists>r'. t_find bj_id i (fail_job_sql now2 err m b i (snd (cancel_pending_session_end_jobs now u sid jobs))) = Some r' \<and>
       cancel_hit u sid r' \<and> bj_payload r' = bj_payload r)"
proof -
  let ?f = "\<lambda>r. r\<lparr>bj_status := JobDead, bj_finished := Some now, bj_error := Some (take 1000 ''cancelled: conversation purged''),
               bj_worker := None, bj_started := None\<rparr>"
  have s: "snd (cancel_pending_session_end_jobs now u sid jobs) = update_where (cancel_hit u sid) ?f jobs"
    by (simp add: cancel_pending_session_end_jobs_def)
  have "t_find bj_id i (update_where (cancel_hit u sid) ?f jobs) = Some r"
    using assms(2,6) by (subst t_find_update_where) (simp_all add: cancel_hit_def)
  from t_find_update_row(1) [OF this, where p = "\<lambda>x. bj_id x = i \<and> bj_status x = JobRunning" and f = "fail_job_row now2 err m b"]
  have "t_find bj_id i (fail_job_sql now2 err m b i (update_where (cancel_hit u sid) ?f jobs)) = Some (fail_job_row now2 err m b r)"
    using assms(6) t_find_Some [OF assms(2)] by (simp add: fail_job_sql_def)
  moreover have "cancel_hit u sid (fail_job_row now2 err m b r)"
    using assms(3-5,7) by (simp add: cancel_hit_def fail_job_row_def)
  moreover have "bj_payload (fail_job_row now2 err m b r) = bj_payload r"
    by (simp add: fail_job_row_def)
  ultimately show ?thesis unfolding s by (auto simp: set_update_where) (simp add: cancel_hit_def)
qed

theorem cancel_misses_running_jobs_witness:
  "\<exists>r'. t_find bj_id 1 (fail_job_sql 9 ''boom'' 3 2 1 (snd (cancel_pending_session_end_jobs 8 ''ann'' ''s1''
      [start_job 5 ''w'' (new_job 1 ''ann'' ''session_end'' [(''session_id'', JStr ''s1'')] 0 0)]))) = Some r' \<and>
    cancel_hit ''ann'' ''s1'' r'"
proof -
  let ?r = "start_job 5 ''w'' (new_job 1 ''ann'' ''session_end'' [(''session_id'', JStr ''s1'')] 0 0)"
  have "distinct (map bj_id [?r])" "t_find bj_id 1 [?r] = Some ?r" "bj_user ?r = ''ann''"
    "bj_kind ?r = ''session_end''" "json_text (bj_payload ?r) ''session_id'' = Some ''s1''"
    "bj_status ?r = JobRunning" "bj_attempt ?r + 1 < 3"
    by (simp_all add: t_find_Cons json_text_def)
  from cancel_misses_running_jobs [OF this, THEN conjunct2] show ?thesis by blast
qed

text \<open>
  Completion is unconditional: whatever a sweep or another claim made of the job meanwhile,
  the row becomes done, and a later failure report for it is ignored.
\<close>

lemma completion_wins:
  assumes "t_find bj_id i jobs = Some r"
  shows "t_find bj_id i (complete now i jobs) = Some (r\<lparr>bj_status := JobDone, bj_finished := Some now\<rparr>)"
    and "fail_job_sql now2 err m b i (complete now i jobs) = complete now i jobs"
proof -
  show "t_find bj_id i (complete now i jobs) = Some (r\<lparr>bj_status := JobDone, bj_finished := Some now\<rparr>)"
    unfolding complete_def
    using t_find_update_row(1) [OF assms, where p = "\<lambda>x. bj_id x = i"
        and f = "\<lambda>r. r\<lparr>bj_status := JobDone, bj_finished := Some now\<rparr>"] t_find_Some [OF assms] by simp
  show "fail_job_sql now2 err m b i (complete now i jobs) = complete now i jobs"
    unfolding fail_job_sql_def complete_def by (induction jobs) simp_all
qed

end
