(* ===== verification/AuthSessions.thy ===== *)
theory AuthSessions
  imports Prelude
begin

section \<open>Browser sessions: refresh rotation and revocation\<close>

text \<open>
  Models \<open>orchestrator/services/auth_sessions.py\<close> over table \<open>auth_sessions\<close> (migration 023)
  and the revocation checks of \<open>orchestrator/auth.py\<close> with their two caches. SHA-256 and the
  minting of refresh tokens are parameters (\<open>hash\<close>, \<open>mint\<close>), as are the new ids and the
  clock; the two caches and the table are read against the same clock. \<open>rotate_refresh\<close> is
  given both as a whole and as its two halves, the checks and the transaction, between
  which other requests can run.
\<close>

subsection \<open>The bounded cache with expiry\<close>

text \<open>
  \<open>_TTLVersionLRU\<close> and \<open>_TTLSidLRU\<close> are one class up to the type of the value: an ordered
  dictionary, least recently used first.
\<close>

type_synonym 'v lru = "(string \<times> 'v \<times> instant) list"

definition lru_pop :: "string \<Rightarrow> 'v lru \<Rightarrow> 'v lru" where
  "lru_pop k d = filter (\<lambda>e. fst e \<noteq> k) d"

definition lru_get_fresh :: "instant \<Rightarrow> int \<Rightarrow> string \<Rightarrow> 'v lru \<Rightarrow> 'v option \<times> 'v lru" where
  "lru_get_fresh now ttl k d =
     (if ttl \<le> 0 then (None, d)
      else case map_of d k of
        None \<Rightarrow> (None, d)
      | Some (v, ts) \<Rightarrow>
          if now - ts > ttl * 1000000 then (None, lru_pop k d)
          else (Some v, lru_pop k d @ [(k, v, ts)]))"

definition lru_put :: "nat \<Rightarrow> instant \<Rightarrow> string \<Rightarrow> 'v \<Rightarrow> 'v lru \<Rightarrow> 'v lru" where
  "lru_put maxsize now k v d =
     (let d' = lru_pop k d @ [(k, v, now)] in drop (length d' - maxsize) d')"

definition lru_invalidate :: "string \<Rightarrow> 'v lru \<Rightarrow> 'v lru" where
  "lru_invalidate k d = lru_pop k d"

definition token_ver_cache_max :: nat where
  "token_ver_cache_max = 4096"

subsection \<open>Rows and state\<close>

record auth_session =
  as_id :: string
  as_user :: user_id
  as_family :: string
  as_hash :: string
  as_created :: instant
  as_last_used :: "instant option"
  as_expires :: instant
  as_revoked :: "instant option"
  as_device :: string
  as_ip :: string
  as_ua :: string

record session_audit =
  sa_action :: string
  sa_user :: user_id
  sa_input :: json_obj
  sa_result :: json_obj

record auth_state =
  sessions :: "auth_session list"
  users :: "(user_id \<times> int) list"
  sid_cache :: "bool lru"
  tv_cache :: "int lru"
  session_audits :: "session_audit list"
  app_settings :: "(string \<times> string) list"
  salt_cached :: "string option"

datatype refresh_error = RefreshInvalid | RefreshReused | DuplicateSession | UserMissing | SaltNotPersisted

record token_env =
  te_hash :: "string \<Rightarrow> string"
  te_mint :: "user_id \<Rightarrow> string \<Rightarrow> string"

definition emit_audit :: "string \<Rightarrow> user_id \<Rightarrow> json_obj \<Rightarrow> json_obj \<Rightarrow> auth_state \<Rightarrow> auth_state" where
  "emit_audit action u inp res st = st\<lparr>session_audits := session_audits st @
     [\<lparr>sa_action = action, sa_user = u, sa_input = inp, sa_result = res\<rparr>]\<rparr>"

definition invalidate_sid_cache :: "string \<Rightarrow> auth_state \<Rightarrow> auth_state" where
  "invalidate_sid_cache sid st = st\<lparr>sid_cache := lru_invalidate sid (sid_cache st)\<rparr>"

definition invalidate_token_version_cache :: "user_id \<Rightarrow> auth_state \<Rightarrow> auth_state" where
  "invalidate_token_version_cache u st = st\<lparr>tv_cache := lru_invalidate u (tv_cache st)\<rparr>"

definition settings_key_instance_salt :: string where
  "settings_key_instance_salt = ''lumogis.sessions.instance_salt''"

definition ensure_instance_salt :: "string \<Rightarrow> auth_state \<Rightarrow> (refresh_error + string) \<times> auth_state" where
  "ensure_instance_salt fresh st =
     (case (case salt_cached st of None \<Rightarrow> None | Some s \<Rightarrow> if s = [] then None else Some s) of
        Some s \<Rightarrow> (Inr s, st)
      | None \<Rightarrow>
          (case map_of (app_settings st) settings_key_instance_salt of
             Some v \<Rightarrow> if v \<noteq> [] then (Inr v, st\<lparr>salt_cached := Some v\<rparr>) else (Inl SaltNotPersisted, st)
           | None \<Rightarrow> (Inr fresh, st\<lparr>app_settings := app_settings st @ [(settings_key_instance_salt, fresh)],
                               salt_cached := Some fresh\<rparr>)))"

text \<open>\<open>re.sub(r"\s+", " ", s)\<close>\<close>

fun collapse_ws :: "bool \<Rightarrow> string \<Rightarrow> string" where
  "collapse_ws prev [] = []"
| "collapse_ws prev (c # cs) =
     (if py_space c then (if prev then collapse_ws True cs else CHR '' '' # collapse_ws True cs)
      else c # collapse_ws False cs)"

definition compute_device_label :: "string \<Rightarrow> string \<Rightarrow> string" where
  "compute_device_label user_agent stamp =
     (let collapsed = collapse_ws False (take 256 (py_strip user_agent));
          low = py_lower collapsed;
          base = (if collapsed = [] then ''Unknown client''
                  else if list_ex (\<lambda>m. is_infix_of m low) [''mobile'', ''android'', ''iphone'', ''ipad'', ''ipod'']
                  then ''Mobile'' else ''Desktop'')
      in base @ [CHR '' '', char_of (183::nat), CHR '' ''] @ stamp)"

subsection \<open>Sessions\<close>

definition new_session :: "string \<Rightarrow> user_id \<Rightarrow> string \<Rightarrow> string \<Rightarrow> instant \<Rightarrow> instant \<Rightarrow> string \<Rightarrow> string \<Rightarrow> string \<Rightarrow> auth_session" where
  "new_session i u fam h created expires dev ip ua =
     \<lparr>as_id = i, as_user = u, as_family = fam, as_hash = h, as_created = created, as_last_used = None,
      as_expires = expires, as_revoked = None, as_device = dev, as_ip = ip, as_ua = ua\<rparr>"

definition insert_login_session ::
  "token_env \<Rightarrow> instant \<Rightarrow> string \<Rightarrow> user_id \<Rightarrow> string \<Rightarrow> instant \<Rightarrow> string \<Rightarrow> string \<Rightarrow> string \<Rightarrow> auth_state
    \<Rightarrow> (refresh_error + string) \<times> auth_state" where
  "insert_login_session env now sid u jwt expires dev ip ua st =
     (if sid \<in> as_id ` set (sessions st) then (Inl DuplicateSession, st)
      else (Inr sid, emit_audit ''__session__.minted'' u
              [(''session_id'', JStr sid), (''user_id'', JStr u)] [(''family_id'', JStr sid)]
              (st\<lparr>sessions := sessions st @ [new_session sid u sid (te_hash env jwt) now expires dev ip ua]\<rparr>)))"

definition find_session :: "string \<Rightarrow> user_id \<Rightarrow> auth_state \<Rightarrow> auth_session option" where
  "find_session sid u st = find (\<lambda>r. as_id r = sid \<and> as_user r = u) (sessions st)"

definition is_session_revoked :: "string \<Rightarrow> user_id \<Rightarrow> auth_state \<Rightarrow> bool" where
  "is_session_revoked sid u st =
     (case find_session sid u st of None \<Rightarrow> True | Some r \<Rightarrow> as_revoked r \<noteq> None)"

definition revoke_where :: "instant \<Rightarrow> (auth_session \<Rightarrow> bool) \<Rightarrow> auth_session list \<Rightarrow> auth_session list" where
  "revoke_where now p rows = update_where (\<lambda>r. p r \<and> as_revoked r = None) (\<lambda>r. r\<lparr>as_revoked := Some now\<rparr>) rows"

definition revoked_at_json :: "instant option \<Rightarrow> json" where
  "revoked_at_json t = (case t of None \<Rightarrow> JNull | Some n \<Rightarrow> JInt n)"

definition handle_reuse :: "instant \<Rightarrow> auth_session \<Rightarrow> auth_state \<Rightarrow> auth_state" where
  "handle_reuse now sess st =
     (let hit = filter (\<lambda>r. as_family r = as_family sess \<and> as_revoked r = None) (sessions st);
          st1 = st\<lparr>sessions := revoke_where now (\<lambda>r. as_family r = as_family sess) (sessions st)\<rparr>;
          st2 = fold (\<lambda>r. invalidate_sid_cache (as_id r)) hit st1;
          st3 = emit_audit ''__session__.reuse_detected'' (as_user sess)
                  [(''user_id'', JStr (as_user sess)), (''family_id'', JStr (as_family sess)), (''presented_jti'', JStr (as_id sess))]
                  [(''revoked_session_count'', JInt (int (length hit)))] st2
      in fold (\<lambda>r. emit_audit ''__session__.cascade_revoked'' (as_user sess)
                [(''session_id'', JStr (as_id r)), (''reason'', JStr ''__session__.reuse_detected'')]
                [(''revoked_at'', revoked_at_json (Some now))]) hit st3)"

text \<open>
  The checks of \<open>rotate_refresh\<close>. \<open>Inr\<close> is the session that may be rotated and the user's
  token version.
\<close>

definition rotate_check ::
  "token_env \<Rightarrow> instant \<Rightarrow> user_id \<Rightarrow> string \<Rightarrow> string \<Rightarrow> auth_state \<Rightarrow> (refresh_error + auth_session \<times> int) \<times> auth_state" where
  "rotate_check env now u jti jwt st =
     (case find_session jti u st of
        None \<Rightarrow> (Inl RefreshInvalid, st)
      | Some sess \<Rightarrow>
          let presented = te_hash env jwt in
          if as_revoked sess \<noteq> None then
            (if presented \<noteq> as_hash sess then (Inl RefreshInvalid, st)
             else (Inl RefreshReused, handle_reuse now sess st))
          else if as_expires sess < now then (Inl RefreshInvalid, st)
          else if presented \<noteq> as_hash sess then (Inl RefreshInvalid, st)
          else case map_of (users st) u of
            None \<Rightarrow> (Inl RefreshInvalid, st)
          | Some tv \<Rightarrow> (Inr (sess, tv), st))"

text \<open>The transaction: insert the successor, revoke the old row if it is still active.\<close>

definition rotate_commit ::
  "token_env \<Rightarrow> instant \<Rightarrow> int \<Rightarrow> string \<Rightarrow> auth_session \<times> int \<Rightarrow> auth_state
    \<Rightarrow> (refresh_error + string \<times> string \<times> int) \<times> auth_state" where
  "rotate_commit env now ttl new_id plan st =
     (case plan of (sess, tv) \<Rightarrow>
        let new_refresh = te_mint env (as_user sess) new_id;
            row = new_session new_id (as_user sess) (as_family sess) (te_hash env new_refresh) now
                    (now + ttl * 1000000) (as_device sess) (as_ip sess) (as_ua sess)
        in if new_id \<in> as_id ` set (sessions st) then (Inl DuplicateSession, st)
           else (Inr (new_id, new_refresh, tv),
                 invalidate_sid_cache (as_id sess)
                   (st\<lparr>sessions := revoke_where now (\<lambda>r. as_id r = as_id sess) (sessions st @ [row])\<rparr>)))"

definition rotate_refresh ::
  "token_env \<Rightarrow> instant \<Rightarrow> int \<Rightarrow> string \<Rightarrow> user_id \<Rightarrow> string \<Rightarrow> string \<Rightarrow> auth_state
    \<Rightarrow> (refresh_error + string \<times> string \<times> int) \<times> auth_state" where
  "rotate_refresh env now ttl new_id u jti jwt st =
     (case rotate_check env now u jti jwt st of
        (Inl e, st1) \<Rightarrow> (Inl e, st1)
      | (Inr plan, st1) \<Rightarrow> rotate_commit env now ttl new_id plan st1)"

definition revoke_one ::
  "instant \<Rightarrow> string \<Rightarrow> user_id \<Rightarrow> (auth_session \<Rightarrow> auth_state \<Rightarrow> auth_state) \<Rightarrow> auth_state
    \<Rightarrow> auth_session option \<times> auth_state" where
  "revoke_one now sid owner audit_it st =
     (case find_session sid owner st of
        None \<Rightarrow> (None, st)
      | Some r \<Rightarrow>
          if as_revoked r \<noteq> None then (Some r, st)
          else
            let st1 = invalidate_sid_cache sid (st\<lparr>sessions := revoke_where now (\<lambda>x. as_id x = sid) (sessions st)\<rparr>)
            in case find (\<lambda>x. as_id x = sid) (sessions st1) of
                 None \<Rightarrow> (None, st1)
               | Some r2 \<Rightarrow> (Some r2, audit_it r2 st1))"

definition revoke_session_for_user :: "instant \<Rightarrow> string \<Rightarrow> user_id \<Rightarrow> auth_state \<Rightarrow> auth_session option \<times> auth_state" where
  "revoke_session_for_user now sid u st =
     revoke_one now sid u (\<lambda>r2. emit_audit ''__session__.revoked'' u
       [(''session_id'', JStr sid), (''user_id'', JStr u)] [(''revoked_at'', revoked_at_json (as_revoked r2))]) st"

definition revoke_session_admin :: "instant \<Rightarrow> user_id \<Rightarrow> string \<Rightarrow> user_id \<Rightarrow> auth_state \<Rightarrow> auth_session option \<times> auth_state" where
  "revoke_session_admin now target sid admin st =
     revoke_one now sid target (\<lambda>r2. emit_audit ''__session__.admin_revoked'' admin
       [(''session_id'', JStr sid), (''target_user_id'', JStr target)] [(''revoked_at'', revoked_at_json (as_revoked r2))]) st"

definition bump_version :: "user_id \<Rightarrow> (user_id \<times> int) list \<Rightarrow> (user_id \<times> int) list" where
  "bump_version u us = map (\<lambda>(k, v). if k = u then (k, v + 1) else (k, v)) us"

definition bump_token_version_and_revoke_all_sessions ::
  "instant \<Rightarrow> user_id \<Rightarrow> user_id \<Rightarrow> auth_state \<Rightarrow> (refresh_error + int) \<times> auth_state" where
  "bump_token_version_and_revoke_all_sessions now u actor st =
     (case map_of (users st) u of
        None \<Rightarrow> (Inl UserMissing, st)
      | Some v \<Rightarrow>
          let hit = filter (\<lambda>r. as_user r = u \<and> as_revoked r = None) (sessions st);
              st1 = st\<lparr>users := bump_version u (users st),
                       sessions := revoke_where now (\<lambda>r. as_user r = u) (sessions st)\<rparr>;
              st2 = fold (\<lambda>r. invalidate_sid_cache (as_id r)) hit st1
          in (Inr (v + 1),
              fold (\<lambda>r. emit_audit ''__session__.cascade_revoked'' actor
                [(''session_id'', JStr (as_id r)), (''owner_user_id'', JStr u)]
                [(''revoked_at'', revoked_at_json (Some now))]) hit st2))"

definition list_active_sessions_for_user :: "user_id \<Rightarrow> auth_state \<Rightarrow> auth_session list" where
  "list_active_sessions_for_user u st =
     take 100 (sort_key (\<lambda>r. - as_created r) (filter (\<lambda>r. as_user r = u \<and> as_revoked r = None) (sessions st)))"

subsection \<open>Revocation checks of a request\<close>

record auth_config =
  ac_enabled :: bool
  ac_require_tv :: bool
  ac_tv_ttl :: int
  ac_require_sid :: bool
  ac_sid_ttl :: int

definition clamp_ttl :: "string option \<Rightarrow> int" where
  "clamp_ttl raw = (case py_int (case raw of None \<Rightarrow> ''30'' | Some s \<Rightarrow> s) of None \<Rightarrow> 30 | Some n \<Rightarrow> min 3600 (max 0 n))"

text \<open>\<open>db_ok\<close> is whether the database answers; a failure denies and is not cached.\<close>

definition sid_must_deny_access ::
  "auth_config \<Rightarrow> bool \<Rightarrow> instant \<Rightarrow> user_id \<Rightarrow> string \<Rightarrow> auth_state \<Rightarrow> bool \<times> auth_state" where
  "sid_must_deny_access cfg db_ok now sub sid st =
     (let (hit, st1) = (if ac_sid_ttl cfg > 0
             then (let (h, d) = lru_get_fresh now (ac_sid_ttl cfg) sid (sid_cache st) in (h, st\<lparr>sid_cache := d\<rparr>))
             else (None, st))
      in case hit of
           Some deny \<Rightarrow> (deny, st1)
         | None \<Rightarrow>
             if \<not> db_ok then (True, st1)
             else
               let deny = is_session_revoked sid sub st1 in
               (deny, if ac_sid_ttl cfg > 0
                      then st1\<lparr>sid_cache := lru_put token_ver_cache_max now sid deny (sid_cache st1)\<rparr> else st1))"

definition resolve_current_token_version :: "auth_config \<Rightarrow> instant \<Rightarrow> user_id \<Rightarrow> auth_state \<Rightarrow> int \<times> auth_state" where
  "resolve_current_token_version cfg now u st =
     (let (hit, st1) = (if ac_tv_ttl cfg > 0
             then (let (h, d) = lru_get_fresh now (ac_tv_ttl cfg) u (tv_cache st) in (h, st\<lparr>tv_cache := d\<rparr>))
             else (None, st))
      in case hit of
           Some v \<Rightarrow> (v, st1)
         | None \<Rightarrow>
             (case map_of (users st1) u of
                None \<Rightarrow> (0, st1)
              | Some v \<Rightarrow> (v, if ac_tv_ttl cfg > 0
                      then st1\<lparr>tv_cache := lru_put token_ver_cache_max now u v (tv_cache st1)\<rparr> else st1)))"

text \<open>\<open>int(tv_raw)\<close> on a JSON value\<close>

definition json_int :: "json \<Rightarrow> int option" where
  "json_int j = (case j of JInt i \<Rightarrow> Some i | JBool b \<Rightarrow> Some (if b then 1 else 0) | JStr s \<Rightarrow> py_int s | _ \<Rightarrow> None)"

definition invalid_token :: "string option" where
  "invalid_token = Some ''invalid token''"

definition jwt_revocation_failure_reason ::
  "auth_config \<Rightarrow> bool \<Rightarrow> instant \<Rightarrow> json_obj \<Rightarrow> auth_state \<Rightarrow> string option \<times> auth_state" where
  "jwt_revocation_failure_reason cfg db_ok now payload st =
     (if \<not> ac_enabled cfg then (None, st)
      else case map_of payload ''sub'' of
        Some (JStr sub) \<Rightarrow>
          (let tv_raw = (case map_of payload ''tv'' of None \<Rightarrow> JNull | Some j \<Rightarrow> j);
               (failed, st1) =
                 (if tv_raw = JNull then (ac_require_tv cfg, st)
                  else case json_int tv_raw of
                    None \<Rightarrow> (True, st)
                  | Some claim \<Rightarrow>
                      let (current, st') = resolve_current_token_version cfg now sub st in (claim \<noteq> current, st'))
           in if failed then (invalid_token, st1)
              else if \<not> ac_require_sid cfg then (None, st1)
              else case map_of payload ''sid'' of
                Some (JStr sid) \<Rightarrow>
                  (let (deny, st2) = sid_must_deny_access cfg db_ok now sub sid st1
                   in (if deny then invalid_token else None, st2))
              | _ \<Rightarrow> (None, st1))
      | _ \<Rightarrow> (invalid_token, st))"

subsection \<open>The cache\<close>

lemma set_lru_pop: "set (lru_pop k d) = {e \<in> set d. fst e \<noteq> k}"
  by (auto simp: lru_pop_def)

lemma set_lru_get: "set (snd (lru_get_fresh now ttl k d)) \<subseteq> set d"
  by (auto simp: lru_get_fresh_def set_lru_pop dest: map_of_SomeD split: option.splits if_splits)

lemma set_lru_put: "set (lru_put m now k v d) \<subseteq> insert (k, v, now) {e \<in> set d. fst e \<noteq> k}"
  by (auto simp: lru_put_def Let_def set_lru_pop dest!: in_set_dropD)

lemma get_fresh_hit: "fst (lru_get_fresh now ttl k d) = Some v \<Longrightarrow> \<exists>ts. (k, v, ts) \<in> set d"
  by (auto simp: lru_get_fresh_def split: option.splits if_splits) (blast dest: map_of_SomeD)

definition lru_ok :: "'v lru \<Rightarrow> bool" where
  "lru_ok d \<longleftrightarrow> distinct (map fst d) \<and> length d \<le> token_ver_cache_max"

lemma lru_pop_length: "length (lru_pop k d) \<le> length d"
  by (simp add: lru_pop_def)

lemma lru_pop_hit: "k \<in> fst ` set d \<Longrightarrow> length (lru_pop k d) < length d"
  by (auto simp: lru_pop_def intro: length_filter_less)

lemma lru_pop_distinct: "distinct (map fst d) \<Longrightarrow> distinct (map fst (lru_pop k d)) \<and> k \<notin> fst ` set (lru_pop k d)"
  by (induction d) (auto simp: lru_pop_def)

lemma lru_ops_ok:
  fixes d :: "'v lru"
  assumes "lru_ok d"
  shows "lru_ok (lru_pop k d)" "lru_ok (lru_put token_ver_cache_max now k v d)" "lru_ok (snd (lru_get_fresh now ttl k d))"
proof -
  have pop: "distinct (map fst (lru_pop k d))" "k \<notin> fst ` set (lru_pop k d)" "length (lru_pop k d) \<le> token_ver_cache_max"
    using assms lru_pop_distinct [of d k] lru_pop_length [of k d] by (auto simp: lru_ok_def)
  then show "lru_ok (lru_pop k d)" by (simp add: lru_ok_def)
  have "distinct (map fst xs) \<Longrightarrow> lru_ok (drop (length xs - token_ver_cache_max) xs)" for xs :: "'v lru"
    by (simp add: lru_ok_def drop_map [symmetric])
  moreover have "distinct (map fst (lru_pop k d @ [(k, v, now)]))" using pop by simp
  ultimately show "lru_ok (lru_put token_ver_cache_max now k v d)"
    unfolding lru_put_def Let_def by blast
  show "lru_ok (snd (lru_get_fresh now ttl k d))"
    using assms pop lru_pop_hit [of k d]
    by (force simp: lru_get_fresh_def lru_ok_def dest: map_of_SomeD split: option.splits if_splits)
qed

subsection \<open>Invariant\<close>

definition one_active :: "auth_session list \<Rightarrow> bool" where
  "one_active rows \<longleftrightarrow> (\<forall>r \<in> set rows. \<forall>r' \<in> set rows.
     as_revoked r = None \<and> as_revoked r' = None \<and> as_family r = as_family r' \<longrightarrow> as_id r = as_id r')"

lemma one_activeD:
  "one_active rows \<Longrightarrow> r \<in> set rows \<Longrightarrow> r' \<in> set rows \<Longrightarrow> as_revoked r = None \<Longrightarrow> as_revoked r' = None \<Longrightarrow>
    as_family r = as_family r' \<Longrightarrow> as_id r = as_id r'"
  unfolding one_active_def by blast

lemma one_activeI:
  assumes "\<And>r r'. r \<in> set rows \<Longrightarrow> r' \<in> set rows \<Longrightarrow> as_revoked r = None \<Longrightarrow> as_revoked r' = None \<Longrightarrow>
    as_family r = as_family r' \<Longrightarrow> as_id r = as_id r'"
  shows "one_active rows"
  using assms unfolding one_active_def by blast

definition families_known :: "auth_session list \<Rightarrow> bool" where
  "families_known rows \<longleftrightarrow> (\<forall>r \<in> set rows. as_family r \<in> as_id ` set rows)"

definition verdicts_ok :: "bool lru \<Rightarrow> auth_session list \<Rightarrow> bool" where
  "verdicts_ok d rows \<longleftrightarrow> (\<forall>sid ts. (sid, False, ts) \<in> set d \<longrightarrow>
     (\<exists>r \<in> set rows. as_id r = sid \<and> as_revoked r = None))"

definition auth_good :: "auth_state \<Rightarrow> bool" where
  "auth_good st \<longleftrightarrow> distinct (map as_id (sessions st)) \<and> one_active (sessions st) \<and>
     families_known (sessions st) \<and> verdicts_ok (sid_cache st) (sessions st) \<and>
     lru_ok (sid_cache st) \<and> lru_ok (tv_cache st)"

lemma revoke_where_simps:
  "map as_id (revoke_where now p rows) = map as_id rows"
  "r \<in> set (revoke_where now p rows) \<longleftrightarrow>
     (r \<in> set rows \<and> \<not> (p r \<and> as_revoked r = None)) \<or>
     (\<exists>x \<in> set rows. p x \<and> as_revoked x = None \<and> r = x\<lparr>as_revoked := Some now\<rparr>)"
  by (auto simp: revoke_where_def map_key_update_where set_update_where)

lemma revoke_where_active:
  "r \<in> set (revoke_where now p rows) \<and> as_revoked r = None \<longleftrightarrow> r \<in> set rows \<and> as_revoked r = None \<and> \<not> p r"
  by (auto simp: revoke_where_simps)

lemma revoke_where_good:
  assumes "distinct (map as_id rows)" and "one_active rows" and "families_known rows" and "verdicts_ok d rows"
    and "set d' \<subseteq> {e \<in> set d. \<forall>r \<in> set rows. p r \<and> as_revoked r = None \<longrightarrow> as_id r \<noteq> fst e}"
  shows "distinct (map as_id (revoke_where now p rows)) \<and> one_active (revoke_where now p rows) \<and>
    families_known (revoke_where now p rows) \<and> verdicts_ok d' (revoke_where now p rows)"
proof -
  have ids: "as_id ` set (revoke_where now p rows) = as_id ` set rows"
    by (metis revoke_where_simps(1) list.set_map)
  have "one_active (revoke_where now p rows)"
    using assms(2) revoke_where_active [of _ now p rows] unfolding one_active_def by blast
  moreover have "families_known (revoke_where now p rows)"
    using assms(3) unfolding families_known_def ids by (auto simp: revoke_where_simps)
  moreover have "verdicts_ok d' (revoke_where now p rows)"
    unfolding verdicts_ok_def
  proof (intro allI impI)
    fix sid ts assume e: "(sid, False, ts) \<in> set d'"
    then obtain r where "r \<in> set rows" "as_id r = sid" "as_revoked r = None"
      using assms(4,5) by (fastforce simp: verdicts_ok_def)
    moreover from this e assms(5) have "\<not> p r" by fastforce
    ultimately show "\<exists>r \<in> set (revoke_where now p rows). as_id r = sid \<and> as_revoked r = None"
      using revoke_where_active [of r now p rows] by blast
  qed
  ultimately show ?thesis using assms(1) by (simp add: revoke_where_simps)
qed

lemma emit_audit_frame [frame]:
  "sessions (emit_audit a u i r st) = sessions st" "sid_cache (emit_audit a u i r st) = sid_cache st"
  "tv_cache (emit_audit a u i r st) = tv_cache st" "users (emit_audit a u i r st) = users st"
  by (simp_all add: emit_audit_def)

lemma fold_emit_frame [frame]:
  "sessions (fold (\<lambda>r. emit_audit a u (i r) res) rs st) = sessions st"
  "sid_cache (fold (\<lambda>r. emit_audit a u (i r) res) rs st) = sid_cache st"
  "tv_cache (fold (\<lambda>r. emit_audit a u (i r) res) rs st) = tv_cache st"
  "users (fold (\<lambda>r. emit_audit a u (i r) res) rs st) = users st"
  by (induction rs arbitrary: st) (simp_all add: frame)

lemma invalidate_sid_frame [frame]:
  "sessions (invalidate_sid_cache sid st) = sessions st" "tv_cache (invalidate_sid_cache sid st) = tv_cache st"
  "users (invalidate_sid_cache sid st) = users st"
  "sid_cache (invalidate_sid_cache sid st) = lru_pop sid (sid_cache st)"
  by (simp_all add: invalidate_sid_cache_def lru_invalidate_def)

lemma fold_invalidate_frame [frame]:
  "sessions (fold (\<lambda>r. invalidate_sid_cache (as_id r)) rs st) = sessions st"
  "tv_cache (fold (\<lambda>r. invalidate_sid_cache (as_id r)) rs st) = tv_cache st"
  "users (fold (\<lambda>r. invalidate_sid_cache (as_id r)) rs st) = users st"
  by (induction rs arbitrary: st) (simp_all add: frame)

lemma fold_invalidate_cache:
  "set (sid_cache (fold (\<lambda>r. invalidate_sid_cache (as_id r)) rs st)) = {e \<in> set (sid_cache st). \<forall>r \<in> set rs. as_id r \<noteq> fst e}"
  by (induction rs arbitrary: st) (auto simp: frame set_lru_pop)

lemma fold_invalidate_ok:
  "lru_ok (sid_cache st) \<Longrightarrow> lru_ok (sid_cache (fold (\<lambda>r. invalidate_sid_cache (as_id r)) rs st))"
  by (induction rs arbitrary: st) (simp_all add: frame lru_ops_ok)

text \<open>Every revocation of the module has this shape.\<close>

lemma revocation_good:
  assumes "auth_good st" and "sessions st' = revoke_where now p (sessions st)"
    and "set (sid_cache st') \<subseteq> {e \<in> set (sid_cache st). \<forall>r \<in> set (sessions st). p r \<and> as_revoked r = None \<longrightarrow> as_id r \<noteq> fst e}"
    and "lru_ok (sid_cache st')" and "tv_cache st' = tv_cache st"
  shows "auth_good st'"
  using revoke_where_good [OF _ _ _ _ assms(3), of now] assms(1,2,4,5) by (simp add: auth_good_def)

lemma handle_reuse_frame:
  "sessions (handle_reuse now sess st) = revoke_where now (\<lambda>r. as_family r = as_family sess) (sessions st)"
  "tv_cache (handle_reuse now sess st) = tv_cache st"
  "set (sid_cache (handle_reuse now sess st)) = {e \<in> set (sid_cache st).
     \<forall>r \<in> set (sessions st). as_family r = as_family sess \<and> as_revoked r = None \<longrightarrow> as_id r \<noteq> fst e}"
  "lru_ok (sid_cache st) \<Longrightarrow> lru_ok (sid_cache (handle_reuse now sess st))"
  by (auto simp: handle_reuse_def Let_def frame fold_invalidate_cache fold_invalidate_ok)

lemma handle_reuse_good: "auth_good st \<Longrightarrow> auth_good (handle_reuse now sess st)"
  by (rule revocation_good [where p = "\<lambda>r. as_family r = as_family sess" and now = now])
     (auto simp: handle_reuse_frame auth_good_def)

lemma bump_good: "auth_good st \<Longrightarrow> auth_good (snd (bump_token_version_and_revoke_all_sessions now u actor st))"
  by (cases "map_of (users st) u", simp add: bump_token_version_and_revoke_all_sessions_def,
      rule revocation_good [where p = "\<lambda>r. as_user r = u" and now = now])
     (auto simp: bump_token_version_and_revoke_all_sessions_def Let_def frame fold_invalidate_cache
        fold_invalidate_ok auth_good_def)

lemma revoke_one_good:
  assumes "auth_good st" and "\<And>r s. sessions (f r s) = sessions s \<and> sid_cache (f r s) = sid_cache s \<and> tv_cache (f r s) = tv_cache s"
  shows "auth_good (snd (revoke_one now sid u f st))"
proof -
  let ?st1 = "invalidate_sid_cache sid (st\<lparr>sessions := revoke_where now (\<lambda>x. as_id x = sid) (sessions st)\<rparr>)"
  have "auth_good ?st1"
    using assms(1)
    by (intro revocation_good [OF assms(1), where p = "\<lambda>x. as_id x = sid" and now = now])
       (auto simp: frame set_lru_pop lru_ops_ok auth_good_def)
  with assms show ?thesis
    by (auto simp: revoke_one_def Let_def auth_good_def split: option.splits)
qed

lemma append_session_good:
  assumes "auth_good st" and "as_id row \<notin> as_id ` set (sessions st)" and "as_family row \<in> insert (as_id row) (as_id ` set (sessions st))"
    and "\<And>r. r \<in> set (sessions st) \<Longrightarrow> as_revoked r = None \<Longrightarrow> as_family r \<noteq> as_family row"
    and "sessions st' = sessions st @ [row]" and "sid_cache st' = sid_cache st" and "tv_cache st' = tv_cache st"
  shows "auth_good st'"
proof -
  have old: "one_active (sessions st)" using assms(1) by (simp add: auth_good_def)
  have "one_active (sessions st @ [row])"
  proof (rule one_activeI)
    fix r r' assume r: "r \<in> set (sessions st @ [row])" "r' \<in> set (sessions st @ [row])"
      "as_revoked r = None" "as_revoked r' = None" "as_family r = as_family r'"
    consider "r \<in> set (sessions st)" "r' \<in> set (sessions st)" | "r = row" "r' = row"
      | "r = row" "r' \<in> set (sessions st)" | "r \<in> set (sessions st)" "r' = row" using r(1,2) by auto
    then show "as_id r = as_id r'"
    proof cases
      case 1 with old r show ?thesis by (blast intro: one_activeD)
    next
      case 3 with assms(4) [of r'] r show ?thesis by simp
    next
      case 4 with assms(4) [of r] r show ?thesis by simp
    qed simp
  qed
  moreover have "families_known (sessions st @ [row])"
    using assms(1,3) by (auto simp: auth_good_def families_known_def)
  moreover have "verdicts_ok (sid_cache st) (sessions st @ [row])"
    using assms(1) by (fastforce simp: auth_good_def verdicts_ok_def)
  ultimately show ?thesis
    using assms(1,2,5-7) by (simp add: auth_good_def)
qed

lemma login_good: "auth_good st \<Longrightarrow> auth_good (snd (insert_login_session env now sid u jwt ex dev ip ua st))"
proof (cases "sid \<in> as_id ` set (sessions st)")
  case True
  assume "auth_good st"
  with True show ?thesis by (simp add: insert_login_session_def)
next
  case False
  assume good: "auth_good st"
  let ?row = "new_session sid u sid (te_hash env jwt) now ex dev ip ua"
  have "as_family r \<noteq> sid" if "r \<in> set (sessions st)" for r
    using good that False by (auto simp: auth_good_def families_known_def)
  then show ?thesis
    using False
    by (intro append_session_good [OF good, of ?row]) (auto simp: insert_login_session_def frame new_session_def)
qed

definition rotated :: "token_env \<Rightarrow> instant \<Rightarrow> int \<Rightarrow> string \<Rightarrow> auth_session \<Rightarrow> auth_session" where
  "rotated env now ttl new_id sess = new_session new_id (as_user sess) (as_family sess)
     (te_hash env (te_mint env (as_user sess) new_id)) now (now + ttl * 1000000) (as_device sess) (as_ip sess) (as_ua sess)"

lemma rotated_simps [simp]:
  "as_id (rotated env now ttl i sess) = i" "as_family (rotated env now ttl i sess) = as_family sess"
  "as_user (rotated env now ttl i sess) = as_user sess" "as_revoked (rotated env now ttl i sess) = None"
  "as_hash (rotated env now ttl i sess) = te_hash env (te_mint env (as_user sess) i)"
  "as_expires (rotated env now ttl i sess) = now + ttl * 1000000"
  by (simp_all add: rotated_def new_session_def)

lemma rotate_commit_eq:
  "rotate_commit env now ttl new_id (sess, tv) st =
    (if new_id \<in> as_id ` set (sessions st) then (Inl DuplicateSession, st)
     else (Inr (new_id, te_mint env (as_user sess) new_id, tv),
           invalidate_sid_cache (as_id sess)
             (st\<lparr>sessions := revoke_where now (\<lambda>r. as_id r = as_id sess) (sessions st @ [rotated env now ttl new_id sess])\<rparr>)))"
  by (simp add: rotate_commit_def rotated_def Let_def)

lemma rotate_commit_good:
  assumes "auth_good st" and "sess \<in> set (sessions st)" and "as_revoked sess = None"
  shows "auth_good (snd (rotate_commit env now ttl new_id (sess, tv) st))"
proof (cases "new_id \<in> as_id ` set (sessions st)")
  case True
  with assms show ?thesis by (simp add: rotate_commit_eq)
next
  case False
  let ?mid = "invalidate_sid_cache (as_id sess) (st\<lparr>sessions := revoke_where now (\<lambda>r. as_id r = as_id sess) (sessions st)\<rparr>)"
  let ?row = "rotated env now ttl new_id sess"
  let ?fin = "snd (rotate_commit env now ttl new_id (sess, tv) st)"
  have mid: "auth_good ?mid"
    by (rule revocation_good [OF assms(1), where p = "\<lambda>r. as_id r = as_id sess" and now = now])
       (use assms(1) in \<open>auto simp: frame set_lru_pop lru_ops_ok auth_good_def\<close>)
  have ids: "as_id ` set (sessions ?mid) = as_id ` set (sessions st)"
    by (simp add: frame) (metis revoke_where_simps(1) list.set_map)
  have "as_id sess \<noteq> new_id" using assms(2) False by auto
  then have "sessions ?fin = sessions ?mid @ [?row]"
    using False by (simp add: rotate_commit_eq frame revoke_where_def)
  moreover have "as_family r \<noteq> as_family sess" if r: "r \<in> set (sessions ?mid)" "as_revoked r = None" for r
  proof -
    have "r \<in> set (sessions st)" "as_id r \<noteq> as_id sess"
      using r revoke_where_active [of r now "\<lambda>r. as_id r = as_id sess" "sessions st"] by (auto simp: frame)
    moreover have "one_active (sessions st)" using assms(1) by (simp add: auth_good_def)
    ultimately show ?thesis using assms(2,3) r(2) by (metis one_activeD)
  qed
  moreover have "as_family sess \<in> as_id ` set (sessions st)"
    using assms by (auto simp: auth_good_def families_known_def)
  ultimately show ?thesis
    using False ids by (intro append_session_good [OF mid, of ?row]) (auto simp: rotate_commit_eq frame)
qed

lemma find_session_Some: "find_session sid u st = Some r \<Longrightarrow> r \<in> set (sessions st) \<and> as_id r = sid \<and> as_user r = u"
  by (auto simp: find_session_def find_Some_iff)

lemma rotate_check_cases:
  obtains (refused) e where "rotate_check env now u jti jwt st = (Inl e, st)"
  | (reused) sess where "find_session jti u st = Some sess" "as_revoked sess \<noteq> None" "as_hash sess = te_hash env jwt"
      "rotate_check env now u jti jwt st = (Inl RefreshReused, handle_reuse now sess st)"
  | (passed) sess tv where "find_session jti u st = Some sess" "as_revoked sess = None" "as_hash sess = te_hash env jwt"
      "now \<le> as_expires sess" "map_of (users st) u = Some tv" "rotate_check env now u jti jwt st = (Inr (sess, tv), st)"
proof (cases "find_session jti u st")
  case None
  with refused show ?thesis by (simp add: rotate_check_def)
next
  case (Some sess)
  show ?thesis
  proof (cases "as_revoked sess = None")
    case active: True
    show ?thesis
    proof (cases "as_expires sess < now \<or> te_hash env jwt \<noteq> as_hash sess \<or> map_of (users st) u = None")
      case True
      show ?thesis by (rule refused [of RefreshInvalid]) (use Some active True in \<open>auto simp: rotate_check_def Let_def\<close>)
    next
      case False
      then obtain tv where "map_of (users st) u = Some tv" by auto
      with False Some active show ?thesis by (intro passed [of sess tv]) (auto simp: rotate_check_def Let_def)
    qed
  next
    case revoked: False
    show ?thesis
    proof (cases "as_hash sess = te_hash env jwt")
      case True
      with Some revoked show ?thesis by (intro reused [of sess]) (auto simp: rotate_check_def)
    next
      case False
      show ?thesis by (rule refused [of RefreshInvalid]) (use Some revoked False in \<open>auto simp: rotate_check_def\<close>)
    qed
  qed
qed

lemma rotate_good: "auth_good st \<Longrightarrow> auth_good (snd (rotate_refresh env now ttl new_id u jti jwt st))"
proof (cases rule: rotate_check_cases [of env now u jti jwt st])
  case (refused e)
  assume "auth_good st"
  with refused show ?thesis by (simp add: rotate_refresh_def)
next
  case (reused sess)
  assume "auth_good st"
  with reused show ?thesis by (simp add: rotate_refresh_def handle_reuse_good)
next
  case (passed sess tv)
  assume "auth_good st"
  with passed find_session_Some [OF passed(1)] show ?thesis
    by (simp add: rotate_refresh_def rotate_commit_good)
qed

lemma sid_check_good:
  assumes "auth_good st"
  shows "auth_good (snd (sid_must_deny_access cfg db_ok now sub sid st))"
proof -
  let ?d = "snd (lru_get_fresh now (ac_sid_ttl cfg) sid (sid_cache st))"
  have d: "lru_ok ?d" "verdicts_ok ?d (sessions st)"
    using assms set_lru_get [of now "ac_sid_ttl cfg" sid "sid_cache st"]
    by (auto simp: auth_good_def lru_ops_ok verdicts_ok_def)
  let ?deny = "is_session_revoked sid sub st"
  have "verdicts_ok (lru_put token_ver_cache_max now sid ?deny ?d) (sessions st)"
    using d(2) set_lru_put [of token_ver_cache_max now sid ?deny ?d]
    by (fastforce simp: verdicts_ok_def is_session_revoked_def dest: find_session_Some split: option.splits)
  moreover have "is_session_revoked sid sub (st\<lparr>sid_cache := ?d\<rparr>) = ?deny"
    by (simp add: is_session_revoked_def find_session_def)
  ultimately show ?thesis
    using assms d
    by (auto simp: sid_must_deny_access_def Let_def auth_good_def lru_ops_ok case_prod_unfold split: option.splits)
qed

lemma tv_check_good: "auth_good st \<Longrightarrow> auth_good (snd (resolve_current_token_version cfg now u st))"
  by (auto simp: resolve_current_token_version_def Let_def auth_good_def lru_ops_ok case_prod_unfold split: option.splits)

datatype auth_op =
    Login instant string user_id string instant string string string
  | Rotate instant int string user_id string string
  | RevokeOwn instant string user_id
  | RevokeAdmin instant user_id string user_id
  | BumpAll instant user_id user_id
  | CheckSid auth_config bool instant user_id string
  | CheckVersion auth_config instant user_id

fun auth_apply :: "token_env \<Rightarrow> auth_state \<Rightarrow> auth_op \<Rightarrow> auth_state" where
  "auth_apply env st (Login now sid u jwt ex dev ip ua) = snd (insert_login_session env now sid u jwt ex dev ip ua st)"
| "auth_apply env st (Rotate now ttl new_id u jti jwt) = snd (rotate_refresh env now ttl new_id u jti jwt st)"
| "auth_apply env st (RevokeOwn now sid u) = snd (revoke_session_for_user now sid u st)"
| "auth_apply env st (RevokeAdmin now target sid admin) = snd (revoke_session_admin now target sid admin st)"
| "auth_apply env st (BumpAll now u actor) = snd (bump_token_version_and_revoke_all_sessions now u actor st)"
| "auth_apply env st (CheckSid cfg ok now sub sid) = snd (sid_must_deny_access cfg ok now sub sid st)"
| "auth_apply env st (CheckVersion cfg now u) = snd (resolve_current_token_version cfg now u st)"

lemma auth_apply_good: "auth_good st \<Longrightarrow> auth_good (auth_apply env st opn)"
  by (cases opn)
     (simp_all add: login_good rotate_good bump_good sid_check_good tv_check_good revoke_session_for_user_def
        revoke_session_admin_def revoke_one_good frame)

interpretation auth: event_machine "auth_apply env" auth_good for env
  by unfold_locales (rule auth_apply_good)

definition fresh_auth :: "(user_id \<times> int) list \<Rightarrow> auth_state" where
  "fresh_auth us = \<lparr>sessions = [], users = us, sid_cache = [], tv_cache = [], session_audits = [],
     app_settings = [], salt_cached = None\<rparr>"

lemma fresh_auth_good: "auth_good (fresh_auth us)"
  by (simp add: fresh_auth_def auth_good_def one_active_def families_known_def verdicts_ok_def lru_ok_def)

subsection \<open>Properties\<close>

text \<open>
  C32. One live session per login: after any sequence of logins, rotations, revocations,
  version bumps and checks, handled one after the other, each family has at most one session
  that is not revoked, and both caches stay within their bound of 4,096 entries.
\<close>

theorem one_live_session_per_family:
  assumes "st = foldl (auth_apply env) (fresh_auth us) ops"
  shows "(\<forall>r \<in> set (sessions st). \<forall>r' \<in> set (sessions st).
      as_family r = as_family r' \<and> as_revoked r = None \<and> as_revoked r' = None \<longrightarrow> r = r') \<and>
    length (sid_cache st) \<le> 4096 \<and> length (tv_cache st) \<le> 4096"
proof -
  have good: "auth_good st" unfolding assms by (rule auth.run_good) (rule fresh_auth_good)
  then have "one_active (sessions st)" by (simp add: auth_good_def)
  then have ids: "as_id r = as_id r'"
    if "r \<in> set (sessions st)" "r' \<in> set (sessions st)" "as_family r = as_family r'" "as_revoked r = None" "as_revoked r' = None" for r r'
    using that by (blast intro: one_activeD)
  have "inj_on as_id (set (sessions st))" using good by (simp add: auth_good_def distinct_map)
  then have "\<forall>r \<in> set (sessions st). \<forall>r' \<in> set (sessions st).
      as_family r = as_family r' \<and> as_revoked r = None \<and> as_revoked r' = None \<longrightarrow> r = r'"
    using ids by (blast dest: inj_onD)
  moreover have "length (sid_cache st) \<le> 4096 \<and> length (tv_cache st) \<le> 4096"
    using good by (simp add: auth_good_def lru_ok_def token_ver_cache_max_def)
  ultimately show ?thesis by blast
qed

definition sample_env :: token_env where
  "sample_env = \<lparr>te_hash = (\<lambda>s. ''h'' @ s), te_mint = (\<lambda>u i. u @ i)\<rparr>"

definition ann_session :: "string \<Rightarrow> string \<Rightarrow> instant option \<Rightarrow> auth_session" where
  "ann_session i jwt rv = \<lparr>as_id = i, as_user = ''ann'', as_family = ''s1'', as_hash = te_hash sample_env jwt,
     as_created = 0, as_last_used = None, as_expires = 100, as_revoked = rv, as_device = ''D'', as_ip = ''i'', as_ua = ''u''\<rparr>"

lemma ann_session_simps [simp]:
  "as_id (ann_session i jwt rv) = i" "as_user (ann_session i jwt rv) = ''ann''"
  "as_family (ann_session i jwt rv) = ''s1''" "as_hash (ann_session i jwt rv) = te_hash sample_env jwt"
  "as_revoked (ann_session i jwt rv) = rv" "as_expires (ann_session i jwt rv) = 100"
  by (simp_all add: ann_session_def)

definition ann_auth :: auth_state where
  "ann_auth = (fresh_auth [(''ann'', 3)])\<lparr>sessions := [ann_session ''s1'' ''t1'' (Some 5), ann_session ''s2'' ''t2'' None]\<rparr>"

lemma ann_auth_simps [simp]:
  "sessions ann_auth = [ann_session ''s1'' ''t1'' (Some 5), ann_session ''s2'' ''t2'' None]"
  "users ann_auth = [(''ann'', 3)]" "sid_cache ann_auth = []" "session_audits ann_auth = []"
  by (simp_all add: ann_auth_def fresh_auth_def)

definition ann_ops :: "auth_op list" where
  "ann_ops = [Login 0 ''s1'' ''ann'' ''t1'' 100 ''D'' ''i'' ''u'', Rotate 1 60 ''s2'' ''ann'' ''s1'' ''t1'',
     CheckSid \<lparr>ac_enabled = True, ac_require_tv = True, ac_tv_ttl = 30, ac_require_sid = True, ac_sid_ttl = 30\<rparr> True 2 ''ann'' ''s2'']"

lemma ann_ops_run:
  "map (\<lambda>r. (as_id r, as_family r, as_revoked r)) (sessions (foldl (auth_apply sample_env) (fresh_auth [(''ann'', 3)]) ann_ops)) =
     [(''s1'', ''s1'', Some 1), (''s2'', ''s1'', None)]"
  "map fst (sid_cache (foldl (auth_apply sample_env) (fresh_auth [(''ann'', 3)]) ann_ops)) = [''s2'']"
  by code_simp+

theorem one_live_session_per_family_witness:
  "\<exists>st. st = foldl (auth_apply sample_env) (fresh_auth [(''ann'', 3)]) ann_ops \<and> length (sessions st) = 2 \<and> sid_cache st \<noteq> [] \<and>
    (\<forall>r \<in> set (sessions st). \<forall>r' \<in> set (sessions st). as_family r = as_family r' \<and> as_revoked r = None \<and> as_revoked r' = None \<longrightarrow> r = r') \<and>
    length (sid_cache st) \<le> 4096"
  using one_live_session_per_family [OF refl, of sample_env "[(''ann'', 3)]" ann_ops] ann_ops_run [THEN arg_cong [where f = length]]
  by (intro exI [of _ "foldl (auth_apply sample_env) (fresh_auth [(''ann'', 3)]) ann_ops"]) auto

text \<open>
  Replay of a rotated refresh token: presenting the token of a session that is already
  revoked revokes every live session of its family and nothing else, is refused as a reuse,
  leaves one reuse record and one cascade record per session it revoked, and afterwards the
  family's own live token is refused too.
\<close>

theorem replay_revokes_the_family:
  assumes "find_session jti u st = Some sess" and "as_revoked sess \<noteq> None" and "as_hash sess = te_hash env jwt"
  shows "fst (rotate_refresh env now ttl new_id u jti jwt st) = Inl RefreshReused \<and>
    sessions (snd (rotate_refresh env now ttl new_id u jti jwt st)) =
      map (\<lambda>r. if as_family r = as_family sess \<and> as_revoked r = None then r\<lparr>as_revoked := Some now\<rparr> else r) (sessions st) \<and>
    length (session_audits (snd (rotate_refresh env now ttl new_id u jti jwt st))) =
      length (session_audits st) + 1 + length (filter (\<lambda>r. as_family r = as_family sess \<and> as_revoked r = None) (sessions st)) \<and>
    (\<forall>r \<in> set (sessions (snd (rotate_refresh env now ttl new_id u jti jwt st))). as_family r = as_family sess \<longrightarrow> as_revoked r \<noteq> None)"
proof -
  let ?st' = "handle_reuse now sess st"
  have eq: "rotate_refresh env now ttl new_id u jti jwt st = (Inl RefreshReused, ?st')"
    using assms by (simp add: rotate_refresh_def rotate_check_def)
  have audits: "length (session_audits (fold (\<lambda>r. emit_audit a v (i r) res) rs s)) = length (session_audits s) + length rs"
    for a v res s and rs :: "auth_session list" and i
    by (induction rs arbitrary: s) (simp_all add: emit_audit_def)
  have inv: "session_audits (fold (\<lambda>r. invalidate_sid_cache (as_id r)) rs s) = session_audits s" for rs s
    by (induction rs arbitrary: s) (simp_all add: invalidate_sid_cache_def)
  have "length (session_audits ?st') =
      length (session_audits st) + 1 + length (filter (\<lambda>r. as_family r = as_family sess \<and> as_revoked r = None) (sessions st))"
    by (simp add: handle_reuse_def Let_def audits) (simp add: emit_audit_def inv)
  moreover have "\<forall>r \<in> set (sessions ?st'). as_family r = as_family sess \<longrightarrow> as_revoked r \<noteq> None"
  proof (intro ballI impI notI)
    fix r assume "r \<in> set (sessions ?st')" "as_family r = as_family sess" "as_revoked r = None"
    then show False
      using revoke_where_active [of r now "\<lambda>r. as_family r = as_family sess" "sessions st"]
      unfolding handle_reuse_frame(1) by blast
  qed
  moreover have "sessions ?st' = map (\<lambda>r. if as_family r = as_family sess \<and> as_revoked r = None
      then r\<lparr>as_revoked := Some now\<rparr> else r) (sessions st)"
    unfolding handle_reuse_frame(1) revoke_where_def update_where_def ..
  ultimately show ?thesis
    unfolding eq fst_conv snd_conv by blast
qed

theorem replay_revokes_the_family_witness:
  "fst (rotate_refresh sample_env 9 60 ''s9'' ''ann'' ''s1'' ''t1'' ann_auth) = Inl RefreshReused \<and>
   map as_revoked (sessions (snd (rotate_refresh sample_env 9 60 ''s9'' ''ann'' ''s1'' ''t1'' ann_auth))) = [Some 5, Some 9]"
proof -
  have "find_session ''s1'' ''ann'' ann_auth = Some (ann_session ''s1'' ''t1'' (Some 5))"
    by (simp add: find_session_def)
  from replay_revokes_the_family [OF this, of sample_env "''t1''" 9 60 "''s9''"] show ?thesis by simp
qed

text \<open>
  C7. Revocation takes effect at once in this process. After any sequence of the operations of
  \<open>services/auth_sessions.py\<close> and of the checks of \<open>auth.py\<close>, handled one after the other (logins,
  rotations with their replay detection, a logout or revocation by the owner, a revocation by an
  administrator, a version bump with the revocation of all sessions), a session id of which no
  live session exists is denied on its next check, however fresh a cached verdict was: each
  revocation drops the verdict it makes stale. And while the database cannot be asked,
  every check for which no fresh verdict is cached denies.
\<close>

theorem revoked_session_denied_at_once:
  assumes "st = foldl (auth_apply env) (fresh_auth us) ops"
  shows "(list_all (\<lambda>r. as_id r = sid \<longrightarrow> as_revoked r \<noteq> None) (sessions st) \<longrightarrow>
      fst (sid_must_deny_access cfg db_ok now sub sid st)) \<and>
    (fst (lru_get_fresh now (ac_sid_ttl cfg) sid (sid_cache st)) = None \<longrightarrow> fst (sid_must_deny_access cfg False now sub sid st))"
proof (intro conjI impI)
  assume gone: "list_all (\<lambda>r. as_id r = sid \<longrightarrow> as_revoked r \<noteq> None) (sessions st)"
  have good: "auth_good st" unfolding assms by (rule auth.run_good) (rule fresh_auth_good)
  let ?g = "lru_get_fresh now (ac_sid_ttl cfg) sid (sid_cache st)"
  have "fst ?g \<noteq> Some False"
  proof
    assume "fst ?g = Some False"
    from get_fresh_hit [OF this] obtain ts where "(sid, False, ts) \<in> set (sid_cache st)" ..
    moreover have "verdicts_ok (sid_cache st) (sessions st)" using good by (simp add: auth_good_def)
    ultimately obtain r where "r \<in> set (sessions st)" "as_id r = sid" "as_revoked r = None"
      unfolding verdicts_ok_def by blast
    with gone show False unfolding list_all_iff by blast
  qed
  moreover have "is_session_revoked sid sub (st\<lparr>sid_cache := d\<rparr>)" for d
    using gone find_session_Some [of sid sub "st\<lparr>sid_cache := d\<rparr>"]
    by (auto simp: is_session_revoked_def list_all_iff split: option.splits)
  moreover have "is_session_revoked sid sub st"
    using gone find_session_Some [of sid sub st]
    by (auto simp: is_session_revoked_def list_all_iff split: option.splits)
  ultimately show "fst (sid_must_deny_access cfg db_ok now sub sid st)"
    by (auto simp: sid_must_deny_access_def Let_def case_prod_unfold split: option.splits)
next
  assume "fst (lru_get_fresh now (ac_sid_ttl cfg) sid (sid_cache st)) = None"
  then show "fst (sid_must_deny_access cfg False now sub sid st)"
    by (simp add: sid_must_deny_access_def Let_def case_prod_unfold)
qed

theorem revoked_session_denied_at_once_witness:
  "fst (sid_must_deny_access \<lparr>ac_enabled = True, ac_require_tv = True, ac_tv_ttl = 30, ac_require_sid = True, ac_sid_ttl = 30\<rparr>
     True 3 ''ann'' ''s1'' (foldl (auth_apply sample_env) (fresh_auth [(''ann'', 3)])
       [Login 0 ''s1'' ''ann'' ''t1'' 100 ''D'' ''i'' ''u'',
        CheckSid \<lparr>ac_enabled = True, ac_require_tv = True, ac_tv_ttl = 30, ac_require_sid = True, ac_sid_ttl = 30\<rparr> True 1 ''ann'' ''s1'',
        RevokeOwn 2 ''s1'' ''ann'']))"
proof (rule revoked_session_denied_at_once [OF refl, THEN conjunct1, THEN mp])
  show "list_all (\<lambda>r. as_id r = ''s1'' \<longrightarrow> as_revoked r \<noteq> None) (sessions (foldl (auth_apply sample_env) (fresh_auth [(''ann'', 3)])
       [Login 0 ''s1'' ''ann'' ''t1'' 100 ''D'' ''i'' ''u'',
        CheckSid \<lparr>ac_enabled = True, ac_require_tv = True, ac_tv_ttl = 30, ac_require_sid = True, ac_sid_ttl = 30\<rparr> True 1 ''ann'' ''s1'',
        RevokeOwn 2 ''s1'' ''ann'']))"
    by (simp add: insert_login_session_def fresh_auth_def sid_must_deny_access_def lru_get_fresh_def Let_def
        revoke_session_for_user_def revoke_one_def find_session_def is_session_revoked_def emit_audit_def
        invalidate_sid_cache_def revoke_where_def new_session_def)
qed

text \<open>
  Rotation is not protected against what happens between its checks and its transaction:
  if the user's sessions are all revoked in that gap (a password change, an administrator's
  logout, a detected reuse), the commit still inserts a live session for the user, since the
  transaction re-reads nothing; and two rotations of one token that both passed the checks
  leave two live sessions of one family.
\<close>

theorem rotation_commit_is_not_rechecked:
  assumes "rotate_check env now u jti jwt st = (Inr (sess, tv), st)"
    and "bump_token_version_and_revoke_all_sessions now2 u actor st = (Inr v, st2)"
    and "new_id \<notin> as_id ` set (sessions st)" and "new_id2 \<notin> as_id ` set (sessions st)" and "new_id \<noteq> new_id2"
  shows "rotated env now3 ttl new_id sess \<in> set (sessions (snd (rotate_commit env now3 ttl new_id (sess, tv) st2))) \<and>
    as_user sess = u \<and>
    {rotated env now3 ttl new_id sess, rotated env now3 ttl new_id2 sess} \<subseteq>
      set (sessions (snd (rotate_commit env now3 ttl new_id2 (sess, tv) (snd (rotate_commit env now3 ttl new_id (sess, tv) st)))))"
proof -
  have sess: "find_session jti u st = Some sess"
  proof (cases rule: rotate_check_cases [of env now u jti jwt st])
    case (passed s t)
    with assms(1) show ?thesis by simp
  qed (use assms(1) in auto)
  note s = find_session_Some [OF sess]
  have ids2: "as_id ` set (sessions st2) = as_id ` set (sessions st)"
    using assms(2)
    by (auto simp: bump_token_version_and_revoke_all_sessions_def Let_def frame simp flip: set_map
        simp: revoke_where_simps split: option.splits)
  have new: "new_id \<noteq> as_id sess" "new_id2 \<noteq> as_id sess" using s assms(3,4) by auto
  have one: "rotated env now3 ttl new_id sess \<in> set (sessions (snd (rotate_commit env now3 ttl new_id (sess, tv) s0)))"
    if "new_id \<notin> as_id ` set (sessions s0)" for s0
    using that new by (auto simp: rotate_commit_eq frame revoke_where_simps)
  let ?st1 = "snd (rotate_commit env now3 ttl new_id (sess, tv) st)"
  have "as_id ` set (sessions ?st1) = insert new_id (as_id ` set (sessions st))"
    using assms(3) by (simp add: rotate_commit_eq frame flip: set_map) (simp add: revoke_where_simps)
  then have "new_id2 \<notin> as_id ` set (sessions ?st1)" using assms(4,5) by simp
  then have "{rotated env now3 ttl new_id sess, rotated env now3 ttl new_id2 sess} \<subseteq>
      set (sessions (snd (rotate_commit env now3 ttl new_id2 (sess, tv) ?st1)))"
    using one [OF assms(3)] new by (auto simp: rotate_commit_eq frame revoke_where_simps)
  with one [of st2] ids2 assms(3) s show ?thesis by simp
qed

theorem rotation_commit_is_not_rechecked_witness:
  "\<exists>r \<in> set (sessions (snd (rotate_commit sample_env 9 60 ''s9'' (ann_session ''s2'' ''t2'' None, 3)
     (snd (bump_token_version_and_revoke_all_sessions 8 ''ann'' ''root'' ann_auth))))). as_user r = ''ann'' \<and> as_revoked r = None"
proof -
  have "rotate_check sample_env 7 ''ann'' ''s2'' ''t2'' ann_auth = (Inr (ann_session ''s2'' ''t2'' None, 3), ann_auth)"
    by (simp add: rotate_check_def find_session_def)
  moreover have "bump_token_version_and_revoke_all_sessions 8 ''ann'' ''root'' ann_auth =
      (Inr 4, snd (bump_token_version_and_revoke_all_sessions 8 ''ann'' ''root'' ann_auth))"
    by (simp add: bump_token_version_and_revoke_all_sessions_def Let_def)
  ultimately have "rotated sample_env 9 60 ''s9'' (ann_session ''s2'' ''t2'' None) \<in> set (sessions (snd (rotate_commit sample_env 9 60 ''s9''
      (ann_session ''s2'' ''t2'' None, 3) (snd (bump_token_version_and_revoke_all_sessions 8 ''ann'' ''root'' ann_auth)))))"
    by (rule rotation_commit_is_not_rechecked [where ?new_id2.0 = "''s8''", THEN conjunct1]) simp_all
  then show ?thesis by (rule rev_bexI) simp
qed

text \<open>
  The verdict cache does not know the user. A check of a session for its owner caches
  the verdict under the session's id alone, and while it is fresh a check of the same id for
  any other user gets the same answer, although the database would deny it.
\<close>

theorem cached_verdict_ignores_the_user:
  assumes "find_session sid owner st = Some r" and "as_revoked r = None" and "sid_cache st = []"
    and "0 < ac_sid_ttl cfg" and "now2 - now \<le> ac_sid_ttl cfg * 1000000" and "find_session sid other st = None"
  shows "\<not> fst (sid_must_deny_access cfg db_ok now2 other sid (snd (sid_must_deny_access cfg True now owner sid st))) \<and>
    is_session_revoked sid other st"
proof -
  have "snd (sid_must_deny_access cfg True now owner sid st) = st\<lparr>sid_cache := [(sid, False, now)]\<rparr>"
    using assms(1-4)
    by (simp add: sid_must_deny_access_def lru_get_fresh_def lru_put_def lru_pop_def token_ver_cache_max_def
        is_session_revoked_def find_session_def)
  with assms(4-6) show ?thesis
    by (simp add: sid_must_deny_access_def lru_get_fresh_def is_session_revoked_def)
qed

theorem cached_verdict_ignores_the_user_witness:
  "is_session_revoked ''s2'' ''bob'' ann_auth \<and>
   \<not> fst (sid_must_deny_access \<lparr>ac_enabled = True, ac_require_tv = True, ac_tv_ttl = 30, ac_require_sid = True, ac_sid_ttl = 30\<rparr>
     True 2 ''bob'' ''s2'' (snd (sid_must_deny_access
       \<lparr>ac_enabled = True, ac_require_tv = True, ac_tv_ttl = 30, ac_require_sid = True, ac_sid_ttl = 30\<rparr> True 1 ''ann'' ''s2'' ann_auth)))"
  using cached_verdict_ignores_the_user [of "''s2''" "''ann''" ann_auth "ann_session ''s2'' ''t2'' None"
      "\<lparr>ac_enabled = True, ac_require_tv = True, ac_tv_ttl = 30, ac_require_sid = True, ac_sid_ttl = 30\<rparr>" 2 1 "''bob''" True]
  by (simp add: find_session_def)

end
