(* ===== verification/SessionLoop.thy ===== *)
theory SessionLoop
  imports Prelude
begin

section \<open>The tool-calling loop\<close>

text \<open>
  Models \<open>orchestrator/loop.py\<close> and \<open>orchestrator/models/session_state.py\<close>: the budget of
  tool calls, the loop that alternates model calls and tool dispatch in its synchronous and
  its streaming form, and the two entry points. The LLM provider and \<open>run_tool\<close> are
  parameters that read and change an outside world; what the loop itself does is recorded in
  \<open>loop_world\<close>: provider calls, tool runs, the cap hook, the events of the loop callback and
  the streamed events. An exception is a value of \<open>exn\<close> that ends the loop. A provider's
  stream is the list of events it would yield and the exception it would raise after them.
\<close>

subsection \<open>Session state\<close>

record tool_chain_budget =
  tb_cap :: int
  tb_observed :: int
  tb_tripped :: bool

datatype transition_reason = ModelCall | ToolDispatch | TurnAdvance | Terminate

datatype session_terminal = Completed | MaxToolRounds

datatype session_loop_event = SiteModelCall | SiteToolDispatch | SiteTurnAdvance | SiteTerminate

record session_params =
  sp_user :: user_id
  sp_system :: string
  sp_tools :: "json list option"
  sp_use_tools :: bool
  sp_model :: string
  sp_rag :: "string list option"

record session_state =
  ss_messages :: "json_obj list"
  ss_turns :: nat
  ss_budget :: "tool_chain_budget option"
  ss_transition :: "transition_reason option"
  ss_terminal :: "session_terminal option"

definition initial_session_state :: "json_obj list \<Rightarrow> tool_chain_budget option \<Rightarrow> session_state" where
  "initial_session_state msgs budget =
     \<lparr>ss_messages = msgs, ss_turns = 0, ss_budget = budget, ss_transition = None, ss_terminal = None\<rparr>"

subsection \<open>The outside world\<close>

record llm_tool_call =
  tc_id :: string
  tc_name :: string
  tc_arguments :: json_obj

record llm_response =
  lr_text :: string
  lr_calls :: "llm_tool_call list"
  lr_stop :: string

datatype llm_event = EvText string | EvToolCall "llm_tool_call option" | EvEnd | EvOther

datatype exn = LoopTypeError string | EgressBlocked | RaisedText string

datatype stream_event = StreamText string | StreamError string

record 'w loop_world =
  lw_env :: 'w
  lw_calls :: "(json_obj list \<times> json list option \<times> string) list"
  lw_runs :: "(string \<times> json_obj \<times> user_id) list"
  lw_trips :: "(user_id \<times> int \<times> int) list"
  lw_events :: "(session_loop_event \<times> session_state) list"
  lw_stream :: "stream_event list"
  lw_overlays :: nat

record 'w loop_env =
  le_chat :: "'w \<Rightarrow> json_obj list \<Rightarrow> json list option \<Rightarrow> string \<Rightarrow> (exn + llm_response) \<times> 'w"
  le_stream :: "'w \<Rightarrow> json_obj list \<Rightarrow> json list option \<Rightarrow> string \<Rightarrow> llm_event list \<times> exn option \<times> 'w"
  le_run :: "string \<Rightarrow> json_obj \<Rightarrow> user_id \<Rightarrow> string list option \<Rightarrow> 'w \<Rightarrow> (exn + string) \<times> 'w"

definition call_chat ::
  "'w loop_env \<Rightarrow> json_obj list \<Rightarrow> json list option \<Rightarrow> string \<Rightarrow> 'w loop_world
    \<Rightarrow> (exn + llm_response) \<times> 'w loop_world" where
  "call_chat env msgs tools system w =
     (let (r, e) = le_chat env (lw_env w) msgs tools system
      in (r, w\<lparr>lw_env := e, lw_calls := lw_calls w @ [(msgs, tools, system)]\<rparr>))"

text \<open>The events up to the first \<open>end\<close>; the exception, unless an \<open>end\<close> came before it.\<close>

definition call_stream ::
  "'w loop_env \<Rightarrow> json_obj list \<Rightarrow> json list option \<Rightarrow> string \<Rightarrow> 'w loop_world
    \<Rightarrow> (llm_event list \<times> exn option) \<times> 'w loop_world" where
  "call_stream env msgs tools system w =
     (let (evs, ex, e) = le_stream env (lw_env w) msgs tools system
      in ((takeWhile (\<lambda>ev. ev \<noteq> EvEnd) evs, if EvEnd \<in> set evs then None else ex),
          w\<lparr>lw_env := e, lw_calls := lw_calls w @ [(msgs, tools, system)]\<rparr>))"

definition call_run_tool ::
  "'w loop_env \<Rightarrow> string \<Rightarrow> json_obj \<Rightarrow> user_id \<Rightarrow> string list option \<Rightarrow> 'w loop_world
    \<Rightarrow> (exn + string) \<times> 'w loop_world" where
  "call_run_tool env name args u rag w =
     (let (r, e) = le_run env name args u rag (lw_env w)
      in (r, w\<lparr>lw_env := e, lw_runs := lw_runs w @ [(name, args, u)]\<rparr>))"

definition fire_loop_event :: "session_loop_event \<Rightarrow> session_state \<Rightarrow> 'w loop_world \<Rightarrow> 'w loop_world" where
  "fire_loop_event ev st w = w\<lparr>lw_events := lw_events w @ [(ev, st)]\<rparr>"

definition emit :: "stream_event \<Rightarrow> 'w loop_world \<Rightarrow> 'w loop_world" where
  "emit ev w = w\<lparr>lw_stream := lw_stream w @ [ev]\<rparr>"

subsection \<open>Dispatch under the cap\<close>

definition lumogis_blocked_payload :: "string \<Rightarrow> tool_chain_budget \<Rightarrow> string" where
  "lumogis_blocked_payload name b = dumps (JObj
     [(''lumogis_blocked'', JBool True), (''reason'', JStr ''tool_chain_cap''),
      (''blocked_tool'', JStr name), (''cap'', JInt (tb_cap b)), (''observed'', JInt (tb_observed b))])"

definition dispatch_tool_under_cap ::
  "'w loop_env \<Rightarrow> string \<Rightarrow> json_obj \<Rightarrow> user_id \<Rightarrow> tool_chain_budget option \<Rightarrow> string list option
    \<Rightarrow> 'w loop_world \<Rightarrow> (exn + string) \<times> tool_chain_budget option \<times> 'w loop_world" where
  "dispatch_tool_under_cap env name args u budget rag w =
     (case budget of
        None \<Rightarrow> (let (r, w') = call_run_tool env name args u rag w in (r, budget, w'))
      | Some b \<Rightarrow>
          if tb_cap b \<le> 0 then (let (r, w') = call_run_tool env name args u rag w in (r, budget, w'))
          else if tb_observed b \<ge> tb_cap b then
            (let (b', w') = (if \<not> tb_tripped b
                 then (b\<lparr>tb_tripped := True\<rparr>, w\<lparr>lw_trips := lw_trips w @ [(u, tb_cap b, tb_observed b)]\<rparr>)
                 else (b, w))
             in (Inr (lumogis_blocked_payload name b'), Some b', w'))
          else
            (let b' = b\<lparr>tb_observed := tb_observed b + 1\<rparr>; (r, w') = call_run_tool env name args u rag w
             in (r, Some b', w')))"

definition tool_message :: "string \<Rightarrow> string \<Rightarrow> json_obj" where
  "tool_message i content = [(''role'', JStr ''tool''), (''tool_call_id'', JStr i), (''content'', JStr content)]"

fun dispatch_all ::
  "'w loop_env \<Rightarrow> session_params \<Rightarrow> llm_tool_call list \<Rightarrow> tool_chain_budget option \<Rightarrow> 'w loop_world
    \<Rightarrow> (exn + json_obj list) \<times> tool_chain_budget option \<times> 'w loop_world" where
  "dispatch_all env ps [] b w = (Inr [], b, w)"
| "dispatch_all env ps (tc # tcs) b w =
     (case dispatch_tool_under_cap env (tc_name tc) (tc_arguments tc) (sp_user ps) b (sp_rag ps) w of
        (Inl e, b', w') \<Rightarrow> (Inl e, b', w')
      | (Inr content, b', w') \<Rightarrow>
          (case dispatch_all env ps tcs b' w' of
             (Inl e, b'', w'') \<Rightarrow> (Inl e, b'', w'')
           | (Inr msgs, b'', w'') \<Rightarrow> (Inr (tool_message (tc_id tc) content # msgs), b'', w'')))"

subsection \<open>One answer of the model\<close>

definition call_json :: "llm_tool_call \<Rightarrow> json" where
  "call_json tc = JObj [(''id'', JStr (tc_id tc)), (''name'', JStr (tc_name tc)),
     (''arguments'', JObj (tc_arguments tc))]"

definition assistant_message :: "string \<Rightarrow> llm_tool_call list \<Rightarrow> json_obj" where
  "assistant_message text calls =
     [(''role'', JStr ''assistant''), (''content'', JStr text)] @
     (if calls = [] then [] else [(''tool_calls'', JList (map call_json calls))])"

definition sync_should_dispatch :: "llm_response \<Rightarrow> bool" where
  "sync_should_dispatch r = (lr_stop r = ''tool_calls'' \<and> lr_calls r \<noteq> [])"

fun stream_texts :: "llm_event list \<Rightarrow> string list" where
  "stream_texts [] = []"
| "stream_texts (EvText t # evs) = t # stream_texts evs"
| "stream_texts (_ # evs) = stream_texts evs"

fun stream_calls :: "llm_event list \<Rightarrow> llm_tool_call list" where
  "stream_calls [] = []"
| "stream_calls (EvToolCall (Some tc) # evs) = tc # stream_calls evs"
| "stream_calls (_ # evs) = stream_calls evs"

definition emit_texts :: "llm_event list \<Rightarrow> 'w loop_world \<Rightarrow> 'w loop_world" where
  "emit_texts evs w = w\<lparr>lw_stream := lw_stream w @ map StreamText (stream_texts evs)\<rparr>"

text \<open>
  A model call in either form: the assistant message, the tool calls to dispatch (none when
  the turn ends), and the world after it. In the synchronous form a response whose stop
  reason is not \<open>tool_calls\<close> ends the turn even if it carries calls.
\<close>

definition model_turn ::
  "'w loop_env \<Rightarrow> bool \<Rightarrow> json list option \<Rightarrow> string \<Rightarrow> json_obj list \<Rightarrow> 'w loop_world
    \<Rightarrow> (exn + json_obj \<times> llm_tool_call list) \<times> 'w loop_world" where
  "model_turn env stream tools system msgs w =
     (if \<not> stream then
        (case call_chat env msgs tools system w of
           (Inl e, w') \<Rightarrow> (Inl e, w')
         | (Inr r, w') \<Rightarrow>
             (Inr (assistant_message (lr_text r) (lr_calls r), if sync_should_dispatch r then lr_calls r else []), w'))
      else
        (case call_stream env msgs tools system w of
           ((evs, ex), w') \<Rightarrow>
             let w'' = emit_texts evs w' in
             (case ex of
                Some e \<Rightarrow> (Inl e, w'')
              | None \<Rightarrow> (Inr (assistant_message (concat (stream_texts evs)) (stream_calls evs), stream_calls evs), w''))))"

text \<open>The forced last call: no tools; the streaming form ignores tool calls in it.\<close>

definition final_turn ::
  "'w loop_env \<Rightarrow> bool \<Rightarrow> string \<Rightarrow> json_obj list \<Rightarrow> 'w loop_world \<Rightarrow> (exn + json_obj) \<times> 'w loop_world" where
  "final_turn env stream system msgs w =
     (if \<not> stream then
        (case call_chat env msgs None system w of
           (Inl e, w') \<Rightarrow> (Inl e, w')
         | (Inr r, w') \<Rightarrow> (Inr (assistant_message (lr_text r) (lr_calls r)), w'))
      else
        (case call_stream env msgs None system w of
           ((evs, ex), w') \<Rightarrow>
             let w'' = emit_texts evs w' in
             (case ex of
                Some e \<Rightarrow> (Inl e, w'')
              | None \<Rightarrow> (Inr (assistant_message (concat (stream_texts evs)) []), w''))))"

subsection \<open>The loop\<close>

definition max_tool_rounds :: nat where
  "max_tool_rounds = 2"

definition finish_session ::
  "session_terminal \<Rightarrow> json_obj \<Rightarrow> session_state \<Rightarrow> 'w loop_world \<Rightarrow> (session_terminal \<times> session_state) \<times> 'w loop_world" where
  "finish_session t msg st w =
     (let st' = st\<lparr>ss_messages := ss_messages st @ [msg], ss_transition := Some Terminate, ss_terminal := Some t\<rparr>
      in ((t, st'), fire_loop_event SiteTerminate st' w))"

fun session_rounds ::
  "'w loop_env \<Rightarrow> session_params \<Rightarrow> bool \<Rightarrow> nat \<Rightarrow> session_state \<Rightarrow> 'w loop_world
    \<Rightarrow> (exn + session_terminal \<times> session_state) \<times> 'w loop_world" where
  "session_rounds env ps stream 0 st w =
     (case final_turn env stream (sp_system ps) (ss_messages st) w of
        (Inl e, w1) \<Rightarrow> (Inl e, w1)
      | (Inr msg, w1) \<Rightarrow>
          let st1 = st\<lparr>ss_transition := Some ModelCall\<rparr>;
              (res, w2) = finish_session MaxToolRounds msg st1 (fire_loop_event SiteModelCall st1 w1)
          in (Inr res, w2))"
| "session_rounds env ps stream (Suc n) st w =
     (case model_turn env stream (sp_tools ps) (sp_system ps) (ss_messages st) w of
        (Inl e, w1) \<Rightarrow> (Inl e, w1)
      | (Inr (msg, calls), w1) \<Rightarrow>
          let st1 = st\<lparr>ss_transition := Some ModelCall\<rparr>; w2 = fire_loop_event SiteModelCall st1 w1 in
          if calls = [] then
            (let (res, w3) = finish_session Completed msg st1 w2 in (Inr res, w3))
          else
            (case dispatch_all env ps calls (ss_budget st1) w2 of
               (Inl e, b, w3) \<Rightarrow> (Inl e, w3)
             | (Inr tool_msgs, b, w3) \<Rightarrow>
                 let st2 = st1\<lparr>ss_messages := ss_messages st1 @ [msg] @ tool_msgs, ss_budget := b,
                               ss_transition := Some ToolDispatch\<rparr>;
                     w4 = fire_loop_event SiteToolDispatch st2 w3;
                     st3 = st2\<lparr>ss_turns := ss_turns st2 + 1, ss_transition := Some TurnAdvance\<rparr>;
                     w5 = fire_loop_event SiteTurnAdvance st3 w4;
                     w6 = (if stream then emit (StreamText [char_of (10::nat), char_of (10::nat)]) w5 else w5)
                 in session_rounds env ps stream n st3 w6))"

definition run_session_loop ::
  "'w loop_env \<Rightarrow> session_params \<Rightarrow> bool \<Rightarrow> session_state \<Rightarrow> 'w loop_world
    \<Rightarrow> (exn + session_terminal \<times> session_state) \<times> 'w loop_world" where
  "run_session_loop env ps stream st w = session_rounds env ps stream (max_tool_rounds + 1) st w"

subsection \<open>Entry points\<close>

definition system_prompt_tools :: string where
  "system_prompt_tools = ''You are Lumogis, a local-first AI assistant. '' @
     ''You have access to tools that search and read the user's local files. '' @
     ''IMPORTANT: Be efficient with tool calls. Search once with a broad query, '' @
     ''then answer using the results you get. Do NOT search repeatedly with '' @
     ''slight variations. If the first search returns relevant results, '' @
     ''use read_file on the most promising one and then give your answer. '' @
     ''Aim to answer within 1-2 tool calls.''"

definition system_prompt_no_tools :: string where
  "system_prompt_no_tools =
     ''You are Lumogis, a local-first AI assistant running locally on the user's machine. '' @
     ''You do NOT have access to any tools, file search, or file reading capabilities. '' @
     ''Never pretend to search files, read files, or call tools. Never fabricate file names '' @
     ''or file contents. If the user asks you to search or read their files, tell them to '' @
     ''switch to Claude (Cloud) or Qwen 2.5 (Local) which have file search capabilities. '' @
     ''Answer questions using only your own knowledge.''"

definition system_prompt :: "bool \<Rightarrow> string" where
  "system_prompt use_tools = (if use_tools then system_prompt_tools else system_prompt_no_tools)"

definition get_tool_chain_cap :: "string option \<Rightarrow> int" where
  "get_tool_chain_cap raw =
     (case py_int (case raw of None \<Rightarrow> ''10'' | Some s \<Rightarrow> s) of None \<Rightarrow> 10 | Some n \<Rightarrow> max 0 n)"

text \<open>
  What the entry points call outside \<open>loop.py\<close>: the resolution of the model, the provider
  factory (which can refuse), and the tool overlay. \<open>ae_prepare\<close> answers the tools and
  whether it installed an overlay that has to be taken down again.
\<close>

record 'w ask_env =
  ae_loop :: "'w loop_env"
  ae_resolve :: "string \<Rightarrow> user_id \<Rightarrow> 'w \<Rightarrow> exn + string"
  ae_provider :: "string \<Rightarrow> user_id \<Rightarrow> 'w \<Rightarrow> exn + unit"
  ae_prepare :: "user_id \<Rightarrow> 'w \<Rightarrow> exn + json list \<times> bool"
  ae_default_tools :: "json list"
  ae_cap_raw :: "string option"

definition prepare_tools ::
  "'w ask_env \<Rightarrow> bool \<Rightarrow> user_id \<Rightarrow> 'w loop_world \<Rightarrow> (json list option \<times> bool) \<times> 'w loop_world" where
  "prepare_tools env use_tools u w =
     (if \<not> use_tools then ((None, False), w)
      else case ae_prepare env u (lw_env w) of
        Inl e \<Rightarrow> ((Some (ae_default_tools env), False), w)
      | Inr (tools, overlay) \<Rightarrow>
          ((Some tools, overlay), if overlay then w\<lparr>lw_overlays := lw_overlays w + 1\<rparr> else w))"

definition finish_llm_tools_request :: "bool \<Rightarrow> 'w loop_world \<Rightarrow> 'w loop_world" where
  "finish_llm_tools_request overlay w = (if overlay then w\<lparr>lw_overlays := lw_overlays w - 1\<rparr> else w)"

definition chain_budget :: "'w ask_env \<Rightarrow> tool_chain_budget option" where
  "chain_budget env = (let cap = get_tool_chain_cap (ae_cap_raw env) in
     if cap > 0 then Some \<lparr>tb_cap = cap, tb_observed = 0, tb_tripped = False\<rparr> else None)"

definition build_session ::
  "'w ask_env \<Rightarrow> string \<Rightarrow> json_obj list option \<Rightarrow> string \<Rightarrow> bool \<Rightarrow> user_id \<Rightarrow> json list option
    \<Rightarrow> string list option \<Rightarrow> session_params \<times> session_state" where
  "build_session env question history model use_tools u tools rag =
     (let msgs = (case history of None \<Rightarrow> [] | Some h \<Rightarrow> h) @ [[(''role'', JStr ''user''), (''content'', JStr question)]]
      in (\<lparr>sp_user = u, sp_system = system_prompt use_tools, sp_tools = tools, sp_use_tools = use_tools,
           sp_model = model, sp_rag = rag\<rparr>,
          initial_session_state msgs (chain_budget env)))"

text \<open>The answer is the content of the last message; the loop only writes texts there.\<close>

definition message_content :: "json_obj \<Rightarrow> string" where
  "message_content m = (case map_of m ''content'' of Some (JStr s) \<Rightarrow> s | None \<Rightarrow> [] | Some j \<Rightarrow> dumps j)"

definition ask ::
  "'w ask_env \<Rightarrow> string \<Rightarrow> json_obj list option \<Rightarrow> string \<Rightarrow> bool \<Rightarrow> user_id \<Rightarrow> string list option
    \<Rightarrow> 'w loop_world \<Rightarrow> (exn + string) \<times> 'w loop_world" where
  "ask env question history model use_tools u rag w =
     (if u = [] then (Inl (LoopTypeError ''loop.ask: user_id (keyword-only) is required''), w)
      else case ae_resolve env model u (lw_env w) of
        Inl e \<Rightarrow> (Inl e, w)
      | Inr eff \<Rightarrow>
          (case ae_provider env eff u (lw_env w) of
             Inl e \<Rightarrow> (Inl e, w)
           | Inr _ \<Rightarrow>
               let ((tools, overlay), w1) = prepare_tools env use_tools u w;
                   (ps, st) = build_session env question history eff use_tools u tools rag;
                   (res, w2) = run_session_loop (ae_loop env) ps False st w1;
                   w3 = finish_llm_tools_request overlay w2
               in (case res of
                     Inl e \<Rightarrow> (Inl e, w3)
                   | Inr (t, st') \<Rightarrow> (Inr (message_content (last (ss_messages st'))), w3))))"

definition exn_text :: "exn \<Rightarrow> string" where
  "exn_text e = (case e of LoopTypeError m \<Rightarrow> m | EgressBlocked \<Rightarrow> [] | RaisedText m \<Rightarrow> m)"

definition friendly_error :: "exn \<Rightarrow> string" where
  "friendly_error e =
     (if e = EgressBlocked then ''Connection blocked by egress guard. Check allowlist configuration.''
      else let msg = py_lower (exn_text e) in
        if is_infix_of ''rate_limit'' msg \<or> is_infix_of ''429'' msg
        then ''The AI provider's rate limit was reached. Please wait a minute and try again.''
        else if is_infix_of ''401'' msg \<or> is_infix_of ''auth'' msg
        then ''Authentication failed. Check your API key in .env.''
        else if is_infix_of ''timeout'' msg then ''The request timed out. Please try again.''
        else ''Sorry, something went wrong. Check the orchestrator logs for details.'')"

text \<open>
  The generator run to its end. \<open>Inl\<close> is the \<open>TypeError\<close> of the missing user; every other
  exception becomes an error event of the stream.
\<close>

definition ask_stream ::
  "'w ask_env \<Rightarrow> string \<Rightarrow> json_obj list option \<Rightarrow> string \<Rightarrow> bool \<Rightarrow> user_id \<Rightarrow> string list option
    \<Rightarrow> 'w loop_world \<Rightarrow> (exn + unit) \<times> 'w loop_world" where
  "ask_stream env question history model use_tools u rag w =
     (if u = [] then (Inl (LoopTypeError ''loop.ask_stream: user_id (keyword-only) is required''), w)
      else
        let ((tools, overlay), w1) = prepare_tools env use_tools u w;
            (failure, w2) =
              (case ae_resolve env model u (lw_env w1) of
                 Inl e \<Rightarrow> (Some e, w1)
               | Inr eff \<Rightarrow>
                   (case ae_provider env eff u (lw_env w1) of
                      Inl e \<Rightarrow> (Some e, w1)
                    | Inr _ \<Rightarrow>
                        let (ps, st) = build_session env question history eff use_tools u tools rag
                        in (case run_session_loop (ae_loop env) ps True st w1 of
                              (Inl e, w') \<Rightarrow> (Some e, w') | (Inr _, w') \<Rightarrow> (None, w'))));
            w3 = (case failure of None \<Rightarrow> w2 | Some e \<Rightarrow> emit (StreamError (friendly_error e)) w2)
        in (Inr (), finish_llm_tools_request overlay w3))"

subsection \<open>What the steps leave alone\<close>

lemma fire_frame [frame]:
  "lw_env (fire_loop_event ev st w) = lw_env w" "lw_calls (fire_loop_event ev st w) = lw_calls w"
  "lw_runs (fire_loop_event ev st w) = lw_runs w" "lw_trips (fire_loop_event ev st w) = lw_trips w"
  "lw_overlays (fire_loop_event ev st w) = lw_overlays w"
  by (simp_all add: fire_loop_event_def)

lemma emit_frame [frame]:
  "lw_env (emit ev w) = lw_env w" "lw_calls (emit ev w) = lw_calls w" "lw_runs (emit ev w) = lw_runs w"
  "lw_trips (emit ev w) = lw_trips w" "lw_overlays (emit ev w) = lw_overlays w"
  by (simp_all add: emit_def)

lemma finish_session_frame [frame]:
  assumes "finish_session t msg st w = (res, w')"
  shows "lw_calls w' = lw_calls w" "lw_runs w' = lw_runs w" "lw_trips w' = lw_trips w"
    "lw_overlays w' = lw_overlays w"
    "res = (t, st\<lparr>ss_messages := ss_messages st @ [msg], ss_transition := Some Terminate, ss_terminal := Some t\<rparr>)"
  using assms by (auto simp: finish_session_def Let_def frame)

lemma model_turn_frame:
  assumes "model_turn env stream tools system msgs w = (res, w')"
  shows "lw_calls w' = lw_calls w @ [(msgs, tools, system)]" "lw_runs w' = lw_runs w"
    "lw_trips w' = lw_trips w" "lw_overlays w' = lw_overlays w"
  using assms
  by (auto simp: model_turn_def call_chat_def call_stream_def emit_texts_def Let_def
      split: if_splits prod.splits sum.splits option.splits)

lemma final_turn_frame:
  assumes "final_turn env stream system msgs w = (res, w')"
  shows "lw_calls w' = lw_calls w @ [(msgs, None, system)]" "lw_runs w' = lw_runs w"
    "lw_trips w' = lw_trips w" "lw_overlays w' = lw_overlays w"
  using assms
  by (auto simp: final_turn_def call_chat_def call_stream_def emit_texts_def Let_def
      split: if_splits prod.splits sum.splits option.splits)

lemma dispatch_tool_frame:
  assumes "dispatch_tool_under_cap env name args u b rag w = (res, b', w')"
  shows "lw_calls w' = lw_calls w" "lw_overlays w' = lw_overlays w"
  using assms
  by (auto simp: dispatch_tool_under_cap_def call_run_tool_def Let_def split: option.splits if_splits prod.splits)

lemma dispatch_all_ConsE:
  assumes "dispatch_all env ps (tc # tcs) b w = (res, b', w')"
  obtains (tool_raised) e where
      "dispatch_tool_under_cap env (tc_name tc) (tc_arguments tc) (sp_user ps) b (sp_rag ps) w = (Inl e, b', w')"
      "res = Inl e"
  | (tool_ran) content b1 w1 rest where
      "dispatch_tool_under_cap env (tc_name tc) (tc_arguments tc) (sp_user ps) b (sp_rag ps) w = (Inr content, b1, w1)"
      "dispatch_all env ps tcs b1 w1 = (rest, b', w')"
      "res = map_sum (\<lambda>e. e) (\<lambda>msgs. tool_message (tc_id tc) content # msgs) rest"
  using assms by (auto split: prod.splits sum.splits)

lemma dispatch_all_frame:
  "dispatch_all env ps tcs b w = (res, b', w') \<Longrightarrow> lw_calls w' = lw_calls w \<and> lw_overlays w' = lw_overlays w"
proof (induction tcs arbitrary: b w res)
  case Nil
  then show ?case by simp
next
  case (Cons tc tcs)
  from Cons.prems show ?case
  proof (cases rule: dispatch_all_ConsE)
    case tool_raised
    then show ?thesis by (simp add: dispatch_tool_frame)
  next
    case tool_ran
    with Cons.IH show ?thesis by (metis dispatch_tool_frame)
  qed
qed

text \<open>The four ways one round goes.\<close>

definition after_call :: "session_state \<Rightarrow> session_state" where
  "after_call st = st\<lparr>ss_transition := Some ModelCall\<rparr>"

definition after_tools :: "session_state \<Rightarrow> json_obj \<Rightarrow> json_obj list \<Rightarrow> tool_chain_budget option \<Rightarrow> session_state" where
  "after_tools st msg tool_msgs b =
     st\<lparr>ss_messages := ss_messages st @ [msg] @ tool_msgs, ss_budget := b, ss_turns := ss_turns st + 1,
        ss_transition := Some TurnAdvance\<rparr>"

lemma session_round_SucE:
  assumes "session_rounds env ps stream (Suc n) st w = (res, w')"
  obtains (raised) e where
      "model_turn env stream (sp_tools ps) (sp_system ps) (ss_messages st) w = (Inl e, w')" "res = Inl e"
  | (answered) msg w1 r where
      "model_turn env stream (sp_tools ps) (sp_system ps) (ss_messages st) w = (Inr (msg, []), w1)"
      "finish_session Completed msg (after_call st) (fire_loop_event SiteModelCall (after_call st) w1) = (r, w')"
      "res = Inr r"
  | (tool_raised) msg calls w1 e b where "calls \<noteq> []"
      "model_turn env stream (sp_tools ps) (sp_system ps) (ss_messages st) w = (Inr (msg, calls), w1)"
      "dispatch_all env ps calls (ss_budget st) (fire_loop_event SiteModelCall (after_call st) w1) = (Inl e, b, w')"
      "res = Inl e"
  | (advanced) msg calls w1 tool_msgs b w2 w3 where "calls \<noteq> []"
      "model_turn env stream (sp_tools ps) (sp_system ps) (ss_messages st) w = (Inr (msg, calls), w1)"
      "dispatch_all env ps calls (ss_budget st) (fire_loop_event SiteModelCall (after_call st) w1) = (Inr tool_msgs, b, w2)"
      "lw_env w3 = lw_env w2" "lw_calls w3 = lw_calls w2" "lw_runs w3 = lw_runs w2" "lw_trips w3 = lw_trips w2"
      "lw_overlays w3 = lw_overlays w2"
      "session_rounds env ps stream n (after_tools st msg tool_msgs b) w3 = (res, w')"
proof (cases "model_turn env stream (sp_tools ps) (sp_system ps) (ss_messages st) w")
  case (Pair out w1)
  show ?thesis
  proof (cases out)
    case (Inl e)
    with Pair assms raised show ?thesis by simp
  next
    case (Inr turn)
    obtain msg calls where turn: "turn = (msg, calls)" by (cases turn)
    show ?thesis
    proof (cases "calls = []")
      case True
      with Inr turn Pair assms answered show ?thesis
        by (auto simp: after_call_def Let_def split: prod.splits)
    next
      case False
      obtain r b w2 where d: "dispatch_all env ps calls (ss_budget st) (fire_loop_event SiteModelCall (after_call st) w1) = (r, b, w2)"
        by (metis prod_cases3)
      show ?thesis
      proof (cases r)
        case (Inl e)
        with False Inr turn Pair assms d tool_raised [OF False, of msg w1 e b] show ?thesis
          by (simp add: after_call_def Let_def)
      next
        case ok: (Inr tool_msgs)
        let ?mid = "(after_call st)\<lparr>ss_messages := ss_messages st @ [msg] @ tool_msgs, ss_budget := b,
            ss_transition := Some ToolDispatch\<rparr>"
        let ?w3 = "fire_loop_event SiteTurnAdvance (after_tools st msg tool_msgs b) (fire_loop_event SiteToolDispatch ?mid w2)"
        let ?w4 = "if stream then emit (StreamText [char_of (10::nat), char_of (10::nat)]) ?w3 else ?w3"
        have "session_rounds env ps stream n (after_tools st msg tool_msgs b) ?w4 = (res, w')"
          using False Inr turn Pair assms d ok
          by (cases stream) (simp_all add: after_call_def after_tools_def Let_def)
        with advanced [OF False, of msg w1 tool_msgs b w2 ?w4] Inr turn Pair d ok show ?thesis
          by (simp add: frame)
      qed
    qed
  qed
qed

lemma session_round_0E:
  assumes "session_rounds env ps stream 0 st w = (res, w')"
  obtains (raised) e where "final_turn env stream (sp_system ps) (ss_messages st) w = (Inl e, w')" "res = Inl e"
  | (answered) msg w1 r where "final_turn env stream (sp_system ps) (ss_messages st) w = (Inr msg, w1)"
      "finish_session MaxToolRounds msg (after_call st) (fire_loop_event SiteModelCall (after_call st) w1) = (r, w')"
      "res = Inr r"
  using assms by (auto simp: after_call_def Let_def split: prod.splits sum.splits)

declare session_rounds.simps [simp del]

lemma after_simps [simp]:
  "ss_messages (after_call st) = ss_messages st" "ss_turns (after_call st) = ss_turns st"
  "ss_budget (after_call st) = ss_budget st"
  "ss_messages (after_tools st msg tms b) = ss_messages st @ msg # tms"
  "ss_turns (after_tools st msg tms b) = ss_turns st + 1" "ss_budget (after_tools st msg tms b) = b"
  by (simp_all add: after_call_def after_tools_def)

subsection \<open>Bounded rounds\<close>

text \<open>What \<open>n\<close> rounds may ask the provider for, in order: the tools in every round, none in the last call.\<close>

definition offers :: "session_params \<Rightarrow> nat \<Rightarrow> (json list option \<times> string) list" where
  "offers ps n = replicate n (sp_tools ps, sp_system ps) @ [(None, sp_system ps)]"

lemma offers_simps [simp]: "offers ps 0 = [(None, sp_system ps)]" "offers ps (Suc n) = (sp_tools ps, sp_system ps) # offers ps n" "length (offers ps n) = Suc n"
  by (simp_all add: offers_def)

lemma rounds_bounded:
  "session_rounds env ps stream n st w = (res, w') \<Longrightarrow>
    \<exists>calls. lw_calls w' = lw_calls w @ calls \<and> calls \<noteq> [] \<and> length calls \<le> Suc n \<and> map snd calls = take (length calls) (offers ps n) \<and>
      (\<forall>t st'. res = Inr (t, st') \<longrightarrow> ss_terminal st' = Some t \<and> ss_turns st' + 1 = ss_turns st + length calls \<and> (t = Completed) = (length calls \<le> n))"
proof (induction n arbitrary: st w)
  case 0
  from 0 show ?case
  proof (cases rule: session_round_0E)
    case raised
    then show ?thesis by (simp add: final_turn_frame)
  next
    case (answered msg w1 r)
    with finish_session_frame [OF answered(2)] show ?thesis by (auto simp: final_turn_frame frame)
  qed
next
  case (Suc n)
  from Suc.prems show ?case
  proof (cases rule: session_round_SucE)
    case raised
    then show ?thesis by (simp add: model_turn_frame)
  next
    case (answered msg w1 r)
    with finish_session_frame [OF answered(2)] show ?thesis by (auto simp: model_turn_frame frame)
  next
    case (tool_raised msg calls w1 e b)
    then show ?thesis by (simp add: model_turn_frame dispatch_all_frame frame)
  next
    case (advanced msg calls w1 tool_msgs b w2 w3)
    have one: "lw_calls w3 = lw_calls w @ [(ss_messages st, sp_tools ps, sp_system ps)]"
      using advanced(2,5) dispatch_all_frame [OF advanced(3)] by (simp add: model_turn_frame frame)
    from Suc.IH [OF advanced(9)] obtain cs where cs: "lw_calls w' = lw_calls w3 @ cs" "cs \<noteq> []" "length cs \<le> Suc n" "map snd cs = take (length cs) (offers ps n)"
      "\<forall>t st'. res = Inr (t, st') \<longrightarrow> ss_terminal st' = Some t \<and> ss_turns st' + 1 = ss_turns st + 1 + length cs \<and> (t = Completed) = (length cs \<le> n)"
      by auto
    show ?thesis by (rule exI [of _ "(ss_messages st, sp_tools ps, sp_system ps) # cs"]) (use one cs in auto)
  qed
qed

text \<open>A bound on the tool calls in one answer of the model bounds the tools that are run.\<close>

definition answers_within :: "nat \<Rightarrow> 'w loop_env \<Rightarrow> bool" where
  "answers_within k env \<longleftrightarrow>
     (\<forall>e msgs tools system r e'. le_chat env e msgs tools system = (Inr r, e') \<longrightarrow> length (lr_calls r) \<le> k) \<and>
     (\<forall>e msgs tools system evs ex e'. le_stream env e msgs tools system = (evs, ex, e') \<longrightarrow> length (stream_calls evs) \<le> k)"

lemma stream_calls_takeWhile: "length (stream_calls (takeWhile P evs)) \<le> length (stream_calls evs)"
  by (induction evs rule: stream_calls.induct) auto

lemma model_turn_calls:
  assumes "model_turn env stream tools system msgs w = (Inr (msg, calls), w')" and "answers_within k env"
  shows "length calls \<le> k"
proof (cases stream)
  case True
  obtain evs ex e where v: "le_stream env (lw_env w) msgs tools system = (evs, ex, e)" by (metis prod_cases3)
  then have "calls = stream_calls (takeWhile (\<lambda>ev. ev \<noteq> EvEnd) evs)"
    using assms(1) True by (auto simp: model_turn_def call_stream_def Let_def split: if_splits option.splits)
  with stream_calls_takeWhile [of "\<lambda>ev. ev \<noteq> EvEnd" evs] v assms(2) show ?thesis unfolding answers_within_def by fastforce
next
  case False
  with assms show ?thesis by (fastforce simp: model_turn_def call_chat_def answers_within_def split: if_splits prod.splits sum.splits)
qed

lemma dispatch_tool_runs:
  "dispatch_tool_under_cap env name args u b rag w = (res, b', w') \<Longrightarrow> length (lw_runs w') \<le> Suc (length (lw_runs w))"
  by (auto simp: dispatch_tool_under_cap_def call_run_tool_def Let_def split: option.splits if_splits prod.splits)

lemma dispatch_all_runs: "dispatch_all env ps tcs b w = (res, b', w') \<Longrightarrow> length (lw_runs w') \<le> length (lw_runs w) + length tcs"
proof (induction tcs arbitrary: b w res)
  case (Cons tc tcs)
  from Cons.prems show ?case
  proof (cases rule: dispatch_all_ConsE)
    case tool_raised
    then show ?thesis using dispatch_tool_runs by fastforce
  next
    case (tool_ran content b1 w1 rest)
    from dispatch_tool_runs [OF tool_ran(1)] Cons.IH [OF tool_ran(2)] show ?thesis by simp
  qed
qed simp

lemma rounds_runs:
  "session_rounds env ps stream n st w = (res, w') \<Longrightarrow> answers_within k env \<Longrightarrow> length (lw_runs w') \<le> length (lw_runs w) + n * k"
proof (induction n arbitrary: st w)
  case 0
  from 0(1) show ?case
  proof (cases rule: session_round_0E)
    case raised
    then show ?thesis by (simp add: final_turn_frame)
  next
    case (answered msg w1 r)
    with finish_session_frame [OF answered(2)] show ?thesis by (simp add: final_turn_frame frame)
  qed
next
  case (Suc n)
  from Suc.prems(1) show ?case
  proof (cases rule: session_round_SucE)
    case raised
    then show ?thesis by (simp add: model_turn_frame)
  next
    case (answered msg w1 r)
    with finish_session_frame [OF answered(2)] show ?thesis by (simp add: model_turn_frame frame)
  next
    case (tool_raised msg calls w1 e b)
    with dispatch_all_runs [OF tool_raised(3)] model_turn_calls [OF tool_raised(2) Suc.prems(2)] model_turn_frame(2) [OF tool_raised(2)]
    show ?thesis by (simp add: frame)
  next
    case (advanced msg calls w1 tool_msgs b w2 w3)
    have "length (lw_runs w3) \<le> length (lw_runs w) + k"
      using dispatch_all_runs [OF advanced(3)] model_turn_calls [OF advanced(2) Suc.prems(2)] model_turn_frame(2) [OF advanced(2)] advanced(6)
      by (simp add: frame)
    with Suc.IH [OF advanced(9) Suc.prems(2)] show ?thesis by simp
  qed
qed

text \<open>
  C38. The loop always ends, whether it answers or raises. Every run makes at least one and at most four provider
  calls; the first three offer the tools and the fourth, if it is made, offers none. Tools are
  dispatched only in answer to the first three: if no answer of the model has more than \<open>k\<close> tool
  calls, at most \<open>3 k\<close> tools are run, also by a run that raises. A run that returns has made one provider
  call more than it counted rounds, reports the limit exactly when it made all four calls,
  and the state it returns carries the terminal it reports.
\<close>

theorem tool_loop_is_bounded:
  assumes "run_session_loop env ps stream (initial_session_state msgs budget) w = (res, w')"
  shows "(\<exists>calls. lw_calls w' = lw_calls w @ calls \<and> 1 \<le> length calls \<and> length calls \<le> 4 \<and>
      map snd calls = take (length calls) [(sp_tools ps, sp_system ps), (sp_tools ps, sp_system ps), (sp_tools ps, sp_system ps), (None, sp_system ps)] \<and>
      (case res of Inl e \<Rightarrow> True
       | Inr (t, st') \<Rightarrow> ss_terminal st' = Some t \<and> length calls = ss_turns st' + 1 \<and> (t = MaxToolRounds) = (length calls = 4))) \<and>
    (\<forall>k. answers_within k env \<longrightarrow> length (lw_runs w') \<le> length (lw_runs w) + 3 * k)"
proof
  note run = assms [unfolded run_session_loop_def max_tool_rounds_def]
  have three: "offers ps (2 + 1) = [(sp_tools ps, sp_system ps), (sp_tools ps, sp_system ps), (sp_tools ps, sp_system ps), (None, sp_system ps)]"
    by (simp add: offers_def numeral_3_eq_3)
  from rounds_bounded [OF run] obtain calls where c: "lw_calls w' = lw_calls w @ calls" "calls \<noteq> []" "length calls \<le> 4"
    "map snd calls = take (length calls) (offers ps (2 + 1))"
    "\<forall>t st'. res = Inr (t, st') \<longrightarrow> ss_terminal st' = Some t \<and> ss_turns st' + 1 = length calls \<and> (t = Completed) = (length calls \<le> 3)"
    by (auto simp: initial_session_state_def)
  have last: "case res of Inl e \<Rightarrow> True
      | Inr (t, st') \<Rightarrow> ss_terminal st' = Some t \<and> length calls = ss_turns st' + 1 \<and> (t = MaxToolRounds) = (length calls = 4)"
  proof (cases res)
    case (Inr r)
    obtain t st' where r: "r = (t, st')" by (cases r)
    with c(3,5) Inr show ?thesis by (cases t) auto
  qed simp
  have "1 \<le> length calls" using c(2) by (cases calls) simp_all
  with c last show "\<exists>calls. lw_calls w' = lw_calls w @ calls \<and> 1 \<le> length calls \<and> length calls \<le> 4 \<and>
      map snd calls = take (length calls) [(sp_tools ps, sp_system ps), (sp_tools ps, sp_system ps), (sp_tools ps, sp_system ps), (None, sp_system ps)] \<and>
      (case res of Inl e \<Rightarrow> True
       | Inr (t, st') \<Rightarrow> ss_terminal st' = Some t \<and> length calls = ss_turns st' + 1 \<and> (t = MaxToolRounds) = (length calls = 4))"
    unfolding three by blast
  show "\<forall>k. answers_within k env \<longrightarrow> length (lw_runs w') \<le> length (lw_runs w) + 3 * k" using rounds_runs [OF run] by simp
qed

definition chatty :: "nat \<Rightarrow> unit loop_env" where
  "chatty k = \<lparr>le_chat = (\<lambda>e ms tools sys. (Inr \<lparr>lr_text = ''hm'',
        lr_calls = (if tools = None then [] else replicate k \<lparr>tc_id = ''c'', tc_name = ''search_files'', tc_arguments = []\<rparr>),
        lr_stop = (if tools = None then ''stop'' else ''tool_calls'')\<rparr>, e)),
     le_stream = (\<lambda>e ms tools sys. (EvText ''hm'' # (if tools = None then []
        else replicate k (EvToolCall (Some \<lparr>tc_id = ''c'', tc_name = ''search_files'', tc_arguments = []\<rparr>))) @ [EvEnd], None, e)),
     le_run = (\<lambda>name args u rag e. (Inr ''found'', e))\<rparr>"

definition quiet_world :: "unit loop_world" where
  "quiet_world = \<lparr>lw_env = (), lw_calls = [], lw_runs = [], lw_trips = [], lw_events = [], lw_stream = [], lw_overlays = 0\<rparr>"

definition sample_params :: session_params where
  "sample_params = \<lparr>sp_user = ''ann'', sp_system = ''sys'', sp_tools = Some [], sp_use_tools = True, sp_model = ''m'', sp_rag = None\<rparr>"

lemma chatty_within: "answers_within 2 (chatty 2)"
  by (auto simp: answers_within_def chatty_def numeral_2_eq_2)

theorem tool_loop_is_bounded_witness:
  "length (lw_calls (snd (run_session_loop (chatty 2) sample_params False (initial_session_state [] None) quiet_world))) \<le> 4 \<and>
   length (lw_runs (snd (run_session_loop (chatty 2) sample_params False (initial_session_state [] None) quiet_world))) \<le> 6"
proof -
  let ?run = "run_session_loop (chatty 2) sample_params False (initial_session_state [] None) quiet_world"
  have "?run = (fst ?run, snd ?run)" by (rule prod.collapse [symmetric])
  from tool_loop_is_bounded [OF this] chatty_within show ?thesis
    by (auto simp: quiet_world_def)
qed

subsection \<open>The cap on tool calls\<close>

definition budget_inv :: "int \<Rightarrow> 'w loop_world \<Rightarrow> tool_chain_budget option \<Rightarrow> 'w loop_world \<Rightarrow> bool" where
  "budget_inv cap w0 b w \<longleftrightarrow> (\<exists>bb. b = Some bb \<and> tb_cap bb = cap \<and> 0 \<le> tb_observed bb \<and> tb_observed bb \<le> cap \<and>
     int (length (lw_runs w)) = int (length (lw_runs w0)) + tb_observed bb \<and>
     length (lw_trips w) = length (lw_trips w0) + (if tb_tripped bb then 1 else 0))"

definition within_cap :: "int \<Rightarrow> 'w loop_world \<Rightarrow> 'w loop_world \<Rightarrow> bool" where
  "within_cap cap w0 w \<longleftrightarrow> int (length (lw_runs w)) \<le> int (length (lw_runs w0)) + cap \<and>
     length (lw_trips w) \<le> length (lw_trips w0) + 1"

lemma budget_within: "budget_inv cap w0 b w \<Longrightarrow> within_cap cap w0 w"
  by (auto simp: budget_inv_def within_cap_def)

lemma budget_inv_cong:
  "lw_runs w' = lw_runs w \<Longrightarrow> lw_trips w' = lw_trips w \<Longrightarrow> budget_inv cap w0 b w' = budget_inv cap w0 b w"
  by (simp add: budget_inv_def)

lemma dispatch_tool_budget:
  assumes "dispatch_tool_under_cap env name args u b rag w = (res, b', w')" and "0 < cap" and "budget_inv cap w0 b w"
  shows "budget_inv cap w0 b' w'"
proof -
  obtain bb where b: "b = Some bb" "tb_cap bb = cap" "0 \<le> tb_observed bb" "tb_observed bb \<le> cap"
    "int (length (lw_runs w)) = int (length (lw_runs w0)) + tb_observed bb"
    "length (lw_trips w) = length (lw_trips w0) + (if tb_tripped bb then 1 else 0)"
    using assms(3) unfolding budget_inv_def by blast
  obtain r w1 where run: "call_run_tool env name args u rag w = (r, w1)" by (rule prod.exhaust)
  have w1: "length (lw_runs w1) = Suc (length (lw_runs w))" "lw_trips w1 = lw_trips w"
    using run by (simp_all add: call_run_tool_def split: prod.splits) auto
  show ?thesis
  proof (cases "tb_observed bb \<ge> cap")
    case False
    then have "b' = Some (bb\<lparr>tb_observed := tb_observed bb + 1\<rparr>)" "w' = w1"
      using assms(1,2) b(1,2) run by (simp_all add: dispatch_tool_under_cap_def)
    with False b w1 show ?thesis by (simp add: budget_inv_def)
  next
    case True
    then have "b' = Some (bb\<lparr>tb_tripped := True\<rparr>) \<and> lw_runs w' = lw_runs w \<and>
        length (lw_trips w') = length (lw_trips w) + (if tb_tripped bb then 0 else 1)"
      using assms(1,2) b(1,2) by (cases "tb_tripped bb") (auto simp: dispatch_tool_under_cap_def)
    with b show ?thesis by (simp add: budget_inv_def)
  qed
qed

lemma dispatch_all_budget:
  "dispatch_all env ps tcs b w = (res, b', w') \<Longrightarrow> 0 < cap \<Longrightarrow> budget_inv cap w0 b w \<Longrightarrow> budget_inv cap w0 b' w'"
proof (induction tcs arbitrary: b w res)
  case Nil
  then show ?case by simp
next
  case (Cons tc tcs)
  from Cons.prems(1) show ?case
  proof (cases rule: dispatch_all_ConsE)
    case tool_raised
    with Cons.prems show ?thesis by (blast intro: dispatch_tool_budget)
  next
    case tool_ran
    with Cons show ?thesis by (blast intro: dispatch_tool_budget)
  qed
qed

lemma rounds_within_cap:
  "session_rounds env ps stream n st w = (res, w') \<Longrightarrow> 0 < cap \<Longrightarrow> budget_inv cap w0 (ss_budget st) w \<Longrightarrow>
    within_cap cap w0 w'"
proof (induction n arbitrary: st w)
  case 0
  then have "within_cap cap w0 w" by (simp add: budget_within)
  from "0.prems"(1) this show ?case
    by (cases rule: session_round_0E) (auto simp: within_cap_def final_turn_frame frame)
next
  case (Suc n)
  have here: "within_cap cap w0 w" using Suc.prems by (simp add: budget_within)
  from Suc.prems(1) show ?case
  proof (cases rule: session_round_SucE)
    case raised
    with here show ?thesis by (simp add: within_cap_def model_turn_frame)
  next
    case (answered msg w1 r)
    with here show ?thesis by (simp add: within_cap_def model_turn_frame frame)
  next
    case (tool_raised msg calls w1 e b)
    have "budget_inv cap w0 (ss_budget st) (fire_loop_event SiteModelCall (after_call st) w1)"
      using Suc.prems(3) tool_raised(2) by (subst budget_inv_cong) (auto simp: frame model_turn_frame)
    with dispatch_all_budget [OF tool_raised(3) Suc.prems(2)] show ?thesis by (blast intro: budget_within)
  next
    case (advanced msg calls w1 tool_msgs b w2 w3)
    have "budget_inv cap w0 (ss_budget st) (fire_loop_event SiteModelCall (after_call st) w1)"
      using Suc.prems(3) advanced(2) by (subst budget_inv_cong) (auto simp: frame model_turn_frame)
    with dispatch_all_budget [OF advanced(3) Suc.prems(2)] have "budget_inv cap w0 b w2" .
    then have "budget_inv cap w0 b w3" using advanced by (simp add: budget_inv_def)
    with Suc.IH [OF advanced(9) Suc.prems(2)] show ?thesis by simp
  qed
qed

lemma run_within_cap:
  assumes "run_session_loop env ps stream (initial_session_state msgs (Some \<lparr>tb_cap = cap, tb_observed = 0, tb_tripped = False\<rparr>)) w = (res, w')"
    and "0 < cap"
  shows "within_cap cap w w'"
  using rounds_within_cap [OF assms(1) [unfolded run_session_loop_def] assms(2), of w]
    assms(2) by (simp add: initial_session_state_def budget_inv_def)

lemma prepare_frame:
  "lw_runs (snd (prepare_tools env ut u w)) = lw_runs w" "lw_trips (snd (prepare_tools env ut u w)) = lw_trips w"
  "lw_overlays (snd (prepare_tools env ut u w)) = lw_overlays w + (if snd (fst (prepare_tools env ut u w)) then 1 else 0)"
  by (auto simp: prepare_tools_def split: sum.splits)

lemma finish_request_frame [frame]:
  "lw_runs (finish_llm_tools_request ov w) = lw_runs w" "lw_trips (finish_llm_tools_request ov w) = lw_trips w"
  "lw_calls (finish_llm_tools_request ov w) = lw_calls w"
  by (simp_all add: finish_llm_tools_request_def)

text \<open>Both entry points as one run of the loop between the set-up and the tear-down.\<close>

definition started :: "'w ask_env \<Rightarrow> string \<Rightarrow> json_obj list option \<Rightarrow> bool \<Rightarrow> user_id \<Rightarrow> string list option \<Rightarrow> bool
    \<Rightarrow> 'w loop_world \<Rightarrow> string \<Rightarrow> (exn + session_terminal \<times> session_state) \<times> 'w loop_world" where
  "started env q hist ut u rag stream w eff =
     (let b = build_session env q hist eff ut u (fst (fst (prepare_tools env ut u w))) rag
      in run_session_loop (ae_loop env) (fst b) stream (snd b) (snd (prepare_tools env ut u w)))"

lemma ask_cases:
  "snd (ask env q hist model ut u rag w) = w \<or>
   (\<exists>eff. ask env q hist model ut u rag w =
     (map_sum (\<lambda>e. e) (\<lambda>(t, st). message_content (last (ss_messages st))) (fst (started env q hist ut u rag False w eff)),
      finish_llm_tools_request (snd (fst (prepare_tools env ut u w))) (snd (started env q hist ut u rag False w eff))))"
proof (cases "\<exists>eff. u \<noteq> [] \<and> ae_resolve env model u (lw_env w) = Inr eff \<and> ae_provider env eff u (lw_env w) = Inr ()")
  case True
  then obtain eff where eff: "u \<noteq> []" "ae_resolve env model u (lw_env w) = Inr eff" "ae_provider env eff u (lw_env w) = Inr ()"
    by blast
  show ?thesis
    by (intro disjI2 exI [of _ eff], cases "fst (started env q hist ut u rag False w eff)")
       (simp_all add: eff ask_def started_def Let_def case_prod_unfold)
next
  case False
  then have "snd (ask env q hist model ut u rag w) = w"
    by (auto simp: ask_def split: sum.split)
  then show ?thesis by blast
qed

lemma ask_stream_cases:
  "snd (ask_stream env q hist model ut u rag w) = w \<or>
   (\<exists>w'. (w' = snd (prepare_tools env ut u w) \<or> (\<exists>eff. w' = snd (started env q hist ut u rag True w eff))) \<and>
      (\<exists>failure. snd (ask_stream env q hist model ut u rag w) =
        finish_llm_tools_request (snd (fst (prepare_tools env ut u w)))
          (case failure of None \<Rightarrow> w' | Some e \<Rightarrow> emit (StreamError (friendly_error e)) w')))"
proof (cases "\<exists>eff. ae_resolve env model u (lw_env (snd (prepare_tools env ut u w))) = Inr eff \<and>
    ae_provider env eff u (lw_env (snd (prepare_tools env ut u w))) = Inr ()")
  case True
  then obtain eff where eff: "ae_resolve env model u (lw_env (snd (prepare_tools env ut u w))) = Inr eff"
    "ae_provider env eff u (lw_env (snd (prepare_tools env ut u w))) = Inr ()" by blast
  let ?run = "started env q hist ut u rag True w eff"
  have "u \<noteq> [] \<Longrightarrow> snd (ask_stream env q hist model ut u rag w) =
      finish_llm_tools_request (snd (fst (prepare_tools env ut u w)))
        (case (case fst ?run of Inl e \<Rightarrow> Some e | Inr _ \<Rightarrow> None) of None \<Rightarrow> snd ?run
         | Some e \<Rightarrow> emit (StreamError (friendly_error e)) (snd ?run))"
    by (cases "fst ?run") (simp_all add: eff ask_stream_def started_def Let_def case_prod_unfold)
  moreover have "u = [] \<Longrightarrow> snd (ask_stream env q hist model ut u rag w) = w" by (simp add: ask_stream_def)
  ultimately show ?thesis by blast
next
  case False
  let ?w1 = "snd (prepare_tools env ut u w)"
  have "\<exists>e. u \<noteq> [] \<longrightarrow> snd (ask_stream env q hist model ut u rag w) =
      finish_llm_tools_request (snd (fst (prepare_tools env ut u w))) (emit (StreamError (friendly_error e)) ?w1)"
  proof (cases "ae_resolve env model u (lw_env ?w1)")
    case (Inl e)
    then show ?thesis by (intro exI [of _ e]) (simp add: ask_stream_def Let_def case_prod_unfold)
  next
    case (Inr eff)
    with False obtain e where "ae_provider env eff u (lw_env ?w1) = Inl e"
      by (cases "ae_provider env eff u (lw_env ?w1)") auto
    with Inr show ?thesis by (intro exI [of _ e]) (simp add: ask_stream_def Let_def case_prod_unfold)
  qed
  then obtain e where "u \<noteq> [] \<Longrightarrow> snd (ask_stream env q hist model ut u rag w) =
      finish_llm_tools_request (snd (fst (prepare_tools env ut u w)))
        (case Some e of None \<Rightarrow> ?w1 | Some e \<Rightarrow> emit (StreamError (friendly_error e)) ?w1)" by auto
  moreover have "u = [] \<Longrightarrow> snd (ask_stream env q hist model ut u rag w) = w" by (simp add: ask_stream_def)
  ultimately show ?thesis by blast
qed

text \<open>
  The cap on tool calls holds for both entry points: with a positive \<open>TOOL_CHAIN_CAP\<close> a
  request runs at most that many tools, however many calls the model asks for in how many
  rounds and wherever an exception stops it, and the cap-tripped hook fires at most once.
\<close>

theorem tool_chain_cap_enforced:
  assumes "0 < get_tool_chain_cap (ae_cap_raw env)"
  shows "within_cap (get_tool_chain_cap (ae_cap_raw env)) w (snd (ask env q hist model ut u rag w)) \<and>
         within_cap (get_tool_chain_cap (ae_cap_raw env)) w (snd (ask_stream env q hist model ut u rag w))"
proof -
  let ?cap = "get_tool_chain_cap (ae_cap_raw env)"
  have self: "within_cap ?cap w w" using assms by (simp add: within_cap_def)
  have run: "within_cap ?cap w (snd (started env q hist ut u rag stream w eff))" for eff stream
    using run_within_cap [OF _ assms, of "ae_loop env" _ stream _ "snd (prepare_tools env ut u w)", OF prod.collapse [symmetric]] assms
    by (simp add: started_def build_session_def chain_budget_def Let_def within_cap_def prepare_frame)
  have "within_cap ?cap w (snd (ask env q hist model ut u rag w))"
    using self run [of False] ask_cases [of env q hist model ut u rag w]
    by (auto simp: within_cap_def frame)
  moreover have "within_cap ?cap w (snd (ask_stream env q hist model ut u rag w))"
    using self run [of True] ask_stream_cases [of env q hist model ut u rag w]
    by (auto simp: within_cap_def frame prepare_frame split: option.splits)
  ultimately show ?thesis by simp
qed

definition chatty_ask :: "nat \<Rightarrow> string \<Rightarrow> unit ask_env" where
  "chatty_ask k cap = \<lparr>ae_loop = chatty k, ae_resolve = (\<lambda>m u w. Inr m), ae_provider = (\<lambda>m u w. Inr ()),
     ae_prepare = (\<lambda>u w. Inr ([], True)), ae_default_tools = [], ae_cap_raw = Some cap\<rparr>"

theorem tool_chain_cap_enforced_witness:
  "length (lw_runs (snd (ask (chatty_ask 5 ''3'') ''q'' None ''m'' True ''ann'' None quiet_world))) \<le> 3"
proof -
  have cap: "get_tool_chain_cap (ae_cap_raw (chatty_ask 5 ''3'')) = 3"
    unfolding chatty_ask_def ask_env.simps by code_simp
  then show ?thesis
    using tool_chain_cap_enforced [of "chatty_ask 5 ''3''" quiet_world]
    by (simp add: within_cap_def quiet_world_def)
qed

lemma rounds_overlays:
  "session_rounds env ps stream n st w = (res, w') \<Longrightarrow> lw_overlays w' = lw_overlays w"
proof (induction n arbitrary: st w)
  case 0
  then show ?case by (cases rule: session_round_0E) (auto simp: final_turn_frame frame)
next
  case (Suc n)
  from Suc.prems show ?case
  proof (cases rule: session_round_SucE)
    case (advanced msg calls w1 tool_msgs b w2 w3)
    have "lw_overlays w3 = lw_overlays w"
      using advanced(2,8) dispatch_all_frame [OF advanced(3)] by (simp add: frame model_turn_frame)
    with Suc.IH [OF advanced(9)] show ?thesis by simp
  qed (auto simp: model_turn_frame frame dispatch_all_frame)
qed

text \<open>
  The per-request tool overlay is always taken down: whatever fails (the model
  resolution, the provider, a tool, the preparation itself), after a request in either form
  exactly the overlays of before are installed.
\<close>

theorem tool_overlay_always_removed:
  "lw_overlays (snd (ask env q hist model ut u rag w)) = lw_overlays w \<and>
   lw_overlays (snd (ask_stream env q hist model ut u rag w)) = lw_overlays w"
proof -
  have "lw_overlays (snd (started env q hist ut u rag stream w eff)) = lw_overlays (snd (prepare_tools env ut u w))" for stream eff
    by (simp add: started_def Let_def run_session_loop_def rounds_overlays [OF prod.collapse [symmetric]])
  then show ?thesis
    using ask_cases [of env q hist model ut u rag w] ask_stream_cases [of env q hist model ut u rag w]
    by (auto simp: finish_llm_tools_request_def prepare_frame frame split: option.splits)
qed

subsection \<open>The transcript\<close>

text \<open>One dispatched round as messages: the assistant's, then one tool message per call.\<close>

definition answers :: "llm_tool_call list \<Rightarrow> string list \<Rightarrow> json_obj list" where
  "answers calls contents = map (\<lambda>(tc, c). tool_message (tc_id tc) c) (zip calls contents)"

definition round_messages :: "string \<times> llm_tool_call list \<times> string list \<Rightarrow> json_obj list" where
  "round_messages rnd = (case rnd of (text, calls, contents) \<Rightarrow> assistant_message text calls # answers calls contents)"

definition round_ok :: "string \<times> llm_tool_call list \<times> string list \<Rightarrow> bool" where
  "round_ok rnd = (case rnd of (text, calls, contents) \<Rightarrow> calls \<noteq> [] \<and> length contents = length calls)"

lemma round_simps:
  "round_ok (body, calls, contents) = (calls \<noteq> [] \<and> length contents = length calls)"
  "round_messages (body, calls, contents) = assistant_message body calls # answers calls contents"
  by (simp_all add: round_ok_def round_messages_def)

lemma model_turn_message:
  assumes "model_turn env stream tools system msgs w = (Inr (msg, calls), w')"
  shows "\<exists>text cs. msg = assistant_message text cs \<and> (calls = cs \<or> calls = [])"
  using assms
  by (auto simp: model_turn_def Let_def split: if_splits prod.splits sum.splits option.splits)

lemma dispatch_all_answers:
  "dispatch_all env ps tcs b w = (Inr msgs, b', w') \<Longrightarrow>
    \<exists>contents. length contents = length tcs \<and> msgs = answers tcs contents"
proof (induction tcs arbitrary: b w msgs)
  case Nil
  then show ?case by (simp add: answers_def)
next
  case (Cons tc tcs)
  from Cons.prems show ?case
  proof (cases rule: dispatch_all_ConsE)
    case tool_raised
    then show ?thesis by simp
  next
    case (tool_ran content b1 w1 rest)
    then obtain ms where rest: "rest = Inr ms" "msgs = tool_message (tc_id tc) content # ms"
      by (cases rest) auto
    with tool_ran(2) Cons.IH obtain cs where "length cs = length tcs" "ms = answers tcs cs" by blast
    with rest show ?thesis
      by (intro exI [of _ "content # cs"]) (simp add: answers_def)
  qed
qed

text \<open>
  The transcript is well formed: what a run returns is the messages it was given, then
  at most three rounds, each an assistant message with its tool calls followed by exactly
  one tool message per call, in the order of the calls and carrying the call's id, and last
  the final assistant message. Nothing earlier is changed or dropped.
\<close>

theorem transcript_answers_every_call:
  assumes "session_rounds env ps stream n st w = (Inr (t, st'), w')"
  shows "\<exists>rounds text calls. length rounds \<le> n \<and> list_all round_ok rounds \<and>
    ss_messages st' = ss_messages st @ concat (map round_messages rounds) @ [assistant_message text calls]"
  using assms
proof (induction n arbitrary: st w)
  case 0
  then show ?case
  proof (cases rule: session_round_0E)
    case raised
    then show ?thesis by simp
  next
    case (answered msg w1 r)
    obtain body cs where "msg = assistant_message body cs"
      using answered(1)
      by (auto simp: final_turn_def Let_def split: if_splits prod.splits sum.splits option.splits)
    with finish_session_frame(5) [OF answered(2)] answered(3) show ?thesis
      by (intro exI [of _ "[]"] exI [of _ body] exI [of _ cs]) simp
  qed
next
  case (Suc n)
  from Suc.prems show ?case
  proof (cases rule: session_round_SucE)
    case (answered msg w1 r)
    obtain body cs where "msg = assistant_message body cs"
      using model_turn_message [OF answered(1)] by blast
    with finish_session_frame(5) [OF answered(2)] answered(3) show ?thesis
      by (intro exI [of _ "[]"] exI [of _ body] exI [of _ cs]) simp
  next
    case (advanced msg calls w1 tool_msgs b w2 w3)
    obtain body where msg: "msg = assistant_message body calls"
      using model_turn_message [OF advanced(2)] advanced(1) by blast
    obtain contents where c: "length contents = length calls" "tool_msgs = answers calls contents"
      using dispatch_all_answers [OF advanced(3)] by blast
    obtain rounds body' calls' where "length rounds \<le> n" "list_all round_ok rounds"
      "ss_messages st' = (ss_messages st @ msg # tool_msgs) @ concat (map round_messages rounds) @ [assistant_message body' calls']"
      using Suc.IH [OF advanced(9)] by auto
    with msg c advanced(1) show ?thesis
      by (intro exI [of _ "(body, calls, contents) # rounds"] exI [of _ body'] exI [of _ calls'])
         (simp add: round_simps)
  qed auto
qed

lemma chatty_sync: "chatty 0 = \<lparr>le_chat = (\<lambda>e ms tools sys. (Inr \<lparr>lr_text = ''hm'', lr_calls = [], lr_stop = (if tools = None then ''stop'' else ''tool_calls'')\<rparr>, e)),
   le_stream = (\<lambda>e ms tools sys. ([EvText ''hm'', EvEnd], None, e)), le_run = (\<lambda>name args u rag e. (Inr ''found'', e))\<rparr>"
  by (simp add: chatty_def fun_eq_iff)

theorem transcript_answers_every_call_witness:
  "\<exists>rounds text calls. length rounds \<le> 1 \<and>
    ss_messages (snd (projr (fst (session_rounds (chatty 0) sample_params False 1 (initial_session_state [[]] None) quiet_world)))) =
      [[]] @ concat (map round_messages rounds) @ [assistant_message text calls]"
proof -
  let ?st = "initial_session_state [[]] None"
  obtain st' w' where run: "session_rounds (chatty 0) sample_params False (Suc 0) ?st quiet_world = (Inr (Completed, st'), w')"
    by (simp add: session_rounds.simps chatty_sync model_turn_def call_chat_def sync_should_dispatch_def
        finish_session_def Let_def)
  from transcript_answers_every_call [OF run] run show ?thesis
    by (auto simp: initial_session_state_def)
qed

subsection \<open>Streaming and synchronous runs agree\<close>

text \<open>
  A provider whose two interfaces agree: the stream carries the text and the calls of the
  response, or raises what \<open>chat\<close> raises; the stop reason of a response says whether it has
  calls; and without tools there are none.
\<close>

definition coherent_provider :: "'w loop_env \<Rightarrow> bool" where
  "coherent_provider env \<longleftrightarrow> (\<forall>e msgs tools system.
     case le_chat env e msgs tools system of
       (Inl ex, e') \<Rightarrow> (\<exists>evs. le_stream env e msgs tools system = (evs, Some ex, e') \<and> EvEnd \<notin> set evs)
     | (Inr r, e') \<Rightarrow> (\<exists>evs ex. le_stream env e msgs tools system = (evs, ex, e') \<and> (EvEnd \<in> set evs \<or> ex = None) \<and>
           concat (stream_texts (takeWhile (\<lambda>ev. ev \<noteq> EvEnd) evs)) = lr_text r \<and>
           stream_calls (takeWhile (\<lambda>ev. ev \<noteq> EvEnd) evs) = lr_calls r \<and>
           (lr_stop r = ''tool_calls'') = (lr_calls r \<noteq> []) \<and> (tools = None \<longrightarrow> lr_calls r = [])))"

definition same_world :: "'w loop_world \<Rightarrow> 'w loop_world \<Rightarrow> bool" where
  "same_world w w' \<longleftrightarrow> lw_env w = lw_env w' \<and> lw_calls w = lw_calls w' \<and> lw_runs w = lw_runs w' \<and>
     lw_trips w = lw_trips w' \<and> lw_events w = lw_events w' \<and> lw_overlays w = lw_overlays w'"

lemma same_world_steps:
  "same_world w w' \<Longrightarrow> same_world (fire_loop_event ev st w) (fire_loop_event ev st w')"
  "same_world w w' \<Longrightarrow> same_world w (emit sev w')"
  "same_world w w' \<Longrightarrow> same_world w (emit_texts evs w')"
  by (simp_all add: same_world_def fire_loop_event_def emit_def emit_texts_def)

definition agree :: "'a \<times> 'w loop_world \<Rightarrow> 'a \<times> 'w loop_world \<Rightarrow> bool" where
  "agree x y \<longleftrightarrow> fst x = fst y \<and> same_world (snd x) (snd y)"

lemma model_turn_agree:
  assumes "coherent_provider env" and "same_world w w'"
  shows "agree (model_turn env False tools system msgs w) (model_turn env True tools system msgs w')"
proof -
  have e: "lw_env w' = lw_env w" using assms(2) by (simp add: same_world_def)
  obtain out e' where chat: "le_chat env (lw_env w) msgs tools system = (out, e')" by (rule prod.exhaust)
  note c = assms(1) [unfolded coherent_provider_def, rule_format, of "lw_env w" msgs tools system, unfolded chat]
  show ?thesis
  proof (cases out)
    case (Inl ex)
    with c obtain evs where "le_stream env (lw_env w) msgs tools system = (evs, Some ex, e')" "EvEnd \<notin> set evs" by auto
    with chat Inl assms(2) e show ?thesis
      by (simp add: agree_def model_turn_def call_chat_def call_stream_def emit_texts_def same_world_def)
  next
    case (Inr r)
    with c obtain evs ex where s: "le_stream env (lw_env w) msgs tools system = (evs, ex, e')" "EvEnd \<in> set evs \<or> ex = None"
      "concat (stream_texts (takeWhile (\<lambda>ev. ev \<noteq> EvEnd) evs)) = lr_text r"
      "stream_calls (takeWhile (\<lambda>ev. ev \<noteq> EvEnd) evs) = lr_calls r" "(lr_stop r = ''tool_calls'') = (lr_calls r \<noteq> [])"
      by auto
    have "(if EvEnd \<in> set evs then None else ex) = None" using s(2) by auto
    with chat Inr assms(2) e s show ?thesis
      by (simp add: agree_def model_turn_def call_chat_def call_stream_def emit_texts_def same_world_def
          sync_should_dispatch_def)
  qed
qed

lemma final_turn_agree:
  assumes "coherent_provider env" and "same_world w w'"
  shows "agree (final_turn env False system msgs w) (final_turn env True system msgs w')"
proof -
  have e: "lw_env w' = lw_env w" using assms(2) by (simp add: same_world_def)
  obtain out e' where chat: "le_chat env (lw_env w) msgs None system = (out, e')" by (rule prod.exhaust)
  note c = assms(1) [unfolded coherent_provider_def, rule_format, of "lw_env w" msgs None system, unfolded chat]
  show ?thesis
  proof (cases out)
    case (Inl ex)
    with c obtain evs where "le_stream env (lw_env w) msgs None system = (evs, Some ex, e')" "EvEnd \<notin> set evs" by auto
    with chat Inl assms(2) e show ?thesis
      by (simp add: agree_def final_turn_def call_chat_def call_stream_def emit_texts_def same_world_def)
  next
    case (Inr r)
    with c obtain evs ex where s: "le_stream env (lw_env w) msgs None system = (evs, ex, e')" "EvEnd \<in> set evs \<or> ex = None"
      "concat (stream_texts (takeWhile (\<lambda>ev. ev \<noteq> EvEnd) evs)) = lr_text r" "lr_calls r = []"
      by auto
    have "(if EvEnd \<in> set evs then None else ex) = None" using s(2) by auto
    with chat Inr assms(2) e s show ?thesis
      by (simp add: agree_def final_turn_def call_chat_def call_stream_def emit_texts_def same_world_def)
  qed
qed

lemma dispatch_tool_agree:
  assumes "same_world w w'"
  shows "\<exists>r b1 w1 w1'. dispatch_tool_under_cap env name args u b rag w = (r, b1, w1) \<and>
    dispatch_tool_under_cap env name args u b rag w' = (r, b1, w1') \<and> same_world w1 w1'"
proof -
  have e: "lw_env w' = lw_env w" "lw_runs w' = lw_runs w" "lw_trips w' = lw_trips w"
    using assms by (simp_all add: same_world_def)
  obtain r x where run: "le_run env name args u rag (lw_env w) = (r, x)" by (rule prod.exhaust)
  show ?thesis
    using assms
    by (simp add: dispatch_tool_under_cap_def call_run_tool_def e run same_world_def Let_def split: option.split)
qed

lemma dispatch_all_agree:
  "same_world w w' \<Longrightarrow> \<exists>r b1 w1 w1'. dispatch_all env ps tcs b w = (r, b1, w1) \<and>
    dispatch_all env ps tcs b w' = (r, b1, w1') \<and> same_world w1 w1'"
proof (induction tcs arbitrary: b w w')
  case Nil
  then show ?case by simp
next
  case (Cons tc tcs)
  obtain r b1 w1 w1' where d: "dispatch_tool_under_cap env (tc_name tc) (tc_arguments tc) (sp_user ps) b (sp_rag ps) w = (r, b1, w1)"
    "dispatch_tool_under_cap env (tc_name tc) (tc_arguments tc) (sp_user ps) b (sp_rag ps) w' = (r, b1, w1')" "same_world w1 w1'"
    using dispatch_tool_agree [OF Cons.prems] by blast
  obtain r2 b2 w2 w2' where "dispatch_all env ps tcs b1 w1 = (r2, b2, w2)" "dispatch_all env ps tcs b1 w1' = (r2, b2, w2')"
    "same_world w2 w2'"
    using Cons.IH [OF d(3)] by blast
  with d show ?case by (cases r; cases r2) auto
qed

lemma finish_agree:
  "same_world w w' \<Longrightarrow> agree (finish_session t msg st w) (finish_session t msg st w')"
  by (simp add: agree_def finish_session_def Let_def same_world_steps)

lemma rounds_agree:
  "coherent_provider env \<Longrightarrow> same_world w w' \<Longrightarrow>
    agree (session_rounds env ps False n st w) (session_rounds env ps True n st w')"
proof (induction n arbitrary: st w w')
  case 0
  obtain out w1 w1' where turn: "final_turn env False (sp_system ps) (ss_messages st) w = (out, w1)"
    "final_turn env True (sp_system ps) (ss_messages st) w' = (out, w1')" "same_world w1 w1'"
    using final_turn_agree [OF 0] unfolding agree_def by (metis prod.collapse)
  show ?case
  proof (cases out)
    case (Inl e)
    with turn show ?thesis by (simp add: session_rounds.simps agree_def)
  next
    case (Inr msg)
    let ?st = "st\<lparr>ss_transition := Some ModelCall\<rparr>"
    have "agree (finish_session MaxToolRounds msg ?st (fire_loop_event SiteModelCall ?st w1))
        (finish_session MaxToolRounds msg ?st (fire_loop_event SiteModelCall ?st w1'))"
      by (intro finish_agree same_world_steps turn)
    with turn Inr show ?thesis
      by (simp add: session_rounds.simps agree_def Let_def case_prod_unfold)
  qed
next
  case (Suc n)
  obtain out w1 w1' where turn: "model_turn env False (sp_tools ps) (sp_system ps) (ss_messages st) w = (out, w1)"
    "model_turn env True (sp_tools ps) (sp_system ps) (ss_messages st) w' = (out, w1')" "same_world w1 w1'"
    using model_turn_agree [OF Suc.prems] unfolding agree_def by (metis prod.collapse)
  let ?st = "st\<lparr>ss_transition := Some ModelCall\<rparr>"
  let ?w2 = "fire_loop_event SiteModelCall ?st w1"
  let ?w2' = "fire_loop_event SiteModelCall ?st w1'"
  have w2: "same_world ?w2 ?w2'" by (intro same_world_steps turn)
  show ?case
  proof (cases out)
    case (Inl e)
    with turn show ?thesis by (simp add: session_rounds.simps agree_def)
  next
    case (Inr x)
    obtain msg calls where x: "x = (msg, calls)" by (rule prod.exhaust)
    show ?thesis
    proof (cases "calls = []")
      case True
      have "agree (finish_session Completed msg ?st ?w2) (finish_session Completed msg ?st ?w2')"
        using w2 by (rule finish_agree)
      with turn Inr x True show ?thesis
        by (simp add: session_rounds.simps agree_def Let_def case_prod_unfold)
    next
      case False
      obtain r b w3 w3' where d: "dispatch_all env ps calls (ss_budget ?st) ?w2 = (r, b, w3)"
        "dispatch_all env ps calls (ss_budget ?st) ?w2' = (r, b, w3')" "same_world w3 w3'"
        using dispatch_all_agree [OF w2] by blast
      show ?thesis
      proof (cases r)
        case (Inl e)
        with False turn \<open>out = Inr x\<close> x d show ?thesis by (simp add: session_rounds.simps agree_def Let_def)
      next
        case ok: (Inr tool_msgs)
        show ?thesis
          using False turn Inr x d ok
          by (simp add: session_rounds.simps Let_def) (intro Suc.IH Suc.prems same_world_steps d)
      qed
    qed
  qed
qed

text \<open>
  C37. Streaming changes nothing but the delivery: with a provider whose two interfaces agree,
  a streaming run and a synchronous run from the same state make the same provider calls,
  run the same tools, trip the cap alike, report the same loop events and return the same
  result, or raise the same exception; only the streamed events differ.
\<close>

theorem stream_equals_sync:
  assumes "coherent_provider env"
  shows "fst (run_session_loop env ps True st w) = fst (run_session_loop env ps False st w) \<and>
    (snd (run_session_loop env ps True st w))\<lparr>lw_stream := []\<rparr> =
      (snd (run_session_loop env ps False st w))\<lparr>lw_stream := []\<rparr>"
  using rounds_agree [OF assms, of w w ps "max_tool_rounds + 1" st]
  by (simp add: run_session_loop_def agree_def same_world_def)

lemma chatty_coherent: "k \<noteq> 0 \<Longrightarrow> coherent_provider (chatty k)"
proof -
  have calls: "stream_calls (replicate n (EvToolCall (Some tc))) = replicate n tc" for n tc
    by (induction n) auto
  have texts: "stream_texts (replicate n (EvToolCall tc)) = []" for n tc
    by (induction n) (auto split: option.split)
  have tw: "takeWhile (\<lambda>ev. ev \<noteq> EvEnd) (replicate n (EvToolCall tc) @ [EvEnd]) = replicate n (EvToolCall tc)" for n tc
    by (induction n) auto
  assume "k \<noteq> 0"
  then show ?thesis by (auto simp: coherent_provider_def chatty_def calls texts tw)
qed

theorem stream_equals_sync_witness:
  "fst (run_session_loop (chatty 1) sample_params True (initial_session_state [] None) quiet_world) =
   fst (run_session_loop (chatty 1) sample_params False (initial_session_state [] None) quiet_world)"
proof -
  have "coherent_provider (chatty 1)" by (rule chatty_coherent) simp
  from stream_equals_sync [OF this, THEN conjunct1] show ?thesis .
qed

end
