(* ===== verification/CapabilityRegistry.thy ===== *)
theory CapabilityRegistry
  imports Permissions
begin

section \<open>Out-of-process capabilities: manifests, trust and the registry\<close>

text \<open>
  Models \<open>orchestrator/services/capability_registry.py\<close>, \<open>capability_scopes.py\<close>,
  \<open>capability_egress.py\<close> and the host rules of \<open>models/capability.py\<close>. What a discovery
  request of a base URL meets is one value of \<open>fetch_outcome\<close>; pydantic's structural check of
  the manifest is part of that outcome, the code's own validator of \<open>external_endpoints\<close> is
  modelled. \<open>packaging.version\<close> is the parameter \<open>core_satisfies\<close>. Reads of the two operator
  files are arguments (\<open>None\<close> when the file cannot be read).
\<close>

subsection \<open>Manifests\<close>

record capability_tool =
  ct_name :: string
  ct_description :: string
  ct_input_schema :: json_obj
  ct_output_schema :: json_obj
  ct_is_write :: bool
  ct_timeout_ms :: "int option"
  ct_path :: "string option"
  ct_method :: string

record manifest =
  mf_id :: string
  mf_version :: string
  mf_tools :: "capability_tool list"
  mf_health_endpoint :: string
  mf_capabilities_endpoint :: string
  mf_contract_version :: string
  mf_permissions_required :: "string list"
  mf_external_endpoints :: "string list"
  mf_min_core_version :: string

text \<open>\<open>CapabilityTool.invoke_path\<close>; an empty path counts as none.\<close>

definition invoke_path :: "capability_tool \<Rightarrow> string" where
  "invoke_path t = (case ct_path t of None \<Rightarrow> ''/tools/'' @ ct_name t
                    | Some p \<Rightarrow> if p = [] then ''/tools/'' @ ct_name t else p)"

text \<open>
  The label pattern is \<open>^[a-z0-9](?:[a-z0-9-]{0,61}[a-z0-9])?$\<close> used with \<open>re.match\<close>, where
  \<open>$\<close> also matches before one final newline.
\<close>

definition label_char :: "char \<Rightarrow> bool" where
  "label_char c = (is_lower_letter c \<or> is_digit c \<or> c = CHR ''-'')"

definition strict_label :: "string \<Rightarrow> bool" where
  "strict_label l = (l \<noteq> [] \<and> length l \<le> 63 \<and> list_all label_char l \<and> hd l \<noteq> CHR ''-'' \<and> last l \<noteq> CHR ''-'')"

definition newline :: char where
  "newline = char_of (10::nat)"

definition host_label :: "string \<Rightarrow> bool" where
  "host_label l = (strict_label l \<or> (l \<noteq> [] \<and> last l = newline \<and> strict_label (butlast l)))"

definition is_valid_bare_host :: "string \<Rightarrow> bool" where
  "is_valid_bare_host h = (h \<noteq> [] \<and> list_all host_label (split_on (CHR ''.'') h))"

definition max_external_endpoints :: nat where
  "max_external_endpoints = 32"

definition max_host_len :: nat where
  "max_host_len = 253"

definition clean_host :: "string \<Rightarrow> string option" where
  "clean_host entry =
     (let host = py_lower (py_strip entry) in
      if host = [] then None
      else if \<not> list_all (\<lambda>c. code_point c < 128) host then None
      else if CHR '':'' \<in> set host then None
      else if CHR ''*'' \<in> set host then None
      else if length host > max_host_len then None
      else if \<not> is_valid_bare_host host then None
      else Some host)"

fun clean_hosts :: "string list \<Rightarrow> string list \<Rightarrow> string list option" where
  "clean_hosts out [] = Some out"
| "clean_hosts out (e # es) =
     (case clean_host e of
        None \<Rightarrow> None
      | Some h \<Rightarrow> clean_hosts (if h \<in> set out then out else out @ [h]) es)"

definition normalise_external_endpoints :: "string list \<Rightarrow> string list option" where
  "normalise_external_endpoints raw =
     (if length raw > max_external_endpoints then None else clean_hosts [] raw)"

subsection \<open>Permission scopes of a capability\<close>

definition capability_connector :: "string \<Rightarrow> string" where
  "capability_connector cid = ''capability.'' @ cid"

definition is_capability_connector :: "string \<Rightarrow> bool" where
  "is_capability_connector c = starts_with ''capability.'' c"

definition capability_id_from_connector :: "string \<Rightarrow> string" where
  "capability_id_from_connector c = (if is_capability_connector c then drop 11 c else c)"

definition id_start :: "char \<Rightarrow> bool" where
  "id_start c = (is_lower_letter c \<or> is_digit c)"

definition id_char :: "char \<Rightarrow> bool" where
  "id_char c = (id_start c \<or> c = CHR ''.'' \<or> c = CHR ''_'' \<or> c = CHR ''-'')"

definition is_grantable_capability_id :: "string \<Rightarrow> bool" where
  "is_grantable_capability_id cid =
     (case cid of [] \<Rightarrow> False | c # cs \<Rightarrow> id_start c \<and> length cs \<le> 42 \<and> list_all id_char cs)"

definition malformed_required_scopes :: "manifest \<Rightarrow> string list" where
  "malformed_required_scopes m =
     map py_strip (filter (\<lambda>s. \<not> valid_scope (py_strip s)) (mf_permissions_required m))"

definition required_scopes_for :: "manifest \<Rightarrow> string list" where
  "required_scopes_for m = dedup_from [] (filter (\<lambda>s. s \<noteq> []) (map py_strip (mf_permissions_required m)))"

subsection \<open>Trust and containment\<close>

definition rstrip_slash :: "string \<Rightarrow> string" where
  "rstrip_slash s = rev (dropWhile (\<lambda>c. c = CHR ''/'') (rev s))"

definition normalise_base_url :: "string \<Rightarrow> string" where
  "normalise_base_url u = py_lower (rstrip_slash (py_strip u))"

text \<open>\<open>str.split()\<close>: the words between runs of white space.\<close>

fun words_from :: "string \<Rightarrow> string \<Rightarrow> string list" where
  "words_from w [] = (if w = [] then [] else [w])"
| "words_from w (c # cs) =
     (if py_space c then (if w = [] then words_from [] cs else w # words_from [] cs)
      else words_from (w @ [c]) cs)"

fun first_party_lines :: "string list \<Rightarrow> (string \<times> string) list \<Rightarrow> (string \<times> string) list" where
  "first_party_lines [] m = m"
| "first_party_lines (raw # rest) m =
     (let line = py_strip raw in
      if line = [] \<or> hd line = CHR ''#'' then first_party_lines rest m
      else (case words_from [] line of
              [cid, url] \<Rightarrow> first_party_lines rest (dict_set cid (normalise_base_url url) m)
            | _ \<Rightarrow> first_party_lines rest m))"

text \<open>The result and the new value of the module's cache.\<close>

definition load_first_party_capabilities ::
  "bool \<Rightarrow> string list option \<Rightarrow> (string \<times> string) list option
    \<Rightarrow> (string \<times> string) list \<times> (string \<times> string) list option" where
  "load_first_party_capabilities refresh file cache =
     (case cache of
        Some m \<Rightarrow> if refresh then (let m' = (case file of None \<Rightarrow> [] | Some ls \<Rightarrow> first_party_lines ls []) in (m', Some m'))
                  else (m, cache)
      | None \<Rightarrow> (let m' = (case file of None \<Rightarrow> [] | Some ls \<Rightarrow> first_party_lines ls []) in (m', Some m')))"

definition is_community_capability :: "(string \<times> string) list \<Rightarrow> string \<Rightarrow> string \<Rightarrow> bool" where
  "is_community_capability first_party cid url =
     (case map_of first_party cid of None \<Rightarrow> True | Some pinned \<Rightarrow> normalise_base_url url \<noteq> pinned)"

definition contained_line :: "string \<Rightarrow> string option" where
  "contained_line raw =
     (let line = py_strip (takeWhile (\<lambda>c. c \<noteq> CHR ''#'') raw) in
      if line = [] then None else if length (words_from [] line) \<noteq> 1 then None else Some line)"

definition contained_ids :: "string list \<Rightarrow> string set" where
  "contained_ids ls = set (List.map_filter contained_line ls)"

text \<open>
  The marker file is read again when its modification time changed. The arguments are the
  modification time (\<open>None\<close>: \<open>stat\<close> fails) and the text (\<open>None\<close>: the read fails); the
  state is the cached set and the time it was read at.
\<close>

definition load_contained_capabilities ::
  "bool \<Rightarrow> int option \<Rightarrow> string list option \<Rightarrow> string set option \<times> int option
    \<Rightarrow> string set \<times> (string set option \<times> int option)" where
  "load_contained_capabilities refresh stat file st0 =
     (let (cache, mtime0) = (if refresh then (None, None) else st0) in
      case stat of
        None \<Rightarrow> (case cache of
            Some ids \<Rightarrow> (ids, (cache, mtime0))
          | None \<Rightarrow> ({}, (Some {}, None)))
      | Some t \<Rightarrow>
          if cache \<noteq> None \<and> mtime0 = Some t then (the cache, (cache, mtime0))
          else (case file of
              None \<Rightarrow> ({}, (Some {}, Some t))
            | Some ls \<Rightarrow> (contained_ids ls, (Some (contained_ids ls), Some t))))"

definition is_dispatch_allowed :: "bool \<Rightarrow> string option \<Rightarrow> string set \<Rightarrow> bool \<Rightarrow> bool" where
  "is_dispatch_allowed community cid marked legacy_opt_in =
     (if \<not> community then True
      else case cid of
        Some c \<Rightarrow> if c \<in> marked then True else legacy_opt_in
      | None \<Rightarrow> legacy_opt_in)"

definition is_community_dispatch_allowed :: "bool \<Rightarrow> bool \<Rightarrow> bool" where
  "is_community_dispatch_allowed community opt_in = is_dispatch_allowed community None {} opt_in"

definition assert_first_party_plugin :: "string \<Rightarrow> string set \<Rightarrow> string + unit" where
  "assert_first_party_plugin name first_party =
     (if name \<notin> first_party
      then Inl (''in-process plugin '' @ py_repr name @ '' is not first-party; untrusted '' @
             ''capabilities must run out-of-process (OOP-only, ADR-170 '' @ [char_of (167::nat)] @ ''0)'')
      else Inr ())"

subsection \<open>The registry\<close>

record reg_service =
  sv_manifest :: manifest
  sv_base_url :: string
  sv_registered_at :: instant
  sv_last_seen_healthy :: "instant option"
  sv_healthy :: bool
  sv_unhealthy_reason :: "string option"
  sv_is_community :: bool
  sv_external_endpoints :: "string list"

text \<open>\<open>_services\<close>: a dictionary by manifest id, in insertion order.\<close>

type_synonym services = "(string \<times> reg_service) list"

datatype fetch_outcome =
    Unreachable
  | HttpStatus int
  | InvalidManifest
  | NonJsonManifest
  | Parsed manifest

record registry_env =
  rv_first_party :: "(string \<times> string) list"
  rv_core_satisfies :: "string \<Rightarrow> bool option"

definition supported_contract_major :: int where
  "supported_contract_major = 1"

definition contract_version_ok :: "manifest \<Rightarrow> bool" where
  "contract_version_ok m =
     (case py_int (takeWhile (\<lambda>c. c \<noteq> CHR ''.'') (py_strip (mf_contract_version m))) of
        None \<Rightarrow> False | Some major \<Rightarrow> major = supported_contract_major)"

definition is_compatible :: "registry_env \<Rightarrow> manifest \<Rightarrow> bool" where
  "is_compatible env m =
     (if \<not> contract_version_ok m then False
      else case rv_core_satisfies env (mf_min_core_version m) of None \<Rightarrow> False | Some ok \<Rightarrow> ok)"

definition evict_by_base_url :: "string \<Rightarrow> services \<Rightarrow> services" where
  "evict_by_base_url url svcs =
     filter (\<lambda>(sid, svc). normalise_base_url (sv_base_url svc) \<noteq> normalise_base_url url) svcs"

definition upsert_service :: "instant \<Rightarrow> manifest \<Rightarrow> string \<Rightarrow> bool \<Rightarrow> services \<Rightarrow> services" where
  "upsert_service now m url community svcs =
     (case map_of svcs (mf_id m) of
        None \<Rightarrow> dict_set (mf_id m)
          \<lparr>sv_manifest = m, sv_base_url = url, sv_registered_at = now, sv_last_seen_healthy = None,
           sv_healthy = False, sv_unhealthy_reason = None, sv_is_community = community,
           sv_external_endpoints = mf_external_endpoints m\<rparr> svcs
      | Some old \<Rightarrow>
          if normalise_base_url (sv_base_url old) \<noteq> normalise_base_url url \<and> community then svcs
          else dict_set (mf_id m)
            (old\<lparr>sv_manifest := m, sv_base_url := url, sv_is_community := community,
                 sv_external_endpoints := mf_external_endpoints m\<rparr>) svcs)"

text \<open>
  One manifest fetch. A parsed manifest first meets the validator of its external endpoints,
  whose failure is a \<open>ValidationError\<close> like the structural one.
\<close>

definition fetch_one :: "registry_env \<Rightarrow> instant \<Rightarrow> string \<Rightarrow> fetch_outcome \<Rightarrow> services \<Rightarrow> bool \<times> services" where
  "fetch_one env now url outcome svcs =
     (case outcome of
        Unreachable \<Rightarrow> (False, svcs)
      | HttpStatus code \<Rightarrow> (False, svcs)
      | InvalidManifest \<Rightarrow> (False, evict_by_base_url url svcs)
      | NonJsonManifest \<Rightarrow> (False, evict_by_base_url url svcs)
      | Parsed raw \<Rightarrow>
          (case normalise_external_endpoints (mf_external_endpoints raw) of
             None \<Rightarrow> (False, evict_by_base_url url svcs)
           | Some hosts \<Rightarrow>
               let m = raw\<lparr>mf_external_endpoints := hosts\<rparr> in
               if py_strip (mf_capabilities_endpoint m) \<noteq> ''/capabilities'' then (False, evict_by_base_url url svcs)
               else if \<not> is_grantable_capability_id (mf_id m) then (False, evict_by_base_url url svcs)
               else if malformed_required_scopes m \<noteq> [] then (False, evict_by_base_url url svcs)
               else if \<not> is_compatible env m then (False, evict_by_base_url url svcs)
               else (True, upsert_service now m url (is_community_capability (rv_first_party env) (mf_id m) url) svcs)))"

text \<open>\<open>discover\<close>: the fetches run concurrently; each is atomic on the registry.\<close>

fun discover :: "registry_env \<Rightarrow> (instant \<times> string \<times> fetch_outcome) list \<Rightarrow> services \<Rightarrow> services" where
  "discover env [] svcs = svcs"
| "discover env ((now, url, outcome) # rest) svcs = discover env rest (snd (fetch_one env now url outcome svcs))"

datatype probe_outcome = ProbeTimeout | ProbeConnectError | ProbeNetworkError | ProbeStatus int

definition check_health :: "instant \<Rightarrow> probe_outcome \<Rightarrow> reg_service \<Rightarrow> bool \<times> reg_service" where
  "check_health now p svc =
     (case p of
        ProbeTimeout \<Rightarrow> (False, svc\<lparr>sv_healthy := False, sv_unhealthy_reason := Some ''timeout''\<rparr>)
      | ProbeConnectError \<Rightarrow> (False, svc\<lparr>sv_healthy := False, sv_unhealthy_reason := Some ''connection_error''\<rparr>)
      | ProbeNetworkError \<Rightarrow> (False, svc\<lparr>sv_healthy := False, sv_unhealthy_reason := Some ''network_error''\<rparr>)
      | ProbeStatus code \<Rightarrow>
          if code \<noteq> 200 then (False, svc\<lparr>sv_healthy := False, sv_unhealthy_reason := Some (''http_'' @ show_int code)\<rparr>)
          else (True, svc\<lparr>sv_healthy := True, sv_last_seen_healthy := Some now, sv_unhealthy_reason := None\<rparr>))"

definition check_all_health :: "instant \<Rightarrow> (string \<Rightarrow> probe_outcome) \<Rightarrow> services \<Rightarrow> services" where
  "check_all_health now probe svcs = map (\<lambda>(sid, svc). (sid, snd (check_health now (probe sid) svc))) svcs"

definition get_service :: "string \<Rightarrow> services \<Rightarrow> reg_service option" where
  "get_service sid svcs = map_of svcs sid"

definition all_services :: "services \<Rightarrow> reg_service list" where
  "all_services svcs = map snd svcs"

definition unhealthy_reason :: "reg_service \<Rightarrow> string" where
  "unhealthy_reason svc =
     (let reason = (case sv_unhealthy_reason svc of None \<Rightarrow> [] | Some r \<Rightarrow> r) in
      if reason = ''timeout'' then ''capability service did not respond in time (last health probe timed out)''
      else if reason = ''connection_error'' then ''capability service unreachable (connection refused on last probe)''
      else if reason = ''network_error'' then ''capability service unreachable (network error on last probe)''
      else if starts_with ''http_'' reason then
        (let status = drop 5 reason in
         if status = ''401'' \<or> status = ''403''
         then ''capability service rejected Core's credentials (last probe returned HTTP '' @ status @ '')''
         else ''capability service health check failed (last probe returned HTTP '' @ status @ '')'')
      else ''capability service not healthy (last probe failed)'')"

subsection \<open>What a registered service is known to satisfy\<close>

definition service_ok :: "registry_env \<Rightarrow> string \<Rightarrow> reg_service \<Rightarrow> bool" where
  "service_ok env sid svc \<longleftrightarrow>
     mf_id (sv_manifest svc) = sid \<and> is_grantable_capability_id sid \<and>
     malformed_required_scopes (sv_manifest svc) = [] \<and>
     is_compatible env (sv_manifest svc) \<and>
     sv_external_endpoints svc = mf_external_endpoints (sv_manifest svc) \<and>
     sv_is_community svc = is_community_capability (rv_first_party env) sid (sv_base_url svc)"

definition registry_good :: "registry_env \<Rightarrow> services \<Rightarrow> bool" where
  "registry_good env svcs \<longleftrightarrow> distinct (map fst svcs) \<and> (\<forall>(sid, svc) \<in> set svcs. service_ok env sid svc)"

datatype registry_op =
    Fetch instant string fetch_outcome
  | ProbeAll instant "string \<Rightarrow> probe_outcome"

fun registry_apply :: "registry_env \<Rightarrow> services \<Rightarrow> registry_op \<Rightarrow> services" where
  "registry_apply env svcs (Fetch now url outcome) = snd (fetch_one env now url outcome svcs)"
| "registry_apply env svcs (ProbeAll now probe) = check_all_health now probe svcs"

lemma in_dict_set: "(k', v') \<in> set (dict_set k v d) \<Longrightarrow> (k' = k \<and> v' = v) \<or> (k', v') \<in> set d"
  by (induction k v d rule: dict_set.induct) (auto split: if_splits)

lemma dict_set_good:
  assumes "registry_good env svcs" and "service_ok env sid svc"
  shows "registry_good env (dict_set sid svc svcs)"
  using assms by (auto simp: registry_good_def distinct_fst_dict_set dest: in_dict_set)

lemma registry_lookup: "registry_good env svcs \<Longrightarrow> map_of svcs sid = Some svc \<Longrightarrow> service_ok env sid svc"
  by (auto simp: registry_good_def dest: map_of_SomeD)

lemma evict_good: "registry_good env svcs \<Longrightarrow> registry_good env (evict_by_base_url url svcs)"
  unfolding registry_good_def evict_by_base_url_def
  by (auto simp: distinct_map_filter)

lemma upsert_good:
  assumes "registry_good env svcs" and "is_grantable_capability_id (mf_id m)" and "malformed_required_scopes m = []"
    and "is_compatible env m" and "c = is_community_capability (rv_first_party env) (mf_id m) url"
  shows "registry_good env (upsert_service now m url c svcs)"
  using assms by (auto simp: upsert_service_def service_ok_def split: option.splits intro!: dict_set_good)

lemma fetch_good: "registry_good env svcs \<Longrightarrow> registry_good env (snd (fetch_one env now url outcome svcs))"
  by (cases outcome)
     (auto simp: fetch_one_def Let_def evict_good is_compatible_def contract_version_ok_def malformed_required_scopes_def
       split: option.splits intro!: upsert_good)

lemma check_health_keeps:
  "sv_manifest (snd (check_health now p svc)) = sv_manifest svc"
  "sv_base_url (snd (check_health now p svc)) = sv_base_url svc"
  "sv_is_community (snd (check_health now p svc)) = sv_is_community svc"
  "sv_external_endpoints (snd (check_health now p svc)) = sv_external_endpoints svc"
  by (cases p; simp add: check_health_def)+

lemma probe_good:
  assumes "registry_good env svcs"
  shows "registry_good env (check_all_health now probe svcs)"
proof -
  have "map fst (check_all_health now probe svcs) = map fst svcs"
    by (induction svcs) (auto simp: check_all_health_def)
  moreover have "\<forall>(sid, svc) \<in> set (check_all_health now probe svcs). service_ok env sid svc"
    using assms by (auto simp: registry_good_def check_all_health_def service_ok_def check_health_keeps)
  ultimately show ?thesis using assms by (simp add: registry_good_def)
qed

lemma registry_apply_good: "registry_good env svcs \<Longrightarrow> registry_good env (registry_apply env svcs e)"
  by (cases e) (simp_all add: fetch_good probe_good)

interpretation reg: event_machine "registry_apply env" "registry_good env" for env
  by unfold_locales (rule registry_apply_good)

text \<open>
  Everything in the registry has been vetted: from an empty registry, after any sequence
  of fetches (of any outcome, from any origin) and health probes, an id has one entry, the
  id can be addressed by a grant and every scope the capability requires has the shape a
  grant accepts up to white space, the contract and core versions are compatible, and the
  service is marked first-party exactly when the operator's file pins its id to the origin
  it was discovered at.
\<close>

theorem registered_services_are_vetted:
  assumes "svcs = foldl (registry_apply env) [] ops" and "get_service sid svcs = Some svc"
  shows "distinct (map fst svcs) \<and> mf_id (sv_manifest svc) = sid \<and> is_grantable_capability_id sid \<and>
    list_all (\<lambda>s. valid_scope (py_strip s)) (mf_permissions_required (sv_manifest svc)) \<and>
    is_compatible env (sv_manifest svc) \<and>
    sv_is_community svc = (map_of (rv_first_party env) sid \<noteq> Some (normalise_base_url (sv_base_url svc)))"
proof -
  have good: "registry_good env svcs"
    unfolding assms(1) by (rule reg.run_good) (simp add: registry_good_def)
  with assms(2) have "service_ok env sid svc" by (auto simp: get_service_def intro: registry_lookup)
  with good show ?thesis
    by (auto simp: registry_good_def service_ok_def malformed_required_scopes_def is_community_capability_def
        list_all_iff filter_empty_conv split: option.splits)
qed

definition sample_manifest :: manifest where
  "sample_manifest = \<lparr>mf_id = ''lumogis-graph'', mf_version = ''1'', mf_tools = [],
     mf_health_endpoint = ''/health'', mf_capabilities_endpoint = ''/capabilities'', mf_contract_version = ''1.0'',
     mf_permissions_required = [''graph:read''], mf_external_endpoints = [], mf_min_core_version = ''0''\<rparr>"

definition sample_registry_env :: registry_env where
  "sample_registry_env = \<lparr>rv_first_party = [(''lumogis-graph'', ''http://graph:8001'')],
     rv_core_satisfies = (\<lambda>_. Some True)\<rparr>"

lemma sample_fetch:
  "map_of (snd (fetch_one sample_registry_env 1 ''http://graph:8001/'' (Parsed sample_manifest) [])) ''lumogis-graph'' =
   Some \<lparr>sv_manifest = sample_manifest, sv_base_url = ''http://graph:8001/'', sv_registered_at = 1,
     sv_last_seen_healthy = None, sv_healthy = False, sv_unhealthy_reason = None, sv_is_community = False,
     sv_external_endpoints = []\<rparr>"
  by code_simp

theorem registered_services_are_vetted_witness:
  "is_grantable_capability_id ''lumogis-graph'' \<and> \<not> (map_of [(''lumogis-graph'', ''http://graph:8001'')] ''lumogis-graph'' \<noteq>
     Some (normalise_base_url ''http://graph:8001/''))"
proof -
  let ?svc = "\<lparr>sv_manifest = sample_manifest, sv_base_url = ''http://graph:8001/'', sv_registered_at = 1,
     sv_last_seen_healthy = None, sv_healthy = False, sv_unhealthy_reason = None, sv_is_community = False,
     sv_external_endpoints = []\<rparr>"
  have g: "get_service ''lumogis-graph'' (foldl (registry_apply sample_registry_env) []
      [Fetch 1 ''http://graph:8001/'' (Parsed sample_manifest)]) = Some ?svc"
    unfolding get_service_def foldl.simps registry_apply.simps by (rule sample_fetch)
  note v = registered_services_are_vetted [OF refl g]
  have "sv_is_community ?svc = False" "sv_base_url ?svc = ''http://graph:8001/''"
    "rv_first_party sample_registry_env = [(''lumogis-graph'', ''http://graph:8001'')]"
    by (simp_all add: sample_registry_env_def)
  with v show ?thesis by metis
qed

subsection \<open>Identity conflicts\<close>

lemma evict_other:
  assumes "normalise_base_url (sv_base_url svc) \<noteq> normalise_base_url url" and "map_of svcs sid = Some svc" and "distinct (map fst svcs)"
  shows "map_of (evict_by_base_url url svcs) sid = Some svc"
  using assms by (induction svcs) (auto simp: evict_by_base_url_def)

lemma map_of_check_all:
  "map_of (check_all_health now probe svcs) sid =
     map_option (\<lambda>svc. snd (check_health now (probe sid) svc)) (map_of svcs sid)"
  by (induction svcs) (auto simp: check_all_health_def)

text \<open>An operation that does not fetch from the origin \<open>pin\<close>.\<close>

fun foreign_op :: "string \<Rightarrow> registry_op \<Rightarrow> bool" where
  "foreign_op pin (Fetch now url outcome) = (normalise_base_url url \<noteq> pin)"
| "foreign_op pin (ProbeAll now probe) = True"

lemma foreign_keeps:
  assumes "registry_good env svcs" and "map_of (rv_first_party env) sid = Some pin" and "map_of svcs sid = Some svc"
    and "normalise_base_url (sv_base_url svc) = pin" and "foreign_op pin e"
  shows "\<exists>svc'. map_of (registry_apply env svcs e) sid = Some svc' \<and> sv_manifest svc' = sv_manifest svc \<and>
    sv_base_url svc' = sv_base_url svc \<and> sv_is_community svc' = sv_is_community svc"
proof (cases e)
  case (Fetch now url outcome)
  have d: "distinct (map fst svcs)" using assms(1) by (simp add: registry_good_def)
  have url: "normalise_base_url url \<noteq> pin" using assms(5) Fetch by simp
  have ev: "map_of (evict_by_base_url url svcs) sid = Some svc"
    using evict_other assms(3,4) d url by fastforce
  have up: "map_of (upsert_service now m url (is_community_capability (rv_first_party env) cid url) svcs) sid = Some svc"
    if "mf_id m = cid" for m cid
    using that assms(2-4) url by (cases "mf_id m = sid") (auto simp: upsert_service_def is_community_capability_def split: option.splits)
  have "map_of (snd (fetch_one env now url outcome svcs)) sid = Some svc"
    using ev assms(3) by (cases outcome) (auto simp: fetch_one_def Let_def up split: option.splits)
  then show ?thesis using Fetch by simp
next
  case (ProbeAll now probe)
  then show ?thesis using assms(3) by (simp add: map_of_check_all check_health_keeps)
qed

text \<open>
  A first-party capability cannot be taken over: once a service is registered from the
  origin the operator pinned to its id, no sequence of health probes and of answers from
  other origins (valid manifests under the same id, invalid ones, failures) changes its
  manifest, its address or its trust. Conversely a valid manifest from the pinned origin
  always takes the id back from whoever held it.
\<close>

theorem pinned_identity_is_stable:
  assumes "registry_good env svcs" and "map_of (rv_first_party env) sid = Some pin"
  shows "(\<forall>svc ops. get_service sid svcs = Some svc \<and> normalise_base_url (sv_base_url svc) = pin \<and> list_all (foreign_op pin) ops \<longrightarrow>
      (\<exists>svc'. get_service sid (foldl (registry_apply env) svcs ops) = Some svc' \<and> sv_manifest svc' = sv_manifest svc \<and>
        sv_base_url svc' = sv_base_url svc \<and> \<not> sv_is_community svc')) \<and>
    (\<forall>now url m. normalise_base_url url = pin \<and> mf_id m = sid \<and> fst (fetch_one env now url (Parsed m) svcs) \<longrightarrow>
      (\<exists>svc'. get_service sid (snd (fetch_one env now url (Parsed m) svcs)) = Some svc' \<and> sv_base_url svc' = url \<and>
        sv_external_endpoints svc' = mf_external_endpoints (sv_manifest svc') \<and> sv_manifest svc' =
          m\<lparr>mf_external_endpoints := the (normalise_external_endpoints (mf_external_endpoints m))\<rparr> \<and> \<not> sv_is_community svc'))"
proof -
  have "\<exists>svc'. map_of (foldl (registry_apply env) svcs ops) sid = Some svc' \<and> sv_manifest svc' = sv_manifest svc \<and>
      sv_base_url svc' = sv_base_url svc \<and> \<not> sv_is_community svc'"
    if "map_of svcs sid = Some svc" "normalise_base_url (sv_base_url svc) = pin" "list_all (foreign_op pin) ops" for svc ops
    using that assms(1)
  proof (induction ops arbitrary: svcs svc)
    case Nil
    then have "service_ok env sid svc" by (auto intro: registry_lookup)
    with Nil assms(2) show ?case by (simp add: service_ok_def is_community_capability_def)
  next
    case (Cons e ops)
    from foreign_keeps [OF Cons.prems(4) assms(2) Cons.prems(1,2)] Cons.prems(3)
    obtain svc' where s: "map_of (registry_apply env svcs e) sid = Some svc'" "sv_manifest svc' = sv_manifest svc"
      "sv_base_url svc' = sv_base_url svc" by auto
    from Cons.IH [OF s(1)] s(2,3) Cons.prems registry_apply_good [OF Cons.prems(4)] show ?case by simp
  qed
  moreover have "\<exists>svc'. map_of (snd (fetch_one env now url (Parsed m) svcs)) sid = Some svc' \<and> sv_base_url svc' = url \<and>
        sv_external_endpoints svc' = mf_external_endpoints (sv_manifest svc') \<and> sv_manifest svc' =
          m\<lparr>mf_external_endpoints := the (normalise_external_endpoints (mf_external_endpoints m))\<rparr> \<and> \<not> sv_is_community svc'"
    if "normalise_base_url url = pin" "mf_id m = sid" "fst (fetch_one env now url (Parsed m) svcs)" for now url m
    using that assms(2)
    by (auto simp: fetch_one_def Let_def upsert_service_def is_community_capability_def split: option.splits if_splits)
  ultimately show ?thesis by (auto simp: get_service_def)
qed

theorem pinned_identity_is_stable_witness:
  "\<exists>svc'. get_service ''lumogis-graph'' (foldl (registry_apply sample_registry_env)
     (snd (fetch_one sample_registry_env 1 ''http://graph:8001/'' (Parsed sample_manifest) []))
     [Fetch 2 ''http://evil:9'' (Parsed (sample_manifest\<lparr>mf_version := ''66''\<rparr>)), Fetch 3 ''http://evil:9'' InvalidManifest]) = Some svc' \<and>
     mf_version (sv_manifest svc') = ''1''"
proof -
  let ?s = "snd (fetch_one sample_registry_env 1 ''http://graph:8001/'' (Parsed sample_manifest) [])"
  have g: "registry_good sample_registry_env ?s" by (rule fetch_good) (simp add: registry_good_def)
  have p: "map_of (rv_first_party sample_registry_env) ''lumogis-graph'' = Some ''http://graph:8001''"
    by (simp add: sample_registry_env_def)
  have n: "normalise_base_url ''http://graph:8001/'' = ''http://graph:8001''" "normalise_base_url ''http://evil:9'' = ''http://evil:9''"
    by (code_simp, code_simp)
  from pinned_identity_is_stable [OF g p, THEN conjunct1, rule_format, of _
      "[Fetch 2 ''http://evil:9'' (Parsed (sample_manifest\<lparr>mf_version := ''66''\<rparr>)), Fetch 3 ''http://evil:9'' InvalidManifest]"]
  show ?thesis using sample_fetch by (auto simp: get_service_def n sample_manifest_def)
qed

subsection \<open>Failures\<close>

text \<open>
  Only a bad answer removes a service: an unreachable origin or an HTTP error leaves the
  registry as it is, while an answer whose content fails any check removes exactly the
  services discovered at that origin, so a stale registration is no longer dispatched. A
  fetch that succeeds removes nobody.
\<close>

theorem eviction_is_exact:
  "fetch_one env now url Unreachable svcs = (False, svcs) \<and> fetch_one env now url (HttpStatus code) svcs = (False, svcs) \<and>
   (case fetch_one env now url outcome svcs of
      (True, svcs') \<Rightarrow> fst ` set svcs \<subseteq> fst ` set svcs'
    | (False, svcs') \<Rightarrow> svcs' = (if outcome = Unreachable \<or> (\<exists>c. outcome = HttpStatus c) then svcs
        else filter (\<lambda>(sid, svc). normalise_base_url (sv_base_url svc) \<noteq> normalise_base_url url) svcs))"
proof -
  have "fst ` set svcs \<subseteq> fst ` set (upsert_service now m url c svcs)" for m c
    by (auto simp: upsert_service_def set_fst_dict_set split: option.splits)
  then show ?thesis
    by (cases outcome) (auto simp: fetch_one_def evict_by_base_url_def Let_def split: option.splits)
qed

subsection \<open>Declared hosts\<close>

definition host_char :: "char \<Rightarrow> bool" where
  "host_char c = (label_char c \<or> c = CHR ''.'' \<or> c = newline)"

lemma split_on_mem: "c \<in> set s \<Longrightarrow> c = d \<or> (\<exists>w \<in> set (split_on d s). c \<in> set w)"
  by (induction d s rule: split_on.induct) (auto split: list.splits)

lemma host_label_chars: "host_label l \<Longrightarrow> c \<in> set l \<Longrightarrow> label_char c \<or> c = newline"
proof -
  assume h: "host_label l" and c: "c \<in> set l"
  show ?thesis
  proof (cases "strict_label l")
    case True
    with c show ?thesis by (auto simp: strict_label_def list_all_iff)
  next
    case False
    with h have l: "l \<noteq> []" "last l = newline" "strict_label (butlast l)" by (auto simp: host_label_def)
    from l(1) have "set l = insert (last l) (set (butlast l))"
      by (metis append_butlast_last_id list.simps(15) rotate1.simps(2) set_rotate1)
    with c l show ?thesis by (auto simp: strict_label_def list_all_iff)
  qed
qed

lemma bare_host_chars:
  assumes "is_valid_bare_host h"
  shows "list_all host_char h"
proof -
  have "host_char c" if "c \<in> set h" for c
  proof (cases "c = CHR ''.''")
    case True
    then show ?thesis by (simp add: host_char_def)
  next
    case False
    with split_on_mem [OF that, of "CHR ''.''"] obtain w where "w \<in> set (split_on (CHR ''.'') h)" "c \<in> set w" by blast
    with assms host_label_chars show ?thesis by (auto simp: is_valid_bare_host_def list_all_iff host_char_def)
  qed
  then show ?thesis by (simp add: list_all_iff)
qed

lemma clean_host_chars: "clean_host e = Some h \<Longrightarrow> h \<noteq> [] \<and> length h \<le> max_host_len \<and> list_all host_char h"
  by (auto simp: clean_host_def Let_def bare_host_chars split: if_splits)

lemma clean_hosts_all:
  "clean_hosts out es = Some hs \<Longrightarrow> distinct out \<Longrightarrow> list_all P out \<Longrightarrow> (\<And>e h. clean_host e = Some h \<Longrightarrow> P h) \<Longrightarrow>
    distinct hs \<and> list_all P hs \<and> length hs \<le> length out + length es"
proof (induction out es arbitrary: hs rule: clean_hosts.induct)
  case (1 out)
  then show ?case by simp
next
  case (2 out e es)
  then obtain h where h: "clean_host e = Some h" by (auto split: option.splits)
  have "distinct hs \<and> list_all P hs \<and> length hs \<le> length (if h \<in> set out then out else out @ [h]) + length es"
    using 2(2-5) h by (intro 2(1)) (auto simp: list_all_iff)
  then show ?case by (auto split: if_splits)
qed

text \<open>
  What a manifest may declare as external hosts: at most 32, without duplicates, each at
  most 253 characters and made of lower-case letters, digits, hyphens and dots, except that a
  line feed slips through at the end of an inner label, since the pattern's \<open>$\<close> matches
  before it: \<open>api.example<LF>.com\<close> is accepted as it stands.
\<close>

theorem declared_hosts_are_bounded:
  assumes "normalise_external_endpoints raw = Some hosts"
  shows "length hosts \<le> 32 \<and> distinct hosts \<and> list_all (\<lambda>h. h \<noteq> [] \<and> length h \<le> 253 \<and> list_all host_char h) hosts \<and>
    normalise_external_endpoints [''api.example'' @ [newline] @ ''.com''] = Some [''api.example'' @ [newline] @ ''.com'']"
proof -
  have r: "length raw \<le> 32" "clean_hosts [] raw = Some hosts"
    using assms by (auto simp: normalise_external_endpoints_def max_external_endpoints_def split: if_splits)
  have "distinct hosts \<and> list_all (\<lambda>h. h \<noteq> [] \<and> length h \<le> max_host_len \<and> list_all host_char h) hosts \<and> length hosts \<le> 0 + length raw"
    using clean_hosts_all [OF r(2), of "\<lambda>h. h \<noteq> [] \<and> length h \<le> max_host_len \<and> list_all host_char h"] clean_host_chars by auto
  moreover have "normalise_external_endpoints [''api.example'' @ [newline] @ ''.com''] = Some [''api.example'' @ [newline] @ ''.com'']"
    by code_simp
  ultimately show ?thesis using r(1) by (simp add: max_host_len_def)
qed

theorem declared_hosts_are_bounded_witness:
  "length [''api.example.com''] \<le> 32 \<and> normalise_external_endpoints ['' API.example.com '', ''api.example.com''] = Some [''api.example.com'']"
proof -
  have n: "normalise_external_endpoints ['' API.example.com '', ''api.example.com''] = Some [''api.example.com'']" by code_simp
  from declared_hosts_are_bounded [OF n] n show ?thesis by blast
qed

end
