(* ===== verification/CapabilityInvoke.thy ===== *)
theory CapabilityInvoke
  imports CapabilityRegistry
begin

section \<open>The capability invoke contract\<close>

text \<open>
  Models \<open>orchestrator/services/capability_http.py\<close>, \<open>capability_output_validator.py\<close> and the
  response validator of \<open>models/capability_invoke.py\<close>. The transport is a parameter: what
  one HTTP request meets. So are the structural JSON decoding of a response body (the
  pydantic part; the validator \<open>_check_branch\<close> is modelled) and the JSON Schema library.
  Timeouts are in milliseconds. The compiled-validator cache is keyed by the schema's content
  and only saves time, so it has no counterpart.
\<close>

subsection \<open>Output validation\<close>

definition constraining_keys :: "string list" where
  "constraining_keys =
    [''properties'', ''required'', ''items'', ''enum'', ''const'', ''additionalProperties'', ''minimum'', ''maximum'',
     ''exclusiveMinimum'', ''exclusiveMaximum'', ''pattern'', ''format'', ''minItems'', ''maxItems'', ''minLength'',
     ''maxLength'', ''anyOf'', ''allOf'', ''oneOf'', ''not'']"

definition is_trivial_schema :: "json_obj option \<Rightarrow> bool" where
  "is_trivial_schema schema =
     (case schema of None \<Rightarrow> True
      | Some s \<Rightarrow> s = [] \<or> \<not> list_ex (\<lambda>kv. fst kv \<in> set constraining_keys) s)"

text \<open>
  What the schema library says of a schema: it is unusable (\<open>Inl\<close> the message), or it
  reports for an output the location and message of the first error, if any.
\<close>

type_synonym schema_lib = "json_obj \<Rightarrow> string + (json \<Rightarrow> (string list \<times> string) option)"

definition validate_output :: "schema_lib \<Rightarrow> json \<Rightarrow> json_obj option \<Rightarrow> string + unit" where
  "validate_output lib out schema =
     (if is_trivial_schema schema then Inr ()
      else case lib (the schema) of
        Inl m \<Rightarrow> Inl (''invalid output_schema: '' @ m)
      | Inr errors \<Rightarrow>
          (case errors out of
             None \<Rightarrow> Inr ()
           | Some (path, m) \<Rightarrow>
               let loc = join ''/'' path in
               Inl (''output does not match schema at '' @ (if loc = [] then ''<root>'' else loc) @ '': '' @ m)))"

subsection \<open>The wire\<close>

datatype error_code = InvalidArguments | Unauthorized | NotFound | Timeout | Unavailable | InvalidOutput | Internal

definition code_text :: "error_code \<Rightarrow> string" where
  "code_text c = (case c of InvalidArguments \<Rightarrow> ''invalid_arguments'' | Unauthorized \<Rightarrow> ''unauthorized''
     | NotFound \<Rightarrow> ''not_found'' | Timeout \<Rightarrow> ''timeout'' | Unavailable \<Rightarrow> ''unavailable''
     | InvalidOutput \<Rightarrow> ''invalid_output'' | Internal \<Rightarrow> ''internal'')"

record invoke_error =
  ie_code :: error_code
  ie_message :: string
  ie_retryable :: bool

record invoke_response =
  iv_ok :: bool
  iv_output :: json
  iv_error :: "invoke_error option"

definition check_branch :: "invoke_response \<Rightarrow> bool" where
  "check_branch r = (if iv_ok r then iv_error r = None else iv_error r \<noteq> None)"

record http_request =
  hq_method :: string
  hq_url :: string
  hq_tool :: string
  hq_arguments :: json_obj
  hq_user :: user_id
  hq_request_id :: string
  hq_bearer :: "string option"
  hq_timeout_ms :: int

datatype http_outcome = HttpTimedOut | HttpFailed | HttpRaised | HttpReply int string

record invoke_env =
  nv_send :: "http_request \<Rightarrow> http_outcome"
  nv_decode :: "string \<Rightarrow> invoke_response option"
  nv_schema :: schema_lib
  nv_uuid :: string
  nv_max_bytes :: nat

record invoke_result =
  ir_ok :: bool
  ir_output :: json
  ir_code :: "string option"
  ir_message :: "string option"
  ir_retryable :: bool
  ir_status :: "int option"

definition output_text :: "invoke_result \<Rightarrow> string" where
  "output_text r = (case ir_output r of JStr s \<Rightarrow> s | j \<Rightarrow> dumps j)"

definition invoke_fail :: "string \<Rightarrow> string \<Rightarrow> bool \<Rightarrow> int option \<Rightarrow> invoke_result" where
  "invoke_fail code msg retryable status =
     \<lparr>ir_ok = False, ir_output = JNull, ir_code = Some code, ir_message = Some msg,
      ir_retryable = retryable, ir_status = status\<rparr>"

definition status_error_map :: "int \<Rightarrow> string \<times> bool" where
  "status_error_map status =
     (if status = 401 \<or> status = 403 then (''unauthorized'', False)
      else if status = 404 then (''not_found'', False)
      else if status = 503 then (''unavailable'', True)
      else if status = 504 then (''timeout'', True)
      else (''internal'', False))"

definition blank :: "string option \<Rightarrow> bool" where
  "blank b = (case b of None \<Rightarrow> True | Some s \<Rightarrow> s = [] \<or> py_strip s = [])"

definition with_slash :: "string \<Rightarrow> string" where
  "with_slash p = (if starts_with ''/'' p then p else CHR ''/'' # p)"

text \<open>What a reply becomes; the body's length is in characters, one per byte.\<close>

definition classify_reply :: "invoke_env \<Rightarrow> string \<Rightarrow> json_obj option \<Rightarrow> int \<Rightarrow> string \<Rightarrow> invoke_result" where
  "classify_reply env unavailable schema status body =
     (if length body > nv_max_bytes env then invoke_fail ''invalid_output'' unavailable False (Some status)
      else
        let parsed = (case nv_decode env body of
                        None \<Rightarrow> None | Some r \<Rightarrow> if check_branch r then Some r else None);
            fallback = (if status = 200 then invoke_fail ''internal'' unavailable False (Some status)
                        else let (code, retryable) = status_error_map status
                             in invoke_fail code unavailable retryable (Some status))
        in case parsed of
             None \<Rightarrow> fallback
           | Some r \<Rightarrow>
               (case (iv_ok r, iv_error r) of
                  (False, Some e) \<Rightarrow>
                    \<lparr>ir_ok = False, ir_output = JNull, ir_code = Some (code_text (ie_code e)),
                     ir_message = Some (ie_message e), ir_retryable = ie_retryable e, ir_status = Some status\<rparr>
                | (True, _) \<Rightarrow>
                    if status = 200 then
                      (case validate_output (nv_schema env) (iv_output r) schema of
                         Inl m \<Rightarrow> invoke_fail ''invalid_output'' m False (Some status)
                       | Inr _ \<Rightarrow> \<lparr>ir_ok = True, ir_output = iv_output r, ir_code = None, ir_message = None,
                                   ir_retryable = False, ir_status = Some status\<rparr>)
                    else fallback
                | (False, None) \<Rightarrow> fallback))"

text \<open>The result, and the request that was sent, if one was.\<close>

definition post_capability_tool_invocation ::
  "invoke_env \<Rightarrow> string \<Rightarrow> string \<Rightarrow> user_id \<Rightarrow> json_obj \<Rightarrow> int \<Rightarrow> string option \<Rightarrow> string option \<Rightarrow> string
    \<Rightarrow> string option \<Rightarrow> json_obj option \<Rightarrow> bool \<Rightarrow> string \<Rightarrow> invoke_result \<times> http_request option" where
  "post_capability_tool_invocation env base_url tool user args timeout_ms bearer0 path0 meth reqid schema require_bearer unavailable =
     (if require_bearer \<and> blank bearer0 then (invoke_fail ''missing_service_auth'' unavailable False None, None)
      else
        let bearer = (if \<not> require_bearer \<and> blank bearer0 then None else bearer0) in
        if user = [] \<or> base_url = [] \<or> tool = [] then (invoke_fail ''invalid_arguments'' unavailable False None, None)
        else
          let b = rstrip_slash base_url in
          if b = [] then (invoke_fail ''invalid_arguments'' unavailable False None, None)
          else
            let path = (case path0 of
                          Some p \<Rightarrow> if p = [] then ''/tools/'' @ dropWhile (\<lambda>c. c = CHR ''/'') tool else p
                        | None \<Rightarrow> ''/tools/'' @ dropWhile (\<lambda>c. c = CHR ''/'') tool);
                rq = \<lparr>hq_method = meth, hq_url = b @ with_slash path, hq_tool = tool, hq_arguments = args,
                      hq_user = user, hq_request_id = (case reqid of Some i \<Rightarrow> if i = [] then nv_uuid env else i
                                                       | None \<Rightarrow> nv_uuid env),
                      hq_bearer = (case bearer of None \<Rightarrow> None | Some s \<Rightarrow> if s = [] then None else Some s),
                      hq_timeout_ms = timeout_ms\<rparr>
            in (case nv_send env rq of
                  HttpTimedOut \<Rightarrow> (invoke_fail ''timeout'' unavailable True None, Some rq)
                | HttpFailed \<Rightarrow> (invoke_fail ''unavailable'' unavailable True None, Some rq)
                | HttpRaised \<Rightarrow> (invoke_fail ''internal'' unavailable False None, Some rq)
                | HttpReply status body \<Rightarrow> (classify_reply env unavailable schema status body, Some rq)))"

subsection \<open>Classification of answers\<close>

lemma parsed_cases:
  obtains (none) "(case nv_decode env body of None \<Rightarrow> None | Some r \<Rightarrow> if check_branch r then Some r else None) = None"
  | (good) r where "nv_decode env body = Some r" "iv_ok r" "iv_error r = None"
      "(case nv_decode env body of None \<Rightarrow> None | Some r \<Rightarrow> if check_branch r then Some r else None) = Some r"
  | (bad) r e where "nv_decode env body = Some r" "\<not> iv_ok r" "iv_error r = Some e"
      "(case nv_decode env body of None \<Rightarrow> None | Some r \<Rightarrow> if check_branch r then Some r else None) = Some r"
proof (cases "nv_decode env body")
  case None
  then show ?thesis by (simp add: none)
next
  case (Some r)
  show ?thesis
  proof (cases "check_branch r")
    case False
    with Some show ?thesis by (simp add: none)
  next
    case True
    with Some show ?thesis by (cases "iv_ok r") (auto simp: check_branch_def intro: good bad)
  qed
qed

lemma classify_none:
  assumes "length body \<le> nv_max_bytes env"
    and "(case nv_decode env body of None \<Rightarrow> None | Some r \<Rightarrow> if check_branch r then Some r else None) = None"
  shows "classify_reply env un schema status body =
    (if status = 200 then invoke_fail ''internal'' un False (Some status)
     else invoke_fail (fst (status_error_map status)) un (snd (status_error_map status)) (Some status))"
  using assms by (simp add: classify_reply_def Let_def split_beta)

text \<open>
  C40. What the reply of a capability service becomes. It is a success exactly when it has status
  200, fits the byte limit, decodes to \<open>ok:true\<close> with no error and its output passes the declared
  schema; the caller then gets that output, \<open>null\<close> included. A reply over the limit, and an output that fails
  its schema, is \<open>invalid_output\<close> and not retryable. Below the limit a well-formed error is passed on verbatim
  whatever the status, its retryable flag included. Every other reply - it does not decode, breaks the rule
  between \<open>ok\<close> and \<open>error\<close>, or says \<open>ok:true\<close> under another status - is an error by the
  status alone: 401 and 403 \<open>unauthorized\<close>, 404 \<open>not_found\<close>, 503 \<open>unavailable\<close>, 504
  \<open>timeout\<close>, anything else, 200 included, \<open>internal\<close>; of these only 503 and 504 are retryable.
\<close>

theorem capability_reply_classified:
  fixes env un schema status body
  defines "res \<equiv> classify_reply env un schema status body" and "fits \<equiv> length body \<le> nv_max_bytes env"
    and "success \<equiv> \<lambda>r. nv_decode env body = Some r \<and> iv_ok r \<and> iv_error r = None"
    and "failure \<equiv> \<lambda>r e. nv_decode env body = Some r \<and> \<not> iv_ok r \<and> iv_error r = Some e"
  shows "(ir_ok res = (status = 200 \<and> fits \<and> (\<exists>r. success r \<and> validate_output (nv_schema env) (iv_output r) schema = Inr () \<and> ir_output res = iv_output r))) \<and>
    (\<not> fits \<or> status = 200 \<and> (\<exists>r m. success r \<and> validate_output (nv_schema env) (iv_output r) schema = Inl m) \<longrightarrow>
       ir_code res = Some ''invalid_output'' \<and> \<not> ir_retryable res) \<and>
    (\<forall>r e. fits \<and> failure r e \<longrightarrow>
       ir_code res = Some (code_text (ie_code e)) \<and> ir_message res = Some (ie_message e) \<and> ir_retryable res = ie_retryable e) \<and>
    (fits \<and> (\<nexists>r e. failure r e) \<and> \<not> (status = 200 \<and> (\<exists>r. success r)) \<longrightarrow>
       \<not> ir_ok res \<and> ir_message res = Some un \<and> ir_retryable res = (status = 503 \<or> status = 504) \<and>
       ir_code res = Some (if status = 401 \<or> status = 403 then ''unauthorized'' else if status = 404 then ''not_found''
         else if status = 503 then ''unavailable'' else if status = 504 then ''timeout'' else ''internal''))"
proof (cases fits)
  case False
  then show ?thesis by (auto simp: classify_reply_def invoke_fail_def res_def fits_def success_def failure_def)
next
  case True
  then have len: "length body \<le> nv_max_bytes env" by (simp add: fits_def)
  show ?thesis
  proof (cases rule: parsed_cases [of env body])
    case none
    then have out: "\<not> check_branch r" if "nv_decode env body = Some r" for r
      using that by (auto split: if_splits)
    have res: "res = (if status = 200 then invoke_fail ''internal'' un False (Some status)
        else invoke_fail (fst (status_error_map status)) un (snd (status_error_map status)) (Some status))"
      unfolding res_def by (rule classify_none [OF len none])
    have "\<not> success r" "\<not> failure r e" for r e using out by (auto simp: success_def failure_def check_branch_def)
    with True show ?thesis unfolding res by (auto simp: invoke_fail_def status_error_map_def)
  next
    case (good r)
    then have u: "success x \<longleftrightarrow> x = r" "\<not> failure x e" for x e by (auto simp: success_def failure_def)
    from good len have res: "res = (if status = 200 then
        (case validate_output (nv_schema env) (iv_output r) schema of
           Inl m \<Rightarrow> invoke_fail ''invalid_output'' m False (Some status)
         | Inr _ \<Rightarrow> \<lparr>ir_ok = True, ir_output = iv_output r, ir_code = None, ir_message = None, ir_retryable = False, ir_status = Some status\<rparr>)
        else invoke_fail (fst (status_error_map status)) un (snd (status_error_map status)) (Some status))"
      by (simp add: res_def classify_reply_def Let_def split_beta)
    show ?thesis
      using True u by (cases "validate_output (nv_schema env) (iv_output r) schema") (auto simp: res invoke_fail_def status_error_map_def)
  next
    case (bad r e)
    then have u: "\<not> success x" "failure x y \<longleftrightarrow> x = r \<and> y = e" for x y by (auto simp: success_def failure_def)
    from bad len have "res = \<lparr>ir_ok = False, ir_output = JNull, ir_code = Some (code_text (ie_code e)),
        ir_message = Some (ie_message e), ir_retryable = ie_retryable e, ir_status = Some status\<rparr>"
      by (simp add: res_def classify_reply_def Let_def)
    with True u show ?thesis by auto
  qed
qed

text \<open>A sample transport: an error envelope under status 504.\<close>

definition sample_invoke :: invoke_env where
  "sample_invoke = \<lparr>nv_send = (\<lambda>_. HttpReply 504 ''e''),
     nv_decode = (\<lambda>b. if b = ''e'' then Some \<lparr>iv_ok = False, iv_output = JNull,
        iv_error = Some \<lparr>ie_code = Timeout, ie_message = ''slow'', ie_retryable = False\<rparr>\<rparr> else None),
     nv_schema = (\<lambda>_. Inr (\<lambda>_. None)), nv_uuid = ''u'', nv_max_bytes = 10\<rparr>"

theorem capability_reply_classified_witness:
  "ir_message (classify_reply sample_invoke ''down'' None 504 ''e'') = Some ''slow'' \<and>
   \<not> ir_retryable (classify_reply sample_invoke ''down'' None 504 ''e'') \<and>
   ir_code (classify_reply sample_invoke ''down'' None 503 ''x'') = Some ''unavailable'' \<and>
   ir_retryable (classify_reply sample_invoke ''down'' None 503 ''x'')"
proof -
  have "length ''e'' \<le> nv_max_bytes sample_invoke \<and> nv_decode sample_invoke ''e'' =
      Some \<lparr>iv_ok = False, iv_output = JNull, iv_error = Some \<lparr>ie_code = Timeout, ie_message = ''slow'', ie_retryable = False\<rparr>\<rparr>"
    and "length ''x'' \<le> nv_max_bytes sample_invoke" "nv_decode sample_invoke ''x'' = None"
    by (simp_all add: sample_invoke_def)
  then show ?thesis
    using capability_reply_classified [of sample_invoke "''down''" None 504 "''e''", THEN conjunct2, THEN conjunct2, THEN conjunct1]
      capability_reply_classified [of sample_invoke "''down''" None 503 "''x''", THEN conjunct2, THEN conjunct2, THEN conjunct2] by simp
qed

lemma post_sends:
  "snd (post_capability_tool_invocation env b tool u args t br p meth rid schema req un) = Some rq \<Longrightarrow>
    (req \<longrightarrow> \<not> blank br) \<and> u \<noteq> [] \<and> tool \<noteq> [] \<and> hq_user rq = u \<and> hq_arguments rq = args \<and> hq_timeout_ms rq = t \<and>
    hq_tool rq = tool \<and> (\<exists>path. hq_url rq = rstrip_slash b @ path \<and> starts_with ''/'' path)"
  by (auto simp: post_capability_tool_invocation_def with_slash_def starts_with_def Let_def split: if_splits http_outcome.splits)

lemma post_no_send_fails:
  "snd (post_capability_tool_invocation env b tool u args t br p meth rid schema req un) = None \<Longrightarrow>
    \<not> ir_ok (fst (post_capability_tool_invocation env b tool u args t br p meth rid schema req un))"
  by (auto simp: post_capability_tool_invocation_def invoke_fail_def Let_def split: if_splits http_outcome.splits)

end
