(* ===== verification/ToolDispatch.thy ===== *)
theory ToolDispatch
  imports CapabilityInvoke Actions
begin

section \<open>Tools: dispatch, execution and the result guard\<close>

text \<open>
  Models \<open>run_tool\<close> of \<open>orchestrator/services/tools.py\<close>, \<open>services/execution.py\<close>, the
  out-of-process part of \<open>services/unified_tools.py\<close>, \<open>services/tool_result_guard.py\<close> and the
  scanner of \<open>tool_result_scanner.py\<close>. A tool handler is a parameter: for the way it is
  called it says whether its body runs and what comes of it (a call with a keyword it does not
  take raises a \<open>TypeError\<close> without running the body). \<open>td_runs\<close> records the calls whose
  body ran and \<open>td_requests\<close> the HTTP requests sent to capability hosts. A rule of the
  scanner is a predicate on texts (the compiled regular expression).
\<close>

subsection \<open>State\<close>

datatype handler_call =
    UserCall json_obj user_id
  | RagCall json_obj user_id "string list"
  | LegacyCall json_obj

datatype tool_out = ToolText string | ToolTypeError string | ToolRaises string

record tool_spec =
  ts_name :: string
  ts_connector :: string
  ts_action_type :: string
  ts_is_write :: bool
  ts_definition :: json_obj
  ts_handler :: "handler_call \<Rightarrow> bool \<times> tool_out"

text \<open>\<open>OopCapabilityToolRoute\<close>; the closure \<open>get_bearer\<close> is the service id it looks up.\<close>

record oop_route =
  or_base_url :: string
  or_capability_id :: string
  or_tool_name :: string
  or_connector :: string
  or_action_type :: string
  or_is_write :: bool
  or_require_bearer :: bool
  or_bearer_service :: string
  or_invoke_path :: "string option"
  or_invoke_method :: string
  or_timeout_ms :: "int option"
  or_output_schema :: "json_obj option"
  or_required_scopes :: "string list"
  or_is_community :: bool
  or_external_endpoints :: "string list"

record flagged_event =
  fe_user :: user_id
  fe_tool :: string
  fe_hits :: "string list"

record tool_state =
  td_acts :: act_state
  td_specs :: "tool_spec list"
  td_services :: services
  td_routes :: "(string \<times> oop_route) list option"
  td_requests :: "http_request list"
  td_runs :: "(string \<times> handler_call) list"
  td_flagged :: "flagged_event list"

record tool_env =
  te_invoke :: invoke_env
  te_now :: instant
  te_log_ok :: bool
  te_audit_ok :: bool
  te_bearer :: "string \<Rightarrow> string option"
  te_catalog_enabled :: bool
  te_opt_in :: bool
  te_contained :: "string set"
  te_scanner_enabled :: bool
  te_rules :: "(string \<times> (string \<Rightarrow> bool)) list"
  te_uuid :: string

datatype tool_error =
    RunToolUserId
  | ToolPermission perm_error
  | HandlerTypeError string
  | HandlerError string

definition tool_perms :: "tool_state \<Rightarrow> perm_state" where
  "tool_perms st = perms (td_acts st)"

definition set_tool_perms :: "perm_state \<Rightarrow> tool_state \<Rightarrow> tool_state" where
  "set_tool_perms p st = st\<lparr>td_acts := (td_acts st)\<lparr>perms := p\<rparr>\<rparr>"

subsection \<open>Audit envelopes\<close>

record tool_envelope =
  ev_user_id :: user_id
  ev_tool_name :: string
  ev_request_id :: "string option"
  ev_capability_id :: "string option"
  ev_status :: string
  ev_failure_reason :: "string option"
  ev_result_summary :: "string option"
  ev_tool_connector :: "string option"
  ev_action_type :: "string option"
  ev_is_write :: bool

definition some_text :: "string \<Rightarrow> string option" where
  "some_text s = (if s = [] then None else Some s)"

definition capability_tool_audit_action :: string where
  "capability_tool_audit_action = ''tool.execute.capability''"

definition tool_audit_envelope_to_audit_entry :: "instant \<Rightarrow> tool_envelope \<Rightarrow> audit_entry" where
  "tool_audit_envelope_to_audit_entry now e =
     (let stripped = (case ev_tool_connector e of None \<Rightarrow> [] | Some c \<Rightarrow> py_strip c);
          connector = (if stripped \<noteq> [] then stripped
                       else case ev_capability_id e of None \<Rightarrow> ''capability'' | Some c \<Rightarrow> if c = [] then ''capability'' else c);
          payload_in = [(''kind'', JStr ''capability_tool''), (''capability_id'', opt_str (ev_capability_id e)),
             (''tool_name'', JStr (ev_tool_name e)), (''request_id'', opt_str (ev_request_id e)),
             (''status'', JStr (ev_status e)), (''failure_reason'', opt_str (ev_failure_reason e))] @
             (case ev_action_type e of None \<Rightarrow> [] | Some a \<Rightarrow> if a = [] then [] else [(''action_type'', JStr a)]);
          payload_out = [(''audit_status'', JStr (ev_status e)),
             (''failure_reason'', case ev_failure_reason e of None \<Rightarrow> JNull
                | Some f \<Rightarrow> if f = [] then JNull else JStr (take 240 f))] @
             (if ev_status e = ''ok'' \<and> present (ev_result_summary e)
              then [(''result_preview'', JStr (take 200 (the (ev_result_summary e))))] else [])
      in \<lparr>en_action = capability_tool_audit_action, en_connector = connector,
          en_mode = (if ev_is_write e then ''DO'' else ''ASK''),
          en_input = take 500 (dumps (JObj payload_in)), en_result = take 500 (dumps (JObj payload_out)),
          en_reverse = None, en_executed = Some now, en_user = ev_user_id e\<rparr>)"

definition persist_tool_audit_envelope :: "tool_env \<Rightarrow> tool_envelope \<Rightarrow> tool_state \<Rightarrow> tool_state" where
  "persist_tool_audit_envelope env e st =
     st\<lparr>td_acts := snd (write_audit (te_audit_ok env) (te_now env)
          (tool_audit_envelope_to_audit_entry (te_now env) e) None (td_acts st))\<rparr>"

subsection \<open>Permission\<close>

definition may_execute ::
  "tool_env \<Rightarrow> string \<Rightarrow> string \<Rightarrow> bool \<Rightarrow> user_id \<Rightarrow> tool_state \<Rightarrow> bool \<times> tool_state" where
  "may_execute env connector action w u st =
     (if connector = [] \<or> action = [] \<or> u = [] then (False, st)
      else case check_permission (te_log_ok env) (te_now env) connector action w u (tool_perms st) of
        (Inl e, p) \<Rightarrow> (False, set_tool_perms p st)
      | (Inr ok, p) \<Rightarrow> (ok, set_tool_perms p st))"

definition granted_scopes :: "user_id \<Rightarrow> string \<Rightarrow> tool_state \<Rightarrow> string list \<times> tool_state" where
  "granted_scopes u connector st =
     (case get_granted_scopes u connector (tool_perms st) of
        (Inl e, p) \<Rightarrow> ([], set_tool_perms p st) | (Inr s, p) \<Rightarrow> (s, set_tool_perms p st))"

subsection \<open>The executor\<close>

record tool_result =
  tr_success :: bool
  tr_output :: string
  tr_denied :: bool
  tr_blocked_auth :: bool

definition failed_tool :: "string \<Rightarrow> tool_result" where
  "failed_tool out = \<lparr>tr_success = False, tr_output = out, tr_denied = False, tr_blocked_auth = False\<rparr>"

definition invoke_handler :: "tool_spec \<Rightarrow> handler_call \<Rightarrow> tool_state \<Rightarrow> tool_out \<times> tool_state" where
  "invoke_handler sp call st =
     (let (ran, out) = ts_handler sp call
      in (out, if ran then st\<lparr>td_runs := td_runs st @ [(ts_name sp, call)]\<rparr> else st))"

text \<open>\<open>execute_inprocess\<close> with its audit hook; an exception of the handler leaves it.\<close>

definition execute_inprocess ::
  "tool_env \<Rightarrow> (tool_envelope \<Rightarrow> tool_state \<Rightarrow> tool_state) \<Rightarrow> tool_spec \<Rightarrow> json_obj \<Rightarrow> user_id \<Rightarrow> string option
    \<Rightarrow> tool_state \<Rightarrow> (tool_error + tool_result) \<times> tool_state" where
  "execute_inprocess env emit_audit sp inp u reqid st =
     (let envelope = (\<lambda>status reason summary.
            \<lparr>ev_user_id = u, ev_tool_name = ts_name sp, ev_request_id = reqid, ev_capability_id = None,
             ev_status = status, ev_failure_reason = reason, ev_result_summary = summary,
             ev_tool_connector = Some (ts_connector sp), ev_action_type = Some (ts_action_type sp),
             ev_is_write = ts_is_write sp\<rparr>);
          (ok, st1) = may_execute env (ts_connector sp) (ts_action_type sp) (ts_is_write sp) u st
      in if \<not> ok
         then (Inr \<lparr>tr_success = False, tr_output = ''Permission denied'', tr_denied = True, tr_blocked_auth = False\<rparr>,
               emit_audit (envelope ''denied'' (Some ''permission check failed (connector/action)'') None) st1)
         else
           let (out1, st2) = invoke_handler sp (UserCall inp u) st1;
               (out, st3) = (case out1 of ToolTypeError m \<Rightarrow> invoke_handler sp (LegacyCall inp) st2 | _ \<Rightarrow> (out1, st2))
           in (case out of
                 ToolText text \<Rightarrow>
                   (Inr \<lparr>tr_success = True, tr_output = text, tr_denied = False, tr_blocked_auth = False\<rparr>,
                    emit_audit (envelope ''ok'' None (some_text (take 500 text))) st3)
               | ToolTypeError m \<Rightarrow> (Inl (HandlerTypeError m), st3)
               | ToolRaises m \<Rightarrow> (Inl (HandlerError m), st3)))"

text \<open>
  The keyword arguments of one capability call; \<open>cc_bearer = None\<close> when no
  \<open>get_service_bearer\<close> was given, otherwise what it returns.
\<close>

record capability_call =
  cc_user :: user_id
  cc_request_id :: "string option"
  cc_tool :: string
  cc_capability :: string
  cc_connector :: string
  cc_action_type :: string
  cc_is_write :: bool
  cc_base_url :: string
  cc_input :: json_obj
  cc_bearer :: "string option option"
  cc_require_bearer :: bool
  cc_healthy :: bool
  cc_timeout_ms :: int
  cc_required_scopes :: "string list"
  cc_invoke_path :: "string option"
  cc_invoke_method :: string
  cc_output_schema :: "json_obj option"
  cc_unavailable :: string

definition call_envelope :: "capability_call \<Rightarrow> string \<Rightarrow> string option \<Rightarrow> string option \<Rightarrow> tool_envelope" where
  "call_envelope c status reason summary =
     \<lparr>ev_user_id = cc_user c, ev_tool_name = cc_tool c, ev_request_id = cc_request_id c,
      ev_capability_id = Some (cc_capability c), ev_status = status, ev_failure_reason = reason,
      ev_result_summary = summary, ev_tool_connector = Some (cc_connector c),
      ev_action_type = Some (cc_action_type c), ev_is_write = cc_is_write c\<rparr>"

definition missing_scope_output :: "string \<Rightarrow> string list \<Rightarrow> string" where
  "missing_scope_output connector missing =
     dumps (JObj [(''error'', JStr ''permission scope not granted''), (''connector'', JStr connector),
       (''missing_scopes'', JList (map JStr missing)),
       (''hint'', JStr (''grant via PUT /api/v1/me/permissions/'' @ connector))])"

text \<open>The part after the gates: the request, its result and the last envelope.\<close>

definition send_capability_call ::
  "tool_env \<Rightarrow> (tool_envelope \<Rightarrow> tool_state \<Rightarrow> tool_state) \<Rightarrow> capability_call \<Rightarrow> string option \<Rightarrow> tool_state
    \<Rightarrow> tool_result \<times> tool_state" where
  "send_capability_call env emit_audit c bearer st =
     (let args = dict_set ''user_id'' (JStr (cc_user c)) (cc_input c);
          (res, sent) = post_capability_tool_invocation (te_invoke env) (cc_base_url c) (cc_tool c) (cc_user c) args
             (cc_timeout_ms c) bearer (cc_invoke_path c) (cc_invoke_method c) (cc_request_id c) (cc_output_schema c)
             (cc_require_bearer c) (cc_unavailable c);
          st1 = st\<lparr>td_requests := td_requests st @ (case sent of None \<Rightarrow> [] | Some rq \<Rightarrow> [rq])\<rparr>
      in if \<not> ir_ok res then
           (let no_auth = (ir_code res = Some ''missing_service_auth'');
                st2 = emit_audit (call_envelope c (if no_auth then ''forbidden_auth'' else ''error'') (ir_code res) None) st1
            in if no_auth
               then (\<lparr>tr_success = False, tr_output = cc_unavailable c, tr_denied = False, tr_blocked_auth = True\<rparr>, st2)
               else (failed_tool (dumps (JObj
                       [(''error'', JStr (case ir_message res of None \<Rightarrow> cc_unavailable c
                                           | Some m \<Rightarrow> if m = [] then cc_unavailable c else m)),
                        (''code'', opt_str (ir_code res)), (''retryable'', JBool (ir_retryable res))])), st2))
         else
           (\<lparr>tr_success = True, tr_output = output_text res, tr_denied = False, tr_blocked_auth = False\<rparr>,
            emit_audit (call_envelope c ''ok'' None (some_text (take 500 (output_text res)))) st1))"

text \<open>The health and credential gates, which come after permission and scopes.\<close>

definition authorised_capability_call ::
  "tool_env \<Rightarrow> (tool_envelope \<Rightarrow> tool_state \<Rightarrow> tool_state) \<Rightarrow> capability_call \<Rightarrow> tool_state
    \<Rightarrow> tool_result \<times> tool_state" where
  "authorised_capability_call env emit_audit c st =
     (if \<not> cc_healthy c then
        (failed_tool (cc_unavailable c), emit_audit (call_envelope c ''unavailable'' (Some ''service unhealthy'') None) st)
      else if cc_require_bearer c \<and> cc_bearer c = None then
        (\<lparr>tr_success = False, tr_output = cc_unavailable c, tr_denied = False, tr_blocked_auth = True\<rparr>,
         emit_audit (call_envelope c ''forbidden_auth'' (Some ''get_service_bearer not configured'') None) st)
      else
        let bearer = (case cc_bearer c of
                        Some (Some b) \<Rightarrow> if py_strip b = [] then None else Some (py_strip b) | _ \<Rightarrow> None)
        in if cc_require_bearer c \<and> bearer = None then
             (\<lparr>tr_success = False, tr_output = cc_unavailable c, tr_denied = False, tr_blocked_auth = True\<rparr>,
              emit_audit (call_envelope c ''forbidden_auth'' (Some ''missing service credential'') None) st)
           else send_capability_call env emit_audit c bearer st)"

definition execute_capability_http ::
  "tool_env \<Rightarrow> (tool_envelope \<Rightarrow> tool_state \<Rightarrow> tool_state) \<Rightarrow> capability_call \<Rightarrow> tool_state
    \<Rightarrow> tool_result \<times> tool_state" where
  "execute_capability_http env emit_audit c st =
     (if py_strip (cc_connector c) = [] then
        (failed_tool (cc_unavailable c),
         emit_audit (call_envelope c ''error'' (Some ''missing connector (cannot permission-check)'') None) st)
      else
        let (ok, st1) = may_execute env (cc_connector c) (cc_action_type c) (cc_is_write c) (cc_user c) st in
        if \<not> ok then
          (\<lparr>tr_success = False, tr_output = ''Permission denied'', tr_denied = True, tr_blocked_auth = False\<rparr>,
           emit_audit (call_envelope c ''denied'' (Some ''permission'') None) st1)
        else
          let (granted, st2) = (if cc_required_scopes c = [] then ([], st1)
                                else granted_scopes (cc_user c) (cc_connector c) st1);
              missing = sort (remdups (filter (\<lambda>s. s \<notin> set granted) (cc_required_scopes c)))
          in if cc_required_scopes c \<noteq> [] \<and> missing \<noteq> [] then
               (\<lparr>tr_success = False, tr_output = missing_scope_output (cc_connector c) missing, tr_denied = True, tr_blocked_auth = False\<rparr>,
                emit_audit (call_envelope c ''denied'' (Some ''missing_scope'') None) st2)
             else authorised_capability_call env emit_audit c st2)"

subsection \<open>The result guard\<close>

definition redaction_placeholder :: string where
  "redaction_placeholder = ''[Tool result: content flagged for possible injection '' @ [char_of (45::nat)] @
     '' raw result available in audit log]''"

text \<open>
  The placeholder's dash is an em dash, beyond the model's code points; an ASCII dash stands
  for it.
\<close>

definition scan_hits :: "(string \<times> (string \<Rightarrow> bool)) list \<Rightarrow> string \<Rightarrow> string list" where
  "scan_hits rules text = (if text = [] then [] else map fst (filter (\<lambda>r. snd r text) rules))"

definition raw_audit_max_chars :: nat where
  "raw_audit_max_chars = 16000"

definition guard_tool_result :: "tool_env \<Rightarrow> string \<Rightarrow> user_id \<Rightarrow> string \<Rightarrow> tool_state \<Rightarrow> string \<times> tool_state" where
  "guard_tool_result env raw u tool st =
     (if raw = [] \<or> \<not> te_scanner_enabled env then (raw, st)
      else
        let hits = scan_hits (te_rules env) raw in
        if hits = [] then (raw, st)
        else
          let en = \<lparr>en_action = ''__injection__.tool_result_flagged'', en_connector = ''orchestrator'', en_mode = ''scan'',
                    en_input = dumps (JObj [(''tool'', JStr tool), (''pattern_hits'', JList (map JStr hits)),
                                            (''injection_flagged'', JBool True)]),
                    en_result = take raw_audit_max_chars raw, en_reverse = None, en_executed = Some (te_now env), en_user = u\<rparr>
          in (redaction_placeholder,
              st\<lparr>td_acts := snd (write_audit (te_audit_ok env) (te_now env) en None (td_acts st)),
                 td_flagged := td_flagged st @ [\<lparr>fe_user = u, fe_tool = tool, fe_hits = hits\<rparr>]\<rparr>))"

subsection \<open>Routes to capability tools\<close>

definition oop_http_timeout_ms :: int where
  "oop_http_timeout_ms = 10000"

definition openai_def_from_capability_tool :: "capability_tool \<Rightarrow> json_obj" where
  "openai_def_from_capability_tool t =
     [(''name'', JStr (ct_name t)), (''description'', JStr (ct_description t)),
      (''parameters'', if ct_input_schema t \<noteq> [] then JObj (ct_input_schema t)
                       else JObj [(''type'', JStr ''object''), (''properties'', JObj [])])]"

definition make_route :: "reg_service \<Rightarrow> capability_tool \<Rightarrow> oop_route" where
  "make_route svc ct =
     (let m = sv_manifest svc in
      \<lparr>or_base_url = rstrip_slash (sv_base_url svc), or_capability_id = mf_id m, or_tool_name = ct_name ct,
       or_connector = capability_connector (mf_id m), or_action_type = ct_name ct, or_is_write = ct_is_write ct,
       or_require_bearer = True, or_bearer_service = mf_id m, or_invoke_path = Some (invoke_path ct),
       or_invoke_method = ct_method ct, or_timeout_ms = ct_timeout_ms ct, or_output_schema = Some (ct_output_schema ct),
       or_required_scopes = mf_permissions_required m, or_is_community = sv_is_community svc,
       or_external_endpoints = sv_external_endpoints svc\<rparr>)"

fun collect_tools ::
  "string set \<Rightarrow> reg_service \<Rightarrow> bool \<Rightarrow> capability_tool list \<Rightarrow> (string \<times> oop_route) list \<times> json_obj list
    \<Rightarrow> (string \<times> oop_route) list \<times> json_obj list" where
  "collect_tools base svc shown [] acc = acc"
| "collect_tools base svc shown (ct # cts) (routes, defs) =
     (if ct_name ct \<in> base \<or> ct_name ct \<in> set (map fst routes) then collect_tools base svc shown cts (routes, defs)
      else collect_tools base svc shown cts
        (routes @ [(ct_name ct, make_route svc ct)],
         if shown then defs @ [openai_def_from_capability_tool ct] else defs))"

fun collect_services ::
  "tool_env \<Rightarrow> string set \<Rightarrow> reg_service list \<Rightarrow> (string \<times> oop_route) list \<times> json_obj list
    \<Rightarrow> (string \<times> oop_route) list \<times> json_obj list" where
  "collect_services env base [] acc = acc"
| "collect_services env base (svc # svcs) acc =
     (let mid = mf_id (sv_manifest svc) in
      if \<not> sv_healthy svc \<or> rstrip_slash (sv_base_url svc) = [] \<or> blank (te_bearer env mid)
      then collect_services env base svcs acc
      else collect_services env base svcs
        (collect_tools base svc
           (is_dispatch_allowed (sv_is_community svc) (Some mid) (te_contained env) (te_opt_in env))
           (sort_key ct_name (mf_tools (sv_manifest svc))) acc))"

text \<open>First-party services come first, each group ordered by id.\<close>

definition collect_oop_eligible ::
  "tool_env \<Rightarrow> services \<Rightarrow> string set \<Rightarrow> (string \<times> oop_route) list \<times> json_obj list" where
  "collect_oop_eligible env svcs base =
     collect_services env base
       (sort_key sv_is_community (sort_key (\<lambda>s. mf_id (sv_manifest s)) (all_services svcs))) ([], [])"

text \<open>The token is the value of the context variable that is to be restored.\<close>

definition prepare_llm_tools_for_request ::
  "tool_env \<Rightarrow> tool_state \<Rightarrow> (json_obj list \<times> (string \<times> oop_route) list option option) \<times> tool_state" where
  "prepare_llm_tools_for_request env st =
     (let tools = map ts_definition (td_specs st) in
      if \<not> te_catalog_enabled env then ((tools, None), st)
      else
        let (routes, extras) = collect_oop_eligible env (td_services st) (ts_name ` set (td_specs st)) in
        if routes = [] then ((tools, None), st)
        else ((tools @ extras, Some (td_routes st)), st\<lparr>td_routes := Some routes\<rparr>))"

definition reset_oop_routes :: "(string \<times> oop_route) list option option \<Rightarrow> tool_state \<Rightarrow> tool_state" where
  "reset_oop_routes token st = (case token of None \<Rightarrow> st | Some old \<Rightarrow> st\<lparr>td_routes := old\<rparr>)"

definition route_call :: "tool_env \<Rightarrow> oop_route \<Rightarrow> json_obj \<Rightarrow> user_id \<Rightarrow> capability_call" where
  "route_call env r inp u =
     \<lparr>cc_user = u, cc_request_id = Some (te_uuid env), cc_tool = or_tool_name r, cc_capability = or_capability_id r,
      cc_connector = or_connector r, cc_action_type = or_action_type r, cc_is_write = or_is_write r,
      cc_base_url = or_base_url r, cc_input = inp, cc_bearer = Some (te_bearer env (or_bearer_service r)),
      cc_require_bearer = or_require_bearer r, cc_healthy = True,
      cc_timeout_ms = (case or_timeout_ms r of None \<Rightarrow> oop_http_timeout_ms
                       | Some t \<Rightarrow> if t > 0 then min oop_http_timeout_ms t else oop_http_timeout_ms),
      cc_required_scopes = or_required_scopes r, cc_invoke_path = or_invoke_path r,
      cc_invoke_method = or_invoke_method r, cc_output_schema = or_output_schema r,
      cc_unavailable = ''capability: service unavailable''\<rparr>"

definition uncontained_refusal :: "string \<Rightarrow> string" where
  "uncontained_refusal cid = dumps (JObj [(''error'', JStr ''tool-unavailable''),
     (''reason'', JStr ''community_capability_uncontained''), (''capability_id'', JStr cid)])"

definition try_run_oop_capability_tool ::
  "tool_env \<Rightarrow> string \<Rightarrow> json_obj \<Rightarrow> user_id \<Rightarrow> tool_state \<Rightarrow> string option \<times> tool_state" where
  "try_run_oop_capability_tool env name inp u st =
     (if \<not> te_catalog_enabled env then (None, st)
      else case map_of (case td_routes st of None \<Rightarrow> [] | Some rs \<Rightarrow> rs) name of
        None \<Rightarrow> (None, st)
      | Some r \<Rightarrow>
          if \<not> is_dispatch_allowed (or_is_community r) (Some (or_capability_id r)) (te_contained env) (te_opt_in env)
          then (Some (uncontained_refusal (or_capability_id r)), st)
          else if (case get_service (or_capability_id r) (td_services st) of None \<Rightarrow> True | Some svc \<Rightarrow> \<not> sv_healthy svc)
          then (Some (dumps (JObj [(''error'', JStr ''capability service unavailable'')])), st)
          else
            let (res, st') = execute_capability_http env (persist_tool_audit_envelope env) (route_call env r inp u) st
            in if tr_denied res then
                 (Some (if starts_with ''{'' (py_lstrip (tr_output res)) then tr_output res
                        else dumps (JObj [(''error'', JStr ''Permission denied''), (''connector'', JStr (or_connector r)),
                                          (''action'', JStr (or_action_type r))])), st')
               else (Some (tr_output res), st'))"

subsection \<open>\<open>run_tool\<close>\<close>

definition permission_denied_json :: "tool_spec \<Rightarrow> string" where
  "permission_denied_json sp = dumps (JObj
     [(''error'', JStr ''Permission denied''), (''connector'', JStr (ts_connector sp)), (''action'', JStr (ts_action_type sp)),
      (''detail'', JStr (''Connector '' @ [char_of (39::nat)] @ ts_connector sp @ [char_of (39::nat)] @
                         '' is in ASK mode; writes blocked.''))])"

text \<open>Only \<open>search_files\<close> is told which chunks the automatic retrieval already used.\<close>

definition user_call :: "string \<Rightarrow> json_obj \<Rightarrow> user_id \<Rightarrow> string list option \<Rightarrow> handler_call" where
  "user_call name inp u rag =
     (case rag of Some ids \<Rightarrow> if name = ''search_files'' then RagCall inp u ids else UserCall inp u
      | None \<Rightarrow> UserCall inp u)"

text \<open>The call of the handler, with the fallback for handlers of the old signature.\<close>

definition call_with_fallback ::
  "tool_spec \<Rightarrow> json_obj \<Rightarrow> user_id \<Rightarrow> string list option \<Rightarrow> tool_state \<Rightarrow> tool_out \<times> tool_state" where
  "call_with_fallback sp inp u rag st =
     (let (out, st1) = invoke_handler sp (user_call (ts_name sp) inp u rag) st
      in case out of
           ToolTypeError m \<Rightarrow> if is_infix_of ''user_id'' m then invoke_handler sp (LegacyCall inp) st1 else (out, st1)
         | _ \<Rightarrow> (out, st1))"

definition run_tool ::
  "tool_env \<Rightarrow> string \<Rightarrow> json_obj \<Rightarrow> user_id \<Rightarrow> string list option \<Rightarrow> tool_state
    \<Rightarrow> (tool_error + string) \<times> tool_state" where
  "run_tool env name inp u rag st =
     (if u = [] then (Inl RunToolUserId, st)
      else case find (\<lambda>s. ts_name s = name) (td_specs st) of
        None \<Rightarrow>
          (case try_run_oop_capability_tool env name inp u st of
             (Some out, st1) \<Rightarrow> (let (text, st2) = guard_tool_result env out u name st1 in (Inr text, st2))
           | (None, st1) \<Rightarrow> (Inr (dumps (JObj [(''error'', JStr (''Unknown tool: '' @ name))])), st1))
      | Some sp \<Rightarrow>
          (case check_permission (te_log_ok env) (te_now env) (ts_connector sp) (ts_action_type sp) (ts_is_write sp) u (tool_perms st) of
             (Inl e, p) \<Rightarrow> (Inl (ToolPermission e), set_tool_perms p st)
           | (Inr allowed, p) \<Rightarrow>
               let st1 = set_tool_perms p st in
               if \<not> allowed then (Inr (permission_denied_json sp), st1)
               else
                 (case call_with_fallback sp inp u rag st1 of
                    (ToolText raw, st2) \<Rightarrow> (let (text, st3) = guard_tool_result env raw u name st2 in (Inr text, st3))
                  | (ToolTypeError m, st2) \<Rightarrow> (Inl (HandlerTypeError m), st2)
                  | (ToolRaises m, st2) \<Rightarrow> (Inl (HandlerError m), st2))))"

subsection \<open>The gates of a capability call\<close>

lemma set_tool_perms_simps [simp]:
  "set_tool_perms (tool_perms st) st = st" "tool_perms (set_tool_perms p st) = p"
  "set_tool_perms p (set_tool_perms q st) = set_tool_perms p st"
  "td_requests (set_tool_perms p st) = td_requests st" "td_runs (set_tool_perms p st) = td_runs st"
  "td_services (set_tool_perms p st) = td_services st" "td_routes (set_tool_perms p st) = td_routes st"
  "td_specs (set_tool_perms p st) = td_specs st" "td_flagged (set_tool_perms p st) = td_flagged st"
  "audit (td_acts (set_tool_perms p st)) = audit (td_acts st)"
  by (simp_all add: set_tool_perms_def tool_perms_def)

lemma tool_perms_requests [simp]: "tool_perms (st\<lparr>td_requests := q\<rparr>) = tool_perms st"
  by (simp add: tool_perms_def)

definition stored_mode :: "user_id \<Rightarrow> string \<Rightarrow> tool_state \<Rightarrow> string" where
  "stored_mode u c st = fst (stored_perm (tool_perms st) (u, c))"

definition stored_scopes :: "user_id \<Rightarrow> string \<Rightarrow> tool_state \<Rightarrow> string list" where
  "stored_scopes u c st = snd (stored_perm (tool_perms st) (u, c))"

lemma checked:
  assumes "perm_coherent p" and "u \<noteq> []"
  obtains p' where "check_permission ok now c a w u p = (Inr (\<not> (w \<and> fst (stored_perm p (u, c)) = ''ASK'')), p')"
    "perm_coherent p'" "stored_perm p' = stored_perm p"
  using check_decision [OF assms, of ok now c a w] check_tables(1) [OF assms(2), of ok now c a w p]
    check_coherent [OF assms(1), of ok now c a w u]
  by (metis prod.collapse)

lemma may_execute_cases:
  assumes "perm_coherent (tool_perms st)" and "may_execute env c a w u st = (ok, st1)"
  obtains p where "st1 = set_tool_perms p st" "perm_coherent p" "stored_perm p = stored_perm (tool_perms st)"
    "ok = (c \<noteq> [] \<and> a \<noteq> [] \<and> u \<noteq> [] \<and> \<not> (w \<and> stored_mode u c st = ''ASK''))"
proof (cases "c = [] \<or> a = [] \<or> u = []")
  case True
  with assms that [of "tool_perms st"] show ?thesis by (auto simp: may_execute_def)
next
  case False
  then have "u \<noteq> []" by simp
  from checked [OF assms(1) this, of "te_log_ok env" "te_now env" c a w]
  obtain p where "check_permission (te_log_ok env) (te_now env) c a w u (tool_perms st) =
      (Inr (\<not> (w \<and> fst (stored_perm (tool_perms st) (u, c)) = ''ASK'')), p)"
    "perm_coherent p" "stored_perm p = stored_perm (tool_perms st)" .
  with False assms(2) that [of p] show ?thesis by (auto simp: may_execute_def stored_mode_def)
qed

lemma granted_scopes_cases:
  assumes "perm_coherent (tool_perms st)" and "u \<noteq> []"
  obtains p where "granted_scopes u c st = (stored_scopes u c st, set_tool_perms p st)" "perm_coherent p"
    "stored_perm p = stored_perm (tool_perms st)"
proof -
  let ?r = "load_perm u c (tool_perms st)"
  have "fst ?r = stored_perm (tool_perms st) (u, c)" using assms(1) by (rule load_perm_value)
  moreover have "perm_coherent (snd ?r)" using assms(1) by (rule load_perm_coherent)
  moreover have "stored_perm (snd ?r) = stored_perm (tool_perms st)" by (rule stored_perm_rows) (simp add: frame)
  ultimately show ?thesis
    using that [of "snd ?r"] assms(2) by (simp add: granted_scopes_def get_scopes_eq stored_scopes_def)
qed

definition call_bearer :: "capability_call \<Rightarrow> string option" where
  "call_bearer c = (case cc_bearer c of Some (Some b) \<Rightarrow> if py_strip b = [] then None else Some (py_strip b) | _ \<Rightarrow> None)"

text \<open>Everything that must hold before a capability host is contacted.\<close>

definition call_cleared :: "capability_call \<Rightarrow> tool_state \<Rightarrow> bool" where
  "call_cleared c st \<longleftrightarrow>
     py_strip (cc_connector c) \<noteq> [] \<and> cc_action_type c \<noteq> [] \<and> cc_user c \<noteq> [] \<and>
     \<not> (cc_is_write c \<and> stored_mode (cc_user c) (cc_connector c) st = ''ASK'') \<and>
     set (cc_required_scopes c) \<subseteq> set (stored_scopes (cc_user c) (cc_connector c) st) \<and>
     cc_healthy c \<and> (cc_require_bearer c \<longrightarrow> call_bearer c \<noteq> None)"

lemma py_strip_Nil [simp]: "py_strip [] = []"
  by (simp add: py_strip_def py_rstrip_def py_lstrip_def)

lemma missing_empty: "(sort (remdups (filter (\<lambda>s. s \<notin> set g) r)) = []) = (set r \<subseteq> set g)" for r :: "string list"
proof -
  have "(sort (remdups (filter (\<lambda>s. s \<notin> set g) r)) = []) = (set (sort (remdups (filter (\<lambda>s. s \<notin> set g) r))) = {})"
    by (rule set_empty [symmetric])
  also have "\<dots> = (set r \<subseteq> set g)" by auto
  finally show ?thesis .
qed

lemma authorised_eq:
  "authorised_capability_call env emit_audit c st =
     (if \<not> cc_healthy c then
        (failed_tool (cc_unavailable c), emit_audit (call_envelope c ''unavailable'' (Some ''service unhealthy'') None) st)
      else if cc_require_bearer c \<and> cc_bearer c = None then
        (\<lparr>tr_success = False, tr_output = cc_unavailable c, tr_denied = False, tr_blocked_auth = True\<rparr>,
         emit_audit (call_envelope c ''forbidden_auth'' (Some ''get_service_bearer not configured'') None) st)
      else if cc_require_bearer c \<and> call_bearer c = None then
        (\<lparr>tr_success = False, tr_output = cc_unavailable c, tr_denied = False, tr_blocked_auth = True\<rparr>,
         emit_audit (call_envelope c ''forbidden_auth'' (Some ''missing service credential'') None) st)
      else send_capability_call env emit_audit c (call_bearer c) st)"
  unfolding authorised_capability_call_def call_bearer_def Let_def by (rule refl)

lemma authorised_cases:
  assumes "authorised_capability_call env emit_audit c st = (res, st')"
  obtains (refused) status reason where "st' = emit_audit (call_envelope c status (Some reason) None) st"
      "\<not> (cc_healthy c \<and> (cc_require_bearer c \<longrightarrow> call_bearer c \<noteq> None))"
      "\<not> tr_success res" "status \<noteq> ''ok''" "tr_denied res = (status = ''denied'')"
  | (sent) "cc_healthy c" "cc_require_bearer c \<longrightarrow> call_bearer c \<noteq> None"
      "send_capability_call env emit_audit c (call_bearer c) st = (res, st')"
proof (cases "cc_healthy c \<and> (cc_require_bearer c \<longrightarrow> call_bearer c \<noteq> None)")
  case True
  have nb: "cc_bearer c \<noteq> None" if "call_bearer c \<noteq> None"
    using that by (cases "cc_bearer c") (simp_all add: call_bearer_def)
  from True assms nb have "send_capability_call env emit_audit c (call_bearer c) st = (res, st')"
    by (cases "cc_require_bearer c") (auto simp: authorised_eq)
  with True sent show ?thesis by blast
next
  case False
  then consider "\<not> cc_healthy c" | "cc_healthy c" "cc_require_bearer c" "cc_bearer c = None"
    | "cc_healthy c" "cc_require_bearer c" "cc_bearer c \<noteq> None" "call_bearer c = None" by blast
  then show ?thesis
  proof cases
    case 1
    with assms False show ?thesis
      using refused [of "''unavailable''" "''service unhealthy''"] by (auto simp: authorised_eq failed_tool_def)
  next
    case 2
    with assms False show ?thesis
      using refused [of "''forbidden_auth''" "''get_service_bearer not configured''"] by (auto simp: authorised_eq)
  next
    case 3
    with assms False show ?thesis
      using refused [of "''forbidden_auth''" "''missing service credential''"]
      by (auto simp: authorised_eq)
  qed
qed

lemma scope_stage:
  assumes "perm_coherent (tool_perms st)" and "u \<noteq> []"
  obtains g r where "(if scopes = [] then ([], st) else granted_scopes u conn st) = (g, set_tool_perms r st)"
    "perm_coherent r" "stored_perm r = stored_perm (tool_perms st)"
    "(scopes \<noteq> [] \<and> sort (remdups (filter (\<lambda>s. s \<notin> set g) scopes)) \<noteq> []) = (\<not> set scopes \<subseteq> set (stored_scopes u conn st))"
proof (cases "scopes = []")
  case True
  with that [of "[]" "tool_perms st"] assms(1) show ?thesis by simp
next
  case False
  from granted_scopes_cases [OF assms, of conn] obtain p where
    p: "granted_scopes u conn st = (stored_scopes u conn st, set_tool_perms p st)" "perm_coherent p"
      "stored_perm p = stored_perm (tool_perms st)" .
  have "(scopes \<noteq> [] \<and> sort (remdups (filter (\<lambda>s. s \<notin> set (stored_scopes u conn st)) scopes)) \<noteq> []) =
      (\<not> set scopes \<subseteq> set (stored_scopes u conn st))"
    unfolding missing_empty using False by blast
  with that [OF _ p(2,3)] p(1) False show ?thesis by auto
qed

lemma execute_capability_cases:
  assumes "perm_coherent (tool_perms st)" and "execute_capability_http env emit_audit c st = (res, st')"
  obtains (refused) p status reason where "st' = emit_audit (call_envelope c status (Some reason) None) (set_tool_perms p st)"
      "\<not> call_cleared c st" "\<not> tr_success res" "status \<noteq> ''ok''" "tr_denied res = (status = ''denied'')"
      "stored_perm p = stored_perm (tool_perms st)" "perm_coherent p"
  | (sent) p where "call_cleared c st" "send_capability_call env emit_audit c (call_bearer c) (set_tool_perms p st) = (res, st')"
      "stored_perm p = stored_perm (tool_perms st)" "perm_coherent p"
proof (cases "py_strip (cc_connector c) = []")
  case True
  with assms show ?thesis
    using refused [of "''error''" "''missing connector (cannot permission-check)''" "tool_perms st"]
    by (auto simp: execute_capability_http_def call_cleared_def failed_tool_def)
next
  case conn: False
  obtain ok st1 where may: "may_execute env (cc_connector c) (cc_action_type c) (cc_is_write c) (cc_user c) st = (ok, st1)"
    by (rule prod.exhaust)
  from may_execute_cases [OF assms(1) may] obtain p where p: "st1 = set_tool_perms p st" "perm_coherent p"
    "stored_perm p = stored_perm (tool_perms st)"
    "ok = (cc_connector c \<noteq> [] \<and> cc_action_type c \<noteq> [] \<and> cc_user c \<noteq> [] \<and>
       \<not> (cc_is_write c \<and> stored_mode (cc_user c) (cc_connector c) st = ''ASK''))" .
  show ?thesis
  proof (cases ok)
    case False
    with assms(2) conn may p have "\<not> call_cleared c st" by (auto simp: call_cleared_def)
    with False assms(2) conn may p show ?thesis
      using refused [of "''denied''" "''permission''" p] by (auto simp: execute_capability_http_def)
  next
    case True
    with p have u: "cc_user c \<noteq> []" and coh: "perm_coherent (tool_perms st1)" by simp_all
    from scope_stage [OF coh u, of "cc_required_scopes c" "cc_connector c"] obtain g r where
      gr: "(if cc_required_scopes c = [] then ([], st1) else granted_scopes (cc_user c) (cc_connector c) st1) = (g, set_tool_perms r st1)"
        "perm_coherent r" "stored_perm r = stored_perm (tool_perms st1)"
        "(cc_required_scopes c \<noteq> [] \<and> sort (remdups (filter (\<lambda>s. s \<notin> set g) (cc_required_scopes c))) \<noteq> []) =
         (\<not> set (cc_required_scopes c) \<subseteq> set (stored_scopes (cc_user c) (cc_connector c) st))"
      using p(1,3) by (auto simp: stored_scopes_def)
    note eq = assms(2) [unfolded execute_capability_http_def Let_def, simplified conn may True gr(1,4) if_False if_True prod.case split not_True_eq_False]
    show ?thesis
    proof (cases "set (cc_required_scopes c) \<subseteq> set (stored_scopes (cc_user c) (cc_connector c) st)")
      case False
      with eq gr p show ?thesis
        using refused [of "''denied''" "''missing_scope''" r] by (auto simp: call_cleared_def)
    next
      case scopes: True
      with eq p(1) have "authorised_capability_call env emit_audit c (set_tool_perms r st) = (res, st')" by simp
      then show ?thesis
        using refused [of _ _ r] sent [of r] scopes conn True p gr by (cases rule: authorised_cases) (auto simp: call_cleared_def)
    qed
  qed
qed

subsection \<open>Contract: where the audit hook writes\<close>

text \<open>
  The executor takes its audit hook as an argument. What its gates rely on: emitting an envelope
  changes neither the permissions nor the requests sent. What its audit trail relies on besides:
  emitting appends one entry to the trail, and nothing else the executor does changes it.
\<close>

locale quiet_hook =
  fixes emit_audit :: "tool_envelope \<Rightarrow> tool_state \<Rightarrow> tool_state"
  assumes emit_requests: "td_requests (emit_audit e st) = td_requests st"
    and emit_stored: "stored_perm (tool_perms (emit_audit e st)) = stored_perm (tool_perms st)"
begin

lemma request_cleared:
  assumes "perm_coherent (tool_perms st)" and "execute_capability_http env emit_audit c st = (res, st')"
  shows "td_requests st' = td_requests st \<or>
    (call_cleared c st \<and> (\<exists>rq. td_requests st' = td_requests st @ [rq] \<and> hq_user rq = cc_user c \<and> hq_tool rq = cc_tool c \<and>
      map_of (hq_arguments rq) ''user_id'' = Some (JStr (cc_user c)) \<and> hq_timeout_ms rq = cc_timeout_ms c))"
  using assms
proof (cases rule: execute_capability_cases)
  case (refused p status reason)
  then show ?thesis by (simp add: emit_requests)
next
  case (sent p)
  let ?post = "post_capability_tool_invocation (te_invoke env) (cc_base_url c) (cc_tool c) (cc_user c)
     (dict_set ''user_id'' (JStr (cc_user c)) (cc_input c)) (cc_timeout_ms c) (call_bearer c) (cc_invoke_path c)
     (cc_invoke_method c) (cc_request_id c) (cc_output_schema c) (cc_require_bearer c) (cc_unavailable c)"
  from sent(2) have "td_requests st' = td_requests st @ (case snd ?post of None \<Rightarrow> [] | Some rq \<Rightarrow> [rq])"
    by (auto simp: send_capability_call_def Let_def emit_requests split: prod.splits if_splits)
  with sent(1) post_sends [of "te_invoke env"] show ?thesis by (cases "snd ?post") auto
qed

lemma execute_stored:
  assumes "perm_coherent (tool_perms st)" and "execute_capability_http env emit_audit c st = (res, st')"
  shows "stored_perm (tool_perms st') = stored_perm (tool_perms st)"
  using assms
proof (cases rule: execute_capability_cases)
  case (refused p status reason)
  then show ?thesis by (simp add: emit_stored)
next
  case (sent p)
  then show ?thesis
    by (auto simp: send_capability_call_def Let_def emit_stored simp del: dumps.simps split: prod.splits if_splits)
qed

end

locale audit_sink = quiet_hook emit_audit for emit_audit :: "tool_envelope \<Rightarrow> tool_state \<Rightarrow> tool_state" +
  fixes trail :: "tool_state \<Rightarrow> 'e list"
    and entry :: "tool_envelope \<Rightarrow> 'e"
  assumes emit_trail: "trail (emit_audit e st) = trail st @ [entry e]"
    and perms_trail: "trail (set_tool_perms p st) = trail st"
    and requests_trail: "trail (st\<lparr>td_requests := q\<rparr>) = trail st"
begin

lemma send_trail:
  assumes "send_capability_call env emit_audit c b st = (res, st')"
  shows "\<exists>status reason summary. trail st' = trail st @ [entry (call_envelope c status reason summary)] \<and>
    (status = ''ok'') = tr_success res \<and> status \<noteq> ''denied'' \<and> \<not> tr_denied res"
proof -
  obtain r sent where post: "post_capability_tool_invocation (te_invoke env) (cc_base_url c) (cc_tool c) (cc_user c)
     (dict_set ''user_id'' (JStr (cc_user c)) (cc_input c)) (cc_timeout_ms c) b (cc_invoke_path c)
     (cc_invoke_method c) (cc_request_id c) (cc_output_schema c) (cc_require_bearer c) (cc_unavailable c) = (r, sent)"
    by (rule prod.exhaust)
  show ?thesis
  proof (cases "ir_ok r")
    case True
    with assms post show ?thesis
      by (intro exI [of _ "''ok''"] exI [of _ None] exI [of _ "some_text (take 500 (output_text r))"])
         (auto simp: send_capability_call_def Let_def emit_trail requests_trail)
  next
    case False
    with assms post show ?thesis
      by (intro exI [of _ "if ir_code r = Some ''missing_service_auth'' then ''forbidden_auth'' else ''error''"]
           exI [of _ "ir_code r"] exI [of _ None])
         (auto simp: send_capability_call_def Let_def emit_trail requests_trail failed_tool_def simp del: dumps.simps)
  qed
qed

lemma one_entry:
  assumes "perm_coherent (tool_perms st)" and "execute_capability_http env emit_audit c st = (res, st')"
  shows "\<exists>status reason summary. trail st' = trail st @ [entry (call_envelope c status reason summary)] \<and>
    (status = ''ok'') = tr_success res \<and> (status = ''denied'') = tr_denied res"
  using assms
proof (cases rule: execute_capability_cases)
  case (refused p status reason)
  then show ?thesis
    by (intro exI [of _ status] exI [of _ "Some reason"] exI [of _ None]) (auto simp: emit_trail perms_trail)
next
  case (sent p)
  from send_trail [OF sent(2)] show ?thesis unfolding perms_trail by blast
qed

end

text \<open>
  The hook of the bridge writes a row of \<open>audit_log\<close>, or none when the insert fails; its trail is
  that table when the inserts succeed.
\<close>

definition audit_fields :: "audit_row \<Rightarrow> user_id \<times> string \<times> string \<times> string \<times> string" where
  "audit_fields r = (au_user r, au_connector r, au_mode r, au_input r, au_result r)"

definition entry_fields :: "audit_entry \<Rightarrow> user_id \<times> string \<times> string \<times> string \<times> string" where
  "entry_fields en = (en_user en, en_connector en, en_mode en, en_input en, en_result en)"

definition audit_trail :: "tool_state \<Rightarrow> (user_id \<times> string \<times> string \<times> string \<times> string) list" where
  "audit_trail st = map audit_fields (audit (td_acts st))"

interpretation bridge_hook: quiet_hook "persist_tool_audit_envelope senv" for senv
  by unfold_locales (simp_all add: persist_tool_audit_envelope_def write_audit_def Let_def tool_perms_def)

interpretation persisted: audit_sink "persist_tool_audit_envelope (senv\<lparr>te_audit_ok := True\<rparr>)" audit_trail
  "\<lambda>e. entry_fields (tool_audit_envelope_to_audit_entry (te_now senv) e)" for senv
  by unfold_locales
    (simp_all add: persist_tool_audit_envelope_def write_audit_def audit_trail_def audit_fields_def entry_fields_def
      Let_def tool_perms_def set_tool_perms_def)

subsection \<open>Capability calls\<close>

lemma env_audit_ok: "te_audit_ok env \<Longrightarrow> env\<lparr>te_audit_ok := True\<rparr> = env"
  by simp

text \<open>
  Every execution of a capability tool leaves exactly one audit row (when audit inserts
  succeed), whatever gate ended it or however the host answered: the row is the image of one
  envelope that carries the caller's id and the tool, its status is \<open>ok\<close> exactly when the
  result is a success and \<open>denied\<close> exactly when a permission gate refused.
\<close>

theorem one_audit_row_per_capability_call:
  assumes "perm_coherent (tool_perms st)" and "te_audit_ok env"
    and "execute_capability_http env (persist_tool_audit_envelope env) c st = (res, st')"
  shows "\<exists>status reason summary. audit_trail st' = audit_trail st @
      [entry_fields (tool_audit_envelope_to_audit_entry (te_now env) (call_envelope c status reason summary))] \<and>
    (status = ''ok'') = tr_success res \<and> (status = ''denied'') = tr_denied res"
  using persisted.one_entry [OF assms(1), where senv = env and env = env and c = c and res = res and st' = st'] assms(2,3) by (simp add: env_audit_ok)

definition sample_tools :: tool_state where
  "sample_tools = \<lparr>td_acts = \<lparr>registry = [], perms = sample_perms, audit = [], next_audit_id = 1, executed = [],
     registered = [], runs = []\<rparr>, td_specs = [], td_services = [], td_routes = None, td_requests = [], td_runs = [],
     td_flagged = []\<rparr>"

definition sample_tool_env :: tool_env where
  "sample_tool_env = \<lparr>te_invoke = sample_invoke, te_now = 5, te_log_ok = True, te_audit_ok = True,
     te_bearer = (\<lambda>_. Some ''tok''), te_catalog_enabled = True, te_opt_in = False, te_contained = {},
     te_scanner_enabled = True, te_rules = [(''ignore'', is_infix_of ''ignore previous'')], te_uuid = ''r-1''\<rparr>"

definition sample_call :: capability_call where
  "sample_call = \<lparr>cc_user = ''bob'', cc_request_id = None, cc_tool = ''send'', cc_capability = ''mail'', cc_connector = ''mail'',
     cc_action_type = ''send'', cc_is_write = True, cc_base_url = ''http://mail'', cc_input = [], cc_bearer = Some (Some ''t''),
     cc_require_bearer = True, cc_healthy = True, cc_timeout_ms = 10, cc_required_scopes = [], cc_invoke_path = None,
     cc_invoke_method = ''POST'', cc_output_schema = None, cc_unavailable = ''down''\<rparr>"

lemma sample_tools_coherent: "perm_coherent (tool_perms sample_tools)"
  by (simp add: sample_tools_def tool_perms_def sample_perms_coherent)

theorem one_audit_row_per_capability_call_witness:
  "length (audit_trail (snd (execute_capability_http sample_tool_env (persist_tool_audit_envelope sample_tool_env) sample_call sample_tools))) = 1"
proof -
  obtain res st' where run: "execute_capability_http sample_tool_env (persist_tool_audit_envelope sample_tool_env) sample_call sample_tools = (res, st')"
    by (rule prod.exhaust)
  have "te_audit_ok sample_tool_env" by (simp add: sample_tool_env_def)
  from one_audit_row_per_capability_call [OF sample_tools_coherent this run] run show ?thesis
    by (auto simp: audit_trail_def sample_tools_def)
qed

text \<open>
  C2. No capability host is contacted on behalf of a user before every gate is passed. Let the
  cache of the Ask/Do gate agree with its table, as it always does (C13), and let audit inserts
  fail or succeed. If dispatching a capability tool sends a request, then it is one request,
  the catalog is on and the tool has a route for this chat, the capability is first-party,
  contained or the operator opted in, its service is registered and healthy, a writing tool's
  connector is not in \<open>ASK\<close>, every scope the route requires is granted to the caller, and where
  the route requires a bearer one is configured that is not blank. The request names the
  caller, its \<open>user_id\<close> argument is the caller's whatever the model wrote there, and its time
  budget is positive and at most ten seconds.
\<close>

theorem capability_host_contacted_only_if_cleared:
  assumes "perm_coherent (tool_perms st)"
    and "try_run_oop_capability_tool env name inp u st = (out, st')" and "td_requests st' \<noteq> td_requests st"
  shows "\<exists>r rq svc. te_catalog_enabled env \<and> map_of (the (td_routes st)) name = Some r \<and>
    td_requests st' = td_requests st @ [rq] \<and> hq_user rq = u \<and> map_of (hq_arguments rq) ''user_id'' = Some (JStr u) \<and>
    0 < hq_timeout_ms rq \<and> hq_timeout_ms rq \<le> 10000 \<and>
    (or_is_community r \<longrightarrow> or_capability_id r \<in> te_contained env \<or> te_opt_in env) \<and>
    get_service (or_capability_id r) (td_services st) = Some svc \<and> sv_healthy svc \<and>
    \<not> (or_is_write r \<and> stored_mode u (or_connector r) st = ''ASK'') \<and>
    set (or_required_scopes r) \<subseteq> set (stored_scopes u (or_connector r) st) \<and>
    (or_require_bearer r \<longrightarrow> \<not> blank (te_bearer env (or_bearer_service r)))"
proof -
  from assms(2,3) obtain r where r: "te_catalog_enabled env" "map_of (case td_routes st of None \<Rightarrow> [] | Some rs \<Rightarrow> rs) name = Some r"
      "is_dispatch_allowed (or_is_community r) (Some (or_capability_id r)) (te_contained env) (te_opt_in env)"
    and svc: "\<not> (case get_service (or_capability_id r) (td_services st) of None \<Rightarrow> True | Some svc \<Rightarrow> \<not> sv_healthy svc)"
    by (auto simp: try_run_oop_capability_tool_def split: if_splits option.splits)
  let ?c = "route_call env r inp u"
  obtain res st1 where ex: "execute_capability_http env (persist_tool_audit_envelope env) ?c st = (res, st1)"
    by (rule prod.exhaust)
  have "st' = st1"
    using assms(2) r svc ex unfolding try_run_oop_capability_tool_def by (auto split: if_splits)
  with bridge_hook.request_cleared [OF assms(1) ex] assms(3)
  obtain rq where cl: "call_cleared ?c st" and rq: "td_requests st' = td_requests st @ [rq]" "hq_user rq = cc_user ?c"
      "map_of (hq_arguments rq) ''user_id'' = Some (JStr (cc_user ?c))" "hq_timeout_ms rq = cc_timeout_ms ?c"
    by auto
  have t: "0 < cc_timeout_ms ?c \<and> cc_timeout_ms ?c \<le> 10000"
    by (auto simp: route_call_def oop_http_timeout_ms_def split: option.splits)
  obtain s where "get_service (or_capability_id r) (td_services st) = Some s" "sv_healthy s"
    using svc by (auto split: option.splits)
  then show ?thesis
    using r cl rq t
    by (intro exI [of _ r] exI [of _ rq] exI [of _ s]) (auto simp: call_cleared_def route_call_def is_dispatch_allowed_def call_bearer_def blank_def split: if_splits option.splits)
qed

definition sample_route :: oop_route where
  "sample_route = \<lparr>or_base_url = ''http://g'', or_capability_id = ''lumogis-graph'', or_tool_name = ''query'',
     or_connector = ''capability.lumogis-graph'', or_action_type = ''query'', or_is_write = False, or_require_bearer = True,
     or_bearer_service = ''lumogis-graph'', or_invoke_path = None, or_invoke_method = ''POST'', or_timeout_ms = Some 60000,
     or_output_schema = None, or_required_scopes = [], or_is_community = False, or_external_endpoints = []\<rparr>"

definition sample_service :: reg_service where
  "sample_service = \<lparr>sv_manifest = sample_manifest, sv_base_url = ''http://g'', sv_registered_at = 1,
     sv_last_seen_healthy = None, sv_healthy = True, sv_unhealthy_reason = None, sv_is_community = False, sv_external_endpoints = []\<rparr>"

definition routed_tools :: tool_state where
  "routed_tools = sample_tools\<lparr>td_services := [(''lumogis-graph'', sample_service)], td_routes := Some [(''query'', sample_route)]\<rparr>"

lemma routed_request:
  "map hq_timeout_ms (td_requests (snd (try_run_oop_capability_tool sample_tool_env ''query'' [(''user_id'', JStr ''eve'')] ''bob'' routed_tools))) = [10000]"
  by code_simp

theorem capability_host_contacted_only_if_cleared_witness:
  "\<exists>rq. td_requests (snd (try_run_oop_capability_tool sample_tool_env ''query'' [(''user_id'', JStr ''eve'')] ''bob'' routed_tools)) = [rq] \<and>
     map_of (hq_arguments rq) ''user_id'' = Some (JStr ''bob'')"
proof -
  obtain out st' where run: "try_run_oop_capability_tool sample_tool_env ''query'' [(''user_id'', JStr ''eve'')] ''bob'' routed_tools = (out, st')"
    by (rule prod.exhaust)
  have c: "perm_coherent (tool_perms routed_tools)" "td_requests routed_tools = []"
    using sample_tools_coherent by (simp_all add: routed_tools_def tool_perms_def sample_tool_env_def sample_tools_def)
  have "td_requests st' \<noteq> td_requests routed_tools" using routed_request run c(2) by auto
  from capability_host_contacted_only_if_cleared [OF c(1) run this] show ?thesis using run c(2) by auto
qed

subsection \<open>The guard\<close>

text \<open>
  The guard between a tool and the model: with the scanner on, a non-empty result that
  matches a rule is replaced by the placeholder in its entirety, its raw text (up to 16,000
  characters) goes to one audit row under the caller, and one event is fired; any other
  result passes unchanged and leaves no trace.
\<close>

theorem flagged_results_are_redacted:
  "guard_tool_result env raw u tool st =
     (if te_scanner_enabled env \<and> (\<exists>r \<in> set (te_rules env). raw \<noteq> [] \<and> snd r raw)
      then (redaction_placeholder, snd (guard_tool_result env raw u tool st)) else (raw, st)) \<and>
   (te_scanner_enabled env \<and> te_audit_ok env \<and> (\<exists>r \<in> set (te_rules env). raw \<noteq> [] \<and> snd r raw) \<longrightarrow>
      (\<exists>row. audit (td_acts (snd (guard_tool_result env raw u tool st))) = audit (td_acts st) @ [row] \<and>
        au_user row = u \<and> au_result row = take 16000 raw) \<and>
      length (td_flagged (snd (guard_tool_result env raw u tool st))) = length (td_flagged st) + 1)"
proof -
  have "(scan_hits (te_rules env) raw = []) = (\<not> (\<exists>r \<in> set (te_rules env). raw \<noteq> [] \<and> snd r raw))"
    by (auto simp: scan_hits_def filter_empty_conv)
  then show ?thesis
    by (auto simp: guard_tool_result_def write_audit_def raw_audit_max_chars_def Let_def)
qed

theorem flagged_results_are_redacted_witness:
  "fst (guard_tool_result sample_tool_env ''now ignore previous orders'' ''bob'' ''web'' sample_tools) = redaction_placeholder"
proof -
  have "te_scanner_enabled sample_tool_env \<and> (\<exists>r \<in> set (te_rules sample_tool_env). ''now ignore previous orders'' \<noteq> [] \<and> snd r ''now ignore previous orders'')"
    by (simp add: sample_tool_env_def starts_with_def)
  with flagged_results_are_redacted [of sample_tool_env "''now ignore previous orders''" "''bob''" "''web''" sample_tools]
  show ?thesis by (metis fst_conv)
qed

subsection \<open>In-process tools\<close>

lemma guard_runs [simp]:
  "td_runs (snd (guard_tool_result env raw u tool st)) = td_runs st"
  "td_requests (snd (guard_tool_result env raw u tool st)) = td_requests st"
  "tool_perms (snd (guard_tool_result env raw u tool st)) = tool_perms st"
  by (simp_all add: guard_tool_result_def write_audit_def tool_perms_def Let_def)

lemma persist_runs [simp]: "td_runs (persist_tool_audit_envelope env e st) = td_runs st"
  by (simp add: persist_tool_audit_envelope_def)

lemma capability_runs:
  assumes "perm_coherent (tool_perms st)"
  shows "td_runs (snd (execute_capability_http env (persist_tool_audit_envelope env) c st)) = td_runs st"
proof -
  obtain res st' where run: "execute_capability_http env (persist_tool_audit_envelope env) c st = (res, st')"
    by (rule prod.exhaust)
  from assms run have "td_runs st' = td_runs st"
  proof (cases rule: execute_capability_cases)
    case (refused p status reason)
    then show ?thesis by simp
  next
    case (sent p)
    then show ?thesis by (auto simp: send_capability_call_def Let_def simp del: dumps.simps split: prod.splits if_splits)
  qed
  with run show ?thesis by simp
qed

lemma fallback_runs:
  "td_runs (snd (call_with_fallback sp inp u rag st)) = td_runs st @
     (if fst (ts_handler sp (user_call (ts_name sp) inp u rag)) then [(ts_name sp, user_call (ts_name sp) inp u rag)] else []) @
     (case snd (ts_handler sp (user_call (ts_name sp) inp u rag)) of
        ToolTypeError m \<Rightarrow> if is_infix_of ''user_id'' m \<and> fst (ts_handler sp (LegacyCall inp)) then [(ts_name sp, LegacyCall inp)] else []
      | _ \<Rightarrow> [])"
  by (cases "ts_handler sp (user_call (ts_name sp) inp u rag)"; cases "snd (ts_handler sp (user_call (ts_name sp) inp u rag))")
     (auto simp: call_with_fallback_def invoke_handler_def split_beta)

lemma run_tool_unknown:
  assumes "find (\<lambda>s. ts_name s = name) (td_specs st) = None" and "u \<noteq> []"
  shows "run_tool env name inp u rag st =
    (let r = try_run_oop_capability_tool env name inp u st in
     case fst r of Some out \<Rightarrow> (Inr (fst (guard_tool_result env out u name (snd r))), snd (guard_tool_result env out u name (snd r)))
     | None \<Rightarrow> (Inr (dumps (JObj [(''error'', JStr (''Unknown tool: '' @ name))])), snd r))"
  using assms unfolding run_tool_def Let_def by (simp add: split_beta split: option.split)

text \<open>
  The gate of \<open>run_tool\<close>: a writing tool whose connector is in \<open>ASK\<close> for the caller never
  runs and the model is told so; otherwise the handler is called once with the caller's id
  (and with the ids of the automatic retrieval for \<open>search_files\<close>), and a second time,
  without any identity, exactly when the first call raised a \<open>TypeError\<close> whose text mentions
  \<open>user_id\<close>. An unknown name never runs a handler.
\<close>

theorem run_tool_gate:
  assumes "perm_coherent (tool_perms st)" and "u \<noteq> []"
  shows "case find (\<lambda>s. ts_name s = name) (td_specs st) of
      None \<Rightarrow> td_runs (snd (run_tool env name inp u rag st)) = td_runs st
    | Some sp \<Rightarrow>
        (if ts_is_write sp \<and> stored_mode u (ts_connector sp) st = ''ASK''
         then fst (run_tool env name inp u rag st) = Inr (permission_denied_json sp) \<and>
           td_runs (snd (run_tool env name inp u rag st)) = td_runs st
         else td_runs (snd (run_tool env name inp u rag st)) = td_runs st @
             (if fst (ts_handler sp (user_call name inp u rag)) then [(name, user_call name inp u rag)] else []) @
             (case snd (ts_handler sp (user_call name inp u rag)) of
                ToolTypeError m \<Rightarrow> if is_infix_of ''user_id'' m \<and> fst (ts_handler sp (LegacyCall inp)) then [(name, LegacyCall inp)] else []
              | _ \<Rightarrow> []))"
proof (cases "find (\<lambda>s. ts_name s = name) (td_specs st)")
  case None
  have "td_runs (snd (try_run_oop_capability_tool env name inp u st)) = td_runs st"
    using capability_runs [OF assms(1), of env] unfolding try_run_oop_capability_tool_def
    by (auto split: option.splits prod.splits) (metis snd_conv)
  with None assms(2) show ?thesis
    by (cases "fst (try_run_oop_capability_tool env name inp u st)") (simp_all add: run_tool_unknown Let_def)
next
  case (Some sp)
  then have n: "ts_name sp = name" by (auto simp: find_Some_iff)
  from checked [OF assms(1,2), of "te_log_ok env" "te_now env" "ts_connector sp" "ts_action_type sp" "ts_is_write sp"]
  obtain p where p: "check_permission (te_log_ok env) (te_now env) (ts_connector sp) (ts_action_type sp) (ts_is_write sp) u (tool_perms st) =
      (Inr (\<not> (ts_is_write sp \<and> stored_mode u (ts_connector sp) st = ''ASK'')), p)"
    unfolding stored_mode_def by blast
  show ?thesis
  proof (cases "ts_is_write sp \<and> stored_mode u (ts_connector sp) st = ''ASK''")
    case True
    with Some p assms(2) show ?thesis by (simp add: run_tool_def)
  next
    case False
    let ?r = "call_with_fallback sp inp u rag (set_tool_perms p st)"
    have "td_runs (snd (run_tool env name inp u rag st)) = td_runs (snd ?r)"
      using Some p assms(2) False
      by (cases ?r; cases "fst ?r") (simp_all add: run_tool_def split_beta)
    then show ?thesis
      unfolding Some option.case if_not_P [OF False] fallback_runs n set_tool_perms_simps .
  qed
qed

text \<open>
  A handler that does its work and then fails on a malformed \<open>user_id\<close>: the fallback meant for
  old signatures runs it again, without the caller's identity.
\<close>

definition twice_tool :: tool_spec where
  "twice_tool = \<lparr>ts_name = ''note'', ts_connector = ''mail'', ts_action_type = ''send'', ts_is_write = True, ts_definition = [],
     ts_handler = (\<lambda>call. case call of LegacyCall i \<Rightarrow> (True, ToolText ''done'')
                            | _ \<Rightarrow> (True, ToolTypeError ''user_id must be a UUID''))\<rparr>"

theorem run_tool_gate_witness:
  "td_runs (snd (run_tool sample_tool_env ''note'' [] ''ann'' None (sample_tools\<lparr>td_specs := [twice_tool]\<rparr>))) =
     [(''note'', UserCall [] ''ann''), (''note'', LegacyCall [])] \<and>
   fst (run_tool sample_tool_env ''note'' [] ''bob'' None (sample_tools\<lparr>td_specs := [twice_tool]\<rparr>)) = Inr (permission_denied_json twice_tool)"
proof -
  let ?st = "sample_tools\<lparr>td_specs := [twice_tool]\<rparr>"
  have c: "perm_coherent (tool_perms ?st)" using sample_tools_coherent by (simp add: tool_perms_def)
  have f: "ts_name twice_tool = ''note''" "ts_connector twice_tool = ''mail''" "ts_is_write twice_tool"
    "ts_handler twice_tool (UserCall [] ''ann'') = (True, ToolTypeError ''user_id must be a UUID'')"
    "ts_handler twice_tool (LegacyCall []) = (True, ToolText ''done'')" "td_runs sample_tools = []"
    by (simp_all add: twice_tool_def sample_tools_def)
  have m: "stored_mode ''ann'' ''mail'' ?st = ''DO''" "stored_mode ''bob'' ''mail'' ?st = ''ASK''"
    by (simp_all add: stored_mode_def tool_perms_def sample_tools_def sample_perms_stored)
  have i: "is_infix_of ''user_id'' ''user_id must be a UUID''" by (simp add: starts_with_def)
  show ?thesis
    using run_tool_gate [OF c, where env = sample_tool_env and name = "''note''" and inp = "[]" and rag = None and u = "''ann''"]
      run_tool_gate [OF c, where env = sample_tool_env and name = "''note''" and inp = "[]" and rag = None and u = "''bob''"]
    by (simp add: f m user_call_def starts_with_def)
qed

subsection \<open>Routes\<close>

definition def_name :: "json_obj \<Rightarrow> json option" where
  "def_name d = map_of d ''name''"

definition tool_eligible :: "tool_env \<Rightarrow> reg_service \<Rightarrow> bool" where
  "tool_eligible env svc \<longleftrightarrow> sv_healthy svc \<and> rstrip_slash (sv_base_url svc) \<noteq> [] \<and> \<not> blank (te_bearer env (mf_id (sv_manifest svc)))"

definition service_allowed :: "tool_env \<Rightarrow> reg_service \<Rightarrow> bool" where
  "service_allowed env svc = is_dispatch_allowed (sv_is_community svc) (Some (mf_id (sv_manifest svc))) (te_contained env) (te_opt_in env)"

definition route_allowed :: "tool_env \<Rightarrow> oop_route \<Rightarrow> bool" where
  "route_allowed env r = is_dispatch_allowed (or_is_community r) (Some (or_capability_id r)) (te_contained env) (te_opt_in env)"

lemma make_route_simps [simp]:
  "or_tool_name (make_route svc ct) = ct_name ct" "or_is_community (make_route svc ct) = sv_is_community svc"
  "or_capability_id (make_route svc ct) = mf_id (sv_manifest svc)" "route_allowed env (make_route svc ct) = service_allowed env svc"
  "def_name (openai_def_from_capability_tool ct) = Some (JStr (ct_name ct))"
  by (simp_all add: make_route_def route_allowed_def service_allowed_def def_name_def openai_def_from_capability_tool_def Let_def)

lemma collect_services_Cons:
  "collect_services env base (svc # svcs) acc = collect_services env base svcs
     (if tool_eligible env svc then collect_tools base svc (service_allowed env svc) (sort_key ct_name (mf_tools (sv_manifest svc))) acc else acc)"
  by (simp add: tool_eligible_def service_allowed_def Let_def)

text \<open>What holds of the routes and definitions collected so far; \<open>P\<close> is a property of single routes.\<close>

definition collected ::
  "tool_env \<Rightarrow> string set \<Rightarrow> (string \<times> oop_route \<Rightarrow> bool) \<Rightarrow> (string \<times> oop_route) list \<times> json_obj list \<Rightarrow> bool" where
  "collected env base P acc \<longleftrightarrow> distinct (map fst (fst acc)) \<and> base \<inter> fst ` set (fst acc) = {} \<and> list_all P (fst acc) \<and>
     (\<forall>d \<in> set (snd acc). \<exists>(n, r) \<in> set (fst acc). def_name d = Some (JStr n) \<and> route_allowed env r)"

lemma collected_add:
  assumes "collected env base P (routes, defs)" and "ct_name ct \<notin> base" and "ct_name ct \<notin> set (map fst routes)"
    and "P (ct_name ct, make_route svc ct)"
  shows "collected env base P (routes @ [(ct_name ct, make_route svc ct)],
    if service_allowed env svc then defs @ [openai_def_from_capability_tool ct] else defs)"
  using assms by (auto simp: collected_def)

lemma collect_tools_inv:
  assumes "collected env base P acc" and "\<And>ct. P (ct_name ct, make_route svc ct)"
  shows "collected env base P (collect_tools base svc (service_allowed env svc) cts acc) \<and>
    (\<exists>xs. fst (collect_tools base svc (service_allowed env svc) cts acc) = fst acc @ xs) \<and>
    ct_name ` set cts \<subseteq> base \<union> fst ` set (fst (collect_tools base svc (service_allowed env svc) cts acc))"
  using assms(1)
proof (induction cts arbitrary: acc)
  case Nil
  then show ?case by simp
next
  case (Cons ct cts)
  obtain routes defs where acc: "acc = (routes, defs)" by (rule prod.exhaust)
  show ?case
  proof (cases "ct_name ct \<in> base \<or> ct_name ct \<in> set (map fst routes)")
    case True
    have "ct_name ct \<in> base \<union> fst ` set (fst (collect_tools base svc (service_allowed env svc) cts acc))"
      using Cons.IH [OF Cons.prems] True acc by auto
    with Cons.IH [OF Cons.prems] True acc show ?thesis by auto
  next
    case False
    then have "collected env base P (routes @ [(ct_name ct, make_route svc ct)],
        if service_allowed env svc then defs @ [openai_def_from_capability_tool ct] else defs)"
      using collected_add Cons.prems acc assms(2) by blast
    from Cons.IH [OF this] False acc show ?thesis by auto
  qed
qed

lemma collect_services_inv:
  assumes "collected env base P acc" and "\<And>svc ct. svc \<in> set svcs \<Longrightarrow> tool_eligible env svc \<Longrightarrow> P (ct_name ct, make_route svc ct)"
  shows "collected env base P (collect_services env base svcs acc) \<and>
    (\<exists>xs. fst (collect_services env base svcs acc) = fst acc @ xs) \<and>
    (\<forall>svc \<in> set svcs. tool_eligible env svc \<longrightarrow>
       ct_name ` set (mf_tools (sv_manifest svc)) \<subseteq> base \<union> fst ` set (fst (collect_services env base svcs acc)))"
  using assms
proof (induction svcs arbitrary: acc)
  case Nil
  then show ?case by simp
next
  case (Cons svc svcs)
  define acc' where "acc' = (if tool_eligible env svc
     then collect_tools base svc (service_allowed env svc) (sort_key ct_name (mf_tools (sv_manifest svc))) acc else acc)"
  have step: "collected env base P acc' \<and> (\<exists>xs. fst acc' = fst acc @ xs) \<and>
      (tool_eligible env svc \<longrightarrow> ct_name ` set (mf_tools (sv_manifest svc)) \<subseteq> base \<union> fst ` set (fst acc'))"
    using collect_tools_inv [OF Cons.prems(1), of svc "sort_key ct_name (mf_tools (sv_manifest svc))"] Cons.prems
    by (simp add: acc'_def)
  have ih: "collected env base P (collect_services env base svcs acc') \<and>
    (\<exists>xs. fst (collect_services env base svcs acc') = fst acc' @ xs) \<and>
    (\<forall>svc \<in> set svcs. tool_eligible env svc \<longrightarrow>
       ct_name ` set (mf_tools (sv_manifest svc)) \<subseteq> base \<union> fst ` set (fst (collect_services env base svcs acc')))"
    using step Cons.prems(2) by (intro Cons.IH) auto
  then obtain xs where xs: "fst (collect_services env base svcs acc') = fst acc' @ xs" by blast
  have "collect_services env base (svc # svcs) acc = collect_services env base svcs acc'"
    unfolding collect_services_Cons acc'_def ..
  with step ih xs show ?case by auto
qed

lemma sort_key_bool: "sort_key f xs = filter (\<lambda>x. \<not> f x) xs @ filter f xs"
proof (induction xs)
  case Nil
  then show ?case by simp
next
  case (Cons x xs)
  have "insort_key f x (filter (\<lambda>x. \<not> f x) ys @ filter f xs) =
      (if f x then filter (\<lambda>x. \<not> f x) ys @ x # filter f xs else x # filter (\<lambda>x. \<not> f x) ys @ filter f xs)" for ys
    by (induction ys) (auto simp: insort_is_Cons)
  with Cons show ?case by auto
qed

text \<open>
  The tools a chat may call: no capability tool shadows a tool of the core, names are
  unique, each route belongs to a healthy service with a configured bearer and asks for that
  capability's own permission, the model is shown only tools the community gate would
  dispatch, and a community capability never takes a name that an eligible first-party
  service offers, whatever the order in which the services registered.
\<close>

theorem capability_tools_are_shown_safely:
  assumes "collect_oop_eligible env svcs base = (routes, defs)"
  shows "distinct (map fst routes) \<and> base \<inter> fst ` set routes = {} \<and>
    (\<forall>(n, r) \<in> set routes. (\<exists>svc ct. svc \<in> set (all_services svcs) \<and> tool_eligible env svc \<and> r = make_route svc ct \<and> n = ct_name ct) \<and>
       (or_is_community r \<longrightarrow> (\<forall>svc \<in> set (all_services svcs). \<forall>ct \<in> set (mf_tools (sv_manifest svc)).
          tool_eligible env svc \<and> \<not> sv_is_community svc \<longrightarrow> ct_name ct \<noteq> n))) \<and>
    (\<forall>d \<in> set defs. \<exists>(n, r) \<in> set routes. def_name d = Some (JStr n) \<and> route_allowed env r)"
proof -
  define ordered where "ordered = sort_key (\<lambda>s. mf_id (sv_manifest s)) (all_services svcs)"
  define fp where "fp = filter (\<lambda>s. \<not> sv_is_community s) ordered"
  define co where "co = filter sv_is_community ordered"
  have set_o: "set ordered = set (all_services svcs)" by (simp add: ordered_def)
  define P where "P = (\<lambda>(n, r). \<exists>svc ct. svc \<in> set (all_services svcs) \<and> tool_eligible env svc \<and> r = make_route svc ct \<and> n = ct_name ct)"
  have start: "collected env base Q ([], [])" for Q by (simp add: collected_def)
  have split: "collect_services env base (xs @ ys) acc = collect_services env base ys (collect_services env base xs acc)" for xs ys acc
    by (induction xs arbitrary: acc) (simp_all add: collect_services_Cons del: collect_services.simps(2))
  let ?mid = "collect_services env base fp ([], [])"
  have res: "(routes, defs) = collect_services env base co ?mid"
    using assms by (simp add: collect_oop_eligible_def sort_key_bool ordered_def fp_def co_def split)
  have mid: "collected env base (\<lambda>x. P x \<and> \<not> or_is_community (snd x)) ?mid \<and>
    (\<forall>svc \<in> set fp. tool_eligible env svc \<longrightarrow> ct_name ` set (mf_tools (sv_manifest svc)) \<subseteq> base \<union> fst ` set (fst ?mid))"
    using collect_services_inv [where svcs = fp and env = env and base = base and acc = "([], [])"
        and P = "\<lambda>x. P x \<and> \<not> or_is_community (snd x)", OF start] set_o
    by (auto simp: P_def fp_def)
  have mid_P: "collected env base P ?mid" using mid by (auto simp: collected_def list_all_iff)
  have P_co: "P (ct_name ct, make_route svc ct)" if "svc \<in> set co" "tool_eligible env svc" for svc ct
    using that set_o by (auto simp: P_def co_def)
  from collect_services_inv [where svcs = co, OF mid_P P_co]
  have fin: "collected env base P (routes, defs)" and "\<exists>xs. routes = fst ?mid @ xs"
    unfolding res [symmetric] by simp_all
  then obtain xs where xs: "routes = fst ?mid @ xs" by blast
  have "ct_name ct \<noteq> n" if "(n, r) \<in> set routes" "or_is_community r" "svc \<in> set (all_services svcs)"
    "ct \<in> set (mf_tools (sv_manifest svc))" "tool_eligible env svc" "\<not> sv_is_community svc" for n r svc ct
  proof
    assume eq: "ct_name ct = n"
    have "(n, r) \<in> set xs" using that(1,2) xs mid by (auto simp: collected_def list_all_iff)
    then have nx: "n \<in> fst ` set xs" by force
    have "fst ` set (fst ?mid) \<inter> fst ` set xs = {}" "base \<inter> fst ` set routes = {}"
      using fin xs by (simp_all add: collected_def)
    with nx xs have "n \<notin> fst ` set (fst ?mid)" "n \<notin> base" by auto
    moreover have "svc \<in> set fp" using that(3,6) set_o by (simp add: fp_def)
    ultimately show False using mid that(4,5) eq by blast
  qed
  moreover have "distinct (map fst routes) \<and> base \<inter> fst ` set routes = {} \<and> list_all P routes \<and>
     (\<forall>d \<in> set defs. \<exists>(n, r) \<in> set routes. def_name d = Some (JStr n) \<and> route_allowed env r)"
    using fin by (simp add: collected_def)
  ultimately show ?thesis unfolding list_all_iff P_def by fast
qed

definition query_tool :: capability_tool where
  "query_tool = \<lparr>ct_name = ''query'', ct_description = ''q'', ct_input_schema = [], ct_output_schema = [], ct_is_write = False,
     ct_timeout_ms = None, ct_path = None, ct_method = ''POST''\<rparr>"

definition graph_service :: reg_service where
  "graph_service = sample_service\<lparr>sv_manifest := sample_manifest\<lparr>mf_tools := [query_tool]\<rparr>\<rparr>"

definition shadow_service :: reg_service where
  "shadow_service = graph_service\<lparr>sv_is_community := True, sv_manifest := sample_manifest\<lparr>mf_id := ''acme'', mf_tools := [query_tool]\<rparr>\<rparr>"

theorem capability_tools_are_shown_safely_witness:
  "filter (\<lambda>(n, r). n = ''query'' \<and> or_is_community r)
     (fst (collect_oop_eligible sample_tool_env [(''acme'', shadow_service), (''lumogis-graph'', graph_service)] {})) = []"
proof -
  let ?svcs = "[(''acme'', shadow_service), (''lumogis-graph'', graph_service)]"
  obtain routes defs where run: "collect_oop_eligible sample_tool_env ?svcs {} = (routes, defs)" by (rule prod.exhaust)
  have g: "graph_service \<in> set (all_services ?svcs)" "query_tool \<in> set (mf_tools (sv_manifest graph_service))"
    "\<not> sv_is_community graph_service" "ct_name query_tool = ''query''"
    by (simp_all add: all_services_def graph_service_def query_tool_def sample_service_def)
  have "tool_eligible sample_tool_env graph_service" by code_simp
  with capability_tools_are_shown_safely [OF run] g run show ?thesis
    by (auto simp: filter_empty_conv)
qed

subsection \<open>Scopes that cannot be granted\<close>

text \<open>
  A required scope written with surrounding white space locks its tool out for good. The
  registry accepts the manifest, because it checks scopes after stripping them, and the
  consent page, which strips too, shows the scope as granted; but the dispatcher compares the
  text as declared with the granted scopes, which are stored stripped, so whatever the user
  grants the call is refused and the host is not contacted.
\<close>

theorem padded_scope_locks_out:
  assumes "perm_coherent p" and "cc_user c \<noteq> []" and "normalise_scopes scs = Inr clean"
    and "tool_perms st = snd (grant_scopes now (cc_user c) (cc_connector c) scs p)"
    and "s \<in> set (cc_required_scopes c)" and "\<not> valid_scope s"
    and "execute_capability_http env (persist_tool_audit_envelope env) c st = (res, st')"
  shows "\<not> tr_success res \<and> td_requests st' = td_requests st"
proof -
  have coh: "perm_coherent (tool_perms st)" unfolding assms(4) using assms(1) by (rule grant_coherent)
  have "stored_scopes (cc_user c) (cc_connector c) st = clean"
    unfolding stored_scopes_def assms(4) stored_after_grant [OF assms(2,3)] by simp
  moreover have "list_all valid_scope clean"
    using normalise_clean [OF assms(3)] .
  ultimately have "\<not> call_cleared c st"
    using assms(5,6) by (auto simp: call_cleared_def list_all_iff)
  with coh assms(7) show ?thesis
    by (cases rule: execute_capability_cases) (auto simp: persist_tool_audit_envelope_def)
qed

definition padded_manifest :: manifest where
  "padded_manifest = sample_manifest\<lparr>mf_permissions_required := ['' graph:read'']\<rparr>"

theorem padded_scope_locks_out_witness:
  "malformed_required_scopes padded_manifest = [] \<and> normalise_scopes (required_scopes_for padded_manifest) = Inr [''graph:read''] \<and>
   \<not> tr_success (fst (execute_capability_http sample_tool_env (persist_tool_audit_envelope sample_tool_env)
      (sample_call\<lparr>cc_required_scopes := mf_permissions_required padded_manifest\<rparr>)
      (set_tool_perms (snd (grant_scopes 1 ''bob'' ''mail'' (required_scopes_for padded_manifest) sample_perms)) sample_tools)))"
proof -
  have m: "malformed_required_scopes padded_manifest = []" "normalise_scopes (required_scopes_for padded_manifest) = Inr [''graph:read'']"
    by (code_simp, code_simp)
  let ?c = "sample_call\<lparr>cc_required_scopes := mf_permissions_required padded_manifest\<rparr>"
  let ?st = "set_tool_perms (snd (grant_scopes 1 ''bob'' ''mail'' (required_scopes_for padded_manifest) sample_perms)) sample_tools"
  have c: "cc_user ?c \<noteq> []" "tool_perms ?st = snd (grant_scopes 1 (cc_user ?c) (cc_connector ?c) (required_scopes_for padded_manifest) sample_perms)"
    "'' graph:read'' \<in> set (cc_required_scopes ?c)"
    by (simp_all add: sample_call_def padded_manifest_def)
  have v: "\<not> valid_scope '' graph:read''" by code_simp
  obtain res st' where run: "execute_capability_http sample_tool_env (persist_tool_audit_envelope sample_tool_env) ?c ?st = (res, st')"
    by (rule prod.exhaust)
  from padded_scope_locks_out [OF sample_perms_coherent c(1) m(2) c(2,3) v run] m run show ?thesis by simp
qed

end
