(* ===== verification/ChatTools.thy ===== *)
theory ChatTools
  imports SessionLoop ToolDispatch
begin

section \<open>A chat with the tools plugged in\<close>

text \<open>
  Composes \<open>loop.py\<close> with \<open>services/tools.py\<close>: the tool runner that the session loop takes as
  a parameter is \<open>run_tool\<close> on the tool state. The model stays a parameter; it may answer
  anything, but it does not change the tool state itself.
\<close>

subsection \<open>Contract: an invariant of the world of a chat\<close>

text \<open>
  A property of the world that every model call keeps, and every tool run on behalf of one
  user, holds after a whole conversation of that user.
\<close>

locale world_invariant =
  fixes env :: "'w loop_env" and user :: user_id and ok :: "'w \<Rightarrow> bool"
  assumes chat_ok: "ok e \<Longrightarrow> ok (snd (le_chat env e msgs tools system))"
    and stream_ok: "ok e \<Longrightarrow> ok (snd (snd (le_stream env e msgs tools system)))"
    and run_ok: "ok e \<Longrightarrow> ok (snd (le_run env name args user rag e))"
begin

lemma model_turn_ok:
  assumes "model_turn env stream tools system msgs w = (res, w')" and "ok (lw_env w)"
  shows "ok (lw_env w')"
  using assms chat_ok [of "lw_env w" msgs tools system] stream_ok [of "lw_env w" msgs tools system]
  by (auto simp: model_turn_def call_chat_def call_stream_def emit_texts_def Let_def
      split: if_splits prod.splits sum.splits option.splits)

lemma final_turn_ok:
  assumes "final_turn env stream system msgs w = (res, w')" and "ok (lw_env w)"
  shows "ok (lw_env w')"
  using assms chat_ok [of "lw_env w" msgs None system] stream_ok [of "lw_env w" msgs None system]
  by (auto simp: final_turn_def call_chat_def call_stream_def emit_texts_def Let_def
      split: if_splits prod.splits sum.splits option.splits)

lemma dispatch_tool_ok:
  assumes "dispatch_tool_under_cap env name args user b rag w = (res, b', w')" and "ok (lw_env w)"
  shows "ok (lw_env w')"
  using assms run_ok [of "lw_env w" name args rag]
  by (auto simp: dispatch_tool_under_cap_def call_run_tool_def Let_def split: option.splits if_splits prod.splits)

lemma dispatch_all_ok:
  "dispatch_all env ps tcs b w = (res, b', w') \<Longrightarrow> sp_user ps = user \<Longrightarrow> ok (lw_env w) \<Longrightarrow> ok (lw_env w')"
proof (induction tcs arbitrary: b w res)
  case Nil
  then show ?case by simp
next
  case (Cons tc tcs)
  from Cons.prems(1) show ?case
  proof (cases rule: dispatch_all_ConsE)
    case tool_raised
    with Cons.prems show ?thesis by (auto intro: dispatch_tool_ok)
  next
    case (tool_ran content b1 w1 rest)
    then have "ok (lw_env w1)" using Cons.prems by (auto intro: dispatch_tool_ok)
    with Cons.IH [OF tool_ran(2)] Cons.prems(2) show ?thesis by blast
  qed
qed

lemma rounds_ok:
  "session_rounds env ps stream n st w = (res, w') \<Longrightarrow> sp_user ps = user \<Longrightarrow> ok (lw_env w) \<Longrightarrow> ok (lw_env w')"
proof (induction n arbitrary: st w)
  case 0
  from "0.prems" show ?case
    by (cases rule: session_round_0E) (auto simp: frame finish_session_def Let_def dest!: final_turn_ok)
next
  case (Suc n)
  from Suc.prems(1) show ?case
  proof (cases rule: session_round_SucE)
    case raised
    with Suc.prems show ?thesis by (auto dest: model_turn_ok)
  next
    case (answered msg w1 r)
    with Suc.prems show ?thesis by (auto simp: frame finish_session_def Let_def dest!: model_turn_ok)
  next
    case (tool_raised msg calls w1 e b)
    with Suc.prems show ?thesis by (auto simp: frame dest!: model_turn_ok dispatch_all_ok)
  next
    case (advanced msg calls w1 tool_msgs b w2 w3)
    with Suc show ?thesis by (auto simp: frame dest!: model_turn_ok dispatch_all_ok)
  qed
qed

lemma run_session_ok:
  "run_session_loop env ps stream st w = (res, w') \<Longrightarrow> sp_user ps = user \<Longrightarrow> ok (lw_env w) \<Longrightarrow> ok (lw_env w')"
  unfolding run_session_loop_def by (rule rounds_ok)

end

subsection \<open>The tool runner as the world of the loop\<close>

definition tool_exn :: "tool_error \<Rightarrow> exn" where
  "tool_exn e = (case e of RunToolUserId \<Rightarrow> LoopTypeError ''run_tool: user_id (keyword-only) is required''
     | ToolPermission p \<Rightarrow> LoopTypeError ''user_id is required'' | HandlerTypeError m \<Rightarrow> LoopTypeError m
     | HandlerError m \<Rightarrow> RaisedText m)"

definition run_tool_in_chat ::
  "tool_env \<Rightarrow> string \<Rightarrow> json_obj \<Rightarrow> user_id \<Rightarrow> string list option \<Rightarrow> tool_state \<Rightarrow> (exn + string) \<times> tool_state" where
  "run_tool_in_chat tenv name args u rag ts =
     (case run_tool tenv name args u rag ts of (Inl e, ts') \<Rightarrow> (Inl (tool_exn e), ts') | (Inr s, ts') \<Rightarrow> (Inr s, ts'))"

definition chat_env ::
  "tool_env \<Rightarrow> (tool_state \<Rightarrow> json_obj list \<Rightarrow> json list option \<Rightarrow> string \<Rightarrow> exn + llm_response)
    \<Rightarrow> (tool_state \<Rightarrow> json_obj list \<Rightarrow> json list option \<Rightarrow> string \<Rightarrow> llm_event list \<times> exn option) \<Rightarrow> tool_state loop_env" where
  "chat_env tenv chat stream =
     \<lparr>le_chat = (\<lambda>ts msgs tools system. (chat ts msgs tools system, ts)),
      le_stream = (\<lambda>ts msgs tools system. (case stream ts msgs tools system of (evs, ex) \<Rightarrow> (evs, ex, ts))),
      le_run = run_tool_in_chat tenv\<rparr>"

text \<open>What a user's chat keeps: the permissions, and that only cleared handlers ran.\<close>

definition run_allowed :: "user_id \<Rightarrow> tool_state \<Rightarrow> string \<times> handler_call \<Rightarrow> bool" where
  "run_allowed u ts r \<longleftrightarrow> (\<exists>sp. find (\<lambda>s. ts_name s = fst r) (td_specs ts) = Some sp \<and>
     \<not> (ts_is_write sp \<and> stored_mode u (ts_connector sp) ts = ''ASK''))"

definition guarded_since :: "tool_state \<Rightarrow> user_id \<Rightarrow> tool_state \<Rightarrow> bool" where
  "guarded_since ts0 u ts \<longleftrightarrow> perm_coherent (tool_perms ts) \<and> stored_perm (tool_perms ts) = stored_perm (tool_perms ts0) \<and>
     td_specs ts = td_specs ts0 \<and> (\<exists>rs. td_runs ts = td_runs ts0 @ rs \<and> list_all (run_allowed u ts0) rs)"

lemma guard_specs [simp]:
  "td_specs (snd (guard_tool_result env raw u tool st)) = td_specs st"
  by (simp add: guard_tool_result_def Let_def)

lemma persist_keeps [simp]:
  "td_specs (persist_tool_audit_envelope env e st) = td_specs st"
  "tool_perms (persist_tool_audit_envelope env e st) = tool_perms st"
  by (simp_all add: persist_tool_audit_envelope_def tool_perms_def write_audit_def Let_def)

lemma capability_keeps:
  assumes "perm_coherent (tool_perms st)" and "execute_capability_http env (persist_tool_audit_envelope env) c st = (res, st')"
  shows "td_specs st' = td_specs st \<and> perm_coherent (tool_perms st') \<and> stored_perm (tool_perms st') = stored_perm (tool_perms st) \<and>
    td_runs st' = td_runs st"
  using assms
proof (cases rule: execute_capability_cases)
  case (refused p status reason)
  then show ?thesis by simp
next
  case (sent p)
  then show ?thesis
    by (auto simp: send_capability_call_def Let_def simp del: dumps.simps split: prod.splits if_splits)
qed

lemma oop_keeps:
  assumes "perm_coherent (tool_perms st)" and "try_run_oop_capability_tool env name inp u st = (out, st')"
  shows "td_specs st' = td_specs st \<and> perm_coherent (tool_perms st') \<and> stored_perm (tool_perms st') = stored_perm (tool_perms st) \<and>
    td_runs st' = td_runs st"
proof -
  consider (same) "st' = st" | (ran) c res where "execute_capability_http env (persist_tool_audit_envelope env) c st = (res, st')"
    using assms(2) unfolding try_run_oop_capability_tool_def
    by (auto split: if_splits option.splits prod.splits)
  then show ?thesis
  proof cases
    case same
    with assms(1) show ?thesis by simp
  next
    case ran
    with assms(1) show ?thesis by (rule capability_keeps)
  qed
qed

lemma fallback_keeps:
  "td_specs (snd (call_with_fallback sp inp u rag st)) = td_specs st"
  "tool_perms (snd (call_with_fallback sp inp u rag st)) = tool_perms st"
  by (auto simp: call_with_fallback_def invoke_handler_def tool_perms_def split: prod.splits tool_out.splits)

lemma run_tool_no_user: "run_tool env name inp [] rag st = (Inl RunToolUserId, st)"
  by (simp add: run_tool_def)

lemma run_tool_known:
  assumes "perm_coherent (tool_perms st)" and "u \<noteq> []" and "find (\<lambda>s. ts_name s = name) (td_specs st) = Some sp"
  obtains p where "perm_coherent p" "stored_perm p = stored_perm (tool_perms st)"
    "snd (run_tool env name inp u rag st) = (if ts_is_write sp \<and> stored_mode u (ts_connector sp) st = ''ASK'' then set_tool_perms p st
       else (case call_with_fallback sp inp u rag (set_tool_perms p st) of
               (ToolText raw, st2) \<Rightarrow> snd (guard_tool_result env raw u name st2) | (_, st2) \<Rightarrow> st2))"
proof -
  from checked [OF assms(1,2), of "te_log_ok env" "te_now env" "ts_connector sp" "ts_action_type sp" "ts_is_write sp"]
  obtain p where p: "check_permission (te_log_ok env) (te_now env) (ts_connector sp) (ts_action_type sp) (ts_is_write sp) u (tool_perms st) =
      (Inr (\<not> (ts_is_write sp \<and> stored_mode u (ts_connector sp) st = ''ASK'')), p)"
    "perm_coherent p" "stored_perm p = stored_perm (tool_perms st)"
    unfolding stored_mode_def by blast
  have "snd (run_tool env name inp u rag st) = (if ts_is_write sp \<and> stored_mode u (ts_connector sp) st = ''ASK'' then set_tool_perms p st
       else (case call_with_fallback sp inp u rag (set_tool_perms p st) of
               (ToolText raw, st2) \<Rightarrow> snd (guard_tool_result env raw u name st2) | (_, st2) \<Rightarrow> st2))"
    using p(1) assms(2,3)
    by (cases "call_with_fallback sp inp u rag (set_tool_perms p st)"; cases "fst (call_with_fallback sp inp u rag (set_tool_perms p st))")
       (simp_all add: run_tool_def split_beta Let_def)
  with that p(2,3) show ?thesis by blast
qed

lemma run_tool_guarded:
  assumes "guarded_since ts0 u ts"
  shows "guarded_since ts0 u (snd (run_tool env name inp u rag ts))"
proof (cases "u = []")
  case True
  with assms show ?thesis by (simp add: run_tool_no_user)
next
  case u: False
  have coh: "perm_coherent (tool_perms ts)" using assms by (simp add: guarded_since_def)
  show ?thesis
  proof (cases "find (\<lambda>s. ts_name s = name) (td_specs ts)")
    case None
    obtain out ts1 where oop: "try_run_oop_capability_tool env name inp u ts = (out, ts1)" by (rule prod.exhaust)
    from oop_keeps [OF coh oop] assms have "guarded_since ts0 u ts1" by (simp add: guarded_since_def)
    with None u oop show ?thesis
      by (cases out) (simp_all add: run_tool_unknown Let_def guarded_since_def)
  next
    case (Some sp)
    from run_tool_known [OF coh u Some, of env inp rag] obtain p where p: "perm_coherent p" "stored_perm p = stored_perm (tool_perms ts)"
      "snd (run_tool env name inp u rag ts) = (if ts_is_write sp \<and> stored_mode u (ts_connector sp) ts = ''ASK'' then set_tool_perms p ts
       else (case call_with_fallback sp inp u rag (set_tool_perms p ts) of
               (ToolText raw, st2) \<Rightarrow> snd (guard_tool_result env raw u name st2) | (_, st2) \<Rightarrow> st2))" .
    show ?thesis
    proof (cases "ts_is_write sp \<and> stored_mode u (ts_connector sp) ts = ''ASK''")
      case True
      with p assms show ?thesis by (simp add: guarded_since_def)
    next
      case False
      have n: "ts_name sp = name" using Some by (auto simp: find_Some_iff)
      have allowed: "run_allowed u ts0 (name, c)" for c
        using Some False assms by (auto simp: run_allowed_def guarded_since_def stored_mode_def)
      let ?r = "call_with_fallback sp inp u rag (set_tool_perms p ts)"
      have "guarded_since ts0 u (snd ?r)"
        using p assms allowed n by (auto simp: guarded_since_def fallback_keeps fallback_runs split: tool_out.split)
      then have "guarded_since ts0 u (snd (run_tool env name inp u rag ts))"
        unfolding p(3) if_not_P [OF False] by (cases ?r; cases "fst ?r") (simp_all add: guarded_since_def)
      then show ?thesis .
    qed
  qed
qed

lemma snd_run_tool_in_chat [simp]:
  "snd (run_tool_in_chat tenv name args u rag ts) = snd (run_tool tenv name args u rag ts)"
  by (simp add: run_tool_in_chat_def split: prod.split sum.split)

interpretation tools_in_chat: world_invariant "chat_env tenv chat stream" u "guarded_since ts0 u" for tenv chat stream u ts0
  by unfold_locales
    (auto simp: chat_env_def snd_run_tool_in_chat run_tool_guarded split: prod.split)

lemma ask_guarded:
  assumes "ae_loop aenv = chat_env tenv chat stream" and "perm_coherent (tool_perms (lw_env w))"
  shows "guarded_since (lw_env w) u (lw_env (snd (ask aenv q hist model use_tools u rag w)))"
    and "guarded_since (lw_env w) u (lw_env (snd (ask_stream aenv q hist model use_tools u rag w)))"
proof -
  let ?w1 = "snd (prepare_tools aenv use_tools u w)"
  have here: "guarded_since (lw_env w) u (lw_env w)" using assms(2) by (simp add: guarded_since_def)
  have e1: "lw_env ?w1 = lw_env w" by (auto simp: prepare_tools_def split: sum.splits)
  have run: "guarded_since (lw_env w) u (lw_env (snd (run_session_loop (chat_env tenv chat stream)
      (fst (build_session aenv q hist eff use_tools u tools rag)) str st ?w1)))" for eff tools str st
    using tools_in_chat.run_session_ok [of tenv chat stream "fst (build_session aenv q hist eff use_tools u tools rag)" str st ?w1,
        OF prod.collapse [symmetric]] here e1
    by (simp add: build_session_def)
  have fin: "lw_env (finish_llm_tools_request ov x) = lw_env x" for ov and x :: "tool_state loop_world"
    by (simp add: finish_llm_tools_request_def)
  show "guarded_since (lw_env w) u (lw_env (snd (ask aenv q hist model use_tools u rag w)))"
    using here run by (auto simp: ask_def assms(1) fin Let_def split_beta split: sum.split)
  show "guarded_since (lw_env w) u (lw_env (snd (ask_stream aenv q hist model use_tools u rag w)))"
    using here run e1 by (auto simp: ask_stream_def assms(1) fin frame Let_def split_beta split: sum.split option.split)
qed

text \<open>
  C0. A chat respects Ask/Do end to end. Whatever the model answers, in either form of the
  endpoint and with whatever history, every tool handler that ran during the request belongs
  to a registered tool of that name, and if the tool writes, its connector is not in \<open>ASK\<close>
  for the asking user; the request changes no stored permission of anybody.
\<close>

theorem chat_respects_ask_mode:
  assumes "ae_loop aenv = chat_env tenv chat stream" and "perm_coherent (tool_perms (lw_env w))"
    and "w' = snd (ask aenv q hist model use_tools u rag w) \<or> w' = snd (ask_stream aenv q hist model use_tools u rag w)"
  shows "stored_perm (tool_perms (lw_env w')) = stored_perm (tool_perms (lw_env w)) \<and>
    (\<exists>rs. td_runs (lw_env w') = td_runs (lw_env w) @ rs \<and>
      (\<forall>r \<in> set rs. \<exists>sp \<in> set (td_specs (lw_env w)). ts_name sp = fst r \<and>
         \<not> (ts_is_write sp \<and> stored_mode u (ts_connector sp) (lw_env w) = ''ASK'')))"
proof -
  have g: "guarded_since (lw_env w) u (lw_env w')"
    using ask_guarded [OF assms(1,2), of u q hist model use_tools rag] assms(3) by auto
  have "\<exists>sp \<in> set (td_specs (lw_env w)). ts_name sp = fst r \<and> \<not> (ts_is_write sp \<and> stored_mode u (ts_connector sp) (lw_env w) = ''ASK'')"
    if allowed: "run_allowed u (lw_env w) r" for r
  proof -
    from allowed obtain sp where sp: "find (\<lambda>s. ts_name s = fst r) (td_specs (lw_env w)) = Some sp"
      "\<not> (ts_is_write sp \<and> stored_mode u (ts_connector sp) (lw_env w) = ''ASK'')"
      unfolding run_allowed_def by blast
    from sp(1) have "sp \<in> set (td_specs (lw_env w))" "ts_name sp = fst r" by (auto simp: find_Some_iff)
    with sp(2) show ?thesis by blast
  qed
  with g show ?thesis by (fastforce simp: guarded_since_def list_all_iff)
qed

text \<open>A model that always asks for the writing tool \<open>note\<close>, in a chat of a user without permission.\<close>

definition pushy_env :: "tool_state loop_env" where
  "pushy_env = chat_env sample_tool_env
     (\<lambda>ts msgs tools system. Inr \<lparr>lr_text = [], lr_calls = [\<lparr>tc_id = ''1'', tc_name = ''note'', tc_arguments = []\<rparr>], lr_stop = ''tool_calls''\<rparr>)
     (\<lambda>ts msgs tools system. ([EvEnd], None))"

definition pushy_ask :: "tool_state ask_env" where
  "pushy_ask = \<lparr>ae_loop = pushy_env, ae_resolve = (\<lambda>m u ts. Inr m), ae_provider = (\<lambda>m u ts. Inr ()),
     ae_prepare = (\<lambda>u ts. Inr ([], False)), ae_default_tools = [], ae_cap_raw = None\<rparr>"

definition note_world :: "tool_state loop_world" where
  "note_world = \<lparr>lw_env = sample_tools\<lparr>td_specs := [twice_tool]\<rparr>, lw_calls = [], lw_runs = [], lw_trips = [], lw_events = [],
     lw_stream = [], lw_overlays = 0\<rparr>"

theorem chat_respects_ask_mode_witness:
  "td_runs (lw_env (snd (ask pushy_ask ''hi'' None ''m'' True ''bob'' None note_world))) = []"
proof -
  have l: "ae_loop pushy_ask = chat_env sample_tool_env
     (\<lambda>ts msgs tools system. Inr \<lparr>lr_text = [], lr_calls = [\<lparr>tc_id = ''1'', tc_name = ''note'', tc_arguments = []\<rparr>], lr_stop = ''tool_calls''\<rparr>)
     (\<lambda>ts msgs tools system. ([EvEnd], None))"
    by (simp add: pushy_ask_def pushy_env_def)
  have c: "perm_coherent (tool_perms (lw_env note_world))"
    using sample_tools_coherent by (simp add: note_world_def tool_perms_def)
  have s: "td_specs (lw_env note_world) = [twice_tool]" "td_runs (lw_env note_world) = []"
    "ts_is_write twice_tool" "stored_mode ''bob'' (ts_connector twice_tool) (lw_env note_world) = ''ASK''"
    by (simp_all add: note_world_def sample_tools_def twice_tool_def stored_mode_def tool_perms_def sample_perms_stored)
  let ?w' = "snd (ask pushy_ask ''hi'' None ''m'' True ''bob'' None note_world)"
  from chat_respects_ask_mode [OF l c, of ?w' "''hi''" None "''m''" True "''bob''" None]
  obtain rs where "td_runs (lw_env ?w') = rs" "set rs \<subseteq> {}" using s by fastforce
  then show ?thesis by simp
qed

end
