(* ===== verification/Visibility.thy ===== *)
theory Visibility
  imports Prelude
begin

section \<open>Visibility: who may read what\<close>

text \<open>
  Models \<open>orchestrator/visibility.py\<close>, the role gates of \<open>authz.py\<close>, \<open>get_allows_shared\<close> of
  \<open>services/users.py\<close>, and from \<open>adapters/qdrant_store.py\<close> the translation of portable filters.
  The visibility rule exists three times, as a SQL clause, as a Cypher fragment and as a
  filter of the vector store. The clause texts are those of the code; what they mean is the
  condition they are the rendering of. A row, node or payload is a map from column names to
  values, where an absent value is SQL's \<open>NULL\<close> (a comparison with it never holds).
\<close>

subsection \<open>Users\<close>

record user_context =
  uc_user :: user_id
  uc_authenticated :: bool
  uc_role :: string
  uc_allows_shared :: "bool option"

text \<open>\<open>UserContext(user_id=u)\<close> with the defaults of the other fields.\<close>

definition bare_context :: "user_id \<Rightarrow> user_context" where
  "bare_context u = \<lparr>uc_user = u, uc_authenticated = False, uc_role = ''admin'', uc_allows_shared = None\<rparr>"

type_synonym user_flags = "(user_id \<times> bool) list"

definition get_allows_shared :: "user_flags \<Rightarrow> user_id \<Rightarrow> bool" where
  "get_allows_shared us u = (case map_of us u of None \<Rightarrow> True | Some b \<Rightarrow> b)"

definition effective_allows_shared :: "user_flags \<Rightarrow> user_context \<Rightarrow> bool" where
  "effective_allows_shared us ctx =
     (if uc_role ctx = ''admin'' \<and> uc_authenticated ctx then True
      else case uc_allows_shared ctx of
        Some b \<Rightarrow> b
      | None \<Rightarrow> get_allows_shared us (uc_user ctx))"

definition sorted_scopes :: "string list" where
  "sorted_scopes = [''personal'', ''shared'', ''system'']"

datatype scope_error = InvalidScopeFilter string

definition validate_scope_filter :: "string option \<Rightarrow> scope_error + string option" where
  "validate_scope_filter sf =
     (case sf of
        None \<Rightarrow> Inr None
      | Some s \<Rightarrow> if s \<notin> set sorted_scopes then Inl (InvalidScopeFilter s) else Inr (Some s))"

subsection \<open>SQL\<close>

definition quot :: "string \<Rightarrow> string" where
  "quot s = [char_of (39::nat)] @ s @ [char_of (39::nat)]"

definition visible_filter ::
  "user_flags \<Rightarrow> user_context \<Rightarrow> string option \<Rightarrow> scope_error + string \<times> string list" where
  "visible_filter us ctx sf0 =
     (case validate_scope_filter sf0 of
        Inl e \<Rightarrow> Inl e
      | Inr sf \<Rightarrow>
          let me = uc_user ctx; allows = effective_allows_shared us ctx in
          if sf = Some ''personal'' then
            Inr (''(scope = '' @ quot ''personal'' @ '' AND user_id = %s)'', [me])
          else if sf = Some ''shared'' then
            (if \<not> allows then Inr (''(FALSE)'', [])
             else Inr (''(scope = '' @ quot ''shared'' @ '')'', []))
          else if sf = Some ''system'' then
            Inr (''(scope = '' @ quot ''system'' @ '')'', [])
          else if allows then
            Inr (''((scope = '' @ quot ''personal'' @ '' AND user_id = %s) OR scope IN ('' @
                 quot ''shared'' @ '','' @ quot ''system'' @ ''))'', [me])
          else
            Inr (''((scope = '' @ quot ''personal'' @ '' AND user_id = %s) OR scope = '' @
                 quot ''system'' @ '')'', [me]))"

definition admin_unfiltered_filter :: "string option \<Rightarrow> scope_error + string \<times> string list" where
  "admin_unfiltered_filter sf0 =
     (case validate_scope_filter sf0 of
        Inl e \<Rightarrow> Inl e
      | Inr None \<Rightarrow> Inr (''(TRUE)'', [])
      | Inr (Some s) \<Rightarrow> Inr (''(scope = %s)'', [s]))"

definition authored_by_filter :: "user_id \<Rightarrow> string \<times> string list" where
  "authored_by_filter u =
     (''(scope IN ('' @ quot ''personal'' @ '', '' @ quot ''shared'' @ '') AND user_id = %s)'', [u])"

subsection \<open>Cypher\<close>

definition visible_cypher_fragment ::
  "user_flags \<Rightarrow> user_context \<Rightarrow> string \<Rightarrow> string option \<Rightarrow> scope_error + string \<times> (string \<times> string) list" where
  "visible_cypher_fragment us ctx a sf0 =
     (case validate_scope_filter sf0 of
        Inl e \<Rightarrow> Inl e
      | Inr sf \<Rightarrow>
          let me = uc_user ctx; allows = effective_allows_shared us ctx;
              own = ''('' @ a @ ''.scope = '' @ quot ''personal'' @ '' AND '' @ a @ ''.user_id = $vis_me)'' in
          if sf = Some ''personal'' then Inr (own, [(''vis_me'', me)])
          else if sf = Some ''shared'' then
            (if \<not> allows then Inr (''(FALSE)'', [])
             else Inr (''('' @ a @ ''.scope = '' @ quot ''shared'' @ '')'', []))
          else if sf = Some ''system'' then
            Inr (''('' @ a @ ''.scope = '' @ quot ''system'' @ '')'', [])
          else if allows then
            Inr (''('' @ own @ '' OR '' @ a @ ''.scope IN ['' @ quot ''shared'' @ '','' @ quot ''system'' @ ''])'',
                 [(''vis_me'', me)])
          else
            Inr (''('' @ own @ '' OR '' @ a @ ''.scope = '' @ quot ''system'' @ '')'', [(''vis_me'', me)]))"

definition admin_unfiltered_cypher_fragment ::
  "string \<Rightarrow> string option \<Rightarrow> scope_error + string \<times> (string \<times> string) list" where
  "admin_unfiltered_cypher_fragment a sf0 =
     (case validate_scope_filter sf0 of
        Inl e \<Rightarrow> Inl e
      | Inr None \<Rightarrow> Inr (''(TRUE)'', [])
      | Inr (Some s) \<Rightarrow> Inr (''('' @ a @ ''.scope = $vis_scope)'', [(''vis_scope'', s)]))"

definition authored_by_cypher_fragment :: "user_id \<Rightarrow> string \<Rightarrow> string \<times> (string \<times> string) list" where
  "authored_by_cypher_fragment u a = (''('' @ a @ ''.user_id = $vis_me)'', [(''vis_me'', u)])"

subsection \<open>The portable filter of the vector store\<close>

definition value_clause :: "string \<Rightarrow> string \<Rightarrow> json" where
  "value_clause k v = JObj [(''key'', JStr k), (''match'', JObj [(''value'', JStr v)])]"

definition any_clause :: "string \<Rightarrow> string list \<Rightarrow> json" where
  "any_clause k vs = JObj [(''key'', JStr k), (''match'', JObj [(''any'', JList (map JStr vs))])]"

definition must_filter :: "json list \<Rightarrow> json" where
  "must_filter cs = JObj [(''must'', JList cs)]"

definition visible_qdrant_filter :: "user_flags \<Rightarrow> user_context \<Rightarrow> string option \<Rightarrow> scope_error + json" where
  "visible_qdrant_filter us ctx sf0 =
     (case validate_scope_filter sf0 of
        Inl e \<Rightarrow> Inl e
      | Inr sf \<Rightarrow>
          let me = uc_user ctx; allows = effective_allows_shared us ctx;
              own = must_filter [value_clause ''scope'' ''personal'', value_clause ''user_id'' me] in
          if sf = Some ''personal'' then Inr own
          else if sf = Some ''shared'' then
            (if \<not> allows then Inr (must_filter [value_clause ''user_id'' ''__no_shared_access__''])
             else Inr (must_filter [value_clause ''scope'' ''shared'']))
          else if sf = Some ''system'' then Inr (must_filter [value_clause ''scope'' ''system''])
          else if allows then
            Inr (JObj [(''should'', JList [own, any_clause ''scope'' [''shared'', ''system'']])])
          else
            Inr (JObj [(''should'', JList [own, value_clause ''scope'' ''system''])]))"

definition admin_unfiltered_qdrant_filter :: "string option \<Rightarrow> scope_error + json option" where
  "admin_unfiltered_qdrant_filter sf0 =
     (case validate_scope_filter sf0 of
        Inl e \<Rightarrow> Inl e
      | Inr None \<Rightarrow> Inr None
      | Inr (Some s) \<Rightarrow> Inr (Some (must_filter [value_clause ''scope'' s])))"

definition authored_by_qdrant_filter :: "user_id \<Rightarrow> json" where
  "authored_by_qdrant_filter u = must_filter [any_clause ''scope'' [''personal'', ''shared''], value_clause ''user_id'' u]"

subsection \<open>Translating a portable filter\<close>

datatype qfilter =
    QIs string json
  | QIn string "json list"
  | QMust "qfilter list"
  | QShould "qfilter list"

datatype filter_error = MissingKey string | UnsupportedMatch "string list" | NotAFilter

text \<open>A list comprehension whose body may raise: the first exception ends it.\<close>

fun traverse :: "('a \<Rightarrow> 'e + 'b) \<Rightarrow> 'a list \<Rightarrow> 'e + 'b list" where
  "traverse f [] = Inr []"
| "traverse f (x # xs) =
     (case f x of
        Inl e \<Rightarrow> Inl e
      | Inr y \<Rightarrow> (case traverse f xs of Inl e \<Rightarrow> Inl e | Inr ys \<Rightarrow> Inr (y # ys)))"

lemma traverse_cong [fundef_cong]:
  assumes "xs = ys" and "\<And>x. x \<in> set ys \<Longrightarrow> f x = g x"
  shows "traverse f xs = traverse g ys"
  using assms(2) unfolding assms(1)
proof (induction ys)
  case Nil
  then show ?case by simp
next
  case (Cons y ys)
  then have "f y = g y" "traverse f ys = traverse g ys" by simp_all
  then show ?case by (simp split: sum.split)
qed

definition field_condition_from_clause :: "json \<Rightarrow> filter_error + qfilter" where
  "field_condition_from_clause clause =
     (case clause of
        JObj kvs \<Rightarrow>
          (case (map_of kvs ''key'', map_of kvs ''match'') of
             (None, _) \<Rightarrow> Inl (MissingKey ''key'')
           | (_, None) \<Rightarrow> Inl (MissingKey ''match'')
           | (Some (JStr k), Some (JObj m)) \<Rightarrow>
               (case map_of m ''value'' of
                  Some v \<Rightarrow> Inr (QIs k v)
                | None \<Rightarrow>
                    (case map_of m ''any'' of
                       Some (JList vs) \<Rightarrow> Inr (QIn k vs)
                     | Some _ \<Rightarrow> Inl NotAFilter
                     | None \<Rightarrow> Inl (UnsupportedMatch (map fst m))))
           | _ \<Rightarrow> Inl NotAFilter)
      | _ \<Rightarrow> Inl NotAFilter)"

definition should_branch_to_filter :: "json \<Rightarrow> filter_error + qfilter" where
  "should_branch_to_filter branch =
     (case branch of
        JObj kvs \<Rightarrow>
          (case map_of kvs ''must'' of
             Some (JList cs) \<Rightarrow> map_sum id QMust (traverse field_condition_from_clause cs)
           | Some _ \<Rightarrow> Inl NotAFilter
           | None \<Rightarrow> map_sum id (\<lambda>c. QMust [c]) (field_condition_from_clause branch))
      | _ \<Rightarrow> Inl NotAFilter)"

lemma map_of_size:
  assumes "map_of kvs k = Some v"
  shows "size v < size_list (\<lambda>x. Suc (size (snd x))) kvs"
  using assms by (induction kvs) (auto split: if_splits)

lemma nested_entry_size [termination_simp]:
  assumes "map_of kvs k = Some (JList cs)" and "JObj ckvs \<in> set cs"
  shows "size_list (\<lambda>x. Suc (size (snd x))) ckvs < size_list (\<lambda>x. Suc (size (snd x))) kvs"
proof -
  have "size (JObj ckvs) \<le> size_list size cs" using assms(2) by (rule size_list_estimation') simp
  moreover have "size_prod (\<lambda>_ :: string. 0) (size :: json \<Rightarrow> nat) = (\<lambda>x. Suc (size (snd x)))" by (auto simp: fun_eq_iff)
  ultimately show ?thesis using map_of_size [OF assms(1)] by simp
qed

fun build_filter :: "json \<Rightarrow> filter_error + qfilter" where
  "build_filter (JObj kvs) =
     (case map_of kvs ''should'' of
        Some (JList bs) \<Rightarrow> map_sum id QShould (traverse should_branch_to_filter bs)
      | Some _ \<Rightarrow> Inl NotAFilter
      | None \<Rightarrow>
          (case map_of kvs ''must'' of
             Some (JList cs) \<Rightarrow>
               map_sum id QMust (traverse (\<lambda>c.
                 case c of
                   JObj ckvs \<Rightarrow> if map_of ckvs ''key'' \<noteq> None then field_condition_from_clause c else build_filter c
                 | _ \<Rightarrow> Inl NotAFilter) cs)
           | Some _ \<Rightarrow> Inl NotAFilter
           | None \<Rightarrow> Inr (QMust [])))"
| "build_filter _ = Inl NotAFilter"

text \<open>
  Which payloads a filter of the vector store selects, as the store documents it: \<open>must\<close> is
  the conjunction, \<open>should\<close> (never empty here) the disjunction of its parts.
\<close>

type_synonym row = "string \<rightharpoonup> json"

fun qmatch :: "qfilter \<Rightarrow> row \<Rightarrow> bool" where
  "qmatch (QIs k v) r = (r k = Some v)"
| "qmatch (QIn k vs) r = (case r k of None \<Rightarrow> False | Some v \<Rightarrow> v \<in> set vs)"
| "qmatch (QMust fs) r = list_all (\<lambda>f. qmatch f r) fs"
| "qmatch (QShould fs) r = list_ex (\<lambda>f. qmatch f r) fs"

text \<open>What a search with a portable filter selects; \<open>None\<close> when the filter is refused.\<close>

definition selected :: "json \<Rightarrow> row \<Rightarrow> bool option" where
  "selected flt r = (case build_filter flt of Inl e \<Rightarrow> None | Inr q \<Rightarrow> Some (qmatch q r))"

subsection \<open>Conditions and their renderings\<close>

datatype operand = Lit string | Par string

datatype cond =
    FieldIs string operand
  | FieldIn string "string list"
  | Both cond cond
  | Either cond cond
  | Never
  | Always

record dialect =
  dl_prefix :: string
  dl_par :: "string \<Rightarrow> string"
  dl_open :: string
  dl_sep :: string
  dl_close :: string

definition sql :: dialect where
  "sql = \<lparr>dl_prefix = [], dl_par = (\<lambda>f. ''%s''), dl_open = ''('', dl_sep = '','', dl_close = '')''\<rparr>"

definition cypher :: "string \<Rightarrow> dialect" where
  "cypher a = \<lparr>dl_prefix = a @ ''.'',
     dl_par = (\<lambda>f. if f = ''user_id'' then ''$vis_me'' else ''$vis_scope''),
     dl_open = ''['', dl_sep = '','', dl_close = '']''\<rparr>"

fun render_inner :: "dialect \<Rightarrow> cond \<Rightarrow> string" where
  "render_inner d (FieldIs f (Lit v)) = dl_prefix d @ f @ '' = '' @ quot v"
| "render_inner d (FieldIs f (Par v)) = dl_prefix d @ f @ '' = '' @ dl_par d f"
| "render_inner d (FieldIn f vs) = dl_prefix d @ f @ '' IN '' @ dl_open d @ join (dl_sep d) (map quot vs) @ dl_close d"
| "render_inner d (Both a b) = ''('' @ render_inner d a @ '' AND '' @ render_inner d b @ '')''"
| "render_inner d (Either a b) = ''('' @ render_inner d a @ '' OR '' @ render_inner d b @ '')''"
| "render_inner d Never = ''FALSE''"
| "render_inner d Always = ''TRUE''"

text \<open>Every clause is in parentheses, so that a caller may join it with \<open>AND\<close>.\<close>

fun render :: "dialect \<Rightarrow> cond \<Rightarrow> string" where
  "render d (Both a b) = render_inner d (Both a b)"
| "render d (Either a b) = render_inner d (Either a b)"
| "render d c = ''('' @ render_inner d c @ '')''"

fun cond_params :: "cond \<Rightarrow> (string \<times> string) list" where
  "cond_params (FieldIs f (Par v)) = [(f, v)]"
| "cond_params (Both a b) = cond_params a @ cond_params b"
| "cond_params (Either a b) = cond_params a @ cond_params b"
| "cond_params _ = []"

fun cond_holds :: "cond \<Rightarrow> row \<Rightarrow> bool" where
  "cond_holds (FieldIs f (Lit v)) r = (r f = Some (JStr v))"
| "cond_holds (FieldIs f (Par v)) r = (r f = Some (JStr v))"
| "cond_holds (FieldIn f vs) r = (\<exists>v \<in> set vs. r f = Some (JStr v))"
| "cond_holds (Both a b) r = (cond_holds a r \<and> cond_holds b r)"
| "cond_holds (Either a b) r = (cond_holds a r \<or> cond_holds b r)"
| "cond_holds Never r = False"
| "cond_holds Always r = True"

subsection \<open>The rule\<close>

definition own_row :: "user_context \<Rightarrow> row \<Rightarrow> bool" where
  "own_row ctx r = (r ''scope'' = Some (JStr ''personal'') \<and> r ''user_id'' = Some (JStr (uc_user ctx)))"

definition in_scope :: "string \<Rightarrow> row \<Rightarrow> bool" where
  "in_scope s r = (r ''scope'' = Some (JStr s))"

definition may_read :: "user_flags \<Rightarrow> user_context \<Rightarrow> string option \<Rightarrow> row \<Rightarrow> bool" where
  "may_read us ctx sf r =
     ((sf = None \<or> sf = Some ''personal'') \<and> own_row ctx r \<or>
      (sf = None \<or> sf = Some ''shared'') \<and> effective_allows_shared us ctx \<and> in_scope ''shared'' r \<or>
      (sf = None \<or> sf = Some ''system'') \<and> in_scope ''system'' r)"

definition own_cond :: "user_context \<Rightarrow> cond" where
  "own_cond ctx = Both (FieldIs ''scope'' (Lit ''personal'')) (FieldIs ''user_id'' (Par (uc_user ctx)))"

definition visible_cond :: "user_flags \<Rightarrow> user_context \<Rightarrow> string option \<Rightarrow> cond" where
  "visible_cond us ctx sf =
     (if sf = Some ''personal'' then own_cond ctx
      else if sf = Some ''shared'' then
        (if effective_allows_shared us ctx then FieldIs ''scope'' (Lit ''shared'') else Never)
      else if sf = Some ''system'' then FieldIs ''scope'' (Lit ''system'')
      else if effective_allows_shared us ctx then Either (own_cond ctx) (FieldIn ''scope'' [''shared'', ''system''])
      else Either (own_cond ctx) (FieldIs ''scope'' (Lit ''system'')))"

lemma validate_cases:
  assumes "validate_scope_filter sf0 = Inr sf"
  shows "sf0 = sf" and "sf = None \<or> sf = Some ''personal'' \<or> sf = Some ''shared'' \<or> sf = Some ''system''"
  using assms by (auto simp: validate_scope_filter_def sorted_scopes_def split: option.splits if_splits)

lemma visible_cond_rule:
  assumes "validate_scope_filter sf0 = Inr sf"
  shows "cond_holds (visible_cond us ctx sf) r = may_read us ctx sf r"
  using validate_cases(2) [OF assms]
  by (auto simp: visible_cond_def may_read_def own_cond_def own_row_def in_scope_def)

lemma visible_filter_renders:
  assumes "validate_scope_filter sf0 = Inr sf"
  shows "visible_filter us ctx sf0 = Inr (render sql (visible_cond us ctx sf), map snd (cond_params (visible_cond us ctx sf)))"
  using validate_cases(2) [OF assms] assms
  by (auto simp: visible_filter_def visible_cond_def own_cond_def sql_def)

lemma visible_cypher_renders:
  assumes "validate_scope_filter sf0 = Inr sf"
  shows "visible_cypher_fragment us ctx a sf0 = Inr (render (cypher a) (visible_cond us ctx sf),
    map (\<lambda>(f, v). (''vis_me'', v)) (cond_params (visible_cond us ctx sf)))"
  using validate_cases(2) [OF assms] assms
  by (auto simp: visible_cypher_fragment_def visible_cond_def own_cond_def cypher_def Let_def)

lemmas clause_defs = value_clause_def any_clause_def must_filter_def

lemma field_condition_clauses [simp]:
  "field_condition_from_clause (value_clause k v) = Inr (QIs k (JStr v))"
  "field_condition_from_clause (any_clause k vs) = Inr (QIn k (map JStr vs))"
  by (simp_all add: field_condition_from_clause_def clause_defs)

lemma visible_qdrant_selects:
  assumes "validate_scope_filter sf0 = Inr sf" and "r ''user_id'' \<noteq> Some (JStr ''__no_shared_access__'')"
  shows "\<exists>flt. visible_qdrant_filter us ctx sf0 = Inr flt \<and> selected flt r = Some (may_read us ctx sf r)"
  using validate_cases(2) [OF assms(1)] assms
  by (auto simp: visible_qdrant_filter_def selected_def may_read_def own_row_def in_scope_def Let_def
        clause_defs field_condition_from_clause_def should_branch_to_filter_def split: option.split)

text \<open>
  C8. The three backends apply one visibility rule. For every user context and every accepted
  scope filter, the SQL clause and the Cypher fragment are renderings of one condition, with
  their parameters in the order of their placeholders, and that condition, like the filter
  of the vector store, selects exactly the rows the rule allows: the caller's own personal
  rows, shared rows if the caller may read shared rows, and system rows, narrowed to the scope
  asked for. (The vector store says "nothing" by asking for a user id that no user has.)
\<close>

theorem visibility_backends_agree:
  assumes "validate_scope_filter sf0 = Inr sf" and "r ''user_id'' \<noteq> Some (JStr ''__no_shared_access__'')"
  shows "\<exists>c flt. visible_filter us ctx sf0 = Inr (render sql c, map snd (cond_params c)) \<and>
    visible_cypher_fragment us ctx a sf0 = Inr (render (cypher a) c, map (\<lambda>(f, v). (''vis_me'', v)) (cond_params c)) \<and>
    visible_qdrant_filter us ctx sf0 = Inr flt \<and>
    (cond_holds c r \<longleftrightarrow> may_read us ctx sf r) \<and> selected flt r = Some (may_read us ctx sf r)"
  using visible_filter_renders [OF assms(1)] visible_cypher_renders [OF assms(1)]
    visible_cond_rule [OF assms(1)] visible_qdrant_selects [where r = r, OF assms] by blast

definition sample_member :: user_context where
  "sample_member = \<lparr>uc_user = ''ann'', uc_authenticated = True, uc_role = ''user'', uc_allows_shared = None\<rparr>"

definition sample_row :: row where
  "sample_row = [''scope'' \<mapsto> JStr ''shared'', ''user_id'' \<mapsto> JStr ''bob'']"

theorem visibility_backends_agree_witness:
  "\<exists>c flt. visible_filter [(''ann'', False)] sample_member None = Inr (render sql c, map snd (cond_params c)) \<and>
    visible_cypher_fragment [(''ann'', False)] sample_member ''n'' None =
      Inr (render (cypher ''n'') c, map (\<lambda>(f, v). (''vis_me'', v)) (cond_params c)) \<and>
    visible_qdrant_filter [(''ann'', False)] sample_member None = Inr flt \<and>
    \<not> cond_holds c sample_row \<and> selected flt sample_row = Some False"
proof -
  have "validate_scope_filter None = Inr None" by (simp add: validate_scope_filter_def)
  moreover have "sample_row ''user_id'' \<noteq> Some (JStr ''__no_shared_access__'')" by (simp add: sample_row_def)
  moreover have "\<not> may_read [(''ann'', False)] sample_member None sample_row"
    by (simp add: may_read_def own_row_def in_scope_def sample_row_def sample_member_def effective_allows_shared_def get_allows_shared_def)
  ultimately show ?thesis
    using visibility_backends_agree [where ?sf0.0 = None and sf = None and r = sample_row
        and us = "[(''ann'', False)]" and ctx = sample_member and a = "''n''"] by auto
qed



subsection \<open>Composing filters\<close>

lemma traverse_single:
  "traverse f [x] = map_sum id (\<lambda>y. [y]) (f x)"
  by (cases "f x") auto

definition merge_file_path_filter :: "json \<Rightarrow> string \<Rightarrow> json" where
  "merge_file_path_filter base path = must_filter [base, value_clause ''file_path'' path]"

lemma merged_selects:
  assumes "map_of kvs ''key'' = None"
  shows "selected (merge_file_path_filter (JObj kvs) path) r =
    map_option (\<lambda>b. b \<and> r ''file_path'' = Some (JStr path)) (selected (JObj kvs) r)"
  using assms by (cases "build_filter (JObj kvs)")
    (auto simp: merge_file_path_filter_def selected_def clause_defs field_condition_from_clause_def simp del: build_filter.simps(1)
      simp: build_filter.simps(1) [of "[(''must'', cs)]" for cs])

text \<open>
  Composing filters of the vector store. Merging a caller's filter under a parent must
  narrows it to one file, whatever the filter is. But conditions put next to a should are
  dropped, and a plain dictionary of field values, which has neither a must nor a should,
  selects every row of every user.
\<close>

theorem filters_compose_only_under_must:
  assumes "map_of kvs ''key'' = None"
  shows "selected (merge_file_path_filter (JObj kvs) path) r =
      map_option (\<lambda>b. b \<and> r ''file_path'' = Some (JStr path)) (selected (JObj kvs) r) \<and>
    selected (JObj [(''should'', bs), (''must'', cs)]) r = selected (JObj [(''should'', bs)]) r \<and>
    selected (JObj [(''user_id'', JStr u)]) r = Some True"
  using merged_selects [OF assms] by (auto simp: selected_def split: json.split)

theorem filters_compose_only_under_must_witness:
  "selected (merge_file_path_filter (JObj [(''must'', JList [value_clause ''scope'' ''shared''])]) ''/a.md'')
     (sample_row(''file_path'' \<mapsto> JStr ''/b.md'')) = Some False"
proof -
  let ?f = "JObj [(''must'', JList [value_clause ''scope'' ''shared''])]"
  have "selected ?f (sample_row(''file_path'' \<mapsto> JStr ''/b.md'')) = Some True"
    by (simp add: selected_def sample_row_def clause_defs field_condition_from_clause_def)
  with filters_compose_only_under_must [of "[(''must'', JList [value_clause ''scope'' ''shared''])]" "''/a.md''"
      "sample_row(''file_path'' \<mapsto> JStr ''/b.md'')"]
  show ?thesis by simp
qed

subsection \<open>The administrator's bypass and the export\<close>

lemma admin_filters_ignore_the_user:
  assumes "validate_scope_filter sf0 = Inr sf"
  defines "c \<equiv> (case sf of None \<Rightarrow> Always | Some s \<Rightarrow> FieldIs ''scope'' (Par s))"
  shows "admin_unfiltered_filter sf0 = Inr (render sql c, map snd (cond_params c))"
    and "admin_unfiltered_cypher_fragment a sf0 = Inr (render (cypher a) c, map (\<lambda>(f, v). (''vis_scope'', v)) (cond_params c))"
    and "cond_holds c r \<longleftrightarrow> (case sf of None \<Rightarrow> True | Some s \<Rightarrow> in_scope s r)"
    and "\<exists>flt. admin_unfiltered_qdrant_filter sf0 = Inr flt \<and>
      (case flt of None \<Rightarrow> sf = None | Some f \<Rightarrow> selected f r = Some (cond_holds c r))"
  using assms(1) unfolding c_def
  by (cases sf; simp add: admin_unfiltered_filter_def admin_unfiltered_cypher_fragment_def
      admin_unfiltered_qdrant_filter_def sql_def cypher_def in_scope_def selected_def clause_defs
      field_condition_from_clause_def)+

lemma authored_rows:
  "selected (authored_by_qdrant_filter u) r = Some (r ''user_id'' = Some (JStr u) \<and>
     (in_scope ''personal'' r \<or> in_scope ''shared'' r))"
  by (auto simp: authored_by_qdrant_filter_def selected_def clause_defs field_condition_from_clause_def in_scope_def
      split: option.split)

lemma authored_renders:
  "authored_by_filter u = (render (sql\<lparr>dl_sep := '', ''\<rparr>) c, map snd (cond_params c)) \<and>
   (cond_holds c r \<longleftrightarrow> selected (authored_by_qdrant_filter u) r = Some True)"
  if "c = Both (FieldIn ''scope'' [''personal'', ''shared'']) (FieldIs ''user_id'' (Par u))"
  unfolding authored_rows that by (auto simp: authored_by_filter_def sql_def in_scope_def)

subsection \<open>Role gates\<close>

datatype authz_error = NotAuthenticated | AdminRoleRequired

definition require_user :: "bool \<Rightarrow> user_context \<Rightarrow> authz_error + user_context" where
  "require_user auth ctx =
     (if \<not> auth then Inr ctx
      else if \<not> uc_authenticated ctx then Inl NotAuthenticated
      else Inr ctx)"

definition require_admin :: "bool \<Rightarrow> user_context \<Rightarrow> authz_error + user_context" where
  "require_admin auth ctx =
     (if \<not> auth then Inr ctx
      else if \<not> uc_authenticated ctx then Inl NotAuthenticated
      else if uc_role ctx \<noteq> ''admin'' then Inl AdminRoleRequired
      else Inr ctx)"

text \<open>Whoever passes the administrator's gate passes the user's, and is seen as an admin by the rule.\<close>

lemma require_admin_stronger:
  "require_admin auth ctx = Inr ctx' \<Longrightarrow> require_user auth ctx = Inr ctx' \<and> (auth \<longrightarrow> effective_allows_shared us ctx)"
  by (auto simp: require_admin_def require_user_def effective_allows_shared_def split: if_splits)

end
