(* ===== verification/CodePoints.thy ===== *)
theory CodePoints
  imports Prelude
begin

section \<open>Texts beyond Latin-1\<close>

text \<open>
  For the components that look at characters outside the first 256 code points, a text is
  the list of its code points. \<open>cps\<close> turns a literal into such a text. The operations are
  those of Python's \<open>str\<close>: slicing with a possibly negative bound, \<open>strip\<close>, \<open>rfind\<close>,
  \<open>replace\<close> of all occurrences from left to right.
\<close>

type_synonym utext = "nat list"

definition cps :: "string \<Rightarrow> utext" where
  "cps s = map of_char s"

lemma length_cps [simp]: "length (cps s) = length s"
  by (simp add: cps_def)

definition u_space :: "nat \<Rightarrow> bool" where
  "u_space n \<longleftrightarrow> (9 \<le> n \<and> n \<le> 13) \<or> (28 \<le> n \<and> n \<le> 32) \<or> n = 133 \<or> n = 160 \<or> n = 5760 \<or>
     (8192 \<le> n \<and> n \<le> 8202) \<or> n = 8232 \<or> n = 8233 \<or> n = 8239 \<or> n = 8287 \<or> n = 12288"

definition u_lstrip :: "utext \<Rightarrow> utext" where
  "u_lstrip t = dropWhile u_space t"

definition u_rstrip :: "utext \<Rightarrow> utext" where
  "u_rstrip t = rev (dropWhile u_space (rev t))"

definition u_strip :: "utext \<Rightarrow> utext" where
  "u_strip t = u_rstrip (u_lstrip t)"

text \<open>\<open>t[:n]\<close>\<close>

definition slice_to :: "int \<Rightarrow> 'a list \<Rightarrow> 'a list" where
  "slice_to n t = (if 0 \<le> n then take (nat n) t else take (nat (int (length t) + n)) t)"

fun u_starts :: "'a list \<Rightarrow> 'a list \<Rightarrow> bool" where
  "u_starts [] t = True"
| "u_starts (p # ps) [] = False"
| "u_starts (p # ps) (c # t) = (p = c \<and> u_starts ps t)"

fun u_contains :: "'a list \<Rightarrow> 'a list \<Rightarrow> bool" where
  "u_contains p [] = (p = [])"
| "u_contains p (c # t) = (u_starts p (c # t) \<or> u_contains p t)"

text \<open>The last index at which \<open>p\<close> occurs in \<open>t\<close>, or -1.\<close>

fun rfind_from :: "'a list \<Rightarrow> int \<Rightarrow> 'a list \<Rightarrow> int \<Rightarrow> int" where
  "rfind_from p i [] best = (if p = [] then i else best)"
| "rfind_from p i (c # t) best = rfind_from p (i + 1) t (if u_starts p (c # t) then i else best)"

definition rfind :: "'a list \<Rightarrow> 'a list \<Rightarrow> int" where
  "rfind p t = rfind_from p 0 t (-1)"

text \<open>\<open>t.replace(p, q)\<close> for a nonempty \<open>p\<close>; \<open>skip\<close> counts the characters of a match still to pass.\<close>

fun replace_from :: "nat \<Rightarrow> 'a list \<Rightarrow> 'a list \<Rightarrow> 'a list \<Rightarrow> 'a list" where
  "replace_from k p q [] = []"
| "replace_from (Suc k) p q (c # t) = replace_from k p q t"
| "replace_from 0 p q (c # t) =
     (if u_starts p (c # t) then q @ replace_from (length p - 1) p q t else c # replace_from 0 p q t)"

definition u_replace :: "'a list \<Rightarrow> 'a list \<Rightarrow> 'a list \<Rightarrow> 'a list" where
  "u_replace p q t = replace_from 0 p q t"

lemma u_starts_append: "u_starts p (p @ t)"
  by (induction p) auto

lemma u_starts_iff: "u_starts p t \<longleftrightarrow> (\<exists>t'. t = p @ t')"
  by (induction p t rule: u_starts.induct) auto

lemma u_contains_iff: "u_contains p t \<longleftrightarrow> (\<exists>a b. t = a @ p @ b)"
proof (induction t)
  case Nil
  then show ?case by auto
next
  case (Cons c t)
  have "(\<exists>a b. c # t = a @ p @ b) \<longleftrightarrow> (\<exists>b. c # t = p @ b) \<or> (\<exists>a b. t = a @ p @ b)"
    by (metis append_Cons append_Nil list.exhaust list.inject)
  with Cons show ?case by (simp add: u_starts_iff)
qed

lemma u_strip_parts: "\<exists>a b. t = a @ u_strip t @ b"
proof -
  obtain a where a: "t = a @ u_lstrip t" unfolding u_lstrip_def by (metis takeWhile_dropWhile_id)
  have "rev (u_lstrip t) = takeWhile u_space (rev (u_lstrip t)) @ dropWhile u_space (rev (u_lstrip t))" by simp
  then have "u_lstrip t = u_strip t @ rev (takeWhile u_space (rev (u_lstrip t)))"
    unfolding u_strip_def u_rstrip_def by (metis rev_append rev_rev_ident)
  with a show ?thesis by metis
qed

lemma u_rstrip_prefix: "\<exists>b. t = u_rstrip t @ b"
proof -
  have "rev t = takeWhile u_space (rev t) @ dropWhile u_space (rev t)" by simp
  then have "t = u_rstrip t @ rev (takeWhile u_space (rev t))"
    unfolding u_rstrip_def by (metis rev_append rev_rev_ident)
  then show ?thesis ..
qed

lemma slice_to_prefix: "\<exists>b. t = slice_to n t @ b"
proof -
  have ex: "\<exists>b. t = take k t @ b" for k by (metis append_take_drop_id)
  show ?thesis using ex by (cases "0 \<le> n") (simp_all add: slice_to_def)
qed

lemma length_u_rstrip: "length (u_rstrip t) \<le> length t"
  unfolding u_rstrip_def by (metis length_dropWhile_le length_rev)

lemma length_slice_to: "0 \<le> n \<Longrightarrow> int (length (slice_to n t)) \<le> n" "length (slice_to n t) \<le> length t"
  by (auto simp: slice_to_def)

lemma rfind_from_range: "best < i \<Longrightarrow> rfind_from p i t best \<le> i + int (length t)"
  by (induction p i t best rule: rfind_from.induct) force+

lemma rfind_from_in: "p \<noteq> [] \<Longrightarrow> best < i \<Longrightarrow> rfind_from p i t best = best \<or>
    (i \<le> rfind_from p i t best \<and> rfind_from p i t best < i + int (length t))"
  by (induction p i t best rule: rfind_from.induct) force+

lemma rfind_bounds: "p \<noteq> [] \<Longrightarrow> -1 \<le> rfind p t \<and> rfind p t < max 1 (int (length t))"
  using rfind_from_in [of p "-1" 0 t] by (auto simp: rfind_def)

subsection \<open>What a replacement leaves\<close>

text \<open>
  The placeholders put in by \<open>replace\<close> begin with a character that the searched texts do not
  have, so a replacement neither creates nor completes an occurrence.
\<close>

lemma starts_replaced:
  assumes "q \<noteq> []" and "hd q \<notin> set s" and "u_starts s (replace_from 0 p q t)"
  shows "u_starts s t"
  using assms(2,3)
proof (induction t arbitrary: s)
  case Nil
  then show ?case by (simp add: replace_from.simps(1))
next
  case (Cons c t)
  show ?case
  proof (cases s)
    case Nil
    then show ?thesis by simp
  next
    case (Cons d s')
    with Cons.prems assms(1) have "\<not> u_starts p (c # t)" by (cases q) (auto split: if_splits)
    with Cons Cons.prems have "d = c" "u_starts s' (replace_from 0 p q t)" by (auto split: if_splits)
    with Cons Cons.prems Cons.IH [of s'] show ?thesis by simp
  qed
qed

lemma contains_append:
  assumes "s \<noteq> []" and "hd s \<notin> set q"
  shows "u_contains s (q @ t) = u_contains s t"
  using assms(2)
proof (induction q)
  case Nil
  then show ?case by simp
next
  case (Cons c q)
  have "\<not> u_starts s (c # q @ t)" using assms(1) Cons.prems by (cases s) auto
  with Cons show ?case by simp
qed

lemma replaced_absent:
  assumes "q \<noteq> []" and "s \<noteq> []" and "hd q \<notin> set s" and "hd s \<notin> set q"
    and "s = p \<or> \<not> u_contains s t"
  shows "\<not> u_contains s (replace_from k p q t)"
  using assms
proof (induction k p q t rule: replace_from.induct)
  case (1 k p q)
  then show ?case by simp
next
  case (2 k p q c t)
  then show ?case by auto
next
  case (3 p q c t)
  show ?case
  proof (cases "u_starts p (c # t)")
    case True
    then have "\<not> u_contains s (replace_from (length p - 1) p q t)" using 3 by auto
    with True 3(4,6) show ?thesis by (simp add: contains_append)
  next
    case False
    have "\<not> u_starts s (c # replace_from 0 p q t)"
    proof
      assume "u_starts s (c # replace_from 0 p q t)"
      then have "u_starts s (replace_from 0 p q (c # t))" using False by simp
      then have "u_starts s (c # t)" using starts_replaced [OF 3(3,5)] by blast
      with False 3(7) show False by auto
    qed
    with False 3 show ?thesis by auto
  qed
qed

lemma u_replace_absent:
  assumes "q \<noteq> []" and "s \<noteq> []" and "hd q \<notin> set s" and "hd s \<notin> set q"
    and "s = p \<or> \<not> u_contains s t"
  shows "\<not> u_contains s (u_replace p q t)"
  unfolding u_replace_def using assms by (rule replaced_absent)

end
