(* ===== verification/ContextBudget.thy ===== *)
theory ContextBudget
  imports CodePoints Complex_Main
begin

section \<open>Token budgets\<close>

text \<open>
  Models \<open>orchestrator/services/context_budget.py\<close>. Texts are lists of code points, because
  the token estimate depends on the CJK blocks. Tokens are integers: budgets can be
  negative where a caller subtracts a reserve. \<open>scale\<close> is the code's \<open>int(budget * fraction)\<close>,
  whose product is a double; the comparisons with 0.3 and 0.5 are exact on the values that occur.
\<close>

definition default_budget :: int where
  "default_budget = 2048"

text \<open>
  The configured \<open>context_budget\<close> of a model: \<open>None\<close> when the model is unknown, the field is
  missing, or its value cannot be read as an integer.
\<close>

definition get_budget :: "int option \<Rightarrow> int" where
  "get_budget configured = (case configured of Some b \<Rightarrow> b | None \<Rightarrow> default_budget)"

record content_budget =
  cb_slots :: "(string \<times> int) list"
  cb_total :: int

definition slot :: "content_budget \<Rightarrow> string \<Rightarrow> int" where
  "slot b name = (case map_of (cb_slots b) name of Some n \<Rightarrow> n | None \<Rightarrow> 0)"

definition allocate :: "(int \<Rightarrow> rat \<Rightarrow> int) \<Rightarrow> int \<Rightarrow> (string \<times> rat) list \<Rightarrow> content_budget" where
  "allocate scale budget reserves =
     \<lparr>cb_slots = map (\<lambda>(name, f). (name, scale budget f)) reserves, cb_total = budget\<rparr>"

definition is_cjk :: "nat \<Rightarrow> bool" where
  "is_cjk c \<longleftrightarrow> (0x4e00 \<le> c \<and> c \<le> 0x9fff) \<or> (0x3040 \<le> c \<and> c \<le> 0x30ff) \<or> (0xac00 \<le> c \<and> c \<le> 0xd7af)"

definition estimate_tokens :: "utext \<Rightarrow> int" where
  "estimate_tokens t =
     (if t = [] then 0
      else
        let sample = take 200 t;
            divisor = (if 10 * length (filter is_cjk sample) > 3 * length sample then 3 else 4)
        in max 1 (int (length t) div divisor))"

text \<open>A chat message; an absent content, or \<open>None\<close>, counts no tokens.\<close>

record chat_message =
  cm_role :: "string option"
  cm_content :: "utext option"

definition message_tokens :: "chat_message \<Rightarrow> int" where
  "message_tokens m = (case cm_content m of None \<Rightarrow> 0 | Some t \<Rightarrow> estimate_tokens t)"

definition total_tokens :: "chat_message list \<Rightarrow> int" where
  "total_tokens ms = sum_list (map message_tokens ms)"

text \<open>The loop that drops the oldest messages after the first; it stops at two.\<close>

fun drop_middle :: "chat_message \<Rightarrow> int \<Rightarrow> chat_message list \<Rightarrow> chat_message list" where
  "drop_middle m0 budget [] = []"
| "drop_middle m0 budget (m # ms) =
     (if total_tokens (m0 # m # ms) > budget
      then if length (m # ms) \<le> 2 then m # ms else drop_middle m0 budget ms
      else m # ms)"

definition truncate_messages :: "chat_message list \<Rightarrow> int \<Rightarrow> chat_message list" where
  "truncate_messages ms budget =
     (case ms of
        [] \<Rightarrow> []
      | m0 # rest \<Rightarrow>
          if total_tokens ms \<le> budget then ms
          else if cm_role m0 = None \<and> cm_content m0 = None then ms
          else m0 # drop_middle m0 budget rest)"

definition truncate_text :: "utext \<Rightarrow> int \<Rightarrow> utext" where
  "truncate_text t budget =
     (if t = [] then t
      else if estimate_tokens t \<le> budget then t
      else
        let char_limit = budget * 4;
            cut = slice_to char_limit t;
            boundary = max (rfind [46, 32] cut) (rfind [10] cut);
            kept = (if 2 * boundary > char_limit then slice_to (boundary + 1) cut else cut)
        in u_rstrip kept)"

subsection \<open>The history of a conversation\<close>

lemma estimate_nonneg: "0 \<le> estimate_tokens t"
  by (simp add: estimate_tokens_def Let_def le_max_iff_disj)

lemma drop_middle_suffix: "\<exists>dropped. rest = dropped @ drop_middle m0 budget rest"
proof (induction rest)
  case Nil
  then show ?case by simp
next
  case (Cons m ms)
  then show ?case by (metis append_Cons append_Nil drop_middle.simps(2))
qed

lemma drop_middle_length: "min 2 (length rest) \<le> length (drop_middle m0 budget rest)"
  by (induction rest) auto

lemma drop_middle_fits:
  "total_tokens (m0 # drop_middle m0 budget rest) \<le> budget \<or> length (drop_middle m0 budget rest) \<le> 2"
  by (induction rest) auto

text \<open>Nothing is dropped that would have fitted.\<close>

lemma drop_middle_least:
  assumes "rest = dropped @ kept" and "total_tokens (m0 # kept) \<le> budget" 
  shows "length kept \<le> length (drop_middle m0 budget rest)"
  using assms
proof (induction rest arbitrary: dropped)
  case Nil
  then show ?case by simp
next
  case (Cons m ms)
  show ?case
  proof (cases dropped)
    case Nil
    with Cons.prems(1) have kept: "kept = m # ms" by simp
    show ?thesis using Cons.prems(2) by (simp add: kept)
  next
    case (Cons d ds)
    with Cons.prems have "ms = ds @ kept" by simp
    with Cons.IH Cons.prems(2) have "length kept \<le> length (drop_middle m0 budget ms)" by blast
    moreover have "length (drop_middle m0 budget ms) \<le> length ms"
      using drop_middle_suffix [of ms m0 budget] by (metis le_add2 length_append)
    ultimately show ?thesis by simp
  qed
qed

text \<open>
  Trimming a conversation keeps its ends: a history that fits is unchanged, and one that
  does not keeps its first message (the system prompt) followed by a suffix of the rest, in
  order and with nothing altered, that holds the last two messages at least. The suffix is
  the longest one that fits, so no message is dropped needlessly; when even the last two do not
  fit, they are kept all the same and the result exceeds the budget.
\<close>

theorem trimming_keeps_both_ends:
  assumes "ms = m0 # rest" and "budget < total_tokens ms" and "cm_content m0 \<noteq> None"
  shows "\<exists>dropped kept. truncate_messages ms budget = m0 # kept \<and> rest = dropped @ kept \<and>
    min 2 (length rest) \<le> length kept \<and>
    (total_tokens (m0 # kept) \<le> budget \<or> length kept \<le> 2) \<and>
    (\<forall>dropped' kept'. rest = dropped' @ kept' \<and> total_tokens (m0 # kept') \<le> budget \<longrightarrow> length kept' \<le> length kept)"
proof -
  have "truncate_messages ms budget = m0 # drop_middle m0 budget rest"
    using assms by (auto simp: truncate_messages_def)
  moreover obtain dropped where "rest = dropped @ drop_middle m0 budget rest"
    using drop_middle_suffix by blast
  ultimately show ?thesis
    using drop_middle_length [of rest] drop_middle_fits [of m0] drop_middle_least [where ?m0.0 = m0 and rest = rest] by blast
qed

definition long_message :: "string \<Rightarrow> nat \<Rightarrow> chat_message" where
  "long_message role n = \<lparr>cm_role = Some role, cm_content = Some (replicate n 97)\<rparr>"

theorem trimming_keeps_both_ends_witness:
  "\<exists>dropped kept. truncate_messages [long_message ''system'' 8, long_message ''user'' 40, long_message ''assistant'' 40, long_message ''user'' 40] 5 =
      long_message ''system'' 8 # kept \<and>
    [long_message ''user'' 40, long_message ''assistant'' 40, long_message ''user'' 40] = dropped @ kept \<and> 2 \<le> length kept"
proof -
  let ?rest = "[long_message ''user'' 40, long_message ''assistant'' 40, long_message ''user'' 40]"
  have "5 < total_tokens (long_message ''system'' 8 # ?rest)"
    by (simp add: total_tokens_def message_tokens_def long_message_def estimate_tokens_def is_cjk_def Let_def)
  moreover have "cm_content (long_message ''system'' 8) \<noteq> None" by (simp add: long_message_def)
  ultimately obtain dropped kept where
    "truncate_messages (long_message ''system'' 8 # ?rest) 5 = long_message ''system'' 8 # kept"
    "?rest = dropped @ kept" "min 2 (length ?rest) \<le> length kept"
    using trimming_keeps_both_ends [OF refl] by blast
  moreover from this(3) have "2 \<le> length kept" by simp
  ultimately show ?thesis by blast
qed

subsection \<open>Cutting a text\<close>

lemma truncate_prefix: "\<exists>rest. t = truncate_text t budget @ rest"
proof -
  have "\<exists>rest. t = u_rstrip (slice_to n (slice_to k t)) @ rest" for n k
    by (metis append.assoc slice_to_prefix u_rstrip_prefix)
  moreover have "\<exists>rest. t = u_rstrip (slice_to k t) @ rest" for k
    by (metis append.assoc slice_to_prefix u_rstrip_prefix)
  ultimately show ?thesis by (auto simp: truncate_text_def Let_def)
qed

lemma truncate_length:
  assumes "0 \<le> budget" and "budget < estimate_tokens t"
  shows "int (length (truncate_text t budget)) \<le> 4 * budget"
proof -
  have cut: "int (length (slice_to (4 * budget) t)) \<le> 4 * budget" using assms(1) by (simp add: length_slice_to)
  then have "int (length (u_rstrip (slice_to n (slice_to (4 * budget) t)))) \<le> 4 * budget" for n
    using length_u_rstrip [of "slice_to n (slice_to (4 * budget) t)"] length_slice_to(2) [of n "slice_to (4 * budget) t"] by linarith
  moreover have "int (length (u_rstrip (slice_to (4 * budget) t))) \<le> 4 * budget"
    using cut length_u_rstrip [of "slice_to (4 * budget) t"] by linarith
  ultimately show ?thesis using assms(2) by (simp add: truncate_text_def Let_def mult.commute)
qed

lemma estimate_length:
  "estimate_tokens t \<le> max 1 (int (length t) div 3)"
  "filter is_cjk t = [] \<Longrightarrow> estimate_tokens t \<le> max 1 (int (length t) div 4)"
proof -
  have "int (length t) div 4 \<le> int (length t) div 3" by (intro zdiv_mono2) auto
  then show "estimate_tokens t \<le> max 1 (int (length t) div 3)" by (auto simp: estimate_tokens_def Let_def)
  assume "filter is_cjk t = []"
  then have "filter is_cjk (take 200 t) = []" by (auto simp: filter_empty_conv dest: in_set_takeD)
  then show "estimate_tokens t \<le> max 1 (int (length t) div 4)" by (auto simp: estimate_tokens_def Let_def)
qed

lemma rfind_replicate: "p \<noteq> [] \<Longrightarrow> hd p \<noteq> c \<Longrightarrow> rfind p (replicate n c) = -1"
proof -
  assume p: "p \<noteq> []" "hd p \<noteq> c"
  then have "\<not> u_starts p (c # t)" for t by (cases p) auto
  with p have "rfind_from p i (replicate n c) b = b" for i b by (induction n arbitrary: i) auto
  then show ?thesis by (simp add: rfind_def)
qed

lemma cjk_overrun: "estimate_tokens (truncate_text (replicate 13 0x4e00) 3) = 4"
proof -
  have est: "estimate_tokens (replicate n 0x4e00) = (if n = 0 then 0 else max 1 (int n div 3))" for n
    by (simp add: estimate_tokens_def is_cjk_def Let_def filter_replicate)
  have strip: "u_rstrip (replicate n 0x4e00) = replicate n 0x4e00" for n
    by (cases n) (simp_all add: u_rstrip_def u_space_def dropWhile_append2 flip: replicate_append_same del: replicate.simps(2))
  have "truncate_text (replicate 13 0x4e00) 3 = replicate 12 0x4e00"
    unfolding truncate_text_def est by (simp add: slice_to_def rfind_replicate strip Let_def)
  then show ?thesis by (simp add: est)
qed

text \<open>
  Cutting a text to a budget returns a prefix of it. A text without CJK characters
  then fits the budget. The cut is at four characters per token whatever the script, while
  CJK text is estimated at three: such a text can exceed the budget it was cut to, by up to a
  third, and does.
\<close>

theorem truncated_text_fits_unless_cjk:
  assumes "0 \<le> budget"
  shows "(\<exists>rest. t = truncate_text t budget @ rest) \<and>
    estimate_tokens (truncate_text t budget) \<le> 4 * budget div 3 \<and>
    (filter is_cjk t = [] \<longrightarrow> estimate_tokens (truncate_text t budget) \<le> budget) \<and>
    (\<exists>cjk. estimate_tokens (truncate_text cjk 3) = 4)"
proof (intro conjI impI)
  show "\<exists>rest. t = truncate_text t budget @ rest" by (rule truncate_prefix)
next
  show "estimate_tokens (truncate_text t budget) \<le> 4 * budget div 3"
  proof (cases "estimate_tokens t \<le> budget")
    case True
    moreover have "budget \<le> 4 * budget div 3" using assms by linarith
    moreover have "truncate_text t budget = t" using True by (simp add: truncate_text_def)
    ultimately show ?thesis by simp
  next
    case False
    then have len: "int (length (truncate_text t budget)) \<le> 4 * budget" using truncate_length [OF assms] by simp
    then have "int (length (truncate_text t budget)) div 3 \<le> 4 * budget div 3" by (intro zdiv_mono1) auto
    moreover have "budget = 0 \<Longrightarrow> truncate_text t budget = []" using len by simp
    moreover have "1 \<le> budget \<Longrightarrow> 1 \<le> 4 * budget div 3" by simp
    ultimately show ?thesis
      using estimate_length(1) [of "truncate_text t budget"] assms by (cases "budget = 0") (auto simp: estimate_tokens_def)
  qed
next
  assume plain: "filter is_cjk t = []"
  show "estimate_tokens (truncate_text t budget) \<le> budget"
  proof (cases "estimate_tokens t \<le> budget")
    case True
    then show ?thesis by (auto simp: truncate_text_def)
  next
    case False
    then have len: "int (length (truncate_text t budget)) \<le> 4 * budget" using truncate_length [OF assms] by simp
    obtain rest where "t = truncate_text t budget @ rest" using truncate_prefix by blast
    with plain have "filter is_cjk (truncate_text t budget) = []" by (metis append_is_Nil_conv filter_append)
    then have "estimate_tokens (truncate_text t budget) \<le> max 1 (int (length (truncate_text t budget)) div 4)"
      by (rule estimate_length(2))
    moreover have "int (length (truncate_text t budget)) div 4 \<le> budget" using len by linarith
    moreover have "budget = 0 \<Longrightarrow> truncate_text t budget = []" using len by simp
    ultimately show ?thesis using assms by (cases "budget = 0") (auto simp: estimate_tokens_def)
  qed
next
  have "estimate_tokens (truncate_text (replicate 13 0x4e00) 3) = 4" by (rule cjk_overrun)
  then show "\<exists>cjk. estimate_tokens (truncate_text cjk 3) = 4" ..
qed

theorem truncated_text_fits_unless_cjk_witness:
  "estimate_tokens (truncate_text (cps ''First sentence. Second sentence.'') 5) \<le> 5"
  using truncated_text_fits_unless_cjk [of 5 "cps ''First sentence. Second sentence.''"]
  by (simp add: cps_def is_cjk_def)

end
