(* ===== verification/Retrieval.thy ===== *)
theory Retrieval
  imports Visibility ContextBudget
begin

section \<open>Retrieval of documents\<close>

text \<open>
  Models \<open>orchestrator/services/search.py\<close>, \<open>services/auto_rag.py\<close>, \<open>services/document_scope.py\<close>, the
  reranker of \<open>adapters/bge_reranker.py\<close> and \<open>search\<close> of \<open>adapters/qdrant_store.py\<close>. The vector
  database is a parameter: what a hybrid and a dense query with a filter return, \<open>None\<close> being
  an exception. So are the scores of the cross-encoder. Scores are rationals. Of a payload, the
  text is kept as code points and the other fields as JSON values.
\<close>

subsection \<open>The store\<close>

record point =
  p_id :: string
  p_score :: rat
  p_text :: utext
  p_fields :: row

record raw_hit = point +
  h_space :: string

type_synonym query_points = "qfilter option \<Rightarrow> nat \<Rightarrow> rat \<Rightarrow> point list option"

type_synonym cross_encoder = "string \<Rightarrow> utext list \<Rightarrow> rat list option"

record retrieval_env =
  re_users :: user_flags
  re_embeds :: bool
  re_hybrid :: query_points
  re_dense :: query_points
  re_has_words :: "string \<Rightarrow> bool"
  re_reranker :: "cross_encoder option"

datatype retrieval_error = ScopeRefused scope_error | FilterRefused filter_error | StoreFailed | EmbedFailed | BadChunkIndex

definition with_space :: "string \<Rightarrow> point \<Rightarrow> raw_hit" where
  "with_space s p = point.extend p \<lparr>h_space = s\<rparr>"

text \<open>
  \<open>QdrantStore.search\<close> on collection \<open>documents\<close>. An empty filter dictionary counts as no
  filter; a hybrid query that fails falls back to the dense one.
\<close>

definition qdrant_search :: "retrieval_env \<Rightarrow> json option \<Rightarrow> nat \<Rightarrow> rat \<Rightarrow> string \<Rightarrow> retrieval_error + raw_hit list" where
  "qdrant_search env flt limit threshold sparse =
     (case (case flt of None \<Rightarrow> Inr None
                      | Some f \<Rightarrow> if json_truthy f then map_sum id Some (build_filter f) else Inr None) of
        Inl e \<Rightarrow> Inl (FilterRefused e)
      | Inr qf \<Rightarrow>
          let dense = (case re_dense env qf limit threshold of
                         None \<Rightarrow> Inl StoreFailed
                       | Some ps \<Rightarrow> Inr (map (with_space ''cosine'') ps)) in
          if sparse \<noteq> [] \<and> re_has_words env sparse then
            (case re_hybrid env qf limit threshold of
               Some ps \<Rightarrow> Inr (map (with_space ''rrf'') ps)
             | None \<Rightarrow> dense)
          else dense)"

text \<open>
  \<open>BGEReranker.rerank\<close>: the candidates with their scores, best first, ties in the order given.
\<close>

definition bge_rerank :: "cross_encoder \<Rightarrow> string \<Rightarrow> raw_hit list \<Rightarrow> nat \<Rightarrow> (raw_hit \<times> rat) list option" where
  "bge_rerank enc q cands limit =
     (if cands = [] then Some []
      else case enc q (map p_text cands) of
        None \<Rightarrow> None
      | Some scores \<Rightarrow>
          if length scores < length cands then None
          else Some (take limit (sort_key (\<lambda>c. - snd c) (zip cands scores))))"

subsection \<open>Fields of a payload\<close>

definition text_field :: "row \<Rightarrow> string \<Rightarrow> string" where
  "text_field r k = (case r k of Some (JStr s) \<Rightarrow> s | Some (JInt i) \<Rightarrow> show_int i | _ \<Rightarrow> [])"

definition hit_scope :: "row \<Rightarrow> string" where
  "hit_scope r = (let s = text_field r ''scope'' in if s \<in> set sorted_scopes then s else ''personal'')"

definition hit_ingested :: "row \<Rightarrow> string option" where
  "hit_ingested r = (case r ''ingested'' of None \<Rightarrow> None | Some JNull \<Rightarrow> None | Some v \<Rightarrow> Some (text_field r ''ingested''))"

text \<open>
  \<open>str.isdigit\<close> holds of the superscripts one to three too, which \<open>int\<close> refuses: then the
  function raises (\<open>Inl\<close>).
\<close>

definition py_isdigit :: "string \<Rightarrow> bool" where
  "py_isdigit s = (s \<noteq> [] \<and> list_all (\<lambda>c. is_digit c \<or> code_point c \<in> {178, 179, 185}) s)"

definition parse_chunk_index :: "row \<Rightarrow> retrieval_error + int option" where
  "parse_chunk_index r =
     (let idx = (case r ''chunk_index'' of None \<Rightarrow> r ''idx'' | Some JNull \<Rightarrow> r ''idx'' | Some v \<Rightarrow> Some v) in
      case idx of
        Some (JInt i) \<Rightarrow> Inr (Some i)
      | Some (JBool b) \<Rightarrow> Inr (Some (if b then 1 else 0))
      | Some (JStr s) \<Rightarrow>
          if py_isdigit s then (case py_int s of Some i \<Rightarrow> Inr (Some i) | None \<Rightarrow> Inl BadChunkIndex) else Inr None
      | _ \<Rightarrow> Inr None)"

definition project_metadata :: "row \<Rightarrow> row" where
  "project_metadata r = (\<lambda>k. if k \<in> {''file_path'', ''scope'', ''ingested''} \<and> r k \<noteq> Some JNull then r k else None)"

record doc_hit =
  dh_id :: string
  dh_path :: string
  dh_text :: utext
  dh_score :: rat
  dh_kind :: string
  dh_rerank :: "rat option"
  dh_scope :: string
  dh_ingested :: "string option"
  dh_meta :: row
  dh_chunk_index :: "int option"

definition document_hit :: "string \<Rightarrow> rat \<Rightarrow> rat option \<Rightarrow> raw_hit \<Rightarrow> retrieval_error + doc_hit" where
  "document_hit kind score rerank h =
     map_sum id (\<lambda>ci. \<lparr>dh_id = p_id h, dh_path = text_field (p_fields h) ''file_path'', dh_text = p_text h,
         dh_score = score, dh_kind = kind, dh_rerank = rerank, dh_scope = hit_scope (p_fields h),
         dh_ingested = hit_ingested (p_fields h), dh_meta = project_metadata (p_fields h), dh_chunk_index = ci\<rparr>)
       (parse_chunk_index (p_fields h))"

subsection \<open>Automatic retrieval\<close>

definition score_floor_ok :: "rat \<Rightarrow> raw_hit \<Rightarrow> bool" where
  "score_floor_ok min_bi h = (\<not> (h_space h \<noteq> ''rrf'' \<and> p_score h < min_bi))"

definition hits_without_rerank :: "raw_hit list \<Rightarrow> nat \<Rightarrow> rat \<Rightarrow> retrieval_error + doc_hit list" where
  "hits_without_rerank raw top_post min_bi =
     traverse (\<lambda>h. document_hit (if h_space h = ''rrf'' then ''rrf_gated'' else ''bi_encoder'') (p_score h) None h)
       (take top_post (filter (score_floor_ok min_bi) (sort_key (\<lambda>h. - p_score h) raw)))"

fun drop_until_fits :: "int \<Rightarrow> doc_hit list \<Rightarrow> doc_hit list" where
  "drop_until_fits cap hs =
     (if hs \<noteq> [] \<and> cap < sum_list (map (\<lambda>h. estimate_tokens (dh_text h)) hs)
      then drop_until_fits cap (butlast hs) else hs)"

declare drop_until_fits.simps [simp del]

definition apply_max_tokens :: "doc_hit list \<Rightarrow> int \<Rightarrow> doc_hit list" where
  "apply_max_tokens hits cap =
     (if cap \<le> 0 \<or> hits = [] then [] else drop_until_fits cap (sort_key (\<lambda>h. - dh_score h) hits))"

record rag_config =
  rc_enabled :: bool
  rc_top_pre :: nat
  rc_top_post :: nat
  rc_doc_pre :: nat
  rc_doc_post :: nat
  rc_min_rerank :: rat
  rc_min_bi :: rat
  rc_max_tokens :: int

definition retrieve_inner ::
  "retrieval_env \<Rightarrow> rag_config \<Rightarrow> string \<Rightarrow> user_id \<Rightarrow> string option \<Rightarrow> int option \<Rightarrow> string option \<Rightarrow> bool
    \<Rightarrow> retrieval_error + doc_hit list" where
  "retrieve_inner env cfg q u sf max_tokens file_path scoped =
     (case visible_qdrant_filter (re_users env) (bare_context u) sf of
        Inl e \<Rightarrow> Inl (ScopeRefused e)
      | Inr base \<Rightarrow>
          let flt = (case file_path of None \<Rightarrow> base | Some p \<Rightarrow> if p = [] then base else merge_file_path_filter base p);
              top_pre = (if scoped then rc_doc_pre cfg else rc_top_pre cfg);
              top_post = (if scoped then rc_doc_post cfg else rc_top_post cfg);
              threshold = (if scoped then 3 / 10 else 4 / 10);
              min_bi = (if scoped then 45 / 100 else rc_min_bi cfg) in
          if \<not> re_embeds env then Inl EmbedFailed
          else case qdrant_search env (Some flt) top_pre threshold q of
            Inl e \<Rightarrow> Inl e
          | Inr [] \<Rightarrow> Inr []
          | Inr raw \<Rightarrow>
              let hits = (case re_reranker env of
                    None \<Rightarrow> hits_without_rerank raw top_post min_bi
                  | Some enc \<Rightarrow>
                      (case bge_rerank enc q raw (length raw) of
                         None \<Rightarrow> hits_without_rerank raw top_post min_bi
                       | Some ranked \<Rightarrow>
                           (case traverse (\<lambda>(h, s). document_hit ''rerank'' s (Some s) h)
                                   (take top_post (filter (\<lambda>(h, s). rc_min_rerank cfg \<le> s) ranked)) of
                              Inl e \<Rightarrow> hits_without_rerank raw top_post min_bi
                            | Inr hs \<Rightarrow> Inr hs))) in
              map_sum id (\<lambda>hs. apply_max_tokens hs (case max_tokens of None \<Rightarrow> rc_max_tokens cfg | Some m \<Rightarrow> m)) hits)"

definition retrieve_document_context ::
  "retrieval_env \<Rightarrow> rag_config \<Rightarrow> string \<Rightarrow> user_id \<Rightarrow> string option \<Rightarrow> int option \<Rightarrow> string option \<Rightarrow> bool
    \<Rightarrow> retrieval_error + doc_hit list" where
  "retrieve_document_context env cfg q u sf max_tokens file_path scoped =
     (if \<not> scoped \<and> (file_path = None \<or> file_path = Some []) \<and> \<not> rc_enabled cfg then Inr []
      else case retrieve_inner env cfg q u sf max_tokens file_path scoped of
        Inl e \<Rightarrow> if scoped then Inl e else Inr []
      | Inr hs \<Rightarrow> Inr hs)"

subsection \<open>What is retrieved\<close>

lemma traverse_in:
  "traverse f xs = Inr ys \<Longrightarrow> y \<in> set ys \<Longrightarrow> \<exists>x \<in> set xs. f x = Inr y"
  by (induction xs arbitrary: ys) (auto split: sum.splits)

lemma traverse_length: "traverse f xs = Inr ys \<Longrightarrow> length ys = length xs"
  by (induction xs arbitrary: ys) (auto split: sum.splits)

lemma drop_until_fits_prefix: "\<exists>dropped. hs = drop_until_fits cap hs @ dropped"
proof (induction cap hs rule: drop_until_fits.induct)
  case (1 cap hs)
  show ?case
  proof (cases "hs \<noteq> [] \<and> cap < sum_list (map (\<lambda>h. estimate_tokens (dh_text h)) hs)")
    case True
    with 1 obtain d where "butlast hs = drop_until_fits cap (butlast hs) @ d" by blast
    moreover have "drop_until_fits cap hs = drop_until_fits cap (butlast hs)"
      using True by (subst drop_until_fits.simps) (rule if_P)
    moreover have "hs = butlast hs @ [last hs]" using True by simp
    ultimately show ?thesis by (metis append.assoc)
  next
    case False
    then show ?thesis by (subst drop_until_fits.simps) auto
  qed
qed

lemma drop_until_fits_fits:
  "0 \<le> cap \<Longrightarrow> sum_list (map (\<lambda>h. estimate_tokens (dh_text h)) (drop_until_fits cap hs)) \<le> cap"
proof (induction cap hs rule: drop_until_fits.induct)
  case (1 cap hs)
  show ?case
  proof (cases "hs \<noteq> [] \<and> cap < sum_list (map (\<lambda>h. estimate_tokens (dh_text h)) hs)")
    case True
    with 1 have "sum_list (map (\<lambda>h. estimate_tokens (dh_text h)) (drop_until_fits cap (butlast hs))) \<le> cap" by blast
    moreover have "drop_until_fits cap hs = drop_until_fits cap (butlast hs)"
      using True by (subst drop_until_fits.simps) (rule if_P)
    ultimately show ?thesis by simp
  next
    case False
    then have "drop_until_fits cap hs = hs" by (subst drop_until_fits.simps) (rule if_not_P)
    with False 1(2) show ?thesis by (cases "hs = []") auto
  qed
qed

lemma apply_max_tokens_subset: "set (apply_max_tokens hits cap) \<subseteq> set hits"
proof -
  obtain d where "sort_key (\<lambda>h. - dh_score h) hits = drop_until_fits cap (sort_key (\<lambda>h. - dh_score h) hits) @ d"
    using drop_until_fits_prefix by blast
  then have "set (drop_until_fits cap (sort_key (\<lambda>h. - dh_score h) hits)) \<subseteq> set (sort_key (\<lambda>h. - dh_score h) hits)"
    by (metis set_append sup_ge1)
  then show ?thesis by (auto simp: apply_max_tokens_def)
qed

lemma apply_max_tokens_sorted: "sorted (map (\<lambda>h. - dh_score h) (apply_max_tokens hits cap))"
proof -
  obtain d where "sort_key (\<lambda>h. - dh_score h) hits = drop_until_fits cap (sort_key (\<lambda>h. - dh_score h) hits) @ d"
    using drop_until_fits_prefix by blast
  then have "sorted (map (\<lambda>h. - dh_score h) (drop_until_fits cap (sort_key (\<lambda>h. - dh_score h) hits)))"
    by (metis map_append sorted_append sorted_sort_key)
  then show ?thesis by (auto simp: apply_max_tokens_def)
qed

lemma apply_max_tokens_length: "length (apply_max_tokens hits cap) \<le> length hits"
proof -
  obtain d where "sort_key (\<lambda>h. - dh_score h) hits = drop_until_fits cap (sort_key (\<lambda>h. - dh_score h) hits) @ d"
    using drop_until_fits_prefix by blast
  then have "length (drop_until_fits cap (sort_key (\<lambda>h. - dh_score h) hits)) \<le> length (sort_key (\<lambda>h. - dh_score h) hits)"
    by (metis length_append le_add1)
  then show ?thesis by (auto simp: apply_max_tokens_def)
qed

text \<open>A hit stands for a raw result of the search.\<close>

definition stands_for :: "raw_hit \<Rightarrow> doc_hit \<Rightarrow> bool" where
  "stands_for h d \<longleftrightarrow> dh_id d = p_id h \<and> dh_text d = p_text h \<and> dh_path d = text_field (p_fields h) ''file_path'' \<and>
     dh_scope d = hit_scope (p_fields h)"

lemma document_hit_stands: "document_hit kind score rr h = Inr d \<Longrightarrow> stands_for h d"
  by (cases "parse_chunk_index (p_fields h)") (auto simp: document_hit_def stands_for_def)

lemma without_rerank_stands:
  assumes "hits_without_rerank raw top_post min_bi = Inr hs"
  shows "length hs \<le> top_post" and "d \<in> set hs \<Longrightarrow> \<exists>h \<in> set raw. stands_for h d"
proof -
  show "length hs \<le> top_post"
    using traverse_length [OF assms [unfolded hits_without_rerank_def]] by simp
  assume "d \<in> set hs"
  then obtain h where "h \<in> set (take top_post (filter (score_floor_ok min_bi) (sort_key (\<lambda>h. - p_score h) raw)))"
      "document_hit (if h_space h = ''rrf'' then ''rrf_gated'' else ''bi_encoder'') (p_score h) None h = Inr d"
    using traverse_in [OF assms [unfolded hits_without_rerank_def]] by blast
  then show "\<exists>h \<in> set raw. stands_for h d" by (auto dest!: in_set_takeD document_hit_stands)
qed

lemma bge_rerank_subset:
  assumes "bge_rerank enc q cands limit = Some ranked"
  shows "fst ` set ranked \<subseteq> set cands"
  using assms by (auto simp: bge_rerank_def split: if_splits option.splits dest!: in_set_takeD set_zip_leftD)

lemma retrieve_inner_cases:
  assumes "retrieve_inner env cfg q u sf max_tokens file_path scoped = Inr hits"
  obtains flt raw top_pre thr where
    "visible_qdrant_filter (re_users env) (bare_context u) sf = Inr flt"
    "qdrant_search env (Some (case file_path of None \<Rightarrow> flt | Some p \<Rightarrow> if p = [] then flt else merge_file_path_filter flt p)) top_pre thr q = Inr raw"
    "\<And>d. d \<in> set hits \<Longrightarrow> \<exists>h \<in> set raw. stands_for h d"
    "length hits \<le> (if scoped then rc_doc_post cfg else rc_top_post cfg)"
    "sum_list (map (\<lambda>h. estimate_tokens (dh_text h)) hits) \<le> max 0 (case max_tokens of None \<Rightarrow> rc_max_tokens cfg | Some m \<Rightarrow> m)"
    "sorted (map (\<lambda>h. - dh_score h) hits)"
proof -
  let ?post = "if scoped then rc_doc_post cfg else rc_top_post cfg"
  let ?bi = "if scoped then 45 / 100 else rc_min_bi cfg"
  let ?cap = "case max_tokens of None \<Rightarrow> rc_max_tokens cfg | Some m \<Rightarrow> m"
  from assms obtain flt where flt: "visible_qdrant_filter (re_users env) (bare_context u) sf = Inr flt"
    by (auto simp: retrieve_inner_def split: sum.splits)
  let ?flt = "case file_path of None \<Rightarrow> flt | Some p \<Rightarrow> if p = [] then flt else merge_file_path_filter flt p"
  let ?pre = "if scoped then rc_doc_pre cfg else rc_top_pre cfg" and ?thr = "if scoped then 3 / 10 else 4 / 10"
  from assms flt obtain raw where raw: "qdrant_search env (Some ?flt) ?pre ?thr q = Inr raw"
    by (auto simp: retrieve_inner_def Let_def split: sum.splits if_splits)
  have "raw = [] \<and> hits = [] \<or> (\<exists>hs. hits = apply_max_tokens hs ?cap \<and>
      (hits_without_rerank raw ?post ?bi = Inr hs \<or>
       (\<exists>enc ranked. bge_rerank enc q raw (length raw) = Some ranked \<and>
         traverse (\<lambda>(h, s). document_hit ''rerank'' s (Some s) h)
           (take ?post (filter (\<lambda>(h, s). rc_min_rerank cfg \<le> s) ranked)) = Inr hs)))"
    using assms unfolding retrieve_inner_def flt Let_def sum.case raw
    by (auto simp: map_sum_def split: sum.splits if_splits list.splits option.splits)
  then have core: "hits = [] \<or> (\<exists>hs. hits = apply_max_tokens hs ?cap \<and> length hs \<le> ?post \<and> (\<forall>d \<in> set hs. \<exists>h \<in> set raw. stands_for h d))"
  proof (elim disjE exE conjE)
    fix hs
    assume "hits = apply_max_tokens hs ?cap" and "hits_without_rerank raw ?post ?bi = Inr hs"
    then show ?thesis using without_rerank_stands by blast
  next
    fix hs enc ranked
    assume hits: "hits = apply_max_tokens hs ?cap" and ranked: "bge_rerank enc q raw (length raw) = Some ranked"
      and trav: "traverse (\<lambda>(h, s). document_hit ''rerank'' s (Some s) h)
           (take ?post (filter (\<lambda>(h, s). rc_min_rerank cfg \<le> s) ranked)) = Inr hs"
    have "length hs \<le> ?post" using traverse_length [OF trav] by simp
    moreover have "\<forall>d \<in> set hs. \<exists>h \<in> set raw. stands_for h d"
      using traverse_in [OF trav] bge_rerank_subset [OF ranked]
      by (fastforce dest!: in_set_takeD document_hit_stands)
    ultimately show ?thesis using hits by blast
  qed simp
  have cap: "sum_list (map (\<lambda>h. estimate_tokens (dh_text h)) (apply_max_tokens hs ?cap)) \<le> max 0 ?cap" for hs
    using drop_until_fits_fits [of ?cap] by (auto simp: apply_max_tokens_def max_def)
  have "\<And>d. d \<in> set hits \<Longrightarrow> \<exists>h \<in> set raw. stands_for h d"
    using core apply_max_tokens_subset by (metis empty_iff list.set(1) subsetD)
  moreover have "length hits \<le> ?post" using core apply_max_tokens_length by (metis le_trans list.size(3) zero_le)
  moreover have "sum_list (map (\<lambda>h. estimate_tokens (dh_text h)) hits) \<le> max 0 ?cap" using core cap by auto
  moreover have "sorted (map (\<lambda>h. - dh_score h) hits)" using core apply_max_tokens_sorted by auto
  ultimately show thesis using that [OF flt raw] by blast
qed

text \<open>
  The vector store keeps its word about filters, for points that no user named like the
  sentinel of the empty filter owns.
\<close>

definition answers :: "retrieval_env \<Rightarrow> qfilter option \<Rightarrow> point \<Rightarrow> bool" where
  "answers env qf p \<longleftrightarrow> (\<exists>limit threshold ps. (re_hybrid env qf limit threshold = Some ps \<or>
     re_dense env qf limit threshold = Some ps) \<and> p \<in> set ps)"

definition store_honours_filters :: "retrieval_env \<Rightarrow> bool" where
  "store_honours_filters env \<longleftrightarrow> (\<forall>qf p. answers env qf p \<longrightarrow>
     (case qf of None \<Rightarrow> True | Some q \<Rightarrow> qmatch q (p_fields p)) \<and>
     p_fields p ''user_id'' \<noteq> Some (JStr ''__no_shared_access__''))"

lemma with_space_simps [simp]:
  "p_id (with_space s p) = p_id p" "p_text (with_space s p) = p_text p" "p_fields (with_space s p) = p_fields p"
  "p_score (with_space s p) = p_score p" "h_space (with_space s p) = s"
  by (simp_all add: with_space_def point.defs)

lemma search_answers:
  assumes "qdrant_search env (Some f) limit thr q = Inr raw" and "json_truthy f" and "h \<in> set raw"
  shows "\<exists>qf p. build_filter f = Inr qf \<and> answers env (Some qf) p \<and> p_id h = p_id p \<and> p_text h = p_text p \<and> p_fields h = p_fields p"
  using assms by (cases "build_filter f")
    (fastforce simp: qdrant_search_def answers_def Let_def split: if_splits option.splits)+

lemma visible_filter_object:
  assumes "visible_qdrant_filter us ctx sf = Inr flt"
  shows "\<exists>kvs. flt = JObj kvs \<and> map_of kvs ''key'' = None \<and> kvs \<noteq> []"
  using assms
  by (auto simp: visible_qdrant_filter_def must_filter_def Let_def split: sum.splits if_splits)

lemma narrowed_selects:
  assumes "visible_qdrant_filter us ctx sf0 = Inr flt" and "r ''user_id'' \<noteq> Some (JStr ''__no_shared_access__'')"
    and "build_filter (case file_path of None \<Rightarrow> flt | Some p \<Rightarrow> if p = [] then flt else merge_file_path_filter flt p) = Inr qf"
    and "qmatch qf r"
  shows "may_read us ctx sf0 r" and "file_path = Some p \<Longrightarrow> p \<noteq> [] \<Longrightarrow> r ''file_path'' = Some (JStr p)"
proof -
  obtain kvs where kvs: "flt = JObj kvs" "map_of kvs ''key'' = None" using visible_filter_object [OF assms(1)] by blast
  obtain sf where sf: "validate_scope_filter sf0 = Inr sf"
    using assms(1) by (cases "validate_scope_filter sf0") (auto simp: visible_qdrant_filter_def)
  have base: "selected flt r = Some (may_read us ctx sf0 r)"
    using visible_qdrant_selects [where r = r and us = us and ctx = ctx, OF sf assms(2)] assms(1) validate_cases(1) [OF sf] by auto
  have "may_read us ctx sf0 r \<and> (\<forall>p. file_path = Some p \<and> p \<noteq> [] \<longrightarrow> r ''file_path'' = Some (JStr p))"
  proof (cases "file_path = None \<or> file_path = Some []")
    case True
    with assms(3,4) base show ?thesis by (auto simp: selected_def split: option.splits)
  next
    case False
    then obtain p where p: "file_path = Some p" "p \<noteq> []" by auto
    with assms(3,4) have "selected (merge_file_path_filter flt p) r = Some True" by (simp add: selected_def)
    with merged_selects [OF kvs(2), of p r] base p show ?thesis by (auto simp: kvs(1))
  qed
  then show "may_read us ctx sf0 r" and "file_path = Some p \<Longrightarrow> p \<noteq> [] \<Longrightarrow> r ''file_path'' = Some (JStr p)" by auto
qed

lemma retrieved_chunks:
  assumes "store_honours_filters env"
    and "retrieve_document_context env cfg q u sf max_tokens file_path scoped = Inr hits"
  shows "(\<forall>d \<in> set hits. \<exists>p qf. answers env (Some qf) p \<and> dh_id d = p_id p \<and> dh_text d = p_text p \<and>
      may_read (re_users env) (bare_context u) sf (p_fields p) \<and>
      (\<forall>path. file_path = Some path \<and> path \<noteq> [] \<longrightarrow> p_fields p ''file_path'' = Some (JStr path))) \<and>
    length hits \<le> (if scoped then rc_doc_post cfg else rc_top_post cfg) \<and>
    sum_list (map (\<lambda>h. estimate_tokens (dh_text h)) hits) \<le> max 0 (case max_tokens of None \<Rightarrow> rc_max_tokens cfg | Some m \<Rightarrow> m) \<and>
    sorted (map (\<lambda>h. - dh_score h) hits) \<and>
    (\<exists>hs. retrieve_document_context env cfg q u sf max_tokens file_path False = Inr hs)"
proof -
  have total: "\<exists>hs. retrieve_document_context env cfg q u sf max_tokens file_path False = Inr hs"
    by (auto simp: retrieve_document_context_def split: sum.splits)
  show ?thesis
  proof (cases "hits = []")
    case True
    with total show ?thesis by simp
  next
    case False
    with assms(2) have inner: "retrieve_inner env cfg q u sf max_tokens file_path scoped = Inr hits"
      by (auto simp: retrieve_document_context_def split: if_splits sum.splits)
    then show ?thesis
    proof (cases rule: retrieve_inner_cases)
      case (1 flt raw top_pre thr)
      let ?f = "case file_path of None \<Rightarrow> flt | Some p \<Rightarrow> if p = [] then flt else merge_file_path_filter flt p"
      have truthy: "json_truthy ?f"
        using visible_filter_object [OF 1(1)] by (auto simp: merge_file_path_filter_def must_filter_def split: option.splits)
      have "\<exists>p qf. answers env (Some qf) p \<and> dh_id d = p_id p \<and> dh_text d = p_text p \<and>
          may_read (re_users env) (bare_context u) sf (p_fields p) \<and>
          (\<forall>path. file_path = Some path \<and> path \<noteq> [] \<longrightarrow> p_fields p ''file_path'' = Some (JStr path))" if d: "d \<in> set hits" for d
      proof -
        from 1(3) [OF d] obtain h where h: "h \<in> set raw" "stands_for h d" by blast
        from search_answers [OF 1(2) truthy h(1)] obtain qf p where p: "build_filter ?f = Inr qf" "answers env (Some qf) p"
          "p_id h = p_id p" "p_text h = p_text p" "p_fields h = p_fields p" by blast
        have "case Some qf of None \<Rightarrow> True | Some q \<Rightarrow> qmatch q (p_fields p)" and
          m2: "p_fields p ''user_id'' \<noteq> Some (JStr ''__no_shared_access__'')"
          using assms(1) p(2) unfolding store_honours_filters_def by blast+
        then have m: "qmatch qf (p_fields p)" "p_fields p ''user_id'' \<noteq> Some (JStr ''__no_shared_access__'')" by simp_all
        show ?thesis using narrowed_selects [OF 1(1) m(2) p(1) m(1)] p h(2) by (auto simp: stands_for_def)
      qed
      with 1(4-) total show ?thesis by blast
    qed
  qed
qed

lemma retrieved_chunks_are_visible:
  assumes "store_honours_filters env"
    and "retrieve_document_context env cfg q u sf max_tokens file_path scoped = Inr hits"
  shows "\<forall>d \<in> set hits. \<exists>p qf. answers env (Some qf) p \<and> dh_id d = p_id p \<and> dh_text d = p_text p \<and>
      may_read (re_users env) (bare_context u) sf (p_fields p) \<and>
      (\<forall>path. file_path = Some path \<and> path \<noteq> [] \<longrightarrow> p_fields p ''file_path'' = Some (JStr path))"
  using retrieved_chunks [OF assms] by (rule conjunct1)

text \<open>
  C12. What a chat is given from the documents. Every chunk that automatic retrieval returns, with or
  without a reranker and in the fallback when the reranker fails, is the text of a point of the
  store that the visibility rule lets this user read, of the pinned document if there is one;
  there are at most as many chunks as configured, best first, and together they fit the
  token budget. Outside a pinned document the function never raises.
\<close>

theorem retrieved_chunks_are_visible_and_bounded:
  assumes "store_honours_filters env"
    and "retrieve_document_context env cfg q u sf max_tokens file_path scoped = Inr hits"
  shows "(\<forall>d \<in> set hits. \<exists>p qf. answers env (Some qf) p \<and> dh_id d = p_id p \<and> dh_text d = p_text p \<and>
      may_read (re_users env) (bare_context u) sf (p_fields p) \<and>
      (\<forall>path. file_path = Some path \<and> path \<noteq> [] \<longrightarrow> p_fields p ''file_path'' = Some (JStr path))) \<and>
    length hits \<le> (if scoped then rc_doc_post cfg else rc_top_post cfg) \<and>
    sum_list (map (\<lambda>h. estimate_tokens (dh_text h)) hits) \<le> max 0 (case max_tokens of None \<Rightarrow> rc_max_tokens cfg | Some m \<Rightarrow> m) \<and>
    sorted (map (\<lambda>h. - dh_score h) hits) \<and>
    (\<exists>hs. retrieve_document_context env cfg q u sf max_tokens file_path False = Inr hs)"
  using assms by (rule retrieved_chunks)

definition list_store :: "point list \<Rightarrow> query_points" where
  "list_store ps qf limit threshold =
     Some (take limit (filter (\<lambda>p. threshold \<le> p_score p \<and> (case qf of None \<Rightarrow> True | Some q \<Rightarrow> qmatch q (p_fields p))) ps))"

definition sample_point :: "string \<Rightarrow> user_id \<Rightarrow> string \<Rightarrow> rat \<Rightarrow> point" where
  "sample_point i u scope score = \<lparr>p_id = i, p_score = score, p_text = replicate 8 97,
     p_fields = [''user_id'' \<mapsto> JStr u, ''scope'' \<mapsto> JStr scope, ''file_path'' \<mapsto> JStr ''/notes/plan.md'']\<rparr>"

definition sample_retrieval :: retrieval_env where
  "sample_retrieval = \<lparr>re_users = [(''ann'', True), (''bob'', False)], re_embeds = True,
     re_hybrid = list_store [sample_point ''p1'' ''ann'' ''personal'' (9/10), sample_point ''p2'' ''bob'' ''personal'' (8/10)],
     re_dense = list_store [], re_has_words = (\<lambda>q. True), re_reranker = None\<rparr>"

definition sample_rag :: rag_config where
  "sample_rag = \<lparr>rc_enabled = True, rc_top_pre = 20, rc_top_post = 3, rc_doc_pre = 40, rc_doc_post = 12,
     rc_min_rerank = 0, rc_min_bi = 55/100, rc_max_tokens = 512\<rparr>"

lemma sample_store_honours: "store_honours_filters sample_retrieval"
  by (auto simp: store_honours_filters_def answers_def sample_retrieval_def list_store_def sample_point_def
      split: option.splits dest!: in_set_takeD)

lemma sample_retrieves:
  assumes "2 \<le> n"
  shows "\<exists>h. retrieve_document_context sample_retrieval sample_rag ''plan'' ''ann'' None (Some n) None False = Inr [h] \<and> dh_text h = replicate 8 97"
proof -
  let ?p = "with_space ''rrf'' (sample_point ''p1'' ''ann'' ''personal'' (9/10))"
  have search: "qdrant_search sample_retrieval (Some flt) 20 (4/10) ''plan'' = Inr [?p]"
    if "visible_qdrant_filter (re_users sample_retrieval) (bare_context ''ann'') None = Inr flt" for flt
    using that
    by (auto simp: visible_qdrant_filter_def validate_scope_filter_def effective_allows_shared_def get_allows_shared_def
        bare_context_def sample_retrieval_def qdrant_search_def clause_defs should_branch_to_filter_def
        field_condition_from_clause_def list_store_def sample_point_def Let_def)
  have flt: "\<exists>flt. visible_qdrant_filter (re_users sample_retrieval) (bare_context ''ann'') None = Inr flt"
    by (simp add: visible_qdrant_filter_def validate_scope_filter_def Let_def)
  have hits: "\<exists>h. hits_without_rerank [?p] 3 m = Inr [h] \<and> dh_text h = replicate 8 97" for m
    by (simp add: hits_without_rerank_def score_floor_ok_def document_hit_def parse_chunk_index_def sample_point_def)
  have fits: "apply_max_tokens [h] n = [h]" if "dh_text h = replicate 8 97" for h
    using that assms by (simp add: apply_max_tokens_def drop_until_fits.simps estimate_tokens_def is_cjk_def Let_def)
  have env: "re_embeds sample_retrieval = True" "re_reranker sample_retrieval = None" "rc_top_pre sample_rag = 20"
      "rc_top_post sample_rag = 3" "rc_enabled sample_rag = True"
    by (simp_all add: sample_retrieval_def sample_rag_def)
  obtain f where f: "visible_qdrant_filter (re_users sample_retrieval) (bare_context ''ann'') None = Inr f"
    using flt by blast
  obtain h where h: "hits_without_rerank [?p] 3 (rc_min_bi sample_rag) = Inr [h]" "dh_text h = replicate 8 97"
    using hits by blast
  have "retrieve_inner sample_retrieval sample_rag ''plan'' ''ann'' None (Some n) None False = Inr [h]"
    unfolding retrieve_inner_def f sum.case option.case Let_def if_False env simp_thms search [OF f] list.case h(1)
    by (simp add: fits [OF h(2)])
  then show ?thesis using h(2) by (simp add: retrieve_document_context_def env)
qed

theorem retrieved_chunks_are_visible_and_bounded_witness:
  "\<exists>hits. retrieve_document_context sample_retrieval sample_rag ''plan'' ''ann'' None (Some 100) None False = Inr hits \<and>
    hits \<noteq> [] \<and> length hits \<le> 3 \<and>
    (\<forall>d \<in> set hits. \<exists>p :: point. dh_id d = p_id p \<and> may_read (re_users sample_retrieval) (bare_context ''ann'') None (p_fields p))"
proof -
  have env: "re_embeds sample_retrieval = True" "re_reranker sample_retrieval = None" "rc_top_pre sample_rag = 20"
      "rc_top_post sample_rag = 3" "rc_enabled sample_rag = True"
    by (simp_all add: sample_retrieval_def sample_rag_def)
  obtain hits where run: "retrieve_document_context sample_retrieval sample_rag ''plan'' ''ann'' None (Some 100) None False = Inr hits"
      "hits \<noteq> []" using sample_retrieves [of 100] by auto
  note th = retrieved_chunks_are_visible_and_bounded [OF sample_store_honours run(1), unfolded env if_False]
  from th have "\<forall>d \<in> set hits. \<exists>p :: point. dh_id d = p_id p \<and> may_read (re_users sample_retrieval) (bare_context ''ann'') None (p_fields p)"
    by fast
  moreover from th have "length hits \<le> 3" by blast
  ultimately show ?thesis using run by blast
qed

subsection \<open>Semantic search\<close>

record search_result =
  sr_path :: string
  sr_score :: rat
  sr_text :: utext
  sr_meta :: "row option"
  sr_point :: "string option"
  sr_rerank :: "rat option"

text \<open>
  A directory of an ingest root: its path, its files with their sizes (\<open>None\<close> when \<open>stat\<close>
  fails), its subdirectories by name, in the order \<open>os.walk\<close> meets them.
\<close>

datatype dir_tree = DirTree string "(string \<times> nat option) list" "(string \<times> dir_tree) list"

text \<open>\<open>round(size / 1024)\<close>, to even in the middle.\<close>

definition round_kb :: "nat \<Rightarrow> nat" where
  "round_kb n = (let q = n div 1024; r = n mod 1024 in
     if r < 512 then q else if r > 512 then q + 1 else if even q then q else q + 1)"

fun walk :: "dir_tree \<Rightarrow> (string \<times> string \<times> nat) list" where
  "walk (DirTree p files dirs) =
     map (\<lambda>(n, size). (p @ ''/'' @ n, n, case size of None \<Rightarrow> 0 | Some b \<Rightarrow> round_kb b)) files @
     concat (map (\<lambda>(n, d). if starts_with ''.'' n then [] else walk d) dirs)"

text \<open>Roots that are no directories are left out of \<open>roots\<close>.\<close>

definition fuzzy_filename_search :: "dir_tree list \<Rightarrow> string \<Rightarrow> nat \<Rightarrow> (string \<times> string \<times> nat) list" where
  "fuzzy_filename_search roots query limit =
     take (max 1 limit) (filter (\<lambda>(p, n, kb). is_infix_of (py_lower query) (py_lower n)) (concat (map walk roots)))"

definition fuzzy_to_results :: "(string \<times> string \<times> nat) list \<Rightarrow> nat \<Rightarrow> search_result list" where
  "fuzzy_to_results hits limit =
     map (\<lambda>(p, n, kb). \<lparr>sr_path = p, sr_score = 0, sr_text = cps (''File: '' @ n @ '' ('' @ show_nat kb @ '' KB)''),
       sr_meta = None, sr_point = None, sr_rerank = None\<rparr>) (take limit hits)"

definition chunk_result :: "raw_hit \<Rightarrow> rat option \<Rightarrow> search_result" where
  "chunk_result h rr = \<lparr>sr_path = text_field (p_fields h) ''file_path'', sr_score = p_score h, sr_text = p_text h,
     sr_meta = Some (p_fields h), sr_point = Some (p_id h), sr_rerank = rr\<rparr>"

definition semantic_search ::
  "retrieval_env \<Rightarrow> dir_tree list \<Rightarrow> string \<Rightarrow> nat \<Rightarrow> user_id \<Rightarrow> string option \<Rightarrow> retrieval_error + search_result list" where
  "semantic_search env roots query limit u sf =
     (if \<not> re_embeds env then Inl EmbedFailed
      else case visible_qdrant_filter (re_users env) (bare_context u) sf of
        Inl e \<Rightarrow> Inl (ScopeRefused e)
      | Inr flt \<Rightarrow>
          (case qdrant_search env (Some flt) 20 (4 / 10) query of
             Inl e \<Rightarrow> Inl e
           | Inr [] \<Rightarrow> Inr (fuzzy_to_results (fuzzy_filename_search roots query 10) limit)
           | Inr raw \<Rightarrow>
               (case re_reranker env of
                  None \<Rightarrow> Inr (map (\<lambda>h. chunk_result h None) (take limit raw))
                | Some enc \<Rightarrow>
                    (case bge_rerank enc query raw limit of
                       None \<Rightarrow> Inl StoreFailed
                     | Some ranked \<Rightarrow> Inr (map (\<lambda>(h, s). chunk_result h (Some s)) ranked)))))"

lemma semantic_search_nothing:
  assumes "re_embeds env" and "visible_qdrant_filter (re_users env) (bare_context u) sf = Inr flt"
    and "qdrant_search env (Some flt) 20 (4 / 10) query = Inr []"
  shows "semantic_search env roots query limit u sf = Inr (fuzzy_to_results (fuzzy_filename_search roots query 10) limit)"
  using assms by (simp add: semantic_search_def)

text \<open>
  Semantic search keeps to the visibility rule as long as the store finds something: every
  chunk it returns, reranked or not, is a point that the user may read, and no more than the
  limit are returned. When the store finds nothing for the user, it answers with the names,
  paths and sizes of the files under the ingest roots, and that answer is the same for every
  user and scope: what one user may not read shows by its name to all others.
\<close>

theorem search_leaves_visibility_when_nothing_is_found:
  assumes "store_honours_filters env" and "semantic_search env roots query limit u sf = Inr results"
  shows "(\<exists>flt. visible_qdrant_filter (re_users env) (bare_context u) sf = Inr flt \<and>
      ((\<exists>raw. qdrant_search env (Some flt) 20 (4 / 10) query = Inr raw \<and> raw \<noteq> [] \<and>
         (\<forall>r \<in> set results. \<exists>p qf. answers env (Some qf) p \<and> sr_point r = Some (p_id p) \<and> sr_text r = p_text p \<and>
            may_read (re_users env) (bare_context u) sf (p_fields p))) \<or>
       (qdrant_search env (Some flt) 20 (4 / 10) query = Inr [] \<and>
         results = fuzzy_to_results (fuzzy_filename_search roots query 10) limit))) \<and>
    length results \<le> limit"
proof -
  from assms(2) obtain flt where flt: "visible_qdrant_filter (re_users env) (bare_context u) sf = Inr flt"
    by (auto simp: semantic_search_def split: if_splits sum.splits)
  from assms(2) flt obtain raw where raw: "qdrant_search env (Some flt) 20 (4 / 10) query = Inr raw"
    by (auto simp: semantic_search_def split: if_splits sum.splits)
  show ?thesis
  proof (cases raw)
    case Nil
    with assms(2) flt raw have "results = fuzzy_to_results (fuzzy_filename_search roots query 10) limit"
      by (auto simp: semantic_search_def split: if_splits)
    moreover from this have "length results \<le> limit" by (simp add: fuzzy_to_results_def)
    ultimately show ?thesis using flt raw Nil by blast
  next
    case (Cons h0 hs)
    have res: "length results \<le> limit \<and> (\<forall>r \<in> set results. \<exists>h rr. h \<in> set raw \<and> r = chunk_result h rr)"
    proof (cases "re_reranker env")
      case None
      with assms(2) flt raw Cons have "results = map (\<lambda>h. chunk_result h None) (take limit raw)"
        by (auto simp: semantic_search_def split: if_splits)
      then show ?thesis by (auto dest: in_set_takeD)
    next
      case (Some enc)
      with assms(2) flt raw Cons obtain ranked where ranked: "bge_rerank enc query raw limit = Some ranked"
          "results = map (\<lambda>(h, s). chunk_result h (Some s)) ranked"
        by (auto simp: semantic_search_def split: if_splits option.splits)
      then have "length ranked \<le> limit" by (auto simp: bge_rerank_def split: if_splits option.splits)
      with ranked bge_rerank_subset [OF ranked(1)] show ?thesis by (force split: prod.splits)
    qed
    have truthy: "json_truthy flt" using visible_filter_object [OF flt] by auto
    have "\<exists>p qf. answers env (Some qf) p \<and> sr_point r = Some (p_id p) \<and> sr_text r = p_text p \<and>
        may_read (re_users env) (bare_context u) sf (p_fields p)" if r: "r \<in> set results" for r
    proof -
      from res r obtain h rr where h: "h \<in> set raw" "r = chunk_result h rr" by blast
      from search_answers [OF raw truthy h(1)] obtain qf p where p: "build_filter flt = Inr qf" "answers env (Some qf) p"
        "p_id h = p_id p" "p_text h = p_text p" "p_fields h = p_fields p" by blast
      have "case Some qf of None \<Rightarrow> True | Some q \<Rightarrow> qmatch q (p_fields p)" and
        m2: "p_fields p ''user_id'' \<noteq> Some (JStr ''__no_shared_access__'')"
        using assms(1) p(2) unfolding store_honours_filters_def by blast+
      then have "may_read (re_users env) (bare_context u) sf (p_fields p)"
        using narrowed_selects(1) [where r = "p_fields p" and file_path = None, OF flt m2] p(1) by simp
      with p h(2) show ?thesis by (auto simp: chunk_result_def)
    qed
    with res flt raw Cons show ?thesis by blast
  qed
qed

theorem search_leaves_visibility_when_nothing_is_found_witness:
  "\<exists>results. semantic_search sample_retrieval [DirTree ''/data'' [(''Divorce.pdf'', Some 2048)] []] ''divorce'' 5 ''carl'' None = Inr results \<and>
     map sr_path results = [''/data/Divorce.pdf'']"
proof -
  let ?roots = "[DirTree ''/data'' [(''Divorce.pdf'', Some 2048)] []]"
  have "\<exists>f. visible_qdrant_filter (re_users sample_retrieval) (bare_context ''carl'') None = Inr f"
    by (simp add: visible_qdrant_filter_def validate_scope_filter_def Let_def)
  then obtain f where f: "visible_qdrant_filter (re_users sample_retrieval) (bare_context ''carl'') None = Inr f" by blast
  have empty: "qdrant_search sample_retrieval (Some f) 20 (4 / 10) ''divorce'' = Inr []"
    using f
    by (auto simp: visible_qdrant_filter_def validate_scope_filter_def effective_allows_shared_def get_allows_shared_def
        bare_context_def sample_retrieval_def qdrant_search_def clause_defs should_branch_to_filter_def
        field_condition_from_clause_def list_store_def sample_point_def Let_def)
  have "re_embeds sample_retrieval" by (simp add: sample_retrieval_def)
  from semantic_search_nothing [OF this f empty]
  obtain results where run: "semantic_search sample_retrieval ?roots ''divorce'' 5 ''carl'' None = Inr results" by blast
  have "results = fuzzy_to_results (fuzzy_filename_search ?roots ''divorce'' 10) 5"
    using search_leaves_visibility_when_nothing_is_found [OF sample_store_honours run] f empty by auto
  moreover have "map sr_path (fuzzy_to_results (fuzzy_filename_search ?roots ''divorce'' 10) 5) = [''/data/Divorce.pdf'']"
    by code_simp
  ultimately show ?thesis using run by simp
qed

subsection \<open>The document of a pinned chat\<close>

record file_row =
  fr_id :: int
  fr_path :: string
  fr_columns :: row

datatype document_error = DocumentIdNotPositive | DocumentNotFound int

definition resolve_document_file_path ::
  "user_flags \<Rightarrow> file_row list \<Rightarrow> user_context \<Rightarrow> int \<Rightarrow> document_error + string" where
  "resolve_document_file_path us rows ctx i =
     (if i \<le> 0 then Inl DocumentIdNotPositive
      else case find (\<lambda>r. fr_id r = i \<and> cond_holds (visible_cond us ctx None) (fr_columns r)) rows of
        None \<Rightarrow> Inl (DocumentNotFound i)
      | Some r \<Rightarrow> if fr_path r = [] then Inl (DocumentNotFound i) else Inr (fr_path r))"

text \<open>A chat can only be pinned to a document its user may read.\<close>

lemma resolved_document_visible:
  assumes "resolve_document_file_path us rows ctx i = Inr path"
  shows "\<exists>r \<in> set rows. fr_id r = i \<and> fr_path r = path \<and> may_read us ctx None (fr_columns r)"
proof -
  have "validate_scope_filter None = Inr None" by (simp add: validate_scope_filter_def)
  with assms show ?thesis
    by (auto simp: resolve_document_file_path_def visible_cond_rule find_Some_iff split: if_splits option.splits)
qed

end
