(* ===== verification/JsonText.thy ===== *)
theory JsonText
  imports Prelude
begin

section \<open>Reading and writing JSON\<close>

text \<open>
  The part of Python's \<open>json\<close> that the encrypted payloads go through: \<open>json.dumps\<close> with
  \<open>sort_keys=True\<close> and \<open>ensure_ascii=False\<close>, the UTF-8 codec, and \<open>json.loads\<close>. Numbers are
  integers (a fraction or an exponent is refused here) and characters are below code point 256,
  as everywhere in the development; what would leave these domains is the error value.
  The parser takes fuel; \<open>loads\<close> gives it one more than the length of the text, and more fuel
  changes nothing (\<open>value_fuel\<close>).
\<close>

definition dq :: char where
  "dq = CHR 0x22"

definition bslash :: char where
  "bslash = CHR 0x5C"

lemma special_chars: "dq = char_of (34::nat)" "bslash = char_of (92::nat)"
proof -
  have "code_point dq = 34" "code_point bslash = 92" by (simp_all add: dq_def bslash_def code_point_def)
  then show "dq = char_of (34::nat)" "bslash = char_of (92::nat)" by (metis code_point_def char_of_char)+
qed

subsection \<open>Writing\<close>

definition escape_raw :: "char \<Rightarrow> string" where
  "escape_raw c = (let n = code_point c in
     if n = 34 \<or> n = 92 then [bslash, c]
     else if n = 10 then [bslash, CHR ''n'']
     else if n = 13 then [bslash, CHR ''r'']
     else if n = 9 then [bslash, CHR ''t'']
     else if n = 8 then [bslash, CHR ''b'']
     else if n = 12 then [bslash, CHR ''f'']
     else if n < 32 then [bslash, CHR ''u'', CHR ''0'', CHR ''0'', hex_digit (n div 16), hex_digit (n mod 16)]
     else [c])"

definition quoted_raw :: "string \<Rightarrow> string" where
  "quoted_raw s = dq # concat (map escape_raw s) @ [dq]"

fun dumps_raw :: "json \<Rightarrow> string" where
  "dumps_raw JNull = ''null''"
| "dumps_raw (JBool b) = (if b then ''true'' else ''false'')"
| "dumps_raw (JInt i) = show_int i"
| "dumps_raw (JStr s) = quoted_raw s"
| "dumps_raw (JList xs) = CHR ''['' # join '', '' (map dumps_raw xs) @ '']''"
| "dumps_raw (JObj kvs) = CHR ''{'' # join '', '' (map (\<lambda>(k, v). quoted_raw k @ '': '' @ dumps_raw v) kvs) @ ''}''"

text \<open>\<open>sort_keys\<close>: the items of every dictionary in the order of their keys.\<close>

fun sort_keys :: "json \<Rightarrow> json" where
  "sort_keys (JList xs) = JList (map sort_keys xs)"
| "sort_keys (JObj kvs) = JObj (sort_key fst (map (\<lambda>(k, v). (k, sort_keys v)) kvs))"
| "sort_keys v = v"

subsection \<open>Reading\<close>

definition json_ws :: "char \<Rightarrow> bool" where
  "json_ws c \<longleftrightarrow> code_point c \<in> {9, 10, 13, 32}"

definition skip_ws :: "string \<Rightarrow> string" where
  "skip_ws s = dropWhile json_ws s"

definition hex_value :: "char \<Rightarrow> nat option" where
  "hex_value c = (let n = code_point c in
     if 48 \<le> n \<and> n \<le> 57 then Some (n - 48)
     else if 97 \<le> n \<and> n \<le> 102 then Some (n - 87)
     else if 65 \<le> n \<and> n \<le> 70 then Some (n - 55)
     else None)"

definition hex4 :: "char \<Rightarrow> char \<Rightarrow> char \<Rightarrow> char \<Rightarrow> char option" where
  "hex4 a b c d =
     (case (hex_value a, hex_value b, hex_value c, hex_value d) of
        (Some x, Some y, Some z, Some w) \<Rightarrow>
          if x = 0 \<and> y = 0 then Some (char_of (16 * z + w)) else None
      | _ \<Rightarrow> None)"

definition simple_escape :: "char \<Rightarrow> char option" where
  "simple_escape e =
     (if e = dq then Some dq else if e = bslash then Some bslash else if e = CHR ''/'' then Some (CHR ''/'')
      else if e = CHR ''b'' then Some (char_of (8::nat)) else if e = CHR ''f'' then Some (char_of (12::nat))
      else if e = CHR ''n'' then Some (char_of (10::nat)) else if e = CHR ''r'' then Some (char_of (13::nat))
      else if e = CHR ''t'' then Some (char_of (9::nat)) else None)"

text \<open>The rest of a string after its opening quote, with what follows the closing one.\<close>

fun scan_string :: "string \<Rightarrow> (string \<times> string) option" where
  "scan_string [] = None"
| "scan_string (c # cs) =
     (if c = dq then Some ([], cs)
      else if c = bslash then
        (case cs of
           [] \<Rightarrow> None
         | e # r \<Rightarrow>
             if e = CHR ''u'' then
               (case r of
                  h1 # h2 # h3 # h4 # r' \<Rightarrow>
                    (case hex4 h1 h2 h3 h4 of
                       None \<Rightarrow> None
                     | Some x \<Rightarrow> map_option (\<lambda>(t, q). (x # t, q)) (scan_string r'))
                | _ \<Rightarrow> None)
             else
               (case simple_escape e of
                  None \<Rightarrow> None
                | Some x \<Rightarrow> map_option (\<lambda>(t, q). (x # t, q)) (scan_string r)))
      else if code_point c < 32 then None
      else map_option (\<lambda>(t, q). (c # t, q)) (scan_string cs))"

definition digits_value :: "string \<Rightarrow> nat" where
  "digits_value ds = foldl (\<lambda>acc c. acc * 10 + (code_point c - 48)) 0 ds"

text \<open>An integer: no leading zeros, no fraction, no exponent.\<close>

definition scan_nat :: "string \<Rightarrow> (nat \<times> string) option" where
  "scan_nat s =
     (let ds = takeWhile is_digit s; r = dropWhile is_digit s in
      if ds = [] then None
      else
        let (n, rest) = (if hd ds = CHR ''0'' then (0, tl s) else (digits_value ds, r)) in
        if (case rest of c # d # _ \<Rightarrow> c = CHR ''.'' \<and> is_digit d | _ \<Rightarrow> False) \<or>
           (case rest of c # _ \<Rightarrow> c = CHR ''e'' \<or> c = CHR ''E'' | _ \<Rightarrow> False) then None
        else Some (n, rest))"

definition scan_int :: "string \<Rightarrow> (int \<times> string) option" where
  "scan_int s =
     (case s of
        [] \<Rightarrow> None
      | c # cs \<Rightarrow>
          if c = CHR ''-'' then map_option (\<lambda>(n, r). (- int n, r)) (scan_nat cs)
          else map_option (\<lambda>(n, r). (int n, r)) (scan_nat s))"

definition strip_prefix :: "string \<Rightarrow> string \<Rightarrow> string option" where
  "strip_prefix p s = (if starts_with p s then Some (drop (length p) s) else None)"

fun read_value :: "nat \<Rightarrow> string \<Rightarrow> (json \<times> string) option"
  and read_elements :: "nat \<Rightarrow> string \<Rightarrow> (json list \<times> string) option"
  and read_members :: "nat \<Rightarrow> json_obj \<Rightarrow> string \<Rightarrow> (json_obj \<times> string) option" where
  "read_value 0 s = None"
| "read_value (Suc n) s =
     (case s of
        [] \<Rightarrow> None
      | c # cs \<Rightarrow>
          if c = dq then map_option (\<lambda>(t, r). (JStr t, r)) (scan_string cs)
          else if c = CHR ''{'' then
            (case skip_ws cs of
               [] \<Rightarrow> None
             | d # r \<Rightarrow> if d = CHR ''}'' then Some (JObj [], r)
                 else map_option (\<lambda>(kvs, r). (JObj kvs, r)) (read_members n [] (d # r)))
          else if c = CHR ''['' then
            (case skip_ws cs of
               [] \<Rightarrow> None
             | d # r \<Rightarrow> if d = CHR '']'' then Some (JList [], r)
                 else map_option (\<lambda>(xs, r). (JList xs, r)) (read_elements n (d # r)))
          else
            (case strip_prefix ''null'' s of Some r \<Rightarrow> Some (JNull, r) | None \<Rightarrow>
             (case strip_prefix ''true'' s of Some r \<Rightarrow> Some (JBool True, r) | None \<Rightarrow>
              (case strip_prefix ''false'' s of Some r \<Rightarrow> Some (JBool False, r) | None \<Rightarrow>
               map_option (\<lambda>(i, r). (JInt i, r)) (scan_int s)))))"
| "read_elements 0 s = None"
| "read_elements (Suc n) s =
     (case read_value n s of
        None \<Rightarrow> None
      | Some (v, r) \<Rightarrow>
          (case skip_ws r of
             [] \<Rightarrow> None
           | c # r' \<Rightarrow>
               if c = CHR '']'' then Some ([v], r')
               else if c = CHR '','' then map_option (\<lambda>(vs, q). (v # vs, q)) (read_elements n (skip_ws r'))
               else None))"
| "read_members 0 d s = None"
| "read_members (Suc n) d s =
     (case s of
        [] \<Rightarrow> None
      | c # cs \<Rightarrow>
          if c \<noteq> dq then None
          else
            (case scan_string cs of
               None \<Rightarrow> None
             | Some (k, r1) \<Rightarrow>
                 (case skip_ws r1 of
                    [] \<Rightarrow> None
                  | e # r2 \<Rightarrow>
                      if e \<noteq> CHR '':'' then None
                      else
                        (case read_value n (skip_ws r2) of
                           None \<Rightarrow> None
                         | Some (v, r3) \<Rightarrow>
                             (case skip_ws r3 of
                                [] \<Rightarrow> None
                              | f # r4 \<Rightarrow>
                                  if f = CHR ''}'' then Some (dict_set k v d, r4)
                                  else if f = CHR '','' then read_members n (dict_set k v d) (skip_ws r4)
                                  else None)))))"

definition loads :: "string \<Rightarrow> json option" where
  "loads s =
     (case read_value (Suc (length s)) (skip_ws s) of
        None \<Rightarrow> None
      | Some (v, r) \<Rightarrow> if skip_ws r = [] then Some v else None)"

subsection \<open>The UTF-8 codec\<close>

definition utf8_char :: "char \<Rightarrow> string" where
  "utf8_char c = (let n = code_point c in
     if n < 128 then [c] else [char_of (192 + n div 64), char_of (128 + n mod 64)])"

definition utf8_encode :: "string \<Rightarrow> string" where
  "utf8_encode s = concat (map utf8_char s)"

fun utf8_decode :: "string \<Rightarrow> string option" where
  "utf8_decode [] = Some []"
| "utf8_decode (c # cs) =
     (let n = code_point c in
      if n < 128 then map_option ((#) c) (utf8_decode cs)
      else if n = 194 \<or> n = 195 then
        (case cs of
           [] \<Rightarrow> None
         | d # ds \<Rightarrow>
             let m = code_point d in
             if 128 \<le> m \<and> m < 192 then map_option ((#) (char_of (64 * (n - 192) + (m - 128)))) (utf8_decode ds)
             else None)
      else None)"


subsection \<open>Strings read back\<close>

lemma dq_neq_bslash [simp]: "dq \<noteq> bslash" "bslash \<noteq> dq"
  by (simp_all add: dq_def bslash_def)

lemma code_point_less: "code_point c < 256"
  unfolding code_point_def by (metis of_char_mod_256 mod_less_divisor zero_less_numeral)

lemma char_of_code_point [simp]: "char_of (code_point c) = c"
  by (simp add: code_point_def)

lemma code_point_char_of: "n < 256 \<Longrightarrow> code_point (char_of n) = n"
  by (simp add: code_point_def)

lemma code_point_eq: "code_point c = code_point d \<longleftrightarrow> c = d"
  by (simp add: code_point_def)

lemma hex_value_digit: "n < 16 \<Longrightarrow> hex_value (hex_digit n) = Some n"
  by (simp add: hex_value_def hex_digit_def code_point_char_of)

lemma simple_escapes [simp]:
  "simple_escape dq = Some dq" "simple_escape bslash = Some bslash"
  "simple_escape (CHR ''n'') = Some (char_of (10::nat))" "simple_escape (CHR ''r'') = Some (char_of (13::nat))"
  "simple_escape (CHR ''t'') = Some (char_of (9::nat))" "simple_escape (CHR ''b'') = Some (char_of (8::nat))"
  "simple_escape (CHR ''f'') = Some (char_of (12::nat))"
  by (simp_all add: simple_escape_def dq_def bslash_def)

lemma escape_letters [simp]: "dq \<noteq> CHR ''u''" "bslash \<noteq> CHR ''u''" "CHR ''u'' \<noteq> dq"
  by (simp_all add: dq_def bslash_def)

lemma scan_escape:
  "scan_string (escape_raw c @ t) = map_option (\<lambda>(u, q). (c # u, q)) (scan_string t)"
proof -
  let ?n = "code_point c"
  have c: "c = char_of ?n" by simp
  consider "?n = 34" | "?n = 92" | "?n = 10" | "?n = 13" | "?n = 9" | "?n = 8" | "?n = 12"
    | (low) "?n < 32" "?n \<notin> {10, 13, 9, 8, 12}" | (plain) "32 \<le> ?n" "?n \<noteq> 34" "?n \<noteq> 92"
    by fastforce
  then show ?thesis
  proof cases
    case low
    then have "hex_value (hex_digit (?n div 16)) = Some (?n div 16)" "hex_value (hex_digit (?n mod 16)) = Some (?n mod 16)"
      by (simp_all add: hex_value_digit)
    moreover have "hex_value (CHR ''0'') = Some 0" by (simp add: hex_value_def code_point_def)
    ultimately have "hex4 (CHR ''0'') (CHR ''0'') (hex_digit (?n div 16)) (hex_digit (?n mod 16)) = Some c"
      by (simp add: hex4_def)
    with low show ?thesis by (simp add: escape_raw_def Let_def)
  next
    case plain
    then have "c \<noteq> dq" "c \<noteq> bslash" by (auto simp: dq_def bslash_def code_point_def)
    with plain show ?thesis by (simp add: escape_raw_def Let_def)
  qed (use c in \<open>auto simp: escape_raw_def Let_def special_chars [symmetric]\<close>)
qed

lemma scan_quoted: "scan_string (concat (map escape_raw s) @ dq # rest) = Some (s, rest)"
  by (induction s) (simp_all add: scan_escape)

subsection \<open>Integers read back\<close>

lemma show_nat_digits: "c \<in> set (show_nat n) \<Longrightarrow> is_digit c"
proof (induction n rule: show_nat.induct)
  case (1 n)
  show ?case
  proof (cases "n < 10")
    case True
    with 1 show ?thesis by (simp add: show_nat.simps [of n] is_digit_def code_point_char_of)
  next
    case False
    have "n mod 10 < 10" by simp
    with 1 False show ?thesis by (auto simp: show_nat.simps [of n] is_digit_def code_point_char_of)
  qed
qed

lemma digits_value_snoc: "digits_value (ds @ [c]) = digits_value ds * 10 + (code_point c - 48)"
  by (simp add: digits_value_def)

lemma digits_value_show: "digits_value (show_nat n) = n"
proof (induction n rule: show_nat.induct)
  case (1 n)
  have "n mod 10 < 10" by simp
  with 1 show ?case
    by (cases "n < 10")
      (simp_all add: show_nat.simps [of n] digits_value_snoc code_point_char_of, simp add: digits_value_def code_point_char_of)
qed

lemma show_nat_nonempty [simp]: "show_nat n \<noteq> []"
  by (simp add: show_nat.simps [of n])

lemma char_zero: "char_of (48::nat) = CHR ''0''"
proof -
  have "code_point (CHR ''0'') = 48" by (simp add: code_point_def)
  then show ?thesis by (metis char_of_code_point)
qed

lemma show_nat_head: "hd (show_nat n) = CHR ''0'' \<longleftrightarrow> n = 0"
proof (induction n rule: show_nat.induct)
  case (1 n)
  show ?case
  proof (cases "n < 10")
    case True
    then have "code_point (char_of (48 + n)) = 48 + n" by (simp add: code_point_char_of)
    moreover have "code_point (CHR ''0'') = 48" by (simp add: code_point_def)
    ultimately have "char_of (48 + n) = CHR ''0'' \<longleftrightarrow> n = 0" by (metis add_cancel_right_right char_of_code_point)
    then show ?thesis using True by (simp add: show_nat.simps [of n])
  next
    case False
    with 1 show ?thesis by (simp add: show_nat.simps [of n] hd_append)
  qed
qed

definition after_value :: "string \<Rightarrow> bool" where
  "after_value rest \<longleftrightarrow> (case rest of [] \<Rightarrow> True | c # _ \<Rightarrow> c = CHR '','' \<or> c = CHR '']'' \<or> c = CHR ''}'')"

lemma after_value_simps [simp]:
  "after_value []" "after_value (CHR '','' # r)" "after_value (CHR '']'' # r)" "after_value (CHR ''}'' # r)"
  by (simp_all add: after_value_def)

lemma scan_nat_show:
  assumes "after_value rest"
  shows "scan_nat (show_nat n @ rest) = Some (n, rest)"
proof -
  have stop: "takeWhile is_digit rest = []" "dropWhile is_digit rest = rest"
    using assms by (cases rest; auto simp: after_value_def is_digit_def code_point_def)+
  have all: "\<forall>c \<in> set (show_nat n). is_digit c" using show_nat_digits by blast
  then have ds: "takeWhile is_digit (show_nat n @ rest) = show_nat n" "dropWhile is_digit (show_nat n @ rest) = rest"
    using stop by (simp_all add: takeWhile_append2 dropWhile_append2)
  have no_frac: "\<not> (case rest of c # d # _ \<Rightarrow> c = CHR ''.'' \<and> is_digit d | _ \<Rightarrow> False)"
    "\<not> (case rest of c # _ \<Rightarrow> c = CHR ''e'' \<or> c = CHR ''E'' | _ \<Rightarrow> False)"
    using assms by (auto simp: after_value_def split: list.splits)
  show ?thesis
  proof (cases "n = 0")
    case True
    then have "show_nat n = ''0''" by (simp add: show_nat.simps char_zero)
    then show ?thesis using ds no_frac True by (simp add: scan_nat_def)
  next
    case False
    then show ?thesis using ds no_frac by (simp add: scan_nat_def show_nat_head digits_value_show)
  qed
qed

lemma digit_not_minus: "is_digit c \<Longrightarrow> c \<noteq> CHR ''-''"
  by (auto simp: is_digit_def code_point_def)

lemma scan_int_show:
  assumes "after_value rest"
  shows "scan_int (show_int i @ rest) = Some (i, rest)"
proof (cases "i < 0")
  case True
  then show ?thesis using scan_nat_show [OF assms, of "nat (- i)"] by (simp add: scan_int_def show_int_def)
next
  case False
  obtain c cs where s: "show_nat (nat i) = c # cs" using show_nat_nonempty by (cases "show_nat (nat i)") auto
  then have "c \<noteq> CHR ''-''" using show_nat_digits [of c "nat i"] digit_not_minus by simp
  then show ?thesis using False s scan_nat_show [OF assms, of "nat i"] by (simp add: scan_int_def show_int_def)
qed


lemma dq_brackets [simp]: "CHR ''{'' \<noteq> dq" "CHR ''['' \<noteq> dq" "dq \<noteq> CHR ''}''" "dq \<noteq> CHR ''{''"
  by (simp_all add: dq_def)

subsection \<open>Values read back\<close>

text \<open>Every dictionary has distinct keys.\<close>

fun distinct_keys :: "json \<Rightarrow> bool" where
  "distinct_keys (JList xs) = list_all distinct_keys xs"
| "distinct_keys (JObj kvs) = (distinct (map fst kvs) \<and> list_all (\<lambda>(k, v). distinct_keys v) kvs)"
| "distinct_keys v = True"

lemma show_int_head: "\<exists>c cs. show_int i = c # cs \<and> (c = CHR ''-'' \<or> is_digit c)"
proof (cases "i < 0")
  case False
  obtain c cs where "show_nat (nat i) = c # cs" using show_nat_nonempty by (cases "show_nat (nat i)") auto
  with False show_nat_digits [of c "nat i"] show ?thesis by (simp add: show_int_def)
qed (simp add: show_int_def)

lemma head_classes:
  "c = CHR ''-'' \<or> is_digit c \<Longrightarrow> c \<noteq> dq \<and> c \<noteq> CHR ''{'' \<and> c \<noteq> CHR ''['' \<and> c \<noteq> CHR ''n'' \<and>
    c \<noteq> CHR ''t'' \<and> c \<noteq> CHR ''f'' \<and> \<not> json_ws c \<and> c \<noteq> CHR '']'' \<and> c \<noteq> CHR ''}''"
  by (auto simp: is_digit_def code_point_def dq_def json_ws_def)

lemma dumps_head: "\<exists>c cs. dumps_raw v = c # cs \<and> \<not> json_ws c \<and> c \<noteq> CHR '']''"
proof (cases v)
  case (JInt i)
  then show ?thesis using show_int_head [of i] head_classes by fastforce
qed (auto simp: json_ws_def code_point_def quoted_raw_def dq_def)

lemma skip_ws_head: "\<not> json_ws c \<Longrightarrow> skip_ws (c # cs) = c # cs"
  by (simp add: skip_ws_def)

lemma skip_ws_dumps [simp]: "skip_ws (dumps_raw v @ rest) = dumps_raw v @ rest"
  using dumps_head [of v] by (auto simp: skip_ws_head)

lemma separators [simp]:
  "skip_ws (CHR '','' # r) = CHR '','' # r" "skip_ws (CHR '']'' # r) = CHR '']'' # r"
  "skip_ws (CHR ''}'' # r) = CHR ''}'' # r" "skip_ws (CHR '':'' # r) = CHR '':'' # r"
  "skip_ws (CHR '' '' # r) = skip_ws r" "skip_ws (dq # r) = dq # r"
  by (simp_all add: skip_ws_def json_ws_def code_point_def dq_def)

lemma read_int: "after_value rest \<Longrightarrow> read_value (Suc n) (show_int i @ rest) = Some (JInt i, rest)"
proof -
  assume rest: "after_value rest"
  obtain c cs where s: "show_int i = c # cs" "c = CHR ''-'' \<or> is_digit c" using show_int_head by blast
  have "strip_prefix ''null'' (show_int i @ rest) = None" "strip_prefix ''true'' (show_int i @ rest) = None"
    "strip_prefix ''false'' (show_int i @ rest) = None"
    using s head_classes [OF s(2)] by (auto simp: strip_prefix_def starts_with_def)
  with s head_classes [OF s(2)] scan_int_show [OF rest, of i] show ?thesis by simp
qed

lemma dict_set_fresh: "k \<notin> fst ` set d \<Longrightarrow> dict_set k v d = d @ [(k, v)]"
  by (induction k v d rule: dict_set.induct) auto

definition elements_text :: "json list \<Rightarrow> string" where
  "elements_text xs = join '', '' (map dumps_raw xs) @ '']''"

definition members_text :: "json_obj \<Rightarrow> string" where
  "members_text kvs = join '', '' (map (\<lambda>(k, v). quoted_raw k @ '': '' @ dumps_raw v) kvs) @ ''}''"

lemma elements_text_simps:
  "elements_text [x] = dumps_raw x @ '']''"
  "elements_text (x # y # ys) = dumps_raw x @ '', '' @ elements_text (y # ys)"
  by (simp_all add: elements_text_def)

lemma members_text_simps:
  "members_text [(k, v)] = quoted_raw k @ '': '' @ dumps_raw v @ ''}''"
  "members_text ((k, v) # m # ms) = quoted_raw k @ '': '' @ dumps_raw v @ '', '' @ members_text (m # ms)"
  by (simp_all add: members_text_def)

lemma elements_head: "xs \<noteq> [] \<Longrightarrow> skip_ws (elements_text xs @ rest) = elements_text xs @ rest"
  by (cases xs rule: remdups_adj.cases) (simp_all add: elements_text_simps)

lemma members_head: "kvs \<noteq> [] \<Longrightarrow> \<exists>t. members_text kvs = dq # t"
  by (cases kvs rule: remdups_adj.cases) (auto simp: members_text_simps quoted_raw_def)

text \<open>Enough fuel is the length of the text: every reading consumes a character.\<close>

lemma read_dumps:
  "distinct_keys v \<Longrightarrow> length (dumps_raw v) \<le> n \<Longrightarrow> after_value rest \<Longrightarrow>
     read_value (Suc n) (dumps_raw v @ rest) = Some (v, rest)"
proof (induction "size v" arbitrary: v n rest rule: less_induct)
  case less
  have smaller: "read_value n (dumps_raw w @ r) = Some (w, r)"
    if "size w < size v" "distinct_keys w" "length (dumps_raw w) < n" "after_value r" for w n r
    using less(1) [OF that(1,2), of "n - 1" r] that(3,4) by (cases n) auto
  show ?case
  proof (cases v)
    case (JInt i)
    with read_int [OF less(4), of n i] show ?thesis by (simp del: read_value.simps)
  next
    case (JStr s)
    then show ?thesis by (simp add: quoted_raw_def scan_quoted)
  next
    case (JList xs)
    have smaller_elem: "size x < size v" "distinct_keys x" if "x \<in> set xs" for x
      using that JList less(2) size_list_estimation [of x xs "size x" size]
      by (auto simp: list_all_iff dest: size_list_estimation' [of x xs "size x" size])
    have elements: "read_elements m (elements_text ys @ r) = Some (ys, r)"
      if "ys \<noteq> []" "set ys \<subseteq> set xs" "length (elements_text ys) < m" for ys m r
      using that
    proof (induction ys arbitrary: m rule: induct_list012)
      case 1
      then show ?case by simp
    next
      case (2 x)
      then obtain k where m: "m = Suc k" by (cases m) auto
      from 2 have "read_value k (dumps_raw x @ '']'' @ r) = Some (x, '']'' @ r)"
        by (intro smaller smaller_elem) (auto simp: m elements_text_simps)
      then show ?case by (simp add: m elements_text_simps)
    next
      case (3 x y ys)
      then obtain k where m: "m = Suc k" by (cases m) auto
      let ?t = "elements_text (y # ys) @ r"
      from 3 have "read_value k (dumps_raw x @ '', '' @ ?t) = Some (x, '', '' @ ?t)"
        by (intro smaller smaller_elem) (auto simp: m elements_text_simps)
      moreover have "read_elements k ?t = Some (y # ys, r)"
        using 3 by (intro 3(2)) (auto simp: m elements_text_simps)
      moreover have "skip_ws ?t = ?t" by (rule elements_head) simp
      ultimately show ?case by (simp add: m elements_text_simps)
    qed
    show ?thesis
    proof (cases "xs = []")
      case True
      with JList show ?thesis by (simp add: dq_def)
    next
      case False
      obtain c t where c: "elements_text xs @ rest = c # t" "c \<noteq> CHR '']''"
        using False dumps_head [of "hd xs"] by (cases xs rule: remdups_adj.cases) (auto simp: elements_text_simps)
      have shape: "dumps_raw v = CHR ''['' # elements_text xs" by (simp add: JList elements_text_def)
      have "read_elements n (c # t) = Some (xs, rest)"
        using elements [of xs n rest] False less(3) by (simp add: shape flip: c(1))
      moreover have "skip_ws (elements_text xs @ rest) = c # t" using elements_head [OF False, of rest] unfolding c(1) .
      ultimately show ?thesis using c(2) by (simp add: shape dq_def) (simp add: JList)
    qed
  next
    case (JObj kvs)
    have smaller_elem: "size x < size v" "distinct_keys x" if "(k, x) \<in> set kvs" for k x
    proof -
      show "size x < size v" using that unfolding JObj by (induction kvs) auto
      show "distinct_keys x" using that JObj less(2) by (auto simp: list_all_iff)
    qed
    have members: "read_members m d (members_text ys @ r) = Some (d @ ys, r)"
      if "ys \<noteq> []" "set ys \<subseteq> set kvs" "distinct (map fst (d @ ys))" "length (members_text ys) < m" for ys d m r
      using that
    proof (induction ys arbitrary: d m rule: induct_list012)
      case 1
      then show ?case by simp
    next
      case (2 p)
      obtain k x where p: "p = (k, x)" by force
      from 2 obtain j where m: "m = Suc j" by (cases m) auto
      from 2 p have "read_value j (dumps_raw x @ ''}'' @ r) = Some (x, ''}'' @ r)"
        by (intro smaller smaller_elem [of k]) (auto simp: m members_text_simps)
      moreover have "dict_set k x d = d @ [(k, x)]" using 2(3) p by (intro dict_set_fresh) auto
      ultimately show ?case by (simp add: m p members_text_simps quoted_raw_def scan_quoted)
    next
      case (3 p q ys)
      obtain k x where p: "p = (k, x)" by force
      from 3 obtain j where m: "m = Suc j" by (cases m) auto
      let ?t = "members_text (q # ys) @ r"
      from 3 p have "read_value j (dumps_raw x @ '', '' @ ?t) = Some (x, '', '' @ ?t)"
        by (intro smaller smaller_elem [of k]) (auto simp: m members_text_simps)
      moreover have fresh: "dict_set k x d = d @ [(k, x)]" using 3(5) p by (intro dict_set_fresh) auto
      moreover have "read_members j (d @ [(k, x)]) ?t = Some ((d @ [(k, x)]) @ q # ys, r)"
        using 3(3-) p by (intro 3(2)) (auto simp: m members_text_simps)
      moreover have "skip_ws ?t = ?t" using members_head [of "q # ys"] by auto
      ultimately show ?case by (simp add: m p members_text_simps quoted_raw_def scan_quoted)
    qed
    show ?thesis
    proof (cases "kvs = []")
      case True
      with JObj show ?thesis by (simp add: dq_def)
    next
      case False
      obtain t where t: "members_text kvs = dq # t" using members_head [OF False] by blast
      have shape: "dumps_raw v = CHR ''{'' # members_text kvs" by (simp add: JObj members_text_def)
      have len: "length (members_text kvs) < n" using less(3) by (simp add: shape)
      have "read_members n [] (members_text kvs @ rest) = Some (kvs, rest)"
        using members [of kvs "[]" n rest] False len less(2) by (simp add: JObj)
      then show ?thesis by (simp add: shape t) (simp add: JObj)
    qed
  qed (simp_all add: strip_prefix_def starts_with_def dq_def)
qed

declare read_value.simps [simp del] read_elements.simps [simp del] read_members.simps [simp del]

lemma skip_ws_dumps_all: "skip_ws (dumps_raw v) = dumps_raw v"
  using skip_ws_dumps [of v "[]"] by simp

lemma loads_dumps: "distinct_keys v \<Longrightarrow> loads (dumps_raw v) = Some v"
  using read_dumps [of v "length (dumps_raw v)" "[]"] by (simp add: loads_def skip_ws_dumps_all) (simp add: skip_ws_def)

lemma distinct_sort_keys: "distinct_keys v \<Longrightarrow> distinct_keys (sort_keys v)"
proof (induction v)
  case (JObj kvs)
  let ?m = "map (\<lambda>(k, v). (k, sort_keys v)) kvs"
  have keys: "map fst ?m = map fst kvs" by (simp add: case_prod_beta')
  have "distinct (map fst ?m)" using JObj(2) by (simp only: keys distinct_keys.simps)
  then have "distinct (map fst (sort_key fst ?m))" by (simp only: distinct_map set_sort distinct_sort simp_thms)
  with JObj show ?case by (fastforce simp: list_all_iff)
qed (auto simp: list_all_iff)

text \<open>Python's equality: dictionaries are equal whatever the order of their items.\<close>

fun same_json :: "json \<Rightarrow> json \<Rightarrow> bool" where
  "same_json (JList xs) (JList ys) = list_all2 same_json xs ys"
| "same_json (JObj a) (JObj b) =
     (fst ` set a = fst ` set b \<and> list_all (\<lambda>(k, v). case map_of b k of None \<Rightarrow> False | Some w \<Rightarrow> same_json v w) a)"
| "same_json v w = (v = w)"

lemma same_sort_keys: "distinct_keys v \<Longrightarrow> same_json v (sort_keys v)"
proof (induction v)
  case (JList xs)
  then show ?case by (auto simp: list_all_iff list.rel_map intro!: list_all2_all_nthI)
next
  case (JObj kvs)
  let ?s = "sort_key fst (map (\<lambda>(k, v). (k, sort_keys v)) kvs)"
  have "distinct (map fst ?s)" using distinct_sort_keys [OF JObj(2)] by simp
  then have item: "map_of ?s k = Some (sort_keys v)" if "(k, v) \<in> set kvs" for k v
    using that by (intro map_of_is_SomeI) force+
  have "fst ` set kvs = fst ` set ?s" by (force simp: image_iff)
  with JObj item show ?case by (auto simp: list_all_iff)
qed auto

lemma utf8_round: "utf8_decode (utf8_encode s) = Some s"
proof (induction s)
  case (Cons c s)
  have n: "code_point c < 256" by (rule code_point_less)
  then have "code_point c div 64 < 4" "code_point c mod 64 < 64" by auto
  with n Cons show ?case
    by (auto simp: utf8_encode_def utf8_char_def Let_def code_point_char_of)
qed (simp add: utf8_encode_def)


subsection \<open>More fuel changes nothing\<close>

lemma scan_string_shorter: "scan_string s = Some (t, r) \<Longrightarrow> length r < length s"
proof (induction "length s" arbitrary: s t rule: less_induct)
  case less
  have step: "length r < n" if "scan_string q = Some (t', r)" "length q < length s" "length q \<le> n" for q t' n
    using less(1) [OF that(2,1)] that(3) by simp
  from less(2) show ?case
    by (cases s) (auto split: if_splits list.splits option.splits intro!: step)
qed

lemma skip_ws_shorter: "length (skip_ws s) \<le> length s"
  by (simp add: skip_ws_def length_dropWhile_le)

lemma scan_nat_shorter: "scan_nat s = Some (n, r) \<Longrightarrow> length r < length s"
proof -
  assume scan: "scan_nat s = Some (n, r)"
  then have digits: "takeWhile is_digit s \<noteq> []" by (auto simp: scan_nat_def Let_def)
  have "length s = length (takeWhile is_digit s) + length (dropWhile is_digit s)"
    by (metis length_append takeWhile_dropWhile_id)
  with digits have "length (dropWhile is_digit s) < length s"
    by (simp add: length_greater_0_conv [symmetric] del: length_greater_0_conv)
  moreover from digits have "length (tl s) < length s" by (cases s) auto
  moreover from scan have "r = tl s \<or> r = dropWhile is_digit s"
    unfolding scan_nat_def Let_def by (simp split: if_splits)
  ultimately show "length r < length s" by auto
qed

lemma scan_int_shorter: "scan_int s = Some (i, r) \<Longrightarrow> length r < length s"
  by (auto simp: scan_int_def dest: scan_nat_shorter split: list.splits if_splits)

lemma strip_prefix_shorter: "strip_prefix p s = Some r \<Longrightarrow> p \<noteq> [] \<Longrightarrow> length r < length s"
  by (cases s) (auto simp: strip_prefix_def starts_with_def split: if_splits)

definition enough :: "(nat \<Rightarrow> string \<Rightarrow> ('a \<times> string) option) \<Rightarrow> nat \<Rightarrow> string \<Rightarrow> bool" where
  "enough read m s \<longleftrightarrow> (\<forall>v r. read m s = Some (v, r) \<longrightarrow>
     length r < length s \<and> (\<forall>n. length s \<le> n + length r \<longrightarrow> read n s = Some (v, r)))"

lemma enoughI:
  assumes "\<And>v r. read (Suc m) s = Some (v, r) \<Longrightarrow>
    length r < length s \<and> (\<forall>k. length s \<le> Suc k + length r \<longrightarrow> read (Suc k) s = Some (v, r))"
  shows "enough read (Suc m) s"
  unfolding enough_def
proof (intro allI impI conjI)
  fix v r n
  assume run: "read (Suc m) s = Some (v, r)"
  then show "length r < length s" using assms by blast
  assume "length s \<le> n + length r"
  with \<open>length r < length s\<close> obtain k where "n = Suc k" by (cases n) auto
  with run assms \<open>length s \<le> n + length r\<close> show "read n s = Some (v, r)" by blast
qed

lemma enoughD:
  assumes "enough read m s" and "read m s = Some (v, r)"
  shows "length r < length s" and "length s \<le> n + length r \<Longrightarrow> read n s = Some (v, r)"
  using assms by (auto simp: enough_def)

lemma value_fuel:
  "enough read_value m s" and "enough read_elements m s" and "enough (\<lambda>n. read_members n d) m s"
proof (induction m s and m s and m d s rule: read_value_read_elements_read_members.induct)
  case (2 n s)
  show ?case
  proof (rule enoughI)
    fix v r
    assume run: "read_value (Suc n) s = Some (v, r)"
    then obtain c cs where s: "s = c # cs" by (cases s) (auto simp: read_value.simps)
    note ws = skip_ws_shorter [of cs]
    consider (str) "c = dq" | (obj) "c = CHR ''{''" | (lst) "c = CHR ''[''" | (other) "c \<noteq> dq" "c \<noteq> CHR ''{''" "c \<noteq> CHR ''[''"
      by blast
    then show "length r < length s \<and> (\<forall>k. length s \<le> Suc k + length r \<longrightarrow> read_value (Suc k) s = Some (v, r))"
    proof cases
      case str
      with run s show ?thesis by (auto simp: read_value.simps dest: scan_string_shorter)
    next
      case obj
      with run s obtain d q where q: "skip_ws cs = d # q" by (cases "skip_ws cs") (auto simp: read_value.simps)
      show ?thesis
      proof (cases "d = CHR ''}''")
        case True
        with run s obj q ws show ?thesis by (auto simp: read_value.simps)
      next
        case False
        with run s obj q obtain kvs where m: "read_members n [] (d # q) = Some (kvs, r)" "v = JObj kvs"
          by (auto simp: read_value.simps)
        have "enough (\<lambda>n. read_members n []) n (d # q)" by (rule 2(1) [OF s _ _ q False]) (simp_all add: obj)
        note ih = enoughD [OF this m(1)]
        have "read_members k [] (d # q) = Some (kvs, r)" if "length s \<le> Suc k + length r" for k
          by (rule ih(2)) (use that ws q s in simp)
        with s obj q False m(2) ih(1) ws show ?thesis by (auto simp: read_value.simps)
      qed
    next
      case lst
      with run s obtain d q where q: "skip_ws cs = d # q" by (cases "skip_ws cs") (auto simp: read_value.simps)
      show ?thesis
      proof (cases "d = CHR '']''")
        case True
        with run s lst q ws show ?thesis by (auto simp: read_value.simps)
      next
        case False
        with run s lst q obtain xs where m: "read_elements n (d # q) = Some (xs, r)" "v = JList xs"
          by (auto simp: read_value.simps)
        have "enough read_elements n (d # q)" by (rule 2(2) [OF s _ _ _ q False]) (simp_all add: lst)
        note ih = enoughD [OF this m(1)]
        have "read_elements k (d # q) = Some (xs, r)" if "length s \<le> Suc k + length r" for k
          by (rule ih(2)) (use that ws q s in simp)
        with s lst q False m(2) ih(1) ws show ?thesis by (auto simp: read_value.simps)
      qed
    next
      case other
      then have literal: "read_value (Suc k) s = (case strip_prefix ''null'' s of Some r \<Rightarrow> Some (JNull, r) | None \<Rightarrow>
          (case strip_prefix ''true'' s of Some r \<Rightarrow> Some (JBool True, r) | None \<Rightarrow>
           (case strip_prefix ''false'' s of Some r \<Rightarrow> Some (JBool False, r) | None \<Rightarrow>
            map_option (\<lambda>(i, r). (JInt i, r)) (scan_int s))))" for k
        unfolding s by (simp add: read_value.simps)
      have "\<exists>p. p \<noteq> [] \<and> strip_prefix p s = Some r \<or> (\<exists>i. scan_int s = Some (i, r))"
        using run unfolding literal
        by (cases "strip_prefix ''null'' s"; cases "strip_prefix ''true'' s"; cases "strip_prefix ''false'' s") auto
      then have "length r < length s" using strip_prefix_shorter scan_int_shorter by blast
      with run show ?thesis unfolding literal by blast
    qed
  qed
next
  case (4 n s)
  show ?case
  proof (rule enoughI)
    fix vs r
    assume run: "read_elements (Suc n) s = Some (vs, r)"
    then obtain v q where v: "read_value n s = Some (v, q)" by (auto simp: read_elements.simps split: option.splits)
    from run v obtain c p where p: "skip_ws q = c # p" by (cases "skip_ws q") (auto simp: read_elements.simps)
    note ws = skip_ws_shorter [of q] skip_ws_shorter [of p] and ih = enoughD [OF 4(1) v]
    show "length r < length s \<and> (\<forall>k. length s \<le> Suc k + length r \<longrightarrow> read_elements (Suc k) s = Some (vs, r))"
    proof (cases "c = CHR '']''")
      case True
      with run v p ws ih show ?thesis by (auto simp: read_elements.simps)
    next
      case False
      with run v p obtain us where us: "c = CHR '',''" "read_elements n (skip_ws p) = Some (us, r)" "vs = v # us"
        by (auto simp: read_elements.simps split: if_splits)
      note ih2 = enoughD [OF 4(2) [OF v refl p False us(1)] us(2)]
      have "read_value k s = Some (v, q)" "read_elements k (skip_ws p) = Some (us, r)" if "length s \<le> Suc k + length r" for k
        using that ih(1) ih2(1) ws p by (auto intro!: ih(2) ih2(2))
      with us v p ws ih(1) ih2(1) show ?thesis by (auto simp: read_elements.simps)
    qed
  qed
next
  case (6 n d s)
  show ?case
  proof (rule enoughI)
    fix kvs r
    assume run: "read_members (Suc n) d s = Some (kvs, r)"
    then obtain cs where s: "s = dq # cs" by (cases s) (auto simp: read_members.simps split: if_splits)
    from run s obtain k r1 where k: "scan_string cs = Some (k, r1)"
      by (cases "scan_string cs") (auto simp: read_members.simps)
    from run s k obtain r2 where r2: "skip_ws r1 = CHR '':'' # r2"
      by (cases "skip_ws r1") (auto simp: read_members.simps split: if_splits)
    from run s k r2 obtain v r3 where v: "read_value n (skip_ws r2) = Some (v, r3)"
      by (cases "read_value n (skip_ws r2)") (auto simp: read_members.simps)
    from run s k r2 v obtain f r4 where r4: "skip_ws r3 = f # r4"
      by (cases "skip_ws r3") (auto simp: read_members.simps)
    note ih = enoughD [OF 6(1) [OF s _ k refl r2] v]
    note ws = skip_ws_shorter [of r1] skip_ws_shorter [of r2] skip_ws_shorter [of r3] skip_ws_shorter [of r4]
      and key = scan_string_shorter [OF k]
    show "length r < length s \<and> (\<forall>j. length s \<le> Suc j + length r \<longrightarrow> read_members (Suc j) d s = Some (kvs, r))"
    proof (cases "f = CHR ''}''")
      case True
      with run s k r2 v r4 ws key ih show ?thesis by (auto simp: read_members.simps)
    next
      case False
      with run s k r2 v r4 have more: "f = CHR '',''" "read_members n (dict_set k v d) (skip_ws r4) = Some (kvs, r)"
        by (auto simp: read_members.simps split: if_splits)
      note ih2 = enoughD [OF 6(2) [OF s _ k refl r2 _ v refl r4 False more(1)] more(2)]
      have "read_value j (skip_ws r2) = Some (v, r3)" "read_members j (dict_set k v d) (skip_ws r4) = Some (kvs, r)"
        if "length s \<le> Suc j + length r" for j
        using that ih(1) ih2(1) ws key s r2 r4 by (auto intro!: ih(2) ih2(2))
      with more s k r2 r4 ws key ih(1) ih2(1) show ?thesis by (auto simp: read_members.simps)
    qed
  qed
qed (simp_all add: enough_def read_value.simps read_elements.simps read_members.simps)

lemma loads_fuel:
  assumes "read_value m (skip_ws s) = Some (v, r)"
  shows "read_value (Suc (length s)) (skip_ws s) = Some (v, r)"
  using enoughD(2) [OF value_fuel(1) assms, of "Suc (length s)"] skip_ws_shorter [of s] by simp

end
