(* ===== verification/Credentials.thy ===== *)
theory Credentials
  imports JsonText "HOL-Library.Multiset"
begin

section \<open>Connector credentials\<close>

text \<open>
  Models \<open>services/_credential_internals.py\<close>, \<open>connector_credentials.py\<close>,
  \<open>credential_tiers.py\<close>, \<open>llm_connector_map.py\<close> and \<open>connectors/registry.py\<close>: payloads
  sealed under a ring of keys in three tables (per user, household, instance), their reads,
  writes and rotation, and the resolution of a credential at run time. The Fernet library is a
  parameter; what its documentation promises is \<open>fernet_laws\<close>. The tables' unique keys and
  CHECK constraints (migrations 015 and 018) are part of the model.
\<close>

subsection \<open>The encryption library\<close>

text \<open>
  \<open>MultiFernet\<close> over a list of keys, newest first: \<open>encrypt\<close> (the number stands for the fresh
  IV and time stamp), \<open>decrypt\<close> and \<open>rotate\<close> with \<open>None\<close> for \<open>InvalidToken\<close>; \<open>Fernet(key)\<close>
  accepting a key; the bytes of a SHA-256 digest.
\<close>

record fernet =
  fn_accepts :: "string \<Rightarrow> bool"
  fn_encrypt :: "string list \<Rightarrow> nat \<Rightarrow> string \<Rightarrow> string"
  fn_decrypt :: "string list \<Rightarrow> string \<Rightarrow> string option"
  fn_rotate :: "string list \<Rightarrow> nat \<Rightarrow> string \<Rightarrow> string option"
  fn_sha256 :: "string \<Rightarrow> nat list"

text \<open>
  Documented: encryption uses the first key of the list, decryption tries every key in turn and
  refuses a token that none of them made,
  rotation re-encrypts under the first key what any key decrypts; a digest is 32 bytes.
\<close>

definition fernet_laws :: "fernet \<Rightarrow> bool" where
  "fernet_laws F \<longleftrightarrow>
     (\<forall>k ks n m ring. fn_decrypt F ring (fn_encrypt F (k # ks) n m) = (if k \<in> set ring then Some m else None)) \<and>
     (\<forall>k ks n t. fn_rotate F (k # ks) n t =
        map_option (fn_encrypt F (k # ks) n) (fn_decrypt F (k # ks) t)) \<and>
     (\<forall>k. length (fn_sha256 F k) = 32 \<and> (\<forall>b \<in> set (fn_sha256 F k). b < 256))"

subsection \<open>The connector registry\<close>

datatype cred_error = BadFormat | UnknownConnector | BadActor | CallerRequired
  | NoUsableKey | KeyNotAscii | KeyRejected | CheckViolation | RowMissing
  | ConnectorNotConfigured | CredentialUnavailable

text \<open>A pattern \<open>^...$\<close> under \<open>re.match\<close>: \<open>$\<close> also matches before a final line feed.\<close>

definition dollar_match :: "(string \<Rightarrow> bool) \<Rightarrow> string \<Rightarrow> bool" where
  "dollar_match p s \<longleftrightarrow> p s \<or> (s \<noteq> [] \<and> last s = CHR 0x0A \<and> p (butlast s))"

definition connector_char :: "char \<Rightarrow> bool" where
  "connector_char c \<longleftrightarrow> is_lower_letter c \<or> is_digit c \<or> c = CHR ''_''"

definition connector_word :: "string \<Rightarrow> bool" where
  "connector_word s \<longleftrightarrow> s \<noteq> [] \<and> list_all connector_char s"

definition validate_format :: "string \<Rightarrow> cred_error + unit" where
  "validate_format name =
     (if name = [] then Inl BadFormat
      else if 64 < length name then Inl BadFormat
      else if \<not> dollar_match connector_word name then Inl BadFormat
      else Inr ())"

definition require_registered :: "string list \<Rightarrow> string \<Rightarrow> cred_error + unit" where
  "require_registered connectors name =
     (case validate_format name of
        Inl e \<Rightarrow> Inl e
      | Inr _ \<Rightarrow> if name \<in> set connectors then Inr () else Inl UnknownConnector)"

definition default_connectors :: "string list" where
  "default_connectors = [''testconnector'', ''ntfy'', ''caldav'', ''paperless'', ''llm_anthropic'', ''llm_openai'',
     ''llm_xai'', ''llm_perplexity'', ''llm_gemini'', ''llm_mistral'']"

definition register_connector :: "string \<Rightarrow> string \<Rightarrow> (string \<times> string) list \<Rightarrow> cred_error + (string \<times> string) list" where
  "register_connector name description specs =
     (case validate_format name of
        Inl e \<Rightarrow> Inl e
      | Inr _ \<Rightarrow> if py_strip description = [] then Inl BadFormat else Inr (dict_set name description specs))"

definition iter_registered_with_descriptions :: "(string \<times> string) list \<Rightarrow> (string \<times> string) list" where
  "iter_registered_with_descriptions specs = sort_key fst specs"

subsection \<open>Actors\<close>

definition actor_char :: "char \<Rightarrow> bool" where
  "actor_char c \<longleftrightarrow> is_lower_letter c \<or> (65 \<le> code_point c \<and> code_point c \<le> 90) \<or> is_digit c \<or> c = CHR ''_'' \<or> c = CHR ''-''"

definition admin_actor :: "string \<Rightarrow> bool" where
  "admin_actor s \<longleftrightarrow> starts_with ''admin:'' s \<and> (let i = drop 6 s in 1 \<le> length i \<and> length i \<le> 64 \<and> list_all actor_char i)"

definition tier_actor_word :: "string \<Rightarrow> bool" where
  "tier_actor_word s \<longleftrightarrow> s = ''system'' \<or> admin_actor s"

definition actor_word :: "string \<Rightarrow> bool" where
  "actor_word s \<longleftrightarrow> s = ''self'' \<or> tier_actor_word s"

definition actor_str :: "string \<Rightarrow> cred_error + string" where
  "actor_str actor = (if dollar_match actor_word actor then Inr actor else Inl BadActor)"

definition actor_str_tiered :: "string \<Rightarrow> cred_error + string" where
  "actor_str_tiered actor = (if dollar_match tier_actor_word actor then Inr actor else Inl BadActor)"

definition extract_admin_caller_user_id :: "string \<Rightarrow> cred_error + user_id" where
  "extract_admin_caller_user_id actor =
     (if actor = ''system'' then Inr ''default''
      else if dollar_match admin_actor actor then
        (let i = drop 6 actor in Inr (if list_all actor_char i then i else butlast i))
      else Inl BadActor)"

subsection \<open>Keys\<close>

record cred_env =
  ce_fernet :: fernet
  ce_keys :: string
  ce_key :: string
  ce_auth :: bool
  ce_environ :: "string \<Rightarrow> string"
  ce_connectors :: "string list"
  ce_audit_ok :: bool
  ce_update_fails :: "user_id \<Rightarrow> string \<Rightarrow> bool"
  ce_now :: instant
  ce_nonce :: nat

definition placeholder_keys :: "string list" where
  "placeholder_keys = [[], ''change-me-in-production'', ''__GENERATE_ME__'']"

definition load_keys :: "cred_env \<Rightarrow> cred_error + string list" where
  "load_keys env =
     (let raw = ce_keys env;
          candidates = (if py_strip raw \<noteq> [] then map py_strip (split_on (CHR '','') raw) else [py_strip (ce_key env)]);
          keys = filter (\<lambda>c. c \<notin> set placeholder_keys) candidates
      in if \<not> list_all (list_all (\<lambda>c. code_point c < 128)) keys then Inl KeyNotAscii
         else if keys = [] then Inl NoUsableKey
         else Inr keys)"

definition build_multifernet :: "fernet \<Rightarrow> string list \<Rightarrow> cred_error + string list" where
  "build_multifernet F keys = (if list_all (fn_accepts F) keys then Inr keys else Inl KeyRejected)"

definition key_fingerprint :: "fernet \<Rightarrow> string \<Rightarrow> nat" where
  "key_fingerprint F k = foldl (\<lambda>acc b. acc * 256 + b) 0 (take 4 (fn_sha256 F k))"

definition current_key_version :: "cred_env \<Rightarrow> cred_error + nat" where
  "current_key_version env = map_sum id (\<lambda>keys. key_fingerprint (ce_fernet env) (hd keys)) (load_keys env)"


subsection \<open>Tables and state\<close>

record tier_cred =
  tc_connector :: string
  tc_cipher :: string
  tc_key :: nat
  tc_created_at :: instant
  tc_updated_at :: instant
  tc_created_by :: string
  tc_updated_by :: string

record user_cred = tier_cred +
  ur_user :: user_id
  ur_paused :: bool
  ur_reason :: "string option"
  ur_detail :: "string option"
  ur_paused_at :: "instant option"

definition user_key :: "user_cred \<Rightarrow> user_id \<times> string" where
  "user_key r = (ur_user r, tc_connector r)"

record cred_audit =
  ca_user :: user_id
  ca_connector :: string
  ca_action :: string
  ca_mode :: string
  ca_input :: string
  ca_result :: string
  ca_at :: instant

record cred_state =
  cs_users :: "user_cred list"
  cs_household :: "tier_cred list"
  cs_system :: "tier_cred list"
  cs_audit :: "cred_audit list"
  cs_ring :: "string list option"
  cs_changes :: "(user_id \<times> string \<times> string) list"

datatype tier = Household | Instance

definition tier_table :: "tier \<Rightarrow> cred_state \<Rightarrow> tier_cred list" where
  "tier_table t st = (case t of Household \<Rightarrow> cs_household st | Instance \<Rightarrow> cs_system st)"

definition set_tier_table :: "tier \<Rightarrow> tier_cred list \<Rightarrow> cred_state \<Rightarrow> cred_state" where
  "set_tier_table t rows st = (case t of Household \<Rightarrow> st\<lparr>cs_household := rows\<rparr> | Instance \<Rightarrow> st\<lparr>cs_system := rows\<rparr>)"

definition tier_label :: "tier \<Rightarrow> string" where
  "tier_label t = (case t of Household \<Rightarrow> ''household'' | Instance \<Rightarrow> ''system'')"

text \<open>The CHECK constraints of the tables; \<open>$\<close> matches at the very end only.\<close>

definition db_connector_ok :: "string \<Rightarrow> bool" where
  "db_connector_ok c \<longleftrightarrow> 1 \<le> length c \<and> length c \<le> 64 \<and> connector_word c"

definition db_user_row_ok :: "user_cred \<Rightarrow> bool" where
  "db_user_row_ok r \<longleftrightarrow> db_connector_ok (tc_connector r) \<and> actor_word (tc_created_by r) \<and> actor_word (tc_updated_by r)"

definition db_tier_row_ok :: "tier_cred \<Rightarrow> bool" where
  "db_tier_row_ok r \<longleftrightarrow> db_connector_ok (tc_connector r) \<and> tier_actor_word (tc_created_by r) \<and> tier_actor_word (tc_updated_by r)"

subsection \<open>Crypto\<close>

definition get_multifernet :: "cred_env \<Rightarrow> cred_state \<Rightarrow> (cred_error + string list) \<times> cred_state" where
  "get_multifernet env st =
     (case cs_ring st of
        Some ring \<Rightarrow> (Inr ring, st)
      | None \<Rightarrow>
          (case load_keys env of
             Inl e \<Rightarrow> (Inl e, st)
           | Inr keys \<Rightarrow>
               (case build_multifernet (ce_fernet env) keys of
                  Inl e \<Rightarrow> (Inl e, st)
                | Inr ring \<Rightarrow> (Inr ring, st\<lparr>cs_ring := Some ring\<rparr>))))"

definition reset_for_tests :: "cred_state \<Rightarrow> cred_state" where
  "reset_for_tests st = st\<lparr>cs_ring := None\<rparr>"

definition payload_text :: "json_obj \<Rightarrow> string" where
  "payload_text d = utf8_encode (dumps_raw (sort_keys (JObj d)))"

definition encrypt_payload :: "cred_env \<Rightarrow> json_obj \<Rightarrow> cred_state \<Rightarrow> (cred_error + string) \<times> cred_state" where
  "encrypt_payload env d st =
     (case get_multifernet env st of
        (Inl e, st1) \<Rightarrow> (Inl e, st1)
      | (Inr ring, st1) \<Rightarrow> (Inr (fn_encrypt (ce_fernet env) ring (ce_nonce env) (payload_text d)), st1))"

definition read_payload :: "string \<Rightarrow> cred_error + json_obj" where
  "read_payload plaintext =
     (case utf8_decode plaintext of
        None \<Rightarrow> Inl CredentialUnavailable
      | Some t \<Rightarrow> (case loads t of Some (JObj d) \<Rightarrow> Inr d | _ \<Rightarrow> Inl CredentialUnavailable))"

definition decrypt_payload :: "cred_env \<Rightarrow> string \<Rightarrow> cred_state \<Rightarrow> (cred_error + json_obj) \<times> cred_state" where
  "decrypt_payload env ciphertext st =
     (case get_multifernet env st of
        (Inl e, st1) \<Rightarrow> (Inl e, st1)
      | (Inr ring, st1) \<Rightarrow>
          ((case fn_decrypt (ce_fernet env) ring ciphertext of
              None \<Rightarrow> Inl CredentialUnavailable
            | Some plaintext \<Rightarrow> read_payload plaintext), st1))"

subsection \<open>Audit and listeners\<close>

definition emit_cred_audit :: "cred_env \<Rightarrow> user_id \<Rightarrow> string \<Rightarrow> string \<Rightarrow> string \<Rightarrow> nat \<Rightarrow> string \<Rightarrow> cred_state \<Rightarrow> cred_state" where
  "emit_cred_audit env u connector action actor key_version tier st =
     (if ce_audit_ok env then
        st\<lparr>cs_audit := cs_audit st @ [\<lparr>ca_user = u, ca_connector = connector, ca_action = action, ca_mode = ''DO'',
          ca_input = dumps (JObj [(''actor'', JStr actor), (''key_version'', JInt (int key_version)), (''tier'', JStr tier)]),
          ca_result = dumps (JObj [(''ok'', JBool True)]), ca_at = ce_now env\<rparr>]\<rparr>
      else st)"

definition fire_change :: "user_id \<Rightarrow> string \<Rightarrow> string \<Rightarrow> cred_state \<Rightarrow> cred_state" where
  "fire_change u connector action st = st\<lparr>cs_changes := cs_changes st @ [(u, connector, action)]\<rparr>"

definition action_put :: string where "action_put = ''__connector_credential__.put''"
definition action_deleted :: string where "action_deleted = ''__connector_credential__.deleted''"
definition action_rotated :: string where "action_rotated = ''__connector_credential__.rotated''"

subsection \<open>The per-user table\<close>

definition get_record :: "user_id \<Rightarrow> string \<Rightarrow> cred_state \<Rightarrow> cred_error + user_cred option" where
  "get_record u connector st =
     (case validate_format connector of
        Inl e \<Rightarrow> Inl e
      | Inr _ \<Rightarrow> Inr (t_find user_key (u, connector) (cs_users st)))"

definition list_records :: "user_id \<Rightarrow> cred_state \<Rightarrow> user_cred list" where
  "list_records u st = sort_key tc_connector (filter (\<lambda>r. ur_user r = u) (cs_users st))"

definition get_payload :: "cred_env \<Rightarrow> user_id \<Rightarrow> string \<Rightarrow> cred_state \<Rightarrow> (cred_error + json_obj option) \<times> cred_state" where
  "get_payload env u connector st =
     (case require_registered (ce_connectors env) connector of
        Inl e \<Rightarrow> (Inl e, st)
      | Inr _ \<Rightarrow>
          (case t_find user_key (u, connector) (cs_users st) of
             None \<Rightarrow> (Inr None, st)
           | Some r \<Rightarrow>
               (case decrypt_payload env (tc_cipher r) st of
                  (Inl e, st1) \<Rightarrow> (Inl e, st1)
                | (Inr d, st1) \<Rightarrow> (Inr (Some d), st1))))"

text \<open>The \<open>INSERT\<close> and the \<open>ON CONFLICT DO UPDATE\<close> of the upsert.\<close>

definition new_user_row :: "cred_env \<Rightarrow> user_id \<Rightarrow> string \<Rightarrow> string \<Rightarrow> nat \<Rightarrow> string \<Rightarrow> user_cred" where
  "new_user_row env u connector ciphertext key_version actor =
     \<lparr>tc_connector = connector, tc_cipher = ciphertext, tc_key = key_version, tc_created_at = ce_now env,
      tc_updated_at = ce_now env, tc_created_by = actor, tc_updated_by = actor, ur_user = u,
      ur_paused = False, ur_reason = None, ur_detail = None, ur_paused_at = None\<rparr>"

definition overwrite_user_row :: "cred_env \<Rightarrow> string \<Rightarrow> nat \<Rightarrow> string \<Rightarrow> user_cred \<Rightarrow> user_cred" where
  "overwrite_user_row env ciphertext key_version actor r =
     r\<lparr>tc_cipher := ciphertext, tc_key := key_version, ur_paused := False, ur_reason := None, ur_detail := None,
       ur_paused_at := None, tc_updated_at := ce_now env, tc_updated_by := actor\<rparr>"

definition put_payload ::
  "cred_env \<Rightarrow> user_id \<Rightarrow> string \<Rightarrow> json_obj \<Rightarrow> string \<Rightarrow> cred_state \<Rightarrow> (cred_error + user_cred) \<times> cred_state" where
  "put_payload env u connector payload actor st =
     (case require_registered (ce_connectors env) connector of
        Inl e \<Rightarrow> (Inl e, st)
      | Inr _ \<Rightarrow>
        (case actor_str actor of
           Inl e \<Rightarrow> (Inl e, st)
         | Inr actor_clean \<Rightarrow>
           (case encrypt_payload env payload st of
              (Inl e, st1) \<Rightarrow> (Inl e, st1)
            | (Inr ciphertext, st1) \<Rightarrow>
              (case current_key_version env of
                 Inl e \<Rightarrow> (Inl e, st1)
               | Inr key_version \<Rightarrow>
                   let new = new_user_row env u connector ciphertext key_version actor_clean;
                       rows = t_upsert user_key (overwrite_user_row env ciphertext key_version actor_clean) new (cs_users st1)
                   in if \<not> db_user_row_ok new then (Inl CheckViolation, st1)
                      else
                        (case t_find user_key (u, connector) rows of
                           None \<Rightarrow> (Inl RowMissing, st1)
                         | Some row \<Rightarrow>
                             (Inr row, fire_change u connector ''put''
                                (emit_cred_audit env u connector action_put actor_clean key_version ''user''
                                  (st1\<lparr>cs_users := rows\<rparr>))))))))"

definition set_delivery_paused ::
  "cred_env \<Rightarrow> user_id \<Rightarrow> string \<Rightarrow> bool \<Rightarrow> string option \<Rightarrow> string option \<Rightarrow> string \<Rightarrow> cred_state
    \<Rightarrow> (cred_error + unit) \<times> cred_state" where
  "set_delivery_paused env u connector paused reason detail actor st =
     (case require_registered (ce_connectors env) connector of
        Inl e \<Rightarrow> (Inl e, st)
      | Inr _ \<Rightarrow>
        (case actor_str actor of
           Inl e \<Rightarrow> (Inl e, st)
         | Inr actor_clean \<Rightarrow>
             let hit = (\<lambda>r. user_key r = (u, connector));
                 change = (if paused
                   then (\<lambda>r. r\<lparr>ur_paused := True, ur_reason := reason, ur_detail := map_option (take 512) detail,
                          ur_paused_at := Some (ce_now env), tc_updated_at := ce_now env, tc_updated_by := actor_clean\<rparr>)
                   else (\<lambda>r. r\<lparr>ur_paused := False, ur_reason := None, ur_detail := None, ur_paused_at := None,
                          tc_updated_at := ce_now env, tc_updated_by := actor_clean\<rparr>))
             in if list_ex hit (cs_users st) \<and> \<not> actor_word actor_clean then (Inl CheckViolation, st)
                else (Inr (), st\<lparr>cs_users := update_where hit change (cs_users st)\<rparr>)))"

definition delete_payload ::
  "cred_env \<Rightarrow> user_id \<Rightarrow> string \<Rightarrow> string \<Rightarrow> cred_state \<Rightarrow> (cred_error + bool) \<times> cred_state" where
  "delete_payload env u connector actor st =
     (case validate_format connector of
        Inl e \<Rightarrow> (Inl e, st)
      | Inr _ \<Rightarrow>
        (case actor_str actor of
           Inl e \<Rightarrow> (Inl e, st)
         | Inr actor_clean \<Rightarrow>
             (case t_find user_key (u, connector) (cs_users st) of
                None \<Rightarrow> (Inr False, st)
              | Some r \<Rightarrow>
                  (Inr True, fire_change u connector ''delete''
                     (emit_cred_audit env u connector action_deleted actor_clean (tc_key r) ''user''
                       (st\<lparr>cs_users := t_delete user_key (u, connector) (cs_users st)\<rparr>))))))"

definition env_fallback :: "cred_env \<Rightarrow> string option \<Rightarrow> json_obj option" where
  "env_fallback env fallback_env =
     (if ce_auth env then None
      else case fallback_env of
        None \<Rightarrow> None
      | Some v \<Rightarrow> if v \<noteq> [] \<and> ce_environ env v \<noteq> [] then Some [(''value'', JStr (ce_environ env v))] else None)"

definition resolve_credential ::
  "cred_env \<Rightarrow> user_id \<Rightarrow> string \<Rightarrow> string option \<Rightarrow> cred_state \<Rightarrow> (cred_error + json_obj) \<times> cred_state" where
  "resolve_credential env u connector fallback_env st =
     (case require_registered (ce_connectors env) connector of
        Inl e \<Rightarrow> (Inl e, st)
      | Inr _ \<Rightarrow>
          (case t_find user_key (u, connector) (cs_users st) of
             Some r \<Rightarrow> decrypt_payload env (tc_cipher r) st
           | None \<Rightarrow>
               (case env_fallback env fallback_env of
                  Some d \<Rightarrow> (Inr d, st)
                | None \<Rightarrow> (Inl ConnectorNotConfigured, st))))"


definition count_by_key_version :: "nat list \<Rightarrow> (nat \<times> nat) list" where
  "count_by_key_version versions = map (\<lambda>k. (k, count_list versions k)) (sort (remdups versions))"

definition count_rows_by_key_version :: "cred_state \<Rightarrow> (nat \<times> nat) list" where
  "count_rows_by_key_version st = count_by_key_version (map tc_key (cs_users st))"

subsection \<open>The household and instance tables\<close>

definition tier_get_record :: "tier \<Rightarrow> string \<Rightarrow> cred_state \<Rightarrow> cred_error + tier_cred option" where
  "tier_get_record t connector st =
     (case validate_format connector of
        Inl e \<Rightarrow> Inl e
      | Inr _ \<Rightarrow> Inr (t_find tc_connector connector (tier_table t st)))"

definition tier_list_records :: "tier \<Rightarrow> cred_state \<Rightarrow> tier_cred list" where
  "tier_list_records t st = sort_key tc_connector (tier_table t st)"

definition tier_get_payload :: "cred_env \<Rightarrow> tier \<Rightarrow> string \<Rightarrow> cred_state \<Rightarrow> (cred_error + json_obj option) \<times> cred_state" where
  "tier_get_payload env t connector st =
     (case require_registered (ce_connectors env) connector of
        Inl e \<Rightarrow> (Inl e, st)
      | Inr _ \<Rightarrow>
          (case t_find tc_connector connector (tier_table t st) of
             None \<Rightarrow> (Inr None, st)
           | Some r \<Rightarrow>
               (case decrypt_payload env (tc_cipher r) st of
                  (Inl e, st1) \<Rightarrow> (Inl e, st1)
                | (Inr d, st1) \<Rightarrow> (Inr (Some d), st1))))"

definition new_tier_row :: "cred_env \<Rightarrow> string \<Rightarrow> string \<Rightarrow> nat \<Rightarrow> string \<Rightarrow> tier_cred" where
  "new_tier_row env connector ciphertext key_version actor =
     \<lparr>tc_connector = connector, tc_cipher = ciphertext, tc_key = key_version, tc_created_at = ce_now env,
      tc_updated_at = ce_now env, tc_created_by = actor, tc_updated_by = actor\<rparr>"

definition resealed :: "cred_env \<Rightarrow> string \<Rightarrow> nat \<Rightarrow> string \<Rightarrow> 'a tier_cred_scheme \<Rightarrow> 'a tier_cred_scheme" where
  "resealed env token current_fp actor r =
     r\<lparr>tc_cipher := token, tc_key := current_fp, tc_updated_at := ce_now env, tc_updated_by := actor\<rparr>"

definition tier_put_payload ::
  "cred_env \<Rightarrow> tier \<Rightarrow> string \<Rightarrow> json_obj \<Rightarrow> string \<Rightarrow> cred_state \<Rightarrow> (cred_error + tier_cred) \<times> cred_state" where
  "tier_put_payload env t connector payload actor st =
     (case require_registered (ce_connectors env) connector of
        Inl e \<Rightarrow> (Inl e, st)
      | Inr _ \<Rightarrow>
        (case actor_str_tiered actor of
           Inl e \<Rightarrow> (Inl e, st)
         | Inr actor_clean \<Rightarrow>
           (case extract_admin_caller_user_id actor_clean of
              Inl e \<Rightarrow> (Inl e, st)
            | Inr audit_user \<Rightarrow>
              (case encrypt_payload env payload st of
                 (Inl e, st1) \<Rightarrow> (Inl e, st1)
               | (Inr ciphertext, st1) \<Rightarrow>
                 (case current_key_version env of
                    Inl e \<Rightarrow> (Inl e, st1)
                  | Inr key_version \<Rightarrow>
                      let new = new_tier_row env connector ciphertext key_version actor_clean;
                          rows = t_upsert tc_connector (resealed env ciphertext key_version actor_clean) new (tier_table t st1)
                      in if \<not> db_tier_row_ok new then (Inl CheckViolation, st1)
                         else
                           (case t_find tc_connector connector rows of
                              None \<Rightarrow> (Inl RowMissing, st1)
                            | Some row \<Rightarrow>
                                (Inr row, emit_cred_audit env audit_user connector action_put actor_clean key_version (tier_label t)
                                   (set_tier_table t rows st1))))))))"

definition tier_delete_payload ::
  "cred_env \<Rightarrow> tier \<Rightarrow> string \<Rightarrow> string \<Rightarrow> cred_state \<Rightarrow> (cred_error + bool) \<times> cred_state" where
  "tier_delete_payload env t connector actor st =
     (case validate_format connector of
        Inl e \<Rightarrow> (Inl e, st)
      | Inr _ \<Rightarrow>
        (case actor_str_tiered actor of
           Inl e \<Rightarrow> (Inl e, st)
         | Inr actor_clean \<Rightarrow>
           (case extract_admin_caller_user_id actor_clean of
              Inl e \<Rightarrow> (Inl e, st)
            | Inr audit_user \<Rightarrow>
                (case t_find tc_connector connector (tier_table t st) of
                   None \<Rightarrow> (Inr False, st)
                 | Some r \<Rightarrow>
                     (Inr True, emit_cred_audit env audit_user connector action_deleted actor_clean (tc_key r) (tier_label t)
                        (set_tier_table t (t_delete tc_connector connector (tier_table t st)) st))))))"

definition tier_count_rows_by_key_version :: "tier \<Rightarrow> cred_state \<Rightarrow> (nat \<times> nat) list" where
  "tier_count_rows_by_key_version t st = count_by_key_version (map tc_key (tier_table t st))"

text \<open>The two copies of this interface in the code.\<close>

definition household_get_payload where "household_get_payload env = tier_get_payload env Household"
definition system_get_payload where "system_get_payload env = tier_get_payload env Instance"
definition household_put_payload where "household_put_payload env = tier_put_payload env Household"
definition system_put_payload where "system_put_payload env = tier_put_payload env Instance"
definition household_delete_payload where "household_delete_payload env = tier_delete_payload env Household"
definition system_delete_payload where "system_delete_payload env = tier_delete_payload env Instance"
definition household_get_record where "household_get_record = tier_get_record Household"
definition system_get_record where "system_get_record = tier_get_record Instance"
definition household_list_records where "household_list_records = tier_list_records Household"
definition system_list_records where "system_list_records = tier_list_records Instance"

subsection \<open>Rotation\<close>

datatype row_rotation = RowSkipped | RowFailed | RowRotated string

text \<open>What happens to one row: skipped, re-sealed and verified, or failed.\<close>

definition rotate_row ::
  "cred_env \<Rightarrow> string list \<Rightarrow> nat \<Rightarrow> bool \<Rightarrow> ('a tier_cred_scheme \<Rightarrow> user_id) \<Rightarrow> nat \<Rightarrow> 'a tier_cred_scheme \<Rightarrow> row_rotation" where
  "rotate_row env ring current_fp actor_ok owner n r =
     (if tc_key r = current_fp then RowSkipped
      else case fn_rotate (ce_fernet env) ring n (tc_cipher r) of
        None \<Rightarrow> RowFailed
      | Some new_token \<Rightarrow>
          if fn_decrypt (ce_fernet env) ring new_token = None then RowFailed
          else if ce_update_fails env (owner r) (tc_connector r) \<or> \<not> actor_ok then RowFailed
          else RowRotated new_token)"

record rotation_counts =
  rot_rotated :: nat
  rot_skipped :: nat
  rot_failed :: nat

definition no_counts :: rotation_counts where
  "no_counts = \<lparr>rot_rotated = 0, rot_skipped = 0, rot_failed = 0\<rparr>"

definition add_counts :: "rotation_counts \<Rightarrow> rotation_counts \<Rightarrow> rotation_counts" where
  "add_counts a b = \<lparr>rot_rotated = rot_rotated a + rot_rotated b, rot_skipped = rot_skipped a + rot_skipped b,
     rot_failed = rot_failed a + rot_failed b\<rparr>"

text \<open>The walk over the rows of a table: \<open>commit\<close> is the \<open>UPDATE\<close> of one row with its audit entry.\<close>

fun reencrypt_rows ::
  "(nat \<Rightarrow> 'r \<Rightarrow> row_rotation) \<Rightarrow> ('r \<Rightarrow> string \<Rightarrow> cred_state \<Rightarrow> cred_state) \<Rightarrow> nat \<Rightarrow> 'r list \<Rightarrow> cred_state
    \<Rightarrow> rotation_counts \<times> cred_state" where
  "reencrypt_rows rot commit n [] st = (no_counts, st)"
| "reencrypt_rows rot commit n (r # rows) st =
     (case rot n r of
        RowSkipped \<Rightarrow>
          (case reencrypt_rows rot commit (Suc n) rows st of (c, st') \<Rightarrow> (c\<lparr>rot_skipped := Suc (rot_skipped c)\<rparr>, st'))
      | RowFailed \<Rightarrow>
          (case reencrypt_rows rot commit (Suc n) rows st of (c, st') \<Rightarrow> (c\<lparr>rot_failed := Suc (rot_failed c)\<rparr>, st'))
      | RowRotated token \<Rightarrow>
          (case reencrypt_rows rot commit (Suc n) rows (commit r token st) of
             (c, st') \<Rightarrow> (c\<lparr>rot_rotated := Suc (rot_rotated c)\<rparr>, st')))"

definition commit_user :: "cred_env \<Rightarrow> nat \<Rightarrow> string \<Rightarrow> user_cred \<Rightarrow> string \<Rightarrow> cred_state \<Rightarrow> cred_state" where
  "commit_user env fp actor r token st =
     emit_cred_audit env (ur_user r) (tc_connector r) action_rotated actor fp ''user''
       (st\<lparr>cs_users := update_where (\<lambda>x. user_key x = user_key r) (resealed env token fp actor) (cs_users st)\<rparr>)"

definition reencrypt_user_table :: "cred_env \<Rightarrow> string \<Rightarrow> cred_state \<Rightarrow> (cred_error + rotation_counts) \<times> cred_state" where
  "reencrypt_user_table env actor st =
     (case get_multifernet env st of
        (Inl e, st1) \<Rightarrow> (Inl e, st1)
      | (Inr ring, st1) \<Rightarrow>
          (case current_key_version env of
             Inl e \<Rightarrow> (Inl e, st1)
           | Inr fp \<Rightarrow>
               (case reencrypt_rows (rotate_row env ring fp (actor_word actor) ur_user) (commit_user env fp actor) (ce_nonce env)
                       (sort_key ur_user (sort_key tc_connector (cs_users st1))) st1 of
                  (c, st2) \<Rightarrow> (Inr c, st2))))"

definition commit_tier :: "cred_env \<Rightarrow> tier \<Rightarrow> user_id \<Rightarrow> nat \<Rightarrow> string \<Rightarrow> tier_cred \<Rightarrow> string \<Rightarrow> cred_state \<Rightarrow> cred_state" where
  "commit_tier env t audit_user fp actor r token st =
     emit_cred_audit env audit_user (tc_connector r) action_rotated actor fp (tier_label t)
       (set_tier_table t (update_where (\<lambda>x. tc_connector x = tc_connector r) (resealed env token fp actor) (tier_table t st)) st)"

definition reencrypt_tier_table :: "cred_env \<Rightarrow> tier \<Rightarrow> string \<Rightarrow> cred_state \<Rightarrow> (cred_error + rotation_counts) \<times> cred_state" where
  "reencrypt_tier_table env t actor st =
     (case actor_str_tiered actor of
        Inl e \<Rightarrow> (Inl e, st)
      | Inr actor_clean \<Rightarrow>
        (case get_multifernet env st of
           (Inl e, st1) \<Rightarrow> (Inl e, st1)
         | (Inr ring, st1) \<Rightarrow>
             (case current_key_version env of
                Inl e \<Rightarrow> (Inl e, st1)
              | Inr fp \<Rightarrow>
                  (case extract_admin_caller_user_id actor_clean of
                     Inl e \<Rightarrow> (Inl e, st1)
                   | Inr audit_user \<Rightarrow>
                       (case reencrypt_rows (rotate_row env ring fp (tier_actor_word actor_clean) (\<lambda>_. tier_label t))
                               (commit_tier env t audit_user fp actor_clean) (ce_nonce env)
                               (sort_key tc_connector (tier_table t st1)) st1 of
                          (c, st2) \<Rightarrow> (Inr c, st2))))))"

definition reencrypt_household_to_current_version where
  "reencrypt_household_to_current_version env = reencrypt_tier_table env Household"

definition reencrypt_system_to_current_version where
  "reencrypt_system_to_current_version env = reencrypt_tier_table env Instance"

record rotation_summary =
  rs_total :: rotation_counts
  rs_by_tier :: "(string \<times> rotation_counts) list"

definition all_cred_tables :: "string list" where
  "all_cred_tables = [''user_connector_credentials'', ''household_connector_credentials'', ''instance_system_connector_credentials'']"

text \<open>One table of the summary: walked when it is named, an exception ends the whole call.\<close>

definition walk_table ::
  "string \<Rightarrow> string list \<Rightarrow> string \<Rightarrow> (cred_state \<Rightarrow> (cred_error + rotation_counts) \<times> cred_state)
    \<Rightarrow> (cred_error + (string \<times> rotation_counts) list) \<times> cred_state \<Rightarrow> (cred_error + (string \<times> rotation_counts) list) \<times> cred_state" where
  "walk_table table tables label run acc =
     (case acc of
        (Inl e, st) \<Rightarrow> (Inl e, st)
      | (Inr done_tiers, st) \<Rightarrow>
          if table \<in> set tables then
            (case run st of
               (Inl e, st1) \<Rightarrow> (Inl e, st1)
             | (Inr c, st1) \<Rightarrow> (Inr (done_tiers @ [(label, c)]), st1))
          else (Inr done_tiers, st))"

definition reencrypt_all_to_current_version ::
  "cred_env \<Rightarrow> string \<Rightarrow> string list \<Rightarrow> cred_state \<Rightarrow> (cred_error + rotation_summary) \<times> cred_state" where
  "reencrypt_all_to_current_version env actor tables st =
     (case actor_str actor of
        Inl e \<Rightarrow> (Inl e, st)
      | Inr actor_clean \<Rightarrow>
          (case walk_table ''instance_system_connector_credentials'' tables ''system'' (reencrypt_system_to_current_version env actor_clean)
                 (walk_table ''household_connector_credentials'' tables ''household'' (reencrypt_household_to_current_version env actor_clean)
                   (walk_table ''user_connector_credentials'' tables ''user'' (reencrypt_user_table env actor_clean) (Inr [], st))) of
             (Inl e, st1) \<Rightarrow> (Inl e, st1)
           | (Inr by_tier, st1) \<Rightarrow>
               (Inr \<lparr>rs_total = foldr add_counts (map snd by_tier) no_counts, rs_by_tier = by_tier\<rparr>, st1)))"

text \<open>The operator's script: the \<open>--tables\<close> argument and the exit code.\<close>

definition parse_tables :: "string \<Rightarrow> string list option" where
  "parse_tables raw =
     (let parts = filter (\<lambda>p. p \<noteq> []) (map py_strip (split_on (CHR '','') raw)) in
      if parts = [] then None
      else if \<not> set parts \<subseteq> set all_cred_tables then None
      else Some parts)"

definition rotate_main :: "cred_env \<Rightarrow> string \<Rightarrow> string \<Rightarrow> cred_state \<Rightarrow> (cred_error + nat) option \<times> cred_state" where
  "rotate_main env actor raw st =
     (case parse_tables raw of
        None \<Rightarrow> (None, st)
      | Some tables \<Rightarrow>
          (case reencrypt_all_to_current_version env actor tables st of
             (Inl e, st1) \<Rightarrow> (Some (Inl e), st1)
           | (Inr s, st1) \<Rightarrow> (Some (Inr (if 0 < rot_failed (rs_total s) then 1 else 0)), st1)))"

subsection \<open>Resolution at run time\<close>

record resolved_credential =
  rc_payload :: json_obj
  rc_tier :: string

definition resolve_caller_user_id :: "user_id \<Rightarrow> cred_error + user_id" where
  "resolve_caller_user_id u = (if py_strip u = [] then Inl CallerRequired else Inr u)"

definition resolve_runtime_credential ::
  "cred_env \<Rightarrow> user_id \<Rightarrow> string \<Rightarrow> string option \<Rightarrow> cred_state \<Rightarrow> (cred_error + resolved_credential) \<times> cred_state" where
  "resolve_runtime_credential env caller connector fallback_env st =
     (case resolve_caller_user_id caller of
        Inl e \<Rightarrow> (Inl e, st)
      | Inr u \<Rightarrow>
        (case require_registered (ce_connectors env) connector of
           Inl e \<Rightarrow> (Inl e, st)
         | Inr _ \<Rightarrow>
           (case get_payload env u connector st of
              (Inl e, st1) \<Rightarrow> (Inl e, st1)
            | (Inr (Some d), st1) \<Rightarrow> (Inr \<lparr>rc_payload = d, rc_tier = ''user''\<rparr>, st1)
            | (Inr None, st1) \<Rightarrow>
              (case household_get_payload env connector st1 of
                 (Inl e, st2) \<Rightarrow> (Inl e, st2)
               | (Inr (Some d), st2) \<Rightarrow> (Inr \<lparr>rc_payload = d, rc_tier = ''household''\<rparr>, st2)
               | (Inr None, st2) \<Rightarrow>
                 (case system_get_payload env connector st2 of
                    (Inl e, st3) \<Rightarrow> (Inl e, st3)
                  | (Inr (Some d), st3) \<Rightarrow> (Inr \<lparr>rc_payload = d, rc_tier = ''system''\<rparr>, st3)
                  | (Inr None, st3) \<Rightarrow>
                    (case env_fallback env fallback_env of
                       Some d \<Rightarrow> (Inr \<lparr>rc_payload = d, rc_tier = ''env''\<rparr>, st3)
                     | None \<Rightarrow> (Inl ConnectorNotConfigured, st3)))))))"

subsection \<open>Keys of model vendors\<close>

definition llm_connector_by_env :: "(string \<times> string) list" where
  "llm_connector_by_env = [(''ANTHROPIC_API_KEY'', ''llm_anthropic''), (''OPENAI_API_KEY'', ''llm_openai''),
     (''XAI_API_KEY'', ''llm_xai''), (''PERPLEXITY_API_KEY'', ''llm_perplexity''), (''GEMINI_API_KEY'', ''llm_gemini''),
     (''MISTRAL_API_KEY'', ''llm_mistral'')]"

definition vendor_label_by_connector :: "(string \<times> string) list" where
  "vendor_label_by_connector = [(''llm_anthropic'', ''Anthropic''), (''llm_openai'', ''OpenAI''), (''llm_xai'', ''xAI''),
     (''llm_perplexity'', ''Perplexity''), (''llm_gemini'', ''Google Gemini''), (''llm_mistral'', ''Mistral'')]"

definition connector_for_api_key_env :: "string \<Rightarrow> string option" where
  "connector_for_api_key_env v = (if v = [] then None else map_of llm_connector_by_env v)"

definition vendor_label_for_connector :: "string \<Rightarrow> string" where
  "vendor_label_for_connector c = (case map_of vendor_label_by_connector c of Some l \<Rightarrow> l | None \<Rightarrow> c)"

definition has_credential :: "user_id option \<Rightarrow> string \<Rightarrow> cred_state \<Rightarrow> bool" where
  "has_credential u v st =
     (case (connector_for_api_key_env v, u) of
        (Some c, Some i) \<Rightarrow> i \<noteq> [] \<and> (case get_record i c st of Inr (Some _) \<Rightarrow> True | _ \<Rightarrow> False)
      | _ \<Rightarrow> False)"

definition get_user_credentials_snapshot :: "user_id option \<Rightarrow> cred_state \<Rightarrow> string set" where
  "get_user_credentials_snapshot u st =
     (case u of
        None \<Rightarrow> {}
      | Some i \<Rightarrow> if i = [] then {}
          else set (map tc_connector (filter (\<lambda>r. ur_user r = i \<and> starts_with ''llm_'' (tc_connector r)) (cs_users st))))"

definition effective_api_key :: "cred_env \<Rightarrow> user_id option \<Rightarrow> string \<Rightarrow> cred_state \<Rightarrow> (cred_error + string) \<times> cred_state" where
  "effective_api_key env u v st =
     (case connector_for_api_key_env v of
        None \<Rightarrow>
          if ce_auth env then (Inl ConnectorNotConfigured, st)
          else (let k = py_strip (ce_environ env v) in (if k = [] then Inl ConnectorNotConfigured else Inr k, st))
      | Some c \<Rightarrow>
          (case resolve_credential env (case u of Some i \<Rightarrow> i | None \<Rightarrow> []) c (Some v) st of
             (Inl e, st1) \<Rightarrow> (Inl e, st1)
           | (Inr d, st1) \<Rightarrow>
               (let field = (if map_of d ''value'' \<noteq> None \<and> \<not> ce_auth env then ''value'' else ''api_key'') in
                ((case map_of d field of
                    Some (JStr k) \<Rightarrow> (if py_strip k = [] then Inl ConnectorNotConfigured else Inr (py_strip k))
                  | _ \<Rightarrow> Inl CredentialUnavailable), st1))))"


subsection \<open>The key ring\<close>

text \<open>The cached ring is the one the environment names: keys change only with a restart.\<close>

definition ring_ok :: "cred_env \<Rightarrow> cred_state \<Rightarrow> bool" where
  "ring_ok env st \<longleftrightarrow> (\<forall>ring. cs_ring st = Some ring \<longrightarrow>
     load_keys env = Inr ring \<and> build_multifernet (ce_fernet env) ring = Inr ring)"

lemma load_keys_nonempty: "load_keys env = Inr ring \<Longrightarrow> ring \<noteq> []"
  by (auto simp: load_keys_def Let_def split: if_splits)

lemma build_multifernet_same: "build_multifernet F keys = Inr ring \<Longrightarrow> ring = keys"
  by (simp add: build_multifernet_def split: if_splits)

lemma ring_loaded:
  assumes "ring_ok env st" and "get_multifernet env st = (Inr ring, st1)"
  shows "load_keys env = Inr ring" and "ring \<noteq> []" and "st1 = st\<lparr>cs_ring := Some ring\<rparr>" and "ring_ok env st1"
proof -
  have "load_keys env = Inr ring \<and> build_multifernet (ce_fernet env) ring = Inr ring \<and> st1 = st\<lparr>cs_ring := Some ring\<rparr>"
    using assms by (auto simp: get_multifernet_def ring_ok_def dest: build_multifernet_same split: option.splits sum.splits)
  then show "load_keys env = Inr ring" "ring \<noteq> []" "st1 = st\<lparr>cs_ring := Some ring\<rparr>" "ring_ok env st1"
    by (auto simp: ring_ok_def dest: load_keys_nonempty)
qed

lemma get_multifernet_tables:
  "get_multifernet env st = (res, st1) \<Longrightarrow> \<exists>ring. st1 = st\<lparr>cs_ring := ring\<rparr>"
  by (auto simp: get_multifernet_def split: option.splits sum.splits)
     (metis cred_state.surjective cred_state.update_convs(5))+

lemma decrypt_with_ring:
  assumes "ring_ok env st" and "load_keys env = Inr ring" and "build_multifernet (ce_fernet env) ring = Inr ring"
  shows "fst (decrypt_payload env t st) =
    (case fn_decrypt (ce_fernet env) ring t of None \<Rightarrow> Inl CredentialUnavailable | Some p \<Rightarrow> read_payload p)"
  using assms by (auto simp: decrypt_payload_def get_multifernet_def ring_ok_def split: option.splits)

lemma decrypt_stable:
  assumes "ring_ok env st" and "ring_ok env st'"
  shows "fst (decrypt_payload env t st) = fst (decrypt_payload env t st')"
proof (cases "load_keys env")
  case (Inl e)
  with assms have "cs_ring st = None" "cs_ring st' = None" by (auto simp: ring_ok_def)
  with Inl show ?thesis by (simp add: decrypt_payload_def get_multifernet_def)
next
  case (Inr ring)
  show ?thesis
  proof (cases "build_multifernet (ce_fernet env) ring")
    case (Inl e)
    with Inr assms have "cs_ring st = None" "cs_ring st' = None" unfolding ring_ok_def by (metis Inl_Inr_False not_Some_eq sum.inject(2))+
    with Inl Inr show ?thesis by (simp add: decrypt_payload_def get_multifernet_def)
  next
    case (Inr ring')
    with build_multifernet_same \<open>load_keys env = Inr ring\<close> assms show ?thesis by (metis decrypt_with_ring)
  qed
qed

subsection \<open>Sealing and opening\<close>

definition sorted_payload :: "json_obj \<Rightarrow> json_obj" where
  "sorted_payload d = sort_key fst (map (\<lambda>(k, v). (k, sort_keys v)) d)"

lemma read_payload_text: "distinct_keys (JObj d) \<Longrightarrow> read_payload (payload_text d) = Inr (sorted_payload d)"
  using distinct_sort_keys [of "JObj d"] loads_dumps [of "sort_keys (JObj d)"]
  by (simp add: read_payload_def payload_text_def utf8_round sorted_payload_def)

lemma sorted_payload_same: "distinct_keys (JObj d) \<Longrightarrow> same_json (JObj d) (JObj (sorted_payload d))"
  using same_sort_keys [of "JObj d"] by (simp add: sorted_payload_def)

definition sealed_by :: "fernet \<Rightarrow> string \<Rightarrow> json_obj \<Rightarrow> 'a tier_cred_scheme \<Rightarrow> bool" where
  "sealed_by F k d r \<longleftrightarrow> distinct_keys (JObj d) \<and> tc_key r = key_fingerprint F k \<and>
     (\<exists>ks n. tc_cipher r = fn_encrypt F (k # ks) n (payload_text d))"

lemma sealed_opens:
  assumes "fernet_laws F" and "sealed_by F k d r" and "k \<in> set ring"
  shows "fn_decrypt F ring (tc_cipher r) = Some (payload_text d)"
  using assms by (auto simp: fernet_laws_def sealed_by_def)

lemma list_of_four: "length xs = 4 \<Longrightarrow> \<exists>a b c d. xs = [a, b, c, d]"
  by (auto simp: numeral_eq_Suc length_Suc_conv)

lemma fingerprint_bound: "fernet_laws F \<Longrightarrow> key_fingerprint F k < 2 ^ 32"
proof -
  assume laws: "fernet_laws F"
  then have len: "length (fn_sha256 F k) = 32" and b: "\<forall>b \<in> set (fn_sha256 F k). b < 256"
    by (auto simp: fernet_laws_def)
  from len have "length (take 4 (fn_sha256 F k)) = 4" by simp
  then obtain w x y z where t: "take 4 (fn_sha256 F k) = [w, x, y, z]"
    using list_of_four by blast
  have "set [w, x, y, z] \<subseteq> set (fn_sha256 F k)" unfolding t [symmetric] by (rule set_take_subset)
  with b have "w < 256" "x < 256" "y < 256" "z < 256" by auto
  with t show ?thesis by (simp add: key_fingerprint_def)
qed

lemma put_payload_effect:
  assumes "ring_ok env st" and "put_payload env u connector payload actor st = (Inr row, st')"
    and "load_keys env = Inr ring"
  defines "kv \<equiv> key_fingerprint (ce_fernet env) (hd ring)"
    and "ct \<equiv> fn_encrypt (ce_fernet env) ring (ce_nonce env) (payload_text payload)"
  shows "cs_users st' = t_upsert user_key (overwrite_user_row env ct kv actor) (new_user_row env u connector ct kv actor) (cs_users st)"
    and "t_find user_key (u, connector) (cs_users st') = Some row" and "tc_cipher row = ct" and "tc_key row = kv"
    and "db_user_row_ok (new_user_row env u connector ct kv actor)"
    and "cs_household st' = cs_household st" and "cs_system st' = cs_system st" and "cs_ring st' = Some ring"
proof -
  from assms(2) obtain ring' st1 where req: "require_registered (ce_connectors env) connector = Inr ()"
      "dollar_match actor_word actor" and mf: "get_multifernet env st = (Inr ring', st1)"
    by (auto simp: put_payload_def encrypt_payload_def actor_str_def split: sum.splits prod.splits if_splits)
  from ring_loaded [OF assms(1) mf] assms(3) have ring: "ring' = ring" "st1 = st\<lparr>cs_ring := Some ring\<rparr>" by auto
  let ?new = "new_user_row env u connector ct kv actor"
  let ?f = "overwrite_user_row env ct kv actor"
  let ?rows = "t_upsert user_key ?f ?new (cs_users st)"
  have kv: "current_key_version env = Inr kv" by (simp add: current_key_version_def assms(3) kv_def)
  have enc: "encrypt_payload env payload st = (Inr ct, st1)"
    by (simp add: encrypt_payload_def mf ring(1) ct_def)
  from assms(2) have ok: "db_user_row_ok ?new" "t_find user_key (u, connector) ?rows = Some row"
      "st' = fire_change u connector ''put'' (emit_cred_audit env u connector action_put actor kv ''user'' (st1\<lparr>cs_users := ?rows\<rparr>))"
    using req enc kv ring(2) by (auto simp: put_payload_def actor_str_def Let_def split: if_splits option.splits)
  have key: "user_key (?f r) = user_key r" for r by (simp add: overwrite_user_row_def user_key_def)
  have "row = ?new \<or> (\<exists>r. row = ?f r)"
    using ok(2) t_find_upsert [where key = user_key and f = ?f and new = ?new and k = "(u, connector)" and rows = "cs_users st", OF key]
    by (auto simp: user_key_def new_user_row_def split: if_splits option.splits)
  then show "tc_cipher row = ct" "tc_key row = kv"
    by (auto simp: new_user_row_def overwrite_user_row_def)
  show "cs_users st' = ?rows" "t_find user_key (u, connector) (cs_users st') = Some row" "db_user_row_ok ?new"
    "cs_household st' = cs_household st" "cs_system st' = cs_system st" "cs_ring st' = Some ring"
    using ok ring(2) by (auto simp: fire_change_def emit_cred_audit_def)
qed

text \<open>
  C9. A credential that was stored reads back. What \<open>put_payload\<close> sealed for a user under the
  keys of then is what \<open>get_payload\<close> returns, as an equal dictionary, to any later process whose
  ring of keys still holds the key that was the newest one then, in whatever position; the
  write is visible under no other user or connector, and the shared tables do not change.
\<close>

theorem stored_credential_reads_back:
  assumes "fernet_laws (ce_fernet env)" and "ring_ok env st" and "distinct_keys (JObj payload)"
    and "put_payload env u connector payload actor st = (Inr row, st')"
    and "ce_fernet env' = ce_fernet env" and "connector \<in> set (ce_connectors env')" and "ring_ok env' st''"
    and "load_keys env = Inr (k # ks)" and "load_keys env' = Inr ring" and "k \<in> set ring"
    and "build_multifernet (ce_fernet env') ring = Inr ring" and "cs_users st'' = cs_users st'"
  shows "(\<exists>d. fst (get_payload env' u connector st'') = Inr (Some d) \<and> same_json (JObj payload) (JObj d)) \<and>
    (\<forall>v e. (v, e) \<noteq> (u, connector) \<longrightarrow> t_find user_key (v, e) (cs_users st') = t_find user_key (v, e) (cs_users st)) \<and>
    cs_household st' = cs_household st \<and> cs_system st' = cs_system st"
proof -
  note put = put_payload_effect [OF assms(2,4,8)]
  have key: "user_key (overwrite_user_row env ct kv a r) = user_key r" for ct kv a r
    by (simp add: overwrite_user_row_def user_key_def)
  have "fn_decrypt (ce_fernet env') ring (tc_cipher row) = Some (payload_text payload)"
    using assms(1,5,10) put(3) by (simp add: fernet_laws_def)
  then have "fst (decrypt_payload env' (tc_cipher row) st'') = Inr (sorted_payload payload)"
    using decrypt_with_ring [OF assms(7,9,11)] read_payload_text [OF assms(3)] by simp
  moreover have "require_registered (ce_connectors env') connector = Inr ()"
    using assms(4,6) by (auto simp: put_payload_def require_registered_def split: sum.splits)
  ultimately have "fst (get_payload env' u connector st'') = Inr (Some (sorted_payload payload))"
    using put(2) assms(12) by (auto simp: get_payload_def split: prod.splits sum.splits)
  moreover have "t_find user_key (v, e) (cs_users st') = t_find user_key (v, e) (cs_users st)" if "(v, e) \<noteq> (u, connector)" for v e
    unfolding put(1) using that by (subst t_find_upsert) (auto simp: user_key_def new_user_row_def overwrite_user_row_def)
  ultimately show ?thesis using sorted_payload_same [OF assms(3)] put(6,7) by blast
qed

subsection \<open>Rotation of a table\<close>

definition rotated_row :: "row_rotation \<Rightarrow> (string \<Rightarrow> 'r \<Rightarrow> 'r) \<Rightarrow> 'r \<Rightarrow> 'r" where
  "rotated_row res f r = (case res of RowRotated token \<Rightarrow> f token r | _ \<Rightarrow> r)"

definition all_counts :: "rotation_counts \<Rightarrow> nat" where
  "all_counts c = rot_rotated c + rot_skipped c + rot_failed c"

text \<open>
  The contract of a table that a rotation walks: the rows by a unique key, and a commit that
  replaces exactly the row with the key of the walked one.
\<close>

locale sealed_table =
  fixes rows :: "cred_state \<Rightarrow> 'r list"
    and key :: "'r \<Rightarrow> 'k"
    and reseal :: "string \<Rightarrow> 'r \<Rightarrow> 'r"
    and commit :: "'r \<Rightarrow> string \<Rightarrow> cred_state \<Rightarrow> cred_state"
  assumes commit_rows: "rows (commit r token st) = update_where (\<lambda>x. key x = key r) (reseal token) (rows st)"
    and reseal_key: "key (reseal token r) = key r"
begin

lemma walk_rows:
  assumes "reencrypt_rows rot commit n xs st = (c, st')"
    and "distinct (map key xs)" and "\<And>x. x \<in> set xs \<Longrightarrow> t_find key (key x) (rows st) = Some x"
  shows "map key (rows st') = map key (rows st) \<and> all_counts c = length xs \<and>
    (\<forall>k. k \<notin> key ` set xs \<longrightarrow> t_find key k (rows st') = t_find key k (rows st)) \<and>
    (\<forall>x \<in> set xs. \<exists>m. t_find key (key x) (rows st') = Some (rotated_row (rot m x) reseal x) \<and>
       (rot m x = RowFailed \<longrightarrow> 0 < rot_failed c))"
  using assms
proof (induction xs arbitrary: n st c)
  case Nil
  then show ?case by (auto simp: no_counts_def all_counts_def)
next
  case (Cons x xs)
  define st1 where "st1 = (case rot n x of RowRotated token \<Rightarrow> commit x token st | _ \<Rightarrow> st)"
  obtain c0 where run: "reencrypt_rows rot commit (Suc n) xs st1 = (c0, st')"
    and c: "all_counts c = Suc (all_counts c0)" "rot_failed c0 \<le> rot_failed c" "rot n x = RowFailed \<longrightarrow> 0 < rot_failed c"
    using Cons.prems(1) by (auto simp: st1_def all_counts_def split: row_rotation.splits prod.splits)
  have step: "t_find key k (rows st1) = (if k = key x then Some (rotated_row (rot n x) reseal x) else t_find key k (rows st))" for k
  proof (cases "rot n x")
    case (RowRotated token)
    have upd: "t_find key k (rows st1) = map_option (\<lambda>y. if key y = key x then reseal token y else y) (t_find key k (rows st))"
      using RowRotated by (simp add: st1_def commit_rows t_find_update_where reseal_key)
    show ?thesis
    proof (cases "k = key x")
      case True
      with RowRotated upd Cons.prems(3) [of x] show ?thesis by (simp add: rotated_row_def)
    next
      case False
      with upd t_find_Some [of key k "rows st"] show ?thesis by (cases "t_find key k (rows st)") auto
    qed
  qed (use Cons.prems(3) [of x] in \<open>auto simp: st1_def rotated_row_def\<close>)
  have keys: "map key (rows st1) = map key (rows st)"
    by (auto simp: st1_def commit_rows reseal_key map_key_update_where split: row_rotation.splits)
  have fresh: "key x \<notin> key ` set xs" and dist: "distinct (map key xs)" using Cons.prems(2) by auto
  have found: "t_find key (key y) (rows st1) = Some y" if "y \<in> set xs" for y
  proof -
    from that fresh have "key y \<noteq> key x" by (metis imageI)
    with that Cons.prems(3) [of y] show ?thesis by (simp add: step)
  qed
  note ih = Cons.IH [OF run dist found]
  show ?case
  proof (intro conjI allI impI ballI)
    show "map key (rows st') = map key (rows st)" "all_counts c = length (x # xs)" using ih keys c by auto
    show "t_find key k (rows st') = t_find key k (rows st)" if "k \<notin> key ` set (x # xs)" for k
      using that ih by (auto simp: step)
    fix y
    assume "y \<in> set (x # xs)"
    then consider "y = x" | "y \<in> set xs" by auto
    then show "\<exists>m. t_find key (key y) (rows st') = Some (rotated_row (rot m y) reseal y) \<and> (rot m y = RowFailed \<longrightarrow> 0 < rot_failed c)"
    proof cases
      case 1
      with ih fresh c(3) show ?thesis by (auto simp: step)
    next
      case 2
      with ih obtain m where "t_find key (key y) (rows st') = Some (rotated_row (rot m y) reseal y)"
        "rot m y = RowFailed \<longrightarrow> 0 < rot_failed c0" by blast
      with c(2) show ?thesis by (intro exI [of _ m]) auto
    qed
  qed
qed

text \<open>A walk over the whole table.\<close>

lemma walk_table_rows:
  assumes "reencrypt_rows rot commit n xs st = (c, st')"
    and "distinct (map key (rows st))" and "mset xs = mset (rows st)"
  shows "map key (rows st') = map key (rows st)" and "all_counts c = length (rows st)"
    and "t_find key k (rows st) = None \<Longrightarrow> t_find key k (rows st') = None"
    and "t_find key k (rows st) = Some x \<Longrightarrow> \<exists>m. t_find key k (rows st') = Some (rotated_row (rot m x) reseal x) \<and>
       (rot m x = RowFailed \<longrightarrow> 0 < rot_failed c)"
proof -
  have xs: "set xs = set (rows st)" "length xs = length (rows st)" using assms(3) by (auto dest: mset_eq_setD mset_eq_length)
  have "distinct (map key xs)" using assms(2,3) by (metis mset_map mset_eq_imp_distinct_iff)
  moreover have "t_find key (key y) (rows st) = Some y" if "y \<in> set xs" for y
    using that xs assms(2) t_find_unique by fastforce
  ultimately have walk: "map key (rows st') = map key (rows st) \<and> all_counts c = length xs \<and>
    (\<forall>k. k \<notin> key ` set xs \<longrightarrow> t_find key k (rows st') = t_find key k (rows st)) \<and>
    (\<forall>x \<in> set xs. \<exists>m. t_find key (key x) (rows st') = Some (rotated_row (rot m x) reseal x) \<and>
       (rot m x = RowFailed \<longrightarrow> 0 < rot_failed c))"
    by (intro walk_rows [OF assms(1)]) auto
  then show "map key (rows st') = map key (rows st)" "all_counts c = length (rows st)" using xs by auto
  show "t_find key k (rows st') = None" if "t_find key k (rows st) = None"
    using that walk xs by (auto simp: t_find_None)
  show "\<exists>m. t_find key k (rows st') = Some (rotated_row (rot m x) reseal x) \<and> (rot m x = RowFailed \<longrightarrow> 0 < rot_failed c)"
    if "t_find key k (rows st) = Some x"
    using t_find_Some [OF that] walk xs by auto
qed

lemma walk_table_all:
  assumes "reencrypt_rows rot commit n xs st = (c, st')"
    and "distinct (map key (rows st))" and "mset xs = mset (rows st)"
    and "\<And>x. x \<in> set (rows st) \<Longrightarrow> P x" and "\<And>x m. P x \<Longrightarrow> P (rotated_row (rot m x) reseal x)"
    and "y \<in> set (rows st')"
  shows "P y"
proof -
  note walk = walk_table_rows [OF assms(1-3)]
  have here: "t_find key (key y) (rows st') = Some y"
    using assms(2,6) walk(1) by (intro t_find_unique) simp_all
  then obtain x where x: "t_find key (key y) (rows st) = Some x"
    using walk(3) [of "key y"] by (cases "t_find key (key y) (rows st)") auto
  from walk(4) [OF x] here obtain m where "y = rotated_row (rot m x) reseal x" by auto
  with assms(4,5) t_find_Some [OF x] show ?thesis by blast
qed

end

lemma emit_cred_audit_tables [simp]:
  "cs_users (emit_cred_audit env u c a ac kv t st) = cs_users st" "cs_household (emit_cred_audit env u c a ac kv t st) = cs_household st"
  "cs_system (emit_cred_audit env u c a ac kv t st) = cs_system st" "cs_ring (emit_cred_audit env u c a ac kv t st) = cs_ring st"
  "tier_table s (emit_cred_audit env u c a ac kv t st) = tier_table s st"
  by (auto simp: emit_cred_audit_def tier_table_def split: tier.splits)

lemma set_tier_table_simps [simp]:
  "tier_table t (set_tier_table t rows st) = rows" "cs_users (set_tier_table t rows st) = cs_users st"
  "cs_ring (set_tier_table t rows st) = cs_ring st" "s \<noteq> t \<Longrightarrow> tier_table s (set_tier_table t rows st) = tier_table s st"
  by (cases t; cases s; simp add: tier_table_def set_tier_table_def)+

lemma user_key_resealed: "user_key (resealed env token fp actor r) = user_key r"
  by (simp add: user_key_def resealed_def)

interpretation user_table: sealed_table cs_users user_key "\<lambda>token. resealed env token fp actor" "commit_user env fp actor"
  for env fp actor
  by unfold_locales (simp_all add: commit_user_def user_key_resealed)

interpretation shared_table: sealed_table "tier_table t" tc_connector "\<lambda>token. resealed env token fp actor"
    "commit_tier env t audit_user fp actor"
  for env t audit_user fp actor
  by unfold_locales (simp_all add: commit_tier_def resealed_def)

lemma get_payload_fst:
  "fst (get_payload env u connector st) =
    (case require_registered (ce_connectors env) connector of Inl e \<Rightarrow> Inl e
     | Inr _ \<Rightarrow> (case t_find user_key (u, connector) (cs_users st) of None \<Rightarrow> Inr None
        | Some r \<Rightarrow> map_sum id Some (fst (decrypt_payload env (tc_cipher r) st))))"
  by (auto simp: get_payload_def split: sum.splits option.splits prod.splits)

lemma tier_get_payload_fst:
  "fst (tier_get_payload env t connector st) =
    (case require_registered (ce_connectors env) connector of Inl e \<Rightarrow> Inl e
     | Inr _ \<Rightarrow> (case t_find tc_connector connector (tier_table t st) of None \<Rightarrow> Inr None
        | Some r \<Rightarrow> map_sum id Some (fst (decrypt_payload env (tc_cipher r) st))))"
  by (auto simp: tier_get_payload_def split: sum.splits option.splits prod.splits)

text \<open>What a rotation does to one row.\<close>

lemma rotated_row_opens:
  fixes r :: "'a tier_cred_scheme" and k :: string and ks :: "string list" and fp :: nat and ok :: bool
    and owner :: "'a tier_cred_scheme \<Rightarrow> user_id" and m :: nat and actor :: string
  assumes "fernet_laws (ce_fernet env)"
  defines "F \<equiv> ce_fernet env"
  defines "r' \<equiv> rotated_row (rotate_row env (k # ks) fp ok owner m r) (\<lambda>token. resealed env token fp actor) r"
  shows "fn_decrypt F (k # ks) (tc_cipher r') = fn_decrypt F (k # ks) (tc_cipher r)"
    and "rotate_row env (k # ks) fp ok owner m r \<noteq> RowFailed \<Longrightarrow> tc_key r' = fp"
    and "rotate_row env (k # ks) fp ok owner m r \<noteq> RowFailed \<Longrightarrow> (tc_key r = fp \<Longrightarrow> \<exists>d. sealed_by F k d r) \<Longrightarrow> k \<in> set ring \<Longrightarrow>
      fn_decrypt F ring (tc_cipher r') = fn_decrypt F (k # ks) (tc_cipher r)"
proof -
  have enc: "fn_decrypt F ring (fn_encrypt F (k # ks) n p) = Some p" if "k \<in> set ring" for n p ring
    using that assms(1) by (simp add: fernet_laws_def F_def)
  have rot: "fn_rotate F (k # ks) n t = map_option (fn_encrypt F (k # ks) n) (fn_decrypt F (k # ks) t)" for n t
    using assms(1) by (simp add: fernet_laws_def F_def)
  have token: "\<exists>p. fn_decrypt F (k # ks) (tc_cipher r) = Some p \<and> token = fn_encrypt F (k # ks) m p"
    if "rotate_row env (k # ks) fp ok owner m r = RowRotated token" for token
    using that rot [of m "tc_cipher r"] by (auto simp: rotate_row_def F_def split: if_splits option.splits)
  show "fn_decrypt F (k # ks) (tc_cipher r') = fn_decrypt F (k # ks) (tc_cipher r)"
    using token enc [of "k # ks"] by (auto simp: r'_def rotated_row_def resealed_def split: row_rotation.splits)
  show "tc_key r' = fp" if "rotate_row env (k # ks) fp ok owner m r \<noteq> RowFailed"
    using that by (auto simp: r'_def rotated_row_def resealed_def rotate_row_def split: if_splits option.splits)
  show "fn_decrypt F ring (tc_cipher r') = fn_decrypt F (k # ks) (tc_cipher r)"
    if ok: "rotate_row env (k # ks) fp ok owner m r \<noteq> RowFailed" and sealed: "tc_key r = fp \<Longrightarrow> \<exists>d. sealed_by F k d r"
      and k: "k \<in> set ring"
  proof (cases "rotate_row env (k # ks) fp ok owner m r")
    case RowSkipped
    then have "tc_key r = fp" by (auto simp: rotate_row_def split: if_splits option.splits)
    with sealed obtain d where "sealed_by F k d r" by blast
    then have "fn_decrypt F ring (tc_cipher r) = Some (payload_text d)" "fn_decrypt F (k # ks) (tc_cipher r) = Some (payload_text d)"
      using sealed_opens [OF assms(1) _ k] sealed_opens [OF assms(1), of k d r "k # ks"] by (auto simp: F_def)
    with RowSkipped show ?thesis by (simp add: r'_def rotated_row_def)
  next
    case RowFailed
    with ok show ?thesis by simp
  next
    case (RowRotated token)
    with token enc [OF k] show ?thesis by (auto simp: r'_def rotated_row_def resealed_def)
  qed
qed

text \<open>How two states relate whose rows are rotations of each other, under the same or another ring.\<close>

definition reads_alike :: "fernet \<Rightarrow> string list \<Rightarrow> string list \<Rightarrow> cred_state \<Rightarrow> cred_state \<Rightarrow> bool" where
  "reads_alike F ring ring' st st' \<longleftrightarrow>
     (\<forall>q. map_option (\<lambda>r. fn_decrypt F ring' (tc_cipher r)) (t_find user_key q (cs_users st')) =
          map_option (\<lambda>r. fn_decrypt F ring (tc_cipher r)) (t_find user_key q (cs_users st))) \<and>
     (\<forall>t c. map_option (\<lambda>r. fn_decrypt F ring' (tc_cipher r)) (t_find tc_connector c (tier_table t st')) =
          map_option (\<lambda>r. fn_decrypt F ring (tc_cipher r)) (t_find tc_connector c (tier_table t st)))"

lemma reads_alike_payloads:
  assumes "reads_alike (ce_fernet env) ring ring' st st'" and "ring_ok env st" and "ring_ok env' st'"
    and "load_keys env = Inr ring" and "build_multifernet (ce_fernet env) ring = Inr ring"
    and "load_keys env' = Inr ring'" and "build_multifernet (ce_fernet env') ring' = Inr ring'"
    and "ce_fernet env' = ce_fernet env" and "ce_connectors env' = ce_connectors env"
  shows "fst (get_payload env' u c st') = fst (get_payload env u c st)"
    and "fst (tier_get_payload env' t c st') = fst (tier_get_payload env t c st)"
proof -
  note open1 = decrypt_with_ring [OF assms(2,4,5)] and open2 = decrypt_with_ring [OF assms(3,6,7)]
  from assms(1) have u: "map_option (\<lambda>r. fn_decrypt (ce_fernet env) ring' (tc_cipher r)) (t_find user_key (u, c) (cs_users st')) =
      map_option (\<lambda>r. fn_decrypt (ce_fernet env) ring (tc_cipher r)) (t_find user_key (u, c) (cs_users st))"
    and t: "map_option (\<lambda>r. fn_decrypt (ce_fernet env) ring' (tc_cipher r)) (t_find tc_connector c (tier_table t st')) =
      map_option (\<lambda>r. fn_decrypt (ce_fernet env) ring (tc_cipher r)) (t_find tc_connector c (tier_table t st))"
    by (auto simp: reads_alike_def)
  from u show "fst (get_payload env' u c st') = fst (get_payload env u c st)"
    by (cases "t_find user_key (u, c) (cs_users st')"; cases "t_find user_key (u, c) (cs_users st)")
      (auto simp: get_payload_fst open1 open2 assms(8,9) split: sum.splits)
  from t show "fst (tier_get_payload env' t c st') = fst (tier_get_payload env t c st)"
    by (cases "t_find tc_connector c (tier_table t st')"; cases "t_find tc_connector c (tier_table t st)")
      (auto simp: tier_get_payload_fst open1 open2 assms(8,9) split: sum.splits)
qed

definition table_kept ::
  "fernet \<Rightarrow> string \<Rightarrow> string list \<Rightarrow> ('a tier_cred_scheme \<Rightarrow> 'k) \<Rightarrow> 'a tier_cred_scheme list \<Rightarrow> 'a tier_cred_scheme list \<Rightarrow> rotation_counts \<Rightarrow> bool" where
  "table_kept F k ks key rows rows' c \<longleftrightarrow>
     map key rows' = map key rows \<and> all_counts c = length rows \<and>
     (\<forall>q. map_option (\<lambda>r. fn_decrypt F (k # ks) (tc_cipher r)) (t_find key q rows') =
          map_option (\<lambda>r. fn_decrypt F (k # ks) (tc_cipher r)) (t_find key q rows)) \<and>
     (rot_failed c = 0 \<longrightarrow>
        (\<forall>q r. t_find key q rows' = Some r \<longrightarrow> tc_key r = key_fingerprint F k) \<and>
        (\<forall>ring. k \<in> set ring \<and> (\<forall>r \<in> set rows. tc_key r = key_fingerprint F k \<longrightarrow> (\<exists>d. sealed_by F k d r)) \<longrightarrow>
          (\<forall>q. map_option (\<lambda>r. fn_decrypt F ring (tc_cipher r)) (t_find key q rows') =
               map_option (\<lambda>r. fn_decrypt F (k # ks) (tc_cipher r)) (t_find key q rows))))"

lemma table_keptI:
  assumes "fernet_laws (ce_fernet env)" and "map key rows' = map key rows" and "all_counts c = length rows"
    and none: "\<And>q. t_find key q rows = None \<Longrightarrow> t_find key q rows' = None"
    and some: "\<And>q x. t_find key q rows = Some x \<Longrightarrow> \<exists>m. t_find key q rows' =
       Some (rotated_row (rotate_row env (k # ks) (key_fingerprint (ce_fernet env) k) ok owner m x)
         (\<lambda>token. resealed env token (key_fingerprint (ce_fernet env) k) actor) x) \<and>
       (rotate_row env (k # ks) (key_fingerprint (ce_fernet env) k) ok owner m x = RowFailed \<longrightarrow> 0 < rot_failed c)"
  shows "table_kept (ce_fernet env) k ks key rows rows' c"
  unfolding table_kept_def
proof (intro conjI allI impI)
  let ?F = "ce_fernet env"
  show "map_option (\<lambda>r. fn_decrypt ?F (k # ks) (tc_cipher r)) (t_find key q rows') =
      map_option (\<lambda>r. fn_decrypt ?F (k # ks) (tc_cipher r)) (t_find key q rows)" for q
  proof (cases "t_find key q rows")
    case None
    with none show ?thesis by simp
  next
    case (Some x)
    with some [OF Some] rotated_row_opens(1) [OF assms(1)] show ?thesis by auto
  qed
  assume clean: "rot_failed c = 0"
  show "tc_key r = key_fingerprint ?F k" if "t_find key q rows' = Some r" for q r
  proof (cases "t_find key q rows")
    case None
    with none that show ?thesis by simp
  next
    case (Some x)
    with some [OF Some] that clean rotated_row_opens(2) [OF assms(1)] show ?thesis by fastforce
  qed
  fix ring q
  assume "k \<in> set ring \<and> (\<forall>r \<in> set rows. tc_key r = key_fingerprint ?F k \<longrightarrow> (\<exists>d. sealed_by ?F k d r))"
  then have k: "k \<in> set ring" and sealed: "\<And>r. r \<in> set rows \<Longrightarrow> tc_key r = key_fingerprint ?F k \<Longrightarrow> \<exists>d. sealed_by ?F k d r" by auto
  show "map_option (\<lambda>r. fn_decrypt ?F ring (tc_cipher r)) (t_find key q rows') =
      map_option (\<lambda>r. fn_decrypt ?F (k # ks) (tc_cipher r)) (t_find key q rows)"
  proof (cases "t_find key q rows")
    case None
    with none show ?thesis by simp
  next
    case (Some x)
    then have "x \<in> set rows" by (auto dest: t_find_Some)
    let ?rot = "\<lambda>m. rotate_row env (k # ks) (key_fingerprint ?F k) ok owner m x"
    from some [OF Some] clean obtain m where m: "t_find key q rows' = Some (rotated_row (?rot m)
        (\<lambda>token. resealed env token (key_fingerprint ?F k) actor) x)" "?rot m \<noteq> RowFailed" by auto
    from rotated_row_opens(3) [OF assms(1) m(2) _ k] sealed [OF \<open>x \<in> set rows\<close>] show ?thesis
      by (simp add: m(1) Some)
  qed
qed (use assms(2,3) in simp_all)

lemma user_table_kept:
  assumes "fernet_laws (ce_fernet env)" and "ring_ok env st" and "load_keys env = Inr (k # ks)"
    and "distinct (map user_key (cs_users st))" and "reencrypt_user_table env actor st = (Inr c, st')"
  shows "table_kept (ce_fernet env) k ks user_key (cs_users st) (cs_users st') c"
    and "tier_table t st' = tier_table t st" and "ring_ok env st'" and "cs_ring st' = Some (k # ks)"
proof -
  let ?fp = "key_fingerprint (ce_fernet env) k"
  obtain ring st1 where mf: "get_multifernet env st = (Inr ring, st1)"
    using assms(5) by (auto simp: reencrypt_user_table_def split: prod.splits sum.splits)
  from ring_loaded [OF assms(2) mf] assms(3) have ring: "ring = k # ks" "st1 = st\<lparr>cs_ring := Some (k # ks)\<rparr>" "ring_ok env st1" by auto
  have kv: "current_key_version env = Inr ?fp" by (simp add: current_key_version_def assms(3))
  let ?xs = "sort_key ur_user (sort_key tc_connector (cs_users st1))"
  from assms(5) mf kv ring(1) have run: "reencrypt_rows (rotate_row env (k # ks) ?fp (actor_word actor) ur_user) (commit_user env ?fp actor)
      (ce_nonce env) ?xs st1 = (c, st')"
    by (auto simp: reencrypt_user_table_def split: prod.splits)
  have frame: "tier_table t s' = tier_table t s \<and> cs_ring s' = cs_ring s"
    if "reencrypt_rows rot (commit_user env ?fp actor) n xs s = (c', s')" for rot n xs s c' s' t
    using that
    by (induction xs arbitrary: n s c') (auto simp: commit_user_def tier_table_def split: row_rotation.splits prod.splits tier.splits)
  have users: "cs_users st1 = cs_users st" by (simp add: ring(2))
  note walk = user_table.walk_table_rows [OF run, unfolded users, OF assms(4)]
  show "table_kept (ce_fernet env) k ks user_key (cs_users st) (cs_users st') c"
    by (rule table_keptI [OF assms(1)]) (use walk in simp_all)
  show "tier_table t st' = tier_table t st" "cs_ring st' = Some (k # ks)"
    using frame [OF run] ring(2) by (auto simp: tier_table_def split: tier.splits)
  then show "ring_ok env st'" using ring(2,3) by (simp add: ring_ok_def)
qed

lemma tier_table_kept:
  assumes "fernet_laws (ce_fernet env)" and "ring_ok env st" and "load_keys env = Inr (k # ks)"
    and "distinct (map tc_connector (tier_table t st))" and "reencrypt_tier_table env t actor st = (Inr c, st')"
  shows "table_kept (ce_fernet env) k ks tc_connector (tier_table t st) (tier_table t st') c"
    and "cs_users st' = cs_users st" and "s \<noteq> t \<Longrightarrow> tier_table s st' = tier_table s st" and "ring_ok env st'"
    and "cs_ring st' = Some (k # ks)"
proof -
  let ?fp = "key_fingerprint (ce_fernet env) k"
  obtain ring st1 where mf: "get_multifernet env st = (Inr ring, st1)"
    using assms(5) by (auto simp: reencrypt_tier_table_def split: prod.splits sum.splits)
  from ring_loaded [OF assms(2) mf] assms(3) have ring: "ring = k # ks" "st1 = st\<lparr>cs_ring := Some (k # ks)\<rparr>" "ring_ok env st1" by auto
  have kv: "current_key_version env = Inr ?fp" by (simp add: current_key_version_def assms(3))
  have tables: "tier_table s st1 = tier_table s st" "cs_users st1 = cs_users st" for s
    by (cases s; simp add: ring(2) tier_table_def)+
  from assms(5) mf kv ring(1) obtain au where run: "reencrypt_rows (rotate_row env (k # ks) ?fp (tier_actor_word actor) (\<lambda>_. tier_label t))
      (commit_tier env t au ?fp actor) (ce_nonce env) (sort_key tc_connector (tier_table t st1)) st1 = (c, st')"
    by (auto simp: reencrypt_tier_table_def actor_str_tiered_def split: prod.splits sum.splits if_splits)
  have frame: "cs_users s' = cs_users s \<and> cs_ring s' = cs_ring s \<and> (\<forall>s2. s2 \<noteq> t \<longrightarrow> tier_table s2 s' = tier_table s2 s)"
    if "reencrypt_rows rot (commit_tier env t au ?fp actor) n xs s = (c', s')" for rot n xs s c' s'
    using that by (induction xs arbitrary: n s c') (auto simp: commit_tier_def split: row_rotation.splits prod.splits)
  note walk = shared_table.walk_table_rows [OF run, unfolded tables, OF assms(4)]
  show "table_kept (ce_fernet env) k ks tc_connector (tier_table t st) (tier_table t st') c"
    by (rule table_keptI [OF assms(1)]) (use walk in simp_all)
  show "cs_users st' = cs_users st" "cs_ring st' = Some (k # ks)" using frame [OF run] ring(2) tables by auto
  show "tier_table s st' = tier_table s st" if "s \<noteq> t" using frame [OF run] that tables by auto
  show "ring_ok env st'" using frame [OF run] ring(2,3) by (simp add: ring_ok_def)
qed

definition tables_distinct :: "cred_state \<Rightarrow> bool" where
  "tables_distinct st \<longleftrightarrow> distinct (map user_key (cs_users st)) \<and> (\<forall>t. distinct (map tc_connector (tier_table t st)))"

lemma rotation_walks:
  assumes "fernet_laws (ce_fernet env)" and "ring_ok env st" and "tables_distinct st"
    and "load_keys env = Inr (k # ks)" and "reencrypt_all_to_current_version env actor all_cred_tables st = (Inr s, st')"
  obtains cu ch ci where
    "table_kept (ce_fernet env) k ks user_key (cs_users st) (cs_users st') cu"
    "table_kept (ce_fernet env) k ks tc_connector (tier_table Household st) (tier_table Household st') ch"
    "table_kept (ce_fernet env) k ks tc_connector (tier_table Instance st) (tier_table Instance st') ci"
    "rs_by_tier s = [(''user'', cu), (''household'', ch), (''system'', ci)]"
    "rs_total s = add_counts cu (add_counts ch (add_counts ci no_counts))"
    "ring_ok env st'" "cs_ring st' = Some (k # ks)"
proof -
  from assms(5) obtain a cu s1 ch s2 ci where
      a: "actor_str actor = Inr a" and
      u: "reencrypt_user_table env a st = (Inr cu, s1)" and
      h: "reencrypt_tier_table env Household a s1 = (Inr ch, s2)" and
      i: "reencrypt_tier_table env Instance a s2 = (Inr ci, st')" and
      s: "s = \<lparr>rs_total = foldr add_counts [cu, ch, ci] no_counts, rs_by_tier = [(''user'', cu), (''household'', ch), (''system'', ci)]\<rparr>"
    by (auto simp: reencrypt_all_to_current_version_def walk_table_def all_cred_tables_def
        reencrypt_household_to_current_version_def reencrypt_system_to_current_version_def split: sum.splits prod.splits)
  have du: "distinct (map user_key (cs_users st))" using assms(3) by (simp add: tables_distinct_def)
  note U = user_table_kept [OF assms(1,2,4) du u]
  have dh: "distinct (map tc_connector (tier_table Household s1))" using assms(3) U(2) by (simp add: tables_distinct_def)
  note H = tier_table_kept [OF assms(1) U(3) assms(4) dh h]
  have di: "distinct (map tc_connector (tier_table Instance s2))" using assms(3) U(2) H(3) by (simp add: tables_distinct_def)
  note I = tier_table_kept [OF assms(1) H(4) assms(4) di i]
  show thesis
    by (rule that [of cu ch ci]) (use U H I s in simp_all)
qed

text \<open>
  Rotating the keys never changes a credential. Whichever rows fail to be re-sealed on the
  way, after \<open>reencrypt_all_to_current_version\<close> every user and both shared tables hold the same
  connectors and every read returns what it returned before; the counts add up to the number of
  rows.
\<close>

theorem rotation_keeps_every_credential:
  assumes "fernet_laws (ce_fernet env)" and "ring_ok env st" and "tables_distinct st"
    and "load_keys env = Inr ring" and "build_multifernet (ce_fernet env) ring = Inr ring"
    and "reencrypt_all_to_current_version env actor all_cred_tables st = (Inr s, st')"
  shows "(\<forall>u c. fst (get_payload env u c st') = fst (get_payload env u c st)) \<and>
    (\<forall>t c. fst (tier_get_payload env t c st') = fst (tier_get_payload env t c st)) \<and>
    map user_key (cs_users st') = map user_key (cs_users st) \<and>
    (\<forall>t. map tc_connector (tier_table t st') = map tc_connector (tier_table t st)) \<and>
    all_counts (rs_total s) = length (cs_users st) + length (tier_table Household st) + length (tier_table Instance st)"
proof -
  obtain k ks where ring: "ring = k # ks" using load_keys_nonempty [OF assms(4)] by (cases ring) auto
  obtain cu ch ci where kept: "table_kept (ce_fernet env) k ks user_key (cs_users st) (cs_users st') cu"
      "table_kept (ce_fernet env) k ks tc_connector (tier_table Household st) (tier_table Household st') ch"
      "table_kept (ce_fernet env) k ks tc_connector (tier_table Instance st) (tier_table Instance st') ci"
    and total: "rs_total s = add_counts cu (add_counts ch (add_counts ci no_counts))" and ok: "ring_ok env st'"
    using rotation_walks [OF assms(1-3) assms(4) [unfolded ring] assms(6)] by metis
  have kept_tier: "\<exists>c. table_kept (ce_fernet env) k ks tc_connector (tier_table t st) (tier_table t st') c" for t
    using kept(2,3) by (cases t) auto
  then have "reads_alike (ce_fernet env) ring ring st st'"
    using kept(1) unfolding reads_alike_def table_kept_def ring by blast
  note same = reads_alike_payloads [OF this assms(2) ok assms(4,5) assms(4,5) refl refl]
  have keys: "map user_key (cs_users st') = map user_key (cs_users st)"
    "map tc_connector (tier_table t st') = map tc_connector (tier_table t st)" for t
    using kept(1) kept_tier [of t] by (auto simp: table_kept_def)
  have "all_counts (rs_total s) = length (cs_users st) + length (tier_table Household st) + length (tier_table Instance st)"
    using kept total by (simp add: table_kept_def all_counts_def add_counts_def no_counts_def)
  with same keys show ?thesis by blast
qed

text \<open>
  C11. When a rotation reports no failure, the old keys can go. Let the configured key
  ring be valid, and any ring already in memory the configured one; let the rows of each table have distinct keys, let Fernet decrypt exactly what its keys
  encrypted, and let no row have been sealed by another key that happens to have the
  fingerprint of the newest one. If a rotation over all three tables reports no failed row, then
  a later process that is configured with the newest key alone reads every credential of
  every table (users, household, instance) with the same payload or the same error, and every
  row of every table carries the newest key's fingerprint.
\<close>

theorem rotation_frees_the_old_keys:
  assumes "fernet_laws (ce_fernet env)" and "ring_ok env st" and "tables_distinct st"
    and "load_keys env = Inr (k # ks)" and "build_multifernet (ce_fernet env) (k # ks) = Inr (k # ks)"
    and "reencrypt_all_to_current_version env actor all_cred_tables st = (Inr s, st')" and "rot_failed (rs_total s) = 0"
    and "\<And>r. r \<in> set (cs_users st) \<Longrightarrow> tc_key r = key_fingerprint (ce_fernet env) k \<Longrightarrow> \<exists>d. sealed_by (ce_fernet env) k d r"
    and "\<And>t r. r \<in> set (tier_table t st) \<Longrightarrow> tc_key r = key_fingerprint (ce_fernet env) k \<Longrightarrow> \<exists>d. sealed_by (ce_fernet env) k d r"
    and "load_keys env' = Inr [k]" and "ce_fernet env' = ce_fernet env" and "ce_connectors env' = ce_connectors env"
  shows "(\<forall>u c. fst (get_payload env' u c (reset_for_tests st')) = fst (get_payload env u c st)) \<and>
    (\<forall>t c. fst (tier_get_payload env' t c (reset_for_tests st')) = fst (tier_get_payload env t c st)) \<and>
    (\<forall>r \<in> set (cs_users st'). tc_key r = key_fingerprint (ce_fernet env) k) \<and>
    (\<forall>t. \<forall>r \<in> set (tier_table t st'). tc_key r = key_fingerprint (ce_fernet env) k)"
proof -
  let ?st = "reset_for_tests st'"
  obtain cu ch ci where kept: "table_kept (ce_fernet env) k ks user_key (cs_users st) (cs_users st') cu"
      "table_kept (ce_fernet env) k ks tc_connector (tier_table Household st) (tier_table Household st') ch"
      "table_kept (ce_fernet env) k ks tc_connector (tier_table Instance st) (tier_table Instance st') ci"
    and total: "rs_total s = add_counts cu (add_counts ch (add_counts ci no_counts))"
    using rotation_walks [OF assms(1-4,6)] by metis
  from assms(7) total have failed: "rot_failed cu = 0" "rot_failed ch = 0" "rot_failed ci = 0"
    by (auto simp: add_counts_def no_counts_def)
  have tier: "map_option (\<lambda>r. fn_decrypt (ce_fernet env) [k] (tc_cipher r)) (t_find tc_connector c (tier_table t st')) =
      map_option (\<lambda>r. fn_decrypt (ce_fernet env) (k # ks) (tc_cipher r)) (t_find tc_connector c (tier_table t st))" for t c
    using kept(2,3) failed(2,3) assms(9) [of _ t] by (cases t) (auto simp: table_kept_def)
  have user: "map_option (\<lambda>r. fn_decrypt (ce_fernet env) [k] (tc_cipher r)) (t_find user_key q (cs_users st')) =
      map_option (\<lambda>r. fn_decrypt (ce_fernet env) (k # ks) (tc_cipher r)) (t_find user_key q (cs_users st))" for q
    using kept(1) failed(1) assms(8) by (cases q) (auto simp: table_kept_def)
  have tables: "cs_users ?st = cs_users st'" "tier_table t ?st = tier_table t st'" for t
    by (cases t; simp add: reset_for_tests_def tier_table_def)+
  have "reads_alike (ce_fernet env) (k # ks) [k] st ?st" using user tier by (simp add: reads_alike_def tables)
  moreover have "ring_ok env' ?st" by (simp add: ring_ok_def reset_for_tests_def)
  moreover have "build_multifernet (ce_fernet env') [k] = Inr [k]"
    using assms(5,11) by (simp add: build_multifernet_def split: if_splits)
  ultimately have same: "fst (get_payload env' u c ?st) = fst (get_payload env u c st)"
      "fst (tier_get_payload env' t c ?st) = fst (tier_get_payload env t c st)" for u c t
    using reads_alike_payloads [OF _ assms(2) _ assms(4,5) assms(10) _ assms(11,12)] by blast+
  have distinct: "distinct (map user_key (cs_users st'))" using kept(1) assms(3) by (simp add: table_kept_def tables_distinct_def)
  have "tc_key r = key_fingerprint (ce_fernet env) k" if "r \<in> set (cs_users st')" for r
    using kept(1) failed(1) t_find_unique [OF distinct that] by (cases "user_key r") (auto simp: table_kept_def)
  moreover have "tc_key r = key_fingerprint (ce_fernet env) k" if "r \<in> set (tier_table t st')" for t r
  proof -
    have "map tc_connector (tier_table t st') = map tc_connector (tier_table t st)"
      using kept(2,3) by (cases t) (simp_all only: table_kept_def)
    then have "distinct (map tc_connector (tier_table t st'))" using assms(3) by (simp add: tables_distinct_def)
    from t_find_unique [OF this that] show ?thesis using kept(2,3) failed(2,3) by (cases t) (auto simp: table_kept_def)
  qed
  ultimately show ?thesis using same by blast
qed

subsection \<open>Resolution\<close>

text \<open>The stored rows a resolution looks at, in the order of precedence.\<close>

definition candidates :: "user_id \<Rightarrow> string \<Rightarrow> cred_state \<Rightarrow> (string \<times> string option) list" where
  "candidates u connector st =
     [(''user'', map_option tc_cipher (t_find user_key (u, connector) (cs_users st))),
      (''household'', map_option tc_cipher (t_find tc_connector connector (tier_table Household st))),
      (''system'', map_option tc_cipher (t_find tc_connector connector (tier_table Instance st)))]"

lemma get_payload_read:
  assumes "require_registered (ce_connectors env) connector = Inr ()"
  shows "get_payload env u connector st = (case t_find user_key (u, connector) (cs_users st) of None \<Rightarrow> (Inr None, st)
    | Some r \<Rightarrow> map_prod (map_sum id Some) id (decrypt_payload env (tc_cipher r) st))"
  using assms by (auto simp: get_payload_def split: option.splits prod.splits sum.splits)

lemma tier_get_payload_read:
  assumes "require_registered (ce_connectors env) connector = Inr ()"
  shows "tier_get_payload env t connector st = (case t_find tc_connector connector (tier_table t st) of None \<Rightarrow> (Inr None, st)
    | Some r \<Rightarrow> map_prod (map_sum id Some) id (decrypt_payload env (tc_cipher r) st))"
  using assms by (auto simp: tier_get_payload_def split: option.splits prod.splits sum.splits)

text \<open>
  C4. The resolver never downgrades. The result of \<open>resolve_runtime_credential\<close> is decided by the
  first tier that has a row, user before household before instance: that row's payload with
  its tier, or the error of opening it. A row that cannot be opened, or an unusable key ring,
  never lets a lower tier or the environment answer; the environment answers only when no tier
  has a row and authentication is off.
\<close>

theorem resolver_never_downgrades:
  assumes "py_strip caller \<noteq> []" and "require_registered (ce_connectors env) connector = Inr ()"
  shows "fst (resolve_runtime_credential env caller connector fallback_env st) =
    (case find (\<lambda>(l, ct). ct \<noteq> None) (candidates caller connector st) of
       Some (l, ct) \<Rightarrow> map_sum id (\<lambda>d. \<lparr>rc_payload = d, rc_tier = l\<rparr>) (fst (decrypt_payload env (the ct) st))
     | None \<Rightarrow> (case (if ce_auth env then None else env_fallback env fallback_env) of
         Some d \<Rightarrow> Inr \<lparr>rc_payload = d, rc_tier = ''env''\<rparr>
       | None \<Rightarrow> Inl ConnectorNotConfigured))"
proof -
  let ?u = "t_find user_key (caller, connector) (cs_users st)"
  let ?h = "t_find tc_connector connector (tier_table Household st)"
  let ?i = "t_find tc_connector connector (tier_table Instance st)"
  note read = get_payload_read [OF assms(2)] tier_get_payload_read [OF assms(2)]
  have caller: "resolve_caller_user_id caller = Inr caller" using assms(1) by (simp add: resolve_caller_user_id_def)
  note unfold = resolve_runtime_credential_def candidates_def household_get_payload_def system_get_payload_def
  show ?thesis
  proof (cases ?u)
    case (Some r)
    obtain res st1 where d: "decrypt_payload env (tc_cipher r) st = (res, st1)" by force
    with Some show ?thesis by (cases res) (simp_all add: unfold caller assms(2) read)
  next
    case u: None
    show ?thesis
    proof (cases ?h)
      case (Some r)
      obtain res st1 where d: "decrypt_payload env (tc_cipher r) st = (res, st1)" by force
      with Some u show ?thesis by (cases res) (simp_all add: unfold caller assms(2) read)
    next
      case h: None
      show ?thesis
      proof (cases ?i)
        case (Some r)
        obtain res st1 where d: "decrypt_payload env (tc_cipher r) st = (res, st1)" by force
        with Some u h show ?thesis by (cases res) (simp_all add: unfold caller assms(2) read)
      next
        case None
        with u h show ?thesis by (simp add: unfold caller assms(2) read env_fallback_def split: option.splits)
      qed
    qed
  qed
qed

subsection \<open>What the tables always satisfy\<close>

definition sealed_row :: "fernet \<Rightarrow> 'a tier_cred_scheme \<Rightarrow> bool" where
  "sealed_row F r \<longleftrightarrow> tc_key r < 2 ^ 32 \<and> (\<exists>k d. sealed_by F k d r)"

definition tables_good :: "fernet \<Rightarrow> cred_state \<Rightarrow> bool" where
  "tables_good F st \<longleftrightarrow> tables_distinct st \<and>
     (\<forall>r \<in> set (cs_users st). db_user_row_ok r \<and> sealed_row F r) \<and>
     (\<forall>t. \<forall>r \<in> set (tier_table t st). db_tier_row_ok r \<and> sealed_row F r)"

lemma tables_good_cong:
  assumes "cs_users st' = cs_users st" and "\<And>t. tier_table t st' = tier_table t st"
  shows "tables_good F st' = tables_good F st"
  using assms by (simp add: tables_good_def tables_distinct_def)

lemma rotated_row_sealed:
  assumes "fernet_laws (ce_fernet env)" and "sealed_row (ce_fernet env) r"
  shows "sealed_row (ce_fernet env) (rotated_row (rotate_row env (k # ks) (key_fingerprint (ce_fernet env) k) ok owner m r)
    (\<lambda>token. resealed env token (key_fingerprint (ce_fernet env) k) actor) r)"
proof (cases "rotate_row env (k # ks) (key_fingerprint (ce_fernet env) k) ok owner m r")
  case (RowRotated token)
  let ?F = "ce_fernet env"
  from assms(2) obtain k' d ks' n where d: "distinct_keys (JObj d)" "tc_cipher r = fn_encrypt ?F (k' # ks') n (payload_text d)"
    by (auto simp: sealed_row_def sealed_by_def)
  have dec: "fn_decrypt ?F ring (tc_cipher r) = (if k' \<in> set ring then Some (payload_text d) else None)" for ring
    using assms(1) d(2) by (simp add: fernet_laws_def)
  have "fn_rotate ?F (k # ks) m (tc_cipher r) = map_option (fn_encrypt ?F (k # ks) m) (fn_decrypt ?F (k # ks) (tc_cipher r))"
    using assms(1) unfolding fernet_laws_def by blast
  with RowRotated dec have "token = fn_encrypt ?F (k # ks) m (payload_text d)"
    by (auto simp: rotate_row_def split: if_splits option.splits)
  with RowRotated d(1) fingerprint_bound [OF assms(1)] show ?thesis
    by (auto simp: rotated_row_def resealed_def sealed_row_def sealed_by_def)
qed (use assms(2) in \<open>simp_all add: rotated_row_def\<close>)

lemma rotated_ok: "rotate_row env ring fp ok owner m r = RowRotated token \<Longrightarrow> ok"
  by (auto simp: rotate_row_def split: if_splits option.splits)

lemma get_multifernet_kept:
  assumes "ring_ok env st" and "get_multifernet env st = (res, st1)"
  shows "ring_ok env st1" and "cs_users st1 = cs_users st" and "tier_table t st1 = tier_table t st"
    and "tables_good F st1 = tables_good F st"
proof -
  have "ring_ok env st1 \<and> cs_users st1 = cs_users st \<and> (\<forall>t. tier_table t st1 = tier_table t st)"
  proof (cases res)
    case (Inl e)
    then have "st1 = st"
      using assms(2) by (auto simp: get_multifernet_def split: option.splits sum.splits)
    with assms(1) show ?thesis by simp
  next
    case (Inr ring)
    with ring_loaded [OF assms(1)] assms(2) show ?thesis by (auto simp: tier_table_def split: tier.splits)
  qed
  then show "ring_ok env st1" "cs_users st1 = cs_users st" "tier_table t st1 = tier_table t st" "tables_good F st1 = tables_good F st"
    by (auto simp: tables_good_def tables_distinct_def)
qed

lemma user_rotation_good:
  assumes "fernet_laws (ce_fernet env)" and "ring_ok env st" and "tables_good (ce_fernet env) st"
    and "reencrypt_user_table env actor st = (res, st')"
  shows "tables_good (ce_fernet env) st' \<and> ring_ok env st'"
proof -
  obtain r st1 where mf: "get_multifernet env st = (r, st1)" by force
  note same = get_multifernet_kept [OF assms(2) mf]
  show ?thesis
  proof (cases res)
    case (Inl e)
    with assms(4) mf have "st' = st1" by (auto simp: reencrypt_user_table_def split: prod.splits sum.splits)
    with same assms(3) show ?thesis by simp
  next
    case (Inr c)
    with assms(4) mf obtain ring where r: "r = Inr ring" by (cases r) (auto simp: reencrypt_user_table_def)
    note ring = ring_loaded [OF assms(2) mf [unfolded r]]
    obtain k ks where k: "ring = k # ks" using ring(2) by (cases ring) auto
    have distinct: "distinct (map user_key (cs_users st))" using assms(3) by (simp add: tables_good_def tables_distinct_def)
    note kept = user_table_kept [OF assms(1,2) ring(1) [unfolded k] distinct assms(4) [unfolded Inr]]
    have kv: "current_key_version env = Inr (key_fingerprint (ce_fernet env) k)" by (simp add: current_key_version_def ring(1) k)
    from assms(4) Inr mf kv k r have run: "reencrypt_rows (rotate_row env (k # ks) (key_fingerprint (ce_fernet env) k) (actor_word actor) ur_user)
        (commit_user env (key_fingerprint (ce_fernet env) k) actor)
        (ce_nonce env) (sort_key ur_user (sort_key tc_connector (cs_users st1))) st1 = (c, st')"
      by (auto simp: reencrypt_user_table_def split: prod.splits)
    have "db_user_row_ok x \<and> sealed_row (ce_fernet env) x" if "x \<in> set (cs_users st')" for x
    proof (rule user_table.walk_table_all [OF run, where P = "\<lambda>x. db_user_row_ok x \<and> sealed_row (ce_fernet env) x"])
      show "db_user_row_ok y \<and> sealed_row (ce_fernet env) y" if "y \<in> set (cs_users st1)" for y
        using that assms(3) same(2) by (auto simp: tables_good_def)
      fix y m
      assume y: "db_user_row_ok y \<and> sealed_row (ce_fernet env) y"
      then show "db_user_row_ok (rotated_row (rotate_row env (k # ks) (key_fingerprint (ce_fernet env) k) (actor_word actor) ur_user m y)
            (\<lambda>token. resealed env token (key_fingerprint (ce_fernet env) k) actor) y) \<and>
          sealed_row (ce_fernet env) (rotated_row (rotate_row env (k # ks) (key_fingerprint (ce_fernet env) k) (actor_word actor) ur_user m y)
            (\<lambda>token. resealed env token (key_fingerprint (ce_fernet env) k) actor) y)"
        by (intro conjI rotated_row_sealed [OF assms(1)])
          (auto simp: rotated_row_def db_user_row_ok_def resealed_def dest: rotated_ok split: row_rotation.splits)
    qed (use distinct same(2) that in simp_all)
    with assms(3) kept show ?thesis by (auto simp: tables_good_def tables_distinct_def table_kept_def)
  qed
qed

lemma tier_rotation_good:
  assumes "fernet_laws (ce_fernet env)" and "ring_ok env st" and "tables_good (ce_fernet env) st"
    and "reencrypt_tier_table env t actor st = (res, st')"
  shows "tables_good (ce_fernet env) st' \<and> ring_ok env st'"
proof -
  obtain r st1 where mf: "get_multifernet env st = (r, st1)" by force
  note same = get_multifernet_kept [OF assms(2) mf]
  show ?thesis
  proof (cases res)
    case (Inl e)
    with assms(4) mf have "st' = st1 \<or> st' = st"
      by (auto simp: reencrypt_tier_table_def split: prod.splits sum.splits)
    with same assms(2,3) show ?thesis by auto
  next
    case (Inr c)
    with assms(4) mf obtain ring where r: "r = Inr ring"
      by (cases r) (auto simp: reencrypt_tier_table_def split: sum.splits)
    note ring = ring_loaded [OF assms(2) mf [unfolded r]]
    obtain k ks where k: "ring = k # ks" using ring(2) by (cases ring) auto
    let ?fp = "key_fingerprint (ce_fernet env) k"
    have distinct: "distinct (map tc_connector (tier_table t st))" using assms(3) by (simp add: tables_good_def tables_distinct_def)
    note kept = tier_table_kept [OF assms(1,2) ring(1) [unfolded k] distinct assms(4) [unfolded Inr]]
    have kv: "current_key_version env = Inr ?fp" by (simp add: current_key_version_def ring(1) k)
    from assms(4) Inr mf kv k r obtain au where run: "reencrypt_rows (rotate_row env (k # ks) ?fp (tier_actor_word actor) (\<lambda>_. tier_label t))
        (commit_tier env t au ?fp actor) (ce_nonce env) (sort_key tc_connector (tier_table t st1)) st1 = (c, st')"
      by (auto simp: reencrypt_tier_table_def actor_str_tiered_def split: prod.splits sum.splits if_splits)
    have "db_tier_row_ok x \<and> sealed_row (ce_fernet env) x" if "x \<in> set (tier_table t st')" for x
    proof (rule shared_table.walk_table_all [OF run, where P = "\<lambda>x. db_tier_row_ok x \<and> sealed_row (ce_fernet env) x"])
      show "db_tier_row_ok y \<and> sealed_row (ce_fernet env) y" if "y \<in> set (tier_table t st1)" for y
        using that assms(3) same(3) by (auto simp: tables_good_def)
      fix y m
      assume y: "db_tier_row_ok y \<and> sealed_row (ce_fernet env) y"
      then show "db_tier_row_ok (rotated_row (rotate_row env (k # ks) ?fp (tier_actor_word actor) (\<lambda>_. tier_label t) m y)
            (\<lambda>token. resealed env token ?fp actor) y) \<and>
          sealed_row (ce_fernet env) (rotated_row (rotate_row env (k # ks) ?fp (tier_actor_word actor) (\<lambda>_. tier_label t) m y)
            (\<lambda>token. resealed env token ?fp actor) y)"
        by (intro conjI rotated_row_sealed [OF assms(1)])
          (auto simp: rotated_row_def db_tier_row_ok_def resealed_def dest: rotated_ok split: row_rotation.splits)
    qed (use distinct same(3) that in simp_all)
    then have "\<forall>s. \<forall>x \<in> set (tier_table s st'). db_tier_row_ok x \<and> sealed_row (ce_fernet env) x"
      using assms(3) kept(3) by (metis tables_good_def)
    moreover have "distinct (map tc_connector (tier_table s st'))" for s
      using assms(3) kept(1) kept(3) [of s] by (cases "s = t") (auto simp: tables_good_def tables_distinct_def table_kept_def)
    ultimately show ?thesis using assms(3) kept by (auto simp: tables_good_def tables_distinct_def)
  qed
qed

lemma put_good:
  assumes "fernet_laws (ce_fernet env)" and "ring_ok env st" and "tables_good (ce_fernet env) st"
    and "distinct_keys (JObj payload)" and "put_payload env u connector payload actor st = (res, st')"
  shows "tables_good (ce_fernet env) st' \<and> ring_ok env st'"
proof (cases res)
  case (Inl e)
  obtain r st1 where mf: "get_multifernet env st = (r, st1)" by force
  note same = get_multifernet_kept [OF assms(2) mf]
  from Inl assms(5) mf have "st' = st \<or> st' = st1"
    by (auto simp: put_payload_def encrypt_payload_def Let_def split: sum.splits prod.splits if_splits option.splits)
  with same assms(2,3) show ?thesis by auto
next
  case (Inr row)
  then obtain ring st1 where mf: "get_multifernet env st = (Inr ring, st1)"
    using assms(5) by (auto simp: put_payload_def encrypt_payload_def split: sum.splits prod.splits)
  note ring = ring_loaded [OF assms(2) mf]
  obtain k ks where k: "ring = k # ks" using ring(2) by (cases ring) auto
  let ?kv = "key_fingerprint (ce_fernet env) k"
  let ?ct = "fn_encrypt (ce_fernet env) (k # ks) (ce_nonce env) (payload_text payload)"
  note put = put_payload_effect [OF assms(2) assms(5) [unfolded Inr] ring(1), unfolded k list.sel]
  have sealed: "sealed_row (ce_fernet env) r" if "tc_cipher r = ?ct" "tc_key r = ?kv" for r :: user_cred
    using that assms(4) fingerprint_bound [OF assms(1)] by (auto simp: sealed_row_def sealed_by_def)
  have new: "db_user_row_ok (new_user_row env u connector ?ct ?kv actor)" by (rule put(5))
  then have actor: "actor_word actor" by (simp add: db_user_row_ok_def new_user_row_def)
  have rows: "set (cs_users st') \<subseteq> insert (new_user_row env u connector ?ct ?kv actor)
      (set (cs_users st) \<union> overwrite_user_row env ?ct ?kv actor ` set (cs_users st))"
    unfolding put(1) by (auto simp: t_upsert_def set_update_where)
  have "db_user_row_ok r \<and> sealed_row (ce_fernet env) r" if "r \<in> set (cs_users st')" for r
    using that rows new actor sealed assms(3)
    by (auto simp: tables_good_def db_user_row_ok_def overwrite_user_row_def new_user_row_def)
  moreover have "distinct (map user_key (cs_users st'))"
    unfolding put(1) using assms(3)
    by (intro distinct_upsert) (auto simp: overwrite_user_row_def user_key_def tables_good_def tables_distinct_def)
  moreover have "tier_table t st' = tier_table t st" for t using put(6,7) by (cases t) (simp_all add: tier_table_def)
  ultimately have "tables_good (ce_fernet env) st'" using assms(3) by (auto simp: tables_good_def tables_distinct_def)
  moreover have "ring_ok env st'" using put(8) ring(1,3,4) k by (simp add: ring_ok_def)
  ultimately show ?thesis by blast
qed

lemma tier_put_good:
  assumes "fernet_laws (ce_fernet env)" and "ring_ok env st" and "tables_good (ce_fernet env) st"
    and "distinct_keys (JObj payload)" and "tier_put_payload env t connector payload actor st = (res, st')"
  shows "tables_good (ce_fernet env) st' \<and> ring_ok env st'"
proof -
  obtain r st1 where mf: "get_multifernet env st = (r, st1)" by force
  note same = get_multifernet_kept [OF assms(2) mf]
  show ?thesis
  proof (cases res)
    case (Inl e)
    from Inl assms(5) mf have "st' = st \<or> st' = st1"
      by (auto simp: tier_put_payload_def encrypt_payload_def Let_def split: sum.splits prod.splits if_splits option.splits)
    with same assms(2,3) show ?thesis by auto
  next
    case (Inr row)
    then obtain ring where r: "r = Inr ring"
      using assms(5) mf by (auto simp: tier_put_payload_def encrypt_payload_def split: sum.splits prod.splits)
    note ring = ring_loaded [OF assms(2) mf [unfolded r]]
    obtain k ks where k: "ring = k # ks" using ring(2) by (cases ring) auto
    let ?kv = "key_fingerprint (ce_fernet env) k"
    let ?ct = "fn_encrypt (ce_fernet env) (k # ks) (ce_nonce env) (payload_text payload)"
    let ?new = "new_tier_row env connector ?ct ?kv actor"
    let ?rows = "t_upsert tc_connector (resealed env ?ct ?kv actor) ?new (tier_table t st1)"
    have kv: "current_key_version env = Inr ?kv" by (simp add: current_key_version_def ring(1) k)
    have enc: "encrypt_payload env payload st = (Inr ?ct, st1)" by (simp add: encrypt_payload_def mf r k)
    from assms(5) Inr obtain au where ok: "db_tier_row_ok ?new"
      "st' = emit_cred_audit env au connector action_put actor ?kv (tier_label t) (set_tier_table t ?rows st1)"
      using enc kv by (auto simp: tier_put_payload_def actor_str_tiered_def Let_def split: sum.splits if_splits option.splits)
    then have actor: "tier_actor_word actor" by (simp add: db_tier_row_ok_def new_tier_row_def)
    have sealed: "sealed_row (ce_fernet env) x" if "tc_cipher x = ?ct" "tc_key x = ?kv" for x :: tier_cred
      using that assms(4) fingerprint_bound [OF assms(1)] by (auto simp: sealed_row_def sealed_by_def)
    have rows: "set ?rows \<subseteq> insert ?new (set (tier_table t st) \<union> resealed env ?ct ?kv actor ` set (tier_table t st))"
      by (auto simp: t_upsert_def set_update_where same(3))
    have "db_tier_row_ok x \<and> sealed_row (ce_fernet env) x" if "x \<in> set ?rows" for x
      using that rows ok(1) actor sealed assms(3)
      by (auto simp: tables_good_def db_tier_row_ok_def resealed_def new_tier_row_def)
    moreover have "distinct (map tc_connector ?rows)"
      using assms(3) by (intro distinct_upsert) (auto simp: resealed_def tables_good_def tables_distinct_def same(3))
    moreover have "tier_table s st' = (if s = t then ?rows else tier_table s st)" for s
      using ok(2) same(3) by auto
    moreover have "cs_users st' = cs_users st" using ok(2) same(2) by simp
    ultimately have "tables_good (ce_fernet env) st'" using assms(3) by (auto simp: tables_good_def tables_distinct_def)
    moreover have "ring_ok env st'" using ok(2) same(1) by (simp add: ring_ok_def)
    ultimately show ?thesis by blast
  qed
qed

lemma delete_good:
  assumes "ring_ok env st" and "tables_good F st"
  shows "tables_good F (snd (delete_payload env u connector actor st))" and "ring_ok env (snd (delete_payload env u connector actor st))"
    and "tables_good F (snd (tier_delete_payload env t connector actor st))" and "ring_ok env (snd (tier_delete_payload env t connector actor st))"
proof -
  have del: "set (t_delete key q rows) \<subseteq> set rows" for key :: "'r \<Rightarrow> 'k" and q rows by (auto simp: t_delete_def)
  let ?d = "st\<lparr>cs_users := t_delete user_key (u, connector) (cs_users st)\<rparr>"
  have "tier_table s ?d = tier_table s st" for s by (cases s) (simp_all add: tier_table_def)
  then have "tables_good F ?d"
    using assms(2) distinct_t_delete [of user_key "cs_users st"] del [of user_key "(u, connector)" "cs_users st"]
    by (auto simp: tables_good_def tables_distinct_def)
  then have good: "tables_good F (fire_change u connector a (emit_cred_audit env v c b ac kv tl ?d))" for a v c b ac kv tl
    by (subst tables_good_cong [of _ ?d]) (auto simp: fire_change_def tier_table_def split: tier.splits)
  then show "tables_good F (snd (delete_payload env u connector actor st))"
    using assms(2) by (auto simp: delete_payload_def split: sum.splits option.splits)
  show "ring_ok env (snd (delete_payload env u connector actor st))"
    using assms(1) by (auto simp: delete_payload_def fire_change_def ring_ok_def split: sum.splits option.splits)
  let ?t = "set_tier_table t (t_delete tc_connector connector (tier_table t st)) st"
  have "tier_table s ?t = (if s = t then t_delete tc_connector connector (tier_table t st) else tier_table s st)" for s by auto
  then have "tables_good F ?t"
    using assms(2) distinct_t_delete [of tc_connector "tier_table t st"] del [of tc_connector connector "tier_table t st"]
    by (auto simp: tables_good_def tables_distinct_def)
  then have "tables_good F (emit_cred_audit env v c b ac kv tl ?t)" for v c b ac kv tl
    by (subst tables_good_cong [of _ ?t]) auto
  then show "tables_good F (snd (tier_delete_payload env t connector actor st))"
    using assms(2) by (auto simp: tier_delete_payload_def split: sum.splits option.splits)
  show "ring_ok env (snd (tier_delete_payload env t connector actor st))"
    using assms(1) by (auto simp: tier_delete_payload_def ring_ok_def split: sum.splits option.splits)
qed

lemma pause_good:
  assumes "ring_ok env st" and "tables_good F st"
  shows "tables_good F (snd (set_delivery_paused env u connector paused reason detail actor st))"
    and "ring_ok env (snd (set_delivery_paused env u connector paused reason detail actor st))"
proof -
  let ?res = "snd (set_delivery_paused env u connector paused reason detail actor st)"
  have "\<exists>f. ?res = st\<lparr>cs_users := update_where (\<lambda>r. user_key r = (u, connector)) f (cs_users st)\<rparr> \<and>
      (\<forall>r \<in> set (cs_users st). user_key r = (u, connector) \<longrightarrow> actor_word actor) \<and>
      (\<forall>r. user_key (f r) = user_key r \<and> tc_cipher (f r) = tc_cipher r \<and> tc_key (f r) = tc_key r \<and>
        tc_created_by (f r) = tc_created_by r \<and> tc_updated_by (f r) = actor) \<or> ?res = st"
    by (auto simp: set_delivery_paused_def actor_str_def Let_def user_key_def list_ex_iff split: sum.splits
        intro: exI [of _ "\<lambda>r. r\<lparr>ur_paused := True, ur_reason := reason, ur_detail := map_option (take 512) detail,
          ur_paused_at := Some (ce_now env), tc_updated_at := ce_now env, tc_updated_by := actor\<rparr>"]
        exI [of _ "\<lambda>r. r\<lparr>ur_paused := False, ur_reason := None, ur_detail := None, ur_paused_at := None,
          tc_updated_at := ce_now env, tc_updated_by := actor\<rparr>"])
  then consider "?res = st" | (upd) f where "?res = st\<lparr>cs_users := update_where (\<lambda>r. user_key r = (u, connector)) f (cs_users st)\<rparr>"
      "\<And>r. r \<in> set (cs_users st) \<Longrightarrow> user_key r = (u, connector) \<Longrightarrow> actor_word actor"
      "\<And>r. user_key (f r) = user_key r" "\<And>r. tc_cipher (f r) = tc_cipher r" "\<And>r. tc_key (f r) = tc_key r"
      "\<And>r. tc_created_by (f r) = tc_created_by r" "\<And>r. tc_updated_by (f r) = actor"
    by blast
  then have "tables_good F ?res \<and> ring_ok env ?res"
  proof cases
    case 1
    with assms show ?thesis by simp
  next
    case upd
    let ?rows = "update_where (\<lambda>r. user_key r = (u, connector)) f (cs_users st)"
    have "db_user_row_ok r \<and> sealed_row F r" if "r \<in> set ?rows" for r
      using that
    proof (cases rule: in_update_whereE)
      case kept
      with assms(2) show ?thesis by (simp add: tables_good_def)
    next
      case (updated x)
      with assms(2) have "db_user_row_ok x" "sealed_row F x" by (auto simp: tables_good_def)
      with updated upd(2-) show ?thesis
        by (simp add: db_user_row_ok_def sealed_row_def sealed_by_def) (metis prod.inject user_key_def)
    qed
    moreover have "distinct (map user_key ?rows)"
      using assms(2) upd(3) by (subst map_key_update_where) (auto simp: tables_good_def tables_distinct_def)
    moreover have "tier_table t ?res = tier_table t st" for t unfolding upd(1) by (cases t) (simp_all add: tier_table_def)
    ultimately show ?thesis using assms unfolding upd(1) by (auto simp: tables_good_def tables_distinct_def ring_ok_def)
  qed
  then show "tables_good F ?res" "ring_ok env ?res" by blast+
qed

text \<open>
  A run of the program on its tables: restarts under another configuration (the process forgets
  its ring), the clock with fresh randomness and the fate of the next updates, and the
  operations. A list with a repeated key is no dictionary and is not stored.
\<close>

datatype cred_event =
    Restart string string "string list"
  | Clock instant nat "user_id \<Rightarrow> string \<Rightarrow> bool"
  | PutUser user_id string json_obj string
  | DeleteUser user_id string string
  | PauseUser user_id string bool "string option" "string option" string
  | ReadUser user_id string
  | PutTier tier string json_obj string
  | DeleteTier tier string string
  | RotateAll string "string list"

definition cred_apply :: "cred_env \<times> cred_state \<Rightarrow> cred_event \<Rightarrow> cred_env \<times> cred_state" where
  "cred_apply s e =
     (case s of (env, st) \<Rightarrow>
       (case e of
          Restart keys key connectors \<Rightarrow>
            (env\<lparr>ce_keys := keys, ce_key := key, ce_connectors := connectors\<rparr>, reset_for_tests st)
        | Clock now n fails \<Rightarrow> (env\<lparr>ce_now := now, ce_nonce := n, ce_update_fails := fails\<rparr>, st)
        | PutUser u c d actor \<Rightarrow> if distinct_keys (JObj d) then (env, snd (put_payload env u c d actor st)) else (env, st)
        | DeleteUser u c actor \<Rightarrow> (env, snd (delete_payload env u c actor st))
        | PauseUser u c p r d actor \<Rightarrow> (env, snd (set_delivery_paused env u c p r d actor st))
        | ReadUser u c \<Rightarrow> (env, snd (get_payload env u c st))
        | PutTier t c d actor \<Rightarrow> if distinct_keys (JObj d) then (env, snd (tier_put_payload env t c d actor st)) else (env, st)
        | DeleteTier t c actor \<Rightarrow> (env, snd (tier_delete_payload env t c actor st))
        | RotateAll actor tables \<Rightarrow> (env, snd (reencrypt_all_to_current_version env actor tables st))))"

definition cred_good :: "cred_env \<times> cred_state \<Rightarrow> bool" where
  "cred_good s \<longleftrightarrow> fernet_laws (ce_fernet (fst s)) \<and> ring_ok (fst s) (snd s) \<and> tables_good (ce_fernet (fst s)) (snd s)"

lemma walk_good:
  assumes "\<And>st res st'. ring_ok env st \<Longrightarrow> tables_good F st \<Longrightarrow> run st = (res, st') \<Longrightarrow> tables_good F st' \<and> ring_ok env st'"
    and "tables_good F (snd acc) \<and> ring_ok env (snd acc)"
  shows "tables_good F (snd (walk_table table tables label run acc)) \<and> ring_ok env (snd (walk_table table tables label run acc))"
  using assms(2) assms(1) [of "snd acc"]
  by (cases acc; cases "fst acc"; cases "run (snd acc)") (auto simp: walk_table_def split: sum.splits)

lemma rotation_good:
  assumes "fernet_laws (ce_fernet env)" and "ring_ok env st" and "tables_good (ce_fernet env) st"
  shows "tables_good (ce_fernet env) (snd (reencrypt_all_to_current_version env actor tables st)) \<and>
    ring_ok env (snd (reencrypt_all_to_current_version env actor tables st))"
proof (cases "actor_str actor")
  case (Inl e)
  with assms show ?thesis by (simp add: reencrypt_all_to_current_version_def)
next
  case (Inr a)
  define w1 where "w1 = walk_table ''user_connector_credentials'' tables ''user'' (reencrypt_user_table env a) (Inr [], st)"
  define w2 where "w2 = walk_table ''household_connector_credentials'' tables ''household'' (reencrypt_household_to_current_version env a) w1"
  define w where "w = walk_table ''instance_system_connector_credentials'' tables ''system'' (reencrypt_system_to_current_version env a) w2"
  have "tables_good (ce_fernet env) (snd w1) \<and> ring_ok env (snd w1)"
    unfolding w1_def by (rule walk_good, rule user_rotation_good [OF assms(1)], assumption+) (use assms in simp)
  then have "tables_good (ce_fernet env) (snd w2) \<and> ring_ok env (snd w2)"
    unfolding w2_def reencrypt_household_to_current_version_def
    by (intro walk_good, elim tier_rotation_good [OF assms(1), rotated 2]) assumption+
  then have "tables_good (ce_fernet env) (snd w) \<and> ring_ok env (snd w)"
    unfolding w_def reencrypt_system_to_current_version_def
    by (intro walk_good, elim tier_rotation_good [OF assms(1), rotated 2]) assumption+
  moreover have "snd (reencrypt_all_to_current_version env actor tables st) = snd w"
    by (cases w; cases "fst w") (simp_all add: reencrypt_all_to_current_version_def Inr flip: w1_def w2_def w_def)
  ultimately show ?thesis by simp
qed

lemma cred_apply_good: "cred_good s \<Longrightarrow> cred_good (cred_apply s e)"
proof -
  assume good: "cred_good s"
  obtain env st where s: "s = (env, st)" by force
  from good have laws: "fernet_laws (ce_fernet env)" and ring: "ring_ok env st" and tables: "tables_good (ce_fernet env) st"
    by (simp_all add: cred_good_def s)
  have keep: "cred_good (env, st')" if "tables_good (ce_fernet env) st' \<and> ring_ok env st'" for st'
    using that laws by (simp add: cred_good_def)
  show ?thesis
  proof (cases e)
    case (Restart keys key connectors)
    have "tables_good (ce_fernet env) (reset_for_tests st) = tables_good (ce_fernet env) st"
      by (rule tables_good_cong) (auto simp: reset_for_tests_def tier_table_def split: tier.splits)
    with Restart laws tables show ?thesis by (simp add: s cred_apply_def cred_good_def ring_ok_def reset_for_tests_def)
  next
    case (Clock now n fails)
    have "load_keys (env\<lparr>ce_now := now, ce_nonce := n, ce_update_fails := fails\<rparr>) = load_keys env"
      by (simp add: load_keys_def Let_def cong: if_cong)
    with Clock laws ring tables show ?thesis by (simp add: s cred_apply_def cred_good_def ring_ok_def)
  next
    case (PutUser u c d actor)
    with put_good [OF laws ring tables, of d u c actor] good show ?thesis
      by (cases "put_payload env u c d actor st") (auto simp: s cred_apply_def intro: keep)
  next
    case (DeleteUser u c actor)
    with delete_good [OF ring tables] show ?thesis by (simp add: s cred_apply_def keep)
  next
    case (PauseUser u c p r d actor)
    with pause_good [OF ring tables] show ?thesis by (simp add: s cred_apply_def keep)
  next
    case (ReadUser u c)
    have "tables_good (ce_fernet env) (snd (get_payload env u c st)) \<and> ring_ok env (snd (get_payload env u c st))"
    proof (cases "get_multifernet env st")
      case (Pair r st1)
      from get_multifernet_kept [OF ring Pair] tables ring show ?thesis
        by (auto simp: get_payload_def decrypt_payload_def Pair split: sum.splits option.splits prod.splits)
    qed
    with ReadUser show ?thesis by (simp add: s cred_apply_def keep)
  next
    case (PutTier t c d actor)
    with tier_put_good [OF laws ring tables, of d t c actor] good show ?thesis
      by (cases "tier_put_payload env t c d actor st") (auto simp: s cred_apply_def intro: keep)
  next
    case (DeleteTier t c actor)
    with delete_good [OF ring tables] show ?thesis by (simp add: s cred_apply_def keep)
  next
    case (RotateAll actor tables')
    with rotation_good [OF laws ring tables] show ?thesis by (simp add: s cred_apply_def keep)
  qed
qed

interpretation credential_runs: event_machine cred_apply cred_good
  by unfold_locales (rule cred_apply_good)

definition no_credentials :: cred_state where
  "no_credentials = \<lparr>cs_users = [], cs_household = [], cs_system = [], cs_audit = [], cs_ring = None, cs_changes = []\<rparr>"

text \<open>
  C33. The tables stay well-formed. After any run from empty tables, through any restarts under
  other keys and any failing updates, rows are unique by their key, connectors and actors
  have the form the constraints of the tables demand, every key version fits 32 bits, and every
  ciphertext is a JSON dictionary sealed by exactly the key whose fingerprint the row carries.
\<close>

theorem credential_tables_stay_well_formed:
  assumes "fernet_laws (ce_fernet env)" and "foldl cred_apply (env, no_credentials) events = (env', st)"
  shows "tables_distinct st \<and>
    (\<forall>r \<in> set (cs_users st). db_user_row_ok r \<and> tc_key r < 2 ^ 32 \<and> (\<exists>k d. sealed_by (ce_fernet env') k d r)) \<and>
    (\<forall>t. \<forall>r \<in> set (tier_table t st). db_tier_row_ok r \<and> tc_key r < 2 ^ 32 \<and> (\<exists>k d. sealed_by (ce_fernet env') k d r))"
proof -
  have "tier_table t no_credentials = []" for t by (cases t) (simp_all add: tier_table_def no_credentials_def)
  then have "tables_good (ce_fernet env) no_credentials"
    by (simp add: tables_good_def tables_distinct_def) (simp add: no_credentials_def)
  then have "cred_good (env, no_credentials)"
    using assms(1) by (simp add: cred_good_def ring_ok_def no_credentials_def)
  from credential_runs.run_good [OF this, of events] assms(2) show ?thesis
    by (simp add: cred_good_def tables_good_def sealed_row_def)
qed

text \<open>
  With authentication on, the key a model provider is called with comes from the requesting
  user's own stored credential for that vendor, decrypted, and is never blank; the
  environment of the process is not looked at.
\<close>

theorem api_key_is_the_users_own:
  assumes "effective_api_key env u v st = (Inr api_key, st')" and "ce_auth env"
  shows "api_key \<noteq> [] \<and> (\<exists>c r d raw. connector_for_api_key_env v = Some c \<and>
    t_find user_key (case u of Some i \<Rightarrow> i | None \<Rightarrow> [], c) (cs_users st) = Some r \<and>
    fst (decrypt_payload env (tc_cipher r) st) = Inr d \<and> map_of d ''api_key'' = Some (JStr raw) \<and> api_key = py_strip raw)"
proof -
  let ?i = "case u of Some i \<Rightarrow> i | None \<Rightarrow> []"
  from assms obtain c where c: "connector_for_api_key_env v = Some c"
    by (cases "connector_for_api_key_env v") (auto simp: effective_api_key_def)
  with assms obtain d st1 where d: "resolve_credential env ?i c (Some v) st = (Inr d, st1)"
    by (auto simp: effective_api_key_def split: prod.splits sum.splits)
  with assms c obtain raw where raw: "map_of d ''api_key'' = Some (JStr raw)" "api_key = py_strip raw" "py_strip raw \<noteq> []"
    by (auto simp: effective_api_key_def Let_def split: option.splits json.splits if_splits)
  from d assms(2) obtain r where r: "t_find user_key (?i, c) (cs_users st) = Some r" "decrypt_payload env (tc_cipher r) st = (Inr d, st1)"
    by (auto simp: resolve_credential_def env_fallback_def split: sum.splits option.splits)
  then have "fst (decrypt_payload env (tc_cipher r) st) = Inr d" by simp
  with c r(1) raw show ?thesis by metis
qed

subsection \<open>A concrete library and runs\<close>

text \<open>Tokens that name their key: its length in unary, a mark, the key, the text.\<close>

definition plain_fernet :: fernet where
  "plain_fernet =
     (let open_token = (\<lambda>ring t. let n = length (takeWhile (\<lambda>c. c = CHR ''x'') t); body = drop (Suc n) t in
                          if take n body \<in> set ring then Some (drop n body) else None);
          seal = (\<lambda>ring (n::nat) m. replicate (length (hd ring)) (CHR ''x'') @ CHR ''!'' # hd ring @ m)
      in \<lparr>fn_accepts = (\<lambda>k. True), fn_encrypt = seal, fn_decrypt = open_token,
          fn_rotate = (\<lambda>ring n t. map_option (seal ring n) (open_token ring t)),
          fn_sha256 = (\<lambda>k. replicate 32 (length k mod 256))\<rparr>)"

lemma plain_fernet_laws: "fernet_laws plain_fernet"
proof -
  have "takeWhile (\<lambda>c. c = CHR ''x'') (replicate n (CHR ''x'') @ CHR ''!'' # t) = replicate n (CHR ''x'')" for n t
    by (induction n) auto
  then show ?thesis by (simp add: fernet_laws_def plain_fernet_def Let_def)
qed

definition sample_cred_env :: "string \<Rightarrow> cred_env" where
  "sample_cred_env keys = \<lparr>ce_fernet = plain_fernet, ce_keys = keys, ce_key = [], ce_auth = True, ce_environ = (\<lambda>v. []),
     ce_connectors = default_connectors, ce_audit_ok = True, ce_update_fails = (\<lambda>u c. False), ce_now = 7, ce_nonce = 1\<rparr>"

definition sample_payload :: json_obj where
  "sample_payload = [(''api_key'', JStr '' k1 '')]"

definition sample_put :: cred_state where
  "sample_put = snd (put_payload (sample_cred_env ''ka'') ''ann'' ''llm_openai'' sample_payload ''self'' no_credentials)"

lemma plain_laws:
  "fn_decrypt plain_fernet ring (fn_encrypt plain_fernet (k # ks) n m) = (if k \<in> set ring then Some m else None)"
  "fn_rotate plain_fernet (k # ks) n t = map_option (fn_encrypt plain_fernet (k # ks) n) (fn_decrypt plain_fernet (k # ks) t)"
  using plain_fernet_laws unfolding fernet_laws_def by blast+

lemma sample_fingerprints: "key_fingerprint plain_fernet ''ka'' \<noteq> key_fingerprint plain_fernet ''kbb''"
proof -
  have four: "replicate 4 x = [x, x, x, x]" for x :: nat by (simp add: numeral_eq_Suc)
  have "key_fingerprint plain_fernet k = foldl (\<lambda>acc b. acc * 256 + b) 0 (replicate 4 (length k mod 256))" for k
    by (simp add: key_fingerprint_def plain_fernet_def Let_def)
  then show ?thesis by (simp add: four)
qed

lemma sample_keys:
  "load_keys (sample_cred_env ''ka'') = Inr [''ka'']" "load_keys (sample_cred_env ''kbb,ka'') = Inr [''kbb'', ''ka'']"
  "load_keys (sample_cred_env ''kbb'') = Inr [''kbb'']"
  by code_simp+

lemma sample_ring:
  "ce_fernet (sample_cred_env keys) = plain_fernet" "build_multifernet plain_fernet ks = Inr ks"
  "ce_connectors (sample_cred_env keys) = default_connectors" "ce_auth (sample_cred_env keys)"
  by (simp_all add: sample_cred_env_def build_multifernet_def plain_fernet_def list_all_iff Let_def)

lemma sample_registered: "require_registered default_connectors ''llm_openai'' = Inr ()"
  by code_simp

lemma sample_put_runs:
  "\<exists>row. put_payload (sample_cred_env ''ka'') ''ann'' ''llm_openai'' sample_payload ''self'' no_credentials = (Inr row, sample_put)"
proof -
  have "\<exists>row st. put_payload (sample_cred_env ''ka'') ''ann'' ''llm_openai'' sample_payload ''self'' no_credentials = (Inr row, st)"
    by (simp add: put_payload_def sample_ring sample_registered actor_str_def dollar_match_def actor_word_def encrypt_payload_def
        get_multifernet_def no_credentials_def sample_keys current_key_version_def db_user_row_ok_def new_user_row_def
        db_connector_ok_def connector_word_def connector_char_def is_lower_letter_def code_point_def
        t_upsert_def t_find_Cons user_key_def Let_def)
  then show ?thesis by (auto simp: sample_put_def)
qed

lemma sample_distinct: "distinct_keys (JObj sample_payload)"
  by (simp add: sample_payload_def)

lemma sample_ring_ok: "ring_ok env no_credentials" "ring_ok env (reset_for_tests st)"
  by (simp_all add: ring_ok_def no_credentials_def reset_for_tests_def)

theorem stored_credential_reads_back_witness:
  "\<exists>d. fst (get_payload (sample_cred_env ''kbb,ka'') ''ann'' ''llm_openai'' (reset_for_tests sample_put)) = Inr (Some d) \<and>
    same_json (JObj sample_payload) (JObj d)"
proof -
  obtain row where put: "put_payload (sample_cred_env ''ka'') ''ann'' ''llm_openai'' sample_payload ''self'' no_credentials = (Inr row, sample_put)"
    using sample_put_runs by blast
  show ?thesis
    using stored_credential_reads_back [OF _ sample_ring_ok(1) sample_distinct put, where env' = "sample_cred_env ''kbb,ka''"
        and st'' = "reset_for_tests sample_put" and k = "''ka''" and ks = "[]" and ring = "[''kbb'', ''ka'']"]
    by (simp add: sample_ring sample_ring_ok plain_fernet_laws sample_keys default_connectors_def) (simp add: reset_for_tests_def)
qed

theorem credential_tables_stay_well_formed_witness:
  "tables_distinct (snd (foldl cred_apply (sample_cred_env ''ka'', no_credentials)
     [PutUser ''ann'' ''llm_openai'' sample_payload ''self'', Restart ''kbb,ka'' [] default_connectors, RotateAll ''system'' all_cred_tables]))"
proof -
  let ?run = "foldl cred_apply (sample_cred_env ''ka'', no_credentials)
     [PutUser ''ann'' ''llm_openai'' sample_payload ''self'', Restart ''kbb,ka'' [] default_connectors, RotateAll ''system'' all_cred_tables]"
  obtain env' st where run: "?run = (env', st)" by force
  from credential_tables_stay_well_formed [OF _ run] show ?thesis unfolding run by (simp add: sample_ring plain_fernet_laws)
qed

lemma sample_row: "cs_users sample_put = [new_user_row (sample_cred_env ''ka'') ''ann'' ''llm_openai''
    (fn_encrypt plain_fernet [''ka''] 1 (payload_text sample_payload)) (key_fingerprint plain_fernet ''ka'') ''self'']"
  "cs_household sample_put = []" "cs_system sample_put = []"
proof -
  obtain row where put: "put_payload (sample_cred_env ''ka'') ''ann'' ''llm_openai'' sample_payload ''self'' no_credentials = (Inr row, sample_put)"
    using sample_put_runs by blast
  have "ce_nonce (sample_cred_env ''ka'') = 1" by (simp add: sample_cred_env_def)
  then show "cs_users sample_put = [new_user_row (sample_cred_env ''ka'') ''ann'' ''llm_openai''
      (fn_encrypt plain_fernet [''ka''] 1 (payload_text sample_payload)) (key_fingerprint plain_fernet ''ka'') ''self'']"
    "cs_household sample_put = []" "cs_system sample_put = []"
    using put_payload_effect [OF sample_ring_ok(1) put sample_keys(1)]
    by (simp_all add: sample_ring t_upsert_def no_credentials_def)
qed

lemma sample_rotation_runs:
  "\<exists>s st'. reencrypt_all_to_current_version (sample_cred_env ''kbb,ka'') ''system'' all_cred_tables (reset_for_tests sample_put) = (Inr s, st') \<and>
    rot_failed (rs_total s) = 0"
proof -
  let ?env = "sample_cred_env ''kbb,ka''"
  let ?st = "reset_for_tests sample_put"
  let ?r = "new_user_row (sample_cred_env ''ka'') ''ann'' ''llm_openai''
      (fn_encrypt plain_fernet [''ka''] 1 (payload_text sample_payload)) (key_fingerprint plain_fernet ''ka'') ''self''"
  note fp = sample_fingerprints
  note laws = plain_laws
  have rot: "\<exists>t. rotate_row ?env [''kbb'', ''ka''] (key_fingerprint plain_fernet ''kbb'') (actor_word ''system'') ur_user n ?r = RowRotated t" for n
    using fp by (simp add: rotate_row_def new_user_row_def sample_ring laws actor_word_def tier_actor_word_def)
      (simp add: sample_cred_env_def)
  have mf: "get_multifernet ?env ?st = (Inr [''kbb'', ''ka''], ?st\<lparr>cs_ring := Some [''kbb'', ''ka'']\<rparr>)"
    by (simp add: get_multifernet_def reset_for_tests_def sample_keys sample_ring)
  have fields: "cs_users ?st = cs_users sample_put" "cs_household ?st = cs_household sample_put" "cs_system ?st = cs_system sample_put"
    by (simp_all add: reset_for_tests_def)
  have kv: "current_key_version ?env = Inr (key_fingerprint plain_fernet ''kbb'')"
    by (simp add: current_key_version_def sample_keys sample_ring)
  obtain c1 s1 where u: "reencrypt_user_table ?env ''system'' ?st = (Inr c1, s1)" "rot_failed c1 = 0" "cs_ring s1 = Some [''kbb'', ''ka'']"
      "cs_household s1 = []" "cs_system s1 = []"
    using rot [of "ce_nonce ?env"] sample_row fields
    by (auto simp: reencrypt_user_table_def mf kv no_counts_def commit_user_def)
  have tier: "\<exists>c s'. reencrypt_tier_table ?env t ''system'' s = (Inr c, s') \<and> rot_failed c = 0 \<and> s' = s"
    if "cs_ring s = Some [''kbb'', ''ka'']" "tier_table t s = []" for t s
    using that by (simp add: reencrypt_tier_table_def actor_str_tiered_def dollar_match_def tier_actor_word_def get_multifernet_def
        extract_admin_caller_user_id_def kv no_counts_def)
  obtain c2 where h: "reencrypt_tier_table ?env Household ''system'' s1 = (Inr c2, s1)" "rot_failed c2 = 0"
    using tier [of s1 Household] u(3,4) by (auto simp: tier_table_def)
  obtain c3 where i: "reencrypt_tier_table ?env Instance ''system'' s1 = (Inr c3, s1)" "rot_failed c3 = 0"
    using tier [of s1 Instance] u(3,5) by (auto simp: tier_table_def)
  show ?thesis
    using u(1,2) h i
    by (simp add: reencrypt_all_to_current_version_def walk_table_def all_cred_tables_def actor_str_def dollar_match_def actor_word_def
        tier_actor_word_def reencrypt_household_to_current_version_def reencrypt_system_to_current_version_def add_counts_def no_counts_def)
qed

lemma sample_tables: "tables_distinct (reset_for_tests sample_put)"
proof -
  have "tier_table t (reset_for_tests sample_put) = []" for t
    using sample_row by (cases t) (simp_all add: tier_table_def reset_for_tests_def)
  then show ?thesis using sample_row(1) by (simp add: tables_distinct_def) (simp add: reset_for_tests_def)
qed

theorem rotation_keeps_every_credential_witness:
  "\<exists>s st'. reencrypt_all_to_current_version (sample_cred_env ''kbb,ka'') ''system'' all_cred_tables (reset_for_tests sample_put) = (Inr s, st') \<and>
    fst (get_payload (sample_cred_env ''kbb,ka'') ''ann'' ''llm_openai'' st') =
    fst (get_payload (sample_cred_env ''kbb,ka'') ''ann'' ''llm_openai'' (reset_for_tests sample_put))"
proof -
  obtain s st' where run: "reencrypt_all_to_current_version (sample_cred_env ''kbb,ka'') ''system'' all_cred_tables
      (reset_for_tests sample_put) = (Inr s, st')" using sample_rotation_runs by blast
  from rotation_keeps_every_credential [OF _ sample_ring_ok(2) sample_tables sample_keys(2) _ run] run show ?thesis
    by (simp add: sample_ring plain_fernet_laws)
qed

theorem rotation_frees_the_old_keys_witness:
  "\<exists>s st'. reencrypt_all_to_current_version (sample_cred_env ''kbb,ka'') ''system'' all_cred_tables (reset_for_tests sample_put) = (Inr s, st') \<and>
    fst (get_payload (sample_cred_env ''kbb'') ''ann'' ''llm_openai'' (reset_for_tests st')) =
    fst (get_payload (sample_cred_env ''kbb,ka'') ''ann'' ''llm_openai'' (reset_for_tests sample_put))"
proof -
  obtain s st' where run: "reencrypt_all_to_current_version (sample_cred_env ''kbb,ka'') ''system'' all_cred_tables
      (reset_for_tests sample_put) = (Inr s, st')" "rot_failed (rs_total s) = 0" using sample_rotation_runs by blast
  note fp = sample_fingerprints
  have users: "cs_users (reset_for_tests sample_put) = cs_users sample_put" by (simp add: reset_for_tests_def)
  have tiers: "tier_table t (reset_for_tests sample_put) = []" for t
    using sample_row by (cases t) (simp_all add: tier_table_def reset_for_tests_def)
  have "fst (get_payload (sample_cred_env ''kbb'') ''ann'' ''llm_openai'' (reset_for_tests st')) =
      fst (get_payload (sample_cred_env ''kbb,ka'') ''ann'' ''llm_openai'' (reset_for_tests sample_put))"
    using rotation_frees_the_old_keys [OF _ sample_ring_ok(2) sample_tables sample_keys(2) _ run, where env' = "sample_cred_env ''kbb''"] fp
    by (simp add: sample_ring plain_fernet_laws sample_keys users tiers sample_row new_user_row_def)
  with run(1) show ?thesis by blast
qed

theorem resolver_never_downgrades_witness:
  "fst (resolve_runtime_credential (sample_cred_env ''kbb'') ''ann'' ''llm_openai'' None (reset_for_tests sample_put)) = Inl CredentialUnavailable"
proof -
  have blank: "py_strip ''ann'' \<noteq> []" by code_simp
  have users: "cs_users (reset_for_tests sample_put) = cs_users sample_put" by (simp add: reset_for_tests_def)
  have "fn_decrypt plain_fernet [''kbb''] (fn_encrypt plain_fernet [''ka''] 1 m) = None" for m by (simp add: plain_laws)
  then have "fst (decrypt_payload (sample_cred_env ''kbb'') (fn_encrypt plain_fernet [''ka''] 1 m) (reset_for_tests sample_put)) = Inl CredentialUnavailable" for m
    using decrypt_with_ring [OF sample_ring_ok(2) sample_keys(3)] by (simp add: sample_ring)
  then show ?thesis
    using resolver_never_downgrades [OF blank, where env = "sample_cred_env ''kbb''" and connector = "''llm_openai''" and fallback_env = None
        and st = "reset_for_tests sample_put"]
    by (simp add: sample_ring sample_registered candidates_def users sample_row t_find_Cons user_key_def new_user_row_def)
qed

theorem api_key_is_the_users_own_witness:
  "\<exists>api_key st'. effective_api_key (sample_cred_env ''ka'') (Some ''ann'') ''OPENAI_API_KEY'' (reset_for_tests sample_put) = (Inr api_key, st') \<and>
    api_key \<noteq> []"
proof -
  let ?env = "sample_cred_env ''ka''"
  let ?st = "reset_for_tests sample_put"
  have users: "cs_users ?st = cs_users sample_put" by (simp add: reset_for_tests_def)
  have conn: "connector_for_api_key_env ''OPENAI_API_KEY'' = Some ''llm_openai''" by code_simp
  have open_it: "fst (decrypt_payload ?env (fn_encrypt plain_fernet [''ka''] 1 (payload_text sample_payload)) ?st) = Inr (sorted_payload sample_payload)"
    using decrypt_with_ring [OF sample_ring_ok(2) sample_keys(1)] plain_fernet_laws read_payload_text [OF sample_distinct]
    by (simp add: sample_ring fernet_laws_def)
  have "map_of (sorted_payload sample_payload) ''api_key'' = Some (JStr '' k1 '')" "map_of (sorted_payload sample_payload) ''value'' = None"
    by (simp_all add: sorted_payload_def sample_payload_def)
  moreover have "py_strip '' k1 '' \<noteq> []" by code_simp
  ultimately have "\<exists>api_key st'. effective_api_key ?env (Some ''ann'') ''OPENAI_API_KEY'' ?st = (Inr api_key, st')"
    using open_it by (cases "decrypt_payload ?env (fn_encrypt plain_fernet [''ka''] 1 (payload_text sample_payload)) ?st")
      (auto simp: effective_api_key_def conn resolve_credential_def sample_ring sample_registered users sample_row t_find_Cons user_key_def
        new_user_row_def Let_def)
  then obtain api_key st' where run: "effective_api_key ?env (Some ''ann'') ''OPENAI_API_KEY'' ?st = (Inr api_key, st')" by blast
  from api_key_is_the_users_own [OF run sample_ring(4)] run show ?thesis by blast
qed

end
