(* ===== verification/BearerTokens.thy ===== *)
theory BearerTokens
  imports Prelude
begin

section \<open>Opaque bearer tokens with an indexed prefix\<close>

text \<open>
  What the tokens of \<open>services/mcp_tokens.py\<close> (\<open>lmcp_...\<close>) and the invite links of
  \<open>services/user_invites.py\<close> (\<open>linv_...\<close>) share: 28 random bytes written in lower-case
  base32, a 16-character prefix to look a row up by, the SHA-256 of the whole text as the
  only copy the server keeps, and a loop that tries again when the prefix is taken. SHA-256
  is a parameter; the random bytes and ids are those of the call.
\<close>

subsection \<open>The text of a token\<close>

definition byte_bits :: "nat \<Rightarrow> bool list" where
  "byte_bits b = map (\<lambda>i. odd (b div 2 ^ i)) [7, 6, 5, 4, 3, 2, 1, 0]"

definition bits_value :: "bool list \<Rightarrow> nat" where
  "bits_value bs = foldl (\<lambda>acc b. 2 * acc + of_bool b) 0 bs"

text \<open>\<open>base64.b32encode(raw).decode().rstrip("=")\<close>: groups of five bits, the last filled up with zeros.\<close>

definition b32_char :: "nat \<Rightarrow> char" where
  "b32_char n = (if n < 26 then char_of (65 + n) else char_of (24 + n))"

fun b32_groups :: "bool list \<Rightarrow> string" where
  "b32_groups [] = []"
| "b32_groups (b # bs) =
     b32_char (bits_value (take 5 ((b # bs) @ replicate 4 False))) # b32_groups (drop 4 bs)"

definition b32encode :: "nat list \<Rightarrow> string" where
  "b32encode raw = b32_groups (concat (map byte_bits raw))"

definition token_body_bytes :: nat where
  "token_body_bytes = 28"

definition lookup_prefix_len :: nat where
  "lookup_prefix_len = 16"

definition generate_plaintext :: "string \<Rightarrow> nat list \<Rightarrow> string \<times> string" where
  "generate_plaintext tag raw = (let body = py_lower (b32encode raw) in (tag @ body, take lookup_prefix_len body))"

definition parse_body :: "string \<Rightarrow> string \<Rightarrow> string option" where
  "parse_body tag s =
     (if \<not> starts_with tag s then None
      else let body = drop (length tag) s in
           if length body < lookup_prefix_len then None else Some (take lookup_prefix_len body))"

text \<open>
  \<open>plaintext.encode("ascii")\<close> fails on any other character. The exceptions of the token
  services; a failed statement carries what its message says.
\<close>

datatype bearer_error =
    NotAscii
  | UniqueViolation string
  | OtherDbError string
  | RetriesExhausted

definition ascii_only :: "string \<Rightarrow> bool" where
  "ascii_only s = list_all (\<lambda>c. code_point c < 128) s"

definition hash_plaintext :: "(string \<Rightarrow> string) \<Rightarrow> string \<Rightarrow> bearer_error + string" where
  "hash_plaintext h s = (if ascii_only s then Inr (h s) else Inl NotAscii)"

subsection \<open>Minting with a bounded number of attempts\<close>

definition mint_collision_budget :: nat where
  "mint_collision_budget = 5"

text \<open>The message of a unique violation holds the word.\<close>

definition retryable :: "bearer_error \<Rightarrow> bool" where
  "retryable e = (case e of UniqueViolation _ \<Rightarrow> True | OtherDbError msg \<Rightarrow> is_infix_of ''unique'' (py_lower msg) | _ \<Rightarrow> False)"

fun mint_loop :: "nat \<Rightarrow> (nat \<Rightarrow> 's \<Rightarrow> bearer_error + 'r \<times> 's) \<Rightarrow> nat \<Rightarrow> 's \<Rightarrow> bearer_error + 'r \<times> 's" where
  "mint_loop 0 attempt k s = Inl RetriesExhausted"
| "mint_loop (Suc n) attempt k s =
     (case attempt k s of
        Inr res \<Rightarrow> Inr res
      | Inl e \<Rightarrow> if retryable e then mint_loop n attempt (Suc k) s else Inl e)"

lemma mint_loop_Inr: "mint_loop n attempt k s = Inr res \<Longrightarrow> \<exists>j. k \<le> j \<and> j < k + n \<and> attempt j s = Inr res"
proof (induction n arbitrary: k)
  case 0
  then show ?case by simp
next
  case (Suc n)
  show ?case
  proof (cases "attempt k s")
    case (Inr r)
    with Suc.prems show ?thesis by (intro exI [of _ k]) simp
  next
    case (Inl e)
    with Suc.prems have "mint_loop n attempt (Suc k) s = Inr res" by (simp split: if_splits)
    from Suc.IH [OF this] show ?thesis by (auto intro: Suc_leD)
  qed
qed

lemma mint_loop_first: "attempt k s = Inr res \<Longrightarrow> 0 < n \<Longrightarrow> mint_loop n attempt k s = Inr res"
  by (cases n) auto

subsection \<open>Length and alphabet\<close>

lemma length_byte_bits [simp]: "length (byte_bits b) = 8"
  by (simp add: byte_bits_def)

lemma length_concat_bits: "length (concat (map byte_bits raw)) = 8 * length raw"
  by (induction raw) simp_all

lemma length_b32_groups: "length (b32_groups bs) = (length bs + 4) div 5"
proof (induction bs rule: b32_groups.induct)
  case 1
  then show ?case by simp
next
  case (2 b bs)
  then show ?case by (cases "length bs < 4") simp_all
qed

lemma foldl_bits_bound:
  fixes a :: nat
  shows "foldl (\<lambda>acc b. 2 * acc + of_bool b) a bs + 1 \<le> (a + 1) * 2 ^ length bs"
proof (induction bs arbitrary: a)
  case Nil
  then show ?case by simp
next
  case (Cons b bs)
  have "(2 * a + of_bool b + 1) * 2 ^ length bs \<le> (a + 1) * 2 ^ length (b # bs)" by simp
  with Cons [of "2 * a + of_bool b"] show ?case by (simp only: foldl.simps)
qed

lemma bits_value_bound: "bits_value bs < 2 ^ length bs"
  using foldl_bits_bound [of 0 bs] by (simp add: bits_value_def)

definition b32_lower :: "char \<Rightarrow> bool" where
  "b32_lower c = (is_lower_letter c \<or> (50 \<le> code_point c \<and> code_point c \<le> 55))"

lemma b32_char_lower:
  assumes "n < 32"
  shows "b32_lower (lower_char (b32_char n))"
proof (cases "n < 26")
  case True
  then have "code_point (b32_char n) = 65 + n" by (simp add: b32_char_def code_point_def)
  with True have "code_point (lower_char (b32_char n)) = 97 + n"
    by (simp add: lower_char_def Let_def code_point_def)
  with True show ?thesis by (simp add: b32_lower_def is_lower_letter_def)
next
  case False
  with assms have "code_point (b32_char n) = 24 + n" by (simp add: b32_char_def code_point_def)
  with False assms show ?thesis by (simp add: lower_char_def Let_def b32_lower_def)
qed

lemma b32_groups_lower: "list_all b32_lower (py_lower (b32_groups bs))"
proof (induction bs rule: b32_groups.induct)
  case 1
  then show ?case by (simp add: py_lower_def)
next
  case (2 b bs)
  have "length (take 5 ((b # bs) @ replicate 4 False)) = 5" by simp
  then have "bits_value (take 5 ((b # bs) @ replicate 4 False)) < 32"
    using bits_value_bound [of "take 5 ((b # bs) @ replicate 4 False)"] by simp
  with 2 show ?case by (simp add: py_lower_def b32_char_lower)
qed

lemma generated_token:
  assumes "generate_plaintext tag raw = (plain, prefix)" and "length raw = token_body_bytes"
  shows "length plain = length tag + 45" "length prefix = lookup_prefix_len" "parse_body tag plain = Some prefix"
    "ascii_only tag \<Longrightarrow> ascii_only plain" "list_all b32_lower (drop (length tag) plain)"
proof -
  let ?body = "py_lower (b32encode raw)"
  have parts: "plain = tag @ ?body" "prefix = take lookup_prefix_len ?body"
    using assms(1) by (auto simp: generate_plaintext_def Let_def)
  have len: "length ?body = 45"
    using assms(2) by (simp add: py_lower_def b32encode_def length_b32_groups length_concat_bits token_body_bytes_def)
  have low: "list_all b32_lower ?body" by (simp add: b32encode_def b32_groups_lower)
  show "length plain = length tag + 45" by (simp add: parts len)
  show "length prefix = lookup_prefix_len" by (simp add: parts len lookup_prefix_len_def)
  show "parse_body tag plain = Some prefix" by (simp add: parse_body_def starts_with_def parts len lookup_prefix_len_def)
  show "list_all b32_lower (drop (length tag) plain)" using low by (simp add: parts)
  have "list_all (\<lambda>c. code_point c < 128) ?body"
    using low by (rule list.pred_mono_strong) (auto simp: b32_lower_def is_lower_letter_def)
  then show "ascii_only plain" if "ascii_only tag" using that by (simp add: ascii_only_def parts)
qed

subsection \<open>Contract: rows found by the prefix of a live token\<close>

text \<open>
  A table with a partial unique index on the prefix of its live rows. \<open>retire\<close> ends the life
  of a row (a revocation, a redemption) and nothing brings it back.
\<close>

definition live_prefixes :: "('r \<Rightarrow> string) \<Rightarrow> ('r \<Rightarrow> bool) \<Rightarrow> 'r list \<Rightarrow> string list" where
  "live_prefixes prefix_of live rows = map prefix_of (filter live rows)"

locale prefix_table =
  fixes prefix_of :: "'r \<Rightarrow> string"
    and live :: "'r \<Rightarrow> bool"
    and retire :: "'c \<Rightarrow> 'r \<Rightarrow> 'r"
  assumes retire_prefix: "prefix_of (retire c r) = prefix_of r"
    and retire_dead: "\<not> live (retire c r)"
begin

lemma lookup_live:
  "find (\<lambda>r. prefix_of r = p \<and> live r) rows = Some r \<Longrightarrow> r \<in> set rows \<and> prefix_of r = p \<and> live r"
  by (auto simp: find_Some_iff)

lemma lookup_unique:
  assumes "distinct (live_prefixes prefix_of live rows)" and "r \<in> set rows" and "live r"
  shows "find (\<lambda>x. prefix_of x = prefix_of r \<and> live x) rows = Some r"
  using assms
proof (induction rows)
  case Nil
  then show ?case by simp
next
  case (Cons x rows)
  show ?case
  proof (cases "x = r")
    case True
    with Cons.prems(3) show ?thesis by simp
  next
    case False
    with Cons.prems have "r \<in> set rows" by simp
    moreover from this have "\<not> (prefix_of x = prefix_of r \<and> live x)"
      using Cons.prems(1,3) by (auto simp: live_prefixes_def image_iff)
    moreover have "distinct (live_prefixes prefix_of live rows)"
      using Cons.prems(1) by (auto simp: live_prefixes_def split: if_splits)
    ultimately show ?thesis using Cons.IH Cons.prems(3) by auto
  qed
qed

lemma lookup_free: "p \<notin> set (live_prefixes prefix_of live rows) \<Longrightarrow> find (\<lambda>r. prefix_of r = p \<and> live r) rows = None"
  by (auto simp: find_None_iff live_prefixes_def)

lemma retire_prefixes: "set (live_prefixes prefix_of live (update_where q (retire c) rows)) \<subseteq> set (live_prefixes prefix_of live rows)"
  by (auto simp: live_prefixes_def set_update_where retire_dead)

lemma retire_distinct:
  "distinct (live_prefixes prefix_of live rows) \<Longrightarrow> distinct (live_prefixes prefix_of live (update_where q (retire c) rows))"
proof (induction rows)
  case Nil
  then show ?case by simp
next
  case (Cons x rows)
  then have "distinct (live_prefixes prefix_of live rows)" by (auto simp: live_prefixes_def split: if_splits)
  with Cons.IH have "distinct (live_prefixes prefix_of live (update_where q (retire c) rows))" by simp
  moreover have "live x \<Longrightarrow> prefix_of x \<notin> set (live_prefixes prefix_of live (update_where q (retire c) rows))"
    using Cons.prems retire_prefixes [of q c rows] by (auto simp: live_prefixes_def)
  ultimately show ?case by (simp add: live_prefixes_def retire_dead)
qed

lemma append_distinct:
  "distinct (live_prefixes prefix_of live rows) \<Longrightarrow> prefix_of r \<notin> set (live_prefixes prefix_of live rows) \<Longrightarrow> distinct (live_prefixes prefix_of live (rows @ [r]))"
  by (simp add: live_prefixes_def)

lemma retire_kills: "r \<in> set (update_where q (retire c) rows) \<Longrightarrow> live r \<Longrightarrow> r \<in> set rows \<and> \<not> q r"
  by (auto simp: set_update_where retire_dead)

lemma touch_distinct:
  assumes "\<And>r. prefix_of (f r) = prefix_of r \<and> live (f r) = live r"
  shows "live_prefixes prefix_of live (update_where q f rows) = live_prefixes prefix_of live rows"
  using assms by (induction rows) (auto simp: live_prefixes_def)

end

end
