(* ===== verification/McpTokens.thy ===== *)
theory McpTokens
  imports BearerTokens AuthSessions Visibility
begin

section \<open>Tokens of external clients and the gate of the MCP surface\<close>

text \<open>
  Models \<open>services/mcp_tokens.py\<close> over table \<open>mcp_tokens\<close> (migration 014), the gate
  \<open>_check_mcp_bearer\<close> and the bearer branch of \<open>auth_middleware\<close> in \<open>auth.py\<close>, the resolution
  of the user of a tool call and of its scopes in \<open>mcp_server.py\<close>, and the validation of a
  mint request (\<open>models/mcp_token.py\<close>). The message that names a legacy token is given in UTF-8. Decoding a signed token (PyJWT) is a parameter, as is
  \<open>str()\<close> of a JSON value. A cache of timestamps throttles the writes of \<open>last_used_at\<close>.
\<close>

subsection \<open>Rows and state\<close>

record mcp_token =
  mt_id :: string
  mt_user :: user_id
  mt_prefix :: string
  mt_hash :: string
  mt_label :: string
  mt_scopes :: "string list option"
  mt_created :: instant
  mt_last_used :: "instant option"
  mt_expires :: "instant option"
  mt_revoked :: "instant option"

record mcp_state =
  mcp_rows :: "mcp_token list"
  mcp_stamps :: "unit lru"

text \<open>
  \<open>be_raw k\<close> and \<open>be_id k\<close> are what \<open>secrets\<close> and \<open>uuid4\<close> return in attempt \<open>k\<close> of a mint;
  \<open>be_check_msg\<close> is the message of the driver when a row violates a check.
\<close>

record bearer_env =
  be_hash :: "string \<Rightarrow> string"
  be_raw :: "nat \<Rightarrow> nat list"
  be_id :: "nat \<Rightarrow> string"
  be_check_msg :: "string \<Rightarrow> string"

definition mcp_live :: "mcp_token \<Rightarrow> bool" where
  "mcp_live r = (mt_revoked r = None)"

definition mcp_revoke_row :: "instant \<Rightarrow> mcp_token \<Rightarrow> mcp_token" where
  "mcp_revoke_row now r = r\<lparr>mt_revoked := Some now\<rparr>"

interpretation mcp: prefix_table mt_prefix mcp_live mcp_revoke_row
  by unfold_locales (simp_all add: mcp_revoke_row_def mcp_live_def)

subsection \<open>The throttle of \<open>last_used_at\<close>\<close>

definition last_stamp_interval :: int where
  "last_stamp_interval = 5 * 60 * 1000000"

definition last_stamp_cache_max :: nat where
  "last_stamp_cache_max = 4096"

definition stamp_get :: "string \<Rightarrow> unit lru \<Rightarrow> instant option \<times> unit lru" where
  "stamp_get k d =
     (case map_of d k of
        None \<Rightarrow> (None, d)
      | Some (_, ts) \<Rightarrow> (Some ts, lru_pop k d @ [(k, (), ts)]))"

definition stamp_put :: "instant \<Rightarrow> string \<Rightarrow> mcp_state \<Rightarrow> mcp_state" where
  "stamp_put now k st = st\<lparr>mcp_stamps := lru_put last_stamp_cache_max now k () (mcp_stamps st)\<rparr>"

definition stamp_used :: "bool \<Rightarrow> instant \<Rightarrow> string \<Rightarrow> mcp_state \<Rightarrow> mcp_state" where
  "stamp_used write_ok now tid st =
     (if write_ok
      then st\<lparr>mcp_rows := update_where (\<lambda>r. mt_id r = tid) (\<lambda>r. r\<lparr>mt_last_used := Some now\<rparr>) (mcp_rows st)\<rparr>
      else st)"

definition maybe_stamp_used :: "bool \<Rightarrow> instant \<Rightarrow> string \<Rightarrow> mcp_state \<Rightarrow> mcp_state" where
  "maybe_stamp_used write_ok now tid st =
     (let (last, d) = stamp_get tid (mcp_stamps st); st1 = st\<lparr>mcp_stamps := d\<rparr> in
      if (case last of None \<Rightarrow> False | Some t \<Rightarrow> now - t < last_stamp_interval) then st1
      else stamp_put now tid (stamp_used write_ok now tid st1))"

subsection \<open>Minting, verification and revocation\<close>

definition mcp_tag :: string where
  "mcp_tag = ''lmcp_''"

definition insert_mcp_row :: "bearer_env \<Rightarrow> mcp_token \<Rightarrow> mcp_state \<Rightarrow> bearer_error + mcp_state" where
  "insert_mcp_row env row st =
     (if mt_label row = [] \<or> length (mt_label row) > 64 then Inl (OtherDbError (be_check_msg env (mt_label row)))
      else if mt_id row \<in> mt_id ` set (mcp_rows st) then Inl (UniqueViolation ''mcp_tokens_pkey'')
      else if mt_prefix row \<in> set (live_prefixes mt_prefix mcp_live (mcp_rows st))
        then Inl (UniqueViolation ''mcp_tokens_active_prefix_uniq'')
      else Inr (st\<lparr>mcp_rows := mcp_rows st @ [row]\<rparr>))"

definition new_mcp_row :: "instant \<Rightarrow> string \<Rightarrow> user_id \<Rightarrow> string \<Rightarrow> string \<Rightarrow> string \<Rightarrow> string list option \<Rightarrow> mcp_token" where
  "new_mcp_row now i u prefix h label scopes =
     \<lparr>mt_id = i, mt_user = u, mt_prefix = prefix, mt_hash = h, mt_label = label, mt_scopes = scopes,
      mt_created = now, mt_last_used = None, mt_expires = None, mt_revoked = None\<rparr>"

definition mint_attempt ::
  "bearer_env \<Rightarrow> instant \<Rightarrow> user_id \<Rightarrow> string \<Rightarrow> string list option \<Rightarrow> nat \<Rightarrow> mcp_state
    \<Rightarrow> bearer_error + (mcp_token \<times> string) \<times> mcp_state" where
  "mint_attempt env now u label scopes k st =
     (let (plain, prefix) = generate_plaintext mcp_tag (be_raw env k) in
      case hash_plaintext (be_hash env) plain of
        Inl e \<Rightarrow> Inl e
      | Inr h \<Rightarrow>
          let row = new_mcp_row now (be_id env k) u prefix h label scopes in
          (case insert_mcp_row env row st of Inl e \<Rightarrow> Inl e | Inr st1 \<Rightarrow> Inr ((row, plain), st1)))"

definition mcp_mint ::
  "bearer_env \<Rightarrow> instant \<Rightarrow> user_id \<Rightarrow> string \<Rightarrow> string list option \<Rightarrow> mcp_state
    \<Rightarrow> (bearer_error + mcp_token \<times> string) \<times> mcp_state" where
  "mcp_mint env now u label scopes st =
     (case mint_loop mint_collision_budget (mint_attempt env now u label scopes) 0 st of
        Inl e \<Rightarrow> (Inl e, st)
      | Inr (res, st1) \<Rightarrow> (Inr res, st1))"

text \<open>\<open>db_ok\<close> is whether the lookup succeeds, \<open>write_ok\<close> whether the stamp can be written.\<close>

definition mcp_verify ::
  "bearer_env \<Rightarrow> bool \<Rightarrow> bool \<Rightarrow> instant \<Rightarrow> string \<Rightarrow> mcp_state \<Rightarrow> (bearer_error + mcp_token option) \<times> mcp_state" where
  "mcp_verify env db_ok write_ok now presented st =
     (case parse_body mcp_tag presented of
        None \<Rightarrow> (Inr None, st)
      | Some prefix \<Rightarrow>
          if \<not> db_ok then (Inr None, st)
          else case find (\<lambda>r. mt_prefix r = prefix \<and> mcp_live r) (mcp_rows st) of
            None \<Rightarrow> (Inr None, st)
          | Some row \<Rightarrow>
              (case hash_plaintext (be_hash env) presented of
                 Inl e \<Rightarrow> (Inl e, st)
               | Inr h \<Rightarrow> if h \<noteq> mt_hash row then (Inr None, st)
                          else (Inr (Some row), maybe_stamp_used write_ok now (mt_id row) st)))"

definition tokens_newest_first :: "(mcp_token \<Rightarrow> bool) \<Rightarrow> bool \<Rightarrow> mcp_state \<Rightarrow> mcp_token list" where
  "tokens_newest_first p include_revoked st =
     sort_key (\<lambda>r. - mt_created r) (filter (\<lambda>r. p r \<and> (include_revoked \<or> mcp_live r)) (mcp_rows st))"

definition list_for_user :: "user_id \<Rightarrow> bool \<Rightarrow> mcp_state \<Rightarrow> mcp_token list" where
  "list_for_user u include_revoked st = tokens_newest_first (\<lambda>r. mt_user r = u) include_revoked st"

definition list_all_tokens :: "bool \<Rightarrow> mcp_state \<Rightarrow> mcp_token list" where
  "list_all_tokens include_revoked st = tokens_newest_first (\<lambda>r. True) include_revoked st"

definition mcp_get_by_id :: "string \<Rightarrow> mcp_state \<Rightarrow> mcp_token option" where
  "mcp_get_by_id tid st = t_find mt_id tid (mcp_rows st)"

definition mcp_revoke :: "instant \<Rightarrow> string \<Rightarrow> mcp_state \<Rightarrow> mcp_token option \<times> mcp_state" where
  "mcp_revoke now tid st =
     (let st1 = st\<lparr>mcp_rows := update_where (\<lambda>r. mt_id r = tid \<and> mcp_live r) (mcp_revoke_row now) (mcp_rows st)\<rparr> in
      case mcp_get_by_id tid st1 of
        None \<Rightarrow> (None, st1)
      | Some row \<Rightarrow> (Some row, stamp_put now tid st1))"

definition cascade_revoke_for_user :: "instant \<Rightarrow> user_id \<Rightarrow> mcp_state \<Rightarrow> mcp_token list \<times> mcp_state" where
  "cascade_revoke_for_user now u st =
     (let hit = map (mcp_revoke_row now) (filter (\<lambda>r. mt_user r = u \<and> mcp_live r) (mcp_rows st));
          st1 = st\<lparr>mcp_rows := update_where (\<lambda>r. mt_user r = u \<and> mcp_live r) (mcp_revoke_row now) (mcp_rows st)\<rparr>
      in (hit, fold (\<lambda>r. stamp_put now (mt_id r)) hit st1))"

subsection \<open>Validation of a mint request\<close>

definition known_mcp_scopes :: "string list" where
  "known_mcp_scopes = [''mcp:read'', ''mcp:write'']"

definition scope_text :: "json \<Rightarrow> string option" where
  "scope_text j = (case j of JStr s \<Rightarrow> if s \<in> set known_mcp_scopes then Some s else None | _ \<Rightarrow> None)"

definition validate_scopes :: "json option \<Rightarrow> string list option option" where
  "validate_scopes j =
     (case j of
        None \<Rightarrow> Some None
      | Some JNull \<Rightarrow> Some None
      | Some (JList xs) \<Rightarrow>
          (let v = map scope_text xs in
           if None \<in> set v \<or> xs = [] then None
           else Some (Some (filter (\<lambda>s. Some s \<in> set v) known_mcp_scopes)))
      | _ \<Rightarrow> None)"

definition validate_mint_request :: "json_obj \<Rightarrow> (string \<times> string list option) option" where
  "validate_mint_request body =
     (if list_ex (\<lambda>(k, v). k \<noteq> ''label'' \<and> k \<noteq> ''scopes'') body then None
      else case (map_of body ''label'', validate_scopes (map_of body ''scopes'')) of
        (Some (JStr l), Some sc) \<Rightarrow> if l \<noteq> [] \<and> length l \<le> 64 then Some (l, sc) else None
      | _ \<Rightarrow> None)"

subsection \<open>The gate\<close>

record gate_env =
  ge_cfg :: auth_config
  ge_shared :: string
  ge_jwt :: "string \<Rightarrow> json_obj option"
  ge_str :: "json \<Rightarrow> string"

definition remove_prefix :: "string \<Rightarrow> string \<Rightarrow> string" where
  "remove_prefix p s = (if starts_with p s then drop (length p) s else s)"

definition read_bearer :: "string \<Rightarrow> string" where
  "read_bearer header = py_strip (remove_prefix ''Bearer '' header)"

text \<open>\<open>hmac.compare_digest\<close> on two texts raises \<open>TypeError\<close> unless both are ASCII.\<close>

definition compare_digest :: "string \<Rightarrow> string \<Rightarrow> bool option" where
  "compare_digest a b = (if ascii_only a \<and> ascii_only b then Some (a = b) else None)"

datatype gate_verdict =
    GateReject string
  | GatePass
  | GateToken string user_id "string list option"
  | GateJwt json_obj
  | GateCrash

definition check_mcp_bearer ::
  "gate_env \<Rightarrow> bearer_env \<Rightarrow> bool \<Rightarrow> bool \<Rightarrow> instant \<Rightarrow> string \<Rightarrow> auth_state \<times> mcp_state
    \<Rightarrow> gate_verdict \<times> (auth_state \<times> mcp_state)" where
  "check_mcp_bearer genv benv db_ok write_ok now header st =
     (let presented = read_bearer header; enabled = ac_enabled (ge_cfg genv);
          shared = py_strip (ge_shared genv); (ast, mst) = st in
      if presented = [] then
        (if enabled then (GateReject ''missing mcp token'', st)
         else if shared = [] then (GatePass, st) else (GateReject ''invalid mcp token'', st))
      else if starts_with mcp_tag presented then
        (case mcp_verify benv db_ok write_ok now presented mst of
           (Inl e, mst1) \<Rightarrow> (GateCrash, (ast, mst1))
         | (Inr None, mst1) \<Rightarrow> (GateReject ''invalid mcp token'', (ast, mst1))
         | (Inr (Some row), mst1) \<Rightarrow> (GateToken (mt_id row) (mt_user row) (mt_scopes row), (ast, mst1)))
      else if \<not> enabled then
        (if shared = [] then (GatePass, st)
         else case compare_digest presented shared of
           None \<Rightarrow> (GateCrash, st)
         | Some True \<Rightarrow> (GatePass, st)
         | Some False \<Rightarrow> (GateReject ''invalid mcp token'', st))
      else case ge_jwt genv presented of
        Some payload \<Rightarrow>
          (case jwt_revocation_failure_reason (ge_cfg genv) db_ok now payload ast of
             (Some _, ast1) \<Rightarrow> (GateReject ''invalid token'', (ast1, mst))
           | (None, ast1) \<Rightarrow> (GateJwt payload, (ast1, mst)))
      | None \<Rightarrow>
          if shared = [] then (GateReject ''invalid mcp token'', st)
          else case compare_digest presented shared of
            None \<Rightarrow> (GateCrash, st)
          | Some True \<Rightarrow> (GateReject (''invalid mcp token (legacy MCP_AUTH_TOKEN not accepted in '' @
              ''multi-user mode; mint a per-user lmcp_'' @ map char_of [226 :: nat, 128, 166] @ '' token via '' @
              ''POST /api/v1/me/mcp-tokens)''), st)
          | Some False \<Rightarrow> (GateReject ''invalid mcp token'', st))"

text \<open>Whose data a tool call reads and writes; the context variables are set by the middleware.\<close>

definition verdict_user :: "gate_verdict \<Rightarrow> user_id option" where
  "verdict_user v = (case v of GateToken i u sc \<Rightarrow> Some u | _ \<Rightarrow> None)"

definition verdict_scopes :: "gate_verdict \<Rightarrow> string list option" where
  "verdict_scopes v = (case v of GateToken i u sc \<Rightarrow> sc | _ \<Rightarrow> None)"

text \<open>\<open>str(v)\<close>: a text is itself, how other values are printed is a parameter.\<close>

definition py_str :: "gate_env \<Rightarrow> json \<Rightarrow> string" where
  "py_str genv v = (case v of JStr s \<Rightarrow> s | _ \<Rightarrow> ge_str genv v)"

definition resolve_user_id :: "gate_env \<Rightarrow> string \<Rightarrow> string \<Rightarrow> gate_verdict \<Rightarrow> user_id option" where
  "resolve_user_id genv fallback header v =
     (let bearer = read_bearer header;
          from_jwt = (if bearer = [] then None else
            case ge_jwt genv bearer of None \<Rightarrow> None
            | Some payload \<Rightarrow> (case map_of payload ''sub'' of
                Some sub \<Rightarrow> if json_truthy sub then Some (py_str genv sub) else None | None \<Rightarrow> None));
          rest = (case from_jwt of Some s \<Rightarrow> Some s
            | None \<Rightarrow> if py_strip fallback = [] then None else Some (py_strip fallback))
      in case verdict_user v of
           Some u \<Rightarrow> if u \<noteq> [] then Some u else rest
         | None \<Rightarrow> rest)"

definition require_scope :: "string \<Rightarrow> gate_verdict \<Rightarrow> bool" where
  "require_scope scope v = (case verdict_scopes v of None \<Rightarrow> True | Some sc \<Rightarrow> scope \<in> set sc)"

subsection \<open>The bearer branch of the middleware\<close>

definition auth_bypass_prefixes :: "string list" where
  "auth_bypass_prefixes = [''/api/v1/auth/login'', ''/api/v1/auth/refresh'', ''/api/v1/auth/logout'',
     ''/api/v1/invites'', ''/healthz'', ''/bundled/start-library-index'', ''/web'']"

definition path_is_bypassed :: "string \<Rightarrow> bool" where
  "path_is_bypassed path = list_ex (\<lambda>p. path = p \<or> starts_with (p @ ''/'') path) auth_bypass_prefixes"

definition default_context :: user_context where
  "default_context = \<lparr>uc_user = ''default'', uc_authenticated = False, uc_role = ''admin'', uc_allows_shared = None\<rparr>"

text \<open>
  The part of \<open>auth_middleware\<close> after the MCP branch. \<open>Inl\<close> is the text of a 401; \<open>Inr None\<close>
  is a path that is let through without a user.
\<close>

definition shared_claim :: "json_obj \<Rightarrow> bool option" where
  "shared_claim payload =
     (case map_of payload ''allows_shared'' of
        None \<Rightarrow> None
      | Some v \<Rightarrow> if v = JBool False \<or> v = JInt 0 then Some False else Some True)"

definition authenticate ::
  "gate_env \<Rightarrow> bool \<Rightarrow> instant \<Rightarrow> string \<Rightarrow> string \<Rightarrow> auth_state \<Rightarrow> (string + user_context option) \<times> auth_state" where
  "authenticate genv db_ok now path header st =
     (if \<not> ac_enabled (ge_cfg genv) then (Inr (Some default_context), st)
      else if path_is_bypassed path then (Inr None, st)
      else let token = read_bearer header in
        if token = [] then (Inl ''missing token'', st)
        else case ge_jwt genv token of
          None \<Rightarrow> (Inl ''invalid token'', st)
        | Some payload \<Rightarrow>
            if payload = [] then (Inl ''invalid token'', st)
            else case jwt_revocation_failure_reason (ge_cfg genv) db_ok now payload st of
              (Some reason, st1) \<Rightarrow> (Inl reason, st1)
            | (None, st1) \<Rightarrow>
                (let role = (case map_of payload ''role'' of None \<Rightarrow> JStr ''user'' | Some r \<Rightarrow> r) in
                 if role \<noteq> JStr ''admin'' \<and> role \<noteq> JStr ''user'' then (Inl ''invalid role'', st1)
                 else case map_of payload ''sub'' of
                   Some (JStr sub) \<Rightarrow> (Inr (Some \<lparr>uc_user = sub, uc_authenticated = True,
                      uc_role = (if role = JStr ''admin'' then ''admin'' else ''user''),
                      uc_allows_shared = shared_claim payload\<rparr>), st1)
                 | _ \<Rightarrow> (Inl ''invalid token'', st1)))"


subsection \<open>Invariant and runs\<close>

definition mcp_good :: "mcp_state \<Rightarrow> bool" where
  "mcp_good st \<longleftrightarrow> distinct (map mt_id (mcp_rows st)) \<and> distinct (live_prefixes mt_prefix mcp_live (mcp_rows st))
     \<and> lru_ok (mcp_stamps st)"

datatype mcp_event =
    MintToken bearer_env instant user_id string "string list option"
  | VerifyToken bearer_env bool bool instant string
  | RevokeToken instant string
  | CascadeTokens instant user_id

fun mcp_apply :: "mcp_state \<Rightarrow> mcp_event \<Rightarrow> mcp_state" where
  "mcp_apply st (MintToken env now u label scopes) = snd (mcp_mint env now u label scopes st)"
| "mcp_apply st (VerifyToken env db_ok write_ok now presented) = snd (mcp_verify env db_ok write_ok now presented st)"
| "mcp_apply st (RevokeToken now tid) = snd (mcp_revoke now tid st)"
| "mcp_apply st (CascadeTokens now u) = snd (cascade_revoke_for_user now u st)"

definition kills :: "mcp_token \<Rightarrow> mcp_event \<Rightarrow> bool" where
  "kills r e = (case e of RevokeToken now tid \<Rightarrow> tid = mt_id r | CascadeTokens now u \<Rightarrow> u = mt_user r | _ \<Rightarrow> False)"

definition same_token :: "mcp_token \<Rightarrow> mcp_token \<Rightarrow> bool" where
  "same_token r r' \<longleftrightarrow> mt_id r = mt_id r' \<and> mt_user r = mt_user r' \<and> mt_prefix r = mt_prefix r' \<and>
     mt_hash r = mt_hash r' \<and> mt_label r = mt_label r' \<and> mt_scopes r = mt_scopes r' \<and> mt_created r = mt_created r'"

lemma same_token_refl [simp]: "same_token r r"
  by (simp add: same_token_def)

lemma same_token_trans: "same_token r s \<Longrightarrow> same_token s t \<Longrightarrow> same_token r t"
  by (simp add: same_token_def)

lemma mcp_revoke_row_simps [simp]:
  "mt_id (mcp_revoke_row now r) = mt_id r" "mt_user (mcp_revoke_row now r) = mt_user r"
  "same_token (mcp_revoke_row now r) r" "\<not> mcp_live (mcp_revoke_row now r)"
  by (simp_all add: mcp_revoke_row_def same_token_def mcp_live_def)

lemma stamp_put_frame [frame]: "mcp_rows (stamp_put now k st) = mcp_rows st"
  by (simp add: stamp_put_def)

lemma fold_stamp_frame [frame]: "mcp_rows (fold (\<lambda>r. stamp_put now (mt_id r)) rs st) = mcp_rows st"
  by (induction rs arbitrary: st) (simp_all add: frame)

lemma stamp_max: "last_stamp_cache_max = token_ver_cache_max"
  by (simp add: last_stamp_cache_max_def token_ver_cache_max_def)

lemma stamp_put_ok: "lru_ok (mcp_stamps st) \<Longrightarrow> lru_ok (mcp_stamps (stamp_put now k st))"
  by (simp add: stamp_put_def stamp_max lru_ops_ok)

lemma fold_stamp_ok:
  "lru_ok (mcp_stamps st) \<Longrightarrow> lru_ok (mcp_stamps (fold (\<lambda>r. stamp_put now (mt_id r)) rs st))"
  by (induction rs arbitrary: st) (simp_all add: stamp_put_ok)

lemma stamp_get_ok:
  assumes "lru_ok d"
  shows "lru_ok (snd (stamp_get k d))"
proof (cases "map_of d k")
  case None
  with assms show ?thesis by (simp add: stamp_get_def)
next
  case (Some v)
  then have "k \<in> fst ` set d" by (force dest: map_of_SomeD)
  then show ?thesis
    using assms lru_pop_distinct [of d k] lru_pop_hit [of k d] Some
    by (auto simp: stamp_get_def lru_ok_def split: prod.splits)
qed

text \<open>Every operation is one of: an insertion, a change of the bookkeeping columns, a revocation.\<close>

lemma maybe_stamp_rows:
  obtains q where "mcp_rows (maybe_stamp_used ok now tid st) =
    update_where q (\<lambda>r. r\<lparr>mt_last_used := Some now\<rparr>) (mcp_rows st)"
proof (cases "mcp_rows (maybe_stamp_used ok now tid st) = mcp_rows st")
  case True
  then show ?thesis using that [of "\<lambda>_. False"] by (simp add: update_where_none)
next
  case False
  then show ?thesis
    using that [of "\<lambda>r. mt_id r = tid"]
    by (auto simp: maybe_stamp_used_def stamp_used_def Let_def frame case_prod_unfold split: if_splits option.splits)
qed

lemma maybe_stamp_ok: "lru_ok (mcp_stamps st) \<Longrightarrow> lru_ok (mcp_stamps (maybe_stamp_used ok now tid st))"
  using stamp_get_ok [of "mcp_stamps st" tid]
  by (auto simp: maybe_stamp_used_def stamp_used_def stamp_put_def stamp_max lru_ops_ok Let_def case_prod_unfold)

lemma mcp_mint_cases:
  obtains (refused) e where "mcp_mint env now u label scopes st = (Inl e, st)"
  | (minted) k plain prefix where "k < mint_collision_budget" "generate_plaintext mcp_tag (be_raw env k) = (plain, prefix)"
      "ascii_only plain" "label \<noteq> []" "length label \<le> 64" "be_id env k \<notin> mt_id ` set (mcp_rows st)"
      "prefix \<notin> set (live_prefixes mt_prefix mcp_live (mcp_rows st))"
      "mcp_mint env now u label scopes st =
        (Inr (new_mcp_row now (be_id env k) u prefix (be_hash env plain) label scopes, plain),
         st\<lparr>mcp_rows := mcp_rows st @ [new_mcp_row now (be_id env k) u prefix (be_hash env plain) label scopes]\<rparr>)"
proof (cases "mint_loop mint_collision_budget (mint_attempt env now u label scopes) 0 st")
  case (Inl e)
  then show ?thesis using refused by (simp add: mcp_mint_def)
next
  case (Inr res)
  then obtain k where k: "k < mint_collision_budget" "mint_attempt env now u label scopes k st = Inr res"
    using mint_loop_Inr [OF Inr] by auto
  obtain plain prefix where g: "generate_plaintext mcp_tag (be_raw env k) = (plain, prefix)" by fastforce
  have asc: "ascii_only plain"
    using k(2) by (auto simp: mint_attempt_def g hash_plaintext_def split: if_splits)
  obtain st1 where "insert_mcp_row env (new_mcp_row now (be_id env k) u prefix (be_hash env plain) label scopes) st = Inr st1"
      and res: "res = ((new_mcp_row now (be_id env k) u prefix (be_hash env plain) label scopes, plain), st1)"
    using k(2) by (auto simp: mint_attempt_def g hash_plaintext_def Let_def split: if_splits sum.splits)
  then show ?thesis
    using Inr k(1) asc g
    by (intro minted [of k plain prefix])
       (auto simp: mcp_mint_def insert_mcp_row_def new_mcp_row_def split: if_splits)
qed

lemma mcp_verify_cases:
  obtains (miss) e where "mcp_verify env db_ok write_ok now presented st = (e, st)" "e = Inl NotAscii \<or> e = Inr None"
  | (hit) row prefix where "parse_body mcp_tag presented = Some prefix" "db_ok" "ascii_only presented"
      "find (\<lambda>r. mt_prefix r = prefix \<and> mcp_live r) (mcp_rows st) = Some row" "be_hash env presented = mt_hash row"
      "mcp_verify env db_ok write_ok now presented st = (Inr (Some row), maybe_stamp_used write_ok now (mt_id row) st)"
proof (cases "fst (mcp_verify env db_ok write_ok now presented st) = Inl NotAscii \<or>
    fst (mcp_verify env db_ok write_ok now presented st) = Inr None")
  case True
  then have "snd (mcp_verify env db_ok write_ok now presented st) = st"
    by (auto simp: mcp_verify_def hash_plaintext_def split: option.splits if_splits)
  with True miss show ?thesis by (metis prod.collapse)
next
  case False
  then show ?thesis
    using hit by (auto simp: mcp_verify_def hash_plaintext_def split: option.splits if_splits)
qed

lemma mint_good: "mcp_good st \<Longrightarrow> mcp_good (snd (mcp_mint env now u label scopes st))"
proof (cases rule: mcp_mint_cases [of env now u label scopes st])
  case (refused e)
  assume "mcp_good st"
  with refused show ?thesis by simp
next
  case (minted k plain prefix)
  assume "mcp_good st"
  with minted show ?thesis by (simp add: mcp_good_def new_mcp_row_def mcp.append_distinct)
qed

lemma stamp_used_good: "mcp_good st \<Longrightarrow> mcp_good (maybe_stamp_used ok now tid st)"
proof -
  assume good: "mcp_good st"
  obtain q where "mcp_rows (maybe_stamp_used ok now tid st) =
      update_where q (\<lambda>r. r\<lparr>mt_last_used := Some now\<rparr>) (mcp_rows st)"
    by (rule maybe_stamp_rows)
  with good show ?thesis
    using maybe_stamp_ok [of st ok now tid]
      mcp.touch_distinct [of "\<lambda>r. r\<lparr>mt_last_used := Some now\<rparr>" q "mcp_rows st"]
    by (simp add: mcp_good_def map_key_update_where mcp_live_def)
qed

lemma verify_good: "mcp_good st \<Longrightarrow> mcp_good (snd (mcp_verify env db_ok write_ok now presented st))"
  by (cases rule: mcp_verify_cases [of env db_ok write_ok now presented st]) (simp_all add: stamp_used_good)

lemma revoke_good: "mcp_good st \<Longrightarrow> mcp_good (snd (mcp_revoke now tid st))"
  by (auto simp: mcp_revoke_def Let_def mcp_good_def frame map_key_update_where mcp.retire_distinct stamp_put_ok
      split: option.splits)

lemma cascade_good: "mcp_good st \<Longrightarrow> mcp_good (snd (cascade_revoke_for_user now u st))"
  by (simp add: cascade_revoke_for_user_def Let_def mcp_good_def frame map_key_update_where mcp.retire_distinct
      fold_stamp_ok)

lemma mcp_apply_good: "mcp_good st \<Longrightarrow> mcp_good (mcp_apply st e)"
  by (cases e) (simp_all add: mint_good verify_good revoke_good cascade_good)

interpretation mcp_runs: event_machine mcp_apply mcp_good
  by unfold_locales (rule mcp_apply_good)

text \<open>What one event does to a row: its identity stays, its life ends exactly if the event kills it.\<close>

lemma t_find_update_same:
  assumes "t_find mt_id i rows = Some r" and "\<And>x. mt_id (f x) = mt_id x"
  shows "t_find mt_id i (update_where q f rows) = Some (if q r then f r else r)"
  using assms by (simp add: t_find_update_where)

lemma apply_row:
  assumes "t_find mt_id i (mcp_rows st) = Some r"
  shows "\<exists>r'. t_find mt_id i (mcp_rows (mcp_apply st e)) = Some r' \<and> same_token r' r \<and>
    (mcp_live r' \<longleftrightarrow> mcp_live r \<and> \<not> kills r e)"
proof (cases e)
  case (MintToken env now u label scopes)
  show ?thesis
    by (cases rule: mcp_mint_cases [of env now u label scopes st])
       (use assms MintToken in \<open>auto simp: kills_def t_find_append\<close>)
next
  case (VerifyToken env db_ok write_ok now presented)
  show ?thesis
  proof (cases rule: mcp_verify_cases [of env db_ok write_ok now presented st])
    case (miss e')
    with VerifyToken assms show ?thesis by (auto simp: kills_def)
  next
    case (hit row prefix)
    obtain q where "mcp_rows (maybe_stamp_used write_ok now (mt_id row) st) =
        update_where q (\<lambda>r. r\<lparr>mt_last_used := Some now\<rparr>) (mcp_rows st)"
      by (rule maybe_stamp_rows)
    with VerifyToken hit t_find_update_same [OF assms, of "\<lambda>r. r\<lparr>mt_last_used := Some now\<rparr>" q] show ?thesis
      by (auto simp: kills_def same_token_def mcp_live_def)
  qed
next
  case (RevokeToken now tid)
  have "mcp_rows (snd (mcp_revoke now tid st)) =
      update_where (\<lambda>r. mt_id r = tid \<and> mcp_live r) (mcp_revoke_row now) (mcp_rows st)"
    by (simp add: mcp_revoke_def Let_def frame split: option.splits)
  moreover have "mt_id r = i" using t_find_Some [OF assms] by simp
  ultimately show ?thesis
    using RevokeToken t_find_update_same [OF assms, of "mcp_revoke_row now" "\<lambda>r. mt_id r = tid \<and> mcp_live r"]
    by (auto simp: kills_def)
next
  case (CascadeTokens now u)
  have "mcp_rows (snd (cascade_revoke_for_user now u st)) =
      update_where (\<lambda>r. mt_user r = u \<and> mcp_live r) (mcp_revoke_row now) (mcp_rows st)"
    by (simp add: cascade_revoke_for_user_def Let_def frame)
  then show ?thesis
    using CascadeTokens t_find_update_same [OF assms, of "mcp_revoke_row now" "\<lambda>r. mt_user r = u \<and> mcp_live r"]
    by (auto simp: kills_def)
qed

lemma kills_same: "same_token r' r \<Longrightarrow> kills r' e = kills r e"
  by (cases e) (simp_all add: kills_def same_token_def)

lemma run_row:
  assumes "t_find mt_id i (mcp_rows st) = Some r"
  shows "\<exists>r'. t_find mt_id i (mcp_rows (foldl mcp_apply st es)) = Some r' \<and> same_token r' r \<and>
    (mcp_live r' \<longleftrightarrow> mcp_live r \<and> \<not> list_ex (kills r) es)"
  using assms
proof (induction es arbitrary: st r)
  case Nil
  then show ?case by simp
next
  case (Cons e es)
  obtain r1 where r1: "t_find mt_id i (mcp_rows (mcp_apply st e)) = Some r1" "same_token r1 r"
      "mcp_live r1 \<longleftrightarrow> mcp_live r \<and> \<not> kills r e"
    using apply_row [OF Cons.prems] by blast
  have "list_ex (kills r1) es = list_ex (kills r) es"
    using kills_same [OF r1(2)] by (simp add: list_ex_iff)
  with Cons.IH [OF r1(1)] r1 show ?case by (auto intro: same_token_trans)
qed

subsection \<open>Properties\<close>

lemma mint_finds:
  assumes "mcp_good st" and "mcp_mint env now u label scopes st = (Inr (row, plain), st1)"
    and "\<And>k. length (be_raw env k) = token_body_bytes"
  shows "mcp_good st1" "t_find mt_id (mt_id row) (mcp_rows st1) = Some row" "mcp_live row"
    "parse_body mcp_tag plain = Some (mt_prefix row)" "ascii_only plain" "mt_hash row = be_hash env plain"
    "mt_user row = u" "mt_scopes row = scopes"
proof -
  show good: "mcp_good st1" using mint_good [OF assms(1), of env now u label scopes] assms(2) by simp
  obtain k prefix where m: "generate_plaintext mcp_tag (be_raw env k) = (plain, prefix)" "ascii_only plain"
      "row = new_mcp_row now (be_id env k) u prefix (be_hash env plain) label scopes" "mcp_rows st1 = mcp_rows st @ [row]"
    using assms(2) by (cases rule: mcp_mint_cases [of env now u label scopes st]) auto
  show "t_find mt_id (mt_id row) (mcp_rows st1) = Some row"
    using good m(4) by (intro t_find_unique) (simp_all add: mcp_good_def)
  show "mcp_live row" "mt_hash row = be_hash env plain" "mt_user row = u" "mt_scopes row = scopes"
    by (simp_all add: m(3) new_mcp_row_def mcp_live_def)
  show "parse_body mcp_tag plain = Some (mt_prefix row)"
    using generated_token(3) [OF m(1) assms(3)] by (simp add: m(3) new_mcp_row_def)
  show "ascii_only plain" by (fact m(2))
qed

text \<open>
  C10. A minted token is accepted until it is revoked, and never after: whatever is minted,
  verified, revoked or cascaded in between, presenting the plaintext yields the row that was
  minted, with its owner and its scopes, exactly if no event revoked that row or cascaded over
  its owner.
\<close>

theorem minted_token_works_until_revoked:
  assumes "mcp_good st" and "mcp_mint env now u label scopes st = (Inr (row, plain), st1)"
    and "\<And>k. length (be_raw env k) = token_body_bytes" and "be_hash env' = be_hash env"
  shows "(\<exists>r. fst (mcp_verify env' True write_ok later plain (foldl mcp_apply st1 es)) = Inr (Some r) \<and>
        mt_id r = mt_id row \<and> mt_user r = u \<and> mt_scopes r = scopes)
      \<longleftrightarrow> \<not> list_ex (kills row) es"
proof -
  let ?st2 = "foldl mcp_apply st1 es"
  note m = mint_finds [OF assms(1-3)]
  have good: "mcp_good ?st2" using m(1) by (rule mcp_runs.run_good)
  obtain r' where r': "t_find mt_id (mt_id row) (mcp_rows ?st2) = Some r'" "same_token r' row"
      "mcp_live r' \<longleftrightarrow> \<not> list_ex (kills row) es"
    using run_row [OF m(2), of es] m(3) by blast
  have in2: "r' \<in> set (mcp_rows ?st2)" "mt_id r' = mt_id row" using t_find_Some [OF r'(1)] by simp_all
  show "(\<exists>r. fst (mcp_verify env' True write_ok later plain ?st2) = Inr (Some r) \<and>
        mt_id r = mt_id row \<and> mt_user r = u \<and> mt_scopes r = scopes) \<longleftrightarrow> \<not> list_ex (kills row) es" (is "?L \<longleftrightarrow> _")
  proof
    assume ?L
    then obtain r where r: "fst (mcp_verify env' True write_ok later plain ?st2) = Inr (Some r)" "mt_id r = mt_id row" by blast
    then have "r \<in> set (mcp_rows ?st2)" "mcp_live r"
      by (cases rule: mcp_verify_cases [of env' True write_ok later plain ?st2]; auto dest: mcp.lookup_live)+
    moreover have "distinct (map mt_id (mcp_rows ?st2))" using good by (simp add: mcp_good_def)
    ultimately have "r = r'" using in2 r(2) by (simp add: distinct_map inj_on_def)
    with \<open>mcp_live r\<close> r'(3) show "\<not> list_ex (kills row) es" by simp
  next
    assume "\<not> list_ex (kills row) es"
    with r'(3) have "mcp_live r'" by simp
    then have "find (\<lambda>x. mt_prefix x = mt_prefix r' \<and> mcp_live x) (mcp_rows ?st2) = Some r'"
      using good in2 by (intro mcp.lookup_unique) (simp_all add: mcp_good_def)
    moreover have "mt_prefix r' = mt_prefix row" "mt_hash r' = mt_hash row" "mt_user r' = u" "mt_scopes r' = scopes"
      using r'(2) m(7,8) by (simp_all add: same_token_def)
    ultimately show ?L
      using m(4-6) assms(4) in2 by (intro exI [of _ r']) (simp add: mcp_verify_def hash_plaintext_def)
  qed
qed

definition sample_bearer_env :: bearer_env where
  "sample_bearer_env = \<lparr>be_hash = (\<lambda>s. ''h'' @ s), be_raw = (\<lambda>k. replicate 28 (k mod 256)), be_id = (\<lambda>k. show_nat k),
     be_check_msg = (\<lambda>s. ''check'')\<rparr>"

definition no_tokens :: mcp_state where
  "no_tokens = \<lparr>mcp_rows = [], mcp_stamps = []\<rparr>"

lemma no_tokens_good: "mcp_good no_tokens"
  by (simp add: mcp_good_def no_tokens_def live_prefixes_def lru_ok_def)

definition ann_token :: mcp_token where
  "ann_token = new_mcp_row 7 (be_id sample_bearer_env 0) ''ann''
     (snd (generate_plaintext mcp_tag (replicate 28 0))) (''h'' @ fst (generate_plaintext mcp_tag (replicate 28 0)))
     ''cursor'' (Some [''mcp:read''])"

lemma ann_minted:
  "mcp_mint sample_bearer_env 7 ''ann'' ''cursor'' (Some [''mcp:read'']) no_tokens =
    (Inr (ann_token, fst (generate_plaintext mcp_tag (replicate 28 0))), no_tokens\<lparr>mcp_rows := [ann_token]\<rparr>)"
proof -
  obtain plain prefix where g: "generate_plaintext mcp_tag (replicate 28 0) = (plain, prefix)" by fastforce
  have "ascii_only plain"
    using generated_token(4) [OF g] by (simp add: token_body_bytes_def ascii_only_def mcp_tag_def code_point_def)
  with g have "mint_attempt sample_bearer_env 7 ''ann'' ''cursor'' (Some [''mcp:read'']) 0 no_tokens =
      Inr ((ann_token, plain), no_tokens\<lparr>mcp_rows := [ann_token]\<rparr>)"
    by (simp add: mint_attempt_def sample_bearer_env_def hash_plaintext_def ann_token_def insert_mcp_row_def
        new_mcp_row_def no_tokens_def live_prefixes_def Let_def)
  then show ?thesis
    using mint_loop_first [of "mint_attempt sample_bearer_env 7 ''ann'' ''cursor'' (Some [''mcp:read''])" 0 no_tokens]
    by (simp add: mcp_mint_def mint_collision_budget_def g)
qed

theorem minted_token_works_until_revoked_witness:
  "(\<exists>r. fst (mcp_verify sample_bearer_env True True 9 (fst (generate_plaintext mcp_tag (replicate 28 0)))
      (foldl mcp_apply (no_tokens\<lparr>mcp_rows := [ann_token]\<rparr>) [CascadeTokens 8 ''bob''])) = Inr (Some r) \<and>
      mt_id r = mt_id ann_token \<and> mt_user r = ''ann'' \<and> mt_scopes r = Some [''mcp:read'']) \<and>
   \<not> (\<exists>r. fst (mcp_verify sample_bearer_env True True 9 (fst (generate_plaintext mcp_tag (replicate 28 0)))
      (foldl mcp_apply (no_tokens\<lparr>mcp_rows := [ann_token]\<rparr>) [CascadeTokens 8 ''ann''])) = Inr (Some r) \<and>
      mt_id r = mt_id ann_token \<and> mt_user r = ''ann'' \<and> mt_scopes r = Some [''mcp:read''])"
proof -
  have raw: "length (be_raw sample_bearer_env k) = token_body_bytes" for k
    by (simp add: sample_bearer_env_def token_body_bytes_def)
  note use_it = minted_token_works_until_revoked [OF no_tokens_good ann_minted raw refl]
  have "\<not> list_ex (kills ann_token) [CascadeTokens 8 ''bob'']" "list_ex (kills ann_token) [CascadeTokens 8 ''ann'']"
    by (simp_all add: kills_def ann_token_def new_mcp_row_def)
  then show ?thesis by (simp only: use_it) simp
qed

lemma revocation_needs_text_sub:
  "fst (jwt_revocation_failure_reason cfg db_ok now payload st) = None \<Longrightarrow> ac_enabled cfg \<Longrightarrow>
    \<exists>s. map_of payload ''sub'' = Some (JStr s)"
  by (auto simp: jwt_revocation_failure_reason_def invalid_token_def split: option.splits json.splits)

text \<open>
  C17. With accounts enabled, a request to the MCP surface gets past the gate only with a
  token of a row that is live, whose hash is that of the presented text, and then acts as the
  owner of that row and with its scopes, or with a signed token that passes the revocation
  checks, and then acts as its subject. Where the subject is the empty text, or the owner is and
  the bearer is not a signed token as well, it acts as the configured \<open>MCP_DEFAULT_USER_ID\<close>,
  and as nobody when that is blank. The shared secret and an empty header are never enough.
\<close>

theorem mcp_requests_act_for_their_token:
  assumes "ac_enabled (ge_cfg genv)"
    and "check_mcp_bearer genv benv db_ok write_ok now header (ast, mst) = (v, st')"
    and "v \<noteq> GateCrash" and "\<And>reason. v \<noteq> GateReject reason"
  shows "(\<exists>row \<in> set (mcp_rows mst). mt_revoked row = None \<and> mt_hash row = be_hash benv (read_bearer header) \<and>
        v = GateToken (mt_id row) (mt_user row) (mt_scopes row) \<and>
        (mt_user row \<noteq> [] \<longrightarrow> resolve_user_id genv fallback header v = Some (mt_user row)) \<and>
        (mt_user row = [] \<and> ge_jwt genv (read_bearer header) = None \<longrightarrow>
          resolve_user_id genv fallback header v = (if py_strip fallback = [] then None else Some (py_strip fallback))) \<and>
        (require_scope scope v = (case mt_scopes row of None \<Rightarrow> True | Some sc \<Rightarrow> scope \<in> set sc)))
    \<or> (\<exists>payload s. ge_jwt genv (read_bearer header) = Some payload \<and> v = GateJwt payload \<and>
        fst (jwt_revocation_failure_reason (ge_cfg genv) db_ok now payload ast) = None \<and>
        map_of payload ''sub'' = Some (JStr s) \<and>
        resolve_user_id genv fallback header v =
          (if s \<noteq> [] then Some s else if py_strip fallback = [] then None else Some (py_strip fallback)))"
proof (cases "starts_with mcp_tag (read_bearer header)")
  case True
  then have "read_bearer header \<noteq> []" by (auto simp: starts_with_def mcp_tag_def)
  with True assms(2-4) obtain row where
    "fst (mcp_verify benv db_ok write_ok now (read_bearer header) mst) = Inr (Some row)"
    and v: "v = GateToken (mt_id row) (mt_user row) (mt_scopes row)"
    by (auto simp: check_mcp_bearer_def Let_def split: prod.splits sum.splits option.splits)
  then have "row \<in> set (mcp_rows mst)" "mcp_live row" "mt_hash row = be_hash benv (read_bearer header)"
    by (cases rule: mcp_verify_cases [of benv db_ok write_ok now "read_bearer header" mst];
        auto dest: mcp.lookup_live)+
  with v show ?thesis
    by (intro disjI1 bexI [of _ row])
       (auto simp: resolve_user_id_def Let_def verdict_user_def require_scope_def verdict_scopes_def mcp_live_def)
next
  case False
  with assms(1-4) obtain payload where
    p: "read_bearer header \<noteq> []" "ge_jwt genv (read_bearer header) = Some payload" "v = GateJwt payload"
      "fst (jwt_revocation_failure_reason (ge_cfg genv) db_ok now payload ast) = None"
    by (auto simp: check_mcp_bearer_def Let_def split: if_splits option.splits prod.splits bool.splits)
  from revocation_needs_text_sub [OF p(4) assms(1)]
  obtain s where "map_of payload ''sub'' = Some (JStr s)" by blast
  with p show ?thesis
    by (intro disjI2 exI [of _ payload] exI [of _ s])
       (auto simp: resolve_user_id_def Let_def verdict_user_def py_str_def)
qed

definition multi_user_gate :: gate_env where
  "multi_user_gate = \<lparr>ge_cfg = \<lparr>ac_enabled = True, ac_require_tv = False, ac_tv_ttl = 30, ac_require_sid = False, ac_sid_ttl = 30\<rparr>,
     ge_shared = ''shared-secret'', ge_jwt = (\<lambda>t. if t = ''jwt'' then Some [(''sub'', JStr ''bob'')] else None),
     ge_str = (\<lambda>j. case j of JStr s \<Rightarrow> s | _ \<Rightarrow> [])\<rparr>"

theorem mcp_requests_act_for_their_token_witness:
  "\<exists>v st' payload s. check_mcp_bearer multi_user_gate sample_bearer_env True True 9 ''Bearer jwt'' (fresh_auth [(''bob'', 1)], no_tokens) = (v, st') \<and>
     ge_jwt multi_user_gate (read_bearer ''Bearer jwt'') = Some payload \<and> v = GateJwt payload \<and>
     map_of payload ''sub'' = Some (JStr s) \<and> resolve_user_id multi_user_gate [] ''Bearer jwt'' v = Some ''bob''"
proof -
  have bearer: "read_bearer ''Bearer jwt'' = ''jwt''"
    by (simp add: read_bearer_def remove_prefix_def starts_with_def py_strip_def py_lstrip_def py_rstrip_def
        py_space_def code_point_def)
  have gate: "check_mcp_bearer multi_user_gate sample_bearer_env True True 9 ''Bearer jwt'' (fresh_auth [(''bob'', 1)], no_tokens) =
      (GateJwt [(''sub'', JStr ''bob'')], (fresh_auth [(''bob'', 1)], no_tokens))"
    by (simp add: check_mcp_bearer_def bearer multi_user_gate_def mcp_tag_def starts_with_def
        jwt_revocation_failure_reason_def)
  have "ac_enabled (ge_cfg multi_user_gate)" by (simp add: multi_user_gate_def)
  from mcp_requests_act_for_their_token [OF this gate, of "[]" "''mcp:write''"] gate bearer show ?thesis
    by (auto simp: no_tokens_def multi_user_gate_def)
qed

text \<open>
  A bearer with a character outside ASCII makes the gate fail instead of refusing it: the hash
  of the presented text is taken only after the prefix was found, and it cannot be taken.
\<close>

theorem non_ascii_bearer_crashes_the_gate:
  assumes "parse_body mcp_tag presented = Some prefix" and "\<not> ascii_only presented"
    and "find (\<lambda>r. mt_prefix r = prefix \<and> mcp_live r) (mcp_rows mst) = Some row"
  shows "mcp_verify benv True write_ok now presented mst = (Inl NotAscii, mst)"
  using assms by (simp add: mcp_verify_def hash_plaintext_def)

theorem non_ascii_shared_secret_crashes:
  assumes "\<not> ac_enabled (ge_cfg genv)" and "py_strip (ge_shared genv) \<noteq> []"
    and "read_bearer header \<noteq> []" and "\<not> starts_with mcp_tag (read_bearer header)" and "\<not> ascii_only (read_bearer header)"
  shows "fst (check_mcp_bearer genv benv db_ok write_ok now header st) = GateCrash"
  using assms by (simp add: check_mcp_bearer_def Let_def compare_digest_def split: prod.splits)

end
