(* ===== verification/Accounts.thy ===== *)
theory Accounts
  imports McpTokens Permissions
begin

section \<open>User accounts\<close>

text \<open>
  Models \<open>services/users.py\<close> over table \<open>users\<close> (migrations 010, 023, 025, 028, 036, 045, 048)
  and the throttle \<open>_maybe_touch_last_seen\<close> of \<open>auth.py\<close>. The column \<open>token_version\<close> is kept
  where theory \<open>AuthSessions\<close> has it (\<open>users\<close> of its state), the other columns of the same
  rows here (\<open>profiles\<close>); both hold one entry per row, in the same order. Argon2, the
  validation of an address by pydantic and the new ids are parameters. A transaction takes
  the index of the statement that fails, if one does, and is rolled back then; caches of the
  process are not rolled back.
\<close>

subsection \<open>Rows, state and environment\<close>

record profile =
  u_id :: user_id
  u_email :: string
  u_pw :: string
  u_role :: string
  u_disabled :: bool
  u_created :: instant
  u_last_login :: "instant option"
  u_last_seen :: "instant option"
  u_allows_shared :: bool
  u_display :: "string option"
  u_onboarded :: "instant option"
  u_wow :: "instant option"

record acct_state =
  auth :: auth_state
  mcp :: mcp_state
  profiles :: "profile list"
  acct_perms :: perm_state
  seen :: "int lru"

datatype verify_outcome = PwMatch | PwMismatch | PwInvalidHash

record acct_env =
  ae_pw_hash :: "string \<Rightarrow> string"
  ae_pw_verify :: "string \<Rightarrow> string \<Rightarrow> verify_outcome"
  ae_email :: "string \<Rightarrow> string option"
  ae_new_id :: string

datatype acct_error =
    EmailRefused
  | PasswordPolicy
  | EmailTaken
  | UniqueFailed
  | UserNotFound
  | AccountDisabled
  | WrongCurrentPassword
  | BadArguments
  | InvalidStoredHash
  | DbFailed

definition min_password_length :: nat where
  "min_password_length = 12"

definition validate_password_policy :: "string \<Rightarrow> bool" where
  "validate_password_policy pw = (pw \<noteq> [] \<and> length pw \<ge> min_password_length)"

definition validate_user_email :: "acct_env \<Rightarrow> string \<Rightarrow> string option" where
  "validate_user_email env email = (let raw = py_strip email in if raw = [] then None else ae_email env raw)"

text \<open>An \<open>InternalUser\<close> is a row with its token version, which is never zero there.\<close>

type_synonym internal_user = "profile \<times> int"

definition row_to_internal :: "acct_state \<Rightarrow> profile \<Rightarrow> internal_user" where
  "row_to_internal st r =
     (r, case map_of (users (auth st)) (u_id r) of None \<Rightarrow> 1 | Some v \<Rightarrow> if v = 0 then 1 else v)"

definition get_user_by_id :: "user_id \<Rightarrow> acct_state \<Rightarrow> internal_user option" where
  "get_user_by_id u st = map_option (row_to_internal st) (t_find u_id u (profiles st))"

definition same_email :: "string \<Rightarrow> profile \<Rightarrow> bool" where
  "same_email email r = (py_lower (u_email r) = py_lower email)"

definition get_user_by_email :: "string \<Rightarrow> acct_state \<Rightarrow> internal_user option" where
  "get_user_by_email email st = map_option (row_to_internal st) (find (same_email email) (profiles st))"

definition list_users :: "acct_state \<Rightarrow> internal_user list" where
  "list_users st = map (row_to_internal st) (sort_key u_created (profiles st))"

definition update_profile :: "user_id \<Rightarrow> (profile \<Rightarrow> profile) \<Rightarrow> acct_state \<Rightarrow> acct_state" where
  "update_profile u f st = st\<lparr>profiles := update_where (\<lambda>r. u_id r = u) f (profiles st)\<rparr>"

subsection \<open>Creating and changing accounts\<close>

definition new_profile :: "instant \<Rightarrow> user_id \<Rightarrow> string \<Rightarrow> string \<Rightarrow> string \<Rightarrow> bool \<Rightarrow> profile" where
  "new_profile now i email pw role shared =
     \<lparr>u_id = i, u_email = email, u_pw = pw, u_role = role, u_disabled = False, u_created = now,
      u_last_login = None, u_last_seen = None, u_allows_shared = shared, u_display = None,
      u_onboarded = None, u_wow = None\<rparr>"

text \<open>The \<open>INSERT\<close> with the primary key and the unique address of the table.\<close>

definition insert_user :: "profile \<Rightarrow> acct_state \<Rightarrow> acct_state option" where
  "insert_user r st =
     (if u_id r \<in> u_id ` set (profiles st) \<or> u_email r \<in> u_email ` set (profiles st) then None
      else Some (st\<lparr>profiles := profiles st @ [r], auth := (auth st)\<lparr>users := users (auth st) @ [(u_id r, 1)]\<rparr>\<rparr>))"

definition create_user ::
  "acct_env \<Rightarrow> instant \<Rightarrow> string \<Rightarrow> string \<Rightarrow> string \<Rightarrow> bool \<Rightarrow> acct_state \<Rightarrow> (acct_error + internal_user) \<times> acct_state" where
  "create_user env now email pw role shared st =
     (case validate_user_email env email of
        None \<Rightarrow> (Inl EmailRefused, st)
      | Some addr \<Rightarrow>
          if \<not> validate_password_policy pw then (Inl PasswordPolicy, st)
          else if list_ex (same_email addr) (profiles st) then (Inl EmailTaken, st)
          else let r = new_profile now (ae_new_id env) addr (ae_pw_hash env pw) role shared in
               (case insert_user r st of
                  None \<Rightarrow> (Inl UniqueFailed, st)
                | Some st1 \<Rightarrow> (Inr (row_to_internal st1 r), st1)))"

definition update_role :: "user_id \<Rightarrow> string \<Rightarrow> acct_state \<Rightarrow> internal_user option \<times> acct_state" where
  "update_role u role st =
     (let st1 = update_profile u (\<lambda>r. r\<lparr>u_role := role\<rparr>) st in (get_user_by_id u st1, st1))"

definition set_display_name :: "user_id \<Rightarrow> string option \<Rightarrow> acct_state \<Rightarrow> internal_user option \<times> acct_state" where
  "set_display_name u name st =
     (let s = py_strip (case name of None \<Rightarrow> [] | Some n \<Rightarrow> n);
          st1 = update_profile u (\<lambda>r. r\<lparr>u_display := (if s = [] then None else Some s)\<rparr>) st
      in (get_user_by_id u st1, st1))"

definition display_label_for :: "user_id \<Rightarrow> acct_state \<Rightarrow> string option" where
  "display_label_for u st =
     (if u = [] \<or> u = ''default'' then None
      else case get_user_by_id u st of
        None \<Rightarrow> None
      | Some (r, _) \<Rightarrow>
          let name = (case u_display r of None \<Rightarrow> [] | Some n \<Rightarrow> py_strip n); email = py_strip (u_email r) in
          if name \<noteq> [] then Some name
          else if CHR ''@'' \<in> set email
          then (let local = takeWhile (\<lambda>c. c \<noteq> CHR ''@'') email in if local = [] then None else Some local)
          else None)"

definition count_users :: "acct_state \<Rightarrow> nat" where
  "count_users st = length (profiles st)"

definition active_admin :: "profile \<Rightarrow> bool" where
  "active_admin r = (u_role r = ''admin'' \<and> \<not> u_disabled r)"

definition count_admins :: "acct_state \<Rightarrow> nat" where
  "count_admins st = length (filter active_admin (profiles st))"

definition first_admin_id :: "acct_state \<Rightarrow> user_id option" where
  "first_admin_id st = map_option u_id (least_by u_created (filter active_admin (profiles st)))"

definition record_login :: "instant \<Rightarrow> user_id \<Rightarrow> acct_state \<Rightarrow> acct_state" where
  "record_login now u st = update_profile u (\<lambda>r. r\<lparr>u_last_login := Some now\<rparr>) st"

text \<open>An unknown address still costs one verification, whose result is not used.\<close>

definition verify_credentials :: "acct_env \<Rightarrow> string \<Rightarrow> string \<Rightarrow> acct_state \<Rightarrow> acct_error + internal_user option" where
  "verify_credentials env email pw st =
     (case get_user_by_email email st of
        None \<Rightarrow> Inr None
      | Some (r, v) \<Rightarrow>
          if u_disabled r then Inr None
          else (case ae_pw_verify env (u_pw r) pw of
                  PwMatch \<Rightarrow> Inr (Some (r, v)) | PwMismatch \<Rightarrow> Inr None | PwInvalidHash \<Rightarrow> Inl InvalidStoredHash))"

subsection \<open>Disabling, deleting and new passwords\<close>

definition revoke_all_active :: "instant \<Rightarrow> user_id \<Rightarrow> auth_state \<Rightarrow> auth_session list \<times> auth_state" where
  "revoke_all_active now u st =
     (filter (\<lambda>r. as_user r = u \<and> as_revoked r = None) (sessions st),
      st\<lparr>sessions := revoke_where now (\<lambda>r. as_user r = u) (sessions st)\<rparr>)"

definition bump_token_version :: "user_id \<Rightarrow> auth_state \<Rightarrow> auth_state" where
  "bump_token_version u st = st\<lparr>users := bump_version u (users st)\<rparr>"

definition emit_session_rows_cascade_audits :: "instant \<Rightarrow> user_id \<Rightarrow> auth_session list \<Rightarrow> auth_state \<Rightarrow> auth_state" where
  "emit_session_rows_cascade_audits now actor rows st =
     fold (\<lambda>r. emit_audit ''__session__.cascade_revoked'' actor
       [(''session_id'', JStr (as_id r)), (''owner_user_id'', JStr (as_user r))]
       [(''revoked_at'', revoked_at_json (Some now))]) rows st"

definition emit_token_cascade_audits :: "user_id \<Rightarrow> user_id option \<Rightarrow> mcp_token list \<Rightarrow> auth_state \<Rightarrow> auth_state" where
  "emit_token_cascade_audits actor by_admin rows st =
     fold (\<lambda>t. emit_audit ''__mcp_token__.cascade_revoked'' actor
       [(''token_id'', JStr (mt_id t)), (''owner_user_id'', JStr (mt_user t)), (''by_admin_user_id'', opt_str by_admin)]
       [(''revoked_at'', revoked_at_json (mt_revoked t))]) rows st"

text \<open>The transaction of a disable: statements 0 to 2 and the commit, 3.\<close>

definition disable_tx ::
  "nat option \<Rightarrow> instant \<Rightarrow> user_id \<Rightarrow> acct_state \<Rightarrow> (acct_error + mcp_token list \<times> auth_session list) \<times> acct_state" where
  "disable_tx fails now u st =
     (if fails = Some 0 then (Inl DbFailed, st)
      else
        let (cascaded, mcp1) = cascade_revoke_for_user now u (mcp st);
            rolled_back = st\<lparr>mcp := (mcp st)\<lparr>mcp_stamps := mcp_stamps mcp1\<rparr>\<rparr>
        in if fails = Some 1 \<or> fails = Some 2 \<or> fails = Some 3 then (Inl DbFailed, rolled_back)
           else
             let (revoked, auth1) = revoke_all_active now u (auth st);
                 st1 = update_profile u (\<lambda>r. r\<lparr>u_disabled := True\<rparr>)
                         (st\<lparr>mcp := mcp1, auth := bump_token_version u auth1\<rparr>)
             in (Inr (cascaded, revoked), st1))"

definition after_disable ::
  "instant \<Rightarrow> user_id \<Rightarrow> user_id option \<Rightarrow> mcp_token list \<times> auth_session list \<Rightarrow> acct_state \<Rightarrow> acct_state" where
  "after_disable now u by_admin hit st =
     (let actor = (case by_admin of None \<Rightarrow> u | Some a \<Rightarrow> if a = [] then u else a);
          a1 = emit_session_rows_cascade_audits now actor (snd hit) (emit_token_cascade_audits actor by_admin (fst hit) (auth st));
          a2 = invalidate_token_version_cache u (fold (\<lambda>r. invalidate_sid_cache (as_id r)) (snd hit) a1)
      in st\<lparr>auth := a2, acct_perms := clear_cache_for_user u (acct_perms st)\<rparr>)"

definition set_disabled ::
  "nat option \<Rightarrow> instant \<Rightarrow> user_id \<Rightarrow> bool \<Rightarrow> user_id option \<Rightarrow> acct_state
    \<Rightarrow> (acct_error + internal_user option) \<times> acct_state" where
  "set_disabled fails now u disabled by_admin st =
     (if disabled then
        (case disable_tx fails now u st of
           (Inl e, st1) \<Rightarrow> (Inl e, st1)
         | (Inr hit, st1) \<Rightarrow> let st2 = after_disable now u by_admin hit st1 in (Inr (get_user_by_id u st2), st2))
      else let st1 = update_profile u (\<lambda>r. r\<lparr>u_disabled := False\<rparr>) st in (Inr (get_user_by_id u st1), st1))"

definition delete_user :: "user_id \<Rightarrow> acct_state \<Rightarrow> bool \<times> acct_state" where
  "delete_user u st =
     (case get_user_by_id u st of
        None \<Rightarrow> (False, st)
      | Some _ \<Rightarrow>
          let a = auth st;
              a1 = fold (\<lambda>r. invalidate_sid_cache (as_id r)) (filter (\<lambda>r. as_user r = u) (sessions a)) a;
              a2 = a1\<lparr>sessions := filter (\<lambda>r. as_user r \<noteq> u) (sessions a1),
                      users := filter (\<lambda>x. fst x \<noteq> u) (users a1)\<rparr>
          in (True, st\<lparr>auth := a2, acct_perms := clear_cache_for_user u (acct_perms st),
                       profiles := t_delete u_id u (profiles st)\<rparr>))"

text \<open>\<open>_apply_new_password\<close>: statements 0 and 1 and the commit, 2.\<close>

definition apply_new_password ::
  "acct_env \<Rightarrow> nat option \<Rightarrow> instant \<Rightarrow> user_id \<Rightarrow> string \<Rightarrow> acct_state \<Rightarrow> (acct_error + unit) \<times> acct_state" where
  "apply_new_password env fails now u pw st =
     (if \<not> validate_password_policy pw then (Inl PasswordPolicy, st)
      else if fails = Some 0 \<or> fails = Some 1 \<or> fails = Some 2 then (Inl DbFailed, st)
      else
        let (revoked, auth1) = revoke_all_active now u (bump_token_version u (auth st));
            a2 = invalidate_token_version_cache u (fold (\<lambda>r. invalidate_sid_cache (as_id r)) revoked auth1);
            a3 = emit_session_rows_cascade_audits now u revoked a2
        in (Inr (), update_profile u (\<lambda>r. r\<lparr>u_pw := ae_pw_hash env pw\<rparr>) (st\<lparr>auth := a3\<rparr>)))"

definition change_own_password ::
  "acct_env \<Rightarrow> nat option \<Rightarrow> instant \<Rightarrow> user_id \<Rightarrow> string \<Rightarrow> string \<Rightarrow> acct_state \<Rightarrow> (acct_error + unit) \<times> acct_state" where
  "change_own_password env fails now u current pw st =
     (case get_user_by_id u st of
        None \<Rightarrow> (Inl UserNotFound, st)
      | Some (r, _) \<Rightarrow>
          if u_disabled r then (Inl AccountDisabled, st)
          else (case ae_pw_verify env (u_pw r) current of
                  PwMismatch \<Rightarrow> (Inl WrongCurrentPassword, st)
                | PwInvalidHash \<Rightarrow> (Inl InvalidStoredHash, st)
                | PwMatch \<Rightarrow> if pw = current then (Inl PasswordPolicy, st)
                             else apply_new_password env fails now u pw st))"

definition admin_reset_user_password ::
  "acct_env \<Rightarrow> nat option \<Rightarrow> instant \<Rightarrow> user_id \<Rightarrow> string \<Rightarrow> acct_state \<Rightarrow> (acct_error + unit) \<times> acct_state" where
  "admin_reset_user_password env fails now u pw st =
     (if get_user_by_id u st = None then (Inl UserNotFound, st) else apply_new_password env fails now u pw st)"

definition given :: "string option \<Rightarrow> bool" where
  "given x = (case x of None \<Rightarrow> False | Some s \<Rightarrow> s \<noteq> [])"

definition cli_reset_password ::
  "acct_env \<Rightarrow> nat option \<Rightarrow> instant \<Rightarrow> string option \<Rightarrow> user_id option \<Rightarrow> string \<Rightarrow> acct_state
    \<Rightarrow> (acct_error + unit) \<times> acct_state" where
  "cli_reset_password env fails now email u pw st =
     (if given email \<and> given u \<or> \<not> given email \<and> \<not> given u then (Inl BadArguments, st)
      else case (if given email then get_user_by_email (the email) st else get_user_by_id (the u) st) of
        None \<Rightarrow> (Inl UserNotFound, st)
      | Some (r, _) \<Rightarrow> apply_new_password env fails now (u_id r) pw st)"

subsection \<open>Stamps\<close>

definition get_onboarding_completed_at :: "user_id \<Rightarrow> acct_state \<Rightarrow> instant option" where
  "get_onboarding_completed_at u st = (case t_find u_id u (profiles st) of None \<Rightarrow> None | Some r \<Rightarrow> u_onboarded r)"

text \<open>\<open>COALESCE(column, NOW())\<close>\<close>

definition coalesce :: "instant option \<Rightarrow> instant \<Rightarrow> instant" where
  "coalesce old now = (case old of None \<Rightarrow> now | Some t \<Rightarrow> t)"

definition set_onboarding_completed :: "instant \<Rightarrow> user_id \<Rightarrow> acct_state \<Rightarrow> (acct_error + instant) \<times> acct_state" where
  "set_onboarding_completed now u st =
     (case t_find u_id u (profiles st) of
        None \<Rightarrow> (Inl UserNotFound, st)
      | Some r \<Rightarrow> (Inr (coalesce (u_onboarded r) now),
                   update_profile u (\<lambda>r. r\<lparr>u_onboarded := Some (coalesce (u_onboarded r) now)\<rparr>) st))"

definition get_wow_dismissed_at :: "user_id \<Rightarrow> acct_state \<Rightarrow> instant option" where
  "get_wow_dismissed_at u st = (case t_find u_id u (profiles st) of None \<Rightarrow> None | Some r \<Rightarrow> u_wow r)"

definition set_wow_dismissed :: "instant \<Rightarrow> user_id \<Rightarrow> acct_state \<Rightarrow> (acct_error + instant) \<times> acct_state" where
  "set_wow_dismissed now u st =
     (case t_find u_id u (profiles st) of
        None \<Rightarrow> (Inl UserNotFound, st)
      | Some r \<Rightarrow> (Inr (coalesce (u_wow r) now),
                   update_profile u (\<lambda>r. r\<lparr>u_wow := Some (coalesce (u_wow r) now)\<rparr>) st))"

definition touch_last_seen :: "instant \<Rightarrow> user_id \<Rightarrow> int \<Rightarrow> acct_state \<Rightarrow> acct_state" where
  "touch_last_seen now u throttle st =
     st\<lparr>profiles := update_where
          (\<lambda>r. u_id r = u \<and> (case u_last_seen r of None \<Rightarrow> True | Some t \<Rightarrow> t < now - throttle * 1000000))
          (\<lambda>r. r\<lparr>u_last_seen := Some now\<rparr>) (profiles st)\<rparr>"

text \<open>
  \<open>_maybe_touch_last_seen\<close>, with the background write run at once: \<open>queued\<close> is whether the
  executor takes it, \<open>written\<close> whether the statement succeeds.
\<close>

definition maybe_touch_last_seen :: "bool \<Rightarrow> bool \<Rightarrow> instant \<Rightarrow> user_id \<Rightarrow> int \<Rightarrow> acct_state \<Rightarrow> acct_state" where
  "maybe_touch_last_seen queued written now u throttle st =
     (if throttle \<le> 0 then st
      else let (hit, d) = lru_get_fresh now throttle u (seen st) in
        if hit \<noteq> None then st\<lparr>seen := d\<rparr>
        else let st1 = st\<lparr>seen := lru_put token_ver_cache_max now u 0 d\<rparr> in
             if queued \<and> written then touch_last_seen now u throttle st1
             else st1\<lparr>seen := lru_invalidate u (seen st1)\<rparr>)"

subsection \<open>The first administrator\<close>

text \<open>
  The password file of a native server: it may not open, may not be readable, or has contents;
  once opened it is unlinked. The result tells whether it was.
\<close>

datatype boot_file = OpenFails | ReadFails | Contents string

definition read_bootstrap_admin_password :: "string option \<Rightarrow> (string \<Rightarrow> boot_file) \<Rightarrow> string option \<Rightarrow> string \<times> bool" where
  "read_bootstrap_admin_password path_var file pw_var =
     (let path = py_strip (case path_var of None \<Rightarrow> [] | Some p \<Rightarrow> p);
          fallback = (case pw_var of None \<Rightarrow> [] | Some p \<Rightarrow> p)
      in if path = [] then (fallback, False)
         else case file path of
           OpenFails \<Rightarrow> (fallback, False)
         | ReadFails \<Rightarrow> (fallback, True)
         | Contents s \<Rightarrow> (s, True))"

definition bootstrap_if_empty ::
  "acct_env \<Rightarrow> instant \<Rightarrow> string option \<Rightarrow> string option \<Rightarrow> (string \<Rightarrow> boot_file) \<Rightarrow> string option \<Rightarrow> acct_state
    \<Rightarrow> internal_user option \<times> acct_state" where
  "bootstrap_if_empty env now email_var path_var file pw_var st =
     (if count_users st > 0 then (None, st)
      else let email = py_strip (case email_var of None \<Rightarrow> [] | Some e \<Rightarrow> e);
               pw = fst (read_bootstrap_admin_password path_var file pw_var)
           in if email = [] \<or> pw = [] then (None, st)
              else if \<not> validate_password_policy pw then (None, st)
              else case validate_user_email env email of
                None \<Rightarrow> (None, st)
              | Some addr \<Rightarrow>
                  (case create_user env now addr pw ''admin'' True st of
                     (Inl e, st1) \<Rightarrow> (None, st1)
                   | (Inr admin, st1) \<Rightarrow> (Some admin, st1)))"

end
