(* ===== verification/Invites.thy ===== *)
theory Invites
  imports Accounts
begin

section \<open>Invitations to the household\<close>

text \<open>
  Models \<open>services/user_invites.py\<close> over table \<open>user_invites\<close> (migration 044): minting, the
  public preview, redemption, revocation and listing. A redemption is given as its checks and
  its transaction, between which other requests can run; the transaction takes the index of
  the statement that fails, if one does, and is rolled back then.
\<close>

record invite =
  iv_id :: string
  iv_prefix :: string
  iv_hash :: string
  iv_role :: string
  iv_shared :: bool
  iv_by :: user_id
  iv_created :: instant
  iv_expires :: instant
  iv_used :: "instant option"
  iv_used_by :: "user_id option"
  iv_revoked :: "instant option"

record household =
  acct :: acct_state
  invites :: "invite list"

definition invite_open :: "invite \<Rightarrow> bool" where
  "invite_open r = (iv_used r = None \<and> iv_revoked r = None)"

text \<open>An invite ends by a revocation or by a redemption.\<close>

datatype invite_end = RevokedAt instant | RedeemedAt instant user_id

definition close_invite :: "invite_end \<Rightarrow> invite \<Rightarrow> invite" where
  "close_invite e r = (case e of
     RevokedAt t \<Rightarrow> r\<lparr>iv_revoked := Some t\<rparr>
   | RedeemedAt t u \<Rightarrow> r\<lparr>iv_used := Some t, iv_used_by := Some u\<rparr>)"

interpretation invite_table: prefix_table iv_prefix invite_open close_invite
  by unfold_locales (simp_all add: close_invite_def invite_open_def split: invite_end.splits)

definition invite_tag :: string where
  "invite_tag = ''linv_''"

definition default_ttl_hours :: "string option \<Rightarrow> int" where
  "default_ttl_hours raw = (case py_int (py_strip (case raw of None \<Rightarrow> ''48'' | Some s \<Rightarrow> s)) of None \<Rightarrow> 48 | Some n \<Rightarrow> max 1 n)"

definition parse_plaintext :: "bearer_env \<Rightarrow> string \<Rightarrow> bearer_error + (string \<times> string) option" where
  "parse_plaintext env s =
     (case parse_body invite_tag s of
        None \<Rightarrow> Inr None
      | Some prefix \<Rightarrow> (case hash_plaintext (be_hash env) s of Inl e \<Rightarrow> Inl e | Inr h \<Rightarrow> Inr (Some (prefix, h))))"

definition lookup_active_by_prefix :: "instant \<Rightarrow> string \<Rightarrow> household \<Rightarrow> invite option" where
  "lookup_active_by_prefix now prefix st = find (\<lambda>r. iv_prefix r = prefix \<and> invite_open r \<and> iv_expires r > now) (invites st)"

text \<open>\<open>quote(plaintext, safe='')\<close>: every byte of the UTF-8 form that is not a letter, a digit or one of four marks.\<close>

definition upper_hex :: "nat \<Rightarrow> char" where
  "upper_hex n = (if n < 10 then char_of (48 + n) else char_of (55 + n))"

definition percent :: "nat \<Rightarrow> string" where
  "percent n = [CHR ''%'', upper_hex (n div 16), upper_hex (n mod 16)]"

definition quote_char :: "char \<Rightarrow> string" where
  "quote_char c = (let n = code_point c in
     if is_digit c \<or> is_lower_letter c \<or> (65 \<le> n \<and> n \<le> 90) \<or> c \<in> set ''_.-~'' then [c]
     else if n < 128 then percent n
     else percent (192 + n div 64) @ percent (128 + n mod 64))"

definition build_invite_url :: "string option \<Rightarrow> string \<Rightarrow> string" where
  "build_invite_url origin_var plaintext =
     (let origin = rev (dropWhile (\<lambda>c. c = CHR ''/'') (rev (py_strip (case origin_var of None \<Rightarrow> [] | Some o' \<Rightarrow> o'))));
          rel = ''/invite?token='' @ concat (map quote_char plaintext)
      in if origin \<noteq> [] then origin @ rel else rel)"

definition emit_invite_audit :: "string \<Rightarrow> user_id \<Rightarrow> json_obj \<Rightarrow> json_obj \<Rightarrow> household \<Rightarrow> household" where
  "emit_invite_audit action u inp res st =
     st\<lparr>acct := (acct st)\<lparr>auth := emit_audit action u inp res (auth (acct st))\<rparr>\<rparr>"

subsection \<open>Minting, preview and revocation\<close>

definition insert_invite :: "invite \<Rightarrow> household \<Rightarrow> bearer_error + household" where
  "insert_invite r st =
     (if iv_id r \<in> iv_id ` set (invites st) then Inl (UniqueViolation ''user_invites_pkey'')
      else if iv_prefix r \<in> set (live_prefixes iv_prefix invite_open (invites st))
        then Inl (UniqueViolation ''user_invites_active_prefix_uniq'')
      else Inr (st\<lparr>invites := invites st @ [r]\<rparr>))"

definition new_invite :: "instant \<Rightarrow> instant \<Rightarrow> string \<Rightarrow> string \<Rightarrow> string \<Rightarrow> string \<Rightarrow> bool \<Rightarrow> user_id \<Rightarrow> invite" where
  "new_invite now expires i prefix h role shared by_user =
     \<lparr>iv_id = i, iv_prefix = prefix, iv_hash = h, iv_role = role, iv_shared = shared, iv_by = by_user,
      iv_created = now, iv_expires = expires, iv_used = None, iv_used_by = None, iv_revoked = None\<rparr>"

definition mint_invite_attempt ::
  "bearer_env \<Rightarrow> instant \<Rightarrow> instant \<Rightarrow> string \<Rightarrow> bool \<Rightarrow> user_id \<Rightarrow> nat \<Rightarrow> household
    \<Rightarrow> bearer_error + (invite \<times> string) \<times> household" where
  "mint_invite_attempt env now expires role shared by_user k st =
     (let (plain, prefix) = generate_plaintext invite_tag (be_raw env k) in
      case hash_plaintext (be_hash env) plain of
        Inl e \<Rightarrow> Inl e
      | Inr h \<Rightarrow>
          let r = new_invite now expires (be_id env k) prefix h role shared by_user in
          (case insert_invite r st of Inl e \<Rightarrow> Inl e | Inr st1 \<Rightarrow> Inr ((r, plain), st1)))"

definition mint_invite ::
  "bearer_env \<Rightarrow> instant \<Rightarrow> int \<Rightarrow> string \<Rightarrow> bool \<Rightarrow> user_id \<Rightarrow> household \<Rightarrow> (bearer_error + invite \<times> string) \<times> household" where
  "mint_invite env now ttl_hours role shared by_user st =
     (case mint_loop mint_collision_budget
         (mint_invite_attempt env now (now + ttl_hours * 3600 * 1000000) role shared by_user) 0 st of
        Inl e \<Rightarrow> (Inl e, st)
      | Inr ((r, plain), st1) \<Rightarrow>
          (Inr (r, plain), emit_invite_audit ''__user_invite__.minted'' by_user
             [(''role'', JStr role), (''allows_shared'', JBool shared)]
             [(''invite_id'', JStr (iv_id r)), (''token_prefix'', JStr (iv_prefix r))] st1))"

definition active_invite :: "bearer_env \<Rightarrow> instant \<Rightarrow> string \<Rightarrow> household \<Rightarrow> bearer_error + invite option" where
  "active_invite env now plaintext st =
     (case parse_plaintext env plaintext of
        Inl e \<Rightarrow> Inl e
      | Inr None \<Rightarrow> Inr None
      | Inr (Some (prefix, h)) \<Rightarrow>
          (case lookup_active_by_prefix now prefix st of
             None \<Rightarrow> Inr None
           | Some r \<Rightarrow> Inr (if h = iv_hash r then Some r else None)))"

definition peek_invite :: "bearer_env \<Rightarrow> instant \<Rightarrow> string \<Rightarrow> household \<Rightarrow> bearer_error + (bool \<times> instant) option" where
  "peek_invite env now plaintext st =
     map_sum id (map_option (\<lambda>r. (iv_shared r, iv_expires r))) (active_invite env now plaintext st)"

definition revoke_invite :: "instant \<Rightarrow> string \<Rightarrow> user_id \<Rightarrow> household \<Rightarrow> bool \<times> household" where
  "revoke_invite now i actor st =
     (if \<not> list_ex (\<lambda>r. iv_id r = i \<and> invite_open r) (invites st) then (False, st)
      else (True, emit_invite_audit ''__user_invite__.revoked'' actor [(''invite_id'', JStr i)] [(''ok'', JBool True)]
              (st\<lparr>invites := update_where (\<lambda>r. iv_id r = i \<and> invite_open r) (close_invite (RevokedAt now)) (invites st)\<rparr>)))"

definition list_invites :: "instant \<Rightarrow> bool \<Rightarrow> household \<Rightarrow> invite list" where
  "list_invites now include_consumed st =
     sort_key (\<lambda>r. - iv_created r)
       (filter (\<lambda>r. include_consumed \<or> (invite_open r \<and> iv_expires r > now)) (invites st))"

subsection \<open>Redemption\<close>

datatype redeem_error =
    InviteInvalid
  | EmailPolicy
  | WeakPassword
  | DuplicateEmail
  | TokenNotAscii
  | RedeemDbFailed

text \<open>What the checks hand to the transaction.\<close>

record redeem_plan =
  rp_invite :: string
  rp_user :: user_id
  rp_email :: string
  rp_pw :: string
  rp_role :: string
  rp_shared :: bool

definition redeem_check ::
  "acct_env \<Rightarrow> bearer_env \<Rightarrow> instant \<Rightarrow> string \<Rightarrow> string \<Rightarrow> string \<Rightarrow> household \<Rightarrow> redeem_error + redeem_plan" where
  "redeem_check env benv now plaintext email pw st =
     (case active_invite benv now plaintext st of
        Inl e \<Rightarrow> Inl TokenNotAscii
      | Inr None \<Rightarrow> Inl InviteInvalid
      | Inr (Some r) \<Rightarrow>
          (case validate_user_email env email of
             None \<Rightarrow> Inl EmailPolicy
           | Some addr \<Rightarrow>
               if \<not> validate_password_policy pw then Inl WeakPassword
               else Inr \<lparr>rp_invite = iv_id r, rp_user = ae_new_id env, rp_email = addr,
                         rp_pw = ae_pw_hash env pw, rp_role = iv_role r, rp_shared = iv_shared r\<rparr>))"

text \<open>Statements 0 to 2 and the commit, 3; anything raised rolls the transaction back.\<close>

definition redeem_commit ::
  "nat option \<Rightarrow> instant \<Rightarrow> redeem_plan \<Rightarrow> household \<Rightarrow> (redeem_error + internal_user) \<times> household" where
  "redeem_commit fails now p st =
     (if fails = Some 0 then (Inl RedeemDbFailed, st)
      else if list_ex (same_email (rp_email p)) (profiles (acct st)) then (Inl DuplicateEmail, st)
      else if fails = Some 1 then (Inl RedeemDbFailed, st)
      else
        let usable = (\<lambda>r. iv_id r = rp_invite p \<and> invite_open r \<and> iv_expires r > now) in
        if \<not> list_ex usable (invites st) then (Inl InviteInvalid, st)
        else
          let row = new_profile now (rp_user p) (rp_email p) (rp_pw p) (rp_role p) (rp_shared p) in
          (case insert_user row (acct st) of
             None \<Rightarrow> (Inl DuplicateEmail, st)
           | Some a1 \<Rightarrow>
               if fails = Some 2 \<or> fails = Some 3 then (Inl RedeemDbFailed, st)
               else (Inr (row_to_internal a1 row),
                 emit_invite_audit ''__user_invite__.redeemed'' (rp_user p)
                   [(''invite_id'', JStr (rp_invite p))]
                   [(''email'', JStr (rp_email p)), (''role'', JStr (rp_role p)), (''allows_shared'', JBool (rp_shared p))]
                   (st\<lparr>acct := a1,
                       invites := update_where usable (close_invite (RedeemedAt now (rp_user p))) (invites st)\<rparr>))))"

definition redeem_invite ::
  "acct_env \<Rightarrow> bearer_env \<Rightarrow> nat option \<Rightarrow> instant \<Rightarrow> string \<Rightarrow> string \<Rightarrow> string \<Rightarrow> household
    \<Rightarrow> (redeem_error + internal_user) \<times> household" where
  "redeem_invite env benv fails now plaintext email pw st =
     (case redeem_check env benv now plaintext email pw st of
        Inl e \<Rightarrow> (Inl e, st)
      | Inr p \<Rightarrow> redeem_commit fails now p st)"

subsection \<open>The life of an invite\<close>

definition same_invite :: "invite \<Rightarrow> invite \<Rightarrow> bool" where
  "same_invite r r' \<longleftrightarrow> iv_id r = iv_id r' \<and> iv_prefix r = iv_prefix r' \<and> iv_hash r = iv_hash r' \<and>
     iv_role r = iv_role r' \<and> iv_shared r = iv_shared r' \<and> iv_expires r = iv_expires r'"

text \<open>
  Everything that can happen to the tables; account operations are arbitrary changes of the
  account state, and a commit may come with any plan, however old.
\<close>

datatype household_event =
    MintInvite bearer_env instant int string bool user_id
  | RevokeInvite instant string user_id
  | CommitRedeem "nat option" instant redeem_plan
  | AccountChange "acct_state \<Rightarrow> acct_state"

fun household_apply :: "household \<Rightarrow> household_event \<Rightarrow> household" where
  "household_apply st (MintInvite env now ttl role shared u) = snd (mint_invite env now ttl role shared u st)"
| "household_apply st (RevokeInvite now i u) = snd (revoke_invite now i u st)"
| "household_apply st (CommitRedeem fails now p) = snd (redeem_commit fails now p st)"
| "household_apply st (AccountChange f) = st\<lparr>acct := f (acct st)\<rparr>"

definition invites_good :: "household \<Rightarrow> bool" where
  "invites_good st \<longleftrightarrow> distinct (map iv_id (invites st)) \<and> distinct (live_prefixes iv_prefix invite_open (invites st))"

lemma close_invite_simps [simp]:
  "iv_id (close_invite e r) = iv_id r" "same_invite (close_invite e r) r" "\<not> invite_open (close_invite e r)"
  by (simp_all add: close_invite_def same_invite_def invite_open_def split: invite_end.splits)

lemma same_invite_refl [simp]: "same_invite r r"
  by (simp add: same_invite_def)

lemma same_invite_trans: "same_invite r s \<Longrightarrow> same_invite s t \<Longrightarrow> same_invite r t"
  by (simp add: same_invite_def)

lemma emit_invite_frame [frame]:
  "invites (emit_invite_audit a u i r st) = invites st"
  "profiles (acct (emit_invite_audit a u i r st)) = profiles (acct st)"
  by (simp_all add: emit_invite_audit_def)

lemma mint_invite_cases:
  obtains (refused) e where "mint_invite env now ttl role shared u st = (Inl e, st)"
  | (minted) k plain prefix st1 where "generate_plaintext invite_tag (be_raw env k) = (plain, prefix)" "ascii_only plain"
      "be_id env k \<notin> iv_id ` set (invites st)" "prefix \<notin> set (live_prefixes iv_prefix invite_open (invites st))"
      "mint_invite env now ttl role shared u st =
        (Inr (new_invite now (now + ttl * 3600 * 1000000) (be_id env k) prefix (be_hash env plain) role shared u, plain), st1)"
      "invites st1 = invites st @ [new_invite now (now + ttl * 3600 * 1000000) (be_id env k) prefix (be_hash env plain) role shared u]"
      "profiles (acct st1) = profiles (acct st)"
proof (cases "mint_loop mint_collision_budget (mint_invite_attempt env now (now + ttl * 3600 * 1000000) role shared u) 0 st")
  case (Inl e)
  then show ?thesis using refused by (simp add: mint_invite_def)
next
  case (Inr res)
  then obtain k where k: "mint_invite_attempt env now (now + ttl * 3600 * 1000000) role shared u k st = Inr res"
    using mint_loop_Inr [OF Inr] by auto
  obtain plain prefix where g: "generate_plaintext invite_tag (be_raw env k) = (plain, prefix)" by fastforce
  have asc: "ascii_only plain"
    using k by (auto simp: mint_invite_attempt_def g hash_plaintext_def split: if_splits)
  let ?r = "new_invite now (now + ttl * 3600 * 1000000) (be_id env k) prefix (be_hash env plain) role shared u"
  obtain st1 where "insert_invite ?r st = Inr st1" and res: "res = ((?r, plain), st1)"
    using k by (auto simp: mint_invite_attempt_def g hash_plaintext_def Let_def split: if_splits sum.splits)
  then show ?thesis
    using Inr asc g
    by (intro minted [where ?st1.0 = "snd (mint_invite env now ttl role shared u st)", OF g asc])
       (auto simp: mint_invite_def insert_invite_def new_invite_def frame split: if_splits)
qed

lemma redeem_commit_cases:
  obtains (refused) e where "redeem_commit fails now p st = (Inl e, st)"
  | (redeemed) user st1 where "redeem_commit fails now p st = (Inr user, st1)"
      "\<exists>r \<in> set (invites st). iv_id r = rp_invite p \<and> invite_open r \<and> now < iv_expires r"
      "\<not> list_ex (same_email (rp_email p)) (profiles (acct st))"
      "fst user = new_profile now (rp_user p) (rp_email p) (rp_pw p) (rp_role p) (rp_shared p)"
      "profiles (acct st1) = profiles (acct st) @ [fst user]" "rp_user p \<notin> u_id ` set (profiles (acct st))"
      "invites st1 = update_where (\<lambda>r. iv_id r = rp_invite p \<and> invite_open r \<and> iv_expires r > now)
        (close_invite (RedeemedAt now (rp_user p))) (invites st)"
proof (cases "redeem_commit fails now p st")
  case (Pair res st1)
  show ?thesis
  proof (cases res)
    case (Inl e)
    with Pair have "redeem_commit fails now p st = (Inl e, st)"
      by (auto simp: redeem_commit_def Let_def split: if_splits option.splits)
    then show ?thesis by (rule refused)
  next
    case (Inr user)
    with Pair have "redeem_commit fails now p st = (Inr user, st1)" by simp
    then show ?thesis
      by (rule redeemed)
         (use Pair Inr in \<open>auto simp: redeem_commit_def Let_def frame row_to_internal_def insert_user_def list_ex_iff
            new_profile_def split: if_splits option.splits\<close>)
  qed
qed


lemma household_apply_good: "invites_good st \<Longrightarrow> invites_good (household_apply st e)"
proof (cases e)
  case (MintInvite env now ttl role shared u)
  assume "invites_good st"
  with MintInvite show ?thesis
    by (cases rule: mint_invite_cases [of env now ttl role shared u st])
       (auto simp: invites_good_def new_invite_def invite_table.append_distinct)
next
  case (RevokeInvite now i u)
  assume "invites_good st"
  with RevokeInvite show ?thesis
    by (simp add: revoke_invite_def invites_good_def frame map_key_update_where invite_table.retire_distinct)
next
  case (CommitRedeem fails now p)
  assume "invites_good st"
  with CommitRedeem show ?thesis
    by (cases rule: redeem_commit_cases [of fails now p st])
       (simp_all add: invites_good_def map_key_update_where invite_table.retire_distinct)
next
  case (AccountChange f)
  assume "invites_good st"
  with AccountChange show ?thesis by (simp add: invites_good_def)
qed

interpretation household_runs: event_machine household_apply invites_good
  by unfold_locales (rule household_apply_good)

text \<open>An invite keeps its terms; once closed it is never open again.\<close>

lemma update_same_invite:
  assumes "t_find iv_id i rows = Some r"
  shows "\<exists>r'. t_find iv_id i (update_where q (close_invite e) rows) = Some r' \<and> same_invite r' r \<and>
    (invite_open r' \<longrightarrow> invite_open r)"
  using assms by (simp add: t_find_update_where)

lemma apply_invite:
  assumes "t_find iv_id i (invites st) = Some r"
  shows "\<exists>r'. t_find iv_id i (invites (household_apply st e)) = Some r' \<and> same_invite r' r \<and> (invite_open r' \<longrightarrow> invite_open r)"
proof (cases e)
  case (MintInvite env now ttl role shared u)
  show ?thesis
    by (cases rule: mint_invite_cases [of env now ttl role shared u st])
       (use assms MintInvite in \<open>auto simp: t_find_append\<close>)
next
  case (RevokeInvite now i' u)
  with assms show ?thesis by (simp add: revoke_invite_def frame update_same_invite)
next
  case (CommitRedeem fails now p)
  show ?thesis
    by (cases rule: redeem_commit_cases [of fails now p st]) (use assms CommitRedeem in \<open>simp_all add: update_same_invite\<close>)
next
  case (AccountChange f)
  with assms show ?thesis by simp
qed

lemma run_invite:
  assumes "t_find iv_id i (invites st) = Some r"
  shows "\<exists>r'. t_find iv_id i (invites (foldl household_apply st es)) = Some r' \<and> same_invite r' r \<and>
    (invite_open r' \<longrightarrow> invite_open r)"
  using assms
proof (induction es arbitrary: st r)
  case Nil
  then show ?case by simp
next
  case (Cons e es)
  obtain r1 where "t_find iv_id i (invites (household_apply st e)) = Some r1" "same_invite r1 r"
      "invite_open r1 \<longrightarrow> invite_open r"
    using apply_invite [OF Cons.prems] by blast
  with Cons.IH [of "household_apply st e" r1] show ?case by (auto intro: same_invite_trans)
qed

lemma active_invite_Some:
  "active_invite env now plain st = Inr (Some r) \<Longrightarrow>
    r \<in> set (invites st) \<and> invite_open r \<and> now < iv_expires r \<and> iv_hash r = be_hash env plain \<and>
    parse_body invite_tag plain = Some (iv_prefix r)"
  by (auto simp: active_invite_def parse_plaintext_def lookup_active_by_prefix_def hash_plaintext_def find_Some_iff
      split: option.splits sum.splits if_splits)

lemma redeem_check_Inr:
  assumes "redeem_check env benv now plain email pw st = Inr p"
  obtains r where "r \<in> set (invites st)" "invite_open r" "now < iv_expires r" "iv_hash r = be_hash benv plain"
    "rp_invite p = iv_id r" "rp_role p = iv_role r" "rp_shared p = iv_shared r"
    "validate_user_email env email = Some (rp_email p)" "12 \<le> length pw"
  using assms
  by (auto simp: redeem_check_def validate_password_policy_def min_password_length_def
      split: sum.splits option.splits if_splits dest: active_invite_Some)

subsection \<open>Properties\<close>

text \<open>
  C16. An invite makes one account, on the terms it was minted with. Let the ids of invites and
  their live prefixes be unique, as the tables ensure. Whatever statements of mints, revocations,
  redemptions and account changes run between the checks of a redemption and its transaction,
  and whatever runs afterwards: if the transaction succeeds, then at that moment the presented
  token's invite is neither used nor revoked and has not expired, and no account has the
  address; the account that is made has the role and the access to shared memory of that
  invite and is enabled; and no transaction for this invite succeeds ever again, with whatever
  checks it passed before.
\<close>

theorem an_invite_makes_one_account:
  assumes "invites_good st0" and "redeem_check env benv now plain email pw st0 = Inr p"
    and "redeem_commit fails now' p (foldl household_apply st0 es) = (Inr user, st1)"
    and "rp_invite p' = rp_invite p"
  shows "(\<exists>r \<in> set (invites (foldl household_apply st0 es)). iv_hash r = be_hash benv plain \<and>
        iv_used r = None \<and> iv_revoked r = None \<and> now' < iv_expires r \<and>
        u_role (fst user) = iv_role r \<and> u_allows_shared (fst user) = iv_shared r \<and> \<not> u_disabled (fst user)) \<and>
    \<not> list_ex (same_email (u_email (fst user))) (profiles (acct (foldl household_apply st0 es))) \<and>
    fst user \<in> set (profiles (acct st1)) \<and>
    (\<exists>e. fst (redeem_commit fails' later p' (foldl household_apply st1 es')) = Inl e)"
proof -
  let ?mid = "foldl household_apply st0 es"
  obtain r where r: "r \<in> set (invites st0)" "invite_open r" "iv_hash r = be_hash benv plain" "rp_invite p = iv_id r"
      "rp_role p = iv_role r" "rp_shared p = iv_shared r"
    using assms(2) by (rule redeem_check_Inr)
  have mid_good: "invites_good ?mid" using assms(1) by (rule household_runs.run_good)
  have "t_find iv_id (iv_id r) (invites st0) = Some r"
    using assms(1) r(1) by (intro t_find_unique) (simp_all add: invites_good_def)
  from run_invite [OF this] obtain r1 where r1: "t_find iv_id (iv_id r) (invites ?mid) = Some r1" "same_invite r1 r"
    by blast
  obtain x where c: "x \<in> set (invites ?mid)" "iv_id x = rp_invite p" "invite_open x" "now' < iv_expires x"
      "\<not> list_ex (same_email (rp_email p)) (profiles (acct ?mid))"
      "fst user = new_profile now' (rp_user p) (rp_email p) (rp_pw p) (rp_role p) (rp_shared p)"
      "profiles (acct st1) = profiles (acct ?mid) @ [fst user]"
      "invites st1 = update_where (\<lambda>r. iv_id r = rp_invite p \<and> invite_open r \<and> iv_expires r > now')
        (close_invite (RedeemedAt now' (rp_user p))) (invites ?mid)"
    using assms(3) by (cases rule: redeem_commit_cases [of fails now' p ?mid]) auto
  have "x = r1"
    using t_find_unique [of iv_id "invites ?mid" x] mid_good c(1,2) r1(1) r(4) by (simp add: invites_good_def)
  have terms: "iv_hash x = be_hash benv plain" "rp_role p = iv_role x" "rp_shared p = iv_shared x"
    using r r1(2) \<open>x = r1\<close> by (simp_all add: same_invite_def)
  have "t_find iv_id (rp_invite p) (invites st1) = Some (close_invite (RedeemedAt now' (rp_user p)) x)"
    using r1(1) \<open>x = r1\<close> c r(4) by (simp add: t_find_update_where)
  from run_invite [OF this, of es'] obtain r2 where
    r2: "t_find iv_id (rp_invite p) (invites (foldl household_apply st1 es')) = Some r2" "\<not> invite_open r2"
    by auto
  have "invites_good st1"
    using household_apply_good [OF mid_good, of "CommitRedeem fails now' p"] assms(3) by simp
  then have fin: "invites_good (foldl household_apply st1 es')" by (rule household_runs.run_good)
  have "fst (redeem_commit fails' later p' (foldl household_apply st1 es')) \<noteq> Inr u" for u
  proof
    assume "fst (redeem_commit fails' later p' (foldl household_apply st1 es')) = Inr u"
    then obtain y where "y \<in> set (invites (foldl household_apply st1 es'))" "iv_id y = rp_invite p'" "invite_open y"
      by (cases rule: redeem_commit_cases [of fails' later p' "foldl household_apply st1 es'"]) auto
    with r2 assms(4) t_find_unique [of iv_id "invites (foldl household_apply st1 es')" y] fin show False
      by (simp add: invites_good_def)
  qed
  then have "\<exists>e. fst (redeem_commit fails' later p' (foldl household_apply st1 es')) = Inl e"
    by (cases "fst (redeem_commit fails' later p' (foldl household_apply st1 es'))") auto
  moreover have "iv_used x = None \<and> iv_revoked x = None" using c(3) by (simp add: invite_open_def)
  ultimately show ?thesis
    using c(1,4,5,6,7) terms by (auto simp: new_profile_def)
qed

definition sample_acct_env :: acct_env where
  "sample_acct_env = \<lparr>ae_pw_hash = (\<lambda>p. ''#'' @ p), ae_pw_verify = (\<lambda>h p. if h = ''#'' @ p then PwMatch else PwMismatch),
     ae_email = (\<lambda>e. Some e), ae_new_id = ''u1''\<rparr>"

definition empty_acct :: acct_state where
  "empty_acct = \<lparr>auth = fresh_auth [], mcp = no_tokens, profiles = [],
     acct_perms = \<lparr>p_rows = [], p_cache = Map.empty, p_log = [], p_routines = [], p_elevations = []\<rparr>, seen = []\<rparr>"

definition open_invite :: invite where
  "open_invite = new_invite 0 100 ''i1'' (replicate 16 CHR ''a'') (''h'' @ ''linv_'' @ replicate 45 CHR ''a'') ''user'' False ''admin''"

definition one_invite :: household where
  "one_invite = \<lparr>acct = empty_acct, invites = [open_invite]\<rparr>"

lemma one_invite_good: "invites_good one_invite"
  by (simp add: invites_good_def one_invite_def live_prefixes_def)

definition sample_plan :: redeem_plan where
  "sample_plan = \<lparr>rp_invite = ''i1'', rp_user = ''u1'', rp_email = ''bob@x'', rp_pw = ''#correct horse'', rp_role = ''user'', rp_shared = False\<rparr>"

lemma sample_check:
  "redeem_check sample_acct_env sample_bearer_env 5 (''linv_'' @ replicate 45 CHR ''a'') ''bob@x'' ''correct horse'' one_invite = Inr sample_plan"
proof -
  have "parse_plaintext sample_bearer_env (''linv_'' @ replicate 45 CHR ''a'') =
      Inr (Some (replicate 16 CHR ''a'', iv_hash open_invite))"
    by (simp add: parse_plaintext_def parse_body_def starts_with_def invite_tag_def lookup_prefix_len_def
        hash_plaintext_def ascii_only_def code_point_def list_all_iff sample_bearer_env_def open_invite_def new_invite_def)
  moreover have "py_strip ''bob@x'' = ''bob@x''"
    by (simp add: py_strip_def py_lstrip_def py_rstrip_def py_space_def code_point_def)
  ultimately show ?thesis
    by (simp add: redeem_check_def active_invite_def lookup_active_by_prefix_def one_invite_def open_invite_def
        new_invite_def invite_open_def validate_user_email_def validate_password_policy_def min_password_length_def
        sample_acct_env_def sample_plan_def)
qed

lemma sample_commit:
  "redeem_commit None 6 sample_plan (foldl household_apply one_invite []) =
    (Inr (new_profile 6 ''u1'' ''bob@x'' ''#correct horse'' ''user'' False, 1),
     snd (redeem_commit None 6 sample_plan one_invite))"
  by (simp add: redeem_commit_def Let_def sample_plan_def one_invite_def empty_acct_def open_invite_def new_invite_def
      invite_open_def insert_user_def row_to_internal_def new_profile_def fresh_auth_def)

theorem an_invite_makes_one_account_witness:
  "u_role (new_profile 6 ''u1'' ''bob@x'' ''#correct horse'' ''user'' False) = iv_role open_invite \<and>
   (\<exists>e. fst (redeem_commit None 7 sample_plan (foldl household_apply (snd (redeem_commit None 6 sample_plan one_invite))
      [CommitRedeem None 7 sample_plan])) = Inl e)"
proof -
  note use_it = an_invite_makes_one_account [OF one_invite_good sample_check sample_commit refl, of None 7 "[CommitRedeem None 7 sample_plan]"]
  have "set (invites (foldl household_apply one_invite [])) = {open_invite}" by (simp add: one_invite_def)
  with use_it show ?thesis by (simp only: fst_conv) blast
qed

text \<open>
  The public routes hash the presented token before they look for it: a token with a character
  outside ASCII makes them fail instead of answering that the link is invalid.
\<close>

theorem non_ascii_invite_fails:
  assumes "parse_body invite_tag plain = Some prefix" and "\<not> ascii_only plain"
  shows "peek_invite env now plain st = Inl NotAscii"
  using assms by (simp add: peek_invite_def active_invite_def parse_plaintext_def hash_plaintext_def)

end
