(* ===== verification/RateLimit.thy ===== *)
theory RateLimit
  imports Prelude
begin

section \<open>Limits on failed attempts and on requests\<close>

text \<open>
  Models \<open>orchestrator/rate_limit.py\<close>: the buckets of time stamps behind the login form, the
  invite form and the public invite page. A bucket is the deque of the code, oldest entry
  first; the clock is monotonic. The limiter keeps one bucket per address and one per
  second key (the email); each operation runs under the lock of its limiter.
\<close>

type_synonym buckets = "string \<Rightarrow> instant list"

definition rate_window :: int where
  "rate_window = 60 * 1000000"

definition rate_max_failures :: nat where
  "rate_max_failures = 5"

definition prune :: "instant \<Rightarrow> instant list \<Rightarrow> instant list" where
  "prune cutoff q = dropWhile (\<lambda>t. t < cutoff) q"

record limiter =
  lim_ip :: buckets
  lim_second :: buckets

definition fresh_limiter :: limiter where
  "fresh_limiter = \<lparr>lim_ip = (\<lambda>_. []), lim_second = (\<lambda>_. [])\<rparr>"

text \<open>The second bucket is pruned only when the first is under the limit.\<close>

definition rate_check :: "nat \<Rightarrow> int \<Rightarrow> instant \<Rightarrow> string \<Rightarrow> string \<Rightarrow> limiter \<Rightarrow> bool \<times> limiter" where
  "rate_check max_failures window now key_a key_b lim =
     (let cutoff = now - window;
          a = prune cutoff (lim_ip lim key_a);
          lim1 = lim\<lparr>lim_ip := (lim_ip lim)(key_a := a)\<rparr>
      in if length a \<ge> max_failures then (False, lim1)
         else let b = prune cutoff (lim_second lim key_b);
                  lim2 = lim1\<lparr>lim_second := (lim_second lim1)(key_b := b)\<rparr>
              in (length b < max_failures, lim2))"

definition check_failures :: "instant \<Rightarrow> string \<Rightarrow> string \<Rightarrow> limiter \<Rightarrow> bool \<times> limiter" where
  "check_failures now ip key lim = rate_check rate_max_failures rate_window now ip key lim"

definition limiter_failure :: "instant \<Rightarrow> string \<Rightarrow> string \<Rightarrow> limiter \<Rightarrow> limiter" where
  "limiter_failure now ip key lim =
     lim\<lparr>lim_ip := (lim_ip lim)(ip := lim_ip lim ip @ [now]),
         lim_second := (lim_second lim)(key := lim_second lim key @ [now])\<rparr>"

definition limiter_success :: "string \<Rightarrow> limiter \<Rightarrow> limiter" where
  "limiter_success key lim = lim\<lparr>lim_second := (lim_second lim)(key := [])\<rparr>"

text \<open>\<open>RequestRateLimiter.check\<close>: every admitted request counts.\<close>

definition check_request :: "nat \<Rightarrow> int \<Rightarrow> instant \<Rightarrow> string \<Rightarrow> buckets \<Rightarrow> bool \<times> buckets" where
  "check_request max_requests window now key store =
     (let b = prune (now - window) (store key) in
      if length b \<ge> max_requests then (False, store(key := b))
      else (True, store(key := b @ [now])))"

subsection \<open>A bucket knows the recent past\<close>

text \<open>
  \<open>recent hist q now\<close>: whatever was dropped from the bucket is older than every window that
  ends now or later.
\<close>

definition recent :: "int \<Rightarrow> instant list \<Rightarrow> instant list \<Rightarrow> instant \<Rightarrow> bool" where
  "recent window hist q now \<longleftrightarrow> sorted hist \<and> (\<forall>t \<in> set hist. t \<le> now) \<and>
     (\<exists>old. hist = old @ q \<and> (\<forall>t \<in> set old. t < now - window))"

lemma recent_later: "recent w hist q now \<Longrightarrow> now \<le> later \<Longrightarrow> recent w hist q later"
  by (force simp: recent_def)

lemma recent_prune:
  assumes "recent w hist q now"
  shows "recent w hist (prune (now - w) q) now"
proof -
  obtain old where h: "hist = old @ q" "\<forall>t \<in> set old. t < now - w"
    using assms by (auto simp: recent_def)
  have q: "q = takeWhile (\<lambda>t. t < now - w) q @ prune (now - w) q" by (simp add: prune_def)
  show ?thesis
    unfolding recent_def
    using assms h q
    by (intro conjI exI [of _ "old @ takeWhile (\<lambda>t. t < now - w) q"])
       (auto simp: recent_def dest: set_takeWhileD)
qed

lemma recent_append: "recent w hist q now \<Longrightarrow> 0 \<le> w \<Longrightarrow> recent w (hist @ [now]) (q @ [now]) now"
  by (auto simp: recent_def sorted_append)

definition in_window :: "int \<Rightarrow> instant \<Rightarrow> instant list \<Rightarrow> nat" where
  "in_window window a hist = length (filter (\<lambda>t. a \<le> t \<and> t \<le> a + window) hist)"

text \<open>An entry admitted while fewer than \<open>n\<close> recent ones are known keeps every window within \<open>n\<close>.\<close>

lemma window_append:
  assumes "recent w hist q now" and "length (prune (now - w) q) < n" and "in_window w a hist \<le> n"
  shows "in_window w a (hist @ [now]) \<le> n"
proof (cases "a \<le> now \<and> now \<le> a + w")
  case False
  with assms(3) show ?thesis by (auto simp: in_window_def)
next
  case True
  obtain old where h: "hist = old @ prune (now - w) q" "\<forall>t \<in> set old. t < now - w"
    using recent_prune [OF assms(1)] by (auto simp: recent_def)
  have "filter (\<lambda>t. a \<le> t \<and> t \<le> a + w) old = []"
    using h(2) True by (force simp: filter_empty_conv)
  then have "in_window w a hist \<le> length (prune (now - w) q)"
    using h(1) by (simp add: in_window_def)
  with True assms(2) show ?thesis by (simp add: in_window_def)
qed

subsection \<open>Attempts behind the limiter\<close>

text \<open>
  An attempt at \<open>now\<close> from an address with a second key; \<open>good\<close> is whether the password (or
  the invite) turns out right. The result is whether the attempt was evaluated at all.
\<close>

record attempt =
  at_now :: instant
  at_ip :: string
  at_key :: string
  at_good :: bool

definition limited_attempt :: "limiter \<Rightarrow> attempt \<Rightarrow> bool \<times> limiter" where
  "limited_attempt lim a =
     (let (ok, lim1) = check_failures (at_now a) (at_ip a) (at_key a) lim in
      if \<not> ok then (False, lim1)
      else if at_good a then (True, limiter_success (at_key a) lim1)
      else (True, limiter_failure (at_now a) (at_ip a) (at_key a) lim1))"

text \<open>The failed attempts that were evaluated.\<close>

fun evaluated_failures :: "limiter \<Rightarrow> attempt list \<Rightarrow> attempt list" where
  "evaluated_failures lim [] = []"
| "evaluated_failures lim (a # as) =
     (let (ok, lim1) = limited_attempt lim a in
      (if ok \<and> \<not> at_good a then [a] else []) @ evaluated_failures lim1 as)"

definition times_from :: "string \<Rightarrow> attempt list \<Rightarrow> instant list" where
  "times_from ip as = map at_now (filter (\<lambda>a. at_ip a = ip) as)"

definition times_for :: "string \<Rightarrow> attempt list \<Rightarrow> instant list" where
  "times_for key as = map at_now (filter (\<lambda>a. at_key a = key) as)"

lemma rate_window_pos: "0 \<le> rate_window"
  by (simp add: rate_window_def)

lemma attempt_cases:
  obtains (refused) "\<not> fst (limited_attempt lim a)"
      "\<And>ip. lim_ip (snd (limited_attempt lim a)) ip =
        (if ip = at_ip a then prune (at_now a - rate_window) (lim_ip lim ip) else lim_ip lim ip)"
      "\<And>k. lim_second (snd (limited_attempt lim a)) k = lim_second lim k \<or>
        (k = at_key a \<and> lim_second (snd (limited_attempt lim a)) k = prune (at_now a - rate_window) (lim_second lim k))"
  | (right) "fst (limited_attempt lim a)" "at_good a"
      "\<And>ip. lim_ip (snd (limited_attempt lim a)) ip =
        (if ip = at_ip a then prune (at_now a - rate_window) (lim_ip lim ip) else lim_ip lim ip)"
      "\<And>k. k \<noteq> at_key a \<Longrightarrow> lim_second (snd (limited_attempt lim a)) k = lim_second lim k"
  | (wrong) "fst (limited_attempt lim a)" "\<not> at_good a"
      "length (prune (at_now a - rate_window) (lim_ip lim (at_ip a))) < rate_max_failures"
      "length (prune (at_now a - rate_window) (lim_second lim (at_key a))) < rate_max_failures"
      "\<And>ip. lim_ip (snd (limited_attempt lim a)) ip =
        (if ip = at_ip a then prune (at_now a - rate_window) (lim_ip lim ip) @ [at_now a] else lim_ip lim ip)"
      "\<And>k. lim_second (snd (limited_attempt lim a)) k =
        (if k = at_key a then prune (at_now a - rate_window) (lim_second lim k) @ [at_now a] else lim_second lim k)"
proof -
  consider "\<not> fst (limited_attempt lim a)" | "fst (limited_attempt lim a)" "at_good a"
    | "fst (limited_attempt lim a)" "\<not> at_good a" by blast
  then show ?thesis
  proof cases
    case 1
    show ?thesis
      by (rule refused)
         (use 1 in \<open>auto simp: limited_attempt_def check_failures_def rate_check_def Let_def split: if_splits\<close>)
  next
    case 2
    show ?thesis
      by (rule right)
         (use 2 in \<open>auto simp: limited_attempt_def check_failures_def rate_check_def limiter_success_def Let_def split: if_splits\<close>)
  next
    case 3
    show ?thesis
      by (rule wrong)
         (use 3 in \<open>auto simp: limited_attempt_def check_failures_def rate_check_def limiter_failure_def Let_def split: if_splits\<close>)
  qed
qed

lemma evaluated_from_ip:
  assumes "recent rate_window hist (lim_ip lim ip) now" and "sorted (map at_now as)" and "\<forall>a \<in> set as. now \<le> at_now a"
    and "in_window rate_window w hist \<le> rate_max_failures"
  shows "in_window rate_window w (hist @ times_from ip (evaluated_failures lim as)) \<le> rate_max_failures"
  using assms
proof (induction as arbitrary: lim hist now)
  case Nil
  then show ?case by (simp add: times_from_def)
next
  case (Cons a as)
  let ?lim1 = "snd (limited_attempt lim a)" and ?t = "at_now a"
  have r: "recent rate_window hist (lim_ip lim ip) ?t" using Cons.prems(1,3) recent_later by auto
  have later: "sorted (map at_now as)" "\<forall>x \<in> set as. ?t \<le> at_now x" using Cons.prems(2) by auto
  show ?case
  proof (cases "at_ip a = ip")
    case False
    then have "recent rate_window hist (lim_ip ?lim1 ip) ?t"
      using r by (cases rule: attempt_cases [of lim a]) auto
    from Cons.IH [OF this later Cons.prems(4)] show ?thesis
      using False by (auto simp: times_from_def Let_def case_prod_unfold)
  next
    case True
    show ?thesis
    proof (cases rule: attempt_cases [of lim a])
      case refused
      with True r have "recent rate_window hist (lim_ip ?lim1 ip) ?t" by (simp add: recent_prune)
      from Cons.IH [OF this later Cons.prems(4)] refused(1) show ?thesis by (simp add: Let_def case_prod_unfold)
    next
      case right
      with True r have "recent rate_window hist (lim_ip ?lim1 ip) ?t" by (simp add: recent_prune)
      from Cons.IH [OF this later Cons.prems(4)] right(2) show ?thesis by (simp add: Let_def case_prod_unfold)
    next
      case wrong
      with True r have "recent rate_window (hist @ [?t]) (lim_ip ?lim1 ip) ?t"
        by (simp add: recent_prune recent_append rate_window_pos)
      moreover have "in_window rate_window w (hist @ [?t]) \<le> rate_max_failures"
        using wrong(3) True r Cons.prems(4) by (intro window_append) auto
      ultimately have "in_window rate_window w ((hist @ [?t]) @ times_from ip (evaluated_failures ?lim1 as)) \<le> rate_max_failures"
        using later by (intro Cons.IH)
      with wrong(1,2) True show ?thesis by (simp add: times_from_def Let_def case_prod_unfold)
    qed
  qed
qed

lemma evaluated_for_key:
  assumes "recent rate_window hist (lim_second lim key) now" and "sorted (map at_now as)" and "\<forall>a \<in> set as. now \<le> at_now a"
    and "\<forall>a \<in> set as. at_key a = key \<longrightarrow> \<not> at_good a" and "in_window rate_window w hist \<le> rate_max_failures"
  shows "in_window rate_window w (hist @ times_for key (evaluated_failures lim as)) \<le> rate_max_failures"
  using assms
proof (induction as arbitrary: lim hist now)
  case Nil
  then show ?case by (simp add: times_for_def)
next
  case (Cons a as)
  let ?lim1 = "snd (limited_attempt lim a)" and ?t = "at_now a"
  have r: "recent rate_window hist (lim_second lim key) ?t" using Cons.prems(1,3) recent_later by auto
  have later: "sorted (map at_now as)" "\<forall>x \<in> set as. ?t \<le> at_now x" "\<forall>a \<in> set as. at_key a = key \<longrightarrow> \<not> at_good a"
    using Cons.prems(2,4) by auto
  show ?case
  proof (cases rule: attempt_cases [of lim a])
    case refused
    then have "recent rate_window hist (lim_second ?lim1 key) ?t" using r recent_prune by metis
    from Cons.IH [OF this later Cons.prems(5)] refused(1) show ?thesis by (simp add: Let_def case_prod_unfold)
  next
    case right
    with Cons.prems(4) have "at_key a \<noteq> key" by auto
    with right(4) r have "recent rate_window hist (lim_second ?lim1 key) ?t" by simp
    from Cons.IH [OF this later Cons.prems(5)] right(2) show ?thesis by (simp add: Let_def case_prod_unfold)
  next
    case wrong
    show ?thesis
    proof (cases "at_key a = key")
      case False
      with wrong(6) r have "recent rate_window hist (lim_second ?lim1 key) ?t" by simp
      from Cons.IH [OF this later Cons.prems(5)] False show ?thesis
        by (auto simp: times_for_def Let_def case_prod_unfold)
    next
      case True
      with wrong(6) r have "recent rate_window (hist @ [?t]) (lim_second ?lim1 key) ?t"
        by (simp add: recent_prune recent_append rate_window_pos)
      moreover have "in_window rate_window w (hist @ [?t]) \<le> rate_max_failures"
        using wrong(4) True r Cons.prems(5) by (intro window_append) auto
      ultimately have "in_window rate_window w ((hist @ [?t]) @ times_for key (evaluated_failures ?lim1 as)) \<le> rate_max_failures"
        using later by (intro Cons.IH)
      with wrong(1,2) True show ?thesis by (simp add: times_for_def Let_def case_prod_unfold)
    qed
  qed
qed

subsection \<open>Properties\<close>

text \<open>
  C29. Guessing is limited: of the attempts that come in one after the other, in any closed
  window of sixty seconds at most five failed ones from one address are evaluated at all, and
  at most five failed ones for one email as long as nobody logs in with it.
\<close>

theorem guessing_is_limited:
  assumes "sorted (map at_now as)" and "\<And>a. a \<in> set as \<Longrightarrow> 0 \<le> at_now a"
    and "\<And>a. a \<in> set as \<Longrightarrow> at_key a = key \<Longrightarrow> \<not> at_good a"
  shows "length (filter (\<lambda>t. w \<le> t \<and> t \<le> w + 60 * 1000000) (times_from ip (evaluated_failures fresh_limiter as))) \<le> 5 \<and>
    length (filter (\<lambda>t. w \<le> t \<and> t \<le> w + 60 * 1000000) (times_for key (evaluated_failures fresh_limiter as))) \<le> 5"
proof -
  have "recent rate_window [] (lim_ip fresh_limiter ip) 0" "recent rate_window [] (lim_second fresh_limiter key) 0"
    by (simp_all add: recent_def fresh_limiter_def)
  moreover have "in_window rate_window w [] \<le> rate_max_failures" by (simp add: in_window_def)
  ultimately show ?thesis
    using evaluated_from_ip [of "[]" fresh_limiter ip 0 as w] evaluated_for_key [of "[]" fresh_limiter key 0 as w] assms
    by (simp add: in_window_def rate_window_def rate_max_failures_def)
qed

theorem guessing_is_limited_witness:
  "length (filter (\<lambda>t. 0 \<le> t \<and> t \<le> 0 + 60 * 1000000) (times_from ''ip'' (evaluated_failures fresh_limiter
     (replicate 9 \<lparr>at_now = 4, at_ip = ''ip'', at_key = ''ann'', at_good = False\<rparr>)))) \<le> 5"
proof -
  let ?as = "replicate 9 \<lparr>at_now = 4, at_ip = ''ip'', at_key = ''ann'', at_good = False\<rparr>"
  have "sorted (map at_now ?as)" by simp
  from guessing_is_limited [OF this, of "''ann''" 0 "''ip''"] show ?thesis by simp
qed

text \<open>The public page admits at most the configured number of requests per window.\<close>

fun admitted :: "nat \<Rightarrow> int \<Rightarrow> string \<Rightarrow> buckets \<Rightarrow> (instant \<times> string) list \<Rightarrow> instant list" where
  "admitted n w key store [] = []"
| "admitted n w key store ((t, k) # rs) =
     (let (ok, store1) = check_request n w t k store in
      (if ok \<and> k = key then [t] else []) @ admitted n w key store1 rs)"

lemma admitted_in_window:
  assumes "recent w hist (store key) now" and "0 \<le> w" and "sorted (map fst rs)" and "\<forall>r \<in> set rs. now \<le> fst r"
    and "in_window w a hist \<le> n"
  shows "in_window w a (hist @ admitted n w key store rs) \<le> n"
  using assms
proof (induction rs arbitrary: store hist now)
  case Nil
  then show ?case by simp
next
  case (Cons r rs)
  obtain t k where tk: "r = (t, k)" by fastforce
  have r: "recent w hist (store key) t" using Cons.prems(1,4) recent_later tk by auto
  have later: "sorted (map fst rs)" "\<forall>x \<in> set rs. t \<le> fst x" using Cons.prems(3) tk by auto
  let ?store1 = "snd (check_request n w t k store)"
  show ?case
  proof (cases "k = key \<and> fst (check_request n w t k store)")
    case True
    then have "length (prune (t - w) (store key)) < n" "?store1 key = prune (t - w) (store key) @ [t]"
      by (auto simp: check_request_def Let_def split: if_splits)
    moreover from this r Cons.prems(2) have "recent w (hist @ [t]) (?store1 key) t" by (simp add: recent_prune recent_append)
    moreover from calculation(1) r Cons.prems(5) have "in_window w a (hist @ [t]) \<le> n" by (intro window_append)
    ultimately have "in_window w a ((hist @ [t]) @ admitted n w key ?store1 rs) \<le> n"
      using later Cons.prems(2) by (intro Cons.IH)
    with True tk show ?thesis by (auto simp: Let_def case_prod_unfold)
  next
    case False
    then have "?store1 key = store key \<or> ?store1 key = prune (t - w) (store key)"
      by (auto simp: check_request_def Let_def split: if_splits)
    with r have "recent w hist (?store1 key) t" using recent_prune by metis
    from Cons.IH [where store = ?store1, OF this Cons.prems(2) later Cons.prems(5)] False tk show ?thesis by (auto simp: Let_def case_prod_unfold)
  qed
qed

lemma requests_are_limited:
  assumes "sorted (map fst rs)" and "\<forall>r \<in> set rs. 0 \<le> fst r" and "0 \<le> w"
  shows "in_window w a (admitted n w key (\<lambda>_. []) rs) \<le> n"
  using admitted_in_window [of w "[]" "\<lambda>_. []" key 0 rs a n] assms by (simp add: recent_def in_window_def)

end
