(* ===== verification/AccountRoutes.thy ===== *)
theory AccountRoutes
  imports Invites RateLimit
begin

section \<open>Sign-in, administration and the life of an account\<close>

text \<open>
  Models the routes over the accounts: \<open>routes/auth.py\<close> (login, refresh, logout), the user and
  invite routes of \<open>routes/admin_users.py\<close>, \<open>routes/invites.py\<close>, \<open>routes/mcp_tokens.py\<close> and
  the minting of access tokens in \<open>auth.py\<close>. Request bodies arrive validated by pydantic; the
  same-origin dependency and the role dependency are in front of them. Signing is a parameter
  \<open>encode\<close>: a presented access token is decoded to a payload exactly if it was issued. The
  last part composes everything into one machine of requests.
\<close>

subsection \<open>Environment and state\<close>

record route_env =
  re_acct :: acct_env
  re_bearer :: bearer_env
  re_gate :: gate_env
  re_token :: token_env
  re_encode :: "json_obj \<Rightarrow> string"
  re_refresh_jwt :: "string \<Rightarrow> json_obj option"
  re_access_ttl :: int
  re_refresh_ttl :: int
  re_invite_ttl :: int
  re_session_id :: string
  re_fresh_salt :: string
  re_fingerprint :: "string \<Rightarrow> string \<Rightarrow> string"
  re_stamp :: string

text \<open>\<open>issued\<close> lists the payloads signed so far, \<open>used_ids\<close> the user ids ever given out.\<close>

record service =
  house :: household
  login_limiter :: limiter
  redeem_limiter :: limiter
  peek_store :: buckets
  issued :: "json_obj list"
  used_ids :: "user_id list"

datatype http_error = Http nat | Uncaught

definition on_acct :: "(acct_state \<Rightarrow> acct_state) \<Rightarrow> service \<Rightarrow> service" where
  "on_acct f w = w\<lparr>house := (house w)\<lparr>acct := f (acct (house w))\<rparr>\<rparr>"

definition the_acct :: "service \<Rightarrow> acct_state" where
  "the_acct w = acct (house w)"

subsection \<open>Access tokens\<close>

definition mint_access_token ::
  "int \<Rightarrow> int \<Rightarrow> user_id \<Rightarrow> string \<Rightarrow> (string \<times> int) option \<Rightarrow> bool \<Rightarrow> json_obj" where
  "mint_access_token now_s ttl u role sid_tv shared =
     [(''sub'', JStr u), (''role'', JStr role), (''iat'', JInt now_s), (''exp'', JInt (now_s + ttl))] @
     (case sid_tv of None \<Rightarrow> [] | Some (sid, tv) \<Rightarrow> [(''sid'', JStr sid), (''tv'', JInt tv)]) @
     (if shared then [] else [(''allows_shared'', JBool False)])"

definition seconds :: "instant \<Rightarrow> int" where
  "seconds t = t div 1000000"

definition login_response :: "route_env \<Rightarrow> instant \<Rightarrow> profile \<Rightarrow> string \<Rightarrow> int \<Rightarrow> json_obj" where
  "login_response env now r sid tv =
     mint_access_token (seconds now) (re_access_ttl env) (u_id r) (u_role r) (Some (sid, tv)) (u_allows_shared r)"

text \<open>What login and redemption share: salt, session row, login stamp, response.\<close>

definition open_session ::
  "route_env \<Rightarrow> instant \<Rightarrow> string \<Rightarrow> string \<Rightarrow> internal_user \<Rightarrow> acct_state \<Rightarrow> (http_error + json_obj) \<times> acct_state" where
  "open_session env now ip ua user st =
     (case user of (r, v) \<Rightarrow>
        case ensure_instance_salt (re_fresh_salt env) (auth st) of
          (Inl e, a1) \<Rightarrow> (Inl Uncaught, st\<lparr>auth := a1\<rparr>)
        | (Inr salt, a1) \<Rightarrow>
            let sid = re_session_id env; jwt = te_mint (re_token env) (u_id r) sid in
            (case insert_login_session (re_token env) now sid (u_id r) jwt (now + re_refresh_ttl env * 1000000)
                 (compute_device_label ua (re_stamp env)) (re_fingerprint env salt ip) (re_fingerprint env salt ua) a1 of
               (Inl e, a2) \<Rightarrow> (Inl Uncaught, st\<lparr>auth := a2\<rparr>)
             | (Inr _, a2) \<Rightarrow> (Inr (login_response env now r sid v), record_login now (u_id r) (st\<lparr>auth := a2\<rparr>))))"

definition issue :: "(http_error + json_obj) \<times> acct_state \<Rightarrow> service \<Rightarrow> (http_error + json_obj) \<times> service" where
  "issue res w = (case res of (r, a) \<Rightarrow>
     (r, (on_acct (\<lambda>_. a) w)\<lparr>issued := issued w @ (case r of Inl _ \<Rightarrow> [] | Inr p \<Rightarrow> [p])\<rparr>))"

subsection \<open>Login, refresh and logout\<close>

definition login :: "route_env \<Rightarrow> instant \<Rightarrow> string \<Rightarrow> string \<Rightarrow> string \<Rightarrow> string \<Rightarrow> service \<Rightarrow> (http_error + json_obj) \<times> service" where
  "login env now ip ua email pw w =
     (if \<not> ac_enabled (ge_cfg (re_gate env)) then (Inl (Http 503), w)
      else let key = py_lower (py_strip email); (ok, lim) = check_failures now ip key (login_limiter w);
               w1 = w\<lparr>login_limiter := lim\<rparr> in
        if \<not> ok then (Inl (Http 429), w1)
        else case verify_credentials (re_acct env) email pw (the_acct w) of
          Inl e \<Rightarrow> (Inl Uncaught, w1)
        | Inr None \<Rightarrow> (Inl (Http 401), w1\<lparr>login_limiter := limiter_failure now ip key lim\<rparr>)
        | Inr (Some user) \<Rightarrow>
            issue (open_session env now ip ua user (the_acct w)) (w1\<lparr>login_limiter := limiter_success key lim\<rparr>))"

text \<open>\<open>str(payload["sub"])\<close> and \<open>str(payload["jti"])\<close> of a decoded cookie.\<close>

definition refresh_claims :: "route_env \<Rightarrow> string \<Rightarrow> (user_id \<times> string) option" where
  "refresh_claims env cookie =
     (case re_refresh_jwt env cookie of
        None \<Rightarrow> None
      | Some p \<Rightarrow> (case (map_of p ''sub'', map_of p ''jti'') of
           (Some s, Some j) \<Rightarrow> Some (py_str (re_gate env) s, py_str (re_gate env) j) | _ \<Rightarrow> None))"

definition refresh :: "route_env \<Rightarrow> instant \<Rightarrow> string option \<Rightarrow> service \<Rightarrow> (http_error + json_obj) \<times> service" where
  "refresh env now cookie w =
     (if \<not> ac_enabled (ge_cfg (re_gate env)) then (Inl (Http 503), w)
      else if \<not> given cookie then (Inl (Http 401), w)
      else case refresh_claims env (the cookie) of
        None \<Rightarrow> (Inl (Http 401), w)
      | Some (u, jti) \<Rightarrow>
          (case get_user_by_id u (the_acct w) of
             None \<Rightarrow> (Inl (Http 401), w)
           | Some (r, _) \<Rightarrow>
               if u_disabled r then (Inl (Http 401), w)
               else case rotate_refresh (re_token env) now (re_refresh_ttl env) (re_session_id env) u jti (the cookie) (auth (the_acct w)) of
                 (Inl e, a1) \<Rightarrow> (Inl (if e = DuplicateSession then Http 500 else Http 401), on_acct (auth_update (\<lambda>_. a1)) w)
               | (Inr (sid, _, tv), a1) \<Rightarrow>
                   let w1 = on_acct (auth_update (\<lambda>_. a1)) w in
                   (case get_user_by_id u (the_acct w1) of
                      None \<Rightarrow> (Inl (Http 401), w1)
                    | Some (r2, _) \<Rightarrow> issue (Inr (login_response env now r2 sid tv), the_acct w1) w1)))"

definition logout :: "route_env \<Rightarrow> instant \<Rightarrow> string option \<Rightarrow> service \<Rightarrow> service" where
  "logout env now cookie w =
     (if \<not> given cookie then w
      else case refresh_claims env (the cookie) of
        None \<Rightarrow> w
      | Some (u, jti) \<Rightarrow> on_acct (auth_update (\<lambda>a. snd (revoke_session_for_user now jti u a))) w)"

subsection \<open>Administration of users\<close>

definition create_user_route ::
  "route_env \<Rightarrow> instant \<Rightarrow> string \<Rightarrow> string \<Rightarrow> string \<Rightarrow> acct_state \<Rightarrow> (http_error + internal_user) \<times> acct_state" where
  "create_user_route env now email pw role st =
     (case create_user (re_acct env) now email pw role True st of
        (Inl EmailRefused, st1) \<Rightarrow> (Inl (Http 409), st1)
      | (Inl EmailTaken, st1) \<Rightarrow> (Inl (Http 409), st1)
      | (Inl _, st1) \<Rightarrow> (Inl Uncaught, st1)
      | (Inr user, st1) \<Rightarrow> (Inr user, st1))"

record user_patch =
  up_role :: "string option"
  up_disabled :: "bool option"
  up_display :: "string option"

text \<open>The guards of \<open>patch_user\<close>; the row they read is what the changes are compared with.\<close>

definition patch_check :: "user_id \<Rightarrow> user_id \<Rightarrow> user_patch \<Rightarrow> acct_state \<Rightarrow> http_error + profile" where
  "patch_check caller u body st =
     (case get_user_by_id u st of
        None \<Rightarrow> Inl (Http 404)
      | Some (target, _) \<Rightarrow>
          if up_role body = None \<and> up_disabled body = None \<and> up_display body = None then Inl (Http 400)
          else
            let new_role = (case up_role body of None \<Rightarrow> u_role target | Some x \<Rightarrow> x);
                new_disabled = (case up_disabled body of None \<Rightarrow> u_disabled target | Some x \<Rightarrow> x);
                will_be_active_admin = (new_role = ''admin'' \<and> \<not> new_disabled);
                is_currently_last_admin = (active_admin target \<and> count_admins st = 1)
            in if is_currently_last_admin \<and> \<not> will_be_active_admin then Inl (Http 400)
               else if up_disabled body = Some True \<and> u_id target = caller then Inl (Http 400)
               else Inr target)"

definition patch_apply ::
  "nat option \<Rightarrow> instant \<Rightarrow> user_id \<Rightarrow> profile \<Rightarrow> user_patch \<Rightarrow> acct_state \<Rightarrow> (http_error + internal_user) \<times> acct_state" where
  "patch_apply fails now caller target body st =
     (let u = u_id target;
          st1 = (case up_role body of Some x \<Rightarrow> if x \<noteq> u_role target then snd (update_role u x st) else st | None \<Rightarrow> st);
          (failed, st2) = (case up_disabled body of
             Some d \<Rightarrow> if d \<noteq> u_disabled target
               then (case set_disabled fails now u d (Some caller) st1 of (Inl _, s) \<Rightarrow> (True, s) | (Inr _, s) \<Rightarrow> (False, s))
               else (False, st1)
           | None \<Rightarrow> (False, st1))
      in if failed then (Inl Uncaught, st2)
         else
           let st3 = (case up_display body of Some n \<Rightarrow> snd (set_display_name u (Some n) st2) | None \<Rightarrow> st2) in
           (case get_user_by_id u st3 of None \<Rightarrow> (Inl (Http 500), st3) | Some x \<Rightarrow> (Inr x, st3)))"

definition patch_user ::
  "nat option \<Rightarrow> instant \<Rightarrow> user_id \<Rightarrow> user_id \<Rightarrow> user_patch \<Rightarrow> acct_state \<Rightarrow> (http_error + internal_user) \<times> acct_state" where
  "patch_user fails now caller u body st =
     (case patch_check caller u body st of
        Inl e \<Rightarrow> (Inl e, st)
      | Inr target \<Rightarrow> patch_apply fails now caller target body st)"

definition delete_user_route :: "user_id \<Rightarrow> user_id \<Rightarrow> acct_state \<Rightarrow> (http_error + unit) \<times> acct_state" where
  "delete_user_route caller u st =
     (case get_user_by_id u st of
        None \<Rightarrow> (Inl (Http 404), st)
      | Some (target, _) \<Rightarrow>
          if active_admin target \<and> count_admins st = 1 then (Inl (Http 400), st)
          else if u_id target = caller then (Inl (Http 400), st)
          else (Inr (), snd (delete_user u st)))"

definition reset_user_password ::
  "route_env \<Rightarrow> nat option \<Rightarrow> instant \<Rightarrow> user_id \<Rightarrow> string \<Rightarrow> acct_state \<Rightarrow> (http_error + unit) \<times> acct_state" where
  "reset_user_password env fails now u pw st =
     (case admin_reset_user_password (re_acct env) fails now u pw st of
        (Inl PasswordPolicy, st1) \<Rightarrow> (Inl (Http 400), st1)
      | (Inl UserNotFound, st1) \<Rightarrow> (Inl (Http 404), st1)
      | (Inl _, st1) \<Rightarrow> (Inl Uncaught, st1)
      | (Inr x, st1) \<Rightarrow> (Inr (), st1))"

definition admin_revoke_user_session ::
  "instant \<Rightarrow> user_id \<Rightarrow> user_id \<Rightarrow> string \<Rightarrow> acct_state \<Rightarrow> (http_error + unit) \<times> acct_state" where
  "admin_revoke_user_session now caller u sid st =
     (if get_user_by_id u st = None then (Inl (Http 404), st)
      else case revoke_session_admin now u sid caller (auth st) of
        (None, a1) \<Rightarrow> (Inl (Http 404), st\<lparr>auth := a1\<rparr>)
      | (Some _, a1) \<Rightarrow> (Inr (), st\<lparr>auth := a1\<rparr>))"

subsection \<open>Tokens of external clients\<close>

definition default_mint_scopes :: "string list" where
  "default_mint_scopes = [''mcp:read'']"

definition scopes_json :: "string list option \<Rightarrow> json" where
  "scopes_json sc = (case sc of None \<Rightarrow> JNull | Some xs \<Rightarrow> JList (map JStr xs))"

definition audit_on :: "string \<Rightarrow> user_id \<Rightarrow> json_obj \<Rightarrow> json_obj \<Rightarrow> acct_state \<Rightarrow> acct_state" where
  "audit_on action u inp res st = st\<lparr>auth := emit_audit action u inp res (auth st)\<rparr>"

definition mint_my_token ::
  "route_env \<Rightarrow> instant \<Rightarrow> user_id \<Rightarrow> json_obj \<Rightarrow> acct_state \<Rightarrow> (http_error + mcp_token \<times> string) \<times> acct_state" where
  "mint_my_token env now caller body st =
     (case validate_mint_request body of
        None \<Rightarrow> (Inl (Http 422), st)
      | Some (label, sc) \<Rightarrow>
          let scopes = (case sc of None \<Rightarrow> default_mint_scopes | Some xs \<Rightarrow> xs) in
          (case mcp_mint (re_bearer env) now caller (py_strip label) (Some scopes) (mcp st) of
             (Inl e, m1) \<Rightarrow> (Inl Uncaught, st\<lparr>mcp := m1\<rparr>)
           | (Inr (row, plain), m1) \<Rightarrow>
               (Inr (row, plain), audit_on ''__mcp_token__.minted'' caller
                  [(''label'', JStr (mt_label row)), (''scopes'', scopes_json (mt_scopes row))]
                  [(''token_id'', JStr (mt_id row)), (''token_prefix'', JStr (mt_prefix row))] (st\<lparr>mcp := m1\<rparr>))))"

definition revoke_my_token :: "instant \<Rightarrow> user_id \<Rightarrow> string \<Rightarrow> acct_state \<Rightarrow> (http_error + mcp_token) \<times> acct_state" where
  "revoke_my_token now caller tid st =
     (case mcp_get_by_id tid (mcp st) of
        None \<Rightarrow> (Inl (Http 404), st)
      | Some row \<Rightarrow>
          if mt_user row \<noteq> caller then (Inl (Http 404), st)
          else (case mcp_revoke now tid (mcp st) of
             (None, m1) \<Rightarrow> (Inl (Http 404), st\<lparr>mcp := m1\<rparr>)
           | (Some r, m1) \<Rightarrow> (Inr r, audit_on ''__mcp_token__.revoked'' caller [(''token_id'', JStr tid)]
                [(''revoked_at'', revoked_at_json (mt_revoked r))] (st\<lparr>mcp := m1\<rparr>))))"

definition admin_list_user_tokens :: "user_id \<Rightarrow> bool \<Rightarrow> acct_state \<Rightarrow> http_error + mcp_token list" where
  "admin_list_user_tokens u include_revoked st =
     (if get_user_by_id u st = None then Inl (Http 404) else Inr (list_for_user u include_revoked (mcp st)))"

definition admin_revoke_user_token ::
  "instant \<Rightarrow> user_id \<Rightarrow> user_id \<Rightarrow> string \<Rightarrow> acct_state \<Rightarrow> (http_error + mcp_token) \<times> acct_state" where
  "admin_revoke_user_token now caller u tid st =
     (if get_user_by_id u st = None then (Inl (Http 404), st)
      else case mcp_get_by_id tid (mcp st) of
        None \<Rightarrow> (Inl (Http 404), st)
      | Some row \<Rightarrow>
          if mt_user row \<noteq> u then (Inl (Http 404), st)
          else (case mcp_revoke now tid (mcp st) of
             (None, m1) \<Rightarrow> (Inl (Http 404), st\<lparr>mcp := m1\<rparr>)
           | (Some r, m1) \<Rightarrow> (Inr r, audit_on ''__mcp_token__.admin_revoked'' caller
                [(''token_id'', JStr tid), (''owner_user_id'', JStr u)]
                [(''revoked_at'', revoked_at_json (mt_revoked r))] (st\<lparr>mcp := m1\<rparr>))))"

subsection \<open>The public invite page\<close>

definition peek_invite_route :: "route_env \<Rightarrow> instant \<Rightarrow> string \<Rightarrow> string \<Rightarrow> service \<Rightarrow> (http_error + bool \<times> instant) \<times> service" where
  "peek_invite_route env now ip tok w =
     (if \<not> ac_enabled (ge_cfg (re_gate env)) then (Inl (Http 503), w)
      else let (ok, store) = check_request 30 (60 * 1000000) now ip (peek_store w); w1 = w\<lparr>peek_store := store\<rparr> in
        if \<not> ok then (Inl (Http 429), w1)
        else case peek_invite (re_bearer env) now tok (house w) of
          Inl e \<Rightarrow> (Inl Uncaught, w1)
        | Inr None \<Rightarrow> (Inl (Http 404), w1)
        | Inr (Some meta) \<Rightarrow> (Inr meta, w1))"

definition redeem_status :: "redeem_error \<Rightarrow> http_error" where
  "redeem_status e = (case e of DuplicateEmail \<Rightarrow> Http 409 | WeakPassword \<Rightarrow> Http 422 | EmailPolicy \<Rightarrow> Http 422
     | InviteInvalid \<Rightarrow> Http 404 | _ \<Rightarrow> Uncaught)"

definition redeem_invite_route ::
  "route_env \<Rightarrow> nat option \<Rightarrow> instant \<Rightarrow> string \<Rightarrow> string \<Rightarrow> string \<Rightarrow> string \<Rightarrow> string \<Rightarrow> service
    \<Rightarrow> (http_error + json_obj) \<times> service" where
  "redeem_invite_route env fails now ip ua tok email pw w =
     (if \<not> ac_enabled (ge_cfg (re_gate env)) then (Inl (Http 503), w)
      else let key = py_lower (py_strip email); (ok, lim) = check_failures now ip key (redeem_limiter w);
               w1 = w\<lparr>redeem_limiter := lim\<rparr> in
        if \<not> ok then (Inl (Http 429), w1)
        else case redeem_invite (re_acct env) (re_bearer env) fails now tok email pw (house w) of
          (Inl e, h1) \<Rightarrow>
            (Inl (redeem_status e), w1\<lparr>house := h1,
               redeem_limiter := (if redeem_status e = Uncaught then lim else limiter_failure now ip key lim)\<rparr>)
        | (Inr user, h1) \<Rightarrow>
            issue (open_session env now ip ua user (acct h1))
              (w1\<lparr>house := h1, redeem_limiter := limiter_success key lim\<rparr>))"

end
