(* ===== verification/AccountLife.thy ===== *)
theory AccountLife
  imports AccountRoutes
begin

section \<open>The life of an account: every request, one machine\<close>

text \<open>
  Composes the routes of theory \<open>AccountRoutes\<close> and the MCP gate into one machine whose events
  are requests, handled one after the other, and proves what holds after any sequence of
  them: a disabled account is locked out everywhere, and an active administrator remains.
  New user ids are assumed not to have been given out before (\<open>uuid4\<close>), access tokens to be
  accepted only if they were issued.
\<close>

subsection \<open>The invariant, over what it depends on\<close>

text \<open>
  \<open>sk\<close> lists ids with their disabled flag, \<open>us\<close> the token versions, \<open>tv\<close> is the version cache,
  \<open>act\<close> and \<open>live\<close> are the users with an active session and with a live token.
\<close>

definition token_covered :: "(user_id \<times> bool) list \<Rightarrow> (user_id \<times> int) list \<Rightarrow> user_id list \<Rightarrow> json_obj \<Rightarrow> bool" where
  "token_covered sk us used p \<longleftrightarrow> (\<exists>u v. map_of p ''sub'' = Some (JStr u) \<and> map_of p ''tv'' = Some (JInt v) \<and> u \<in> set used \<and>
     (\<forall>w. map_of us u = Some w \<longrightarrow> v \<le> w \<and> ((u, True) \<in> set sk \<longrightarrow> v < w)))"

definition lock_inv ::
  "(user_id \<times> bool) list \<Rightarrow> (user_id \<times> int) list \<Rightarrow> int lru \<Rightarrow> user_id set \<Rightarrow> user_id set
    \<Rightarrow> json_obj list \<Rightarrow> user_id list \<Rightarrow> bool" where
  "lock_inv sk us tv act live iss used \<longleftrightarrow>
     map fst sk = map fst us \<and> distinct (map fst us) \<and>
     (\<forall>e \<in> set tv. fst e \<in> set used \<and> (map_of us (fst e) = None \<or> map_of us (fst e) = Some (fst (snd e)))) \<and>
     (\<forall>p \<in> set iss. token_covered sk us used p) \<and>
     (\<forall>u. (u, True) \<in> set sk \<longrightarrow> u \<notin> act \<and> u \<notin> live) \<and>
     (\<forall>x \<in> set us. 1 \<le> snd x) \<and> fst ` set us \<union> act \<union> live \<subseteq> set used"

lemma map_of_in_fst: "map_of us u = Some v \<Longrightarrow> u \<in> fst ` set us"
  by (force dest: map_of_SomeD)

lemma token_coveredE:
  assumes "token_covered sk us used p"
  obtains u v where "map_of p ''sub'' = Some (JStr u)" "map_of p ''tv'' = Some (JInt v)" "u \<in> set used"
    "\<And>w. map_of us u = Some w \<Longrightarrow> v \<le> w" "\<And>w. map_of us u = Some w \<Longrightarrow> (u, True) \<in> set sk \<Longrightarrow> v < w"
  using assms by (auto simp: token_covered_def)

lemma token_coveredI:
  assumes "map_of p ''sub'' = Some (JStr u)" "map_of p ''tv'' = Some (JInt v)" "u \<in> set used"
    "\<And>w. map_of us u = Some w \<Longrightarrow> v \<le> w" "\<And>w. map_of us u = Some w \<Longrightarrow> (u, True) \<in> set sk \<Longrightarrow> v < w"
  shows "token_covered sk us used p"
  using assms by (simp add: token_covered_def)

lemma lock_invI:
  assumes "map fst sk = map fst us" and "distinct (map fst us)"
    and "\<And>e. e \<in> set tv \<Longrightarrow> fst e \<in> set used \<and> (map_of us (fst e) = None \<or> map_of us (fst e) = Some (fst (snd e)))"
    and "\<And>p. p \<in> set iss \<Longrightarrow> token_covered sk us used p"
    and "\<And>u. (u, True) \<in> set sk \<Longrightarrow> u \<notin> act \<and> u \<notin> live"
    and "\<And>x. x \<in> set us \<Longrightarrow> 1 \<le> snd x" and "fst ` set us \<subseteq> set used" and "act \<subseteq> set used" and "live \<subseteq> set used"
  shows "lock_inv sk us tv act live iss used"
  using assms by (simp add: lock_inv_def)

lemma lock_invD:
  assumes "lock_inv sk us tv act live iss used"
  shows "map fst sk = map fst us" "distinct (map fst us)"
    "\<And>e. e \<in> set tv \<Longrightarrow> fst e \<in> set used \<and> (map_of us (fst e) = None \<or> map_of us (fst e) = Some (fst (snd e)))"
    "\<And>p. p \<in> set iss \<Longrightarrow> token_covered sk us used p"
    "\<And>u. (u, True) \<in> set sk \<Longrightarrow> u \<notin> act \<and> u \<notin> live"
    "\<And>x. x \<in> set us \<Longrightarrow> 1 \<le> snd x" "fst ` set us \<subseteq> set used" "act \<subseteq> set used" "live \<subseteq> set used"
  using assms by (auto simp: lock_inv_def)

lemma inv_shrink:
  assumes "lock_inv sk us tv act live iss used" and "set tv' \<subseteq> set tv" and "act' \<subseteq> act" and "live' \<subseteq> live"
  shows "lock_inv sk us tv' act' live' iss used"
proof (rule lock_invI)
  note i = lock_invD [OF assms(1)]
  show "fst e \<in> set used \<and> (map_of us (fst e) = None \<or> map_of us (fst e) = Some (fst (snd e)))" if "e \<in> set tv'" for e
    using i(3) that assms(2) by blast
  show "u \<notin> act' \<and> u \<notin> live'" if "(u, True) \<in> set sk" for u using i(5) [OF that] assms(3,4) by blast
  show "act' \<subseteq> set used" "live' \<subseteq> set used" using i(8,9) assms(3,4) by auto
qed (use lock_invD [OF assms(1)] in auto)

lemma inv_fill:
  assumes "lock_inv sk us tv act live iss used" and "set tv' \<subseteq> insert (u, v, t) (set tv)" and "map_of us u = Some v"
  shows "lock_inv sk us tv' act live iss used"
proof (rule lock_invI)
  note i = lock_invD [OF assms(1)]
  have "u \<in> set used" using i(7) map_of_in_fst [OF assms(3)] by blast
  then show "fst e \<in> set used \<and> (map_of us (fst e) = None \<or> map_of us (fst e) = Some (fst (snd e)))" if "e \<in> set tv'" for e
    using i(3) [of e] that assms(2,3) by auto
qed (use lock_invD [OF assms(1)] in auto)

lemma inv_open:
  assumes "lock_inv sk us tv act live iss used" and "act' \<subseteq> insert u act" and "live' \<subseteq> insert u live"
    and "u \<in> set used" and "(u, True) \<notin> set sk"
  shows "lock_inv sk us tv act' live' iss used"
proof (rule lock_invI)
  note i = lock_invD [OF assms(1)]
  show "k \<notin> act' \<and> k \<notin> live'" if "(k, True) \<in> set sk" for k using i(5) [OF that] that assms(2,3,5) by auto
  show "act' \<subseteq> set used" "live' \<subseteq> set used" using i(8,9) assms(2-4) by auto
qed (use lock_invD [OF assms(1)] in auto)

lemma inv_issue:
  assumes "lock_inv sk us tv act live iss used" and "map_of p ''sub'' = Some (JStr u)" and "map_of p ''tv'' = Some (JInt v)"
    and "map_of us u = Some v" and "(u, True) \<notin> set sk"
  shows "lock_inv sk us tv act live (iss @ [p]) used"
proof (rule lock_invI)
  note i = lock_invD [OF assms(1)]
  have "u \<in> set used" using i(7) map_of_in_fst [OF assms(4)] by blast
  with assms(2-5) have "token_covered sk us used p" by (simp add: token_covered_def)
  then show "token_covered sk us used q" if "q \<in> set (iss @ [p])" for q using i(4) that by auto
qed (use lock_invD [OF assms(1)] in auto)

lemma map_of_bump: "map_of (bump_version u us) k = (if k = u then map_option (\<lambda>v. v + 1) (map_of us k) else map_of us k)"
  by (induction us) (auto simp: bump_version_def)

lemma fst_bump [simp]: "map fst (bump_version u us) = map fst us"
  by (induction us) (auto simp: bump_version_def)

lemma fst_set_bump [simp]: "fst ` set (bump_version u us) = fst ` set us"
  by (metis fst_bump list.set_map)

lemma inv_bump:
  assumes "lock_inv sk us tv act live iss used" and "map fst sk' = map fst sk"
    and "\<And>k. (k, True) \<in> set sk' \<Longrightarrow> (k, True) \<in> set sk \<or> k = u"
    and "set tv' \<subseteq> {e \<in> set tv. fst e \<noteq> u}" and "act' \<subseteq> {k \<in> act. k \<noteq> u}" and "live' \<subseteq> live"
    and "(u, True) \<in> set sk' \<Longrightarrow> u \<notin> live'"
  shows "lock_inv sk' (bump_version u us) tv' act' live' iss used"
proof (rule lock_invI)
  note i = lock_invD [OF assms(1)]
  show "token_covered sk' (bump_version u us) used p" if "p \<in> set iss" for p
    using i(4) [OF that]
  proof (rule token_coveredE)
    fix k v
    assume k: "map_of p ''sub'' = Some (JStr k)" "map_of p ''tv'' = Some (JInt v)" "k \<in> set used"
      "\<And>w. map_of us k = Some w \<Longrightarrow> v \<le> w" "\<And>w. map_of us k = Some w \<Longrightarrow> (k, True) \<in> set sk \<Longrightarrow> v < w"
    show ?thesis
    proof (rule token_coveredI [OF k(1-3)])
      fix w assume w: "map_of (bump_version u us) k = Some w"
      then obtain w0 where w0: "map_of us k = Some w0" "w = (if k = u then w0 + 1 else w0)"
        by (auto simp: map_of_bump split: if_splits)
      then show "v \<le> w" using k(4) by auto
      show "v < w" if "(k, True) \<in> set sk'" using w0 k(4,5) assms(3) [OF that] by (cases "k = u") auto
    qed
  qed
  show "fst e \<in> set used \<and> (map_of (bump_version u us) (fst e) = None \<or> map_of (bump_version u us) (fst e) = Some (fst (snd e)))"
    if "e \<in> set tv'" for e using i(3) [of e] that assms(4) by (auto simp: map_of_bump)
  show "k \<notin> act' \<and> k \<notin> live'" if "(k, True) \<in> set sk'" for k
    using assms(3) [OF that] i(5) [of k] assms(5-7) that by auto
  show "1 \<le> snd x" if "x \<in> set (bump_version u us)" for x
    using that i(6) by (fastforce simp: bump_version_def split: if_splits)
  show "act' \<subseteq> set used" "live' \<subseteq> set used" using i(8,9) assms(5,6) by auto
  show "fst ` set (bump_version u us) \<subseteq> set used" using i(7) by simp
qed (use lock_invD(1,2) [OF assms(1)] assms(2) in auto)

lemma inv_enable:
  assumes "lock_inv sk us tv act live iss used" and "map fst sk' = map fst sk"
    and "\<And>k. (k, True) \<in> set sk' \<Longrightarrow> (k, True) \<in> set sk"
  shows "lock_inv sk' us tv act live iss used"
proof (rule lock_invI)
  note i = lock_invD [OF assms(1)]
  show "token_covered sk' us used p" if "p \<in> set iss" for p
    using i(4) [OF that] by (rule token_coveredE) (rule token_coveredI, auto dest: assms(3))
  show "k \<notin> act \<and> k \<notin> live" if "(k, True) \<in> set sk'" for k using i(5) assms(3) [OF that] by blast
qed (use lock_invD [OF assms(1)] assms(2) in auto)

lemma map_of_filter_ne: "map_of (filter (\<lambda>x. fst x \<noteq> u) us) k = (if k = u then None else map_of us k)"
  by (induction us) auto

lemma inv_delete:
  assumes "lock_inv sk us tv act live iss used" and "set tv' \<subseteq> set tv" and "act' \<subseteq> act" and "live' \<subseteq> live"
  shows "lock_inv (filter (\<lambda>x. fst x \<noteq> u) sk) (filter (\<lambda>x. fst x \<noteq> u) us) tv' act' live' iss used"
proof (rule lock_invI)
  note i = lock_invD [OF assms(1)]
  have keys: "map fst (filter (\<lambda>x. fst x \<noteq> u) xs) = filter (\<lambda>k. k \<noteq> u) (map fst xs)" for xs :: "(user_id \<times> 'a) list"
    by (induction xs) auto
  show "token_covered (filter (\<lambda>x. fst x \<noteq> u) sk) (filter (\<lambda>x. fst x \<noteq> u) us) used p" if "p \<in> set iss" for p
    using i(4) [OF that] by (rule token_coveredE) (rule token_coveredI, auto simp: map_of_filter_ne split: if_splits)
  show "map fst (filter (\<lambda>x. fst x \<noteq> u) sk) = map fst (filter (\<lambda>x. fst x \<noteq> u) us)" by (simp only: keys i(1))
  show "distinct (map fst (filter (\<lambda>x. fst x \<noteq> u) us))" using i(2) by (simp only: keys distinct_filter)
  show "fst e \<in> set used \<and> (map_of (filter (\<lambda>x. fst x \<noteq> u) us) (fst e) = None \<or>
      map_of (filter (\<lambda>x. fst x \<noteq> u) us) (fst e) = Some (fst (snd e)))" if "e \<in> set tv'" for e
    using i(3) [of e] that assms(2) by (auto simp: map_of_filter_ne)
  show "k \<notin> act' \<and> k \<notin> live'" if "(k, True) \<in> set (filter (\<lambda>x. fst x \<noteq> u) sk)" for k
    using i(5) [of k] that assms(3,4) by auto
  show "act' \<subseteq> set used" "live' \<subseteq> set used" using i(8,9) assms(3,4) by auto
  show "fst ` set (filter (\<lambda>x. fst x \<noteq> u) us) \<subseteq> set used" using i(7) by auto
  show "1 \<le> snd x" if "x \<in> set (filter (\<lambda>x. fst x \<noteq> u) us)" for x using i(6) that by simp
qed

lemma inv_create:
  assumes "lock_inv sk us tv act live iss used" and "i \<notin> set used"
  shows "lock_inv (sk @ [(i, False)]) (us @ [(i, 1)]) tv act live iss (i # used)"
proof (rule lock_invI)
  note i = lock_invD [OF assms(1)]
  have "i \<notin> fst ` set us" using i(7) assms(2) by blast
  then have none: "map_of us i = None" by (simp add: map_of_eq_None_iff)
  have app: "map_of (us @ [(i, 1)]) k = (if k = i then Some 1 else map_of us k)" for k
    using none by (auto simp: map_add_def split: option.splits)
  show "token_covered (sk @ [(i, False)]) (us @ [(i, 1)]) (i # used) p" if "p \<in> set iss" for p
    using i(4) [OF that] assms(2)
    by (elim token_coveredE, intro token_coveredI) (auto simp: app split: if_splits)
  show "fst e \<in> set (i # used) \<and> (map_of (us @ [(i, 1)]) (fst e) = None \<or> map_of (us @ [(i, 1)]) (fst e) = Some (fst (snd e)))"
    if "e \<in> set tv" for e using i(3) [OF that] assms(2) unfolding app by auto
  show "k \<notin> act \<and> k \<notin> live" if "(k, True) \<in> set (sk @ [(i, False)])" for k using i(5) that by auto
  show "distinct (map fst (us @ [(i, 1)]))" using i(2) \<open>i \<notin> fst ` set us\<close> by simp
qed (use lock_invD [OF assms(1)] in auto)

subsection \<open>What the invariant reads of a state\<close>

definition skeleton :: "acct_state \<Rightarrow> (user_id \<times> bool) list" where
  "skeleton a = map (\<lambda>r. (u_id r, u_disabled r)) (profiles a)"

definition roles :: "acct_state \<Rightarrow> (user_id \<times> string \<times> bool) list" where
  "roles a = map (\<lambda>r. (u_id r, u_role r, u_disabled r)) (profiles a)"

definition active_users :: "auth_state \<Rightarrow> user_id set" where
  "active_users a = as_user ` {r \<in> set (sessions a). as_revoked r = None}"

definition token_owners :: "mcp_state \<Rightarrow> user_id set" where
  "token_owners m = mt_user ` {r \<in> set (mcp_rows m). mcp_live r}"

definition locked :: "json_obj list \<Rightarrow> user_id list \<Rightarrow> acct_state \<Rightarrow> bool" where
  "locked iss used a \<longleftrightarrow> lock_inv (skeleton a) (users (auth a)) (tv_cache (auth a)) (active_users (auth a))
     (token_owners (mcp a)) iss used"

lemma skeleton_roles: "skeleton a = map (\<lambda>(i, _, d). (i, d)) (roles a)"
  by (simp add: skeleton_def roles_def)

text \<open>A state is calmer than another if only bookkeeping changed or access was taken away.\<close>

definition auth_calm :: "auth_state \<Rightarrow> auth_state \<Rightarrow> bool" where
  "auth_calm a' a \<longleftrightarrow> users a' = users a \<and> set (tv_cache a') \<subseteq> set (tv_cache a) \<and> active_users a' \<subseteq> active_users a"

definition calm :: "acct_state \<Rightarrow> acct_state \<Rightarrow> bool" where
  "calm b a \<longleftrightarrow> roles b = roles a \<and> auth_calm (auth b) (auth a) \<and> token_owners (mcp b) \<subseteq> token_owners (mcp a)"

lemma auth_calm_refl [simp]: "auth_calm a a"
  by (simp add: auth_calm_def)

lemma calm_refl [simp]: "calm a a"
  by (simp add: calm_def)

lemma auth_calm_trans: "auth_calm a b \<Longrightarrow> auth_calm b c \<Longrightarrow> auth_calm a c"
  by (auto simp: auth_calm_def)

lemma calm_trans: "calm a b \<Longrightarrow> calm b c \<Longrightarrow> calm a c"
  by (auto simp: calm_def intro: auth_calm_trans)

lemma calm_locked: "calm b a \<Longrightarrow> locked iss used a \<Longrightarrow> locked iss used b"
  unfolding locked_def calm_def auth_calm_def skeleton_roles by (auto intro: inv_shrink)

lemma active_users_revoke:
  "sessions a' = revoke_where now p (sessions a) \<Longrightarrow> active_users a' = as_user ` {r \<in> set (sessions a). as_revoked r = None \<and> \<not> p r}"
  unfolding active_users_def using revoke_where_active [of _ now p "sessions a"] by auto

lemma emit_calm [simp]: "auth_calm (emit_audit x u i r a) a"
  by (simp add: auth_calm_def active_users_def frame)

lemma fold_emit_calm: "auth_calm (fold (\<lambda>r. emit_audit x u (i r) (j r)) rs a) a"
proof (induction rs arbitrary: a)
  case (Cons r rs)
  show ?case using auth_calm_trans [OF Cons.IH emit_calm] by simp
qed simp

lemma session_audits_calm: "auth_calm (emit_session_rows_cascade_audits now u rows a) a"
  by (simp add: emit_session_rows_cascade_audits_def fold_emit_calm)

lemma token_audits_calm: "auth_calm (emit_token_cascade_audits u b rows a) a"
  by (simp add: emit_token_cascade_audits_def fold_emit_calm)

lemma invalidate_sid_calm: "auth_calm (invalidate_sid_cache sid a) a"
  by (simp add: auth_calm_def active_users_def frame)

lemma fold_invalidate_calm: "auth_calm (fold (\<lambda>r. invalidate_sid_cache (as_id r)) rs a) a"
  by (simp add: auth_calm_def active_users_def frame)

lemma invalidate_version_effect:
  "users (invalidate_token_version_cache u a) = users a" "sessions (invalidate_token_version_cache u a) = sessions a"
  "set (tv_cache (invalidate_token_version_cache u a)) = {e \<in> set (tv_cache a). fst e \<noteq> u}"
  by (simp_all add: invalidate_token_version_cache_def lru_invalidate_def set_lru_pop)

lemma handle_reuse_users [frame]: "users (handle_reuse now s a) = users a"
  by (simp add: handle_reuse_def Let_def frame)

lemma handle_reuse_calm: "auth_calm (handle_reuse now s a) a"
proof -
  have "active_users (handle_reuse now s a) \<subseteq> active_users a"
    unfolding active_users_revoke [OF handle_reuse_frame(1)] by (auto simp: active_users_def)
  then show ?thesis by (simp add: auth_calm_def frame handle_reuse_frame)
qed

lemma revoke_one_calm:
  assumes "\<And>r s. auth_calm (f r s) s"
  shows "auth_calm (snd (revoke_one now sid u f a)) a"
proof -
  let ?a1 = "invalidate_sid_cache sid (a\<lparr>sessions := revoke_where now (\<lambda>x. as_id x = sid) (sessions a)\<rparr>)"
  have "sessions ?a1 = revoke_where now (\<lambda>x. as_id x = sid) (sessions a)" by (simp add: frame)
  from active_users_revoke [OF this] have "active_users ?a1 \<subseteq> active_users a" by (auto simp: active_users_def)
  then have "auth_calm ?a1 a" by (simp add: auth_calm_def frame)
  with assms show ?thesis
    by (auto simp: revoke_one_def Let_def intro: auth_calm_trans split: option.splits)
qed

lemma revoke_session_calm:
  "auth_calm (snd (revoke_session_for_user now sid u a)) a" "auth_calm (snd (revoke_session_admin now t sid u a)) a"
  by (simp_all add: revoke_session_for_user_def revoke_session_admin_def revoke_one_calm)

lemma salt_calm: "auth_calm (snd (ensure_instance_salt s a)) a"
  by (auto simp: ensure_instance_salt_def auth_calm_def active_users_def split: option.splits if_splits)

text \<open>New sessions: of the user who signs in, or rotates.\<close>

lemma login_session_effect:
  "users (snd (insert_login_session env now sid u jwt ex dev ip ua a)) = users a"
  "tv_cache (snd (insert_login_session env now sid u jwt ex dev ip ua a)) = tv_cache a"
  "active_users (snd (insert_login_session env now sid u jwt ex dev ip ua a)) \<subseteq> insert u (active_users a)"
  by (auto simp: insert_login_session_def frame active_users_def new_session_def)

lemma rotate_effect:
  "users (snd (rotate_refresh env now ttl i u jti jwt a)) = users a"
  "tv_cache (snd (rotate_refresh env now ttl i u jti jwt a)) = tv_cache a"
  "active_users (snd (rotate_refresh env now ttl i u jti jwt a)) \<subseteq> insert u (active_users a)"
proof -
  have "users (snd (rotate_refresh env now ttl i u jti jwt a)) = users a \<and>
    tv_cache (snd (rotate_refresh env now ttl i u jti jwt a)) = tv_cache a \<and>
    active_users (snd (rotate_refresh env now ttl i u jti jwt a)) \<subseteq> insert u (active_users a)"
  proof (cases rule: rotate_check_cases [of env now u jti jwt a])
    case (refused e)
    then show ?thesis by (auto simp: rotate_refresh_def)
  next
    case (reused sess)
    then show ?thesis
      using handle_reuse_calm [of now sess a]
      by (auto simp: rotate_refresh_def frame handle_reuse_frame auth_calm_def)
  next
    case (passed sess tv)
    have "as_user sess = u" using find_session_Some [OF passed(1)] by simp
    then have "active_users (snd (rotate_commit env now ttl i (sess, tv) a)) \<subseteq> insert u (active_users a)"
      by (auto simp: rotate_commit_eq active_users_def frame revoke_where_simps)
    then show ?thesis using passed by (simp add: rotate_refresh_def rotate_commit_eq frame)
  qed
  then show "users (snd (rotate_refresh env now ttl i u jti jwt a)) = users a"
    "tv_cache (snd (rotate_refresh env now ttl i u jti jwt a)) = tv_cache a"
    "active_users (snd (rotate_refresh env now ttl i u jti jwt a)) \<subseteq> insert u (active_users a)" by auto
qed

lemma rotate_version:
  "fst (rotate_refresh env now ttl i u jti jwt a) = Inr (sid, tok, tv) \<Longrightarrow> map_of (users a) u = Some tv"
  by (cases rule: rotate_check_cases [of env now u jti jwt a])
     (auto simp: rotate_refresh_def rotate_commit_eq split: if_splits)

text \<open>Tokens of external clients.\<close>

lemma mcp_step_owners:
  assumes "\<And>r'. r' \<in> set (mcp_rows m') \<Longrightarrow> mcp_live r' \<Longrightarrow> \<exists>r \<in> set (mcp_rows m). mcp_live r \<and> mt_user r = mt_user r'"
  shows "token_owners m' \<subseteq> token_owners m"
proof
  fix u assume "u \<in> token_owners m'"
  then obtain r' where "r' \<in> set (mcp_rows m')" "mcp_live r'" "mt_user r' = u" by (auto simp: token_owners_def)
  with assms [of r'] obtain r where "r \<in> set (mcp_rows m)" "mcp_live r" "mt_user r = u" by auto
  then show "u \<in> token_owners m" by (auto simp: token_owners_def)
qed

lemma verify_owners: "token_owners (snd (mcp_verify env db_ok write_ok now presented m)) \<subseteq> token_owners m"
proof (cases rule: mcp_verify_cases [of env db_ok write_ok now presented m])
  case (miss e)
  then show ?thesis by simp
next
  case (hit row prefix)
  obtain q where "mcp_rows (maybe_stamp_used write_ok now (mt_id row) m) =
      update_where q (\<lambda>r. r\<lparr>mt_last_used := Some now\<rparr>) (mcp_rows m)"
    by (rule maybe_stamp_rows)
  with hit show ?thesis by (intro mcp_step_owners) (auto simp: set_update_where mcp_live_def)
qed

lemma mint_owners: "token_owners (snd (mcp_mint env now u label sc m)) \<subseteq> insert u (token_owners m)"
  by (cases rule: mcp_mint_cases [of env now u label sc m]) (auto simp: token_owners_def new_mcp_row_def)

lemma revoke_owners: "token_owners (snd (mcp_revoke now tid m)) \<subseteq> token_owners m"
proof -
  have "mcp_rows (snd (mcp_revoke now tid m)) =
      update_where (\<lambda>r. mt_id r = tid \<and> mcp_live r) (mcp_revoke_row now) (mcp_rows m)"
    by (simp add: mcp_revoke_def Let_def frame split: option.splits)
  then show ?thesis by (intro mcp_step_owners) (auto elim!: in_update_whereE)
qed

lemma cascade_rows:
  "mcp_rows (snd (cascade_revoke_for_user now u m)) =
    update_where (\<lambda>r. mt_user r = u \<and> mcp_live r) (mcp_revoke_row now) (mcp_rows m)"
  by (simp add: cascade_revoke_for_user_def Let_def frame)

lemma cascade_owners:
  "token_owners (snd (cascade_revoke_for_user now u m)) \<subseteq> token_owners m"
  "u \<notin> token_owners (snd (cascade_revoke_for_user now u m))"
proof -
  show "token_owners (snd (cascade_revoke_for_user now u m)) \<subseteq> token_owners m"
    unfolding cascade_rows by (intro mcp_step_owners) (auto simp: cascade_rows elim!: in_update_whereE)
  show "u \<notin> token_owners (snd (cascade_revoke_for_user now u m))"
  proof
    assume "u \<in> token_owners (snd (cascade_revoke_for_user now u m))"
    then obtain r where r: "r \<in> set (update_where (\<lambda>r. mt_user r = u \<and> mcp_live r) (mcp_revoke_row now) (mcp_rows m))"
        "mcp_live r" "mt_user r = u"
      by (auto simp: token_owners_def cascade_rows)
    from r(1) show False
    proof (cases rule: in_update_whereE)
      case kept
      with r(2,3) show ?thesis by simp
    next
      case (updated x)
      with r(2) show ?thesis by simp
    qed
  qed
qed

subsection \<open>Account operations\<close>

lemma update_profile_frame [frame]:
  "auth (update_profile u f a) = auth a" "mcp (update_profile u f a) = mcp a"
  by (simp_all add: update_profile_def)

lemma update_profile_roles:
  assumes "\<And>r. u_id (f r) = u_id r \<and> u_role (f r) = u_role r \<and> u_disabled (f r) = u_disabled r"
  shows "roles (update_profile u f a) = roles a"
  unfolding roles_def update_profile_def using assms by (induction "profiles a") (simp_all add: update_where_def)

lemma update_profile_calm:
  assumes "\<And>r. u_id (f r) = u_id r \<and> u_role (f r) = u_role r \<and> u_disabled (f r) = u_disabled r"
  shows "calm (update_profile u f a) a"
  using update_profile_roles [OF assms] by (simp add: calm_def frame)

lemma record_login_calm: "calm (record_login now u a) a"
  by (simp add: record_login_def update_profile_calm)

lemma set_display_name_calm: "calm (snd (set_display_name u n a)) a"
  by (simp add: set_display_name_def Let_def update_profile_calm)

lemma touch_calm: "calm (maybe_touch_last_seen q w now u th a) a"
proof -
  have "roles (touch_last_seen now u th b) = roles b" for b
    unfolding roles_def touch_last_seen_def by (induction "profiles b") (simp_all add: update_where_def)
  moreover have "auth (touch_last_seen now u th b) = auth b" "mcp (touch_last_seen now u th b) = mcp b" for b
    by (simp_all add: touch_last_seen_def)
  ultimately show ?thesis
    by (auto simp: maybe_touch_last_seen_def Let_def calm_def roles_def split: prod.splits)
qed

lemma skeleton_update:
  "map fst (skeleton (update_profile u f a)) = map fst (skeleton a)" if "\<And>r. u_id (f r) = u_id r"
  using that unfolding skeleton_def update_profile_def by (induction "profiles a") (simp_all add: update_where_def)

lemma skeleton_disabled:
  assumes "(k, True) \<in> set (skeleton (update_profile u (\<lambda>r. r\<lparr>u_disabled := d\<rparr>) a))"
  shows "(k, True) \<in> set (skeleton a) \<or> (d \<and> k = u)"
proof -
  from assms obtain r where r: "r \<in> set (update_where (\<lambda>r. u_id r = u) (\<lambda>r. r\<lparr>u_disabled := d\<rparr>) (profiles a))"
      "u_id r = k" "u_disabled r"
    by (auto simp: skeleton_def update_profile_def)
  from r(1) show ?thesis
  proof (cases rule: in_update_whereE)
    case kept
    with r(2,3) show ?thesis by (force simp: skeleton_def)
  next
    case (updated x)
    with r(2,3) show ?thesis by simp
  qed
qed

lemma update_role_locked: "locked iss used a \<Longrightarrow> locked iss used (snd (update_role u role a))"
proof -
  have "skeleton (update_profile u (\<lambda>r. r\<lparr>u_role := role\<rparr>) a) = skeleton a"
    unfolding skeleton_def update_profile_def by (induction "profiles a") (simp_all add: update_where_def)
  then show "locked iss used a \<Longrightarrow> locked iss used (snd (update_role u role a))"
    by (simp add: update_role_def Let_def locked_def frame)
qed

lemma revoke_all_effect:
  "users (snd (revoke_all_active now u a)) = users a" "tv_cache (snd (revoke_all_active now u a)) = tv_cache a"
  "active_users (snd (revoke_all_active now u a)) \<subseteq> {k \<in> active_users a. k \<noteq> u}"
proof -
  show "users (snd (revoke_all_active now u a)) = users a" "tv_cache (snd (revoke_all_active now u a)) = tv_cache a"
    by (simp_all add: revoke_all_active_def)
  have "sessions (snd (revoke_all_active now u a)) = revoke_where now (\<lambda>r. as_user r = u) (sessions a)"
    by (simp add: revoke_all_active_def)
  from active_users_revoke [OF this] show "active_users (snd (revoke_all_active now u a)) \<subseteq> {k \<in> active_users a. k \<noteq> u}"
    by (auto simp: active_users_def)
qed

lemma bump_effect [simp]:
  "users (bump_token_version u a) = bump_version u (users a)" "sessions (bump_token_version u a) = sessions a"
  "tv_cache (bump_token_version u a) = tv_cache a" "active_users (bump_token_version u a) = active_users a"
  by (simp_all add: bump_token_version_def active_users_def)

lemma active_users_version [simp]: "active_users (invalidate_token_version_cache u a) = active_users a"
  by (simp add: active_users_def invalidate_version_effect)

text \<open>The invariant after a version bump whose cache entry is dropped and whose sessions are revoked.\<close>

lemma bump_locked:
  assumes "locked iss used a" and "map fst (skeleton b) = map fst (skeleton a)"
    and "\<And>k. (k, True) \<in> set (skeleton b) \<Longrightarrow> (k, True) \<in> set (skeleton a) \<or> k = u"
    and "users (auth b) = bump_version u (users (auth a))" and "set (tv_cache (auth b)) \<subseteq> {e \<in> set (tv_cache (auth a)). fst e \<noteq> u}"
    and "active_users (auth b) \<subseteq> {k \<in> active_users (auth a). k \<noteq> u}" and "token_owners (mcp b) \<subseteq> token_owners (mcp a)"
    and "(u, True) \<in> set (skeleton b) \<Longrightarrow> u \<notin> token_owners (mcp b)"
  shows "locked iss used b"
  unfolding locked_def assms(4)
  by (rule inv_bump [OF assms(1)[unfolded locked_def] assms(2)]) (use assms(3,5-8) in \<open>simp_all\<close>)

lemma disable_ok:
  assumes "disable_tx None now u a = (Inr hit, a1)"
  shows "locked iss used a \<Longrightarrow> locked iss used (after_disable now u by_admin hit a1)"
    and "roles (after_disable now u by_admin hit a1) = roles (update_profile u (\<lambda>r. r\<lparr>u_disabled := True\<rparr>) a)"
proof -
  obtain cascaded m1 where c: "cascade_revoke_for_user now u (mcp a) = (cascaded, m1)" by fastforce
  obtain revoked au1 where v: "revoke_all_active now u (auth a) = (revoked, au1)" by fastforce
  have a1: "a1 = update_profile u (\<lambda>r. r\<lparr>u_disabled := True\<rparr>) (a\<lparr>mcp := m1, auth := bump_token_version u au1\<rparr>)"
    using assms by (simp add: disable_tx_def c v)
  define b where "b = after_disable now u by_admin hit a1"
  define mid where "mid = emit_session_rows_cascade_audits now (case by_admin of None \<Rightarrow> u | Some a \<Rightarrow> if a = [] then u else a) (snd hit)
    (emit_token_cascade_audits (case by_admin of None \<Rightarrow> u | Some a \<Rightarrow> if a = [] then u else a) by_admin (fst hit) (auth a1))"
  have mid: "auth_calm mid (auth a1)"
    unfolding mid_def using session_audits_calm token_audits_calm auth_calm_trans by blast
  have b: "auth b = invalidate_token_version_cache u (fold (\<lambda>r. invalidate_sid_cache (as_id r)) (snd hit) mid)"
    "mcp b = m1" "profiles b = profiles (update_profile u (\<lambda>r. r\<lparr>u_disabled := True\<rparr>) a)"
    by (simp_all add: b_def after_disable_def Let_def mid_def a1 frame) (simp add: update_profile_def)
  have au: "users (auth b) = bump_version u (users (auth a))"
    "set (tv_cache (auth b)) \<subseteq> {e \<in> set (tv_cache (auth a)). fst e \<noteq> u}"
    "active_users (auth b) \<subseteq> {k \<in> active_users (auth a). k \<noteq> u}"
    using mid fold_invalidate_calm [of "snd hit" mid] revoke_all_effect [of now u "auth a"] v
    by (auto simp: b(1) invalidate_version_effect auth_calm_def a1 frame)
  have own: "token_owners (mcp b) \<subseteq> token_owners (mcp a)" "u \<notin> token_owners (mcp b)"
    using cascade_owners [where now = now and u = u and m = "mcp a"] c b(2) by simp_all
  show "locked iss used (after_disable now u by_admin hit a1)" if "locked iss used a"
    unfolding b_def [symmetric]
  proof (rule bump_locked [OF that])
    show "map fst (skeleton b) = map fst (skeleton a)"
      using skeleton_update [of "\<lambda>r. r\<lparr>u_disabled := True\<rparr>" u a] by (simp add: skeleton_def b(3))
    show "(k, True) \<in> set (skeleton a) \<or> k = u" if "(k, True) \<in> set (skeleton b)" for k
      using skeleton_disabled [of k u True a] that by (simp add: skeleton_def b(3))
  qed (use au own in simp_all)
  show "roles (after_disable now u by_admin hit a1) = roles (update_profile u (\<lambda>r. r\<lparr>u_disabled := True\<rparr>) a)"
    unfolding b_def [symmetric] by (simp add: roles_def b(3))
qed

lemma disable_tx_failed: "disable_tx fails now u a = (Inl e, a1) \<Longrightarrow> calm a1 a"
  by (auto simp: disable_tx_def Let_def calm_def roles_def token_owners_def split: if_splits prod.splits)

lemma disable_tx_succeeded: "disable_tx fails now u a = (Inr hit, a1) \<Longrightarrow> disable_tx None now u a = (Inr hit, a1)"
  by (auto simp: disable_tx_def Let_def split: if_splits prod.splits)

lemma set_disabled_locked:
  assumes "locked iss used a"
  shows "locked iss used (snd (set_disabled fails now u d by_admin a))"
proof (cases d)
  case True
  show ?thesis
  proof (cases "disable_tx fails now u a")
    case (Pair res a1)
    show ?thesis
    proof (cases res)
      case (Inl e)
      with Pair True disable_tx_failed [of fails now u a e a1] assms show ?thesis
        by (simp add: set_disabled_def calm_locked)
    next
      case (Inr hit)
      with Pair have "disable_tx None now u a = (Inr hit, a1)" using disable_tx_succeeded by blast
      from disable_ok(1) [OF this assms] Pair Inr True show ?thesis by (simp add: set_disabled_def Let_def)
    qed
  qed
next
  case False
  let ?b = "update_profile u (\<lambda>r. r\<lparr>u_disabled := False\<rparr>) a"
  have "lock_inv (skeleton ?b) (users (auth a)) (tv_cache (auth a)) (active_users (auth a)) (token_owners (mcp a)) iss used"
  proof (rule inv_enable [OF assms [unfolded locked_def]])
    show "map fst (skeleton ?b) = map fst (skeleton a)" by (rule skeleton_update) simp
    show "(k, True) \<in> set (skeleton a)" if "(k, True) \<in> set (skeleton ?b)" for k
      using skeleton_disabled [OF that] by simp
  qed
  with False show ?thesis by (simp add: set_disabled_def Let_def locked_def frame)
qed

lemma new_password_locked:
  assumes "locked iss used a"
  shows "locked iss used (snd (apply_new_password env fails now u pw a))"
    and "roles (snd (apply_new_password env fails now u pw a)) = roles a"
proof -
  let ?b = "snd (apply_new_password env fails now u pw a)"
  have "locked iss used ?b \<and> roles ?b = roles a"
  proof (cases "validate_password_policy pw \<and> fails \<noteq> Some 0 \<and> fails \<noteq> Some 1 \<and> fails \<noteq> Some 2")
    case False
    with assms show ?thesis by (auto simp: apply_new_password_def)
  next
    case True
    obtain revoked au1 where v: "revoke_all_active now u (bump_token_version u (auth a)) = (revoked, au1)" by fastforce
    define mid where "mid = invalidate_token_version_cache u (fold (\<lambda>r. invalidate_sid_cache (as_id r)) revoked au1)"
    have b: "?b = update_profile u (\<lambda>r. r\<lparr>u_pw := ae_pw_hash env pw\<rparr>)
        (a\<lparr>auth := emit_session_rows_cascade_audits now u revoked mid\<rparr>)"
      using True by (simp add: apply_new_password_def v mid_def)
    have "roles ?b = roles (a\<lparr>auth := emit_session_rows_cascade_audits now u revoked mid\<rparr>)"
      unfolding b by (rule update_profile_roles) simp
    then have r: "roles ?b = roles a" by (simp add: roles_def)
    have m: "users mid = bump_version u (users (auth a))" "set (tv_cache mid) \<subseteq> {e \<in> set (tv_cache (auth a)). fst e \<noteq> u}"
      "active_users mid \<subseteq> {k \<in> active_users (auth a). k \<noteq> u}"
      using fold_invalidate_calm [of revoked au1] revoke_all_effect [of now u "bump_token_version u (auth a)"] v
      by (auto simp: mid_def invalidate_version_effect auth_calm_def)
    have "auth_calm (auth ?b) mid" by (simp add: b frame session_audits_calm)
    with m have au: "users (auth ?b) = bump_version u (users (auth a))"
        "set (tv_cache (auth ?b)) \<subseteq> {e \<in> set (tv_cache (auth a)). fst e \<noteq> u}"
        "active_users (auth ?b) \<subseteq> {k \<in> active_users (auth a). k \<noteq> u}" "mcp ?b = mcp a"
      by (auto simp: auth_calm_def b frame)
    have sk: "skeleton ?b = skeleton a" by (simp add: skeleton_roles r)
    have "u \<notin> token_owners (mcp a)" if "(u, True) \<in> set (skeleton a)"
      using assms that by (auto simp: locked_def dest: lock_invD)
    with assms au sk have "locked iss used ?b" by (intro bump_locked [OF assms]) auto
    with r show ?thesis by simp
  qed
  then show "locked iss used ?b" "roles ?b = roles a" by auto
qed

lemma delete_user_locked: "locked iss used a \<Longrightarrow> locked iss used (snd (delete_user u a))"
proof (cases "get_user_by_id u a")
  case None
  assume "locked iss used a"
  with None show ?thesis by (simp add: delete_user_def)
next
  case (Some x)
  assume inv: "locked iss used a"
  let ?b = "snd (delete_user u a)"
  have "skeleton ?b = filter (\<lambda>x. fst x \<noteq> u) (skeleton a)"
    using Some by (simp add: delete_user_def Let_def skeleton_def t_delete_def filter_map comp_def)
  moreover have "users (auth ?b) = filter (\<lambda>x. fst x \<noteq> u) (users (auth a))" "tv_cache (auth ?b) = tv_cache (auth a)"
      "mcp ?b = mcp a" "active_users (auth ?b) \<subseteq> active_users (auth a)"
    using Some by (auto simp: delete_user_def Let_def frame active_users_def)
  ultimately show ?thesis
    using inv unfolding locked_def by (auto intro!: inv_delete)
qed

lemma insert_user_locked:
  assumes "locked iss used a" and "insert_user r a = Some b" and "\<not> u_disabled r" and "u_id r \<notin> set used"
  shows "locked iss (u_id r # used) b" and "roles b = roles a @ [(u_id r, u_role r, False)]"
proof -
  have b: "b = a\<lparr>profiles := profiles a @ [r], auth := (auth a)\<lparr>users := users (auth a) @ [(u_id r, 1)]\<rparr>\<rparr>"
    using assms(2) by (simp add: insert_user_def split: if_splits)
  have "active_users (auth b) = active_users (auth a)" by (simp add: b active_users_def)
  moreover have "skeleton b = skeleton a @ [(u_id r, False)]" using assms(3) by (simp add: b skeleton_def)
  ultimately show "locked iss (u_id r # used) b"
    using inv_create [OF assms(1)[unfolded locked_def] assms(4)] by (simp add: locked_def) (simp add: b)
  show "roles b = roles a @ [(u_id r, u_role r, False)]" using assms(3) by (simp add: b roles_def)
qed

subsection \<open>The machine of requests\<close>

text \<open>
  A bearer is decoded exactly if its payload was issued. Every request that needs a user
  carries the text of its \<open>Authorization\<close> header; \<open>db_ok\<close> is whether the revocation check
  reaches the database, \<open>fails\<close> the failing statement of a transaction.
\<close>

definition live_gate :: "route_env \<Rightarrow> service \<Rightarrow> gate_env" where
  "live_gate env w = (re_gate env)\<lparr>ge_jwt := (\<lambda>t. find (\<lambda>p. re_encode env p = t) (issued w))\<rparr>"

definition set_auth :: "auth_state \<Rightarrow> service \<Rightarrow> service" where
  "set_auth a w = on_acct (auth_update (\<lambda>_. a)) w"

definition with_user ::
  "route_env \<Rightarrow> bool \<Rightarrow> instant \<Rightarrow> string \<Rightarrow> (user_context \<Rightarrow> service \<Rightarrow> service) \<Rightarrow> service \<Rightarrow> service" where
  "with_user env db_ok now header k w =
     (case authenticate (live_gate env w) db_ok now ''/api/v1/me'' header (auth (the_acct w)) of
        (Inr (Some ctx), a1) \<Rightarrow> k ctx (set_auth a1 w)
      | (_, a1) \<Rightarrow> set_auth a1 w)"

definition as_admin ::
  "route_env \<Rightarrow> bool \<Rightarrow> instant \<Rightarrow> string \<Rightarrow> (user_id \<Rightarrow> service \<Rightarrow> service) \<Rightarrow> service \<Rightarrow> service" where
  "as_admin env db_ok now header k w =
     with_user env db_ok now header (\<lambda>ctx w1. case require_admin True ctx of Inr c \<Rightarrow> k (uc_user c) w1 | Inl _ \<Rightarrow> w1) w"

definition claim_id :: "route_env \<Rightarrow> service \<Rightarrow> service" where
  "claim_id env w = w\<lparr>used_ids := ae_new_id (re_acct env) # used_ids w\<rparr>"

definition gate_request :: "route_env \<Rightarrow> bool \<Rightarrow> bool \<Rightarrow> instant \<Rightarrow> string \<Rightarrow> service \<Rightarrow> gate_verdict \<times> service" where
  "gate_request env db_ok write_ok now header w =
     (case check_mcp_bearer (live_gate env w) (re_bearer env) db_ok write_ok now header (auth (the_acct w), mcp (the_acct w)) of
        (v, (a1, m1)) \<Rightarrow> (v, on_acct (\<lambda>a. a\<lparr>auth := a1, mcp := m1\<rparr>) w))"

datatype request =
    RLogin route_env instant string string string string
  | RRefresh route_env instant "string option"
  | RLogout route_env instant "string option"
  | RMcp route_env bool bool instant string
  | RAccess route_env bool instant string bool bool int
  | RMintToken route_env bool instant string json_obj
  | RRevokeToken route_env bool instant string string
  | RChangePassword route_env "nat option" bool instant string string string
  | RCreate route_env bool instant string string string string
  | RPatch route_env "nat option" bool instant string user_id user_patch
  | RDelete route_env bool instant string user_id
  | RReset route_env "nat option" bool instant string user_id string
  | RRevokeSession route_env bool instant string user_id string
  | RRevokeUserToken route_env bool instant string user_id string
  | RMintInvite route_env bool instant string string bool
  | RRevokeInvite route_env bool instant string string
  | RPeek route_env instant string string
  | RRedeem route_env "nat option" instant string string string string string
  | RBootstrap route_env instant "string option" "string option" "string \<Rightarrow> boot_file" "string option"

definition fresh_id :: "route_env \<Rightarrow> service \<Rightarrow> bool" where
  "fresh_id env w = (ae_new_id (re_acct env) \<notin> set (used_ids w))"

definition on_house :: "(household \<Rightarrow> household) \<Rightarrow> service \<Rightarrow> service" where
  "on_house f w = w\<lparr>house := f (house w)\<rparr>"

fun serve_with :: "service \<Rightarrow> request \<Rightarrow> service" where
  "serve_with w (RLogin env now ip ua email pw) = snd (login env now ip ua email pw w)"
| "serve_with w (RRefresh env now cookie) = snd (refresh env now cookie w)"
| "serve_with w (RLogout env now cookie) = logout env now cookie w"
| "serve_with w (RMcp env db_ok write_ok now header) = snd (gate_request env db_ok write_ok now header w)"
| "serve_with w (RAccess env db_ok now header queued written throttle) =
     with_user env db_ok now header (\<lambda>ctx. on_acct (maybe_touch_last_seen queued written now (uc_user ctx) throttle)) w"
| "serve_with w (RMintToken env db_ok now header body) =
     with_user env db_ok now header (\<lambda>ctx. on_acct (\<lambda>a. snd (mint_my_token env now (uc_user ctx) body a))) w"
| "serve_with w (RRevokeToken env db_ok now header tid) =
     with_user env db_ok now header (\<lambda>ctx. on_acct (\<lambda>a. snd (revoke_my_token now (uc_user ctx) tid a))) w"
| "serve_with w (RChangePassword env fails db_ok now header current pw) =
     with_user env db_ok now header
       (\<lambda>ctx. on_acct (\<lambda>a. snd (change_own_password (re_acct env) fails now (uc_user ctx) current pw a))) w"
| "serve_with w (RCreate env db_ok now header email pw role) =
     (if \<not> fresh_id env w then w
      else as_admin env db_ok now header
        (\<lambda>c w1. claim_id env (on_acct (\<lambda>a. snd (create_user_route env now email pw role a)) w1)) w)"
| "serve_with w (RPatch env fails db_ok now header u body) =
     as_admin env db_ok now header (\<lambda>c. on_acct (\<lambda>a. snd (patch_user fails now c u body a))) w"
| "serve_with w (RDelete env db_ok now header u) =
     as_admin env db_ok now header (\<lambda>c. on_acct (\<lambda>a. snd (delete_user_route c u a))) w"
| "serve_with w (RReset env fails db_ok now header u pw) =
     as_admin env db_ok now header (\<lambda>c. on_acct (\<lambda>a. snd (reset_user_password env fails now u pw a))) w"
| "serve_with w (RRevokeSession env db_ok now header u sid) =
     as_admin env db_ok now header (\<lambda>c. on_acct (\<lambda>a. snd (admin_revoke_user_session now c u sid a))) w"
| "serve_with w (RRevokeUserToken env db_ok now header u tid) =
     as_admin env db_ok now header (\<lambda>c. on_acct (\<lambda>a. snd (admin_revoke_user_token now c u tid a))) w"
| "serve_with w (RMintInvite env db_ok now header role shared) =
     as_admin env db_ok now header
       (\<lambda>c. on_house (\<lambda>h. snd (mint_invite (re_bearer env) now (re_invite_ttl env) role shared c h))) w"
| "serve_with w (RRevokeInvite env db_ok now header i) =
     as_admin env db_ok now header (\<lambda>c. on_house (\<lambda>h. snd (revoke_invite now i c h))) w"
| "serve_with w (RPeek env now ip tok) = snd (peek_invite_route env now ip tok w)"
| "serve_with w (RRedeem env fails now ip ua tok email pw) =
     (if \<not> fresh_id env w then w else snd (redeem_invite_route env fails now ip ua tok email pw (claim_id env w)))"
| "serve_with w (RBootstrap env now email_var path_var file pw_var) =
     (if \<not> fresh_id env w then w
      else claim_id env (on_acct (\<lambda>a. snd (bootstrap_if_empty (re_acct env) now email_var path_var file pw_var a)) w))"

text \<open>The configuration of the process is the same for all requests, and accounts are enabled.\<close>

fun request_env :: "request \<Rightarrow> route_env" where
  "request_env (RLogin env _ _ _ _ _) = env"
| "request_env (RRefresh env _ _) = env"
| "request_env (RLogout env _ _) = env"
| "request_env (RMcp env _ _ _ _) = env"
| "request_env (RAccess env _ _ _ _ _ _) = env"
| "request_env (RMintToken env _ _ _ _) = env"
| "request_env (RRevokeToken env _ _ _ _) = env"
| "request_env (RChangePassword env _ _ _ _ _ _) = env"
| "request_env (RCreate env _ _ _ _ _ _) = env"
| "request_env (RPatch env _ _ _ _ _ _) = env"
| "request_env (RDelete env _ _ _ _) = env"
| "request_env (RReset env _ _ _ _ _ _) = env"
| "request_env (RRevokeSession env _ _ _ _ _) = env"
| "request_env (RRevokeUserToken env _ _ _ _ _) = env"
| "request_env (RMintInvite env _ _ _ _ _) = env"
| "request_env (RRevokeInvite env _ _ _ _) = env"
| "request_env (RPeek env _ _ _) = env"
| "request_env (RRedeem env _ _ _ _ _ _ _) = env"
| "request_env (RBootstrap env _ _ _ _ _) = env"

definition serve :: "auth_config \<Rightarrow> service \<Rightarrow> request \<Rightarrow> service" where
  "serve cfg w rq = (if ge_cfg (re_gate (request_env rq)) = cfg then serve_with w rq else w)"

definition service_good :: "auth_config \<Rightarrow> service \<Rightarrow> bool" where
  "service_good cfg w \<longleftrightarrow> ac_enabled cfg \<and> locked (issued w) (used_ids w) (the_acct w)"

definition has_admin :: "acct_state \<Rightarrow> bool" where
  "has_admin a = list_ex active_admin (profiles a)"

subsection \<open>Authenticated requests\<close>

lemma on_acct_simps [simp]:
  "the_acct (on_acct f w) = f (the_acct w)" "issued (on_acct f w) = issued w" "used_ids (on_acct f w) = used_ids w"
  by (simp_all add: on_acct_def the_acct_def)

lemma set_auth_simps [simp]:
  "issued (set_auth a w) = issued w" "used_ids (set_auth a w) = used_ids w"
  "the_acct (set_auth a w) = (the_acct w)\<lparr>auth := a\<rparr>"
  by (simp_all add: set_auth_def)

lemma resolve_effect:
  assumes "resolve_current_token_version cfg now u a = (v, a1)"
  shows "users a1 = users a" "sessions a1 = sessions a"
    "set (tv_cache a1) \<subseteq> set (tv_cache a) \<or> (map_of (users a) u = Some v \<and> set (tv_cache a1) \<subseteq> insert (u, v, now) (set (tv_cache a)))"
    "(\<exists>ts. (u, v, ts) \<in> set (tv_cache a)) \<or> map_of (users a) u = Some v \<or> (v = 0 \<and> map_of (users a) u = None)"
proof -
  note d = set_lru_get [of now "ac_tv_ttl cfg" u "tv_cache a"]
  show "users a1 = users a" "sessions a1 = sessions a"
    using assms by (auto simp: resolve_current_token_version_def Let_def case_prod_unfold split: option.splits if_splits)
  show "set (tv_cache a1) \<subseteq> set (tv_cache a) \<or> (map_of (users a) u = Some v \<and> set (tv_cache a1) \<subseteq> insert (u, v, now) (set (tv_cache a)))"
    using assms d set_lru_put [of token_ver_cache_max now u v "snd (lru_get_fresh now (ac_tv_ttl cfg) u (tv_cache a))"]
    by (auto simp: resolve_current_token_version_def Let_def case_prod_unfold split: option.splits if_splits)
  show "(\<exists>ts. (u, v, ts) \<in> set (tv_cache a)) \<or> map_of (users a) u = Some v \<or> (v = 0 \<and> map_of (users a) u = None)"
    using assms get_fresh_hit [of now "ac_tv_ttl cfg" u "tv_cache a" v]
    by (auto simp: resolve_current_token_version_def Let_def case_prod_unfold split: option.splits if_splits)
qed

lemma sid_check_frame:
  "users (snd (sid_must_deny_access cfg ok now sub sid a)) = users a"
  "sessions (snd (sid_must_deny_access cfg ok now sub sid a)) = sessions a"
  "tv_cache (snd (sid_must_deny_access cfg ok now sub sid a)) = tv_cache a"
  by (auto simp: sid_must_deny_access_def Let_def case_prod_unfold split: option.splits)

text \<open>A revocation check reads at most one version into the cache.\<close>

lemma revocation_effect:
  assumes "jwt_revocation_failure_reason cfg ok now p a = (reason, a1)"
  shows "users a1 = users a \<and> sessions a1 = sessions a \<and> (set (tv_cache a1) \<subseteq> set (tv_cache a) \<or>
    (\<exists>u v. map_of (users a) u = Some v \<and> set (tv_cache a1) \<subseteq> insert (u, v, now) (set (tv_cache a))))"
proof (cases "ac_enabled cfg \<and> (\<exists>sub. map_of p ''sub'' = Some (JStr sub))")
  case False
  with assms show ?thesis
    by (auto simp: jwt_revocation_failure_reason_def split: if_splits option.splits json.splits)
next
  case True
  then obtain sub where sub: "map_of p ''sub'' = Some (JStr sub)" and en: "ac_enabled cfg" by blast
  define tv where "tv = (case map_of p ''tv'' of None \<Rightarrow> JNull | Some j \<Rightarrow> j)"
  define mid where "mid = (if tv = JNull \<or> json_int tv = None then a else snd (resolve_current_token_version cfg now sub a))"
  have m: "users mid = users a \<and> sessions mid = sessions a \<and> (set (tv_cache mid) \<subseteq> set (tv_cache a) \<or>
    (\<exists>u v. map_of (users a) u = Some v \<and> set (tv_cache mid) \<subseteq> insert (u, v, now) (set (tv_cache a))))"
    using resolve_effect [of cfg now sub a "fst (resolve_current_token_version cfg now sub a)" mid]
    by (auto simp: mid_def)
  have "a1 = mid \<or> (\<exists>sid. a1 = snd (sid_must_deny_access cfg ok now sub sid mid))"
    using assms sub en unfolding jwt_revocation_failure_reason_def tv_def [symmetric] mid_def
    by (auto simp: Let_def tv_def [symmetric] case_prod_unfold split: if_splits option.splits json.splits)
  with m show ?thesis by (auto simp: sid_check_frame)
qed

lemma auth_state_locked:
  assumes "locked iss used a" and "users a1 = users (auth a)" and "sessions a1 = sessions (auth a)"
    and "set (tv_cache a1) \<subseteq> set (tv_cache (auth a)) \<or>
      (\<exists>u v. map_of (users (auth a)) u = Some v \<and> set (tv_cache a1) \<subseteq> insert (u, v, now) (set (tv_cache (auth a))))"
  shows "locked iss used (a\<lparr>auth := a1\<rparr>)"
proof -
  have act: "active_users a1 = active_users (auth a)" using assms(3) by (simp add: active_users_def)
  have "lock_inv (skeleton a) (users (auth a)) (tv_cache a1) (active_users (auth a)) (token_owners (mcp a)) iss used"
    using assms(4)
  proof
    assume "set (tv_cache a1) \<subseteq> set (tv_cache (auth a))"
    from inv_shrink [OF assms(1) [unfolded locked_def] this order_refl order_refl] show ?thesis .
  next
    assume "\<exists>u v. map_of (users (auth a)) u = Some v \<and> set (tv_cache a1) \<subseteq> insert (u, v, now) (set (tv_cache (auth a)))"
    then obtain u v where "map_of (users (auth a)) u = Some v" "set (tv_cache a1) \<subseteq> insert (u, v, now) (set (tv_cache (auth a)))"
      by blast
    from inv_fill [OF assms(1) [unfolded locked_def] this(2,1)] show ?thesis .
  qed
  then show ?thesis by (simp add: locked_def assms(2) act skeleton_def)
qed

lemma revocation_locked:
  assumes "locked iss used a" and "jwt_revocation_failure_reason cfg ok now p (auth a) = (reason, a1)"
  shows "locked iss used (a\<lparr>auth := a1\<rparr>)"
  using revocation_effect [OF assms(2)] by (intro auth_state_locked [OF assms(1)]) auto

text \<open>An issued token that passes the check belongs to nobody who is disabled.\<close>

lemma accepted_not_disabled:
  assumes "locked iss used a" and "p \<in> set iss" and "ac_enabled cfg"
    and "jwt_revocation_failure_reason cfg ok now p (auth a) = (None, a1)" and "map_of p ''sub'' = Some (JStr u)"
  shows "(u, True) \<notin> set (skeleton a)" and "u \<in> set used"
proof -
  note i = lock_invD [OF assms(1) [unfolded locked_def]]
  from i(4) [OF assms(2)] show "u \<in> set used" by (rule token_coveredE) (use assms(5) in simp)
  show "(u, True) \<notin> set (skeleton a)"
  proof
    assume dis: "(u, True) \<in> set (skeleton a)"
    obtain v where v: "map_of p ''tv'' = Some (JInt v)" "\<And>w. map_of (users (auth a)) u = Some w \<Longrightarrow> v < w"
      using i(4) [OF assms(2)] by (rule token_coveredE) (use assms(5) dis in auto)
    have "u \<in> fst ` set (skeleton a)" using dis by force
    then have "u \<in> fst ` set (users (auth a))" using i(1) by (metis list.set_map)
    then obtain w where w: "map_of (users (auth a)) u = Some w" by (metis map_of_eq_None_iff option.exhaust)
    obtain current a2 where r: "resolve_current_token_version cfg now u (auth a) = (current, a2)" by fastforce
    have "v = current"
      using assms(3-5) v(1) r
      by (auto simp: jwt_revocation_failure_reason_def invalid_token_def json_int_def Let_def split: if_splits)
    moreover have "current = w"
      using resolve_effect(4) [OF r] i(3) w by fastforce
    ultimately show False using v(2) [OF w] by simp
  qed
qed

lemma find_member: "find P xs = Some x \<Longrightarrow> x \<in> set xs"
  by (auto simp: find_Some_iff)

lemma path_me: "\<not> path_is_bypassed ''/api/v1/me''"
  by (simp add: path_is_bypassed_def auth_bypass_prefixes_def starts_with_def)

lemma authenticate_effect:
  assumes "authenticate g ok now ''/api/v1/me'' header a = (res, a1)" and "ac_enabled (ge_cfg g)"
  shows "(a1 = a \<and> (\<forall>ctx. res \<noteq> Inr (Some ctx))) \<or>
    (\<exists>p reason. ge_jwt g (read_bearer header) = Some p \<and>
      jwt_revocation_failure_reason (ge_cfg g) ok now p a = (reason, a1) \<and>
      (\<forall>ctx. res = Inr (Some ctx) \<longrightarrow> reason = None \<and> map_of p ''sub'' = Some (JStr (uc_user ctx)) \<and> uc_authenticated ctx))"
  using assms path_me
  by (auto simp: authenticate_def Let_def split: if_splits option.splits prod.splits json.splits)

lemma live_gate_simps [simp]:
  "ge_cfg (live_gate env w) = ge_cfg (re_gate env)" "ge_jwt (live_gate env w) t = find (\<lambda>p. re_encode env p = t) (issued w)"
  by (simp_all add: live_gate_def)

text \<open>A request that gets through is made by a user id that exists or existed, and is not disabled.\<close>

lemma with_user_cases:
  assumes "service_good (ge_cfg (re_gate env)) w"
  obtains (refused) a1 where "with_user env ok now header k w = set_auth a1 w"
      "locked (issued w) (used_ids w) ((the_acct w)\<lparr>auth := a1\<rparr>)"
  | (accepted) ctx a1 where "with_user env ok now header k w = k ctx (set_auth a1 w)"
      "locked (issued w) (used_ids w) ((the_acct w)\<lparr>auth := a1\<rparr>)" "uc_user ctx \<in> set (used_ids w)"
      "(uc_user ctx, True) \<notin> set (skeleton (the_acct w))"
proof -
  let ?a = "the_acct w" and ?cfg = "ge_cfg (re_gate env)"
  have inv: "locked (issued w) (used_ids w) ?a" "ac_enabled ?cfg" using assms by (simp_all add: service_good_def)
  obtain res a1 where au: "authenticate (live_gate env w) ok now ''/api/v1/me'' header (auth ?a) = (res, a1)" by fastforce
  from authenticate_effect [OF au] inv(2)
  consider "a1 = auth ?a" "\<forall>ctx. res \<noteq> Inr (Some ctx)"
    | p reason where "p \<in> set (issued w)" "jwt_revocation_failure_reason ?cfg ok now p (auth ?a) = (reason, a1)"
      "\<forall>ctx. res = Inr (Some ctx) \<longrightarrow> reason = None \<and> map_of p ''sub'' = Some (JStr (uc_user ctx)) \<and> uc_authenticated ctx"
    by (auto dest: find_member)
  then show ?thesis
  proof cases
    case 1
    then have "with_user env ok now header k w = set_auth a1 w"
      using au by (auto simp: with_user_def split: sum.splits option.splits)
    then show ?thesis using inv(1) 1(1) by (intro refused [of a1]) simp_all
  next
    case 2
    have l: "locked (issued w) (used_ids w) (?a\<lparr>auth := a1\<rparr>)" using revocation_locked [OF inv(1) 2(2)] .
    show ?thesis
    proof (cases "\<exists>ctx. res = Inr (Some ctx)")
      case False
      then have "with_user env ok now header k w = set_auth a1 w"
        using au by (auto simp: with_user_def split: sum.splits option.splits)
      then show ?thesis using l by (intro refused) 
    next
      case True
      then obtain ctx where ctx: "res = Inr (Some ctx)" by blast
      with 2 have "jwt_revocation_failure_reason ?cfg ok now p (auth ?a) = (None, a1)"
          "map_of p ''sub'' = Some (JStr (uc_user ctx))" by auto
      from accepted_not_disabled [OF inv(1) 2(1) inv(2) this] ctx au l show ?thesis
        by (intro accepted [of ctx a1]) (simp_all add: with_user_def)
    qed
  qed
qed

subsection \<open>Every request keeps the invariant\<close>

lemma locked_more_ids: "locked iss used a \<Longrightarrow> locked iss (i # used) a"
proof -
  have "token_covered sk us used p \<Longrightarrow> token_covered sk us (i # used) p" for sk us p
    by (auto simp: token_covered_def)
  then show "locked iss used a \<Longrightarrow> locked iss (i # used) a"
    unfolding locked_def lock_inv_def by auto
qed

lemma profile_version:
  assumes "locked iss used a" and "r \<in> set (profiles a)"
  shows "\<exists>v. map_of (users (auth a)) (u_id r) = Some v \<and> row_to_internal a r = (r, v)"
    and "\<not> u_disabled r \<Longrightarrow> (u_id r, True) \<notin> set (skeleton a)" and "u_id r \<in> set used"
proof -
  note i = lock_invD [OF assms(1) [unfolded locked_def]]
  have "u_id r \<in> fst ` set (skeleton a)" using assms(2) by (force simp: skeleton_def)
  then have us: "u_id r \<in> fst ` set (users (auth a))" using i(1) by (metis list.set_map)
  then show "u_id r \<in> set used" using i(7) by blast
  from us obtain v where v: "map_of (users (auth a)) (u_id r) = Some v" by (metis map_of_eq_None_iff option.exhaust)
  have "1 \<le> v" using i(6) map_of_SomeD [OF v] by fastforce
  with v show "\<exists>v. map_of (users (auth a)) (u_id r) = Some v \<and> row_to_internal a r = (r, v)"
    by (auto simp: row_to_internal_def)
  show "(u_id r, True) \<notin> set (skeleton a)" if "\<not> u_disabled r"
  proof
    assume "(u_id r, True) \<in> set (skeleton a)"
    moreover have "(u_id r, False) \<in> set (skeleton a)" using assms(2) that by (force simp: skeleton_def)
    moreover have "distinct (map fst (skeleton a))" using i(1,2) by simp
    ultimately show False by (metis eq_key_imp_eq_value)
  qed
qed

lemma get_user_row: "get_user_by_id u a = Some (r, v) \<Longrightarrow> r \<in> set (profiles a) \<and> u_id r = u \<and> row_to_internal a r = (r, v)"
  by (auto simp: get_user_by_id_def row_to_internal_def dest: t_find_Some)

text \<open>A session is opened for an enabled account; the issued token carries its version.\<close>

lemma open_session_locked:
  assumes "locked iss used a" and "r \<in> set (profiles a)" and "\<not> u_disabled r" and "row_to_internal a r = (r, v)"
  shows "locked (iss @ (case fst (open_session env now ip ua (r, v) a) of Inl _ \<Rightarrow> [] | Inr p \<Rightarrow> [p])) used
      (snd (open_session env now ip ua (r, v) a))"
    and "roles (snd (open_session env now ip ua (r, v) a)) = roles a"
proof -
  let ?res = "open_session env now ip ua (r, v) a"
  obtain e a1 where s: "ensure_instance_salt (re_fresh_salt env) (auth a) = (e, a1)" by fastforce
  have calm1: "auth_calm a1 (auth a)" using salt_calm [of "re_fresh_salt env" "auth a"] s by simp
  have "locked (iss @ (case fst ?res of Inl _ \<Rightarrow> [] | Inr p \<Rightarrow> [p])) used (snd ?res) \<and> roles (snd ?res) = roles a"
  proof (cases e)
    case (Inl err)
    have "calm (a\<lparr>auth := a1\<rparr>) a" using calm1 by (simp add: calm_def roles_def)
    with calm_locked assms(1) Inl s show ?thesis by (auto simp: open_session_def roles_def)
  next
    case (Inr salt')
    let ?ins = "insert_login_session (re_token env) now (re_session_id env) (u_id r)
      (te_mint (re_token env) (u_id r) (re_session_id env)) (now + re_refresh_ttl env * 1000000)
      (compute_device_label ua (re_stamp env)) (re_fingerprint env salt' ip) (re_fingerprint env salt' ua) a1"
    obtain e2 a2 where ins: "?ins = (e2, a2)" by fastforce
    have eff: "users a2 = users (auth a)" "set (tv_cache a2) \<subseteq> set (tv_cache (auth a))"
        "active_users a2 \<subseteq> insert (u_id r) (active_users (auth a))"
      using login_session_effect [where a = a1 and env = "re_token env" and now = now and sid = "re_session_id env" and u = "u_id r"
          and jwt = "te_mint (re_token env) (u_id r) (re_session_id env)" and ex = "now + re_refresh_ttl env * 1000000"
          and dev = "compute_device_label ua (re_stamp env)" and ip = "re_fingerprint env salt' ip" and ua = "re_fingerprint env salt' ua"]
        ins calm1 by (auto simp: auth_calm_def)
    note p = profile_version [OF assms(1,2)]
    have inv2: "lock_inv (skeleton a) (users (auth a)) (tv_cache a2) (active_users a2) (token_owners (mcp a)) iss used"
      using inv_shrink [OF inv_open [OF assms(1) [unfolded locked_def] eff(3) _ p(3) p(2) [OF assms(3)]] eff(2) order_refl order_refl]
      by blast
    show ?thesis
    proof (cases e2)
      case (Inl err)
      with Inr s ins inv2 eff(1) show ?thesis
        by (simp add: open_session_def Let_def locked_def skeleton_def roles_def)
    next
      case ok: (Inr sid)
      let ?p = "login_response env now r (re_session_id env) v"
      let ?b = "record_login now (u_id r) (a\<lparr>auth := a2\<rparr>)"
      have res: "?res = (Inr ?p, ?b)" using Inr s ins ok by (simp add: open_session_def Let_def)
      have ver: "map_of (users (auth a)) (u_id r) = Some v" using p(1) assms(4) by auto
      have "lock_inv (skeleton a) (users (auth a)) (tv_cache a2) (active_users a2) (token_owners (mcp a)) (iss @ [?p]) used"
        by (rule inv_issue [OF inv2 _ _ ver p(2) [OF assms(3)]]) (simp_all add: login_response_def mint_access_token_def)
      then have "locked (iss @ [?p]) used (a\<lparr>auth := a2\<rparr>)" by (simp add: locked_def skeleton_def eff(1))
      moreover have "calm ?b (a\<lparr>auth := a2\<rparr>)" by (rule record_login_calm)
      ultimately show ?thesis using res by (auto intro: calm_locked) (auto simp: calm_def roles_def)
    qed
  qed
  then show "locked (iss @ (case fst ?res of Inl _ \<Rightarrow> [] | Inr p \<Rightarrow> [p])) used (snd ?res)" "roles (snd ?res) = roles a" by auto
qed

lemma issue_simps [simp]:
  "the_acct (snd (issue res w)) = snd res" "used_ids (snd (issue res w)) = used_ids w"
  "issued (snd (issue res w)) = issued w @ (case fst res of Inl _ \<Rightarrow> [] | Inr p \<Rightarrow> [p])"
  by (simp_all add: issue_def the_acct_def on_acct_def split: prod.splits)

definition keeps :: "service \<Rightarrow> service \<Rightarrow> bool" where
  "keeps w' w \<longleftrightarrow> locked (issued w') (used_ids w') (the_acct w') \<and> (\<exists>xs. roles (the_acct w') = roles (the_acct w) @ xs)"

lemma keeps_frame:
  assumes "locked (issued w) (used_ids w) (the_acct w)" and "the_acct w' = the_acct w" and "issued w' = issued w" and "used_ids w' = used_ids w"
  shows "keeps w' w"
  using assms by (simp add: keeps_def)

lemma keeps_calm:
  assumes "locked (issued w) (used_ids w) (the_acct w)" and "calm (the_acct w') (the_acct w)" and "issued w' = issued w" and "used_ids w' = used_ids w"
  shows "keeps w' w"
  using assms calm_locked by (auto simp: keeps_def calm_def)

lemma login_keeps: "service_good cfg w \<Longrightarrow> keeps (snd (login env now ip ua email pw w)) w"
proof -
  assume good: "service_good cfg w"
  then have inv: "locked (issued w) (used_ids w) (the_acct w)" by (simp add: service_good_def)
  show ?thesis
  proof (cases "\<exists>user. verify_credentials (re_acct env) email pw (the_acct w) = Inr (Some user) \<and>
      fst (check_failures now ip (py_lower (py_strip email)) (login_limiter w)) \<and> ac_enabled (ge_cfg (re_gate env))")
    case False
    then show ?thesis
      by (intro keeps_frame [OF inv])
         (auto simp: login_def Let_def the_acct_def case_prod_unfold split: sum.splits option.splits)
  next
    case True
    then obtain r v where u: "verify_credentials (re_acct env) email pw (the_acct w) = Inr (Some (r, v))" by force
    then have r: "r \<in> set (profiles (the_acct w))" "\<not> u_disabled r" "row_to_internal (the_acct w) r = (r, v)"
      by (auto simp: verify_credentials_def get_user_by_email_def row_to_internal_def dest: find_member
          split: option.splits if_splits verify_outcome.splits)
    from open_session_locked [OF inv r, of env now ip ua] True u show ?thesis
      by (auto simp: login_def Let_def case_prod_unfold keeps_def)
  qed
qed

lemma refresh_keeps: "service_good cfg w \<Longrightarrow> keeps (snd (refresh env now cookie w)) w"
proof -
  assume good: "service_good cfg w"
  then have inv: "locked (issued w) (used_ids w) (the_acct w)" by (simp add: service_good_def)
  let ?rot = "\<lambda>u jti. rotate_refresh (re_token env) now (re_refresh_ttl env) (re_session_id env) u jti (the cookie) (auth (the_acct w))"
  show ?thesis
  proof (cases "\<exists>u jti r v. ac_enabled (ge_cfg (re_gate env)) \<and> given cookie \<and> refresh_claims env (the cookie) = Some (u, jti) \<and>
      get_user_by_id u (the_acct w) = Some (r, v) \<and> \<not> u_disabled r")
    case False
    then have "snd (refresh env now cookie w) = w"
      by (auto simp: refresh_def split: option.splits)
    with inv show ?thesis by (simp add: keeps_def)
  next
    case True
    then obtain u jti r v where t: "ac_enabled (ge_cfg (re_gate env))" "given cookie" "refresh_claims env (the cookie) = Some (u, jti)"
        "get_user_by_id u (the_acct w) = Some (r, v)" "\<not> u_disabled r" by blast
    obtain res a1 where rot: "?rot u jti = (res, a1)" by fastforce
    note row = get_user_row [OF t(4)]
    note p = profile_version [OF inv, of r]
    have "u \<in> set (used_ids w)" "(u, True) \<notin> set (skeleton (the_acct w))" using p(2,3) row t(5) by auto
    then have inv1: "lock_inv (skeleton (the_acct w)) (users (auth (the_acct w))) (tv_cache (auth (the_acct w))) (active_users a1)
        (token_owners (mcp (the_acct w))) (issued w) (used_ids w)"
      using rotate_effect(3) [of "re_token env" now "re_refresh_ttl env" "re_session_id env" u jti "the cookie" "auth (the_acct w)"] rot
      by (intro inv_open [OF inv [unfolded locked_def]]) auto
    have eff: "users a1 = users (auth (the_acct w))" "tv_cache a1 = tv_cache (auth (the_acct w))"
      using rotate_effect(1,2) [of "re_token env" now "re_refresh_ttl env" "re_session_id env" u jti "the cookie" "auth (the_acct w)"] rot
      by simp_all
    show ?thesis
    proof (cases res)
      case (Inl e)
      then show ?thesis
        using t rot inv1 eff by (auto simp: refresh_def keeps_def locked_def skeleton_def roles_def)
    next
      case (Inr x)
      then obtain sid tok tv where x: "res = Inr (sid, tok, tv)" by (cases x) auto
      let ?p = "login_response env now r sid tv"
      have ver: "map_of (users (auth (the_acct w))) u = Some tv" using rotate_version rot x by (metis fst_conv)
      have "get_user_by_id u (the_acct (on_acct (auth_update (\<lambda>_. a1)) w)) = Some (r, v)"
        using t(4) by (auto simp: get_user_by_id_def row_to_internal_def eff)
      then have fin: "snd (refresh env now cookie w) =
          snd (issue (Inr ?p, the_acct (on_acct (auth_update (\<lambda>_. a1)) w)) (on_acct (auth_update (\<lambda>_. a1)) w))"
        using t rot x by (simp add: refresh_def Let_def)
      have "lock_inv (skeleton (the_acct w)) (users (auth (the_acct w))) (tv_cache (auth (the_acct w))) (active_users a1)
          (token_owners (mcp (the_acct w))) (issued w @ [?p]) (used_ids w)"
        using row by (intro inv_issue [OF inv1 _ _ ver])
          (use p(2) row t(5) in \<open>auto simp: login_response_def mint_access_token_def\<close>)
      then show ?thesis by (simp add: fin keeps_def locked_def skeleton_def roles_def eff)
    qed
  qed
qed

lemma logout_keeps: "service_good cfg w \<Longrightarrow> keeps (logout env now cookie w) w"
  by (rule keeps_calm)
     (auto simp: service_good_def logout_def calm_def roles_def revoke_session_calm split: option.splits)

lemma gate_keeps:
  assumes "service_good (ge_cfg (re_gate env)) w"
  shows "keeps (snd (gate_request env ok write_ok now header w)) w"
proof -
  let ?a = "the_acct w"
  have inv: "locked (issued w) (used_ids w) ?a" using assms by (simp add: service_good_def)
  obtain v a1 m1 where g: "check_mcp_bearer (live_gate env w) (re_bearer env) ok write_ok now header (auth ?a, mcp ?a) = (v, (a1, m1))"
    by (metis surj_pair)
  have "(a1 = auth ?a \<and> token_owners m1 \<subseteq> token_owners (mcp ?a)) \<or>
      (m1 = mcp ?a \<and> (\<exists>p reason. jwt_revocation_failure_reason (ge_cfg (re_gate env)) ok now p (auth ?a) = (reason, a1)))"
    using g verify_owners [of "re_bearer env" ok write_ok now "read_bearer header" "mcp ?a"]
    by (auto simp: check_mcp_bearer_def Let_def split: if_splits prod.splits sum.splits option.splits bool.splits)
  then have "locked (issued w) (used_ids w) (?a\<lparr>auth := a1, mcp := m1\<rparr>)"
  proof
    assume h: "a1 = auth ?a \<and> token_owners m1 \<subseteq> token_owners (mcp ?a)"
    then have "calm (?a\<lparr>auth := a1, mcp := m1\<rparr>) ?a" by (simp add: calm_def roles_def)
    then show ?thesis using calm_locked inv by blast
  next
    assume h: "m1 = mcp ?a \<and> (\<exists>p reason. jwt_revocation_failure_reason (ge_cfg (re_gate env)) ok now p (auth ?a) = (reason, a1))"
    then have "locked (issued w) (used_ids w) (?a\<lparr>auth := a1\<rparr>)" using revocation_locked [OF inv] by blast
    with h show ?thesis by simp
  qed
  then show ?thesis by (simp add: gate_request_def g keeps_def roles_def)
qed

lemma mint_my_token_locked:
  assumes "locked iss used a" and "u \<in> set used" and "(u, True) \<notin> set (skeleton a)"
  shows "locked iss used (snd (mint_my_token env now u body a))" and "roles (snd (mint_my_token env now u body a)) = roles a"
proof -
  have mid: "locked iss used (a\<lparr>mcp := m1\<rparr>)" if "token_owners m1 \<subseteq> insert u (token_owners (mcp a))" for m1
  proof -
    have "lock_inv (skeleton a) (users (auth a)) (tv_cache (auth a)) (active_users (auth a)) (token_owners m1) iss used"
      by (rule inv_open [OF assms(1) [unfolded locked_def] _ that assms(2,3)]) auto
    then show ?thesis by (simp add: locked_def skeleton_def)
  qed
  have aud: "locked iss used b \<Longrightarrow> locked iss used (audit_on x u' i r b)" for b x u' i r
    by (rule calm_locked) (simp_all add: audit_on_def calm_def roles_def)
  show "locked iss used (snd (mint_my_token env now u body a))"
    using assms(1) mid mint_owners [of "re_bearer env" now u _ _ "mcp a"] aud
    by (auto simp: mint_my_token_def Let_def split: option.splits prod.splits sum.splits) (metis snd_conv)+
  show "roles (snd (mint_my_token env now u body a)) = roles a"
    by (auto simp: mint_my_token_def Let_def roles_def audit_on_def split: option.splits prod.splits sum.splits)
qed

lemma revoke_token_calm:
  "calm (snd (revoke_my_token now u tid a)) a" "calm (snd (admin_revoke_user_token now c u tid a)) a"
  using revoke_owners [of now tid "mcp a"]
  by (auto simp: revoke_my_token_def admin_revoke_user_token_def audit_on_def calm_def roles_def
      split: option.splits prod.splits)

lemma revoke_session_route_calm: "calm (snd (admin_revoke_user_session now c u sid a)) a"
  using revoke_session_calm(2) [of now u sid c "auth a"]
  by (auto simp: admin_revoke_user_session_def calm_def roles_def split: option.splits prod.splits)

lemma change_password_locked:
  assumes "locked iss used a"
  shows "locked iss used (snd (change_own_password env fails now u cur pw a))" "roles (snd (change_own_password env fails now u cur pw a)) = roles a"
    "locked iss used (snd (reset_user_password renv fails now u pw a))" "roles (snd (reset_user_password renv fails now u pw a)) = roles a"
proof -
  note n = new_password_locked [OF assms]
  show "locked iss used (snd (change_own_password env fails now u cur pw a))"
    "roles (snd (change_own_password env fails now u cur pw a)) = roles a"
    using assms n by (auto simp: change_own_password_def split: option.splits verify_outcome.splits)
  have "snd (reset_user_password renv fails now u pw a) = snd (admin_reset_user_password (re_acct renv) fails now u pw a)"
    by (auto simp: reset_user_password_def split: prod.splits sum.splits acct_error.splits)
  then show "locked iss used (snd (reset_user_password renv fails now u pw a))"
    "roles (snd (reset_user_password renv fails now u pw a)) = roles a"
    using assms n by (auto simp: admin_reset_user_password_def)
qed

lemma create_user_locked:
  assumes "locked iss used a" and "ae_new_id env \<notin> set used"
  shows "locked iss (ae_new_id env # used) (snd (create_user env now email pw role shared a)) \<and>
    (\<exists>xs. roles (snd (create_user env now email pw role shared a)) = roles a @ xs)"
proof (cases "snd (create_user env now email pw role shared a) = a")
  case True
  with assms show ?thesis by (auto intro: locked_more_ids)
next
  case False
  then obtain addr b where ins: "insert_user (new_profile now (ae_new_id env) addr (ae_pw_hash env pw) role shared) a = Some b"
      and fin: "snd (create_user env now email pw role shared a) = b"
    by (auto simp: create_user_def Let_def split: option.splits if_splits)
  from insert_user_locked [OF assms(1) ins] assms(2) fin show ?thesis by (simp add: new_profile_def)
qed

lemma create_route_acct: "snd (create_user_route env now email pw role a) = snd (create_user (re_acct env) now email pw role True a)"
  by (auto simp: create_user_route_def split: prod.splits sum.splits acct_error.splits)

lemma bootstrap_acct:
  "snd (bootstrap_if_empty env now e p f q a) = a \<or>
    (\<exists>addr pw. snd (bootstrap_if_empty env now e p f q a) = snd (create_user env now addr pw ''admin'' True a))"
  by (auto simp: bootstrap_if_empty_def Let_def split: option.splits prod.splits sum.splits) (metis snd_conv)+

lemma the_acct_limiters [simp]:
  "the_acct (w\<lparr>redeem_limiter := l\<rparr>) = the_acct w" "the_acct (w\<lparr>login_limiter := l\<rparr>) = the_acct w"
  "the_acct (w\<lparr>peek_store := st\<rparr>) = the_acct w" "the_acct (w\<lparr>house := h\<rparr>) = acct h"
  by (simp_all add: the_acct_def)

lemma redeem_refused: "redeem_commit fails now p st = (Inl e, st1) \<Longrightarrow> st1 = st"
  by (cases rule: redeem_commit_cases [of fails now p st]) auto

lemma redeem_route_keeps:
  assumes "service_good cfg w" and "ae_new_id (re_acct env) \<notin> set (used_ids w)"
  shows "keeps (snd (redeem_invite_route env fails now ip ua tok email pw (claim_id env w))) w"
proof -
  let ?i = "ae_new_id (re_acct env)" and ?key = "py_lower (py_strip email)" and ?w = "claim_id env w"
  have inv: "locked (issued w) (used_ids w) (the_acct w)" using assms by (simp add: service_good_def)
  have same: "the_acct ?w = the_acct w" "issued ?w = issued w" "used_ids ?w = ?i # used_ids w" "house ?w = house w"
      "redeem_limiter ?w = redeem_limiter w"
    by (simp_all add: claim_id_def the_acct_def)
  have inv': "locked (issued w) (?i # used_ids w) (the_acct w)" using inv by (rule locked_more_ids)
  obtain res h1 where red: "redeem_invite (re_acct env) (re_bearer env) fails now tok email pw (house w) = (res, h1)" by fastforce
  show ?thesis
  proof (cases res)
    case (Inl e)
    have "h1 = house w"
      using red Inl by (auto simp: redeem_invite_def split: sum.splits dest: redeem_refused)
    then show ?thesis
      using inv' same red Inl
      by (auto simp: redeem_invite_route_def Let_def keeps_def the_acct_def case_prod_unfold)
  next
    case (Inr user)
    then obtain p where p: "redeem_check (re_acct env) (re_bearer env) now tok email pw (house w) = Inr p"
        "redeem_commit fails now p (house w) = (Inr user, h1)"
      using red by (auto simp: redeem_invite_def split: sum.splits)
    have "rp_user p = ?i" using p(1) by (auto simp: redeem_check_def split: sum.splits option.splits if_splits)
    then obtain row a1 where ins: "insert_user row (the_acct w) = Some a1" "u_id row = ?i" "\<not> u_disabled row"
        and h1: "acct h1 = a1\<lparr>auth := emit_audit ''__user_invite__.redeemed'' (rp_user p) [(''invite_id'', JStr (rp_invite p))]
            [(''email'', JStr (rp_email p)), (''role'', JStr (rp_role p)), (''allows_shared'', JBool (rp_shared p))] (auth a1)\<rparr>"
        and user: "user = row_to_internal a1 row"
      using p(2) by (auto simp: redeem_commit_def Let_def emit_invite_audit_def the_acct_def new_profile_def
          split: if_splits option.splits)
    note ins' = insert_user_locked [OF inv ins(1) ins(3)]
    have calm: "calm (acct h1) a1" by (simp add: h1 calm_def roles_def)
    have "locked (issued w) (?i # used_ids w) a1" "roles a1 = roles (the_acct w) @ [(?i, u_role row, False)]"
      using ins' ins(2) assms(2) by auto
    with calm calm_locked [OF calm] have l1: "locked (issued w) (?i # used_ids w) (acct h1)"
        "roles (acct h1) = roles (the_acct w) @ [(?i, u_role row, False)]"
      by (simp_all add: calm_def)
    have "profiles (acct h1) = profiles (the_acct w) @ [row]"
      using ins(1) by (auto simp: h1 insert_user_def split: if_splits)
    then have "row \<in> set (profiles (acct h1))" by simp
    moreover have "row_to_internal (acct h1) row = user" by (simp add: user h1 row_to_internal_def frame)
    moreover obtain v where v: "user = (row, v)" by (simp add: user row_to_internal_def)
    ultimately have "locked (issued w @ (case fst (open_session env now ip ua user (acct h1)) of Inl _ \<Rightarrow> [] | Inr p \<Rightarrow> [p]))
        (?i # used_ids w) (snd (open_session env now ip ua user (acct h1))) \<and>
        roles (snd (open_session env now ip ua user (acct h1))) = roles (the_acct w) @ [(?i, u_role row, False)]"
      using open_session_locked [OF l1(1) _ ins(3), of v env now ip ua] l1(2) by simp
    then show ?thesis
      using inv' same red Inr
      by (auto simp: redeem_invite_route_def Let_def keeps_def the_acct_def [symmetric] case_prod_unfold)
  qed
qed

text \<open>The three changes of a patch, in their order.\<close>

lemma patch_apply_acct:
  "\<exists>a2. (a2 = (case up_role body of Some x \<Rightarrow> if x \<noteq> u_role target then snd (update_role (u_id target) x a) else a | None \<Rightarrow> a) \<or>
      (\<exists>d. a2 = snd (set_disabled fails now (u_id target) d (Some c)
        (case up_role body of Some x \<Rightarrow> if x \<noteq> u_role target then snd (update_role (u_id target) x a) else a | None \<Rightarrow> a)))) \<and>
    (snd (patch_apply fails now c target body a) = a2 \<or>
      (\<exists>n. snd (patch_apply fails now c target body a) = snd (set_display_name (u_id target) (Some n) a2)))"
proof -
  define a1 where "a1 = (case up_role body of Some x \<Rightarrow> if x \<noteq> u_role target then snd (update_role (u_id target) x a) else a | None \<Rightarrow> a)"
  obtain failed a2 where sd: "(case up_disabled body of
      Some d \<Rightarrow> if d \<noteq> u_disabled target
        then (case set_disabled fails now (u_id target) d (Some c) a1 of (Inl _, s) \<Rightarrow> (True, s) | (Inr _, s) \<Rightarrow> (False, s))
        else (False, a1)
    | None \<Rightarrow> (False, a1)) = (failed, a2)" by fastforce
  have "a2 = a1 \<or> (\<exists>d. a2 = snd (set_disabled fails now (u_id target) d (Some c) a1))"
  proof (cases "up_disabled body")
    case None
    with sd show ?thesis by simp
  next
    case (Some d)
    show ?thesis
    proof (cases "set_disabled fails now (u_id target) d (Some c) a1")
      case (Pair res s)
      have "a2 = s \<or> a2 = a1" using Some sd Pair by (cases res) (auto split: if_splits)
      moreover have "snd (set_disabled fails now (u_id target) d (Some c) a1) = s" using Pair by simp
      ultimately show ?thesis by metis
    qed
  qed
  moreover have "snd (patch_apply fails now c target body a) = a2 \<or>
      (\<exists>n. snd (patch_apply fails now c target body a) = snd (set_display_name (u_id target) (Some n) a2))"
    unfolding patch_apply_def Let_def a1_def [symmetric] sd by (auto split: option.splits)
  ultimately show ?thesis unfolding a1_def [symmetric] by blast
qed

lemma patch_locked:
  assumes "locked iss used a"
  shows "locked iss used (snd (patch_user fails now c u body a))"
proof (cases "patch_check c u body a")
  case (Inl e)
  with assms show ?thesis by (simp add: patch_user_def)
next
  case (Inr target)
  define a1 where "a1 = (case up_role body of Some x \<Rightarrow> if x \<noteq> u_role target then snd (update_role (u_id target) x a) else a | None \<Rightarrow> a)"
  have l1: "locked iss used a1" using assms by (simp add: a1_def update_role_locked split: option.splits)
  from patch_apply_acct [where fails = fails and now = now and c = c and target = target and body = body and a = a, folded a1_def]
  obtain a2 where "a2 = a1 \<or> (\<exists>d. a2 = snd (set_disabled fails now (u_id target) d (Some c) a1))"
      "snd (patch_apply fails now c target body a) = a2 \<or>
       (\<exists>n. snd (patch_apply fails now c target body a) = snd (set_display_name (u_id target) (Some n) a2))" by blast
  moreover from this l1 have "locked iss used a2" by (auto intro: set_disabled_locked)
  ultimately have "locked iss used (snd (patch_apply fails now c target body a))"
    using calm_locked [OF set_display_name_calm] by metis
  with Inr show ?thesis by (simp add: patch_user_def)
qed

lemma delete_route_locked: "locked iss used a \<Longrightarrow> locked iss used (snd (delete_user_route c u a))"
  by (auto simp: delete_user_route_def delete_user_locked split: option.splits)

subsection \<open>An administrator remains\<close>

definition safe :: "service \<Rightarrow> service \<Rightarrow> bool" where
  "safe w' w \<longleftrightarrow> locked (issued w') (used_ids w') (the_acct w') \<and> (has_admin (the_acct w) \<longrightarrow> has_admin (the_acct w'))"

lemma has_admin_roles: "has_admin a \<longleftrightarrow> (\<exists>i. (i, ''admin'', False) \<in> set (roles a))"
  by (force simp: has_admin_def roles_def list_ex_iff active_admin_def)

lemma keeps_safe: "keeps w' w \<Longrightarrow> safe w' w"
  by (auto simp: keeps_def safe_def has_admin_roles)

lemma update_profile_other: "r \<in> set (profiles a) \<Longrightarrow> u_id r \<noteq> u \<Longrightarrow> r \<in> set (profiles (update_profile u f a))"
  by (auto simp: update_profile_def set_update_where)

lemma other_rows:
  assumes "r \<in> set (profiles a)" and "u_id r \<noteq> u"
  shows "r \<in> set (profiles (snd (update_role u role a)))" "r \<in> set (profiles (snd (set_display_name u n a)))"
    "r \<in> set (profiles (snd (delete_user u a)))" "r \<in> set (profiles (snd (set_disabled fails now u d b a)))"
proof -
  show "r \<in> set (profiles (snd (update_role u role a)))" "r \<in> set (profiles (snd (set_display_name u n a)))"
    using update_profile_other [OF assms] by (simp_all add: update_role_def set_display_name_def Let_def)
  show "r \<in> set (profiles (snd (delete_user u a)))"
    using assms by (auto simp: delete_user_def Let_def t_delete_def split: option.splits)
  have tx: "r \<in> set (profiles a1)" if "disable_tx fails now u a = (res, a1)" for res a1
    using that assms
    by (auto simp: disable_tx_def Let_def update_profile_def set_update_where split: if_splits prod.splits)
  have "profiles (after_disable now u b hit a1) = profiles a1" for hit a1 by (simp add: after_disable_def Let_def)
  with tx update_profile_other [OF assms] show "r \<in> set (profiles (snd (set_disabled fails now u d b a)))"
    by (auto simp: set_disabled_def Let_def split: prod.splits sum.splits)
qed

lemma sole_admin:
  assumes "distinct (map u_id (profiles a))" and "t \<in> set (profiles a)" and "active_admin t"
    and "\<And>r. r \<in> set (profiles a) \<Longrightarrow> active_admin r \<Longrightarrow> u_id r = u_id t"
  shows "count_admins a = 1"
proof -
  have "distinct (filter active_admin (profiles a))" using assms(1) by (simp add: distinct_map)
  moreover have "set (filter active_admin (profiles a)) = {t}"
    using assms by (auto simp: distinct_map inj_on_def)
  ultimately have "card {t} = length (filter active_admin (profiles a))" by (metis distinct_card)
  then show ?thesis by (simp add: count_admins_def)
qed

lemma locked_distinct: "locked iss used a \<Longrightarrow> distinct (map u_id (profiles a))"
proof -
  assume "locked iss used a"
  then have "distinct (map fst (skeleton a))" unfolding locked_def using lock_invD(1,2) by metis
  then show ?thesis by (simp add: skeleton_def comp_def)
qed

lemma patch_check_last:
  assumes "get_user_by_id u a = Some (target, v)" and "count_admins a = 1" and "active_admin target"
    and "patch_check c u body a = Inr t"
  shows "up_role body \<in> {None, Some (u_role target)} \<and> up_disabled body \<in> {None, Some (u_disabled target)}"
proof -
  have "u_role target = ''admin''" "\<not> u_disabled target" using assms(3) by (simp_all add: active_admin_def)
  with assms show ?thesis
    by (cases "up_role body"; cases "up_disabled body") (simp_all add: patch_check_def Let_def split: if_splits)
qed

lemma patch_apply_same:
  assumes "up_role body \<in> {None, Some (u_role target)} \<and> up_disabled body \<in> {None, Some (u_disabled target)}"
  shows "snd (patch_apply fails now c target body a) = a \<or>
    (\<exists>n. snd (patch_apply fails now c target body a) = snd (set_display_name (u_id target) (Some n) a))"
proof -
  define st3 where "st3 = (case up_display body of Some n \<Rightarrow> snd (set_display_name (u_id target) (Some n) a) | None \<Rightarrow> a)"
  have "up_role body = None \<or> up_role body = Some (u_role target)"
      "up_disabled body = None \<or> up_disabled body = Some (u_disabled target)" using assms by auto
  then have "patch_apply fails now c target body a =
      (case get_user_by_id (u_id target) st3 of None \<Rightarrow> (Inl (Http 500), st3) | Some x \<Rightarrow> (Inr x, st3))"
    unfolding st3_def by (elim disjE) (simp_all add: patch_apply_def Let_def)
  then have "snd (patch_apply fails now c target body a) = st3" by (simp split: option.split)
  then show ?thesis by (cases "up_display body") (auto simp: st3_def)
qed

lemma patch_admin:
  assumes "distinct (map u_id (profiles a))" and "has_admin a"
  shows "has_admin (snd (patch_user fails now c u body a))"
proof (cases "patch_check c u body a")
  case (Inl e)
  with assms show ?thesis by (simp add: patch_user_def)
next
  case (Inr target)
  then obtain v where t: "get_user_by_id u a = Some (target, v)"
    by (auto simp: patch_check_def Let_def split: option.splits if_splits)
  then have t_in: "target \<in> set (profiles a)" "u_id target = u" by (auto dest: get_user_row)
  show ?thesis
  proof (cases "\<exists>r \<in> set (profiles a). active_admin r \<and> u_id r \<noteq> u")
    case True
    then obtain r where r: "r \<in> set (profiles a)" "active_admin r" "u_id r \<noteq> u" by blast
    let ?a1 = "case up_role body of Some x \<Rightarrow> if x \<noteq> u_role target then snd (update_role (u_id target) x a) else a | None \<Rightarrow> a"
    have "r \<in> set (profiles ?a1)" using r other_rows(1) t_in(2) by (auto split: option.splits)
    moreover obtain a2 where a2: "a2 = ?a1 \<or> (\<exists>d. a2 = snd (set_disabled fails now (u_id target) d (Some c) ?a1))"
        "snd (patch_apply fails now c target body a) = a2 \<or>
         (\<exists>n. snd (patch_apply fails now c target body a) = snd (set_display_name (u_id target) (Some n) a2))"
      using patch_apply_acct [where fails = fails and now = now and c = c and target = target and body = body and a = a] by blast
    ultimately have "r \<in> set (profiles a2)" using other_rows(4) [of r ?a1 u] r(3) unfolding t_in(2) by blast
    with a2(2) r(3) have "r \<in> set (profiles (snd (patch_apply fails now c target body a)))"
      using other_rows(2) [of r a2 u] unfolding t_in(2) by auto
    with r(2) Inr show ?thesis by (auto simp: has_admin_def list_ex_iff patch_user_def)
  next
    case False
    with assms(2) t_in have adm: "active_admin target"
      using assms(1) by (auto simp: has_admin_def list_ex_iff distinct_map inj_on_def)
    have "count_admins a = 1" using sole_admin [OF assms(1) t_in(1) adm] False t_in(2) by auto
    from patch_check_last [OF t this adm Inr] have "snd (patch_apply fails now c target body a) = a \<or>
        (\<exists>n. snd (patch_apply fails now c target body a) = snd (set_display_name (u_id target) (Some n) a))"
      by (intro patch_apply_same)
    then have "roles (snd (patch_apply fails now c target body a)) = roles a"
      using set_display_name_calm by (auto simp: calm_def)
    with Inr assms(2) show ?thesis by (simp add: patch_user_def has_admin_roles)
  qed
qed

lemma delete_admin:
  assumes "distinct (map u_id (profiles a))" and "has_admin a"
  shows "has_admin (snd (delete_user_route c u a))"
proof (cases "snd (delete_user_route c u a) = a")
  case True
  with assms show ?thesis by simp
next
  case False
  then obtain target v where t: "get_user_by_id u a = Some (target, v)" "\<not> (active_admin target \<and> count_admins a = 1)"
      "snd (delete_user_route c u a) = snd (delete_user u a)"
    by (auto simp: delete_user_route_def split: option.splits if_splits)
  then have t_in: "target \<in> set (profiles a)" "u_id target = u" by (auto dest: get_user_row)
  have "\<exists>r \<in> set (profiles a). active_admin r \<and> u_id r \<noteq> u"
  proof (rule ccontr)
    assume no: "\<not> ?thesis"
    with assms t_in have adm: "active_admin target" by (auto simp: has_admin_def list_ex_iff distinct_map inj_on_def)
    have "count_admins a = 1" using sole_admin [OF assms(1) t_in(1) adm] no t_in(2) by auto
    with t(2) adm show False by simp
  qed
  then obtain r where "r \<in> set (profiles (snd (delete_user u a)))" "active_admin r" using other_rows(3) by blast
  then show ?thesis by (auto simp: t(3) has_admin_def list_ex_iff)
qed

subsection \<open>The machine keeps both\<close>

lemma set_auth_roles [simp]: "roles (a\<lparr>auth := x\<rparr>) = roles a" "skeleton (a\<lparr>auth := x\<rparr>) = skeleton a"
    "has_admin (a\<lparr>auth := x\<rparr>) = has_admin a"
  by (simp_all add: roles_def skeleton_def has_admin_def)

lemma with_user_safe:
  assumes "service_good (ge_cfg (re_gate env)) w"
    and "\<And>ctx w1. locked (issued w1) (used_ids w1) (the_acct w1) \<Longrightarrow> uc_user ctx \<in> set (used_ids w1) \<Longrightarrow>
      (uc_user ctx, True) \<notin> set (skeleton (the_acct w1)) \<Longrightarrow> used_ids w1 = used_ids w \<Longrightarrow> safe (k ctx w1) w1"
  shows "safe (with_user env ok now header k w) w"
proof (rule with_user_cases [OF assms(1), of ok now header k])
  fix a1
  assume "with_user env ok now header k w = set_auth a1 w" "locked (issued w) (used_ids w) ((the_acct w)\<lparr>auth := a1\<rparr>)"
  then show ?thesis by (simp add: safe_def)
next
  fix ctx a1
  assume "with_user env ok now header k w = k ctx (set_auth a1 w)" "locked (issued w) (used_ids w) ((the_acct w)\<lparr>auth := a1\<rparr>)"
    "uc_user ctx \<in> set (used_ids w)" "(uc_user ctx, True) \<notin> set (skeleton (the_acct w))"
  with assms(2) [of "set_auth a1 w" ctx] show ?thesis by (simp add: safe_def)
qed

lemma as_admin_safe:
  assumes "service_good (ge_cfg (re_gate env)) w"
    and "\<And>c w1. locked (issued w1) (used_ids w1) (the_acct w1) \<Longrightarrow> used_ids w1 = used_ids w \<Longrightarrow> safe (k c w1) w1"
  shows "safe (as_admin env ok now header k w) w"
  unfolding as_admin_def
proof (rule with_user_safe [OF assms(1)])
  show "safe (case require_admin True ctx of Inr c \<Rightarrow> k (uc_user c) w1 | Inl _ \<Rightarrow> w1) w1"
    if "locked (issued w1) (used_ids w1) (the_acct w1)" "used_ids w1 = used_ids w" for ctx w1
    using assms(2) that by (auto simp: safe_def split: sum.splits)
qed

lemma on_acct_safe:
  assumes "locked (issued w) (used_ids w) (f (the_acct w))" and "has_admin (the_acct w) \<Longrightarrow> has_admin (f (the_acct w))"
  shows "safe (on_acct f w) w"
  using assms by (simp add: safe_def)

lemma on_acct_calm: "locked (issued w) (used_ids w) (the_acct w) \<Longrightarrow> calm (f (the_acct w)) (the_acct w) \<Longrightarrow> safe (on_acct f w) w"
  by (rule on_acct_safe) (auto simp: calm_locked calm_def has_admin_roles)

lemma claim_safe:
  assumes "locked (issued w) (ae_new_id (re_acct env) # used_ids w) (f (the_acct w))" and "\<exists>xs. roles (f (the_acct w)) = roles (the_acct w) @ xs"
  shows "safe (claim_id env (on_acct f w)) w"
proof -
  have "the_acct (claim_id env (on_acct f w)) = f (the_acct w)" by (simp add: claim_id_def the_acct_def on_acct_def)
  with assms show ?thesis by (auto simp: safe_def claim_id_def has_admin_roles)
qed

lemma on_house_safe:
  assumes "locked (issued w) (used_ids w) (the_acct w)" and "calm (acct (f (house w))) (the_acct w)"
  shows "safe (on_house f w) w"
  using assms by (auto simp: safe_def on_house_def the_acct_def intro: calm_locked) (auto simp: calm_def has_admin_roles)

lemma invite_calm:
  "calm (acct (snd (mint_invite env now ttl role shared u h))) (acct h)" "calm (acct (snd (revoke_invite now i u h))) (acct h)"
proof -
  have e: "calm (acct (emit_invite_audit x u i r h')) (acct h)" if "acct h' = acct h" for x u i r h'
    using that by (simp add: emit_invite_audit_def calm_def roles_def)
  show "calm (acct (snd (revoke_invite now i u h))) (acct h)" by (simp add: revoke_invite_def e)
  have "acct st1 = acct h"
    if "mint_loop n (mint_invite_attempt env now ex role shared u) k h = Inr (res, st1)" for n k res st1 ex
  proof -
    from mint_loop_Inr [OF that]
    obtain j where "mint_invite_attempt env now ex role shared u j h = Inr (res, st1)" by blast
    then show ?thesis
      by (auto simp: mint_invite_attempt_def insert_invite_def Let_def split: prod.splits sum.splits if_splits)
  qed
  then show "calm (acct (snd (mint_invite env now ttl role shared u h))) (acct h)"
    by (auto simp: mint_invite_def e split: sum.splits prod.splits)
qed

lemma serve_with_safe:
  assumes "service_good (ge_cfg (re_gate (request_env rq))) w"
  shows "safe (serve_with w rq) w"
proof -
  have inv: "locked (issued w) (used_ids w) (the_acct w)" using assms by (simp add: service_good_def)
  have id: "safe w w" using inv by (simp add: safe_def)
  show ?thesis
  proof (cases rq)
    case (RLogin env now ip ua email pw)
    with assms show ?thesis by (auto intro: keeps_safe login_keeps)
  next
    case (RRefresh env now cookie)
    with assms show ?thesis by (auto intro: keeps_safe refresh_keeps)
  next
    case (RLogout env now cookie)
    with assms show ?thesis by (auto intro: keeps_safe logout_keeps)
  next
    case (RMcp env ok write_ok now header)
    with assms show ?thesis by (auto intro: keeps_safe gate_keeps)
  next
    case (RAccess env ok now header queued written throttle)
    with assms show ?thesis by (auto intro!: with_user_safe on_acct_calm touch_calm)
  next
    case (RMintToken env ok now header body)
    with assms show ?thesis
      by (auto intro!: with_user_safe on_acct_safe mint_my_token_locked(1) simp: has_admin_roles mint_my_token_locked(2))
  next
    case (RRevokeToken env ok now header tid)
    with assms show ?thesis by (auto intro!: with_user_safe on_acct_calm revoke_token_calm)
  next
    case (RChangePassword env fails ok now header cur pw)
    with assms show ?thesis
      by (auto intro!: with_user_safe on_acct_safe change_password_locked(1) simp: has_admin_roles change_password_locked(2))
  next
    case (RCreate env ok now header email pw role)
    show ?thesis
    proof (cases "fresh_id env w")
      case True
      have "safe (claim_id env (on_acct (\<lambda>a. snd (create_user_route env now email pw role a)) w1)) w1"
        if "locked (issued w1) (used_ids w1) (the_acct w1)" "used_ids w1 = used_ids w" for w1
        using create_user_locked [OF that(1), of "re_acct env" now email pw role True] True that(2)
        by (intro claim_safe) (auto simp: create_route_acct fresh_id_def)
      with RCreate True assms show ?thesis by (auto intro!: as_admin_safe)
    qed (use RCreate id in simp)
  next
    case (RPatch env fails ok now header u body)
    with assms show ?thesis by (auto intro!: as_admin_safe on_acct_safe patch_locked patch_admin intro: locked_distinct)
  next
    case (RDelete env ok now header u)
    with assms show ?thesis by (auto intro!: as_admin_safe on_acct_safe delete_route_locked delete_admin intro: locked_distinct)
  next
    case (RReset env fails ok now header u pw)
    with assms show ?thesis
      by (auto intro!: as_admin_safe on_acct_safe change_password_locked(3) simp: has_admin_roles change_password_locked(4))
  next
    case (RRevokeSession env ok now header u sid)
    with assms show ?thesis by (auto intro!: as_admin_safe on_acct_calm revoke_session_route_calm)
  next
    case (RRevokeUserToken env ok now header u tid)
    with assms show ?thesis by (auto intro!: as_admin_safe on_acct_calm revoke_token_calm)
  next
    case (RMintInvite env ok now header role shared)
    with assms show ?thesis by (auto intro!: as_admin_safe on_house_safe simp: the_acct_def invite_calm)
  next
    case (RRevokeInvite env ok now header i)
    with assms show ?thesis by (auto intro!: as_admin_safe on_house_safe simp: the_acct_def invite_calm)
  next
    case (RPeek env now ip tok)
    have "keeps (snd (peek_invite_route env now ip tok w)) w"
      by (rule keeps_frame [OF inv])
         (auto simp: peek_invite_route_def Let_def case_prod_unfold split: sum.splits option.splits)
    with RPeek show ?thesis by (simp add: keeps_safe)
  next
    case (RRedeem env fails now ip ua tok email pw)
    show ?thesis
    proof (cases "fresh_id env w")
      case True
      with RRedeem assms show ?thesis by (auto intro: keeps_safe redeem_route_keeps simp: fresh_id_def)
    qed (use RRedeem id in simp)
  next
    case (RBootstrap env now e p f q)
    show ?thesis
    proof (cases "fresh_id env w")
      case True
      have "safe (claim_id env (on_acct (\<lambda>a. snd (bootstrap_if_empty (re_acct env) now e p f q a)) w)) w"
        using bootstrap_acct [of "re_acct env" now e p f q "the_acct w"]
      proof
        assume "snd (bootstrap_if_empty (re_acct env) now e p f q (the_acct w)) = the_acct w"
        then show ?thesis using locked_more_ids [OF inv] by (intro claim_safe) auto
      next
        assume "\<exists>addr pw. snd (bootstrap_if_empty (re_acct env) now e p f q (the_acct w)) =
          snd (create_user (re_acct env) now addr pw ''admin'' True (the_acct w))"
        then show ?thesis using create_user_locked [OF inv] True by (intro claim_safe) (auto simp: fresh_id_def)
      qed
      with RBootstrap True show ?thesis by simp
    qed (use RBootstrap id in simp)
  qed
qed

lemma serve_good: "service_good cfg w \<Longrightarrow> service_good cfg (serve cfg w rq)"
  using serve_with_safe [of rq w] by (auto simp: serve_def service_good_def safe_def)

interpretation service_runs: event_machine "serve cfg" "service_good cfg" for cfg
  by unfold_locales (rule serve_good)

interpretation admin_runs: event_machine "serve cfg" "\<lambda>w. service_good cfg w \<and> has_admin (the_acct w)" for cfg
proof unfold_locales
  fix w rq assume "service_good cfg w \<and> has_admin (the_acct w)"
  then show "service_good cfg (serve cfg w rq) \<and> has_admin (the_acct (serve cfg w rq))"
    using serve_good [of cfg w rq] serve_with_safe [of rq w] by (auto simp: serve_def safe_def)
qed

subsection \<open>Properties\<close>

lemma disabled_in_skeleton: "r \<in> set (profiles a) \<Longrightarrow> u_disabled r \<Longrightarrow> (u_id r, True) \<in> set (skeleton a)"
  by (force simp: skeleton_def)

lemma locked_out:
  assumes "locked iss used a" and "r \<in> set (profiles a)" and "u_disabled r"
  shows "s \<in> set (sessions (auth a)) \<Longrightarrow> as_user s = u_id r \<Longrightarrow> as_revoked s \<noteq> None"
    and "t \<in> set (mcp_rows (mcp a)) \<Longrightarrow> mt_user t = u_id r \<Longrightarrow> \<not> mcp_live t"
    and "verify_credentials env email pw a = Inr (Some (q, v)) \<Longrightarrow> u_id q \<noteq> u_id r"
proof -
  note i = lock_invD [OF assms(1) [unfolded locked_def]]
  note dis = disabled_in_skeleton [OF assms(2,3)]
  show "s \<in> set (sessions (auth a)) \<Longrightarrow> as_user s = u_id r \<Longrightarrow> as_revoked s \<noteq> None"
    using i(5) [OF dis] by (force simp: active_users_def)
  show "t \<in> set (mcp_rows (mcp a)) \<Longrightarrow> mt_user t = u_id r \<Longrightarrow> \<not> mcp_live t"
    using i(5) [OF dis] by (force simp: token_owners_def)
  assume "verify_credentials env email pw a = Inr (Some (q, v))"
  then have "get_user_by_email email a = Some (q, v)" "\<not> u_disabled q"
    by (auto simp: verify_credentials_def split: option.splits prod.splits if_splits verify_outcome.splits)
  then have "q \<in> set (profiles a)" by (auto simp: get_user_by_email_def row_to_internal_def dest!: find_member)
  then have "(u_id q, True) \<notin> set (skeleton a)" using profile_version(2) [OF assms(1)] \<open>\<not> u_disabled q\<close> by blast
  with dis show "u_id q \<noteq> u_id r" by metis
qed

lemma access_not_disabled:
  assumes "service_good (ge_cfg (re_gate env)) w"
    and "fst (authenticate (live_gate env w) ok now ''/api/v1/me'' header (auth (the_acct w))) = Inr (Some ctx)"
  shows "(uc_user ctx, True) \<notin> set (skeleton (the_acct w))"
proof -
  have inv: "locked (issued w) (used_ids w) (the_acct w)" "ac_enabled (ge_cfg (re_gate env))"
    using assms(1) by (simp_all add: service_good_def)
  obtain a1 where au: "authenticate (live_gate env w) ok now ''/api/v1/me'' header (auth (the_acct w)) = (Inr (Some ctx), a1)"
    using assms(2) by (metis prod.collapse)
  from authenticate_effect [OF au] inv(2)
  obtain p where "p \<in> set (issued w)" "jwt_revocation_failure_reason (ge_cfg (re_gate env)) ok now p (auth (the_acct w)) = (None, a1)"
      "map_of p ''sub'' = Some (JStr (uc_user ctx))"
    by (auto dest: find_member)
  from accepted_not_disabled(1) [OF inv(1) this(1) inv(2) this(2,3)] show ?thesis .
qed

text \<open>
  C5. A disabled account is locked out everywhere. After any sequence of requests (logins,
  rotations, MCP calls, token and invite operations, administration), handled one after the
  other by the process that keeps the caches, an account whose profile is disabled has no
  session that is not revoked and no live MCP token, its credentials do not sign in, no
  presented MCP token and no access token issued so far identifies it. For access tokens the code is
  stricter than three places of the repository say, which let an issued one live until it
  expires (see the findings): the request gate asks for the session and the token version each time.
\<close>

theorem disabled_users_are_locked_out:
  assumes "service_good cfg w0" and "w = foldl (serve cfg) w0 rqs"
    and "r \<in> set (profiles (the_acct w))" and "u_disabled r"
  shows "(\<forall>s \<in> set (sessions (auth (the_acct w))). as_user s = u_id r \<longrightarrow> as_revoked s \<noteq> None) \<and>
    (\<forall>t \<in> set (mcp_rows (mcp (the_acct w))). mt_user t = u_id r \<longrightarrow> \<not> mcp_live t) \<and>
    (\<forall>env email pw q v. verify_credentials env email pw (the_acct w) = Inr (Some (q, v)) \<longrightarrow> u_id q \<noteq> u_id r) \<and>
    (\<forall>env ok write_ok now token t. fst (mcp_verify env ok write_ok now token (mcp (the_acct w))) = Inr (Some t) \<longrightarrow>
       mt_user t \<noteq> u_id r) \<and>
    (\<forall>env ok now header ctx. ge_cfg (re_gate env) = cfg \<longrightarrow>
       fst (authenticate (live_gate env w) ok now ''/api/v1/me'' header (auth (the_acct w))) = Inr (Some ctx) \<longrightarrow>
       uc_user ctx \<noteq> u_id r)"
proof (intro conjI ballI allI impI)
  have good: "service_good cfg w" unfolding assms(2) by (rule service_runs.run_good [OF assms(1)])
  then have inv: "locked (issued w) (used_ids w) (the_acct w)" by (simp add: service_good_def)
  note out = locked_out [OF inv assms(3,4)]
  show "as_revoked s \<noteq> None" if "s \<in> set (sessions (auth (the_acct w)))" "as_user s = u_id r" for s
    using out(1) that .
  show dead: "\<not> mcp_live t" if "t \<in> set (mcp_rows (mcp (the_acct w)))" "mt_user t = u_id r" for t
    using out(2) that .
  show "u_id q \<noteq> u_id r" if "verify_credentials env email pw (the_acct w) = Inr (Some (q, v))" for env email pw q v
    using out(3) that .
  show "mt_user t \<noteq> u_id r"
    if "fst (mcp_verify env ok write_ok now token (mcp (the_acct w))) = Inr (Some t)" for env ok write_ok now token t
  proof (cases rule: mcp_verify_cases [of env ok write_ok now token "mcp (the_acct w)"])
    case (miss e)
    with that show ?thesis by auto
  next
    case (hit row prefix)
    with that have "t = row" by simp
    moreover have "row \<in> set (mcp_rows (mcp (the_acct w)))" "mcp_live row"
      using hit(4) by (auto dest: find_member simp: find_Some_iff)
    ultimately show ?thesis using dead by blast
  qed
  show "uc_user ctx \<noteq> u_id r"
    if "ge_cfg (re_gate env) = cfg"
      "fst (authenticate (live_gate env w) ok now ''/api/v1/me'' header (auth (the_acct w))) = Inr (Some ctx)" for env ok now header ctx
    using access_not_disabled [of env w ok now header ctx] good that disabled_in_skeleton [OF assms(3,4)] by metis
qed

text \<open>A household from its first start to the day Bob is disabled.\<close>

definition strict_cfg :: auth_config where
  "strict_cfg = \<lparr>ac_enabled = True, ac_require_tv = True, ac_tv_ttl = 30, ac_require_sid = True, ac_sid_ttl = 30\<rparr>"

definition sample_encode :: "json_obj \<Rightarrow> string" where
  "sample_encode p = (case map_of p ''sub'' of Some (JStr s) \<Rightarrow> s | _ \<Rightarrow> [])"

definition sample_route_env :: "string \<Rightarrow> string \<Rightarrow> route_env" where
  "sample_route_env uid sid = \<lparr>re_acct = sample_acct_env\<lparr>ae_new_id := uid\<rparr>, re_bearer = sample_bearer_env,
     re_gate = \<lparr>ge_cfg = strict_cfg, ge_shared = [], ge_jwt = (\<lambda>_. None), ge_str = (\<lambda>j. case j of JStr s \<Rightarrow> s | _ \<Rightarrow> [])\<rparr>,
     re_token = \<lparr>te_hash = id, te_mint = (\<lambda>u s. u @ s)\<rparr>, re_encode = sample_encode, re_refresh_jwt = (\<lambda>_. None),
     re_access_ttl = 900, re_refresh_ttl = 3600, re_invite_ttl = 3600, re_session_id = sid, re_fresh_salt = ''salt'',
     re_fingerprint = (\<lambda>s t. s @ t), re_stamp = ''now''\<rparr>"

definition new_service :: service where
  "new_service = \<lparr>house = \<lparr>acct = empty_acct, invites = []\<rparr>, login_limiter = fresh_limiter, redeem_limiter = fresh_limiter,
     peek_store = (\<lambda>_. []), issued = [], used_ids = []\<rparr>"

lemma new_service_good: "service_good strict_cfg new_service"
  by (simp add: service_good_def strict_cfg_def new_service_def locked_def lock_inv_def the_acct_def empty_acct_def
      skeleton_def active_users_def token_owners_def fresh_auth_def no_tokens_def)

definition first_day :: "request list" where
  "first_day =
    [RBootstrap (sample_route_env ''u1'' ''s1'') 0 (Some ''ann@x'') None (\<lambda>_. OpenFails) (Some ''correct horse''),
     RLogin (sample_route_env ''u2'' ''s1'') 1 ''ip'' ''ua'' ''ann@x'' ''correct horse'',
     RCreate (sample_route_env ''u2'' ''s2'') True 2 ''Bearer u1'' ''bob@x'' ''battery staple'' ''user'',
     RLogin (sample_route_env ''u3'' ''s2'') 3 ''ip'' ''ua'' ''bob@x'' ''battery staple'',
     RMintToken (sample_route_env ''u3'' ''s3'') True 4 ''Bearer u2'' [(''label'', JStr ''laptop'')],
     RPatch (sample_route_env ''u3'' ''s3'') None True 5 ''Bearer u1'' ''u2'' \<lparr>up_role = None, up_disabled = Some True, up_display = None\<rparr>,
     RLogin (sample_route_env ''u3'' ''s3'') 6 ''ip'' ''ua'' ''bob@x'' ''battery staple'']"

definition after_first_day :: service where
  "after_first_day = foldl (serve strict_cfg) new_service first_day"

lemma first_day_rows: "map (\<lambda>r. (u_id r, u_disabled r)) (profiles (the_acct after_first_day)) = [(''u1'', False), (''u2'', True)]
   \<and> map mt_user (mcp_rows (mcp (the_acct after_first_day))) = [''u2'']
   \<and> map as_user (sessions (auth (the_acct after_first_day))) = [''u1'', ''u2'']"
  by code_simp

lemma bob_is_disabled:
  obtains r where "r \<in> set (profiles (the_acct after_first_day))" "u_disabled r" "u_id r = ''u2''"
proof -
  have "(''u2'', True) \<in> set (map (\<lambda>r. (u_id r, u_disabled r)) (profiles (the_acct after_first_day)))"
    using first_day_rows by simp
  then show ?thesis using that by auto
qed

theorem disabled_users_are_locked_out_witness:
  "\<not> list_ex (\<lambda>s. as_user s = ''u2'' \<and> as_revoked s = None) (sessions (auth (the_acct after_first_day))) \<and>
   \<not> list_ex (\<lambda>t. mt_user t = ''u2'' \<and> mcp_live t) (mcp_rows (mcp (the_acct after_first_day)))"
proof (rule bob_is_disabled)
  fix r assume "r \<in> set (profiles (the_acct after_first_day))" "u_disabled r" "u_id r = ''u2''"
  with disabled_users_are_locked_out [OF new_service_good after_first_day_def, of r] show ?thesis
    by (simp add: list_ex_iff)
qed

text \<open>
  C6. An active administrator remains. If the household has an administrator who is not
  disabled, it has one after any sequence of requests handled one after the other, whatever
  roles are changed and whichever accounts are disabled, deleted, created or redeemed.
\<close>

theorem an_active_admin_remains:
  assumes "service_good cfg w0" and "list_ex active_admin (profiles (the_acct w0))"
  shows "list_ex active_admin (profiles (the_acct (foldl (serve cfg) w0 rqs)))"
  using admin_runs.run_good [of cfg w0 rqs] assms by (simp add: has_admin_def)

definition revolt :: "request list" where
  "revolt =
    [RPatch (sample_route_env ''u3'' ''s3'') None True 7 ''Bearer u1'' ''u1'' \<lparr>up_role = Some ''user'', up_disabled = None, up_display = None\<rparr>,
     RDelete (sample_route_env ''u3'' ''s3'') True 8 ''Bearer u1'' ''u1'']"

theorem an_active_admin_remains_witness:
  "list_ex active_admin (profiles (the_acct (foldl (serve strict_cfg) after_first_day revolt)))"
proof (rule an_active_admin_remains)
  show "service_good strict_cfg after_first_day"
    unfolding after_first_day_def by (rule service_runs.run_good [OF new_service_good])
  show "list_ex active_admin (profiles (the_acct after_first_day))" by code_simp
qed

subsection \<open>What the routes do not guarantee\<close>

text \<open>
  The guard of a patch reads the number of administrators before the change, without a lock:
  two administrators who demote each other at the same time both pass it.
\<close>

definition two_admins :: acct_state where
  "two_admins = empty_acct\<lparr>auth := fresh_auth [(''u1'', 1), (''u2'', 1)],
     profiles := [new_profile 0 ''u1'' ''ann@x'' ''#a'' ''admin'' True, new_profile 0 ''u2'' ''bob@x'' ''#b'' ''admin'' True]\<rparr>"

definition demote :: user_patch where
  "demote = \<lparr>up_role = Some ''user'', up_disabled = None, up_display = None\<rparr>"

theorem concurrent_demotions_leave_no_admin:
  "\<exists>t1 t2. patch_check ''u2'' ''u1'' demote two_admins = Inr t1 \<and> patch_check ''u1'' ''u2'' demote two_admins = Inr t2 \<and>
     count_admins (snd (patch_apply None 2 ''u1'' t2 demote (snd (patch_apply None 1 ''u2'' t1 demote two_admins)))) = 0"
proof (intro exI conjI)
  show "patch_check ''u2'' ''u1'' demote two_admins = Inr (new_profile 0 ''u1'' ''ann@x'' ''#a'' ''admin'' True)"
    "patch_check ''u1'' ''u2'' demote two_admins = Inr (new_profile 0 ''u2'' ''bob@x'' ''#b'' ''admin'' True)"
    by code_simp+
  show "count_admins (snd (patch_apply None 2 ''u1'' (new_profile 0 ''u2'' ''bob@x'' ''#b'' ''admin'' True) demote
     (snd (patch_apply None 1 ''u2'' (new_profile 0 ''u1'' ''ann@x'' ''#a'' ''admin'' True) demote two_admins)))) = 0"
    by code_simp
qed

text \<open>Deleting an account, unlike disabling it, leaves its MCP tokens live.\<close>

lemma deleted_users_token_still_works:
  "fst (mcp_verify env ok write_ok now token (mcp (snd (delete_user u a)))) = fst (mcp_verify env ok write_ok now token (mcp a))"
  by (simp add: delete_user_def Let_def split: option.split)

text \<open>The role travels in the access token: a demotion neither revokes a session nor ends a token.\<close>

lemma demotion_keeps_tokens:
  "auth (snd (update_role u role a)) = auth a" "mcp (snd (update_role u role a)) = mcp a"
  by (simp_all add: update_role_def Let_def frame)

end
