(* ===== verification/PullJobs.thy ===== *)
theory PullJobs
  imports Prelude
begin

section \<open>Pulling a model: a job table with one worker\<close>

text \<open>
  Models \<open>services/ollama_pull_jobs.py\<close>, \<open>iter_pull_progress\<close> of \<open>ollama_client.py\<close>,
  \<open>validate_model_name\<close> of \<open>services/admin_ollama.py\<close> and \<open>try_activate_embedding\<close>: the table of
  jobs, the background worker that streams a pull, and the routes that start and poll it.
  Statements outside a transaction commit one by one; \<open>fails k\<close> tells whether statement \<open>k\<close> of a
  call raises. \<open>json.loads\<close>, \<open>str\<close> and the texts of exceptions are parameters, and the quotient of
  the progress is exact (floats are, for sizes below two to the power 45).
\<close>

datatype pull_status = Pending | Running | Succeeded | Failed

record pull_job =
  pj_id :: string
  pj_model :: string
  pj_status :: pull_status
  pj_pct :: "int option"
  pj_note :: "string option"
  pj_error :: "string option"
  pj_warning :: "string option"
  pj_created :: instant
  pj_started :: "instant option"
  pj_finished :: "instant option"

datatype pull_error = JobAlreadyRunning | PullDbFailed

definition hour :: int where
  "hour = 3600 * 1000000"

definition retention_hours :: "string option \<Rightarrow> int" where
  "retention_hours raw = (case py_int (case raw of None \<Rightarrow> ''24'' | Some s \<Rightarrow> s) of None \<Rightarrow> 24 | Some n \<Rightarrow> max 1 n)"

definition terminal :: "pull_job \<Rightarrow> bool" where
  "terminal r = (pj_status r = Succeeded \<or> pj_status r = Failed)"

definition active_job :: "pull_job \<Rightarrow> bool" where
  "active_job r = (pj_status r = Pending \<or> pj_status r = Running)"

definition purge_terminal_rows :: "int \<Rightarrow> instant \<Rightarrow> pull_job list \<Rightarrow> pull_job list" where
  "purge_terminal_rows hours now tbl =
     filter (\<lambda>r. \<not> (terminal r \<and> (case pj_finished r of None \<Rightarrow> False | Some t \<Rightarrow> t < now - hours * hour))) tbl"

definition stale :: "instant \<Rightarrow> pull_job \<Rightarrow> bool" where
  "stale now r = (pj_status r = Running \<and> (case pj_started r of None \<Rightarrow> False | Some t \<Rightarrow> t < now - 2 * hour))"

definition mark_stale_running_failed :: "instant \<Rightarrow> pull_job list \<Rightarrow> pull_job list" where
  "mark_stale_running_failed now tbl = update_where (stale now)
     (\<lambda>r. r\<lparr>pj_status := Failed, pj_error := Some ''stale (orchestrator restart?)'', pj_finished := Some now\<rparr>) tbl"

definition new_pull_job :: "instant \<Rightarrow> string \<Rightarrow> string \<Rightarrow> pull_job" where
  "new_pull_job now i name = \<lparr>pj_id = i, pj_model = name, pj_status = Pending, pj_pct = None, pj_note = None, pj_error = None,
     pj_warning = None, pj_created = now, pj_started = None, pj_finished = None\<rparr>"

text \<open>Four statements: purge, mark, look, insert.\<close>

definition create_job ::
  "(nat \<Rightarrow> bool) \<Rightarrow> int \<Rightarrow> instant \<Rightarrow> string \<Rightarrow> string \<Rightarrow> pull_job list \<Rightarrow> (pull_error + string) \<times> pull_job list" where
  "create_job fails hours now i name tbl =
     (if fails 0 then (Inl PullDbFailed, tbl)
      else let t1 = purge_terminal_rows hours now tbl in
        if fails 1 then (Inl PullDbFailed, t1)
        else let t2 = mark_stale_running_failed now t1 in
          if fails 2 then (Inl PullDbFailed, t2)
          else if list_ex active_job t2 then (Inl JobAlreadyRunning, t2)
          else if fails 3 \<or> i \<in> pj_id ` set t2 then (Inl PullDbFailed, t2)
          else (Inr i, t2 @ [new_pull_job now i name]))"

definition get_job :: "string \<Rightarrow> pull_job list \<Rightarrow> pull_job option" where
  "get_job i tbl = t_find pj_id i tbl"

definition get_active_job :: "pull_job list \<Rightarrow> pull_job option" where
  "get_active_job tbl = least_by (\<lambda>r. - pj_created r) (filter active_job tbl)"

definition set_running :: "instant \<Rightarrow> string \<Rightarrow> pull_job list \<Rightarrow> pull_job list" where
  "set_running now i = update_where (\<lambda>r. pj_id r = i) (\<lambda>r. r\<lparr>pj_status := Running, pj_started := Some now\<rparr>)"

text \<open>\<open>(text or "")[:n] or None\<close>.\<close>

definition clipped :: "nat \<Rightarrow> string option \<Rightarrow> string option" where
  "clipped n t = (let s = take n (case t of None \<Rightarrow> [] | Some s \<Rightarrow> s) in if s = [] then None else Some s)"

definition update_progress :: "string \<Rightarrow> int option \<Rightarrow> string option \<Rightarrow> pull_job list \<Rightarrow> pull_job list" where
  "update_progress i pct note = update_where (\<lambda>r. pj_id r = i) (\<lambda>r. r\<lparr>pj_pct := pct, pj_note := clipped 500 note\<rparr>)"

definition finish_job ::
  "instant \<Rightarrow> string \<Rightarrow> pull_status \<Rightarrow> string option \<Rightarrow> string option \<Rightarrow> pull_job list \<Rightarrow> pull_job list" where
  "finish_job now i st err warning = update_where (\<lambda>r. pj_id r = i)
     (\<lambda>r. r\<lparr>pj_status := st, pj_error := clipped 1000 err, pj_warning := warning, pj_finished := Some now\<rparr>)"

subsection \<open>The stream of a pull\<close>

record pull_env =
  pe_loads :: "string \<Rightarrow> json option"
  pe_str :: "json \<Rightarrow> string"
  pe_bad_json :: "string \<Rightarrow> string"
  pe_db_msg :: string
  pe_embed :: "string option"

record pull_event =
  pv_status :: string
  pv_completed :: "int option"
  pv_total :: "int option"
  pv_pct :: "int option"

text \<open>\<open>isinstance(x, int)\<close>: a Boolean is an integer.\<close>

definition as_int :: "json option \<Rightarrow> int option" where
  "as_int v = (case v of Some (JInt n) \<Rightarrow> Some n | Some (JBool b) \<Rightarrow> Some (if b then 1 else 0) | _ \<Rightarrow> None)"

text \<open>\<open>round(a / b)\<close> for a positive \<open>b\<close>: to the nearest integer, ties to the even one.\<close>

definition py_round_quotient :: "int \<Rightarrow> int \<Rightarrow> int" where
  "py_round_quotient a b = (let q = a div b; r = a mod b in
     if 2 * r < b then q else if 2 * r > b then q + 1 else if even q then q else q + 1)"

definition progress_pct :: "int option \<Rightarrow> int option \<Rightarrow> int option" where
  "progress_pct tot completed = (case (tot, completed) of
     (Some t, Some c) \<Rightarrow> if t > 0 then Some (min 100 (max 0 (py_round_quotient (100 * c) t))) else None
   | _ \<Rightarrow> None)"

definition pull_event_of :: "pull_env \<Rightarrow> json_obj \<Rightarrow> pull_event" where
  "pull_event_of env d =
     (let tot = as_int (map_of d ''total''); completed = as_int (map_of d ''completed'') in
      \<lparr>pv_status = (case map_of d ''status'' of Some j \<Rightarrow> if json_truthy j then pe_str env j else ''pulling'' | None \<Rightarrow> ''pulling''),
       pv_completed = completed, pv_total = tot, pv_pct = progress_pct tot completed\<rparr>)"

text \<open>
  The events yielded, and the text of the exception that ends the iteration. A stream is the
  lines received and the exception of the transport that ended it, if any.
\<close>

fun pull_lines :: "pull_env \<Rightarrow> string list \<Rightarrow> pull_event list \<times> string option" where
  "pull_lines env [] = ([], None)"
| "pull_lines env (line # ls) =
     (if line = [] then pull_lines env ls
      else case pe_loads env line of
        None \<Rightarrow> ([], Some (''Invalid Ollama pull JSON: '' @ pe_bad_json env line))
      | Some (JObj d) \<Rightarrow>
          (case map_of d ''error'' of
             Some j \<Rightarrow> if json_truthy j then ([], Some (pe_str env j))
                       else (case pull_lines env ls of (es, e) \<Rightarrow> (pull_event_of env d # es, e))
           | None \<Rightarrow> (case pull_lines env ls of (es, e) \<Rightarrow> (pull_event_of env d # es, e)))
      | Some _ \<Rightarrow> pull_lines env ls)"

definition iter_pull_progress :: "pull_env \<Rightarrow> string list \<times> string option \<Rightarrow> pull_event list \<times> string option" where
  "iter_pull_progress env stream =
     (case pull_lines env (fst stream) of (es, e) \<Rightarrow> (es, if e = None then snd stream else e))"

subsection \<open>The worker\<close>

definition should_write :: "instant \<Rightarrow> int option \<Rightarrow> instant \<Rightarrow> int option \<Rightarrow> bool" where
  "should_write last_write last_pct now pct =
     (now - last_write \<ge> 1000000 \<or>
      (case (pct, last_pct) of (Some p, Some l) \<Rightarrow> \<bar>p - l\<bar> \<ge> 1 | (Some _, None) \<Rightarrow> True | (None, _) \<Rightarrow> False))"

text \<open>
  The loop over the events; \<open>clock k\<close> is the monotonic clock at event \<open>k\<close>. The result tells
  whether a write failed, and the number of the next statement.
\<close>

fun write_progress ::
  "(nat \<Rightarrow> bool) \<Rightarrow> (nat \<Rightarrow> instant) \<Rightarrow> string \<Rightarrow> nat \<Rightarrow> nat \<Rightarrow> instant \<Rightarrow> int option \<Rightarrow> pull_event list \<Rightarrow> pull_job list
    \<Rightarrow> bool \<times> nat \<times> pull_job list" where
  "write_progress fails clock i k stmt last_write last_pct [] tbl = (False, stmt, tbl)"
| "write_progress fails clock i k stmt last_write last_pct (e # es) tbl =
     (if should_write last_write last_pct (clock k) (pv_pct e) then
        (if fails stmt then (True, Suc stmt, tbl)
         else write_progress fails clock i (Suc k) (Suc stmt) (clock k) (pv_pct e) es
                (update_progress i (pv_pct e) (Some (pv_status e)) tbl))
      else write_progress fails clock i (Suc k) stmt last_write last_pct es tbl)"

datatype ping = PingOk | PingNo | PingRaises string

text \<open>\<open>try_activate_embedding\<close>: the flag, the embedder, and whether the collections can be made.\<close>

definition try_activate_embedding :: "bool \<Rightarrow> ping \<Rightarrow> bool \<Rightarrow> (string + bool) \<times> bool" where
  "try_activate_embedding ready p init_ok =
     (if ready then (Inr True, ready)
      else case p of
        PingRaises e \<Rightarrow> (Inl e, ready)
      | PingNo \<Rightarrow> (Inr False, ready)
      | PingOk \<Rightarrow> if init_ok then (Inr True, True) else (Inr False, ready))"

definition base_name :: "string \<Rightarrow> string" where
  "base_name s = hd (split_on (CHR '':'') s)"

definition qdrant_init_warning_msg :: string where
  "qdrant_init_warning_msg = ''Qdrant collections could not be initialized after pull. Restart the orchestrator to retry.''"

text \<open>\<open>sync\<close> is the exception of the LibreChat synchronisation, if it raises.\<close>

definition finalize_ollama_pull ::
  "pull_env \<Rightarrow> string option \<Rightarrow> ping \<Rightarrow> bool \<Rightarrow> string \<Rightarrow> bool \<Rightarrow> (string + string option) \<times> bool" where
  "finalize_ollama_pull env sync p init_ok name ready =
     (case sync of
        Some e \<Rightarrow> (Inl e, ready)
      | None \<Rightarrow>
          if base_name name \<noteq> base_name (case pe_embed env of None \<Rightarrow> ''nomic-embed-text'' | Some m \<Rightarrow> m) then (Inr None, ready)
          else (case try_activate_embedding ready p init_ok of
                  (Inl e, r) \<Rightarrow> (Inl e, r)
                | (Inr ok, r) \<Rightarrow> (Inr (if ok then None else Some qdrant_init_warning_msg), r)))"

text \<open>
  \<open>run_pull_job\<close>: statement 0 reads the row, 1 marks it running; a failing write of the result
  is caught once more and the job marked failed; if that fails too, the row stays as it is.
\<close>

definition run_pull_job ::
  "pull_env \<Rightarrow> (nat \<Rightarrow> bool) \<Rightarrow> (nat \<Rightarrow> instant) \<Rightarrow> instant \<Rightarrow> instant \<Rightarrow> string list \<times> string option
    \<Rightarrow> string option \<Rightarrow> ping \<Rightarrow> bool \<Rightarrow> string \<Rightarrow> pull_job list \<times> bool \<Rightarrow> pull_job list \<times> bool" where
  "run_pull_job env fails clock now later stream sync p init_ok i st =
     (case st of (tbl, ready) \<Rightarrow>
        if fails 0 then (tbl, ready)
        else case get_job i tbl of
          None \<Rightarrow> (tbl, ready)
        | Some row \<Rightarrow>
            if fails 1 then (tbl, ready)
            else
              let t1 = set_running now i tbl;
                  (es, err) = iter_pull_progress env stream;
                  (broken, k, t2) = write_progress fails clock i 0 2 0 None es t1;
                  fail = (\<lambda>k msg t. if fails k then t else finish_job later i Failed (Some msg) None t)
              in if broken then (fail k (pe_db_msg env) t2, ready)
                 else case err of
                   Some msg \<Rightarrow> (fail k msg t2, ready)
                 | None \<Rightarrow>
                     (case finalize_ollama_pull env sync p init_ok (pj_model row) ready of
                        (Inl msg, r) \<Rightarrow> (fail k msg t2, r)
                      | (Inr warning, r) \<Rightarrow>
                          if fails k then (fail (Suc k) (pe_db_msg env) t2, r)
                          else (finish_job later i Succeeded None warning t2, r)))"

subsection \<open>The routes\<close>

definition model_name_char :: "char \<Rightarrow> bool" where
  "model_name_char c = (is_lower_letter (lower_char c) \<or> is_digit c \<or> c \<in> set ''_-.:'')"

definition validate_model_name :: "string \<Rightarrow> string option" where
  "validate_model_name name = (let s = py_strip name in if s \<noteq> [] \<and> list_all model_name_char s then Some s else None)"

text \<open>The table, the workers that are queued, and the ones that have started.\<close>

record pulls =
  pl_table :: "pull_job list"
  pl_queued :: "string list"
  pl_started :: "string list"

definition ollama_pull_async ::
  "(nat \<Rightarrow> bool) \<Rightarrow> string option \<Rightarrow> instant \<Rightarrow> string \<Rightarrow> string \<Rightarrow> pulls \<Rightarrow> (nat + string) \<times> pulls" where
  "ollama_pull_async fails retention now i name s =
     (case validate_model_name name of
        None \<Rightarrow> (Inl 400, s)
      | Some model \<Rightarrow>
          (case create_job fails (retention_hours retention) now i model (pl_table s) of
             (Inl JobAlreadyRunning, t) \<Rightarrow> (Inl 409, s\<lparr>pl_table := t\<rparr>)
           | (Inl PullDbFailed, t) \<Rightarrow> (Inl 502, s\<lparr>pl_table := t\<rparr>)
           | (Inr j, t) \<Rightarrow> (Inr j, s\<lparr>pl_table := t, pl_queued := pl_queued s @ [j]\<rparr>)))"

definition opt_int :: "int option \<Rightarrow> json" where
  "opt_int x = (case x of None \<Rightarrow> JNull | Some n \<Rightarrow> JInt n)"

definition status_text :: "pull_status \<Rightarrow> string" where
  "status_text s = (case s of Pending \<Rightarrow> ''pending'' | Running \<Rightarrow> ''running'' | Succeeded \<Rightarrow> ''succeeded'' | Failed \<Rightarrow> ''failed'')"

definition job_to_response :: "(instant \<Rightarrow> string) \<Rightarrow> pull_job \<Rightarrow> json_obj" where
  "job_to_response show_time r =
     [(''job_id'', JStr (pj_id r)), (''model_name'', JStr (pj_model r)), (''status'', JStr (status_text (pj_status r))),
      (''progress_pct'', opt_int (pj_pct r)), (''status_message'', opt_str (pj_note r)), (''error_message'', opt_str (pj_error r)),
      (''qdrant_init_warning'', opt_str (pj_warning r)), (''created_at'', JStr (show_time (pj_created r))),
      (''started_at'', opt_str (map_option show_time (pj_started r))), (''finished_at'', opt_str (map_option show_time (pj_finished r)))]"

definition ollama_pull_job_active :: "(instant \<Rightarrow> string) \<Rightarrow> pulls \<Rightarrow> json_obj" where
  "ollama_pull_job_active show_time s =
     [(''job'', case get_active_job (pl_table s) of None \<Rightarrow> JNull | Some r \<Rightarrow> JObj (job_to_response show_time r))]"

definition ollama_pull_job_get :: "(instant \<Rightarrow> string) \<Rightarrow> string \<Rightarrow> pulls \<Rightarrow> nat + json_obj" where
  "ollama_pull_job_get show_time i s =
     (case get_job i (pl_table s) of None \<Rightarrow> Inl 404 | Some r \<Rightarrow> Inr (job_to_response show_time r))"

subsection \<open>The machine\<close>

text \<open>
  Requests and the steps of the workers, in any order; \<open>Restart\<close> loses every worker. A new id is not
  the id of a worker that still runs (\<open>gen_random_uuid\<close>).
\<close>

datatype pull_step =
    StartPull "nat \<Rightarrow> bool" "string option" instant string string
  | WorkerStarts instant string
  | WorkerWrites string "int option" string
  | WorkerEnds instant string pull_status "string option" "string option"
  | Restart

fun pull_apply :: "pulls \<Rightarrow> pull_step \<Rightarrow> pulls" where
  "pull_apply s (StartPull fails retention now i name) =
     (if i \<in> set (pl_started s) then s else snd (ollama_pull_async fails retention now i name s))"
| "pull_apply s (WorkerStarts now i) =
     (if i \<in> set (pl_queued s)
      then s\<lparr>pl_table := set_running now i (pl_table s), pl_queued := remove1 i (pl_queued s), pl_started := i # pl_started s\<rparr>
      else s)"
| "pull_apply s (WorkerWrites i pct msg) =
     (if i \<in> set (pl_started s) then s\<lparr>pl_table := update_progress i pct (Some msg) (pl_table s)\<rparr> else s)"
| "pull_apply s (WorkerEnds now i st err warning) =
     (if i \<in> set (pl_started s) \<and> (st = Succeeded \<or> st = Failed)
      then s\<lparr>pl_table := finish_job now i st err warning (pl_table s), pl_started := remove1 i (pl_started s)\<rparr> else s)"
| "pull_apply s Restart = s\<lparr>pl_queued := [], pl_started := []\<rparr>"

definition pulls_good :: "pulls \<Rightarrow> bool" where
  "pulls_good s \<longleftrightarrow> distinct (map pj_id (pl_table s)) \<and> length (filter active_job (pl_table s)) \<le> 1 \<and>
     distinct (pl_queued s) \<and> set (pl_started s) \<inter> set (pl_queued s) = {} \<and>
     (\<forall>i \<in> set (pl_queued s). \<exists>r \<in> set (pl_table s). pj_id r = i \<and> pj_status r = Pending)"


lemma update_map: "update_where p f rows = map (\<lambda>r. if p r then f r else r) rows"
  by (induction rows) auto

lemma active_map_le:
  "(\<And>r. r \<in> set rows \<Longrightarrow> active_job (f r) \<Longrightarrow> active_job r) \<Longrightarrow>
    length (filter active_job (map f rows)) \<le> length (filter active_job rows)"
  by (induction rows) auto

lemma active_update_le:
  "(\<And>r. r \<in> set rows \<Longrightarrow> p r \<Longrightarrow> active_job (f r) \<Longrightarrow> active_job r) \<Longrightarrow>
    length (filter active_job (update_where p f rows)) \<le> length (filter active_job rows)"
  unfolding update_map by (rule active_map_le) (auto split: if_splits)

lemma step_frames:
  "map pj_id (set_running now i tbl) = map pj_id tbl" "map pj_id (update_progress i pct note tbl) = map pj_id tbl"
  "map pj_id (finish_job now i st err w tbl) = map pj_id tbl" "map pj_id (mark_stale_running_failed now tbl) = map pj_id tbl"
  by (simp_all add: set_running_def update_progress_def finish_job_def mark_stale_running_failed_def map_key_update_where)

text \<open>What the three first statements of \<open>create_job\<close> do to the table, and what the last adds.\<close>

definition swept :: "pull_job list \<Rightarrow> pull_job list \<Rightarrow> bool" where
  "swept t' t \<longleftrightarrow> length (filter active_job t') \<le> length (filter active_job t) \<and>
     (distinct (map pj_id t) \<longrightarrow> distinct (map pj_id t')) \<and>
     (\<forall>r \<in> set t. pj_status r = Pending \<longrightarrow> r \<in> set t')"

lemma swept_refl [simp]: "swept t t"
  by (simp add: swept_def)

lemma swept_trans: "swept c b \<Longrightarrow> swept b a \<Longrightarrow> swept c a"
  by (auto simp: swept_def)

lemma filtered_rows:
  "length (filter active_job (filter q t)) \<le> length (filter active_job t)"
  "distinct (map pj_id t) \<Longrightarrow> distinct (map pj_id (filter q t))"
  by (induction t) auto

lemma purge_swept: "swept (purge_terminal_rows hours now t) t"
  unfolding swept_def purge_terminal_rows_def by (auto simp: filtered_rows terminal_def simp del: filter_filter)

lemma mark_swept: "swept (mark_stale_running_failed now t) t"
proof -
  have "length (filter active_job (mark_stale_running_failed now t)) \<le> length (filter active_job t)"
    unfolding mark_stale_running_failed_def by (rule active_update_le) (simp add: active_job_def)
  moreover have "r \<in> set (mark_stale_running_failed now t)" if "r \<in> set t" "pj_status r = Pending" for r
    using that by (auto simp: mark_stale_running_failed_def set_update_where stale_def)
  ultimately show ?thesis by (simp add: swept_def step_frames)
qed

lemma create_job_cases:
  obtains (refused) e t where "create_job fails hours now i name tbl = (Inl e, t)" "swept t tbl"
  | (created) t where "create_job fails hours now i name tbl = (Inr i, t @ [new_pull_job now i name])" "swept t tbl"
      "\<not> list_ex active_job t" "i \<notin> pj_id ` set t"
proof -
  define t1 where "t1 = purge_terminal_rows hours now tbl"
  define t2 where "t2 = mark_stale_running_failed now t1"
  have s: "swept tbl tbl" "swept t1 tbl" "swept t2 tbl"
    using swept_trans [OF mark_swept purge_swept] purge_swept by (simp_all add: t1_def t2_def)
  have eq: "create_job fails hours now i name tbl =
     (if fails 0 then (Inl PullDbFailed, tbl) else if fails 1 then (Inl PullDbFailed, t1) else if fails 2 then (Inl PullDbFailed, t2)
      else if list_ex active_job t2 then (Inl JobAlreadyRunning, t2)
      else if fails 3 \<or> i \<in> pj_id ` set t2 then (Inl PullDbFailed, t2) else (Inr i, t2 @ [new_pull_job now i name]))"
    by (simp add: create_job_def Let_def t1_def t2_def)
  show ?thesis
  proof (cases "fails 0 \<or> fails 1 \<or> fails 2 \<or> list_ex active_job t2 \<or> fails 3 \<or> i \<in> pj_id ` set t2")
    case True
    with s refused eq show ?thesis by (cases "fails 0"; cases "fails 1"; cases "fails 2"; cases "list_ex active_job t2") simp_all
  next
    case False
    with created [of t2] s(3) eq show ?thesis by simp
  qed
qed

lemma start_pull_good:
  assumes "pulls_good s" and "i \<notin> set (pl_started s)"
  shows "pulls_good (snd (ollama_pull_async fails retention now i name s))"
proof (cases "validate_model_name name")
  case None
  with assms(1) show ?thesis by (simp add: ollama_pull_async_def)
next
  case (Some model)
  have kept: "pulls_good (s\<lparr>pl_table := t\<rparr>)" if "swept t (pl_table s)" for t
    using assms(1) that unfolding pulls_good_def swept_def by fastforce
  show ?thesis
  proof (cases rule: create_job_cases [of fails "retention_hours retention" now i model "pl_table s"])
    case (refused e t)
    with Some kept show ?thesis by (cases e) (simp_all add: ollama_pull_async_def)
  next
    case (created t)
    have g: "distinct (map pj_id t)" "\<forall>j \<in> set (pl_queued s). \<exists>r \<in> set t. pj_id r = j \<and> pj_status r = Pending"
      "distinct (pl_queued s)" "set (pl_started s) \<inter> set (pl_queued s) = {}"
      using kept [OF created(2)] by (simp_all add: pulls_good_def)
    have "filter active_job t = []" using created(3) by (auto simp: filter_empty_conv list_ex_iff)
    moreover have "i \<notin> set (pl_queued s)" using g(2) created(4) by auto
    ultimately show ?thesis
      using Some created(1,4) g assms(2) by (auto simp: ollama_pull_async_def pulls_good_def new_pull_job_def active_job_def)
  qed
qed

lemma finish_active: "st = Succeeded \<or> st = Failed \<Longrightarrow>
    length (filter active_job (finish_job now i st err w tbl)) \<le> length (filter active_job tbl)"
  unfolding finish_job_def by (rule active_update_le) (auto simp: active_job_def)

lemma progress_active: "length (filter active_job (update_progress i pct note tbl)) \<le> length (filter active_job tbl)"
  unfolding update_progress_def by (rule active_update_le) (simp add: active_job_def)

lemma other_rows_kept:
  "(\<And>r. p r \<Longrightarrow> pj_id r \<noteq> j) \<Longrightarrow> (\<exists>r \<in> set t. pj_id r = j \<and> pj_status r = Pending) \<Longrightarrow>
    \<exists>r \<in> set (update_where p f t). pj_id r = j \<and> pj_status r = Pending"
  by (auto simp: set_update_where)

lemma pull_step_good: "pulls_good s \<Longrightarrow> pulls_good (pull_apply s e)"
proof (induction s e rule: pull_apply.induct)
  case (1 s fails retention now i name)
  then show ?case by (simp add: start_pull_good)
next
  case (2 s now i)
  show ?case
  proof (cases "i \<in> set (pl_queued s)")
    case True
    note g = 2 [unfolded pulls_good_def]
    with True obtain r where r: "r \<in> set (pl_table s)" "pj_id r = i" "pj_status r = Pending" by blast
    have "length (filter active_job (set_running now i (pl_table s))) \<le> length (filter active_job (pl_table s))"
      unfolding set_running_def
    proof (rule active_update_le)
      fix x assume "x \<in> set (pl_table s)" "pj_id x = i"
      with r g have "x = r" by (auto simp: distinct_map inj_on_def)
      with r(3) show "active_job x" by (simp add: active_job_def)
    qed
    moreover have "\<exists>r \<in> set (set_running now i (pl_table s)). pj_id r = j \<and> pj_status r = Pending"
      if "j \<in> set (remove1 i (pl_queued s))" for j
      unfolding set_running_def using g that by (intro other_rows_kept) auto
    ultimately show ?thesis using True g by (auto simp: pulls_good_def step_frames)
  qed (use 2 in simp)
next
  case (3 s i pct msg)
  have "\<exists>r \<in> set (update_progress i pct (Some msg) (pl_table s)). pj_id r = j \<and> pj_status r = Pending"
    if "i \<in> set (pl_started s)" "j \<in> set (pl_queued s)" for j
    unfolding update_progress_def using 3 that by (intro other_rows_kept) (auto simp: pulls_good_def)
  with 3 progress_active [of i pct "Some msg" "pl_table s"] show ?case by (auto simp: pulls_good_def step_frames)
next
  case (4 s now i st err w)
  have "\<exists>r \<in> set (finish_job now i st err w (pl_table s)). pj_id r = j \<and> pj_status r = Pending"
    if "i \<in> set (pl_started s)" "j \<in> set (pl_queued s)" for j
    unfolding finish_job_def using 4 that by (intro other_rows_kept) (auto simp: pulls_good_def)
  with 4 finish_active [of st now i err w "pl_table s"] show ?case
    by (auto simp: pulls_good_def step_frames dest: set_remove1_subset [THEN subsetD])
next
  case (5 s)
  then show ?case by (simp add: pulls_good_def)
qed

interpretation pull_runs: event_machine pull_apply pulls_good
  by unfold_locales (rule pull_step_good)

subsection \<open>What the worker leaves behind\<close>

text \<open>Only the row of the job changed, and it is finished or runs since the worker started.\<close>

definition worked :: "instant \<Rightarrow> string \<Rightarrow> pull_job list \<Rightarrow> pull_job list \<Rightarrow> bool" where
  "worked now i = list_all2 (\<lambda>r r'. pj_id r' = pj_id r \<and>
     (if pj_id r = i then pj_status r' = Running \<and> pj_started r' = Some now \<or> terminal r' else r' = r))"

lemma worked_update:
  assumes "worked now i t t1"
    and "\<And>r'. pj_id (f r') = pj_id r'"
    and "\<And>r'. pj_status r' = Running \<and> pj_started r' = Some now \<or> terminal r' \<Longrightarrow>
      pj_status (f r') = Running \<and> pj_started (f r') = Some now \<or> terminal (f r')"
  shows "worked now i t (update_where (\<lambda>r. pj_id r = i) f t1)"
  using assms(1) unfolding worked_def update_map list_all2_map2
  by (rule list_all2_mono) (use assms(2,3) in \<open>auto split: if_splits\<close>)

lemma worked_start: "worked now i t (set_running now i t)"
  by (auto simp: worked_def set_running_def update_map list_all2_map2 intro: list_all2_refl list.rel_refl)

lemma worked_progress: "worked now i t t1 \<Longrightarrow> worked now i t (update_progress i pct msg t1)"
  unfolding update_progress_def by (rule worked_update) (auto simp: terminal_def)

lemma worked_finish: "worked now i t t1 \<Longrightarrow> st = Succeeded \<or> st = Failed \<Longrightarrow> worked now i t (finish_job later i st err w t1)"
  unfolding finish_job_def by (rule worked_update) (auto simp: terminal_def)

lemma worked_writes:
  "worked now i t t1 \<Longrightarrow> worked now i t (snd (snd (write_progress fails clock i k stmt lw lp es t1)))"
  by (induction fails clock i k stmt lw lp es t1 rule: write_progress.induct) (auto intro: worked_progress)

lemma writes_unbroken: "(\<And>k. \<not> fails k) \<Longrightarrow> \<not> fst (write_progress fails clock i k stmt lw lp es t1)"
  by (induction fails clock i k stmt lw lp es t1 rule: write_progress.induct) auto

lemma run_pull_job_worked:
  assumes "get_job i tbl = Some row" and "\<not> fails 0" and "\<not> fails 1"
  shows "worked now i tbl (fst (run_pull_job env fails clock now later stream sync p init_ok i (tbl, ready)))"
proof -
  obtain es err where st: "iter_pull_progress env stream = (es, err)" by fastforce
  obtain broken k t2 where w: "write_progress fails clock i 0 2 0 None es (set_running now i tbl) = (broken, k, t2)"
    by (metis prod_cases3)
  have t2: "worked now i tbl t2" using worked_writes [OF worked_start, of now i tbl fails clock 0 2 0 None es] w by simp
  note fin = worked_finish [OF t2, of Failed] worked_finish [OF t2, of Succeeded]
  obtain res r where "finalize_ollama_pull env sync p init_ok (pj_model row) ready = (res, r)" by fastforce
  with assms st w t2 fin show ?thesis by (simp add: run_pull_job_def split: option.split sum.split)
qed

lemma get_finished:
  "get_job i t = Some r \<Longrightarrow> st = Succeeded \<or> st = Failed \<Longrightarrow>
    \<exists>r'. get_job i (finish_job later i st err w t) = Some r' \<and> terminal r'"
  by (induction t) (auto simp: get_job_def finish_job_def t_find_Cons terminal_def split: if_splits)

lemma worked_get: "worked now i t t' \<Longrightarrow> get_job i t = Some r \<Longrightarrow> \<exists>r'. get_job i t' = Some r'"
  unfolding worked_def get_job_def
  by (induction t t' arbitrary: r rule: list_all2_induct) (auto simp: t_find_Cons split: if_splits)

lemma worked_ids: "worked now i t t' \<Longrightarrow> map pj_id t' = map pj_id t"
  unfolding worked_def by (induction rule: list_all2_induct) simp_all

lemma worked_row:
  "worked now i t t' \<Longrightarrow> r' \<in> set t' \<Longrightarrow> \<exists>r \<in> set t. pj_id r' = pj_id r \<and>
    (if pj_id r = i then pj_status r' = Running \<and> pj_started r' = Some now \<or> terminal r' else r' = r)"
  unfolding worked_def by (induction rule: list_all2_induct) (auto split: if_splits)

lemma run_pull_job_finishes:
  assumes "get_job i tbl = Some row" and "\<And>k. \<not> fails k"
  shows "\<exists>r. get_job i (fst (run_pull_job env fails clock now later stream sync p init_ok i (tbl, ready))) = Some r \<and> terminal r"
proof -
  obtain es err where st: "iter_pull_progress env stream = (es, err)" by fastforce
  obtain broken k t2 where w: "write_progress fails clock i 0 2 0 None es (set_running now i tbl) = (broken, k, t2)"
    by (metis prod_cases3)
  have "worked now i tbl t2" using worked_writes [OF worked_start, of now i tbl fails clock 0 2 0 None es] w by simp
  then obtain r2 where r2: "get_job i t2 = Some r2" using worked_get assms(1) by blast
  have "\<not> fst (write_progress fails clock i 0 2 0 None es (set_running now i tbl))" by (rule writes_unbroken) (rule assms(2))
  then have "\<not> broken" by (simp add: w)
  have no: "fails k = False" for k using assms(2) by simp
  have run: "run_pull_job env fails clock now later stream sync p init_ok i (tbl, ready) =
      (case err of Some msg \<Rightarrow> (finish_job later i Failed (Some msg) None t2, ready)
       | None \<Rightarrow> (case finalize_ollama_pull env sync p init_ok (pj_model row) ready of
           (Inl msg, r) \<Rightarrow> (finish_job later i Failed (Some msg) None t2, r)
         | (Inr warning, r) \<Rightarrow> (finish_job later i Succeeded None warning t2, r)))"
    by (simp add: run_pull_job_def no assms(1) st w \<open>\<not> broken\<close> split: option.split sum.split prod.split)
  obtain res rd where fin: "finalize_ollama_pull env sync p init_ok (pj_model row) ready = (res, rd)" by fastforce
  have f: "\<exists>r. get_job i (finish_job later i Failed e v t2) = Some r \<and> terminal r"
      "\<exists>r. get_job i (finish_job later i Succeeded e v t2) = Some r \<and> terminal r" for e v
    using get_finished [OF r2] by simp_all
  show ?thesis
  proof (cases err)
    case None
    with f show ?thesis by (cases res) (simp_all add: run fin)
  next
    case (Some msg)
    with f show ?thesis by (simp add: run)
  qed
qed

lemma released_slot:
  assumes "worked now i tbl t'" and "\<forall>r \<in> set tbl. active_job r \<longrightarrow> pj_id r = i" and "now + 2 * hour < at"
  shows "\<not> list_ex active_job (mark_stale_running_failed at (purge_terminal_rows hours at t'))"
proof -
  have "active_job r' \<Longrightarrow> stale at r'" if "r' \<in> set t'" for r'
  proof -
    assume act: "active_job r'"
    from worked_row [OF assms(1) that] obtain r where r: "r \<in> set tbl" "pj_id r' = pj_id r"
        "if pj_id r = i then pj_status r' = Running \<and> pj_started r' = Some now \<or> terminal r' else r' = r"
      by blast
    with act assms(2) have "pj_status r' = Running \<and> pj_started r' = Some now"
      by (auto simp: active_job_def terminal_def split: if_splits)
    with assms(3) show "stale at r'" by (simp add: stale_def)
  qed
  then show ?thesis
    by (auto simp: list_ex_iff mark_stale_running_failed_def purge_terminal_rows_def set_update_where active_job_def)
qed

subsection \<open>Properties\<close>

text \<open>
  C30. The slot of a pull is always given back. For a worker queued after any sequence of
  requests, worker steps and restarts: once its two first statements succeed, then whatever the
  stream of the pull, the exceptions of the finalisation and the failing statements, a new
  pull can be started later than two hours after it began; and if no statement fails, its job
  ends as succeeded or failed.
\<close>

theorem pull_slot_is_released:
  assumes "pulls_good s0" and "s = foldl pull_apply s0 es" and "i \<in> set (pl_queued s)"
    and "\<not> fails 0" and "\<not> fails 1" and "now + 2 * hour < at" and "j \<notin> pj_id ` set (pl_table s)"
    and "t' = fst (run_pull_job env fails clock now later stream sync p init_ok i (pl_table s, ready))"
  shows "fst (create_job (\<lambda>_. False) hours at j name t') = Inr j \<and>
    ((\<forall>k. \<not> fails k) \<longrightarrow> (\<exists>r. get_job i t' = Some r \<and> (pj_status r = Succeeded \<or> pj_status r = Failed)))"
proof -
  have good: "pulls_good s" unfolding assms(2) by (rule pull_runs.run_good [OF assms(1)])
  with assms(3) obtain r where r: "r \<in> set (pl_table s)" "pj_id r = i" "pj_status r = Pending"
    by (auto simp: pulls_good_def)
  have d: "distinct (map pj_id (pl_table s))" "length (filter active_job (pl_table s)) \<le> 1"
    using good by (simp_all add: pulls_good_def)
  have "r \<in> set (filter active_job (pl_table s))" using r by (simp add: active_job_def)
  with d(2) have "filter active_job (pl_table s) = [r]" by (cases "filter active_job (pl_table s)") auto
  then have "set (filter active_job (pl_table s)) = {r}" by simp
  then have only: "\<forall>q \<in> set (pl_table s). active_job q \<longrightarrow> pj_id q = i" using r(2) by auto
  obtain row where row: "get_job i (pl_table s) = Some row"
    using r(1,2) t_find_None [of pj_id i "pl_table s"] by (cases "get_job i (pl_table s)") (auto simp: get_job_def)
  have w: "worked now i (pl_table s) t'" unfolding assms(8) using run_pull_job_worked [OF row assms(4,5)] .
  then have "pj_id ` set t' = pj_id ` set (pl_table s)" using worked_ids by (metis list.set_map)
  then have "j \<notin> pj_id ` set (mark_stale_running_failed at (purge_terminal_rows hours at t'))"
    using assms(7) by (auto simp: mark_stale_running_failed_def purge_terminal_rows_def set_update_where)
  then have "fst (create_job (\<lambda>_. False) hours at j name t') = Inr j"
    using released_slot [OF w only assms(6)] by (simp add: create_job_def Let_def)
  then show ?thesis using run_pull_job_finishes [OF row] by (auto simp: assms(8) terminal_def)
qed

definition plain_env :: pull_env where
  "plain_env = \<lparr>pe_loads = (\<lambda>_. Some (JObj [])), pe_str = (\<lambda>_. ''?''), pe_bad_json = id, pe_db_msg = ''db'', pe_embed = None\<rparr>"

definition no_pulls :: pulls where
  "no_pulls = \<lparr>pl_table = [], pl_queued = [], pl_started = []\<rparr>"

definition one_pull :: pulls where
  "one_pull = \<lparr>pl_table = [new_pull_job 0 ''j1'' ''m''], pl_queued = [''j1''], pl_started = []\<rparr>"

lemma no_pulls_good: "pulls_good no_pulls"
  by (simp add: pulls_good_def no_pulls_def)

lemma first_pull: "one_pull = foldl pull_apply no_pulls [StartPull (\<lambda>_. False) None 0 ''j1'' ''m'']"
  by code_simp

theorem pull_slot_is_released_witness:
  "fst (create_job (\<lambda>_. False) 24 (3 * hour) ''j2'' ''m''
      (fst (run_pull_job plain_env (\<lambda>k. k = 3) (\<lambda>_. 5) 1 2 ([''{}''], None) None PingNo False ''j1'' (pl_table one_pull, False)))) = Inr ''j2''"
proof -
  have a: "''j1'' \<in> set (pl_queued one_pull)" "''j2'' \<notin> pj_id ` set (pl_table one_pull)" "1 + 2 * hour < 3 * hour"
    by (simp_all add: one_pull_def new_pull_job_def hour_def)
  show ?thesis
    by (rule conjunct1 [OF pull_slot_is_released [OF no_pulls_good first_pull a(1) _ _ a(3) a(2) refl, where fails = "\<lambda>k. k = 3"]])
      simp_all
qed

text \<open>
  One pull at a time: whatever requests, worker steps and restarts happen, one after the other,
  at most one job is pending or running.
\<close>

theorem one_pull_at_a_time:
  assumes "pulls_good s0"
  shows "length (filter active_job (pl_table (foldl pull_apply s0 es))) \<le> 1"
  using pull_runs.run_good [OF assms, of es] by (simp add: pulls_good_def)

text \<open>
  A job whose worker is lost before it starts is not released: only running jobs are marked as
  stale, so a restart between the request and the worker blocks every later pull.
\<close>

definition lost :: "pull_job \<Rightarrow> pulls \<Rightarrow> bool" where
  "lost r s \<longleftrightarrow> r \<in> set (pl_table s) \<and> pj_status r = Pending \<and> pl_queued s = [] \<and> pl_started s = []"

lemma lost_refuses:
  assumes "r \<in> set tbl" and "pj_status r = Pending"
  shows "\<exists>e. fst (create_job fails hours now i name tbl) = Inl e"
proof (cases rule: create_job_cases [of fails hours now i name tbl])
  case (created t)
  then have "r \<in> set t" "\<not> active_job r" using assms by (auto simp: swept_def list_ex_iff)
  with assms(2) show ?thesis by (simp add: active_job_def)
qed simp

lemma lost_step:
  assumes "lost r s" shows "lost r (pull_apply s e)"
proof (cases e)
  case (StartPull fails retention now i name)
  show ?thesis
  proof (cases "validate_model_name name")
    case None
    with assms StartPull show ?thesis by (simp add: ollama_pull_async_def)
  next
    case (Some model)
    obtain err t where "create_job fails (retention_hours retention) now i model (pl_table s) = (Inl err, t)" "swept t (pl_table s)"
      using create_job_cases [of fails "retention_hours retention" now i model "pl_table s"]
        lost_refuses [of r "pl_table s" fails "retention_hours retention" now i model] assms
      by (metis fst_conv lost_def sum.distinct(1))
    with assms StartPull Some show ?thesis by (cases err) (auto simp: lost_def ollama_pull_async_def swept_def)
  qed
qed (use assms in \<open>auto simp: lost_def\<close>)

interpretation lost_job: event_machine pull_apply "lost r" for r
  by unfold_locales (rule lost_step)

theorem a_lost_job_blocks_every_pull:
  assumes "r \<in> set (pl_table s)" and "pj_status r = Pending"
  shows "\<exists>e. fst (create_job fails hours now i name (pl_table (foldl pull_apply s (Restart # es)))) = Inl e"
proof -
  have "lost r (foldl pull_apply (pull_apply s Restart) es)"
    by (rule lost_job.run_good) (use assms in \<open>simp add: lost_def\<close>)
  then have "r \<in> set (pl_table (foldl pull_apply (pull_apply s Restart) es))" by (simp add: lost_def)
  from lost_refuses [OF this assms(2)] show ?thesis by simp
qed

text \<open>The progress that is shown is a percentage.\<close>

lemma progress_is_percentage: "progress_pct tot c = Some p \<Longrightarrow> 0 \<le> p \<and> p \<le> 100"
  by (auto simp: progress_pct_def split: option.splits if_splits)

end
