(* ===== verification/MediaStorage.thy ===== *)
theory MediaStorage
  imports Prelude
begin

section \<open>Media files: names, kinds and places\<close>

text \<open>
  Models \<open>services/media_storage.py\<close>: the allowlists of MIME types, the size limits, and the path
  of an attachment below the media root. A path is the list of its components; \<open>resolve\<close> stands
  for \<open>Path.resolve\<close>, which follows the links the file system happens to hold.
\<close>

type_synonym path = "string list"

datatype media_error = MimeNotAllowed string | FileTooLarge int

record media_config =
  mc_root :: path
  mc_resolve :: "path \<Rightarrow> path"
  mc_image_max :: int
  mc_audio_max :: int

subsection \<open>Kinds and sizes\<close>

definition image_mimes :: "string list" where
  "image_mimes = [''image/jpeg'', ''image/png'', ''image/webp'']"

definition audio_mimes :: "string list" where
  "audio_mimes = [''audio/webm'', ''audio/mp4'', ''audio/mpeg'', ''audio/wav'']"

definition classify_inbound_mime :: "string \<Rightarrow> media_error + string \<times> string" where
  "classify_inbound_mime mime =
     (let m = py_lower (py_strip mime) in
      if m \<in> set image_mimes then Inr (''image'', m)
      else if m \<in> set audio_mimes then Inr (''audio'', m)
      else Inl (MimeNotAllowed mime))"

definition mime_leaf :: "(string \<times> string) list" where
  "mime_leaf = [(''image/jpeg'', ''blob.jpg''), (''image/png'', ''blob.png''), (''image/webp'', ''blob.webp''),
     (''audio/webm'', ''blob.webm''), (''audio/mp4'', ''blob.m4a''), (''audio/mpeg'', ''blob.mp3''), (''audio/wav'', ''blob.wav'')]"

definition leaf_filename_for_mime :: "string \<Rightarrow> media_error + string" where
  "leaf_filename_for_mime m = (case map_of mime_leaf m of Some l \<Rightarrow> Inr l | None \<Rightarrow> Inl (MimeNotAllowed m))"

definition validate_attachment :: "media_config \<Rightarrow> string \<Rightarrow> int \<Rightarrow> string \<Rightarrow> media_error option" where
  "validate_attachment cfg mime nbytes kind =
     (let allow = (if kind = ''image'' then image_mimes else audio_mimes);
          limit = (if kind = ''image'' then mc_image_max cfg else mc_audio_max cfg)
      in if mime \<notin> set allow then Some (MimeNotAllowed mime)
         else if nbytes > limit then Some (FileTooLarge limit) else None)"

subsection \<open>Paths\<close>

text \<open>\<open>Path(s).parts\<close> without the root of an absolute path.\<close>

definition path_parts :: "string \<Rightarrow> path" where
  "path_parts s = filter (\<lambda>p. p \<noteq> [] \<and> p \<noteq> ''.'') (split_on (CHR ''/'') s)"

definition is_absolute :: "string \<Rightarrow> bool" where
  "is_absolute s = (take 1 s = ''/'')"

definition safe_component :: "string \<Rightarrow> bool" where
  "safe_component c = (py_strip c \<noteq> [] \<and> \<not> (is_absolute c \<or> ''..'' \<in> set (path_parts c)) \<and> length (path_parts c) = 1)"

definition is_relative_to :: "path \<Rightarrow> path \<Rightarrow> bool" where
  "is_relative_to p root = (take (length root) p = root)"

text \<open>\<open>strip().lstrip("/")\<close>, the parts, and the check after resolving; \<open>None\<close> is \<open>ValueError\<close>.\<close>

definition resolve_storage_key_file :: "media_config \<Rightarrow> string \<Rightarrow> path option" where
  "resolve_storage_key_file cfg storage_key =
     (let root = mc_resolve cfg (mc_root cfg);
          sk = dropWhile (\<lambda>c. c = CHR ''/'') (py_strip storage_key)
      in if sk = [] \<or> ''..'' \<in> set (path_parts sk) then None
         else let candidate = mc_resolve cfg (root @ path_parts sk)
              in if is_relative_to candidate root then Some candidate else None)"

definition safe_attachment_path :: "media_config \<Rightarrow> string \<Rightarrow> string \<Rightarrow> string \<Rightarrow> string \<Rightarrow> path option" where
  "safe_attachment_path cfg user_id capture_id attachment_id filename =
     (if \<not> (safe_component user_id \<and> safe_component capture_id \<and> safe_component attachment_id \<and> safe_component filename)
      then None
      else let root = mc_resolve cfg (mc_root cfg);
               candidate = mc_resolve cfg (root @ path_parts user_id @ path_parts capture_id @
                 path_parts attachment_id @ path_parts filename)
           in if is_relative_to candidate root then Some candidate else None)"

subsection \<open>Facts\<close>

lemma resolved_inside:
  "resolve_storage_key_file cfg k = Some p \<Longrightarrow> is_relative_to p (mc_resolve cfg (mc_root cfg))"
  "safe_attachment_path cfg u c a f = Some p \<Longrightarrow> is_relative_to p (mc_resolve cfg (mc_root cfg))"
  by (auto simp: resolve_storage_key_file_def safe_attachment_path_def Let_def split: if_splits)

lemma split_on_not_Nil: "split_on d x \<noteq> []"
  by (induction x) (auto split: list.split)

lemma split_on_join:
  "split_on d (x @ d # y) = split_on d x @ split_on d y"
proof (induction x)
  case (Cons c x)
  then show ?case using split_on_not_Nil [of d x] by (cases "split_on d x") auto
qed simp

lemma path_parts_join: "path_parts (x @ CHR ''/'' # y) = path_parts x @ path_parts y"
  by (simp add: path_parts_def split_on_join)

lemma classified:
  assumes "classify_inbound_mime mime = Inr (kind, m)"
  shows "kind = ''image'' \<and> m \<in> set image_mimes \<or> kind = ''audio'' \<and> m \<in> set audio_mimes"
    and "\<exists>leaf. leaf_filename_for_mime m = Inr leaf \<and> leaf \<in> snd ` set mime_leaf"
  using assms
  by (auto simp: classify_inbound_mime_def Let_def leaf_filename_for_mime_def mime_leaf_def image_mimes_def audio_mimes_def
      split: if_splits)

lemma leaf_cases: "leaf_filename_for_mime m = Inr leaf \<Longrightarrow> leaf \<in> snd ` set mime_leaf"
  by (auto simp: leaf_filename_for_mime_def split: option.splits dest: map_of_SomeD intro: rev_image_eqI)

lemma leaf_safe: "leaf \<in> snd ` set mime_leaf \<Longrightarrow> safe_component leaf \<and> path_parts leaf = [leaf]"
  by (auto simp: mime_leaf_def safe_component_def path_parts_def is_absolute_def py_strip_def py_lstrip_def py_rstrip_def
      py_space_def code_point_def)

text \<open>
  With plain identifiers (one component, no outer white space) the key that is stored leads
  back to the file that was written, whatever the links.
\<close>

definition plain_id :: "string \<Rightarrow> bool" where
  "plain_id s = (safe_component s \<and> path_parts s = [s] \<and> py_strip s = s)"

lemma py_strip_keeps:
  assumes "py_strip x = x" and "x \<noteq> []" and "py_strip y = y" and "y \<noteq> []"
  shows "py_strip (x @ m @ y) = x @ m @ y"
proof -
  have front: "dropWhile py_space z = z" if "py_strip z = z" for z
  proof (rule ccontr)
    assume "dropWhile py_space z \<noteq> z"
    then have "length (dropWhile py_space z) < length z"
      by (metis length_dropWhile_le le_neq_implies_less dropWhile_eq_self_iff append_Nil takeWhile_dropWhile_id length_append
          add_cancel_left_left length_0_conv)
    then have "length (py_strip z) < length z"
      using length_dropWhile_le [of py_space "rev (dropWhile py_space z)"]
      by (simp add: py_strip_def py_lstrip_def py_rstrip_def)
    with that show False by simp
  qed
  have hx: "\<not> py_space (hd x)" using front [OF assms(1)] assms(2) by (simp add: dropWhile_eq_self_iff)
  have "py_rstrip y = y"
  proof -
    have "py_rstrip (py_lstrip y) = y" "py_lstrip y = y"
      using assms(3) front [OF assms(3)]
      by (simp_all add: py_strip_def py_lstrip_def)
    then show ?thesis by simp
  qed
  then have hy: "\<not> py_space (last y)"
    using assms(4) by (simp add: py_rstrip_def) (metis dropWhile_eq_self_iff hd_rev rev_is_Nil_conv rev_swap)
  have "dropWhile py_space (x @ m @ y) = x @ m @ y" using hx assms(2) by (simp add: dropWhile_eq_self_iff)
  moreover have "dropWhile py_space (rev (x @ m @ y)) = rev (x @ m @ y)"
    using hy assms(4) by (simp add: dropWhile_eq_self_iff hd_append hd_rev)
  ultimately show ?thesis by (simp add: py_strip_def py_lstrip_def py_rstrip_def)
qed

theorem stored_key_leads_back:
  assumes "plain_id u" and "plain_id c" and "plain_id a" and "leaf \<in> snd ` set mime_leaf"
  shows "resolve_storage_key_file cfg (u @ ''/'' @ c @ ''/'' @ a @ ''/'' @ leaf) = safe_attachment_path cfg u c a leaf"
proof -
  let ?k = "u @ ''/'' @ c @ ''/'' @ a @ ''/'' @ leaf"
  note leaf = leaf_safe [OF assms(4)]
  have parts: "path_parts ?k = [u, c, a, leaf]"
    using assms leaf by (simp add: path_parts_join plain_id_def)
  have "py_strip leaf = leaf" using assms(4)
    by (auto simp: mime_leaf_def py_strip_def py_lstrip_def py_rstrip_def py_space_def code_point_def)
  moreover have "leaf \<noteq> []" "u \<noteq> []" using assms(4) assms(1) by (auto simp: mime_leaf_def plain_id_def path_parts_def)
  ultimately have strip: "py_strip ?k = ?k"
    using py_strip_keeps [of u leaf "''/'' @ c @ ''/'' @ a @ ''/''"] assms(1) by (simp add: plain_id_def)
  have "\<not> is_absolute u" using assms(1) by (simp add: plain_id_def safe_component_def)
  with \<open>u \<noteq> []\<close> have "dropWhile (\<lambda>c. c = CHR ''/'') ?k = ?k"
    by (cases u) (auto simp: is_absolute_def)
  moreover have "safe_component u" "safe_component c" "safe_component a" "''..'' \<notin> set (path_parts ?k)"
    using assms leaf parts by (auto simp: plain_id_def safe_component_def)
  ultimately show ?thesis
    using strip parts leaf assms \<open>u \<noteq> []\<close>
    by (simp add: resolve_storage_key_file_def safe_attachment_path_def Let_def plain_id_def)
qed

end
