(* ===== verification/Captures.thy ===== *)
theory Captures
  imports MediaStorage
begin

section \<open>Captures: from a draft to a note in memory\<close>

text \<open>
  Models \<open>services/captures.py\<close>, the handlers of \<open>routes/api_v1/captures.py\<close> and the part of
  \<open>services/speech_to_text.py\<close> they call. The state holds the three tables, the notes, the
  \<open>conversations\<close> collection of the vector store, and the media files. \<open>pg_uuid\<close> is the cast
  \<open>::uuid\<close> of the database, which raises where it gives nothing; point ids, the embedder, the
  speech adapter and SHA-256 are parameters.
\<close>

datatype capture_status = CapPending | CapFailed | CapIndexed

record capture =
  cp_id :: string
  cp_user :: user_id
  cp_status :: capture_status
  cp_type :: string
  cp_title :: "string option"
  cp_text :: "string option"
  cp_url :: "string option"
  cp_client :: "string option"
  cp_note :: "string option"
  cp_tags :: "string list option"
  cp_error :: "string option"
  cp_created :: instant
  cp_updated :: instant
  cp_indexed :: "instant option"

record attachment =
  ca_id :: string
  ca_capture :: string
  ca_user :: user_id
  ca_kind :: string
  ca_key :: string
  ca_name :: "string option"
  ca_mime :: string
  ca_bytes :: int
  ca_sha :: string
  ca_client :: "string option"
  ca_created :: instant

record transcript =
  ct_id :: string
  ct_capture :: string
  ct_attachment :: string
  ct_user :: user_id
  ct_provider :: "string option"
  ct_model :: "string option"
  ct_text :: "string option"
  ct_complete :: bool
  ct_language :: "string option"
  ct_error :: "string option"
  ct_created :: instant

record note_row =
  nt_id :: string
  nt_text :: string
  nt_user :: user_id
  nt_source :: string

record capture_state =
  cs_captures :: "capture list"
  cs_attachments :: "attachment list"
  cs_transcripts :: "transcript list"
  cs_notes :: "note_row list"
  cs_points :: "(string \<times> json_obj) list"
  cs_files :: "(path \<times> string) list"
  cs_events :: "(string \<times> user_id) list"
  cs_audits :: "(user_id \<times> json_obj \<times> json_obj) list"

record capture_env =
  ce_media :: media_config
  ce_pg_uuid :: "string \<Rightarrow> string option"
  ce_point_id :: "user_id \<Rightarrow> string \<Rightarrow> string"
  ce_sha :: "string \<Rightarrow> string"

datatype capture_error = CapHttp nat string | CapUncaught

subsection \<open>Texts, URLs and ids\<close>

definition normalize_text :: "string option \<Rightarrow> string option" where
  "normalize_text v = (case v of None \<Rightarrow> None | Some s \<Rightarrow> let t = py_strip s in if t = [] then None else Some t)"

definition url_letter :: "char \<Rightarrow> bool" where
  "url_letter c = is_lower_letter (lower_char c)"

definition url_scheme_char :: "char \<Rightarrow> bool" where
  "url_scheme_char c = (url_letter c \<or> is_digit c \<or> c \<in> set ''+.-'')"

definition validate_url :: "string \<Rightarrow> bool" where
  "validate_url url = (url = [] \<or>
     (let s = takeWhile url_scheme_char url in
      s \<noteq> [] \<and> url_letter (hd s) \<and> take 1 (drop (length s) url) = '':'' \<and> py_lower s \<in> {''http'', ''https''}))"

definition derive_capture_type :: "string option \<Rightarrow> string option \<Rightarrow> string" where
  "derive_capture_type t u = (let has_text = (t \<noteq> None \<and> t \<noteq> Some []); has_url = (u \<noteq> None \<and> u \<noteq> Some []) in
     if has_text \<and> has_url then ''mixed'' else if has_url then ''url'' else ''text'')"

text \<open>\<open>uuid.UUID(s)\<close>: prefixes, braces and hyphens are dropped, then \<open>int(hex, 16)\<close>.\<close>

function remove_all :: "string \<Rightarrow> string \<Rightarrow> string" where
  "remove_all p [] = []"
| "remove_all p (c # cs) = (if p \<noteq> [] \<and> starts_with p (c # cs) then remove_all p (drop (length p - 1) cs) else c # remove_all p cs)"
  by pat_completeness auto
termination by (relation "measure (length \<circ> snd)") auto

definition hex_char :: "char \<Rightarrow> bool" where
  "hex_char c = (is_digit c \<or> (97 \<le> code_point (lower_char c) \<and> code_point (lower_char c) \<le> 102))"

text \<open>Digits with single underscores between them; \<open>prev\<close> is whether the last one was a digit.\<close>

fun hex_digits :: "bool \<Rightarrow> string \<Rightarrow> bool" where
  "hex_digits prev [] = prev"
| "hex_digits prev (c # cs) = (if c = CHR ''_'' then prev \<and> hex_digits False cs else hex_char c \<and> hex_digits True cs)"

definition py_int16 :: "string \<Rightarrow> bool" where
  "py_int16 s =
     (let t = py_strip s;
          u = (if t \<noteq> [] \<and> hd t \<in> set ''+-'' then tl t else t);
          pre = (py_lower (take 2 u) = ''0x'')
      in if pre then (if take 1 (drop 2 u) = ''_'' then hex_digits False (drop 3 u) else hex_digits False (drop 2 u))
         else hex_digits False u)"

definition uuid_hex :: "string \<Rightarrow> string" where
  "uuid_hex s =
     (let h = remove_all ''uuid:'' (remove_all ''urn:'' s);
          lstrip = dropWhile (\<lambda>c. c \<in> set ''{}'')
      in filter (\<lambda>c. c \<noteq> CHR ''-'') (rev (lstrip (rev (lstrip h)))))"

definition py_uuid :: "string \<Rightarrow> bool" where
  "py_uuid s = (length (uuid_hex s) = 32 \<and> py_int16 (uuid_hex s))"

subsection \<open>Creating\<close>

record create_body =
  cb_text :: "string option"
  cb_title :: "string option"
  cb_url :: "string option"
  cb_client :: "string option"
  cb_tags :: "string list option"

definition short :: "nat \<Rightarrow> string option \<Rightarrow> bool" where
  "short n v = (case v of None \<Rightarrow> True | Some s \<Rightarrow> length s \<le> n)"

definition tags_ok :: "string list option \<Rightarrow> bool" where
  "tags_ok tags = (case tags of None \<Rightarrow> True | Some ts \<Rightarrow> list_all (\<lambda>t. 1 \<le> length t \<and> length t \<le> 64) ts)"

definition create_body_ok :: "create_body \<Rightarrow> bool" where
  "create_body_ok b = (short 32000 (cb_text b) \<and> short 256 (cb_title b) \<and> short 2048 (cb_url b) \<and> tags_ok (cb_tags b) \<and>
     \<not> (cb_text b = None \<and> cb_url b = None) \<and> (case cb_tags b of None \<Rightarrow> True | Some ts \<Rightarrow> length ts \<le> 20))"

text \<open>\<open>json.dumps(..., sort_keys=True, separators=(",", ":"))\<close> of the payload.\<close>

fun dumps_compact :: "json \<Rightarrow> string" where
  "dumps_compact (JList xs) = ''['' @ join '','' (map dumps_compact xs) @ '']''"
| "dumps_compact (JObj kvs) = ''{'' @ join '','' (map (\<lambda>(k, v). quoted k @ '':'' @ dumps_compact v) kvs) @ ''}''"
| "dumps_compact j = dumps j"

definition payload_identity ::
  "string option \<Rightarrow> string option \<Rightarrow> string option \<Rightarrow> (string list \<Rightarrow> string list) \<Rightarrow> string list option \<Rightarrow> string \<Rightarrow> string" where
  "payload_identity t title url sorted_tags tags ctype =
     dumps_compact (JObj
       [(''capture_type'', JStr ctype),
        (''tags'', case tags of None \<Rightarrow> JNull | Some ts \<Rightarrow> if ts = [] then JNull else JList (map JStr (sorted_tags ts))),
        (''text'', opt_str t), (''title'', opt_str title), (''url'', opt_str url)])"

definition new_capture ::
  "instant \<Rightarrow> string \<Rightarrow> user_id \<Rightarrow> string \<Rightarrow> string option \<Rightarrow> string option \<Rightarrow> string option \<Rightarrow> string option \<Rightarrow> string list option \<Rightarrow> capture" where
  "new_capture now i u ctype title t url client tags = \<lparr>cp_id = i, cp_user = u, cp_status = CapPending, cp_type = ctype, cp_title = title,
     cp_text = t, cp_url = url, cp_client = client, cp_note = None, cp_tags = tags, cp_error = None, cp_created = now,
     cp_updated = now, cp_indexed = None\<rparr>"

text \<open>The order of texts by code point, as Python sorts them.\<close>

fun text_le :: "string \<Rightarrow> string \<Rightarrow> bool" where
  "text_le [] y = True"
| "text_le (a # x) [] = False"
| "text_le (a # x) (b # y) = (code_point a < code_point b \<or> a = b \<and> text_le x y)"

fun insert_text :: "string \<Rightarrow> string list \<Rightarrow> string list" where
  "insert_text x [] = [x]"
| "insert_text x (y # ys) = (if text_le x y then x # y # ys else y # insert_text x ys)"

definition sort_texts :: "string list \<Rightarrow> string list" where
  "sort_texts xs = foldr insert_text xs []"

definition create_capture ::
  "instant \<Rightarrow> string \<Rightarrow> user_id \<Rightarrow> create_body \<Rightarrow> capture_state \<Rightarrow> (capture_error + string \<times> nat) \<times> capture_state" where
  "create_capture now new_id u b st =
     (let t = normalize_text (cb_text b); url = normalize_text (cb_url b); title = normalize_text (cb_title b) in
      if t = None \<and> url = None then (Inl (CapHttp 422 ''capture_requires_text_or_url''), st)
      else if (case url of None \<Rightarrow> False | Some x \<Rightarrow> \<not> validate_url x) then (Inl (CapHttp 422 ''invalid_url_scheme''), st)
      else
        let ctype = derive_capture_type t url; tags = cb_tags b;
            insert = (let r = new_capture now new_id u ctype title t url (cb_client b) tags in
               if new_id \<in> cp_id ` set (cs_captures st) then (Inl CapUncaught, st)
               else (Inr (new_id, 201), st\<lparr>cs_captures := cs_captures st @ [r]\<rparr>))
        in case cb_client b of
             None \<Rightarrow> insert
           | Some client \<Rightarrow>
               if \<not> py_uuid client then (Inl (CapHttp 422 ''invalid_client_id''), st)
               else case find (\<lambda>r. cp_user r = u \<and> cp_client r = Some client) (cs_captures st) of
                 None \<Rightarrow> insert
               | Some r \<Rightarrow>
                   if payload_identity t title url sort_texts tags ctype \<noteq>
                      payload_identity (cp_text r) (cp_title r) (cp_url r) sort_texts (cp_tags r) (cp_type r)
                   then (Inl (CapHttp 409 ''idempotency_key_conflict''), st)
                   else (Inr (cp_id r, 200), st))"

definition create_capture_route ::
  "instant \<Rightarrow> string \<Rightarrow> user_id \<Rightarrow> create_body \<Rightarrow> capture_state \<Rightarrow> (capture_error + string \<times> nat) \<times> capture_state" where
  "create_capture_route now new_id u b st =
     (if create_body_ok b then create_capture now new_id u b st else (Inl (CapHttp 422 ''validation''), st))"

text \<open>The older route for texts.\<close>

definition create_capture_text ::
  "instant \<Rightarrow> string \<Rightarrow> user_id \<Rightarrow> string \<Rightarrow> string option \<Rightarrow> string \<Rightarrow> string list option \<Rightarrow> capture_state
    \<Rightarrow> (capture_error + string \<times> nat) \<times> capture_state" where
  "create_capture_text now new_id u t title scope tags st =
     (if \<not> (1 \<le> length t \<and> length t \<le> 32000 \<and> short 256 title \<and> scope \<in> {''personal'', ''shared''} \<and> tags_ok tags \<and>
          (case tags of None \<Rightarrow> True | Some ts \<Rightarrow> length ts \<le> 20)) then (Inl (CapHttp 422 ''validation''), st)
      else if scope \<noteq> ''personal'' then (Inl (CapHttp 422 ''capture_scope_not_supported''), st)
      else create_capture now new_id u \<lparr>cb_text = Some t, cb_title = title, cb_url = None, cb_client = None, cb_tags = tags\<rparr> st)"

subsection \<open>Reading\<close>

text \<open>
  A row of the user by the id in the request: \<open>UUID\<close> refuses with 404, the cast of the database
  raises, and otherwise the row is found or not.
\<close>

definition own_capture :: "capture_env \<Rightarrow> user_id \<Rightarrow> string \<Rightarrow> capture_state \<Rightarrow> capture_error + capture" where
  "own_capture env u cid st =
     (if \<not> py_uuid cid then Inl (CapHttp 404 ''capture_not_found'')
      else case ce_pg_uuid env cid of
        None \<Rightarrow> Inl CapUncaught
      | Some i \<Rightarrow> (case find (\<lambda>r. cp_id r = i \<and> cp_user r = u) (cs_captures st) of
          None \<Rightarrow> Inl (CapHttp 404 ''capture_not_found'') | Some r \<Rightarrow> Inr r))"

definition attachments_of :: "user_id \<Rightarrow> string \<Rightarrow> capture_state \<Rightarrow> attachment list" where
  "attachments_of u i st = sort_key ca_created (filter (\<lambda>a. ca_capture a = i \<and> ca_user a = u) (cs_attachments st))"

definition transcripts_of :: "user_id \<Rightarrow> string \<Rightarrow> capture_state \<Rightarrow> transcript list" where
  "transcripts_of u i st = sort_key ct_created (filter (\<lambda>t. ct_capture t = i \<and> ct_user t = u) (cs_transcripts st))"

type_synonym capture_detail = "capture \<times> attachment list \<times> transcript list"

definition get_capture :: "capture_env \<Rightarrow> user_id \<Rightarrow> string \<Rightarrow> capture_state \<Rightarrow> capture_error + capture_detail" where
  "get_capture env u cid st =
     (case own_capture env u cid st of
        Inl e \<Rightarrow> Inl e
      | Inr r \<Rightarrow> Inr (r\<lparr>cp_tags := map_option sort_texts (cp_tags r)\<rparr>, attachments_of u (cp_id r) st, transcripts_of u (cp_id r) st))"

definition list_captures ::
  "user_id \<Rightarrow> string option \<Rightarrow> nat \<Rightarrow> nat \<Rightarrow> capture_status list option \<Rightarrow> capture_state
    \<Rightarrow> capture_error + (capture \<times> nat \<times> nat) list \<times> nat" where
  "list_captures u scope limit offset statuses st =
     (let sc = (case scope of None \<Rightarrow> ''personal'' | Some s \<Rightarrow> s) in
      if sc = ''shared'' \<or> sc = ''system'' then Inr ([], 0)
      else if sc \<noteq> ''personal'' then Inl (CapHttp 422 ''invalid_scope'')
      else
        let rows = filter (\<lambda>r. cp_user r = u \<and>
              (case statuses of None \<Rightarrow> True | Some ss \<Rightarrow> ss = [] \<or> cp_status r \<in> set ss)) (cs_captures st);
            counts = (\<lambda>r. (r, length (filter (\<lambda>a. ca_capture a = cp_id r) (cs_attachments st)),
                              length (filter (\<lambda>t. ct_capture t = cp_id r) (cs_transcripts st))))
        in Inr (map counts (take limit (drop offset (sort_key (\<lambda>r. - cp_updated r) rows))), length rows))"

subsection \<open>Editing and deleting\<close>

text \<open>A field that is not in the request is \<open>None\<close>, a null is \<open>Some None\<close>.\<close>

record patch_body =
  pb_text :: "string option option"
  pb_title :: "string option option"
  pb_url :: "string option option"
  pb_tags :: "string list option option"

definition patch_body_ok :: "patch_body \<Rightarrow> bool" where
  "patch_body_ok b = ((case pb_text b of None \<Rightarrow> True | Some v \<Rightarrow> short 32000 v) \<and>
     (case pb_title b of None \<Rightarrow> True | Some v \<Rightarrow> short 256 v) \<and>
     (case pb_url b of None \<Rightarrow> True | Some v \<Rightarrow> short 2048 v) \<and>
     (case pb_tags b of None \<Rightarrow> True | Some v \<Rightarrow> tags_ok v))"

definition update_capture :: "instant \<Rightarrow> string \<Rightarrow> user_id \<Rightarrow> (capture \<Rightarrow> capture) \<Rightarrow> capture_state \<Rightarrow> capture_state" where
  "update_capture now i u f st =
     st\<lparr>cs_captures := update_where (\<lambda>r. cp_id r = i \<and> cp_user r = u) (\<lambda>r. (f r)\<lparr>cp_updated := now\<rparr>) (cs_captures st)\<rparr>"

definition patch_capture ::
  "capture_env \<Rightarrow> instant \<Rightarrow> user_id \<Rightarrow> string \<Rightarrow> patch_body \<Rightarrow> capture_state \<Rightarrow> (capture_error + capture_detail) \<times> capture_state" where
  "patch_capture env now u cid b st =
     (case own_capture env u cid st of
        Inl e \<Rightarrow> (Inl e, st)
      | Inr r \<Rightarrow>
          if cp_status r = CapIndexed then (Inl (CapHttp 409 ''capture_indexed_not_editable''), st)
          else
            let t = (case pb_text b of Some v \<Rightarrow> normalize_text v | None \<Rightarrow> cp_text r);
                url = (case pb_url b of Some v \<Rightarrow> normalize_text v | None \<Rightarrow> cp_url r);
                title = (case pb_title b of Some v \<Rightarrow> normalize_text v | None \<Rightarrow> cp_title r);
                tags = (case pb_tags b of Some (Some ts) \<Rightarrow> Some ts | _ \<Rightarrow> cp_tags r)
            in if (case url of None \<Rightarrow> False | Some x \<Rightarrow> x \<noteq> [] \<and> \<not> validate_url x) then (Inl (CapHttp 422 ''invalid_url_scheme''), st)
               else
                 let tn = normalize_text t; un = normalize_text url in
                 if tn = None \<and> un = None \<and> \<not> list_ex (\<lambda>a. ca_capture a = cp_id r \<and> ca_user a = u) (cs_attachments st)
                 then (Inl (CapHttp 422 ''capture_requires_text_or_url''), st)
                 else
                   let st1 = update_capture now (cp_id r) u
                         (\<lambda>x. x\<lparr>cp_text := tn, cp_title := title, cp_url := un, cp_tags := tags, cp_type := derive_capture_type tn un\<rparr>) st
                   in (get_capture env u cid st1, st1))"

definition drop_file :: "path \<Rightarrow> (path \<times> string) list \<Rightarrow> (path \<times> string) list" where
  "drop_file p fs = filter (\<lambda>f. fst f \<noteq> p) fs"

text \<open>\<open>unlink_storage_file\<close> inside its \<open>try\<close>: a bad key is logged, a missing file ignored.\<close>

definition unlink_key :: "capture_env \<Rightarrow> string \<Rightarrow> (path \<times> string) list \<Rightarrow> (path \<times> string) list" where
  "unlink_key env key fs = (case resolve_storage_key_file (ce_media env) key of None \<Rightarrow> fs | Some p \<Rightarrow> drop_file p fs)"

definition delete_capture ::
  "capture_env \<Rightarrow> user_id \<Rightarrow> string \<Rightarrow> capture_state \<Rightarrow> (capture_error + unit) \<times> capture_state" where
  "delete_capture env u cid st =
     (case own_capture env u cid st of
        Inl e \<Rightarrow> (Inl e, st)
      | Inr r \<Rightarrow>
          if cp_status r = CapIndexed then (Inl (CapHttp 409 ''indexed_capture_requires_memory_delete''), st)
          else
            let i = cp_id r;
                keys = map ca_key (filter (\<lambda>a. ca_capture a = i \<and> ca_user a = u) (cs_attachments st))
            in (Inr (), st\<lparr>cs_files := fold (unlink_key env) (filter (\<lambda>k. k \<noteq> []) keys) (cs_files st),
                  cs_captures := filter (\<lambda>x. \<not> (cp_id x = i \<and> cp_user x = u)) (cs_captures st),
                  cs_attachments := filter (\<lambda>a. ca_capture a \<noteq> i) (cs_attachments st),
                  cs_transcripts := filter (\<lambda>t. ct_capture t \<noteq> i) (cs_transcripts st)\<rparr>))"

subsection \<open>Attachments\<close>

definition next_capture_type_for_new_attachment :: "string \<Rightarrow> bool \<Rightarrow> bool \<Rightarrow> string \<Rightarrow> string" where
  "next_capture_type_for_new_attachment current has_text has_url kind =
     (let has_ur = has_text \<or> has_url in
      if kind = ''image'' then
        (if current = ''voice'' \<or> current = ''mixed'' then ''mixed''
         else if current = ''photo'' then ''photo''
         else if has_ur \<or> current = ''text'' \<or> current = ''url'' then ''mixed''
         else ''photo'')
      else if current = ''photo'' \<or> current = ''mixed'' then ''mixed''
      else if current = ''voice'' then ''voice''
      else if has_ur \<or> current = ''text'' \<or> current = ''url'' then ''mixed''
      else ''voice'')"

text \<open>What is checked before the file is written: kind, MIME type and leaf name.\<close>

definition inbound :: "capture_env \<Rightarrow> string option \<Rightarrow> string \<Rightarrow> capture_error + string \<times> string \<times> string" where
  "inbound env mime content =
     (case mime of None \<Rightarrow> Inl (CapHttp 422 ''missing_content_type'')
      | Some m \<Rightarrow>
          if py_strip m = [] then Inl (CapHttp 422 ''missing_content_type'')
          else case classify_inbound_mime m of
            Inl e \<Rightarrow> Inl (CapHttp 415 ''mime_type_not_allowed'')
          | Inr (kind, mn) \<Rightarrow>
              (case validate_attachment (ce_media env) mn (int (length content)) kind of
                 Some (FileTooLarge _) \<Rightarrow> Inl (CapHttp 413 ''file_too_large'')
               | Some (MimeNotAllowed _) \<Rightarrow> Inl (CapHttp 415 ''mime_type_not_allowed'')
               | None \<Rightarrow> (case leaf_filename_for_mime mn of
                   Inl _ \<Rightarrow> Inl (CapHttp 415 ''mime_type_not_allowed'') | Inr leaf \<Rightarrow> Inr (kind, mn, leaf))))"

definition storage_key :: "user_id \<Rightarrow> string \<Rightarrow> string \<Rightarrow> string \<Rightarrow> string" where
  "storage_key u cid aid leaf = u @ ''/'' @ cid @ ''/'' @ aid @ ''/'' @ leaf"

text \<open>
  \<open>write_ok\<close> and \<open>insert_ok\<close> tell whether the file is written and the row inserted; the unique
  index on (user, capture, client id) can refuse the row as well, and then the file is removed.
\<close>

definition by_client :: "user_id \<Rightarrow> string \<Rightarrow> string \<Rightarrow> capture_state \<Rightarrow> attachment option" where
  "by_client u i k st = find (\<lambda>a. ca_user a = u \<and> ca_capture a = i \<and> ca_client a = Some k) (cs_attachments st)"

definition new_attachment ::
  "capture_env \<Rightarrow> instant \<Rightarrow> string \<Rightarrow> string \<Rightarrow> user_id \<Rightarrow> string \<Rightarrow> string \<times> string \<times> string \<Rightarrow> string \<Rightarrow> string option \<Rightarrow> string option
    \<Rightarrow> attachment" where
  "new_attachment env now aid i u cid kml content filename lc =
     (case kml of (kind, mn, leaf) \<Rightarrow>
        \<lparr>ca_id = aid, ca_capture = i, ca_user = u, ca_kind = kind, ca_key = storage_key u cid aid leaf, ca_name = filename,
         ca_mime = mn, ca_bytes = int (length content), ca_sha = ce_sha env content, ca_client = lc, ca_created = now\<rparr>)"

definition store_attachment ::
  "capture_env \<Rightarrow> instant \<Rightarrow> string \<Rightarrow> bool \<Rightarrow> bool \<Rightarrow> user_id \<Rightarrow> string \<Rightarrow> capture \<Rightarrow> string \<Rightarrow> string option \<Rightarrow> string option \<Rightarrow> string option
    \<Rightarrow> capture_state \<Rightarrow> (capture_error + attachment \<times> nat) \<times> capture_state" where
  "store_attachment env now aid write_ok insert_ok u cid cap content mime filename lc st =
     (case inbound env mime content of
        Inl e \<Rightarrow> (Inl e, st)
      | Inr (kind, mn, leaf) \<Rightarrow>
          (case safe_attachment_path (ce_media env) u cid aid leaf of
             None \<Rightarrow> (Inl CapUncaught, st)
           | Some p \<Rightarrow>
               if \<not> write_ok then (Inl (CapHttp 500 ''attachment_write_failed''), st)
               else if \<not> insert_ok \<or> aid \<in> ca_id ` set (cs_attachments st) \<or>
                   (case lc of None \<Rightarrow> False | Some k \<Rightarrow> by_client u (cp_id cap) k st \<noteq> None)
               then (Inl CapUncaught, st\<lparr>cs_files := drop_file p (cs_files st)\<rparr>)
               else
                 let row = new_attachment env now aid (cp_id cap) u cid (kind, mn, leaf) content filename lc;
                     next = next_capture_type_for_new_attachment (cp_type cap)
                       (normalize_text (cp_text cap) \<noteq> None) (normalize_text (cp_url cap) \<noteq> None) kind;
                     st1 = st\<lparr>cs_files := (p, content) # drop_file p (cs_files st), cs_attachments := cs_attachments st @ [row]\<rparr>
                 in (Inr (row, 201),
                     if next \<noteq> cp_type cap then update_capture now (cp_id cap) u (\<lambda>x. x\<lparr>cp_type := next\<rparr>) st1 else st1)))"

definition add_capture_attachment ::
  "capture_env \<Rightarrow> instant \<Rightarrow> string \<Rightarrow> bool \<Rightarrow> bool \<Rightarrow> user_id \<Rightarrow> string \<Rightarrow> string \<Rightarrow> string option \<Rightarrow> string option \<Rightarrow> string option
    \<Rightarrow> capture_state \<Rightarrow> (capture_error + attachment \<times> nat) \<times> capture_state" where
  "add_capture_attachment env now aid write_ok insert_ok u cid content mime filename client st =
     (case own_capture env u cid st of
        Inl e \<Rightarrow> (Inl e, st)
      | Inr cap \<Rightarrow>
          if cp_status cap = CapIndexed then (Inl (CapHttp 409 ''capture_indexed''), st)
          else
            let lc = (case client of None \<Rightarrow> None | Some s \<Rightarrow> if s = [] then None else Some (py_strip s));
                store = store_attachment env now aid write_ok insert_ok u cid cap content mime filename lc st
            in case lc of
                 None \<Rightarrow> store
               | Some k \<Rightarrow>
                   if k = [] then store
                   else if \<not> py_uuid k then (Inl (CapHttp 422 ''invalid_client_attachment_id''), st)
                   else case by_client u (cp_id cap) k st of Some a \<Rightarrow> (Inr (a, 200), st) | None \<Rightarrow> store)"

text \<open>An attachment of the user by the two ids of the request.\<close>

definition own_attachment :: "capture_env \<Rightarrow> user_id \<Rightarrow> string \<Rightarrow> string \<Rightarrow> capture_state \<Rightarrow> capture_error + attachment" where
  "own_attachment env u cid aid st =
     (case (ce_pg_uuid env aid, ce_pg_uuid env cid) of
        (Some a, Some c) \<Rightarrow> (case find (\<lambda>x. ca_id x = a \<and> ca_capture x = c \<and> ca_user x = u) (cs_attachments st) of
            None \<Rightarrow> Inl (CapHttp 404 ''attachment_not_found'') | Some x \<Rightarrow> Inr x)
      | _ \<Rightarrow> Inl CapUncaught)"

definition get_attachment_download :: "capture_env \<Rightarrow> user_id \<Rightarrow> string \<Rightarrow> string \<Rightarrow> capture_state \<Rightarrow> capture_error + path \<times> string \<times> string" where
  "get_attachment_download env u cid aid st =
     (if \<not> (py_uuid cid \<and> py_uuid aid) then Inl (CapHttp 404 ''attachment_not_found'')
      else case own_attachment env u cid aid st of
        Inl e \<Rightarrow> Inl e
      | Inr a \<Rightarrow> (case resolve_storage_key_file (ce_media env) (ca_key a) of
          None \<Rightarrow> Inl (CapHttp 404 ''attachment_not_found'')
        | Some p \<Rightarrow> Inr (p, ca_mime a, case ca_name a of Some n \<Rightarrow> if n = [] then last p else n | None \<Rightarrow> last p)))"

definition file_content :: "path \<Rightarrow> capture_state \<Rightarrow> string option" where
  "file_content p st = map_of (cs_files st) p"

definition download_attachment :: "capture_env \<Rightarrow> user_id \<Rightarrow> string \<Rightarrow> string \<Rightarrow> capture_state \<Rightarrow> capture_error + string \<times> string \<times> string" where
  "download_attachment env u cid aid st =
     (case get_attachment_download env u cid aid st of
        Inl e \<Rightarrow> Inl e
      | Inr (p, mime, name) \<Rightarrow> (case file_content p st of
          None \<Rightarrow> Inl (CapHttp 404 ''attachment_not_found'') | Some c \<Rightarrow> Inr (c, mime, name)))"

definition delete_capture_attachment ::
  "capture_env \<Rightarrow> user_id \<Rightarrow> string \<Rightarrow> string \<Rightarrow> capture_state \<Rightarrow> (capture_error + unit) \<times> capture_state" where
  "delete_capture_attachment env u cid aid st =
     (if \<not> (py_uuid cid \<and> py_uuid aid) then (Inl (CapHttp 404 ''attachment_not_found''), st)
      else case own_capture env u cid st of
        Inl e \<Rightarrow> (Inl e, st)
      | Inr cap \<Rightarrow>
          if cp_status cap = CapIndexed then (Inl (CapHttp 409 ''capture_indexed''), st)
          else case own_attachment env u cid aid st of
            Inl e \<Rightarrow> (Inl e, st)
          | Inr a \<Rightarrow> (Inr (), st\<lparr>cs_files := unlink_key env (ca_key a) (cs_files st),
                cs_attachments := filter (\<lambda>x. \<not> (ca_id x = ca_id a \<and> ca_capture x = ca_capture a \<and> ca_user x = u)) (cs_attachments st),
                cs_transcripts := filter (\<lambda>t. ct_attachment t \<noteq> ca_id a) (cs_transcripts st)\<rparr>))"

subsection \<open>Transcription\<close>

definition is_transcribable_audio_attachment :: "attachment \<Rightarrow> bool" where
  "is_transcribable_audio_attachment a =
     (ca_kind a = ''audio'' \<and>
      (case classify_inbound_mime (py_lower (py_strip (takeWhile (\<lambda>c. c \<noteq> CHR '';'') (ca_mime a)))) of
         Inr (kind, _) \<Rightarrow> kind = ''audio'' | Inl _ \<Rightarrow> False))"

definition latest_transcript_for_attachment :: "user_id \<Rightarrow> string \<Rightarrow> string \<Rightarrow> capture_state \<Rightarrow> transcript option" where
  "latest_transcript_for_attachment u c a st =
     least_by (\<lambda>t. - ct_created t) (filter (\<lambda>t. ct_attachment t = a \<and> ct_capture t = c \<and> ct_user t = u) (cs_transcripts st))"

definition transcript_complete_nonempty :: "transcript option \<Rightarrow> bool" where
  "transcript_complete_nonempty t = (case t of None \<Rightarrow> False | Some r \<Rightarrow> ct_complete r \<and> normalize_text (ct_text r) \<noteq> None)"

text \<open>The attachment, the row to update, and a finished transcript that answers at once.\<close>

type_synonym transcribe_target = "attachment \<times> string option \<times> transcript option"

definition target_of :: "user_id \<Rightarrow> string \<Rightarrow> capture_state \<Rightarrow> attachment \<Rightarrow> transcribe_target" where
  "target_of u c st a = (let latest = latest_transcript_for_attachment u c (ca_id a) st in
     if transcript_complete_nonempty latest then (a, None, latest) else (a, map_option ct_id latest, None))"

definition prepare_capture_transcribe ::
  "capture_env \<Rightarrow> user_id \<Rightarrow> string \<Rightarrow> string option \<Rightarrow> capture_state \<Rightarrow> capture_error + transcribe_target" where
  "prepare_capture_transcribe env u cid aid st =
     (case own_capture env u cid st of
        Inl e \<Rightarrow> Inl e
      | Inr cap \<Rightarrow>
          if cp_status cap = CapIndexed then Inl (CapHttp 409 ''capture_indexed'')
          else case (case aid of Some s \<Rightarrow> if s = [] then None else Some (py_strip s) | None \<Rightarrow> None) of
            Some a \<Rightarrow>
              if \<not> py_uuid a then Inl (CapHttp 404 ''attachment_not_found'')
              else (case own_attachment env u cid a st of
                 Inl e \<Rightarrow> Inl e
               | Inr att \<Rightarrow> if \<not> is_transcribable_audio_attachment att then Inl (CapHttp 422 ''attachment_not_audio'')
                            else Inr (target_of u (cp_id cap) st att))
          | None \<Rightarrow>
              (case find (\<lambda>a. \<not> transcript_complete_nonempty (latest_transcript_for_attachment u (cp_id cap) (ca_id a) st))
                  (filter is_transcribable_audio_attachment (filter (\<lambda>a. ca_kind a = ''audio'') (attachments_of u (cp_id cap) st))) of
                 None \<Rightarrow> Inl (CapHttp 422 ''capture_no_pending_audio'')
               | Some a \<Rightarrow> Inr (target_of u (cp_id cap) st a)))"

record stt_result =
  sr_text :: string
  sr_provider :: string
  sr_model :: "string option"
  sr_language :: "string option"

datatype stt_error = SttDisabled | SttValidation string | SttProcessing

text \<open>\<open>ping\<close> and \<open>run\<close> are the adapter (\<open>None\<close>: an exception), \<open>duration\<close> what ffprobe reports.\<close>

record stt_env =
  se_backend :: string
  se_adapter :: bool
  se_max_bytes :: int
  se_max_duration :: int
  se_duration :: "string \<Rightarrow> int option"
  se_ping :: "bool option"
  se_run :: "string \<Rightarrow> string \<Rightarrow> stt_result option"

definition stt_mimes :: "string list" where
  "stt_mimes = [''audio/webm'', ''audio/mp4'', ''audio/mpeg'', ''audio/wav'', ''audio/x-wav'']"

definition stt_normalize_mime :: "string \<Rightarrow> string" where
  "stt_normalize_mime m = py_lower (py_strip (takeWhile (\<lambda>c. c \<noteq> CHR '';'') m))"

definition transcribe_blob :: "stt_env \<Rightarrow> string \<Rightarrow> string \<Rightarrow> stt_error + stt_result" where
  "transcribe_blob env audio mime =
     (if se_backend env = ''none'' \<or> \<not> se_adapter env then Inl SttDisabled
      else let mn = stt_normalize_mime mime in
        if mn \<notin> set stt_mimes then Inl (SttValidation ''stt_bad_mime'')
        else if int (length audio) > se_max_bytes env then Inl (SttValidation ''stt_audio_too_large'')
        else if (case se_duration env audio of None \<Rightarrow> False | Some d \<Rightarrow> d > se_max_duration env) then Inl (SttValidation ''stt_duration_exceeded'')
        else if se_ping env \<noteq> Some True then Inl SttProcessing
        else (case se_run env audio mn of None \<Rightarrow> Inl SttProcessing | Some r \<Rightarrow> Inr r))"

definition stt_status :: "stt_error \<Rightarrow> capture_error" where
  "stt_status e = (case e of
     SttDisabled \<Rightarrow> CapHttp 503 ''stt_disabled''
   | SttProcessing \<Rightarrow> CapHttp 503 ''stt_processing_error''
   | SttValidation c \<Rightarrow> CapHttp (if c = ''stt_audio_too_large'' then 413 else if c = ''stt_bad_mime'' then 415
        else if c = ''stt_duration_exceeded'' then 400 else 422) c)"

text \<open>An empty transcript is stored as failed; the attachment must still exist for an insert.\<close>

definition finish_capture_transcribe ::
  "instant \<Rightarrow> string \<Rightarrow> user_id \<Rightarrow> string \<Rightarrow> string \<Rightarrow> string option \<Rightarrow> stt_result \<Rightarrow> capture_state
    \<Rightarrow> (capture_error + transcript) \<times> capture_state" where
  "finish_capture_transcribe now tid u c a update_id res st =
     (let body = normalize_text (Some (sr_text res));
          err = (if body = None then Some ''stt_empty_transcript'' else None);
          fill = (\<lambda>t. t\<lparr>ct_provider := Some (sr_provider res), ct_model := sr_model res, ct_text := body,
                    ct_complete := (body \<noteq> None), ct_language := sr_language res, ct_error := err\<rparr>)
      in case update_id of
           Some i \<Rightarrow>
             let st1 = st\<lparr>cs_transcripts := update_where (\<lambda>t. ct_id t = i \<and> ct_user t = u) fill (cs_transcripts st)\<rparr>
             in (case find (\<lambda>t. ct_id t = i \<and> ct_user t = u) (cs_transcripts st1) of
                   None \<Rightarrow> (Inl (CapHttp 500 ''transcript_persist_failed''), st1)
                 | Some t \<Rightarrow> (Inr t, st1))
         | None \<Rightarrow>
             if a \<notin> ca_id ` set (cs_attachments st) \<or> c \<notin> cp_id ` set (cs_captures st) \<or> tid \<in> ct_id ` set (cs_transcripts st)
             then (Inl CapUncaught, st)
             else
               let t = fill \<lparr>ct_id = tid, ct_capture = c, ct_attachment = a, ct_user = u, ct_provider = None, ct_model = None,
                     ct_text = None, ct_complete = False, ct_language = None, ct_error = None, ct_created = now\<rparr>
               in (Inr t, st\<lparr>cs_transcripts := cs_transcripts st @ [t]\<rparr>))"

definition read_transcribe_audio_bytes :: "capture_env \<Rightarrow> attachment \<Rightarrow> capture_state \<Rightarrow> capture_error + string \<times> string" where
  "read_transcribe_audio_bytes env a st =
     (case resolve_storage_key_file (ce_media env) (ca_key a) of
        None \<Rightarrow> Inl (CapHttp 404 ''attachment_not_found'')
      | Some p \<Rightarrow> (case file_content p st of None \<Rightarrow> Inl (CapHttp 404 ''attachment_blob_missing'') | Some c \<Rightarrow> Inr (c, ca_mime a)))"

definition transcribe_capture ::
  "capture_env \<Rightarrow> stt_env \<Rightarrow> instant \<Rightarrow> string \<Rightarrow> user_id \<Rightarrow> string \<Rightarrow> string option \<Rightarrow> capture_state
    \<Rightarrow> (capture_error + transcript) \<times> capture_state" where
  "transcribe_capture env stt now tid u cid aid st =
     (case prepare_capture_transcribe env u cid (case aid of None \<Rightarrow> None | Some s \<Rightarrow> if s = [] then None else Some (py_strip s)) st of
        Inl e \<Rightarrow> (Inl e, st)
      | Inr (_, _, Some t) \<Rightarrow> (Inr t, st)
      | Inr (a, upd, None) \<Rightarrow>
          (case read_transcribe_audio_bytes env a st of
             Inl e \<Rightarrow> (Inl e, st)
           | Inr (audio, mime) \<Rightarrow>
               (case transcribe_blob stt audio mime of
                  Inl e \<Rightarrow> (Inl (stt_status e), st)
                | Inr res \<Rightarrow> (case ce_pg_uuid env cid of
                    None \<Rightarrow> (Inl CapUncaught, st)
                  | Some c \<Rightarrow> finish_capture_transcribe now tid u c (ca_id a) upd res st))))"

subsection \<open>Promotion to memory\<close>

definition combined_capture_memory_text :: "capture_detail \<Rightarrow> string" where
  "combined_capture_memory_text d =
     (case d of (r, _, ts) \<Rightarrow>
        let part = (\<lambda>f v. case normalize_text v of None \<Rightarrow> [] | Some t \<Rightarrow> [f t]);
            nl = [char_of (10::nat), char_of (10::nat)]
        in join nl (part id (cp_title r) @ part id (cp_text r) @ part (\<lambda>t. ''URL: '' @ t) (cp_url r) @
             concat (map (\<lambda>t. part id (ct_text t)) (filter ct_complete (sort_key ct_created ts)))))"

definition audio_transcripts_ready_for_index :: "capture_detail \<Rightarrow> bool" where
  "audio_transcripts_ready_for_index d =
     (case d of (_, as, ts) \<Rightarrow>
        list_all (\<lambda>a. ca_kind a \<noteq> ''audio'' \<or>
          list_ex (\<lambda>t. ct_attachment t = ca_id a \<and> ct_complete t \<and> normalize_text (ct_text t) \<noteq> None) ts) as)"

definition short_index_error :: "string \<Rightarrow> string" where
  "short_index_error e = take 2000 (map (\<lambda>c. if c = char_of (10::nat) then CHR '' '' else c) e)"

text \<open>The checks, with the text that is going to be stored.\<close>

definition index_check :: "capture_env \<Rightarrow> user_id \<Rightarrow> string \<Rightarrow> capture_state \<Rightarrow> capture_error + capture \<times> string" where
  "index_check env u cid st =
     (case get_capture env u cid st of
        Inl e \<Rightarrow> Inl e
      | Inr (r, as, ts) \<Rightarrow>
          if cp_status r = CapIndexed then Inl (CapHttp 409 ''capture_indexed'')
          else if \<not> audio_transcripts_ready_for_index (r, as, ts) then Inl (CapHttp 422 ''capture_transcript_required'')
          else let combined = combined_capture_memory_text (r, as, ts) in
            if py_strip combined = [] then Inl (CapHttp 422 ''capture_no_indexable_content'')
            else Inr (r, combined))"

definition point_payload :: "string \<Rightarrow> string \<Rightarrow> user_id \<Rightarrow> json_obj" where
  "point_payload note combined u =
     [(''session_id'', JStr note), (''summary'', JStr combined), (''user_id'', JStr u), (''scope'', JStr ''personal''),
      (''note_id'', JStr note), (''source'', JStr ''lumogis_web_capture'')]"

text \<open>
  Note, vector, row, event and audit. \<open>memory\<close> is the exception of the embedder or the vector
  store, \<open>cleanup_ok\<close> whether the note can be deleted again, \<open>commit_ok\<close> whether the last update
  succeeds.
\<close>

definition index_commit ::
  "capture_env \<Rightarrow> instant \<Rightarrow> string \<Rightarrow> string option \<Rightarrow> bool \<Rightarrow> bool \<Rightarrow> user_id \<Rightarrow> string \<Rightarrow> capture \<times> string \<Rightarrow> capture_state
    \<Rightarrow> (capture_error + unit) \<times> capture_state" where
  "index_commit env now note memory cleanup_ok commit_ok u cid plan st =
     (case plan of (r, combined) \<Rightarrow>
        let row = \<lparr>nt_id = note, nt_text = combined, nt_user = u, nt_source = ''lumogis_web_capture''\<rparr>;
            st1 = st\<lparr>cs_notes := cs_notes st @ [row]\<rparr>
        in if note \<in> nt_id ` set (cs_notes st) then (Inl CapUncaught, st)
           else case memory of
             Some e \<Rightarrow>
               let st2 = (if cleanup_ok then st1\<lparr>cs_notes := filter (\<lambda>n. nt_id n \<noteq> note) (cs_notes st1)\<rparr> else st1)
               in (Inl (CapHttp 503 ''index_memory_unavailable''),
                   update_capture now (cp_id r) u (\<lambda>x. x\<lparr>cp_status := CapFailed, cp_error := Some (short_index_error e)\<rparr>) st2)
           | None \<Rightarrow>
               let st2 = st1\<lparr>cs_points := dict_set (ce_point_id env u note) (point_payload note combined u) (cs_points st1)\<rparr>
               in if \<not> commit_ok then (Inl CapUncaught, st2)
                  else
                    let st3 = update_capture now (cp_id r) u
                          (\<lambda>x. x\<lparr>cp_status := CapIndexed, cp_note := Some note, cp_indexed := Some now, cp_error := None\<rparr>) st2
                    in (Inr (), st3\<lparr>cs_events := cs_events st3 @ [(note, u)],
                          cs_audits := cs_audits st3 @ [(u, [(''capture_id'', JStr cid)], [(''note_id'', JStr note), (''status'', JStr ''indexed'')])]\<rparr>))"

definition index_capture ::
  "capture_env \<Rightarrow> instant \<Rightarrow> string \<Rightarrow> string option \<Rightarrow> bool \<Rightarrow> bool \<Rightarrow> user_id \<Rightarrow> string \<Rightarrow> capture_state
    \<Rightarrow> (capture_error + capture_detail) \<times> capture_state" where
  "index_capture env now note memory cleanup_ok commit_ok u cid st =
     (case index_check env u cid st of
        Inl e \<Rightarrow> (Inl e, st)
      | Inr plan \<Rightarrow>
          (case index_commit env now note memory cleanup_ok commit_ok u cid plan st of
             (Inl e, st1) \<Rightarrow> (Inl e, st1)
           | (Inr _, st1) \<Rightarrow> (get_capture env u cid st1, st1)))"

subsection \<open>What belongs together\<close>

definition in_memory :: "capture_env \<Rightarrow> capture_state \<Rightarrow> capture \<Rightarrow> bool" where
  "in_memory env st r \<longleftrightarrow> (\<exists>x \<in> set (cs_notes st). cp_note r = Some (nt_id x) \<and> nt_user x = cp_user r \<and>
     map_of (cs_points st) (ce_point_id env (cp_user r) (nt_id x)) = Some (point_payload (nt_id x) (nt_text x) (cp_user r)))"

definition rows_linked :: "capture list \<Rightarrow> attachment list \<Rightarrow> transcript list \<Rightarrow> bool" where
  "rows_linked caps atts trs \<longleftrightarrow> distinct (map cp_id caps) \<and> distinct (map ca_id atts) \<and> distinct (map ct_id trs) \<and>
     (\<forall>a \<in> set atts. \<exists>r \<in> set caps. cp_id r = ca_capture a \<and> cp_user r = ca_user a) \<and>
     (\<forall>t \<in> set trs. \<exists>a \<in> set atts. ca_id a = ct_attachment t \<and> ca_capture a = ct_capture t \<and> ca_user a = ct_user t)"

definition captures_good :: "capture_env \<Rightarrow> capture_state \<Rightarrow> bool" where
  "captures_good env st \<longleftrightarrow> inj (\<lambda>(u, n). ce_point_id env u n) \<and>
     rows_linked (cs_captures st) (cs_attachments st) (cs_transcripts st) \<and>
     (\<forall>r \<in> set (cs_captures st). cp_status r = CapIndexed \<longrightarrow> in_memory env st r)"

lemma captures_goodD:
  assumes "captures_good env st"
  shows "inj (\<lambda>(u, n). ce_point_id env u n)" "rows_linked (cs_captures st) (cs_attachments st) (cs_transcripts st)"
    "\<And>r. r \<in> set (cs_captures st) \<Longrightarrow> cp_status r = CapIndexed \<Longrightarrow> in_memory env st r"
  using assms by (auto simp: captures_good_def)

lemma captures_goodI:
  assumes "inj (\<lambda>(u, n). ce_point_id env u n)" and "rows_linked (cs_captures st) (cs_attachments st) (cs_transcripts st)"
    and "\<And>r. r \<in> set (cs_captures st) \<Longrightarrow> cp_status r = CapIndexed \<Longrightarrow> in_memory env st r"
  shows "captures_good env st"
  using assms by (auto simp: captures_good_def)

lemma rows_linkedD:
  assumes "rows_linked caps atts trs"
  shows "distinct (map cp_id caps)" "distinct (map ca_id atts)" "distinct (map ct_id trs)"
    "\<And>a. a \<in> set atts \<Longrightarrow> \<exists>r \<in> set caps. cp_id r = ca_capture a \<and> cp_user r = ca_user a"
    "\<And>t. t \<in> set trs \<Longrightarrow> \<exists>a \<in> set atts. ca_id a = ct_attachment t \<and> ca_capture a = ct_capture t \<and> ca_user a = ct_user t"
  using assms by (auto simp: rows_linked_def)

text \<open>The row of a capture with everything that hangs on it.\<close>

definition capture_view :: "string \<Rightarrow> capture_state \<Rightarrow> capture list \<times> attachment list \<times> transcript list" where
  "capture_view i st = (filter (\<lambda>r. cp_id r = i) (cs_captures st), filter (\<lambda>a. ca_capture a = i) (cs_attachments st),
     filter (\<lambda>t. ct_capture t = i) (cs_transcripts st))"

text \<open>A change that may alter the capture \<open>j\<close> of user \<open>u\<close>, not yet indexed, and nothing else.\<close>

definition touches :: "user_id \<Rightarrow> string \<Rightarrow> capture_state \<Rightarrow> capture_state \<Rightarrow> bool" where
  "touches u j st st' \<longleftrightarrow> (\<forall>r \<in> set (cs_captures st). cp_id r = j \<longrightarrow> cp_user r = u \<and> cp_status r \<noteq> CapIndexed) \<and>
     (\<forall>i. i \<noteq> j \<longrightarrow> capture_view i st' = capture_view i st)"

lemma own_captureD:
  assumes "own_capture env u cid st = Inr r"
  shows "r \<in> set (cs_captures st)" "cp_user r = u" "ce_pg_uuid env cid = Some (cp_id r)" "py_uuid cid"
  using assms by (auto simp: own_capture_def find_Some_iff split: if_splits option.splits)

lemma own_attachmentD:
  assumes "own_attachment env u cid aid st = Inr a"
  shows "a \<in> set (cs_attachments st)" "ca_user a = u" "ce_pg_uuid env cid = Some (ca_capture a)"
  using assms by (auto simp: own_attachment_def find_Some_iff split: option.splits)

lemma capture_unique:
  "distinct (map cp_id caps) \<Longrightarrow> r \<in> set caps \<Longrightarrow> q \<in> set caps \<Longrightarrow> cp_id r = cp_id q \<Longrightarrow> r = q"
  by (auto simp: distinct_map inj_on_def)

lemma own_editable:
  assumes "captures_good env st" and "own_capture env u cid st = Inr r" and "cp_status r \<noteq> CapIndexed"
  shows "\<forall>q \<in> set (cs_captures st). cp_id q = cp_id r \<longrightarrow> cp_user q = u \<and> cp_status q \<noteq> CapIndexed"
proof (intro ballI impI)
  fix q assume "q \<in> set (cs_captures st)" "cp_id q = cp_id r"
  then have "q = r" using capture_unique rows_linkedD(1) captures_goodD(2) [OF assms(1)] own_captureD(1) [OF assms(2)] by metis
  then show "cp_user q = u \<and> cp_status q \<noteq> CapIndexed" using assms(3) own_captureD(2) [OF assms(2)] by simp
qed

lemma touchesI:
  assumes "captures_good env st" and "own_capture env u cid st = Inr r" and "cp_status r \<noteq> CapIndexed"
    and "\<And>i. i \<noteq> cp_id r \<Longrightarrow> capture_view i st' = capture_view i st"
  shows "touches u (cp_id r) st st'"
  using own_editable [OF assms(1-3)] assms(4) by (simp add: touches_def)

lemma filter_update_other:
  "(\<And>r. p r \<Longrightarrow> \<not> q r) \<Longrightarrow> (\<And>r. p r \<Longrightarrow> \<not> q (f r)) \<Longrightarrow> filter q (update_where p f rows) = filter q rows"
  by (induction rows) auto

lemma filter_filter_other: "(\<And>r. r \<in> set rows \<Longrightarrow> q r \<Longrightarrow> p r) \<Longrightarrow> filter q (filter p rows) = filter q rows"
  by (induction rows) auto

lemma update_capture_simps [simp]:
  "cs_attachments (update_capture now i u f st) = cs_attachments st" "cs_transcripts (update_capture now i u f st) = cs_transcripts st"
  "cs_notes (update_capture now i u f st) = cs_notes st" "cs_points (update_capture now i u f st) = cs_points st"
  "cs_files (update_capture now i u f st) = cs_files st" "cs_events (update_capture now i u f st) = cs_events st"
  "cs_audits (update_capture now i u f st) = cs_audits st"
  by (simp_all add: update_capture_def)

lemma view_update_capture:
  "(\<And>r. cp_id (f r) = cp_id r) \<Longrightarrow> i \<noteq> j \<Longrightarrow> capture_view i (update_capture now j u f st) = capture_view i st"
  by (auto simp: capture_view_def update_capture_def intro!: filter_update_other)

lemma update_capture_linked:
  assumes "rows_linked (cs_captures st) atts trs" and "\<And>r. cp_id (f r) = cp_id r \<and> cp_user (f r) = cp_user r"
  shows "rows_linked (cs_captures (update_capture now j u f st)) atts trs"
proof -
  have m: "map cp_id (cs_captures (update_capture now j u f st)) = map cp_id (cs_captures st)"
    "map (\<lambda>r. (cp_id r, cp_user r)) (cs_captures (update_capture now j u f st)) = map (\<lambda>r. (cp_id r, cp_user r)) (cs_captures st)"
    using assms(2) by (simp_all add: update_capture_def map_key_update_where)
  from arg_cong [OF m(2), of set] have "\<exists>r \<in> set (cs_captures (update_capture now j u f st)). cp_id r = x \<and> cp_user r = y"
    if "\<exists>r \<in> set (cs_captures st). cp_id r = x \<and> cp_user r = y" for x y
    using that by (auto simp: image_iff set_eq_iff) metis
  with assms(1) m(1) show ?thesis by (simp add: rows_linked_def)
qed

lemma update_capture_good:
  assumes "captures_good env st" and "\<And>r. cp_id (f r) = cp_id r \<and> cp_user (f r) = cp_user r"
    and "\<And>r. r \<in> set (cs_captures st) \<Longrightarrow> cp_id r = j \<Longrightarrow> cp_user r = u \<Longrightarrow> cp_status (f r) \<noteq> CapIndexed"
  shows "captures_good env (update_capture now j u f st)"
proof (rule captures_goodI)
  note g = captures_goodD [OF assms(1)]
  show "inj (\<lambda>(u, n). ce_point_id env u n)" by (rule g(1))
  show "rows_linked (cs_captures (update_capture now j u f st)) (cs_attachments (update_capture now j u f st))
      (cs_transcripts (update_capture now j u f st))"
    using update_capture_linked [OF g(2) assms(2)] by simp
  fix r assume "r \<in> set (cs_captures (update_capture now j u f st))" "cp_status r = CapIndexed"
  then have "r \<in> set (cs_captures st)" using assms(3) by (auto simp: update_capture_def elim!: in_update_whereE)
  with g(3) \<open>cp_status r = CapIndexed\<close> show "in_memory env (update_capture now j u f st) r" by (simp add: in_memory_def)
qed

subsection \<open>Each operation, one capture\<close>

definition safe_step :: "capture_env \<Rightarrow> user_id \<Rightarrow> capture_state \<Rightarrow> capture_state \<Rightarrow> bool" where
  "safe_step env u st st' \<longleftrightarrow> captures_good env st' \<and> (st' = st \<or> (\<exists>j. touches u j st st'))"

lemma safe_refl: "captures_good env st \<Longrightarrow> safe_step env u st st"
  by (simp add: safe_step_def)

lemma safe_stepI: "captures_good env st' \<Longrightarrow> touches u j st st' \<Longrightarrow> safe_step env u st st'"
  by (auto simp: safe_step_def)

lemma no_rows_of_new:
  assumes "rows_linked (cs_captures st) (cs_attachments st) (cs_transcripts st)" and "j \<notin> cp_id ` set (cs_captures st)"
  shows "a \<in> set (cs_attachments st) \<Longrightarrow> ca_capture a \<noteq> j" "t \<in> set (cs_transcripts st) \<Longrightarrow> ct_capture t \<noteq> j"
  using rows_linkedD(4,5) [OF assms(1)] assms(2) by (metis image_eqI)+

lemma create_row_safe:
  assumes "captures_good env st" and "i \<notin> cp_id ` set (cs_captures st)"
    and "cp_id r = i" and "cp_status r \<noteq> CapIndexed"
  shows "safe_step env u st (st\<lparr>cs_captures := cs_captures st @ [r]\<rparr>)"
proof (rule safe_stepI)
  note g = captures_goodD [OF assms(1)]
  let ?st = "st\<lparr>cs_captures := cs_captures st @ [r]\<rparr>"
  have "rows_linked (cs_captures ?st) (cs_attachments ?st) (cs_transcripts ?st)"
    using g(2) assms(2,3) by (auto simp: rows_linked_def)
  moreover have "in_memory env ?st q" if "q \<in> set (cs_captures ?st)" "cp_status q = CapIndexed" for q
    using that g(3) assms(4) by (auto simp: in_memory_def)
  ultimately show "captures_good env ?st" using g(1) by (intro captures_goodI)
  have "cp_id q \<noteq> i" if "q \<in> set (cs_captures st)" for q using assms(2) that by auto
  then show "touches u i st ?st" using assms(3) by (auto simp: touches_def capture_view_def)
qed

lemma create_capture_safe:
  assumes "captures_good env st" shows "safe_step env v st (snd (create_capture now i u b st))"
proof -
  define t url title where tut: "t = normalize_text (cb_text b)" "url = normalize_text (cb_url b)" "title = normalize_text (cb_title b)"
  let ?r = "new_capture now i u (derive_capture_type t url) title t url (cb_client b) (cb_tags b)"
  have "snd (create_capture now i u b st) = st \<or>
      i \<notin> cp_id ` set (cs_captures st) \<and> snd (create_capture now i u b st) = st\<lparr>cs_captures := cs_captures st @ [?r]\<rparr>"
    unfolding create_capture_def Let_def tut by (simp split: option.split)
  then show ?thesis
    using safe_refl [OF assms] create_row_safe [OF assms, of i ?r v] by (auto simp: new_capture_def)
qed

lemma create_safe:
  assumes "captures_good env st"
  shows "safe_step env v st (snd (create_capture_route now i u b st))" "safe_step env v st (snd (create_capture_text now i u t title scope tags st))"
  using create_capture_safe [OF assms] safe_refl [OF assms] by (simp_all add: create_capture_route_def create_capture_text_def)

lemma patch_safe:
  assumes "captures_good env st" shows "safe_step env u st (snd (patch_capture env now u cid b st))"
proof (cases "own_capture env u cid st")
  case (Inl e)
  with safe_refl [OF assms] show ?thesis by (simp add: patch_capture_def)
next
  case (Inr r)
  define f where "f tn title un tags =
      (\<lambda>x :: capture. x\<lparr>cp_text := tn, cp_title := title, cp_url := un, cp_tags := tags, cp_type := derive_capture_type tn un\<rparr>)" for tn title un tags
  let ?t = "case pb_text b of Some v \<Rightarrow> normalize_text v | None \<Rightarrow> cp_text r"
  let ?url = "case pb_url b of Some v \<Rightarrow> normalize_text v | None \<Rightarrow> cp_url r"
  have "snd (patch_capture env now u cid b st) = st \<or> cp_status r \<noteq> CapIndexed \<and> snd (patch_capture env now u cid b st) =
      update_capture now (cp_id r) u (f (normalize_text ?t) (case pb_title b of Some v \<Rightarrow> normalize_text v | None \<Rightarrow> cp_title r)
        (normalize_text ?url) (case pb_tags b of Some (Some ts) \<Rightarrow> Some ts | _ \<Rightarrow> cp_tags r)) st"
    by (simp add: patch_capture_def Inr Let_def f_def)
  then consider "snd (patch_capture env now u cid b st) = st"
    | tn title un tags where "cp_status r \<noteq> CapIndexed"
      "snd (patch_capture env now u cid b st) = update_capture now (cp_id r) u (f tn title un tags) st"
    by blast
  then show ?thesis
  proof cases
    case 2
    have keep: "cp_id (f tn title un tags x) = cp_id x \<and> cp_user (f tn title un tags x) = cp_user x" for x
      by (simp add: f_def)
    have "captures_good env (update_capture now (cp_id r) u (f tn title un tags) st)"
      using own_editable [OF assms Inr 2(1)] by (intro update_capture_good assms keep) (simp add: f_def)
    moreover have "touches u (cp_id r) st (update_capture now (cp_id r) u (f tn title un tags) st)"
      using keep by (intro touchesI [OF assms Inr 2(1)] view_update_capture) auto
    ultimately show ?thesis by (simp add: 2(2) safe_stepI)
  qed (simp add: safe_refl [OF assms])
qed

lemma remove_capture_linked:
  assumes "rows_linked caps atts trs"
  shows "rows_linked (filter (\<lambda>x. \<not> (cp_id x = i \<and> cp_user x = u)) caps) (filter (\<lambda>a. ca_capture a \<noteq> i) atts)
    (filter (\<lambda>t. ct_capture t \<noteq> i) trs)"
  using assms unfolding rows_linked_def by (auto simp: distinct_map_filter) (metis, metis)

lemma delete_safe:
  assumes "captures_good env st" shows "safe_step env u st (snd (delete_capture env u cid st))"
proof (cases "own_capture env u cid st")
  case (Inl e)
  with safe_refl [OF assms] show ?thesis by (simp add: delete_capture_def)
next
  case (Inr r)
  show ?thesis
  proof (cases "cp_status r = CapIndexed")
    case True
    with safe_refl [OF assms] Inr show ?thesis by (simp add: delete_capture_def)
  next
    case False
    let ?st = "snd (delete_capture env u cid st)"
    have eq: "cs_captures ?st = filter (\<lambda>x. \<not> (cp_id x = cp_id r \<and> cp_user x = u)) (cs_captures st)"
      "cs_attachments ?st = filter (\<lambda>a. ca_capture a \<noteq> cp_id r) (cs_attachments st)"
      "cs_transcripts ?st = filter (\<lambda>t. ct_capture t \<noteq> cp_id r) (cs_transcripts st)"
      "cs_notes ?st = cs_notes st" "cs_points ?st = cs_points st"
      using Inr False by (simp_all add: delete_capture_def Let_def)
    note g = captures_goodD [OF assms]
    have "captures_good env ?st"
      using g(1) remove_capture_linked [OF g(2)] g(3) by (intro captures_goodI) (auto simp: eq in_memory_def)
    moreover have "touches u (cp_id r) st ?st"
      by (rule touchesI [OF assms Inr False]) (auto simp: capture_view_def eq intro!: filter_cong)
    ultimately show ?thesis by (rule safe_stepI)
  qed
qed

lemma attach_row_linked:
  assumes "rows_linked caps atts trs" and "r \<in> set caps" and "ca_capture a = cp_id r" and "ca_user a = cp_user r"
    and "ca_id a \<notin> ca_id ` set atts"
  shows "rows_linked caps (atts @ [a]) trs"
  using assms unfolding rows_linked_def by auto


lemma files_irrelevant [simp]:
  "captures_good env (st\<lparr>cs_files := fs\<rparr>) = captures_good env st" "touches u j st (st'\<lparr>cs_files := fs\<rparr>) = touches u j st st'"
  by (simp_all add: captures_good_def in_memory_def touches_def capture_view_def)

lemma attach_row_safe:
  assumes "captures_good env st" and "own_capture env u cid st = Inr r" and "cp_status r \<noteq> CapIndexed"
    and "ca_capture a = cp_id r" and "ca_user a = u" and "ca_id a \<notin> ca_id ` set (cs_attachments st)"
    and "st1 = st\<lparr>cs_files := fs, cs_attachments := cs_attachments st @ [a]\<rparr>"
  shows "captures_good env st1" and "touches u (cp_id r) st st1"
proof -
  note g = captures_goodD [OF assms(1)]
  show "captures_good env st1"
    using g(1,3) attach_row_linked [OF g(2) own_captureD(1) [OF assms(2)] assms(4) _ assms(6)] own_captureD(2) [OF assms(2)] assms(5,7)
    by (intro captures_goodI) (simp_all add: in_memory_def)
  show "touches u (cp_id r) st st1"
    using assms(4,7) by (intro touchesI [OF assms(1-3)]) (auto simp: capture_view_def)
qed

lemma update_type_safe:
  assumes "captures_good env st1" and "touches u j st st1" and "\<forall>q \<in> set (cs_captures st1). cp_id q = j \<longrightarrow> cp_status q \<noteq> CapIndexed"
  shows "captures_good env (update_capture now j u (\<lambda>x. x\<lparr>cp_type := ty\<rparr>) st1) \<and>
    touches u j st (update_capture now j u (\<lambda>x. x\<lparr>cp_type := ty\<rparr>) st1)"
proof
  show "captures_good env (update_capture now j u (\<lambda>x. x\<lparr>cp_type := ty\<rparr>) st1)"
    using assms(3) by (intro update_capture_good assms(1)) auto
  show "touches u j st (update_capture now j u (\<lambda>x. x\<lparr>cp_type := ty\<rparr>) st1)"
    using assms(2) by (simp add: touches_def view_update_capture)
qed

lemma store_safe:
  assumes "captures_good env st" and "own_capture env u cid st = Inr r" and "cp_status r \<noteq> CapIndexed"
  shows "safe_step env u st (snd (store_attachment env now aid write_ok insert_ok u cid r content mime filename lc st))"
    (is "safe_step env u st ?st'")
proof -
  define row where "row kml = new_attachment env now aid (cp_id r) u cid kml content filename lc" for kml
  define st1 where "st1 kml p = st\<lparr>cs_files := (p, content) # drop_file p (cs_files st), cs_attachments := cs_attachments st @ [row kml]\<rparr>" for kml p
  have "?st' = st \<or> (\<exists>fs. ?st' = st\<lparr>cs_files := fs\<rparr>) \<or>
      aid \<notin> ca_id ` set (cs_attachments st) \<and> (\<exists>kml p ty. ?st' = st1 kml p \<or>
        ?st' = update_capture now (cp_id r) u (\<lambda>x. x\<lparr>cp_type := ty\<rparr>) (st1 kml p))"
    by (simp add: store_attachment_def Let_def st1_def row_def split: sum.split option.split prod.split) blast
  then consider "?st' = st" | fs where "?st' = st\<lparr>cs_files := fs\<rparr>"
    | kml p ty where "aid \<notin> ca_id ` set (cs_attachments st)"
        "?st' = st1 kml p \<or> ?st' = update_capture now (cp_id r) u (\<lambda>x. x\<lparr>cp_type := ty\<rparr>) (st1 kml p)"
    by blast
  then show ?thesis
  proof cases
    case 1
    then show ?thesis by (simp add: safe_refl [OF assms(1)])
  next
    case 2
    have "touches u (cp_id r) st st" by (rule touchesI [OF assms]) simp
    then show ?thesis using 2 assms(1) by (intro safe_stepI [of env _ u "cp_id r"]) simp_all
  next
    case 3
    have fields: "ca_capture (row kml) = cp_id r" "ca_user (row kml) = u" "ca_id (row kml) = aid"
      by (simp_all add: row_def new_attachment_def split: prod.split)
    have s1: "captures_good env (st1 kml p)" "touches u (cp_id r) st (st1 kml p)"
      by (rule attach_row_safe [OF assms fields(1,2) _ st1_def]; use 3(1) fields(3) in simp)+
    have "\<forall>q \<in> set (cs_captures (st1 kml p)). cp_id q = cp_id r \<longrightarrow> cp_status q \<noteq> CapIndexed"
      using own_editable [OF assms] by (simp add: st1_def)
    from update_type_safe [OF s1 this] s1 3(2) show ?thesis by (metis safe_stepI)
  qed
qed

lemma attach_safe:
  assumes "captures_good env st"
  shows "safe_step env u st (snd (add_capture_attachment env now aid write_ok insert_ok u cid content mime filename client st))"
proof (cases "own_capture env u cid st")
  case (Inl e)
  with safe_refl [OF assms] show ?thesis by (simp add: add_capture_attachment_def)
next
  case (Inr r)
  show ?thesis
  proof (cases "cp_status r = CapIndexed")
    case True
    with safe_refl [OF assms] Inr show ?thesis by (simp add: add_capture_attachment_def)
  next
    case False
    show ?thesis using store_safe [OF assms Inr False] safe_refl [OF assms]
      by (simp add: add_capture_attachment_def Inr False Let_def split: option.split)
  qed
qed

lemma find_SomeD: "find P xs = Some x \<Longrightarrow> x \<in> set xs \<and> P x"
  by (auto simp: find_Some_iff)

lemma remove_attachment_linked:
  assumes "rows_linked caps atts trs" and "a \<in> set atts"
  shows "rows_linked caps (filter (\<lambda>x. \<not> (ca_id x = ca_id a \<and> ca_capture x = ca_capture a \<and> ca_user x = ca_user a)) atts)
    (filter (\<lambda>t. ct_attachment t \<noteq> ca_id a) trs)"
proof -
  have "ca_id x = ca_id a \<Longrightarrow> x \<in> set atts \<Longrightarrow> x = a" for x
    using rows_linkedD(2) [OF assms(1)] assms(2) by (auto simp: distinct_map inj_on_def)
  then show ?thesis
    using assms(1) unfolding rows_linked_def by (auto simp: distinct_map_filter) (metis)
qed

lemma transcript_of_attachment:
  assumes "rows_linked caps atts trs" and "a \<in> set atts" and "t \<in> set trs" and "ct_attachment t = ca_id a"
  shows "ct_capture t = ca_capture a" "ct_user t = ca_user a"
proof -
  obtain b where b: "b \<in> set atts" "ca_id b = ct_attachment t" "ca_capture b = ct_capture t" "ca_user b = ct_user t"
    using rows_linkedD(5) [OF assms(1,3)] by blast
  have "b = a"
    using rows_linkedD(2) [OF assms(1)] b(1,2) assms(2,4) by (auto simp: distinct_map inj_on_def)
  with b show "ct_capture t = ca_capture a" "ct_user t = ca_user a" by simp_all
qed

lemma detach_safe:
  assumes "captures_good env st" shows "safe_step env u st (snd (delete_capture_attachment env u cid aid st))"
proof -
  let ?st' = "snd (delete_capture_attachment env u cid aid st)"
  have "?st' = st \<or> (\<exists>r a. own_capture env u cid st = Inr r \<and> cp_status r \<noteq> CapIndexed \<and> own_attachment env u cid aid st = Inr a \<and>
      ?st' = st\<lparr>cs_files := unlink_key env (ca_key a) (cs_files st),
         cs_attachments := filter (\<lambda>x. \<not> (ca_id x = ca_id a \<and> ca_capture x = ca_capture a \<and> ca_user x = u)) (cs_attachments st),
         cs_transcripts := filter (\<lambda>t. ct_attachment t \<noteq> ca_id a) (cs_transcripts st)\<rparr>)"
    by (simp add: delete_capture_attachment_def split: sum.split)
  then consider "?st' = st" | r a where "own_capture env u cid st = Inr r" "cp_status r \<noteq> CapIndexed" "own_attachment env u cid aid st = Inr a"
      "?st' = st\<lparr>cs_files := unlink_key env (ca_key a) (cs_files st),
         cs_attachments := filter (\<lambda>x. \<not> (ca_id x = ca_id a \<and> ca_capture x = ca_capture a \<and> ca_user x = u)) (cs_attachments st),
         cs_transcripts := filter (\<lambda>t. ct_attachment t \<noteq> ca_id a) (cs_transcripts st)\<rparr>"
    by blast
  then show ?thesis
  proof cases
    case 1
    then show ?thesis by (simp add: safe_refl [OF assms])
  next
    case 2
    note g = captures_goodD [OF assms] and a = own_attachmentD [OF 2(3)]
    have j: "ca_capture a = cp_id r" using own_captureD(3) [OF 2(1)] a(3) by simp
    have "captures_good env ?st'"
      using g(1,3) remove_attachment_linked [OF g(2) a(1)] a(2) by (intro captures_goodI) (simp_all add: 2(4) in_memory_def)
    moreover have "touches u (cp_id r) st ?st'"
      using transcript_of_attachment(1) [OF g(2) a(1)] j
      by (intro touchesI [OF assms 2(1,2)]) (auto simp: 2(4) capture_view_def intro!: filter_cong)
    ultimately show ?thesis by (rule safe_stepI)
  qed
qed

lemma prepared:
  assumes "prepare_capture_transcribe env u cid aid st = Inr (a, upd, fin)"
  obtains r where "own_capture env u cid st = Inr r" "cp_status r \<noteq> CapIndexed" "a \<in> set (cs_attachments st)"
    "ca_capture a = cp_id r" "ca_user a = u"
    "\<And>i. fin = None \<Longrightarrow> upd = Some i \<Longrightarrow> \<exists>t \<in> set (cs_transcripts st). ct_id t = i \<and> ct_capture t = cp_id r"
proof -
  have tgt: "b = a \<and> (fin = None \<longrightarrow> upd = Some i \<longrightarrow> (\<exists>t \<in> set (cs_transcripts st). ct_id t = i \<and> ct_capture t = c))"
    if "target_of u c st b = (a, upd, fin)" for b c i
    using that least_by_in by (fastforce simp: target_of_def latest_transcript_for_attachment_def Let_def split: if_splits)
  obtain r where r: "own_capture env u cid st = Inr r" "cp_status r \<noteq> CapIndexed"
    using assms by (auto simp: prepare_capture_transcribe_def split: sum.splits if_splits)
  have "\<exists>b. b \<in> set (cs_attachments st) \<and> ca_capture b = cp_id r \<and> ca_user b = u \<and> target_of u (cp_id r) st b = (a, upd, fin)"
  proof (cases "case aid of Some s \<Rightarrow> if s = [] then None else Some (py_strip s) | None \<Rightarrow> None")
    case None
    then obtain b where "find (\<lambda>a. \<not> transcript_complete_nonempty (latest_transcript_for_attachment u (cp_id r) (ca_id a) st))
        (filter is_transcribable_audio_attachment (filter (\<lambda>a. ca_kind a = ''audio'') (attachments_of u (cp_id r) st))) = Some b"
      "target_of u (cp_id r) st b = (a, upd, fin)"
      using assms r by (auto simp: prepare_capture_transcribe_def split: option.splits)
    then show ?thesis by (auto dest!: find_SomeD simp: attachments_of_def)
  next
    case (Some x)
    then obtain b where "own_attachment env u cid x st = Inr b" "target_of u (cp_id r) st b = (a, upd, fin)"
      using assms r by (auto simp: prepare_capture_transcribe_def split: sum.splits if_splits)
    then show ?thesis using own_attachmentD own_captureD(3) [OF r(1)] by fastforce
  qed
  with tgt that r show ?thesis by metis
qed

lemma filter_update_absent:
  "(\<And>r. r \<in> set rows \<Longrightarrow> p r \<Longrightarrow> \<not> q r \<and> \<not> q (f r)) \<Longrightarrow> filter q (update_where p f rows) = filter q rows"
  by (induction rows) auto

lemma transcript_update_linked:
  assumes "rows_linked caps atts trs" and "\<And>t. ct_id (f t) = ct_id t \<and> ct_capture (f t) = ct_capture t \<and>
      ct_attachment (f t) = ct_attachment t \<and> ct_user (f t) = ct_user t"
  shows "rows_linked caps atts (update_where p f trs)"
proof -
  have "map ct_id (update_where p f trs) = map ct_id trs" using assms(2) by (simp add: map_key_update_where)
  moreover have "\<exists>a \<in> set atts. ca_id a = ct_attachment t \<and> ca_capture a = ct_capture t \<and> ca_user a = ct_user t"
    if "t \<in> set (update_where p f trs)" for t
    using that rows_linkedD(5) [OF assms(1)] assms(2) by (elim in_update_whereE) auto
  ultimately show ?thesis using assms(1) by (simp add: rows_linked_def)
qed

lemma finish_safe:
  assumes good: "captures_good env st" and own: "own_capture env u cid st = Inr r" "cp_status r \<noteq> CapIndexed"
    and att: "a \<in> set (cs_attachments st)" "ca_capture a = cp_id r" "ca_user a = u"
    and upd: "\<And>i. upd = Some i \<Longrightarrow> \<exists>t \<in> set (cs_transcripts st). ct_id t = i \<and> ct_capture t = cp_id r"
  shows "safe_step env u st (snd (finish_capture_transcribe now tid u (cp_id r) (ca_id a) upd res st))"
proof -
  note g = captures_goodD [OF good]
  define fill where "fill = (\<lambda>t :: transcript. t\<lparr>ct_provider := Some (sr_provider res), ct_model := sr_model res, ct_text := normalize_text (Some (sr_text res)),
     ct_complete := (normalize_text (Some (sr_text res)) \<noteq> None), ct_language := sr_language res,
     ct_error := (if normalize_text (Some (sr_text res)) = None then Some ''stt_empty_transcript'' else None)\<rparr>)"
  have keep: "ct_id (fill t) = ct_id t \<and> ct_capture (fill t) = ct_capture t \<and> ct_attachment (fill t) = ct_attachment t \<and> ct_user (fill t) = ct_user t" for t
    by (simp add: fill_def)
  have safe: "safe_step env u st st'" if "st' = st\<lparr>cs_transcripts := trs\<rparr>" "rows_linked (cs_captures st) (cs_attachments st) trs"
    "\<And>i. i \<noteq> cp_id r \<Longrightarrow> filter (\<lambda>t. ct_capture t = i) trs = filter (\<lambda>t. ct_capture t = i) (cs_transcripts st)" for st' trs
  proof (rule safe_stepI)
    show "captures_good env st'" using that(1,2) g(1,3) by (intro captures_goodI) (simp_all add: in_memory_def)
    show "touches u (cp_id r) st st'" by (rule touchesI [OF good own]) (simp add: that capture_view_def)
  qed
  show ?thesis
  proof (cases upd)
    case (Some i)
    let ?trs = "update_where (\<lambda>t. ct_id t = i \<and> ct_user t = u) fill (cs_transcripts st)"
    obtain t where t: "t \<in> set (cs_transcripts st)" "ct_id t = i" "ct_capture t = cp_id r" using upd [OF Some] by blast
    have "x = t" if "x \<in> set (cs_transcripts st)" "ct_id x = i" for x
      using that t(1,2) rows_linkedD(3) [OF g(2)] by (auto simp: distinct_map inj_on_def)
    then have "filter (\<lambda>x. ct_capture x = k) ?trs = filter (\<lambda>x. ct_capture x = k) (cs_transcripts st)" if "k \<noteq> cp_id r" for k
      using that t(3) keep by (intro filter_update_absent) auto
    moreover have "snd (finish_capture_transcribe now tid u (cp_id r) (ca_id a) upd res st) = st\<lparr>cs_transcripts := ?trs\<rparr>"
      by (simp add: finish_capture_transcribe_def Some Let_def fill_def split: option.split)
    ultimately show ?thesis using transcript_update_linked [OF g(2) keep] by (intro safe [where trs = ?trs]) simp_all
  next
    case None
    define t where "t = fill \<lparr>ct_id = tid, ct_capture = cp_id r, ct_attachment = ca_id a, ct_user = u, ct_provider = None, ct_model = None,
       ct_text = None, ct_complete = False, ct_language = None, ct_error = None, ct_created = now\<rparr>"
    have "snd (finish_capture_transcribe now tid u (cp_id r) (ca_id a) upd res st) = st \<or> tid \<notin> ct_id ` set (cs_transcripts st) \<and>
        snd (finish_capture_transcribe now tid u (cp_id r) (ca_id a) upd res st) = st\<lparr>cs_transcripts := cs_transcripts st @ [t]\<rparr>"
      by (simp add: finish_capture_transcribe_def None Let_def fill_def t_def)
    moreover have "safe_step env u st (st\<lparr>cs_transcripts := cs_transcripts st @ [t]\<rparr>)" if "tid \<notin> ct_id ` set (cs_transcripts st)"
    proof (rule safe [OF refl])
      show "rows_linked (cs_captures st) (cs_attachments st) (cs_transcripts st @ [t])"
        using g(2) att that by (auto simp: rows_linked_def t_def fill_def)
    qed (simp add: t_def fill_def)
    ultimately show ?thesis using safe_refl [OF good] by metis
  qed
qed

lemma transcribe_safe:
  assumes "captures_good env st" shows "safe_step env u st (snd (transcribe_capture env stt now tid u cid aid st))"
proof -
  let ?aid = "case aid of None \<Rightarrow> None | Some s \<Rightarrow> if s = [] then None else Some (py_strip s)"
  show ?thesis
  proof (cases "prepare_capture_transcribe env u cid ?aid st")
    case (Inl e)
    then show ?thesis using safe_refl [OF assms] by (simp add: transcribe_capture_def)
  next
    case (Inr p)
    obtain a upd fin where p: "p = (a, upd, fin)" by (cases p)
    show ?thesis
    proof (rule prepared [OF Inr [unfolded p]])
      fix r assume r: "own_capture env u cid st = Inr r" "cp_status r \<noteq> CapIndexed" "a \<in> set (cs_attachments st)"
        "ca_capture a = cp_id r" "ca_user a = u"
        "\<And>i. fin = None \<Longrightarrow> upd = Some i \<Longrightarrow> \<exists>t \<in> set (cs_transcripts st). ct_id t = i \<and> ct_capture t = cp_id r"
      have "safe_step env u st (snd (finish_capture_transcribe now tid u (cp_id r) (ca_id a) upd res st))" if "fin = None" for res
        using finish_safe [OF assms r(1-5)] r(6) [OF that] by blast
      then show ?thesis
        using safe_refl [OF assms] own_captureD(3) [OF r(1)]
        by (simp add: transcribe_capture_def Inr p split: option.split sum.split)
    qed
  qed
qed

lemma index_checkD:
  assumes "index_check env u cid st = Inr (r, t)"
  obtains q where "own_capture env u cid st = Inr q" "cp_status q \<noteq> CapIndexed" "cp_id r = cp_id q"
    "t = combined_capture_memory_text (r, attachments_of u (cp_id q) st, transcripts_of u (cp_id q) st)"
    "audio_transcripts_ready_for_index (r, attachments_of u (cp_id q) st, transcripts_of u (cp_id q) st)" "py_strip t \<noteq> []"
  using assms by (auto simp: index_check_def get_capture_def Let_def split: sum.splits if_splits)

text \<open>A fresh note and its point do not disturb those of other indexed captures.\<close>

lemma in_memory_fresh:
  assumes "in_memory env st r" and "inj (\<lambda>(u, n). ce_point_id env u n)" and "note_id \<notin> nt_id ` set (cs_notes st)"
    and "cs_notes st' = cs_notes st @ [x]" and "nt_id x = note_id"
    and "cs_points st' = cs_points st \<or> cs_points st' = dict_set (ce_point_id env u note_id) p (cs_points st)"
  shows "in_memory env st' r"
proof -
  obtain y where y: "y \<in> set (cs_notes st)" "cp_note r = Some (nt_id y)" "nt_user y = cp_user r"
    "map_of (cs_points st) (ce_point_id env (cp_user r) (nt_id y)) = Some (point_payload (nt_id y) (nt_text y) (cp_user r))"
    using assms(1) by (auto simp: in_memory_def)
  have "ce_point_id env (cp_user r) (nt_id y) \<noteq> ce_point_id env u note_id"
    using assms(2,3) y(1) by (auto dest!: injD [of _ "(cp_user r, nt_id y)" "(u, note_id)"])
  then have "map_of (cs_points st') (ce_point_id env (cp_user r) (nt_id y)) = Some (point_payload (nt_id y) (nt_text y) (cp_user r))"
    using assms(6) y(4) by auto
  with y show ?thesis unfolding in_memory_def assms(4) by auto
qed

lemma mark_failed_good:
  assumes "captures_good env st" and "\<And>x. cp_id (f x) = cp_id x \<and> cp_user (f x) = cp_user x \<and> cp_status (f x) = CapFailed"
  shows "captures_good env (update_capture now j u f st)"
  using assms by (intro update_capture_good) auto

lemma filter_fresh: "note_id \<notin> nt_id ` set ns \<Longrightarrow> filter (\<lambda>n. nt_id n \<noteq> note_id) ns = ns"
  by (induction ns) auto

text \<open>The last update makes the row indexed, and its note and point are there.\<close>

lemma mark_indexed_good:
  assumes "captures_good env st" and "x \<in> set (cs_notes st)" and "nt_user x = u"
    and "map_of (cs_points st) (ce_point_id env u (nt_id x)) = Some (point_payload (nt_id x) (nt_text x) u)"
  shows "captures_good env (update_capture now j u
    (\<lambda>r. r\<lparr>cp_status := CapIndexed, cp_note := Some (nt_id x), cp_indexed := Some now, cp_error := None\<rparr>) st)" (is "captures_good env ?st")
proof (rule captures_goodI)
  note g = captures_goodD [OF assms(1)]
  show "inj (\<lambda>(u, n). ce_point_id env u n)" by (rule g(1))
  show "rows_linked (cs_captures ?st) (cs_attachments ?st) (cs_transcripts ?st)"
    using update_capture_linked [OF g(2)] by simp
  fix r assume "r \<in> set (cs_captures ?st)" "cp_status r = CapIndexed"
  then consider "r \<in> set (cs_captures st)" | q where "cp_user q = u"
      "r = q\<lparr>cp_status := CapIndexed, cp_note := Some (nt_id x), cp_indexed := Some now, cp_error := None, cp_updated := now\<rparr>"
    by (auto simp: update_capture_def elim!: in_update_whereE)
  then show "in_memory env ?st r"
    using g(3) \<open>cp_status r = CapIndexed\<close> assms(2-4) by cases (auto simp: in_memory_def)
qed

lemma with_note_good:
  assumes "captures_good env st" and "nt_id x \<notin> nt_id ` set (cs_notes st)"
    and "st' = st\<lparr>cs_notes := cs_notes st @ [x]\<rparr> \<or>
      st' = st\<lparr>cs_notes := cs_notes st @ [x], cs_points := dict_set (ce_point_id env u (nt_id x)) p (cs_points st)\<rparr>"
  shows "captures_good env st'" and "capture_view i st' = capture_view i st"
proof -
  note g = captures_goodD [OF assms(1)]
  have st': "cs_captures st' = cs_captures st" "cs_attachments st' = cs_attachments st" "cs_transcripts st' = cs_transcripts st"
    "cs_notes st' = cs_notes st @ [x]"
    "cs_points st' = cs_points st \<or> cs_points st' = dict_set (ce_point_id env u (nt_id x)) p (cs_points st)"
    using assms(3) by auto
  show "captures_good env st'"
    using g(1,2) in_memory_fresh [OF g(3) g(1) assms(2) st'(4) refl st'(5)] by (intro captures_goodI) (auto simp: st')
  show "capture_view i st' = capture_view i st" by (simp add: capture_view_def st')
qed

lemma index_commit_safe:
  assumes good: "captures_good env st" and own: "own_capture env u cid st = Inr q" "cp_status q \<noteq> CapIndexed" and "cp_id r = cp_id q"
  shows "safe_step env u st (snd (index_commit env now note_id memory cleanup_ok commit_ok u cid (r, t) st))" (is "safe_step _ _ _ ?st'")
proof (cases "note_id \<in> nt_id ` set (cs_notes st)")
  case True
  with safe_refl [OF good] show ?thesis by (simp add: index_commit_def)
next
  case False
  define x where "x = \<lparr>nt_id = note_id, nt_text = t, nt_user = u, nt_source = ''lumogis_web_capture''\<rparr>"
  have x: "nt_id x = note_id" "nt_text x = t" "nt_user x = u" by (simp_all add: x_def)
  define st1 where "st1 = st\<lparr>cs_notes := cs_notes st @ [x]\<rparr>"
  have f: "nt_id x \<notin> nt_id ` set (cs_notes st)" using False x by simp
  have keep: "cp_id (x\<lparr>cp_status := s, cp_error := e\<rparr>) = cp_id x" "cp_id (x\<lparr>cp_status := s, cp_note := n, cp_indexed := d, cp_error := e\<rparr>) = cp_id x"
    for x :: capture and s e n d by simp_all
  have touch: "touches u (cp_id q) st st2" if "\<And>i. i \<noteq> cp_id q \<Longrightarrow> capture_view i st2 = capture_view i st" for st2
    using touchesI [OF good own that] .
  show ?thesis
  proof (cases memory)
    case (Some e)
    define st2 where "st2 = (if cleanup_ok then st else st1)"
    have "captures_good env st2" and v: "capture_view i st2 = capture_view i st" for i
      using good with_note_good [OF good f disjI1 [OF st1_def]] by (auto simp: st2_def)
    then have "captures_good env (update_capture now (cp_id q) u (\<lambda>x. x\<lparr>cp_status := CapFailed, cp_error := Some (short_index_error e)\<rparr>) st2)"
      by (intro mark_failed_good) auto
    moreover have "touches u (cp_id q) st (update_capture now (cp_id q) u (\<lambda>x. x\<lparr>cp_status := CapFailed, cp_error := Some (short_index_error e)\<rparr>) st2)"
      using v by (intro touch) (simp add: view_update_capture)
    moreover have "?st' = update_capture now (cp_id q) u (\<lambda>x. x\<lparr>cp_status := CapFailed, cp_error := Some (short_index_error e)\<rparr>) st2"
      using False filter_fresh [OF False] assms(4) by (simp add: index_commit_def Some Let_def st2_def st1_def x_def)
    ultimately show ?thesis by (simp add: safe_stepI)
  next
    case None
    define st2 where "st2 = st\<lparr>cs_notes := cs_notes st @ [x],
       cs_points := dict_set (ce_point_id env u (nt_id x)) (point_payload note_id t u) (cs_points st)\<rparr>"
    note w = with_note_good [OF good f disjI2 [OF st2_def]]
    let ?f = "\<lambda>r :: capture. r\<lparr>cp_status := CapIndexed, cp_note := Some (nt_id x), cp_indexed := Some now, cp_error := None\<rparr>"
    define st3 where "st3 = update_capture now (cp_id q) u ?f st2"
    have st': "?st' = (if commit_ok then st3\<lparr>cs_events := cs_events st3 @ [(note_id, u)],
        cs_audits := cs_audits st3 @ [(u, [(''capture_id'', JStr cid)], [(''note_id'', JStr note_id), (''status'', JStr ''indexed'')])]\<rparr> else st2)"
      using False assms(4) by (simp add: index_commit_def None Let_def st3_def st2_def x_def)
    have g3: "captures_good env st3"
      unfolding st3_def using w(1) by (rule mark_indexed_good) (simp_all add: st2_def x)
    have v3: "capture_view i st3 = capture_view i st" if "i \<noteq> cp_id q" for i
      using that w(2) by (simp add: st3_def view_update_capture)
    have "captures_good env ?st'"
      using g3 w(1) by (simp add: st' captures_good_def in_memory_def)
    moreover have "touches u (cp_id q) st ?st'"
      using v3 w(2) by (intro touch) (simp add: st' capture_view_def)
    ultimately show ?thesis by (rule safe_stepI)
  qed
qed

lemma index_safe:
  assumes "captures_good env st" shows "safe_step env u st (snd (index_capture env now note_id memory cleanup_ok commit_ok u cid st))"
proof (cases "index_check env u cid st")
  case (Inl e)
  with safe_refl [OF assms] show ?thesis by (simp add: index_capture_def)
next
  case (Inr p)
  obtain r t where p: "p = (r, t)" by (cases p)
  have "snd (index_capture env now note_id memory cleanup_ok commit_ok u cid st) =
      snd (index_commit env now note_id memory cleanup_ok commit_ok u cid (r, t) st)"
    by (simp add: index_capture_def Inr p split: prod.split sum.split)
  with Inr p index_commit_safe [OF assms] show ?thesis by (auto elim!: index_checkD)
qed

subsection \<open>Requests in any order\<close>

datatype capture_request =
    CapCreate string user_id create_body
  | CapText string user_id string "string option" string "string list option"
  | CapPatch user_id string patch_body
  | CapDelete user_id string
  | CapAttach string bool bool user_id string string "string option" "string option" "string option"
  | CapDetach user_id string string
  | CapTranscribe stt_env string user_id string "string option"
  | CapIndex string "string option" bool bool user_id string

primrec request_user :: "capture_request \<Rightarrow> user_id" where
  "request_user (CapCreate i u b) = u"
| "request_user (CapText i u t title scope tags) = u"
| "request_user (CapPatch u cid b) = u"
| "request_user (CapDelete u cid) = u"
| "request_user (CapAttach aid w ins u cid content mime name client) = u"
| "request_user (CapDetach u cid aid) = u"
| "request_user (CapTranscribe stt tid u cid aid) = u"
| "request_user (CapIndex n memory cleanup commit u cid) = u"

fun capture_apply :: "capture_env \<Rightarrow> capture_state \<Rightarrow> instant \<times> capture_request \<Rightarrow> capture_state" where
  "capture_apply env st (now, CapCreate i u b) = snd (create_capture_route now i u b st)"
| "capture_apply env st (now, CapText i u t title scope tags) = snd (create_capture_text now i u t title scope tags st)"
| "capture_apply env st (now, CapPatch u cid b) = (if patch_body_ok b then snd (patch_capture env now u cid b st) else st)"
| "capture_apply env st (now, CapDelete u cid) = snd (delete_capture env u cid st)"
| "capture_apply env st (now, CapAttach aid w ins u cid content mime name client) =
     snd (add_capture_attachment env now aid w ins u cid content mime name client st)"
| "capture_apply env st (now, CapDetach u cid aid) = snd (delete_capture_attachment env u cid aid st)"
| "capture_apply env st (now, CapTranscribe stt tid u cid aid) = snd (transcribe_capture env stt now tid u cid aid st)"
| "capture_apply env st (now, CapIndex n memory cleanup commit u cid) = snd (index_capture env now n memory cleanup commit u cid st)"

lemmas operations_safe = create_safe patch_safe delete_safe attach_safe detach_safe transcribe_safe index_safe

lemma apply_safe:
  assumes "captures_good env st" shows "safe_step env (request_user (snd e)) st (capture_apply env st e)"
proof (cases e)
  case (Pair now q)
  show ?thesis unfolding Pair
    by (cases q) (simp_all add: operations_safe [OF assms] safe_refl [OF assms])
qed

interpretation capture_runs: event_machine "capture_apply env" "captures_good env" for env
proof unfold_locales
  fix st e assume "captures_good env st"
  then show "captures_good env (capture_apply env st e)" using apply_safe by (auto simp: safe_step_def)
qed

text \<open>What a reader of one capture sees is a function of its view.\<close>

lemma find_filter: "find P (filter Q xs) = find (\<lambda>x. Q x \<and> P x) xs"
  by (induction xs) auto

lemma get_capture_view:
  assumes "ce_pg_uuid env cid = Some i" and "capture_view i st' = capture_view i st"
  shows "get_capture env u cid st' = get_capture env u cid st"
proof -
  have "find (\<lambda>r. cp_id r = i \<and> cp_user r = u) (cs_captures st') = find (\<lambda>r. cp_id r = i \<and> cp_user r = u) (cs_captures st)"
    using assms(2) unfolding capture_view_def by (metis (no_types) find_filter Pair_inject)
  then have own: "own_capture env u cid st' = own_capture env u cid st" using assms(1) by (simp add: own_capture_def)
  have "filter (\<lambda>a. ca_capture a = i \<and> ca_user a = u) (cs_attachments st') = filter (\<lambda>a. ca_capture a = i \<and> ca_user a = u) (cs_attachments st)"
    "filter (\<lambda>t. ct_capture t = i \<and> ct_user t = u) (cs_transcripts st') = filter (\<lambda>t. ct_capture t = i \<and> ct_user t = u) (cs_transcripts st)"
    using assms(2) arg_cong [of _ _ "filter (\<lambda>a. ca_user a = u)"] arg_cong [of _ _ "filter (\<lambda>t. ct_user t = u)"]
    by (auto simp: capture_view_def filter_filter conj_commute) (metis filter_filter)+
  with own own_captureD(3) show ?thesis
    using assms(1) by (fastforce simp: get_capture_def attachments_of_def transcripts_of_def split: sum.split)
qed

lemma step_keeps:
  assumes "captures_good env st" and "r \<in> set (cs_captures st)" and "cp_status r = CapIndexed \<or> request_user (snd e) \<noteq> cp_user r"
  shows "capture_view (cp_id r) (capture_apply env st e) = capture_view (cp_id r) st"
proof -
  from apply_safe [OF assms(1), of e]
  consider "capture_apply env st e = st" | j where "touches (request_user (snd e)) j st (capture_apply env st e)"
    by (auto simp: safe_step_def)
  then show ?thesis
  proof cases
    case 2
    then have "cp_id r \<noteq> j" using assms(2,3) by (auto simp: touches_def)
    with 2 show ?thesis by (simp add: touches_def)
  qed simp
qed

lemma in_view: "r \<in> set (cs_captures st) \<longleftrightarrow> r \<in> set (fst (capture_view (cp_id r) st))"
  by (simp add: capture_view_def)

lemma run_keeps:
  assumes "captures_good env st" and "r \<in> set (cs_captures st)"
    and "cp_status r = CapIndexed \<or> cp_user r \<notin> request_user ` snd ` set es"
  shows "capture_view (cp_id r) (foldl (capture_apply env) st es) = capture_view (cp_id r) st"
  using assms
proof (induction es arbitrary: st)
  case (Cons e es)
  have v: "capture_view (cp_id r) (capture_apply env st e) = capture_view (cp_id r) st"
    using Cons.prems by (intro step_keeps) auto
  have "captures_good env (capture_apply env st e)" by (rule capture_runs.event_good) (rule Cons.prems(1))
  moreover have "r \<in> set (cs_captures (capture_apply env st e))" using Cons.prems(2) v by (simp add: in_view)
  ultimately have "capture_view (cp_id r) (foldl (capture_apply env) (capture_apply env st e) es) = capture_view (cp_id r) (capture_apply env st e)"
    using Cons.prems(3) by (intro Cons.IH) auto
  with v show ?case by simp
qed simp

text \<open>
  C18. Captures change by their owner only, and not at all once they are in memory. Take any state
  in which attachments and transcripts belong to their captures and every indexed capture has its
  note and point (every request keeps it so), with point ids distinct for distinct notes. Let any
  requests follow, from whoever, handled one after the other, a transcription or promotion
  together with its call of the speech service or the memory as one. If the capture is indexed,
  or if none of the requests is by its owner, then reading it answers as before, and an
  indexed one still has its note and point. (Two requests that overlap are not covered: there a
  transcript can still be added to an indexed capture.)
\<close>

theorem captures_change_by_their_owner_until_indexed:
  assumes "captures_good env st" and "own_capture env u cid st = Inr r"
    and "cp_status r = CapIndexed \<or> u \<notin> request_user ` snd ` set es"
  shows "get_capture env u cid (foldl (capture_apply env) st es) = get_capture env u cid st \<and>
    (cp_status r = CapIndexed \<longrightarrow> in_memory env (foldl (capture_apply env) st es) r)"
proof -
  note o = own_captureD [OF assms(2)]
  have v: "capture_view (cp_id r) (foldl (capture_apply env) st es) = capture_view (cp_id r) st"
    using assms o(1,2) by (intro run_keeps) auto
  moreover have "r \<in> set (cs_captures (foldl (capture_apply env) st es))" using o(1) v by (simp add: in_view)
  ultimately show ?thesis
    using get_capture_view [OF o(3)] captures_goodD(3) [OF capture_runs.run_good [OF assms(1)]] by blast
qed

definition pair_id :: "user_id \<Rightarrow> string \<Rightarrow> string" where
  "pair_id u n = concat (map (\<lambda>c. [CHR ''x'', c]) u) @ CHR '':'' # n"

lemma pair_id_inj: "inj (\<lambda>(u, n). pair_id u n)"
proof (rule injI, clarsimp)
  fix u n u' n' assume "pair_id u n = pair_id u' n'"
  then show "u = u' \<and> n = n'"
  proof (induction u arbitrary: u')
    case Nil
    then show ?case by (cases u') (simp_all add: pair_id_def)
  next
    case (Cons c u)
    then show ?case by (cases u') (simp_all add: pair_id_def)
  qed
qed

definition w_cap_env :: capture_env where
  "w_cap_env = \<lparr>ce_media = \<lparr>mc_root = [''media''], mc_resolve = id, mc_image_max = 100, mc_audio_max = 100\<rparr>,
     ce_pg_uuid = Some, ce_point_id = pair_id, ce_sha = id\<rparr>"

definition w_cid :: string where "w_cid = ''00000000000000000000000000000001''"

definition no_captures :: capture_state where
  "no_captures = \<lparr>cs_captures = [], cs_attachments = [], cs_transcripts = [], cs_notes = [], cs_points = [], cs_files = [], cs_events = [], cs_audits = []\<rparr>"

definition w_draft :: capture_state where
  "w_draft = capture_apply w_cap_env no_captures (1, CapCreate w_cid ''ann'' \<lparr>cb_text = Some ''tea'', cb_title = None, cb_url = None, cb_client = None, cb_tags = None\<rparr>)"

definition w_noted :: capture_state where
  "w_noted = capture_apply w_cap_env w_draft (2, CapIndex ''n1'' None True True ''ann'' w_cid)"

lemma w_good: "captures_good w_cap_env w_draft" "captures_good w_cap_env w_noted"
proof -
  have "captures_good w_cap_env no_captures"
    using pair_id_inj by (intro captures_goodI) (simp_all add: w_cap_env_def no_captures_def rows_linked_def)
  then show "captures_good w_cap_env w_draft" unfolding w_draft_def by (rule capture_runs.event_good)
  then show "captures_good w_cap_env w_noted" unfolding w_noted_def by (rule capture_runs.event_good)
qed

definition w_row :: capture where
  "w_row = \<lparr>cp_id = w_cid, cp_user = ''ann'', cp_status = CapIndexed, cp_type = ''text'', cp_title = None, cp_text = Some ''tea'', cp_url = None,
     cp_client = None, cp_note = Some ''n1'', cp_tags = None, cp_error = None, cp_created = 1, cp_updated = 2, cp_indexed = Some 2\<rparr>"

lemma w_uuid: "py_uuid w_cid"
  by code_simp

lemma w_draft_row: "w_draft = no_captures\<lparr>cs_captures := [new_capture 1 w_cid ''ann'' ''text'' None (Some ''tea'') None None None]\<rparr>"
  by (simp add: w_draft_def no_captures_def create_capture_route_def create_body_ok_def short_def tags_ok_def create_capture_def normalize_text_def
      derive_capture_type_def py_strip_def py_lstrip_def py_rstrip_def py_space_def code_point_def)

lemma w_own: "own_capture w_cap_env ''ann'' w_cid w_noted = Inr w_row"
  by (simp add: w_noted_def w_draft_row no_captures_def index_capture_def index_check_def get_capture_def own_capture_def w_uuid w_cap_env_def
      new_capture_def attachments_of_def transcripts_of_def audio_transcripts_ready_for_index_def combined_capture_memory_text_def normalize_text_def
      py_strip_def py_lstrip_def py_rstrip_def py_space_def code_point_def index_commit_def Let_def update_capture_def w_row_def)

theorem captures_change_by_their_owner_until_indexed_witness:
  "get_capture w_cap_env ''ann'' w_cid (foldl (capture_apply w_cap_env) w_noted [(3, CapDelete ''ann'' w_cid), (4, CapIndex ''n2'' None True True ''bob'' w_cid)])
     = get_capture w_cap_env ''ann'' w_cid w_noted \<and>
   in_memory w_cap_env (foldl (capture_apply w_cap_env) w_noted [(3, CapDelete ''ann'' w_cid), (4, CapIndex ''n2'' None True True ''bob'' w_cid)]) w_row"
  using captures_change_by_their_owner_until_indexed [OF w_good(2) w_own, of "[(3, CapDelete ''ann'' w_cid), (4, CapIndex ''n2'' None True True ''bob'' w_cid)]"]
  by (simp add: w_row_def)

subsection \<open>Indexing\<close>

lemma find_update_same:
  "(\<And>x. p x \<Longrightarrow> p (f x)) \<Longrightarrow> find p (update_where p f xs) = map_option f (find p xs)"
  by (induction xs) auto

lemma own_after_update:
  assumes "own_capture env u cid st = Inr q" and "\<And>x. cp_id (f x) = cp_id x \<and> cp_user (f x) = cp_user x"
    and "cs_captures st' = cs_captures (update_capture now (cp_id q) u f st)"
  shows "own_capture env u cid st' = Inr ((f q)\<lparr>cp_updated := now\<rparr>)"
proof -
  have "find (\<lambda>r. cp_id r = cp_id q \<and> cp_user r = u) (cs_captures st') =
      map_option (\<lambda>r. (f r)\<lparr>cp_updated := now\<rparr>) (find (\<lambda>r. cp_id r = cp_id q \<and> cp_user r = u) (cs_captures st))"
    unfolding assms(3) update_capture_def using assms(2) by (simp add: find_update_same)
  with assms(1) own_captureD(3) [OF assms(1)] show ?thesis by (auto simp: own_capture_def split: if_splits option.splits)
qed

lemma get_after_update:
  assumes "own_capture env u cid st = Inr q" and "\<And>x. cp_id (f x) = cp_id x \<and> cp_user (f x) = cp_user x"
    and "cs_captures st' = cs_captures (update_capture now (cp_id q) u f st)"
    and "cs_attachments st' = cs_attachments st" "cs_transcripts st' = cs_transcripts st"
  shows "get_capture env u cid st' = Inr ((f q)\<lparr>cp_updated := now, cp_tags := map_option sort_texts (cp_tags (f q))\<rparr>,
    attachments_of u (cp_id q) st, transcripts_of u (cp_id q) st)"
  using own_after_update [OF assms(1-3)] assms(2,4,5) by (simp add: get_capture_def attachments_of_def transcripts_of_def)




subsection \<open>Files\<close>

definition media_inside :: "capture_env \<Rightarrow> capture_state \<Rightarrow> bool" where
  "media_inside env st = list_all (\<lambda>f. is_relative_to (fst f) (mc_resolve (ce_media env) (mc_root (ce_media env)))) (cs_files st)"

lemma unlink_keeps: "set (unlink_key env k fs) \<subseteq> set fs"
  by (auto simp: unlink_key_def drop_file_def split: option.split)

lemma unlink_fold: "set (fold (unlink_key env) ks fs) \<subseteq> set fs"
  using unlink_keeps by (induction ks arbitrary: fs) fastforce+

lemma media_fewer: "media_inside env st \<Longrightarrow> set (cs_files st') \<subseteq> set (cs_files st) \<Longrightarrow> media_inside env st'"
  by (auto simp: media_inside_def list_all_iff)

lemma media_same: "cs_files st' = cs_files st \<Longrightarrow> media_inside env st \<Longrightarrow> media_inside env st'"
  by (simp add: media_inside_def)

lemma files_kept:
  "cs_files (snd (create_capture_route now i u b st)) = cs_files st" "cs_files (snd (create_capture_text now i u t title scope tags st)) = cs_files st"
  "cs_files (snd (patch_capture env now u cid pb st)) = cs_files st"
  "cs_files (snd (finish_capture_transcribe now tid u c a upd sr st)) = cs_files st"
  "cs_files (snd (index_commit env now n memory cleanup commit u cid plan st)) = cs_files st"
  by (simp_all add: create_capture_route_def create_capture_text_def create_capture_def patch_capture_def finish_capture_transcribe_def index_commit_def Let_def
      split: option.split sum.split prod.split)

lemma index_files: "cs_files (snd (index_capture env now n memory cleanup commit u cid st)) = cs_files st"
proof (cases "index_check env u cid st")
  case (Inr p)
  then have "snd (index_capture env now n memory cleanup commit u cid st) = snd (index_commit env now n memory cleanup commit u cid p st)"
    by (simp add: index_capture_def split: prod.split sum.split)
  then show ?thesis by (simp add: files_kept)
qed (simp add: index_capture_def)

lemma transcribe_files: "cs_files (snd (transcribe_capture env stt now tid u cid aid st)) = cs_files st"
  by (simp add: transcribe_capture_def files_kept split: sum.split prod.split option.split)

lemma store_inside:
  assumes "media_inside env st"
  shows "media_inside env (snd (store_attachment env now aid w ins u cid cap content mime name lc st))"
  using assms resolved_inside(2) [of "ce_media env" u cid aid]
  by (auto simp: store_attachment_def Let_def media_inside_def list_all_iff drop_file_def split: sum.split option.split prod.split)

lemma apply_inside: "media_inside env st \<Longrightarrow> media_inside env (capture_apply env st e)"
proof -
  assume m: "media_inside env st"
  obtain now q where e: "e = (now, q)" by (cases e)
  show ?thesis
  proof (cases q)
    case (CapAttach aid w ins u cid content mime name client)
    then show ?thesis using m store_inside [OF m]
      by (simp add: e add_capture_attachment_def Let_def split: sum.split option.split)
  next
    case (CapDelete u cid)
    then show ?thesis using m unlink_fold
      by (intro media_fewer [OF m]) (auto simp: e delete_capture_def Let_def dest!: subsetD [OF unlink_fold] split: sum.splits if_splits)
  next
    case (CapDetach u cid aid)
    then show ?thesis
      by (intro media_fewer [OF m]) (auto simp: e delete_capture_attachment_def dest!: subsetD [OF unlink_keeps] split: sum.splits if_splits)
  qed (use m in \<open>auto simp: e files_kept index_files transcribe_files intro: media_same\<close>)
qed

interpretation media_runs: event_machine "capture_apply env" "media_inside env" for env
  by unfold_locales (rule apply_inside)

text \<open>
  C20. the names a client sends (user, capture and attachment ids) never lead out of the media
  root, whatever links the file system holds: every file written lies below the root, and a
  download is answered from a file below it.
\<close>

theorem media_stay_under_the_root:
  assumes "media_inside env st"
  shows "media_inside env (foldl (capture_apply env) st es) \<and>
    (get_attachment_download env u cid aid (foldl (capture_apply env) st es) = Inr (p, mime, name) \<longrightarrow>
     is_relative_to p (mc_resolve (ce_media env) (mc_root (ce_media env))))"
  using media_runs.run_good [OF assms] resolved_inside(1)
  by (fastforce simp: get_attachment_download_def split: if_splits sum.splits option.splits)

lemma w_draft_own:
  "own_capture w_cap_env ''ann'' w_cid w_draft = Inr (new_capture 1 w_cid ''ann'' ''text'' None (Some ''tea'') None None None)"
  by (simp add: w_draft_row no_captures_def own_capture_def w_uuid w_cap_env_def new_capture_def)

theorem media_stay_under_the_root_witness:
  "media_inside w_cap_env (foldl (capture_apply w_cap_env) w_draft [(5, CapAttach ''a'' True True ''ann'' w_cid ''data'' (Some ''image/png'') None None)]) \<and>
   fst (hd (cs_files (foldl (capture_apply w_cap_env) w_draft [(5, CapAttach ''a'' True True ''ann'' w_cid ''data'' (Some ''image/png'') None None)])))
     = [''media'', ''ann'', w_cid, ''a'', ''blob.png'']"
proof -
  have "media_inside w_cap_env w_draft" by (simp add: media_inside_def w_draft_row no_captures_def)
  from media_stay_under_the_root [OF this, of "[(5, CapAttach ''a'' True True ''ann'' w_cid ''data'' (Some ''image/png'') None None)]"]
  have "media_inside w_cap_env (foldl (capture_apply w_cap_env) w_draft [(5, CapAttach ''a'' True True ''ann'' w_cid ''data'' (Some ''image/png'') None None)])"
    by simp
  moreover have p: "safe_attachment_path (ce_media w_cap_env) ''ann'' w_cid ''a'' ''blob.png'' = Some [''media'', ''ann'', w_cid, ''a'', ''blob.png'']"
    by code_simp
  moreover have inb: "inbound w_cap_env (Some ''image/png'') ''data'' = Inr (''image'', ''image/png'', ''blob.png'')"
    by code_simp
  ultimately show ?thesis
    by (simp add: add_capture_attachment_def store_attachment_def Let_def w_draft_own p inb new_capture_def) (simp add: w_draft_row no_captures_def)
qed

lemma find_appended: "find P (xs @ ys) = (case find P xs of None \<Rightarrow> find P ys | Some x \<Rightarrow> Some x)"
  by (induction xs) auto

text \<open>
  C21. What is uploaded can be downloaded again. Let the ids of user, capture and attachment be single
  path components without surrounding white space, as generated UUIDs are, the one of the attachment a
  UUID in the spelling of the database. If an upload is answered as created (201), then a
  download of that attachment in the state it left gives the bytes of the upload, its MIME type
  stripped and in lower case, and the file name of the upload; without a file name, the name of the
  file it was stored in, whose path is made of the three ids and the leaf name for this MIME type.
\<close>

theorem uploaded_media_reads_back:
  assumes "add_capture_attachment env now aid True True u cid content mime name client st = (Inr (a, 201), st')"
    and "plain_id u" and "plain_id cid" and "plain_id aid" and "py_uuid aid" and "ce_pg_uuid env aid = Some aid"
  shows "\<exists>m leaf p. mime = Some m \<and> map_of mime_leaf (py_lower (py_strip m)) = Some leaf \<and>
    safe_attachment_path (ce_media env) u cid aid leaf = Some p \<and>
    download_attachment env u cid aid st' =
      Inr (content, py_lower (py_strip m), case name of Some n \<Rightarrow> if n = [] then last p else n | None \<Rightarrow> last p)"
proof -
  obtain r lc where own: "own_capture env u cid st = Inr r"
    and store: "store_attachment env now aid True True u cid r content mime name lc st = (Inr (a, 201), st')"
    using assms(1) by (simp add: add_capture_attachment_def Let_def split: sum.splits if_splits option.splits)
  obtain kind mn leaf p where inb: "inbound env mime content = Inr (kind, mn, leaf)"
    and p: "safe_attachment_path (ce_media env) u cid aid leaf = Some p"
    and a: "a = new_attachment env now aid (cp_id r) u cid (kind, mn, leaf) content name lc" "aid \<notin> ca_id ` set (cs_attachments st)"
    and st': "cs_files st' = (p, content) # drop_file p (cs_files st)" "cs_attachments st' = cs_attachments st @ [a]"
    using store by (auto simp: store_attachment_def Let_def split: sum.splits option.splits if_splits)
  obtain m where m: "mime = Some m" "mn = py_lower (py_strip m)" "map_of mime_leaf mn = Some leaf"
    using inb by (auto simp: inbound_def classify_inbound_mime_def leaf_filename_for_mime_def Let_def
        split: option.splits if_splits sum.splits media_error.splits)
  have "leaf \<in> snd ` set mime_leaf"
    using inb leaf_cases by (auto simp: inbound_def split: option.splits if_splits sum.splits media_error.splits)
  then have key: "resolve_storage_key_file (ce_media env) (ca_key a) = Some p"
    using stored_key_leads_back [OF assms(2-4)] p by (simp add: a(1) new_attachment_def storage_key_def)
  have f: "ca_id a = aid" "ca_capture a = cp_id r" "ca_user a = u" "ca_name a = name" by (simp_all add: a(1) new_attachment_def)
  have "find (\<lambda>x. ca_id x = aid \<and> ca_capture x = cp_id r \<and> ca_user x = u) (cs_attachments st) = None"
    using a(2) by (auto simp: find_None_iff)
  then have "find (\<lambda>x. ca_id x = aid \<and> ca_capture x = cp_id r \<and> ca_user x = u) (cs_attachments st') = Some a"
    using f by (simp add: st'(2) find_appended)
  then have "own_attachment env u cid aid st' = Inr a"
    using own_captureD(3) [OF own] assms(6) by (simp add: own_attachment_def)
  then have "download_attachment env u cid aid st' = Inr (content, ca_mime a, case name of Some n \<Rightarrow> if n = [] then last p else n | None \<Rightarrow> last p)"
    using own_captureD(4) [OF own] assms(5) key st'(1) f(4)
    by (simp add: download_attachment_def get_attachment_download_def file_content_def)
  moreover have "ca_mime a = mn" by (simp add: a(1) new_attachment_def)
  ultimately show ?thesis using m p by auto
qed

lemma w_plain: "plain_id w_cid" "plain_id ''ann''" "plain_id (rev w_cid)" "py_uuid (rev w_cid)"
  by code_simp+

theorem uploaded_media_reads_back_witness:
  "download_attachment w_cap_env ''ann'' w_cid (rev w_cid)
      (snd (add_capture_attachment w_cap_env 5 (rev w_cid) True True ''ann'' w_cid ''data'' (Some ''image/png'') (Some ''tea.png'') None w_draft)) =
    Inr (''data'', ''image/png'', ''tea.png'')"
proof -
  have p: "safe_attachment_path (ce_media w_cap_env) ''ann'' w_cid (rev w_cid) ''blob.png'' = Some [''media'', ''ann'', w_cid, rev w_cid, ''blob.png'']"
    by code_simp
  have inb: "inbound w_cap_env (Some ''image/png'') ''data'' = Inr (''image'', ''image/png'', ''blob.png'')"
    by code_simp
  let ?a = "new_attachment w_cap_env 5 (rev w_cid) w_cid ''ann'' w_cid (''image'', ''image/png'', ''blob.png'') ''data'' (Some ''tea.png'') None"
  have "fst (add_capture_attachment w_cap_env 5 (rev w_cid) True True ''ann'' w_cid ''data'' (Some ''image/png'') (Some ''tea.png'') None w_draft)
      = Inr (?a, 201)"
    by (simp add: add_capture_attachment_def w_draft_own store_attachment_def inb p Let_def) (simp add: w_draft_row no_captures_def new_capture_def)
  then have up: "add_capture_attachment w_cap_env 5 (rev w_cid) True True ''ann'' w_cid ''data'' (Some ''image/png'') (Some ''tea.png'') None w_draft
      = (Inr (?a, 201), snd (add_capture_attachment w_cap_env 5 (rev w_cid) True True ''ann'' w_cid ''data'' (Some ''image/png'') (Some ''tea.png'') None w_draft))"
    by (simp add: prod_eq_iff)
  have "ce_pg_uuid w_cap_env (rev w_cid) = Some (rev w_cid)" by (simp add: w_cap_env_def)
  moreover have "py_lower (py_strip ''image/png'') = ''image/png''" by code_simp
  ultimately show ?thesis using uploaded_media_reads_back [OF up w_plain(2,1,3,4)] by auto
qed

subsection \<open>Not atomic\<close>

text \<open>
  The status is read before the note is written and not read again: two requests that passed the
  checks on the same state both store a note and a point, and the row keeps the last.
\<close>

theorem concurrent_indexing_stores_twice:
  assumes "index_check env u cid st = Inr (r, t)" and "n1 \<notin> nt_id ` set (cs_notes st)" and "n2 \<notin> nt_id ` set (cs_notes st)" and "n1 \<noteq> n2"
  shows "map nt_id (cs_notes (snd (index_commit env now n2 None True True u cid (r, t)
      (snd (index_commit env now n1 None True True u cid (r, t) st))))) = map nt_id (cs_notes st) @ [n1, n2]"
  using assms by (auto simp: index_commit_def Let_def)

text \<open>A transcript that was started before is stored on an indexed capture too: no status is read.\<close>

theorem late_transcript_is_stored:
  assumes "a \<in> ca_id ` set (cs_attachments st)" and "c \<in> cp_id ` set (cs_captures st)" and "tid \<notin> ct_id ` set (cs_transcripts st)"
  shows "length (cs_transcripts (snd (finish_capture_transcribe now tid u c a None res st))) = Suc (length (cs_transcripts st))"
  using assms by (simp add: finish_capture_transcribe_def Let_def)

text \<open>An edit derives the type from text and URL alone, whatever is attached.\<close>

theorem edit_forgets_the_attachments:
  assumes "patch_capture env now u cid b st = (Inr (r, as, ts), st')"
  shows "cp_type r \<in> {''text'', ''url'', ''mixed''}"
proof -
  obtain q where q: "own_capture env u cid st = Inr q" using assms by (auto simp: patch_capture_def split: sum.splits)
  have "\<exists>tn title un tags. st' = update_capture now (cp_id q) u
      (\<lambda>x. x\<lparr>cp_text := tn, cp_title := title, cp_url := un, cp_tags := tags, cp_type := derive_capture_type tn un\<rparr>) st \<and>
      get_capture env u cid st' = Inr (r, as, ts)"
    using assms q by (auto simp: patch_capture_def Let_def split: if_splits)
  then obtain tn title un tags where st': "st' = update_capture now (cp_id q) u
      (\<lambda>x. x\<lparr>cp_text := tn, cp_title := title, cp_url := un, cp_tags := tags, cp_type := derive_capture_type tn un\<rparr>) st"
    and r: "get_capture env u cid st' = Inr (r, as, ts)" by blast
  have "cp_type r = derive_capture_type tn un"
    using r get_after_update [OF q _ arg_cong [OF st', of cs_captures]] by (simp add: st')
  then show ?thesis by (simp add: derive_capture_type_def Let_def)
qed

text \<open>A client id of white space is stored as the empty text, which the index on client ids then refuses twice.\<close>

theorem blank_client_id_collides:
  assumes "own_capture env u cid st = Inr r" and "cp_status r \<noteq> CapIndexed" and "by_client u (cp_id r) [] st \<noteq> None"
    and "inbound env mime content = Inr kml" and "safe_attachment_path (ce_media env) u cid aid (snd (snd kml)) \<noteq> None"
  shows "fst (add_capture_attachment env now aid True True u cid content mime name (Some '' '') st) = Inl CapUncaught"
proof -
  have "py_strip '' '' = []" by (simp add: py_strip_def py_lstrip_def py_rstrip_def py_space_def code_point_def)
  then show ?thesis using assms
    by (simp add: add_capture_attachment_def store_attachment_def Let_def split: prod.split option.split)
qed

end
