(* ===== verification/Projection.thy ===== *)
theory Projection
  imports Prelude
begin

section \<open>Sharing with the household: projections of personal rows\<close>

text \<open>
  Models \<open>services/projection.py\<close> up to the files, the tables it writes and the vector store. A
  table is the list of its rows: key, owner, scope, \<open>published_from\<close>, and the other columns as a
  dictionary. A point is its id with its payload; whether a text can be embedded, UUID5, the
  \<open>::uuid\<close> and \<open>::jsonb\<close> casts are parameters. Statements and calls that may fail do so by the
  functions of \<open>faults\<close>; \<open>None\<close> is an exception.
\<close>

datatype resource = RNotes | RAudioMemos | RSessions | RFiles | REntities | RSignals

record shared_row =
  sr_pk :: json
  sr_user :: user_id
  sr_scope :: string
  sr_from :: "json option"
  sr_data :: json_obj

record relation =
  rl_source :: json
  rl_user :: user_id
  rl_type :: string
  rl_etype :: string
  rl_evidence :: string

record share_job =
  sj_id :: int
  sj_user :: user_id
  sj_kind :: string
  sj_doc :: int
  sj_open :: bool

text \<open>An entity named in an event: its source, its projection, name and type.\<close>

type_synonym entity_ref = "json \<times> json \<times> string \<times> string"

record share_state =
  ss_rows :: "resource \<Rightarrow> shared_row list"
  ss_points :: "string \<Rightarrow> (string \<times> json_obj) list"
  ss_relations :: "relation list"
  ss_serial :: int
  ss_events :: "(string \<times> user_id \<times> string \<times> entity_ref list) list"
  ss_jobs :: "share_job list"
  ss_audits :: "(user_id \<times> string \<times> json_obj) list"

record share_env =
  sh_uuid5 :: "string \<Rightarrow> string"
  sh_embed :: "string \<Rightarrow> bool"
  sh_vector :: "string \<Rightarrow> bool"
  sh_pg_uuid :: "string \<Rightarrow> string option"
  sh_jsonb :: "string \<Rightarrow> json option"
  sh_graph_mode :: string
  sh_inline_max :: int

record faults =
  fl_upsert :: "string \<Rightarrow> bool"
  fl_delete :: "string \<Rightarrow> bool"
  fl_insert :: "json \<Rightarrow> bool"
  fl_remove :: "json \<Rightarrow> bool"
  fl_bulk :: bool
  fl_downgrade :: bool
  fl_count :: "nat \<Rightarrow> bool"
  fl_audit :: bool

subsection \<open>Columns and payloads\<close>

definition col :: "json_obj \<Rightarrow> string \<Rightarrow> json" where
  "col d k = (case map_of d k of None \<Rightarrow> JNull | Some v \<Rightarrow> v)"

definition or_else :: "json \<Rightarrow> json \<Rightarrow> json" where
  "or_else v d = (if json_truthy v then v else d)"

definition str_of :: "json \<Rightarrow> string" where
  "str_of v = (case v of JStr s \<Rightarrow> s | _ \<Rightarrow> [])"

definition items_of :: "json \<Rightarrow> json list" where
  "items_of v = (case v of JList xs \<Rightarrow> xs | _ \<Rightarrow> [])"

definition pk_text :: "json \<Rightarrow> string" where
  "pk_text v = (case v of JStr s \<Rightarrow> s | JInt i \<Rightarrow> show_int i | _ \<Rightarrow> [])"

text \<open>\<open>SET k = EXCLUDED.k\<close> for the listed columns.\<close>

definition excluded :: "string list \<Rightarrow> json_obj \<Rightarrow> json_obj \<Rightarrow> json_obj" where
  "excluded ks new old = foldl (\<lambda>d k. dict_set k (col new k) d) old ks"

primrec table_of :: "resource \<Rightarrow> string" where
  "table_of RNotes = ''notes''"
| "table_of RAudioMemos = ''audio_memos''"
| "table_of RSessions = ''sessions''"
| "table_of RFiles = ''file_index''"
| "table_of REntities = ''entities''"
| "table_of RSignals = ''signals''"

primrec collection_of :: "resource \<Rightarrow> string" where
  "collection_of RNotes = ''conversations''"
| "collection_of RAudioMemos = ''conversations''"
| "collection_of RSessions = ''conversations''"
| "collection_of RFiles = ''documents''"
| "collection_of REntities = ''entities''"
| "collection_of RSignals = ''signals''"

definition projection_pk :: "share_env \<Rightarrow> string \<Rightarrow> string \<Rightarrow> string \<Rightarrow> string" where
  "projection_pk env table src_pk scope = sh_uuid5 env (table @ ''::'' @ src_pk @ ''::'' @ scope)"

definition projection_point_id :: "share_env \<Rightarrow> string \<Rightarrow> string \<Rightarrow> string \<Rightarrow> string" where
  "projection_point_id env collection src_pk scope = sh_uuid5 env (collection @ ''::'' @ src_pk @ ''::'' @ scope)"

subsection \<open>The vector store\<close>

definition put_point :: "string \<Rightarrow> string \<Rightarrow> json_obj \<Rightarrow> share_state \<Rightarrow> share_state" where
  "put_point c pid payload st = st\<lparr>ss_points := (ss_points st)(c := dict_set pid payload (ss_points st c))\<rparr>"

definition drop_points :: "string \<Rightarrow> (string \<times> json_obj \<Rightarrow> bool) \<Rightarrow> share_state \<Rightarrow> share_state" where
  "drop_points c p st = st\<lparr>ss_points := (ss_points st)(c := filter (\<lambda>x. \<not> p x) (ss_points st c))\<rparr>"

definition qdrant_upsert_safe :: "share_env \<Rightarrow> faults \<Rightarrow> string \<Rightarrow> string \<Rightarrow> bool \<Rightarrow> json_obj \<Rightarrow> share_state \<Rightarrow> share_state option" where
  "qdrant_upsert_safe env fl c pid has_vector payload st =
     (if \<not> has_vector then Some st else if fl_upsert fl pid then Some (put_point c pid payload st) else None)"

definition qdrant_delete_safe :: "faults \<Rightarrow> string \<Rightarrow> string \<Rightarrow> share_state \<Rightarrow> share_state" where
  "qdrant_delete_safe fl c pid st = (if fl_delete fl pid then drop_points c (\<lambda>x. fst x = pid) st else st)"

subsection \<open>The row of a projection\<close>

text \<open>
  \<open>INSERT ... ON CONFLICT (published_from, scope) DO UPDATE\<close> with \<open>upd\<close> of the new and the old
  columns; another row with the same key makes it fail.
\<close>

definition set_rows :: "resource \<Rightarrow> shared_row list \<Rightarrow> share_state \<Rightarrow> share_state" where
  "set_rows r rows st = st\<lparr>ss_rows := (ss_rows st)(r := rows)\<rparr>"

definition projected_at :: "json \<Rightarrow> string \<Rightarrow> shared_row \<Rightarrow> bool" where
  "projected_at src scope r = (sr_from r = Some src \<and> sr_scope r = scope)"

definition upsert_projection ::
  "resource \<Rightarrow> shared_row \<Rightarrow> (json_obj \<Rightarrow> json_obj \<Rightarrow> json_obj) \<Rightarrow> json \<Rightarrow> share_state \<Rightarrow> (shared_row \<times> share_state) option" where
  "upsert_projection res new upd src st =
     (let rows = ss_rows st res in
      case find (projected_at src (sr_scope new)) rows of
        Some old \<Rightarrow>
          Some (old\<lparr>sr_data := upd (sr_data new) (sr_data old)\<rparr>,
                set_rows res (update_where (projected_at src (sr_scope new)) (\<lambda>r. r\<lparr>sr_data := upd (sr_data new) (sr_data r)\<rparr>) rows) st)
      | None \<Rightarrow> if sr_pk new \<in> sr_pk ` set rows then None else Some (new, set_rows res (rows @ [new]) st))"

definition insert_projection_or_rollback_qdrant ::
  "faults \<Rightarrow> string \<Rightarrow> string \<Rightarrow> resource \<Rightarrow> shared_row \<Rightarrow> (json_obj \<Rightarrow> json_obj \<Rightarrow> json_obj) \<Rightarrow> json \<Rightarrow> share_state
    \<Rightarrow> shared_row option \<times> share_state" where
  "insert_projection_or_rollback_qdrant fl c pid res new upd src st =
     (case (if fl_insert fl src then upsert_projection res new upd src st else None) of
        Some (row, st1) \<Rightarrow> (Some row, st1)
      | None \<Rightarrow> (None, qdrant_delete_safe fl c pid st))"

definition valid_target_scope :: "string \<Rightarrow> bool" where
  "valid_target_scope s = (s \<in> {''shared'', ''system''})"

text \<open>The point first, then the row: what the helpers of the five UUID resources have in common.\<close>

definition mirror_and_insert ::
  "share_env \<Rightarrow> faults \<Rightarrow> resource \<Rightarrow> string \<Rightarrow> json_obj \<Rightarrow> shared_row \<Rightarrow> (json_obj \<Rightarrow> json_obj \<Rightarrow> json_obj) \<Rightarrow> json \<Rightarrow> share_state
    \<Rightarrow> shared_row option \<times> share_state" where
  "mirror_and_insert env fl res embedded payload new upd src st =
     (let c = collection_of res; pid = projection_point_id env c (pk_text src) (sr_scope new) in
      case qdrant_upsert_safe env fl c pid (sh_embed env embedded) payload st of
        None \<Rightarrow> (None, st)
      | Some st1 \<Rightarrow> insert_projection_or_rollback_qdrant fl c pid res new upd src st1)"

subsection \<open>One resource each\<close>

definition project_note ::
  "share_env \<Rightarrow> faults \<Rightarrow> instant \<Rightarrow> shared_row \<Rightarrow> string \<Rightarrow> user_id \<Rightarrow> share_state \<Rightarrow> shared_row option \<times> share_state" where
  "project_note env fl now src scope actor st =
     (if \<not> valid_target_scope scope then (None, st)
      else
        let new_pk = projection_pk env ''notes'' (pk_text (sr_pk src)) scope;
            t = or_else (col (sr_data src) ''text'') (JStr []);
            payload = [(''note_id'', JStr new_pk), (''text'', t), (''user_id'', JStr actor), (''scope'', JStr scope), (''published_from'', JStr (pk_text (sr_pk src)))];
            new = \<lparr>sr_pk = JStr new_pk, sr_user = actor, sr_scope = scope, sr_from = Some (sr_pk src),
              sr_data = [(''text'', t), (''source'', or_else (col (sr_data src) ''source'') (JStr ''quick_capture'')), (''created_at'', JInt now), (''updated_at'', JInt now),
                (''graph_projected_at'', JNull)]\<rparr>
        in mirror_and_insert env fl RNotes (str_of t) payload new (excluded [''text'', ''updated_at'', ''graph_projected_at'']) (sr_pk src) st)"

definition project_audio_memo ::
  "share_env \<Rightarrow> faults \<Rightarrow> instant \<Rightarrow> shared_row \<Rightarrow> string \<Rightarrow> user_id \<Rightarrow> share_state \<Rightarrow> shared_row option \<times> share_state" where
  "project_audio_memo env fl now src scope actor st =
     (if \<not> valid_target_scope scope then (None, st)
      else
        let d = sr_data src;
            new_pk = projection_pk env ''audio_memos'' (pk_text (sr_pk src)) scope;
            t = or_else (col d ''transcript'') (JStr []);
            payload = [(''audio_id'', JStr new_pk), (''transcript'', t), (''user_id'', JStr actor), (''scope'', JStr scope), (''published_from'', JStr (pk_text (sr_pk src)))];
            new = \<lparr>sr_pk = JStr new_pk, sr_user = actor, sr_scope = scope, sr_from = Some (sr_pk src),
              sr_data = [(''file_path'', or_else (col d ''file_path'') (JStr [])), (''transcript'', col d ''transcript''), (''duration_seconds'', col d ''duration_seconds''),
                (''whisper_model'', col d ''whisper_model''), (''transcribed_at'', col d ''transcribed_at''), (''created_at'', JInt now), (''updated_at'', JInt now), (''graph_projected_at'', JNull)]\<rparr>
        in mirror_and_insert env fl RAudioMemos (str_of t) payload new
             (excluded [''transcript'', ''duration_seconds'', ''whisper_model'', ''updated_at'', ''graph_projected_at'']) (sr_pk src) st)"

definition shared_summary_text :: "share_state \<Rightarrow> json \<Rightarrow> string \<Rightarrow> json_obj \<Rightarrow> string option \<Rightarrow> string" where
  "shared_summary_text st src scope d override =
     (let o1 = (case override of None \<Rightarrow> [] | Some s \<Rightarrow> py_strip s) in
      if o1 \<noteq> [] then o1
      else let existing = (case find (projected_at src scope) (ss_rows st RSessions) of None \<Rightarrow> JNull | Some r \<Rightarrow> col (sr_data r) ''summary'')
           in str_of (or_else existing (or_else (col d ''summary'') (JStr []))))"

definition project_session ::
  "share_env \<Rightarrow> faults \<Rightarrow> instant \<Rightarrow> shared_row \<Rightarrow> string \<Rightarrow> user_id \<Rightarrow> string option \<Rightarrow> share_state \<Rightarrow> shared_row option \<times> share_state" where
  "project_session env fl now src scope actor override st =
     (if \<not> valid_target_scope scope then (None, st)
      else
        let d = sr_data src;
            new_pk = projection_pk env ''sessions'' (pk_text (sr_pk src)) scope;
            summary = shared_summary_text st (sr_pk src) scope d override;
            topics = or_else (col d ''topics'') (JList []);
            payload = [(''session_id'', JStr new_pk), (''summary'', JStr summary), (''topics'', topics), (''entities'', or_else (col d ''entities'') (JList [])),
              (''user_id'', JStr actor), (''scope'', JStr scope), (''published_from'', JStr (pk_text (sr_pk src)))];
            new = \<lparr>sr_pk = JStr new_pk, sr_user = actor, sr_scope = scope, sr_from = Some (sr_pk src),
              sr_data = [(''summary'', JStr summary), (''topics'', topics), (''entities'', or_else (col d ''entities'') (JList [])),
                (''entity_ids'', or_else (col d ''entity_ids'') (JList [])), (''created_at'', JInt now), (''updated_at'', JInt now), (''graph_projected_at'', JNull)]\<rparr>
        in mirror_and_insert env fl RSessions (summary @ '' Topics: '' @ join '', '' (map str_of (items_of topics))) payload new
             (excluded [''summary'', ''topics'', ''entities'', ''entity_ids'', ''updated_at'', ''graph_projected_at'']) (sr_pk src) st)"

definition promoted_origin :: "json \<Rightarrow> json \<Rightarrow> json" where
  "promoted_origin old new = (if old = JNull then new else if old = new then old else JStr ''multiple'')"

definition project_entity ::
  "share_env \<Rightarrow> faults \<Rightarrow> instant \<Rightarrow> shared_row \<Rightarrow> string \<Rightarrow> user_id \<Rightarrow> string \<Rightarrow> share_state \<Rightarrow> shared_row option \<times> share_state" where
  "project_entity env fl now src scope actor origin st =
     (if \<not> valid_target_scope scope \<or> origin \<notin> {''document'', ''user''} then (None, st)
      else
        let d = sr_data src;
            new_pk = projection_pk env ''entities'' (pk_text (sr_pk src)) scope;
            name = or_else (col d ''name'') (JStr []); ty = or_else (col d ''entity_type'') (JStr []);
            payload = [(''entity_id'', JStr new_pk), (''name'', name), (''entity_type'', ty), (''user_id'', JStr actor), (''scope'', JStr scope),
              (''published_from'', JStr (pk_text (sr_pk src)))];
            new = \<lparr>sr_pk = JStr new_pk, sr_user = actor, sr_scope = scope, sr_from = Some (sr_pk src),
              sr_data = [(''name'', name), (''entity_type'', ty), (''aliases'', or_else (col d ''aliases'') (JList [])), (''context_tags'', or_else (col d ''context_tags'') (JList [])),
                (''mention_count'', or_else (col d ''mention_count'') (JInt 1)), (''extraction_quality'', col d ''extraction_quality''), (''share_origin'', JStr origin),
                (''is_staged'', JBool False), (''created_at'', JInt now), (''updated_at'', JInt now)]\<rparr>
        in mirror_and_insert env fl REntities (str_of name @ '' '' @ str_of ty) payload new
             (\<lambda>n old. dict_set ''share_origin'' (promoted_origin (col old ''share_origin'') (col n ''share_origin''))
                (excluded [''name'', ''entity_type'', ''aliases'', ''context_tags'', ''mention_count'', ''updated_at''] n old)) (sr_pk src) st)"

text \<open>A JSONB column comes back decoded; a text is passed on as it is and has to be JSON.\<close>

definition json_or_default :: "share_env \<Rightarrow> json \<Rightarrow> json option" where
  "json_or_default env v = (case v of JNull \<Rightarrow> Some (JList []) | JStr s \<Rightarrow> sh_jsonb env s | _ \<Rightarrow> Some v)"

definition project_signal ::
  "share_env \<Rightarrow> faults \<Rightarrow> instant \<Rightarrow> shared_row \<Rightarrow> string \<Rightarrow> user_id \<Rightarrow> share_state \<Rightarrow> shared_row option \<times> share_state" where
  "project_signal env fl now src scope actor st =
     (if \<not> valid_target_scope scope then (None, st)
      else
        let d = sr_data src;
            new_pk = projection_pk env ''signals'' (pk_text (sr_pk src)) scope;
            title = or_else (col d ''title'') (JStr []); summary = or_else (col d ''content_summary'') (JStr []); url = or_else (col d ''url'') (JStr []);
            payload = [(''signal_id'', JStr new_pk), (''title'', title), (''url'', url), (''user_id'', JStr actor), (''scope'', JStr scope),
              (''published_from'', JStr (pk_text (sr_pk src)))];
            jcols = (json_or_default env (col d ''entities''), json_or_default env (col d ''topics''));
            new = (\<lambda>es ts. \<lparr>sr_pk = JStr new_pk, sr_user = actor, sr_scope = scope, sr_from = Some (sr_pk src),
              sr_data = [(''source_id'', or_else (col d ''source_id'') (JStr [])), (''title'', title), (''url'', url), (''published_at'', col d ''published_at''),
                (''content_summary'', summary), (''entities'', es), (''topics'', ts), (''importance_score'', or_else (col d ''importance_score'') (JInt 0)),
                (''relevance_score'', or_else (col d ''relevance_score'') (JInt 0)), (''notified'', JBool (json_truthy (col d ''notified''))),
                (''source_url'', col d ''source_url''), (''source_label'', col d ''source_label''), (''created_at'', JInt now)]\<rparr>);
            keep = excluded [''title'', ''url'', ''content_summary'', ''entities'', ''topics'', ''importance_score'', ''relevance_score'', ''source_url'', ''source_label'']
        in case jcols of
             (Some es, Some ts) \<Rightarrow> mirror_and_insert env fl RSignals (str_of title @ '' '' @ str_of summary) payload (new es ts) keep (sr_pk src) st
           | _ \<Rightarrow> mirror_and_insert env (fl\<lparr>fl_insert := (\<lambda>_. False)\<rparr>) RSignals (str_of title @ '' '' @ str_of summary) payload (new JNull JNull) keep (sr_pk src) st)"

subsection \<open>Withdrawing a row\<close>

text \<open>
  \<open>raw\<close> is the key as it was given: the statement compares it as a UUID, the id of the point is
  made from the text itself.
\<close>

definition unproject_uuid_pk ::
  "share_env \<Rightarrow> faults \<Rightarrow> resource \<Rightarrow> string \<Rightarrow> string \<Rightarrow> share_state \<Rightarrow> nat option \<times> share_state" where
  "unproject_uuid_pk env fl res raw scope st =
     (case sh_pg_uuid env raw of
        None \<Rightarrow> (None, st)
      | Some u \<Rightarrow>
          if \<not> fl_remove fl (JStr u) then (None, st)
          else
            let found = list_ex (projected_at (JStr u) scope) (ss_rows st res);
                st1 = set_rows res (filter (\<lambda>r. \<not> projected_at (JStr u) scope r) (ss_rows st res)) st;
                c = collection_of res
            in (Some (if found then 1 else 0), qdrant_delete_safe fl c (projection_point_id env c raw scope) st1))"

definition unproject_note where "unproject_note env fl raw scope st = unproject_uuid_pk env fl RNotes raw scope st"
definition unproject_audio_memo where "unproject_audio_memo env fl raw scope st = unproject_uuid_pk env fl RAudioMemos raw scope st"
definition unproject_session where "unproject_session env fl raw scope st = unproject_uuid_pk env fl RSessions raw scope st"
definition unproject_entity where "unproject_entity env fl raw scope st = unproject_uuid_pk env fl REntities raw scope st"
definition unproject_signal where "unproject_signal env fl raw scope st = unproject_uuid_pk env fl RSignals raw scope st"

subsection \<open>Files: the chunks of a document\<close>

definition chunk_matches :: "json \<Rightarrow> user_id \<Rightarrow> string \<Rightarrow> string \<times> json_obj \<Rightarrow> bool" where
  "chunk_matches src owner scope p = (col (snd p) ''published_from'' = src \<and> col (snd p) ''user_id'' = JStr owner \<and> col (snd p) ''scope'' = JStr scope)"

definition unproject_file_chunks :: "faults \<Rightarrow> json \<Rightarrow> user_id \<Rightarrow> string \<Rightarrow> share_state \<Rightarrow> share_state option" where
  "unproject_file_chunks fl src owner scope st =
     (if owner = [] then Some st else if fl_bulk fl then Some (drop_points ''documents'' (chunk_matches src owner scope) st) else None)"

definition scroll_document :: "share_state \<Rightarrow> user_id \<Rightarrow> json \<Rightarrow> (string \<times> json_obj) list" where
  "scroll_document st owner path = filter (\<lambda>p. col (snd p) ''user_id'' = JStr owner \<and> col (snd p) ''file_path'' = path) (ss_points st ''documents'')"

definition is_json_int :: "json \<Rightarrow> bool" where
  "is_json_int v = (case v of JInt i \<Rightarrow> True | _ \<Rightarrow> False)"

definition chunk_payload :: "json \<Rightarrow> json \<Rightarrow> user_id \<Rightarrow> string \<Rightarrow> json_obj \<Rightarrow> json_obj" where
  "chunk_payload src path owner scope d =
     [(''file_path'', path), (''chunk_index'', col d ''chunk_index''), (''text'', col d ''text''), (''user_id'', JStr owner), (''scope'', JStr scope),
      (''published_from'', src)] @ (if json_truthy (col d ''section_header'') then [(''section_header'', col d ''section_header'')] else [])"

definition chunk_point_id :: "share_env \<Rightarrow> json \<Rightarrow> json_obj \<Rightarrow> string \<Rightarrow> string" where
  "chunk_point_id env src d scope = projection_point_id env ''documents'' (pk_text src @ '':'' @ pk_text (col d ''chunk_index'')) scope"

definition project_chunk ::
  "share_env \<Rightarrow> faults \<Rightarrow> json \<Rightarrow> json \<Rightarrow> user_id \<Rightarrow> string \<Rightarrow> string \<times> json_obj \<Rightarrow> (nat \<times> nat) \<times> share_state \<Rightarrow> (nat \<times> nat) \<times> share_state" where
  "project_chunk env fl src path owner scope p acc =
     (case acc of ((done, failed), st) \<Rightarrow>
        let d = snd p in
        if col d ''scope'' \<noteq> JStr ''personal'' then acc
        else if \<not> (sh_vector env (fst p) \<or> sh_embed env (str_of (or_else (col d ''text'') (JStr [])))) then ((done, failed + 1), st)
        else if \<not> is_json_int (col d ''chunk_index'') then ((done, failed + 1), st)
        else case qdrant_upsert_safe env fl ''documents'' (chunk_point_id env src d scope) True (chunk_payload src path owner scope d) st of
          Some st1 \<Rightarrow> ((done + 1, failed), st1)
        | None \<Rightarrow> ((done, failed + 1), st))"

definition project_file_chunks :: "share_env \<Rightarrow> faults \<Rightarrow> shared_row \<Rightarrow> string \<Rightarrow> share_state \<Rightarrow> (nat \<times> nat) \<times> share_state" where
  "project_file_chunks env fl src scope st =
     (let owner = sr_user src; path = or_else (col (sr_data src) ''file_path'') (JStr []) in
      if scope \<noteq> ''shared'' \<or> owner = [] \<or> path = JStr [] then ((0, 0), st)
      else fold (project_chunk env fl (sr_pk src) path owner scope) (scroll_document st owner path) ((0, 0), st))"

definition project_file_row :: "faults \<Rightarrow> instant \<Rightarrow> shared_row \<Rightarrow> string \<Rightarrow> user_id \<Rightarrow> share_state \<Rightarrow> (shared_row \<times> share_state) option" where
  "project_file_row fl now src scope actor st =
     (let d = sr_data src;
          new = \<lparr>sr_pk = JInt (ss_serial st), sr_user = actor, sr_scope = scope, sr_from = Some (sr_pk src),
            sr_data = [(''file_path'', or_else (col d ''file_path'') (JStr [])), (''file_hash'', or_else (col d ''file_hash'') (JStr [])),
              (''file_type'', or_else (col d ''file_type'') (JStr [])), (''chunk_count'', or_else (col d ''chunk_count'') (JInt 0)),
              (''ocr_used'', JBool (json_truthy (col d ''ocr_used''))), (''updated_at'', JInt now)]\<rparr>
      in if fl_insert fl (sr_pk src)
         then upsert_projection RFiles new (excluded [''file_hash'', ''chunk_count'', ''updated_at'']) (sr_pk src) (st\<lparr>ss_serial := ss_serial st + 1\<rparr>)
         else None)"

definition project_file_with_status ::
  "share_env \<Rightarrow> faults \<Rightarrow> instant \<Rightarrow> shared_row \<Rightarrow> string \<Rightarrow> user_id \<Rightarrow> share_state \<Rightarrow> (shared_row \<times> nat \<times> nat) option \<times> share_state" where
  "project_file_with_status env fl now src scope actor st =
     (if \<not> valid_target_scope scope \<or> sr_user src \<noteq> actor then (None, st)
      else case project_file_row fl now src scope actor st of
        None \<Rightarrow> (None, st)
      | Some (row, st1) \<Rightarrow>
          (case (if scope = ''shared'' then unproject_file_chunks fl (sr_pk src) (sr_user src) scope st1 else Some st1) of
             None \<Rightarrow> (None, st1)
           | Some st2 \<Rightarrow> (case project_file_chunks env fl src scope st2 of ((done, failed), st3) \<Rightarrow> (Some (row, done, failed), st3))))"

definition project_file ::
  "share_env \<Rightarrow> faults \<Rightarrow> instant \<Rightarrow> shared_row \<Rightarrow> string \<Rightarrow> user_id \<Rightarrow> share_state \<Rightarrow> shared_row option \<times> share_state" where
  "project_file env fl now src scope actor st =
     (case project_file_with_status env fl now src scope actor st of (r, st1) \<Rightarrow> (map_option fst r, st1))"

subsection \<open>The entities of a shared document\<close>

text \<open>Models \<open>services/document_entity_cascade.py\<close>.\<close>

definition graph_feature_enabled :: "share_env \<Rightarrow> bool" where
  "graph_feature_enabled env = (sh_graph_mode env \<noteq> ''disabled'')"

definition mentions :: "share_state \<Rightarrow> user_id \<Rightarrow> json \<Rightarrow> json \<Rightarrow> bool" where
  "mentions st owner path e = list_ex (\<lambda>r. rl_type r = ''DOCUMENT'' \<and> JStr (rl_evidence r) = path \<and> rl_user r = owner \<and> rl_source r = e) (ss_relations st)"

definition extracted_personal_entities :: "share_state \<Rightarrow> json \<Rightarrow> user_id \<Rightarrow> shared_row list" where
  "extracted_personal_entities st path owner =
     filter (\<lambda>e. sr_user e = owner \<and> sr_scope e = ''personal'' \<and> col (sr_data e) ''is_staged'' \<noteq> JBool True \<and> mentions st owner path (sr_pk e)) (ss_rows st REntities)"

fun batches :: "nat \<Rightarrow> 'a list \<Rightarrow> 'a list list" where
  "batches k [] = []"
| "batches k (x # xs) = (x # take k xs) # batches k (drop k xs)"

definition dispatch_document_shared :: "json \<Rightarrow> user_id \<Rightarrow> string \<Rightarrow> entity_ref list \<Rightarrow> share_state \<Rightarrow> share_state" where
  "dispatch_document_shared path u scope refs st =
     st\<lparr>ss_events := ss_events st @ map (\<lambda>b. (str_of path, u, scope, b)) (batches 199 refs)\<rparr>"

definition cascade_entity ::
  "share_env \<Rightarrow> faults \<Rightarrow> instant \<Rightarrow> string \<Rightarrow> user_id \<Rightarrow> shared_row \<Rightarrow> (nat \<times> nat \<times> entity_ref list) \<times> share_state
    \<Rightarrow> (nat \<times> nat \<times> entity_ref list) \<times> share_state" where
  "cascade_entity env fl now scope actor e acc =
     (case acc of ((done, failed, refs), st) \<Rightarrow>
        case project_entity env fl now e scope actor ''document'' st of
          (Some row, st1) \<Rightarrow> ((done + 1, failed, refs @ [(sr_pk e, sr_pk row, str_of (or_else (col (sr_data e) ''name'') (JStr [])),
              str_of (or_else (col (sr_data e) ''entity_type'') (JStr [])))]), st1)
        | (None, st1) \<Rightarrow> ((done, failed + 1, refs), st1))"

definition cascade_share_document_entities ::
  "share_env \<Rightarrow> faults \<Rightarrow> instant \<Rightarrow> shared_row \<Rightarrow> user_id \<Rightarrow> string \<Rightarrow> share_state \<Rightarrow> (nat \<times> nat) option \<times> share_state" where
  "cascade_share_document_entities env fl now src actor scope st =
     (let path = or_else (col (sr_data src) ''file_path'') (JStr []) in
      if \<not> graph_feature_enabled env \<or> path = JStr [] then (Some (0, 0), st)
      else if (if sr_user src = [] then actor else sr_user src) \<noteq> actor then (None, st)
      else case fold (cascade_entity env fl now scope actor) (extracted_personal_entities st path actor) ((0, 0, []), st) of
        ((done, failed, refs), st1) \<Rightarrow> (Some (done, failed), if refs = [] then st1 else dispatch_document_shared path actor scope refs st1))"

text \<open>
  The rows a retraction looks at: a personal entity, the origin of its shared row, and whether
  another shared document of the owner mentions it.
\<close>

definition other_justification :: "share_state \<Rightarrow> user_id \<Rightarrow> json \<Rightarrow> json \<Rightarrow> bool" where
  "other_justification st owner path e =
     list_ex (\<lambda>f. sr_scope f = ''shared'' \<and> sr_user f = owner \<and> col (sr_data f) ''file_path'' \<noteq> path \<and> mentions st owner (col (sr_data f) ''file_path'') e)
       (ss_rows st RFiles)"

definition plan_rows :: "share_state \<Rightarrow> user_id \<Rightarrow> json \<Rightarrow> (shared_row \<Rightarrow> bool) \<Rightarrow> (json \<times> json \<times> bool) list" where
  "plan_rows st owner path p =
     concat (map (\<lambda>pe. map (\<lambda>sh. (sr_pk pe, col (sr_data sh) ''share_origin'', other_justification st owner path (sr_pk pe)))
          (filter (projected_at (sr_pk pe) ''shared'') (ss_rows st REntities)))
        (filter (\<lambda>pe. sr_user pe = owner \<and> sr_scope pe = ''personal'' \<and> p pe) (ss_rows st REntities)))"

definition split_retract_and_downgrade :: "(json \<times> json \<times> bool) list \<Rightarrow> json list \<times> json list" where
  "split_retract_and_downgrade rows =
     (let live = filter (\<lambda>(_, _, other). \<not> other) rows in
      (map fst (filter (\<lambda>(_, origin, _). origin = JStr ''document'') live), map fst (filter (\<lambda>(_, origin, _). origin = JStr ''multiple'') live)))"

definition plan_document_entity_retraction :: "share_state \<Rightarrow> json \<Rightarrow> user_id \<Rightarrow> json list \<times> json list" where
  "plan_document_entity_retraction st path owner = split_retract_and_downgrade (plan_rows st owner path (\<lambda>pe. mentions st owner path (sr_pk pe)))"

definition plan_reingest_removed_entity_retraction :: "share_state \<Rightarrow> json \<Rightarrow> user_id \<Rightarrow> json list \<Rightarrow> json list \<times> json list" where
  "plan_reingest_removed_entity_retraction st path owner removed =
     (if removed = [] then ([], []) else split_retract_and_downgrade (plan_rows st owner path (\<lambda>pe. sr_pk pe \<in> set removed)))"

definition downgrade_origin :: "instant \<Rightarrow> json list \<Rightarrow> share_state \<Rightarrow> share_state" where
  "downgrade_origin now ids st =
     set_rows REntities (update_where (\<lambda>r. sr_scope r = ''shared'' \<and> (case sr_from r of Some s \<Rightarrow> s \<in> set ids | None \<Rightarrow> False))
       (\<lambda>r. r\<lparr>sr_data := dict_set ''share_origin'' (JStr ''user'') (dict_set ''updated_at'' (JInt now) (sr_data r))\<rparr>) (ss_rows st REntities)) st"

definition retract_one :: "share_env \<Rightarrow> faults \<Rightarrow> json \<Rightarrow> nat \<times> share_state \<Rightarrow> nat \<times> share_state" where
  "retract_one env fl e acc =
     (case acc of (n, st) \<Rightarrow> case unproject_entity env fl (pk_text e) ''shared'' st of (Some k, st1) \<Rightarrow> (n + k, st1) | (None, st1) \<Rightarrow> (n, st1))"

definition apply_entity_retraction_plan :: "share_env \<Rightarrow> faults \<Rightarrow> instant \<Rightarrow> json list \<times> json list \<Rightarrow> share_state \<Rightarrow> nat \<times> share_state" where
  "apply_entity_retraction_plan env fl now plan st =
     (case plan of (retract, downgrade) \<Rightarrow>
        case fold (retract_one env fl) retract (0, st) of
          (n, st1) \<Rightarrow> (n, if downgrade \<noteq> [] \<and> fl_downgrade fl then downgrade_origin now downgrade st1 else st1))"

definition retract_document_entities :: "share_env \<Rightarrow> faults \<Rightarrow> instant \<Rightarrow> json \<Rightarrow> user_id \<Rightarrow> share_state \<Rightarrow> nat \<times> share_state" where
  "retract_document_entities env fl now path owner st =
     (if \<not> graph_feature_enabled env \<or> path = JStr [] \<or> owner = [] then (0, st)
      else apply_entity_retraction_plan env fl now (plan_document_entity_retraction st path owner) st)"

definition retract_removed_entities_on_reingest ::
  "share_env \<Rightarrow> faults \<Rightarrow> instant \<Rightarrow> json \<Rightarrow> user_id \<Rightarrow> json list \<Rightarrow> share_state \<Rightarrow> nat \<times> share_state" where
  "retract_removed_entities_on_reingest env fl now path owner removed st =
     (if \<not> graph_feature_enabled env \<or> path = JStr [] \<or> owner = [] \<or> removed = [] then (0, st)
      else apply_entity_retraction_plan env fl now (plan_reingest_removed_entity_retraction st path owner removed) st)"

definition prune_stale_document_entity_relations :: "json \<Rightarrow> user_id \<Rightarrow> json list \<Rightarrow> share_state \<Rightarrow> json list \<times> share_state" where
  "prune_stale_document_entity_relations path owner keep st =
     (if path = JStr [] \<or> owner = [] then ([], st)
      else
        let mine = (\<lambda>r. rl_type r = ''DOCUMENT'' \<and> JStr (rl_evidence r) = path \<and> rl_user r = owner);
            removed = map rl_source (filter (\<lambda>r. mine r \<and> rl_source r \<notin> set keep) (ss_relations st))
        in (removed, st\<lparr>ss_relations := filter (\<lambda>r. \<not> (mine r \<and> rl_source r \<in> set removed)) (ss_relations st)\<rparr>))"

definition unproject_file :: "share_env \<Rightarrow> faults \<Rightarrow> instant \<Rightarrow> json \<Rightarrow> string \<Rightarrow> share_state \<Rightarrow> nat option \<times> share_state" where
  "unproject_file env fl now src scope st =
     (if \<not> fl_remove fl src then (None, st)
      else case find (projected_at src scope) (ss_rows st RFiles) of
        None \<Rightarrow> (Some 0, st)
      | Some row \<Rightarrow>
          let st1 = set_rows RFiles (filter (\<lambda>r. \<not> projected_at src scope r) (ss_rows st RFiles)) st;
              path = or_else (col (sr_data row) ''file_path'') (JStr []); owner = sr_user row
          in case unproject_file_chunks fl src owner scope st1 of
               None \<Rightarrow> (None, st1)
             | Some st2 \<Rightarrow> (Some 1, if scope = ''shared'' \<and> path \<noteq> JStr [] \<and> owner \<noteq> [] then snd (retract_document_entities env fl now path owner st2) else st2))"

subsection \<open>What belongs together\<close>

text \<open>
  A row accounts for a point when the point carries its source, scope and publisher and sits where
  the withdrawal of the row will look for it.
\<close>

definition accounts :: "share_env \<Rightarrow> resource \<Rightarrow> json \<times> user_id \<times> string \<times> json option \<Rightarrow> string \<times> json_obj \<Rightarrow> bool" where
  "accounts env res k p = (case k of (pk, u, scope, from) \<Rightarrow>
     (\<exists>s. from = Some s \<and> col (snd p) ''scope'' = JStr scope \<and> col (snd p) ''user_id'' = JStr u \<and>
       (if res = RFiles then col (snd p) ''published_from'' = s
        else (\<exists>x. s = JStr x \<and> col (snd p) ''published_from'' = JStr x \<and> fst p = projection_point_id env (collection_of res) x scope))))"

definition row_key :: "shared_row \<Rightarrow> json \<times> user_id \<times> string \<times> json option" where
  "row_key r = (sr_pk r, sr_user r, sr_scope r, sr_from r)"

abbreviation row_keys :: "share_state \<Rightarrow> resource \<Rightarrow> (json \<times> user_id \<times> string \<times> json option) set" where
  "row_keys st res \<equiv> row_key ` set (ss_rows st res)"

definition canonical_pk :: "share_env \<Rightarrow> resource \<Rightarrow> json \<Rightarrow> bool" where
  "canonical_pk env res k = (case k of JStr x \<Rightarrow> res \<noteq> RFiles \<and> sh_pg_uuid env x = Some x | JInt i \<Rightarrow> res = RFiles | _ \<Rightarrow> False)"

definition rows_owned :: "share_env \<Rightarrow> share_state \<Rightarrow> bool" where
  "rows_owned env st \<longleftrightarrow> (\<forall>res. distinct (map sr_pk (ss_rows st res)) \<and>
     (\<forall>(k, u, scope, from) \<in> row_keys st res. u \<noteq> [] \<and> (scope = ''personal'' \<longrightarrow> canonical_pk env res k \<and> from = None) \<and>
       (\<forall>s. from = Some s \<longrightarrow> (\<exists>from'. (s, u, ''personal'', from') \<in> row_keys st res))))"

text \<open>A point of the household that names what it was published from.\<close>

definition projected_point :: "string \<times> json_obj \<Rightarrow> bool" where
  "projected_point p \<longleftrightarrow> col (snd p) ''scope'' \<in> {JStr ''shared'', JStr ''system''} \<and> col (snd p) ''published_from'' \<noteq> JNull"

definition points_accounted :: "share_env \<Rightarrow> share_state \<Rightarrow> bool" where
  "points_accounted env st \<longleftrightarrow> (\<forall>c. \<forall>p \<in> set (ss_points st c). projected_point p \<longrightarrow>
     (\<exists>res. collection_of res = c \<and> (\<exists>k \<in> row_keys st res. accounts env res k p)))"

definition share_good :: "share_env \<Rightarrow> share_state \<Rightarrow> bool" where
  "share_good env st \<longleftrightarrow> rows_owned env st \<and> points_accounted env st"

lemma rows_ownedD:
  assumes "rows_owned env st"
  shows "distinct (map sr_pk (ss_rows st res))"
    and "(k, u, scope, from) \<in> row_keys st res \<Longrightarrow> u \<noteq> []"
    and "(k, u, ''personal'', from) \<in> row_keys st res \<Longrightarrow> canonical_pk env res k \<and> from = None"
    and "(k, u, scope, Some s) \<in> row_keys st res \<Longrightarrow> \<exists>from'. (s, u, ''personal'', from') \<in> row_keys st res"
  using assms unfolding rows_owned_def by blast+

lemma rows_ownedI:
  assumes "\<And>res. distinct (map sr_pk (ss_rows st res))"
    and "\<And>res k u scope from. (k, u, scope, from) \<in> row_keys st res \<Longrightarrow> u \<noteq> []"
    and "\<And>res k u from. (k, u, ''personal'', from) \<in> row_keys st res \<Longrightarrow> canonical_pk env res k \<and> from = None"
    and "\<And>res k u scope s. (k, u, scope, Some s) \<in> row_keys st res \<Longrightarrow> \<exists>from'. (s, u, ''personal'', from') \<in> row_keys st res"
  shows "rows_owned env st"
  using assms unfolding rows_owned_def by blast

lemma points_accountedD:
  assumes "points_accounted env st" and "p \<in> set (ss_points st c)" and "projected_point p"
  obtains res k where "collection_of res = c" "k \<in> row_keys st res" "accounts env res k p"
  using assms unfolding points_accounted_def by blast

lemma points_accountedI:
  assumes "\<And>c p. p \<in> set (ss_points st c) \<Longrightarrow> projected_point p \<Longrightarrow>
    \<exists>res. collection_of res = c \<and> (\<exists>k \<in> row_keys st res. accounts env res k p)"
  shows "points_accounted env st"
  using assms unfolding points_accounted_def by blast

text \<open>Two rows with the same source have the same owner: the owner of the source.\<close>

lemma one_publisher:
  assumes "rows_owned env st" and "(k, u, sc, Some s) \<in> row_keys st res" and "(k', u', sc', Some s) \<in> row_keys st res"
  shows "u = u'"
proof -
  have pks: "fst ` row_keys st res = sr_pk ` set (ss_rows st res)" by (auto simp: row_key_def image_image)
  obtain f where f: "(s, u, ''personal'', f) \<in> row_keys st res" using rows_ownedD(4) [OF assms(1,2)] by blast
  obtain f' where f': "(s, u', ''personal'', f') \<in> row_keys st res" using rows_ownedD(4) [OF assms(1,3)] by blast
  obtain r where r: "r \<in> set (ss_rows st res)" "sr_pk r = s" "sr_user r = u" using f by (auto simp: row_key_def)
  obtain r' where r': "r' \<in> set (ss_rows st res)" "sr_pk r' = s" "sr_user r' = u'" using f' by (auto simp: row_key_def)
  have "r = r'" using rows_ownedD(1) [OF assms(1), of res] r(1,2) r'(1,2) by (auto simp: distinct_map inj_on_def)
  with r(3) r'(3) show ?thesis by simp
qed

lemma personal_pk_unique:
  assumes "rows_owned env st" and "(s, u, sc, f) \<in> row_keys st res" and "(s, u', sc', f') \<in> row_keys st res"
  shows "u = u' \<and> sc = sc' \<and> f = f'"
proof -
  obtain r where r: "r \<in> set (ss_rows st res)" "sr_pk r = s" "row_key r = (s, u, sc, f)" using assms(2) by (auto simp: row_key_def)
  obtain r' where r': "r' \<in> set (ss_rows st res)" "sr_pk r' = s" "row_key r' = (s, u', sc', f')" using assms(3) by (auto simp: row_key_def)
  have "r = r'" using rows_ownedD(1) [OF assms(1), of res] r(1,2) r'(1,2) by (auto simp: distinct_map inj_on_def)
  with r(3) r'(3) show ?thesis by simp
qed

lemma points_more_rows:
  assumes "points_accounted env st" and "\<And>res. row_keys st res \<subseteq> row_keys st' res"
    and "\<And>c. set (ss_points st' c) \<subseteq> set (ss_points st c)"
  shows "points_accounted env st'"
proof (rule points_accountedI)
  fix c p assume p: "p \<in> set (ss_points st' c)" "projected_point p"
  obtain res k where k: "collection_of res = c" "k \<in> row_keys st res" "accounts env res k p"
    by (rule points_accountedD [OF assms(1) subsetD [OF assms(3) p(1)] p(2)])
  show "\<exists>res. collection_of res = c \<and> (\<exists>k \<in> row_keys st' res. accounts env res k p)"
    by (intro exI [of _ res] conjI bexI [of _ k] k(1,3) subsetD [OF assms(2) k(2)])
qed

lemma set_dict_set: "set (dict_set k v d) \<subseteq> insert (k, v) (set d)"
  by (induction k v d rule: dict_set.induct) auto

lemma points_put:
  assumes "points_accounted env st"
    and "projected_point (pid, payload) \<Longrightarrow> \<exists>res. collection_of res = c \<and> (\<exists>k \<in> row_keys st res. accounts env res k (pid, payload))"
  shows "points_accounted env (put_point c pid payload st)"
proof (rule points_accountedI)
  fix c' p assume p: "p \<in> set (ss_points (put_point c pid payload st) c')" "projected_point p"
  have rows: "row_keys (put_point c pid payload st) res = row_keys st res" for res by (simp add: put_point_def)
  from p(1) have "p \<in> set (ss_points st c') \<or> c' = c \<and> p = (pid, payload)"
    using set_dict_set [of pid payload "ss_points st c"] by (auto simp: put_point_def split: if_splits)
  then show "\<exists>res. collection_of res = c' \<and> (\<exists>k \<in> row_keys (put_point c pid payload st) res. accounts env res k p)"
    unfolding rows using assms(2) p(2) points_accountedD [OF assms(1), of p c'] by (metis snd_conv)
qed

lemma same_rows_owned: "ss_rows st' = ss_rows st \<Longrightarrow> rows_owned env st' = rows_owned env st"
  by (simp add: rows_owned_def)

lemma put_drop_rows [simp]:
  "ss_rows (put_point c pid payload st) = ss_rows st" "ss_rows (drop_points c q st) = ss_rows st"
  "ss_points (set_rows res rows st) = ss_points st" "ss_rows (set_rows res rows st) = (ss_rows st)(res := rows)"
  by (simp_all add: put_point_def drop_points_def set_rows_def)

lemma set_drop_points: "set (ss_points (drop_points c q st) c') = (if c' = c then {p \<in> set (ss_points st c). \<not> q p} else set (ss_points st c'))"
  by (auto simp: drop_points_def)

lemma drop_points_good:
  assumes "share_good env st" shows "share_good env (drop_points c q st)"
proof -
  have pts: "points_accounted env st" using assms by (simp add: share_good_def)
  have "points_accounted env (drop_points c q st)"
    by (rule points_more_rows [OF pts]) (simp, simp add: set_drop_points)
  with assms show ?thesis using same_rows_owned [of "drop_points c q st" st env] by (simp add: share_good_def)
qed

text \<open>A new row whose source is the publisher's own.\<close>

lemma upsert_projection_keys:
  assumes "upsert_projection res new upd src st = Some (row, st')" and "sr_from new = Some src"
  shows "ss_points st' = ss_points st"
    and "map sr_pk (ss_rows st' res) = map sr_pk (ss_rows st res) \<and> row_keys st' res = row_keys st res \<and> (\<exists>k u. (k, u, sr_scope new, Some src) \<in> row_keys st res) \<or>
      sr_pk new \<notin> sr_pk ` set (ss_rows st res) \<and> map sr_pk (ss_rows st' res) = map sr_pk (ss_rows st res) @ [sr_pk new] \<and>
      row_keys st' res = insert (row_key new) (row_keys st res)"
    and "res' \<noteq> res \<Longrightarrow> ss_rows st' res' = ss_rows st res'"
proof -
  have "\<exists>rows'. st' = set_rows res rows' st \<and>
      (map sr_pk rows' = map sr_pk (ss_rows st res) \<and> row_key ` set rows' = row_keys st res \<and> (\<exists>k u. (k, u, sr_scope new, Some src) \<in> row_keys st res) \<or>
       sr_pk new \<notin> sr_pk ` set (ss_rows st res) \<and> rows' = ss_rows st res @ [new])"
  proof (cases "find (projected_at src (sr_scope new)) (ss_rows st res)")
    case None
    then show ?thesis using assms by (auto simp: upsert_projection_def Let_def split: if_splits)
  next
    case (Some old)
    let ?rows = "update_where (projected_at src (sr_scope new)) (\<lambda>r. r\<lparr>sr_data := upd (sr_data new) (sr_data r)\<rparr>) (ss_rows st res)"
    have keys: "map row_key ?rows = map row_key (ss_rows st res)" "map sr_pk ?rows = map sr_pk (ss_rows st res)"
      by (simp_all add: map_key_update_where row_key_def)
    from Some have "old \<in> set (ss_rows st res)" "projected_at src (sr_scope new) old" by (auto simp: find_Some_iff)
    then have "(sr_pk old, sr_user old, sr_scope new, Some src) \<in> row_keys st res" by (force simp: row_key_def projected_at_def)
    moreover have "row_key ` set ?rows = row_keys st res" using arg_cong [OF keys(1), of set] by simp
    moreover have "st' = set_rows res ?rows st" using assms(1) Some by (auto simp: upsert_projection_def Let_def)
    ultimately show ?thesis using keys(2) by blast
  qed
  then obtain rows' where st': "st' = set_rows res rows' st" and
    c: "map sr_pk rows' = map sr_pk (ss_rows st res) \<and> row_key ` set rows' = row_keys st res \<and> (\<exists>k u. (k, u, sr_scope new, Some src) \<in> row_keys st res) \<or>
       sr_pk new \<notin> sr_pk ` set (ss_rows st res) \<and> rows' = ss_rows st res @ [new]" by blast
  show "ss_points st' = ss_points st" "res' \<noteq> res \<Longrightarrow> ss_rows st' res' = ss_rows st res'" by (simp_all add: st')
  show "map sr_pk (ss_rows st' res) = map sr_pk (ss_rows st res) \<and> row_keys st' res = row_keys st res \<and> (\<exists>k u. (k, u, sr_scope new, Some src) \<in> row_keys st res) \<or>
      sr_pk new \<notin> sr_pk ` set (ss_rows st res) \<and> map sr_pk (ss_rows st' res) = map sr_pk (ss_rows st res) @ [sr_pk new] \<and>
      row_keys st' res = insert (row_key new) (row_keys st res)"
    using c by (auto simp: st')
qed

definition fits :: "json \<Rightarrow> string \<Rightarrow> user_id \<Rightarrow> json_obj \<Rightarrow> shared_row \<Rightarrow> bool" where
  "fits src scope actor payload new \<longleftrightarrow> sr_user new = actor \<and> sr_scope new = scope \<and> sr_from new = Some src \<and>
     col payload ''scope'' = JStr scope \<and> col payload ''user_id'' = JStr actor \<and> col payload ''published_from'' = JStr (pk_text src)"

definition reliable :: "faults \<Rightarrow> bool" where
  "reliable fl \<longleftrightarrow> (\<forall>p. fl_delete fl p) \<and> fl_bulk fl"

definition is_source :: "share_state \<Rightarrow> resource \<Rightarrow> json \<Rightarrow> user_id \<Rightarrow> bool" where
  "is_source st res src actor \<longleftrightarrow> (\<exists>from. (src, actor, ''personal'', from) \<in> row_keys st res)"

lemma upsert_owned:
  assumes own: "rows_owned env st" and src: "is_source st res src actor"
    and new: "sr_from new = Some src" "sr_user new = actor" "sr_scope new \<noteq> ''personal''"
    and up: "upsert_projection res new upd src st = Some (row, st')"
  shows "rows_owned env st'" and "row_keys st res' \<subseteq> row_keys st' res'" and "\<exists>k. (k, actor, sr_scope new, Some src) \<in> row_keys st' res"
proof -
  note u = upsert_projection_keys [OF up new(1)]
  obtain f where f: "(src, actor, ''personal'', f) \<in> row_keys st res" using src by (auto simp: is_source_def)
  have other: "row_keys st' r = row_keys st r" "map sr_pk (ss_rows st' r) = map sr_pk (ss_rows st r)" if "r \<noteq> res" for r using u(3) [OF that] by simp_all
  from u(2) have "rows_owned env st' \<and> row_keys st res \<subseteq> row_keys st' res \<and> (\<exists>k. (k, actor, sr_scope new, Some src) \<in> row_keys st' res)"
  proof (elim disjE conjE)
    assume keep: "map sr_pk (ss_rows st' res) = map sr_pk (ss_rows st res)" "row_keys st' res = row_keys st res"
      and "\<exists>k u. (k, u, sr_scope new, Some src) \<in> row_keys st res"
    then obtain k u where ku: "(k, u, sr_scope new, Some src) \<in> row_keys st res" by blast
    obtain f' where "(src, u, ''personal'', f') \<in> row_keys st res" using rows_ownedD(4) [OF own ku] by blast
    then have "u = actor" using personal_pk_unique [OF own _ f] by blast
    moreover have "rows_owned env st'"
    proof (rule rows_ownedI)
      have e: "row_keys st' r = row_keys st r" "map sr_pk (ss_rows st' r) = map sr_pk (ss_rows st r)" for r
        using keep other by (cases "r = res"; simp)+
      show "distinct (map sr_pk (ss_rows st' r))" for r unfolding e(2) by (rule rows_ownedD(1) [OF own])
      show "u \<noteq> []" if "(k, u, scope, from) \<in> row_keys st' r" for r k u scope "from" using that unfolding e(1) by (rule rows_ownedD(2) [OF own])
      show "canonical_pk env r k \<and> from = None" if "(k, u, ''personal'', from) \<in> row_keys st' r" for r k u "from" using that unfolding e(1) by (rule rows_ownedD(3) [OF own])
      show "\<exists>from'. (s, u, ''personal'', from') \<in> row_keys st' r" if "(k, u, scope, Some s) \<in> row_keys st' r" for r k u scope s
        using that unfolding e(1) by (rule rows_ownedD(4) [OF own])
    qed
    ultimately show ?thesis using ku keep(2) by auto
  next
    assume fresh: "sr_pk new \<notin> sr_pk ` set (ss_rows st res)" "map sr_pk (ss_rows st' res) = map sr_pk (ss_rows st res) @ [sr_pk new]"
      and keys: "row_keys st' res = insert (row_key new) (row_keys st res)"
    have nk: "row_key new = (sr_pk new, actor, sr_scope new, Some src)" using new by (simp add: row_key_def)
    have e: "k \<in> row_keys st' r \<longleftrightarrow> k \<in> row_keys st r \<or> r = res \<and> k = row_key new" for r k using keys other(1) by (cases "r = res") auto
    have "rows_owned env st'"
    proof (rule rows_ownedI)
      show "distinct (map sr_pk (ss_rows st' r))" for r
        using rows_ownedD(1) [OF own, of r] fresh other(2) by (cases "r = res") auto
      show "u \<noteq> []" if "(k, u, scope, from) \<in> row_keys st' r" for r k u scope "from"
        using that rows_ownedD(2) [OF own] rows_ownedD(2) [OF own f] unfolding e nk by blast
      show "canonical_pk env r k \<and> from = None" if "(k, u, ''personal'', from) \<in> row_keys st' r" for r k u "from"
      proof -
        have "(k, u, ''personal'', from) \<noteq> row_key new" using new(3) nk by auto
        with that have "(k, u, ''personal'', from) \<in> row_keys st r" unfolding e by blast
        then show ?thesis by (rule rows_ownedD(3) [OF own])
      qed
      show "\<exists>from'. (s, u, ''personal'', from') \<in> row_keys st' r" if "(k, u, scope, Some s) \<in> row_keys st' r" for r k u scope s
        using that rows_ownedD(4) [OF own] f unfolding e nk by blast
    qed
    then show ?thesis using keys nk by auto
  qed
  then show "rows_owned env st'" "\<exists>k. (k, actor, sr_scope new, Some src) \<in> row_keys st' res" "row_keys st res' \<subseteq> row_keys st' res'"
    using other(1) by (cases "res' = res"; auto)+
qed

lemma canonical_text: "canonical_pk env res k \<Longrightarrow> res \<noteq> RFiles \<Longrightarrow> \<exists>x. k = JStr x \<and> pk_text k = x \<and> sh_pg_uuid env x = Some x"
  by (auto simp: canonical_pk_def pk_text_def split: json.splits)

lemma source_canonical: "rows_owned env st \<Longrightarrow> is_source st res src actor \<Longrightarrow> canonical_pk env res src"
  using rows_ownedD(3) by (fastforce simp: is_source_def)

lemma mirror_good:
  assumes good: "share_good env st" and src: "is_source st res src actor" and fit: "fits src scope actor payload new"
    and "scope \<in> {''shared'', ''system''}" and "res \<noteq> RFiles" and "\<And>p. fl_delete fl p"
  shows "share_good env (snd (mirror_and_insert env fl res emb payload new upd src st))"
    and "row_keys st res' \<subseteq> row_keys (snd (mirror_and_insert env fl res emb payload new upd src st)) res'"
proof -
  have own: "rows_owned env st" and pts: "points_accounted env st" using good by (simp_all add: share_good_def)
  let ?c = "collection_of res" let ?pid = "projection_point_id env ?c (pk_text src) scope"
  have new: "sr_from new = Some src" "sr_user new = actor" "sr_scope new = scope" using fit by (simp_all add: fits_def)
  have newp: "sr_scope new \<noteq> ''personal''" using new(3) assms(4) by auto
  obtain x where x: "src = JStr x" "pk_text src = x"
    using canonical_text [OF source_canonical [OF own src] assms(5)] by blast
  define st1 where "st1 = (if sh_embed env emb then put_point ?c ?pid payload st else st)"
  have st1: "ss_rows st1 = ss_rows st" by (simp add: st1_def)
  have dropped: "share_good env (drop_points ?c (\<lambda>p. fst p = ?pid) st1)"
  proof -
    have sub: "set (ss_points (drop_points ?c (\<lambda>p. fst p = ?pid) st1) c) \<subseteq> set (ss_points st c)" for c
    proof
      fix p assume "p \<in> set (ss_points (drop_points ?c (\<lambda>p. fst p = ?pid) st1) c)"
      then have p: "p \<in> set (ss_points st1 c)" "c = ?c \<Longrightarrow> fst p \<noteq> ?pid" by (simp_all add: set_drop_points split: if_splits)
      show "p \<in> set (ss_points st c)"
      proof (cases "sh_embed env emb \<and> c = ?c")
        case True
        then have "p \<in> set (dict_set ?pid payload (ss_points st ?c))" using p(1) by (simp add: st1_def put_point_def)
        then have "p \<in> insert (?pid, payload) (set (ss_points st ?c))" by (rule subsetD [OF set_dict_set])
        with True p(2) show ?thesis by auto
      next
        case False
        with p(1) show ?thesis by (auto simp: st1_def put_point_def split: if_splits)
      qed
    qed
    have "points_accounted env (drop_points ?c (\<lambda>p. fst p = ?pid) st1)"
      by (rule points_more_rows [OF pts _ sub]) (simp add: st1)
    with own show ?thesis using same_rows_owned [of "drop_points ?c (\<lambda>p. fst p = ?pid) st1" st env] st1 by (simp add: share_good_def)
  qed
  let ?r = "snd (mirror_and_insert env fl res emb payload new upd src st)"
  have "?r = st \<or> ?r = drop_points ?c (\<lambda>p. fst p = ?pid) st1 \<or> (\<exists>row. upsert_projection res new upd src st1 = Some (row, ?r))"
    using assms(6) new(3)
    by (simp add: mirror_and_insert_def Let_def qdrant_upsert_safe_def insert_projection_or_rollback_qdrant_def qdrant_delete_safe_def st1_def split: option.split prod.split)
  then have "share_good env ?r \<and> (\<forall>res'. row_keys st res' \<subseteq> row_keys ?r res')"
  proof (elim disjE exE)
    assume "?r = st"
    with good show ?thesis by simp
  next
    assume r: "?r = drop_points ?c (\<lambda>p. fst p = ?pid) st1"
    show ?thesis using dropped st1 unfolding r by simp
  next
    fix row assume up: "upsert_projection res new upd src st1 = Some (row, ?r)"
    have own1: "rows_owned env st1" and src1: "is_source st1 res src actor" using own src st1 same_rows_owned [of st1 st env] by (simp_all add: is_source_def)
    note up3 = upsert_owned [OF own1 src1 new(1,2) newp up]
    obtain k where k: "(k, actor, scope, Some src) \<in> row_keys ?r res" using up3(3) new(3) by blast
    have keys: "row_keys st r' \<subseteq> row_keys ?r r'" for r' using up3(2) st1 by simp
    have acc: "accounts env res (k, actor, scope, Some src) (?pid, payload)"
      using fit assms(5) x by (simp add: accounts_def fits_def)
    have pts': "ss_points ?r = ss_points st1" by (rule upsert_projection_keys(1) [OF up new(1)])
    have "points_accounted env ?r"
    proof (rule points_accountedI)
      fix c p assume p: "p \<in> set (ss_points ?r c)" "projected_point p"
      have "p \<in> set (ss_points st c) \<or> c = ?c \<and> p = (?pid, payload)"
      proof (cases "sh_embed env emb \<and> c = ?c")
        case True
        then have "p \<in> set (dict_set ?pid payload (ss_points st ?c))" using p(1) by (simp add: pts' st1_def put_point_def)
        then have "p \<in> insert (?pid, payload) (set (ss_points st ?c))" by (rule subsetD [OF set_dict_set])
        with True show ?thesis by auto
      next
        case False
        with p(1) show ?thesis by (auto simp: pts' st1_def put_point_def split: if_splits)
      qed
      then consider "p \<in> set (ss_points st c)" | "c = ?c" "p = (?pid, payload)" by blast
      then show "\<exists>res. collection_of res = c \<and> (\<exists>k \<in> row_keys ?r res. accounts env res k p)"
      proof cases
        case 1
        obtain res'' k'' where "collection_of res'' = c" "k'' \<in> row_keys st res''" "accounts env res'' k'' p"
          by (rule points_accountedD [OF pts 1 p(2)])
        then show ?thesis using keys by blast
      next
        case 2
        then show ?thesis using k acc by blast
      qed
    qed
    with up3(1) keys show ?thesis by (simp add: share_good_def)
  qed
  then show "share_good env ?r" "row_keys st res' \<subseteq> row_keys ?r res'" by blast+
qed

definition grows :: "share_env \<Rightarrow> share_state \<Rightarrow> share_state \<Rightarrow> bool" where
  "grows env st st' \<longleftrightarrow> share_good env st' \<and> (\<forall>res. row_keys st res \<subseteq> row_keys st' res)"

lemma grows_refl: "share_good env st \<Longrightarrow> grows env st st"
  by (simp add: grows_def)

lemma growsD: "grows env st st' \<Longrightarrow> share_good env st'" "grows env st st' \<Longrightarrow> row_keys st res \<subseteq> row_keys st' res"
  by (simp_all add: grows_def)

lemma growsI: "share_good env st' \<Longrightarrow> (\<And>res. row_keys st res \<subseteq> row_keys st' res) \<Longrightarrow> grows env st st'"
  by (simp add: grows_def)

lemma grows_trans: "grows env st st' \<Longrightarrow> grows env st' st'' \<Longrightarrow> grows env st st''"
  by (rule growsI) (erule growsD(1), rule order_trans [OF growsD(2) growsD(2)])

lemma grows_source: "grows env st st' \<Longrightarrow> is_source st res src actor \<Longrightarrow> is_source st' res src actor"
proof -
  assume g: "grows env st st'" and "is_source st res src actor"
  then obtain f where "(src, actor, ''personal'', f) \<in> row_keys st res" by (auto simp only: is_source_def)
  from subsetD [OF growsD(2) [OF g] this] show "is_source st' res src actor" unfolding is_source_def by (rule exI)
qed

lemma mirror_grows:
  assumes "share_good env st" and "is_source st res src actor" and "fits src scope actor payload new"
    and "scope \<in> {''shared'', ''system''}" and "res \<noteq> RFiles" and "\<And>p. fl_delete fl p"
  shows "grows env st (snd (mirror_and_insert env fl res emb payload new upd src st))"
  using mirror_good [OF assms] by (simp add: grows_def)

lemma project_grows:
  assumes "share_good env st" and "\<And>p. fl_delete fl p"
  shows "is_source st RNotes (sr_pk src) actor \<Longrightarrow> grows env st (snd (project_note env fl now src scope actor st))"
    and "is_source st RAudioMemos (sr_pk src) actor \<Longrightarrow> grows env st (snd (project_audio_memo env fl now src scope actor st))"
    and "is_source st RSessions (sr_pk src) actor \<Longrightarrow> grows env st (snd (project_session env fl now src scope actor override st))"
    and "is_source st REntities (sr_pk src) actor \<Longrightarrow> grows env st (snd (project_entity env fl now src scope actor origin st))"
    and "is_source st RSignals (sr_pk src) actor \<Longrightarrow> grows env st (snd (project_signal env fl now src scope actor st))"
  using assms grows_refl [OF assms(1)]
  by (simp_all add: project_note_def project_audio_memo_def project_session_def project_entity_def project_signal_def Let_def valid_target_scope_def split: option.split)
    (auto intro!: mirror_grows simp: fits_def col_def)

subsection \<open>Withdrawing keeps the books\<close>

lemma removed_owned:
  assumes own: "rows_owned env st" and "scope \<noteq> ''personal''" and "ss_rows st' = (ss_rows st)(res := filter (\<lambda>r. \<not> projected_at src scope r) (ss_rows st res))"
  shows "rows_owned env st'"
    and "k \<in> row_keys st res' \<Longrightarrow> \<not> (res' = res \<and> (\<exists>pk u. k = (pk, u, scope, Some src))) \<Longrightarrow> k \<in> row_keys st' res'"
proof -
  have sub: "row_keys st' r \<subseteq> row_keys st r" for r using assms(3) by auto
  show keep: "k \<in> row_keys st res' \<Longrightarrow> \<not> (res' = res \<and> (\<exists>pk u. k = (pk, u, scope, Some src))) \<Longrightarrow> k \<in> row_keys st' res'" for k res'
    using assms(3) by (auto simp: projected_at_def row_key_def image_iff)
  show "rows_owned env st'"
  proof (rule rows_ownedI)
    show "distinct (map sr_pk (ss_rows st' r))" for r
      using rows_ownedD(1) [OF own, of r] assms(3) by (auto simp: distinct_map_filter)
    show "u \<noteq> []" if "(k, u, s, from) \<in> row_keys st' r" for r k u s "from" using subsetD [OF sub that] by (rule rows_ownedD(2) [OF own])
    show "canonical_pk env r k \<and> from = None" if "(k, u, ''personal'', from) \<in> row_keys st' r" for r k u "from"
      using subsetD [OF sub that] by (rule rows_ownedD(3) [OF own])
    show "\<exists>from'. (s, u, ''personal'', from') \<in> row_keys st' r" if k: "(k, u, sc, Some s) \<in> row_keys st' r" for r k u sc s
    proof -
      obtain f where "(s, u, ''personal'', f) \<in> row_keys st r" using rows_ownedD(4) [OF own subsetD [OF sub k]] by blast
      then show ?thesis using keep assms(2) by blast
    qed
  qed
qed

text \<open>What is withdrawn leaves no point behind, and everything else keeps its row.\<close>

lemma withdrawn_good:
  assumes good: "share_good env st" and "scope \<noteq> ''personal''" and rows: "ss_rows st' = (ss_rows st)(res := filter (\<lambda>r. \<not> projected_at src scope r) (ss_rows st res))"
    and pts: "\<And>c. set (ss_points st' c) \<subseteq> set (ss_points st c)"
    and gone: "\<And>p u pk. p \<in> set (ss_points st' (collection_of res)) \<Longrightarrow> (pk, u, scope, Some src) \<in> row_keys st res \<Longrightarrow> \<not> accounts env res (pk, u, scope, Some src) p"
  shows "share_good env st'"
proof -
  have own: "rows_owned env st" and acc: "points_accounted env st" using good by (simp_all add: share_good_def)
  note r = removed_owned [OF own assms(2) rows]
  have "points_accounted env st'"
  proof (rule points_accountedI)
    fix c p assume p: "p \<in> set (ss_points st' c)" "projected_point p"
    obtain res' k where k: "collection_of res' = c" "k \<in> row_keys st res'" "accounts env res' k p"
      by (rule points_accountedD [OF acc subsetD [OF pts p(1)] p(2)])
    have "\<not> (res' = res \<and> (\<exists>pk u. k = (pk, u, scope, Some src)))"
    proof
      assume "res' = res \<and> (\<exists>pk u. k = (pk, u, scope, Some src))"
      then obtain pk u where "res' = res" "k = (pk, u, scope, Some src)" by blast
      with gone [of p pk u] k p(1) show False by simp
    qed
    then have "k \<in> row_keys st' res'" by (rule r(2) [OF k(2)])
    with k(1,3) show "\<exists>res. collection_of res = c \<and> (\<exists>k \<in> row_keys st' res. accounts env res k p)" by blast
  qed
  with r(1) show ?thesis by (simp add: share_good_def)
qed

lemma unproject_uuid_good:
  assumes "share_good env st" and "scope \<noteq> ''personal''" and "res \<noteq> RFiles" and "sh_pg_uuid env raw \<in> {None, Some raw}" and "\<And>p. fl_delete fl p"
  shows "share_good env (snd (unproject_uuid_pk env fl res raw scope st))"
proof (cases "sh_pg_uuid env raw = None \<or> \<not> fl_remove fl (JStr raw)")
  case True
  with assms(1,4) show ?thesis by (auto simp: unproject_uuid_pk_def)
next
  case False
  let ?st = "snd (unproject_uuid_pk env fl res raw scope st)" let ?pid = "projection_point_id env (collection_of res) raw scope"
  have eq: "?st = drop_points (collection_of res) (\<lambda>x. fst x = ?pid) (set_rows res (filter (\<lambda>r. \<not> projected_at (JStr raw) scope r) (ss_rows st res)) st)"
    using False assms(4,5) by (auto simp: unproject_uuid_pk_def Let_def qdrant_delete_safe_def)
  show ?thesis
  proof (rule withdrawn_good [OF assms(1,2)])
    show "ss_rows ?st = (ss_rows st)(res := filter (\<lambda>r. \<not> projected_at (JStr raw) scope r) (ss_rows st res))" by (simp add: eq)
    show "set (ss_points ?st c) \<subseteq> set (ss_points st c)" for c by (simp add: eq set_drop_points)
    show "\<not> accounts env res (pk, u, scope, Some (JStr raw)) p" if "p \<in> set (ss_points ?st (collection_of res))" for p u pk
      using that assms(3) by (simp add: eq set_drop_points accounts_def)
  qed
qed

lemma chunk_put_grows:
  assumes "share_good env st" and "(k, owner, scope, Some src) \<in> row_keys st RFiles"
  shows "grows env st (put_point ''documents'' pid (chunk_payload src path owner scope d) st)"
proof -
  have "accounts env RFiles (k, owner, scope, Some src) (pid, chunk_payload src path owner scope d)"
    by (simp add: accounts_def chunk_payload_def col_def)
  then have "\<exists>res. collection_of res = ''documents'' \<and> (\<exists>k \<in> row_keys st res. accounts env res k (pid, chunk_payload src path owner scope d))"
    using assms(2) by (intro exI [of _ RFiles]) auto
  then have "points_accounted env (put_point ''documents'' pid (chunk_payload src path owner scope d) st)"
    using assms(1) by (intro points_put) (simp_all add: share_good_def)
  then show ?thesis
    using assms(1) same_rows_owned [of "put_point ''documents'' pid (chunk_payload src path owner scope d) st" st env] by (simp add: grows_def share_good_def)
qed

lemma project_chunk_grows:
  assumes "share_good env (snd acc)" and "(k, owner, scope, Some src) \<in> row_keys (snd acc) RFiles"
  shows "grows env (snd acc) (snd (project_chunk env fl src path owner scope p acc))"
  using chunk_put_grows [OF assms] grows_refl [OF assms(1)]
  by (cases acc) (auto simp: project_chunk_def Let_def qdrant_upsert_safe_def split: option.split prod.split)

lemma fold_chunks_grow:
  assumes "share_good env (snd acc)" and "(k, owner, scope, Some src) \<in> row_keys (snd acc) RFiles"
  shows "grows env (snd acc) (snd (fold (project_chunk env fl src path owner scope) ps acc))"
  using assms
proof (induction ps arbitrary: acc)
  case Nil
  then show ?case by (simp add: grows_refl)
next
  case (Cons p ps)
  have g: "grows env (snd acc) (snd (project_chunk env fl src path owner scope p acc))" by (rule project_chunk_grows [OF Cons.prems])
  then have "grows env (snd (project_chunk env fl src path owner scope p acc)) (snd (fold (project_chunk env fl src path owner scope) ps (project_chunk env fl src path owner scope p acc)))"
    using Cons.prems(2) by (intro Cons.IH) (auto simp: grows_def)
  with g show ?case by (simp add: grows_trans)
qed

lemma file_chunks_grow:
  assumes "share_good env st" and "(k, sr_user src, scope, Some (sr_pk src)) \<in> row_keys st RFiles"
  shows "grows env st (snd (project_file_chunks env fl src scope st))"
  using fold_chunks_grow [of env "((0, 0), st)" k "sr_user src" scope "sr_pk src"] assms grows_refl [OF assms(1)]
  by (auto simp: project_file_chunks_def Let_def)

lemma unproject_chunks_grow:
  assumes "share_good env st" and "unproject_file_chunks fl src owner scope st = Some st'"
  shows "grows env st st'"
  using assms drop_points_good [OF assms(1)] by (auto simp: unproject_file_chunks_def grows_def split: if_splits)

lemma project_file_grows:
  assumes "share_good env st" and "is_source st RFiles (sr_pk src) actor"
  shows "grows env st (snd (project_file_with_status env fl now src scope actor st))"
proof (cases "\<not> valid_target_scope scope \<or> sr_user src \<noteq> actor \<or> project_file_row fl now src scope actor st = None")
  case True
  with grows_refl [OF assms(1)] show ?thesis by (auto simp: project_file_with_status_def)
next
  case False
  then obtain row st1 where row: "project_file_row fl now src scope actor st = Some (row, st1)" by auto
  have sc: "scope \<in> {''shared'', ''system''}" "sr_user src = actor" using False by (auto simp: valid_target_scope_def)
  define st0 where "st0 = st\<lparr>ss_serial := ss_serial st + 1\<rparr>"
  have own0: "rows_owned env st0" and pts0: "points_accounted env st0" and src0: "is_source st0 RFiles (sr_pk src) actor"
    using assms by (simp_all add: share_good_def st0_def rows_owned_def points_accounted_def is_source_def)
  obtain new where new: "upsert_projection RFiles new (excluded [''file_hash'', ''chunk_count'', ''updated_at'']) (sr_pk src) st0 = Some (row, st1)"
      "sr_from new = Some (sr_pk src)" "sr_user new = actor" "sr_scope new = scope"
    using row by (auto simp: project_file_row_def Let_def st0_def split: if_splits)
  have np: "sr_scope new \<noteq> ''personal''" using new(4) sc(1) by auto
  note up = upsert_owned [OF own0 src0 new(2,3) np new(1)]
  have p1: "ss_points st1 = ss_points st0" by (rule upsert_projection_keys(1) [OF new(1,2)])
  have "points_accounted env st1" by (rule points_more_rows [OF pts0 up(2)]) (simp add: p1)
  then have g1: "grows env st st1" using up(1,2) by (auto simp: grows_def share_good_def st0_def)
  obtain k where k: "(k, actor, scope, Some (sr_pk src)) \<in> row_keys st1 RFiles" using up(3) new(4) by blast
  show ?thesis
  proof (cases "if scope = ''shared'' then unproject_file_chunks fl (sr_pk src) (sr_user src) scope st1 else Some st1")
    case None
    then show ?thesis using g1 sc False by (simp add: project_file_with_status_def row)
  next
    case (Some st2)
    have g2: "grows env st1 st2" using Some unproject_chunks_grow g1 by (auto simp: grows_def split: if_splits)
    then have "grows env st2 (snd (project_file_chunks env fl src scope st2))"
      using k sc(2) by (intro file_chunks_grow) (auto simp: grows_def)
    with g1 g2 have "grows env st (snd (project_file_chunks env fl src scope st2))" using grows_trans by blast
    then show ?thesis using Some sc False
      by (cases "project_file_chunks env fl src scope st2") (auto simp: project_file_with_status_def row)
  qed
qed

lemma dispatch_simps [simp]:
  "ss_rows (dispatch_document_shared path u scope refs st) = ss_rows st" "ss_points (dispatch_document_shared path u scope refs st) = ss_points st"
  "ss_relations (dispatch_document_shared path u scope refs st) = ss_relations st"
  by (simp_all add: dispatch_document_shared_def)

lemma share_good_cong: "ss_rows st' = ss_rows st \<Longrightarrow> ss_points st' = ss_points st \<Longrightarrow> share_good env st' = share_good env st"
  by (simp add: share_good_def rows_owned_def points_accounted_def)

lemma grows_cong: "ss_rows st'' = ss_rows st' \<Longrightarrow> ss_points st'' = ss_points st' \<Longrightarrow> grows env st st'' = grows env st st'"
  by (simp add: grows_def share_good_cong [of st'' st'])

lemma grows_dispatch: "grows env st (dispatch_document_shared path u scope refs st') = grows env st st'"
  by (rule grows_cong) simp_all

lemma cascade_entity_grows:
  assumes "share_good env (snd acc)" and "is_source (snd acc) REntities (sr_pk e) actor" and "\<And>p. fl_delete fl p"
  shows "grows env (snd acc) (snd (cascade_entity env fl now scope actor e acc))"
  using project_grows(4) [OF assms(1,3,2), where now = now and scope = scope and origin = "''document''"]
  by (cases acc; cases "project_entity env fl now e scope actor ''document'' (snd acc)") (auto simp: cascade_entity_def split: option.split)

lemma fold_cascade_grows:
  assumes "share_good env (snd acc)" and "\<And>e. e \<in> set es \<Longrightarrow> is_source (snd acc) REntities (sr_pk e) actor" and "\<And>p. fl_delete fl p"
  shows "grows env (snd acc) (snd (fold (cascade_entity env fl now scope actor) es acc))"
  using assms
proof (induction es arbitrary: acc)
  case Nil
  then show ?case by (simp add: grows_refl)
next
  case (Cons e es)
  let ?acc = "cascade_entity env fl now scope actor e acc"
  have g: "grows env (snd acc) (snd ?acc)" by (rule cascade_entity_grows) (use Cons.prems in simp_all)
  have "grows env (snd ?acc) (snd (fold (cascade_entity env fl now scope actor) es ?acc))"
    using Cons.prems by (intro Cons.IH growsD(1) [OF g] grows_source [OF g]) simp_all
  with g show ?case using grows_trans by simp
qed

lemma own_row_source: "e \<in> set (ss_rows st res) \<Longrightarrow> sr_user e = u \<Longrightarrow> sr_scope e = ''personal'' \<Longrightarrow> is_source st res (sr_pk e) u"
  unfolding is_source_def by (rule exI [of _ "sr_from e"]) (auto simp: row_key_def intro: rev_image_eqI)

lemma cascade_grows:
  assumes "share_good env st" and "\<And>p. fl_delete fl p"
  shows "grows env st (snd (cascade_share_document_entities env fl now src actor scope st))"
proof -
  let ?path = "or_else (col (sr_data src) ''file_path'') (JStr [])"
  have g: "grows env st (snd (fold (cascade_entity env fl now scope actor) (extracted_personal_entities st ?path actor) ((0, 0, []), st)))"
    using fold_cascade_grows [of env "((0, 0, []), st)" "extracted_personal_entities st ?path actor" actor fl] assms own_row_source
    by (fastforce simp: extracted_personal_entities_def)
  show ?thesis
  proof (cases "fold (cascade_entity env fl now scope actor) (extracted_personal_entities st ?path actor) ((0, 0, []), st)")
    case (Pair a st1)
    obtain d f ents where a: "a = (d, f, ents)" by (cases a)
    have "grows env st st1" using g by (simp only: Pair snd_conv)
    with Pair grows_refl [OF assms(1)] show ?thesis
      unfolding cascade_share_document_entities_def Let_def a by (simp split del: if_split) (simp add: grows_dispatch)
  qed
qed

text \<open>What a retraction leaves: fewer shared entities, the personal rows as they are.\<close>

definition shrinks :: "share_env \<Rightarrow> share_state \<Rightarrow> share_state \<Rightarrow> bool" where
  "shrinks env st st' \<longleftrightarrow> share_good env st' \<and> ss_relations st' = ss_relations st \<and> (\<forall>res. res \<noteq> REntities \<longrightarrow> ss_rows st' res = ss_rows st res) \<and>
     (\<forall>res. row_keys st' res \<subseteq> row_keys st res) \<and>
     (\<forall>res k u f. (k, u, ''personal'', f) \<in> row_keys st res \<longrightarrow> (k, u, ''personal'', f) \<in> row_keys st' res)"

lemma shrinksI:
  assumes "share_good env st'" and "ss_relations st' = ss_relations st" and "\<And>res. res \<noteq> REntities \<Longrightarrow> ss_rows st' res = ss_rows st res"
    and "\<And>res. row_keys st' res \<subseteq> row_keys st res"
    and "\<And>res k u f. (k, u, ''personal'', f) \<in> row_keys st res \<Longrightarrow> (k, u, ''personal'', f) \<in> row_keys st' res"
  shows "shrinks env st st'"
  unfolding shrinks_def by (intro conjI allI impI assms)

lemma shrinksD:
  assumes "shrinks env st st'"
  shows "share_good env st'" and "ss_relations st' = ss_relations st" and "res \<noteq> REntities \<Longrightarrow> ss_rows st' res = ss_rows st res"
    and "row_keys st' res \<subseteq> row_keys st res"
    and "(k, u, ''personal'', f) \<in> row_keys st res \<Longrightarrow> (k, u, ''personal'', f) \<in> row_keys st' res"
proof -
  from assms show "share_good env st'" unfolding shrinks_def by (elim conjE)
  from assms show "ss_relations st' = ss_relations st" unfolding shrinks_def by (elim conjE)
  note d = assms [unfolded shrinks_def, THEN conjunct2, THEN conjunct2]
  note a = d [THEN conjunct1] and b = d [THEN conjunct2, THEN conjunct1] and c = d [THEN conjunct2, THEN conjunct2]
  show "row_keys st' res \<subseteq> row_keys st res" by (rule b [rule_format])
  show "ss_rows st' res = ss_rows st res" if "res \<noteq> REntities" by (rule a [rule_format, OF that])
  show "(k, u, ''personal'', f) \<in> row_keys st' res" if "(k, u, ''personal'', f) \<in> row_keys st res" by (rule c [rule_format, OF that])
qed

lemma shrinks_refl: "share_good env st \<Longrightarrow> shrinks env st st"
  by (simp add: shrinks_def)

lemma shrinks_trans:
  assumes "shrinks env st st'" and "shrinks env st' st''" shows "shrinks env st st''"
proof (rule shrinksI)
  note a = shrinksD [OF assms(1)] and b = shrinksD [OF assms(2)]
  show "share_good env st''" by (rule b(1))
  show "ss_relations st'' = ss_relations st" by (simp add: a(2) b(2))
  show "ss_rows st'' res = ss_rows st res" if "res \<noteq> REntities" for res using a(3) [OF that] b(3) [OF that] by simp
  show "row_keys st'' res \<subseteq> row_keys st res" for res by (rule order_trans [OF b(4) a(4)])
  show "(k, u, ''personal'', f) \<in> row_keys st'' res" if "(k, u, ''personal'', f) \<in> row_keys st res" for res k u f by (rule b(5) [OF a(5) [OF that]])
qed

lemma unproject_entity_shrinks:
  assumes "share_good env st" and "sh_pg_uuid env raw \<in> {None, Some raw}" and "\<And>p. fl_delete fl p"
  shows "shrinks env st (snd (unproject_entity env fl raw ''shared'' st))"
proof (cases "sh_pg_uuid env raw = None \<or> \<not> fl_remove fl (JStr raw)")
  case True
  with assms(2) shrinks_refl [OF assms(1)] show ?thesis by (auto simp: unproject_entity_def unproject_uuid_pk_def)
next
  case False
  let ?st = "snd (unproject_entity env fl raw ''shared'' st)"
  have rows: "ss_rows ?st = (ss_rows st)(REntities := filter (\<lambda>r. \<not> projected_at (JStr raw) ''shared'' r) (ss_rows st REntities))"
    and rel: "ss_relations ?st = ss_relations st"
    using False assms(2) by (auto simp: unproject_entity_def unproject_uuid_pk_def Let_def qdrant_delete_safe_def drop_points_def set_rows_def)
  have own: "rows_owned env st" using assms(1) by (simp add: share_good_def)
  show ?thesis
  proof (rule shrinksI)
    show "share_good env ?st" unfolding unproject_entity_def using unproject_uuid_good [OF assms(1) _ _ assms(2,3)] by simp
    show "ss_relations ?st = ss_relations st" by (rule rel)
    show "ss_rows ?st res = ss_rows st res" if "res \<noteq> REntities" for res using that by (simp add: rows)
    show "row_keys ?st res \<subseteq> row_keys st res" for res by (auto simp: rows)
    show "(k, u, ''personal'', f) \<in> row_keys ?st res" if "(k, u, ''personal'', f) \<in> row_keys st res" for res k u f
      by (rule removed_owned(2) [OF own _ rows that]) simp_all
  qed
qed

lemma fold_retract_shrinks:
  assumes "share_good env (snd acc)" and "\<And>e. e \<in> set es \<Longrightarrow> canonical_pk env REntities e" and "\<And>p. fl_delete fl p"
  shows "shrinks env (snd acc) (snd (fold (retract_one env fl) es acc))"
  using assms
proof (induction es arbitrary: acc)
  case Nil
  then show ?case by (simp add: shrinks_refl)
next
  case (Cons e es)
  have "sh_pg_uuid env (pk_text e) = Some (pk_text e)" using Cons.prems(2) [of e] canonical_text [of env REntities e] by auto
  then have "shrinks env (snd acc) (snd (unproject_entity env fl (pk_text e) ''shared'' (snd acc)))"
    using Cons.prems(1,3) by (intro unproject_entity_shrinks) auto
  then have s: "shrinks env (snd acc) (snd (retract_one env fl e acc))"
    by (cases acc; cases "unproject_entity env fl (pk_text e) ''shared'' (snd acc)") (auto simp: retract_one_def split: option.split)
  have "shrinks env (snd (retract_one env fl e acc)) (snd (fold (retract_one env fl) es (retract_one env fl e acc)))"
    using Cons.prems by (intro Cons.IH shrinksD(1) [OF s]) simp_all
  with s show ?case using shrinks_trans by simp
qed

lemma downgrade_keys: "map row_key (ss_rows (downgrade_origin now ids st) res) = map row_key (ss_rows st res)"
  by (simp add: downgrade_origin_def map_key_update_where row_key_def)

lemma downgrade_shrinks:
  assumes "share_good env st" shows "shrinks env st (downgrade_origin now ids st)"
proof -
  have keys: "row_keys (downgrade_origin now ids st) res = row_keys st res" for res
    using arg_cong [OF downgrade_keys, of set] by simp
  have pks: "map sr_pk (ss_rows (downgrade_origin now ids st) res) = map sr_pk (ss_rows st res)" for res
    using arg_cong [OF downgrade_keys [of now ids st res], of "map fst"] by (simp add: row_key_def o_def)
  have pts: "ss_points (downgrade_origin now ids st) = ss_points st" by (simp add: downgrade_origin_def)
  have "share_good env (downgrade_origin now ids st)"
    using assms by (simp add: share_good_def rows_owned_def points_accounted_def keys pks pts)
  moreover have "ss_relations (downgrade_origin now ids st) = ss_relations st" by (simp add: downgrade_origin_def set_rows_def)
  ultimately show ?thesis by (intro shrinksI) (simp_all add: keys, simp add: downgrade_origin_def)
qed

lemma plan_rows_pk: "x \<in> set (plan_rows st owner path p) \<Longrightarrow> is_source st REntities (fst x) owner"
  by (auto simp: plan_rows_def intro: own_row_source)

lemma split_plan:
  "e \<in> set (fst (split_retract_and_downgrade rows)) \<longleftrightarrow> (e, JStr ''document'', False) \<in> set rows"
  "e \<in> set (snd (split_retract_and_downgrade rows)) \<longleftrightarrow> (e, JStr ''multiple'', False) \<in> set rows"
  by (force simp: split_retract_and_downgrade_def Let_def)+

lemma apply_plan_shrinks:
  assumes "share_good env st" and "\<And>p. fl_delete fl p" and "\<And>e. e \<in> set (fst plan) \<Longrightarrow> canonical_pk env REntities e"
  shows "shrinks env st (snd (apply_entity_retraction_plan env fl now plan st))"
proof -
  obtain retract down where p: "plan = (retract, down)" by (cases plan)
  obtain n st1 where f: "fold (retract_one env fl) retract (0, st) = (n, st1)" by (cases "fold (retract_one env fl) retract (0, st)")
  have s: "shrinks env st st1"
    using fold_retract_shrinks [of env "(0, st)" retract fl] assms f by (simp add: p)
  have "snd (apply_entity_retraction_plan env fl now plan st) = (if down \<noteq> [] \<and> fl_downgrade fl then downgrade_origin now down st1 else st1)"
    by (simp add: apply_entity_retraction_plan_def p f)
  with s shrinks_trans [OF s downgrade_shrinks [OF shrinksD(1) [OF s]]] show ?thesis by simp
qed

lemma retract_shrinks:
  assumes "share_good env st" and "\<And>p. fl_delete fl p"
  shows "shrinks env st (snd (retract_document_entities env fl now path owner st))"
    and "shrinks env st (snd (retract_removed_entities_on_reingest env fl now path owner removed st))"
proof -
  have own: "rows_owned env st" using assms(1) by (simp add: share_good_def)
  have c: "canonical_pk env REntities e" if "(e, x) \<in> set (plan_rows st owner path q)" for e x q
    using source_canonical [OF own plan_rows_pk [OF that]] by simp
  have "canonical_pk env REntities e" if "e \<in> set (fst (plan_document_entity_retraction st path owner))" for e
    using that c unfolding plan_document_entity_retraction_def split_plan by blast
  then show "shrinks env st (snd (retract_document_entities env fl now path owner st))"
    using shrinks_refl [OF assms(1)] apply_plan_shrinks [OF assms] by (simp add: retract_document_entities_def)
  have "canonical_pk env REntities e" if "e \<in> set (fst (plan_reingest_removed_entity_retraction st path owner removed))" for e
    using that c by (simp add: plan_reingest_removed_entity_retraction_def split_plan split: if_splits)
  then show "shrinks env st (snd (retract_removed_entities_on_reingest env fl now path owner removed st))"
    using shrinks_refl [OF assms(1)] apply_plan_shrinks [OF assms] by (simp add: retract_removed_entities_on_reingest_def)
qed

lemma files_only: "collection_of res = ''documents'' \<longleftrightarrow> res = RFiles"
  by (cases res) simp_all

lemma unproject_file_good:
  assumes good: "share_good env st" and "reliable fl" and "scope \<noteq> ''personal''"
  shows "share_good env (snd (unproject_file env fl now src scope st))"
proof (cases "\<not> fl_remove fl src \<or> find (projected_at src scope) (ss_rows st RFiles) = None")
  case True
  with good show ?thesis by (auto simp: unproject_file_def)
next
  case False
  then obtain row where row: "find (projected_at src scope) (ss_rows st RFiles) = Some row" by auto
  have own: "rows_owned env st" using good by (simp add: share_good_def)
  have inrow: "row \<in> set (ss_rows st RFiles)" "projected_at src scope row" using row by (auto simp: find_Some_iff)
  then have rk: "(sr_pk row, sr_user row, scope, Some src) \<in> row_keys st RFiles"
    by (auto simp: row_key_def projected_at_def intro: rev_image_eqI)
  have owner: "sr_user row \<noteq> []" by (rule rows_ownedD(2) [OF own rk])
  define st1 where "st1 = set_rows RFiles (filter (\<lambda>r. \<not> projected_at src scope r) (ss_rows st RFiles)) st"
  define st2 where "st2 = drop_points ''documents'' (chunk_matches src (sr_user row) scope) st1"
  have good2: "share_good env st2"
  proof (rule withdrawn_good [OF good assms(3)])
    show "ss_rows st2 = (ss_rows st)(RFiles := filter (\<lambda>r. \<not> projected_at src scope r) (ss_rows st RFiles))" by (simp add: st2_def st1_def)
    show "set (ss_points st2 c) \<subseteq> set (ss_points st c)" for c by (simp add: st2_def st1_def set_drop_points)
    show "\<not> accounts env RFiles (pk, u, scope, Some src) p" if p: "p \<in> set (ss_points st2 (collection_of RFiles))" and k: "(pk, u, scope, Some src) \<in> row_keys st RFiles" for p u pk
      using p one_publisher [OF own k rk] by (auto simp: st2_def set_drop_points accounts_def chunk_matches_def)
  qed
  have "unproject_file_chunks fl src (sr_user row) scope st1 = Some st2"
    using owner assms(2) by (simp add: unproject_file_chunks_def st2_def reliable_def)
  then have "snd (unproject_file env fl now src scope st) = st2 \<or> (\<exists>path. snd (unproject_file env fl now src scope st) = snd (retract_document_entities env fl now path (sr_user row) st2))"
    using False row by (auto simp: unproject_file_def Let_def st1_def)
  then show ?thesis using good2 shrinksD(1) [OF retract_shrinks(1) [OF good2]] assms(2) by (auto simp: reliable_def)
qed

end
