(* ===== verification/Sharing.thy ===== *)
theory Sharing
  imports Projection
begin

section \<open>Sharing: the routes, the jobs and the retraction by an administrator\<close>

text \<open>
  Models \<open>routes/scope.py\<close>, the share jobs (\<open>services/documents.py\<close>,
  \<open>batch_handlers/share_document.py\<close>, \<open>reproject_shared_on_reingest\<close>), \<open>services/admin_unshare.py\<close>
  and \<open>services/shared_items.py\<close>, and one machine whose events are these requests and the writes
  of personal rows, points and relations by the rest of the program.
\<close>

datatype share_error = ShHttp nat string | ShUncaught

subsection \<open>Publishing\<close>

definition resource_of :: "string \<Rightarrow> resource option" where
  "resource_of s = map_of [(''notes'', RNotes), (''audio_memos'', RAudioMemos), (''sessions'', RSessions), (''files'', RFiles),
     (''entities'', REntities), (''signals'', RSignals)] s"

text \<open>The caller's own personal row; \<open>None\<close> is the exception of a key that is no UUID.\<close>

definition typed_pk :: "share_env \<Rightarrow> resource \<Rightarrow> string \<Rightarrow> json option option" where
  "typed_pk env res pk = (if res = RFiles then Some (map_option JInt (py_int pk)) else map_option (\<lambda>x. Some (JStr x)) (sh_pg_uuid env pk))"

definition personal_row :: "share_state \<Rightarrow> resource \<Rightarrow> json \<Rightarrow> user_id \<Rightarrow> shared_row option" where
  "personal_row st res k u = find (\<lambda>r. sr_pk r = k \<and> sr_user r = u \<and> sr_scope r = ''personal'') (ss_rows st res)"

definition fetch_own :: "share_env \<Rightarrow> resource \<Rightarrow> string \<Rightarrow> user_id \<Rightarrow> share_state \<Rightarrow> shared_row option option" where
  "fetch_own env res pk u st = map_option (\<lambda>k. case k of None \<Rightarrow> None | Some k \<Rightarrow> personal_row st res k u) (typed_pk env res pk)"

definition entity_publish_guard :: "resource \<Rightarrow> shared_row \<Rightarrow> bool" where
  "entity_publish_guard res src = (res = REntities \<and> json_truthy (col (sr_data src) ''is_staged''))"

definition invalid_scope :: "json option \<Rightarrow> bool" where
  "invalid_scope scope = (scope \<noteq> None \<and> scope \<noteq> Some (JStr ''shared''))"

definition project_resource ::
  "share_env \<Rightarrow> faults \<Rightarrow> instant \<Rightarrow> resource \<Rightarrow> shared_row \<Rightarrow> string \<Rightarrow> user_id \<Rightarrow> string option \<Rightarrow> share_state \<Rightarrow> shared_row option \<times> share_state" where
  "project_resource env fl now res src scope actor override st =
     (case res of
        RNotes \<Rightarrow> project_note env fl now src scope actor st
      | RAudioMemos \<Rightarrow> project_audio_memo env fl now src scope actor st
      | RSessions \<Rightarrow> project_session env fl now src scope actor override st
      | RFiles \<Rightarrow> project_file env fl now src scope actor st
      | REntities \<Rightarrow> project_entity env fl now src scope actor ''user'' st
      | RSignals \<Rightarrow> project_signal env fl now src scope actor st)"

definition publish_checked ::
  "share_env \<Rightarrow> faults \<Rightarrow> instant \<Rightarrow> resource \<Rightarrow> string \<Rightarrow> json option \<Rightarrow> user_id \<Rightarrow> (shared_row \<Rightarrow> share_error option) \<Rightarrow> string option \<Rightarrow> share_state
    \<Rightarrow> (share_error + shared_row) \<times> share_state" where
  "publish_checked env fl now res pk scope u extra override st =
     (if invalid_scope scope then (Inl (ShHttp 400 ''invalid_scope''), st)
      else case fetch_own env res pk u st of
        None \<Rightarrow> (Inl ShUncaught, st)
      | Some None \<Rightarrow> (Inl (ShHttp 404 ''not_found''), st)
      | Some (Some src) \<Rightarrow>
          if entity_publish_guard res src then (Inl (ShHttp 409 ''entity_is_staged''), st)
          else (case extra src of
             Some e \<Rightarrow> (Inl e, st)
           | None \<Rightarrow> (case project_resource env fl now res src ''shared'' u override st of
               (None, st1) \<Rightarrow> (Inl (ShHttp 502 ''projection_failed''), st1)
             | (Some row, st1) \<Rightarrow> (Inr row, st1))))"

definition publish_one ::
  "share_env \<Rightarrow> faults \<Rightarrow> instant \<Rightarrow> resource \<Rightarrow> string \<Rightarrow> json option \<Rightarrow> user_id \<Rightarrow> share_state \<Rightarrow> (share_error + shared_row) \<times> share_state" where
  "publish_one env fl now res pk scope u st = publish_checked env fl now res pk scope u (\<lambda>_. None) None st"

text \<open>The summary a user edits for the household; anything but a text is refused.\<close>

definition publish_session ::
  "share_env \<Rightarrow> faults \<Rightarrow> instant \<Rightarrow> string \<Rightarrow> json option \<Rightarrow> json option \<Rightarrow> user_id \<Rightarrow> share_state \<Rightarrow> (share_error + shared_row) \<times> share_state" where
  "publish_session env fl now pk scope summary u st =
     publish_checked env fl now RSessions pk scope u
       (\<lambda>_. case summary of
          None \<Rightarrow> None | Some JNull \<Rightarrow> None
        | Some (JStr s) \<Rightarrow> if length s > 8000 then Some (ShHttp 400 ''shared_summary_too_long'') else None
        | Some _ \<Rightarrow> Some (ShHttp 400 ''invalid_shared_summary''))
       (case summary of Some (JStr s) \<Rightarrow> Some s | _ \<Rightarrow> None) st"

definition unproject_resource ::
  "share_env \<Rightarrow> faults \<Rightarrow> instant \<Rightarrow> resource \<Rightarrow> string \<Rightarrow> share_state \<Rightarrow> nat option \<times> share_state" where
  "unproject_resource env fl now res pk st =
     (case res of
        RNotes \<Rightarrow> unproject_note env fl pk ''shared'' st
      | RAudioMemos \<Rightarrow> unproject_audio_memo env fl pk ''shared'' st
      | RSessions \<Rightarrow> unproject_session env fl pk ''shared'' st
      | RFiles \<Rightarrow> (case py_int pk of None \<Rightarrow> (None, st) | Some i \<Rightarrow> unproject_file env fl now (JInt i) ''shared'' st)
      | REntities \<Rightarrow> unproject_entity env fl pk ''shared'' st
      | RSignals \<Rightarrow> unproject_signal env fl pk ''shared'' st)"

definition unpublish_one ::
  "share_env \<Rightarrow> faults \<Rightarrow> instant \<Rightarrow> resource \<Rightarrow> string \<Rightarrow> user_id \<Rightarrow> share_state \<Rightarrow> (share_error + unit) \<times> share_state" where
  "unpublish_one env fl now res pk u st =
     (case fetch_own env res pk u st of
        None \<Rightarrow> (Inl ShUncaught, st)
      | Some None \<Rightarrow> (Inl (ShHttp 404 ''not_found''), st)
      | Some (Some _) \<Rightarrow> (case unproject_resource env fl now res pk st of
          (None, st1) \<Rightarrow> (Inl (ShHttp 502 ''unprojection_failed''), st1)
        | (Some _, st1) \<Rightarrow> (Inr (), st1)))"

subsection \<open>Jobs\<close>

definition inflight_share_job :: "user_id \<Rightarrow> int \<Rightarrow> share_state \<Rightarrow> share_job option" where
  "inflight_share_job u doc st = least_by (\<lambda>j. - sj_id j) (filter (\<lambda>j. sj_user j = u \<and> sj_doc j = doc \<and> sj_open j) (ss_jobs st))"

definition enqueue_share_job :: "int \<Rightarrow> user_id \<Rightarrow> int \<Rightarrow> string \<Rightarrow> share_state \<Rightarrow> int \<times> share_state" where
  "enqueue_share_job jid u doc kind st =
     (case inflight_share_job u doc st of
        Some j \<Rightarrow> if sj_kind j = kind then (sj_id j, st)
          else (jid, st\<lparr>ss_jobs := ss_jobs st @ [\<lparr>sj_id = jid, sj_user = u, sj_kind = kind, sj_doc = doc, sj_open = True\<rparr>]\<rparr>)
      | None \<Rightarrow> (jid, st\<lparr>ss_jobs := ss_jobs st @ [\<lparr>sj_id = jid, sj_user = u, sj_kind = kind, sj_doc = doc, sj_open = True\<rparr>]\<rparr>))"

definition share_document :: "int \<Rightarrow> user_id \<Rightarrow> int \<Rightarrow> share_state \<Rightarrow> (share_error + int) \<times> share_state" where
  "share_document jid u doc st =
     (case personal_row st RFiles (JInt doc) u of
        None \<Rightarrow> (Inl (ShHttp 404 ''document_not_found''), st)
      | Some _ \<Rightarrow> (case enqueue_share_job jid u doc ''share_document'' st of (j, st1) \<Rightarrow> (Inr j, st1)))"

definition document_is_shared :: "user_id \<Rightarrow> int \<Rightarrow> share_state \<Rightarrow> bool" where
  "document_is_shared u doc st =
     (inflight_share_job u doc st \<noteq> None \<or> list_ex (\<lambda>r. projected_at (JInt doc) ''shared'' r \<and> sr_user r = u) (ss_rows st RFiles))"

definition unshare_document :: "int \<Rightarrow> user_id \<Rightarrow> int \<Rightarrow> share_state \<Rightarrow> (share_error + int) \<times> share_state" where
  "unshare_document jid u doc st =
     (case personal_row st RFiles (JInt doc) u of
        None \<Rightarrow> (Inl (ShHttp 404 ''document_not_found''), st)
      | Some _ \<Rightarrow> if \<not> document_is_shared u doc st then (Inl (ShHttp 409 ''document_not_shared''), st)
          else (case enqueue_share_job jid u doc ''unshare_document'' st of (j, st1) \<Rightarrow> (Inr j, st1)))"

text \<open>Few chunks are mirrored in the request, many by a job.\<close>

definition publish_file ::
  "share_env \<Rightarrow> faults \<Rightarrow> instant \<Rightarrow> int \<Rightarrow> string \<Rightarrow> json option \<Rightarrow> user_id \<Rightarrow> share_state \<Rightarrow> (share_error + shared_row + int) \<times> share_state" where
  "publish_file env fl now jid pk scope u st =
     (if invalid_scope scope then (Inl (ShHttp 400 ''invalid_scope''), st)
      else case fetch_own env RFiles pk u st of
        None \<Rightarrow> (Inl ShUncaught, st)
      | Some None \<Rightarrow> (Inl (ShHttp 404 ''not_found''), st)
      | Some (Some src) \<Rightarrow>
          if (case col (sr_data src) ''chunk_count'' of JInt n \<Rightarrow> n > sh_inline_max env | _ \<Rightarrow> 0 > sh_inline_max env)
          then (case (case sr_pk src of JInt i \<Rightarrow> share_document jid u i st | _ \<Rightarrow> (Inl ShUncaught, st)) of
                  (Inl e, st1) \<Rightarrow> (Inl e, st1) | (Inr j, st1) \<Rightarrow> (Inr (Inr j), st1))
          else (case publish_one env fl now RFiles pk scope u st of (Inl e, st1) \<Rightarrow> (Inl e, st1) | (Inr row, st1) \<Rightarrow> (Inr (Inl row), st1)))"

text \<open>
  The handlers of the two jobs: \<open>mid\<close> is what others do before the lock is taken; the result is
  the stage reported, \<open>None\<close> an exception, after which the queue tries again.
\<close>

definition handle_share ::
  "share_env \<Rightarrow> faults \<Rightarrow> instant \<Rightarrow> (share_state \<Rightarrow> share_state) \<Rightarrow> user_id \<Rightarrow> int \<Rightarrow> share_state \<Rightarrow> (string \<times> nat \<times> nat) option \<times> share_state" where
  "handle_share env fl now mid u doc st =
     (case personal_row st RFiles (JInt doc) u of
        None \<Rightarrow> (Some (''done'', 0, 0), st)
      | Some _ \<Rightarrow>
          let st0 = mid st in
          (case personal_row st0 RFiles (JInt doc) u of
             None \<Rightarrow> (Some (''done'', 0, 0), st0)
           | Some src \<Rightarrow>
               (case project_file_with_status env fl now src ''shared'' u st0 of
                  (None, st1) \<Rightarrow> (None, st1)
                | (Some (row, p, f), st1) \<Rightarrow>
                    (case cascade_share_document_entities env fl now src u ''shared'' st1 of
                       (None, st2) \<Rightarrow> (None, st2)
                     | (Some (ep, ef), st2) \<Rightarrow> (Some (if f + ef > 0 then ''partial'' else ''done'', p + ep, p + ep + (f + ef)), st2)))))"

definition handle_unshare ::
  "share_env \<Rightarrow> faults \<Rightarrow> instant \<Rightarrow> (share_state \<Rightarrow> share_state) \<Rightarrow> user_id \<Rightarrow> int \<Rightarrow> share_state \<Rightarrow> string option \<times> share_state" where
  "handle_unshare env fl now mid u doc st =
     (case personal_row st RFiles (JInt doc) u of
        None \<Rightarrow> (Some ''done'', st)
      | Some _ \<Rightarrow>
          let st0 = mid st in
          (case personal_row st0 RFiles (JInt doc) u of
             None \<Rightarrow> (Some ''done'', st0)
           | Some _ \<Rightarrow> (case unproject_file env fl now (JInt doc) ''shared'' st0 of
               (None, st1) \<Rightarrow> (None, st1) | (Some _, st1) \<Rightarrow> (Some ''done'', st1))))"

text \<open>After a re-ingest, whose errors are logged; \<open>None\<close> in the middle ends the rest.\<close>

definition reproject_shared_on_reingest ::
  "share_env \<Rightarrow> faults \<Rightarrow> instant \<Rightarrow> user_id \<Rightarrow> string \<Rightarrow> json list \<Rightarrow> share_state \<Rightarrow> share_state" where
  "reproject_shared_on_reingest env fl now u path removed st =
     (if u = [] \<or> path = [] then st
      else case find (\<lambda>r. sr_user r = u \<and> col (sr_data r) ''file_path'' = JStr path \<and> sr_scope r = ''personal'') (ss_rows st RFiles) of
        None \<Rightarrow> st
      | Some src \<Rightarrow>
          if \<not> list_ex (\<lambda>r. projected_at (sr_pk src) ''shared'' r \<and> sr_user r = u) (ss_rows st RFiles) then st
          else
            let st1 = snd (retract_removed_entities_on_reingest env fl now (JStr path) u removed st) in
            (case unproject_file_chunks fl (sr_pk src) u ''shared'' st1 of
               None \<Rightarrow> st1
             | Some st2 \<Rightarrow> (case project_file_chunks env fl src ''shared'' st2 of
                 (_, st3) \<Rightarrow> snd (cascade_share_document_entities env fl now src u ''shared'' st3))))"

subsection \<open>Retraction by an administrator\<close>

datatype unshare_error = UnknownResource | SharedItemNotFound | TeardownIncomplete | AuditWriteFailed | UnshareUncaught

definition shared_remaining :: "share_state \<Rightarrow> resource \<Rightarrow> json \<Rightarrow> nat" where
  "shared_remaining st res v =
     length (filter (\<lambda>p. col (snd p) ''published_from'' = v \<and> col (snd p) ''scope'' = JStr ''shared'') (ss_points st (collection_of res)))"

definition retract_recorded ::
  "share_env \<Rightarrow> faults \<Rightarrow> instant \<Rightarrow> user_id \<Rightarrow> string \<Rightarrow> resource \<Rightarrow> string \<Rightarrow> json \<Rightarrow> user_id option \<Rightarrow> share_state
    \<Rightarrow> (unshare_error + user_id option) \<times> share_state" where
  "retract_recorded env fl now admin name res pk v owner st =
     (if \<not> fl_audit fl then (Inl AuditWriteFailed, st)
      else
        let st1 = st\<lparr>ss_audits := ss_audits st @ [(admin, ''admin_unshare '' @ name @ ''/'' @ pk,
              [(''resource_type'', JStr name), (''resource_id'', JStr pk), (''source_owner_id'', opt_str owner)])]\<rparr>
        in case unproject_resource env fl now res pk st1 of
             (None, st2) \<Rightarrow> (Inl TeardownIncomplete, st2)
           | (Some _, st2) \<Rightarrow> if \<not> fl_count fl 1 \<or> shared_remaining st2 res v > 0 then (Inl TeardownIncomplete, st2) else (Inr owner, st2))"

definition admin_unshare ::
  "share_env \<Rightarrow> faults \<Rightarrow> instant \<Rightarrow> user_id \<Rightarrow> string \<Rightarrow> string \<Rightarrow> share_state \<Rightarrow> (unshare_error + user_id option) \<times> share_state" where
  "admin_unshare env fl now admin name pk st =
     (case resource_of name of
        None \<Rightarrow> (Inl UnknownResource, st)
      | Some res \<Rightarrow>
          (case typed_pk env res pk of
             None \<Rightarrow> (Inl UnshareUncaught, st)
           | Some None \<Rightarrow> (Inl SharedItemNotFound, st)
           | Some (Some k) \<Rightarrow>
               let v = (if res = RFiles then k else JStr pk) in
               (case find (projected_at k ''shared'') (ss_rows st res) of
                  Some r \<Rightarrow> retract_recorded env fl now admin name res pk v (Some (sr_user r)) st
                | None \<Rightarrow>
                    if \<not> fl_count fl 0 then (Inl TeardownIncomplete, st)
                    else if shared_remaining st res v = 0 then (Inl SharedItemNotFound, st)
                    else retract_recorded env fl now admin name res pk v None st)))"

definition unshare_status :: "unshare_error \<Rightarrow> share_error" where
  "unshare_status e = (case e of
     UnknownResource \<Rightarrow> ShHttp 400 ''unknown_resource_type'' | SharedItemNotFound \<Rightarrow> ShHttp 404 ''not_found''
   | TeardownIncomplete \<Rightarrow> ShHttp 500 ''unshare_incomplete'' | AuditWriteFailed \<Rightarrow> ShHttp 500 ''audit_write_failed'' | UnshareUncaught \<Rightarrow> ShUncaught)"

subsection \<open>Lists\<close>

text \<open>The ellipsis of a cut label is written as a full stop.\<close>

definition short_label :: "json \<Rightarrow> string option" where
  "short_label v = (case v of JStr s \<Rightarrow>
     (let t = py_strip s in if t = [] then None else if length t \<le> 120 then Some t else Some (take 119 t @ ''.'')) | _ \<Rightarrow> None)"

primrec label_col :: "resource \<Rightarrow> string" where
  "label_col RNotes = ''text''"
| "label_col RAudioMemos = ''transcript''"
| "label_col RSessions = ''summary''"
| "label_col RFiles = ''file_path''"
| "label_col REntities = ''name''"
| "label_col RSignals = ''title''"

definition shared_ts_col :: "resource \<Rightarrow> string" where
  "shared_ts_col res = (if res = RFiles then ''updated_at'' else ''created_at'')"

definition shareable :: "(string \<times> resource) list" where
  "shareable = [(''notes'', RNotes), (''audio_memos'', RAudioMemos), (''sessions'', RSessions), (''files'', RFiles), (''entities'', REntities),
     (''signals'', RSignals)]"

record shared_item =
  si_type :: string
  si_id :: string
  si_label :: "string option"
  si_at :: "int option"
  si_owner :: user_id

definition shared_item_of :: "string \<times> resource \<Rightarrow> shared_row \<Rightarrow> shared_item" where
  "shared_item_of nr r =
     \<lparr>si_type = fst nr, si_id = (case sr_from r of None \<Rightarrow> [] | Some k \<Rightarrow> pk_text k), si_label = short_label (col (sr_data r) (label_col (snd nr))),
       si_at = (case col (sr_data r) (shared_ts_col (snd nr)) of JInt t \<Rightarrow> Some t | _ \<Rightarrow> None), si_owner = sr_user r\<rparr>"

definition recency :: "int option \<Rightarrow> int" where
  "recency t = (case t of None \<Rightarrow> 0 | Some x \<Rightarrow> - x)"

text \<open>Descending order puts the rows without an instant first.\<close>

definition list_my_shared_items :: "(resource \<Rightarrow> bool) \<Rightarrow> user_id \<Rightarrow> nat \<Rightarrow> share_state \<Rightarrow> shared_item list option" where
  "list_my_shared_items arm_ok u limit st =
     (let newest_first = (\<lambda>is. sort_key (\<lambda>i. recency (si_at i)) (filter (\<lambda>i. si_at i \<noteq> None) is));
          arm = (\<lambda>nr. if arm_ok (snd nr)
            then (let items = map (shared_item_of nr) (filter (\<lambda>r. sr_scope r = ''shared'' \<and> sr_user r = u \<and> sr_from r \<noteq> None) (ss_rows st (snd nr)))
                  in take limit (filter (\<lambda>i. si_at i = None) items @ newest_first items))
            else []);
          items = concat (map arm shareable)
      in if \<not> list_ex (\<lambda>nr. arm_ok (snd nr)) shareable then None
         else Some (newest_first items @ filter (\<lambda>i. si_at i = None) items))"

definition admin_list_shared_items :: "(resource \<Rightarrow> bool) \<Rightarrow> nat \<Rightarrow> share_state \<Rightarrow> shared_item list" where
  "admin_list_shared_items arm_ok limit st =
     (let arm = (\<lambda>nr. if arm_ok (snd nr)
            then (let rows = map (shared_item_of nr) (filter (\<lambda>r. sr_scope r = ''shared'' \<and> sr_from r \<noteq> None) (ss_rows st (snd nr)))
                  in take limit (if snd nr = RFiles then sort_key (\<lambda>i. case py_int (si_id i) of Some n \<Rightarrow> n | None \<Rightarrow> 0) rows else sort_key si_id rows))
            else [])
      in concat (map arm shareable))"


subsection \<open>Every request keeps the books\<close>

lemma found_row_source: "personal_row st res k u = Some src \<Longrightarrow> is_source st res (sr_pk src) u \<and> sr_pk src = k \<and> sr_user src = u"
  unfolding personal_row_def by (drule find_Some_iff [THEN iffD1]) (auto intro: own_row_source)

lemma fetched_source: "fetch_own env res pk u st = Some (Some src) \<Longrightarrow> is_source st res (sr_pk src) u \<and> sr_user src = u"
  by (auto simp: fetch_own_def split: option.splits dest: found_row_source)

lemma reliableD: "reliable fl \<Longrightarrow> fl_delete fl p" "reliable fl \<Longrightarrow> fl_bulk fl"
  by (simp_all add: reliable_def)

lemma snd_map_fst: "snd (case x of (r, st1) \<Rightarrow> (f r, st1)) = snd x"
  by (cases x) simp

lemma project_resource_grows:
  assumes "share_good env st" and "reliable fl" and "is_source st res (sr_pk src) u"
  shows "grows env st (snd (project_resource env fl now res src scope u override st))"
  using project_grows [OF assms(1) reliableD(1) [OF assms(2)]] project_file_grows [OF assms(1)] assms(3)
  by (cases res) (simp_all add: project_resource_def project_file_def snd_map_fst)

lemma publish_grows:
  assumes "share_good env st" and "reliable fl"
  shows "grows env st (snd (publish_checked env fl now res pk scope u extra override st))"
proof (cases "fetch_own env res pk u st")
  case None
  then show ?thesis by (simp add: publish_checked_def grows_refl [OF assms(1)])
next
  case (Some found)
  show ?thesis
  proof (cases found)
    case None
    with Some show ?thesis by (simp add: publish_checked_def grows_refl [OF assms(1)])
  next
    case (Some src)
    with \<open>fetch_own env res pk u st = Some found\<close> have f: "fetch_own env res pk u st = Some (Some src)" by simp
    have g: "grows env st (snd (project_resource env fl now res src ''shared'' u override st))"
      using project_resource_grows [OF assms] fetched_source [OF f] by simp
    show ?thesis
      by (cases "project_resource env fl now res src ''shared'' u override st")
        (use g in \<open>simp add: publish_checked_def f grows_refl [OF assms(1)] split: option.split\<close>)
  qed
qed

lemma jobs_only:
  "ss_rows (snd (enqueue_share_job j u doc kind st)) = ss_rows st" "ss_points (snd (enqueue_share_job j u doc kind st)) = ss_points st"
  "ss_rows (snd (share_document j u doc st)) = ss_rows st" "ss_points (snd (share_document j u doc st)) = ss_points st"
  "ss_rows (snd (unshare_document j u doc st)) = ss_rows st" "ss_points (snd (unshare_document j u doc st)) = ss_points st"
proof -
  show "ss_rows (snd (enqueue_share_job j u doc kind st)) = ss_rows st" "ss_points (snd (enqueue_share_job j u doc kind st)) = ss_points st" for kind
    by (simp_all add: enqueue_share_job_def split: option.split)
  then show "ss_rows (snd (share_document j u doc st)) = ss_rows st" "ss_points (snd (share_document j u doc st)) = ss_points st"
    "ss_rows (snd (unshare_document j u doc st)) = ss_rows st" "ss_points (snd (unshare_document j u doc st)) = ss_points st"
    by (simp_all add: share_document_def unshare_document_def snd_map_fst [of Inr] split: option.split)
qed

lemma jobs_grow:
  assumes "share_good env st"
  shows "grows env st (snd (share_document j u doc st))" and "grows env st (snd (unshare_document j u doc st))"
  using assms grows_cong [OF jobs_only(3,4)] grows_cong [OF jobs_only(5,6)] by (simp_all add: grows_refl)

lemma publish_file_grows:
  assumes "share_good env st" and "reliable fl"
  shows "grows env st (snd (publish_file env fl now j pk scope u st))"
proof -
  have "grows env st (snd (publish_one env fl now RFiles pk scope u st))" unfolding publish_one_def by (rule publish_grows [OF assms])
  then have one: "publish_one env fl now RFiles pk scope u st = (x, st1) \<Longrightarrow> grows env st st1" for x st1 by simp
  have job: "share_document j u i st = (x, st1) \<Longrightarrow> grows env st st1" for i x st1 using jobs_grow(1) [OF assms(1), of j u i] by simp
  show ?thesis
    by (auto simp: publish_file_def grows_refl [OF assms(1)] split: option.split json.split sum.split prod.split dest: one job)
qed

lemma unproject_resource_good:
  assumes "share_good env st" and "reliable fl" and "res = RFiles \<or> sh_pg_uuid env pk \<in> {None, Some pk}"
  shows "share_good env (snd (unproject_resource env fl now res pk st))"
proof (cases "res = RFiles")
  case True
  then show ?thesis using assms(1) unproject_file_good [OF assms(1,2)] by (simp add: unproject_resource_def split: option.split)
next
  case False
  with assms have "share_good env (snd (unproject_uuid_pk env fl res pk ''shared'' st))"
    by (intro unproject_uuid_good) (simp_all add: reliable_def)
  with False show ?thesis
    by (cases res) (simp_all add: unproject_resource_def unproject_note_def unproject_audio_memo_def unproject_session_def unproject_entity_def unproject_signal_def)
qed

lemma unpublish_good:
  assumes "share_good env st" and "reliable fl" and "res = RFiles \<or> sh_pg_uuid env pk \<in> {None, Some pk}"
  shows "share_good env (snd (unpublish_one env fl now res pk u st))"
  using unproject_resource_good [OF assms, of now] assms(1)
  by (cases "unproject_resource env fl now res pk st") (auto simp: unpublish_one_def split: option.split)

lemma share_good_audits: "share_good env (st\<lparr>ss_audits := a\<rparr>) = share_good env st"
  by (rule share_good_cong) simp_all

lemma retract_recorded_good:
  assumes "share_good env st" and "reliable fl" and "res = RFiles \<or> sh_pg_uuid env pk \<in> {None, Some pk}"
  shows "share_good env (snd (retract_recorded env fl now admin name res pk v owner st))"
proof (cases "fl_audit fl")
  case True
  let ?st1 = "st\<lparr>ss_audits := ss_audits st @ [(admin, ''admin_unshare '' @ name @ ''/'' @ pk,
              [(''resource_type'', JStr name), (''resource_id'', JStr pk), (''source_owner_id'', opt_str owner)])]\<rparr>"
  have "share_good env (snd (unproject_resource env fl now res pk ?st1))"
    by (rule unproject_resource_good [OF _ assms(2,3)]) (simp add: share_good_audits assms(1))
  with True show ?thesis
    by (cases "unproject_resource env fl now res pk ?st1") (auto simp: retract_recorded_def split: option.split)
qed (simp add: retract_recorded_def assms(1))

lemma admin_unshare_good:
  assumes "share_good env st" and "reliable fl" and "sh_pg_uuid env pk \<in> {None, Some pk}"
  shows "share_good env (snd (admin_unshare env fl now admin name pk st))"
  using assms(1) retract_recorded_good [OF assms(1,2)] assms(3)
  by (auto simp: admin_unshare_def Let_def split: option.split)

lemma handle_share_grows:
  assumes "share_good env st" and "reliable fl"
  shows "grows env st (snd (handle_share env fl now id u doc st))"
proof (cases "personal_row st RFiles (JInt doc) u")
  case None
  then show ?thesis by (simp add: handle_share_def grows_refl [OF assms(1)])
next
  case (Some src)
  have src: "is_source st RFiles (sr_pk src) u" using found_row_source [OF Some] by (rule conjunct1)
  obtain r st1 where r: "project_file_with_status env fl now src ''shared'' u st = (r, st1)" by (cases "project_file_with_status env fl now src ''shared'' u st")
  have g: "grows env st st1" using project_file_grows [OF assms(1) src, of fl now "''shared''"] r by simp
  have "grows env st1 (snd (cascade_share_document_entities env fl now src u ''shared'' st1))"
    by (rule cascade_grows [OF growsD(1) [OF g] reliableD(1) [OF assms(2)]])
  then have "grows env st (snd (cascade_share_document_entities env fl now src u ''shared'' st1))" by (rule grows_trans [OF g])
  then show ?thesis
    by (cases "cascade_share_document_entities env fl now src u ''shared'' st1") (auto simp: handle_share_def Some Let_def r g split: option.split)
qed

lemma handle_unshare_good:
  assumes "share_good env st" and "reliable fl"
  shows "share_good env (snd (handle_unshare env fl now id u doc st))"
proof -
  have "share_good env (snd (unproject_file env fl now (JInt doc) ''shared'' st))" by (rule unproject_file_good [OF assms]) simp
  then show ?thesis using assms(1)
    by (cases "unproject_file env fl now (JInt doc) ''shared'' st") (auto simp: handle_unshare_def Let_def split: option.split)
qed

lemma reproject_good:
  assumes "share_good env st" and "reliable fl"
  shows "share_good env (reproject_shared_on_reingest env fl now u path removed st)"
proof (cases "find (\<lambda>r. sr_user r = u \<and> col (sr_data r) ''file_path'' = JStr path \<and> sr_scope r = ''personal'') (ss_rows st RFiles)")
  case None
  then show ?thesis using assms(1) by (simp add: reproject_shared_on_reingest_def)
next
  case (Some src)
  then have src: "src \<in> set (ss_rows st RFiles)" "sr_user src = u" "sr_scope src = ''personal''" by (auto simp: find_Some_iff)
  let ?st1 = "snd (retract_removed_entities_on_reingest env fl now (JStr path) u removed st)"
  have s1: "shrinks env st ?st1" by (rule retract_shrinks(2) [OF assms(1) reliableD(1) [OF assms(2)]])
  show ?thesis
  proof (cases "list_ex (\<lambda>r. projected_at (sr_pk src) ''shared'' r \<and> sr_user r = u) (ss_rows st RFiles) \<and> u \<noteq> [] \<and> path \<noteq> []")
    case False
    then show ?thesis using assms(1) Some by (auto simp: reproject_shared_on_reingest_def)
  next
    case True
    then obtain r where "r \<in> set (ss_rows st RFiles)" "projected_at (sr_pk src) ''shared'' r" "sr_user r = u" by (auto simp: list_ex_iff)
    then have "(sr_pk r, u, ''shared'', Some (sr_pk src)) \<in> row_keys st RFiles"
      by (auto simp: projected_at_def row_key_def intro: rev_image_eqI)
    then have k1: "(sr_pk r, sr_user src, ''shared'', Some (sr_pk src)) \<in> row_keys ?st1 RFiles"
      unfolding src(2) shrinksD(3) [OF s1, of RFiles, simplified] .
    have "unproject_file_chunks fl (sr_pk src) u ''shared'' ?st1 \<noteq> None"
      using assms(2) by (simp add: unproject_file_chunks_def reliable_def)
    then obtain st2 where st2: "unproject_file_chunks fl (sr_pk src) u ''shared'' ?st1 = Some st2" by blast
    have g2: "grows env ?st1 st2" by (rule unproject_chunks_grow [OF shrinksD(1) [OF s1] st2])
    obtain n st3 where st3: "project_file_chunks env fl src ''shared'' st2 = (n, st3)" by (cases "project_file_chunks env fl src ''shared'' st2")
    have g3: "grows env st2 st3"
      using file_chunks_grow [OF growsD(1) [OF g2] subsetD [OF growsD(2) [OF g2] k1], of fl] st3 by simp
    have "grows env st3 (snd (cascade_share_document_entities env fl now src u ''shared'' st3))"
      by (rule cascade_grows [OF growsD(1) [OF g3] reliableD(1) [OF assms(2)]])
    from growsD(1) [OF this] show ?thesis using True Some st2 st3 by (simp add: reproject_shared_on_reingest_def Let_def)
  qed
qed

subsection \<open>The machine\<close>

text \<open>The last four events are writes of the rest of the program.\<close>

datatype share_request =
    SPublish resource string "json option" user_id
  | SPublishSession string "json option" "json option" user_id
  | SPublishFile int string "json option" user_id
  | SUnpublish resource string user_id
  | SShareDocument int user_id int
  | SUnshareDocument int user_id int
  | SShareJob user_id int
  | SUnshareJob user_id int
  | SReingest user_id string "json list"
  | SAdminUnshare user_id string string
  | SInsert resource string user_id json_obj
  | SEdit resource json json_obj
  | SPoint string string json_obj
  | SDelete resource json user_id
  | SRelations "relation list"

definition insert_personal :: "resource \<Rightarrow> string \<Rightarrow> user_id \<Rightarrow> json_obj \<Rightarrow> share_state \<Rightarrow> share_state" where
  "insert_personal res x u d st =
     (let k = (if res = RFiles then JInt (ss_serial st) else JStr x); st1 = st\<lparr>ss_serial := ss_serial st + 1\<rparr>
      in if k \<in> sr_pk ` set (ss_rows st res) then st1
         else set_rows res (ss_rows st res @ [\<lparr>sr_pk = k, sr_user = u, sr_scope = ''personal'', sr_from = None, sr_data = d\<rparr>]) st1)"

text \<open>
  A personal row goes with the rows shared from it (the foreign keys cascade), and then the points
  that name it, as the purges of documents and conversations do it.
\<close>

definition delete_source :: "resource \<Rightarrow> json \<Rightarrow> user_id \<Rightarrow> share_state \<Rightarrow> share_state" where
  "delete_source res k u st =
     (if personal_row st res k u = None then st
      else drop_points (collection_of res) (\<lambda>p. col (snd p) ''published_from'' = k)
        (set_rows res (filter (\<lambda>r. \<not> (sr_pk r = k \<or> sr_from r = Some k \<and> sr_scope r \<noteq> ''personal'')) (ss_rows st res)) st))"

definition share_apply :: "share_env \<Rightarrow> share_state \<Rightarrow> instant \<times> faults \<times> share_request \<Rightarrow> share_state" where
  "share_apply env st ev = (case ev of (now, fl, req) \<Rightarrow> case req of
     SPublish res pk scope u \<Rightarrow> snd (publish_one env fl now res pk scope u st)
   | SPublishSession pk scope summary u \<Rightarrow> snd (publish_session env fl now pk scope summary u st)
   | SPublishFile j pk scope u \<Rightarrow> snd (publish_file env fl now j pk scope u st)
   | SUnpublish res pk u \<Rightarrow> snd (unpublish_one env fl now res pk u st)
   | SShareDocument j u doc \<Rightarrow> snd (share_document j u doc st)
   | SUnshareDocument j u doc \<Rightarrow> snd (unshare_document j u doc st)
   | SShareJob u doc \<Rightarrow> snd (handle_share env fl now id u doc st)
   | SUnshareJob u doc \<Rightarrow> snd (handle_unshare env fl now id u doc st)
   | SReingest u path removed \<Rightarrow> reproject_shared_on_reingest env fl now u path removed st
   | SAdminUnshare admin name pk \<Rightarrow> snd (admin_unshare env fl now admin name pk st)
   | SInsert res x u d \<Rightarrow> insert_personal res x u d st
   | SEdit res k d \<Rightarrow> set_rows res (update_where (\<lambda>r. sr_pk r = k \<and> sr_scope r = ''personal'') (\<lambda>r. r\<lparr>sr_data := d\<rparr>) (ss_rows st res)) st
   | SPoint c pid d \<Rightarrow> put_point c pid d st
   | SDelete res k u \<Rightarrow> delete_source res k u st
   | SRelations rels \<Rightarrow> st\<lparr>ss_relations := rels\<rparr>)"

text \<open>
  The vector store answers, and a key is spelled as the database prints it; the rest of the program
  writes rows with an owner, and the points it writes for the household itself (those of system
  signals) name nothing they were published from.
\<close>

definition share_careful :: "share_env \<Rightarrow> instant \<times> faults \<times> share_request \<Rightarrow> bool" where
  "share_careful env ev = (case ev of (now, fl, req) \<Rightarrow> (\<forall>p. fl_delete fl p) \<and> fl_bulk fl \<and> (case req of
     SUnpublish res pk u \<Rightarrow> res = RFiles \<or> sh_pg_uuid env pk \<in> {None, Some pk}
   | SAdminUnshare admin name pk \<Rightarrow> sh_pg_uuid env pk \<in> {None, Some pk}
   | SInsert res x u d \<Rightarrow> u \<noteq> [] \<and> (res = RFiles \<or> sh_pg_uuid env x = Some x)
   | SPoint c pid d \<Rightarrow> col d ''scope'' \<in> {JStr ''shared'', JStr ''system''} \<longrightarrow> col d ''published_from'' = JNull
   | _ \<Rightarrow> True))"

definition no_shares :: share_state where
  "no_shares = \<lparr>ss_rows = (\<lambda>_. []), ss_points = (\<lambda>_. []), ss_relations = [], ss_serial = 1, ss_events = [], ss_jobs = [], ss_audits = []\<rparr>"

lemma no_shares_good: "share_good env no_shares"
  by (simp add: share_good_def rows_owned_def points_accounted_def no_shares_def)

lemma insert_personal_good:
  assumes "share_good env st" and "u \<noteq> []" and "res = RFiles \<or> sh_pg_uuid env x = Some x"
  shows "share_good env (insert_personal res x u d st)"
proof (cases "(if res = RFiles then JInt (ss_serial st) else JStr x) \<in> sr_pk ` set (ss_rows st res)")
  case True
  then have "ss_rows (insert_personal res x u d st) = ss_rows st" "ss_points (insert_personal res x u d st) = ss_points st"
    by (simp_all add: insert_personal_def Let_def)
  from share_good_cong [OF this] assms(1) show ?thesis by simp
next
  case False
  define k where "k = (if res = RFiles then JInt (ss_serial st) else JStr x)"
  define st' where "st' = insert_personal res x u d st"
  define new where "new = \<lparr>sr_pk = k, sr_user = u, sr_scope = ''personal'', sr_from = None, sr_data = d\<rparr>"
  have rows: "ss_rows st' = (ss_rows st)(res := ss_rows st res @ [new])" and pts: "ss_points st' = ss_points st"
    using False by (simp_all add: st'_def insert_personal_def Let_def k_def new_def)
  have own: "rows_owned env st" and acc: "points_accounted env st" using assms(1) by (simp_all add: share_good_def)
  have nk: "row_key new = (k, u, ''personal'', None)" by (simp add: new_def row_key_def)
  have e: "x \<in> row_keys st' r \<longleftrightarrow> x \<in> row_keys st r \<or> r = res \<and> x = (k, u, ''personal'', None)" for x r
    using rows nk by (cases "r = res") auto
  have ck: "canonical_pk env res k" using assms(3) by (auto simp: canonical_pk_def k_def)
  have "rows_owned env st'"
  proof (rule rows_ownedI)
    show "distinct (map sr_pk (ss_rows st' r))" for r
      using rows_ownedD(1) [OF own, of r] False by (cases "r = res") (simp_all add: rows new_def k_def)
    show "u' \<noteq> []" if "(k', u', sc, from) \<in> row_keys st' r" for r k' u' sc "from"
      using that rows_ownedD(2) [OF own] assms(2) unfolding e by blast
    show "canonical_pk env r k' \<and> from = None" if "(k', u', ''personal'', from) \<in> row_keys st' r" for r k' u' "from"
      using that rows_ownedD(3) [OF own] ck unfolding e by blast
    show "\<exists>from'. (s, u', ''personal'', from') \<in> row_keys st' r" if "(k', u', sc, Some s) \<in> row_keys st' r" for r k' u' sc s
      using that rows_ownedD(4) [OF own] unfolding e by blast
  qed
  moreover have "points_accounted env st'"
    by (rule points_more_rows [OF acc]) (use e in blast, simp add: pts)
  ultimately show ?thesis by (simp add: share_good_def flip: st'_def)
qed

lemma delete_source_good:
  assumes "share_good env st" shows "share_good env (delete_source res k u st)"
proof (cases "personal_row st res k u")
  case None
  then show ?thesis using assms by (simp add: delete_source_def)
next
  case (Some src)
  define st' where "st' = delete_source res k u st"
  have rows: "ss_rows st' = (ss_rows st)(res := filter (\<lambda>r. \<not> (sr_pk r = k \<or> sr_from r = Some k \<and> sr_scope r \<noteq> ''personal'')) (ss_rows st res))"
    by (simp add: st'_def delete_source_def Some)
  have pts: "set (ss_points st' c) = (if c = collection_of res then {p \<in> set (ss_points st c). col (snd p) ''published_from'' \<noteq> k} else set (ss_points st c))" for c
    by (simp add: st'_def delete_source_def Some set_drop_points)
  have own: "rows_owned env st" and acc: "points_accounted env st" using assms by (simp_all add: share_good_def)
  have e: "(pk, v, sc, from) \<in> row_keys st' r \<longleftrightarrow> (pk, v, sc, from) \<in> row_keys st r \<and> (r = res \<longrightarrow> pk \<noteq> k \<and> (from = Some k \<longrightarrow> sc = ''personal''))" for pk v sc "from" r
    by (cases "r = res") (auto simp: rows row_key_def)
  obtain f0 where mine: "(k, u, ''personal'', f0) \<in> row_keys st res"
    using found_row_source [OF Some] unfolding is_source_def by auto
  have "rows_owned env st'"
  proof (rule rows_ownedI)
    show "distinct (map sr_pk (ss_rows st' r))" for r
      using rows_ownedD(1) [OF own, of r] by (cases "r = res") (simp_all add: rows distinct_map_filter)
    show "v \<noteq> []" if "(pk, v, sc, from) \<in> row_keys st' r" for r pk v sc "from"
      using that rows_ownedD(2) [OF own] unfolding e by blast
    show "canonical_pk env r pk \<and> from = None" if "(pk, v, ''personal'', from) \<in> row_keys st' r" for r pk v "from"
      using that rows_ownedD(3) [OF own] unfolding e by blast
    show "\<exists>from'. (s, v, ''personal'', from') \<in> row_keys st' r" if "(pk, v, sc, Some s) \<in> row_keys st' r" for r pk v sc s
    proof -
      have row: "(pk, v, sc, Some s) \<in> row_keys st r" "r = res \<longrightarrow> s = k \<longrightarrow> sc = ''personal''" using that unfolding e by blast+
      then have "sc \<noteq> ''personal''" using rows_ownedD(3) [OF own, of pk v "Some s" r] by blast
      with row rows_ownedD(4) [OF own row(1)] show ?thesis unfolding e by blast
    qed
  qed
  moreover have "points_accounted env st'"
  proof (rule points_accountedI)
    fix c p assume p: "p \<in> set (ss_points st' c)" "projected_point p"
    then have old: "p \<in> set (ss_points st c)" "c = collection_of res \<Longrightarrow> col (snd p) ''published_from'' \<noteq> k" by (simp_all add: pts split: if_splits)
    obtain res' kk where kk: "collection_of res' = c" "kk \<in> row_keys st res'" "accounts env res' kk p"
      by (rule points_accountedD [OF acc old(1) p(2)])
    obtain pk v sc s where ku: "kk = (pk, v, sc, Some s)" "col (snd p) ''scope'' = JStr sc" "col (snd p) ''published_from'' = s"
      using kk(3) by (cases kk) (auto simp: accounts_def split: if_splits)
    have "sc \<noteq> ''personal''" using p(2) ku(2) by (auto simp: projected_point_def)
    have "kk \<in> row_keys st' res'"
    proof (cases "res' = res")
      case True
      have "pk \<noteq> k" using personal_pk_unique [OF own mine, of v sc "Some s"] kk(2) \<open>sc \<noteq> ''personal''\<close> unfolding ku True by blast
      moreover have "s \<noteq> k" using old(2) kk(1) ku(3) True by blast
      ultimately show ?thesis using kk(2) unfolding ku e by blast
    next
      case False
      then show ?thesis using kk(2) unfolding ku e by blast
    qed
    with kk(1,3) show "\<exists>res. collection_of res = c \<and> (\<exists>k \<in> row_keys st' res. accounts env res k p)" by blast
  qed
  ultimately show ?thesis by (simp add: share_good_def flip: st'_def)
qed

lemma edit_good:
  assumes "share_good env st"
  shows "share_good env (set_rows res (update_where p (\<lambda>r. r\<lparr>sr_data := d\<rparr>) (ss_rows st res)) st)"
proof -
  define st' where "st' = set_rows res (update_where p (\<lambda>r. r\<lparr>sr_data := d\<rparr>) (ss_rows st res)) st"
  have keys: "map row_key (ss_rows st' r) = map row_key (ss_rows st r)" for r
    by (simp add: st'_def map_key_update_where row_key_def)
  have pks: "map sr_pk (ss_rows st' r) = map sr_pk (ss_rows st r)" for r
    using arg_cong [OF keys, of "map fst"] by (simp add: row_key_def o_def)
  have "row_keys st' r = row_keys st r" for r using arg_cong [OF keys, of set] by simp
  moreover have "ss_points st' = ss_points st" by (simp add: st'_def)
  ultimately show ?thesis
    using assms pks unfolding st'_def [symmetric] by (simp add: share_good_def rows_owned_def points_accounted_def)
qed

lemma share_apply_good:
  assumes "share_good env st" and "share_careful env ev" shows "share_good env (share_apply env st ev)"
proof -
  obtain now fl req where ev: "ev = (now, fl, req)" by (cases ev) auto
  have rel: "reliable fl" using assms(2) by (simp add: share_careful_def ev reliable_def)
  note g = assms(1) rel
  show ?thesis
  proof (cases req)
    case (SUnpublish res pk u)
    then show ?thesis using assms(2) unpublish_good [OF g] by (simp add: share_apply_def share_careful_def ev)
  next
    case (SAdminUnshare admin name pk)
    then show ?thesis using assms(2) admin_unshare_good [OF g] by (simp add: share_apply_def share_careful_def ev)
  next
    case (SInsert res x u d)
    then show ?thesis using assms(2) insert_personal_good [OF assms(1)] by (simp add: share_apply_def share_careful_def ev)
  next
    case (SPoint c pid d)
    then have "points_accounted env (put_point c pid d st)"
      using assms by (intro points_put) (auto simp: share_good_def share_careful_def ev projected_point_def)
    then show ?thesis
      using assms(1) same_rows_owned [of "put_point c pid d st" st env] SPoint by (simp add: share_good_def share_apply_def ev)
  next
    case (SDelete res k u)
    then show ?thesis using delete_source_good [OF assms(1)] by (simp add: share_apply_def ev)
  next
    case (SRelations rels)
    then show ?thesis using assms(1) share_good_cong [of "st\<lparr>ss_relations := rels\<rparr>" st env] by (simp add: share_apply_def ev)
  qed (simp_all add: share_apply_def ev publish_one_def publish_session_def reproject_good [OF g] edit_good [OF assms(1)] handle_unshare_good [OF g]
        growsD(1) [OF publish_grows [OF g]] growsD(1) [OF publish_file_grows [OF g]] growsD(1) [OF handle_share_grows [OF g]]
        growsD(1) [OF jobs_grow(1) [OF assms(1)]] growsD(1) [OF jobs_grow(2) [OF assms(1)]])
qed

interpretation sharing: guarded_machine "share_apply env" "share_careful env" "share_good env" for env
  by unfold_locales (rule share_apply_good)

lemma careful_run_good: "list_all (share_careful env) evs \<Longrightarrow> share_good env (foldl (share_apply env) no_shares evs)"
  by (rule sharing.admitted_run_good [OF no_shares_good])

subsection \<open>What a withdrawal leaves\<close>

lemma no_row_projected: "\<not> list_ex (projected_at k scope) (ss_rows st res) \<Longrightarrow> (pk, u, scope, Some k) \<notin> row_keys st res"
  by (auto simp: list_ex_iff projected_at_def row_key_def)

text \<open>In a good state a point whose row is gone sits at the id its withdrawal deletes.\<close>

lemma remaining_point:
  assumes "share_good env st" and "\<not> list_ex (projected_at v ''shared'') (ss_rows st res)"
    and "p \<in> set (ss_points st (collection_of res))" and "col (snd p) ''published_from'' = v" and "col (snd p) ''scope'' = JStr ''shared''"
    and "v \<noteq> JNull"
  shows "res \<noteq> RFiles \<and> (\<exists>x. v = JStr x \<and> fst p = projection_point_id env (collection_of res) x ''shared'')"
proof -
  have pts: "points_accounted env st" using assms(1) by (simp add: share_good_def)
  obtain res' k where k: "collection_of res' = collection_of res" "k \<in> row_keys st res'" "accounts env res' k p"
    by (rule points_accountedD [OF pts assms(3)]) (use assms(4-6) in \<open>simp_all add: projected_point_def\<close>)
  obtain pk u where ku: "k = (pk, u, ''shared'', Some v)"
    using k(3) assms(4,5) by (cases k) (auto simp: accounts_def split: if_splits)
  have "res' \<noteq> RFiles"
  proof
    assume "res' = RFiles"
    moreover from this k(1) have "res = RFiles" using files_only [of res] by simp
    ultimately show False using k(2) no_row_projected [OF assms(2), of pk u] unfolding ku by simp
  qed
  then show ?thesis
    using k(1,3) ku files_only [of res] files_only [of res'] by (auto simp: accounts_def)
qed

lemma unproject_uuid_rows:
  assumes "unproject_uuid_pk env fl res raw scope st = (Some n, st')" and "sh_pg_uuid env raw = Some u"
  shows "ss_rows st' = (ss_rows st)(res := filter (\<lambda>r. \<not> projected_at (JStr u) scope r) (ss_rows st res))"
    and "fl_delete fl (projection_point_id env (collection_of res) raw scope) \<Longrightarrow> p \<in> set (ss_points st' (collection_of res)) \<Longrightarrow>
      fst p \<noteq> projection_point_id env (collection_of res) raw scope"
  using assms by (auto simp: unproject_uuid_pk_def Let_def qdrant_delete_safe_def set_drop_points split: if_splits)

lemma retract_one_rows: "res \<noteq> REntities \<Longrightarrow> ss_rows (snd (retract_one env fl e acc)) res = ss_rows (snd acc) res"
  by (cases acc; cases "unproject_entity env fl (pk_text e) ''shared'' (snd acc)")
    (auto simp: retract_one_def unproject_entity_def unproject_uuid_pk_def Let_def qdrant_delete_safe_def split: option.split option.splits if_splits)

lemma retract_rows: "res \<noteq> REntities \<Longrightarrow> ss_rows (snd (retract_document_entities env fl now path owner st)) res = ss_rows st res"
proof -
  assume r: "res \<noteq> REntities"
  have "ss_rows (snd (fold (retract_one env fl) es acc)) res = ss_rows (snd acc) res" for es acc
    by (induction es arbitrary: acc) (simp_all add: retract_one_rows r)
  from this [of _ "(0, st)"] have f: "fold (retract_one env fl) es (0, st) = (n, st1) \<Longrightarrow> ss_rows st1 res = ss_rows st res" for es n st1
    by (metis snd_conv)
  show ?thesis using r
    by (auto simp: retract_document_entities_def apply_entity_retraction_plan_def downgrade_origin_def split: prod.split dest: f)
qed

lemma unproject_file_rows:
  assumes "unproject_file env fl now src scope st = (Some n, st')"
  shows "\<not> list_ex (projected_at src scope) (ss_rows st' RFiles)"
proof (cases "find (projected_at src scope) (ss_rows st RFiles)")
  case None
  then have "\<not> list_ex (projected_at src scope) (ss_rows st RFiles)" by (auto simp: find_None_iff list_ex_iff)
  with None show ?thesis using assms by (auto simp: unproject_file_def split: if_splits)
next
  case (Some row)
  have keep: "ss_rows st2 = ss_rows st1" if "unproject_file_chunks fl src owner sc st1 = Some st2" for st1 st2 owner sc
    using that by (auto simp: unproject_file_chunks_def split: if_splits)
  have "ss_rows st' RFiles = filter (\<lambda>r. \<not> projected_at src scope r) (ss_rows st RFiles)"
    using assms Some by (auto simp: unproject_file_def Let_def retract_rows split: if_splits option.splits dest!: keep)
  then show ?thesis by (auto simp: list_ex_iff)
qed

lemma typed_pk_text: "typed_pk env RFiles pk = Some (Some k) \<Longrightarrow> \<exists>i. py_int pk = Some i \<and> k = JInt i"
  by (auto simp: typed_pk_def)

lemma unproject_resource_rows:
  assumes "unproject_resource env fl now res pk st = (Some n, st')" and "typed_pk env res pk = Some (Some k)"
  shows "\<not> list_ex (projected_at k ''shared'') (ss_rows st' res)"
proof (cases "res = RFiles")
  case True
  then obtain i where i: "py_int pk = Some i" "k = JInt i" using typed_pk_text assms(2) by blast
  then show ?thesis using assms(1) True unproject_file_rows by (auto simp: unproject_resource_def)
next
  case False
  then obtain u where u: "sh_pg_uuid env pk = Some u" "k = JStr u" using assms(2) by (auto simp: typed_pk_def)
  have "unproject_uuid_pk env fl res pk ''shared'' st = (Some n, st')"
    using assms(1) False by (cases res) (simp_all add: unproject_resource_def unproject_note_def unproject_audio_memo_def unproject_session_def unproject_entity_def unproject_signal_def)
  from unproject_uuid_rows(1) [OF this u(1)] u(2) show ?thesis by (auto simp: list_ex_iff)
qed

lemma unproject_resource_points:
  assumes "unproject_resource env fl now res pk st = (Some n, st')" and "res \<noteq> RFiles" and "\<And>p. fl_delete fl p"
    and "p \<in> set (ss_points st' (collection_of res))" and "sh_pg_uuid env pk = Some u"
  shows "fst p \<noteq> projection_point_id env (collection_of res) pk ''shared''"
proof -
  have "unproject_uuid_pk env fl res pk ''shared'' st = (Some n, st')"
    using assms(1,2) by (cases res) (simp_all add: unproject_resource_def unproject_note_def unproject_audio_memo_def unproject_session_def unproject_entity_def unproject_signal_def)
  from unproject_uuid_rows(2) [OF this assms(5) assms(3,4)] show ?thesis .
qed

text \<open>
  C22. What the household sees of published content is accounted for. Starting empty, let members,
  share jobs, re-ingests and administrators publish and withdraw, and let the rest of the program insert,
  edit and delete personal rows (with a deletion also the shared rows and the points go, as in the
  purges; the discarding of an entity, which forgets the points, is a finding and left out) and write points that are personal or name no source, like those of system signals; all
  one after the other, while the vector store carries out every deletion and keys are given in
  the spelling of the database. Then every point with scope shared or system that names what it was
  published from belongs to a row of that scope, published from an existing personal row that the
  point names, with the same owner, whom the point names too.
\<close>

theorem shared_content_is_accounted_for:
  assumes "list_all (share_careful env) evs" and "st = foldl (share_apply env) no_shares evs"
    and "p \<in> set (ss_points st c)" and "col (snd p) ''scope'' = JStr scope" and "scope \<in> {''shared'', ''system''}"
    and "col (snd p) ''published_from'' \<noteq> JNull"
  shows "\<exists>res row src. collection_of res = c \<and> row \<in> set (ss_rows st res) \<and> src \<in> set (ss_rows st res) \<and>
    sr_scope row = scope \<and> sr_from row = Some (sr_pk src) \<and> sr_scope src = ''personal'' \<and> sr_user src = sr_user row \<and>
    col (snd p) ''user_id'' = JStr (sr_user row) \<and> col (snd p) ''published_from'' = sr_pk src"
proof -
  have good: "share_good env st" using careful_run_good [OF assms(1)] assms(2) by simp
  then have own: "rows_owned env st" and pts: "points_accounted env st" by (simp_all add: share_good_def)
  obtain res k where k: "collection_of res = c" "k \<in> row_keys st res" "accounts env res k p"
    by (rule points_accountedD [OF pts assms(3)]) (use assms(4-6) in \<open>auto simp: projected_point_def\<close>)
  obtain pk u s where ku: "k = (pk, u, scope, Some s)" and p: "col (snd p) ''user_id'' = JStr u" "col (snd p) ''published_from'' = s"
    using k(3) assms(4) by (cases k) (auto simp: accounts_def split: if_splits)
  obtain f where f: "(s, u, ''personal'', f) \<in> row_keys st res" using rows_ownedD(4) [OF own, of pk u scope s res] k(2) unfolding ku by blast
  obtain row where row: "row \<in> set (ss_rows st res)" "row_key row = (pk, u, scope, Some s)" using k(2) unfolding ku by force
  obtain src where src: "src \<in> set (ss_rows st res)" "row_key src = (s, u, ''personal'', f)" using f by force
  show ?thesis using k(1) row src p by (intro exI [of _ res] exI [of _ row] exI [of _ src]) (simp add: row_key_def)
qed

text \<open>
  C23. A member's successful withdrawal leaves nothing, in a history as in C22: if so far and during
  the withdrawal the vector store carried out every deletion, and the key is given in the spelling of
  the database (for files any spelling of the number), then after a withdrawal that is answered with
  success there is no shared row of the item and no shared point that was published from it.
  (With another spelling of a UUID, or after a failed deletion, a point can stay.)
\<close>

theorem unpublish_removes_every_trace:
  assumes "list_all (share_careful env) evs" and "st = foldl (share_apply env) no_shares evs"
    and "share_careful env (now, fl, SUnpublish res pk u)" and "unpublish_one env fl now res pk u st = (Inr (), st')"
    and "typed_pk env res pk = Some (Some k)"
  shows "\<not> list_ex (projected_at k ''shared'') (ss_rows st' res) \<and> shared_remaining st' res k = 0"
proof -
  have rel: "reliable fl" and raw: "res = RFiles \<or> sh_pg_uuid env pk \<in> {None, Some pk}"
    using assms(3) by (simp_all add: share_careful_def reliable_def)
  have good: "share_good env st'"
    using unpublish_good [OF careful_run_good [OF assms(1)] rel raw, of now u] assms(2,4) by simp
  obtain n where un: "unproject_resource env fl now res pk st = (Some n, st')"
    using assms(4) by (auto simp: unpublish_one_def split: option.splits prod.splits)
  have gone: "\<not> list_ex (projected_at k ''shared'') (ss_rows st' res)" by (rule unproject_resource_rows [OF un assms(5)])
  have nn: "k \<noteq> JNull" using assms(5) by (auto simp: typed_pk_def split: if_splits option.splits)
  have "\<not> (col (snd p) ''published_from'' = k \<and> col (snd p) ''scope'' = JStr ''shared'')" if p: "p \<in> set (ss_points st' (collection_of res))" for p
  proof
    assume c: "col (snd p) ''published_from'' = k \<and> col (snd p) ''scope'' = JStr ''shared''"
    obtain x where x: "res \<noteq> RFiles" "k = JStr x" "fst p = projection_point_id env (collection_of res) x ''shared''"
      using remaining_point [OF good gone p _ _ nn] c by blast
    have u: "sh_pg_uuid env pk = Some x" using assms(5) x(1,2) by (auto simp: typed_pk_def)
    then have "x = pk" using raw x(1) by simp
    then show False using unproject_resource_points [OF un x(1) reliableD(1) [OF rel] p u] x(3) by simp
  qed
  with gone show ?thesis by (simp add: shared_remaining_def filter_False)
qed

lemma drops_keep_audits [simp]:
  "ss_audits (put_point c pid d st) = ss_audits st" "ss_audits (drop_points c q st) = ss_audits st" "ss_audits (set_rows res rows st) = ss_audits st"
  by (simp_all add: put_point_def drop_points_def set_rows_def)

lemma unproject_uuid_audits: "ss_audits (snd (unproject_uuid_pk env fl res raw scope st)) = ss_audits st"
  by (simp add: unproject_uuid_pk_def Let_def qdrant_delete_safe_def split: option.split)

lemma retract_audits: "ss_audits (snd (retract_document_entities env fl now path owner st)) = ss_audits st"
proof -
  have one: "ss_audits (snd (retract_one env fl e acc)) = ss_audits (snd acc)" for e acc
    using unproject_uuid_audits [of env fl REntities "pk_text e" "''shared''" "snd acc"]
    by (cases acc; cases "unproject_uuid_pk env fl REntities (pk_text e) ''shared'' (snd acc)") (simp add: retract_one_def unproject_entity_def split: option.split)
  have "ss_audits (snd (fold (retract_one env fl) es acc)) = ss_audits (snd acc)" for es acc
    by (induction es arbitrary: acc) (simp_all add: one)
  from this [of _ "(0, st)"] have f: "fold (retract_one env fl) es (0, st) = (n, st1) \<Longrightarrow> ss_audits st1 = ss_audits st" for es n st1
    by (metis snd_conv)
  show ?thesis
    by (auto simp: retract_document_entities_def apply_entity_retraction_plan_def downgrade_origin_def split: prod.split dest: f)
qed

lemma unproject_resource_audits: "ss_audits (snd (unproject_resource env fl now res pk st)) = ss_audits st"
proof -
  have "ss_audits (snd (unproject_file env fl now src ''shared'' st)) = ss_audits st" for src
    by (auto simp: unproject_file_def unproject_file_chunks_def Let_def retract_audits split: option.split)
  then show ?thesis
    by (cases res) (simp_all add: unproject_resource_def unproject_note_def unproject_audio_memo_def unproject_session_def
        unproject_entity_def unproject_signal_def unproject_uuid_audits split: option.split)
qed

text \<open>
  C24. When an administrator is told that a share is gone, it is. Let the id be given in the
  spelling of the database (for files any spelling of the number). Whatever the state and whatever calls failed:
  if the retraction is answered with success, no shared row of the item and no
  shared point published from it is left, the owner it answers is the owner of the shared row before,
  and one audit entry was added that names the administrator, the item and this owner.
  (With another spelling of a UUID the check looks for other points than those that exist.)
\<close>

theorem admin_retraction_is_honest:
  assumes "admin_unshare env fl now admin name pk st = (Inr owner, st')" and "resource_of name = Some res"
    and "typed_pk env res pk = Some (Some k)" and "res = RFiles \<or> k = JStr pk"
  shows "\<not> list_ex (projected_at k ''shared'') (ss_rows st' res) \<and> shared_remaining st' res k = 0 \<and>
    owner = map_option sr_user (find (projected_at k ''shared'') (ss_rows st res)) \<and>
    ss_audits st' = ss_audits st @ [(admin, ''admin_unshare '' @ name @ ''/'' @ pk,
      [(''resource_type'', JStr name), (''resource_id'', JStr pk), (''source_owner_id'', opt_str owner)])]"
proof -
  have v: "(if res = RFiles then k else JStr pk) = k" using assms(4) by auto
  obtain owner' where r: "retract_recorded env fl now admin name res pk k owner' st = (Inr owner, st')"
    and o: "owner' = map_option sr_user (find (projected_at k ''shared'') (ss_rows st res))"
    using assms(1-3) v by (auto simp: admin_unshare_def Let_def split: option.splits if_splits)
  define st1 where "st1 = st\<lparr>ss_audits := ss_audits st @ [(admin, ''admin_unshare '' @ name @ ''/'' @ pk,
              [(''resource_type'', JStr name), (''resource_id'', JStr pk), (''source_owner_id'', opt_str owner')])]\<rparr>"
  obtain n where un: "unproject_resource env fl now res pk st1 = (Some n, st')" and zero: "shared_remaining st' res k = 0" and same: "owner' = owner"
    using r by (auto simp: retract_recorded_def Let_def st1_def split: if_splits prod.splits option.splits)
  have "ss_audits st' = ss_audits st1" using unproject_resource_audits [of env fl now res pk st1] un by simp
  then show ?thesis using unproject_resource_rows [OF un assms(3)] zero same o by (simp add: st1_def)
qed

subsection \<open>A household on which the properties are applied\<close>

definition demo_env :: share_env where
  "demo_env = \<lparr>sh_uuid5 = (\<lambda>s. s), sh_embed = (\<lambda>_. True), sh_vector = (\<lambda>_. True), sh_pg_uuid = Some, sh_jsonb = (\<lambda>_. None),
     sh_graph_mode = ''inprocess'', sh_inline_max = 10\<rparr>"

definition no_faults :: faults where
  "no_faults = \<lparr>fl_upsert = (\<lambda>_. True), fl_delete = (\<lambda>_. True), fl_insert = (\<lambda>_. True), fl_remove = (\<lambda>_. True), fl_bulk = True, fl_downgrade = True,
     fl_count = (\<lambda>_. True), fl_audit = True\<rparr>"

definition demo_events :: "(instant \<times> faults \<times> share_request) list" where
  "demo_events = [(1, no_faults, SInsert RNotes ''n'' ''al'' [(''text'', JStr ''hi'')]), (2, no_faults, SPublish RNotes ''n'' None ''al'')]"

definition demo_point :: "string \<times> json_obj" where
  "demo_point = (''conversations::n::shared'',
     [(''note_id'', JStr ''notes::n::shared''), (''text'', JStr ''hi''), (''user_id'', JStr ''al''), (''scope'', JStr ''shared''), (''published_from'', JStr ''n'')])"

lemma demo_careful: "list_all (share_careful demo_env) demo_events"
  by (simp add: demo_events_def share_careful_def demo_env_def no_faults_def)

lemma demo_results:
  "ss_points (foldl (share_apply demo_env) no_shares demo_events) ''conversations'' = [demo_point]"
  "fst (unpublish_one demo_env no_faults 3 RNotes ''n'' ''al'' (foldl (share_apply demo_env) no_shares demo_events)) = Inr ()"
  "fst (admin_unshare demo_env no_faults 3 ''root'' ''notes'' ''n'' (foldl (share_apply demo_env) no_shares demo_events)) = Inr (Some ''al'')"
  by code_simp+

lemma demo_shared:
  "unpublish_one demo_env no_faults 3 RNotes ''n'' ''al'' (foldl (share_apply demo_env) no_shares demo_events) =
     (Inr (), snd (unpublish_one demo_env no_faults 3 RNotes ''n'' ''al'' (foldl (share_apply demo_env) no_shares demo_events)))"
  "admin_unshare demo_env no_faults 3 ''root'' ''notes'' ''n'' (foldl (share_apply demo_env) no_shares demo_events) =
     (Inr (Some ''al''), snd (admin_unshare demo_env no_faults 3 ''root'' ''notes'' ''n'' (foldl (share_apply demo_env) no_shares demo_events)))"
  by (rule prod_eqI; simp add: demo_results)+

theorem shared_content_is_accounted_for_witness:
  "\<exists>res row src. collection_of res = ''conversations'' \<and> row \<in> set (ss_rows (foldl (share_apply demo_env) no_shares demo_events) res) \<and>
    src \<in> set (ss_rows (foldl (share_apply demo_env) no_shares demo_events) res) \<and>
    sr_scope row = ''shared'' \<and> sr_from row = Some (sr_pk src) \<and> sr_scope src = ''personal'' \<and> sr_user src = sr_user row \<and>
    col (snd demo_point) ''user_id'' = JStr (sr_user row) \<and> col (snd demo_point) ''published_from'' = sr_pk src"
  by (rule shared_content_is_accounted_for [OF demo_careful refl]) (simp_all add: demo_results, simp_all add: demo_point_def col_def)

theorem unpublish_removes_every_trace_witness:
  "\<not> list_ex (projected_at (JStr ''n'') ''shared'') (ss_rows (snd (unpublish_one demo_env no_faults 3 RNotes ''n'' ''al'' (foldl (share_apply demo_env) no_shares demo_events))) RNotes) \<and>
    shared_remaining (snd (unpublish_one demo_env no_faults 3 RNotes ''n'' ''al'' (foldl (share_apply demo_env) no_shares demo_events))) RNotes (JStr ''n'') = 0"
  by (rule unpublish_removes_every_trace [OF demo_careful refl _ demo_shared(1)]) (simp_all add: share_careful_def no_faults_def demo_env_def typed_pk_def)

theorem admin_retraction_is_honest_witness:
  "shared_remaining (snd (admin_unshare demo_env no_faults 3 ''root'' ''notes'' ''n'' (foldl (share_apply demo_env) no_shares demo_events))) RNotes (JStr ''n'') = 0"
  using admin_retraction_is_honest [OF demo_shared(2), of RNotes "JStr ''n''"] by (simp add: typed_pk_def demo_env_def resource_of_def)

text \<open>
  The review queue discards an entity by deleting its row; the shared rows go with it, the points do
  not. False is the answer 404.
\<close>

definition discard_entity :: "string \<Rightarrow> user_id \<Rightarrow> share_state \<Rightarrow> bool \<times> share_state" where
  "discard_entity x u st =
     (let hit = (\<lambda>r. sr_pk r = JStr x \<and> sr_user r = u) in
      if \<not> list_ex hit (ss_rows st REntities) then (False, st)
      else (True, set_rows REntities (filter (\<lambda>r. \<not> (hit r \<or> sr_from r = Some (JStr x))) (ss_rows st REntities)) st))"

lemma discarded_entity_stays_visible:
  assumes "personal_row st REntities (JStr x) u \<noteq> None"
    and "p \<in> set (ss_points st ''entities'')" and "col (snd p) ''published_from'' = JStr x"
  shows "fst (discard_entity x u st) \<and> \<not> list_ex (projected_at (JStr x) ''shared'') (ss_rows (snd (discard_entity x u st)) REntities) \<and>
    p \<in> set (ss_points (snd (discard_entity x u st)) ''entities'')"
proof -
  have "list_ex (\<lambda>r. sr_pk r = JStr x \<and> sr_user r = u) (ss_rows st REntities)"
    using assms(1) by (auto simp: personal_row_def find_None_iff list_ex_iff)
  then show ?thesis using assms(2) by (auto simp: discard_entity_def Let_def list_ex_iff projected_at_def)
qed

subsection \<open>Sharing and withdrawing again\<close>

lemma fresh_mirror:
  assumes "mirror_and_insert env fl res emb payload new upd src st = (Some row, st')" and "\<not> list_ex (projected_at src (sr_scope new)) (ss_rows st res)"
  shows "row = new \<and> ss_rows st' = (ss_rows st)(res := ss_rows st res @ [new])"
proof -
  have none: "find (projected_at src (sr_scope new)) (ss_rows st1 res) = None" if "ss_rows st1 = ss_rows st" for st1
    using assms(2) that by (auto simp: find_None_iff list_ex_iff)
  have up: "row = new \<and> ss_rows st' = (ss_rows st)(res := ss_rows st res @ [new])"
    if "upsert_projection res new upd src st1 = Some (row, st')" "ss_rows st1 = ss_rows st" for st1
    using that none [OF that(2)] by (auto simp: upsert_projection_def Let_def split: if_splits)
  show ?thesis using assms(1)
    by (auto simp: mirror_and_insert_def qdrant_upsert_safe_def insert_projection_or_rollback_qdrant_def Let_def
        split: if_splits option.splits dest: up)
qed

lemma fresh_project:
  assumes "project_resource env fl now res src ''shared'' u override st = (Some row, st')" and "res \<noteq> RFiles"
    and "\<not> list_ex (projected_at (sr_pk src) ''shared'') (ss_rows st res)"
  shows "projected_at (sr_pk src) ''shared'' row \<and> ss_rows st' = (ss_rows st)(res := ss_rows st res @ [row])"
  using assms
  by (cases res) (auto simp: project_resource_def project_note_def project_audio_memo_def project_session_def project_entity_def project_signal_def
      Let_def valid_target_scope_def projected_at_def split: option.splits dest!: fresh_mirror)

text \<open>
  C26. Withdrawing undoes sharing, for notes, audio memos, sessions, entities and signals (not for files, whose
  chunks and entities go with them): if an item that was not shared yet is published under its key in
  the spelling of the database, then withdrawing it right after, when the deletion of its row succeeds, is
  answered with success and gives back all tables as they were, row for row and in order.
\<close>

theorem unshare_undoes_share:
  assumes "publish_one env fl now res pk scope u st = (Inr row, st1)" and "res \<noteq> RFiles" and "sh_pg_uuid env pk = Some pk"
    and "\<not> list_ex (projected_at (JStr pk) ''shared'') (ss_rows st res)" and "fl_remove fl' (JStr pk)"
  shows "fst (unpublish_one env fl' now' res pk u st1) = Inr () \<and> ss_rows (snd (unpublish_one env fl' now' res pk u st1)) = ss_rows st"
proof -
  have fo: "fetch_own env res pk u s = Some (personal_row s res (JStr pk) u)" for s using assms(2,3) by (simp add: fetch_own_def typed_pk_def)
  obtain src where src: "personal_row st res (JStr pk) u = Some src" and pr: "project_resource env fl now res src ''shared'' u None st = (Some row, st1)"
    using assms(1) by (auto simp: publish_one_def publish_checked_def fo split: if_splits option.splits prod.splits)
  have k: "sr_pk src = JStr pk" using found_row_source [OF src] by (elim conjE)
  have f: "projected_at (JStr pk) ''shared'' row" "ss_rows st1 = (ss_rows st)(res := ss_rows st res @ [row])"
    using fresh_project [OF pr assms(2)] assms(4) unfolding k by simp_all
  have "personal_row st1 res (JStr pk) u = Some src" using src by (simp add: personal_row_def f(2) find_append_Some)
  moreover obtain n st2 where un: "unproject_uuid_pk env fl' res pk ''shared'' st1 = (Some n, st2)"
    using assms(3,5) by (auto simp: unproject_uuid_pk_def Let_def)
  moreover have "unproject_resource env fl' now' res pk st1 = unproject_uuid_pk env fl' res pk ''shared'' st1"
    using assms(2) by (cases res) (simp_all add: unproject_resource_def unproject_note_def unproject_audio_memo_def unproject_session_def unproject_entity_def unproject_signal_def)
  ultimately have res: "unpublish_one env fl' now' res pk u st1 = (Inr (), st2)" by (simp add: unpublish_one_def fo)
  have "filter (\<lambda>r. \<not> projected_at (JStr pk) ''shared'' r) (ss_rows st res) = ss_rows st res"
    using assms(4) by (simp add: filter_id_conv list_ex_iff)
  then have "ss_rows st2 = ss_rows st" using unproject_uuid_rows(1) [OF un assms(3)] f by auto
  with res show ?thesis by simp
qed

theorem unshare_undoes_share_witness:
  "ss_rows (snd (unpublish_one demo_env no_faults 4 RNotes ''n'' ''al'' (snd (publish_one demo_env no_faults 3 RNotes ''n'' None ''al''
     (insert_personal RNotes ''n'' ''al'' [(''text'', JStr ''hi'')] no_shares))))) =
   ss_rows (insert_personal RNotes ''n'' ''al'' [(''text'', JStr ''hi'')] no_shares)"
proof -
  let ?st = "insert_personal RNotes ''n'' ''al'' [(''text'', JStr ''hi'')] no_shares"
  let ?res = "publish_one demo_env no_faults 3 RNotes ''n'' None ''al'' ?st"
  have "case fst ?res of Inr row \<Rightarrow> True | _ \<Rightarrow> False" "\<not> list_ex (projected_at (JStr ''n'') ''shared'') (ss_rows ?st RNotes)" by code_simp+
  then obtain row where r: "?res = (Inr row, snd ?res)" and n: "\<not> list_ex (projected_at (JStr ''n'') ''shared'') (ss_rows ?st RNotes)"
    by (cases ?res) (auto split: sum.splits)
  show ?thesis using unshare_undoes_share [OF r _ _ n, of no_faults 4] by (simp add: demo_env_def no_faults_def)
qed

subsection \<open>The entities a withdrawn document gives up\<close>

text \<open>
  The shared entity comes from a document alone, this one mentions it, and no other document its
  owner shares does.
\<close>

definition given_up :: "share_state \<Rightarrow> user_id \<Rightarrow> json \<Rightarrow> string \<Rightarrow> json \<Rightarrow> bool" where
  "given_up st owner path orig e \<longleftrightarrow>
     (\<exists>pe \<in> set (ss_rows st REntities). \<exists>sh \<in> set (ss_rows st REntities).
       sr_pk pe = e \<and> sr_user pe = owner \<and> sr_scope pe = ''personal'' \<and> mentions st owner path e \<and> \<not> other_justification st owner path e \<and>
       projected_at e ''shared'' sh \<and> col (sr_data sh) ''share_origin'' = JStr orig)"

lemma in_plan_rows:
  "(e, orig, other) \<in> set (plan_rows st owner path q) \<longleftrightarrow>
     (\<exists>pe \<in> set (ss_rows st REntities). \<exists>sh \<in> set (ss_rows st REntities). (sr_user pe = owner \<and> sr_scope pe = ''personal'' \<and> q pe) \<and>
       projected_at (sr_pk pe) ''shared'' sh \<and> (e, orig, other) = (sr_pk pe, col (sr_data sh) ''share_origin'', other_justification st owner path (sr_pk pe)))"
proof -
  have "(e, orig, other) \<in> set (plan_rows st owner path q) \<longleftrightarrow>
    (\<exists>pe \<in> {pe \<in> set (ss_rows st REntities). sr_user pe = owner \<and> sr_scope pe = ''personal'' \<and> q pe}.
      (e, orig, other) \<in> (\<lambda>sh. (sr_pk pe, col (sr_data sh) ''share_origin'', other_justification st owner path (sr_pk pe))) `
        {sh \<in> set (ss_rows st REntities). projected_at (sr_pk pe) ''shared'' sh})"
    by (simp only: plan_rows_def set_concat set_map set_filter image_image UN_iff)
  then show ?thesis by (simp only: image_iff bex_simps mem_Collect_eq Bex_def) blast
qed

lemma plan_given_up:
  "e \<in> set (fst (plan_document_entity_retraction st path owner)) \<longleftrightarrow> given_up st owner path ''document'' e"
  "e \<in> set (snd (plan_document_entity_retraction st path owner)) \<longleftrightarrow> given_up st owner path ''multiple'' e"
proof -
  have "(e, JStr orig, False) \<in> set (plan_rows st owner path (\<lambda>pe. mentions st owner path (sr_pk pe))) \<longleftrightarrow> given_up st owner path orig e" for orig
    unfolding in_plan_rows given_up_def by (intro bex_cong refl) auto
  then show "e \<in> set (fst (plan_document_entity_retraction st path owner)) \<longleftrightarrow> given_up st owner path ''document'' e"
    "e \<in> set (snd (plan_document_entity_retraction st path owner)) \<longleftrightarrow> given_up st owner path ''multiple'' e"
    unfolding plan_document_entity_retraction_def split_plan by blast+
qed

lemma retract_one_filters:
  assumes "canonical_pk env REntities e" and "\<And>k. fl_remove fl k"
  shows "ss_rows (snd (retract_one env fl e acc)) REntities = filter (\<lambda>r. \<not> projected_at e ''shared'' r) (ss_rows (snd acc) REntities)"
proof -
  obtain x where x: "e = JStr x" "pk_text e = x" "sh_pg_uuid env x = Some x" using canonical_text [OF assms(1)] by blast
  obtain n st' where un: "unproject_uuid_pk env fl REntities x ''shared'' (snd acc) = (Some n, st')"
    using assms(2) x(3) by (auto simp: unproject_uuid_pk_def Let_def)
  then have "snd (retract_one env fl e acc) = st'" by (cases acc) (simp add: retract_one_def unproject_entity_def x(2))
  then show ?thesis using unproject_uuid_rows(1) [OF un x(3)] x(1) by simp
qed

lemma fold_retract_filters:
  assumes "\<And>e. e \<in> set es \<Longrightarrow> canonical_pk env REntities e" and "\<And>k. fl_remove fl k"
  shows "ss_rows (snd (fold (retract_one env fl) es acc)) REntities = filter (\<lambda>r. \<forall>e \<in> set es. \<not> projected_at e ''shared'' r) (ss_rows (snd acc) REntities)"
  using assms(1)
proof (induction es arbitrary: acc)
  case (Cons e es)
  then show ?case using retract_one_filters [OF Cons.prems assms(2), of e acc] by (simp add: conj_commute)
qed simp

text \<open>
  C25. What becomes of the entities when a document stops being shared. Let the graph feature be on, the
  document have a path and an owner, rows have distinct keys and a personal source of the same owner, and let
  every deletion and the update succeed. Then the plan, the retraction of each entity and the downgrade
  amount to one pass over the entity rows: a shared row whose entity only this document stood for
  disappears, one that somebody also shared by hand becomes hand-shared, and every other row is left
  as it was, in the same order.
\<close>

theorem retraction_in_one_pass:
  assumes "rows_owned env st" and "graph_feature_enabled env" and "path \<noteq> JStr []" and "owner \<noteq> []"
    and "\<And>k. fl_remove fl k" and "fl_downgrade fl"
  shows "ss_rows (snd (retract_document_entities env fl now path owner st)) REntities =
    map (\<lambda>r. if \<exists>e. projected_at e ''shared'' r \<and> given_up st owner path ''multiple'' e
             then r\<lparr>sr_data := dict_set ''share_origin'' (JStr ''user'') (dict_set ''updated_at'' (JInt now) (sr_data r))\<rparr> else r)
      (filter (\<lambda>r. \<not> (\<exists>e. projected_at e ''shared'' r \<and> given_up st owner path ''document'' e)) (ss_rows st REntities))"
proof -
  obtain retract down where p: "plan_document_entity_retraction st path owner = (retract, down)" by (cases "plan_document_entity_retraction st path owner")
  note plan = plan_given_up [where st = st and owner = owner and path = path, unfolded p fst_conv snd_conv]
  have can: "canonical_pk env REntities e" if "e \<in> set retract" for e
    using that source_canonical [OF assms(1)] own_row_source unfolding plan given_up_def by blast
  obtain n st1 where f: "fold (retract_one env fl) retract (0, st) = (n, st1)" by (cases "fold (retract_one env fl) retract (0, st)")
  have rows: "ss_rows st1 REntities = filter (\<lambda>r. \<forall>e \<in> set retract. \<not> projected_at e ''shared'' r) (ss_rows st REntities)"
    using fold_retract_filters [of retract env fl "(0, st)"] can assms(5) f by simp
  have out: "snd (retract_document_entities env fl now path owner st) = (if down \<noteq> [] then downgrade_origin now down st1 else st1)"
    using assms(2-4,6) by (simp add: retract_document_entities_def p apply_entity_retraction_plan_def f)
  have hit: "(sr_scope r = ''shared'' \<and> (case sr_from r of Some s \<Rightarrow> s \<in> set down | None \<Rightarrow> False)) = (\<exists>e. projected_at e ''shared'' r \<and> e \<in> set down)" for r
    by (auto simp: projected_at_def split: option.split)
  have "ss_rows (snd (retract_document_entities env fl now path owner st)) REntities =
    map (\<lambda>r. if \<exists>e. projected_at e ''shared'' r \<and> e \<in> set down
             then r\<lparr>sr_data := dict_set ''share_origin'' (JStr ''user'') (dict_set ''updated_at'' (JInt now) (sr_data r))\<rparr> else r) (ss_rows st1 REntities)"
    unfolding out by (simp add: downgrade_origin_def hit update_where_def cong: if_cong)
  moreover have "filter (\<lambda>r. \<forall>e \<in> set retract. \<not> projected_at e ''shared'' r) (ss_rows st REntities) =
      filter (\<lambda>r. \<not> (\<exists>e. projected_at e ''shared'' r \<and> given_up st owner path ''document'' e)) (ss_rows st REntities)"
    by (rule filter_cong) (auto simp: plan)
  ultimately show ?thesis by (simp add: rows plan)
qed

definition demo_graph :: share_state where
  "demo_graph = no_shares\<lparr>ss_rows := (\<lambda>_. [])(REntities :=
       [\<lparr>sr_pk = JStr ''e'', sr_user = ''al'', sr_scope = ''personal'', sr_from = None, sr_data = []\<rparr>,
        \<lparr>sr_pk = JStr ''s'', sr_user = ''al'', sr_scope = ''shared'', sr_from = Some (JStr ''e''), sr_data = [(''share_origin'', JStr ''document'')]\<rparr>]),
     ss_relations := [\<lparr>rl_source = JStr ''e'', rl_user = ''al'', rl_type = ''DOCUMENT'', rl_etype = ''MENTIONS'', rl_evidence = ''/d''\<rparr>]\<rparr>"

lemma demo_graph_owned: "rows_owned demo_env demo_graph"
proof -
  have keys: "row_keys demo_graph res =
      (if res = REntities then {(JStr ''e'', ''al'', ''personal'', None), (JStr ''s'', ''al'', ''shared'', Some (JStr ''e''))} else {})" for res
    by (auto simp: demo_graph_def no_shares_def row_key_def image_iff conj_disj_distribR ex_disj_distrib)
  have pks: "map sr_pk (ss_rows demo_graph res) = (if res = REntities then [JStr ''e'', JStr ''s''] else [])" for res
    by (simp add: demo_graph_def no_shares_def)
  show ?thesis unfolding rows_owned_def keys pks by (auto simp: canonical_pk_def demo_env_def)
qed

theorem retraction_in_one_pass_witness:
  "map sr_pk (ss_rows (snd (retract_document_entities demo_env no_faults 5 (JStr ''/d'') ''al'' demo_graph)) REntities) = [JStr ''e'']"
proof -
  have g: "given_up demo_graph ''al'' (JStr ''/d'') orig e \<longleftrightarrow> e = JStr ''e'' \<and> orig = ''document''" for orig e
    by (auto simp: given_up_def demo_graph_def no_shares_def mentions_def other_justification_def projected_at_def col_def)
  show ?thesis
    by (subst retraction_in_one_pass [OF demo_graph_owned])
      (simp_all add: g demo_env_def no_faults_def graph_feature_enabled_def, simp add: demo_graph_def no_shares_def projected_at_def)
qed

subsection \<open>What stays behind\<close>

text \<open>
  A key may be spelled differently and still name the same row: then the row goes and the point,
  whose id is made from the spelling, stays; the owner and the administrator are told of success.
\<close>

definition two_spellings :: share_env where
  "two_spellings = demo_env\<lparr>sh_pg_uuid := (\<lambda>s. if s = ''N'' then Some ''n'' else Some s)\<rparr>"

lemma respelled_withdrawal_leaves_the_point:
  "(case unpublish_one two_spellings no_faults 3 RNotes ''N'' ''al'' (foldl (share_apply two_spellings) no_shares demo_events) of
      (r, st) \<Rightarrow> r = Inr () \<and> map sr_scope (ss_rows st RNotes) = [''personal''] \<and> ss_points st ''conversations'' = [demo_point])"
  "(case admin_unshare two_spellings no_faults 3 ''root'' ''notes'' ''N'' (foldl (share_apply two_spellings) no_shares demo_events) of
      (r, st) \<Rightarrow> r = Inr (Some ''al'') \<and> map sr_scope (ss_rows st RNotes) = [''personal''] \<and> ss_points st ''conversations'' = [demo_point])"
  by code_simp+

text \<open>
  Once the row of a file is gone, no withdrawal touches its chunks: what a failed bulk delete left
  stays, the owner is told of success and the administrator of a failure, every time.
\<close>

lemma orphaned_chunks_stay:
  assumes "find (projected_at (JInt i) ''shared'') (ss_rows st RFiles) = None" and "py_int pk = Some i"
    and "shared_remaining st RFiles (JInt i) > 0"
  shows "ss_points (snd (unpublish_one env fl now RFiles pk u st)) = ss_points st"
    and "ss_points (snd (admin_unshare env fl now admin ''files'' pk st)) = ss_points st"
    and "fst (admin_unshare env fl now admin ''files'' pk st) \<in> {Inl TeardownIncomplete, Inl AuditWriteFailed}"
proof -
  have un: "ss_points (snd (unproject_resource env fl now RFiles pk st')) = ss_points st'" if "ss_rows st' = ss_rows st" for st'
    using assms(1,2) that by (simp add: unproject_resource_def unproject_file_def)
  have un': "ss_points st'' = ss_points st'" if "ss_rows st' = ss_rows st" "unproject_resource env fl now RFiles pk st' = (r, st'')" for st' st'' r
    using un [OF that(1)] that(2) by simp
  show "ss_points (snd (unpublish_one env fl now RFiles pk u st)) = ss_points st"
    by (auto simp: unpublish_one_def split: option.split prod.split dest: un' [OF refl])
  have rec: "ss_points (snd (retract_recorded env fl now admin name RFiles pk (JInt i) owner st)) = ss_points st \<and>
      fst (retract_recorded env fl now admin name RFiles pk (JInt i) owner st) \<in> {Inl TeardownIncomplete, Inl AuditWriteFailed}" for name owner
  proof -
    define st1 where "st1 = st\<lparr>ss_audits := ss_audits st @ [(admin, ''admin_unshare '' @ name @ ''/'' @ pk,
              [(''resource_type'', JStr name), (''resource_id'', JStr pk), (''source_owner_id'', opt_str owner)])]\<rparr>"
    obtain r st2 where u: "unproject_resource env fl now RFiles pk st1 = (r, st2)" by (cases "unproject_resource env fl now RFiles pk st1")
    have p: "ss_points st2 = ss_points st" using un' [OF _ u] by (simp add: st1_def)
    then have "shared_remaining st2 RFiles (JInt i) > 0" using assms(3) by (simp add: shared_remaining_def)
    with p u show ?thesis by (auto simp: retract_recorded_def Let_def st1_def split: option.split)
  qed
  have "admin_unshare env fl now admin ''files'' pk st =
      (if \<not> fl_count fl 0 then (Inl TeardownIncomplete, st) else retract_recorded env fl now admin ''files'' RFiles pk (JInt i) None st)"
    using assms by (simp add: admin_unshare_def resource_of_def typed_pk_def)
  then show "ss_points (snd (admin_unshare env fl now admin ''files'' pk st)) = ss_points st"
    "fst (admin_unshare env fl now admin ''files'' pk st) \<in> {Inl TeardownIncomplete, Inl AuditWriteFailed}"
    using rec by simp_all
qed

text \<open>A shared entity without a recorded origin takes the one of the document that names it next.\<close>

lemma unknown_origin_becomes_document: "promoted_origin JNull (JStr ''document'') = JStr ''document''"
  by (simp add: promoted_origin_def)

end
