(* ===== verification/Conversations.thy ===== *)
theory Conversations
  imports Sharing Captures BatchQueue ContextBudget JsonText Visibility
begin

section \<open>Conversations and their deletion\<close>

text \<open>
  Models \<open>services/conversations.py\<close>, \<open>services/memory_purge.py\<close>, \<open>routes/api_v1/conversations.py\<close>,
  \<open>store_session\<close> of \<open>services/memory.py\<close> and the job \<open>session_end\<close>. Session rows and points are
  those of \<open>Projection\<close>, jobs those of \<open>BatchQueue\<close>; ids have passed the routes, which write them
  in the canonical form. A call that may fail does so by a function of \<open>conv_faults\<close>.
\<close>

record web_conversation =
  wc_id :: string
  wc_user :: user_id
  wc_title :: string
  wc_model :: string
  wc_scope :: string
  wc_count :: int
  wc_at :: instant

record web_message =
  wm_id :: string
  wm_conv :: string
  wm_user :: user_id
  wm_role :: string
  wm_content :: string
  wm_model :: "string option"
  wm_refs :: "json option"
  wm_proposal :: "int option"
  wm_at :: instant

record conv_tomb =
  tb_user :: user_id
  tb_conv :: string
  tb_at :: instant
  tb_qdrant :: bool
  tb_graph :: bool
  tb_errors :: "string list"
  tb_sweeps :: int
  tb_resolved :: "instant option"

record conv_state =
  cv_share :: share_state
  cv_convs :: "web_conversation list"
  cv_msgs :: "web_message list"
  cv_tombs :: "conv_tomb list"
  cv_batch :: batch_state
  cv_graph :: "(user_id \<times> string) list"
  cv_graph_shared :: "string list"
  cv_proposals :: "(int \<times> user_id) list"
  cv_ended :: "(user_id \<times> string) list"

record conv_faults =
  cf_rows :: "string option"
  cf_point :: "nat \<Rightarrow> string \<Rightarrow> string option"
  cf_graph :: "(nat \<Rightarrow> bool \<Rightarrow> string option) option"
  cf_tomb :: bool
  cf_upsert :: bool
  cf_store :: bool

datatype conv_error = CvHttp nat string | CvUncaught

subsection \<open>Ids\<close>

definition hex_number :: "string \<Rightarrow> int" where
  "hex_number s = foldl (\<lambda>n c. case hex_value c of Some k \<Rightarrow> 16 * n + int k | None \<Rightarrow> n) 0 s"

definition hex32 :: "int \<Rightarrow> string" where
  "hex32 n = map (\<lambda>i. hex_digit (nat ((n div 16 ^ (31 - i)) mod 16))) [0..<32]"

text \<open>\<open>str(uuid.UUID(s))\<close>; \<open>None\<close> is \<open>ValueError\<close>.\<close>

definition uuid_text :: "string \<Rightarrow> string option" where
  "uuid_text s =
     (if \<not> py_uuid s then None
      else let h = hex32 (hex_number (uuid_hex s))
           in Some (take 8 h @ ''-'' @ take 4 (drop 8 h) @ ''-'' @ take 4 (drop 12 h) @ ''-'' @ take 4 (drop 16 h) @ ''-'' @ drop 20 h))"

definition uuid_version_4 :: "string \<Rightarrow> bool" where
  "uuid_version_4 s = (let n = hex_number (uuid_hex s) in (n div 2 ^ 62) mod 4 = 2 \<and> (n div 2 ^ 76) mod 16 = 4)"

definition parse_conversation_id :: "string \<Rightarrow> conv_error + string" where
  "parse_conversation_id s = (case uuid_text s of None \<Rightarrow> Inl (CvHttp 422 ''invalid_conversation_id'') | Some i \<Rightarrow> Inr i)"

definition session_conversation_point_id :: "share_env \<Rightarrow> user_id \<Rightarrow> string \<Rightarrow> string" where
  "session_conversation_point_id env u sid = sh_uuid5 env (''session::'' @ u @ ''::'' @ sid)"

subsection \<open>Deleting: rows\<close>

record purge_result =
  pg_rows :: bool
  pg_points :: bool
  pg_graph :: bool
  pg_entities :: bool
  pg_orphans :: "json list"
  pg_errors :: "string list"

definition purge_partial :: "purge_result \<Rightarrow> bool" where
  "purge_partial r = (if \<not> pg_rows r then False else \<not> (pg_points r \<and> pg_graph r \<and> pg_entities r))"

definition fresh_result :: purge_result where
  "fresh_result = \<lparr>pg_rows = False, pg_points = False, pg_graph = False, pg_entities = False, pg_orphans = [], pg_errors = []\<rparr>"

definition is_conversation_purged :: "user_id \<Rightarrow> string \<Rightarrow> conv_state \<Rightarrow> bool" where
  "is_conversation_purged u sid st = list_ex (\<lambda>t. tb_user t = u \<and> tb_conv t = sid) (cv_tombs st)"

definition own_conversation :: "user_id \<Rightarrow> string \<Rightarrow> conv_state \<Rightarrow> bool" where
  "own_conversation u sid st = list_ex (\<lambda>c. wc_id c = sid \<and> wc_user c = u) (cv_convs st)"

definition own_session :: "user_id \<Rightarrow> string \<Rightarrow> conv_state \<Rightarrow> bool" where
  "own_session u sid st = (personal_row (cv_share st) RSessions (JStr sid) u \<noteq> None)"

definition conversation_purge_target_exists :: "user_id \<Rightarrow> string \<Rightarrow> conv_state \<Rightarrow> bool" where
  "conversation_purge_target_exists u sid st = (own_session u sid st \<or> own_conversation u sid st \<or> is_conversation_purged u sid st)"

text \<open>Messages go with their conversation, by user and by the foreign key.\<close>

definition delete_web :: "user_id \<Rightarrow> string \<Rightarrow> conv_state \<Rightarrow> conv_state" where
  "delete_web u sid st =
     st\<lparr>cv_msgs := filter (\<lambda>m. \<not> (wm_conv m = sid \<and> (wm_user m = u \<or> own_conversation u sid st))) (cv_msgs st),
        cv_convs := filter (\<lambda>c. \<not> (wc_id c = sid \<and> wc_user c = u)) (cv_convs st)\<rparr>"

definition new_tomb :: "instant \<Rightarrow> user_id \<Rightarrow> string \<Rightarrow> conv_tomb" where
  "new_tomb now u sid = \<lparr>tb_user = u, tb_conv = sid, tb_at = now, tb_qdrant = False, tb_graph = False, tb_errors = [], tb_sweeps = 0, tb_resolved = None\<rparr>"

definition insert_tomb :: "instant \<Rightarrow> user_id \<Rightarrow> string \<Rightarrow> conv_state \<Rightarrow> conv_state" where
  "insert_tomb now u sid st = (if is_conversation_purged u sid st then st else st\<lparr>cv_tombs := cv_tombs st @ [new_tomb now u sid]\<rparr>)"

definition delete_sessions :: "user_id \<Rightarrow> string \<Rightarrow> share_state \<Rightarrow> share_state" where
  "delete_sessions u sid st =
     set_rows RSessions (filter (\<lambda>r. sr_from r \<noteq> Some (JStr sid) \<and> \<not> (sr_pk r = JStr sid \<and> sr_user r = u \<and> sr_scope r = ''personal'')) (ss_rows st RSessions)) st"

text \<open>The transaction; \<open>Some\<close> is the exception, after which nothing has changed.\<close>

definition delete_conversation_rows :: "conv_faults \<Rightarrow> instant \<Rightarrow> user_id \<Rightarrow> string \<Rightarrow> conv_state \<Rightarrow> string option \<times> conv_state" where
  "delete_conversation_rows fl now u sid st =
     (case cf_rows fl of Some e \<Rightarrow> (Some e, st)
      | None \<Rightarrow> (None, (delete_web u sid (insert_tomb now u sid st))\<lparr>cv_share := delete_sessions u sid (cv_share st)\<rparr>))"

definition delete_web_rows :: "conv_faults \<Rightarrow> user_id \<Rightarrow> string \<Rightarrow> conv_state \<Rightarrow> string option \<times> conv_state" where
  "delete_web_rows fl u sid st = (case cf_rows fl of Some e \<Rightarrow> (Some e, st) | None \<Rightarrow> (None, delete_web u sid st))"

subsection \<open>Deleting: the other stores\<close>

text \<open>Up to three attempts; \<open>f k\<close> is the attempt with number \<open>k\<close>, which may stop in the middle.\<close>

fun retry_from :: "nat \<Rightarrow> nat \<Rightarrow> string \<Rightarrow> (nat \<Rightarrow> 's \<Rightarrow> string option \<times> 's) \<Rightarrow> 's \<Rightarrow> (bool \<times> string list) \<times> 's" where
  "retry_from k 0 label f s = ((False, []), s)"
| "retry_from k (Suc n) label f s =
     (case f k s of
        (None, s1) \<Rightarrow> ((True, []), s1)
      | (Some e, s1) \<Rightarrow> (case retry_from (Suc k) n label f s1 of ((ok, errs), s2) \<Rightarrow> ((ok, (label @ '': '' @ e) # errs), s2)))"

definition retry_store_arm :: "string \<Rightarrow> (nat \<Rightarrow> 's \<Rightarrow> string option \<times> 's) \<Rightarrow> 's \<Rightarrow> (bool \<times> string list) \<times> 's" where
  "retry_store_arm label f s = retry_from 0 3 label f s"

fun delete_points :: "string \<Rightarrow> (string \<Rightarrow> string option) \<Rightarrow> string list \<Rightarrow> share_state \<Rightarrow> string option \<times> share_state" where
  "delete_points c err [] st = (None, st)"
| "delete_points c err (p # ps) st = (case err p of Some e \<Rightarrow> (Some e, st) | None \<Rightarrow> delete_points c err ps (drop_points c (\<lambda>x. fst x = p) st))"

definition session_points :: "share_env \<Rightarrow> user_id \<Rightarrow> string \<Rightarrow> string list" where
  "session_points env u sid =
     [session_conversation_point_id env u sid, projection_point_id env ''conversations'' sid ''shared'', projection_point_id env ''conversations'' sid ''system'']"

definition points_attempt :: "share_env \<Rightarrow> conv_faults \<Rightarrow> user_id \<Rightarrow> string \<Rightarrow> nat \<Rightarrow> conv_state \<Rightarrow> string option \<times> conv_state" where
  "points_attempt env fl u sid k st =
     (case delete_points ''conversations'' (cf_point fl k) (session_points env u sid) (cv_share st) of (e, s) \<Rightarrow> (e, st\<lparr>cv_share := s\<rparr>))"

definition graph_attempt :: "(nat \<Rightarrow> bool \<Rightarrow> string option) \<Rightarrow> user_id \<Rightarrow> string \<Rightarrow> nat \<Rightarrow> conv_state \<Rightarrow> string option \<times> conv_state" where
  "graph_attempt g u sid k st =
     (case g k False of Some e \<Rightarrow> (Some e, st)
      | None \<Rightarrow>
          let st1 = st\<lparr>cv_graph := filter (\<lambda>n. n \<noteq> (u, sid)) (cv_graph st)\<rparr>
          in case g k True of Some e \<Rightarrow> (Some e, st1) | None \<Rightarrow> (None, st1\<lparr>cv_graph_shared := filter (\<lambda>n. n \<noteq> sid) (cv_graph_shared st1)\<rparr>))"

definition points_arm :: "share_env \<Rightarrow> conv_faults \<Rightarrow> string \<Rightarrow> user_id \<Rightarrow> string \<Rightarrow> purge_result \<times> conv_state \<Rightarrow> purge_result \<times> conv_state" where
  "points_arm env fl label u sid acc =
     (case acc of (r, st) \<Rightarrow> case retry_store_arm label (points_attempt env fl u sid) st of
        ((ok, errs), st1) \<Rightarrow> (r\<lparr>pg_points := ok, pg_errors := pg_errors r @ errs\<rparr>, st1))"

definition graph_arm :: "conv_faults \<Rightarrow> string \<Rightarrow> user_id \<Rightarrow> string \<Rightarrow> purge_result \<times> conv_state \<Rightarrow> purge_result \<times> conv_state" where
  "graph_arm fl label u sid acc =
     (case acc of (r, st) \<Rightarrow> case cf_graph fl of
        None \<Rightarrow> (r\<lparr>pg_graph := True\<rparr>, st)
      | Some g \<Rightarrow> (case retry_store_arm label (graph_attempt g u sid) st of
          ((ok, errs), st1) \<Rightarrow> (r\<lparr>pg_graph := ok, pg_errors := pg_errors r @ errs\<rparr>, st1)))"

definition mark_tomb :: "instant \<Rightarrow> purge_result \<Rightarrow> conv_tomb \<Rightarrow> conv_tomb" where
  "mark_tomb now r t =
     t\<lparr>tb_qdrant := pg_points r, tb_graph := pg_graph r, tb_errors := pg_errors r, tb_resolved := (if purge_partial r then tb_resolved t else Some now)\<rparr>"

definition tombstone_update :: "instant \<Rightarrow> user_id \<Rightarrow> string \<Rightarrow> purge_result \<Rightarrow> conv_state \<Rightarrow> conv_state" where
  "tombstone_update now u sid r st = st\<lparr>cv_tombs := update_where (\<lambda>t. tb_user t = u \<and> tb_conv t = sid) (mark_tomb now r) (cv_tombs st)\<rparr>"

definition purge_session_memory ::
  "share_env \<Rightarrow> conv_faults \<Rightarrow> instant \<Rightarrow> user_id \<Rightarrow> string \<Rightarrow> conv_state \<Rightarrow> purge_result \<times> conv_state" where
  "purge_session_memory env fl now u sid st =
     (let r0 = fresh_result\<lparr>pg_entities := True\<rparr>; live = own_session u sid st in
      if \<not> live \<and> \<not> is_conversation_purged u sid st then (r0, st)
      else case (if live then delete_conversation_rows fl now u sid st else delete_web_rows fl u sid st) of
        (Some e, st1) \<Rightarrow> (r0\<lparr>pg_errors := [''postgres: '' @ e]\<rparr>, st1)
      | (None, st1) \<Rightarrow>
          let st2 = st1\<lparr>cv_batch := (cv_batch st1)\<lparr>bs_jobs := snd (cancel_pending_session_end_jobs now u sid (bs_jobs (cv_batch st1)))\<rparr>\<rparr>
          in case graph_arm fl ''graph'' u sid (points_arm env fl ''qdrant'' u sid (r0\<lparr>pg_rows := True\<rparr>, st2)) of
               (r, st3) \<Rightarrow> (r, if cf_tomb fl then tombstone_update now u sid r st3 else st3))"

definition delete_conversation ::
  "share_env \<Rightarrow> conv_faults \<Rightarrow> instant \<Rightarrow> user_id \<Rightarrow> string \<Rightarrow> conv_state \<Rightarrow> (conv_error + purge_result) \<times> conv_state" where
  "delete_conversation env fl now u sid st =
     (if \<not> conversation_purge_target_exists u sid st then (Inl (CvHttp 404 ''conversation_not_found''), st)
      else (case purge_session_memory env fl now u sid st of (r, st1) \<Rightarrow> (Inr r, st1)))"

text \<open>The answer: \<open>deleted\<close>, the id, \<open>partial\<close>.\<close>

definition delete_conversation_route ::
  "share_env \<Rightarrow> conv_faults \<Rightarrow> instant \<Rightarrow> user_id \<Rightarrow> string \<Rightarrow> conv_state \<Rightarrow> (conv_error + bool \<times> string \<times> bool) \<times> conv_state" where
  "delete_conversation_route env fl now u raw st =
     (case parse_conversation_id raw of
        Inl e \<Rightarrow> (Inl e, st)
      | Inr cid \<Rightarrow> (case delete_conversation env fl now u cid st of
          (Inl e, st1) \<Rightarrow> (Inl e, st1) | (Inr r, st1) \<Rightarrow> (Inr (True, cid, purge_partial r), st1)))"

subsection \<open>The sweeper\<close>

definition sweeper_max_attempts :: int where "sweeper_max_attempts = 20"
definition sweeper_min_age :: instant where "sweeper_min_age = 300000000"

definition swept_tomb :: "instant \<Rightarrow> purge_result \<Rightarrow> conv_tomb \<Rightarrow> conv_tomb" where
  "swept_tomb now r t = (mark_tomb now r t)\<lparr>tb_sweeps := tb_sweeps t + 1\<rparr>"

definition sweep_one :: "share_env \<Rightarrow> conv_faults \<Rightarrow> instant \<Rightarrow> conv_tomb \<Rightarrow> conv_state \<Rightarrow> bool \<times> conv_state" where
  "sweep_one env fl now t st =
     (let u = tb_user t; sid = tb_conv t;
          acc0 = (fresh_result\<lparr>pg_rows := True, pg_points := tb_qdrant t, pg_graph := tb_graph t, pg_entities := True\<rparr>, st);
          acc1 = (if tb_qdrant t then acc0 else points_arm env fl ''qdrant[sweep]'' u sid acc0);
          acc2 = (if tb_graph t then acc1 else graph_arm fl ''graph[sweep]'' u sid acc1)
      in case acc2 of (r, st1) \<Rightarrow>
           if \<not> cf_tomb fl then (False, st1)
           else (\<not> purge_partial r, st1\<lparr>cv_tombs := update_where (\<lambda>x. tb_user x = u \<and> tb_conv x = sid) (swept_tomb now r) (cv_tombs st1)\<rparr>))"

definition sweep_candidates :: "instant \<Rightarrow> conv_state \<Rightarrow> conv_tomb list" where
  "sweep_candidates now st =
     take 100 (sort_key tb_at (filter (\<lambda>t. tb_resolved t = None \<and> tb_sweeps t < sweeper_max_attempts \<and> tb_at t < now - sweeper_min_age) (cv_tombs st)))"

definition sweep_partial_purges :: "share_env \<Rightarrow> (conv_tomb \<Rightarrow> conv_faults) \<Rightarrow> instant \<Rightarrow> conv_state \<Rightarrow> nat \<times> conv_state" where
  "sweep_partial_purges env fls now st =
     fold (\<lambda>t (n, s). case sweep_one env (fls t) now t s of (ok, s1) \<Rightarrow> (if ok then n + 1 else n, s1)) (sweep_candidates now st) (0, st)"

subsection \<open>Writing transcripts\<close>

definition title_line :: "string \<Rightarrow> string list" where
  "title_line s = filter (\<lambda>l. l \<noteq> []) (map py_strip (foldr (\<lambda>c ls. if c \<in> set [CHR 0x0A, CHR 0x0B, CHR 0x0C, CHR 0x0D, CHR 0x1C, CHR 0x1D, CHR 0x1E, CHR 0x85] then [] # ls
     else (c # hd ls) # tl ls) s [[]]))"

definition title_from_summary :: "string \<Rightarrow> string" where
  "title_from_summary s = (case title_line s of [] \<Rightarrow> ''Chat'' | l # _ \<Rightarrow> take 80 l)"

text \<open>Only the owner may touch an existing header; an empty title or model keeps the old one.\<close>

definition upsert_web_conversation :: "instant \<Rightarrow> user_id \<Rightarrow> string \<Rightarrow> string \<Rightarrow> string \<Rightarrow> conv_state \<Rightarrow> (conv_error + unit) \<times> conv_state" where
  "upsert_web_conversation now u cid title model st =
     (if is_conversation_purged u cid st then (Inl (CvHttp 404 ''conversation_not_found''), st)
      else case t_find wc_id cid (cv_convs st) of
        Some c \<Rightarrow>
          if wc_user c \<noteq> u then (Inl (CvHttp 404 ''conversation_not_found''), st)
          else (Inr (), st\<lparr>cv_convs := update_where (\<lambda>c. wc_id c = cid \<and> wc_user c = u)
                  (\<lambda>c. c\<lparr>wc_at := now, wc_title := (if title \<noteq> [] then title else wc_title c), wc_model := (if model \<noteq> [] then model else wc_model c)\<rparr>) (cv_convs st)\<rparr>)
      | None \<Rightarrow> (Inr (), st\<lparr>cv_convs := cv_convs st @
          [\<lparr>wc_id = cid, wc_user = u, wc_title = title, wc_model = model, wc_scope = ''personal'', wc_count = 0, wc_at = now\<rparr>]\<rparr>))"

text \<open>The list is decoded by the driver, a text is parsed; \<open>None\<close> is \<open>JSONDecodeError\<close>.\<close>

definition parse_source_refs :: "json option \<Rightarrow> json list option option" where
  "parse_source_refs raw = (case raw of
     None \<Rightarrow> Some None | Some JNull \<Rightarrow> Some None
   | Some (JStr s) \<Rightarrow> map_option (\<lambda>v. case v of JList xs \<Rightarrow> Some xs | _ \<Rightarrow> None) (loads s)
   | Some (JList xs) \<Rightarrow> Some (Some xs) | Some _ \<Rightarrow> Some None)"

record message_body =
  mb_id :: string
  mb_role :: string
  mb_content :: string
  mb_model :: "string option"
  mb_refs :: "json list option"
  mb_proposal :: "int option"

definition message_body_ok :: "message_body \<Rightarrow> bool" where
  "message_body_ok b \<longleftrightarrow> mb_role b \<in> {''user'', ''assistant'', ''system''} \<and> length (mb_content b) \<le> 64000 \<and>
     (case mb_model b of None \<Rightarrow> True | Some m \<Rightarrow> length m \<le> 64) \<and>
     (case mb_refs b of None \<Rightarrow> True
      | Some rs \<Rightarrow> length rs \<le> 64 \<and> list_all (\<lambda>r. case r of JObj _ \<Rightarrow> True | _ \<Rightarrow> False) rs \<and>
          length (dumps (JList (map sort_keys rs))) \<le> 65536 \<and> list_all (\<lambda>r. length (dumps (sort_keys r)) \<le> 4096) rs)"

definition message_reply :: "web_message \<Rightarrow> conv_error + web_message" where
  "message_reply m = (case parse_source_refs (wm_refs m) of None \<Rightarrow> Inl CvUncaught | Some rs \<Rightarrow> Inr (m\<lparr>wm_refs := map_option JList rs\<rparr>))"

text \<open>A message id is used once; the trigger counts the messages of the conversation.\<close>

definition append_web_message :: "instant \<Rightarrow> user_id \<Rightarrow> string \<Rightarrow> message_body \<Rightarrow> conv_state \<Rightarrow> (conv_error + web_message) \<times> conv_state" where
  "append_web_message now u cid b st =
     (if is_conversation_purged u cid st \<or> \<not> own_conversation u cid st then (Inl (CvHttp 404 ''conversation_not_found''), st)
      else case (case mb_proposal b of None \<Rightarrow> None | Some i \<Rightarrow> (case map_of (cv_proposals st) i of
                   None \<Rightarrow> Some (CvHttp 422 ''invalid_action_proposal'') | Some owner \<Rightarrow> if owner \<noteq> u then Some (CvHttp 404 ''conversation_not_found'') else None)) of
        Some e \<Rightarrow> (Inl e, st)
      | None \<Rightarrow>
          let new = \<lparr>wm_id = mb_id b, wm_conv = cid, wm_user = u, wm_role = mb_role b, wm_content = mb_content b, wm_model = mb_model b,
                wm_refs = map_option JList (mb_refs b), wm_proposal = mb_proposal b, wm_at = now\<rparr>;
              st1 = (if mb_id b \<in> wm_id ` set (cv_msgs st) then st
                else st\<lparr>cv_msgs := cv_msgs st @ [new],
                        cv_convs := update_where (\<lambda>c. wc_id c = cid) (\<lambda>c. c\<lparr>wc_count := wc_count c + 1, wc_at := now\<rparr>) (cv_convs st)\<rparr>)
          in case find (\<lambda>m. wm_id m = mb_id b \<and> wm_conv m = cid \<and> wm_user m = u) (cv_msgs st1) of
               None \<Rightarrow> (Inl (CvHttp 404 ''conversation_not_found''), st1)
             | Some m \<Rightarrow> (message_reply m, st1))"

definition append_message :: "instant \<Rightarrow> user_id \<Rightarrow> string \<Rightarrow> message_body \<Rightarrow> conv_state \<Rightarrow> (conv_error + web_message) \<times> conv_state" where
  "append_message now u raw b st =
     (if \<not> message_body_ok b then (Inl (CvHttp 422 ''validation''), st)
      else case (parse_conversation_id raw, parse_conversation_id (mb_id b)) of
        (Inr cid, Inr mid) \<Rightarrow> append_web_message now u cid (b\<lparr>mb_id := mid\<rparr>) st
      | _ \<Rightarrow> (Inl (CvHttp 422 ''invalid_conversation_id''), st))"

subsection \<open>Reading\<close>

record conversation_summary =
  sm_id :: string
  sm_title :: string
  sm_summary :: string
  sm_at :: instant
  sm_scope :: string
  sm_count :: "int option"
  sm_status :: string
  sm_owner :: bool
  sm_can_share :: bool
  sm_shared :: "string option"

definition or_default :: "string \<Rightarrow> string \<Rightarrow> string" where
  "or_default s d = (if s = [] then d else s)"

definition web_conversation_summary :: "user_id \<Rightarrow> string \<Rightarrow> conv_state \<Rightarrow> conv_error + conversation_summary" where
  "web_conversation_summary u cid st =
     (case find (\<lambda>c. wc_id c = cid \<and> wc_user c = u) (cv_convs st) of
        None \<Rightarrow> Inl (CvHttp 404 ''conversation_not_found'')
      | Some c \<Rightarrow>
          let text = (case find (\<lambda>r. sr_pk r = JStr cid \<and> sr_user r = u) (ss_rows (cv_share st) RSessions) of None \<Rightarrow> [] | Some r \<Rightarrow> str_of (col (sr_data r) ''summary''))
          in Inr \<lparr>sm_id = wc_id c, sm_title = or_default (or_default (py_strip (wc_title c)) (title_from_summary text)) ''Chat'', sm_summary = text, sm_at = wc_at c,
               sm_scope = or_default (wc_scope c) ''personal'', sm_count = Some (wc_count c), sm_status = ''personal'', sm_owner = True, sm_can_share = True, sm_shared = None\<rparr>)"

definition update_web_conversation ::
  "instant \<Rightarrow> user_id \<Rightarrow> string \<Rightarrow> string option \<Rightarrow> string option \<Rightarrow> conv_state \<Rightarrow> (conv_error + conversation_summary) \<times> conv_state" where
  "update_web_conversation now u cid title model st =
     (case upsert_web_conversation now u cid (case title of None \<Rightarrow> [] | Some t \<Rightarrow> t) (case model of None \<Rightarrow> [] | Some m \<Rightarrow> m) st of
        (Inl e, st1) \<Rightarrow> (Inl e, st1) | (Inr _, st1) \<Rightarrow> (web_conversation_summary u cid st1, st1))"

definition patch_conversation ::
  "instant \<Rightarrow> user_id \<Rightarrow> string \<Rightarrow> string option \<Rightarrow> string option \<Rightarrow> conv_state \<Rightarrow> (conv_error + conversation_summary) \<times> conv_state" where
  "patch_conversation now u raw title model st =
     (case parse_conversation_id raw of Inl e \<Rightarrow> (Inl e, st) | Inr cid \<Rightarrow> update_web_conversation now u cid title model st)"

definition create_web_conversation :: "instant \<Rightarrow> string \<Rightarrow> user_id \<Rightarrow> string \<Rightarrow> string \<Rightarrow> conv_state \<Rightarrow> (conv_error + conversation_summary) \<times> conv_state" where
  "create_web_conversation now new_id u title model st =
     (case upsert_web_conversation now u new_id title model st of
        (Inl e, st1) \<Rightarrow> (Inl CvUncaught, st1)
      | (Inr _, st1) \<Rightarrow> (Inr \<lparr>sm_id = new_id, sm_title = or_default title ''Chat'', sm_summary = [], sm_at = now, sm_scope = ''personal'', sm_count = Some 0,
            sm_status = ''personal'', sm_owner = True, sm_can_share = True, sm_shared = None\<rparr>, st1))"

definition derive_share_fields :: "shared_row \<Rightarrow> user_id \<Rightarrow> bool \<Rightarrow> string \<times> bool" where
  "derive_share_fields r caller has_shared =
     (if or_default (sr_scope r) ''personal'' \<in> {''shared'', ''system''} then (''shared'', sr_user r = caller)
      else if has_shared then (''shared'', True) else (''personal'', True))"

text \<open>Failing, the query of the sources answers with none.\<close>

definition fetch_shared_session_ids :: "bool \<Rightarrow> user_id \<Rightarrow> share_state \<Rightarrow> json list" where
  "fetch_shared_session_ids ok u st =
     (if \<not> ok then []
      else concat (map (\<lambda>r. case sr_from r of Some s \<Rightarrow> [s] | None \<Rightarrow> []) (filter (\<lambda>r. sr_user r = u \<and> sr_scope r = ''shared'') (ss_rows st RSessions))))"

definition instant_of :: "json \<Rightarrow> instant" where
  "instant_of v = (case v of JInt i \<Rightarrow> i | _ \<Rightarrow> 0)"

definition row_to_summary :: "shared_row \<Rightarrow> web_conversation option \<Rightarrow> user_id \<Rightarrow> bool \<Rightarrow> conversation_summary" where
  "row_to_summary r wc caller has_shared =
     (let text = str_of (col (sr_data r) ''summary'');
          title = (case wc of Some c \<Rightarrow> if wc_title c \<noteq> [] then py_strip (wc_title c) else title_from_summary text | None \<Rightarrow> title_from_summary text);
          share = derive_share_fields r caller has_shared
      in \<lparr>sm_id = pk_text (sr_pk r), sm_title = or_default title ''Chat'', sm_summary = text, sm_at = instant_of (col (sr_data r) ''updated_at''),
           sm_scope = or_default (sr_scope r) ''personal'', sm_count = map_option wc_count wc, sm_status = fst share, sm_owner = snd share, sm_can_share = True, sm_shared = None\<rparr>)"

definition visible_session :: "user_flags \<Rightarrow> user_context \<Rightarrow> string option \<Rightarrow> shared_row \<Rightarrow> bool" where
  "visible_session us ctx sf r = may_read us ctx sf [''scope'' \<mapsto> JStr (sr_scope r), ''user_id'' \<mapsto> JStr (sr_user r)]"

definition header_of :: "conv_state \<Rightarrow> shared_row \<Rightarrow> web_conversation option" where
  "header_of st r = find (\<lambda>c. JStr (wc_id c) = sr_pk r \<and> wc_user c = sr_user r) (cv_convs st)"

text \<open>The caller's own projections are left out: their sources are listed.\<close>

definition list_conversations ::
  "user_flags \<Rightarrow> bool \<Rightarrow> bool \<Rightarrow> user_context \<Rightarrow> nat \<Rightarrow> string option \<Rightarrow> conv_state \<Rightarrow> (scope_error + conversation_summary list)" where
  "list_conversations us ids_ok rows_ok ctx limit sf0 st =
     (case validate_scope_filter sf0 of
        Inl e \<Rightarrow> Inl e
      | Inr sf \<Rightarrow>
          let me = uc_user ctx; ids = fetch_shared_session_ids ids_ok me (cv_share st);
              rows = filter (\<lambda>r. visible_session us ctx sf r \<and> \<not> (sr_from r \<noteq> None \<and> sr_user r = me)) (ss_rows (cv_share st) RSessions)
          in Inr (if \<not> rows_ok then []
               else map (\<lambda>r. row_to_summary r (header_of st r) me (sr_pk r \<in> set ids))
                 (take limit (sort_key (\<lambda>r. - instant_of (col (sr_data r) ''updated_at'')) rows))))"

record conversation_detail =
  dt_head :: conversation_summary
  dt_topics :: "json list"
  dt_entities :: "json list"
  dt_messages :: "web_message list"

definition messages_for :: "user_id \<Rightarrow> string \<Rightarrow> conv_state \<Rightarrow> conv_error + web_message list" where
  "messages_for u cid st =
     (let ms = map message_reply (sort_key wm_at (filter (\<lambda>m. wm_conv m = cid \<and> wm_user m = u) (cv_msgs st)))
      in if list_all (\<lambda>m. case m of Inr _ \<Rightarrow> True | Inl _ \<Rightarrow> False) ms
         then Inr (concat (map (\<lambda>m. case m of Inr x \<Rightarrow> [x] | Inl _ \<Rightarrow> []) ms)) else Inl CvUncaught)"

text \<open>A conversation without a session row is found by its header alone and cannot be shared.\<close>

definition get_conversation :: "user_flags \<Rightarrow> user_context \<Rightarrow> string \<Rightarrow> conv_state \<Rightarrow> conv_error + conversation_detail" where
  "get_conversation us ctx cid st =
     (let me = uc_user ctx; share = cv_share st;
          found = (case find (\<lambda>r. sr_pk r = JStr cid \<and> visible_session us ctx None r) (ss_rows share RSessions) of
              Some r \<Rightarrow>
                Some (r, header_of st r, (case find (projected_at (sr_pk r) ''shared'') (ss_rows share RSessions) of None \<Rightarrow> JNull | Some p \<Rightarrow> col (sr_data p) ''summary''), True)
            | None \<Rightarrow> (case find (\<lambda>c. wc_id c = cid \<and> wc_user c = me) (cv_convs st) of
                None \<Rightarrow> None
              | Some c \<Rightarrow> Some (\<lparr>sr_pk = JStr (wc_id c), sr_user = me, sr_scope = or_default (wc_scope c) ''personal'', sr_from = None,
                    sr_data = [(''summary'', JStr []), (''topics'', JList []), (''entities'', JList []), (''updated_at'', JInt (wc_at c))]\<rparr>, Some c, JNull, False)))
      in case found of
           None \<Rightarrow> Inl (CvHttp 404 ''conversation_not_found'')
         | Some (r, wc, proj, backed) \<Rightarrow> (case messages_for me cid st of
             Inl e \<Rightarrow> Inl e
           | Inr ms \<Rightarrow>
               let s = row_to_summary r wc me (proj \<noteq> JNull);
                   shared = (if sm_status s \<noteq> ''shared'' then None
                     else (case (if sr_from r \<noteq> None then col (sr_data r) ''summary'' else proj) of JStr t \<Rightarrow> Some t | _ \<Rightarrow> None))
               in Inr \<lparr>dt_head = s\<lparr>sm_can_share := backed \<and> sm_owner s, sm_shared := shared\<rparr>, dt_topics = items_of (or_else (col (sr_data r) ''topics'') (JList [])),
                    dt_entities = items_of (or_else (col (sr_data r) ''entities'') (JList [])), dt_messages = ms\<rparr>))"

text \<open>What a continued chat starts with: the transcript, or a message holding the summary.\<close>

definition build_continue_seed :: "conversation_detail \<Rightarrow> (string \<times> utext) list" where
  "build_continue_seed d =
     (let ms = filter (\<lambda>m. wm_role m \<in> {''user'', ''assistant'', ''system''}) (dt_messages d) in
      if ms \<noteq> [] \<and> list_ex (\<lambda>m. wm_role m = ''user'') ms then map (\<lambda>m. (wm_role m, cps (wm_content m))) ms
      else
        let topics = (if dt_topics d = [] then ''(none)'' else join '', '' (map str_of (dt_topics d)));
            text = truncate_text (cps (take 4000 (sm_summary (dt_head d)))) 1024
        in [(''user'', cps ''[Prior conversation context]'' @ [10] @ cps ''Summary: '' @ text @ [10] @ cps (''Topics: '' @ topics))])"

subsection \<open>The end of a session\<close>

record session_summary =
  se_id :: string
  se_summary :: string
  se_topics :: "json list"
  se_entities :: "json list"

text \<open>The point, then the row; \<open>False\<close> is an exception. A failing row is logged.\<close>

definition upsert_session :: "instant \<Rightarrow> user_id \<Rightarrow> session_summary \<Rightarrow> json list \<Rightarrow> share_state \<Rightarrow> share_state" where
  "upsert_session now u s ids st =
     (let d = [(''summary'', JStr (se_summary s)), (''topics'', JList (se_topics s)), (''entities'', JList (se_entities s)), (''entity_ids'', JList ids)];
          rows = ss_rows st RSessions
      in if JStr (se_id s) \<in> sr_pk ` set rows
         then set_rows RSessions (update_where (\<lambda>r. sr_pk r = JStr (se_id s))
                (\<lambda>r. r\<lparr>sr_data := excluded [''summary'', ''topics'', ''entities'', ''entity_ids'', ''updated_at''] (d @ [(''updated_at'', JInt now)]) (sr_data r)\<rparr>) rows) st
         else set_rows RSessions (rows @ [\<lparr>sr_pk = JStr (se_id s), sr_user = u, sr_scope = ''personal'', sr_from = None,
                sr_data = d @ [(''created_at'', JInt now), (''updated_at'', JInt now)]\<rparr>]) st)"

definition write_session :: "share_env \<Rightarrow> conv_faults \<Rightarrow> instant \<Rightarrow> user_id \<Rightarrow> session_summary \<Rightarrow> json list \<Rightarrow> conv_state \<Rightarrow> bool \<times> conv_state" where
  "write_session env fl now u s ids st =
     (if \<not> cf_upsert fl then (False, st)
      else
        let payload = [(''session_id'', JStr (se_id s)), (''summary'', JStr (se_summary s)), (''topics'', JList (se_topics s)), (''entities'', JList (se_entities s)),
              (''user_id'', JStr u), (''scope'', JStr ''personal'')];
            sh1 = put_point ''conversations'' (session_conversation_point_id env u (se_id s)) payload (cv_share st)
        in (True, st\<lparr>cv_share := (if cf_store fl then upsert_session now u s ids sh1 else sh1)\<rparr>))"

text \<open>\<open>gap\<close> is what others do between the check and the write, while the summary is embedded.\<close>

definition store_session ::
  "share_env \<Rightarrow> conv_faults \<Rightarrow> instant \<Rightarrow> (conv_state \<Rightarrow> conv_state) \<Rightarrow> user_id \<Rightarrow> session_summary \<Rightarrow> json list \<Rightarrow> conv_state \<Rightarrow> bool \<times> conv_state" where
  "store_session env fl now gap u s ids st = (if is_conversation_purged u (se_id s) st then (True, st) else write_session env fl now u s ids (gap st))"

text \<open>
  The job: \<open>work\<close> is what the model makes of the messages (\<open>None\<close> an exception), \<open>mid\<close> what happens
  meanwhile, the entities stored included.
\<close>

definition handle_session_end ::
  "share_env \<Rightarrow> conv_faults \<Rightarrow> instant \<Rightarrow> (conv_state \<Rightarrow> conv_state) \<Rightarrow> (conv_state \<Rightarrow> conv_state) \<Rightarrow> user_id \<Rightarrow> string \<Rightarrow> (session_summary \<times> json list) option \<Rightarrow> conv_state \<Rightarrow> bool \<times> conv_state" where
  "handle_session_end env fl now mid gap u sid work st =
     (if is_conversation_purged u sid st then (True, st)
      else case work of
        None \<Rightarrow> (False, mid st)
      | Some (s, ids) \<Rightarrow> (case store_session env fl now gap u (s\<lparr>se_id := sid\<rparr>) ids (mid st) of
          (ok, st1) \<Rightarrow> (ok, if ok then st1\<lparr>cv_ended := cv_ended st1 @ [(u, sid)]\<rparr> else st1)))"

definition session_end_route :: "handlers \<Rightarrow> instant \<Rightarrow> user_id \<Rightarrow> string \<Rightarrow> json list \<Rightarrow> conv_state \<Rightarrow> (conv_error + string) \<times> conv_state" where
  "session_end_route hs now u raw messages st =
     (case uuid_text raw of
        None \<Rightarrow> (Inl (CvHttp 422 ''invalid_session_id''), st)
      | Some sid \<Rightarrow>
          if \<not> uuid_version_4 raw then (Inl (CvHttp 422 ''invalid_session_id''), st)
          else (case enqueue hs now u ''session_end'' [(''session_id'', JStr sid), (''messages'', JList messages)] None (cv_batch st) of
            (Inl (PayloadInvalid _), b) \<Rightarrow> (Inl (CvHttp 422 ''validation''), st\<lparr>cv_batch := b\<rparr>)
          | (Inl _, b) \<Rightarrow> (Inl CvUncaught, st\<lparr>cv_batch := b\<rparr>)
          | (Inr _, b) \<Rightarrow> (Inr sid, st\<lparr>cv_batch := b\<rparr>)))"

end
