(* ===== verification/ConversationLife.thy ===== *)
theory ConversationLife
  imports Conversations
begin

section \<open>What becomes of a deleted conversation\<close>

text \<open>
  Lemmas on the operations of \<open>Conversations\<close>: what each leaves alone, what a complete deletion
  leaves behind, and a machine of requests, jobs and sweeps in which a purged conversation stays
  purged.
\<close>

subsection \<open>What the arms do\<close>

lemma retry_from_keeps:
  assumes "\<And>j t. P t \<Longrightarrow> P (snd (f j t))" and "P s" shows "P (snd (retry_from k n label f s))"
  using assms(2)
proof (induction n arbitrary: k s)
  case (Suc n)
  obtain e s1 where e: "f k s = (e, s1)" by (cases "f k s")
  have s1: "P s1" using assms(1) [OF Suc.prems, of k] e by simp
  show ?case
  proof (cases e)
    case None
    then show ?thesis using s1 e by simp
  next
    case (Some m)
    obtain r s2 where r: "retry_from (Suc k) n label f s1 = (r, s2)" by (cases "retry_from (Suc k) n label f s1")
    have "P s2" using Suc.IH [OF s1, of "Suc k"] r by simp
    then show ?thesis using Some e r by (cases r) simp
  qed
qed simp

lemma retry_from_ok:
  assumes "retry_from k n label f s = ((True, errs), s')" shows "\<exists>j t. f j t = (None, s')"
  using assms
proof (induction n arbitrary: k s errs)
  case (Suc n)
  then show ?case by (cases "f k s") (auto split: option.splits prod.splits)
qed simp

lemma delete_points_frame:
  "ss_rows (snd (delete_points c err ps st)) = ss_rows st"
  "set (ss_points (snd (delete_points c err ps st)) c') \<subseteq> set (ss_points st c')"
proof -
  show "ss_rows (snd (delete_points c err ps st)) = ss_rows st" for st
    by (induction ps arbitrary: st) (simp_all split: option.split)
  show "set (ss_points (snd (delete_points c err ps st)) c') \<subseteq> set (ss_points st c')" for st
  proof (induction ps arbitrary: st)
    case (Cons p ps)
    show ?case
    proof (cases "err p")
      case None
      have "set (ss_points (drop_points c (\<lambda>x. fst x = p) st) c') \<subseteq> set (ss_points st c')" by (auto simp: set_drop_points)
      with Cons.IH [of "drop_points c (\<lambda>x. fst x = p) st"] None show ?thesis by simp
    qed simp
  qed simp
qed

lemma delete_points_ok:
  assumes "delete_points c err ps st = (None, st')" and "p \<in> set ps" shows "p \<notin> fst ` set (ss_points st' c)"
  using assms
proof (induction ps arbitrary: st)
  case (Cons q ps)
  then have d: "delete_points c err ps (drop_points c (\<lambda>x. fst x = q) st) = (None, st')" by (simp split: option.splits)
  show ?case
  proof (cases "p \<in> set ps")
    case True
    then show ?thesis using Cons.IH d by blast
  next
    case False
    with Cons.prems(2) have "p = q" by simp
    moreover have "set (ss_points st' c) \<subseteq> set (ss_points (drop_points c (\<lambda>x. fst x = q) st) c)"
      using delete_points_frame(2) [of c err ps "drop_points c (\<lambda>x. fst x = q) st" c] d by simp
    moreover have "q \<notin> fst ` set (ss_points (drop_points c (\<lambda>x. fst x = q) st) c)" by (auto simp: set_drop_points)
    ultimately show ?thesis by blast
  qed
qed simp

text \<open>An arm touches its own store only, and there it only removes.\<close>

definition store_only :: "conv_state \<Rightarrow> conv_state \<Rightarrow> bool" where
  "store_only st st' \<longleftrightarrow> cv_convs st' = cv_convs st \<and> cv_msgs st' = cv_msgs st \<and> cv_tombs st' = cv_tombs st \<and> cv_batch st' = cv_batch st \<and>
     ss_rows (cv_share st') = ss_rows (cv_share st) \<and> set (ss_points (cv_share st') ''conversations'') \<subseteq> set (ss_points (cv_share st) ''conversations'') \<and>
     set (cv_graph st') \<subseteq> set (cv_graph st) \<and> set (cv_graph_shared st') \<subseteq> set (cv_graph_shared st)"

lemma store_only_refl [simp]: "store_only st st"
  by (simp add: store_only_def)

lemma store_only_trans: "store_only a b \<Longrightarrow> store_only b c \<Longrightarrow> store_only a c"
  by (auto simp: store_only_def)

lemma points_attempt_frame: "store_only st (snd (points_attempt env fl u sid k st))"
  using delete_points_frame [of "''conversations''" "cf_point fl k" "session_points env u sid" "cv_share st"]
  by (cases "delete_points ''conversations'' (cf_point fl k) (session_points env u sid) (cv_share st)") (simp add: points_attempt_def store_only_def)

lemma graph_attempt_frame: "store_only st (snd (graph_attempt g u sid k st))"
  by (auto simp: graph_attempt_def store_only_def Let_def split: option.split)

lemma arm_frame:
  "store_only (snd acc) (snd (points_arm env fl label u sid acc))"
  "store_only (snd acc) (snd (graph_arm fl label u sid acc))"
proof -
  have p: "store_only st (snd (retry_store_arm label (points_attempt env fl u sid) st))" for st
    unfolding retry_store_arm_def by (rule retry_from_keeps) (rule store_only_trans [OF _ points_attempt_frame], assumption, simp)
  have g: "store_only st (snd (retry_store_arm label (graph_attempt g u sid) st))" for st g
    unfolding retry_store_arm_def by (rule retry_from_keeps) (rule store_only_trans [OF _ graph_attempt_frame], assumption, simp)
  show "store_only (snd acc) (snd (points_arm env fl label u sid acc))"
    using p [of "snd acc"] by (cases acc; cases "retry_store_arm label (points_attempt env fl u sid) (snd acc)") (auto simp: points_arm_def split: prod.split)
  show "store_only (snd acc) (snd (graph_arm fl label u sid acc))"
  proof (cases "cf_graph fl")
    case None
    then show ?thesis by (cases acc) (simp add: graph_arm_def)
  next
    case (Some h)
    then show ?thesis
      using g [of "snd acc" h] by (cases acc; cases "retry_store_arm label (graph_attempt h u sid) (snd acc)") (auto simp: graph_arm_def split: prod.split)
  qed
qed

lemma points_arm_result:
  "pg_rows (fst (points_arm env fl label u sid acc)) = pg_rows (fst acc)"
  "pg_graph (fst (points_arm env fl label u sid acc)) = pg_graph (fst acc)"
  "pg_entities (fst (points_arm env fl label u sid acc)) = pg_entities (fst acc)"
  "pg_points (fst (points_arm env fl label u sid acc)) \<Longrightarrow> p \<in> set (session_points env u sid) \<Longrightarrow>
     p \<notin> fst ` set (ss_points (cv_share (snd (points_arm env fl label u sid acc))) ''conversations'')"
proof -
  obtain r st where acc: "acc = (r, st)" by (cases acc)
  obtain ok errs st1 where x: "retry_store_arm label (points_attempt env fl u sid) st = ((ok, errs), st1)"
    by (metis prod.exhaust)
  have arm: "points_arm env fl label u sid acc = (r\<lparr>pg_points := ok, pg_errors := pg_errors r @ errs\<rparr>, st1)" by (simp add: points_arm_def acc x)
  show "pg_rows (fst (points_arm env fl label u sid acc)) = pg_rows (fst acc)"
    "pg_graph (fst (points_arm env fl label u sid acc)) = pg_graph (fst acc)"
    "pg_entities (fst (points_arm env fl label u sid acc)) = pg_entities (fst acc)" unfolding arm by (simp_all add: acc)
  assume "pg_points (fst (points_arm env fl label u sid acc))" and p: "p \<in> set (session_points env u sid)"
  then have "retry_from 0 3 label (points_attempt env fl u sid) st = ((True, errs), st1)" using x by (simp add: arm retry_store_arm_def)
  from retry_from_ok [OF this] obtain j t where "points_attempt env fl u sid j t = (None, st1)" by blast
  then obtain s where "delete_points ''conversations'' (cf_point fl j) (session_points env u sid) (cv_share t) = (None, s)" "cv_share st1 = s"
    by (auto simp: points_attempt_def split: prod.splits)
  with delete_points_ok [OF _ p] show "p \<notin> fst ` set (ss_points (cv_share (snd (points_arm env fl label u sid acc))) ''conversations'')"
    by (simp add: arm)
qed

lemma graph_arm_result:
  "pg_rows (fst (graph_arm fl label u sid acc)) = pg_rows (fst acc)"
  "pg_points (fst (graph_arm fl label u sid acc)) = pg_points (fst acc)"
  "pg_entities (fst (graph_arm fl label u sid acc)) = pg_entities (fst acc)"
  "pg_graph (fst (graph_arm fl label u sid acc)) \<Longrightarrow> cf_graph fl = Some g \<Longrightarrow>
     (u, sid) \<notin> set (cv_graph (snd (graph_arm fl label u sid acc))) \<and> sid \<notin> set (cv_graph_shared (snd (graph_arm fl label u sid acc)))"
proof -
  obtain r st where acc: "acc = (r, st)" by (cases acc)
  have arm: "\<exists>ok errs st1. graph_arm fl label u sid acc = (r\<lparr>pg_graph := ok, pg_errors := pg_errors r @ errs\<rparr>, st1) \<and>
      (cf_graph fl = Some g \<longrightarrow> retry_from 0 3 label (graph_attempt g u sid) st = ((ok, errs), st1))" for g
  proof (cases "cf_graph fl")
    case None
    then have "graph_arm fl label u sid acc = (r\<lparr>pg_graph := True, pg_errors := pg_errors r @ []\<rparr>, st)" by (simp add: graph_arm_def acc)
    with None show ?thesis by (intro exI [of _ True] exI [of _ "[]"] exI [of _ st]) simp
  next
    case (Some h)
    obtain ok errs st1 where "retry_from 0 3 label (graph_attempt h u sid) st = ((ok, errs), st1)" by (metis prod.exhaust)
    with Some show ?thesis by (auto simp: graph_arm_def acc retry_store_arm_def)
  qed
  show "pg_rows (fst (graph_arm fl label u sid acc)) = pg_rows (fst acc)" "pg_points (fst (graph_arm fl label u sid acc)) = pg_points (fst acc)"
    "pg_entities (fst (graph_arm fl label u sid acc)) = pg_entities (fst acc)" using arm acc by fastforce+
  assume ok: "pg_graph (fst (graph_arm fl label u sid acc))" and g: "cf_graph fl = Some g"
  then obtain errs st1 where st1: "snd (graph_arm fl label u sid acc) = st1" and "retry_from 0 3 label (graph_attempt g u sid) st = ((True, errs), st1)"
    using arm [of g] by fastforce
  from retry_from_ok [OF this(2)] obtain j t where "graph_attempt g u sid j t = (None, st1)" by blast
  then show "(u, sid) \<notin> set (cv_graph (snd (graph_arm fl label u sid acc))) \<and> sid \<notin> set (cv_graph_shared (snd (graph_arm fl label u sid acc)))"
    unfolding st1 by (auto simp: graph_attempt_def Let_def split: option.splits)
qed

subsection \<open>What a complete deletion leaves\<close>

definition rows_step :: "instant \<Rightarrow> user_id \<Rightarrow> string \<Rightarrow> conv_state \<Rightarrow> conv_state" where
  "rows_step now u sid st =
     (let st1 = (if own_session u sid st then (delete_web u sid (insert_tomb now u sid st))\<lparr>cv_share := delete_sessions u sid (cv_share st)\<rparr> else delete_web u sid st)
      in st1\<lparr>cv_batch := (cv_batch st1)\<lparr>bs_jobs := snd (cancel_pending_session_end_jobs now u sid (bs_jobs (cv_batch st1)))\<rparr>\<rparr>)"

definition arms_step :: "share_env \<Rightarrow> conv_faults \<Rightarrow> instant \<Rightarrow> user_id \<Rightarrow> string \<Rightarrow> conv_state \<Rightarrow> purge_result \<times> conv_state" where
  "arms_step env fl now u sid st = graph_arm fl ''graph'' u sid (points_arm env fl ''qdrant'' u sid (fresh_result\<lparr>pg_entities := True, pg_rows := True\<rparr>, rows_step now u sid st))"

lemma purge_unfold:
  "purge_session_memory env fl now u sid st =
     (if \<not> own_session u sid st \<and> \<not> is_conversation_purged u sid st then (fresh_result\<lparr>pg_entities := True\<rparr>, st)
      else case cf_rows fl of
        Some e \<Rightarrow> (fresh_result\<lparr>pg_entities := True, pg_errors := [''postgres: '' @ e]\<rparr>, st)
      | None \<Rightarrow> (fst (arms_step env fl now u sid st),
          if cf_tomb fl then tombstone_update now u sid (fst (arms_step env fl now u sid st)) (snd (arms_step env fl now u sid st))
          else snd (arms_step env fl now u sid st)))"
  by (auto simp: purge_session_memory_def Let_def delete_conversation_rows_def delete_web_rows_def arms_step_def rows_step_def split: option.split prod.split)

lemma arms_step_facts:
  shows "store_only (rows_step now u sid st) (snd (arms_step env fl now u sid st))"
    and "pg_rows (fst (arms_step env fl now u sid st))" and "pg_entities (fst (arms_step env fl now u sid st))"
    and "pg_points (fst (arms_step env fl now u sid st)) \<Longrightarrow> p \<in> set (session_points env u sid) \<Longrightarrow>
      p \<notin> fst ` set (ss_points (cv_share (snd (arms_step env fl now u sid st))) ''conversations'')"
    and "pg_graph (fst (arms_step env fl now u sid st)) \<Longrightarrow> cf_graph fl \<noteq> None \<Longrightarrow>
      (u, sid) \<notin> set (cv_graph (snd (arms_step env fl now u sid st))) \<and> sid \<notin> set (cv_graph_shared (snd (arms_step env fl now u sid st)))"
proof -
  let ?acc = "points_arm env fl ''qdrant'' u sid (fresh_result\<lparr>pg_entities := True, pg_rows := True\<rparr>, rows_step now u sid st)"
  have a: "arms_step env fl now u sid st = graph_arm fl ''graph'' u sid ?acc" by (simp add: arms_step_def)
  have p1: "store_only (rows_step now u sid st) (snd ?acc)" using arm_frame(1) [of "(fresh_result\<lparr>pg_entities := True, pg_rows := True\<rparr>, rows_step now u sid st)"] by simp
  show "store_only (rows_step now u sid st) (snd (arms_step env fl now u sid st))" unfolding a by (rule store_only_trans [OF p1 arm_frame(2)])
  show "pg_rows (fst (arms_step env fl now u sid st))" "pg_entities (fst (arms_step env fl now u sid st))"
    unfolding a graph_arm_result(1,3) points_arm_result(1,3) by simp_all
  show "p \<notin> fst ` set (ss_points (cv_share (snd (arms_step env fl now u sid st))) ''conversations'')"
    if "pg_points (fst (arms_step env fl now u sid st))" and p: "p \<in> set (session_points env u sid)"
  proof -
    have "pg_points (fst ?acc)" using that(1) unfolding a graph_arm_result(2) .
    then have "p \<notin> fst ` set (ss_points (cv_share (snd ?acc)) ''conversations'')" using p by (rule points_arm_result(4))
    then show ?thesis using arm_frame(2) [of ?acc fl "''graph''" u sid] unfolding a store_only_def by blast
  qed
  show "(u, sid) \<notin> set (cv_graph (snd (arms_step env fl now u sid st))) \<and> sid \<notin> set (cv_graph_shared (snd (arms_step env fl now u sid st)))"
    if "pg_graph (fst (arms_step env fl now u sid st))" and "cf_graph fl \<noteq> None"
    using that graph_arm_result(4) unfolding a by blast
qed

text \<open>The session rows that hold something of a conversation: its own one, and what was published of it.\<close>

definition session_rows :: "user_id \<Rightarrow> string \<Rightarrow> share_state \<Rightarrow> shared_row list" where
  "session_rows u sid sh =
     filter (\<lambda>r. sr_user r = u \<and> (sr_pk r = JStr sid \<and> sr_scope r = ''personal'' \<or> sr_from r = Some (JStr sid))) (ss_rows sh RSessions)"

definition published_rows :: "string \<Rightarrow> share_state \<Rightarrow> shared_row list" where
  "published_rows sid sh = filter (\<lambda>r. sr_from r = Some (JStr sid)) (ss_rows sh RSessions)"

definition web_gone :: "user_id \<Rightarrow> string \<Rightarrow> conv_state \<Rightarrow> bool" where
  "web_gone u sid st \<longleftrightarrow> \<not> own_conversation u sid st \<and> list_all (\<lambda>m. \<not> (wm_conv m = sid \<and> wm_user m = u)) (cv_msgs st)"

definition conversation_gone :: "user_id \<Rightarrow> string \<Rightarrow> conv_state \<Rightarrow> bool" where
  "conversation_gone u sid st \<longleftrightarrow> web_gone u sid st \<and> session_rows u sid (cv_share st) = []"

lemma session_rows_iff:
  "session_rows u sid sh \<noteq> [] \<longleftrightarrow> (\<exists>k sc f. (k, u, sc, f) \<in> row_keys sh RSessions \<and> (k = JStr sid \<and> sc = ''personal'' \<or> f = Some (JStr sid)))"
  by (auto simp: session_rows_def filter_empty_conv row_key_def)

lemma own_session_iff: "own_session u sid st \<longleftrightarrow> (\<exists>f. (JStr sid, u, ''personal'', f) \<in> row_keys (cv_share st) RSessions)"
proof
  assume "own_session u sid st"
  then obtain r where "personal_row (cv_share st) RSessions (JStr sid) u = Some r" by (auto simp: own_session_def)
  from found_row_source [OF this] show "\<exists>f. (JStr sid, u, ''personal'', f) \<in> row_keys (cv_share st) RSessions"
    unfolding is_source_def by (elim conjE) (simp only:)
next
  assume "\<exists>f. (JStr sid, u, ''personal'', f) \<in> row_keys (cv_share st) RSessions"
  then show "own_session u sid st" by (auto simp: own_session_def personal_row_def find_None_iff row_key_def)
qed

lemma own_session_has_row: "own_session u sid st \<Longrightarrow> session_rows u sid (cv_share st) \<noteq> []"
  unfolding own_session_iff session_rows_iff by blast

lemma gone_mono:
  assumes "conversation_gone u sid st" and "set (cv_convs st') \<subseteq> set (cv_convs st)" and "set (cv_msgs st') \<subseteq> set (cv_msgs st)"
    and "session_rows u sid (cv_share st') \<noteq> [] \<Longrightarrow> session_rows u sid (cv_share st) \<noteq> []"
  shows "conversation_gone u sid st'"
  using assms by (auto simp: conversation_gone_def web_gone_def own_conversation_def list_ex_iff list_all_iff)

lemma session_rows_subset:
  "set (ss_rows sh' RSessions) \<subseteq> set (ss_rows sh RSessions) \<Longrightarrow> session_rows u sid sh' \<noteq> [] \<Longrightarrow> session_rows u sid sh \<noteq> []"
  by (auto simp: session_rows_def filter_empty_conv)

lemma rows_step_fields:
  "cv_convs (rows_step now u sid st) = cv_convs (delete_web u sid st)" "cv_msgs (rows_step now u sid st) = cv_msgs (delete_web u sid st)"
  "cv_share (rows_step now u sid st) = (if own_session u sid st then delete_sessions u sid (cv_share st) else cv_share st)"
  by (simp_all add: rows_step_def Let_def delete_web_def insert_tomb_def own_conversation_def)

lemma delete_web_gone: "web_gone u sid (delete_web u sid st)"
  by (auto simp: web_gone_def delete_web_def own_conversation_def list_ex_iff list_all_iff)

lemma rows_step_web_gone: "web_gone u sid (rows_step now u sid st)"
  using delete_web_gone [of u sid st] by (simp add: web_gone_def own_conversation_def rows_step_fields)

lemma rows_step_unshared: "own_session u sid st \<Longrightarrow> published_rows sid (cv_share (rows_step now u sid st)) = []"
  by (auto simp: rows_step_fields published_rows_def delete_sessions_def filter_empty_conv)

lemma rows_step_no_session: "\<not> own_session u sid (rows_step now u sid st)"
proof (cases "own_session u sid st")
  case True
  then show ?thesis by (auto simp: own_session_def [of u sid "rows_step now u sid st"] rows_step_fields personal_row_def delete_sessions_def find_None_iff)
next
  case False
  then show ?thesis by (simp add: own_session_def [of u sid "rows_step now u sid st"] rows_step_fields) (simp add: own_session_def)
qed

lemma rows_step_gone:
  assumes "own_session u sid st" shows "conversation_gone u sid (rows_step now u sid st)"
  using rows_step_web_gone assms by (auto simp: conversation_gone_def rows_step_fields session_rows_def delete_sessions_def filter_empty_conv)

lemma store_only_gone: "store_only st st' \<Longrightarrow> conversation_gone u sid st \<Longrightarrow> conversation_gone u sid st'"
proof -
  assume s: "store_only st st'" and g: "conversation_gone u sid st"
  have e: "cv_convs st' = cv_convs st" "cv_msgs st' = cv_msgs st" "ss_rows (cv_share st') = ss_rows (cv_share st)" using s by (simp_all add: store_only_def)
  show "conversation_gone u sid st'" by (rule gone_mono [OF g]) (simp_all add: e session_rows_def)
qed

lemma cancelled_jobs: "j \<in> set (snd (cancel_pending_session_end_jobs now u sid jobs)) \<Longrightarrow> \<not> cancel_hit u sid j"
proof -
  assume "j \<in> set (snd (cancel_pending_session_end_jobs now u sid jobs))"
  then obtain i where "j = (if cancel_hit u sid i then i\<lparr>bj_status := JobDead, bj_finished := Some now,
      bj_error := Some (take 1000 ''cancelled: conversation purged''), bj_worker := None, bj_started := None\<rparr> else i)"
    unfolding cancel_pending_session_end_jobs_def update_where_def snd_conv set_map by (rule imageE)
  moreover have "\<not> cancel_hit u sid (i\<lparr>bj_status := JobDead, bj_finished := a, bj_error := b, bj_worker := c, bj_started := d\<rparr>)" for i a b c d
    by (simp add: cancel_hit_def)
  ultimately show ?thesis by (cases "cancel_hit u sid i") simp_all
qed

text \<open>
  C27. A deletion that the API answers as done and not partial has one of two outcomes. If the owner had
  a session row of the conversation, or had deleted it before, and the transaction did not fail, nothing of
  it is left: no header, message or session row of the owner, no row that was published from it (when
  the session row was still there), none of its three points, no node in the graph and no pending job that would
  write it again. Otherwise - the conversation has not been summarised yet, or the transaction failed -
  nothing at all has changed, although the answer is the same (the findings on \<open>memory_purge.py\<close>).
\<close>

theorem complete_deletion_leaves_nothing:
  assumes "delete_conversation_route env fl now u raw st = (Inr (True, cid, False), st')"
  shows "if cf_rows fl = None \<and> (own_session u cid st \<or> is_conversation_purged u cid st)
    then web_gone u cid st' \<and> \<not> own_session u cid st' \<and>
      (own_session u cid st \<longrightarrow> published_rows cid (cv_share st') = []) \<and>
      list_all (\<lambda>p. p \<notin> fst ` set (ss_points (cv_share st') ''conversations'')) (session_points env u cid) \<and>
      (cf_graph fl = None \<or> (u, cid) \<notin> set (cv_graph st') \<and> cid \<notin> set (cv_graph_shared st')) \<and>
      list_all (\<lambda>j. \<not> cancel_hit u cid j) (bs_jobs (cv_batch st'))
    else st' = st"
proof -
  let ?a = "arms_step env fl now u cid st" and ?r = "rows_step now u cid st"
  obtain r where p: "purge_session_memory env fl now u cid st = (r, st')" and np: "\<not> purge_partial r"
    using assms by (auto simp: delete_conversation_route_def delete_conversation_def split: sum.splits if_splits prod.splits)
  show ?thesis
  proof (cases "cf_rows fl = None \<and> (own_session u cid st \<or> is_conversation_purged u cid st)")
    case True
    then have r: "r = fst ?a" and st': "st' = (if cf_tomb fl then tombstone_update now u cid r (snd ?a) else snd ?a)"
      using p by (auto simp: purge_unfold split: if_splits)
    have ok: "pg_points (fst ?a)" "pg_graph (fst ?a)" using np arms_step_facts(2) by (simp_all add: purge_partial_def r split: if_splits)
    have same: "cv_share st' = cv_share (snd ?a)" "cv_graph st' = cv_graph (snd ?a)" "cv_graph_shared st' = cv_graph_shared (snd ?a)" "cv_batch st' = cv_batch (snd ?a)"
      "cv_convs st' = cv_convs (snd ?a)" "cv_msgs st' = cv_msgs (snd ?a)"
      by (simp_all add: st' tombstone_update_def)
    have rows: "cv_convs st' = cv_convs ?r" "cv_msgs st' = cv_msgs ?r" "ss_rows (cv_share st') = ss_rows (cv_share ?r)" "cv_batch st' = cv_batch ?r"
      using arms_step_facts(1) [of now u cid st env fl] by (simp_all add: same store_only_def)
    have "web_gone u cid st'" using rows_step_web_gone [of u cid now st] by (simp add: web_gone_def own_conversation_def rows)
    moreover have "\<not> own_session u cid st'" using rows_step_no_session [of u cid now st] by (simp add: own_session_def personal_row_def rows)
    moreover have "own_session u cid st \<longrightarrow> published_rows cid (cv_share st') = []"
      using rows_step_unshared [of u cid st now] by (simp add: published_rows_def rows)
    moreover have "\<forall>p \<in> set (session_points env u cid). p \<notin> fst ` set (ss_points (cv_share st') ''conversations'')"
      using arms_step_facts(4) [OF ok(1)] by (simp add: same(1))
    moreover have "cf_graph fl = None \<or> (u, cid) \<notin> set (cv_graph st') \<and> cid \<notin> set (cv_graph_shared st')"
      using arms_step_facts(5) [OF ok(2)] by (cases "cf_graph fl = None") (simp_all add: same)
    moreover have "\<forall>j \<in> set (bs_jobs (cv_batch st')). \<not> cancel_hit u cid j"
      using cancelled_jobs by (simp add: rows rows_step_def Let_def)
    ultimately show ?thesis using True by (simp add: list_all_iff)
  next
    case False
    then have "st' = st" using p by (auto simp: purge_unfold split: option.splits if_splits)
    with False show ?thesis by (simp only: if_False)
  qed
qed

subsection \<open>A purged conversation does not come back\<close>

definition point_gone :: "share_env \<Rightarrow> user_id \<Rightarrow> string \<Rightarrow> conv_state \<Rightarrow> bool" where
  "point_gone env u sid st \<longleftrightarrow> session_conversation_point_id env u sid \<notin> fst ` set (ss_points (cv_share st) ''conversations'')"

text \<open>The set \<open>B\<close> holds the conversations that are not spoken about.\<close>

definition purged_good :: "share_env \<Rightarrow> (user_id \<times> string) set \<Rightarrow> conv_state \<Rightarrow> bool" where
  "purged_good env B st \<longleftrightarrow> (\<forall>t \<in> set (cv_tombs st). length (tb_conv t) = 36 \<and> ((tb_user t, tb_conv t) \<notin> B \<longrightarrow>
     conversation_gone (tb_user t) (tb_conv t) st \<and> (tb_qdrant t \<longrightarrow> point_gone env (tb_user t) (tb_conv t) st)))"

text \<open>Everything but one conversation is left as it is, or loses something.\<close>

definition about :: "share_env \<Rightarrow> user_id \<Rightarrow> string \<Rightarrow> conv_state \<Rightarrow> conv_state \<Rightarrow> bool" where
  "about env u sid st st' \<longleftrightarrow> (\<forall>u' s'. length s' = 36 \<longrightarrow> (u', s') \<noteq> (u, sid) \<longrightarrow>
     (conversation_gone u' s' st \<longrightarrow> conversation_gone u' s' st') \<and> (point_gone env u' s' st \<longrightarrow> point_gone env u' s' st'))"

lemma aboutD:
  assumes "about env u sid st st'" and "length s' = 36" and "(u', s') \<noteq> (u, sid)"
  shows "conversation_gone u' s' st \<Longrightarrow> conversation_gone u' s' st'" and "point_gone env u' s' st \<Longrightarrow> point_gone env u' s' st'"
proof -
  note a = assms(1) [unfolded about_def, rule_format, OF assms(2,3)]
  show "conversation_gone u' s' st \<Longrightarrow> conversation_gone u' s' st'" by (rule a [THEN conjunct1, rule_format])
  show "point_gone env u' s' st \<Longrightarrow> point_gone env u' s' st'" by (rule a [THEN conjunct2, rule_format])
qed

lemma purged_goodD:
  assumes "purged_good env B st" and "t \<in> set (cv_tombs st)"
  shows "length (tb_conv t) = 36" and "(tb_user t, tb_conv t) \<notin> B \<Longrightarrow> conversation_gone (tb_user t) (tb_conv t) st"
    and "(tb_user t, tb_conv t) \<notin> B \<Longrightarrow> tb_qdrant t \<Longrightarrow> point_gone env (tb_user t) (tb_conv t) st"
  using assms by (auto simp: purged_good_def)

lemma write_elsewhere:
  assumes "purged_good env B st" and "about env u sid st st'" and "cv_tombs st' = cv_tombs st" and "is_conversation_purged u sid st \<Longrightarrow> (u, sid) \<in> B"
  shows "purged_good env B st'"
  unfolding purged_good_def assms(3)
proof
  fix t assume t: "t \<in> set (cv_tombs st)"
  note g = purged_goodD [OF assms(1) t]
  have "conversation_gone (tb_user t) (tb_conv t) st' \<and> (tb_qdrant t \<longrightarrow> point_gone env (tb_user t) (tb_conv t) st')" if B: "(tb_user t, tb_conv t) \<notin> B"
  proof -
    have key: "(tb_user t, tb_conv t) \<noteq> (u, sid)"
    proof
      assume k: "(tb_user t, tb_conv t) = (u, sid)"
      then have "is_conversation_purged u sid st" using t by (auto simp: is_conversation_purged_def list_ex_iff)
      from assms(4) [OF this] B show False unfolding k by blast
    qed
    show ?thesis using aboutD(1) [OF assms(2) g(1) key g(2) [OF B]] aboutD(2) [OF assms(2) g(1) key g(3) [OF B]] by blast
  qed
  with g(1) show "length (tb_conv t) = 36 \<and> ((tb_user t, tb_conv t) \<notin> B \<longrightarrow>
      conversation_gone (tb_user t) (tb_conv t) st' \<and> (tb_qdrant t \<longrightarrow> point_gone env (tb_user t) (tb_conv t) st'))" by blast
qed

text \<open>Nothing is added at all.\<close>

definition lessens :: "share_env \<Rightarrow> conv_state \<Rightarrow> conv_state \<Rightarrow> bool" where
  "lessens env st st' \<longleftrightarrow> (\<forall>u s. (conversation_gone u s st \<longrightarrow> conversation_gone u s st') \<and> (point_gone env u s st \<longrightarrow> point_gone env u s st'))"

lemma lessens_good:
  assumes "purged_good env B st" and "lessens env st st'" and "cv_tombs st' = cv_tombs st" shows "purged_good env B st'"
  using assms(1,2) unfolding purged_good_def assms(3) lessens_def by blast

lemma lessens_trans: "lessens env a b \<Longrightarrow> lessens env b c \<Longrightarrow> lessens env a c"
  by (simp add: lessens_def)

lemma store_only_lessens: "store_only st st' \<Longrightarrow> lessens env st st'"
proof -
  assume s: "store_only st st'"
  then have "set (ss_points (cv_share st') ''conversations'') \<subseteq> set (ss_points (cv_share st) ''conversations'')" by (simp add: store_only_def)
  then have "point_gone env u sid st \<longrightarrow> point_gone env u sid st'" for u sid unfolding point_gone_def by blast
  with store_only_gone [OF s] show ?thesis by (simp add: lessens_def)
qed

lemma batch_lessens: "lessens env st (st\<lparr>cv_batch := b\<rparr>)"
  by (simp add: lessens_def conversation_gone_def web_gone_def own_conversation_def point_gone_def)

lemma tombs_ignored:
  "conversation_gone u s (st\<lparr>cv_tombs := ts\<rparr>) = conversation_gone u s st" "point_gone env u s (st\<lparr>cv_tombs := ts\<rparr>) = point_gone env u s st"
  by (simp_all add: conversation_gone_def web_gone_def own_conversation_def point_gone_def)

lemma delete_web_lessens: "lessens env st (delete_web u sid st)"
  by (auto simp: lessens_def conversation_gone_def web_gone_def own_conversation_def point_gone_def delete_web_def list_ex_iff list_all_iff)

lemma delete_sessions_lessens: "lessens env st (st\<lparr>cv_share := delete_sessions u sid (cv_share st)\<rparr>)"
proof -
  have "conversation_gone v s (st\<lparr>cv_share := delete_sessions u sid (cv_share st)\<rparr>)" if "conversation_gone v s st" for v s
    by (rule gone_mono [OF that]) (simp, simp, rule session_rows_subset [of "cv_share (st\<lparr>cv_share := delete_sessions u sid (cv_share st)\<rparr>)"], auto simp: delete_sessions_def)
  then show ?thesis by (simp add: lessens_def point_gone_def delete_sessions_def)
qed

lemma rows_step_lessens: "lessens env st (rows_step now u sid st)"
proof -
  have t: "lessens env st (insert_tomb now u sid st)" by (simp add: lessens_def insert_tomb_def tombs_ignored)
  have "lessens env st ((delete_web u sid (insert_tomb now u sid st))\<lparr>cv_share := delete_sessions u sid (cv_share (delete_web u sid (insert_tomb now u sid st)))\<rparr>)"
    by (rule lessens_trans [OF lessens_trans [OF t delete_web_lessens] delete_sessions_lessens])
  moreover have "cv_share (delete_web u sid (insert_tomb now u sid st)) = cv_share st" by (simp add: delete_web_def insert_tomb_def)
  ultimately have "lessens env st (if own_session u sid st then (delete_web u sid (insert_tomb now u sid st))\<lparr>cv_share := delete_sessions u sid (cv_share st)\<rparr> else delete_web u sid st)"
    using delete_web_lessens by simp
  then show ?thesis unfolding rows_step_def Let_def by (rule lessens_trans [OF _ batch_lessens])
qed

lemma rows_step_tombs: "cv_tombs (rows_step now u sid st) = (if own_session u sid st then cv_tombs (insert_tomb now u sid st) else cv_tombs st)"
  by (simp add: rows_step_def Let_def delete_web_def)

lemma rows_step_good:
  assumes "purged_good env B st" and "length sid = 36" shows "purged_good env B (rows_step now u sid st)"
  unfolding purged_good_def
proof
  let ?st = "rows_step now u sid st"
  fix t assume "t \<in> set (cv_tombs ?st)"
  then consider "t \<in> set (cv_tombs st)" | "t = new_tomb now u sid" "own_session u sid st" by (auto simp: rows_step_tombs insert_tomb_def split: if_splits)
  then show "length (tb_conv t) = 36 \<and> ((tb_user t, tb_conv t) \<notin> B \<longrightarrow>
      conversation_gone (tb_user t) (tb_conv t) ?st \<and> (tb_qdrant t \<longrightarrow> point_gone env (tb_user t) (tb_conv t) ?st))"
  proof cases
    case 1
    then show ?thesis using purged_goodD [OF assms(1) 1] rows_step_lessens [of env st now u sid] unfolding lessens_def by blast
  next
    case 2
    then show ?thesis using assms(2) rows_step_gone by (simp add: new_tomb_def)
  qed
qed

text \<open>A tombstone may say that the points are gone once they are.\<close>

lemma marked_good:
  assumes "purged_good env B st" and "(u, sid) \<notin> B \<Longrightarrow> q \<Longrightarrow> point_gone env u sid st"
    and "\<And>t. tb_user (f t) = tb_user t \<and> tb_conv (f t) = tb_conv t \<and> tb_qdrant (f t) = q"
  shows "purged_good env B (st\<lparr>cv_tombs := update_where (\<lambda>t. tb_user t = u \<and> tb_conv t = sid) f (cv_tombs st)\<rparr>)"
proof -
  have "length (tb_conv t) = 36 \<and> ((tb_user t, tb_conv t) \<notin> B \<longrightarrow>
      conversation_gone (tb_user t) (tb_conv t) st \<and> (tb_qdrant t \<longrightarrow> point_gone env (tb_user t) (tb_conv t) st))"
    if t: "t \<in> set (update_where (\<lambda>t. tb_user t = u \<and> tb_conv t = sid) f (cv_tombs st))" for t
  proof -
    obtain x where x: "x \<in> set (cv_tombs st)" and tx: "t = (if tb_user x = u \<and> tb_conv x = sid then f x else x)"
      using t unfolding update_where_def set_map by (elim imageE)
    show ?thesis
    proof (cases "tb_user x = u \<and> tb_conv x = sid")
      case True
      then show ?thesis using purged_goodD(1,2) [OF assms(1) x] assms(2,3) tx by simp
    next
      case False
      then have "t = x" unfolding tx by (rule if_not_P)
      then show ?thesis using purged_goodD [OF assms(1) x] by blast
    qed
  qed
  then show ?thesis unfolding purged_good_def tombs_ignored by simp
qed

lemma purge_good:
  assumes "purged_good env B st" and "length sid = 36" shows "purged_good env B (snd (purge_session_memory env fl now u sid st))"
proof -
  let ?a = "arms_step env fl now u sid st"
  have s: "store_only (rows_step now u sid st) (snd ?a)" by (rule arms_step_facts(1))
  have a: "purged_good env B (snd ?a)"
    using s by (intro lessens_good [OF rows_step_good [OF assms] store_only_lessens]) (simp_all add: store_only_def)
  have "purged_good env B (tombstone_update now u sid (fst ?a) (snd ?a))"
    unfolding tombstone_update_def
  proof (rule marked_good [OF a, where q = "pg_points (fst ?a)"])
    show "point_gone env u sid (snd ?a)" if "pg_points (fst ?a)"
      unfolding point_gone_def by (rule arms_step_facts(4) [OF that]) (simp add: session_points_def)
  qed (simp add: mark_tomb_def)
  with a assms(1) show ?thesis by (simp add: purge_unfold split: option.split)
qed

lemma conv_delete_good:
  assumes "purged_good env B st" and "length sid = 36" shows "purged_good env B (snd (delete_conversation env fl now u sid st))"
  using purge_good [OF assms, of fl now u] assms(1) by (cases "purge_session_memory env fl now u sid st") (simp add: delete_conversation_def)

lemma aboutI:
  assumes "\<And>u' s'. (u', s') \<noteq> (u, sid) \<Longrightarrow> own_conversation u' s' st' \<Longrightarrow> own_conversation u' s' st"
    and "\<And>u' s'. (u', s') \<noteq> (u, sid) \<Longrightarrow> session_rows u' s' (cv_share st') \<noteq> [] \<Longrightarrow> session_rows u' s' (cv_share st) \<noteq> []"
    and "\<And>m. m \<in> set (cv_msgs st') \<Longrightarrow> m \<in> set (cv_msgs st) \<or> wm_user m = u \<and> wm_conv m = sid"
    and "\<And>u' s'. (u', s') \<noteq> (u, sid) \<Longrightarrow> length s' = 36 \<Longrightarrow> point_gone env u' s' st \<Longrightarrow> point_gone env u' s' st'"
  shows "about env u sid st st'"
  unfolding about_def
proof (intro allI impI conjI)
  fix u' s' assume k: "length s' = 36" "(u', s') \<noteq> (u, sid)"
  show "point_gone env u' s' st'" if "point_gone env u' s' st" by (rule assms(4) [OF k(2,1) that])
  show "conversation_gone u' s' st'" if g: "conversation_gone u' s' st"
  proof -
    have "\<not> (wm_conv m = s' \<and> wm_user m = u')" if m: "m \<in> set (cv_msgs st')" for m
      using assms(3) [OF m] g k(2) by (auto simp: conversation_gone_def web_gone_def list_all_iff)
    moreover have "session_rows u' s' (cv_share st') = []" using assms(2) [OF k(2)] g by (auto simp: conversation_gone_def)
    ultimately show ?thesis using assms(1) [OF k(2)] g by (simp add: conversation_gone_def web_gone_def list_all_iff) blast
  qed
qed

lemma own_conversation_keys: "own_conversation u s st \<longleftrightarrow> (s, u) \<in> set (map (\<lambda>c. (wc_id c, wc_user c)) (cv_convs st))"
  by (auto simp: own_conversation_def list_ex_iff)

lemma upsert_about:
  "about env u cid st (snd (upsert_web_conversation now u cid title model st))"
  "cv_tombs (snd (upsert_web_conversation now u cid title model st)) = cv_tombs st"
  "is_conversation_purged u cid st \<Longrightarrow> snd (upsert_web_conversation now u cid title model st) = st"
proof -
  have keys: "own_conversation u' s' (snd (upsert_web_conversation now u cid title model st)) \<Longrightarrow> own_conversation u' s' st" if "(u', s') \<noteq> (u, cid)" for u' s'
    using that by (auto simp: upsert_web_conversation_def own_conversation_def list_ex_iff update_where_def split: option.splits if_splits)
  have rest: "cv_share (snd (upsert_web_conversation now u cid title model st)) = cv_share st" "cv_msgs (snd (upsert_web_conversation now u cid title model st)) = cv_msgs st"
    by (simp_all add: upsert_web_conversation_def split: option.split)
  show "about env u cid st (snd (upsert_web_conversation now u cid title model st))"
    by (rule aboutI [OF keys]) (simp_all add: rest point_gone_def)
  show "cv_tombs (snd (upsert_web_conversation now u cid title model st)) = cv_tombs st" by (simp add: upsert_web_conversation_def split: option.split)
  show "is_conversation_purged u cid st \<Longrightarrow> snd (upsert_web_conversation now u cid title model st) = st" by (simp add: upsert_web_conversation_def)
qed

lemma append_about:
  "about env u cid st (snd (append_web_message now u cid b st))"
  "cv_tombs (snd (append_web_message now u cid b st)) = cv_tombs st"
  "is_conversation_purged u cid st \<Longrightarrow> snd (append_web_message now u cid b st) = st"
proof -
  let ?st = "snd (append_web_message now u cid b st)"
  define bump where "bump = (\<lambda>c :: web_conversation. c\<lparr>wc_count := wc_count c + 1, wc_at := now\<rparr>)"
  define new where "new = \<lparr>wm_id = mb_id b, wm_conv = cid, wm_user = u, wm_role = mb_role b, wm_content = mb_content b, wm_model = mb_model b,
      wm_refs = map_option JList (mb_refs b), wm_proposal = mb_proposal b, wm_at = now\<rparr>"
  have two: "?st = st \<or> ?st = st\<lparr>cv_msgs := cv_msgs st @ [new], cv_convs := update_where (\<lambda>c. wc_id c = cid) bump (cv_convs st)\<rparr>"
    by (auto simp: append_web_message_def Let_def new_def bump_def split: option.split)
  have same: "own_conversation u' s' ?st = own_conversation u' s' st" for u' s'
  proof -
    have "map (\<lambda>c. (wc_id c, wc_user c)) (update_where (\<lambda>c. wc_id c = cid) bump (cv_convs st)) = map (\<lambda>c. (wc_id c, wc_user c)) (cv_convs st)"
      by (simp add: map_key_update_where bump_def)
    then have "map (\<lambda>c. (wc_id c, wc_user c)) (cv_convs ?st) = map (\<lambda>c. (wc_id c, wc_user c)) (cv_convs st)" using two by auto
    then show ?thesis unfolding own_conversation_keys by simp
  qed
  show "about env u cid st ?st"
  proof (rule aboutI)
    show "m \<in> set (cv_msgs st) \<or> wm_user m = u \<and> wm_conv m = cid" if "m \<in> set (cv_msgs ?st)" for m using two that by (auto simp: new_def)
    show "session_rows u' s' (cv_share ?st) \<noteq> [] \<Longrightarrow> session_rows u' s' (cv_share st) \<noteq> []" for u' s' using two by auto
    show "point_gone env u' s' st \<Longrightarrow> point_gone env u' s' ?st" for u' s' using two by (auto simp: point_gone_def)
  qed (simp add: same)
  show "cv_tombs ?st = cv_tombs st" using two by auto
  show "is_conversation_purged u cid st \<Longrightarrow> ?st = st" by (simp add: append_web_message_def)
qed

lemma session_point_unique:
  assumes "inj (sh_uuid5 env)" and "length s = 36" and "length s' = 36"
    and "session_conversation_point_id env u s = session_conversation_point_id env u' s'"
  shows "(u, s) = (u', s')"
proof -
  have "''session::'' @ u @ ''::'' @ s = ''session::'' @ u' @ ''::'' @ s'" using assms(1,4) unfolding session_conversation_point_id_def by (rule injD)
  then have "(u @ ''::'') @ s = (u' @ ''::'') @ s'" by simp
  with assms(2,3) have "u @ ''::'' = u' @ ''::'' \<and> s = s'" by (subst (asm) append_eq_append_conv) simp_all
  then show ?thesis by simp
qed

lemma write_about:
  assumes "inj (sh_uuid5 env)" and "length (se_id s) = 36"
  shows "about env u (se_id s) st (snd (write_session env fl now u s ids st))"
    and "cv_tombs (snd (write_session env fl now u s ids st)) = cv_tombs st"
proof -
  let ?st = "snd (write_session env fl now u s ids st)"
  show "cv_tombs ?st = cv_tombs st" by (simp add: write_session_def Let_def)
  define payload where "payload = [(''session_id'', JStr (se_id s)), (''summary'', JStr (se_summary s)), (''topics'', JList (se_topics s)),
      (''entities'', JList (se_entities s)), (''user_id'', JStr u), (''scope'', JStr ''personal'')]"
  define sh1 where "sh1 = put_point ''conversations'' (session_conversation_point_id env u (se_id s)) payload (cv_share st)"
  have three: "?st = st \<or> ?st = st\<lparr>cv_share := sh1\<rparr> \<or> ?st = st\<lparr>cv_share := upsert_session now u s ids sh1\<rparr>"
    by (simp add: write_session_def Let_def sh1_def payload_def)
  have pts: "ss_points (upsert_session now u s ids sh) = ss_points sh" for sh by (simp add: upsert_session_def Let_def)
  have keys: "(k, u', sc, f) \<in> row_keys (upsert_session now u s ids sh1) RSessions \<Longrightarrow>
      (k, u', sc, f) \<in> row_keys (cv_share st) RSessions \<or> (k, u', f) = (JStr (se_id s), u, None)" for k u' sc f
  proof -
    have e: "ss_rows sh1 = ss_rows (cv_share st)" by (simp add: sh1_def)
    let ?up = "update_where (\<lambda>r. sr_pk r = JStr (se_id s)) (\<lambda>r. r\<lparr>sr_data := excluded [''summary'', ''topics'', ''entities'', ''entity_ids'', ''updated_at'']
        ([(''summary'', JStr (se_summary s)), (''topics'', JList (se_topics s)), (''entities'', JList (se_entities s)), (''entity_ids'', JList ids)] @ [(''updated_at'', JInt now)]) (sr_data r)\<rparr>)
        (ss_rows (cv_share st) RSessions)"
    have "map row_key ?up = map row_key (ss_rows (cv_share st) RSessions)" by (simp add: map_key_update_where row_key_def)
    from arg_cong [OF this, of set] have up: "row_key ` set ?up = row_keys (cv_share st) RSessions" by simp
    assume "(k, u', sc, f) \<in> row_keys (upsert_session now u s ids sh1) RSessions"
    then show ?thesis using up by (auto simp: upsert_session_def Let_def e row_key_def split: if_splits)
  qed
  show "about env u (se_id s) st ?st"
  proof (rule aboutI)
    show "own_conversation u' s' ?st \<Longrightarrow> own_conversation u' s' st" for u' s' using three by (auto simp: own_conversation_def)
    show "m \<in> set (cv_msgs ?st) \<Longrightarrow> m \<in> set (cv_msgs st) \<or> wm_user m = u \<and> wm_conv m = se_id s" for m using three by auto
    show "session_rows u' s' (cv_share st) \<noteq> []" if k: "(u', s') \<noteq> (u, se_id s)" and o: "session_rows u' s' (cv_share ?st) \<noteq> []" for u' s'
    proof -
      from o obtain x sc f where f: "(x, u', sc, f) \<in> row_keys (cv_share ?st) RSessions" "x = JStr s' \<and> sc = ''personal'' \<or> f = Some (JStr s')"
        unfolding session_rows_iff by blast
      from three consider "cv_share ?st = cv_share st" | "cv_share ?st = sh1" | "cv_share ?st = upsert_session now u s ids sh1" by auto
      then have "(x, u', sc, f) \<in> row_keys (cv_share st) RSessions"
      proof cases
        case 3
        with f(1) have "(x, u', sc, f) \<in> row_keys (upsert_session now u s ids sh1) RSessions" by simp
        from keys [OF this] f(2) k show ?thesis by auto
      qed (use f in \<open>simp_all add: sh1_def\<close>)
      with f(2) show ?thesis unfolding session_rows_iff by blast
    qed
    show "point_gone env u' s' ?st" if k: "(u', s') \<noteq> (u, se_id s)" and l: "length s' = 36" and p: "point_gone env u' s' st" for u' s'
    proof -
      have ne: "session_conversation_point_id env u' s' \<noteq> session_conversation_point_id env u (se_id s)"
        using session_point_unique [OF assms(1) l assms(2)] k by blast
      have "set (ss_points (cv_share ?st) ''conversations'') \<subseteq> insert (session_conversation_point_id env u (se_id s), payload) (set (ss_points (cv_share st) ''conversations''))"
        using three set_dict_set [of "session_conversation_point_id env u (se_id s)" payload "ss_points (cv_share st) ''conversations''"]
        by (auto simp: pts sh1_def put_point_def)
      with p ne show ?thesis unfolding point_gone_def by auto
    qed
  qed
qed

subsection \<open>Sharing a session\<close>

lemma mirror_adds:
  assumes "sr_from new = Some src"
  shows "x \<in> row_keys (snd (mirror_and_insert env fl res emb payload new upd src st)) r \<Longrightarrow> x \<in> row_keys st r \<or> r = res \<and> x = row_key new"
    and "fst ` set (ss_points (snd (mirror_and_insert env fl res emb payload new upd src st)) c) \<subseteq>
      insert (projection_point_id env (collection_of res) (pk_text src) (sr_scope new)) (fst ` set (ss_points st c))"
proof -
  let ?c = "collection_of res" let ?pid = "projection_point_id env ?c (pk_text src) (sr_scope new)"
  let ?st = "snd (mirror_and_insert env fl res emb payload new upd src st)"
  define st1 where "st1 = (if sh_embed env emb then put_point ?c ?pid payload st else st)"
  have rows: "ss_rows st1 = ss_rows st" by (simp add: st1_def)
  have pts: "fst ` set (ss_points st1 c) \<subseteq> insert ?pid (fst ` set (ss_points st c))"
    using set_dict_set [of ?pid payload "ss_points st c"] by (auto simp: st1_def put_point_def)
  have three: "?st = st \<or> ?st = st1 \<or> ?st = drop_points ?c (\<lambda>x. fst x = ?pid) st1 \<or> (\<exists>row. upsert_projection res new upd src st1 = Some (row, ?st))"
    by (simp add: mirror_and_insert_def Let_def qdrant_upsert_safe_def insert_projection_or_rollback_qdrant_def qdrant_delete_safe_def st1_def split: option.split prod.split)
  show "fst ` set (ss_points ?st c) \<subseteq> insert ?pid (fst ` set (ss_points st c))"
  proof -
    have "set (ss_points ?st c) \<subseteq> set (ss_points st c) \<union> set (ss_points st1 c)"
      using three upsert_projection_keys(1) [OF _ assms(1)] by (auto simp: set_drop_points split: if_splits)
    then have "fst ` set (ss_points ?st c) \<subseteq> fst ` set (ss_points st c) \<union> fst ` set (ss_points st1 c)" by blast
    with pts show ?thesis by blast
  qed
  assume k: "x \<in> row_keys ?st r"
  from three consider "ss_rows ?st = ss_rows st" | row where "upsert_projection res new upd src st1 = Some (row, ?st)"
    using rows by fastforce
  then show "x \<in> row_keys st r \<or> r = res \<and> x = row_key new"
  proof cases
    case 1
    with k show ?thesis by simp
  next
    case 2
    show ?thesis
    proof (cases "r = res")
      case True
      from upsert_projection_keys(2) [OF 2 assms(1)] have "row_keys ?st res \<subseteq> insert (row_key new) (row_keys st1 res)" by blast
      with k True show ?thesis unfolding rows by blast
    next
      case False
      from upsert_projection_keys(3) [OF 2 assms(1) False] k rows show ?thesis by simp
    qed
  qed
qed

lemma publish_session_adds:
  shows "session_rows u' sid (snd (publish_session env fl now pk scope summary u st)) \<noteq> [] \<Longrightarrow> session_rows u' sid st \<noteq> []"
    and "\<exists>t. fst ` set (ss_points (snd (publish_session env fl now pk scope summary u st)) c) \<subseteq>
      insert (projection_point_id env ''conversations'' t ''shared'') (fst ` set (ss_points st c))"
proof -
  let ?st = "snd (publish_session env fl now pk scope summary u st)"
  have "?st = st \<or> (\<exists>src override. ?st = snd (project_session env fl now src ''shared'' u override st) \<and> is_source st RSessions (sr_pk src) u)"
  proof (cases "fetch_own env RSessions pk u st")
    case (Some m)
    show ?thesis
    proof (cases m)
      case inner: (Some src)
      from fetched_source Some inner have "is_source st RSessions (sr_pk src) u" by simp
      then show ?thesis using Some inner
        by (auto simp: publish_session_def publish_checked_def project_resource_def split: option.split prod.split) (metis snd_conv)+
    qed (simp add: publish_session_def publish_checked_def Some)
  qed (simp add: publish_session_def publish_checked_def)
  then have two: "?st = st \<or> (\<exists>emb payload new upd src. ?st = snd (mirror_and_insert env fl RSessions emb payload new upd src st) \<and>
      sr_from new = Some src \<and> sr_scope new = ''shared'' \<and> sr_user new = u \<and> is_source st RSessions src u)"
    by (fastforce simp: project_session_def valid_target_scope_def Let_def)
  show "session_rows u' sid st \<noteq> []" if k: "session_rows u' sid ?st \<noteq> []"
    using two
  proof (elim disjE exE conjE)
    assume "?st = st" with k show ?thesis by simp
  next
    fix emb payload new upd src
    assume e: "?st = snd (mirror_and_insert env fl RSessions emb payload new upd src st)"
      and n: "sr_from new = Some src" "sr_scope new = ''shared''" "sr_user new = u" and src: "is_source st RSessions src u"
    from k obtain x sc f where x: "(x, u', sc, f) \<in> row_keys ?st RSessions" "x = JStr sid \<and> sc = ''personal'' \<or> f = Some (JStr sid)"
      unfolding session_rows_iff by blast
    from mirror_adds(1) [OF n(1) x(1) [unfolded e]] consider "(x, u', sc, f) \<in> row_keys st RSessions" | "(x, u', sc, f) = row_key new" by blast
    then show ?thesis
    proof cases
      case 1
      with x(2) show ?thesis unfolding session_rows_iff by blast
    next
      case 2
      with n x(2) have "u' = u" "src = JStr sid" by (auto simp: row_key_def)
      with src show ?thesis unfolding session_rows_iff is_source_def by blast
    qed
  qed
  show "\<exists>t. fst ` set (ss_points ?st c) \<subseteq> insert (projection_point_id env ''conversations'' t ''shared'') (fst ` set (ss_points st c))"
    using two
  proof (elim disjE exE conjE)
    assume "?st = st" then show ?thesis by auto
  next
    fix emb payload new upd src
    assume e: "?st = snd (mirror_and_insert env fl RSessions emb payload new upd src st)" and n: "sr_from new = Some src" "sr_scope new = ''shared''"
    show ?thesis
      unfolding e using mirror_adds(2) [OF n(1), of env fl RSessions emb payload upd st c] n(2) by (intro exI [of _ "pk_text src"]) simp
  qed
qed

lemma unproject_uuid_lessens:
  "row_keys (snd (unproject_uuid_pk env fl res raw scope st)) r \<subseteq> row_keys st r"
  "set (ss_points (snd (unproject_uuid_pk env fl res raw scope st)) c) \<subseteq> set (ss_points st c)"
proof -
  show "row_keys (snd (unproject_uuid_pk env fl res raw scope st)) r \<subseteq> row_keys st r"
    by (simp add: unproject_uuid_pk_def Let_def qdrant_delete_safe_def split: option.split) auto
  show "set (ss_points (snd (unproject_uuid_pk env fl res raw scope st)) c) \<subseteq> set (ss_points st c)"
    by (auto simp: unproject_uuid_pk_def Let_def qdrant_delete_safe_def set_drop_points split: option.splits if_splits)
qed

lemma unpublish_session_lessens:
  "row_keys (snd (unpublish_one env fl now RSessions pk u st)) r \<subseteq> row_keys st r"
  "set (ss_points (snd (unpublish_one env fl now RSessions pk u st)) c) \<subseteq> set (ss_points st c)"
proof -
  have two: "snd (unpublish_one env fl now RSessions pk u st) \<in> {st, snd (unproject_uuid_pk env fl RSessions pk ''shared'' st)}"
    by (cases "unproject_uuid_pk env fl RSessions pk ''shared'' st") (auto simp: unpublish_one_def unproject_resource_def unproject_session_def split: option.split)
  then consider "snd (unpublish_one env fl now RSessions pk u st) = st" | "snd (unpublish_one env fl now RSessions pk u st) = snd (unproject_uuid_pk env fl RSessions pk ''shared'' st)"
    by blast
  then show "row_keys (snd (unpublish_one env fl now RSessions pk u st)) r \<subseteq> row_keys st r"
    "set (ss_points (snd (unpublish_one env fl now RSessions pk u st)) c) \<subseteq> set (ss_points st c)"
    by (cases; simp only: unproject_uuid_lessens subset_refl)+
qed

lemma share_lessens:
  assumes "\<And>u s. session_rows u s sh \<noteq> [] \<Longrightarrow> session_rows u s (cv_share st) \<noteq> []"
    and "\<And>u s. session_conversation_point_id env u s \<in> fst ` set (ss_points sh ''conversations'') \<Longrightarrow>
      session_conversation_point_id env u s \<in> fst ` set (ss_points (cv_share st) ''conversations'')"
  shows "lessens env st (st\<lparr>cv_share := sh\<rparr>)"
proof -
  have "conversation_gone v s (st\<lparr>cv_share := sh\<rparr>)" if "conversation_gone v s st" for v s
    by (rule gone_mono [OF that]) (use assms(1) in auto)
  moreover have "point_gone env v s (st\<lparr>cv_share := sh\<rparr>)" if "point_gone env v s st" for v s
    using that assms(2) [of v s] unfolding point_gone_def by auto
  ultimately show ?thesis by (simp add: lessens_def)
qed

lemma publish_session_lessens:
  assumes "inj (sh_uuid5 env)" shows "lessens env st (st\<lparr>cv_share := snd (publish_session env fl now pk scope summary u (cv_share st))\<rparr>)"
proof (rule share_lessens)
  show "session_rows u' s (cv_share st) \<noteq> []" if "session_rows u' s (snd (publish_session env fl now pk scope summary u (cv_share st))) \<noteq> []" for u' s
    using that by (rule publish_session_adds(1))
  obtain t where t: "fst ` set (ss_points (snd (publish_session env fl now pk scope summary u (cv_share st))) ''conversations'') \<subseteq>
      insert (projection_point_id env ''conversations'' t ''shared'') (fst ` set (ss_points (cv_share st) ''conversations''))"
    using publish_session_adds(2) by blast
  have ne: "session_conversation_point_id env u' s \<noteq> projection_point_id env ''conversations'' t ''shared''" for u' s
    using assms by (auto simp: session_conversation_point_id_def projection_point_id_def dest: injD)
  show "session_conversation_point_id env u' s \<in> fst ` set (ss_points (cv_share st) ''conversations'')"
    if "session_conversation_point_id env u' s \<in> fst ` set (ss_points (snd (publish_session env fl now pk scope summary u (cv_share st))) ''conversations'')" for u' s
    using subsetD [OF t that] ne by blast
qed

lemma unpublish_lessens: "lessens env st (st\<lparr>cv_share := snd (unpublish_one env fl now RSessions pk u (cv_share st))\<rparr>)"
proof (rule share_lessens)
  show "session_rows u' s (cv_share st) \<noteq> []" if "session_rows u' s (snd (unpublish_one env fl now RSessions pk u (cv_share st))) \<noteq> []" for u' s
    using that unpublish_session_lessens(1) [of env fl now pk u "cv_share st" RSessions] unfolding session_rows_iff by blast
  show "session_conversation_point_id env u' s \<in> fst ` set (ss_points (cv_share st) ''conversations'')"
    if "session_conversation_point_id env u' s \<in> fst ` set (ss_points (snd (unpublish_one env fl now RSessions pk u (cv_share st))) ''conversations'')" for u' s
    by (rule subsetD [OF image_mono [OF unpublish_session_lessens(2)] that])
qed

subsection \<open>The sweeper\<close>

definition sweep_arms :: "share_env \<Rightarrow> conv_faults \<Rightarrow> conv_tomb \<Rightarrow> conv_state \<Rightarrow> purge_result \<times> conv_state" where
  "sweep_arms env fl t st =
     (let acc0 = (fresh_result\<lparr>pg_rows := True, pg_points := tb_qdrant t, pg_graph := tb_graph t, pg_entities := True\<rparr>, st);
          acc1 = (if tb_qdrant t then acc0 else points_arm env fl ''qdrant[sweep]'' (tb_user t) (tb_conv t) acc0)
      in if tb_graph t then acc1 else graph_arm fl ''graph[sweep]'' (tb_user t) (tb_conv t) acc1)"

lemma sweep_one_unfold:
  "sweep_one env fl now t st =
     (if \<not> cf_tomb fl then (False, snd (sweep_arms env fl t st))
      else (\<not> purge_partial (fst (sweep_arms env fl t st)),
        (snd (sweep_arms env fl t st))\<lparr>cv_tombs := update_where (\<lambda>x. tb_user x = tb_user t \<and> tb_conv x = tb_conv t) (swept_tomb now (fst (sweep_arms env fl t st)))
          (cv_tombs (snd (sweep_arms env fl t st)))\<rparr>))"
  by (simp add: sweep_one_def sweep_arms_def Let_def split: prod.split)

lemma sweep_arms_facts:
  shows "store_only st (snd (sweep_arms env fl t st))"
    and "pg_rows (fst (sweep_arms env fl t st))" and "pg_entities (fst (sweep_arms env fl t st))"
    and "pg_points (fst (sweep_arms env fl t st)) \<Longrightarrow> (tb_qdrant t \<Longrightarrow> point_gone env (tb_user t) (tb_conv t) st) \<Longrightarrow>
      point_gone env (tb_user t) (tb_conv t) (snd (sweep_arms env fl t st))"
proof -
  define acc0 where "acc0 = (fresh_result\<lparr>pg_rows := True, pg_points := tb_qdrant t, pg_graph := tb_graph t, pg_entities := True\<rparr>, st)"
  define acc1 where "acc1 = (if tb_qdrant t then acc0 else points_arm env fl ''qdrant[sweep]'' (tb_user t) (tb_conv t) acc0)"
  have a: "sweep_arms env fl t st = (if tb_graph t then acc1 else graph_arm fl ''graph[sweep]'' (tb_user t) (tb_conv t) acc1)"
    by (simp add: sweep_arms_def Let_def acc0_def acc1_def)
  have s0: "snd acc0 = st" by (simp add: acc0_def)
  have s1: "store_only st (snd acc1)" using arm_frame(1) [of acc0] by (simp add: acc1_def s0)
  have s2: "store_only (snd acc1) (snd (sweep_arms env fl t st))" using arm_frame(2) [of acc1] by (simp add: a)
  show "store_only st (snd (sweep_arms env fl t st))" by (rule store_only_trans [OF s1 s2])
  show "pg_rows (fst (sweep_arms env fl t st))" "pg_entities (fst (sweep_arms env fl t st))"
    unfolding a acc1_def by (simp_all add: graph_arm_result(1,3) points_arm_result(1,3) acc0_def)
  have p: "pg_points (fst (sweep_arms env fl t st)) = pg_points (fst acc1)" unfolding a by (simp add: graph_arm_result(2))
  show "point_gone env (tb_user t) (tb_conv t) (snd (sweep_arms env fl t st))"
    if "pg_points (fst (sweep_arms env fl t st))" and q: "tb_qdrant t \<Longrightarrow> point_gone env (tb_user t) (tb_conv t) st"
  proof -
    have "point_gone env (tb_user t) (tb_conv t) (snd acc1)"
    proof (cases "tb_qdrant t")
      case True
      then show ?thesis using q by (simp add: acc1_def acc0_def)
    next
      case False
      then have ok: "pg_points (fst (points_arm env fl ''qdrant[sweep]'' (tb_user t) (tb_conv t) acc0))" using that(1) unfolding p by (simp add: acc1_def)
      show ?thesis unfolding point_gone_def acc1_def using False points_arm_result(4) [OF ok] by (simp add: session_points_def)
    qed
    with store_only_lessens [OF s2] show ?thesis unfolding lessens_def by blast
  qed
qed

lemma sweep_one_good:
  assumes "purged_good env B st" and "(tb_user t, tb_conv t) \<notin> B \<Longrightarrow> tb_qdrant t \<Longrightarrow> point_gone env (tb_user t) (tb_conv t) st"
  shows "purged_good env B (snd (sweep_one env fl now t st)) \<and> lessens env st (snd (sweep_one env fl now t st))"
proof -
  let ?a = "sweep_arms env fl t st"
  note s = sweep_arms_facts(1) [of st env fl t]
  have g: "purged_good env B (snd ?a)" by (rule lessens_good [OF assms(1) store_only_lessens [OF s]]) (use s in \<open>simp add: store_only_def\<close>)
  have l: "lessens env st (snd ?a)" by (rule store_only_lessens [OF s])
  have "purged_good env B ((snd ?a)\<lparr>cv_tombs := update_where (\<lambda>x. tb_user x = tb_user t \<and> tb_conv x = tb_conv t) (swept_tomb now (fst ?a)) (cv_tombs (snd ?a))\<rparr>)"
    by (rule marked_good [OF g, where q = "pg_points (fst ?a)"]) (rule sweep_arms_facts(4) [OF _ assms(2)], assumption+, simp add: swept_tomb_def mark_tomb_def)
  with g l show ?thesis by (simp add: sweep_one_unfold lessens_def tombs_ignored)
qed

lemma sweep_fold_good:
  assumes "purged_good env B (snd acc)" and "\<And>t. t \<in> set ts \<Longrightarrow> (tb_user t, tb_conv t) \<notin> B \<Longrightarrow> tb_qdrant t \<Longrightarrow> point_gone env (tb_user t) (tb_conv t) (snd acc)"
  shows "purged_good env B (snd (fold (\<lambda>t (n, s). case sweep_one env (fls t) now t s of (ok, s1) \<Rightarrow> (if ok then n + 1 else n, s1)) ts acc))"
  using assms
proof (induction ts arbitrary: acc)
  case (Cons t ts)
  obtain n s where acc: "acc = (n, s)" by (cases acc)
  obtain ok s1 where one: "sweep_one env (fls t) now t s = (ok, s1)" by (cases "sweep_one env (fls t) now t s")
  have g: "purged_good env B s1" and l: "lessens env s s1"
    using sweep_one_good [of env B s t "fls t" now] Cons.prems by (simp_all add: acc one)
  have "purged_good env B (snd (fold (\<lambda>t (n, s). case sweep_one env (fls t) now t s of (ok, s1) \<Rightarrow> (if ok then n + 1 else n, s1)) ts (if ok then n + 1 else n, s1)))"
  proof (rule Cons.IH)
    show "point_gone env (tb_user x) (tb_conv x) (snd (if ok then n + 1 else n, s1))" if "x \<in> set ts" "(tb_user x, tb_conv x) \<notin> B" "tb_qdrant x" for x
      using Cons.prems(2) [of x] that l unfolding lessens_def acc by simp
  qed (simp add: g)
  then show ?case by (simp add: acc one)
qed simp

lemma sweep_good:
  assumes "purged_good env B st" shows "purged_good env B (snd (sweep_partial_purges env fls now st))"
  unfolding sweep_partial_purges_def
proof (rule sweep_fold_good)
  show "point_gone env (tb_user t) (tb_conv t) (snd (0, st))" if "t \<in> set (sweep_candidates now st)" "(tb_user t, tb_conv t) \<notin> B" "tb_qdrant t" for t
  proof -
    have "t \<in> set (cv_tombs st)" using that(1) by (auto simp: sweep_candidates_def dest: in_set_takeD)
    from purged_goodD(3) [OF assms this that(2,3)] show ?thesis by simp
  qed
qed (simp add: assms)

subsection \<open>The machine\<close>

datatype conv_event =
    EvCreate string user_id string string
  | EvPut user_id string "string option" "string option"
  | EvAppend user_id string message_body
  | EvEnd handlers user_id string "json list"
  | EvJob user_id string "(session_summary \<times> json list) option"
  | EvWrite user_id session_summary "json list"
  | EvDelete user_id string
  | EvSweep "conv_tomb \<Rightarrow> conv_faults"
  | EvPublish faults user_id string "json option" "json option"
  | EvUnpublish faults user_id string

text \<open>\<open>EvJob\<close> is a job that nothing interrupts, \<open>EvWrite\<close> the end of one whose checks are over.\<close>

definition conv_apply :: "share_env \<Rightarrow> conv_state \<Rightarrow> instant \<times> conv_faults \<times> conv_event \<Rightarrow> conv_state" where
  "conv_apply env st e = (case e of (now, fl, ev) \<Rightarrow> case ev of
     EvCreate i u title model \<Rightarrow> snd (create_web_conversation now i u title model st)
   | EvPut u raw title model \<Rightarrow> snd (patch_conversation now u raw title model st)
   | EvAppend u raw b \<Rightarrow> snd (append_message now u raw b st)
   | EvEnd hs u raw ms \<Rightarrow> snd (session_end_route hs now u raw ms st)
   | EvJob u sid work \<Rightarrow> snd (handle_session_end env fl now id id u sid work st)
   | EvWrite u s ids \<Rightarrow> (case write_session env fl now u s ids st of (ok, st1) \<Rightarrow> if ok then st1\<lparr>cv_ended := cv_ended st1 @ [(u, se_id s)]\<rparr> else st1)
   | EvDelete u raw \<Rightarrow> snd (delete_conversation_route env fl now u raw st)
   | EvSweep fls \<Rightarrow> snd (sweep_partial_purges env fls now st)
   | EvPublish sfl u pk scope summary \<Rightarrow> st\<lparr>cv_share := snd (publish_session env sfl now pk scope summary u (cv_share st))\<rparr>
   | EvUnpublish sfl u pk \<Rightarrow> st\<lparr>cv_share := snd (unpublish_one env sfl now RSessions pk u (cv_share st))\<rparr>)"

text \<open>Ids that were not given by a request have the length of a UUID.\<close>

definition conv_admits :: "instant \<times> conv_faults \<times> conv_event \<Rightarrow> bool" where
  "conv_admits e = (case e of (now, fl, ev) \<Rightarrow> case ev of EvCreate i u t m \<Rightarrow> length i = 36 | EvJob u sid w \<Rightarrow> length sid = 36
   | EvWrite u s ids \<Rightarrow> length (se_id s) = 36 | _ \<Rightarrow> True)"

text \<open>The conversations that were already purged when a job whose check had found no tombstone wrote them.\<close>

fun late_writes :: "share_env \<Rightarrow> conv_state \<Rightarrow> (instant \<times> conv_faults \<times> conv_event) list \<Rightarrow> (user_id \<times> string) list" where
  "late_writes env st [] = []"
| "late_writes env st (e # es) =
     (case snd (snd e) of EvWrite u s ids \<Rightarrow> if is_conversation_purged u (se_id s) st then [(u, se_id s)] else [] | _ \<Rightarrow> [])
       @ late_writes env (conv_apply env st e) es"

definition no_conversations :: conv_state where
  "no_conversations = \<lparr>cv_share = no_shares, cv_convs = [], cv_msgs = [], cv_tombs = [], cv_batch = \<lparr>bs_jobs = [], bs_next = 1, bs_events = [], bs_runs = []\<rparr>,
     cv_graph = [], cv_graph_shared = [], cv_proposals = [], cv_ended = []\<rparr>"

lemma length_uuid_text: "uuid_text s = Some t \<Longrightarrow> length t = 36"
  by (auto simp: uuid_text_def Let_def hex32_def split: if_splits)

lemma parsed_length: "parse_conversation_id s = Inr t \<Longrightarrow> length t = 36"
  by (auto simp: parse_conversation_id_def split: option.splits dest: length_uuid_text)

lemma conv_upsert_good:
  assumes "purged_good env B st" shows "purged_good env B (snd (upsert_web_conversation now u cid title model st))"
proof (cases "is_conversation_purged u cid st")
  case True
  then show ?thesis using assms by (simp only: upsert_about(3))
next
  case False
  show ?thesis by (rule write_elsewhere [OF assms upsert_about(1,2)]) (use False in blast)
qed

lemma append_good:
  assumes "purged_good env B st" shows "purged_good env B (snd (append_web_message now u cid b st))"
proof (cases "is_conversation_purged u cid st")
  case True
  then show ?thesis using assms by (simp only: append_about(3))
next
  case False
  show ?thesis by (rule write_elsewhere [OF assms append_about(1,2)]) (use False in blast)
qed

lemma ended_ignored: "purged_good env B (st\<lparr>cv_ended := x\<rparr>) = purged_good env B st"
  by (simp add: purged_good_def conversation_gone_def web_gone_def own_conversation_def point_gone_def)

lemma write_good:
  assumes "purged_good env B st" and "inj (sh_uuid5 env)" and "length (se_id s) = 36" and "is_conversation_purged u (se_id s) st \<Longrightarrow> (u, se_id s) \<in> B"
  shows "purged_good env B (snd (write_session env fl now u s ids st))"
  by (rule write_elsewhere [OF assms(1) write_about(1) [OF assms(2,3)] write_about(2) [OF assms(2,3)] assms(4)])

lemma session_end_good:
  assumes "purged_good env B st" and "inj (sh_uuid5 env)" and "length sid = 36"
  shows "purged_good env B (snd (handle_session_end env fl now id id u sid work st))"
proof -
  have w: "purged_good env B s1" if "store_session env fl now id u (s\<lparr>se_id := sid\<rparr>) ids st = (ok, s1)" for s ids ok s1
    using write_good [OF assms(1,2), of "s\<lparr>se_id := sid\<rparr>" u fl now ids] that assms(1,3) by (auto simp: store_session_def split: if_splits)
  with assms(1) show ?thesis by (auto simp: handle_session_end_def ended_ignored split: option.split prod.split)
qed

lemma conv_apply_good:
  assumes "purged_good env B st" and "inj (sh_uuid5 env)" and "conv_admits e" and "set (late_writes env st [e]) \<subseteq> B" shows "purged_good env B (conv_apply env st e)"
proof -
  obtain now fl ev where e: "e = (now, fl, ev)" by (cases e) auto
  note good = assms(1)
  have up: "purged_good env B st1" if "upsert_web_conversation now u cid t m st = (r, st1)" for u cid t m r st1
    using conv_upsert_good [OF good, of now u cid t m] that by simp
  have del: "purged_good env B st1" if "delete_conversation env fl now u cid st = (r, st1)" "length cid = 36" for u cid r st1
    using conv_delete_good [OF good that(2), of fl now u] that(1) by simp
  show ?thesis
  proof (cases ev)
    case (EvCreate i u title model)
    then show ?thesis by (auto simp: conv_apply_def e create_web_conversation_def split: prod.split sum.split dest: up)
  next
    case (EvPut u raw title model)
    then show ?thesis using good by (auto simp: conv_apply_def e patch_conversation_def update_web_conversation_def split: prod.split sum.split dest: up)
  next
    case (EvAppend u raw b)
    then show ?thesis using good append_good [OF good] by (auto simp: conv_apply_def e append_message_def split: sum.split)
  next
    case (EvEnd hs u raw ms)
    have "purged_good env B (st\<lparr>cv_batch := b\<rparr>)" for b by (rule lessens_good [OF good batch_lessens]) simp
    with EvEnd good show ?thesis by (auto simp: conv_apply_def e session_end_route_def split: option.split prod.split sum.split batch_error.split)
  next
    case (EvJob u sid work)
    then show ?thesis using session_end_good [OF good assms(2)] assms(3) by (simp add: conv_apply_def e conv_admits_def)
  next
    case (EvWrite u s ids)
    have "purged_good env B (snd (write_session env fl now u s ids st))"
      by (rule write_good [OF good assms(2)]) (use assms(3,4) EvWrite e in \<open>auto simp: conv_admits_def\<close>)
    then show ?thesis using EvWrite by (auto simp: conv_apply_def e ended_ignored split: prod.split)
  next
    case (EvDelete u raw)
    then show ?thesis using good by (auto simp: conv_apply_def e delete_conversation_route_def split: sum.split prod.split dest: parsed_length del)
  next
    case (EvSweep fls)
    then show ?thesis using sweep_good [OF good] by (simp add: conv_apply_def e)
  next
    case (EvPublish sfl u pk scope summary)
    then show ?thesis using lessens_good [OF good publish_session_lessens [OF assms(2)]] by (simp add: conv_apply_def e)
  next
    case (EvUnpublish sfl u pk)
    then show ?thesis using lessens_good [OF good unpublish_lessens] by (simp add: conv_apply_def e)
  qed
qed

lemma late_writes_Cons: "late_writes env st (e # es) = late_writes env st [e] @ late_writes env (conv_apply env st e) es"
  by simp

lemma conv_run_good:
  assumes "purged_good env B st" and "inj (sh_uuid5 env)" and "list_all conv_admits evs" and "set (late_writes env st evs) \<subseteq> B"
  shows "purged_good env B (foldl (conv_apply env) st evs)"
  using assms
proof (induction evs arbitrary: st)
  case (Cons e es)
  have late: "set (late_writes env st [e]) \<subseteq> B" "set (late_writes env (conv_apply env st e) es) \<subseteq> B"
    using Cons.prems(4) unfolding late_writes_Cons [of env st e es] by simp_all
  have "conv_admits e" using Cons.prems(3) by simp
  from Cons.IH [OF conv_apply_good [OF Cons.prems(1,2) this late(1)] Cons.prems(2) _ late(2)] Cons.prems(3) show ?case by simp
qed simp

lemma purged_run_good:
  assumes "inj (sh_uuid5 env)" and "list_all conv_admits evs"
  shows "purged_good env (set (late_writes env no_conversations evs)) (foldl (conv_apply env) no_conversations evs)"
  by (rule conv_run_good [OF _ assms]) (simp_all add: purged_good_def no_conversations_def)

text \<open>
  A job that others interrupt while the model works and while the summary is embedded does what its
  parts do as events; it is cut short by a tombstone that either check finds.
\<close>

lemma job_is_made_of_events:
  fixes st env
  defines "run \<equiv> \<lambda>es s. foldl (conv_apply env) s es"
  shows "snd (handle_session_end env fl now (run during) (run gap) u sid work st) =
    (if is_conversation_purged u sid st then st
     else case work of None \<Rightarrow> run during st
     | Some (s, ids) \<Rightarrow>
         if is_conversation_purged u sid (run during st) then (run during st)\<lparr>cv_ended := cv_ended (run during st) @ [(u, sid)]\<rparr>
         else run (during @ gap @ [(now, fl, EvWrite u (s\<lparr>se_id := sid\<rparr>) ids)]) st)"
  by (auto simp: handle_session_end_def store_session_def run_def conv_apply_def split: option.split prod.split)

text \<open>
  C28. Events are handled one after the other, the tombstone check of a job and its write being events
  of their own. Once a conversation is purged it does not come back, whatever else happens - a job that
  starts or has its check after the deletion included: its owner has no header, message or session row of
  that id, no session row of the owner was published from it, and when the tombstone says that the points
  were deleted, the one of the summary is not there. There is one exception, which the hypothesis names:
  a job that made its last check before the deletion and writes after it (\<open>late_writes\<close>; the finding
  on \<open>memory.py\<close>) brings the session back. Assumed: \<open>uuid5\<close> is injective, and generated ids have the
  length of a UUID.
\<close>

theorem purged_conversations_stay_gone:
  assumes "inj (sh_uuid5 env)" and "list_all conv_admits evs" and "st = foldl (conv_apply env) no_conversations evs"
    and "t \<in> set (cv_tombs st)" and "(tb_user t, tb_conv t) \<notin> set (late_writes env no_conversations evs)"
  shows "conversation_gone (tb_user t) (tb_conv t) st \<and> (tb_qdrant t \<longrightarrow> point_gone env (tb_user t) (tb_conv t) st)"
  using purged_goodD(2,3) [of env "set (late_writes env no_conversations evs)" st t] purged_run_good [OF assms(1,2)] assms(3-5) by blast

subsection \<open>A deleted conversation\<close>

definition w_sid :: string where "w_sid = ''123e4567-e89b-42d3-a456-426614174000''"

definition all_well :: conv_faults where
  "all_well = \<lparr>cf_rows = None, cf_point = (\<lambda>_ _. None), cf_graph = None, cf_tomb = True, cf_upsert = True, cf_store = True\<rparr>"

definition w_summary :: session_summary where
  "w_summary = \<lparr>se_id = w_sid, se_summary = ''talk'', se_topics = [], se_entities = []\<rparr>"

definition w_life :: "(instant \<times> conv_faults \<times> conv_event) list" where
  "w_life = [(1, all_well, EvJob ''al'' w_sid (Some (w_summary, []))), (2, all_well, EvPublish no_faults ''al'' w_sid None None),
     (3, all_well, EvDelete ''al'' w_sid), (4, all_well, EvJob ''al'' w_sid (Some (w_summary, [])))]"

lemma w_sid_parses: "uuid_text w_sid = Some w_sid"
  by code_simp

lemma w_life_admitted: "list_all conv_admits w_life"
  by (simp add: w_life_def conv_admits_def w_sid_def)

lemma demo_env_inj: "inj (sh_uuid5 demo_env)"
  by (simp add: demo_env_def)

lemma w_life_tombs: "map (\<lambda>t. (tb_user t, tb_conv t, tb_qdrant t)) (cv_tombs (foldl (conv_apply demo_env) no_conversations w_life)) = [(''al'', w_sid, True)]"
  by code_simp

lemma w_life_not_late: "late_writes demo_env no_conversations w_life = []"
  by (simp add: w_life_def)

theorem purged_conversations_stay_gone_witness:
  "conversation_gone ''al'' w_sid (foldl (conv_apply demo_env) no_conversations w_life) \<and> point_gone demo_env ''al'' w_sid (foldl (conv_apply demo_env) no_conversations w_life)"
proof -
  obtain t where t: "t \<in> set (cv_tombs (foldl (conv_apply demo_env) no_conversations w_life))" "tb_user t = ''al''" "tb_conv t = w_sid" "tb_qdrant t"
    using w_life_tombs by (cases "cv_tombs (foldl (conv_apply demo_env) no_conversations w_life)") auto
  show ?thesis using purged_conversations_stay_gone [OF demo_env_inj w_life_admitted refl t(1)] t(2-4) w_life_not_late by simp
qed

text \<open>Before the deletion the session and what was published of it are there.\<close>

lemma w_life_shared:
  "map (\<lambda>r. (sr_user r, sr_scope r)) (ss_rows (cv_share (foldl (conv_apply demo_env) no_conversations (take 2 w_life))) RSessions) = [(''al'', ''personal''), (''al'', ''shared'')]"
  by code_simp

lemma w_deleted:
  "fst (delete_conversation_route demo_env all_well 3 ''al'' w_sid (foldl (conv_apply demo_env) no_conversations (take 2 w_life))) = Inr (True, w_sid, False) \<and>
   own_session ''al'' w_sid (foldl (conv_apply demo_env) no_conversations (take 2 w_life))"
  by code_simp

theorem complete_deletion_leaves_nothing_witness:
  "let st' = snd (delete_conversation_route demo_env all_well 3 ''al'' w_sid (foldl (conv_apply demo_env) no_conversations (take 2 w_life)))
   in web_gone ''al'' w_sid st' \<and> \<not> own_session ''al'' w_sid st' \<and> published_rows w_sid (cv_share st') = []"
proof -
  let ?st = "foldl (conv_apply demo_env) no_conversations (take 2 w_life)"
  have "delete_conversation_route demo_env all_well 3 ''al'' w_sid ?st = (Inr (True, w_sid, False), snd (delete_conversation_route demo_env all_well 3 ''al'' w_sid ?st))"
    using w_deleted by (metis prod.collapse)
  from complete_deletion_leaves_nothing [OF this] w_deleted show ?thesis by (simp add: Let_def all_well_def)
qed

subsection \<open>Deletions that do not happen\<close>

text \<open>
  A conversation that has not been summarised has no session row: deleting it changes nothing and is
  answered as done. So is a deletion whose transaction failed.
\<close>

lemma web_conversation_is_not_deleted:
  assumes "uuid_text raw = Some cid" and "own_conversation u cid st" and "\<not> own_session u cid st" and "\<not> is_conversation_purged u cid st"
  shows "delete_conversation_route env fl now u raw st = (Inr (True, cid, False), st)"
  using assms by (simp add: delete_conversation_route_def parse_conversation_id_def delete_conversation_def conversation_purge_target_exists_def
      purge_unfold purge_partial_def fresh_result_def)

lemma failed_deletion_is_answered_as_done:
  assumes "uuid_text raw = Some cid" and "own_session u cid st" and "cf_rows fl = Some e"
  shows "delete_conversation_route env fl now u raw st = (Inr (True, cid, False), st)"
  using assms by (simp add: delete_conversation_route_def parse_conversation_id_def delete_conversation_def conversation_purge_target_exists_def
      purge_unfold purge_partial_def fresh_result_def)

text \<open>The session row is found by its id alone: another user who ends a session of that id rewrites it.\<close>

lemma session_of_another_user_is_rewritten:
  "(let st = snd (store_session demo_env all_well 2 id ''bo'' (w_summary\<lparr>se_summary := ''other''\<rparr>) [] (foldl (conv_apply demo_env) no_conversations (take 1 w_life)))
    in map (\<lambda>r. (sr_user r, col (sr_data r) ''summary'')) (ss_rows (cv_share st) RSessions)) = [(''al'', JStr ''other'')]"
  by code_simp

text \<open>Between the check of a job and its write a deletion may pass; the session is back, and stays.\<close>

lemma deletion_between_check_and_write:
  "(let st0 = foldl (conv_apply demo_env) no_conversations (take 1 w_life);
        gap = (\<lambda>s. conv_apply demo_env s (2, all_well, EvDelete ''al'' w_sid));
        st1 = snd (handle_session_end demo_env all_well 3 id gap ''al'' w_sid (Some (w_summary, [])) st0)
    in (is_conversation_purged ''al'' w_sid st1, own_session ''al'' w_sid st1)) = (True, True)"
  by code_simp

end
