(* ===== verification/Spec2Isabelle.thy ===== *)
theory Spec2Isabelle
  imports Breaker PrivacyMode ProposalExecute BatchQueue AuthSessions ChatTools ContextInjection Credentials AccountLife PullJobs Captures Sharing ConversationLife
begin

text \<open>
  A verification development for the orchestrator of Lumogis, a self-hosted assistant
  (\<open>orchestrator/\<close> of the repository).

  \<^bold>\<open>The program.\<close> A chat request enters \<open>loop.py\<close> (\<open>ask\<close>, \<open>ask_stream\<close>), which alternates
  calls of a language model with the tools the model asks for. Tools are found in the
  catalogue of \<open>services/unified_tools.py\<close>: those of the core run in process through
  \<open>services/tools.py\<close>, those of out-of-process capabilities are HTTP calls to services that
  were discovered, vetted and registered by \<open>services/capability_registry.py\<close>. Every tool
  and every action passes the Ask/Do gate of \<open>permissions.py\<close>. Actions
  (\<open>actions/registry.py\<close>, \<open>executor.py\<close>, \<open>audit.py\<close>, \<open>reversibility.py\<close>) are executed
  directly or as proposals that a user approved and a worker claims
  (\<open>services/proposal_queue.py\<close>, \<open>actions/proposal_execute.py\<close>). Long work goes through the
  batch queue (\<open>services/batch_queue.py\<close>). Which model may be used at all is decided by
  \<open>services/privacy_mode.py\<close> and \<open>config.py\<close>, and the providers sit behind the circuit
  breakers of \<open>services/circuit_breaker.py\<close>. Browser users hold refresh sessions
  (\<open>services/auth_sessions.py\<close>) that \<open>auth.py\<close> checks on every request, external clients hold
  tokens (\<open>services/mcp_tokens.py\<close>); accounts are made by an administrator or an invite.

  \<^bold>\<open>Theories, bottom up.\<close>
  \<^item> \<open>Prelude\<close>: Python's \<open>str\<close>, \<open>int\<close> and \<open>json\<close> as far as the code uses them; tables as lists
    of rows with the SQL statements as list operations; the shared contracts as locales
    (systems with an invariant, read-through caches, retry ledgers, event machines).
  \<^item> \<open>Breaker\<close>: \<open>services/circuit_breaker.py\<close>. The breaker object, the registry of
    breakers by cache key, and a provider behind one. Shown: when exactly a circuit is
    closed, what an open one refuses, what each outcome of a provider counts as.
  \<^item> \<open>Permissions\<close>: \<open>permissions.py\<close>. The modes and scopes per user and connector, their
    cache, the gate, the log, the routine counter. Shown: the cache is never stale, the
    gate's decision and its record, what each write leaves alone.
  \<^item> \<open>Actions\<close>: \<open>actions/\<close> and \<open>services/api_v1_risk.py\<close>. Shown: a handler runs exactly
    when the gate allows, one audit row and one event per attempt, what undoing does.
  \<^item> \<open>ProposalQueue\<close>, \<open>ProposalExecute\<close>: the queue of approved proposals as atomic
    statements, and the execution of one proposal with failing statements and interfering
    workers. Shown: exclusive claims, final states, bounded retries, what is recorded.
  \<^item> \<open>IngestProgress\<close>, \<open>BatchQueue\<close>: the job rows with their progress, and the queue with
    its tick, sweep and per-user limit. Shown: concurrency and attempts stay bounded, what
    a tick records, that no job stays stuck.
  \<^item> \<open>AuthSessions\<close>: \<open>services/auth_sessions.py\<close> and the session checks of \<open>auth.py\<close> with
    their two caches. Shown: one live session per login, replay detection, revocation at
    once; and what happens between the two halves of a rotation.
  \<^item> \<open>PrivacyMode\<close>: \<open>services/privacy_mode.py\<close>, \<open>settings_store.py\<close>, the privacy part of
    \<open>routes/admin.py\<close>, and the model classification and provider cache of \<open>config.py\<close>.
    Shown: the policy in force, the fallback of a model, the gate in front of providers.
  \<^item> \<open>CapabilityRegistry\<close>, \<open>CapabilityInvoke\<close>: discovery, vetting, trust and egress of
    capabilities; the HTTP contract of one invocation. Shown: everything registered is
    vetted, pinned identities are stable, how a reply is classified.
  \<^item> \<open>ToolDispatch\<close>: \<open>services/tools.py\<close>, \<open>execution.py\<close>, the out-of-process half of
    \<open>unified_tools.py\<close>, \<open>tool_result_guard.py\<close> and \<open>tool_result_scanner.py\<close>. Shown: which gates
    stand before a capability host, the audit trail, redaction, the catalogue's safety.
  \<^item> \<open>SessionLoop\<close>: \<open>loop.py\<close> with an arbitrary model and arbitrary tools. Shown: the
    loop ends, the cap on tool calls, the form of the transcript, streaming against not.
  \<^item> \<open>ChatTools\<close>: the loop composed with the tools. Shown: a chat respects Ask/Do.
  \<^item> \<open>Visibility\<close>: \<open>visibility.py\<close>, \<open>authz.py\<close>, the filter builder of
    \<open>adapters/qdrant_store.py\<close>. SQL, Cypher and vector-store filters as syntax with a
    semantics each. Shown: all three select the rows one rule allows, nobody but the owner
    is ever given a personal row, which compositions of filters the store honours.
  \<^item> \<open>CodePoints\<close>, \<open>ContextBudget\<close>: texts as lists of code points, and
    \<open>services/context_budget.py\<close>. Shown: what trimming a history keeps, when a cut text fits.
  \<^item> \<open>InjectionMarkup\<close>: \<open>services/injection_sanitiser.py\<close>. Shown: the wrapper cannot be left
    by the text in it, and which texts escape being wrapped; what the pass at ingest ensures.
  \<^item> \<open>Retrieval\<close>: \<open>services/auto_rag.py\<close>, \<open>search.py\<close>, \<open>document_scope.py\<close>, the search of
    \<open>adapters/qdrant_store.py\<close> and \<open>bge_reranker.py\<close>. Shown: only readable chunks of the
    pinned document are returned, bounded and ordered; where the fallback of the search ends
    the visibility rule.
  \<^item> \<open>ContextInjection\<close>: \<open>build_injected_context\<close> of \<open>routes/chat.py\<close>, composed of the five
    theories above. Shown: the history survives, and every excerpt in a prompt is readable
    by its user, fits its slot and stays inside the envelope.
  \<^item> \<open>JsonText\<close>: \<open>json.dumps\<close> with sorted keys, \<open>json.loads\<close> and UTF-8. Shown: what is
    written reads back as an equal value, and the parser's fuel is enough for every text.
  \<^item> \<open>Credentials\<close>: \<open>services/connector_credentials.py\<close>, \<open>credential_tiers.py\<close>,
    \<open>_credential_internals.py\<close>, \<open>llm_connector_map.py\<close>, \<open>connectors/registry.py\<close>. Shown: stored
    payloads read back under any later ring with the key, rotation changes no payload and
    frees the old keys, the resolution order, the form of every row.
  \<^item> \<open>BearerTokens\<close>, \<open>McpTokens\<close>: the tokens of external clients (\<open>services/mcp_tokens.py\<close>,
    \<open>models/mcp_token.py\<close>), the gate in front of \<open>/mcp\<close> and the access-token half of the
    middleware (\<open>auth.py\<close>), user and scope resolution of \<open>mcp_server.py\<close>. Shown: a minted token
    works until it is revoked, every admitted request acts for the owner of its bearer.
  \<^item> \<open>RateLimit\<close>: \<open>rate_limit.py\<close>. Shown: how often a password or an invite can be tried.
  \<^item> \<open>Accounts\<close>, \<open>Invites\<close>: \<open>services/users.py\<close> and \<open>services/user_invites.py\<close>, their
    transactions with a failing statement. Shown: an invite makes one account, of its role.
  \<^item> \<open>AccountRoutes\<close>, \<open>AccountLife\<close>: the handlers of \<open>routes/auth.py\<close>, \<open>admin_users.py\<close>,
    \<open>mcp_tokens.py\<close> and \<open>invites.py\<close>, and one machine whose events are all these requests.
    Shown: disabled accounts are locked out everywhere, an active administrator remains; and
    what two concurrent requests, a deletion and a demotion leave behind.
  \<^item> \<open>PullJobs\<close>: \<open>services/ollama_pull_jobs.py\<close> with the stream of \<open>ollama_client.py\<close>. Shown: one
    pull at a time, the slot of a started pull is given back, the one of a lost job is not.
  \<^item> \<open>MediaStorage\<close>, \<open>Captures\<close>: \<open>services/media_storage.py\<close>, \<open>services/captures.py\<close>, the
    handlers of \<open>routes/api_v1/captures.py\<close> and \<open>services/speech_to_text.py\<close>. Shown: a capture
    changes by its owner only and not once it is in memory, what its promotion stores and
    what a failed one leaves, uploads stay below the media root and read back.
  \<^item> \<open>Projection\<close>, \<open>Sharing\<close>: what a member shares with the household
    (\<open>services/projection.py\<close>, \<open>document_entity_cascade.py\<close>; \<open>routes/scope.py\<close>, the share jobs,
    \<open>services/admin_unshare.py\<close>, \<open>shared_items.py\<close>). Shown: every shared point that names
    its source has its row and its owner, a withdrawal leaves no trace, what an administrator
    is told of a retraction, which entities a document takes with it. These hold while the vector store
    carries out deletions and keys are spelled as the database does; shown too is when a point stays
    behind: another spelling, a failing deletion, the discarding of an entity.
  \<^item> \<open>Conversations\<close>, \<open>ConversationLife\<close>: \<open>services/conversations.py\<close>, \<open>memory_purge.py\<close>,
    \<open>store_session\<close> with its job and the routes of both. Shown: the two outcomes of
    a deletion that is answered as done - nothing is left in any store, or nothing was changed -, and that
    a purged conversation comes back only by a job whose last check came before the deletion.
    A job is cut into its checks and its write, with other events in between.

  \<^bold>\<open>State and operations.\<close> A component's tables, caches and counters are the fields of one
  record; a method or function is one definition that returns the new record, with every
  early return and exception as a value of a sum or option type. The effects a property
  speaks about (handler runs, HTTP requests, fired hooks, audit rows, provider calls) are
  recorded in the state as lists, oldest first. Concurrency is made explicit: a SQL statement
  or a method under a lock is one atomic operation, and interleavings are sequences of
  operations (a step relation, or a list of requests), or a change by others placed between
  two statements of one call. Where a machine takes a whole request as one event, its property says so,
  and what two overlapping requests can do is a lemma of its own (a rotation, two promotions of a
  capture, a late transcript, two administrators, a job and a deletion).

  \<^bold>\<open>Conventions and bounds.\<close> Python's integers are \<open>int\<close>; instants and durations are
  microseconds (milliseconds for HTTP timeouts). Texts are lists of the characters below code
  point 256 (all code points from \<open>CodePoints\<close> on); the em dash in the placeholder of redacted results is written as a hyphen.
  The session loop is structural recursion on the rounds that remain: the code's constant
  \<open>MAX_TOOL_ROUNDS\<close> of 2 gives at most three rounds of tools and four provider calls, so no
  fuel is needed; all other loops run over a list. Everything is total.

  \<^bold>\<open>Parameters.\<close> Code that is not in the repository is an argument: language models, tool
  and action handlers, HTTP hosts, the JSON Schema library, \<open>packaging.version\<close>, hashing and
  token generation, clocks and fresh ids, the vector store (which is assumed to honour the
  filter it is given), the embedder and the cross encoder, the
  Fernet library (assumed to decrypt exactly what its keys encrypted) and SHA-256, compiled regular expressions and
  the external scanner, \<open>Path.resolve\<close>, the \<open>::uuid\<close> cast, point ids (assumed distinct for distinct notes), speech recognition, UUID5, argon2, base64 padding and the signing of JWTs (a token is accepted only if its payload was
  issued), the validation of e-mail addresses, plugins that edit the context, the rounding of float products. Statements of the store that may fail, where the
  code reacts to the failure, fail by a flag.

  \<^bold>\<open>Not modelled.\<close> Log lines and metrics; cookies, the same-origin and \<open>Origin\<close> checks; the
  export and import of accounts; HTTP routing and serialisation (\<open>routes/\<close>,
  \<open>models/\<close> beyond the named records); adapters to databases, vector stores, calendars and
  model vendors (\<open>adapters/\<close>, \<open>connectors/\<close>), which only call libraries; start-up and
  scheduling in \<open>main.py\<close>; migrations, except where a table's constraints matter.
\<close>

end
